(* ===== verification/Prelude.thy ===== *)
theory Prelude
  imports Main "HOL-Library.Char_ord" "HOL-Library.List_Lexorder" "HOL-Library.Multiset"
begin

text \<open>
  The shared vocabulary of the development: Go's 64-bit integers, durations and instants,
  Go strings as byte lists with their UTF-8 reading, the outcome of a call that may panic, and
  the list lemmas that several components use.

  An instant (\<open>time.Time\<close>) is the number of nanoseconds since Go's zero time, so the zero
  instant is the one \<open>IsZero\<close> recognises. A duration (\<open>time.Duration\<close>) is an \<open>int64\<close> count of
  nanoseconds; sums of durations wrap, and \<open>Time.Sub\<close> saturates. A Go string is a list of bytes.
\<close>

named_theorems go_defs \<open>unfolding rules for the small Go helpers\<close>
named_theorems slot_simps \<open>reads of a run slot after an update of the store\<close>

type_synonym gotime = int
type_synonym duration = int

subsection \<open>64-bit integers, durations, instants\<close>

definition int64_max :: int where
  "int64_max = 9223372036854775807"

definition int64_min :: int where
  "int64_min = - 9223372036854775808"

definition uint64_max :: int where
  "uint64_max = 18446744073709551615"

definition in_int64 :: "int \<Rightarrow> bool" where
  "in_int64 x \<longleftrightarrow> int64_min \<le> x \<and> x \<le> int64_max"

definition wrap64 :: "int \<Rightarrow> int" where
  "wrap64 x = (x + 9223372036854775808) mod 18446744073709551616 - 9223372036854775808"

definition IsZero :: "gotime \<Rightarrow> bool" where
  "IsZero t \<longleftrightarrow> t = 0"

definition time_Sub :: "gotime \<Rightarrow> gotime \<Rightarrow> duration" where
  "time_Sub t u = max int64_min (min int64_max (t - u))"

definition time_Add :: "gotime \<Rightarrow> duration \<Rightarrow> gotime" where
  "time_Add t d = t + d"

definition Millisecond :: duration where
  "Millisecond = 1000000"

definition Second :: duration where
  "Second = 1000000000"

definition Minute :: duration where
  "Minute = 60000000000"

lemmas [go_defs] = IsZero_def time_Sub_def time_Add_def Millisecond_def Second_def Minute_def
  int64_max_def int64_min_def uint64_max_def in_int64_def

lemma wrap64_id: "in_int64 x \<Longrightarrow> wrap64 x = x"
  by (simp add: wrap64_def go_defs)

lemma wrap64_in_int64 [simp]: "in_int64 (wrap64 x)"
proof -
  have "0 \<le> (x + 9223372036854775808) mod 18446744073709551616"
    and "(x + 9223372036854775808) mod 18446744073709551616 < (18446744073709551616::int)"
    by (rule pos_mod_sign, simp, rule pos_mod_bound, simp)
  then show ?thesis by (simp add: wrap64_def go_defs)
qed

lemma wrap64_add: "wrap64 (wrap64 a + b) = wrap64 (a + b)"
proof -
  have "((a + 9223372036854775808) mod 18446744073709551616 + b) mod 18446744073709551616 =
      (a + 9223372036854775808 + b) mod (18446744073709551616 :: int)" by (rule mod_add_left_eq)
  then show ?thesis by (simp add: wrap64_def ac_simps)
qed

lemma wrap64_inner: "wrap64 (x + wrap64 y) = wrap64 (x + y)"
  using wrap64_add [of y x] by (simp add: add.commute)

lemma wrap64_idem: "wrap64 (wrap64 x) = wrap64 x"
  using wrap64_add [of x 0] by simp

lemma wrap64_cong_right: "wrap64 a = wrap64 b \<Longrightarrow> wrap64 (x + a) = wrap64 (x + b)"
  by (metis wrap64_inner)

lemma time_Sub_self [simp]: "time_Sub t t = 0"
  by (simp add: go_defs)

lemma time_Sub_mono: "t \<le> t' \<Longrightarrow> u' \<le> u \<Longrightarrow> time_Sub t u \<le> time_Sub t' u'"
  by (auto simp: time_Sub_def)

lemma time_Sub_nonneg: "u \<le> t \<Longrightarrow> 0 \<le> time_Sub t u"
  by (simp add: go_defs)

subsection \<open>Calls that may panic\<close>

text \<open>
  A call into foreign code (a collector, a hook) returns a value together with an error, or
  panics. A panic carries what \<open>fmt.Sprint\<close> makes of the panic value, \<open>None\<close> when that
  rendering panics in turn.
\<close>

datatype ('a, 'e) call = Ret 'a "'e option" | Panics "string option"

subsection \<open>Lists\<close>

fun find_index :: "('a \<Rightarrow> bool) \<Rightarrow> 'a list \<Rightarrow> nat option" where
  "find_index P [] = None"
| "find_index P (x # xs) = (if P x then Some 0 else map_option Suc (find_index P xs))"

definition remove_at :: "nat \<Rightarrow> 'a list \<Rightarrow> 'a list" where
  "remove_at i xs = take i xs @ drop (Suc i) xs"

lemma find_index_None: "find_index P xs = None \<longleftrightarrow> (\<forall>x \<in> set xs. \<not> P x)"
  by (induction xs) auto

lemma find_index_Some:
  "find_index P xs = Some i \<Longrightarrow> i < length xs \<and> P (xs ! i) \<and> (\<forall>j < i. \<not> P (xs ! j))"
proof (induction xs arbitrary: i)
  case (Cons x xs)
  then show ?case
    by (auto split: if_splits simp: nth_Cons' less_Suc_eq_0_disj)
qed simp

lemma length_remove_at [simp]: "i < length xs \<Longrightarrow> length (remove_at i xs) = length xs - 1"
  by (simp add: remove_at_def)

lemma set_remove_at: "set (remove_at i xs) \<subseteq> set xs"
  using set_take_subset [of i xs] set_drop_subset [of "Suc i" xs] by (auto simp: remove_at_def)

lemma mset_remove_at:
  assumes "i < length xs"
  shows "mset xs = add_mset (xs ! i) (mset (remove_at i xs))"
proof -
  have "mset xs = mset (take i xs @ xs ! i # drop (Suc i) xs)"
    using id_take_nth_drop [OF assms] by simp
  then show ?thesis by (simp add: remove_at_def)
qed

lemma sorted_wrt_remove_at:
  assumes "sorted_wrt R xs"
  shows "sorted_wrt R (remove_at i xs)"
proof (cases "i < length xs")
  case True
  have "sorted_wrt R (take i xs @ xs ! i # drop (Suc i) xs)"
    using assms id_take_nth_drop [OF True] by simp
  then show ?thesis by (auto simp: remove_at_def sorted_wrt_append)
qed (simp add: remove_at_def assms)

lemma find_Some_iff_mem:
  "List.find P xs = Some x \<Longrightarrow> x \<in> set xs \<and> P x"
  by (metis find_Some_iff nth_mem)

end
