(* ===== verification/Go_Strings.thy ===== *)
theory Go_Strings
  imports Prelude
begin

text \<open>
  The parts of Go's string library the sources use, on strings as byte lists: UTF-8 decoding as
  \<open>range\<close> over a string and \<open>[]rune\<close> do it (an invalid byte is one \<open>U+FFFD\<close>), encoding as
  \<open>string([]rune)\<close> does it, \<open>unicode.IsSpace\<close>, \<open>strings.Fields\<close>, \<open>strings.Join\<close>,
  \<open>strings.TrimSpace\<close> and \<open>strconv.Quote\<close>.
\<close>

type_synonym rune = nat

definition RuneError :: rune where
  "RuneError = 65533"

definition byte :: "char \<Rightarrow> nat" where
  "byte c = of_char c"

definition cont_byte :: "char \<Rightarrow> bool" where
  "cont_byte c \<longleftrightarrow> 128 \<le> byte c \<and> byte c \<le> 191"

text \<open>The second byte's range depends on the first, which rules out overlong forms, surrogates
  and code points above \<open>U+10FFFF\<close>.\<close>

definition second_ok :: "nat \<Rightarrow> char \<Rightarrow> bool" where
  "second_ok b0 c \<longleftrightarrow>
     (if b0 = 224 then 160 \<le> byte c \<and> byte c \<le> 191
      else if b0 = 237 then 128 \<le> byte c \<and> byte c \<le> 159
      else if b0 = 240 then 144 \<le> byte c \<and> byte c \<le> 191
      else if b0 = 244 then 128 \<le> byte c \<and> byte c \<le> 143
      else cont_byte c)"

text \<open>The rune at the front of a non-empty string and the number of bytes it takes.\<close>

fun decodeRune :: "string \<Rightarrow> rune \<times> nat" where
  "decodeRune [] = (RuneError, 0)"
| "decodeRune (c # cs) =
     (let b0 = byte c in
      if b0 < 128 then (b0, 1)
      else if 194 \<le> b0 \<and> b0 \<le> 223 then
        (case cs of
           c1 # _ \<Rightarrow> if second_ok b0 c1 then ((b0 - 192) * 64 + (byte c1 - 128), 2)
                     else (RuneError, 1)
         | _ \<Rightarrow> (RuneError, 1))
      else if 224 \<le> b0 \<and> b0 \<le> 239 then
        (case cs of
           c1 # c2 # _ \<Rightarrow>
             if second_ok b0 c1 \<and> cont_byte c2
             then ((b0 - 224) * 4096 + (byte c1 - 128) * 64 + (byte c2 - 128), 3)
             else (RuneError, 1)
         | _ \<Rightarrow> (RuneError, 1))
      else if 240 \<le> b0 \<and> b0 \<le> 244 then
        (case cs of
           c1 # c2 # c3 # _ \<Rightarrow>
             if second_ok b0 c1 \<and> cont_byte c2 \<and> cont_byte c3
             then ((b0 - 240) * 262144 + (byte c1 - 128) * 4096 + (byte c2 - 128) * 64
                   + (byte c3 - 128), 4)
             else (RuneError, 1)
         | _ \<Rightarrow> (RuneError, 1))
      else (RuneError, 1))"

lemma decodeRune_width: "s \<noteq> [] \<Longrightarrow> 1 \<le> snd (decodeRune s) \<and> snd (decodeRune s) \<le> length s"
  by (cases s rule: decodeRune.cases) (auto simp: Let_def split: list.splits)

text \<open>A string as its runes, each with the bytes it came from.\<close>

function decode :: "string \<Rightarrow> (rune \<times> string) list" where
  "decode s =
     (if s = [] then []
      else let (r, n) = decodeRune s in (r, take n s) # decode (drop n s))"
  by pat_completeness auto
termination
proof (relation "measure length", goal_cases)
  case (2 s p r n)
  then show ?case using decodeRune_width [of s] by (cases "decodeRune s") auto
qed simp

declare decode.simps [simp del]

lemma decode_Nil [simp]: "decode [] = []"
  by (simp add: decode.simps)

definition runes :: "string \<Rightarrow> rune list" where
  "runes s = map fst (decode s)"

lemma concat_decode: "concat (map snd (decode s)) = s"
proof (induction s rule: decode.induct)
  case (1 s)
  show ?case
  proof (cases "s = []")
    case False
    obtain r n where rn: "decodeRune s = (r, n)" by fastforce
    with False "1" have "concat (map snd (decode (drop n s))) = drop n s" by auto
    with False rn show ?thesis by (simp add: decode.simps [of s])
  qed simp
qed

lemma length_decode_le: "length (decode s) \<le> length s"
proof (induction s rule: decode.induct)
  case (1 s)
  show ?case
  proof (cases "s = []")
    case False
    obtain r n where rn: "decodeRune s = (r, n)" by fastforce
    then have "1 \<le> n" "n \<le> length s" using decodeRune_width [OF False] by auto
    moreover have "length (decode (drop n s)) \<le> length (drop n s)" using "1" False rn by auto
    ultimately show ?thesis using False rn by (simp add: decode.simps [of s])
  qed simp
qed

subsection \<open>Encoding\<close>

definition encodeRune :: "rune \<Rightarrow> string" where
  "encodeRune r0 =
     (let r = (if 1114111 < r0 \<or> (55296 \<le> r0 \<and> r0 \<le> 57343) then RuneError else r0) in
      if r < 128 then [char_of r]
      else if r < 2048 then [char_of (192 + r div 64), char_of (128 + r mod 64)]
      else if r < 65536 then
        [char_of (224 + r div 4096), char_of (128 + r div 64 mod 64), char_of (128 + r mod 64)]
      else
        [char_of (240 + r div 262144), char_of (128 + r div 4096 mod 64),
         char_of (128 + r div 64 mod 64), char_of (128 + r mod 64)])"

definition encode :: "rune list \<Rightarrow> string" where
  "encode rs = concat (map encodeRune rs)"

lemma length_encodeRune: "length (encodeRune r) \<le> 4"
  by (simp add: encodeRune_def Let_def)

lemma length_encode: "length (encode rs) \<le> 4 * length rs"
proof (induction rs)
  case (Cons r rs)
  then show ?case using length_encodeRune [of r] by (simp add: encode_def)
qed (simp add: encode_def)

subsection \<open>White space\<close>

definition IsSpace :: "rune \<Rightarrow> bool" where
  "IsSpace r \<longleftrightarrow> r \<in> {9, 10, 11, 12, 13, 32, 133, 160, 5760, 8232, 8233, 8239, 8287, 12288}
     \<or> (8192 \<le> r \<and> r \<le> 8202)"

text \<open>\<open>strings.Fields\<close>: the maximal runs of non-space runes, as their original bytes.\<close>

fun fields_go :: "string \<Rightarrow> (rune \<times> string) list \<Rightarrow> string list" where
  "fields_go w [] = (if w = [] then [] else [w])"
| "fields_go w ((r, b) # xs) =
     (if IsSpace r then (if w = [] then fields_go [] xs else w # fields_go [] xs)
      else fields_go (w @ b) xs)"

definition strings_Fields :: "string \<Rightarrow> string list" where
  "strings_Fields s = fields_go [] (decode s)"

fun strings_Join :: "string list \<Rightarrow> string \<Rightarrow> string" where
  "strings_Join [] sep = []"
| "strings_Join [x] sep = x"
| "strings_Join (x # xs) sep = x @ sep @ strings_Join xs sep"

definition strings_TrimSpace :: "string \<Rightarrow> string" where
  "strings_TrimSpace s =
     concat (map snd (rev (dropWhile (\<lambda>p. IsSpace (fst p))
       (rev (dropWhile (\<lambda>p. IsSpace (fst p)) (decode s))))))"

subsection \<open>Case and searching\<close>

text \<open>
  \<open>strings.ToUpper\<close>, as far as its callers can tell: the ASCII letters, and the two runes outside
  ASCII whose upper case is an ASCII letter (dotless i and long s). Every other rune outside ASCII
  stays outside ASCII and is left as it is; the callers refuse it or compare with ASCII words only.
\<close>

definition upperRune :: "rune \<Rightarrow> rune" where
  "upperRune r = (if 97 \<le> r \<and> r \<le> 122 then r - 32 else if r = 305 then 73 else if r = 383 then 83 else r)"

definition strings_ToUpper :: "string \<Rightarrow> string" where
  "strings_ToUpper s = encode (map upperRune (runes s))"

text \<open>\<open>strings.Index\<close> and \<open>strings.IndexByte\<close>; \<open>None\<close> is -1.\<close>

fun strings_Index :: "string \<Rightarrow> string \<Rightarrow> nat option" where
  "strings_Index s sub =
     (if take (length sub) s = sub then Some 0
      else (case s of [] \<Rightarrow> None | _ # cs \<Rightarrow> map_option Suc (strings_Index cs sub)))"

declare strings_Index.simps [simp del]

definition strings_IndexByte :: "string \<Rightarrow> char \<Rightarrow> nat option" where
  "strings_IndexByte s c = find_index (\<lambda>x. x = c) s"

subsection \<open>Quoting\<close>

text \<open>
  \<open>strconv.Quote\<close>, which is \<open>%q\<close> of \<open>fmt\<close>. \<open>unicode.IsPrint\<close> is exact up to \<open>U+00FF\<close>; above it
  every code point that is not white space is taken to be printable.
\<close>

definition IsPrint :: "rune \<Rightarrow> bool" where
  "IsPrint r \<longleftrightarrow> (if r < 256 then (32 \<le> r \<and> r \<le> 126) \<or> (161 \<le> r \<and> r \<noteq> 173) else \<not> IsSpace r)"

definition lowerhex :: "nat \<Rightarrow> char" where
  "lowerhex d = (if d < 10 then char_of (48 + d) else char_of (87 + d))"

fun hexDigits :: "nat \<Rightarrow> nat \<Rightarrow> string" where
  "hexDigits 0 n = []"
| "hexDigits (Suc k) n = hexDigits k (n div 16) @ [lowerhex (n mod 16)]"

definition backslash :: char where
  "backslash = CHR 0x5C"

definition quoteRune :: "rune \<times> string \<Rightarrow> string" where
  "quoteRune = (\<lambda>(r, b).
     if r = RuneError \<and> length b = 1 then backslash # CHR ''x'' # hexDigits 2 (byte (hd b))
     else if r = 34 \<or> r = 92 then backslash # b
     else if IsPrint r then b
     else if r = 7 then [backslash, CHR ''a'']
     else if r = 8 then [backslash, CHR ''b'']
     else if r = 12 then [backslash, CHR ''f'']
     else if r = 10 then [backslash, CHR ''n'']
     else if r = 13 then [backslash, CHR ''r'']
     else if r = 9 then [backslash, CHR ''t'']
     else if r = 11 then [backslash, CHR ''v'']
     else if r < 32 \<or> r = 127 then backslash # CHR ''x'' # hexDigits 2 r
     else if r < 65536 then backslash # CHR ''u'' # hexDigits 4 r
     else backslash # CHR ''U'' # hexDigits 8 r)"

definition strconv_Quote :: "string \<Rightarrow> string" where
  "strconv_Quote s = [char_of (34 :: nat)] @ concat (map quoteRune (decode s)) @ [char_of (34 :: nat)]"

subsection \<open>Printing numbers and durations\<close>

fun show_nat :: "nat \<Rightarrow> string" where
  "show_nat n =
     (if n < 10 then [char_of (48 + n)] else show_nat (n div 10) @ [char_of (48 + n mod 10)])"

declare show_nat.simps [simp del]

definition show_int :: "int \<Rightarrow> string" where
  "show_int i = (if i < 0 then ''-'' @ show_nat (nat (- i)) else show_nat (nat i))"

text \<open>\<open>fmtFrac\<close> of Go's \<open>time\<close> package: the last \<open>prec\<close> digits as a fraction without trailing
  zeros (and without the point when it is zero), and the quotient.\<close>

fun fmtFrac :: "nat \<Rightarrow> nat \<Rightarrow> bool \<Rightarrow> string \<Rightarrow> string \<times> nat" where
  "fmtFrac v 0 printed acc = ((if printed then ''.'' @ acc else acc), v)"
| "fmtFrac v (Suc prec) printed acc =
     (let digit = v mod 10; printed' = (printed \<or> digit \<noteq> 0) in
      fmtFrac (v div 10) prec printed' (if printed' then char_of (48 + digit) # acc else acc))"

definition Duration_String :: "duration \<Rightarrow> string" where
  "Duration_String d =
     (let u = nat \<bar>d\<bar>; neg = (if d < 0 then ''-'' else []) in
      if u = 0 then ''0s''
      else if u < 1000 then neg @ show_nat u @ ''ns''
      else if u < 1000000 then
        (let (f, q) = fmtFrac u 3 False [] in
         neg @ show_nat q @ f @ [char_of (194::nat), char_of (181::nat)] @ ''s'')
      else if u < 1000000000 then
        (let (f, q) = fmtFrac u 6 False [] in neg @ show_nat q @ f @ ''ms'')
      else
        (let (f, q) = fmtFrac u 9 False []; secs = show_nat (q mod 60) @ f @ ''s''; m = q div 60 in
         if m = 0 then neg @ secs
         else if m div 60 = 0 then neg @ show_nat (m mod 60) @ ''m'' @ secs
         else neg @ show_nat (m div 60) @ ''h'' @ show_nat (m mod 60) @ ''m'' @ secs))"

lemma fields_go_nonempty:
  "(\<forall>p \<in> set xs. snd p \<noteq> []) \<Longrightarrow> f \<in> set (fields_go w xs) \<Longrightarrow> f \<noteq> []"
  by (induction w xs rule: fields_go.induct) (auto split: if_splits)

lemma strings_Join_length:
  "length (strings_Join xs sep) = sum_list (map length xs) + (length xs - 1) * length sep"
proof (induction xs sep rule: strings_Join.induct)
  case (3 x v va sep)
  then show ?case by (simp add: algebra_simps)
qed simp_all

subsection \<open>Validity, hexadecimal text and paths\<close>

text \<open>
  \<open>utf8.ValidString\<close>: no byte decodes to an error of width one. \<open>strings.IndexFunc\<close> is only ever
  compared with zero, so it is the question whether some rune satisfies the predicate.
\<close>

definition utf8_ValidString :: "string \<Rightarrow> bool" where
  "utf8_ValidString s \<longleftrightarrow> list_all (\<lambda>p. \<not> (fst p = RuneError \<and> length (snd p) = 1)) (decode s)"

definition strings_HasRune :: "(rune \<Rightarrow> bool) \<Rightarrow> string \<Rightarrow> bool" where
  "strings_HasRune P s \<longleftrightarrow> list_ex P (runes s)"

text \<open>
  \<open>strings.Map\<close> with a mapping that drops runes or keeps them: a kept rune that decoded to
  \<open>U+FFFD\<close> from an invalid byte is written out as \<open>U+FFFD\<close>.
\<close>

definition strings_Drop :: "(rune \<Rightarrow> bool) \<Rightarrow> string \<Rightarrow> string" where
  "strings_Drop P s =
     concat (map (\<lambda>p. if P (fst p) then []
                      else if fst p = RuneError \<and> length (snd p) = 1 then encodeRune RuneError else snd p) (decode s))"

definition controlRune :: "rune \<Rightarrow> bool" where
  "controlRune r \<longleftrightarrow> r < 32 \<or> r = 127"

definition hex_EncodeToString :: "string \<Rightarrow> string" where
  "hex_EncodeToString bs = concat (map (\<lambda>c. hexDigits 2 (byte c)) bs)"

definition lowerHexByte :: "char \<Rightarrow> bool" where
  "lowerHexByte c \<longleftrightarrow> (CHR ''0'' \<le> c \<and> c \<le> CHR ''9'') \<or> (CHR ''a'' \<le> c \<and> c \<le> CHR ''f'')"

text \<open>\<open>filepath.Base\<close> on a system whose separator is the slash.\<close>

definition filepath_Base :: "string \<Rightarrow> string" where
  "filepath_Base path =
     (if path = [] then ''.''
      else
        (let stripped = rev (dropWhile (\<lambda>c. c = CHR ''/'') (rev path));
             base = rev (takeWhile (\<lambda>c. c \<noteq> CHR ''/'') (rev stripped))
         in if base = [] then ''/'' else base))"

lemma hexDigit_lower: "d < 16 \<Longrightarrow> lowerHexByte (lowerhex d)"
proof -
  assume "d < 16"
  then have "d \<in> set [0..<16]" by simp
  moreover have "list_all (\<lambda>d. lowerHexByte (lowerhex d)) [0..<16]" by code_simp
  ultimately show ?thesis by (simp add: list_all_iff)
qed

lemma hexDigits_lower: "list_all lowerHexByte (hexDigits k n)"
  by (induction k n rule: hexDigits.induct) (simp_all add: hexDigit_lower)

lemma length_hexDigits [simp]: "length (hexDigits k n) = k"
  by (induction k n rule: hexDigits.induct) simp_all

lemma hex_EncodeToString_lower: "list_all lowerHexByte (hex_EncodeToString bs)"
  by (induction bs) (simp_all add: hex_EncodeToString_def hexDigits_lower del: hexDigits.simps)

lemma length_hex_EncodeToString [simp]: "length (hex_EncodeToString bs) = 2 * length bs"
  by (induction bs) (simp_all add: hex_EncodeToString_def del: hexDigits.simps)

lemma decode_ascii: "list_all (\<lambda>c. byte c < 128) s \<Longrightarrow> decode s = map (\<lambda>c. (byte c, [c])) s"
proof (induction s)
  case (Cons c s)
  then show ?case by (simp add: decode.simps [of "c # s"])
qed simp

lemma utf8_ascii: "list_all (\<lambda>c. byte c < 128) s \<Longrightarrow> utf8_ValidString s"
  by (auto simp: decode_ascii utf8_ValidString_def RuneError_def list_all_iff)

end
