(* ===== verification/Errors.thy ===== *)
theory Errors
  imports Go_Strings
begin

text \<open>
  \<open>internal/runctl/errors.go\<close> and \<open>internal/runctl/safecall.go\<close>: the sentinel errors, wrapping
  with \<open>%w\<close>, \<open>errors.Is\<close>, and the panic barrier every collector call runs behind.
\<close>

text \<open>
  The errors that reach this package: its sentinels, the two context errors, an error made by
  foreign code (\<open>PlainErr\<close>), a recovered panic (\<open>PanicError\<close>, the struct \<open>panicError\<close>) and
  \<open>fmt.Errorf\<close> with one \<open>%w\<close> (the text before it, the wrapped error, the text after it).
\<close>

datatype gerr =
    ErrRunActive | ErrRunTransitioning | ErrRunAborted | ErrUnknownRun | ErrStaleEpoch
  | ErrBudgetInversion | ErrInitializeBusy | ErrCollectorRegistered | ErrInvalidRegistration
  | ErrCollectorPanic
  | CtxCanceled | CtxDeadlineExceeded
  | PlainErr string
  | PanicError string
  | WrapErr string gerr string

fun Error :: "gerr \<Rightarrow> string" where
  "Error ErrRunActive = ''runctl: another run is active''"
| "Error ErrRunTransitioning = ''runctl: run is transitioning''"
| "Error ErrRunAborted = ''runctl: run was aborted''"
| "Error ErrUnknownRun = ''runctl: unknown run''"
| "Error ErrStaleEpoch = ''runctl: stale epoch''"
| "Error ErrBudgetInversion = ''runctl: child budget >= parent budget''"
| "Error ErrInitializeBusy = ''isutools: initialize guard busy''"
| "Error ErrCollectorRegistered = ''runctl: collector already registered''"
| "Error ErrInvalidRegistration = ''runctl: invalid registration''"
| "Error ErrCollectorPanic = ''runctl: collector panicked''"
| "Error CtxCanceled = ''context canceled''"
| "Error CtxDeadlineExceeded = ''context deadline exceeded''"
| "Error (PlainErr t) = t"
| "Error (PanicError t) = t"
| "Error (WrapErr pre e post) = pre @ Error e @ post"

fun Unwrap :: "gerr \<Rightarrow> gerr option" where
  "Unwrap (PanicError t) = Some ErrCollectorPanic"
| "Unwrap (WrapErr pre e post) = Some e"
| "Unwrap e = None"

text \<open>\<open>errors.Is\<close>: the error itself or anything it wraps.\<close>

fun errors_Is :: "gerr \<Rightarrow> gerr \<Rightarrow> bool" where
  "errors_Is (WrapErr pre e post) target = (WrapErr pre e post = target \<or> errors_Is e target)"
| "errors_Is (PanicError t) target = (PanicError t = target \<or> ErrCollectorPanic = target)"
| "errors_Is e target = (e = target)"

definition isPanic :: "gerr option \<Rightarrow> bool" where
  "isPanic err = (case err of None \<Rightarrow> False | Some e \<Rightarrow> errors_Is e ErrCollectorPanic)"

definition panicTextMax :: nat where
  "panicTextMax = 160"

text \<open>
  \<open>shortPanic\<close>: one short line for a recovered value. The argument is what \<open>fmt.Sprint\<close> renders,
  \<open>None\<close> when rendering panics and the inner recover answers instead.
\<close>

definition shortPanic :: "string option \<Rightarrow> string" where
  "shortPanic v =
     (case v of
        None \<Rightarrow> ''unprintable panic value''
      | Some s \<Rightarrow>
          (let txt = strings_Join (strings_Fields s) '' '' in
           if txt = [] then ''unprintable panic value''
           else if panicTextMax < length (runes txt)
             then encode (take panicTextMax (runes txt)) @ ''...''
           else txt))"

definition newPanicError :: "string \<Rightarrow> string \<Rightarrow> string option \<Rightarrow> gerr" where
  "newPanicError collector op v =
     PanicError (''collector '' @ collector @ '' panicked in '' @ op @ '': '' @ shortPanic v)"

text \<open>The barriers. \<open>safeResult\<close> takes the zero value of the result type as an argument.\<close>

definition safeResult :: "string \<Rightarrow> string \<Rightarrow> 'a \<Rightarrow> ('a, gerr) call \<Rightarrow> 'a \<times> gerr option" where
  "safeResult collector op zero fn =
     (case fn of
        Ret out err \<Rightarrow> (out, err)
      | Panics v \<Rightarrow> (zero, Some (newPanicError collector op v)))"

definition safeErr :: "string \<Rightarrow> string \<Rightarrow> (unit, gerr) call \<Rightarrow> gerr option" where
  "safeErr collector op fn =
     (case fn of Ret _ err \<Rightarrow> err | Panics v \<Rightarrow> Some (newPanicError collector op v))"

definition safeHook :: "string \<Rightarrow> (unit, gerr) call \<Rightarrow> gerr option" where
  "safeHook name fn =
     (case fn of
        Ret _ err \<Rightarrow> err
      | Panics v \<Rightarrow> Some (PanicError (''the '' @ name @ '' hook panicked: '' @ shortPanic v)))"

lemma errors_Is_refl [simp]: "errors_Is e e"
  by (cases e) auto

lemma errors_Is_Unwrap: "Unwrap e = Some e' \<Longrightarrow> errors_Is e' t \<Longrightarrow> errors_Is e t"
  by (cases e) auto

lemma errors_Is_unfold:
  "errors_Is e t \<longleftrightarrow> e = t \<or> (\<exists>e'. Unwrap e = Some e' \<and> errors_Is e' t)"
  by (cases e) auto

lemma isPanic_None [simp]: "\<not> isPanic None"
  by (simp add: isPanic_def)

lemma isPanic_newPanicError [simp]: "isPanic (Some (newPanicError collector op v))"
  by (simp add: isPanic_def newPanicError_def)

lemma safeResult_Ret [simp]: "safeResult collector op zero (Ret out err) = (out, err)"
  by (simp add: safeResult_def)

lemma safeResult_Panics [simp]:
  "safeResult collector op zero (Panics v) = (zero, Some (newPanicError collector op v))"
  by (simp add: safeResult_def)

lemma isPanic_safeHook_Panics [simp]: "isPanic (safeHook name (Panics v))"
  by (simp add: safeHook_def isPanic_def)

lemma isPanic_safeErr_Panics [simp]: "isPanic (safeErr collector op (Panics v))"
  by (simp add: safeErr_def)

lemma shortPanic_nonempty: "shortPanic v \<noteq> []"
  by (auto simp: shortPanic_def Let_def split: option.splits)

end
