(* ===== verification/Run_Types.thy ===== *)
theory Run_Types
  imports Errors
begin

text \<open>
  The data model of \<open>internal/runctl/types.go\<close>: run states, validities, phases, failure codes,
  the handles collectors mint, and the records of opening and closing boundaries. Go's string
  enumerations are datatypes whose extra constructor stands for the zero value \<open>""\<close>; the wire
  strings are given by \<open>RunState_string\<close> and \<open>Validity_string\<close>.
\<close>

subsection \<open>Run states\<close>

datatype RunState =
    StateZero | StateIdle | StateStarting | StateStarted | StateFinishing | StateFinished
  | StateAcknowledged | StateAborting | StateAborted | StateExpired

fun RunState_string :: "RunState \<Rightarrow> string" where
  "RunState_string StateZero = ''''"
| "RunState_string StateIdle = ''idle''"
| "RunState_string StateStarting = ''starting''"
| "RunState_string StateStarted = ''started''"
| "RunState_string StateFinishing = ''finishing''"
| "RunState_string StateFinished = ''finished''"
| "RunState_string StateAcknowledged = ''acknowledged''"
| "RunState_string StateAborting = ''aborting''"
| "RunState_string StateAborted = ''aborted''"
| "RunState_string StateExpired = ''expired''"

definition active :: "RunState \<Rightarrow> bool" where
  "active s \<longleftrightarrow>
     (case s of
        StateStarting \<Rightarrow> True | StateStarted \<Rightarrow> True | StateFinishing \<Rightarrow> True
      | StateAborting \<Rightarrow> True | _ \<Rightarrow> False)"

definition blocksNewRun :: "RunState \<Rightarrow> bool" where
  "blocksNewRun s \<longleftrightarrow> active s \<or> s = StateFinished"

subsection \<open>Validity\<close>

datatype Validity = ValidityZero | ValidityValid | ValidityPartial | ValidityInvalid

fun Validity_string :: "Validity \<Rightarrow> string" where
  "Validity_string ValidityZero = ''''"
| "Validity_string ValidityValid = ''valid''"
| "Validity_string ValidityPartial = ''partial''"
| "Validity_string ValidityInvalid = ''invalid''"

fun validityRank :: "Validity \<Rightarrow> nat" where
  "validityRank ValidityPartial = 1"
| "validityRank ValidityInvalid = 2"
| "validityRank _ = 0"

definition worse :: "Validity \<Rightarrow> Validity \<Rightarrow> Validity" where
  "worse a b =
     (if validityRank b > validityRank a then b
      else if a = ValidityZero then ValidityValid
      else a)"

definition failValidity :: "bool \<Rightarrow> Validity" where
  "failValidity required = (if required then ValidityInvalid else ValidityPartial)"

subsection \<open>Phases, kinds, codes\<close>

datatype Phase =
  PhaseStartBoundary | PhaseStartBaseline | PhaseFinishFreeze | PhaseFinishFinal | PhaseCollect

fun Phase_string :: "Phase \<Rightarrow> string" where
  "Phase_string PhaseStartBoundary = ''start-boundary''"
| "Phase_string PhaseStartBaseline = ''start-baseline''"
| "Phase_string PhaseFinishFreeze = ''finish-freeze''"
| "Phase_string PhaseFinishFinal = ''finish-final''"
| "Phase_string PhaseCollect = ''collect''"

datatype Kind = KindGeneration | KindBaseline

datatype Code =
    NoCode | CodeNotCaptured | CodeDrainTimeout | CodeCollectFailed | CodeBoundaryFailed
  | CodeSpreadExceeded | CodeContractViolation

definition AckedByExplicit :: string where
  "AckedByExplicit = ''explicit''"

definition AckedBySave :: string where
  "AckedBySave = ''save''"

definition AckedByPreempt :: string where
  "AckedByPreempt = ''preempt''"

definition AckedByHub :: string where
  "AckedByHub = ''hub''"

definition AckedByLease :: string where
  "AckedByLease = ''lease''"

definition ReasonExplicit :: string where
  "ReasonExplicit = ''explicit''"

definition ReasonRequiredFailed :: string where
  "ReasonRequiredFailed = ''required-failed''"

definition ReasonPreemptedBy :: string where
  "ReasonPreemptedBy = ''preempted-by:''"

definition ReasonFinishLeaseExpired :: string where
  "ReasonFinishLeaseExpired = ''finish-lease-expired''"

definition ReasonStartedTTL :: string where
  "ReasonStartedTTL = ''started-ttl''"

definition ReasonFinishAccepted :: string where
  "ReasonFinishAccepted = ''finish-accepted''"

definition HealthBoundarySpread :: string where
  "HealthBoundarySpread = ''runctl-boundary-spread''"

definition HealthContractViolation :: string where
  "HealthContractViolation = ''runctl-contract-violation''"

definition HealthWorkerDetached :: string where
  "HealthWorkerDetached = ''runctl-worker-detached''"

definition HealthLeaseExpired :: string where
  "HealthLeaseExpired = ''runctl-lease-expired''"

text \<open>What a component reports through \<open>recordHealth\<close>: the key and the message, in order.\<close>

type_synonym health_log = "(string \<times> string) list"

subsection \<open>Handles\<close>

type_synonym epoch = nat

text \<open>
  A handle's token is opaque outside the collector that minted it: the dynamic type of the
  pointer it holds and the object's address in that collector. The zero handle has no token.
\<close>

datatype token = NilToken | Token string nat

record GenerationHandle =
  gh_RunID :: string
  gh_Epoch :: epoch
  gh_Collector :: string
  gh_Gen :: nat
  gh_token :: token

definition NewGenerationHandle ::
  "string \<Rightarrow> epoch \<Rightarrow> string \<Rightarrow> nat \<Rightarrow> token \<Rightarrow> GenerationHandle" where
  "NewGenerationHandle runID ep collector gen tok =
     \<lparr>gh_RunID = runID, gh_Epoch = ep, gh_Collector = collector, gh_Gen = gen, gh_token = tok\<rparr>"

definition zeroGenerationHandle :: GenerationHandle where
  "zeroGenerationHandle = NewGenerationHandle [] 0 [] 0 NilToken"

definition GenerationHandle_Zero :: "GenerationHandle \<Rightarrow> bool" where
  "GenerationHandle_Zero h \<longleftrightarrow> gh_token h = NilToken \<and> gh_Collector h = []"

text \<open>The values of type \<open>any\<close> that handles and snapshot sections carry.\<close>

datatype anyval = NilAny | AnyStr string | AnyInt int | AnyList "anyval list"

record BaselineHandle =
  bh_RunID :: string
  bh_Epoch :: epoch
  bh_Collector :: string
  bh_Phase :: Phase
  bh_SampledAt :: gotime
  bh_sample :: anyval

definition NewBaselineHandle ::
  "string \<Rightarrow> epoch \<Rightarrow> string \<Rightarrow> Phase \<Rightarrow> gotime \<Rightarrow> anyval \<Rightarrow> BaselineHandle" where
  "NewBaselineHandle runID ep collector phase sampledAt sample =
     \<lparr>bh_RunID = runID, bh_Epoch = ep, bh_Collector = collector, bh_Phase = phase,
      bh_SampledAt = sampledAt, bh_sample = sample\<rparr>"

text \<open>The zero handle's phase is \<open>""\<close> in Go; no operation reads it.\<close>

definition zeroBaselineHandle :: BaselineHandle where
  "zeroBaselineHandle = NewBaselineHandle [] 0 [] PhaseStartBaseline 0 NilAny"

definition BaselineHandle_Zero :: "BaselineHandle \<Rightarrow> bool" where
  "BaselineHandle_Zero h \<longleftrightarrow> bh_sample h = NilAny \<and> bh_Collector h = []"

record BoundaryResult =
  br_Handle :: GenerationHandle
  br_At :: gotime
  br_Committed :: bool

definition zeroBoundaryResult :: BoundaryResult where
  "zeroBoundaryResult = \<lparr>br_Handle = zeroGenerationHandle, br_At = 0, br_Committed = False\<rparr>"

record SampleResult =
  smp_Handle :: BaselineHandle
  smp_At :: gotime
  smp_Committed :: bool

definition zeroSampleResult :: SampleResult where
  "zeroSampleResult = \<lparr>smp_Handle = zeroBaselineHandle, smp_At = 0, smp_Committed = False\<rparr>"

subsection \<open>Boundary records\<close>

record BoundaryWindow =
  bw_Min :: gotime
  bw_Max :: gotime
  bw_Spread :: duration

definition zeroWindow :: BoundaryWindow where
  "zeroWindow = \<lparr>bw_Min = 0, bw_Max = 0, bw_Spread = 0\<rparr>"

record CollectorBoundary =
  cb_Name :: string
  cb_Kind :: Kind
  cb_Required :: bool
  cb_Phase :: Phase
  cb_At :: gotime
  cb_Committed :: bool
  cb_Code :: Code
  cb_Err :: string
  cb_Dropped :: bool

record Registration =
  reg_Name :: string
  reg_Required :: bool
  reg_SerialOnly :: bool

record StartRunOptions =
  o_Nonce :: string
  o_Preempt :: bool
  o_Reason :: string
  o_Trigger :: string

record ProfileStartEvidence =
  pse_CaptureID :: string
  pse_State :: string
  pse_Code :: string

record StartResult =
  st_RunID :: string
  st_Nonce :: string
  st_Epoch :: epoch
  st_State :: RunState
  st_Validity :: Validity
  st_Collectors :: "CollectorBoundary list"
  st_GenerationWindow :: BoundaryWindow
  st_BoundaryWindow :: BoundaryWindow
  st_PreemptedRunID :: string
  st_StartedAt :: gotime
  st_CPUProfileStart :: "ProfileStartEvidence option"
  st_TraceStart :: "ProfileStartEvidence option"

definition zeroStartResult :: StartResult where
  "zeroStartResult =
     \<lparr>st_RunID = [], st_Nonce = [], st_Epoch = 0, st_State = StateZero,
      st_Validity = ValidityZero, st_Collectors = [], st_GenerationWindow = zeroWindow,
      st_BoundaryWindow = zeroWindow, st_PreemptedRunID = [], st_StartedAt = 0,
      st_CPUProfileStart = None, st_TraceStart = None\<rparr>"

record FinishAccepted =
  fa_RunID :: string
  fa_Epoch :: epoch
  fa_Validity :: Validity
  fa_Collectors :: "CollectorBoundary list"
  fa_GenerationWindow :: BoundaryWindow
  fa_BoundaryWindow :: BoundaryWindow
  fa_AcceptedAt :: gotime

definition zeroFinishAccepted :: FinishAccepted where
  "zeroFinishAccepted =
     \<lparr>fa_RunID = [], fa_Epoch = 0, fa_Validity = ValidityZero, fa_Collectors = [],
      fa_GenerationWindow = zeroWindow, fa_BoundaryWindow = zeroWindow, fa_AcceptedAt = 0\<rparr>"

record AbortResult =
  ab_RunID :: string
  ab_Epoch :: epoch
  ab_Reason :: string
  ab_Detached :: bool
  ab_AbortedAt :: gotime
  ab_Partial :: "string list"

definition zeroAbortResult :: AbortResult where
  "zeroAbortResult =
     \<lparr>ab_RunID = [], ab_Epoch = 0, ab_Reason = [], ab_Detached = False, ab_AbortedAt = 0,
      ab_Partial = []\<rparr>"

record RunStatus =
  rst_RunID :: string
  rst_Epoch :: epoch
  rst_State :: RunState
  rst_Validity :: Validity
  rst_Reason :: string
  rst_AckedBy :: string
  rst_Detached :: bool
  rst_Since :: gotime

record Snapshot =
  sn_RunID :: string
  sn_Epoch :: epoch
  sn_Validity :: Validity
  sn_Trigger :: string
  sn_Sections :: "string \<Rightarrow> anyval option"
  sn_Collectors :: "CollectorBoundary list"
  sn_GenerationWindow :: BoundaryWindow
  sn_BoundaryWindow :: BoundaryWindow
  sn_StartedAt :: gotime
  sn_FinishedAt :: gotime

record RunTerminationEvent =
  te_RunID :: string
  te_Epoch :: epoch
  te_State :: RunState
  te_Validity :: Validity
  te_Reason :: string
  te_BoundaryAt :: gotime

definition terminationBoundary :: "BoundaryWindow \<Rightarrow> gotime \<Rightarrow> gotime" where
  "terminationBoundary w fallback = (if \<not> IsZero (bw_Max w) then bw_Max w else fallback)"

text \<open>\<open>committedNames\<close> of \<open>start.go\<close>: the collectors that had switched.\<close>

definition committedNames :: "CollectorBoundary list \<Rightarrow> string list" where
  "committedNames boundaries = map cb_Name (filter cb_Committed boundaries)"

subsection \<open>The algebra of validity\<close>

lemma worse_rank [simp]: "validityRank (worse a b) = max (validityRank a) (validityRank b)"
  by (cases a; cases b) (simp_all add: worse_def)

lemma worse_not_Zero [simp]: "worse a b \<noteq> ValidityZero"
  by (cases a; cases b) (simp_all add: worse_def)

lemma validityRank_inject:
  "a \<noteq> ValidityZero \<Longrightarrow> b \<noteq> ValidityZero \<Longrightarrow> validityRank a = validityRank b \<longleftrightarrow> a = b"
  by (cases a; cases b) simp_all

lemma worse_Valid_left: "v \<noteq> ValidityZero \<Longrightarrow> worse ValidityValid v = v"
  by (cases v) (simp_all add: worse_def)

lemma worse_Valid_right: "v \<noteq> ValidityZero \<Longrightarrow> worse v ValidityValid = v"
  by (cases v) (simp_all add: worse_def)

lemma worse_Invalid [simp]:
  "worse ValidityInvalid v = ValidityInvalid" "worse v ValidityInvalid = ValidityInvalid"
  by (cases v; simp add: worse_def)+

lemma worse_eq_Invalid [simp]:
  "worse a b = ValidityInvalid \<longleftrightarrow> a = ValidityInvalid \<or> b = ValidityInvalid"
  by (cases a; cases b) (simp_all add: worse_def)

lemma worse_eq_Valid [simp]:
  "worse a b = ValidityValid \<longleftrightarrow> validityRank a = 0 \<and> validityRank b = 0"
  by (cases a; cases b) (simp_all add: worse_def)

lemma validityRank_failValidity [simp]:
  "validityRank (failValidity required) = (if required then 2 else 1)"
  by (simp add: failValidity_def)

lemma failValidity_not_Zero [simp]: "failValidity required \<noteq> ValidityZero"
  by (simp add: failValidity_def)

lemma failValidity_eq_Invalid [simp]: "failValidity required = ValidityInvalid \<longleftrightarrow> required"
  by (simp add: failValidity_def)

lemma validityRank_eq_2 [simp]: "validityRank v = 2 \<longleftrightarrow> v = ValidityInvalid"
  by (cases v) simp_all

lemma validityRank_le_2: "validityRank v \<le> 2"
  by (cases v) simp_all

text \<open>On proper validities \<open>worse\<close> is the join of a three-element chain.\<close>

lemma worse_commute: "a \<noteq> ValidityZero \<Longrightarrow> b \<noteq> ValidityZero \<Longrightarrow> worse a b = worse b a"
  by (cases a; cases b) (simp_all add: worse_def)

lemma worse_assoc: "worse (worse a b) c = worse a (worse b c)"
  by (cases a; cases b; cases c) (simp_all add: worse_def)

lemma worse_idem: "a \<noteq> ValidityZero \<Longrightarrow> worse a a = a"
  by (cases a) (simp_all add: worse_def)

lemma active_simps [simp]:
  "active StateStarting" "active StateStarted" "active StateFinishing" "active StateAborting"
  "\<not> active StateZero" "\<not> active StateIdle" "\<not> active StateFinished"
  "\<not> active StateAcknowledged" "\<not> active StateAborted" "\<not> active StateExpired"
  by (simp_all add: active_def)

lemma RunState_string_inj: "RunState_string a = RunState_string b \<Longrightarrow> a = b"
  by (cases a; cases b) simp_all

end
