(* ===== verification/Budget.thy ===== *)
theory Budget
  imports Run_Types
begin

text \<open>
  \<open>internal/runctl/budget.go\<close>: the timing constants, the injectable table \<open>Budgets\<close>, its
  defaulting and the check of the hierarchy.
\<close>

subsection \<open>Constants\<close>

definition StartRunBudget :: duration where "StartRunBudget = 6 * Second"
definition FinishSyncBudget :: duration where "FinishSyncBudget = 6 * Second"
definition PhaseStartBoundaryBudget :: duration where "PhaseStartBoundaryBudget = 500 * Millisecond"
definition PhaseStartBaselineBudget :: duration where "PhaseStartBaselineBudget = 5 * Second"
definition PhaseFinishFreezeBudget :: duration where "PhaseFinishFreezeBudget = 500 * Millisecond"
definition PhaseFinishFinalBudget :: duration where "PhaseFinishFinalBudget = 5 * Second"
definition PerCollectorGenerationBudget :: duration where
  "PerCollectorGenerationBudget = 100 * Millisecond"
definition PerCollectorBaselineBudget :: duration where
  "PerCollectorBaselineBudget = 3500 * Millisecond"
definition PerTargetBudget :: duration where "PerTargetBudget = 1 * Second"
definition DrainBudget :: duration where "DrainBudget = 10 * Second"
definition DrainCancelGrace :: duration where "DrainCancelGrace = 1 * Second"
definition SnapshotBuildBudget :: duration where "SnapshotBuildBudget = 5 * Second"
definition EnrichBudget :: duration where "EnrichBudget = 2 * Second"
definition AbortJoinBudget :: duration where "AbortJoinBudget = 2 * Second"
definition PreemptTotalBudget :: duration where
  "PreemptTotalBudget = AbortJoinBudget + StartRunBudget"
definition DetachedReapBudget :: duration where "DetachedReapBudget = 60 * Second"
definition InitializeGuardBudget :: duration where "InitializeGuardBudget = 30 * Second"

definition FinishLease :: duration where "FinishLease = 20 * Second"
definition StartedTTL :: duration where "StartedTTL = 30 * Minute"
definition FinishedTTL :: duration where "FinishedTTL = 10 * Minute"
definition TombstoneTTL :: duration where "TombstoneTTL = 10 * Minute"
definition NonceTTL :: duration where "NonceTTL = 10 * Minute"
definition WatchdogInterval :: duration where "WatchdogInterval = 1 * Second"

definition BaselineConcurrency :: nat where "BaselineConcurrency = 8"
definition NonceHistoryMax :: nat where "NonceHistoryMax = 64"
definition RetainedRuns :: nat where "RetainedRuns = 2"

definition SpreadLimitGeneration :: duration where "SpreadLimitGeneration = 50 * Millisecond"
definition SpreadLimitBoundary :: duration where "SpreadLimitBoundary = 1500 * Millisecond"

lemmas budget_constants =
  StartRunBudget_def FinishSyncBudget_def PhaseStartBoundaryBudget_def
  PhaseStartBaselineBudget_def PhaseFinishFreezeBudget_def PhaseFinishFinalBudget_def
  PerCollectorGenerationBudget_def PerCollectorBaselineBudget_def DrainBudget_def
  SnapshotBuildBudget_def EnrichBudget_def AbortJoinBudget_def DetachedReapBudget_def
  FinishLease_def StartedTTL_def FinishedTTL_def TombstoneTTL_def NonceTTL_def
  WatchdogInterval_def SpreadLimitGeneration_def SpreadLimitBoundary_def
  Millisecond_def Second_def Minute_def

subsection \<open>The table\<close>

record Budgets =
  b_StartRun :: duration
  b_FinishSync :: duration
  b_PhaseBoundary :: duration
  b_PhaseBaseline :: duration
  b_PhaseFreeze :: duration
  b_PhaseFinal :: duration
  b_PerCollectorGeneration :: duration
  b_PerCollectorBaseline :: duration
  b_Drain :: duration
  b_SnapshotBuild :: duration
  b_Enrich :: duration
  b_AbortJoin :: duration
  b_DetachedReap :: duration
  b_FinishLease :: duration
  b_StartedTTL :: duration
  b_FinishedTTL :: duration
  b_TombstoneTTL :: duration
  b_NonceTTL :: duration
  b_Watchdog :: duration
  b_SpreadGeneration :: duration
  b_SpreadBoundary :: duration

definition zeroBudgets :: Budgets where
  "zeroBudgets =
     \<lparr>b_StartRun = 0, b_FinishSync = 0, b_PhaseBoundary = 0, b_PhaseBaseline = 0,
      b_PhaseFreeze = 0, b_PhaseFinal = 0, b_PerCollectorGeneration = 0,
      b_PerCollectorBaseline = 0, b_Drain = 0, b_SnapshotBuild = 0, b_Enrich = 0,
      b_AbortJoin = 0, b_DetachedReap = 0, b_FinishLease = 0, b_StartedTTL = 0,
      b_FinishedTTL = 0, b_TombstoneTTL = 0, b_NonceTTL = 0, b_Watchdog = 0,
      b_SpreadGeneration = 0, b_SpreadBoundary = 0\<rparr>"

definition fill :: "duration \<Rightarrow> duration \<Rightarrow> duration" where
  "fill dst def = (if dst \<le> 0 then def else dst)"

definition withDefaults :: "Budgets \<Rightarrow> Budgets" where
  "withDefaults b =
     \<lparr>b_StartRun = fill (b_StartRun b) StartRunBudget,
      b_FinishSync = fill (b_FinishSync b) FinishSyncBudget,
      b_PhaseBoundary = fill (b_PhaseBoundary b) PhaseStartBoundaryBudget,
      b_PhaseBaseline = fill (b_PhaseBaseline b) PhaseStartBaselineBudget,
      b_PhaseFreeze = fill (b_PhaseFreeze b) PhaseFinishFreezeBudget,
      b_PhaseFinal = fill (b_PhaseFinal b) PhaseFinishFinalBudget,
      b_PerCollectorGeneration = fill (b_PerCollectorGeneration b) PerCollectorGenerationBudget,
      b_PerCollectorBaseline = fill (b_PerCollectorBaseline b) PerCollectorBaselineBudget,
      b_Drain = fill (b_Drain b) DrainBudget,
      b_SnapshotBuild = fill (b_SnapshotBuild b) SnapshotBuildBudget,
      b_Enrich = fill (b_Enrich b) EnrichBudget,
      b_AbortJoin = fill (b_AbortJoin b) AbortJoinBudget,
      b_DetachedReap = fill (b_DetachedReap b) DetachedReapBudget,
      b_FinishLease = fill (b_FinishLease b) FinishLease,
      b_StartedTTL = fill (b_StartedTTL b) StartedTTL,
      b_FinishedTTL = fill (b_FinishedTTL b) FinishedTTL,
      b_TombstoneTTL = fill (b_TombstoneTTL b) TombstoneTTL,
      b_NonceTTL = fill (b_NonceTTL b) NonceTTL,
      b_Watchdog = fill (b_Watchdog b) WatchdogInterval,
      b_SpreadGeneration = fill (b_SpreadGeneration b) SpreadLimitGeneration,
      b_SpreadBoundary = fill (b_SpreadBoundary b) SpreadLimitBoundary\<rparr>"

subsection \<open>Validation\<close>

record rule =
  r_child :: duration
  r_parent :: duration
  r_childName :: string
  r_parentName :: string
  r_orEqual :: bool

definition rule_ok :: "rule \<Rightarrow> bool" where
  "rule_ok r = (if r_orEqual r then r_child r \<le> r_parent r else r_child r < r_parent r)"

definition mk_rule :: "duration \<Rightarrow> duration \<Rightarrow> string \<Rightarrow> string \<Rightarrow> bool \<Rightarrow> rule" where
  "mk_rule c p cn pn oe =
     \<lparr>r_child = c, r_parent = p, r_childName = cn, r_parentName = pn, r_orEqual = oe\<rparr>"

definition rules :: "Budgets \<Rightarrow> rule list" where
  "rules b =
     [mk_rule (b_PhaseBaseline b) (b_StartRun b) ''PhaseBaseline'' ''StartRun'' False,
      mk_rule (b_PerCollectorBaseline b) (b_PhaseBaseline b) ''PerCollectorBaseline''
        ''PhaseBaseline'' False,
      mk_rule (b_PhaseBoundary b) (b_StartRun b) ''PhaseBoundary'' ''StartRun'' False,
      mk_rule (b_PerCollectorGeneration b) (b_PhaseBoundary b) ''PerCollectorGeneration''
        ''PhaseBoundary'' False,
      mk_rule (b_PhaseFinal b) (b_FinishSync b) ''PhaseFinal'' ''FinishSync'' False,
      mk_rule (b_PerCollectorBaseline b) (b_PhaseFinal b) ''PerCollectorBaseline''
        ''PhaseFinal'' False,
      mk_rule (b_PhaseFreeze b) (b_FinishSync b) ''PhaseFreeze'' ''FinishSync'' False,
      mk_rule (b_PerCollectorGeneration b) (b_PhaseFreeze b) ''PerCollectorGeneration''
        ''PhaseFreeze'' False,
      mk_rule (wrap64 (b_PhaseBoundary b + b_PhaseBaseline b)) (b_StartRun b)
        ''PhaseBoundary+PhaseBaseline'' ''StartRun'' True,
      mk_rule (wrap64 (b_PhaseFreeze b + b_PhaseFinal b)) (b_FinishSync b)
        ''PhaseFreeze+PhaseFinal'' ''FinishSync'' True,
      mk_rule (b_FinishSync b) (b_FinishLease b) ''FinishSync'' ''FinishLease'' False,
      mk_rule (wrap64 (wrap64 (b_Drain b + b_SnapshotBuild b) + b_Enrich b)) (b_FinishLease b)
        ''Drain+SnapshotBuild+Enrich'' ''FinishLease'' False]"

definition rule_error :: "rule \<Rightarrow> gerr" where
  "rule_error r =
     WrapErr '''' ErrBudgetInversion
       ('': '' @ r_childName r @ ''('' @ Duration_String (r_child r) @ '') vs '' @ r_parentName r
        @ ''('' @ Duration_String (r_parent r) @ '')'')"

fun check_rules :: "rule list \<Rightarrow> gerr option" where
  "check_rules [] = None"
| "check_rules (r # rs) = (if \<not> rule_ok r then Some (rule_error r) else check_rules rs)"

definition Validate :: "Budgets \<Rightarrow> gerr option" where
  "Validate b = check_rules (rules b)"

subsection \<open>Lemmas\<close>

lemma check_rules_None: "check_rules rs = None \<longleftrightarrow> list_all rule_ok rs"
  by (induction rs) simp_all

lemma check_rules_Some:
  "check_rules rs = Some e \<Longrightarrow> \<exists>r \<in> set rs. \<not> rule_ok r \<and> e = rule_error r"
  by (induction rs) (auto split: if_splits)

lemma fill_pos [simp]: "0 < def \<Longrightarrow> 0 < fill dst def"
  by (simp add: fill_def)

lemma fill_idem [simp]: "0 < def \<Longrightarrow> fill (fill dst def) def = fill dst def"
  by (simp add: fill_def)

lemmas Validate_simps = Validate_def check_rules_None rules_def mk_rule_def rule_ok_def

definition all_positive :: "Budgets \<Rightarrow> bool" where
  "all_positive b \<longleftrightarrow>
     (\<forall>d \<in> {b_StartRun b, b_FinishSync b, b_PhaseBoundary b, b_PhaseBaseline b,
        b_PhaseFreeze b, b_PhaseFinal b, b_PerCollectorGeneration b, b_PerCollectorBaseline b,
        b_Drain b, b_SnapshotBuild b, b_Enrich b, b_AbortJoin b, b_DetachedReap b,
        b_FinishLease b, b_StartedTTL b, b_FinishedTTL b, b_TombstoneTTL b, b_NonceTTL b,
        b_Watchdog b, b_SpreadGeneration b, b_SpreadBoundary b}. 0 < d)"

lemma withDefaults_pos: "all_positive (withDefaults b)"
  unfolding all_positive_def withDefaults_def
  by (simp add: fill_def budget_constants)

lemma withDefaults_id: "all_positive b \<Longrightarrow> withDefaults b = b"
  by (simp add: all_positive_def withDefaults_def fill_def)

lemma default_table_valid: "Validate (withDefaults zeroBudgets) = None"
  by (simp add: Validate_simps withDefaults_def zeroBudgets_def fill_def budget_constants
      wrap64_def)

end
