(* ===== verification/Window.thy ===== *)
theory Window
  imports Budget
begin

text \<open>
  \<open>internal/runctl/window.go\<close>: the measured width of a boundary and the two-tier spread rule.
  The Go code mutates the boundary slice in place; \<open>applySpread\<close> returns the updated list together
  with the verdict and what was reported to health.
\<close>

definition keep_ok :: "(CollectorBoundary \<Rightarrow> bool) option \<Rightarrow> CollectorBoundary \<Rightarrow> bool" where
  "keep_ok keep b = (case keep of None \<Rightarrow> True | Some k \<Rightarrow> k b)"

fun computeWindow_loop ::
  "(CollectorBoundary \<Rightarrow> bool) option \<Rightarrow> CollectorBoundary list \<Rightarrow> BoundaryWindow \<Rightarrow> bool \<Rightarrow>
   BoundaryWindow \<times> bool" where
  "computeWindow_loop keep [] w seen = (w, seen)"
| "computeWindow_loop keep (b # bs) w seen =
     (if IsZero (cb_At b) \<or> \<not> keep_ok keep b then computeWindow_loop keep bs w seen
      else if \<not> seen then computeWindow_loop keep bs (w\<lparr>bw_Min := cb_At b, bw_Max := cb_At b\<rparr>) True
      else
        (let w1 = (if cb_At b < bw_Min w then w\<lparr>bw_Min := cb_At b\<rparr> else w);
             w2 = (if cb_At b > bw_Max w1 then w1\<lparr>bw_Max := cb_At b\<rparr> else w1)
         in computeWindow_loop keep bs w2 seen))"

definition computeWindow ::
  "CollectorBoundary list \<Rightarrow> (CollectorBoundary \<Rightarrow> bool) option \<Rightarrow> BoundaryWindow" where
  "computeWindow boundaries keep =
     (let (w, seen) = computeWindow_loop keep boundaries zeroWindow False in
      if seen then w\<lparr>bw_Spread := time_Sub (bw_Max w) (bw_Min w)\<rparr> else w)"

definition keepGeneration :: "CollectorBoundary \<Rightarrow> bool" where
  "keepGeneration b \<longleftrightarrow> cb_Kind b = KindGeneration"

record spreadVerdict =
  sv_validity :: Validity
  sv_offenders :: "string list"

definition judgeSpread ::
  "CollectorBoundary list \<Rightarrow> (CollectorBoundary \<Rightarrow> bool) option \<Rightarrow> duration \<Rightarrow> spreadVerdict" where
  "judgeSpread boundaries keep limit =
     (let all = computeWindow boundaries keep in
      if bw_Spread all \<le> limit then \<lparr>sv_validity = ValidityValid, sv_offenders = []\<rparr>
      else
        (let req = computeWindow boundaries (Some (\<lambda>b. cb_Required b \<and> keep_ok keep b));
             v = (if bw_Spread req > limit then ValidityInvalid else ValidityPartial);
             offenders =
               map cb_Name
                 (filter (\<lambda>b. \<not> (IsZero (cb_At b) \<or> \<not> keep_ok keep b)
                    \<and> time_Sub (cb_At b) (bw_Min all) > limit) boundaries)
         in \<lparr>sv_validity = v, sv_offenders = offenders\<rparr>))"

definition mark_spread :: "string list \<Rightarrow> CollectorBoundary \<Rightarrow> CollectorBoundary" where
  "mark_spread offenders b =
     (if cb_Name b \<in> set offenders \<and> cb_Code b = NoCode
      then b\<lparr>cb_Code := CodeSpreadExceeded\<rparr> else b)"

text \<open>The de-duplication of the offenders keeps first occurrences.\<close>

fun unique_names :: "string list \<Rightarrow> string list \<Rightarrow> string list" where
  "unique_names [] names = names"
| "unique_names (n # ns) names =
     (if n \<in> set names then unique_names ns names else unique_names ns (names @ [n]))"

definition applySpread ::
  "Budgets \<Rightarrow> string \<Rightarrow> CollectorBoundary list \<Rightarrow> string \<Rightarrow>
   Validity \<times> CollectorBoundary list \<times> health_log" where
  "applySpread bud runID boundaries phaseLabel =
     (let gen = judgeSpread boundaries (Some keepGeneration) (b_SpreadGeneration bud);
          all = judgeSpread boundaries None (b_SpreadBoundary bud);
          v = worse (sv_validity gen) (sv_validity all);
          offenders = sv_offenders gen @ sv_offenders all
      in if offenders = [] then (v, boundaries, [])
         else (v, map (mark_spread offenders) boundaries,
           [(HealthBoundarySpread,
             ''run '' @ runID @ '' '' @ phaseLabel @ '' boundary spread exceeded: ''
             @ strings_Join (unique_names offenders []) '', '')]))"

subsection \<open>The window is the span of the measured instants\<close>

definition measured ::
  "(CollectorBoundary \<Rightarrow> bool) option \<Rightarrow> CollectorBoundary list \<Rightarrow> gotime list" where
  "measured keep bs = map cb_At (filter (\<lambda>b. \<not> IsZero (cb_At b) \<and> keep_ok keep b) bs)"

lemma measured_simps [simp]:
  "measured keep [] = []"
  "measured keep (b # bs) =
     (if IsZero (cb_At b) \<or> \<not> keep_ok keep b then measured keep bs
      else cb_At b # measured keep bs)"
  by (auto simp: measured_def)

lemma computeWindow_loop_seen:
  "computeWindow_loop keep bs w True =
     (w\<lparr>bw_Min := Min (insert (bw_Min w) (set (measured keep bs))),
        bw_Max := Max (insert (bw_Max w) (set (measured keep bs)))\<rparr>, True)"
  if "bw_Min w \<le> bw_Max w"
  using that
proof (induction bs arbitrary: w)
  case (Cons b bs)
  show ?case
  proof (cases "IsZero (cb_At b) \<or> \<not> keep_ok keep b")
    case False
    let ?t = "cb_At b" and ?M = "set (measured keep bs)"
    let ?w = "w\<lparr>bw_Min := min ?t (bw_Min w), bw_Max := max ?t (bw_Max w)\<rparr>"
    have step: "computeWindow_loop keep (b # bs) w True = computeWindow_loop keep bs ?w True"
      using False Cons.prems by (auto simp: Let_def min_def max_def)
    have le: "bw_Min ?w \<le> bw_Max ?w" using Cons.prems by auto
    have mins: "Min (insert (min ?t (bw_Min w)) ?M) = Min (insert (bw_Min w) (insert ?t ?M))"
      by (cases "?M = {}") (simp_all add: min.commute min.left_commute min.assoc)
    have maxs: "Max (insert (max ?t (bw_Max w)) ?M) = Max (insert (bw_Max w) (insert ?t ?M))"
      by (cases "?M = {}") (simp_all add: max.commute max.left_commute max.assoc)
    have "set (measured keep (b # bs)) = insert ?t ?M" using False by simp
    then show ?thesis unfolding step Cons.IH [OF le] using mins maxs by simp
  qed (simp add: Cons.IH [OF Cons.prems])
qed simp

lemma computeWindow_loop_unseen:
  "computeWindow_loop keep bs w False =
     (if measured keep bs = [] then (w, False)
      else (w\<lparr>bw_Min := Min (set (measured keep bs)), bw_Max := Max (set (measured keep bs))\<rparr>, True))"
  by (induction bs) (auto simp: computeWindow_loop_seen)

lemma computeWindow_spec:
  "computeWindow bs keep =
     (let ts = measured keep bs in
      if ts = [] then zeroWindow
      else \<lparr>bw_Min = Min (set ts), bw_Max = Max (set ts),
            bw_Spread = time_Sub (Max (set ts)) (Min (set ts))\<rparr>)"
  by (simp add: computeWindow_def computeWindow_loop_unseen zeroWindow_def Let_def)

lemma computeWindow_Spread_nonneg: "0 \<le> bw_Spread (computeWindow bs keep)"
proof (cases "measured keep bs = []")
  case False
  then have "Min (set (measured keep bs)) \<le> Max (set (measured keep bs))"
    by (meson List.finite_set Min_le Max_in set_empty)
  with False show ?thesis by (simp add: computeWindow_spec Let_def time_Sub_nonneg)
qed (simp add: computeWindow_spec zeroWindow_def)

text \<open>Judging fewer collectors never widens the window.\<close>

lemma computeWindow_Spread_mono:
  assumes "set (measured k' bs) \<subseteq> set (measured k bs)"
  shows "bw_Spread (computeWindow bs k') \<le> bw_Spread (computeWindow bs k)"
proof (cases "measured k' bs = []")
  case True
  then show ?thesis using computeWindow_Spread_nonneg [of bs k]
    by (simp add: computeWindow_spec [of bs k'] zeroWindow_def)
next
  case False
  with assms have ne: "measured k bs \<noteq> []" by auto
  have "Max (set (measured k' bs)) \<le> Max (set (measured k bs))"
    using False assms by (intro Max_mono) auto
  moreover have "Min (set (measured k bs)) \<le> Min (set (measured k' bs))"
    using False assms by (intro Min_antimono) auto
  ultimately show ?thesis
    using False ne by (simp add: computeWindow_spec Let_def time_Sub_mono)
qed

lemma measured_required_subset:
  "set (measured (Some (\<lambda>b. cb_Required b \<and> keep_ok keep b)) bs) \<subseteq> set (measured keep bs)"
  by (auto simp: measured_def keep_ok_def)

subsection \<open>The verdict\<close>

abbreviation required_keep ::
  "(CollectorBoundary \<Rightarrow> bool) option \<Rightarrow> (CollectorBoundary \<Rightarrow> bool) option" where
  "required_keep keep \<equiv> Some (\<lambda>b. cb_Required b \<and> keep_ok keep b)"

lemma judgeSpread_validity:
  "sv_validity (judgeSpread bs keep limit) =
     (if bw_Spread (computeWindow bs (required_keep keep)) > limit then ValidityInvalid
      else if bw_Spread (computeWindow bs keep) > limit then ValidityPartial
      else ValidityValid)"
  using computeWindow_Spread_mono [OF measured_required_subset [of keep bs]]
  by (auto simp: judgeSpread_def Let_def)

lemma judgeSpread_offenders_nonempty:
  assumes "sv_validity (judgeSpread bs keep limit) \<noteq> ValidityValid" and "0 \<le> limit"
  shows "sv_offenders (judgeSpread bs keep limit) \<noteq> []"
proof -
  let ?w = "computeWindow bs keep" and ?ts = "measured keep bs"
  have wide: "bw_Spread ?w > limit"
    using assms(1) by (auto simp: judgeSpread_def Let_def split: if_splits)
  then have ne: "?ts \<noteq> []" using assms(2) by (auto simp: computeWindow_spec zeroWindow_def)
  then have "Max (set ?ts) \<in> set ?ts" by simp
  then obtain b where b: "b \<in> set bs" "\<not> IsZero (cb_At b)" "keep_ok keep b"
    "cb_At b = Max (set ?ts)" by (auto simp: measured_def)
  have "time_Sub (cb_At b) (bw_Min ?w) > limit"
    using wide ne b(4) by (simp add: computeWindow_spec Let_def)
  then have "b \<in> set (filter (\<lambda>b. \<not> (IsZero (cb_At b) \<or> \<not> keep_ok keep b)
                    \<and> time_Sub (cb_At b) (bw_Min ?w) > limit) bs)"
    using b by auto
  then have "filter (\<lambda>b. \<not> (IsZero (cb_At b) \<or> \<not> keep_ok keep b)
                    \<and> time_Sub (cb_At b) (bw_Min ?w) > limit) bs \<noteq> []"
    by (metis empty_iff empty_set)
  then show ?thesis using wide by (simp add: judgeSpread_def Let_def)
qed

lemma judgeSpread_not_Zero [simp]: "sv_validity (judgeSpread bs keep limit) \<noteq> ValidityZero"
  by (simp add: judgeSpread_validity)

lemma mark_spread_fields [simp]:
  "cb_Name (mark_spread os b) = cb_Name b" "cb_At (mark_spread os b) = cb_At b"
  "cb_Kind (mark_spread os b) = cb_Kind b" "cb_Required (mark_spread os b) = cb_Required b"
  "cb_Committed (mark_spread os b) = cb_Committed b" "cb_Dropped (mark_spread os b) = cb_Dropped b"
  "cb_Phase (mark_spread os b) = cb_Phase b" "cb_Err (mark_spread os b) = cb_Err b"
  by (simp_all add: mark_spread_def)

lemma mark_spread_Code:
  "cb_Code b \<noteq> NoCode \<Longrightarrow> cb_Code (mark_spread os b) = cb_Code b"
  by (simp add: mark_spread_def)

definition spread_offenders :: "Budgets \<Rightarrow> CollectorBoundary list \<Rightarrow> string list" where
  "spread_offenders bud bs =
     sv_offenders (judgeSpread bs (Some keepGeneration) (b_SpreadGeneration bud))
     @ sv_offenders (judgeSpread bs None (b_SpreadBoundary bud))"

lemma applySpread_boundaries:
  "fst (snd (applySpread bud runID bs l)) = map (mark_spread (spread_offenders bud bs)) bs"
proof -
  have "mark_spread [] = (\<lambda>b. b)" by (simp add: mark_spread_def fun_eq_iff)
  then show ?thesis by (simp add: applySpread_def spread_offenders_def Let_def)
qed

lemma unique_names_distinct:
  "distinct names \<Longrightarrow> distinct (unique_names ns names) \<and>
     set (unique_names ns names) = set names \<union> set ns"
  by (induction ns names rule: unique_names.induct) auto

lemma applySpread_fst:
  "fst (applySpread bud runID bs l) =
     worse (sv_validity (judgeSpread bs (Some keepGeneration) (b_SpreadGeneration bud)))
       (sv_validity (judgeSpread bs None (b_SpreadBoundary bud)))"
  by (simp add: applySpread_def Let_def)

end
