(* ===== verification/Phases.thy ===== *)
theory Phases
  imports Window
begin

text \<open>
  \<open>internal/runctl/phase.go\<close> and the interfaces of \<open>internal/runctl/collector.go\<close>: running one
  boundary operation of every registered collector and classifying what came back.

  Collectors are foreign to this package. What a call did is an argument: for the collector at
  position \<open>i\<close> the environment says what \<open>phaseCtx.Err()\<close> answered when the loop reached it and
  what the call returned, or that it panicked. The theorems hold for every environment.
\<close>

record Collector =
  coll_Budget :: "(duration, gerr) call option"

record registeredGeneration =
  rg_reg :: Registration
  rg_coll :: Collector

record registeredBaseline =
  rb_reg :: Registration
  rb_coll :: Collector

record genEnv =
  ge_ctxErr :: "nat \<Rightarrow> gerr option"
  ge_call :: "nat \<Rightarrow> (BoundaryResult, gerr) call"

text \<open>\<open>be_sem\<close> says what the semaphore wait of a parallel collector ended with: \<open>None\<close> when a slot
  was free, \<open>Some\<close> the context's error when the phase expired first.\<close>

record baseEnv =
  be_sem :: "nat \<Rightarrow> gerr option"
  be_ctxErr :: "nat \<Rightarrow> gerr option"
  be_call :: "nat \<Rightarrow> (SampleResult, gerr) call"

record generationOutcome =
  go_boundaries :: "CollectorBoundary list"
  go_handles :: "GenerationHandle list"
  go_validity :: Validity

record baselineOutcome =
  bo_boundaries :: "CollectorBoundary list"
  bo_handles :: "BaselineHandle list"
  bo_validity :: Validity

subsection \<open>Generation collectors\<close>

definition droppedOnGenerationError :: "Phase \<Rightarrow> bool \<Rightarrow> bool" where
  "droppedOnGenerationError phase committed =
     (if phase = PhaseStartBoundary then True else \<not> committed)"

definition newBoundary :: "Registration \<Rightarrow> Kind \<Rightarrow> Phase \<Rightarrow> CollectorBoundary" where
  "newBoundary reg kind phase =
     \<lparr>cb_Name = reg_Name reg, cb_Kind = kind, cb_Required = reg_Required reg, cb_Phase = phase,
      cb_At = 0, cb_Committed = False, cb_Code = NoCode, cb_Err = [], cb_Dropped = False\<rparr>"

text \<open>
  The body of the loop for one collector: its boundary, the handle to keep, the validity it
  degrades the outcome to (\<open>None\<close> when it leaves it alone), and what it reports to health.
\<close>

definition generationOp ::
  "Phase \<Rightarrow> string \<Rightarrow> Registration \<Rightarrow> gerr option \<Rightarrow> (BoundaryResult, gerr) call \<Rightarrow>
   CollectorBoundary \<times> GenerationHandle option \<times> Validity option \<times> health_log" where
  "generationOp phase runID reg ctxErr fn =
     (let b0 = newBoundary reg KindGeneration phase in
      case ctxErr of
        Some err \<Rightarrow>
          (b0\<lparr>cb_Code := CodeNotCaptured, cb_Err := Error err, cb_Dropped := True\<rparr>,
           None, Some (failValidity (reg_Required reg)), [])
      | None \<Rightarrow>
          (let (res, err) =
                 safeResult (reg_Name reg)
                   (if phase = PhaseStartBoundary then ''BeginBoundary'' else ''Freeze'')
                   zeroBoundaryResult fn;
               b = b0\<lparr>cb_At := br_At res, cb_Committed := br_Committed res\<rparr>
           in case err of
                None \<Rightarrow>
                  if br_Committed res then (b, Some (br_Handle res), None, [])
                  else
                    (b\<lparr>cb_Code := CodeContractViolation,
                       cb_Err := ''collector reported success without committing the boundary'',
                       cb_Dropped := True\<rparr>,
                     None, Some ValidityInvalid,
                     [(HealthContractViolation,
                       ''run '' @ runID @ '': '' @ reg_Name reg
                       @ '' returned nil error with Committed=false at '' @ Phase_string phase)])
              | Some e \<Rightarrow>
                  (b\<lparr>cb_Code := (if isPanic err then CodeContractViolation else CodeBoundaryFailed),
                     cb_Err := Error e,
                     cb_Dropped := droppedOnGenerationError phase (br_Committed res)\<rparr>,
                   (if br_Committed res then Some (br_Handle res) else None),
                   Some (failValidity (reg_Required reg)),
                   (if isPanic err
                    then [(HealthContractViolation, ''run '' @ runID @ '': '' @ Error e)] else []))))"

definition degrade :: "Validity \<Rightarrow> Validity option \<Rightarrow> Validity" where
  "degrade v d = (case d of None \<Rightarrow> v | Some d' \<Rightarrow> worse v d')"

lemma degrade_simps [simp]: "degrade v None = v" "degrade v (Some d) = worse v d"
  by (simp_all add: degrade_def)

fun generationLoop ::
  "genEnv \<Rightarrow> Phase \<Rightarrow> string \<Rightarrow> nat \<Rightarrow> registeredGeneration list \<Rightarrow> generationOutcome \<Rightarrow> health_log \<Rightarrow>
   generationOutcome \<times> health_log" where
  "generationLoop env phase runID i [] out hl = (out, hl)"
| "generationLoop env phase runID i (rc # rcs) out hl =
     (let (b, h, d, l) = generationOp phase runID (rg_reg rc) (ge_ctxErr env i) (ge_call env i) in
      generationLoop env phase runID (Suc i) rcs
        \<lparr>go_boundaries = go_boundaries out @ [b],
         go_handles = go_handles out @ (case h of None \<Rightarrow> [] | Some x \<Rightarrow> [x]),
         go_validity = degrade (go_validity out) d\<rparr>
        (hl @ l))"

definition runGenerationPhase ::
  "genEnv \<Rightarrow> Phase \<Rightarrow> string \<Rightarrow> registeredGeneration list \<Rightarrow> generationOutcome \<times> health_log" where
  "runGenerationPhase env phase runID regs =
     generationLoop env phase runID 0 regs
       \<lparr>go_boundaries = [], go_handles = [], go_validity = ValidityValid\<rparr> []"

subsection \<open>Baseline collectors\<close>

definition notCapturedBoundary :: "Registration \<Rightarrow> Phase \<Rightarrow> gerr option \<Rightarrow> CollectorBoundary" where
  "notCapturedBoundary reg phase err =
     (newBoundary reg KindBaseline phase)
       \<lparr>cb_Code := CodeNotCaptured, cb_Dropped := True,
        cb_Err := (case err of None \<Rightarrow> [] | Some e \<Rightarrow> Error e)\<rparr>"

definition captureBaseline ::
  "Phase \<Rightarrow> string \<Rightarrow> Registration \<Rightarrow> gerr option \<Rightarrow> (SampleResult, gerr) call \<Rightarrow>
   CollectorBoundary \<times> BaselineHandle option \<times> Validity \<times> health_log" where
  "captureBaseline phase runID reg ctxErr fn =
     (let b0 = newBoundary reg KindBaseline phase in
      case ctxErr of
        Some err \<Rightarrow>
          (notCapturedBoundary reg phase (Some err), None, failValidity (reg_Required reg), [])
      | None \<Rightarrow>
          (let (res, err) =
                 safeResult (reg_Name reg)
                   (if phase = PhaseStartBaseline then ''CaptureBaseline'' else ''CaptureFinal'')
                   zeroSampleResult fn;
               b = b0\<lparr>cb_At := smp_At res, cb_Committed := smp_Committed res\<rparr>
           in case err of
                None \<Rightarrow>
                  if smp_Committed res then (b, Some (smp_Handle res), ValidityValid, [])
                  else
                    (b\<lparr>cb_Code := CodeContractViolation,
                       cb_Err := ''collector reported success without committing the sample'',
                       cb_Dropped := True\<rparr>,
                     None, ValidityInvalid,
                     [(HealthContractViolation,
                       ''run '' @ runID @ '': '' @ reg_Name reg
                       @ '' returned nil error with Committed=false at '' @ Phase_string phase)])
              | Some e \<Rightarrow>
                  (b\<lparr>cb_Code :=
                       (if isPanic err then CodeContractViolation
                        else if errors_Is e CtxDeadlineExceeded \<or> errors_Is e CtxCanceled
                        then CodeNotCaptured else CodeBoundaryFailed),
                     cb_Err := Error e, cb_Dropped := True\<rparr>,
                   (if smp_Committed res \<and> \<not> BaselineHandle_Zero (smp_Handle res)
                    then Some (smp_Handle res) else None),
                   failValidity (reg_Required reg),
                   (if isPanic err
                    then [(HealthContractViolation, ''run '' @ runID @ '': '' @ Error e)] else []))))"

text \<open>
  One collector's slot of the \<open>results\<close> array. A \<open>SerialOnly\<close> collector is captured without taking
  the semaphore; the others wait for a slot and may lose it to the phase deadline.
\<close>

definition baselineOp ::
  "baseEnv \<Rightarrow> Phase \<Rightarrow> string \<Rightarrow> nat \<Rightarrow> registeredBaseline \<Rightarrow>
   CollectorBoundary \<times> BaselineHandle option \<times> Validity \<times> health_log" where
  "baselineOp env phase runID i rc =
     (if reg_SerialOnly (rb_reg rc) then
        captureBaseline phase runID (rb_reg rc) (be_ctxErr env i) (be_call env i)
      else
        (case be_sem env i of
           Some e \<Rightarrow>
             (notCapturedBoundary (rb_reg rc) phase (Some e), None,
              failValidity (reg_Required (rb_reg rc)), [])
         | None \<Rightarrow> captureBaseline phase runID (rb_reg rc) (be_ctxErr env i) (be_call env i)))"

fun baselineResults ::
  "baseEnv \<Rightarrow> Phase \<Rightarrow> string \<Rightarrow> nat \<Rightarrow> registeredBaseline list \<Rightarrow>
   (CollectorBoundary \<times> BaselineHandle option \<times> Validity \<times> health_log) list" where
  "baselineResults env phase runID i [] = []"
| "baselineResults env phase runID i (rc # rcs) =
     baselineOp env phase runID i rc # baselineResults env phase runID (Suc i) rcs"

fun baselineFold ::
  "(CollectorBoundary \<times> BaselineHandle option \<times> Validity \<times> health_log) list \<Rightarrow> baselineOutcome \<Rightarrow>
   health_log \<Rightarrow> baselineOutcome \<times> health_log" where
  "baselineFold [] out hl = (out, hl)"
| "baselineFold ((b, h, v, l) # rs) out hl =
     baselineFold rs
       \<lparr>bo_boundaries = bo_boundaries out @ [b],
        bo_handles = bo_handles out @ (case h of None \<Rightarrow> [] | Some x \<Rightarrow> [x]),
        bo_validity = worse (bo_validity out) v\<rparr>
       (hl @ l)"

definition runBaselinePhase ::
  "baseEnv \<Rightarrow> Phase \<Rightarrow> string \<Rightarrow> registeredBaseline list \<Rightarrow> baselineOutcome \<times> health_log" where
  "runBaselinePhase env phase runID regs =
     baselineFold (baselineResults env phase runID 0 regs)
       \<lparr>bo_boundaries = [], bo_handles = [], bo_validity = ValidityValid\<rparr> []"

subsection \<open>One collector\<close>

lemmas generation_op_defs = generationOp_def newBoundary_def safeResult_def zeroBoundaryResult_def
  droppedOnGenerationError_def

lemma generationOp_identity:
  "generationOp phase runID reg ctxErr fn = (b, h, d, l) \<Longrightarrow>
     cb_Name b = reg_Name reg \<and> cb_Kind b = KindGeneration \<and> cb_Required b = reg_Required reg
     \<and> cb_Phase b = phase"
  by (auto simp: generation_op_defs Let_def split: option.splits call.splits if_splits prod.splits)

text \<open>A handle is kept exactly when the boundary is recorded as committed.\<close>

lemma generationOp_handle:
  "generationOp phase runID reg ctxErr fn = (b, h, d, l) \<Longrightarrow> (h \<noteq> None) = cb_Committed b"
  by (auto simp: generation_op_defs Let_def split: option.splits call.splits if_splits prod.splits)

lemma generationOp_clean:
  "generationOp phase runID reg ctxErr fn = (b, h, d, l) \<Longrightarrow> (d = None) = (cb_Code b = NoCode)"
  by (auto simp: generation_op_defs Let_def split: option.splits call.splits if_splits prod.splits)

lemma generationOp_not_Zero:
  "generationOp phase runID reg ctxErr fn = (b, h, Some d, l) \<Longrightarrow> d \<noteq> ValidityZero \<and> d \<noteq> ValidityValid"
  by (auto simp: generation_op_defs failValidity_def Let_def
      split: option.splits call.splits if_splits prod.splits)

lemma generationOp_required:
  "generationOp phase runID reg ctxErr fn = (b, h, Some d, l) \<Longrightarrow> reg_Required reg \<Longrightarrow>
     d = ValidityInvalid"
  by (auto simp: generation_op_defs failValidity_def Let_def
      split: option.splits call.splits if_splits prod.splits)

text \<open>A failing collector loses its section, except a freeze that had committed.\<close>

lemma generationOp_dropped:
  "generationOp phase runID reg ctxErr fn = (b, h, d, l) \<Longrightarrow>
     cb_Dropped b = (cb_Code b \<noteq> NoCode \<and> (phase = PhaseStartBoundary \<or> \<not> cb_Committed b))"
  by (auto simp: generation_op_defs Let_def split: option.splits call.splits if_splits prod.splits)

lemmas baseline_op_defs = baselineOp_def captureBaseline_def notCapturedBoundary_def newBoundary_def
  safeResult_def zeroSampleResult_def

lemma baselineOp_identity:
  "baselineOp env phase runID i rc = (b, h, v, l) \<Longrightarrow>
     cb_Name b = reg_Name (rb_reg rc) \<and> cb_Kind b = KindBaseline
     \<and> cb_Required b = reg_Required (rb_reg rc) \<and> cb_Phase b = phase"
  by (auto simp: baseline_op_defs Let_def split: option.splits call.splits if_splits prod.splits)

lemma baselineOp_handle:
  "baselineOp env phase runID i rc = (b, Some h, v, l) \<Longrightarrow> cb_Committed b"
  by (auto simp: baseline_op_defs Let_def split: option.splits call.splits if_splits prod.splits)

lemma baselineOp_clean:
  "baselineOp env phase runID i rc = (b, h, v, l) \<Longrightarrow>
     (v = ValidityValid) = (cb_Code b = NoCode) \<and> v \<noteq> ValidityZero
     \<and> cb_Dropped b = (cb_Code b \<noteq> NoCode) \<and> (cb_Code b = NoCode \<longrightarrow> h \<noteq> None)"
  by (auto simp: baseline_op_defs failValidity_def Let_def
      split: option.splits call.splits if_splits prod.splits)

lemma baselineOp_required:
  "baselineOp env phase runID i rc = (b, h, v, l) \<Longrightarrow> reg_Required (rb_reg rc) \<Longrightarrow>
     cb_Code b \<noteq> NoCode \<Longrightarrow> v = ValidityInvalid"
  by (auto simp: baseline_op_defs failValidity_def Let_def
      split: option.splits call.splits if_splits prod.splits)

subsection \<open>Whole phases\<close>

definition generationResults ::
  "genEnv \<Rightarrow> Phase \<Rightarrow> string \<Rightarrow> nat \<Rightarrow> registeredGeneration list \<Rightarrow>
   (CollectorBoundary \<times> GenerationHandle option \<times> Validity option \<times> health_log) list" where
  "generationResults env phase runID n rcs =
     map (\<lambda>(i, rc). generationOp phase runID (rg_reg rc) (ge_ctxErr env i) (ge_call env i))
       (List.enumerate n rcs)"

lemma generationLoop_eq:
  "generationLoop env phase runID n rcs out hl =
     (let ops = generationResults env phase runID n rcs in
      (\<lparr>go_boundaries = go_boundaries out @ map fst ops,
        go_handles = go_handles out @ List.map_filter (\<lambda>(b, h, d, l). h) ops,
        go_validity = foldl degrade (go_validity out) (map (\<lambda>(b, h, d, l). d) ops)\<rparr>,
       hl @ concat (map (\<lambda>(b, h, d, l). l) ops)))"
proof (induction rcs arbitrary: n out hl)
  case (Cons rc rcs)
  obtain b h d l where
    op: "generationOp phase runID (rg_reg rc) (ge_ctxErr env n) (ge_call env n) = (b, h, d, l)"
    by (metis prod_cases4)
  show ?case
    by (simp add: op Cons.IH generationResults_def Let_def List.map_filter_simps
        split: option.splits)
qed (simp add: generationResults_def List.map_filter_simps)

lemma baselineResults_eq:
  "baselineResults env phase runID n rcs =
     map (\<lambda>(i, rc). baselineOp env phase runID i rc) (List.enumerate n rcs)"
  by (induction rcs arbitrary: n) simp_all

lemma baselineFold_eq:
  "baselineFold rs out hl =
     (\<lparr>bo_boundaries = bo_boundaries out @ map fst rs,
       bo_handles = bo_handles out @ List.map_filter (\<lambda>(b, h, v, l). h) rs,
       bo_validity = foldl worse (bo_validity out) (map (\<lambda>(b, h, v, l). v) rs)\<rparr>,
      hl @ concat (map (\<lambda>(b, h, v, l). l) rs))"
  by (induction rs out hl rule: baselineFold.induct)
    (simp_all add: List.map_filter_simps split: option.splits)

lemma foldl_worse_degrade: "foldl worse v vs = foldl degrade v (map Some vs)"
  by (induction vs arbitrary: v) simp_all

lemma foldl_degrade_not_Zero: "v \<noteq> ValidityZero \<Longrightarrow> foldl degrade v ds \<noteq> ValidityZero"
  by (induction ds arbitrary: v) (simp_all add: degrade_def split: option.split)

lemma foldl_degrade_Invalid:
  "foldl degrade v ds = ValidityInvalid \<longleftrightarrow> v = ValidityInvalid \<or> Some ValidityInvalid \<in> set ds"
proof (induction ds arbitrary: v)
  case (Cons d ds)
  then show ?case by (cases d) auto
qed simp

lemma foldl_degrade_Valid:
  "v \<noteq> ValidityZero \<Longrightarrow> (\<forall>d. Some d \<in> set ds \<longrightarrow> d \<noteq> ValidityZero) \<Longrightarrow>
   foldl degrade v ds = ValidityValid \<longleftrightarrow>
     v = ValidityValid \<and> (\<forall>d. Some d \<in> set ds \<longrightarrow> d = ValidityValid)"
proof (induction ds arbitrary: v)
  case (Cons d ds)
  show ?case
  proof (cases d)
    case (Some d')
    then have "d' \<noteq> ValidityZero" using Cons.prems by auto
    then have "worse v d' = ValidityValid \<longleftrightarrow> v = ValidityValid \<and> d' = ValidityValid"
      using Cons.prems(1) by (cases v; cases d') (simp_all add: worse_def)
    then show ?thesis using Cons.IH [of "worse v d'"] Cons.prems Some by auto
  qed (use Cons in auto)
qed auto

lemma length_map_filter_handles:
  "(\<forall>(b, h, d, l) \<in> set ops. (h \<noteq> None) = cb_Committed b) \<Longrightarrow>
   length (List.map_filter (\<lambda>(b, h, d, l). h) ops) = length (filter cb_Committed (map fst ops))"
  by (induction ops) (auto simp: List.map_filter_simps split: option.splits)

lemma third_in_set: "y \<in> set (map (\<lambda>(b, h, d, l). d) ops) \<longleftrightarrow> (\<exists>b h l. (b, h, y, l) \<in> set ops)"
  by (induction ops) auto

lemma Some_in_set_map: "Some d \<in> set (map Some xs) \<longleftrightarrow> d \<in> set xs"
  by auto

lemma generationResults_mem:
  "x \<in> set (generationResults env phase runID n rcs) \<Longrightarrow>
     \<exists>i (rc :: registeredGeneration).
       generationOp phase runID (rg_reg rc) (ge_ctxErr env i) (ge_call env i) = x"
  by (induction rcs arbitrary: n) (auto simp: generationResults_def)

lemma baselineResults_mem:
  "x \<in> set (baselineResults env phase runID n rcs) \<Longrightarrow> \<exists>i rc. baselineOp env phase runID i rc = x"
  by (induction rcs arbitrary: n) auto

lemma generationResults_props:
  assumes "(b, h, d, l) \<in> set (generationResults env phase runID n rcs)"
  shows "(h \<noteq> None) = cb_Committed b" "(d = None) = (cb_Code b = NoCode)"
    "\<And>v. d = Some v \<Longrightarrow> v \<noteq> ValidityZero \<and> v \<noteq> ValidityValid"
    "\<And>v. d = Some v \<Longrightarrow> cb_Required b \<Longrightarrow> v = ValidityInvalid"
    "cb_Kind b = KindGeneration" "cb_Phase b = phase"
    "cb_Dropped b = (cb_Code b \<noteq> NoCode \<and> (phase = PhaseStartBoundary \<or> \<not> cb_Committed b))"
proof -
  obtain i and rc :: registeredGeneration where
    op: "generationOp phase runID (rg_reg rc) (ge_ctxErr env i) (ge_call env i) = (b, h, d, l)"
    using generationResults_mem [OF assms] by blast
  show "(h \<noteq> None) = cb_Committed b" "(d = None) = (cb_Code b = NoCode)"
    "\<And>v. d = Some v \<Longrightarrow> v \<noteq> ValidityZero \<and> v \<noteq> ValidityValid"
    "\<And>v. d = Some v \<Longrightarrow> cb_Required b \<Longrightarrow> v = ValidityInvalid"
    "cb_Kind b = KindGeneration" "cb_Phase b = phase"
    "cb_Dropped b = (cb_Code b \<noteq> NoCode \<and> (phase = PhaseStartBoundary \<or> \<not> cb_Committed b))"
    using generationOp_handle [OF op] generationOp_clean [OF op] generationOp_identity [OF op]
      generationOp_dropped [OF op] generationOp_not_Zero generationOp_required op
    by blast+
qed

lemma baselineResults_props:
  assumes "(b, h, v, l) \<in> set (baselineResults env phase runID n rcs)"
  shows "h \<noteq> None \<Longrightarrow> cb_Committed b" "(v = ValidityValid) = (cb_Code b = NoCode)"
    "v \<noteq> ValidityZero" "cb_Required b \<Longrightarrow> cb_Code b \<noteq> NoCode \<Longrightarrow> v = ValidityInvalid"
    "cb_Kind b = KindBaseline" "cb_Phase b = phase" "cb_Dropped b = (cb_Code b \<noteq> NoCode)"
    "cb_Code b = NoCode \<Longrightarrow> h \<noteq> None"
proof -
  obtain i rc where op: "baselineOp env phase runID i rc = (b, h, v, l)"
    using baselineResults_mem [OF assms] by blast
  show "h \<noteq> None \<Longrightarrow> cb_Committed b" "(v = ValidityValid) = (cb_Code b = NoCode)"
    "v \<noteq> ValidityZero" "cb_Required b \<Longrightarrow> cb_Code b \<noteq> NoCode \<Longrightarrow> v = ValidityInvalid"
    "cb_Kind b = KindBaseline" "cb_Phase b = phase" "cb_Dropped b = (cb_Code b \<noteq> NoCode)"
    "cb_Code b = NoCode \<Longrightarrow> h \<noteq> None"
    using baselineOp_handle baselineOp_clean [OF op] baselineOp_identity [OF op]
      baselineOp_required [OF op] op
    by auto
qed

lemma names_generationResults:
  "map (cb_Name \<circ> fst) (generationResults env phase runID n rcs) = map (reg_Name \<circ> rg_reg) rcs"
proof (induction rcs arbitrary: n)
  case (Cons rc rcs)
  obtain b h d l where
    op: "generationOp phase runID (rg_reg rc) (ge_ctxErr env n) (ge_call env n) = (b, h, d, l)"
    by (metis prod_cases4)
  show ?case using Cons generationOp_identity [OF op] by (simp add: generationResults_def op)
qed (simp add: generationResults_def)

lemma names_baselineResults:
  "map (cb_Name \<circ> fst) (baselineResults env phase runID n rcs) = map (reg_Name \<circ> rb_reg) rcs"
proof (induction rcs arbitrary: n)
  case (Cons rc rcs)
  obtain b h v l where op: "baselineOp env phase runID n rc = (b, h, v, l)" by (metis prod_cases4)
  show ?case using Cons baselineOp_identity [OF op] by (simp add: op)
qed simp

lemma runGenerationPhase_eq:
  "runGenerationPhase env phase runID regs =
     (let ops = generationResults env phase runID 0 regs in
      (\<lparr>go_boundaries = map fst ops, go_handles = List.map_filter (\<lambda>(b, h, d, l). h) ops,
        go_validity = foldl degrade ValidityValid (map (\<lambda>(b, h, d, l). d) ops)\<rparr>,
       concat (map (\<lambda>(b, h, d, l). l) ops)))"
  by (simp add: runGenerationPhase_def generationLoop_eq)

lemma runBaselinePhase_eq:
  "runBaselinePhase env phase runID regs =
     (let rs = baselineResults env phase runID 0 regs in
      (\<lparr>bo_boundaries = map fst rs, bo_handles = List.map_filter (\<lambda>(b, h, v, l). h) rs,
        bo_validity = foldl degrade ValidityValid (map Some (map (\<lambda>(b, h, v, l). v) rs))\<rparr>,
       concat (map (\<lambda>(b, h, v, l). l) rs)))"
  by (simp add: runBaselinePhase_def baselineFold_eq foldl_worse_degrade Let_def)

text \<open>The phase outcomes are never the zero validity.\<close>

lemma runGenerationPhase_not_Zero:
  "go_validity (fst (runGenerationPhase env phase runID regs)) \<noteq> ValidityZero"
  by (simp add: runGenerationPhase_eq Let_def foldl_degrade_not_Zero)

lemma runBaselinePhase_not_Zero:
  "bo_validity (fst (runBaselinePhase env phase runID regs)) \<noteq> ValidityZero"
  by (simp add: runBaselinePhase_eq Let_def foldl_degrade_not_Zero)

lemma generationPhase_Valid_iff:
  "go_validity (fst (runGenerationPhase env phase runID regs)) = ValidityValid \<longleftrightarrow>
     (\<forall>b \<in> set (go_boundaries (fst (runGenerationPhase env phase runID regs))). cb_Code b = NoCode)"
proof -
  let ?ops = "generationResults env phase runID 0 regs"
  have nz: "\<forall>d. Some d \<in> set (map (\<lambda>(b, h, d, l). d) ?ops) \<longrightarrow> d \<noteq> ValidityZero"
    unfolding third_in_set using generationResults_props(3) by blast
  have "(\<forall>d. Some d \<in> set (map (\<lambda>(b, h, d, l). d) ?ops) \<longrightarrow> d = ValidityValid) \<longleftrightarrow>
      (\<forall>b h d l. (b, h, d, l) \<in> set ?ops \<longrightarrow> cb_Code b = NoCode)"
    unfolding third_in_set using generationResults_props(2,3) by (metis not_None_eq)
  also have "\<dots> \<longleftrightarrow> (\<forall>b \<in> set (map fst ?ops). cb_Code b = NoCode)" by force
  finally show ?thesis
    using foldl_degrade_Valid [OF _ nz, of ValidityValid]
    by (simp add: runGenerationPhase_eq Let_def)
qed

lemma generationPhase_required_failure:
  assumes "b \<in> set (go_boundaries (fst (runGenerationPhase env phase runID regs)))"
    and "cb_Required b" and "cb_Code b \<noteq> NoCode"
  shows "go_validity (fst (runGenerationPhase env phase runID regs)) = ValidityInvalid"
proof -
  let ?ops = "generationResults env phase runID 0 regs"
  obtain h d l where op: "(b, h, d, l) \<in> set ?ops"
    using assms(1) by (force simp: runGenerationPhase_eq Let_def)
  from generationResults_props(2) [OF op] assms(3) obtain v where v: "d = Some v" by auto
  with generationResults_props(4) [OF op v assms(2)] op
  have "Some ValidityInvalid \<in> set (map (\<lambda>(b, h, d, l). d) ?ops)" by force
  then show ?thesis by (simp add: runGenerationPhase_eq Let_def foldl_degrade_Invalid)
qed

lemma baselinePhase_Valid_iff:
  "bo_validity (fst (runBaselinePhase env phase runID regs)) = ValidityValid \<longleftrightarrow>
     (\<forall>b \<in> set (bo_boundaries (fst (runBaselinePhase env phase runID regs))). cb_Code b = NoCode)"
proof -
  let ?rs = "baselineResults env phase runID 0 regs"
  have nz: "\<forall>d. Some d \<in> set (map Some (map (\<lambda>(b, h, v, l). v) ?rs)) \<longrightarrow> d \<noteq> ValidityZero"
    unfolding Some_in_set_map third_in_set using baselineResults_props(3) by blast
  have "(\<forall>d. Some d \<in> set (map Some (map (\<lambda>(b, h, v, l). v) ?rs)) \<longrightarrow> d = ValidityValid) \<longleftrightarrow>
      (\<forall>b h v l. (b, h, v, l) \<in> set ?rs \<longrightarrow> cb_Code b = NoCode)"
    unfolding Some_in_set_map third_in_set using baselineResults_props(2) by blast
  also have "\<dots> \<longleftrightarrow> (\<forall>b \<in> set (map fst ?rs). cb_Code b = NoCode)" by force
  finally show ?thesis
    using foldl_degrade_Valid [OF _ nz, of ValidityValid]
    by (simp add: runBaselinePhase_eq Let_def del: map_map)
qed

lemma baselinePhase_required_failure:
  assumes "b \<in> set (bo_boundaries (fst (runBaselinePhase env phase runID regs)))"
    and "cb_Required b" and "cb_Code b \<noteq> NoCode"
  shows "bo_validity (fst (runBaselinePhase env phase runID regs)) = ValidityInvalid"
proof -
  let ?rs = "baselineResults env phase runID 0 regs"
  obtain h v l where op: "(b, h, v, l) \<in> set ?rs"
    using assms(1) by (force simp: runBaselinePhase_eq Let_def)
  from baselineResults_props(4) [OF op assms(2,3)] op
  have "Some ValidityInvalid \<in> set (map Some (map (\<lambda>(b, h, v, l). v) ?rs))" by force
  then show ?thesis by (simp add: runBaselinePhase_eq Let_def foldl_degrade_Invalid)
qed

end
