(* ===== verification/Controller.thy ===== *)
theory Controller
  imports Phases
begin

text \<open>
  \<open>internal/runctl/controller.go\<close>: the run records, the collector tables, the epoch fence and the
  operations that run under \<open>Controller.mu\<close>.

  Go keeps \<open>[]*runSlot\<close>, and a goroutine may hold a slot the controller has already dropped, so
  slots live in a store (\<open>c_heap\<close>, indexed by reference) and \<open>c_slots\<close> is the list of retained
  references, oldest first. A channel that is only ever closed is a flag (\<open>rs_done\<close>); the channel
  \<open>changed\<close>, closed and replaced on every notification, is a counter; the run context is the flag
  \<open>rs_cancelled\<close>. What \<open>recordHealth\<close> and the observer receive, and the handles on which
  \<open>Release\<close> was called, are logged in the controller.
  Every definition is one critical section, with the clock readings as arguments.
\<close>

record runSlot =
  rs_runID :: string
  rs_nonce :: string
  rs_epoch :: epoch
  rs_state :: RunState
  rs_validity :: Validity
  rs_reason :: string
  rs_trigger :: string
  rs_ackedBy :: string
  rs_detached :: bool
  rs_since :: gotime
  rs_cancelled :: bool
  rs_lease :: gotime
  rs_owners :: int
  rs_sealed :: bool
  rs_done :: bool
  rs_changed :: nat
  rs_gen :: "GenerationHandle list"
  rs_genFinal :: "GenerationHandle list"
  rs_base :: "BaselineHandle list"
  rs_baseF :: "BaselineHandle list"
  rs_start :: StartResult
  rs_finish :: FinishAccepted
  rs_finishSet :: bool
  rs_abort :: AbortResult
  rs_snapshot :: "Snapshot option"

record nonceEntry =
  ne_nonce :: string
  ne_result :: StartResult
  ne_at :: gotime

record Controller =
  c_budgets :: Budgets
  c_epoch :: epoch
  c_heap :: "runSlot list"
  c_slots :: "nat list"
  c_gens :: "registeredGeneration list"
  c_bases :: "registeredBaseline list"
  c_nonce :: "nonceEntry list"
  c_stale :: nat
  c_published :: nat
  c_healthR :: health_log
  c_observer :: bool
  c_events :: "RunTerminationEvent list"
  c_relGen :: "GenerationHandle list"
  c_relBase :: "BaselineHandle list"

text \<open>\<open>New\<close> with the options that shape the controller: the budget table and whether an observer
  is installed.\<close>

definition New :: "Budgets \<Rightarrow> bool \<Rightarrow> gerr + Controller" where
  "New budgets observer =
     (let b = withDefaults budgets in
      case Validate b of
        Some e \<Rightarrow> Inl (WrapErr ''runctl: invalid budgets: '' e [])
      | None \<Rightarrow>
          Inr \<lparr>c_budgets = b, c_epoch = 0, c_heap = [], c_slots = [], c_gens = [], c_bases = [],
               c_nonce = [], c_stale = 0, c_published = 0, c_healthR = [],
               c_observer = observer, c_events = [], c_relGen = [], c_relBase = []\<rparr>)"

subsection \<open>The store\<close>

definition slot :: "Controller \<Rightarrow> nat \<Rightarrow> runSlot" where
  "slot c r = c_heap c ! r"

definition upd :: "Controller \<Rightarrow> nat \<Rightarrow> (runSlot \<Rightarrow> runSlot) \<Rightarrow> Controller" where
  "upd c r f = c\<lparr>c_heap := (c_heap c)[r := f (c_heap c ! r)]\<rparr>"

definition recordHealth :: "Controller \<Rightarrow> health_log \<Rightarrow> Controller" where
  "recordHealth c l = c\<lparr>c_healthR := c_healthR c @ l\<rparr>"

text \<open>\<open>observeTermination\<close>: without an observer nothing happens; with one, the event is delivered.\<close>

definition observeTermination :: "Controller \<Rightarrow> RunTerminationEvent \<Rightarrow> Controller" where
  "observeTermination c event =
     (if \<not> c_observer c then c else c\<lparr>c_events := c_events c @ [event]\<rparr>)"

subsection \<open>Registration\<close>

definition checkBudget :: "string \<Rightarrow> Collector \<Rightarrow> duration \<Rightarrow> string \<Rightarrow> gerr option" where
  "checkBudget name coll parent parentName =
     (case coll_Budget coll of
        None \<Rightarrow> None
      | Some fn \<Rightarrow>
          (let (want, err) = safeResult name ''Budget'' 0 fn in
           case err of
             Some e \<Rightarrow> Some (WrapErr [] ErrInvalidRegistration ('': '' @ Error e))
           | None \<Rightarrow>
               if want > parent then
                 Some (WrapErr [] ErrBudgetInversion
                   ('': collector wants '' @ Duration_String want @ '', '' @ parentName @ '' is ''
                    @ Duration_String parent))
               else None))"

definition RegisterGeneration ::
  "Controller \<Rightarrow> Registration \<Rightarrow> Collector option \<Rightarrow> gerr option \<times> Controller" where
  "RegisterGeneration c r g =
     (if reg_Name r = [] \<or> g = None then
        (Some (WrapErr [] ErrInvalidRegistration
           '': generation collector needs a name and an implementation''), c)
      else
        (case checkBudget (reg_Name r) (the g) (b_PerCollectorGeneration (c_budgets c))
                ''PerCollectorGeneration'' of
           Some e \<Rightarrow> (Some e, c)
         | None \<Rightarrow>
             if list_ex (\<lambda>x. reg_Name (rg_reg x) = reg_Name r) (c_gens c) then
               (Some (WrapErr [] ErrCollectorRegistered ('': '' @ reg_Name r)), c)
             else (None, c\<lparr>c_gens := c_gens c @ [\<lparr>rg_reg = r, rg_coll = the g\<rparr>]\<rparr>)))"

definition RegisterBaseline ::
  "Controller \<Rightarrow> Registration \<Rightarrow> Collector option \<Rightarrow> gerr option \<times> Controller" where
  "RegisterBaseline c r b =
     (if reg_Name r = [] \<or> b = None then
        (Some (WrapErr [] ErrInvalidRegistration
           '': baseline collector needs a name and an implementation''), c)
      else
        (case checkBudget (reg_Name r) (the b) (b_PerCollectorBaseline (c_budgets c))
                ''PerCollectorBaseline'' of
           Some e \<Rightarrow> (Some e, c)
         | None \<Rightarrow>
             if list_ex (\<lambda>x. reg_Name (rb_reg x) = reg_Name r) (c_bases c) then
               (Some (WrapErr [] ErrCollectorRegistered ('': '' @ reg_Name r)), c)
             else (None, c\<lparr>c_bases := c_bases c @ [\<lparr>rb_reg = r, rb_coll = the b\<rparr>]\<rparr>)))"

definition RegisteredCollectors :: "Controller \<Rightarrow> string list" where
  "RegisteredCollectors c =
     sort (map (reg_Name \<circ> rg_reg) (c_gens c) @ map (reg_Name \<circ> rb_reg) (c_bases c))"

definition generationByName :: "Controller \<Rightarrow> string \<Rightarrow> registeredGeneration option" where
  "generationByName c name = List.find (\<lambda>rc. reg_Name (rg_reg rc) = name) (c_gens c)"

definition baselineByName :: "Controller \<Rightarrow> string \<Rightarrow> registeredBaseline option" where
  "baselineByName c name = List.find (\<lambda>rc. reg_Name (rb_reg rc) = name) (c_bases c)"

subsection \<open>Calls on cleanup paths\<close>

text \<open>A panic on a cleanup path is reported to health and swallowed.\<close>

definition safeInvoke :: "Controller \<Rightarrow> string \<Rightarrow> string \<Rightarrow> (unit, gerr) call \<Rightarrow> Controller" where
  "safeInvoke c collector op fn =
     (case safeErr collector op fn of
        Some e \<Rightarrow>
          if isPanic (Some e) then recordHealth c [(HealthContractViolation, Error e)] else c
      | None \<Rightarrow> c)"

fun releaseGeneration ::
  "(GenerationHandle \<Rightarrow> (unit, gerr) call) \<Rightarrow> GenerationHandle list \<Rightarrow> Controller \<Rightarrow> Controller" where
  "releaseGeneration rel [] c = c"
| "releaseGeneration rel (h # hs) c =
     releaseGeneration rel hs
       (case generationByName c (gh_Collector h) of
          None \<Rightarrow> c
        | Some rc \<Rightarrow>
            safeInvoke (c\<lparr>c_relGen := c_relGen c @ [h]\<rparr>) (reg_Name (rg_reg rc)) ''Release'' (rel h))"

fun releaseBaseline ::
  "(BaselineHandle \<Rightarrow> (unit, gerr) call) \<Rightarrow> BaselineHandle list \<Rightarrow> Controller \<Rightarrow> Controller" where
  "releaseBaseline rel [] c = c"
| "releaseBaseline rel (h # hs) c =
     releaseBaseline rel hs
       (case baselineByName c (bh_Collector h) of
          None \<Rightarrow> c
        | Some rc \<Rightarrow>
            safeInvoke (c\<lparr>c_relBase := c_relBase c @ [h]\<rparr>) (reg_Name (rb_reg rc)) ''Release'' (rel h))"

fun drainAndRelease ::
  "(GenerationHandle \<Rightarrow> (unit, gerr) call) \<Rightarrow> (GenerationHandle \<Rightarrow> (unit, gerr) call) \<Rightarrow>
   GenerationHandle list \<Rightarrow> Controller \<Rightarrow> Controller" where
  "drainAndRelease drain rel [] c = c"
| "drainAndRelease drain rel (h # hs) c =
     drainAndRelease drain rel hs
       (case generationByName c (gh_Collector h) of
          None \<Rightarrow> c
        | Some rc \<Rightarrow>
            safeInvoke
              ((safeInvoke c (reg_Name (rg_reg rc)) ''Drain'' (drain h))
                 \<lparr>c_relGen := c_relGen c @ [h]\<rparr>)
              (reg_Name (rg_reg rc)) ''Release'' (rel h))"

subsection \<open>Lookups\<close>

definition lookupLocked :: "Controller \<Rightarrow> string \<Rightarrow> nat option" where
  "lookupLocked c runID = List.find (\<lambda>r. rs_runID (slot c r) = runID) (c_slots c)"

definition currentLocked :: "Controller \<Rightarrow> nat option" where
  "currentLocked c = (if c_slots c = [] then None else Some (last (c_slots c)))"

definition slotByNonceLocked :: "Controller \<Rightarrow> string \<Rightarrow> nat option" where
  "slotByNonceLocked c nonce =
     (if nonce = [] then None else List.find (\<lambda>r. rs_nonce (slot c r) = nonce) (c_slots c))"

definition fencedSlotLocked :: "Controller \<Rightarrow> epoch \<Rightarrow> nat option" where
  "fencedSlotLocked c ep =
     (if ep \<noteq> c_epoch c then None else List.find (\<lambda>r. rs_epoch (slot c r) = ep) (c_slots c))"

subsection \<open>Notification and ownership\<close>

definition notifyLocked :: "Controller \<Rightarrow> nat \<Rightarrow> Controller" where
  "notifyLocked c r = upd c r (\<lambda>s. s\<lparr>rs_changed := Suc (rs_changed s)\<rparr>)"

definition closeDoneLocked :: "runSlot \<Rightarrow> runSlot" where
  "closeDoneLocked s = s\<lparr>rs_done := True\<rparr>"

definition beginOwnerLocked :: "runSlot \<Rightarrow> runSlot" where
  "beginOwnerLocked s = s\<lparr>rs_owners := rs_owners s + 1\<rparr>"

definition sealLocked :: "runSlot \<Rightarrow> runSlot" where
  "sealLocked s =
     (let s1 = s\<lparr>rs_sealed := True\<rparr> in if rs_owners s1 \<le> 0 then closeDoneLocked s1 else s1)"

definition retireOwner :: "runSlot \<Rightarrow> runSlot" where
  "retireOwner s =
     (let s1 = s\<lparr>rs_owners := rs_owners s - 1\<rparr> in
      if rs_owners s1 \<le> 0 \<and> rs_sealed s1 then closeDoneLocked s1 else s1)"

definition endOwner :: "Controller \<Rightarrow> nat \<Rightarrow> Controller" where
  "endOwner c r = upd c r retireOwner"

subsection \<open>The fence\<close>

definition commit :: "Controller \<Rightarrow> epoch \<Rightarrow> (nat \<Rightarrow> Controller \<Rightarrow> Controller) \<Rightarrow> gerr option \<times> Controller"
where
  "commit c ep mutate =
     (case fencedSlotLocked c ep of
        None \<Rightarrow> (Some ErrStaleEpoch, c\<lparr>c_stale := Suc (c_stale c)\<rparr>)
      | Some r \<Rightarrow> (None, notifyLocked (mutate r c) r))"

definition publish :: "Controller \<Rightarrow> epoch \<Rightarrow> Snapshot \<Rightarrow> gerr option \<times> Controller" where
  "publish c ep snap =
     (case fencedSlotLocked c ep of
        None \<Rightarrow> (Some ErrStaleEpoch, c\<lparr>c_stale := Suc (c_stale c)\<rparr>)
      | Some r \<Rightarrow>
          (None, (upd c r (\<lambda>s. s\<lparr>rs_snapshot := Some snap\<rparr>))\<lparr>c_published := Suc (c_published c)\<rparr>))"

subsection \<open>Retention\<close>

definition drop_slot :: "Controller \<Rightarrow> nat \<Rightarrow> Controller" where
  "drop_slot c idx =
     upd (c\<lparr>c_slots := remove_at idx (c_slots c)\<rparr>) (c_slots c ! idx)
       (\<lambda>s. s\<lparr>rs_snapshot := None, rs_cancelled := True\<rparr>)"

function evict :: "Controller \<Rightarrow> Controller" where
  "evict c =
     (if length (c_slots c) > RetainedRuns then
        (case find_index (\<lambda>r. \<not> active (rs_state (slot c r))) (c_slots c) of
           None \<Rightarrow> c
         | Some idx \<Rightarrow> evict (drop_slot c idx))
      else c)"
  by pat_completeness auto
termination
proof (relation "measure (\<lambda>c. length (c_slots c))", goal_cases)
  case (2 c idx)
  then have "idx < length (c_slots c)" by (auto dest: find_index_Some)
  then show ?case by (simp add: drop_slot_def upd_def)
qed simp

declare evict.simps [simp del]

definition addSlotLocked :: "Controller \<Rightarrow> runSlot \<Rightarrow> Controller" where
  "addSlotLocked c s =
     evict (c\<lparr>c_heap := c_heap c @ [s], c_slots := c_slots c @ [length (c_heap c)]\<rparr>)"

subsection \<open>The nonce cache\<close>

definition rememberNonceLocked :: "gotime \<Rightarrow> string \<Rightarrow> StartResult \<Rightarrow> Controller \<Rightarrow> Controller" where
  "rememberNonceLocked now nonce r c =
     (if nonce = [] \<or> st_State r \<noteq> StateStarted then c
      else
        (let ns = c_nonce c @ [\<lparr>ne_nonce = nonce, ne_result = r, ne_at = now\<rparr>] in
         c\<lparr>c_nonce :=
             (if length ns > NonceHistoryMax then drop (length ns - NonceHistoryMax) ns else ns)\<rparr>))"

fun lookupNonce_loop :: "gotime \<Rightarrow> string \<Rightarrow> nonceEntry list \<Rightarrow> StartResult option" where
  "lookupNonce_loop cutoff nonce [] = None"
| "lookupNonce_loop cutoff nonce (e # es) =
     (if ne_nonce e \<noteq> nonce then lookupNonce_loop cutoff nonce es
      else if ne_at e < cutoff then None
      else Some (ne_result e))"

definition lookupNonceLocked :: "Controller \<Rightarrow> gotime \<Rightarrow> string \<Rightarrow> StartResult option" where
  "lookupNonceLocked c now nonce =
     (if nonce = [] then None
      else lookupNonce_loop (time_Add now (- b_NonceTTL (c_budgets c))) nonce (rev (c_nonce c)))"

subsection \<open>Queries\<close>

definition statusOf :: "runSlot \<Rightarrow> RunStatus" where
  "statusOf s =
     \<lparr>rst_RunID = rs_runID s, rst_Epoch = rs_epoch s, rst_State = rs_state s,
      rst_Validity = rs_validity s, rst_Reason = rs_reason s, rst_AckedBy = rs_ackedBy s,
      rst_Detached = rs_detached s, rst_Since = rs_since s\<rparr>"

definition Status :: "Controller \<Rightarrow> string \<Rightarrow> RunStatus option" where
  "Status c runID = map_option (\<lambda>r. statusOf (slot c r)) (lookupLocked c runID)"

definition SnapshotOf :: "Controller \<Rightarrow> string \<Rightarrow> gerr + Snapshot" where
  "SnapshotOf c runID =
     (case lookupLocked c runID of
        None \<Rightarrow> Inl ErrUnknownRun
      | Some r \<Rightarrow>
          (let s = slot c r in
           if rs_state s = StateExpired then Inl ErrUnknownRun
           else if rs_state s = StateAborted \<or> rs_state s = StateAborting then Inl ErrRunAborted
           else (case rs_snapshot s of None \<Rightarrow> Inl ErrRunActive | Some snap \<Rightarrow> Inr snap)))"

text \<open>
  \<open>Await\<close> looks at the controller once per wake-up; the list holds the controller as seen each
  time the mutex is taken, and the context's error ends the wait when no look has answered.
\<close>

fun Await :: "gerr \<Rightarrow> string \<Rightarrow> Controller list \<Rightarrow> gerr + RunStatus" where
  "Await ctxErr runID [] = Inl (WrapErr (''runctl: awaiting run '' @ runID @ '': '') ctxErr [])"
| "Await ctxErr runID (c # cs) =
     (case lookupLocked c runID of
        None \<Rightarrow> Inl ErrUnknownRun
      | Some r \<Rightarrow>
          (let s = slot c r in
           if rs_state s = StateExpired then Inl ErrUnknownRun
           else if rs_state s \<in> {StateStarted, StateFinished, StateAcknowledged, StateAborted}
             then Inr (statusOf s)
           else Await ctxErr runID cs))"

subsection \<open>Acknowledgement\<close>

definition AckBy :: "Controller \<Rightarrow> gotime \<Rightarrow> string \<Rightarrow> string \<Rightarrow> gerr option \<times> Controller" where
  "AckBy c now runID by =
     (case lookupLocked c runID of
        None \<Rightarrow>
          (case currentLocked c of
             Some cur \<Rightarrow>
               if blocksNewRun (rs_state (slot c cur)) then (Some ErrRunActive, c)
               else (Some ErrUnknownRun, c)
           | None \<Rightarrow> (Some ErrUnknownRun, c))
      | Some r \<Rightarrow>
          (case rs_state (slot c r) of
             StateStarting \<Rightarrow> (Some ErrRunActive, c)
           | StateStarted \<Rightarrow> (Some ErrRunActive, c)
           | StateFinishing \<Rightarrow> (Some ErrRunActive, c)
           | StateAborting \<Rightarrow> (Some ErrRunAborted, c)
           | StateAborted \<Rightarrow> (Some ErrRunAborted, c)
           | StateExpired \<Rightarrow> (Some ErrUnknownRun, c)
           | StateAcknowledged \<Rightarrow> (None, c)
           | _ \<Rightarrow>
               (None, notifyLocked
                  (upd c r (\<lambda>s. s\<lparr>rs_state := StateAcknowledged, rs_ackedBy := by, rs_since := now\<rparr>))
                  r)))"

definition Ack :: "Controller \<Rightarrow> gotime \<Rightarrow> string \<Rightarrow> gerr option \<times> Controller" where
  "Ack c now runID = AckBy c now runID AckedByExplicit"

subsection \<open>Sweeping leases and time-to-live\<close>

record abortReq =
  ar_runID :: string
  ar_reason :: string
  ar_health :: string

text \<open>One slot of the sweep: whether it is kept, the abort it asks for, the controller after it.\<close>

definition sweepSlot :: "gotime \<Rightarrow> nat \<Rightarrow> Controller \<Rightarrow> bool \<times> abortReq list \<times> Controller" where
  "sweepSlot now r c =
     (let s = slot c r; b = c_budgets c in
      case rs_state s of
        StateFinishing \<Rightarrow>
          (True,
           (if \<not> IsZero (rs_lease s) \<and> now > rs_lease s
            then [\<lparr>ar_runID = rs_runID s, ar_reason = ReasonFinishLeaseExpired,
                   ar_health = HealthLeaseExpired\<rparr>] else []), c)
      | StateStarted \<Rightarrow>
          (True,
           (if time_Sub now (rs_since s) > b_StartedTTL b
            then [\<lparr>ar_runID = rs_runID s, ar_reason = ReasonStartedTTL, ar_health = []\<rparr>] else []), c)
      | StateAborted \<Rightarrow>
          (if time_Sub now (rs_since s) > b_TombstoneTTL b
           then (False, [], upd c r (\<lambda>s. s\<lparr>rs_cancelled := True\<rparr>)) else (True, [], c))
      | StateExpired \<Rightarrow>
          (if time_Sub now (rs_since s) > b_TombstoneTTL b
           then (False, [], upd c r (\<lambda>s. s\<lparr>rs_cancelled := True\<rparr>)) else (True, [], c))
      | st \<Rightarrow>
          (if (st = StateFinished \<or> st = StateAcknowledged)
              \<and> time_Sub now (rs_since s) > b_FinishedTTL b
           then (True, [], notifyLocked
                   (upd c r (\<lambda>s. s\<lparr>rs_state := StateExpired, rs_snapshot := None, rs_since := now\<rparr>)) r)
           else (True, [], c)))"

fun sweepLoop :: "gotime \<Rightarrow> nat list \<Rightarrow> Controller \<Rightarrow> nat list \<times> abortReq list \<times> Controller" where
  "sweepLoop now [] c = ([], [], c)"
| "sweepLoop now (r # rs) c =
     (let (keep, reqs, c1) = sweepSlot now r c; (kept, reqs', c2) = sweepLoop now rs c1 in
      ((if keep then r # kept else kept), reqs @ reqs', c2))"

text \<open>The critical section of \<open>Sweep\<close>; the aborts it asks for run after the mutex is released.\<close>

definition sweepLocked :: "gotime \<Rightarrow> Controller \<Rightarrow> abortReq list \<times> Controller" where
  "sweepLocked now c =
     (let (kept, reqs, c1) = sweepLoop now (c_slots c) c in (reqs, c1\<lparr>c_slots := kept\<rparr>))"

subsection \<open>Reading the store after an update\<close>

lemma upd_fields [simp]:
  "c_budgets (upd c r f) = c_budgets c" "c_epoch (upd c r f) = c_epoch c"
  "length (c_heap (upd c r f)) = length (c_heap c)" "c_slots (upd c r f) = c_slots c"
  "c_gens (upd c r f) = c_gens c" "c_bases (upd c r f) = c_bases c"
  "c_nonce (upd c r f) = c_nonce c" "c_stale (upd c r f) = c_stale c"
  "c_published (upd c r f) = c_published c" "c_healthR (upd c r f) = c_healthR c"
  "c_observer (upd c r f) = c_observer c" "c_events (upd c r f) = c_events c"
  "c_relGen (upd c r f) = c_relGen c" "c_relBase (upd c r f) = c_relBase c"
  by (simp_all add: upd_def)

lemma slot_upd [slot_simps]:
  "r < length (c_heap c) \<Longrightarrow> slot (upd c r f) q = (if q = r then f (slot c r) else slot c q)"
  by (simp add: slot_def upd_def)

text \<open>
  What a critical section leaves to the invariants: the store, the retained references and the
  epoch. \<open>same_core\<close> says that none of them changed.
\<close>

definition same_core :: "Controller \<Rightarrow> Controller \<Rightarrow> bool" where
  "same_core c c' \<longleftrightarrow>
     c_heap c' = c_heap c \<and> c_slots c' = c_slots c \<and> c_epoch c' = c_epoch c"

lemma same_core_refl [simp]: "same_core c c"
  by (simp add: same_core_def)

lemma same_core_trans: "same_core c c1 \<Longrightarrow> same_core c1 c2 \<Longrightarrow> same_core c c2"
  by (simp add: same_core_def)

lemma same_core_slot: "same_core c c' \<Longrightarrow> slot c' r = slot c r"
  by (simp add: same_core_def slot_def)

lemma same_core_recordHealth [simp]: "same_core c (recordHealth c l)"
  by (simp add: same_core_def recordHealth_def)

lemma same_core_observe [simp]: "same_core c (observeTermination c e)"
  by (simp add: same_core_def observeTermination_def)

lemma same_core_safeInvoke [simp]: "same_core c (safeInvoke c n op fn)"
  by (simp add: same_core_def safeInvoke_def recordHealth_def split: option.split)

lemma same_core_releaseGeneration [simp]: "same_core c (releaseGeneration rel hs c)"
proof (induction rel hs c rule: releaseGeneration.induct)
  case (2 rel h hs c)
  let ?c = "case generationByName c (gh_Collector h) of None \<Rightarrow> c
    | Some rc \<Rightarrow> safeInvoke (c\<lparr>c_relGen := c_relGen c @ [h]\<rparr>) (reg_Name (rg_reg rc)) ''Release'' (rel h)"
  have "same_core c ?c"
    using same_core_safeInvoke by (auto simp: same_core_def split: option.split)
  with "2" show ?case using same_core_trans by fastforce
qed simp

lemma same_core_releaseBaseline [simp]: "same_core c (releaseBaseline rel hs c)"
proof (induction rel hs c rule: releaseBaseline.induct)
  case (2 rel h hs c)
  let ?c = "case baselineByName c (bh_Collector h) of None \<Rightarrow> c
    | Some rc \<Rightarrow> safeInvoke (c\<lparr>c_relBase := c_relBase c @ [h]\<rparr>) (reg_Name (rb_reg rc)) ''Release'' (rel h)"
  have "same_core c ?c"
    using same_core_safeInvoke by (auto simp: same_core_def split: option.split)
  with "2" show ?case using same_core_trans by fastforce
qed simp

lemma same_core_drainAndRelease [simp]: "same_core c (drainAndRelease drain rel hs c)"
proof (induction drain rel hs c rule: drainAndRelease.induct)
  case (2 drain rel h hs c)
  let ?c = "case generationByName c (gh_Collector h) of None \<Rightarrow> c
    | Some rc \<Rightarrow> safeInvoke ((safeInvoke c (reg_Name (rg_reg rc)) ''Drain'' (drain h))
        \<lparr>c_relGen := c_relGen c @ [h]\<rparr>) (reg_Name (rg_reg rc)) ''Release'' (rel h)"
  have "same_core c ?c"
    using same_core_safeInvoke by (auto simp: same_core_def split: option.split)
  with "2" show ?case using same_core_trans by fastforce
qed simp

lemma same_core_rememberNonce [simp]: "same_core c (rememberNonceLocked now nonce r c)"
  by (simp add: same_core_def rememberNonceLocked_def Let_def)

lemma RegisterGeneration_core [simp]: "same_core c (snd (RegisterGeneration c r g))"
  by (auto simp: same_core_def RegisterGeneration_def split: option.split)

lemma RegisterBaseline_core [simp]: "same_core c (snd (RegisterBaseline c r b))"
  by (auto simp: same_core_def RegisterBaseline_def split: option.split)

lemma lookupLocked_Some:
  "lookupLocked c runID = Some r \<Longrightarrow> r \<in> set (c_slots c) \<and> rs_runID (slot c r) = runID"
  using find_Some_iff_mem unfolding lookupLocked_def by fast

lemma lookupLocked_None:
  "lookupLocked c runID = None \<longleftrightarrow> (\<forall>r \<in> set (c_slots c). rs_runID (slot c r) \<noteq> runID)"
  by (auto simp: lookupLocked_def find_None_iff)

lemma fencedSlotLocked_Some:
  "fencedSlotLocked c ep = Some r \<Longrightarrow> ep = c_epoch c \<and> r \<in> set (c_slots c) \<and> rs_epoch (slot c r) = ep"
  by (auto simp: fencedSlotLocked_def dest: find_Some_iff_mem split: if_splits)

lemma fencedSlotLocked_None:
  "fencedSlotLocked c ep = None \<longleftrightarrow>
     ep \<noteq> c_epoch c \<or> (\<forall>r \<in> set (c_slots c). rs_epoch (slot c r) \<noteq> ep)"
  by (auto simp: fencedSlotLocked_def find_None_iff)

lemma commit_None:
  "commit c ep mutate = (None, c') \<longleftrightarrow>
     (\<exists>r. fencedSlotLocked c ep = Some r \<and> c' = notifyLocked (mutate r c) r)"
  by (auto simp: commit_def split: option.splits)

lemma commit_Some:
  "commit c ep mutate = (Some e, c') \<longleftrightarrow>
     fencedSlotLocked c ep = None \<and> e = ErrStaleEpoch \<and> c' = c\<lparr>c_stale := Suc (c_stale c)\<rparr>"
  by (auto simp: commit_def split: option.splits)

lemma publish_None:
  "publish c ep snap = (None, c') \<longleftrightarrow>
     (\<exists>r. fencedSlotLocked c ep = Some r \<and>
       c' = (upd c r (\<lambda>s. s\<lparr>rs_snapshot := Some snap\<rparr>))\<lparr>c_published := Suc (c_published c)\<rparr>)"
  by (auto simp: publish_def split: option.splits)

lemma publish_Some:
  "publish c ep snap = (Some e, c') \<longleftrightarrow>
     fencedSlotLocked c ep = None \<and> e = ErrStaleEpoch \<and> c' = c\<lparr>c_stale := Suc (c_stale c)\<rparr>"
  by (auto simp: publish_def split: option.splits)

end
