(* ===== verification/Abort_Run.thy ===== *)
theory Abort_Run
  imports Controller
begin

text \<open>
  \<open>internal/runctl/abort.go\<close>: abandoning a run. The handler is three critical sections with the
  cancellation and the bounded join between them: \<open>abortEnter\<close> (look the run up, answer at once
  or install the fence), \<open>abortSettle\<close> (record the abort and take the handles over) and, for a
  detached worker, \<open>reapTake\<close>.
\<close>

datatype abortEntry =
    AbortReturn AbortResult
  | AbortBlocked nat
  | AbortFenced nat epoch "string list"

definition abortFence :: "gotime \<Rightarrow> runSlot \<Rightarrow> runSlot" where
  "abortFence now s = sealLocked (s\<lparr>rs_state := StateAborting, rs_since := now\<rparr>)"

text \<open>The first critical section. \<open>AbortBlocked\<close> carries the slot another abort is tearing down.\<close>

definition abortEnter :: "Controller \<Rightarrow> gotime \<Rightarrow> string \<Rightarrow> string \<Rightarrow> abortEntry \<times> Controller" where
  "abortEnter c now runID reason =
     (case lookupLocked c runID of
        None \<Rightarrow>
          (AbortReturn \<lparr>ab_RunID = runID, ab_Epoch = 0, ab_Reason = reason, ab_Detached = False,
                        ab_AbortedAt = now, ab_Partial = []\<rparr>, c)
      | Some r \<Rightarrow>
          (let s = slot c r in
           if rs_state s = StateAborted then (AbortReturn (rs_abort s), c)
           else if rs_state s = StateAcknowledged \<or> rs_state s = StateExpired then
             (AbortReturn \<lparr>ab_RunID = runID, ab_Epoch = rs_epoch s, ab_Reason = reason,
                           ab_Detached = False, ab_AbortedAt = now, ab_Partial = []\<rparr>, c)
           else if rs_state s = StateAborting then (AbortBlocked r, c)
           else
             (AbortFenced r (rs_epoch s) (committedNames (st_Collectors (rs_start s))),
              notifyLocked ((upd c r (abortFence now))\<lparr>c_epoch := Suc (c_epoch c)\<rparr>) r)))"

text \<open>Between the sections, outside the mutex: the observer is told, then the context is cut.\<close>

definition abortCancel ::
  "Controller \<Rightarrow> nat \<Rightarrow> string \<Rightarrow> epoch \<Rightarrow> string \<Rightarrow> gotime \<Rightarrow> Controller" where
  "abortCancel c r runID ep reason at =
     upd (observeTermination c
            \<lparr>te_RunID = runID, te_Epoch = ep, te_State = StateAborting,
             te_Validity = ValidityInvalid, te_Reason = reason, te_BoundaryAt = at\<rparr>)
       r (\<lambda>s. s\<lparr>rs_cancelled := True\<rparr>)"

definition abortResult ::
  "string \<Rightarrow> epoch \<Rightarrow> string \<Rightarrow> bool \<Rightarrow> gotime \<Rightarrow> string list \<Rightarrow> AbortResult" where
  "abortResult runID ep reason detached now partial =
     \<lparr>ab_RunID = runID, ab_Epoch = ep, ab_Reason = reason, ab_Detached = detached,
      ab_AbortedAt = now, ab_Partial = partial\<rparr>"

definition settleSlot :: "AbortResult \<Rightarrow> runSlot \<Rightarrow> runSlot" where
  "settleSlot res s =
     (let s1 = s\<lparr>rs_state := StateAborted, rs_validity := ValidityInvalid,
                 rs_reason := ab_Reason res, rs_detached := ab_Detached res,
                 rs_since := ab_AbortedAt res, rs_lease := 0, rs_snapshot := None,
                 rs_abort := res\<rparr>
      in if ab_Detached res then s1
         else s1\<lparr>rs_gen := [], rs_genFinal := [], rs_base := [], rs_baseF := []\<rparr>)"

definition abortSettle ::
  "Controller \<Rightarrow> nat \<Rightarrow> AbortResult \<Rightarrow>
   GenerationHandle list \<times> BaselineHandle list \<times> Controller" where
  "abortSettle c r res =
     (let s = slot c r in
      ((if ab_Detached res then [] else rs_gen s @ rs_genFinal s),
       (if ab_Detached res then [] else rs_base s @ rs_baseF s),
       notifyLocked (upd c r (settleSlot res)) r))"

text \<open>\<open>reap\<close>, once the detached worker is gone: take what the slot still pins.\<close>

definition reapTake ::
  "Controller \<Rightarrow> nat \<Rightarrow> GenerationHandle list \<times> BaselineHandle list \<times> Controller" where
  "reapTake c r =
     (let s = slot c r in
      (rs_gen s @ rs_genFinal s, rs_base s @ rs_baseF s,
       upd c r (\<lambda>s. s\<lparr>rs_gen := [], rs_genFinal := [], rs_base := [], rs_baseF := []\<rparr>)))"

text \<open>
  The environment of one call: the clock at the fence and at the settlement, what the other
  goroutines did to the controller while the join waited, whether the join timed out, and how
  collectors answer \<open>Release\<close>.
\<close>

record abortEnv =
  ae_now1 :: gotime
  ae_now2 :: gotime
  ae_between :: "Controller \<Rightarrow> Controller"
  ae_timeout :: bool
  ae_relGen :: "GenerationHandle \<Rightarrow> (unit, gerr) call"
  ae_relBase :: "BaselineHandle \<Rightarrow> (unit, gerr) call"

text \<open>Everything after the fence, for the run in slot \<open>r\<close>.\<close>

definition abortFinish ::
  "abortEnv \<Rightarrow> Controller \<Rightarrow> nat \<Rightarrow> string \<Rightarrow> epoch \<Rightarrow> string \<Rightarrow> string list \<Rightarrow>
   AbortResult \<times> Controller" where
  "abortFinish env c r runID ep reason partial =
     (let c1 = abortCancel c r runID ep reason (ae_now1 env);
          c2 = ae_between env c1;
          res = abortResult runID ep reason (ae_timeout env) (ae_now2 env) partial;
          (gen, base, c3) = abortSettle c2 r res;
          c4 = releaseBaseline (ae_relBase env) base (releaseGeneration (ae_relGen env) gen c3)
      in (res,
          (if ae_timeout env
           then recordHealth c4
             [(HealthWorkerDetached,
               ''run '' @ runID @ '': worker outlived the abort join budget and was detached'')]
           else c4)))"

text \<open>
  \<open>AbortRun\<close>. The list holds the controller as seen each time the mutex is taken: the first look,
  then one look per wake-up while another abort owns the run; when no look is left the caller's
  context has ended.
\<close>

fun AbortRun ::
  "abortEnv \<Rightarrow> gerr \<Rightarrow> string \<Rightarrow> string \<Rightarrow> Controller list \<Rightarrow> (gerr + AbortResult) \<times> Controller option"
where
  "AbortRun env ctxErr runID reason [] =
     (Inl (WrapErr (''runctl: waiting for the abort of run '' @ runID @ '': '') ctxErr []), None)"
| "AbortRun env ctxErr runID reason (c # cs) =
     (let reason' = (if reason = [] then ReasonExplicit else reason) in
      case abortEnter c (ae_now1 env) runID reason' of
        (AbortReturn res, c') \<Rightarrow> (Inr res, Some c')
      | (AbortBlocked r, c') \<Rightarrow> AbortRun env ctxErr runID reason cs
      | (AbortFenced r ep partial, c') \<Rightarrow>
          (let (res, c'') = abortFinish env c' r runID ep reason' partial in (Inr res, Some c'')))"

end
