(* ===== verification/Start_Run.thy ===== *)
theory Start_Run
  imports Abort_Run
begin

text \<open>
  \<open>internal/runctl/start.go\<close>: planning a \<open>StartRun\<close>, taking the opening boundary and the two
  background workers that clean up after it.
\<close>

datatype startPlan =
    PlanProceed "nat option" "nat option"
  | PlanReplay StartResult
  | PlanWait nat
  | PlanFail gerr

definition planCurrent :: "Controller \<Rightarrow> StartRunOptions \<Rightarrow> startPlan" where
  "planCurrent c opt =
     (case currentLocked c of
        None \<Rightarrow> PlanProceed None None
      | Some cur \<Rightarrow>
          (let st = rs_state (slot c cur) in
           if st \<in> {StateStarting, StateStarted, StateFinishing} then
             (if \<not> o_Preempt opt then PlanFail ErrRunActive else PlanProceed (Some cur) None)
           else if st = StateAborting then
             (if \<not> o_Preempt opt then PlanFail ErrRunActive else PlanWait cur)
           else if st = StateFinished then
             (if \<not> o_Preempt opt then PlanFail ErrRunActive else PlanProceed None (Some cur))
           else PlanProceed None None))"

definition planFresh :: "Controller \<Rightarrow> gotime \<Rightarrow> StartRunOptions \<Rightarrow> startPlan" where
  "planFresh c now opt =
     (case lookupNonceLocked c now (o_Nonce opt) of
        Some r \<Rightarrow> PlanReplay r
      | None \<Rightarrow> planCurrent c opt)"

definition planStartLocked :: "Controller \<Rightarrow> gotime \<Rightarrow> StartRunOptions \<Rightarrow> startPlan" where
  "planStartLocked c now opt =
     (case slotByNonceLocked c (o_Nonce opt) of
        None \<Rightarrow> planFresh c now opt
      | Some r \<Rightarrow>
          (case rs_state (slot c r) of
             StateStarting \<Rightarrow> PlanWait r
           | StateStarted \<Rightarrow> PlanReplay (rs_start (slot c r))
           | StateFinishing \<Rightarrow> PlanReplay (rs_start (slot c r))
           | StateFinished \<Rightarrow> PlanReplay (rs_start (slot c r))
           | StateAcknowledged \<Rightarrow> PlanReplay (rs_start (slot c r))
           | StateAborting \<Rightarrow> PlanFail ErrRunTransitioning
           | StateAborted \<Rightarrow> PlanFail ErrRunAborted
           | StateExpired \<Rightarrow> PlanFail ErrUnknownRun
           | _ \<Rightarrow> planFresh c now opt))"

subsection \<open>The opening boundary\<close>

definition newSlot :: "string \<Rightarrow> string \<Rightarrow> epoch \<Rightarrow> string \<Rightarrow> gotime \<Rightarrow> runSlot" where
  "newSlot runID nonce ep trigger now =
     \<lparr>rs_runID = runID, rs_nonce = nonce, rs_epoch = ep, rs_state = StateStarting,
      rs_validity = ValidityValid, rs_reason = [], rs_trigger = trigger, rs_ackedBy = [],
      rs_detached = False, rs_since = now, rs_cancelled = False, rs_lease = 0, rs_owners = 1,
      rs_sealed = False, rs_done = False, rs_changed = 0, rs_gen = [], rs_genFinal = [],
      rs_base = [], rs_baseF = [], rs_start = zeroStartResult, rs_finish = zeroFinishAccepted,
      rs_finishSet = False, rs_abort = zeroAbortResult, rs_snapshot = None\<rparr>"

text \<open>The critical section that opens the run: advance the epoch, add the record.\<close>

definition beginAlloc ::
  "Controller \<Rightarrow> gotime \<Rightarrow> string \<Rightarrow> string \<Rightarrow> string \<Rightarrow> nat \<times> epoch \<times> Controller" where
  "beginAlloc c now runID nonce trigger =
     (let ep = Suc (c_epoch c) in
      (length (c_heap c), ep,
       addSlotLocked (c\<lparr>c_epoch := ep\<rparr>) (newSlot runID nonce ep trigger now)))"

text \<open>What the two phases and the spread rule make of the boundary.\<close>

record startOutcome =
  so_res :: StartResult
  so_gen :: "GenerationHandle list"
  so_base :: "BaselineHandle list"
  so_health :: health_log

definition openBoundary ::
  "Controller \<Rightarrow> genEnv \<Rightarrow> baseEnv \<Rightarrow> string \<Rightarrow> string \<Rightarrow> epoch \<Rightarrow> string \<Rightarrow> gotime \<Rightarrow> startOutcome" where
  "openBoundary c genv benv runID nonce ep preemptedID startedAt =
     (let (genOut, hl1) = runGenerationPhase genv PhaseStartBoundary runID (c_gens c);
          (baseOut, hl2) = runBaselinePhase benv PhaseStartBaseline runID (c_bases c);
          boundaries0 = go_boundaries genOut @ bo_boundaries baseOut;
          v0 = worse (go_validity genOut) (bo_validity baseOut);
          (vs, boundaries, hl3) = applySpread (c_budgets c) runID boundaries0 ''start'';
          validity = worse v0 vs
      in \<lparr>so_res =
            \<lparr>st_RunID = runID, st_Nonce = nonce, st_Epoch = ep,
             st_State = (if validity = ValidityInvalid then StateAborted else StateStarted),
             st_Validity = validity, st_Collectors = boundaries,
             st_GenerationWindow = computeWindow boundaries (Some keepGeneration),
             st_BoundaryWindow = computeWindow boundaries None,
             st_PreemptedRunID = preemptedID, st_StartedAt = startedAt,
             st_CPUProfileStart = None, st_TraceStart = None\<rparr>,
          so_gen = go_handles genOut, so_base = bo_handles baseOut,
          so_health = hl1 @ hl2 @ hl3\<rparr>)"

definition openSlot :: "startOutcome \<Rightarrow> gotime \<Rightarrow> runSlot \<Rightarrow> runSlot" where
  "openSlot so now s =
     (let res = so_res so;
          s1 = s\<lparr>rs_start := res, rs_validity := st_Validity res, rs_gen := so_gen so,
                 rs_base := so_base so, rs_since := now, rs_state := st_State res\<rparr>
      in if st_State res = StateAborted then
           sealLocked (beginOwnerLocked
             (s1\<lparr>rs_reason := ReasonRequiredFailed,
                 rs_abort :=
                   \<lparr>ab_RunID = st_RunID res, ab_Epoch = st_Epoch res,
                    ab_Reason = ReasonRequiredFailed, ab_Detached = False, ab_AbortedAt = now,
                    ab_Partial = committedNames (st_Collectors res)\<rparr>\<rparr>))
         else if so_gen so \<noteq> [] then beginOwnerLocked s1
         else s1)"

definition openMutate :: "startOutcome \<Rightarrow> gotime \<Rightarrow> gotime \<Rightarrow> string \<Rightarrow> nat \<Rightarrow> Controller \<Rightarrow> Controller" where
  "openMutate so now nonceNow nonce r c =
     (let c1 = upd c r (openSlot so now) in
      if st_State (so_res so) = StateAborted then c1
      else rememberNonceLocked nonceNow nonce (so_res so) c1)"

text \<open>The critical section that commits the boundary.\<close>

definition beginCommit ::
  "Controller \<Rightarrow> epoch \<Rightarrow> startOutcome \<Rightarrow> gotime \<Rightarrow> gotime \<Rightarrow> string \<Rightarrow> gerr option \<times> Controller" where
  "beginCommit c ep so now nonceNow nonce = commit c ep (openMutate so now nonceNow nonce)"

record startEnv =
  se_runID :: string
  se_mintedNonce :: string
  se_abort :: abortEnv
  se_abortLooks :: "Controller \<Rightarrow> Controller list"
  se_abortCtxErr :: gerr
  se_ackNow :: gotime
  se_allocNow :: gotime
  se_gen :: genEnv
  se_base :: baseEnv
  se_startedAt :: gotime
  se_between :: "Controller \<Rightarrow> Controller"
  se_commitNow :: gotime
  se_nonceNow :: gotime

text \<open>
  \<open>beginRun\<close>: abort or acknowledge what the plan names, open the run, take the boundary, commit.
  \<open>se_abortLooks\<close> gives the looks of the nested \<open>AbortRun\<close>, \<open>se_between\<close> what other goroutines did
  between opening and committing.
\<close>

definition beginRun ::
  "startEnv \<Rightarrow> StartRunOptions \<Rightarrow> nat option \<Rightarrow> nat option \<Rightarrow> Controller \<Rightarrow>
   (gerr + StartResult) \<times> Controller" where
  "beginRun env opt preempt ackFinished c =
     (let runID = se_runID env;
          nonce = (if o_Nonce opt = [] then se_mintedNonce env else o_Nonce opt);
          preemptedID = (case preempt of None \<Rightarrow> [] | Some r \<Rightarrow> rs_runID (slot c r));
          (failed, c1) =
            (case preempt of
               None \<Rightarrow> (None, c)
             | Some r \<Rightarrow>
                 (case AbortRun (se_abort env) (se_abortCtxErr env) preemptedID
                         (ReasonPreemptedBy @ runID) (se_abortLooks env c) of
                    (Inl e, c') \<Rightarrow>
                      (Some (WrapErr (''runctl: preempting run '' @ preemptedID @ '': '') e []),
                       (case c' of None \<Rightarrow> c | Some x \<Rightarrow> x))
                  | (Inr res, c') \<Rightarrow> (None, (case c' of None \<Rightarrow> c | Some x \<Rightarrow> x))))
      in case failed of
           Some e \<Rightarrow> (Inl e, c1)
         | None \<Rightarrow>
             (let c2 = (case ackFinished of
                          None \<Rightarrow> c1
                        | Some r \<Rightarrow> snd (AckBy c1 (se_ackNow env) (rs_runID (slot c1 r)) AckedByPreempt));
                  (r, ep, c3) = beginAlloc c2 (se_allocNow env) runID nonce (o_Trigger opt);
                  so = openBoundary c3 (se_gen env) (se_base env) runID nonce ep preemptedID
                         (se_startedAt env);
                  c4 = se_between env (recordHealth c3 (so_health so))
              in case beginCommit c4 ep so (se_commitNow env) (se_nonceNow env) nonce of
                   (Some e, c5) \<Rightarrow>
                     (Inl (WrapErr (''runctl: run '' @ runID @ '' was preempted while starting: '')
                             ErrRunAborted []),
                      endOwner
                        (releaseBaseline (ae_relBase (se_abort env)) (so_base so)
                           (releaseGeneration (ae_relGen (se_abort env)) (so_gen so) c5)) r)
                 | (None, c5) \<Rightarrow>
                     (Inr (so_res so),
                      endOwner
                        (if st_State (so_res so) = StateAborted then
                           observeTermination c5
                             \<lparr>te_RunID = runID, te_Epoch = ep, te_State = StateAborted,
                              te_Validity = ValidityInvalid, te_Reason = ReasonRequiredFailed,
                              te_BoundaryAt = se_startedAt env\<rparr>
                         else c5) r)))"

text \<open>
  \<open>StartRun\<close>: plan, and when the plan is to proceed, plan again under \<open>startMu\<close>. The list holds the
  controller and the clock as seen at the two planning sections of every round.
\<close>

fun StartRun ::
  "startEnv \<Rightarrow> gerr \<Rightarrow> StartRunOptions \<Rightarrow> ((Controller \<times> gotime) \<times> (Controller \<times> gotime)) list \<Rightarrow>
   (gerr + StartResult) \<times> Controller option" where
  "StartRun env ctxErr opt [] =
     (Inl (WrapErr ''runctl: waiting to start a run: '' ctxErr []), None)"
| "StartRun env ctxErr opt (((c, now), (c', now')) # looks) =
     (case planStartLocked c now opt of
        PlanReplay r \<Rightarrow> (Inr r, Some c)
      | PlanFail e \<Rightarrow> (Inl e, Some c)
      | PlanWait r \<Rightarrow> StartRun env ctxErr opt looks
      | PlanProceed _ _ \<Rightarrow>
          (case planStartLocked c' now' opt of
             PlanProceed preempt ackFinished \<Rightarrow>
               (let (res, c'') = beginRun env opt preempt ackFinished c' in (res, Some c''))
           | _ \<Rightarrow> StartRun env ctxErr opt looks))"

subsection \<open>Background workers\<close>

definition startDrainCommit :: "Controller \<Rightarrow> epoch \<Rightarrow> gerr option \<times> Controller" where
  "startDrainCommit c ep = commit c ep (\<lambda>r c. upd c r (\<lambda>s. s\<lparr>rs_gen := []\<rparr>))"

definition startDrainWorker ::
  "(GenerationHandle \<Rightarrow> (unit, gerr) call) \<Rightarrow> (GenerationHandle \<Rightarrow> (unit, gerr) call) \<Rightarrow>
   nat \<Rightarrow> epoch \<Rightarrow> GenerationHandle list \<Rightarrow> Controller \<Rightarrow> Controller" where
  "startDrainWorker drain rel r ep handles c =
     endOwner (snd (startDrainCommit (drainAndRelease drain rel handles c) ep)) r"

definition discardCommit :: "Controller \<Rightarrow> epoch \<Rightarrow> gerr option \<times> Controller" where
  "discardCommit c ep = commit c ep (\<lambda>r c. upd c r (\<lambda>s. s\<lparr>rs_gen := [], rs_base := []\<rparr>))"

definition discardWorker ::
  "(GenerationHandle \<Rightarrow> (unit, gerr) call) \<Rightarrow> (GenerationHandle \<Rightarrow> (unit, gerr) call) \<Rightarrow>
   (BaselineHandle \<Rightarrow> (unit, gerr) call) \<Rightarrow> nat \<Rightarrow> epoch \<Rightarrow> GenerationHandle list \<Rightarrow>
   BaselineHandle list \<Rightarrow> Controller \<Rightarrow> Controller" where
  "discardWorker drain rel relB r ep gen base c =
     endOwner
       (upd (snd (discardCommit (releaseBaseline relB base (drainAndRelease drain rel gen c)) ep))
          r (\<lambda>s. s\<lparr>rs_cancelled := True\<rparr>)) r"

end
