(* ===== verification/Finish_Run.thy ===== *)
theory Finish_Run
  imports Start_Run
begin

text \<open>
  \<open>internal/runctl/finish.go\<close>: claiming a run for its closing boundary, freezing, and the background
  worker that drains, collects and publishes.
\<close>

record finishWork =
  w_runID :: string
  w_trigger :: string
  w_startedAt :: gotime
  w_validity :: Validity
  w_boundaries :: "CollectorBoundary list"
  w_genFinal :: "GenerationHandle list"
  w_baseStart :: "BaselineHandle list"
  w_baseFinal :: "BaselineHandle list"
  w_genStart :: "GenerationHandle list"

subsection \<open>Claiming the run\<close>

datatype finishEntry =
    FinishFail gerr
  | FinishReplay FinishAccepted
  | FinishBlocked nat
  | FinishClaimed nat epoch

definition claimSlot :: "Budgets \<Rightarrow> gotime \<Rightarrow> runSlot \<Rightarrow> runSlot" where
  "claimSlot b now s =
     beginOwnerLocked
       (s\<lparr>rs_state := StateFinishing, rs_since := now, rs_lease := time_Add now (b_FinishLease b)\<rparr>)"

definition finishEnter :: "Controller \<Rightarrow> gotime \<Rightarrow> string \<Rightarrow> finishEntry \<times> Controller" where
  "finishEnter c now runID =
     (case lookupLocked c runID of
        None \<Rightarrow>
          (case currentLocked c of
             Some cur \<Rightarrow>
               if blocksNewRun (rs_state (slot c cur)) then (FinishFail ErrRunActive, c)
               else (FinishFail ErrUnknownRun, c)
           | None \<Rightarrow> (FinishFail ErrUnknownRun, c))
      | Some r \<Rightarrow>
          (let s = slot c r; st = rs_state s in
           if st = StateStarting then (FinishFail ErrRunTransitioning, c)
           else if st = StateAborting \<or> st = StateAborted then (FinishFail ErrRunAborted, c)
           else if st = StateExpired then (FinishFail ErrUnknownRun, c)
           else if st \<in> {StateFinishing, StateFinished, StateAcknowledged} then
             (if rs_finishSet s then (FinishReplay (rs_finish s), c) else (FinishBlocked r, c))
           else
             (FinishClaimed r (rs_epoch s),
              notifyLocked (upd c r (claimSlot (c_budgets c) now)) r)))"

subsection \<open>The closing boundary\<close>

record finishOutcome =
  fo_accepted :: FinishAccepted
  fo_gen :: "GenerationHandle list"
  fo_base :: "BaselineHandle list"
  fo_health :: health_log

definition closeBoundary ::
  "Controller \<Rightarrow> genEnv \<Rightarrow> baseEnv \<Rightarrow> string \<Rightarrow> epoch \<Rightarrow> gotime \<Rightarrow> finishOutcome" where
  "closeBoundary c genv benv runID ep acceptedAt =
     (let (genOut, hl1) = runGenerationPhase genv PhaseFinishFreeze runID (c_gens c);
          (baseOut, hl2) = runBaselinePhase benv PhaseFinishFinal runID (c_bases c);
          boundaries0 = go_boundaries genOut @ bo_boundaries baseOut;
          v0 = worse (go_validity genOut) (bo_validity baseOut);
          (vs, boundaries, hl3) = applySpread (c_budgets c) runID boundaries0 ''finish''
      in \<lparr>fo_accepted =
            \<lparr>fa_RunID = runID, fa_Epoch = ep, fa_Validity = worse v0 vs,
             fa_Collectors = boundaries,
             fa_GenerationWindow = computeWindow boundaries (Some keepGeneration),
             fa_BoundaryWindow = computeWindow boundaries None, fa_AcceptedAt = acceptedAt\<rparr>,
          fo_gen = go_handles genOut, fo_base = bo_handles baseOut,
          fo_health = hl1 @ hl2 @ hl3\<rparr>)"

text \<open>The work handed to the worker, read off the slot after its mutation.\<close>

definition mkWork :: "finishOutcome \<Rightarrow> runSlot \<Rightarrow> finishWork" where
  "mkWork fo s =
     \<lparr>w_runID = rs_runID s, w_trigger = rs_trigger s, w_startedAt = st_StartedAt (rs_start s),
      w_validity = rs_validity s,
      w_boundaries = st_Collectors (rs_start s) @ fa_Collectors (fo_accepted fo),
      w_genFinal = fo_gen fo, w_baseStart = rs_base s, w_baseFinal = fo_base fo,
      w_genStart = rs_gen s\<rparr>"

definition freezeSlot :: "finishOutcome \<Rightarrow> Budgets \<Rightarrow> gotime \<Rightarrow> runSlot \<Rightarrow> runSlot" where
  "freezeSlot fo b now s =
     beginOwnerLocked
       (s\<lparr>rs_finish := fo_accepted fo, rs_finishSet := True,
          rs_validity := worse (rs_validity s) (fa_Validity (fo_accepted fo)),
          rs_genFinal := fo_gen fo, rs_baseF := fo_base fo,
          rs_lease := time_Add now (b_FinishLease b)\<rparr>)"

definition freezeCommit :: "Controller \<Rightarrow> epoch \<Rightarrow> finishOutcome \<Rightarrow> gotime \<Rightarrow> gerr option \<times> Controller"
where
  "freezeCommit c ep fo now = commit c ep (\<lambda>r c. upd c r (freezeSlot fo (c_budgets c) now))"

record finishEnv =
  fe_now :: gotime
  fe_gen :: genEnv
  fe_base :: baseEnv
  fe_acceptedAt :: gotime
  fe_between :: "Controller \<Rightarrow> Controller"
  fe_leaseNow :: gotime
  fe_relGen :: "GenerationHandle \<Rightarrow> (unit, gerr) call"
  fe_relBase :: "BaselineHandle \<Rightarrow> (unit, gerr) call"

text \<open>
  \<open>freeze\<close>, on the slot claimed by \<open>FinishRun\<close>. The result carries the work of the background
  worker when one was started.
\<close>

definition freeze ::
  "finishEnv \<Rightarrow> nat \<Rightarrow> epoch \<Rightarrow> Controller \<Rightarrow>
   (gerr + FinishAccepted) \<times> finishWork option \<times> Controller" where
  "freeze env r ep c =
     (let runID = rs_runID (slot c r);
          fo = closeBoundary c (fe_gen env) (fe_base env) runID ep (fe_acceptedAt env);
          accepted = fo_accepted fo;
          overall = worse (st_Validity (rs_start (slot c r))) (fa_Validity accepted);
          c1 = fe_between env (recordHealth c (fo_health fo))
      in case freezeCommit c1 ep fo (fe_leaseNow env) of
           (Some e, c2) \<Rightarrow>
             (Inl (WrapErr (''runctl: run '' @ runID @ '' was aborted while freezing: '')
                     ErrRunAborted []), None,
              endOwner
                (releaseBaseline (fe_relBase env) (fo_base fo)
                   (releaseGeneration (fe_relGen env) (fo_gen fo) c2)) r)
         | (None, c2) \<Rightarrow>
             (Inr accepted, Some (mkWork fo (slot c2 r)),
              endOwner
                (observeTermination c2
                   \<lparr>te_RunID = runID, te_Epoch = ep, te_State = StateFinishing,
                    te_Validity = overall, te_Reason = ReasonFinishAccepted,
                    te_BoundaryAt =
                      terminationBoundary (fa_GenerationWindow accepted) (fa_AcceptedAt accepted)\<rparr>)
                r))"

fun FinishRun ::
  "finishEnv \<Rightarrow> gerr \<Rightarrow> string \<Rightarrow> Controller list \<Rightarrow>
   (gerr + FinishAccepted) \<times> finishWork option \<times> Controller option" where
  "FinishRun env ctxErr runID [] =
     (Inl (WrapErr (''runctl: waiting for the finish of run '' @ runID @ '': '') ctxErr []),
      None, None)"
| "FinishRun env ctxErr runID (c # cs) =
     (case finishEnter c (fe_now env) runID of
        (FinishFail e, c') \<Rightarrow> (Inl e, None, Some c')
      | (FinishReplay a, c') \<Rightarrow> (Inr a, None, Some c')
      | (FinishBlocked r, c') \<Rightarrow> FinishRun env ctxErr runID cs
      | (FinishClaimed r ep, c') \<Rightarrow>
          (let (res, work, c'') = freeze env r ep c' in (res, work, Some c'')))"

subsection \<open>The finish worker\<close>

record workerState =
  ws_boundaries :: "CollectorBoundary list"
  ws_dropped :: "string list"
  ws_validity :: Validity
  ws_sections :: "string \<Rightarrow> anyval option"
  ws_health :: health_log

definition collectFailure :: "Registration \<Rightarrow> Kind \<Rightarrow> gerr \<Rightarrow> CollectorBoundary" where
  "collectFailure reg kind err =
     \<lparr>cb_Name = reg_Name reg, cb_Kind = kind, cb_Required = reg_Required reg,
      cb_Phase = PhaseCollect, cb_At = 0, cb_Committed = False,
      cb_Code = (if isPanic (Some err) then CodeContractViolation else CodeCollectFailed),
      cb_Err = Error err, cb_Dropped = True\<rparr>"

definition noteCollectFailure ::
  "string \<Rightarrow> Registration \<Rightarrow> Kind \<Rightarrow> gerr \<Rightarrow> CollectorBoundary \<times> health_log" where
  "noteCollectFailure runID reg kind err =
     (collectFailure reg kind err,
      (if isPanic (Some err)
       then [(HealthContractViolation, ''run '' @ runID @ '': '' @ Error err)] else []))"

text \<open>A section that could not be derived: recorded, dropped, and charged to the validity.\<close>

definition failSection ::
  "string \<Rightarrow> Registration \<Rightarrow> Kind \<Rightarrow> string \<Rightarrow> gerr \<Rightarrow> workerState \<Rightarrow> workerState" where
  "failSection runID reg kind name err ws =
     (let (b, l) = noteCollectFailure runID reg kind err in
      ws\<lparr>ws_boundaries := ws_boundaries ws @ [b], ws_dropped := name # ws_dropped ws,
         ws_validity := worse (ws_validity ws) (failValidity (reg_Required reg)),
         ws_health := ws_health ws @ l\<rparr>)"

definition drainOne ::
  "Controller \<Rightarrow> (GenerationHandle \<Rightarrow> (unit, gerr) call) \<Rightarrow> string \<Rightarrow> GenerationHandle \<Rightarrow>
   workerState \<Rightarrow> workerState" where
  "drainOne c drain runID h ws =
     (case generationByName c (gh_Collector h) of
        None \<Rightarrow> ws
      | Some rc \<Rightarrow>
          (case safeErr (reg_Name (rg_reg rc)) ''Drain'' (drain h) of
             None \<Rightarrow> ws
           | Some err \<Rightarrow>
               if isPanic (Some err) then
                 failSection runID (rg_reg rc) KindGeneration (gh_Collector h) err ws
               else
                 ws\<lparr>ws_boundaries := ws_boundaries ws @
                      [\<lparr>cb_Name = gh_Collector h, cb_Kind = KindGeneration,
                        cb_Required = reg_Required (rg_reg rc), cb_Phase = PhaseCollect, cb_At = 0,
                        cb_Committed = True, cb_Code = CodeDrainTimeout, cb_Err = Error err,
                        cb_Dropped = False\<rparr>],
                    ws_validity := worse (ws_validity ws) ValidityPartial\<rparr>))"

text \<open>\<open>collectGeneration\<close> and \<open>collectBaseline\<close> refuse to start once the build budget is gone.\<close>

definition collectGeneration ::
  "gerr option \<Rightarrow> Registration \<Rightarrow> (anyval, gerr) call \<Rightarrow> anyval \<times> gerr option" where
  "collectGeneration ctxErr reg fn =
     (case ctxErr of
        Some e \<Rightarrow> (NilAny, Some (WrapErr ''snapshot build budget exhausted: '' e []))
      | None \<Rightarrow> safeResult (reg_Name reg) ''Collect'' NilAny fn)"

definition collectBaseline ::
  "gerr option \<Rightarrow> Registration \<Rightarrow> (anyval, gerr) call \<Rightarrow> anyval \<times> gerr option" where
  "collectBaseline ctxErr reg fn =
     (case ctxErr of
        Some e \<Rightarrow> (NilAny, Some (WrapErr ''snapshot build budget exhausted: '' e []))
      | None \<Rightarrow> safeResult (reg_Name reg) ''Collect'' NilAny fn)"

record workerEnv =
  we_drain :: "GenerationHandle \<Rightarrow> (unit, gerr) call"
  we_buildErrG :: "GenerationHandle \<Rightarrow> gerr option"
  we_collectG :: "GenerationHandle \<Rightarrow> (anyval, gerr) call"
  we_buildErrB :: "BaselineHandle \<Rightarrow> gerr option"
  we_collectB :: "BaselineHandle \<Rightarrow> BaselineHandle \<Rightarrow> (anyval, gerr) call"
  we_enrich :: "(Snapshot \<Rightarrow> Snapshot \<times> (unit, gerr) call) option"
  we_finishedAt :: gotime

definition collectGenOne ::
  "Controller \<Rightarrow> workerEnv \<Rightarrow> string \<Rightarrow> GenerationHandle \<Rightarrow> workerState \<Rightarrow> workerState" where
  "collectGenOne c env runID h ws =
     (case generationByName c (gh_Collector h) of
        None \<Rightarrow> ws
      | Some rc \<Rightarrow>
          if gh_Collector h \<in> set (ws_dropped ws) then ws
          else
            (case collectGeneration (we_buildErrG env h) (rg_reg rc) (we_collectG env h) of
               (value, Some err) \<Rightarrow>
                 failSection runID (rg_reg rc) KindGeneration (gh_Collector h) err ws
             | (value, None) \<Rightarrow>
                 ws\<lparr>ws_sections := (ws_sections ws)(gh_Collector h \<mapsto> value)\<rparr>))"

text \<open>\<open>finalByName\<close> is filled in list order, so the last handle of a name wins.\<close>

definition finalByName :: "BaselineHandle list \<Rightarrow> string \<Rightarrow> BaselineHandle option" where
  "finalByName hs name = List.find (\<lambda>h. bh_Collector h = name) (rev hs)"

definition collectBaseOne ::
  "Controller \<Rightarrow> workerEnv \<Rightarrow> string \<Rightarrow> BaselineHandle list \<Rightarrow> BaselineHandle \<Rightarrow> workerState \<Rightarrow>
   workerState" where
  "collectBaseOne c env runID finals base ws =
     (case baselineByName c (bh_Collector base) of
        None \<Rightarrow> ws
      | Some rc \<Rightarrow>
          if bh_Collector base \<in> set (ws_dropped ws) then ws
          else
            (case finalByName finals (bh_Collector base) of
               None \<Rightarrow> ws
             | Some final \<Rightarrow>
                 (case collectBaseline (we_buildErrB env base) (rb_reg rc)
                         (we_collectB env base final) of
                    (value, Some err) \<Rightarrow>
                      failSection runID (rb_reg rc) KindBaseline (bh_Collector base) err ws
                  | (value, None) \<Rightarrow>
                      ws\<lparr>ws_sections := (ws_sections ws)(bh_Collector base \<mapsto> value)\<rparr>)))"

definition workerInit :: "finishWork \<Rightarrow> workerState" where
  "workerInit w =
     \<lparr>ws_boundaries = w_boundaries w,
      ws_dropped = map cb_Name (filter cb_Dropped (w_boundaries w)),
      ws_validity = w_validity w, ws_sections = Map.empty, ws_health = []\<rparr>"

definition workerCollect :: "Controller \<Rightarrow> workerEnv \<Rightarrow> finishWork \<Rightarrow> workerState" where
  "workerCollect c env w =
     fold (collectBaseOne c env (w_runID w) (w_baseFinal w)) (w_baseStart w)
       (fold (collectGenOne c env (w_runID w)) (w_genFinal w)
          (fold (drainOne c (we_drain env) (w_runID w)) (w_genFinal w) (workerInit w)))"

text \<open>The snapshot the worker builds, and what it reported. The enrich hook may rewrite the
  snapshot; its verdict field is overwritten afterwards.\<close>

definition buildSnapshot ::
  "Controller \<Rightarrow> workerEnv \<Rightarrow> epoch \<Rightarrow> finishWork \<Rightarrow> Snapshot \<times> health_log" where
  "buildSnapshot c env ep w =
     (let ws = workerCollect c env w;
          snap0 =
            \<lparr>sn_RunID = w_runID w, sn_Epoch = ep, sn_Validity = ValidityZero,
             sn_Trigger = w_trigger w, sn_Sections = ws_sections ws,
             sn_Collectors = ws_boundaries ws,
             sn_GenerationWindow = computeWindow (ws_boundaries ws) (Some keepGeneration),
             sn_BoundaryWindow = computeWindow (ws_boundaries ws) None,
             sn_StartedAt = w_startedAt w, sn_FinishedAt = we_finishedAt env\<rparr>
      in case we_enrich env of
           None \<Rightarrow> (snap0\<lparr>sn_Validity := ws_validity ws\<rparr>, ws_health ws)
         | Some hook \<Rightarrow>
             (let (snap1, fn) = hook snap0; err = safeHook ''enrich'' fn;
                  v = (if err = None then ws_validity ws
                       else worse (ws_validity ws) ValidityPartial)
              in (snap1\<lparr>sn_Validity := v\<rparr>,
                  ws_health ws @
                  (case err of
                     None \<Rightarrow> []
                   | Some e \<Rightarrow>
                       if isPanic err
                       then [(HealthContractViolation, ''run '' @ w_runID w @ '': '' @ Error e)]
                       else []))))"

definition releaseAll ::
  "(GenerationHandle \<Rightarrow> (unit, gerr) call) \<Rightarrow> (BaselineHandle \<Rightarrow> (unit, gerr) call) \<Rightarrow>
   finishWork \<Rightarrow> Controller \<Rightarrow> Controller" where
  "releaseAll rg rb w c =
     releaseBaseline rb (w_baseFinal w)
       (releaseBaseline rb (w_baseStart w)
          (releaseGeneration rg (w_genStart w) (releaseGeneration rg (w_genFinal w) c)))"

definition finishSlot :: "Validity \<Rightarrow> gotime \<Rightarrow> runSlot \<Rightarrow> runSlot" where
  "finishSlot validity now s =
     (sealLocked
        (s\<lparr>rs_state := StateFinished, rs_validity := worse (rs_validity s) validity,
           rs_since := now, rs_gen := [], rs_genFinal := [], rs_base := [], rs_baseF := [],
           rs_lease := 0\<rparr>))\<lparr>rs_cancelled := True\<rparr>"

definition finishCommit :: "Controller \<Rightarrow> epoch \<Rightarrow> Validity \<Rightarrow> gotime \<Rightarrow> gerr option \<times> Controller" where
  "finishCommit c ep validity now = commit c ep (\<lambda>r c. upd c r (finishSlot validity now))"

text \<open>
  \<open>finishWorker\<close>. \<open>between1\<close> and \<open>between2\<close> are what other goroutines did before the publication and
  between it and the final commit.
\<close>

definition finishWorker ::
  "workerEnv \<Rightarrow> (GenerationHandle \<Rightarrow> (unit, gerr) call) \<Rightarrow> (BaselineHandle \<Rightarrow> (unit, gerr) call) \<Rightarrow>
   (Controller \<Rightarrow> Controller) \<Rightarrow> (Controller \<Rightarrow> Controller) \<Rightarrow> gotime \<Rightarrow> nat \<Rightarrow> epoch \<Rightarrow> finishWork \<Rightarrow>
   Controller \<Rightarrow> Controller" where
  "finishWorker env rg rb between1 between2 now r ep w c =
     (let (snap, hl) = buildSnapshot c env ep w;
          c1 = between1 (releaseAll rg rb w (recordHealth c hl))
      in case publish c1 ep snap of
           (Some e, c2) \<Rightarrow> endOwner c2 r
         | (None, c2) \<Rightarrow>
             endOwner (snd (finishCommit (between2 c2) ep (sn_Validity snap) now)) r)"

end
