(* ===== verification/Run_Machine.thy ===== *)
theory Run_Machine
  imports Finish_Run
begin

text \<open>
  The controller under concurrency. A system state is the controller, the goroutines that are
  inside one of its operations, each at the point before its next critical section, and whether
  \<open>startMu\<close> is held. A step is one critical section of one goroutine (or the work between two
  sections, which touches no slot), so the reachable states are those of every interleaving the
  mutexes allow. Clock readings, collector behaviour and the outcome of a join's race against its
  timer are arbitrary in every step.
\<close>

text \<open>What a goroutine does after its \<open>AbortRun\<close>: return, or go on with the \<open>beginRun\<close> that called
  it (the options, the new run's id and nonce).\<close>

datatype continuation = KReturn | KStart StartRunOptions string string

datatype task =
    TAbort string string continuation
  | TJoin nat string epoch string "string list" continuation
  | TReap nat
  | TAck string StartRunOptions string string
  | TAlloc StartRunOptions string string string
  | TOpen nat epoch string string string
  | TOpened nat epoch string startOutcome
  | TStarted nat
  | TDrain nat epoch "GenerationHandle list"
  | TDiscard nat epoch "GenerationHandle list" "BaselineHandle list"
  | TFreeze nat epoch
  | TFrozen nat epoch finishOutcome
  | TFinish nat epoch finishWork
  | TBuilt nat epoch Snapshot
  | TPublished nat epoch Validity
  | TRetire nat

record Sys =
  ctl :: Controller
  pool :: "task multiset"
  startMu :: bool

text \<open>The first thing \<open>beginRun\<close> does with its plan.\<close>

definition starterTask ::
  "Controller \<Rightarrow> StartRunOptions \<Rightarrow> string \<Rightarrow> string \<Rightarrow> nat option \<Rightarrow> nat option \<Rightarrow> task" where
  "starterTask c opt runID nonce preempt ackFinished =
     (case preempt of
        Some r \<Rightarrow> TAbort (rs_runID (slot c r)) (ReasonPreemptedBy @ runID) (KStart opt runID nonce)
      | None \<Rightarrow>
          (case ackFinished of
             Some r \<Rightarrow> TAck (rs_runID (slot c r)) opt runID nonce
           | None \<Rightarrow> TAlloc opt runID nonce []))"

text \<open>A preempting starter goes on with the run it displaced; any other caller returns.\<close>

fun resume :: "string \<Rightarrow> continuation \<Rightarrow> task multiset" where
  "resume target KReturn = {#}"
| "resume target (KStart opt runID nonce) = {#TAlloc opt runID nonce target#}"

text \<open>The goroutines a committed opening boundary starts.\<close>

definition openSpawn :: "nat \<Rightarrow> epoch \<Rightarrow> startOutcome \<Rightarrow> task multiset" where
  "openSpawn r ep so =
     (if st_State (so_res so) = StateAborted then {#TDiscard r ep (so_gen so) (so_base so)#}
      else if so_gen so \<noteq> [] then {#TDrain r ep (so_gen so)#}
      else {#})"

definition openObserve :: "startOutcome \<Rightarrow> Controller \<Rightarrow> Controller" where
  "openObserve so c =
     (if st_State (so_res so) = StateAborted then
        observeTermination c
          \<lparr>te_RunID = st_RunID (so_res so), te_Epoch = st_Epoch (so_res so),
           te_State = StateAborted, te_Validity = ValidityInvalid,
           te_Reason = ReasonRequiredFailed, te_BoundaryAt = st_StartedAt (so_res so)\<rparr>
      else c)"

definition finishObserve :: "nat \<Rightarrow> epoch \<Rightarrow> finishOutcome \<Rightarrow> Controller \<Rightarrow> Controller" where
  "finishObserve r ep fo c =
     observeTermination c
       \<lparr>te_RunID = fa_RunID (fo_accepted fo), te_Epoch = ep, te_State = StateFinishing,
        te_Validity = worse (st_Validity (rs_start (slot c r))) (fa_Validity (fo_accepted fo)),
        te_Reason = ReasonFinishAccepted,
        te_BoundaryAt =
          terminationBoundary (fa_GenerationWindow (fo_accepted fo))
            (fa_AcceptedAt (fo_accepted fo))\<rparr>"

text \<open>The aborts a sweep asks for. The watchdog runs them one after the other; here each is a
  goroutine of its own, which allows every order.\<close>

definition sweepTasks :: "abortReq list \<Rightarrow> task multiset" where
  "sweepTasks reqs = mset (map (\<lambda>a. TAbort (ar_runID a) (ar_reason a) KReturn) reqs)"

definition sweepHealth :: "abortReq list \<Rightarrow> health_log" where
  "sweepHealth reqs =
     map (\<lambda>a. (ar_health a, ''run '' @ ar_runID a @ '' exceeded its finish lease and was aborted''))
       (filter (\<lambda>a. ar_health a \<noteq> []) reqs)"

inductive step :: "Sys \<Rightarrow> Sys \<Rightarrow> bool" where
  register_generation:
    "step \<lparr>ctl = c, pool = P, startMu = m\<rparr>
          \<lparr>ctl = snd (RegisterGeneration c reg g), pool = P, startMu = m\<rparr>"
| register_baseline:
    "step \<lparr>ctl = c, pool = P, startMu = m\<rparr>
          \<lparr>ctl = snd (RegisterBaseline c reg b), pool = P, startMu = m\<rparr>"
| start_plan:
    "planStartLocked c now opt = PlanProceed preempt ackFinished \<Longrightarrow>
     nonce = (if o_Nonce opt = [] then minted else o_Nonce opt) \<Longrightarrow>
     step \<lparr>ctl = c, pool = P, startMu = False\<rparr>
          \<lparr>ctl = c, pool = add_mset (starterTask c opt runID nonce preempt ackFinished) P,
           startMu = True\<rparr>"
| abort_call:
    "step \<lparr>ctl = c, pool = P, startMu = m\<rparr>
          \<lparr>ctl = c,
           pool = add_mset (TAbort runID (if reason = [] then ReasonExplicit else reason) KReturn) P,
           startMu = m\<rparr>"
| abort_return:
    "abortEnter c now runID reason = (AbortReturn res, c') \<Longrightarrow>
     step \<lparr>ctl = c, pool = add_mset (TAbort runID reason k) P, startMu = m\<rparr>
          \<lparr>ctl = c', pool = resume runID k + P, startMu = m\<rparr>"
| abort_giveup:
    "abortEnter c now runID reason = (AbortBlocked r, c') \<Longrightarrow>
     step \<lparr>ctl = c, pool = add_mset (TAbort runID reason k) P, startMu = m\<rparr>
          \<lparr>ctl = c', pool = P, startMu = (if k = KReturn then m else False)\<rparr>"
| abort_fence:
    "abortEnter c now runID reason = (AbortFenced r ep partial, c') \<Longrightarrow>
     step \<lparr>ctl = c, pool = add_mset (TAbort runID reason k) P, startMu = m\<rparr>
          \<lparr>ctl = abortCancel c' r runID ep reason now,
           pool = add_mset (TJoin r runID ep reason partial k) P, startMu = m\<rparr>"
| abort_settle:
    "(\<not> detached \<Longrightarrow> rs_done (slot c r)) \<Longrightarrow>
     abortSettle c r (abortResult runID ep reason detached now partial) = (gen, base, c') \<Longrightarrow>
     step \<lparr>ctl = c, pool = add_mset (TJoin r runID ep reason partial k) P, startMu = m\<rparr>
          \<lparr>ctl =
             recordHealth (releaseBaseline relB base (releaseGeneration relG gen c'))
               (if detached
                then [(HealthWorkerDetached,
                       ''run '' @ runID @ '': worker outlived the abort join budget and was detached'')]
                else []),
           pool = (if detached then {#TReap r#} else {#}) + resume runID k + P, startMu = m\<rparr>"
| reap:
    "rs_done (slot c r) \<Longrightarrow> reapTake c r = (gen, base, c') \<Longrightarrow>
     step \<lparr>ctl = c, pool = add_mset (TReap r) P, startMu = m\<rparr>
          \<lparr>ctl = releaseBaseline relB base (releaseGeneration relG gen c'), pool = P, startMu = m\<rparr>"
| reap_giveup:
    "step \<lparr>ctl = c, pool = add_mset (TReap r) P, startMu = m\<rparr> \<lparr>ctl = c, pool = P, startMu = m\<rparr>"
| start_ack:
    "step \<lparr>ctl = c, pool = add_mset (TAck target opt runID nonce) P, startMu = m\<rparr>
          \<lparr>ctl = snd (AckBy c now target AckedByPreempt),
           pool = add_mset (TAlloc opt runID nonce []) P, startMu = m\<rparr>"
| start_alloc:
    "runID \<notin> rs_runID ` set (c_heap c) \<Longrightarrow>
     beginAlloc c now runID nonce (o_Trigger opt) = (r, ep, c') \<Longrightarrow>
     step \<lparr>ctl = c, pool = add_mset (TAlloc opt runID nonce preempted) P, startMu = m\<rparr>
          \<lparr>ctl = c', pool = add_mset (TOpen r ep runID nonce preempted) P, startMu = m\<rparr>"
| open_boundary:
    "so = openBoundary c genv benv runID nonce ep preempted startedAt \<Longrightarrow>
     step \<lparr>ctl = c, pool = add_mset (TOpen r ep runID nonce preempted) P, startMu = m\<rparr>
          \<lparr>ctl = recordHealth c (so_health so), pool = add_mset (TOpened r ep nonce so) P,
           startMu = m\<rparr>"
| open_commit:
    "beginCommit c ep so now nonceNow nonce = (None, c') \<Longrightarrow>
     step \<lparr>ctl = c, pool = add_mset (TOpened r ep nonce so) P, startMu = m\<rparr>
          \<lparr>ctl = openObserve so c', pool = add_mset (TStarted r) (openSpawn r ep so + P),
           startMu = m\<rparr>"
| open_fenced:
    "beginCommit c ep so now nonceNow nonce = (Some e, c') \<Longrightarrow>
     step \<lparr>ctl = c, pool = add_mset (TOpened r ep nonce so) P, startMu = m\<rparr>
          \<lparr>ctl = releaseBaseline relB (so_base so) (releaseGeneration relG (so_gen so) c'),
           pool = add_mset (TStarted r) P, startMu = m\<rparr>"
| start_return:
    "step \<lparr>ctl = c, pool = add_mset (TStarted r) P, startMu = m\<rparr>
          \<lparr>ctl = endOwner c r, pool = P, startMu = False\<rparr>"
| drain_commit:
    "startDrainCommit (drainAndRelease drain relG gen c) ep = (res, c') \<Longrightarrow>
     step \<lparr>ctl = c, pool = add_mset (TDrain r ep gen) P, startMu = m\<rparr>
          \<lparr>ctl = c', pool = add_mset (TRetire r) P, startMu = m\<rparr>"
| discard_commit:
    "discardCommit (releaseBaseline relB base (drainAndRelease drain relG gen c)) ep = (res, c') \<Longrightarrow>
     step \<lparr>ctl = c, pool = add_mset (TDiscard r ep gen base) P, startMu = m\<rparr>
          \<lparr>ctl = upd c' r (\<lambda>s. s\<lparr>rs_cancelled := True\<rparr>), pool = add_mset (TRetire r) P, startMu = m\<rparr>"
| finish_claim:
    "finishEnter c now runID = (FinishClaimed r ep, c') \<Longrightarrow>
     step \<lparr>ctl = c, pool = P, startMu = m\<rparr>
          \<lparr>ctl = c', pool = add_mset (TFreeze r ep) P, startMu = m\<rparr>"
| freeze_boundary:
    "fo = closeBoundary c genv benv (rs_runID (slot c r)) ep acceptedAt \<Longrightarrow>
     step \<lparr>ctl = c, pool = add_mset (TFreeze r ep) P, startMu = m\<rparr>
          \<lparr>ctl = recordHealth c (fo_health fo), pool = add_mset (TFrozen r ep fo) P, startMu = m\<rparr>"
| freeze_commit:
    "freezeCommit c ep fo now = (None, c') \<Longrightarrow>
     step \<lparr>ctl = c, pool = add_mset (TFrozen r ep fo) P, startMu = m\<rparr>
          \<lparr>ctl = finishObserve r ep fo c',
           pool = add_mset (TFinish r ep (mkWork fo (slot c' r))) (add_mset (TRetire r) P),
           startMu = m\<rparr>"
| freeze_fenced:
    "freezeCommit c ep fo now = (Some e, c') \<Longrightarrow>
     step \<lparr>ctl = c, pool = add_mset (TFrozen r ep fo) P, startMu = m\<rparr>
          \<lparr>ctl = releaseBaseline relB (fo_base fo) (releaseGeneration relG (fo_gen fo) c'),
           pool = add_mset (TRetire r) P, startMu = m\<rparr>"
| finish_build:
    "buildSnapshot c env ep w = (snap, hl) \<Longrightarrow>
     step \<lparr>ctl = c, pool = add_mset (TFinish r ep w) P, startMu = m\<rparr>
          \<lparr>ctl = releaseAll relG relB w (recordHealth c hl), pool = add_mset (TBuilt r ep snap) P,
           startMu = m\<rparr>"
| finish_publish:
    "publish c ep snap = (None, c') \<Longrightarrow>
     step \<lparr>ctl = c, pool = add_mset (TBuilt r ep snap) P, startMu = m\<rparr>
          \<lparr>ctl = c', pool = add_mset (TPublished r ep (sn_Validity snap)) P, startMu = m\<rparr>"
| publish_fenced:
    "publish c ep snap = (Some e, c') \<Longrightarrow>
     step \<lparr>ctl = c, pool = add_mset (TBuilt r ep snap) P, startMu = m\<rparr>
          \<lparr>ctl = c', pool = add_mset (TRetire r) P, startMu = m\<rparr>"
| finish_commit:
    "finishCommit c ep v now = (res, c') \<Longrightarrow>
     step \<lparr>ctl = c, pool = add_mset (TPublished r ep v) P, startMu = m\<rparr>
          \<lparr>ctl = c', pool = add_mset (TRetire r) P, startMu = m\<rparr>"
| retire:
    "step \<lparr>ctl = c, pool = add_mset (TRetire r) P, startMu = m\<rparr>
          \<lparr>ctl = endOwner c r, pool = P, startMu = m\<rparr>"
| ack:
    "step \<lparr>ctl = c, pool = P, startMu = m\<rparr>
          \<lparr>ctl = snd (AckBy c now runID by), pool = P, startMu = m\<rparr>"
| sweep:
    "sweepLocked now c = (reqs, c') \<Longrightarrow>
     step \<lparr>ctl = c, pool = P, startMu = m\<rparr>
          \<lparr>ctl = recordHealth c' (sweepHealth reqs), pool = sweepTasks reqs + P, startMu = m\<rparr>"

definition initial :: "Sys \<Rightarrow> bool" where
  "initial s \<longleftrightarrow>
     (\<exists>budgets observer. New budgets observer = Inr (ctl s)) \<and> pool s = {#} \<and> \<not> startMu s"

text \<open>Reachable in a given number of steps, and reachable.\<close>

inductive reach :: "nat \<Rightarrow> Sys \<Rightarrow> bool" where
  reach_init: "initial s \<Longrightarrow> reach 0 s"
| reach_step: "reach n s \<Longrightarrow> step s s' \<Longrightarrow> reach (Suc n) s'"

definition reachable :: "Sys \<Rightarrow> bool" where
  "reachable s \<longleftrightarrow> (\<exists>n. reach n s)"

lemma reachable_init: "initial s \<Longrightarrow> reachable s"
  unfolding reachable_def by (blast intro: reach_init)

lemma reachable_step: "reachable s \<Longrightarrow> step s s' \<Longrightarrow> reachable s'"
  unfolding reachable_def by (blast intro: reach_step)

lemma reachable_induct [consumes 1, case_names init step]:
  assumes "reachable s"
    and "\<And>s. initial s \<Longrightarrow> P s"
    and "\<And>s s'. reachable s \<Longrightarrow> P s \<Longrightarrow> step s s' \<Longrightarrow> P s'"
  shows "P s"
proof -
  obtain n where "reach n s" using assms(1) by (auto simp: reachable_def)
  then show ?thesis
    by (induction rule: reach.induct) (use assms(2,3) in \<open>auto simp: reachable_def\<close>)
qed

end
