(* ===== verification/Run_Invariants.thy ===== *)
theory Run_Invariants
  imports Run_Machine
begin

text \<open>
  The invariant of the concurrent controller and its preservation, one lemma per kind of step. It
  has three parts: what every slot of the store satisfies, what every goroutine in flight may rely
  on, and how the goroutines are counted (one driver and one joiner per run, one starter under
  \<open>startMu\<close>, as many owners as the slot's owner count).
\<close>

definition live :: "RunState \<Rightarrow> bool" where
  "live st \<longleftrightarrow> st = StateStarting \<or> st = StateStarted \<or> st = StateFinishing \<or> st = StateFinished"

lemma live_simps [simp]:
  "live StateStarting" "live StateStarted" "live StateFinishing" "live StateFinished"
  "\<not> live StateAcknowledged" "\<not> live StateAborting" "\<not> live StateAborted" "\<not> live StateExpired"
  "\<not> live StateZero" "\<not> live StateIdle"
  by (simp_all add: live_def)

subsection \<open>Slots\<close>

definition noHandles :: "runSlot \<Rightarrow> bool" where
  "noHandles s \<longleftrightarrow> rs_gen s = [] \<and> rs_genFinal s = [] \<and> rs_base s = [] \<and> rs_baseF s = []"

definition slot_inv :: "epoch \<Rightarrow> runSlot \<Rightarrow> bool" where
  "slot_inv E s \<longleftrightarrow>
     rs_epoch s \<le> E
     \<and> (live (rs_state s) \<longrightarrow> rs_epoch s = E)
     \<and> (rs_state s \<in> {StateStarting, StateStarted} \<longrightarrow> \<not> rs_finishSet s \<and> rs_snapshot s = None)
     \<and> (rs_state s = StateStarting \<longrightarrow> rs_validity s = ValidityValid)
     \<and> (rs_snapshot s \<noteq> None \<longrightarrow>
         rs_state s \<in> {StateFinishing, StateFinished, StateAcknowledged, StateAborting})
     \<and> (rs_sealed s \<longrightarrow> rs_state s \<notin> {StateStarting, StateStarted, StateFinishing})
     \<and> (rs_done s \<longleftrightarrow> rs_sealed s \<and> rs_owners s \<le> 0)
     \<and> (rs_state s = StateFinished \<longrightarrow> rs_sealed s)
     \<and> (rs_state s \<in> {StateFinished, StateAcknowledged} \<longrightarrow> noHandles s)
     \<and> (rs_state s = StateAborting \<longrightarrow> rs_epoch s < E)
     \<and> rs_state s \<noteq> StateZero \<and> rs_state s \<noteq> StateIdle"

definition store_inv :: "Controller \<Rightarrow> bool" where
  "store_inv c \<longleftrightarrow>
     sorted_wrt (<) (map rs_epoch (c_heap c))
     \<and> distinct (map rs_runID (c_heap c))
     \<and> sorted_wrt (<) (c_slots c)
     \<and> (\<forall>r \<in> set (c_slots c). r < length (c_heap c))
     \<and> (\<forall>r < length (c_heap c). slot_inv (c_epoch c) (slot c r))
     \<and> (\<forall>r < length (c_heap c). live (rs_state (slot c r)) \<longrightarrow> r \<in> set (c_slots c))
     \<and> (\<forall>r \<in> set (c_slots c).
          rs_state (slot c r) \<in> {StateFinished, StateAcknowledged} \<longrightarrow> rs_snapshot (slot c r) \<noteq> None)"

subsection \<open>Goroutines\<close>

fun driver :: "nat \<Rightarrow> task \<Rightarrow> bool" where
  "driver r (TOpen q ep runID nonce p) = (q = r)"
| "driver r (TOpened q ep nonce so) = (q = r)"
| "driver r (TFreeze q ep) = (q = r)"
| "driver r (TFrozen q ep fo) = (q = r)"
| "driver r (TFinish q ep w) = (q = r)"
| "driver r (TBuilt q ep snap) = (q = r)"
| "driver r (TPublished q ep v) = (q = r)"
| "driver r _ = False"

fun joiner :: "nat \<Rightarrow> task \<Rightarrow> bool" where
  "joiner r (TJoin q runID ep reason partial k) = (q = r)"
| "joiner r _ = False"

fun starter :: "task \<Rightarrow> bool" where
  "starter (TAbort t reason k) = (k \<noteq> KReturn)"
| "starter (TJoin q runID ep reason partial k) = (k \<noteq> KReturn)"
| "starter (TAck t opt runID nonce) = True"
| "starter (TAlloc opt runID nonce p) = True"
| "starter (TOpen q ep runID nonce p) = True"
| "starter (TOpened q ep nonce so) = True"
| "starter (TStarted q) = True"
| "starter _ = False"

fun owner :: "nat \<Rightarrow> task \<Rightarrow> bool" where
  "owner r (TOpen q ep runID nonce p) = (q = r)"
| "owner r (TOpened q ep nonce so) = (q = r)"
| "owner r (TStarted q) = (q = r)"
| "owner r (TDrain q ep gen) = (q = r)"
| "owner r (TDiscard q ep gen base) = (q = r)"
| "owner r (TFreeze q ep) = (q = r)"
| "owner r (TFrozen q ep fo) = (q = r)"
| "owner r (TFinish q ep w) = (q = r)"
| "owner r (TBuilt q ep snap) = (q = r)"
| "owner r (TPublished q ep v) = (q = r)"
| "owner r (TRetire q) = (q = r)"
| "owner r _ = False"

definition no_live :: "Controller \<Rightarrow> bool" where
  "no_live c \<longleftrightarrow> (\<forall>r < length (c_heap c). \<not> live (rs_state (slot c r)))"

definition outcome_ok :: "startOutcome \<Rightarrow> bool" where
  "outcome_ok so \<longleftrightarrow>
     st_Validity (so_res so) \<noteq> ValidityZero \<and>
     st_State (so_res so) =
       (if st_Validity (so_res so) = ValidityInvalid then StateAborted else StateStarted)"

fun task_inv :: "Controller \<Rightarrow> task \<Rightarrow> bool" where
  "task_inv c (TAbort target reason k) =
     (k \<noteq> KReturn \<longrightarrow>
       (\<forall>r < length (c_heap c). live (rs_state (slot c r)) \<longrightarrow> rs_runID (slot c r) = target))"
| "task_inv c (TJoin r runID ep reason partial k) =
     (r < length (c_heap c) \<and> rs_runID (slot c r) = runID \<and> rs_epoch (slot c r) = ep
      \<and> rs_state (slot c r) = StateAborting \<and> (k \<noteq> KReturn \<longrightarrow> no_live c))"
| "task_inv c (TReap r) = (r < length (c_heap c))"
| "task_inv c (TAck target opt runID nonce) =
     (\<forall>r < length (c_heap c). live (rs_state (slot c r)) \<longrightarrow>
        rs_runID (slot c r) = target \<and> rs_state (slot c r) = StateFinished)"
| "task_inv c (TAlloc opt runID nonce p) = no_live c"
| "task_inv c (TOpen r ep runID nonce p) =
     (r < length (c_heap c) \<and> rs_epoch (slot c r) = ep
      \<and> (ep = c_epoch c \<longrightarrow> rs_state (slot c r) = StateStarting))"
| "task_inv c (TOpened r ep nonce so) =
     (r < length (c_heap c) \<and> rs_epoch (slot c r) = ep \<and> outcome_ok so
      \<and> (ep = c_epoch c \<longrightarrow> rs_state (slot c r) = StateStarting))"
| "task_inv c (TStarted r) = (r < length (c_heap c))"
| "task_inv c (TDrain r ep gen) = (r < length (c_heap c) \<and> rs_epoch (slot c r) = ep)"
| "task_inv c (TDiscard r ep gen base) = (r < length (c_heap c) \<and> rs_epoch (slot c r) = ep)"
| "task_inv c (TFreeze r ep) =
     (r < length (c_heap c) \<and> rs_epoch (slot c r) = ep
      \<and> (ep = c_epoch c \<longrightarrow> rs_state (slot c r) = StateFinishing \<and> \<not> rs_finishSet (slot c r)
          \<and> rs_snapshot (slot c r) = None))"
| "task_inv c (TFrozen r ep fo) =
     (r < length (c_heap c) \<and> rs_epoch (slot c r) = ep
      \<and> (ep = c_epoch c \<longrightarrow> rs_state (slot c r) = StateFinishing \<and> \<not> rs_finishSet (slot c r)
          \<and> rs_snapshot (slot c r) = None))"
| "task_inv c (TFinish r ep w) =
     (r < length (c_heap c) \<and> rs_epoch (slot c r) = ep
      \<and> (ep = c_epoch c \<longrightarrow> rs_state (slot c r) = StateFinishing \<and> rs_finishSet (slot c r)
          \<and> rs_snapshot (slot c r) = None))"
| "task_inv c (TBuilt r ep snap) =
     (r < length (c_heap c) \<and> rs_epoch (slot c r) = ep
      \<and> (ep = c_epoch c \<longrightarrow> rs_state (slot c r) = StateFinishing \<and> rs_finishSet (slot c r)
          \<and> rs_snapshot (slot c r) = None))"
| "task_inv c (TPublished r ep v) =
     (r < length (c_heap c) \<and> rs_epoch (slot c r) = ep
      \<and> (ep = c_epoch c \<longrightarrow> rs_state (slot c r) = StateFinishing \<and> rs_finishSet (slot c r)
          \<and> rs_snapshot (slot c r) \<noteq> None))"
| "task_inv c (TRetire r) = (r < length (c_heap c))"

definition pool_inv :: "Controller \<Rightarrow> task multiset \<Rightarrow> bool \<Rightarrow> bool" where
  "pool_inv c P m \<longleftrightarrow>
     (\<forall>r. size (filter_mset (driver r) P) \<le> 1)
     \<and> (\<forall>r. size (filter_mset (joiner r) P) \<le> 1)
     \<and> size (filter_mset starter P) = (if m then 1 else 0)
     \<and> (\<forall>r < length (c_heap c). rs_owners (slot c r) = int (size (filter_mset (owner r) P)))"

definition Inv :: "Controller \<Rightarrow> task multiset \<Rightarrow> bool \<Rightarrow> bool" where
  "Inv c P m \<longleftrightarrow> store_inv c \<and> (\<forall>t \<in># P. task_inv c t) \<and> pool_inv c P m"

lemma InvI: "store_inv c \<Longrightarrow> (\<And>t. t \<in># P \<Longrightarrow> task_inv c t) \<Longrightarrow> pool_inv c P m \<Longrightarrow> Inv c P m"
  by (simp add: Inv_def)

lemma Inv_store: "Inv c P m \<Longrightarrow> store_inv c"
  by (simp add: Inv_def)

lemma Inv_task: "Inv c (add_mset t P) m \<Longrightarrow> task_inv c t"
  by (simp add: Inv_def)

lemma Inv_tasks: "Inv c (add_mset t P) m \<Longrightarrow> t' \<in># P \<Longrightarrow> task_inv c t'"
  by (simp add: Inv_def)

lemma Inv_pool: "Inv c P m \<Longrightarrow> pool_inv c P m"
  by (simp add: Inv_def)

subsection \<open>Consequences for the store\<close>

lemma epoch_nth_mono:
  "store_inv c \<Longrightarrow> q < r \<Longrightarrow> r < length (c_heap c) \<Longrightarrow> rs_epoch (slot c q) < rs_epoch (slot c r)"
  by (auto simp: store_inv_def slot_def sorted_wrt_iff_nth_less)

lemma epoch_inject:
  assumes "store_inv c" "q < length (c_heap c)" "r < length (c_heap c)"
    and "rs_epoch (slot c q) = rs_epoch (slot c r)"
  shows "q = r"
  using epoch_nth_mono [OF assms(1), of q r] epoch_nth_mono [OF assms(1), of r q] assms(2-4)
  by (cases q r rule: linorder_cases) auto

lemma runID_inject:
  "store_inv c \<Longrightarrow> q < length (c_heap c) \<Longrightarrow> r < length (c_heap c) \<Longrightarrow>
   rs_runID (slot c q) = rs_runID (slot c r) \<Longrightarrow> q = r"
  by (auto simp: store_inv_def slot_def distinct_conv_nth)

lemma store_slot: "store_inv c \<Longrightarrow> r < length (c_heap c) \<Longrightarrow> slot_inv (c_epoch c) (slot c r)"
  by (simp add: store_inv_def)

lemma store_snapshot:
  "store_inv c \<Longrightarrow> r \<in> set (c_slots c) \<Longrightarrow>
   rs_state (slot c r) \<in> {StateFinished, StateAcknowledged} \<Longrightarrow> rs_snapshot (slot c r) \<noteq> None"
  unfolding store_inv_def by blast

lemma store_ref: "store_inv c \<Longrightarrow> r \<in> set (c_slots c) \<Longrightarrow> r < length (c_heap c)"
  by (simp add: store_inv_def)

lemma live_epoch:
  "store_inv c \<Longrightarrow> r < length (c_heap c) \<Longrightarrow> live (rs_state (slot c r)) \<Longrightarrow>
     rs_epoch (slot c r) = c_epoch c"
  using store_slot [of c r] by (simp add: slot_inv_def)

lemma live_retained:
  "store_inv c \<Longrightarrow> r < length (c_heap c) \<Longrightarrow> live (rs_state (slot c r)) \<Longrightarrow> r \<in> set (c_slots c)"
  by (simp add: store_inv_def)

lemma live_unique:
  "store_inv c \<Longrightarrow> q < length (c_heap c) \<Longrightarrow> r < length (c_heap c) \<Longrightarrow>
   live (rs_state (slot c q)) \<Longrightarrow> live (rs_state (slot c r)) \<Longrightarrow> q = r"
  using live_epoch epoch_inject by metis

text \<open>The fence finds exactly the slot that owns the current epoch.\<close>

lemma fenced_is:
  assumes "store_inv c" "r < length (c_heap c)" "rs_epoch (slot c r) = ep"
    and "fencedSlotLocked c ep = Some q"
  shows "q = r \<and> ep = c_epoch c \<and> r \<in> set (c_slots c)"
  using fencedSlotLocked_Some [OF assms(4)] epoch_inject [OF assms(1)] store_ref [OF assms(1)]
    assms(2,3) by metis

lemma last_slot_max:
  assumes "store_inv c" "r \<in> set (c_slots c)"
  shows "r \<le> last (c_slots c)"
proof -
  have "c_slots c \<noteq> []" using assms(2) by auto
  then obtain xs x where xs: "c_slots c = xs @ [x]" by (metis rev_exhaust)
  have "sorted_wrt (<) (xs @ [x])" using assms(1) xs by (simp add: store_inv_def)
  then show ?thesis using assms(2) xs by (auto simp: sorted_wrt_append)
qed

text \<open>A live run is the newest retained one.\<close>

lemma live_is_current:
  assumes "store_inv c" "r < length (c_heap c)" "live (rs_state (slot c r))"
  shows "currentLocked c = Some r"
proof -
  have mem: "r \<in> set (c_slots c)" using live_retained assms by blast
  then have ne: "c_slots c \<noteq> []" by auto
  let ?l = "last (c_slots c)"
  have "?l < length (c_heap c)" using ne assms(1) by (simp add: store_ref)
  then have "rs_epoch (slot c ?l) \<le> c_epoch c"
    using store_slot [OF assms(1)] by (simp add: slot_inv_def)
  moreover have "\<not> r < ?l"
    using epoch_nth_mono [OF assms(1) _ \<open>?l < length (c_heap c)\<close>, of r] calculation
      live_epoch [OF assms] by auto
  ultimately have "?l = r" using last_slot_max [OF assms(1) mem] by simp
  then show ?thesis using ne by (simp add: currentLocked_def)
qed

lemma currentLocked_ref: "store_inv c \<Longrightarrow> currentLocked c = Some r \<Longrightarrow> r < length (c_heap c)"
  by (auto simp: currentLocked_def store_ref split: if_splits)

lemma no_live_current:
  assumes "store_inv c" and "\<And>r. currentLocked c = Some r \<Longrightarrow> \<not> live (rs_state (slot c r))"
  shows "no_live c"
  unfolding no_live_def using live_is_current assms by blast

subsection \<open>Changing one slot\<close>

definition one_slot :: "Controller \<Rightarrow> Controller \<Rightarrow> nat \<Rightarrow> bool" where
  "one_slot c c' r \<longleftrightarrow>
     length (c_heap c') = length (c_heap c) \<and> c_slots c' = c_slots c
     \<and> (\<forall>q. q \<noteq> r \<longrightarrow> slot c' q = slot c q)
     \<and> rs_epoch (slot c' r) = rs_epoch (slot c r) \<and> rs_runID (slot c' r) = rs_runID (slot c r)"

lemma one_slot_upd:
  "r < length (c_heap c) \<Longrightarrow> rs_epoch (f (slot c r)) = rs_epoch (slot c r) \<Longrightarrow>
   rs_runID (f (slot c r)) = rs_runID (slot c r) \<Longrightarrow> one_slot c (upd c r f) r"
  by (simp add: one_slot_def slot_upd)

lemma one_slot_trans: "one_slot c c1 r \<Longrightarrow> one_slot c1 c2 r \<Longrightarrow> one_slot c c2 r"
  by (simp add: one_slot_def)

lemma one_slot_core: "one_slot c c1 r \<Longrightarrow> same_core c1 c2 \<Longrightarrow> one_slot c c2 r"
  by (simp add: one_slot_def same_core_slot) (simp add: same_core_def)

lemma one_slot_fields:
  assumes "one_slot c c' r"
  shows "rs_epoch (slot c' q) = rs_epoch (slot c q)" "rs_runID (slot c' q) = rs_runID (slot c q)"
  using assms by (cases "q = r"; simp add: one_slot_def)+

lemma one_slot_maps:
  assumes "one_slot c c' r"
  shows "map rs_epoch (c_heap c') = map rs_epoch (c_heap c)"
    and "map rs_runID (c_heap c') = map rs_runID (c_heap c)"
proof -
  have "length (c_heap c') = length (c_heap c)" using assms by (simp add: one_slot_def)
  then show "map rs_epoch (c_heap c') = map rs_epoch (c_heap c)"
    and "map rs_runID (c_heap c') = map rs_runID (c_heap c)"
    using one_slot_fields [OF assms] by (auto intro!: nth_equalityI simp: slot_def)
qed

lemma store_one_slot:
  assumes st: "store_inv c" and os: "one_slot c c' r" and r: "r < length (c_heap c)"
    and ep: "c_epoch c' = c_epoch c" and sl: "slot_inv (c_epoch c) (slot c' r)"
    and lv: "live (rs_state (slot c' r)) \<Longrightarrow> live (rs_state (slot c r))"
    and sn: "r \<in> set (c_slots c) \<Longrightarrow> rs_state (slot c' r) \<in> {StateFinished, StateAcknowledged} \<Longrightarrow>
        rs_snapshot (slot c' r) \<noteq> None"
  shows "store_inv c'"
proof -
  have same: "length (c_heap c') = length (c_heap c)" "c_slots c' = c_slots c"
    "\<And>q. q \<noteq> r \<Longrightarrow> slot c' q = slot c q" using os by (auto simp: one_slot_def)
  have "\<forall>q < length (c_heap c). slot_inv (c_epoch c) (slot c' q)"
    using st sl same(3) by (metis store_slot)
  moreover have "\<forall>q < length (c_heap c). live (rs_state (slot c' q)) \<longrightarrow> q \<in> set (c_slots c)"
    using st lv same(3) by (metis live_retained)
  moreover have "\<forall>q \<in> set (c_slots c). rs_state (slot c' q) \<in> {StateFinished, StateAcknowledged} \<longrightarrow>
      rs_snapshot (slot c' q) \<noteq> None"
  proof (intro ballI impI)
    fix q
    assume "q \<in> set (c_slots c)" "rs_state (slot c' q) \<in> {StateFinished, StateAcknowledged}"
    then show "rs_snapshot (slot c' q) \<noteq> None"
      using store_snapshot [OF st, of q] sn same(3) [of q] by (cases "q = r") simp_all
  qed
  ultimately show ?thesis
    using st unfolding store_inv_def same(1,2) ep one_slot_maps [OF os] by blast
qed

lemma slot_inv_Suc: "slot_inv E s \<Longrightarrow> \<not> live (rs_state s) \<Longrightarrow> slot_inv (Suc E) s"
  by (simp add: slot_inv_def)

lemma store_fence:
  assumes st: "store_inv c" and os: "one_slot c c' r" and r: "r < length (c_heap c)"
    and ep: "c_epoch c' = Suc (c_epoch c)" and sl: "slot_inv (Suc (c_epoch c)) (slot c' r)"
    and lv: "live (rs_state (slot c r))" and ab: "rs_state (slot c' r) = StateAborting"
  shows "store_inv c'"
proof -
  have same: "length (c_heap c') = length (c_heap c)" "c_slots c' = c_slots c"
    "\<And>q. q \<noteq> r \<Longrightarrow> slot c' q = slot c q" using os by (auto simp: one_slot_def)
  have dead: "\<And>q. q < length (c_heap c) \<Longrightarrow> q \<noteq> r \<Longrightarrow> \<not> live (rs_state (slot c q))"
    using live_unique [OF st _ r _ lv] by blast
  have "\<forall>q < length (c_heap c). slot_inv (Suc (c_epoch c)) (slot c' q)"
    using st sl same(3) dead by (metis store_slot slot_inv_Suc)
  moreover have "\<forall>q < length (c_heap c). \<not> live (rs_state (slot c' q))"
    using ab same(3) dead by (metis live_simps(6))
  moreover have "\<forall>q \<in> set (c_slots c). rs_state (slot c' q) \<in> {StateFinished, StateAcknowledged} \<longrightarrow>
      rs_snapshot (slot c' q) \<noteq> None"
  proof (intro ballI impI)
    fix q
    assume "q \<in> set (c_slots c)" "rs_state (slot c' q) \<in> {StateFinished, StateAcknowledged}"
    moreover have "q \<noteq> r" using calculation(2) ab by auto
    ultimately show "rs_snapshot (slot c' q) \<noteq> None"
      using store_snapshot [OF st, of q] same(3) [of q] by simp
  qed
  ultimately show ?thesis
    using st unfolding store_inv_def same(1,2) ep one_slot_maps [OF os] by blast
qed

subsection \<open>Goroutines that look on\<close>

text \<open>The live runs of the new state were live before, and a finished one stayed finished.\<close>

definition live_shrinks :: "Controller \<Rightarrow> Controller \<Rightarrow> bool" where
  "live_shrinks c c' \<longleftrightarrow>
     (\<forall>q < length (c_heap c). live (rs_state (slot c' q)) \<longrightarrow>
        live (rs_state (slot c q)) \<and>
        (rs_state (slot c q) = StateFinished \<longrightarrow> rs_state (slot c' q) = StateFinished))"

lemma live_shrinks_one_slot:
  "one_slot c c' r \<Longrightarrow>
   (live (rs_state (slot c' r)) \<Longrightarrow> live (rs_state (slot c r)) \<and>
      (rs_state (slot c r) = StateFinished \<longrightarrow> rs_state (slot c' r) = StateFinished)) \<Longrightarrow>
   live_shrinks c c'"
  unfolding live_shrinks_def one_slot_def by metis

text \<open>A goroutine keeps its invariant when another one changes slot \<open>r\<close>, unless it joins
  that slot or drives it under the current epoch; after a fence a driver has nothing left to claim.\<close>

lemma task_frame:
  assumes t: "task_inv c t" and st: "store_inv c" and os: "one_slot c c' r"
    and ls: "live_shrinks c c'"
    and ep: "c_epoch c' = c_epoch c \<and> (driver r t \<longrightarrow> rs_epoch (slot c r) \<noteq> c_epoch c)
        \<or> c_epoch c' = Suc (c_epoch c)"
    and nj: "\<not> joiner r t"
  shows "task_inv c' t"
proof -
  note f = one_slot_fields [OF os]
  have len: "length (c_heap c') = length (c_heap c)" using os by (simp add: one_slot_def)
  have eq: "\<And>q. q \<noteq> r \<Longrightarrow> slot c' q = slot c q" using os by (simp add: one_slot_def)
  have le: "\<And>q. q < length (c_heap c) \<Longrightarrow> rs_epoch (slot c q) \<le> c_epoch c"
    using st store_slot by (simp add: slot_inv_def)
  have nl: "no_live c \<Longrightarrow> no_live c'" using ls by (auto simp: no_live_def live_shrinks_def len)
  show ?thesis
  proof (cases t)
    case (TAck target opt runID nonce)
    then show ?thesis using t ls f by (simp add: len live_shrinks_def)
  next
    case (TAbort target reason k)
    then show ?thesis using t ls f by (simp add: len live_shrinks_def)
  next
    case (TAlloc opt runID nonce p)
    then show ?thesis using t nl by simp
  next
    case (TJoin q runID ep' reason partial k)
    then show ?thesis using t nj nl f eq [of q] by (auto simp: len)
  next
    case (TOpen q ep' runID nonce p)
    then show ?thesis using t ep f eq [of q] le [of q] by (cases "q = r") (auto simp: len)
  next
    case (TOpened q ep' nonce so)
    then show ?thesis using t ep f eq [of q] le [of q] by (cases "q = r") (auto simp: len)
  next
    case (TFreeze q ep')
    then show ?thesis using t ep f eq [of q] le [of q] by (cases "q = r") (auto simp: len)
  next
    case (TFrozen q ep' fo)
    then show ?thesis using t ep f eq [of q] le [of q] by (cases "q = r") (auto simp: len)
  next
    case (TFinish q ep' w)
    then show ?thesis using t ep f eq [of q] le [of q] by (cases "q = r") (auto simp: len)
  next
    case (TBuilt q ep' snap)
    then show ?thesis using t ep f eq [of q] le [of q] by (cases "q = r") (auto simp: len)
  next
    case (TPublished q ep' v)
    then show ?thesis using t ep f eq [of q] le [of q] by (cases "q = r") (auto simp: len)
  qed (use t f in \<open>auto simp: len\<close>)
qed

text \<open>Bookkeeping that touches neither state, acceptance nor snapshot disturbs nobody.\<close>

definition quiet :: "runSlot \<Rightarrow> runSlot \<Rightarrow> bool" where
  "quiet s s' \<longleftrightarrow>
     rs_state s' = rs_state s \<and> rs_finishSet s' = rs_finishSet s \<and> rs_snapshot s' = rs_snapshot s
     \<and> rs_validity s' = rs_validity s \<and> rs_sealed s' = rs_sealed s
     \<and> (noHandles s \<longrightarrow> noHandles s')"

lemma task_quiet:
  assumes "task_inv c t" and os: "one_slot c c' r" and q: "quiet (slot c r) (slot c' r)"
    and "c_epoch c' = c_epoch c"
  shows "task_inv c' t"
proof -
  note f = one_slot_fields [OF os]
  have len: "length (c_heap c') = length (c_heap c)" using os by (simp add: one_slot_def)
  have "\<And>p. rs_state (slot c' p) = rs_state (slot c p) \<and>
      rs_finishSet (slot c' p) = rs_finishSet (slot c p) \<and>
      rs_snapshot (slot c' p) = rs_snapshot (slot c p)"
    using os q unfolding one_slot_def quiet_def by metis
  then show ?thesis using assms(1,4) f len by (cases t) (simp_all add: no_live_def)
qed

lemma store_quiet:
  assumes st: "store_inv c" and os: "one_slot c c' r" and r: "r < length (c_heap c)"
    and q: "quiet (slot c r) (slot c' r)" and ep: "c_epoch c' = c_epoch c"
    and dn: "rs_done (slot c' r) \<longleftrightarrow> rs_sealed (slot c' r) \<and> rs_owners (slot c' r) \<le> 0"
  shows "store_inv c'"
proof (rule store_one_slot [OF st os r ep])
  show "slot_inv (c_epoch c) (slot c' r)"
    using store_slot [OF st r] q dn one_slot_fields [OF os] by (simp add: slot_inv_def quiet_def)
qed (use q st in \<open>auto simp: quiet_def store_inv_def\<close>)

subsection \<open>Counting goroutines\<close>

lemma pool_same_core:
  assumes "pool_inv c P m" and "same_core c c'"
  shows "pool_inv c' P m"
  using assms same_core_slot [OF assms(2)] by (simp add: pool_inv_def) (simp add: same_core_def)

lemma task_same_core:
  assumes "task_inv c t" and "same_core c c'"
  shows "task_inv c' t"
proof -
  have "length (c_heap c') = length (c_heap c)" "c_epoch c' = c_epoch c"
    using assms(2) by (simp_all add: same_core_def)
  then show ?thesis using assms(1) same_core_slot [OF assms(2)]
    by (cases t) (simp_all add: no_live_def)
qed

lemma store_same_core: "store_inv c \<Longrightarrow> same_core c c' \<Longrightarrow> store_inv c'"
  using same_core_slot [of c c'] by (simp add: store_inv_def) (simp add: same_core_def)

lemma Inv_same_core: "Inv c P m \<Longrightarrow> same_core c c' \<Longrightarrow> Inv c' P m"
  unfolding Inv_def using store_same_core task_same_core pool_same_core by blast

lemma owner_count_pos:
  "pool_inv c (add_mset t P) m \<Longrightarrow> owner r t \<Longrightarrow> r < length (c_heap c) \<Longrightarrow> 0 < rs_owners (slot c r)"
  by (simp add: pool_inv_def)

lemma pool_counts:
  assumes "pool_inv c P m"
  shows "size (filter_mset (driver r) P) \<le> 1" and "size (filter_mset (joiner r) P) \<le> 1"
    and "size (filter_mset starter P) = (if m then 1 else 0)"
    and "r < length (c_heap c) \<Longrightarrow> rs_owners (slot c r) = int (size (filter_mset (owner r) P))"
  using assms unfolding pool_inv_def by blast+

lemma pool_invI:
  "(\<And>r. size (filter_mset (driver r) P) \<le> 1) \<Longrightarrow> (\<And>r. size (filter_mset (joiner r) P) \<le> 1) \<Longrightarrow>
   size (filter_mset starter P) = (if m then 1 else 0) \<Longrightarrow>
   (\<And>r. r < length (c_heap c) \<Longrightarrow> rs_owners (slot c r) = int (size (filter_mset (owner r) P))) \<Longrightarrow>
   pool_inv c P m"
  unfolding pool_inv_def by blast

lemma filter_le_one:
  assumes "size (filter_mset p (add_mset t P)) \<le> 1" and "p t" and "t' \<in># P"
  shows "\<not> p t'"
proof -
  have "filter_mset p P = {#}" using assms(1,2) by simp
  then show ?thesis using assms(3) by (simp add: filter_mset_eq_mempty_iff)
qed

lemma no_other_driver:
  "pool_inv c (add_mset t P) m \<Longrightarrow> driver r t \<Longrightarrow> t' \<in># P \<Longrightarrow> \<not> driver r t'"
  by (rule filter_le_one [of "driver r" t P]) (simp_all only: pool_inv_def)

lemma no_other_joiner:
  "pool_inv c (add_mset t P) m \<Longrightarrow> joiner r t \<Longrightarrow> t' \<in># P \<Longrightarrow> \<not> joiner r t'"
  by (rule filter_le_one [of "joiner r" t P]) (simp_all only: pool_inv_def)

lemma driver_stale:
  "task_inv c t \<Longrightarrow> driver r t \<Longrightarrow> rs_state (slot c r) \<notin> {StateStarting, StateFinishing} \<Longrightarrow>
   rs_epoch (slot c r) \<noteq> c_epoch c"
  by (cases t) auto

lemma joiner_aborting: "task_inv c t \<Longrightarrow> joiner r t \<Longrightarrow> rs_state (slot c r) = StateAborting"
  by (cases t) auto

subsection \<open>Replacing goroutines\<close>

text \<open>The new goroutines \<open>T\<close> take the place of \<open>t\<close>.\<close>

lemma size_filter_split:
  "size (filter_mset p (add_mset t P)) = (if p t then 1 else 0) + size (filter_mset p P)"
  "size (filter_mset p (T + P)) = size (filter_mset p T) + size (filter_mset p P)"
  by simp_all

lemma pool_swap:
  assumes "pool_inv c (add_mset t P) m"
    and "length (c_heap c') = length (c_heap c)"
    and "\<And>q. size (filter_mset (driver q) T) \<le> (if driver q t then 1 else 0)"
    and "\<And>q. size (filter_mset (joiner q) T) \<le> (if joiner q t then 1 else 0)"
    and "size (filter_mset starter T) + (if m then 1 else 0) = (if starter t then 1 else 0) + (if m' then 1 else (0::nat))"
    and "\<And>q. q < length (c_heap c) \<Longrightarrow>
        rs_owners (slot c' q) + (if owner q t then 1 else 0) =
        rs_owners (slot c q) + int (size (filter_mset (owner q) T))"
  shows "pool_inv c' (T + P) m'"
proof (rule pool_invI, unfold size_filter_split)
  fix q
  show "size (filter_mset (driver q) T) + size (filter_mset (driver q) P) \<le> 1"
    using pool_counts(1) [OF assms(1), of q] assms(3) [of q] unfolding size_filter_split by linarith
  show "size (filter_mset (joiner q) T) + size (filter_mset (joiner q) P) \<le> 1"
    using pool_counts(2) [OF assms(1), of q] assms(4) [of q] unfolding size_filter_split by linarith
next
  show "size (filter_mset starter T) + size (filter_mset starter P) = (if m' then 1 else 0)"
    using pool_counts(3) [OF assms(1)] assms(5) unfolding size_filter_split by linarith
next
  fix q assume "q < length (c_heap c')"
  then show "rs_owners (slot c' q) =
      int (size (filter_mset (owner q) T) + size (filter_mset (owner q) P))"
    using pool_counts(4) [OF assms(1), of q] assms(2) assms(6) [of q] unfolding size_filter_split
    by (cases "owner q t") simp_all
qed

lemma Inv_relabel:
  assumes inv: "Inv c (add_mset t P) m" and core: "same_core c c'" and t': "task_inv c t'"
    and "\<And>q. driver q t' \<Longrightarrow> driver q t" "\<And>q. joiner q t' \<Longrightarrow> joiner q t"
    and "starter t' = starter t" "\<And>q. owner q t' = owner q t"
  shows "Inv c' (add_mset t' P) m"
proof (rule Inv_same_core [OF _ core], rule InvI)
  have "pool_inv c ({#t'#} + P) m"
    by (rule pool_swap [OF Inv_pool [OF inv]]) (use assms(4-7) in auto)
  then show "pool_inv c (add_mset t' P) m" by simp
qed (use inv t' in \<open>auto simp: Inv_def\<close>)

lemma Inv_quiet:
  assumes inv: "Inv c (add_mset t P) m" and os: "one_slot c c' r" and r: "r < length (c_heap c)"
    and q: "quiet (slot c r) (slot c' r)" and ep: "c_epoch c' = c_epoch c"
    and dn: "rs_done (slot c' r) \<longleftrightarrow> rs_sealed (slot c' r) \<and> rs_owners (slot c' r) \<le> 0"
    and T: "\<And>u. u \<in># T \<Longrightarrow> task_inv c u" and pl: "pool_inv c' (T + P) m'"
  shows "Inv c' (T + P) m'"
proof (rule InvI)
  show "store_inv c'" by (rule store_quiet [OF Inv_store [OF inv] os r q ep dn])
next
  fix u assume "u \<in># T + P"
  then have "task_inv c u" using T Inv_tasks [OF inv] by auto
  then show "task_inv c' u" by (rule task_quiet [OF _ os q ep])
qed (rule pl)

text \<open>Slot \<open>r\<close> changes its state; \<open>t\<close> drives or joins it, or nobody does.\<close>

lemma Inv_change:
  assumes inv: "Inv c (add_mset t P) m" and st: "store_inv c'" and os: "one_slot c c' r"
    and ls: "live_shrinks c c'"
    and ep: "c_epoch c' = c_epoch c \<and> (driver r t \<or> rs_state (slot c r) \<notin> {StateStarting, StateFinishing})
        \<or> c_epoch c' = Suc (c_epoch c)"
    and nj: "joiner r t \<or> rs_state (slot c r) \<noteq> StateAborting"
    and T: "\<And>u. u \<in># T \<Longrightarrow> task_inv c' u" and pl: "pool_inv c' (T + P) m'"
  shows "Inv c' (T + P) m'"
proof (rule InvI [OF st _ pl])
  fix u assume "u \<in># T + P"
  then consider "u \<in># T" | "u \<in># P" by auto
  then show "task_inv c' u"
  proof cases
    case 2
    note u = Inv_tasks [OF inv "2"]
    have "\<not> joiner r u"
      using nj joiner_aborting [OF u] no_other_joiner [OF Inv_pool [OF inv] _ "2"] by blast
    moreover have "driver r t \<Longrightarrow> \<not> driver r u"
      using no_other_driver [OF Inv_pool [OF inv] _ "2"] by blast
    ultimately show ?thesis
      using task_frame [OF u Inv_store [OF inv] os ls] ep driver_stale [OF u] by blast
  qed (rule T)
qed

end
