(* ===== verification/Run_Preservation.thy ===== *)
theory Run_Preservation
  imports Run_Invariants
begin

text \<open>
  Every step of the controller keeps its invariant: one lemma per rule of the step relation, and
  their sum over the reachable states.
\<close>

subsection \<open>Updates of one slot\<close>

lemma notify_fields [simp]:
  "c_epoch (notifyLocked c r) = c_epoch c" "c_slots (notifyLocked c r) = c_slots c"
  "length (c_heap (notifyLocked c r)) = length (c_heap c)"
  "c_budgets (notifyLocked c r) = c_budgets c"
  by (simp_all add: notifyLocked_def)

lemma slot_notify [slot_simps]:
  "r < length (c_heap c) \<Longrightarrow>
   slot (notifyLocked c r) q =
     (if q = r then (slot c r)\<lparr>rs_changed := Suc (rs_changed (slot c r))\<rparr> else slot c q)"
  by (simp add: notifyLocked_def slot_upd)

lemma slot_epoch_update [slot_simps]: "slot (c\<lparr>c_epoch := e\<rparr>) q = slot c q"
  by (simp add: slot_def)

lemma slot_stale_update [slot_simps]: "slot (c\<lparr>c_stale := n\<rparr>) q = slot c q"
  by (simp add: slot_def)

lemma slot_published_update [slot_simps]: "slot (c\<lparr>c_published := n\<rparr>) q = slot c q"
  by (simp add: slot_def)

lemma slot_observe [slot_simps]: "slot (observeTermination c e) q = slot c q"
  by (simp add: slot_def observeTermination_def)

lemma observe_fields [simp]:
  "c_epoch (observeTermination c e) = c_epoch c" "c_slots (observeTermination c e) = c_slots c"
  "c_heap (observeTermination c e) = c_heap c"
  by (simp_all add: observeTermination_def)

lemma same_core_stale [simp]: "same_core c (c\<lparr>c_stale := n\<rparr>)"
  by (simp add: same_core_def)

lemma same_core_releaseAll [simp]: "same_core c (releaseAll rg rb w c)"
  unfolding releaseAll_def by (meson same_core_trans same_core_releaseGeneration same_core_releaseBaseline)

lemma releaseGeneration_core: "same_core c c' \<Longrightarrow> same_core c (releaseGeneration rel hs c')"
  by (meson same_core_trans same_core_releaseGeneration)

lemma releaseBaseline_core: "same_core c c' \<Longrightarrow> same_core c (releaseBaseline rel hs c')"
  by (meson same_core_trans same_core_releaseBaseline)

lemma releaseAll_core: "same_core c c' \<Longrightarrow> same_core c (releaseAll rg rb w c')"
  by (meson same_core_trans same_core_releaseAll)

lemma observe_core: "same_core c c' \<Longrightarrow> same_core c (observeTermination c' e)"
  by (meson same_core_trans same_core_observe)

lemma recordHealth_core: "same_core c c' \<Longrightarrow> same_core c (recordHealth c' l)"
  by (meson same_core_trans same_core_recordHealth)

lemmas core_intros =
  releaseGeneration_core releaseBaseline_core releaseAll_core observe_core recordHealth_core

lemma commit_core: "commit c ep f = (Some e, c') \<Longrightarrow> same_core c c'"
  by (simp add: commit_Some)

lemma publish_core: "publish c ep s = (Some e, c') \<Longrightarrow> same_core c c'"
  by (simp add: publish_Some)

subsection \<open>The opening boundary's verdict\<close>

lemma openBoundary_ok: "outcome_ok (openBoundary c genv benv runID nonce ep p at)"
  unfolding openBoundary_def outcome_ok_def Let_def
  by (auto simp: case_prod_unfold runGenerationPhase_not_Zero worse_not_Zero)

subsection \<open>Steps that leave the store alone\<close>

lemma Inv_open_boundary:
  assumes "Inv c (add_mset (TOpen r ep runID nonce p) P) m"
  shows "Inv (recordHealth c l)
    (add_mset (TOpened r ep nonce (openBoundary c genv benv runID nonce ep p at)) P) m"
  by (rule Inv_relabel [OF assms]) (use Inv_task [OF assms] openBoundary_ok in auto)

lemma Inv_open_fenced:
  assumes "Inv c (add_mset (TOpened r ep nonce so) P) m"
    and "beginCommit c ep so now nonceNow nonce = (Some e, c')"
  shows "Inv (releaseBaseline relB (so_base so) (releaseGeneration relG (so_gen so) c'))
    (add_mset (TStarted r) P) m"
  by (rule Inv_relabel [OF assms(1)])
    (use Inv_task [OF assms(1)] commit_core [OF assms(2) [unfolded beginCommit_def]]
      in \<open>auto intro: core_intros\<close>)

lemma Inv_freeze_boundary:
  assumes "Inv c (add_mset (TFreeze r ep) P) m"
  shows "Inv (recordHealth c l) (add_mset (TFrozen r ep fo) P) m"
  by (rule Inv_relabel [OF assms(1)]) (use Inv_task [OF assms(1)] in auto)

lemma Inv_freeze_fenced:
  assumes "Inv c (add_mset (TFrozen r ep fo) P) m" and "freezeCommit c ep fo now = (Some e, c')"
  shows "Inv (releaseBaseline relB (fo_base fo) (releaseGeneration relG (fo_gen fo) c'))
    (add_mset (TRetire r) P) m"
  by (rule Inv_relabel [OF assms(1)])
    (use Inv_task [OF assms(1)] commit_core [OF assms(2) [unfolded freezeCommit_def]]
      in \<open>auto intro: core_intros\<close>)

lemma Inv_finish_build:
  assumes "Inv c (add_mset (TFinish r ep w) P) m"
  shows "Inv (releaseAll relG relB w (recordHealth c hl)) (add_mset (TBuilt r ep snap) P) m"
  by (rule Inv_relabel [OF assms(1)])
    (use Inv_task [OF assms(1)] in \<open>auto intro: core_intros\<close>)

lemma Inv_publish_fenced:
  assumes "Inv c (add_mset (TBuilt r ep snap) P) m" and "publish c ep snap = (Some e, c')"
  shows "Inv c' (add_mset (TRetire r) P) m"
  by (rule Inv_relabel [OF assms(1) publish_core [OF assms(2)]])
    (use Inv_task [OF assms(1)] in auto)

subsection \<open>Goroutines that end\<close>

lemma noHandles_update [simp]:
  "noHandles (s\<lparr>rs_changed := n\<rparr>) = noHandles s" "noHandles (s\<lparr>rs_cancelled := b\<rparr>) = noHandles s"
  "noHandles (s\<lparr>rs_snapshot := x\<rparr>) = noHandles s" "noHandles (s\<lparr>rs_state := st\<rparr>) = noHandles s"
  "noHandles (s\<lparr>rs_ackedBy := a\<rparr>) = noHandles s" "noHandles (s\<lparr>rs_since := i\<rparr>) = noHandles s"
  by (simp_all add: noHandles_def)

lemma seal_handles:
  "rs_gen (sealLocked s) = rs_gen s" "rs_genFinal (sealLocked s) = rs_genFinal s"
  "rs_base (sealLocked s) = rs_base s" "rs_baseF (sealLocked s) = rs_baseF s"
  by (simp_all add: sealLocked_def closeDoneLocked_def Let_def)

lemma one_slot_notify: "r < length (c_heap c) \<Longrightarrow> one_slot c (notifyLocked c r) r"
  by (simp add: one_slot_def slot_notify)

lemma one_slot_notify_upd:
  "r < length (c_heap c) \<Longrightarrow> rs_epoch (f (slot c r)) = rs_epoch (slot c r) \<Longrightarrow>
   rs_runID (f (slot c r)) = rs_runID (slot c r) \<Longrightarrow> one_slot c (notifyLocked (upd c r f) r) r"
  by (rule one_slot_trans [OF one_slot_upd [of r c f] one_slot_notify]) simp_all

lemma slot_done_iff:
  "store_inv c \<Longrightarrow> r < length (c_heap c) \<Longrightarrow>
   rs_done (slot c r) \<longleftrightarrow> rs_sealed (slot c r) \<and> rs_owners (slot c r) \<le> 0"
  using store_slot [of c r] by (simp add: slot_inv_def)

lemma quiet_retireOwner: "quiet s (retireOwner s)"
  by (simp add: quiet_def noHandles_def retireOwner_def closeDoneLocked_def Let_def)

lemma retireOwner_fields [simp]:
  "rs_epoch (retireOwner s) = rs_epoch s" "rs_runID (retireOwner s) = rs_runID s"
  "rs_owners (retireOwner s) = rs_owners s - 1" "rs_sealed (retireOwner s) = rs_sealed s"
  by (simp_all add: retireOwner_def closeDoneLocked_def Let_def)

lemma Inv_end_owner:
  assumes inv: "Inv c (add_mset t P) m" and ow: "owner r t" and only: "\<And>q. owner q t \<Longrightarrow> q = r"
    and r: "r < length (c_heap c)" and m': "m' = (m \<and> \<not> starter t)"
  shows "Inv (endOwner c r) P m'"
proof -
  have os: "one_slot c (endOwner c r) r" unfolding endOwner_def by (rule one_slot_upd [OF r]) simp_all
  have at: "slot (endOwner c r) r = retireOwner (slot c r)"
    using r by (simp add: endOwner_def slot_upd)
  have pos: "0 < rs_owners (slot c r)" by (rule owner_count_pos [OF Inv_pool [OF inv] ow r])
  have pl: "pool_inv (endOwner c r) ({#} + P) m'"
  proof (rule pool_swap [OF Inv_pool [OF inv]])
    show "size (filter_mset starter {#}) + (if m then 1 else 0) =
        (if starter t then 1 else 0) + (if m' then 1 else 0)"
      using pool_counts(3) [OF Inv_pool [OF inv]] m' unfolding size_filter_split
      by (cases m; cases "starter t") simp_all
  next
    fix q
    have "owner q t \<longleftrightarrow> q = r" using ow only by blast
    then show "rs_owners (slot (endOwner c r) q) + (if owner q t then 1 else 0) =
        rs_owners (slot c q) + int (size (filter_mset (owner q) {#}))"
      using r by (simp add: endOwner_def slot_upd)
  qed (simp_all add: endOwner_def)
  have "Inv (endOwner c r) ({#} + P) m'"
  proof (rule Inv_quiet [OF inv os r _ _ _ _ pl])
    show "rs_done (slot (endOwner c r) r) \<longleftrightarrow>
        rs_sealed (slot (endOwner c r) r) \<and> rs_owners (slot (endOwner c r) r) \<le> 0"
      using slot_done_iff [OF Inv_store [OF inv] r] pos unfolding at
      by (auto simp: retireOwner_def closeDoneLocked_def Let_def)
  qed (use at quiet_retireOwner r in \<open>simp_all add: endOwner_def slot_upd\<close>)
  then show ?thesis by simp
qed

lemma Inv_retire:
  assumes "Inv c (add_mset (TRetire r) P) m"
  shows "Inv (endOwner c r) P m"
  by (rule Inv_end_owner [OF assms]) (use Inv_task [OF assms] in auto)

lemma Inv_start_return:
  assumes "Inv c (add_mset (TStarted r) P) m"
  shows "Inv (endOwner c r) P False"
  by (rule Inv_end_owner [OF assms]) (use Inv_task [OF assms] in auto)

subsection \<open>Fenced commits\<close>

lemma commit_cases:
  assumes "store_inv c" "r < length (c_heap c)" "rs_epoch (slot c r) = ep"
    and "commit c ep f = (res, c')"
  obtains (rejected) "res = Some ErrStaleEpoch" "same_core c c'"
  | (committed) "res = None" "ep = c_epoch c" "r \<in> set (c_slots c)" "c' = notifyLocked (f r c) r"
proof (cases "fencedSlotLocked c ep")
  case None
  then show thesis using assms(4) by (intro rejected) (auto simp: commit_def same_core_def)
next
  case (Some q)
  then have "q = r \<and> ep = c_epoch c \<and> r \<in> set (c_slots c)" by (rule fenced_is [OF assms(1-3)])
  then show thesis using Some assms(4) by (intro committed) (auto simp: commit_def)
qed

text \<open>A commit that only drops the slot's handles.\<close>

lemma Inv_quiet_commit:
  assumes inv: "Inv c (add_mset t P) m" and r: "r < length (c_heap c)"
    and ep: "rs_epoch (slot c r) = ep"
    and cm: "commit c ep (\<lambda>r c. upd c r f) = (res, c')"
    and f: "\<And>s. quiet s (f s) \<and> rs_epoch (f s) = rs_epoch s \<and> rs_runID (f s) = rs_runID s
        \<and> rs_done (f s) = rs_done s \<and> rs_owners (f s) = rs_owners s"
  shows "Inv c' (add_mset t P) m"
  using Inv_store [OF inv] r ep cm
proof (cases rule: commit_cases)
  case rejected
  then show ?thesis using Inv_same_core inv by blast
next
  case committed
  have os: "one_slot c c' r" unfolding committed(4) by (rule one_slot_notify_upd [OF r]) (simp_all add: f)
  have at: "slot c' r = (f (slot c r))\<lparr>rs_changed := Suc (rs_changed (f (slot c r)))\<rparr>"
    unfolding committed(4) using r by (simp add: slot_simps)
  have ep': "c_epoch c' = c_epoch c" by (simp add: committed(4))
  have "pool_inv c' ({#t#} + P) m"
    by (rule pool_swap [OF Inv_pool [OF inv]])
      (use r f in \<open>auto simp: committed(4) slot_simps\<close>)
  then have "Inv c' ({#t#} + P) m"
    by (rule Inv_quiet [OF inv os r, rotated -1])
      (use f [of "slot c r"] Inv_task [OF inv] slot_done_iff [OF Inv_store [OF inv] r]
        in \<open>simp_all add: at quiet_def ep'\<close>)
  then show ?thesis by simp
qed

lemma Inv_drain_commit:
  assumes "Inv c (add_mset (TDrain r ep gen) P) m"
    and "startDrainCommit (drainAndRelease drain relG gen c) ep = (res, c')"
  shows "Inv c' (add_mset (TRetire r) P) m"
proof -
  have inv: "Inv (drainAndRelease drain relG gen c) (add_mset (TDrain r ep gen) P) m"
    by (rule Inv_same_core [OF assms(1)]) simp
  have "Inv c' (add_mset (TDrain r ep gen) P) m"
    by (rule Inv_quiet_commit [OF inv _ _ assms(2) [unfolded startDrainCommit_def]])
      (use Inv_task [OF inv] in \<open>auto simp: quiet_def noHandles_def\<close>)
  with Inv_task [OF this] show ?thesis
    by (intro Inv_relabel [OF _ same_core_refl, where t' = "TRetire r"]) auto
qed

lemma Inv_cancel:
  assumes inv: "Inv c (add_mset t P) m" and r: "r < length (c_heap c)"
  shows "Inv (upd c r (\<lambda>s. s\<lparr>rs_cancelled := True\<rparr>)) (add_mset t P) m"
proof -
  let ?c = "upd c r (\<lambda>s. s\<lparr>rs_cancelled := True\<rparr>)"
  have os: "one_slot c ?c r" by (rule one_slot_upd [OF r]) simp_all
  have "pool_inv ?c ({#t#} + P) m"
    by (rule pool_swap [OF Inv_pool [OF inv]]) (use r in \<open>auto simp: slot_simps\<close>)
  then have "Inv ?c ({#t#} + P) m"
    by (rule Inv_quiet [OF inv os r, rotated -1])
      (use Inv_task [OF inv] slot_done_iff [OF Inv_store [OF inv] r] r
        in \<open>simp_all add: slot_simps quiet_def\<close>)
  then show ?thesis by simp
qed

lemma Inv_discard_commit:
  assumes "Inv c (add_mset (TDiscard r ep gen base) P) m"
    and "discardCommit (releaseBaseline relB base (drainAndRelease drain relG gen c)) ep = (res, c')"
  shows "Inv (upd c' r (\<lambda>s. s\<lparr>rs_cancelled := True\<rparr>)) (add_mset (TRetire r) P) m"
proof -
  let ?c = "releaseBaseline relB base (drainAndRelease drain relG gen c)"
  have inv: "Inv ?c (add_mset (TDiscard r ep gen base) P) m"
    by (rule Inv_same_core [OF assms(1)]) (simp add: releaseBaseline_core)
  have "Inv c' (add_mset (TDiscard r ep gen base) P) m"
    by (rule Inv_quiet_commit [OF inv _ _ assms(2) [unfolded discardCommit_def]])
      (use Inv_task [OF inv] in \<open>auto simp: quiet_def noHandles_def\<close>)
  then have "Inv (upd c' r (\<lambda>s. s\<lparr>rs_cancelled := True\<rparr>)) (add_mset (TDiscard r ep gen base) P) m"
    using Inv_task [of c' "TDiscard r ep gen base"] by (intro Inv_cancel) auto
  with Inv_task [OF this] show ?thesis
    by (intro Inv_relabel [OF _ same_core_refl, where t' = "TRetire r"]) auto
qed

subsection \<open>Commits that move the run on\<close>

text \<open>The slot of a committed step, and what is left to show about it.\<close>

lemma Inv_commit_change:
  assumes inv: "Inv c (add_mset t P) m" and r: "r < length (c_heap c)" and dr: "driver r t"
    and c': "c' = notifyLocked (upd c r f) r"
    and lv: "live (rs_state (slot c r))" and fin: "rs_state (slot c r) \<noteq> StateFinished"
    and keep: "rs_epoch (f (slot c r)) = rs_epoch (slot c r)" "rs_runID (f (slot c r)) = rs_runID (slot c r)"
    and sl: "slot_inv (c_epoch c) (f (slot c r))"
    and sn: "rs_state (f (slot c r)) \<in> {StateFinished, StateAcknowledged} \<Longrightarrow>
        rs_snapshot (f (slot c r)) \<noteq> None"
    and T: "\<And>u. u \<in># T \<Longrightarrow> task_inv c' u" and pl: "pool_inv c' (T + P) m'"
  shows "Inv c' (T + P) m'"
proof -
  have os: "one_slot c c' r" unfolding c' using r keep by (rule one_slot_notify_upd)
  have at: "slot c' r = (f (slot c r))\<lparr>rs_changed := Suc (rs_changed (f (slot c r)))\<rparr>"
    unfolding c' using r by (simp add: slot_simps)
  have ep: "c_epoch c' = c_epoch c" by (simp add: c')
  have st: "store_inv c'"
    by (rule store_one_slot [OF Inv_store [OF inv] os r ep])
      (use sl sn lv in \<open>simp_all add: at slot_inv_def\<close>)
  have ls: "live_shrinks c c'" by (rule live_shrinks_one_slot [OF os]) (use lv fin in simp)
  show ?thesis
    by (rule Inv_change [OF inv st os ls _ _ T pl]) (use ep dr lv in \<open>auto simp: live_def\<close>)
qed

lemma sealLocked_simps [simp]:
  "rs_state (sealLocked s) = rs_state s" "rs_sealed (sealLocked s)" "rs_epoch (sealLocked s) = rs_epoch s"
  "rs_runID (sealLocked s) = rs_runID s" "rs_owners (sealLocked s) = rs_owners s"
  "rs_snapshot (sealLocked s) = rs_snapshot s" "rs_finishSet (sealLocked s) = rs_finishSet s"
  "rs_validity (sealLocked s) = rs_validity s"
  "rs_done (sealLocked s) \<longleftrightarrow> rs_done s \<or> rs_owners s \<le> 0"
  by (simp_all add: sealLocked_def closeDoneLocked_def Let_def)

lemma beginOwner_simps [simp]:
  "rs_state (beginOwnerLocked s) = rs_state s" "rs_sealed (beginOwnerLocked s) = rs_sealed s"
  "rs_epoch (beginOwnerLocked s) = rs_epoch s" "rs_runID (beginOwnerLocked s) = rs_runID s"
  "rs_owners (beginOwnerLocked s) = rs_owners s + 1"
  "rs_snapshot (beginOwnerLocked s) = rs_snapshot s"
  "rs_finishSet (beginOwnerLocked s) = rs_finishSet s"
  "rs_validity (beginOwnerLocked s) = rs_validity s" "rs_done (beginOwnerLocked s) = rs_done s"
  by (simp_all add: beginOwnerLocked_def)

lemma Inv_freeze_commit:
  assumes inv: "Inv c (add_mset (TFrozen r ep fo) P) m" and cm: "freezeCommit c ep fo now = (None, c')"
  shows "Inv (finishObserve r ep fo c') (add_mset (TFinish r ep w) (add_mset (TRetire r) P)) m"
proof -
  have r: "r < length (c_heap c)" and ep: "rs_epoch (slot c r) = ep" using Inv_task [OF inv] by simp_all
  have c': "c' = notifyLocked (upd c r (freezeSlot fo (c_budgets c) now)) r" and cur: "ep = c_epoch c"
    using commit_cases [OF Inv_store [OF inv] r ep cm [unfolded freezeCommit_def]] by auto
  have s: "rs_state (slot c r) = StateFinishing" "\<not> rs_finishSet (slot c r)" "rs_snapshot (slot c r) = None"
    using Inv_task [OF inv] cur by simp_all
  have ow: "0 < rs_owners (slot c r)" using owner_count_pos [OF Inv_pool [OF inv] _ r] by simp
  let ?T = "{#TFinish r ep w, TRetire r#}"
  have "pool_inv c' (?T + P) m"
    by (rule pool_swap [OF Inv_pool [OF inv]])
      (use r in \<open>auto simp: c' slot_simps freezeSlot_def\<close>)
  then have "Inv c' (?T + P) m"
    by (rule Inv_commit_change [OF inv r _ c', rotated -1])
      (use s r ep cur ow store_slot [OF Inv_store [OF inv] r]
        in \<open>auto simp: c' slot_simps freezeSlot_def slot_inv_def\<close>)
  then show ?thesis
    by (auto simp: finishObserve_def intro: Inv_same_core)
qed

lemma Inv_finish_publish:
  assumes inv: "Inv c (add_mset (TBuilt r ep snap) P) m" and cm: "publish c ep snap = (None, c')"
  shows "Inv c' (add_mset (TPublished r ep v) P) m"
proof -
  have r: "r < length (c_heap c)" and ep: "rs_epoch (slot c r) = ep" using Inv_task [OF inv] by simp_all
  obtain q where q: "fencedSlotLocked c ep = Some q"
    "c' = (upd c q (\<lambda>s. s\<lparr>rs_snapshot := Some snap\<rparr>))\<lparr>c_published := Suc (c_published c)\<rparr>"
    using cm by (auto simp: publish_None)
  have "q = r" and cur: "ep = c_epoch c" using fenced_is [OF Inv_store [OF inv] r ep q(1)] by simp_all
  then have c': "c' = (upd c r (\<lambda>s. s\<lparr>rs_snapshot := Some snap\<rparr>))\<lparr>c_published := Suc (c_published c)\<rparr>"
    using q(2) by simp
  have s: "rs_state (slot c r) = StateFinishing" "rs_finishSet (slot c r)"
    using Inv_task [OF inv] cur by simp_all
  have os: "one_slot c c' r" using r by (simp add: c' one_slot_def slot_simps)
  have at: "slot c' r = (slot c r)\<lparr>rs_snapshot := Some snap\<rparr>" "c_epoch c' = c_epoch c"
    using r by (simp_all add: c' slot_simps)
  have st: "store_inv c'"
    by (rule store_one_slot [OF Inv_store [OF inv] os r])
      (use at s store_slot [OF Inv_store [OF inv] r] in \<open>simp_all add: slot_inv_def\<close>)
  have ls: "live_shrinks c c'" by (rule live_shrinks_one_slot [OF os]) (use s in simp)
  have "pool_inv c' ({#TPublished r ep v#} + P) m"
    by (rule pool_swap [OF Inv_pool [OF inv]])
      (use r in \<open>auto simp: c' slot_simps\<close>)
  then have "Inv c' ({#TPublished r ep v#} + P) m"
    by (rule Inv_change [OF inv st os ls, rotated -1])
      (use at s r ep in \<open>auto simp: c'\<close>)
  then show ?thesis by simp
qed

lemma Inv_finish_commit:
  assumes inv: "Inv c (add_mset (TPublished r ep v) P) m" and cm: "finishCommit c ep v now = (res, c')"
  shows "Inv c' (add_mset (TRetire r) P) m"
proof -
  have r: "r < length (c_heap c)" and ep: "rs_epoch (slot c r) = ep" using Inv_task [OF inv] by simp_all
  from Inv_store [OF inv] r ep cm [unfolded finishCommit_def] show ?thesis
  proof (cases rule: commit_cases)
    case rejected
    show ?thesis by (rule Inv_relabel [OF inv rejected(2)]) (use r in auto)
  next
    case committed
    have s: "rs_state (slot c r) = StateFinishing" "rs_snapshot (slot c r) \<noteq> None"
      using Inv_task [OF inv] committed(2) by simp_all
    have ow: "0 < rs_owners (slot c r)" using owner_count_pos [OF Inv_pool [OF inv] _ r] by simp
    have "pool_inv c' ({#TRetire r#} + P) m"
      by (rule pool_swap [OF Inv_pool [OF inv]])
        (use r in \<open>auto simp: committed(4) slot_simps finishSlot_def\<close>)
    then have "Inv c' ({#TRetire r#} + P) m"
      by (rule Inv_commit_change [OF inv r _ committed(4), rotated -1])
        (use s r ep committed(2) ow store_slot [OF Inv_store [OF inv] r]
          in \<open>auto simp: committed(4) slot_simps finishSlot_def slot_inv_def seal_handles
            noHandles_def\<close>)
    then show ?thesis by simp
  qed
qed

lemma openSlot_simps [simp]:
  "rs_epoch (openSlot so now s) = rs_epoch s" "rs_runID (openSlot so now s) = rs_runID s"
  "rs_state (openSlot so now s) = st_State (so_res so)"
  "rs_validity (openSlot so now s) = st_Validity (so_res so)"
  "rs_finishSet (openSlot so now s) = rs_finishSet s"
  "rs_snapshot (openSlot so now s) = rs_snapshot s"
  "rs_owners (openSlot so now s) =
     rs_owners s + (if st_State (so_res so) = StateAborted \<or> so_gen so \<noteq> [] then 1 else 0)"
  "rs_sealed (openSlot so now s) \<longleftrightarrow> rs_sealed s \<or> st_State (so_res so) = StateAborted"
  by (simp_all add: openSlot_def Let_def)

lemma openSlot_done:
  "0 \<le> rs_owners s \<Longrightarrow> rs_done (openSlot so now s) = rs_done s"
  by (simp add: openSlot_def Let_def)

lemma openSpawn_inv:
  "r < length (c_heap c) \<Longrightarrow> rs_epoch (slot c r) = ep \<Longrightarrow> u \<in># openSpawn r ep so \<Longrightarrow> task_inv c u"
  by (auto simp: openSpawn_def split: if_splits)

lemma openSpawn_counts:
  "size (filter_mset (driver q) (openSpawn r ep so)) = 0"
  "size (filter_mset (joiner q) (openSpawn r ep so)) = 0"
  "size (filter_mset starter (openSpawn r ep so)) = 0"
  "size (filter_mset (owner q) (openSpawn r ep so)) =
     (if q = r \<and> (st_State (so_res so) = StateAborted \<or> so_gen so \<noteq> []) then 1 else 0)"
  by (auto simp: openSpawn_def)

lemma Inv_open_commit:
  assumes inv: "Inv c (add_mset (TOpened r ep nonce so) P) m"
    and cm: "beginCommit c ep so now nonceNow nonce = (None, c')"
  shows "Inv (openObserve so c') (add_mset (TStarted r) (openSpawn r ep so + P)) m"
proof -
  have r: "r < length (c_heap c)" and ep: "rs_epoch (slot c r) = ep" and ok: "outcome_ok so"
    using Inv_task [OF inv] by simp_all
  have cur: "ep = c_epoch c" and c': "c' = notifyLocked (openMutate so now nonceNow nonce r c) r"
    using commit_cases [OF Inv_store [OF inv] r ep cm [unfolded beginCommit_def]] by auto
  let ?c = "notifyLocked (upd c r (openSlot so now)) r"
  have core: "same_core ?c c'"
    by (simp add: c' openMutate_def Let_def same_core_def notifyLocked_def upd_def rememberNonceLocked_def)
  have s: "rs_state (slot c r) = StateStarting" using Inv_task [OF inv] cur by simp
  have ow: "0 < rs_owners (slot c r)" using owner_count_pos [OF Inv_pool [OF inv] _ r] by simp
  let ?T = "{#TStarted r#} + openSpawn r ep so"
  have "pool_inv ?c (?T + P) m"
    by (rule pool_swap [OF Inv_pool [OF inv]])
      (use r in \<open>simp_all add: slot_simps openSpawn_counts size_filter_split del: filter_union_mset\<close>)
  then have "Inv ?c (?T + P) m"
  proof (rule Inv_commit_change [OF inv r _ refl, rotated -1])
    show "slot_inv (c_epoch c) (openSlot so now (slot c r))"
      using s ep cur ow ok store_slot [OF Inv_store [OF inv] r]
      by (auto simp: slot_inv_def outcome_ok_def openSlot_done split: if_splits)
  next
    fix u assume "u \<in># ?T"
    then show "task_inv ?c u"
      using openSpawn_inv [of r ?c ep u so] r ep by (auto simp: slot_simps)
  qed (use s ok in \<open>auto simp: outcome_ok_def split: if_splits\<close>)
  then have "Inv c' (?T + P) m" using core by (rule Inv_same_core)
  then show ?thesis by (auto simp: openObserve_def intro: Inv_same_core)
qed

subsection \<open>Claiming, acknowledging\<close>

lemma Inv_add_task:
  assumes inv: "Inv c P m" and T: "\<And>u. u \<in># T \<Longrightarrow> task_inv c u"
    and "\<And>u q. u \<in># T \<Longrightarrow> \<not> driver q u \<and> \<not> joiner q u \<and> \<not> starter u \<and> \<not> owner q u"
  shows "Inv c (T + P) m"
proof (rule InvI [OF Inv_store [OF inv]])
  have none: "filter_mset (driver q) T = {#}" "filter_mset (joiner q) T = {#}"
    "filter_mset starter T = {#}" "filter_mset (owner q) T = {#}" for q
    using assms(3) by (auto simp: filter_mset_eq_mempty_iff)
  show "pool_inv c (T + P) m"
    using Inv_pool [OF inv] unfolding pool_inv_def filter_union_mset none by simp
qed (use T inv in \<open>auto simp: Inv_def\<close>)

text \<open>A caller that is about to act, as a goroutine that holds nothing.\<close>

lemma Inv_enter: "Inv c P m \<Longrightarrow> Inv c (add_mset (TAbort runID reason KReturn) P) m"
  using Inv_add_task [of c P m "{#TAbort runID reason KReturn#}"] by simp

lemma finishEnter_claimed:
  assumes "finishEnter c now runID = (FinishClaimed r ep, c')" and "store_inv c"
  shows "r < length (c_heap c)" "rs_state (slot c r) = StateStarted" "ep = rs_epoch (slot c r)"
    "c' = notifyLocked (upd c r (claimSlot (c_budgets c) now)) r" "r \<in> set (c_slots c)"
proof -
  have look: "lookupLocked c runID = Some r"
    using assms(1) by (auto simp: finishEnter_def Let_def split: option.splits if_splits)
  then show r: "r \<in> set (c_slots c)" using lookupLocked_Some by blast
  then show len: "r < length (c_heap c)" using store_ref [OF assms(2)] by blast
  have "rs_state (slot c r) \<noteq> StateZero" "rs_state (slot c r) \<noteq> StateIdle"
    using store_slot [OF assms(2) len] by (auto simp: slot_inv_def)
  then show "rs_state (slot c r) = StateStarted" "ep = rs_epoch (slot c r)"
    "c' = notifyLocked (upd c r (claimSlot (c_budgets c) now)) r"
    using assms(1) look
    by (cases "rs_state (slot c r)"; simp add: finishEnter_def Let_def split: if_splits)+
qed

text \<open>Nobody drives a run that is open or finished.\<close>

lemma undriven:
  assumes inv: "Inv c P m" and r: "r < length (c_heap c)"
    and s: "rs_state (slot c r) \<in> {StateStarted, StateFinished}" and u: "u \<in># P"
  shows "\<not> driver r u"
proof
  assume dr: "driver r u"
  have tk: "task_inv c u" using inv u by (simp add: Inv_def)
  have "live (rs_state (slot c r))" using s by auto
  then have "rs_epoch (slot c r) = c_epoch c" by (rule live_epoch [OF Inv_store [OF inv] r])
  then show False using driver_stale [OF tk dr] s by auto
qed

lemma Inv_finish_claim:
  assumes inv: "Inv c P m" and en: "finishEnter c now runID = (FinishClaimed r ep, c')"
  shows "Inv c' (add_mset (TFreeze r ep) P) m"
proof -
  note f = finishEnter_claimed [OF en Inv_store [OF inv]]
  note r = f(1)
  have os: "one_slot c c' r" unfolding f(4)
    by (rule one_slot_notify_upd [OF r]) (simp_all add: claimSlot_def)
  have at: "rs_state (slot c' r) = StateFinishing" "c_epoch c' = c_epoch c"
    "rs_finishSet (slot c' r) = rs_finishSet (slot c r)" "rs_snapshot (slot c' r) = rs_snapshot (slot c r)"
    unfolding f(4) using r by (simp_all add: slot_simps claimSlot_def)
  have inv0: "slot_inv (c_epoch c) (slot c r)" by (rule store_slot [OF Inv_store [OF inv] r])
  have "0 \<le> rs_owners (slot c r)" using pool_counts(4) [OF Inv_pool [OF inv] r] by simp
  then have st: "store_inv c'"
    by (intro store_one_slot [OF Inv_store [OF inv] os r])
      (use f(2) inv0 r in \<open>auto simp: f(4) slot_simps claimSlot_def slot_inv_def\<close>)
  have ls: "live_shrinks c c'" by (rule live_shrinks_one_slot [OF os]) (use f(2) in simp)
  have "filter_mset (driver r) P = {#}"
    using undriven [OF inv r] f(2) by (auto simp: filter_mset_eq_mempty_iff)
  then have pl: "pool_inv c' ({#TFreeze r ep#} + P) m"
    using Inv_pool [OF inv] r by (auto simp: pool_inv_def f(4) slot_simps claimSlot_def)
  have "Inv c' ({#TFreeze r ep#} + P) m"
    by (rule Inv_change [OF Inv_enter [OF inv] st os ls _ _ _ pl])
      (use at f r one_slot_fields [OF os] inv0 in \<open>auto simp: one_slot_def slot_inv_def\<close>)
  then show ?thesis by simp
qed

lemma AckBy_cases:
  assumes "store_inv c"
  obtains (same) "snd (AckBy c now runID by) = c"
  | (acked) r where "lookupLocked c runID = Some r" "rs_state (slot c r) = StateFinished"
      "snd (AckBy c now runID by) = notifyLocked (upd c r
         (\<lambda>s. s\<lparr>rs_state := StateAcknowledged, rs_ackedBy := by, rs_since := now\<rparr>)) r"
proof (cases "lookupLocked c runID")
  case None
  then show thesis by (intro same) (simp add: AckBy_def split: option.split)
next
  case (Some r)
  then have "r < length (c_heap c)" using lookupLocked_Some store_ref assms by blast
  then have "rs_state (slot c r) \<noteq> StateZero" "rs_state (slot c r) \<noteq> StateIdle"
    using store_slot [OF assms] by (auto simp: slot_inv_def)
  then consider "rs_state (slot c r) = StateFinished" | "snd (AckBy c now runID by) = c"
    using Some by (cases "rs_state (slot c r)") (simp_all add: AckBy_def)
  then show thesis
  proof cases
    case 1
    with acked [OF Some this] Some show thesis by (simp add: AckBy_def)
  qed (rule same)
qed

text \<open>An undriven slot changes state and no goroutine comes or goes.\<close>

lemma Inv_move:
  assumes inv: "Inv c P m" and r: "r < length (c_heap c)"
    and s: "rs_state (slot c r) \<in> {StateFinished, StateAcknowledged}"
    and f: "rs_epoch (f (slot c r)) = rs_epoch (slot c r)" "rs_runID (f (slot c r)) = rs_runID (slot c r)"
      "rs_owners (f (slot c r)) = rs_owners (slot c r)"
    and sl: "slot_inv (c_epoch c) (f (slot c r))"
    and st: "rs_state (f (slot c r)) = StateExpired \<or>
       rs_state (f (slot c r)) = StateAcknowledged \<and> rs_snapshot (f (slot c r)) = rs_snapshot (slot c r)"
  shows "Inv (notifyLocked (upd c r f) r) P m"
proof -
  let ?c = "notifyLocked (upd c r f) r"
  have os: "one_slot c ?c r" using r f(1,2) by (rule one_slot_notify_upd)
  have at: "slot ?c r = (f (slot c r))\<lparr>rs_changed := Suc (rs_changed (f (slot c r)))\<rparr>"
    using r by (simp add: slot_simps)
  have "slot_inv (c_epoch c) (slot ?c r)" using sl by (simp add: at slot_inv_def)
  moreover have "\<not> live (rs_state (slot ?c r))" using st by (auto simp: at)
  moreover have "rs_snapshot (slot ?c r) \<noteq> None"
    if "r \<in> set (c_slots c)" "rs_state (slot ?c r) \<in> {StateFinished, StateAcknowledged}"
    using store_snapshot [OF Inv_store [OF inv] that(1) s] st that(2) by (auto simp: at)
  ultimately have si: "store_inv ?c"
    by (intro store_one_slot [OF Inv_store [OF inv] os r]) simp_all
  have ls: "live_shrinks c ?c" by (rule live_shrinks_one_slot [OF os]) (use st in \<open>auto simp: at\<close>)
  have pl: "pool_inv ?c P m"
    using Inv_pool [OF inv] f(3) r by (auto simp: pool_inv_def slot_simps)
  have "Inv ?c ({#} + P) m"
    by (rule Inv_change [OF Inv_enter [OF inv] si os ls]) (use s pl in auto)
  then show ?thesis by simp
qed

lemma Inv_ack:
  assumes inv: "Inv c P m"
  shows "Inv (snd (AckBy c now runID by)) P m"
  using Inv_store [OF inv]
proof (cases rule: AckBy_cases [of c now runID "by"])
  case same
  then show ?thesis using inv by simp
next
  case (acked r)
  have r: "r < length (c_heap c)"
    using lookupLocked_Some [OF acked(1)] store_ref [OF Inv_store [OF inv]] by blast
  show ?thesis unfolding acked(3)
    by (rule Inv_move [OF inv r])
      (use acked(2) store_slot [OF Inv_store [OF inv] r] in \<open>auto simp: slot_inv_def\<close>)
qed

subsection \<open>Aborting\<close>

lemma abortEnter_cases:
  assumes "abortEnter c now runID reason = (e, c')" and "store_inv c"
  obtains (returns) res where "e = AbortReturn res" "c' = c"
      "\<And>r. r < length (c_heap c) \<Longrightarrow> live (rs_state (slot c r)) \<Longrightarrow> rs_runID (slot c r) \<noteq> runID"
  | (blocked) r where "e = AbortBlocked r" "c' = c"
  | (fences) r where "e = AbortFenced r (rs_epoch (slot c r)) (committedNames (st_Collectors (rs_start (slot c r))))"
      "r < length (c_heap c)" "live (rs_state (slot c r))" "rs_runID (slot c r) = runID"
      "c' = notifyLocked ((upd c r (abortFence now))\<lparr>c_epoch := Suc (c_epoch c)\<rparr>) r"
proof (cases "lookupLocked c runID")
  case None
  then have "\<And>r. r < length (c_heap c) \<Longrightarrow> live (rs_state (slot c r)) \<Longrightarrow> rs_runID (slot c r) \<noteq> runID"
    using live_retained [OF assms(2)] by (auto simp: lookupLocked_None)
  then show thesis using None assms(1) by (intro returns) (auto simp: abortEnter_def)
next
  case (Some r)
  then have r: "r < length (c_heap c)" "rs_runID (slot c r) = runID"
    using lookupLocked_Some store_ref assms(2) by blast+
  have nz: "rs_state (slot c r) \<noteq> StateZero" "rs_state (slot c r) \<noteq> StateIdle"
    using store_slot [OF assms(2) r(1)] by (auto simp: slot_inv_def)
  consider "rs_state (slot c r) \<in> {StateAborted, StateAcknowledged, StateExpired}"
    | "rs_state (slot c r) = StateAborting" | "live (rs_state (slot c r))"
    using nz by (cases "rs_state (slot c r)") auto
  then show thesis
  proof cases
    case 1
    then have "\<And>q. q < length (c_heap c) \<Longrightarrow> live (rs_state (slot c q)) \<Longrightarrow> rs_runID (slot c q) \<noteq> runID"
      using runID_inject [OF assms(2) _ r(1)] r(2) by (metis insertE live_simps(5,7,8) singletonD)
    moreover obtain res where "e = AbortReturn res" "c' = c"
      using 1 Some assms(1) by (auto simp: abortEnter_def Let_def)
    ultimately show thesis using returns by blast
  next
    case 2
    then show thesis using Some assms(1) by (intro blocked) (auto simp: abortEnter_def Let_def)
  next
    case 3
    then show thesis using Some assms(1) r
      by (intro fences) (auto simp: abortEnter_def Let_def live_def)
  qed
qed

lemma resume_inv: "no_live c \<Longrightarrow> u \<in># resume runID k \<Longrightarrow> task_inv c u"
  by (cases k) auto

lemma resume_counts:
  "size (filter_mset (driver q) (resume runID k)) = 0"
  "size (filter_mset (joiner q) (resume runID k)) = 0"
  "size (filter_mset starter (resume runID k)) = (if k = KReturn then 0 else 1)"
  "size (filter_mset (owner q) (resume runID k)) = 0"
  by (cases k; simp)+

lemma Inv_abort_return:
  assumes inv: "Inv c (add_mset (TAbort runID reason k) P) m"
    and en: "abortEnter c now runID reason = (AbortReturn res, c')"
  shows "Inv c' (resume runID k + P) m"
proof -
  from en Inv_store [OF inv] have c': "c' = c" and
    nl: "\<And>r. r < length (c_heap c) \<Longrightarrow> live (rs_state (slot c r)) \<Longrightarrow> rs_runID (slot c r) \<noteq> runID"
    by (cases rule: abortEnter_cases; auto)+
  have "k \<noteq> KReturn \<Longrightarrow> no_live c" using Inv_task [OF inv] nl by (auto simp: no_live_def)
  then have "\<And>u. u \<in># resume runID k \<Longrightarrow> task_inv c u"
    using resume_inv by (cases "k = KReturn") auto
  moreover have "pool_inv c (resume runID k + P) m"
    by (rule pool_swap [OF Inv_pool [OF inv]]) (simp_all add: resume_counts)
  ultimately show ?thesis unfolding c' using inv by (auto simp: Inv_def)
qed

lemma Inv_abort_giveup:
  assumes inv: "Inv c (add_mset (TAbort runID reason k) P) m"
    and en: "abortEnter c now runID reason = (AbortBlocked r, c')"
  shows "Inv c' P (if k = KReturn then m else False)"
proof -
  from en Inv_store [OF inv] have c': "c' = c" by (cases rule: abortEnter_cases) auto
  have "k \<noteq> KReturn \<Longrightarrow> m" using pool_counts(3) [OF Inv_pool [OF inv]] by (cases m) simp_all
  then have "pool_inv c ({#} + P) (if k = KReturn then m else False)"
    by (intro pool_swap [OF Inv_pool [OF inv]]) auto
  then show ?thesis unfolding c' using inv by (auto simp: Inv_def)
qed

lemma abortFence_simps [simp]:
  "rs_epoch (abortFence now s) = rs_epoch s" "rs_runID (abortFence now s) = rs_runID s"
  "rs_state (abortFence now s) = StateAborting" "rs_owners (abortFence now s) = rs_owners s"
  "rs_sealed (abortFence now s)" "rs_snapshot (abortFence now s) = rs_snapshot s"
  "rs_done (abortFence now s) \<longleftrightarrow> rs_done s \<or> rs_owners s \<le> 0"
  by (simp_all add: abortFence_def)

lemma Inv_abort_fence:
  assumes inv: "Inv c (add_mset (TAbort runID reason k) P) m"
    and en: "abortEnter c now runID reason = (AbortFenced r ep partial, c')"
  shows "Inv (abortCancel c' r runID ep reason now) (add_mset (TJoin r runID ep reason partial k) P) m"
proof -
  from en Inv_store [OF inv] have r: "r < length (c_heap c)" and lv: "live (rs_state (slot c r))"
    and f: "ep = rs_epoch (slot c r)" "rs_runID (slot c r) = runID"
    and c': "c' = notifyLocked ((upd c r (abortFence now))\<lparr>c_epoch := Suc (c_epoch c)\<rparr>) r"
    by (cases rule: abortEnter_cases; auto)+
  define D where "D = abortCancel c' r runID ep reason now"
  let ?T = "{#TJoin r runID ep reason partial k#}"
  have at: "slot D q = (if q = r then (abortFence now (slot c r))
      \<lparr>rs_changed := Suc (rs_changed (abortFence now (slot c r))), rs_cancelled := True\<rparr> else slot c q)" for q
    using r by (simp add: c' D_def abortCancel_def slot_simps)
  have fields: "length (c_heap D) = length (c_heap c)" "c_slots D = c_slots c"
    "c_epoch D = Suc (c_epoch c)" by (simp_all add: D_def abortCancel_def c')
  have os: "one_slot c D r" by (simp add: one_slot_def at fields)
  have st: "store_inv D"
    by (rule store_fence [OF Inv_store [OF inv] os r fields(3) _ lv])
      (use store_slot [OF Inv_store [OF inv] r] in \<open>auto simp: at slot_inv_def\<close>)
  have ls: "live_shrinks c D" by (rule live_shrinks_one_slot [OF os]) (simp add: at)
  have nl: "no_live D"
    using live_unique [OF Inv_store [OF inv] _ r _ lv] by (auto simp: no_live_def at fields)
  have nj: "filter_mset (joiner r) P = {#}"
  proof -
    have "\<not> joiner r u" if "u \<in># P" for u
      using joiner_aborting [OF Inv_tasks [OF inv that]] lv by auto
    then show ?thesis by (simp add: filter_mset_eq_mempty_iff)
  qed
  have pl: "pool_inv D (?T + P) m"
    using Inv_pool [OF inv] nj unfolding pool_inv_def
    by (auto simp: at fields split: if_splits)
  have "Inv D (?T + P) m"
    by (rule Inv_change [OF inv st os ls _ _ _ pl])
      (use fields(1,3) lv r f nl in \<open>auto simp: at\<close>)
  then show ?thesis by (simp add: D_def)
qed

lemma settleSlot_simps [simp]:
  "rs_epoch (settleSlot res s) = rs_epoch s" "rs_runID (settleSlot res s) = rs_runID s"
  "rs_state (settleSlot res s) = StateAborted" "rs_owners (settleSlot res s) = rs_owners s"
  "rs_sealed (settleSlot res s) = rs_sealed s" "rs_snapshot (settleSlot res s) = None"
  "rs_done (settleSlot res s) = rs_done s" "rs_validity (settleSlot res s) = ValidityInvalid"
  by (simp_all add: settleSlot_def Let_def)

lemma Inv_abort_settle:
  assumes inv: "Inv c (add_mset (TJoin r runID ep reason partial k) P) m"
    and se: "abortSettle c r res = (gen, base, c')"
  shows "Inv (recordHealth (releaseBaseline relB base (releaseGeneration relG gen c')) l)
    ((if detached then {#TReap r#} else {#}) + resume runID k + P) m"
proof -
  have r: "r < length (c_heap c)" and s: "rs_state (slot c r) = StateAborting"
    and nl: "k \<noteq> KReturn \<Longrightarrow> no_live c" using Inv_task [OF inv] by simp_all
  have c': "c' = notifyLocked (upd c r (settleSlot res)) r"
    using se by (simp add: abortSettle_def Let_def)
  let ?T = "(if detached then {#TReap r#} else {#}) + resume runID k"
  have os: "one_slot c c' r" unfolding c' by (rule one_slot_notify_upd [OF r]) simp_all
  have at: "rs_state (slot c' r) = StateAborted" "c_epoch c' = c_epoch c"
    using r by (simp_all add: c' slot_simps)
  have st: "store_inv c'"
    by (rule store_one_slot [OF Inv_store [OF inv] os r])
      (use r store_slot [OF Inv_store [OF inv] r] in \<open>auto simp: c' slot_simps slot_inv_def\<close>)
  have ls: "live_shrinks c c'" by (rule live_shrinks_one_slot [OF os]) (simp add: at)
  then have nl': "k \<noteq> KReturn \<Longrightarrow> no_live c'"
    using nl by (auto simp: no_live_def live_shrinks_def c')
  have T: "task_inv c' u" if "u \<in># ?T" for u
    using that nl' resume_inv [of c' u runID k] r
    by (cases "k = KReturn") (auto simp: c' split: if_splits)
  have pl: "pool_inv c' (?T + P) m"
    by (rule pool_swap [OF Inv_pool [OF inv]])
      (use r in \<open>auto simp: c' slot_simps resume_counts size_filter_split simp del: filter_union_mset\<close>)
  have "Inv c' (?T + P) m"
    by (rule Inv_change [OF inv st os ls _ _ T pl]) (use at s in auto)
  then show ?thesis by (rule Inv_same_core) (intro core_intros same_core_refl)
qed

lemma Inv_reap:
  assumes inv: "Inv c (add_mset (TReap r) P) m" and se: "reapTake c r = (gen, base, c')"
  shows "Inv (releaseBaseline relB base (releaseGeneration relG gen c')) P m"
proof -
  have r: "r < length (c_heap c)" using Inv_task [OF inv] by simp
  have c': "c' = upd c r (\<lambda>s. s\<lparr>rs_gen := [], rs_genFinal := [], rs_base := [], rs_baseF := []\<rparr>)"
    using se by (simp add: reapTake_def Let_def)
  have os: "one_slot c c' r" unfolding c' by (rule one_slot_upd [OF r]) simp_all
  have pl: "pool_inv c' ({#} + P) m"
    by (rule pool_swap [OF Inv_pool [OF inv]]) (use r in \<open>auto simp: c' slot_simps\<close>)
  have "Inv c' ({#} + P) m"
    by (rule Inv_quiet [OF inv os r _ _ _ _ pl])
      (use r slot_done_iff [OF Inv_store [OF inv] r]
        in \<open>simp_all add: c' slot_simps quiet_def noHandles_def\<close>)
  then have "Inv c' P m" by simp
  then show ?thesis by (rule Inv_same_core) (intro core_intros same_core_refl)
qed

lemma Inv_reap_giveup:
  assumes inv: "Inv c (add_mset (TReap r) P) m"
  shows "Inv c P m"
proof -
  have "pool_inv c ({#} + P) m" by (rule pool_swap [OF Inv_pool [OF inv]]) auto
  then show ?thesis using inv by (simp add: Inv_def)
qed

subsection \<open>Starting\<close>

lemma planCurrent_task:
  assumes st: "store_inv c" and pl: "planCurrent c opt = PlanProceed preempt ackFinished"
  shows "task_inv c (starterTask c opt runID nonce preempt ackFinished)"
proof (cases "currentLocked c")
  case None
  then have "no_live c" using no_live_current [OF st] by simp
  then show ?thesis using pl None by (auto simp: planCurrent_def starterTask_def)
next
  case (Some cur)
  then have cur: "cur < length (c_heap c)" by (rule currentLocked_ref [OF st])
  have only: "r = cur" if "r < length (c_heap c)" "live (rs_state (slot c r))" for r
    using live_is_current [OF st that] Some by simp
  consider "preempt = Some cur" "ackFinished = None"
    | "preempt = None" "ackFinished = Some cur" "rs_state (slot c cur) = StateFinished"
    | "preempt = None" "ackFinished = None" "\<not> live (rs_state (slot c cur))"
    using pl Some by (auto simp: planCurrent_def Let_def live_def split: if_splits)
  then show ?thesis
  proof cases
    case 3
    then have "no_live c" using no_live_current [OF st] Some by simp
    then show ?thesis using "3" by (simp add: starterTask_def)
  qed (use only in \<open>auto simp: starterTask_def\<close>)
qed

lemma planStart_current:
  assumes "planStartLocked c now opt = PlanProceed preempt ackFinished"
  shows "planCurrent c opt = PlanProceed preempt ackFinished"
  using assms
  by (auto simp: planStartLocked_def planFresh_def split: option.splits RunState.splits)

lemma starterTask_kind:
  "starter (starterTask c opt runID nonce p a)" "\<not> driver q (starterTask c opt runID nonce p a)"
  "\<not> joiner q (starterTask c opt runID nonce p a)" "\<not> owner q (starterTask c opt runID nonce p a)"
  by (simp_all add: starterTask_def split: option.split)

lemma Inv_start_plan:
  assumes inv: "Inv c P False" and pl: "planStartLocked c now opt = PlanProceed preempt ackFinished"
  shows "Inv c (add_mset (starterTask c opt runID nonce preempt ackFinished) P) True"
proof (rule InvI [OF Inv_store [OF inv]])
  show "pool_inv c (add_mset (starterTask c opt runID nonce preempt ackFinished) P) True"
    using Inv_pool [OF inv] by (simp add: pool_inv_def starterTask_kind)
next
  fix u
  assume "u \<in># add_mset (starterTask c opt runID nonce preempt ackFinished) P"
  then show "task_inv c u"
    using planCurrent_task [OF Inv_store [OF inv] planStart_current [OF pl]] inv
    by (auto simp: Inv_def)
qed

lemma ack_no_live:
  assumes st: "store_inv c"
    and only: "\<And>q. q < length (c_heap c) \<Longrightarrow> live (rs_state (slot c q)) \<Longrightarrow>
      rs_runID (slot c q) = target \<and> rs_state (slot c q) = StateFinished"
  shows "no_live (snd (AckBy c now target by))"
proof (cases "no_live c")
  case True
  from st show ?thesis
    by (cases rule: AckBy_cases [of c now target "by"])
      (use True lookupLocked_Some store_ref [OF st] in \<open>fastforce simp: no_live_def slot_simps\<close>)+
next
  case False
  then obtain q where q: "q < length (c_heap c)" "live (rs_state (slot c q))" by (auto simp: no_live_def)
  note fin = only [OF q]
  obtain p where p: "lookupLocked c target = Some p"
    using live_retained [OF st q] fin by (metis lookupLocked_None not_None_eq)
  then have "p = q" using lookupLocked_Some [OF p] store_ref [OF st] runID_inject [OF st _ q(1)] fin by metis
  then have "snd (AckBy c now target by) = notifyLocked (upd c q
      (\<lambda>s. s\<lparr>rs_state := StateAcknowledged, rs_ackedBy := by, rs_since := now\<rparr>)) q"
    using p fin by (simp add: AckBy_def)
  moreover have "\<not> live (rs_state (slot c p))" if "p < length (c_heap c)" "p \<noteq> q" for p
    using live_unique [OF st that(1) q(1) _ q(2)] that(2) by blast
  ultimately show ?thesis using q(1) by (simp add: no_live_def slot_simps)
qed

lemma Inv_start_ack:
  assumes inv: "Inv c (add_mset (TAck target opt runID nonce) P) m"
  shows "Inv (snd (AckBy c now target by)) (add_mset (TAlloc opt runID nonce []) P) m"
proof -
  have "no_live (snd (AckBy c now target by))"
    using ack_no_live [OF Inv_store [OF inv]] Inv_task [OF inv] by simp
  then show ?thesis by (intro Inv_relabel [OF Inv_ack [OF inv] same_core_refl]) auto
qed

subsection \<open>Retention\<close>

lemma slot_slots_update [slot_simps]: "slot (c\<lparr>c_slots := xs\<rparr>) q = slot c q"
  by (simp add: slot_def)

lemma task_slots_update [simp]: "task_inv (c\<lparr>c_slots := xs\<rparr>) t = task_inv c t"
  by (cases t) (simp_all add: slot_simps no_live_def)

lemma pool_slots_update [simp]: "pool_inv (c\<lparr>c_slots := xs\<rparr>) P m = pool_inv c P m"
  by (simp add: pool_inv_def slot_simps)

lemma store_retain:
  assumes "store_inv c" and "sorted_wrt (<) xs" and "set xs \<subseteq> set (c_slots c)"
    and "\<And>q. q < length (c_heap c) \<Longrightarrow> live (rs_state (slot c q)) \<Longrightarrow> q \<in> set xs"
  shows "store_inv (c\<lparr>c_slots := xs\<rparr>)"
  using assms by (auto simp: store_inv_def slot_simps)

lemma Inv_retain:
  "Inv c P m \<Longrightarrow> sorted_wrt (<) xs \<Longrightarrow> set xs \<subseteq> set (c_slots c) \<Longrightarrow>
   (\<And>q. q < length (c_heap c) \<Longrightarrow> live (rs_state (slot c q)) \<Longrightarrow> q \<in> set xs) \<Longrightarrow>
   Inv (c\<lparr>c_slots := xs\<rparr>) P m"
  unfolding Inv_def using store_retain by simp

text \<open>A dropped record loses its snapshot; nobody relies on it.\<close>

lemma Inv_forget:
  assumes inv: "Inv c P m" and r: "r < length (c_heap c)" and out: "r \<notin> set (c_slots c)"
    and nl: "\<not> live (rs_state (slot c r))"
  shows "Inv (upd c r (\<lambda>s. s\<lparr>rs_snapshot := None, rs_cancelled := True\<rparr>)) P m"
proof (rule InvI)
  let ?c = "upd c r (\<lambda>s. s\<lparr>rs_snapshot := None, rs_cancelled := True\<rparr>)"
  have os: "one_slot c ?c r" by (rule one_slot_upd [OF r]) simp_all
  show "store_inv ?c"
    by (rule store_one_slot [OF Inv_store [OF inv] os r])
      (use nl out r store_slot [OF Inv_store [OF inv] r] in \<open>auto simp: slot_simps slot_inv_def\<close>)
  show "pool_inv ?c P m" using Inv_pool [OF inv] r by (auto simp: pool_inv_def slot_simps)
  fix u assume "u \<in># P"
  then have "task_inv c u" using inv by (simp add: Inv_def)
  then show "task_inv ?c u" using r nl by (cases u) (auto simp: slot_simps no_live_def)
qed

lemma not_in_remove_at:
  assumes "distinct xs" and "i < length xs"
  shows "xs ! i \<notin> set (remove_at i xs)"
proof -
  have "distinct (take i xs @ xs ! i # drop (Suc i) xs)"
    using assms id_take_nth_drop [OF assms(2)] by simp
  then show ?thesis by (simp add: remove_at_def)
qed

lemma in_remove_at: "i < length xs \<Longrightarrow> x \<in> set xs \<Longrightarrow> x \<noteq> xs ! i \<Longrightarrow> x \<in> set (remove_at i xs)"
  using mset_remove_at by (metis insert_iff set_mset_add_mset_insert set_mset_mset)

lemma slots_distinct: "store_inv c \<Longrightarrow> distinct (c_slots c)"
  using strict_sorted_iff [of "c_slots c"] by (simp add: store_inv_def)

lemma Inv_drop_slot:
  assumes inv: "Inv c P m" and i: "i < length (c_slots c)"
    and nl: "\<not> live (rs_state (slot c (c_slots c ! i)))"
  shows "Inv (drop_slot c i) P m"
proof -
  let ?r = "c_slots c ! i" and ?c = "c\<lparr>c_slots := remove_at i (c_slots c)\<rparr>"
  have r: "?r < length (c_heap c)" using store_ref [OF Inv_store [OF inv]] i by simp
  have "Inv ?c P m"
  proof (rule Inv_retain [OF inv])
    show "sorted_wrt (<) (remove_at i (c_slots c))"
      using Inv_store [OF inv] by (simp add: store_inv_def sorted_wrt_remove_at)
    show "q \<in> set (remove_at i (c_slots c))"
      if "q < length (c_heap c)" "live (rs_state (slot c q))" for q
      using in_remove_at [OF i live_retained [OF Inv_store [OF inv] that]] that nl by auto
  qed (rule set_remove_at)
  then show ?thesis unfolding drop_slot_def
    by (rule Inv_forget)
      (use r nl not_in_remove_at [OF slots_distinct [OF Inv_store [OF inv]] i]
        in \<open>simp_all add: slot_simps\<close>)
qed

lemma drop_slot_fields [simp]:
  "length (c_heap (drop_slot c i)) = length (c_heap c)" "c_epoch (drop_slot c i) = c_epoch c"
  by (simp_all add: drop_slot_def)

lemma drop_slot_state:
  "store_inv c \<Longrightarrow> i < length (c_slots c) \<Longrightarrow> rs_state (slot (drop_slot c i) q) = rs_state (slot c q)"
  using store_ref [of c "c_slots c ! i"] by (simp add: drop_slot_def slot_simps)

lemma Inv_evict:
  "Inv c P m \<Longrightarrow> (\<And>q. q < length (c_heap c) \<Longrightarrow> rs_state (slot c q) \<noteq> StateFinished) \<Longrightarrow>
   Inv (evict c) P m"
proof (induction c rule: evict.induct)
  case (1 c)
  show ?case
  proof (cases "length (c_slots c) > RetainedRuns")
    case big: True
    show ?thesis
    proof (cases "find_index (\<lambda>r. \<not> active (rs_state (slot c r))) (c_slots c)")
      case None
      then show ?thesis using big "1.prems"(1) by (subst evict.simps) simp
    next
      case (Some i)
      note i = find_index_Some [OF Some]
      let ?r = "c_slots c ! i"
      have "?r < length (c_heap c)" using store_ref [OF Inv_store [OF "1.prems"(1)]] i by simp
      then have "\<not> live (rs_state (slot c ?r))"
        using i "1.prems"(2) [of ?r] by (auto simp: live_def active_def)
      then have "Inv (drop_slot c i) P m" using Inv_drop_slot [OF "1.prems"(1)] i by blast
      moreover have "rs_state (slot (drop_slot c i) q) \<noteq> StateFinished"
        if "q < length (c_heap (drop_slot c i))" for q
        using "1.prems"(2) [of q] that drop_slot_state [OF Inv_store [OF "1.prems"(1)]] i by simp
      ultimately have "Inv (evict (drop_slot c i)) P m" by (rule "1.IH" [OF big Some])
      then show ?thesis using big Some by (subst evict.simps) simp
    qed
  qed (use "1.prems"(1) in \<open>subst evict.simps, simp\<close>)
qed

lemma evict_fields [simp]:
  "length (c_heap (evict c)) = length (c_heap c)" "c_epoch (evict c) = c_epoch c"
  by (induction c rule: evict.induct; subst evict.simps; simp split: option.split)+

subsection \<open>Opening a run\<close>

definition withSlot :: "Controller \<Rightarrow> runSlot \<Rightarrow> Controller" where
  "withSlot c s =
     c\<lparr>c_epoch := Suc (c_epoch c), c_heap := c_heap c @ [s], c_slots := c_slots c @ [length (c_heap c)]\<rparr>"

lemma withSlot_fields [simp]:
  "c_epoch (withSlot c s) = Suc (c_epoch c)" "length (c_heap (withSlot c s)) = Suc (length (c_heap c))"
  "c_slots (withSlot c s) = c_slots c @ [length (c_heap c)]"
  by (simp_all add: withSlot_def)

lemma slot_withSlot:
  "slot (withSlot c s) (length (c_heap c)) = s"
  "q < length (c_heap c) \<Longrightarrow> slot (withSlot c s) q = slot c q"
  by (simp_all add: withSlot_def slot_def nth_append)

lemma slot_epoch_le: "store_inv c \<Longrightarrow> q < length (c_heap c) \<Longrightarrow> rs_epoch (slot c q) \<le> c_epoch c"
  using store_slot [of c q] by (simp add: slot_inv_def)

lemma store_withSlot:
  assumes st: "store_inv c" and nl: "no_live c" and fresh: "runID \<notin> rs_runID ` set (c_heap c)"
  shows "store_inv (withSlot c (newSlot runID nonce (Suc (c_epoch c)) trigger now))"
    (is "store_inv ?c")
proof -
  have old: "slot_inv (Suc (c_epoch c)) (slot c q) \<and> \<not> live (rs_state (slot c q))"
    if "q < length (c_heap c)" for q
    using store_slot [OF st that] nl that by (simp add: no_live_def slot_inv_Suc)
  have new: "slot_inv (Suc (c_epoch c)) (slot ?c (length (c_heap c)))"
    by (simp add: slot_withSlot newSlot_def slot_inv_def)
  have le: "rs_epoch x < Suc (c_epoch c)" if "x \<in> set (c_heap c)" for x
    using slot_epoch_le [OF st] that by (auto simp: in_set_conv_nth slot_def less_Suc_eq_le)
  have "sorted_wrt (<) (map rs_epoch (c_heap ?c))"
    using st le by (auto simp: store_inv_def withSlot_def sorted_wrt_append newSlot_def)
  moreover have "distinct (map rs_runID (c_heap ?c))"
    using st fresh by (auto simp: store_inv_def withSlot_def newSlot_def)
  moreover have "sorted_wrt (<) (c_slots ?c)"
    using st by (auto simp: store_inv_def sorted_wrt_append)
  moreover have "\<forall>q \<in> set (c_slots ?c). q < length (c_heap ?c)"
    using store_ref [OF st] by (auto simp: less_Suc_eq)
  moreover have "\<forall>q < length (c_heap ?c). slot_inv (c_epoch ?c) (slot ?c q)"
    using old new by (simp add: less_Suc_eq slot_withSlot)
  moreover have "\<forall>q < length (c_heap ?c). live (rs_state (slot ?c q)) \<longrightarrow> q \<in> set (c_slots ?c)"
    using old by (simp add: less_Suc_eq slot_withSlot)
  moreover have "\<forall>q \<in> set (c_slots ?c). rs_state (slot ?c q) \<in> {StateFinished, StateAcknowledged} \<longrightarrow>
      rs_snapshot (slot ?c q) \<noteq> None"
    using store_snapshot [OF st] store_ref [OF st] slot_withSlot by (auto simp: newSlot_def)
  ultimately show ?thesis unfolding store_inv_def by blast
qed

lemma task_ref:
  "task_inv c u \<Longrightarrow> driver q u \<or> joiner q u \<or> owner q u \<Longrightarrow> q < length (c_heap c)"
  by (cases u) auto

lemma task_withSlot:
  assumes "store_inv c" "task_inv c u" "\<not> starter u"
  shows "task_inv (withSlot c s) u"
proof -
  have "rs_epoch (slot c q) \<noteq> Suc (c_epoch c)" if "q < length (c_heap c)" for q
    using slot_epoch_le [OF assms(1) that] by simp
  then show ?thesis
    by (cases u) (use assms(2,3) in \<open>auto simp: slot_withSlot\<close>)
qed

lemma pool_withSlot:
  assumes pl: "pool_inv c (add_mset t P) m" and t: "starter t" "\<And>q. \<not> joiner q t \<and> \<not> driver q t \<and> \<not> owner q t"
    and tk: "\<And>u. u \<in># P \<Longrightarrow> task_inv c u" and s: "rs_owners s = 1"
  shows "pool_inv (withSlot c s) (add_mset (TOpen (length (c_heap c)) ep runID nonce p) P) m"
proof -
  let ?n = "length (c_heap c)"
  have none: "filter_mset (driver ?n) P = {#}" "filter_mset (owner ?n) P = {#}"
    using task_ref [of c _ ?n] tk by (auto simp: filter_mset_eq_mempty_iff)
  show ?thesis
  proof (rule pool_invI)
    fix q
    show "size (filter_mset (driver q) (add_mset (TOpen ?n ep runID nonce p) P)) \<le> 1"
      using pool_counts(1) [OF pl, of q] none(1) t(2) [of q] by (cases "q = ?n") auto
    show "size (filter_mset (joiner q) (add_mset (TOpen ?n ep runID nonce p) P)) \<le> 1"
      using pool_counts(2) [OF pl, of q] t(2) [of q] by auto
    show "rs_owners (slot (withSlot c s) q) =
        int (size (filter_mset (owner q) (add_mset (TOpen ?n ep runID nonce p) P)))"
      if "q < length (c_heap (withSlot c s))"
      using pool_counts(4) [OF pl, of q] none(2) t(2) [of q] that s
      by (cases "q = ?n") (auto simp: slot_withSlot)
  qed (use pool_counts(3) [OF pl] t(1) in auto)
qed

lemma no_other_starter:
  "pool_inv c (add_mset t P) m \<Longrightarrow> starter t \<Longrightarrow> u \<in># P \<Longrightarrow> \<not> starter u"
  by (rule filter_le_one [of starter t P]) (auto simp: pool_inv_def)

lemma Inv_start_alloc:
  assumes inv: "Inv c (add_mset (TAlloc opt runID nonce p) P) m"
    and fresh: "runID \<notin> rs_runID ` set (c_heap c)"
    and al: "beginAlloc c now runID nonce trigger = (r, ep, c')"
  shows "Inv c' (add_mset (TOpen r ep runID nonce p) P) m"
proof -
  let ?s = "newSlot runID nonce (Suc (c_epoch c)) trigger now"
  let ?c = "withSlot c ?s"
  have nl: "no_live c" using Inv_task [OF inv] by simp
  have f: "r = length (c_heap c)" "ep = Suc (c_epoch c)" "c' = evict ?c"
    using al by (auto simp: beginAlloc_def addSlotLocked_def withSlot_def Let_def)
  have "Inv ?c (add_mset (TOpen r ep runID nonce p) P) m"
  proof (rule InvI)
    show "store_inv ?c" by (rule store_withSlot [OF Inv_store [OF inv] nl fresh])
    show "pool_inv ?c (add_mset (TOpen r ep runID nonce p) P) m" unfolding f(1)
      by (rule pool_withSlot [OF Inv_pool [OF inv]])
        (use Inv_tasks [OF inv] in \<open>auto simp: newSlot_def\<close>)
    fix u assume "u \<in># add_mset (TOpen r ep runID nonce p) P"
    then consider "u = TOpen r ep runID nonce p" | "u \<in># P" by auto
    then show "task_inv ?c u"
    proof cases
      case 1
      then show ?thesis by (simp add: f slot_withSlot newSlot_def)
    next
      case 2
      then show ?thesis
        using task_withSlot [OF Inv_store [OF inv] Inv_tasks [OF inv "2"]]
          no_other_starter [OF Inv_pool [OF inv] _ "2"] by simp
    qed
  qed
  then show ?thesis unfolding f(3)
  proof (rule Inv_evict)
    fix q assume "q < length (c_heap ?c)"
    then show "rs_state (slot ?c q) \<noteq> StateFinished"
      using nl by (auto simp: less_Suc_eq slot_withSlot newSlot_def no_live_def)
  qed
qed

subsection \<open>Sweeping\<close>

lemma Inv_sweepSlot:
  assumes inv: "Inv c P m" and r: "r < length (c_heap c)" and sw: "sweepSlot now r c = (keep, reqs, c')"
  shows "Inv c' P m" "c_slots c' = c_slots c" "length (c_heap c') = length (c_heap c)"
    "\<not> keep \<Longrightarrow> rs_state (slot c r) \<in> {StateAborted, StateExpired}"
    "rs_state (slot c q) \<in> {StateAborted, StateExpired} \<Longrightarrow> rs_state (slot c' q) = rs_state (slot c q)"
proof -
  let ?x = "\<lambda>s. s\<lparr>rs_state := StateExpired, rs_snapshot := None, rs_since := now\<rparr>"
  let ?y = "\<lambda>s. s\<lparr>rs_cancelled := True\<rparr>"
  consider "c' = c" "keep"
    | "c' = notifyLocked (upd c r ?x) r" "keep" "rs_state (slot c r) \<in> {StateFinished, StateAcknowledged}"
    | "c' = upd c r ?y" "rs_state (slot c r) \<in> {StateAborted, StateExpired}"
    using sw by (cases "rs_state (slot c r)") (auto simp: sweepSlot_def Let_def split: if_splits)
  then have "Inv c' P m \<and> c_slots c' = c_slots c \<and> length (c_heap c') = length (c_heap c)
      \<and> (\<not> keep \<longrightarrow> rs_state (slot c r) \<in> {StateAborted, StateExpired})
      \<and> (rs_state (slot c q) \<in> {StateAborted, StateExpired} \<longrightarrow> rs_state (slot c' q) = rs_state (slot c q))"
  proof cases
    case 2
    have "Inv c' P m" unfolding "2"(1)
      by (rule Inv_move [OF inv r])
        (use "2"(3) store_slot [OF Inv_store [OF inv] r] in \<open>auto simp: slot_inv_def\<close>)
    then show ?thesis using "2" r by (auto simp: slot_simps)
  next
    case 3
    have "Inv c' (add_mset (TAbort [] [] KReturn) P) m" unfolding "3"(1)
      by (rule Inv_cancel [OF Inv_enter [OF inv] r])
    then have "Inv c' P m" by (auto simp: Inv_def pool_inv_def)
    then show ?thesis using "3" r by (auto simp: slot_simps)
  qed (use inv in simp)
  then show "Inv c' P m" "c_slots c' = c_slots c" "length (c_heap c') = length (c_heap c)"
    "\<not> keep \<Longrightarrow> rs_state (slot c r) \<in> {StateAborted, StateExpired}"
    "rs_state (slot c q) \<in> {StateAborted, StateExpired} \<Longrightarrow> rs_state (slot c' q) = rs_state (slot c q)"
    by blast+
qed

lemma Inv_sweepLoop:
  "Inv c P m \<Longrightarrow> set rs \<subseteq> set (c_slots c) \<Longrightarrow> sorted_wrt (<) rs \<Longrightarrow>
   sweepLoop now rs c = (kept, reqs, c') \<Longrightarrow>
   Inv c' P m \<and> c_slots c' = c_slots c \<and> set kept \<subseteq> set rs \<and> sorted_wrt (<) kept
   \<and> (\<forall>q \<in> set rs - set kept. rs_state (slot c' q) \<in> {StateAborted, StateExpired})
   \<and> (\<forall>q. rs_state (slot c q) \<in> {StateAborted, StateExpired} \<longrightarrow> rs_state (slot c' q) = rs_state (slot c q))"
proof (induction rs arbitrary: c kept reqs c')
  case (Cons r rs)
  obtain keep reqs1 c1 where s1: "sweepSlot now r c = (keep, reqs1, c1)" by (metis prod_cases3)
  obtain kept' reqs2 c2 where s2: "sweepLoop now rs c1 = (kept', reqs2, c2)" by (metis prod_cases3)
  have r: "r < length (c_heap c)" using Cons.prems(2) store_ref [OF Inv_store [OF Cons.prems(1)]] by auto
  note sw = Inv_sweepSlot [OF Cons.prems(1) r s1]
  have f: "c' = c2" "kept = (if keep then r # kept' else kept')"
    using Cons.prems(4) by (simp_all add: s1 s2)
  have IH: "Inv c2 P m" "c_slots c2 = c_slots c1" "set kept' \<subseteq> set rs" "sorted_wrt (<) kept'"
    "\<forall>q \<in> set rs - set kept'. rs_state (slot c2 q) \<in> {StateAborted, StateExpired}"
    "\<forall>q. rs_state (slot c1 q) \<in> {StateAborted, StateExpired} \<longrightarrow> rs_state (slot c2 q) = rs_state (slot c1 q)"
    using Cons.IH [OF sw(1) _ _ s2] Cons.prems(2,3) sw(2) by auto
  have "\<not> keep \<Longrightarrow> rs_state (slot c2 r) \<in> {StateAborted, StateExpired}"
    using sw(4) sw(5) [of r] IH(6) by metis
  moreover have "sorted_wrt (<) kept" using IH(3,4) Cons.prems(3) by (auto simp: f)
  moreover have "\<forall>q. rs_state (slot c q) \<in> {StateAborted, StateExpired} \<longrightarrow>
      rs_state (slot c2 q) = rs_state (slot c q)" using sw(5) IH(6) by metis
  ultimately show ?case using IH(1-3,5) sw(2) unfolding f by (auto split: if_splits)
qed simp

lemma Inv_sweep:
  assumes inv: "Inv c P m" and sw: "sweepLocked now c = (reqs, c')"
  shows "Inv (recordHealth c' hl) (sweepTasks reqs + P) m"
proof -
  obtain kept c1 where sl: "sweepLoop now (c_slots c) c = (kept, reqs, c1)"
    and c': "c' = c1\<lparr>c_slots := kept\<rparr>"
    using sw by (auto simp: sweepLocked_def split: prod.splits)
  have "sorted_wrt (<) (c_slots c)" using Inv_store [OF inv] by (simp add: store_inv_def)
  note l = Inv_sweepLoop [OF inv subset_refl this sl]
  have "Inv c' P m" unfolding c'
  proof (rule Inv_retain)
    fix q assume "q < length (c_heap c1)" "live (rs_state (slot c1 q))"
    then have "q \<in> set (c_slots c1)" using l live_retained Inv_store by blast
    then have "q \<in> set kept \<or> rs_state (slot c1 q) \<in> {StateAborted, StateExpired}" using l by auto
    then show "q \<in> set kept" using \<open>live (rs_state (slot c1 q))\<close> by auto
  qed (use l in auto)
  then have "Inv (recordHealth c' hl) P m" by (rule Inv_same_core) simp
  then show ?thesis by (rule Inv_add_task) (auto simp: sweepTasks_def)
qed

subsection \<open>All steps\<close>

lemma Inv_abort_call: "Inv c P m \<Longrightarrow> Inv c (add_mset (TAbort runID reason KReturn) P) m"
  by (rule Inv_enter)

lemmas Inv_steps =
  Inv_start_plan Inv_abort_call Inv_abort_return Inv_abort_giveup Inv_abort_fence Inv_abort_settle
  Inv_reap Inv_reap_giveup Inv_start_ack Inv_start_alloc Inv_open_boundary Inv_open_commit
  Inv_open_fenced Inv_start_return Inv_drain_commit Inv_discard_commit Inv_finish_claim
  Inv_freeze_boundary Inv_freeze_commit Inv_freeze_fenced Inv_finish_build Inv_finish_publish
  Inv_publish_fenced Inv_finish_commit Inv_retire Inv_ack Inv_sweep

definition SysInv :: "Sys \<Rightarrow> bool" where
  "SysInv s \<longleftrightarrow> Inv (ctl s) (pool s) (startMu s)"

lemma step_SysInv: "step s s' \<Longrightarrow> SysInv s \<Longrightarrow> SysInv s'"
  unfolding SysInv_def
proof (induction rule: step.induct)
  case (register_generation c P m reg g)
  then show ?case by (simp add: Inv_same_core)
next
  case (register_baseline c P m reg b)
  then show ?case by (simp add: Inv_same_core)
qed (simp_all only: Sys.select_convs, (rule Inv_steps; assumption)+)

lemma New_empty:
  "New b ob = Inr c \<Longrightarrow> c_heap c = [] \<and> c_slots c = [] \<and> c_epoch c = 0 \<and> c_budgets c = withDefaults b
     \<and> Validate (withDefaults b) = None \<and> c_events c = [] \<and> c_observer c = ob"
  by (auto simp: New_def Let_def split: option.splits)

lemma initial_SysInv: "initial s \<Longrightarrow> SysInv s"
  by (auto simp: initial_def SysInv_def Inv_def store_inv_def pool_inv_def dest: New_empty)

lemma reachable_SysInv: "reachable s \<Longrightarrow> SysInv s"
  by (induction rule: reachable_induct) (auto intro: initial_SysInv step_SysInv)

lemma reachable_store: "reachable s \<Longrightarrow> store_inv (ctl s)"
  using reachable_SysInv by (simp add: SysInv_def Inv_def)

end
