(* ===== verification/Run_History.thy ===== *)
theory Run_History
  imports Run_Preservation
begin

text \<open>
  How one run's record may change from one step to the next: the lifecycle's transition table, what
  is written once, what only grows. Every step of the controller respects \<open>evolve\<close>, which gives the
  properties of whole executions by induction.
\<close>

fun transition :: "RunState \<Rightarrow> RunState \<Rightarrow> bool" where
  "transition StateStarting st = (st \<in> {StateStarted, StateAborted, StateAborting})"
| "transition StateStarted st = (st \<in> {StateFinishing, StateAborting})"
| "transition StateFinishing st = (st \<in> {StateFinished, StateAborting})"
| "transition StateFinished st = (st \<in> {StateAcknowledged, StateExpired, StateAborting})"
| "transition StateAcknowledged st = (st = StateExpired)"
| "transition StateAborting st = (st = StateAborted)"
| "transition _ st = False"

definition evolve :: "runSlot \<Rightarrow> runSlot \<Rightarrow> bool" where
  "evolve s s' \<longleftrightarrow>
     rs_runID s' = rs_runID s \<and> rs_epoch s' = rs_epoch s \<and> rs_nonce s' = rs_nonce s
     \<and> (rs_state s' = rs_state s \<or> transition (rs_state s) (rs_state s'))
     \<and> validityRank (rs_validity s) \<le> validityRank (rs_validity s')
     \<and> (rs_finishSet s \<longrightarrow> rs_finishSet s' \<and> rs_finish s' = rs_finish s)
     \<and> (rs_state s \<noteq> StateStarting \<longrightarrow> rs_start s' = rs_start s)
     \<and> (rs_sealed s \<longrightarrow> rs_sealed s') \<and> (rs_done s \<longrightarrow> rs_done s')
     \<and> (rs_cancelled s \<longrightarrow> rs_cancelled s')
     \<and> (rs_snapshot s \<noteq> None \<longrightarrow> rs_snapshot s' = rs_snapshot s \<or>
          rs_snapshot s' = None \<and> rs_state s' \<notin> {StateStarting, StateStarted, StateFinishing})
     \<and> (rs_snapshot s = None \<and> rs_snapshot s' \<noteq> None \<longrightarrow> rs_state s = StateFinishing)
     \<and> (rs_state s = StateAborted \<longrightarrow> rs_abort s' = rs_abort s)"

lemma evolve_refl [simp]: "evolve s s"
  by (auto simp: evolve_def)

definition moves :: "Controller \<Rightarrow> Controller \<Rightarrow> bool" where
  "moves c c' \<longleftrightarrow>
     c_epoch c \<le> c_epoch c' \<and> c_epoch c' \<le> Suc (c_epoch c)
     \<and> length (c_heap c) \<le> length (c_heap c')
     \<and> (\<forall>q < length (c_heap c). evolve (slot c q) (slot c' q))"

lemma moves_core: "same_core c c' \<Longrightarrow> moves c c'"
  using same_core_slot [of c c'] by (simp add: moves_def) (simp add: same_core_def)

lemma moves_refl [simp]: "moves c c"
  by (rule moves_core) simp

lemma moves_core_left: "same_core c c1 \<Longrightarrow> moves c1 c2 \<Longrightarrow> moves c c2"
  using same_core_slot [of c c1] by (simp add: moves_def) (simp add: same_core_def)

lemma moves_core_right: "moves c c1 \<Longrightarrow> same_core c1 c2 \<Longrightarrow> moves c c2"
  using same_core_slot [of c1 c2] by (simp add: moves_def) (simp add: same_core_def)

lemma moves_upd:
  "r < length (c_heap c) \<Longrightarrow> evolve (slot c r) (f (slot c r)) \<Longrightarrow> moves c (upd c r f)"
  by (simp add: moves_def slot_simps)

lemma moves_slot:
  assumes "r < length (c_heap c)" "evolve (slot c r) (slot c' r)"
    and "\<And>q. q \<noteq> r \<Longrightarrow> slot c' q = slot c q" "length (c_heap c') = length (c_heap c)"
    and "c_epoch c \<le> c_epoch c'" "c_epoch c' \<le> Suc (c_epoch c)"
  shows "moves c c'"
  unfolding moves_def
proof (intro conjI allI impI)
  fix q
  show "evolve (slot c q) (slot c' q)" using assms(2,3) by (cases "q = r") simp_all
qed (use assms(4-6) in simp_all)

lemma moves_notify_upd:
  assumes "r < length (c_heap c)" "evolve (slot c r) (f (slot c r))"
  shows "moves c (notifyLocked (upd c r f) r)"
proof (rule moves_slot [OF assms(1)])
  show "evolve (slot c r) (slot (notifyLocked (upd c r f) r) r)"
    using assms by (simp add: slot_simps evolve_def)
qed (use assms(1) in \<open>simp_all add: slot_simps\<close>)

text \<open>A fenced commit on the slot that owns the epoch.\<close>

lemma moves_commit:
  assumes "store_inv c" "r < length (c_heap c)" "rs_epoch (slot c r) = ep"
    and "commit c ep (\<lambda>r c. upd c r f) = (res, c')"
    and "ep = c_epoch c \<Longrightarrow> evolve (slot c r) (f (slot c r))"
  shows "moves c c'"
  using assms(1-4)
proof (cases rule: commit_cases)
  case rejected
  then show ?thesis by (simp add: moves_core)
next
  case committed
  then show ?thesis using moves_notify_upd [OF assms(2)] assms(5) by simp
qed

subsection \<open>Each step\<close>

lemma moves_open_commit:
  assumes inv: "Inv c (add_mset (TOpened r ep nonce so) P) m"
    and cm: "beginCommit c ep so now nonceNow nonce = (None, c')"
  shows "moves c (openObserve so c')"
proof -
  have r: "r < length (c_heap c)" and ep: "rs_epoch (slot c r) = ep" and ok: "outcome_ok so"
    using Inv_task [OF inv] by simp_all
  have cur: "ep = c_epoch c" and c': "c' = notifyLocked (openMutate so now nonceNow nonce r c) r"
    using commit_cases [OF Inv_store [OF inv] r ep cm [unfolded beginCommit_def]] by auto
  let ?c = "notifyLocked (upd c r (openSlot so now)) r"
  have core: "same_core ?c (openObserve so c')"
    by (simp add: c' openMutate_def Let_def same_core_def notifyLocked_def upd_def
        rememberNonceLocked_def openObserve_def)
  have s: "rs_state (slot c r) = StateStarting" using Inv_task [OF inv] cur by simp
  moreover have "rs_validity (slot c r) = ValidityValid"
    using s store_slot [OF Inv_store [OF inv] r] by (simp add: slot_inv_def)
  moreover have "\<not> rs_finishSet (slot c r)" "\<not> rs_sealed (slot c r)" "\<not> rs_done (slot c r)"
    using s store_slot [OF Inv_store [OF inv] r] by (auto simp: slot_inv_def)
  moreover have "validityRank ValidityValid \<le> validityRank (st_Validity (so_res so))"
    using ok by (cases "st_Validity (so_res so)") (simp_all add: outcome_ok_def)
  moreover have "rs_nonce (openSlot so now s) = rs_nonce s \<and> rs_cancelled (openSlot so now s) = rs_cancelled s" for s
    by (simp add: openSlot_def Let_def sealLocked_def closeDoneLocked_def beginOwnerLocked_def)
  ultimately have "evolve (slot c r) (openSlot so now (slot c r))"
    using ok by (auto simp: evolve_def outcome_ok_def)
  then show ?thesis using moves_core_right [OF moves_notify_upd [OF r] core] by blast
qed

lemma moves_freeze_commit:
  assumes inv: "Inv c (add_mset (TFrozen r ep fo) P) m" and cm: "freezeCommit c ep fo now = (None, c')"
  shows "moves c (finishObserve r ep fo c')"
proof -
  have r: "r < length (c_heap c)" "rs_epoch (slot c r) = ep" using Inv_task [OF inv] by simp_all
  have c': "c' = notifyLocked (upd c r (freezeSlot fo (c_budgets c) now)) r" and cur: "ep = c_epoch c"
    using commit_cases [OF Inv_store [OF inv] r cm [unfolded freezeCommit_def]] by auto
  have "\<not> rs_finishSet (slot c r)" "rs_snapshot (slot c r) = None"
    using Inv_task [OF inv] cur by simp_all
  then have "evolve (slot c r) (freezeSlot fo (c_budgets c) now (slot c r))"
    by (simp add: evolve_def freezeSlot_def beginOwnerLocked_def)
  from moves_notify_upd [where f = "freezeSlot fo (c_budgets c) now", OF r(1) this]
  show ?thesis unfolding c' finishObserve_def by (rule moves_core_right) simp
qed

lemma moves_publish:
  assumes inv: "Inv c (add_mset (TBuilt r ep snap) P) m" and cm: "publish c ep snap = (None, c')"
  shows "moves c c'"
proof -
  have r: "r < length (c_heap c)" "rs_epoch (slot c r) = ep" using Inv_task [OF inv] by simp_all
  obtain q where q: "fencedSlotLocked c ep = Some q"
    "c' = (upd c q (\<lambda>s. s\<lparr>rs_snapshot := Some snap\<rparr>))\<lparr>c_published := Suc (c_published c)\<rparr>"
    using cm by (auto simp: publish_None)
  have "q = r" and "ep = c_epoch c" using fenced_is [OF Inv_store [OF inv] r q(1)] by simp_all
  then have "rs_state (slot c r) = StateFinishing" "rs_snapshot (slot c r) = None"
    using Inv_task [OF inv] by simp_all
  then have "moves c (upd c r (\<lambda>s. s\<lparr>rs_snapshot := Some snap\<rparr>))"
    by (intro moves_upd [OF r(1)]) (simp add: evolve_def)
  then show ?thesis unfolding q(2) \<open>q = r\<close> by (rule moves_core_right) (simp add: same_core_def)
qed

lemma moves_finish_commit:
  assumes inv: "Inv c (add_mset (TPublished r ep v) P) m" and cm: "finishCommit c ep v now = (res, c')"
  shows "moves c c'"
proof -
  have r: "r < length (c_heap c)" "rs_epoch (slot c r) = ep" using Inv_task [OF inv] by simp_all
  show ?thesis
    by (rule moves_commit [OF Inv_store [OF inv] r cm [unfolded finishCommit_def]])
      (use Inv_task [OF inv] in \<open>auto simp: evolve_def finishSlot_def sealLocked_def closeDoneLocked_def Let_def\<close>)
qed

lemma moves_finish_claim:
  assumes inv: "Inv c P m" and en: "finishEnter c now runID = (FinishClaimed r ep, c')"
  shows "moves c c'"
proof -
  note f = finishEnter_claimed [OF en Inv_store [OF inv]]
  have "\<not> rs_finishSet (slot c r)" "rs_snapshot (slot c r) = None"
    using f(2) store_slot [OF Inv_store [OF inv] f(1)] by (simp_all add: slot_inv_def)
  then have "evolve (slot c r) (claimSlot (c_budgets c) now (slot c r))"
    using f(2) by (simp add: evolve_def claimSlot_def beginOwnerLocked_def)
  then show ?thesis unfolding f(4) by (intro moves_notify_upd [OF f(1)])
qed

lemma moves_ack:
  assumes st: "store_inv c"
  shows "moves c (snd (AckBy c now runID by))"
  using st
proof (cases rule: AckBy_cases [of c now runID "by"])
  case (acked r)
  have "r < length (c_heap c)" using lookupLocked_Some [OF acked(1)] store_ref [OF st] by blast
  then show ?thesis unfolding acked(3)
    by (intro moves_notify_upd) (use acked(2) in \<open>auto simp: evolve_def\<close>)
qed simp

lemma moves_abort_fence:
  assumes inv: "Inv c P m" and en: "abortEnter c now runID reason = (AbortFenced r ep partial, c')"
  shows "moves c (abortCancel c' r runID ep reason now)"
proof -
  from en Inv_store [OF inv] have r: "r < length (c_heap c)" and lv: "live (rs_state (slot c r))"
    and c': "c' = notifyLocked ((upd c r (abortFence now))\<lparr>c_epoch := Suc (c_epoch c)\<rparr>) r"
    by (cases rule: abortEnter_cases; auto)+
  have "transition (rs_state (slot c r)) StateAborting" using lv by (auto simp: live_def)
  moreover have "\<not> rs_state (slot c r) = StateAborted" using lv by auto
  ultimately show ?thesis
    by (intro moves_slot [OF r])
      (use r in \<open>auto simp: c' abortCancel_def slot_simps evolve_def abortFence_def sealLocked_def
          closeDoneLocked_def Let_def\<close>)
qed

lemma moves_abort_settle:
  assumes inv: "Inv c (add_mset (TJoin r runID ep reason partial k) P) m"
    and se: "abortSettle c r res = (gen, base, c')"
  shows "moves c (recordHealth (releaseBaseline relB base (releaseGeneration relG gen c')) l)"
proof -
  have r: "r < length (c_heap c)" and s: "rs_state (slot c r) = StateAborting"
    using Inv_task [OF inv] by simp_all
  have c': "c' = notifyLocked (upd c r (settleSlot res)) r"
    using se by (simp add: abortSettle_def Let_def)
  have "evolve (slot c r) (settleSlot res (slot c r))"
    using s validityRank_le_2 by (auto simp: evolve_def settleSlot_def Let_def)
  from moves_notify_upd [where f = "settleSlot res", OF r this]
  show ?thesis unfolding c' by (rule moves_core_right) (intro core_intros same_core_refl)
qed

lemma moves_end_owner: "r < length (c_heap c) \<Longrightarrow> moves c (endOwner c r)"
  unfolding endOwner_def
  by (rule moves_upd) (auto simp: evolve_def retireOwner_def closeDoneLocked_def Let_def)

lemma moves_reap:
  assumes "r < length (c_heap c)" "reapTake c r = (gen, base, c')"
  shows "moves c (releaseBaseline relB base (releaseGeneration relG gen c'))"
proof -
  have "c' = upd c r (\<lambda>s. s\<lparr>rs_gen := [], rs_genFinal := [], rs_base := [], rs_baseF := []\<rparr>)"
    using assms(2) by (simp add: reapTake_def Let_def)
  moreover have "moves c (upd c r (\<lambda>s. s\<lparr>rs_gen := [], rs_genFinal := [], rs_base := [], rs_baseF := []\<rparr>))"
    by (rule moves_upd [OF assms(1)]) (auto simp: evolve_def)
  ultimately have "moves c c'" by simp
  then show ?thesis by (rule moves_core_right) (intro core_intros same_core_refl)
qed

lemma moves_drain_commit:
  assumes inv: "Inv c (add_mset (TDrain r ep gen) P) m"
    and cm: "startDrainCommit (drainAndRelease drain relG gen c) ep = (res, c')"
  shows "moves c c'"
proof -
  have inv': "Inv (drainAndRelease drain relG gen c) (add_mset (TDrain r ep gen) P) m"
    by (rule Inv_same_core [OF inv]) simp
  have "moves (drainAndRelease drain relG gen c) c'"
    by (rule moves_commit [OF Inv_store [OF inv'] _ _ cm [unfolded startDrainCommit_def]])
      (use Inv_task [OF inv'] in \<open>auto simp: evolve_def\<close>)
  then show ?thesis by (rule moves_core_left [rotated]) simp
qed

lemma moves_discard_commit:
  assumes inv: "Inv c (add_mset (TDiscard r ep gen base) P) m"
    and cm: "discardCommit (releaseBaseline relB base (drainAndRelease drain relG gen c)) ep = (res, c')"
  shows "moves c (upd c' r (\<lambda>s. s\<lparr>rs_cancelled := True\<rparr>))"
proof -
  define d where "d = releaseBaseline relB base (drainAndRelease drain relG gen c)"
  have core: "same_core c d" by (simp add: d_def releaseBaseline_core)
  have inv': "Inv d (add_mset (TDiscard r ep gen base) P) m" by (rule Inv_same_core [OF inv core])
  have r: "r < length (c_heap d)" "rs_epoch (slot d r) = ep" using Inv_task [OF inv'] by simp_all
  from Inv_store [OF inv'] r cm [folded d_def, unfolded discardCommit_def]
  have "moves d (upd c' r (\<lambda>s. s\<lparr>rs_cancelled := True\<rparr>))"
  proof (cases rule: commit_cases)
    case rejected
    then have "c_heap c' = c_heap d" by (simp add: same_core_def)
    then have "moves c' (upd c' r (\<lambda>s. s\<lparr>rs_cancelled := True\<rparr>))"
      using r by (intro moves_upd) (auto simp: evolve_def)
    then show ?thesis by (rule moves_core_left [OF rejected(2)])
  next
    case committed
    then show ?thesis
      by (intro moves_slot [OF r(1)]) (use r in \<open>auto simp: slot_simps evolve_def\<close>)
  qed
  then show ?thesis by (rule moves_core_left [OF core])
qed

lemma evolve_forget:
  "\<not> active (rs_state s) \<Longrightarrow> evolve s (s\<lparr>rs_snapshot := None, rs_cancelled := True\<rparr>)"
  by (auto simp: evolve_def active_def)

text \<open>Eviction keeps a record as it is, or drops its snapshot and ends its context.\<close>

lemma evict_slot:
  "(\<And>r. r \<in> set (c_slots c) \<Longrightarrow> r < length (c_heap c)) \<Longrightarrow>
   slot (evict c) q = slot c q \<or>
   \<not> active (rs_state (slot c q)) \<and>
   slot (evict c) q = (slot c q)\<lparr>rs_snapshot := None, rs_cancelled := True\<rparr>"
proof (induction c rule: evict.induct)
  case (1 c)
  show ?case
  proof (cases "length (c_slots c) > RetainedRuns")
    case big: True
    show ?thesis
    proof (cases "find_index (\<lambda>r. \<not> active (rs_state (slot c r))) (c_slots c)")
      case None
      then show ?thesis using big by (subst (1 2) evict.simps) simp
    next
      case (Some i)
      note i = find_index_Some [OF Some]
      let ?r = "c_slots c ! i" and ?c = "drop_slot c i"
      have r: "?r < length (c_heap c)" using "1.prems" i by simp
      have "set (c_slots ?c) \<subseteq> set (c_slots c)" using set_remove_at by (simp add: drop_slot_def)
      then have IH: "slot (evict ?c) q = slot ?c q \<or> \<not> active (rs_state (slot ?c q)) \<and>
          slot (evict ?c) q = (slot ?c q)\<lparr>rs_snapshot := None, rs_cancelled := True\<rparr>"
        using "1.prems" by (intro "1.IH" [OF big Some]) auto
      have at: "slot ?c q =
          (if q = ?r then (slot c q)\<lparr>rs_snapshot := None, rs_cancelled := True\<rparr> else slot c q)"
        using r by (simp add: drop_slot_def slot_simps)
      have "evict c = evict ?c" using big Some by (subst evict.simps) simp
      then show ?thesis using IH at i by (cases "q = ?r") auto
    qed
  qed (subst (1 2) evict.simps, simp)
qed

lemma moves_start_alloc:
  assumes inv: "Inv c P m" and nl: "no_live c"
    and al: "beginAlloc c now runID nonce trigger = (r, ep, c')"
  shows "moves c c'"
proof -
  let ?s = "newSlot runID nonce (Suc (c_epoch c)) trigger now"
  let ?c = "withSlot c ?s"
  have c': "c' = evict ?c"
    using al by (auto simp: beginAlloc_def addSlotLocked_def withSlot_def Let_def)
  have refs: "\<And>q. q \<in> set (c_slots ?c) \<Longrightarrow> q < length (c_heap ?c)"
    using store_ref [OF Inv_store [OF inv]] by (auto simp: less_Suc_eq)
  have "evolve (slot c q) (slot (evict ?c) q)" if "q < length (c_heap c)" for q
    using evict_slot [of ?c q] refs evolve_forget [of "slot c q"] that by (auto simp: slot_withSlot)
  then show ?thesis by (simp add: moves_def c')
qed

subsection \<open>Sweeping\<close>

lemma sweepSlot_evolve:
  assumes r: "r < length (c_heap c)" and sw: "sweepSlot now r c = (keep, reqs, c')"
  shows "evolve (slot c r) (slot c' r)" "q \<noteq> r \<Longrightarrow> slot c' q = slot c q"
    "length (c_heap c') = length (c_heap c)" "c_epoch c' = c_epoch c"
proof -
  have "evolve (slot c r) (slot c' r) \<and> (q \<noteq> r \<longrightarrow> slot c' q = slot c q)
      \<and> length (c_heap c') = length (c_heap c) \<and> c_epoch c' = c_epoch c"
    using sw r by (cases "rs_state (slot c r)")
      (auto simp: sweepSlot_def Let_def slot_simps evolve_def split: if_splits)
  then show "evolve (slot c r) (slot c' r)" "q \<noteq> r \<Longrightarrow> slot c' q = slot c q"
    "length (c_heap c') = length (c_heap c)" "c_epoch c' = c_epoch c" by blast+
qed

lemma sweepLoop_evolve:
  "distinct rs \<Longrightarrow> \<forall>r \<in> set rs. r < length (c_heap c) \<Longrightarrow> sweepLoop now rs c = (kept, reqs, c') \<Longrightarrow>
   length (c_heap c') = length (c_heap c) \<and> c_epoch c' = c_epoch c \<and>
   (\<forall>q. evolve (slot c q) (slot c' q)) \<and> (\<forall>q. q \<notin> set rs \<longrightarrow> slot c' q = slot c q)"
proof (induction rs arbitrary: c kept reqs c')
  case (Cons r rs)
  obtain keep reqs1 c1 where s1: "sweepSlot now r c = (keep, reqs1, c1)" by (metis prod_cases3)
  obtain kept' reqs2 c2 where s2: "sweepLoop now rs c1 = (kept', reqs2, c2)" by (metis prod_cases3)
  have r: "r < length (c_heap c)" using Cons.prems(2) by simp
  note sw = sweepSlot_evolve [OF r s1]
  have c': "c' = c2" using Cons.prems(3) by (simp add: s1 s2)
  have IH: "length (c_heap c2) = length (c_heap c1) \<and> c_epoch c2 = c_epoch c1 \<and>
      (\<forall>q. evolve (slot c1 q) (slot c2 q)) \<and> (\<forall>q. q \<notin> set rs \<longrightarrow> slot c2 q = slot c1 q)"
    using Cons.IH [OF _ _ s2] Cons.prems(1,2) sw(3) by simp
  have "evolve (slot c q) (slot c2 q)" for q
    using IH sw(1) sw(2) [of q] Cons.prems(1) by (cases "q = r") (simp_all, metis)
  then show ?case unfolding c' using IH sw(2-4) by auto
qed simp

lemma moves_sweep:
  assumes inv: "Inv c P m" and sw: "sweepLocked now c = (reqs, c')"
  shows "moves c (recordHealth c' hl)"
proof -
  obtain kept c1 where sl: "sweepLoop now (c_slots c) c = (kept, reqs, c1)"
    and c': "c' = c1\<lparr>c_slots := kept\<rparr>"
    using sw by (auto simp: sweepLocked_def split: prod.splits)
  have "moves c c'"
    using sweepLoop_evolve [OF slots_distinct [OF Inv_store [OF inv]] _ sl] store_ref [OF Inv_store [OF inv]]
    by (auto simp: moves_def c' slot_simps)
  then show ?thesis by (rule moves_core_right) simp
qed

subsection \<open>All steps\<close>

lemma step_moves: "step s s' \<Longrightarrow> SysInv s \<Longrightarrow> moves (ctl s) (ctl s')"
  unfolding SysInv_def
proof (induction rule: step.induct)
  case (abort_return c now runID reason res c' k P m)
  then have "Inv c (add_mset (TAbort runID reason k) P) m" by simp
  from abort_return(1) Inv_store [OF this] show ?case by (cases rule: abortEnter_cases) auto
next
  case (abort_giveup c now runID reason r c' k P m)
  then have "Inv c (add_mset (TAbort runID reason k) P) m" by simp
  from abort_giveup(1) Inv_store [OF this] show ?case by (cases rule: abortEnter_cases) auto
next
  case (start_alloc runID c now nonce opt r ep c' preempted P m)
  then show ?case using moves_start_alloc Inv_task by fastforce
next
  case (reap c r gen base c' P m relB relG)
  then show ?case using moves_reap Inv_task by fastforce
next
  case (open_fenced c ep so now nonceNow nonce e c' r P m relB relG)
  then show ?case using commit_core
    by (auto simp: beginCommit_def intro!: moves_core core_intros)
next
  case (freeze_fenced c ep fo now e c' r P m relB relG)
  then show ?case using commit_core
    by (auto simp: freezeCommit_def intro!: moves_core core_intros)
next
  case (publish_fenced c ep snap e c' r P m)
  then show ?case using publish_core by (auto intro!: moves_core)
next
  case (start_return c r P m)
  then show ?case using moves_end_owner Inv_task by fastforce
next
  case (retire c r P m)
  then show ?case using moves_end_owner Inv_task by fastforce
qed (simp_all add: moves_core moves_abort_fence moves_abort_settle moves_ack Inv_store moves_open_commit
    moves_drain_commit moves_discard_commit moves_finish_claim moves_freeze_commit moves_publish
    moves_finish_commit moves_sweep core_intros)

subsection \<open>Executions\<close>

inductive steps :: "Sys \<Rightarrow> Sys \<Rightarrow> bool" where
  steps_refl: "steps s s"
| steps_step: "steps s s' \<Longrightarrow> step s' s'' \<Longrightarrow> steps s s''"

lemma reachable_steps: "steps s s' \<Longrightarrow> reachable s \<Longrightarrow> reachable s'"
  by (induction rule: steps.induct) (auto intro: reachable_step)

text \<open>Reachability by states only.\<close>

definition later :: "RunState \<Rightarrow> RunState \<Rightarrow> bool" where
  "later st st' \<longleftrightarrow>
     (case st of
        StateAborted \<Rightarrow> st' = StateAborted
      | StateExpired \<Rightarrow> st' = StateExpired
      | StateAborting \<Rightarrow> st' \<in> {StateAborting, StateAborted}
      | StateAcknowledged \<Rightarrow> st' \<in> {StateAcknowledged, StateExpired}
      | StateFinished \<Rightarrow>
          st' \<in> {StateFinished, StateAcknowledged, StateExpired, StateAborting, StateAborted}
      | StateFinishing \<Rightarrow> st' \<notin> {StateZero, StateIdle, StateStarting, StateStarted}
      | StateStarted \<Rightarrow> st' \<notin> {StateZero, StateIdle, StateStarting}
      | StateStarting \<Rightarrow> st' \<notin> {StateZero, StateIdle}
      | _ \<Rightarrow> st' = st)"

lemma later_refl [simp]: "later st st"
  by (cases st) (simp_all add: later_def)

lemma later_transition: "later a b \<Longrightarrow> transition b d \<Longrightarrow> later a d"
  by (cases a; cases b) (auto simp: later_def)

text \<open>The part of \<open>evolve\<close> that survives any number of steps.\<close>

definition descends :: "runSlot \<Rightarrow> runSlot \<Rightarrow> bool" where
  "descends s s' \<longleftrightarrow>
     rs_runID s' = rs_runID s \<and> rs_epoch s' = rs_epoch s \<and> rs_nonce s' = rs_nonce s
     \<and> later (rs_state s) (rs_state s')
     \<and> validityRank (rs_validity s) \<le> validityRank (rs_validity s')
     \<and> (rs_finishSet s \<longrightarrow> rs_finishSet s' \<and> rs_finish s' = rs_finish s)
     \<and> (rs_state s \<noteq> StateStarting \<longrightarrow> rs_start s' = rs_start s)
     \<and> (rs_sealed s \<longrightarrow> rs_sealed s') \<and> (rs_done s \<longrightarrow> rs_done s')
     \<and> (rs_snapshot s \<noteq> None \<longrightarrow> rs_snapshot s' = rs_snapshot s \<or>
          rs_snapshot s' = None \<and> rs_state s' \<notin> {StateStarting, StateStarted, StateFinishing})
     \<and> (rs_state s = StateAborted \<longrightarrow> rs_abort s' = rs_abort s)"

lemma descends_refl [simp]: "descends s s"
  by (simp add: descends_def)

lemma later_not_back: "later st st' \<Longrightarrow> st \<noteq> StateStarting \<Longrightarrow> st' \<noteq> StateStarting"
  by (cases st) (auto simp: later_def)

lemma evolve_state: "evolve s s' \<Longrightarrow> rs_state s' = rs_state s \<or> transition (rs_state s) (rs_state s')"
  by (simp add: evolve_def)

lemma descends_later: "descends s s' \<Longrightarrow> later (rs_state s) (rs_state s')"
  by (simp add: descends_def)

text \<open>Identity, acceptance and the one-way flags compose by themselves.\<close>

definition keeps :: "runSlot \<Rightarrow> runSlot \<Rightarrow> bool" where
  "keeps s s' \<longleftrightarrow>
     validityRank (rs_validity s) \<le> validityRank (rs_validity s')
     \<and> rs_runID s' = rs_runID s \<and> rs_epoch s' = rs_epoch s \<and> rs_nonce s' = rs_nonce s
     \<and> (rs_finishSet s \<longrightarrow> rs_finishSet s' \<and> rs_finish s' = rs_finish s)
     \<and> (rs_sealed s \<longrightarrow> rs_sealed s') \<and> (rs_done s \<longrightarrow> rs_done s')"

lemma evolve_keeps: "evolve s s' \<Longrightarrow> keeps s s'"
  unfolding evolve_def keeps_def by blast

lemma descends_keeps: "descends s s' \<Longrightarrow> keeps s s'"
  unfolding descends_def keeps_def by blast

lemma keeps_trans: "keeps s s' \<Longrightarrow> keeps s' s'' \<Longrightarrow> keeps s s''"
  by (auto simp: keeps_def)

lemma descends_evolve:
  assumes "descends s s'" "evolve s' s''"
  shows "descends s s''"
proof -
  have lt: "later (rs_state s) (rs_state s'')"
    using evolve_state [OF assms(2)] descends_later [OF assms(1)] later_transition by metis
  have "rs_state s'' \<notin> {StateStarting, StateStarted, StateFinishing}"
    if "rs_state s' \<notin> {StateStarting, StateStarted, StateFinishing}"
    using evolve_state [OF assms(2)] that by (cases "rs_state s'") auto
  then have "rs_snapshot s \<noteq> None \<longrightarrow> rs_snapshot s'' = rs_snapshot s \<or>
      rs_snapshot s'' = None \<and> rs_state s'' \<notin> {StateStarting, StateStarted, StateFinishing}"
    using assms unfolding descends_def evolve_def by (metis insertCI)
  moreover have "rs_state s \<noteq> StateStarting \<longrightarrow> rs_start s'' = rs_start s"
    using assms later_not_back [OF descends_later [OF assms(1)]] unfolding descends_def evolve_def
    by metis
  moreover have "rs_state s = StateAborted \<longrightarrow> rs_abort s'' = rs_abort s"
  proof
    assume ab: "rs_state s = StateAborted"
    then have "rs_state s' = StateAborted" using descends_later [OF assms(1)] by (simp add: later_def)
    then show "rs_abort s'' = rs_abort s" using ab assms unfolding descends_def evolve_def by metis
  qed
  moreover have "keeps s s''"
    using keeps_trans [OF descends_keeps [OF assms(1)] evolve_keeps [OF assms(2)]] .
  ultimately show ?thesis using lt unfolding descends_def keeps_def by blast
qed

lemma steps_descend:
  assumes "steps s s'" "reachable s"
  shows "c_epoch (ctl s) \<le> c_epoch (ctl s') \<and> length (c_heap (ctl s)) \<le> length (c_heap (ctl s')) \<and>
    (\<forall>r < length (c_heap (ctl s)). descends (slot (ctl s) r) (slot (ctl s') r))"
  using assms
proof (induction rule: steps.induct)
  case (steps_step s s' s'')
  have "moves (ctl s') (ctl s'')"
    using step_moves reachable_SysInv reachable_steps steps_step.hyps steps_step.prems by blast
  then show ?case using steps_step.IH [OF steps_step.prems] descends_evolve
    unfolding moves_def by fastforce
qed simp

lemma reach_epoch: "reach n s \<Longrightarrow> c_epoch (ctl s) \<le> n"
proof (induction rule: reach.induct)
  case (reach_init s)
  then show ?case by (auto simp: initial_def dest: New_empty)
next
  case (reach_step n s s')
  then have "reachable s" by (auto simp: reachable_def)
  then have "c_epoch (ctl s') \<le> Suc (c_epoch (ctl s))"
    using step_moves [OF reach_step.hyps(2)] reachable_SysInv by (auto simp: moves_def)
  then show ?case using reach_step.IH by simp
qed

end
