(* ===== verification/Run_Demo.thy ===== *)
theory Run_Demo
  imports Run_History
begin

text \<open>
  A concrete execution of the controller: one generation collector, one run started, finished and
  published, and one run started and aborted while its starter is still inside. The theorems about
  reachable states are applied to the states of this execution.
\<close>

definition demoReg :: Registration where
  "demoReg = \<lparr>reg_Name = ''http'', reg_Required = True, reg_SerialOnly = False\<rparr>"

definition demoHandle :: GenerationHandle where
  "demoHandle = NewGenerationHandle ''r1'' 1 ''http'' 7 NilToken"

definition demoGen :: genEnv where
  "demoGen =
     \<lparr>ge_ctxErr = (\<lambda>i. None),
      ge_call = (\<lambda>i. Ret \<lparr>br_Handle = demoHandle, br_At = 100, br_Committed = True\<rparr> None)\<rparr>"

definition demoBase :: baseEnv where
  "demoBase = \<lparr>be_sem = (\<lambda>i. None), be_ctxErr = (\<lambda>i. None), be_call = (\<lambda>i. Ret zeroSampleResult None)\<rparr>"

definition demoOpt :: StartRunOptions where
  "demoOpt = \<lparr>o_Nonce = ''n1'', o_Preempt = False, o_Reason = [], o_Trigger = ''bench''\<rparr>"

definition demo0 :: Controller where
  "demo0 = snd (RegisterGeneration (projr (New zeroBudgets True)) demoReg (Some \<lparr>coll_Budget = None\<rparr>))"

definition demo1 :: Controller where
  "demo1 = snd (snd (beginAlloc demo0 1 ''r1'' ''n1'' ''bench''))"

definition demoSo :: startOutcome where
  "demoSo = openBoundary demo1 demoGen demoBase ''r1'' ''n1'' 1 [] 100"

definition demo2 :: Controller where
  "demo2 = snd (beginCommit (recordHealth demo1 (so_health demoSo)) 1 demoSo 101 101 ''n1'')"

definition demo3 :: Controller where
  "demo3 = endOwner (openObserve demoSo demo2) 0"

definition demo4 :: Controller where
  "demo4 = endOwner (snd (startDrainCommit
     (drainAndRelease (\<lambda>h. Ret () None) (\<lambda>h. Ret () None) (so_gen demoSo) demo3) 1)) 0"

definition demo5 :: Controller where
  "demo5 = snd (finishEnter demo4 200 ''r1'')"

definition demoFo :: finishOutcome where
  "demoFo = closeBoundary demo5 demoGen demoBase ''r1'' 1 201"

definition demo6 :: Controller where
  "demo6 = snd (freezeCommit (recordHealth demo5 (fo_health demoFo)) 1 demoFo 202)"

definition demo7 :: Controller where
  "demo7 = finishObserve 0 1 demoFo demo6"

definition demoWork :: finishWork where
  "demoWork = mkWork demoFo (slot demo6 0)"

definition demoWorker :: workerEnv where
  "demoWorker =
     \<lparr>we_drain = (\<lambda>h. Ret () None), we_buildErrG = (\<lambda>h. None),
      we_collectG = (\<lambda>h. Ret NilAny None), we_buildErrB = (\<lambda>h. None),
      we_collectB = (\<lambda>g h. Ret NilAny None), we_enrich = None, we_finishedAt = 300\<rparr>"

definition demoSnap :: Snapshot where
  "demoSnap = fst (buildSnapshot demo7 demoWorker 1 demoWork)"

definition demo8 :: Controller where
  "demo8 = releaseAll (\<lambda>h. Ret () None) (\<lambda>h. Ret () None) demoWork
     (recordHealth demo7 (snd (buildSnapshot demo7 demoWorker 1 demoWork)))"

definition demo9 :: Controller where
  "demo9 = snd (publish demo8 1 demoSnap)"

definition demo10 :: Controller where
  "demo10 = snd (finishCommit demo9 1 (sn_Validity demoSnap) 301)"

text \<open>The abort of the open run.\<close>

definition demoA :: Controller where
  "demoA = abortCancel (snd (abortEnter demo3 150 ''r1'' ''stop'')) 0 ''r1'' 1 ''stop'' 150"

subsection \<open>The steps\<close>

lemma demo_new: "New zeroBudgets True = Inr (projr (New zeroBudgets True))"
  by (simp add: New_def Let_def default_table_valid)

lemma reachable_demo0: "reachable \<lparr>ctl = demo0, pool = {#}, startMu = False\<rparr>"
proof -
  have "initial \<lparr>ctl = projr (New zeroBudgets True), pool = {#}, startMu = False\<rparr>"
    unfolding initial_def using demo_new by auto
  then show ?thesis unfolding demo0_def by (intro reachable_step [OF reachable_init register_generation])
qed

lemma reachable_demo1:
  "reachable \<lparr>ctl = demo1, pool = {#TOpen 0 1 ''r1'' ''n1'' []#}, startMu = True\<rparr>"
proof -
  have "planStartLocked demo0 0 demoOpt = PlanProceed None None" by code_simp
  from start_plan [OF this refl, where P = "{#}" and runID = "''r1''"]
  have 1: "step \<lparr>ctl = demo0, pool = {#}, startMu = False\<rparr>
      \<lparr>ctl = demo0, pool = {#TAlloc demoOpt ''r1'' ''n1'' []#}, startMu = True\<rparr>"
    by (simp add: starterTask_def demoOpt_def)
  have "c_heap demo0 = []" "c_epoch demo0 = 0" by code_simp+
  then have "beginAlloc demo0 1 ''r1'' ''n1'' (o_Trigger demoOpt) = (0, 1, demo1)" "''r1'' \<notin> rs_runID ` set (c_heap demo0)"
    by (simp_all add: demo1_def beginAlloc_def demoOpt_def Let_def)
  from start_alloc [OF this(2,1)] show ?thesis
    by (rule reachable_step [OF reachable_step [OF reachable_demo0 1]])
qed

lemma reachable_demo2:
  "reachable \<lparr>ctl = openObserve demoSo demo2,
     pool = {#TStarted 0, TDrain 0 1 (so_gen demoSo)#}, startMu = True\<rparr>"
proof -
  have "fst (beginCommit (recordHealth demo1 (so_health demoSo)) 1 demoSo 101 101 ''n1'') = None"
    by code_simp
  then have c: "beginCommit (recordHealth demo1 (so_health demoSo)) 1 demoSo 101 101 ''n1'' = (None, demo2)"
    by (simp add: demo2_def prod_eq_iff)
  have "openSpawn 0 1 demoSo = {#TDrain 0 1 (so_gen demoSo)#}"
  proof -
    have "st_State (so_res demoSo) = StateStarted" "so_gen demoSo = [demoHandle]" by code_simp+
    then show ?thesis by (simp add: openSpawn_def)
  qed
  with open_commit [OF c, of 0 "{#}" True]
    reachable_step [OF reachable_demo1 open_boundary [OF demoSo_def]]
  show ?thesis using reachable_step by fastforce
qed

lemma reachable_demo3:
  "reachable \<lparr>ctl = demo3, pool = {#TDrain 0 1 (so_gen demoSo)#}, startMu = False\<rparr>"
  unfolding demo3_def by (rule reachable_step [OF reachable_demo2 start_return])

lemma reachable_demo4: "reachable \<lparr>ctl = demo4, pool = {#}, startMu = False\<rparr>"
  unfolding demo4_def
  by (rule reachable_step [OF reachable_step [OF reachable_demo3 drain_commit [OF prod.collapse [symmetric]]] retire])

lemma demo_claim: "finishEnter demo4 200 ''r1'' = (FinishClaimed 0 1, demo5)"
proof -
  have "fst (finishEnter demo4 200 ''r1'') = FinishClaimed 0 1" by code_simp
  then show ?thesis by (simp add: demo5_def prod_eq_iff)
qed

lemma reachable_demo5: "reachable \<lparr>ctl = demo5, pool = {#TFreeze 0 1#}, startMu = False\<rparr>"
  by (rule reachable_step [OF reachable_demo4 finish_claim [OF demo_claim]])

text \<open>What the later states of the execution need of the controller: one retained run, which owns the
  current epoch.\<close>

definition demoAt :: "RunState \<Rightarrow> Controller \<Rightarrow> bool" where
  "demoAt st c \<longleftrightarrow>
     c_epoch c = 1 \<and> length (c_heap c) = 1 \<and> c_slots c = [0] \<and> rs_runID (slot c 0) = ''r1''
     \<and> rs_epoch (slot c 0) = 1 \<and> rs_state (slot c 0) = st"

lemma demoAt_fence: "demoAt st c \<Longrightarrow> fencedSlotLocked c 1 = Some 0"
  by (simp add: demoAt_def fencedSlotLocked_def)

lemma demoAt_lookup: "demoAt st c \<Longrightarrow> lookupLocked c ''r1'' = Some 0"
  by (simp add: demoAt_def lookupLocked_def)

lemma demoAt_core: "demoAt st c \<Longrightarrow> same_core c c' \<Longrightarrow> demoAt st c'"
  using same_core_slot [of c c' 0] by (simp add: demoAt_def) (simp add: same_core_def)

lemma demo5_at: "demoAt StateFinishing demo5"
  by code_simp

lemma demo_freeze:
  "freezeCommit (recordHealth demo5 (fo_health demoFo)) 1 demoFo 202 = (None, demo6)"
  "demo6 = notifyLocked (upd (recordHealth demo5 (fo_health demoFo)) 0
     (freezeSlot demoFo (c_budgets (recordHealth demo5 (fo_health demoFo))) 202)) 0"
proof -
  have "demoAt StateFinishing (recordHealth demo5 (fo_health demoFo))"
    using demoAt_core [OF demo5_at] by simp
  note f = demoAt_fence [OF this]
  show "freezeCommit (recordHealth demo5 (fo_health demoFo)) 1 demoFo 202 = (None, demo6)"
    "demo6 = notifyLocked (upd (recordHealth demo5 (fo_health demoFo)) 0
     (freezeSlot demoFo (c_budgets (recordHealth demo5 (fo_health demoFo))) 202)) 0"
    using f by (simp_all add: demo6_def freezeCommit_def commit_def)
qed

lemma demo7_at: "demoAt StateFinishing demo7 \<and> rs_finishSet (slot demo7 0)"
proof -
  have "demoAt StateFinishing (recordHealth demo5 (fo_health demoFo))"
    using demoAt_core [OF demo5_at] by simp
  then have "demoAt StateFinishing demo6 \<and> rs_finishSet (slot demo6 0)"
    unfolding demo_freeze(2) by (simp add: demoAt_def slot_simps freezeSlot_def beginOwnerLocked_def)
  moreover have "same_core demo6 demo7" by (simp add: demo7_def finishObserve_def)
  ultimately show ?thesis using demoAt_core same_core_slot by metis
qed

lemma reachable_demo7:
  "reachable \<lparr>ctl = demo7, pool = {#TFinish 0 1 demoWork, TRetire 0#}, startMu = False\<rparr>"
proof -
  have fo: "demoFo = closeBoundary demo5 demoGen demoBase (rs_runID (slot demo5 0)) 1 201"
    using demo5_at by (simp add: demoFo_def demoAt_def)
  from freeze_commit [OF demo_freeze(1)] show ?thesis unfolding demo7_def demoWork_def
    by (rule reachable_step [OF reachable_step [OF reachable_demo5 freeze_boundary [OF fo]]])
qed

lemma demo8_at: "demoAt StateFinishing demo8"
proof -
  have "same_core demo7 demo8" unfolding demo8_def by (intro core_intros same_core_refl)
  then show ?thesis using demoAt_core demo7_at by blast
qed

lemma reachable_demo8:
  "reachable \<lparr>ctl = demo8, pool = {#TBuilt 0 1 demoSnap, TRetire 0#}, startMu = False\<rparr>"
  unfolding demo8_def demoSnap_def
  by (rule reachable_step [OF reachable_demo7 finish_build [OF prod.collapse [symmetric]]])

lemma demo_publish:
  "publish demo8 1 demoSnap = (None, demo9)"
  "demo9 = (upd demo8 0 (\<lambda>s. s\<lparr>rs_snapshot := Some demoSnap\<rparr>))\<lparr>c_published := Suc (c_published demo8)\<rparr>"
  using demoAt_fence [OF demo8_at] by (simp_all add: demo9_def publish_def)

lemma demo9_at: "demoAt StateFinishing demo9 \<and> rs_snapshot (slot demo9 0) = Some demoSnap"
  using demo8_at unfolding demo_publish(2) by (simp add: demoAt_def slot_simps)

lemma reachable_demo9:
  "reachable \<lparr>ctl = demo9, pool = {#TPublished 0 1 (sn_Validity demoSnap), TRetire 0#}, startMu = False\<rparr>"
  by (rule reachable_step [OF reachable_demo8 finish_publish [OF demo_publish(1)]])

lemma reachable_demo10:
  "reachable \<lparr>ctl = demo10, pool = {#TRetire 0, TRetire 0#}, startMu = False\<rparr>"
  unfolding demo10_def
  by (rule reachable_step [OF reachable_demo9 finish_commit [OF prod.collapse [symmetric]]])

definition demoFinal :: Sys where
  "demoFinal = \<lparr>ctl = endOwner (endOwner demo10 0) 0, pool = {#}, startMu = False\<rparr>"

lemma demo_steps:
  "steps \<lparr>ctl = demo10, pool = {#TRetire 0, TRetire 0#}, startMu = False\<rparr> demoFinal"
  unfolding demoFinal_def by (rule steps_step [OF steps_step [OF steps_refl retire] retire])

lemma reachable_demoFinal: "reachable demoFinal"
  using reachable_steps [OF demo_steps reachable_demo10] .

lemma demo_abort:
  "abortEnter demo3 150 ''r1'' ''stop'' = (AbortFenced 0 1 [''http''], snd (abortEnter demo3 150 ''r1'' ''stop''))"
proof -
  have "fst (abortEnter demo3 150 ''r1'' ''stop'') = AbortFenced 0 1 [''http'']" by code_simp
  then show ?thesis by (simp add: prod_eq_iff)
qed

lemma reachable_demo3_abort:
  "reachable \<lparr>ctl = demo3, pool = {#TAbort ''r1'' ''stop'' KReturn, TDrain 0 1 (so_gen demoSo)#}, startMu = False\<rparr>"
  using reachable_step [OF reachable_demo3 abort_call [of _ _ _ "''r1''" "''stop''"]] by simp

lemma reachable_demoA:
  "reachable \<lparr>ctl = demoA,
     pool = {#TJoin 0 ''r1'' 1 ''stop'' [''http''] KReturn, TDrain 0 1 (so_gen demoSo)#}, startMu = False\<rparr>"
  unfolding demoA_def by (rule reachable_step [OF reachable_demo3_abort abort_fence [OF demo_abort]])

end
