(* ===== verification/Run_Theorems.thy ===== *)
theory Run_Theorems
  imports Run_Demo "HOL-Library.Sublist"
begin

text \<open>
  What the run controller guarantees in every reachable state and along every execution, whatever
  the interleaving of its goroutines, the clock and the collectors.
\<close>

subsection \<open>Mutual exclusion and the epoch fence\<close>

text \<open>
  C1: At most one run is live (starting, started, finishing, or finished and not yet acknowledged),
  it owns the controller's current epoch and it is the newest retained run.
\<close>

theorem single_live_run:
  assumes "reachable s" and "q < length (c_heap (ctl s))" and "r < length (c_heap (ctl s))"
    and "live (rs_state (slot (ctl s) q))" and "live (rs_state (slot (ctl s) r))"
  shows "q = r \<and> rs_epoch (slot (ctl s) r) = c_epoch (ctl s) \<and> currentLocked (ctl s) = Some r"
  using live_unique live_epoch live_is_current reachable_store assms by blast

theorem single_live_run_witness:
  "(0::nat) = 0 \<and> rs_epoch (slot demo3 0) = c_epoch demo3 \<and> currentLocked demo3 = Some 0"
proof -
  have "length (c_heap demo3) = 1" "rs_state (slot demo3 0) = StateStarted" by code_simp+
  then show ?thesis using single_live_run [OF reachable_demo3, of 0 0] by simp
qed

lemma abort_fences:
  assumes "store_inv c" and "abortEnter c now runID reason = (AbortFenced r ep partial, c')"
  shows "ep < c_epoch (abortCancel c' r runID ep reason now)"
  using assms(2,1)
  by (cases rule: abortEnter_cases)
    (use slot_epoch_le [OF assms(1)] in \<open>auto simp: abortCancel_def less_Suc_eq_le\<close>)

lemma stale_commit: "ep < c_epoch c \<Longrightarrow> commit c ep f = (Some ErrStaleEpoch, c\<lparr>c_stale := Suc (c_stale c)\<rparr>)"
  by (simp add: commit_def fencedSlotLocked_def)

lemma stale_publish: "ep < c_epoch c \<Longrightarrow> publish c ep sn = (Some ErrStaleEpoch, c\<lparr>c_stale := Suc (c_stale c)\<rparr>)"
  by (simp add: publish_def fencedSlotLocked_def)

text \<open>
  C2: Once an abort has fenced a run, no goroutine of that run ever changes the controller's records
  again: in every later state a commit or a publication under the run's epoch is refused with
  \<open>ErrStaleEpoch\<close> and only counts itself as stale.
\<close>

theorem aborted_run_never_commits:
  assumes "reachable s" and "abortEnter (ctl s) now runID reason = (AbortFenced r ep partial, c')"
    and "ctl s1 = abortCancel c' r runID ep reason now" and "reachable s1" and "steps s1 s2"
  shows "publish (ctl s2) ep sn = (Some ErrStaleEpoch, (ctl s2)\<lparr>c_stale := Suc (c_stale (ctl s2))\<rparr>)
    \<and> commit (ctl s2) ep f = (Some ErrStaleEpoch, (ctl s2)\<lparr>c_stale := Suc (c_stale (ctl s2))\<rparr>)"
proof -
  have "ep < c_epoch (ctl s1)"
    using abort_fences [OF reachable_store [OF assms(1)] assms(2)] assms(3) by simp
  then have "ep < c_epoch (ctl s2)" using steps_descend [OF assms(5,4)] by linarith
  then show ?thesis by (simp add: stale_commit stale_publish)
qed

theorem aborted_run_never_commits_witness:
  "publish demoA 1 demoSnap = (Some ErrStaleEpoch, demoA\<lparr>c_stale := Suc (c_stale demoA)\<rparr>)
   \<and> commit demoA 1 (\<lambda>r c. c) = (Some ErrStaleEpoch, demoA\<lparr>c_stale := Suc (c_stale demoA)\<rparr>)"
  using aborted_run_never_commits [OF reachable_demo3 _ _ reachable_demoA steps_refl,
      of 150 "''r1''" "''stop''" 0 1 "[''http'']" _ demoSnap "\<lambda>r c. c"] demo_abort demoA_def
  by simp

text \<open>
  C3: The join of an abort is exact: a slot's done channel is closed precisely when the slot is
  sealed and no goroutine works for the run, and from then on none ever does.
\<close>

theorem done_means_quiescent:
  assumes "reachable s" and "r < length (c_heap (ctl s))" and "steps s s'"
  shows "(rs_done (slot (ctl s) r) \<longleftrightarrow> rs_sealed (slot (ctl s) r) \<and> (\<forall>t \<in># pool s. \<not> owner r t))
    \<and> (rs_done (slot (ctl s) r) \<longrightarrow> (\<forall>t \<in># pool s'. \<not> owner r t))"
proof -
  have quiet: "rs_done (slot (ctl x) r) \<longleftrightarrow> rs_sealed (slot (ctl x) r) \<and> (\<forall>t \<in># pool x. \<not> owner r t)"
    if "reachable x" "r < length (c_heap (ctl x))" for x
  proof -
    have inv: "Inv (ctl x) (pool x) (startMu x)" using reachable_SysInv [OF that(1)] by (simp add: SysInv_def)
    have "rs_owners (slot (ctl x) r) \<le> 0 \<longleftrightarrow> (\<forall>t \<in># pool x. \<not> owner r t)"
      using pool_counts(4) [OF Inv_pool [OF inv] that(2)] by (auto simp: filter_mset_eq_mempty_iff)
    then show ?thesis using slot_done_iff [OF Inv_store [OF inv] that(2)] by simp
  qed
  have d: "descends (slot (ctl s) r) (slot (ctl s') r)" "length (c_heap (ctl s)) \<le> length (c_heap (ctl s'))"
    using steps_descend [OF assms(3,1)] assms(2) by auto
  have "rs_done (slot (ctl s) r) \<Longrightarrow> rs_done (slot (ctl s') r)"
    using descends_keeps [OF d(1)] by (simp add: keeps_def)
  then show ?thesis
    using quiet [OF assms(1,2)] quiet [OF reachable_steps [OF assms(3,1)]] assms(2) d(2) by simp
qed

theorem done_means_quiescent_witness: "\<not> rs_done (slot demo3 0)"
proof -
  have "length (c_heap demo3) = 1" by code_simp
  then show ?thesis using done_means_quiescent [OF reachable_demo3 _ steps_refl, of 0] by simp
qed

subsection \<open>The lifecycle\<close>



text \<open>
  C7: Along every execution a run keeps its identity, its verdict never improves, an accepted finish
  and a recorded start are never rewritten, and a recorded abort stays as it is.
\<close>

theorem verdicts_only_worsen:
  assumes "reachable s" and "steps s s'" and "r < length (c_heap (ctl s))"
  defines "a \<equiv> slot (ctl s) r" and "b \<equiv> slot (ctl s') r"
  shows "rs_runID b = rs_runID a \<and> rs_epoch b = rs_epoch a
    \<and> validityRank (rs_validity a) \<le> validityRank (rs_validity b)
    \<and> (rs_finishSet a \<longrightarrow> rs_finishSet b \<and> rs_finish b = rs_finish a)
    \<and> (rs_state a \<noteq> StateStarting \<longrightarrow> rs_start b = rs_start a)
    \<and> (rs_state a = StateAborted \<longrightarrow> rs_state b = StateAborted \<and> rs_abort b = rs_abort a)"
proof -
  have d: "descends a b" using steps_descend [OF assms(2,1)] assms(3) by (simp add: a_def b_def)
  then have "rs_state a = StateAborted \<longrightarrow> rs_state b = StateAborted"
    using descends_later [OF d] by (auto simp: later_def)
  then show ?thesis using d unfolding descends_def by blast
qed

theorem verdicts_only_worsen_witness:
  "rs_start (slot demo3 0) = rs_start (slot (openObserve demoSo demo2) 0)"
proof -
  have "length (c_heap (openObserve demoSo demo2)) = 1"
    "rs_state (slot (openObserve demoSo demo2) 0) = StateStarted" by code_simp+
  then show ?thesis
    using verdicts_only_worsen [OF reachable_demo2 steps_step [OF steps_refl start_return], of 0]
    by (simp add: demo3_def)
qed

subsection \<open>Snapshots\<close>

lemma slot_inv_noHandles: "slot_inv E x \<Longrightarrow> rs_state x \<in> {StateFinished, StateAcknowledged} \<Longrightarrow> noHandles x"
  unfolding slot_inv_def by blast

lemma slot_inv_noSnapshot:
  "slot_inv E x \<Longrightarrow> rs_state x \<in> {StateStarting, StateStarted, StateAborted, StateExpired} \<Longrightarrow> rs_snapshot x = None"
  by (cases "rs_snapshot x") (auto simp: slot_inv_def)

lemma lookup_ref: "store_inv c \<Longrightarrow> lookupLocked c runID = Some r \<Longrightarrow> r < length (c_heap c)"
  using lookupLocked_Some store_ref by blast



text \<open>
  A published snapshot is final: once \<open>Snapshot\<close> has returned one for a run, every later call
  returns the same one until the run is aborted, expires or is dropped, and never a different one.
\<close>

lemma snapshot_stable:
  assumes "reachable s" and "SnapshotOf (ctl s) runID = Inr sn" and "steps s s'"
  shows "SnapshotOf (ctl s') runID \<in> {Inr sn, Inl ErrUnknownRun, Inl ErrRunAborted}"
proof (cases "lookupLocked (ctl s') runID")
  case None
  then show ?thesis by (simp add: SnapshotOf_def)
next
  case (Some q)
  have st: "store_inv (ctl s)" and st': "store_inv (ctl s')"
    using reachable_store assms(1) reachable_steps [OF assms(3,1)] by blast+
  obtain r where r: "lookupLocked (ctl s) runID = Some r" "rs_snapshot (slot (ctl s) r) = Some sn"
    using assms(2) by (auto simp: SnapshotOf_def Let_def split: option.splits if_splits)
  note len = lookup_ref [OF st r(1)]
  have d: "descends (slot (ctl s) r) (slot (ctl s') r)" "r < length (c_heap (ctl s'))"
    using steps_descend [OF assms(3,1)] len by auto
  have "rs_runID (slot (ctl s') r) = runID"
    using descends_keeps [OF d(1)] lookupLocked_Some [OF r(1)] by (simp add: keeps_def)
  then have q: "q = r" using runID_inject [OF st' lookup_ref [OF st' Some] d(2)] lookupLocked_Some [OF Some] by simp
  have sn: "rs_snapshot (slot (ctl s') r) = Some sn \<or>
      rs_snapshot (slot (ctl s') r) = None \<and>
      rs_state (slot (ctl s') r) \<notin> {StateStarting, StateStarted, StateFinishing}"
    using d(1) r(2) unfolding descends_def by auto
  have i: "slot_inv (c_epoch (ctl s')) (slot (ctl s') r)" by (rule store_slot [OF st' d(2)])
  have "rs_state (slot (ctl s') r) \<in> {StateFinished, StateAcknowledged} \<Longrightarrow> rs_snapshot (slot (ctl s') r) \<noteq> None"
    using store_snapshot [OF st'] lookupLocked_Some [OF Some] q by blast
  then show ?thesis using sn i Some q
    by (cases "rs_state (slot (ctl s') r)") (auto simp: SnapshotOf_def slot_inv_def)
qed

subsection \<open>Epochs\<close>

text \<open>
  The epoch cannot wrap: after \<open>n\<close> steps it is at most \<open>n\<close>, so it stays within 64 bits for
  \<open>2^64 - 1\<close> critical sections, and runs carry strictly increasing epochs in the order they were
  opened, none beyond the current one.
\<close>

lemma epoch_never_wraps:
  assumes "reach n s" and "n < 2 ^ 64"
  shows "c_epoch (ctl s) < 2 ^ 64 \<and> c_epoch (ctl s) \<le> n \<and> sorted_wrt (<) (map rs_epoch (c_heap (ctl s)))
    \<and> (\<forall>r < length (c_heap (ctl s)). rs_epoch (slot (ctl s) r) \<le> c_epoch (ctl s))"
proof -
  have "reachable s" using assms(1) by (auto simp: reachable_def)
  then have st: "store_inv (ctl s)" by (rule reachable_store)
  have "sorted_wrt (<) (map rs_epoch (c_heap (ctl s)))" using st by (simp add: store_inv_def)
  then show ?thesis using reach_epoch [OF assms(1)] slot_epoch_le [OF st] assms(2) by auto
qed

subsection \<open>Idempotent requests\<close>

text \<open>
  A repeated \<open>StartRun\<close> with the nonce of a retained run never opens a second run: it replays the
  recorded start unchanged, however many steps lie in between, or fails because that run is being
  aborted, was aborted or has expired.
\<close>

lemma duplicate_start_replays:
  assumes "reachable s" and "steps s s'" and "r < length (c_heap (ctl s))"
    and "rs_state (slot (ctl s) r) \<noteq> StateStarting"
    and "slotByNonceLocked (ctl s') (o_Nonce opt) = Some r"
  shows "planStartLocked (ctl s') now opt \<in>
    {PlanReplay (rs_start (slot (ctl s) r)), PlanFail ErrRunTransitioning, PlanFail ErrRunAborted,
     PlanFail ErrUnknownRun}"
proof -
  have d: "descends (slot (ctl s) r) (slot (ctl s') r)" "r < length (c_heap (ctl s'))"
    using steps_descend [OF assms(2,1)] assms(3) by auto
  have "rs_state (slot (ctl s') r) \<noteq> StateStarting"
    using later_not_back [OF descends_later [OF d(1)] assms(4)] .
  moreover have "rs_start (slot (ctl s') r) = rs_start (slot (ctl s) r)"
    using d(1) assms(4) by (simp add: descends_def)
  moreover have "rs_state (slot (ctl s') r) \<noteq> StateZero" "rs_state (slot (ctl s') r) \<noteq> StateIdle"
    using store_slot [OF reachable_store [OF reachable_steps [OF assms(2,1)]] d(2)]
    by (auto simp: slot_inv_def)
  ultimately show ?thesis using assms(5)
    by (cases "rs_state (slot (ctl s') r)") (simp_all add: planStartLocked_def)
qed

text \<open>
  An abort that has settled is idempotent: as long as the run is retained, every later \<open>AbortRun\<close>
  on it answers at once with the recorded result, whatever reason it gives, and changes nothing.
\<close>

lemma repeated_abort_replays:
  assumes "reachable s" and "steps s s'" and "r < length (c_heap (ctl s))"
    and "rs_state (slot (ctl s) r) = StateAborted" and "lookupLocked (ctl s') runID = Some r"
  shows "AbortRun env ctxErr runID reason (ctl s' # looks) =
    (Inr (rs_abort (slot (ctl s) r)), Some (ctl s'))"
proof -
  have d: "descends (slot (ctl s) r) (slot (ctl s') r)"
    using steps_descend [OF assms(2,1)] assms(3) by auto
  have "rs_state (slot (ctl s') r) = StateAborted" "rs_abort (slot (ctl s') r) = rs_abort (slot (ctl s) r)"
    using descends_later [OF d] d assms(4) by (simp_all add: later_def descends_def)
  then show ?thesis using assms(5) by (simp add: abortEnter_def Let_def)
qed

definition demoAbort :: abortEnv where
  "demoAbort =
     \<lparr>ae_now1 = 150, ae_now2 = 160, ae_between = (\<lambda>c. c), ae_timeout = False,
      ae_relGen = (\<lambda>h. Ret () None), ae_relBase = (\<lambda>h. Ret () None)\<rparr>"

definition demoB :: Controller where
  "demoB = snd (snd (abortSettle demoA 0 (abortResult ''r1'' 1 ''stop'' True 160 [''http''])))"

lemma reachable_demoB:
  "\<exists>hl. reachable \<lparr>ctl = recordHealth demoB hl, pool = {#TReap 0, TDrain 0 1 (so_gen demoSo)#}, startMu = False\<rparr>"
proof -
  have "abortSettle demoA 0 (abortResult ''r1'' 1 ''stop'' True 160 [''http'']) = ([], [], demoB)"
    by (simp add: demoB_def abortSettle_def abortResult_def Let_def)
  from abort_settle [where detached = True, OF _ this] reachable_step [OF reachable_demoA]
  show ?thesis by fastforce
qed



subsection \<open>The nonce cache\<close>

lemma remember_length: "length (c_nonce c) \<le> NonceHistoryMax \<Longrightarrow>
  length (c_nonce (rememberNonceLocked now nonce r c)) \<le> NonceHistoryMax"
  by (auto simp: rememberNonceLocked_def Let_def)

lemma remember_last:
  assumes "nonce \<noteq> []" "st_State r = StateStarted"
  shows "\<exists>es. c_nonce (rememberNonceLocked now nonce r c) = es @ [\<lparr>ne_nonce = nonce, ne_result = r, ne_at = now\<rparr>]"
  using assms by (auto simp: rememberNonceLocked_def Let_def NonceHistoryMax_def)

text \<open>
  A remembered start is found again under its nonce until its time-to-live has passed, also when
  an older entry carries the same nonce, and the cache never exceeds its bound.
\<close>

lemma nonce_cache_roundtrip:
  assumes "nonce \<noteq> []" and "st_State r = StateStarted"
    and "time_Add now' (- b_NonceTTL (c_budgets c)) \<le> now"
    and "length (c_nonce c) \<le> NonceHistoryMax"
  shows "lookupNonceLocked (rememberNonceLocked now nonce r c) now' nonce = Some r
    \<and> length (c_nonce (rememberNonceLocked now nonce r c)) \<le> NonceHistoryMax"
proof -
  obtain es where "c_nonce (rememberNonceLocked now nonce r c) = es @ [\<lparr>ne_nonce = nonce, ne_result = r, ne_at = now\<rparr>]"
    using remember_last [OF assms(1,2)] by blast
  moreover have "c_budgets (rememberNonceLocked now nonce r c) = c_budgets c"
    by (simp add: rememberNonceLocked_def Let_def)
  ultimately show ?thesis using assms remember_length [OF assms(4), of now nonce r]
    by (simp add: lookupNonceLocked_def)
qed

subsection \<open>Handles\<close>

lemma safeInvoke_log [simp]:
  "c_relGen (safeInvoke c n op fn) = c_relGen c" "c_relBase (safeInvoke c n op fn) = c_relBase c"
  "c_gens (safeInvoke c n op fn) = c_gens c" "c_bases (safeInvoke c n op fn) = c_bases c"
  by (simp_all add: safeInvoke_def recordHealth_def split: option.split)

lemma releaseGeneration_log:
  "c_relGen (releaseGeneration rel hs c) =
     c_relGen c @ filter (\<lambda>h. generationByName c (gh_Collector h) \<noteq> None) hs
   \<and> c_relBase (releaseGeneration rel hs c) = c_relBase c
   \<and> c_gens (releaseGeneration rel hs c) = c_gens c \<and> c_bases (releaseGeneration rel hs c) = c_bases c"
  by (induction rel hs c rule: releaseGeneration.induct)
    (auto simp: generationByName_def split: option.split)

lemma releaseBaseline_log:
  "c_relBase (releaseBaseline rel hs c) =
     c_relBase c @ filter (\<lambda>h. baselineByName c (bh_Collector h) \<noteq> None) hs
   \<and> c_relGen (releaseBaseline rel hs c) = c_relGen c"
  by (induction rel hs c rule: releaseBaseline.induct)
    (auto simp: baselineByName_def split: option.split)

lemma notify_logs [simp]:
  "c_relGen (notifyLocked c r) = c_relGen c" "c_relBase (notifyLocked c r) = c_relBase c"
  "c_gens (notifyLocked c r) = c_gens c" "c_bases (notifyLocked c r) = c_bases c"
  by (simp_all add: notifyLocked_def)

text \<open>
  C5: An abort whose join succeeded leaves nothing pinned: \<open>Release\<close> is called, in order, on exactly the
  handles the run still held, opening and closing, of every collector that is registered, and the run
  ends aborted, invalid, with no handles and no snapshot.
\<close>

theorem abort_releases_all_handles:
  assumes "\<not> ae_timeout env" and "c2 = ae_between env (abortCancel c r runID ep reason (ae_now1 env))"
    and "r < length (c_heap c2)" and "abortFinish env c r runID ep reason partial = (res, c')"
  shows "c_relGen c' = c_relGen c2 @ filter (\<lambda>h. generationByName c2 (gh_Collector h) \<noteq> None)
          (rs_gen (slot c2 r) @ rs_genFinal (slot c2 r))
    \<and> c_relBase c' = c_relBase c2 @ filter (\<lambda>h. baselineByName c2 (bh_Collector h) \<noteq> None)
          (rs_base (slot c2 r) @ rs_baseF (slot c2 r))
    \<and> noHandles (slot c' r) \<and> rs_state (slot c' r) = StateAborted
    \<and> rs_validity (slot c' r) = ValidityInvalid \<and> rs_snapshot (slot c' r) = None
    \<and> ab_Reason res = reason \<and> \<not> ab_Detached res"
proof -
  define c3 where "c3 = notifyLocked (upd c2 r (settleSlot res)) r"
  define c4 where "c4 = releaseGeneration (ae_relGen env) (rs_gen (slot c2 r) @ rs_genFinal (slot c2 r)) c3"
  have res: "res = abortResult runID ep reason False (ae_now2 env) partial"
    and c': "c' = releaseBaseline (ae_relBase env) (rs_base (slot c2 r) @ rs_baseF (slot c2 r)) c4"
    using assms(4) unfolding abortFinish_def assms(2) [symmetric] Let_def c4_def c3_def
    by (auto simp: assms(1) abortSettle_def abortResult_def Let_def)
  have logs: "c_relGen c3 = c_relGen c2" "c_relBase c3 = c_relBase c2"
    "generationByName c3 = generationByName c2" "baselineByName c3 = baselineByName c2"
    by (simp_all add: c3_def generationByName_def baselineByName_def fun_eq_iff)
  have "baselineByName c4 = baselineByName c2"
    using releaseGeneration_log [of "ae_relGen env" _ c3] logs(4)
    by (simp add: c4_def baselineByName_def fun_eq_iff)
  moreover have "same_core c3 c'" unfolding c' c4_def by (intro core_intros same_core_refl)
  then have "slot c' r = slot c3 r" by (rule same_core_slot)
  then have "slot c' r = (settleSlot res (slot c2 r))\<lparr>rs_changed := Suc (rs_changed (slot c2 r))\<rparr>"
    using assms(3) by (simp add: c3_def slot_simps settleSlot_def Let_def)
  ultimately show ?thesis
    using releaseGeneration_log [of "ae_relGen env" "rs_gen (slot c2 r) @ rs_genFinal (slot c2 r)" c3]
      releaseBaseline_log [of "ae_relBase env" "rs_base (slot c2 r) @ rs_baseF (slot c2 r)" c4] logs
    by (simp add: c' c4_def [symmetric] res abortResult_def noHandles_def settleSlot_def Let_def)
qed

definition demoFence :: Controller where
  "demoFence = snd (abortEnter demo3 150 ''r1'' ''stop'')"

theorem abort_releases_all_handles_witness:
  "c_relGen (snd (abortFinish demoAbort demoFence 0 ''r1'' 1 ''stop'' [''http''])) = [demoHandle]"
proof -
  define c2 where "c2 = ae_between demoAbort (abortCancel demoFence 0 ''r1'' 1 ''stop'' (ae_now1 demoAbort))"
  have "length (c_heap c2) = 1 \<and> c_relGen c2 = [] \<and> generationByName c2 ''http'' \<noteq> None
      \<and> rs_gen (slot c2 0) @ rs_genFinal (slot c2 0) = [demoHandle] \<and> gh_Collector demoHandle = ''http''"
    unfolding c2_def by code_simp
  then show ?thesis
    using abort_releases_all_handles [OF _ c2_def _ prod.collapse [symmetric],
        where partial = "[''http'']"]
    by (simp add: demoAbort_def)
qed

subsection \<open>Retention\<close>

lemma subseq_remove_at: "subseq (remove_at i xs) xs"
proof (cases "i < length xs")
  case True
  have "subseq (take i xs @ drop (Suc i) xs) (take i xs @ xs ! i # drop (Suc i) xs)"
    by (rule list_emb_append_mono) auto
  then show ?thesis using id_take_nth_drop [OF True] by (simp add: remove_at_def)
qed (simp add: remove_at_def)

lemma evict_retains:
  "(\<And>r. r \<in> set (c_slots c) \<Longrightarrow> r < length (c_heap c)) \<Longrightarrow>
   (length (c_slots (evict c)) \<le> RetainedRuns \<or> (\<forall>r \<in> set (c_slots (evict c)). active (rs_state (slot (evict c) r))))
   \<and> subseq (c_slots (evict c)) (c_slots c)
   \<and> (\<forall>r \<in> set (c_slots c). active (rs_state (slot c r)) \<longrightarrow> r \<in> set (c_slots (evict c)))"
proof (induction c rule: evict.induct)
  case (1 c)
  show ?case
  proof (cases "length (c_slots c) > RetainedRuns")
    case big: True
    show ?thesis
    proof (cases "find_index (\<lambda>r. \<not> active (rs_state (slot c r))) (c_slots c)")
      case None
      then have "evict c = c" using big by (subst evict.simps) simp
      then show ?thesis using None by (simp add: find_index_None)
    next
      case (Some i)
      note i = find_index_Some [OF Some]
      let ?r = "c_slots c ! i" and ?c = "drop_slot c i"
      have r: "?r < length (c_heap c)" using "1.prems" i by simp
      have sl: "c_slots ?c = remove_at i (c_slots c)" by (simp add: drop_slot_def)
      have st: "rs_state (slot ?c q) = rs_state (slot c q)" for q
        using r by (simp add: drop_slot_def slot_simps)
      have IH: "(length (c_slots (evict ?c)) \<le> RetainedRuns \<or> (\<forall>r \<in> set (c_slots (evict ?c)). active (rs_state (slot (evict ?c) r))))
          \<and> subseq (c_slots (evict ?c)) (c_slots ?c)
          \<and> (\<forall>r \<in> set (c_slots ?c). active (rs_state (slot ?c r)) \<longrightarrow> r \<in> set (c_slots (evict ?c)))"
        using "1.prems" set_remove_at [of i "c_slots c"] by (intro "1.IH" [OF big Some]) (auto simp: sl)
      have ev: "evict c = evict ?c" using big Some by (subst evict.simps) simp
      have "subseq (c_slots (evict c)) (c_slots c)"
        using IH subseq_remove_at [of i "c_slots c"] subseq_order.order_trans unfolding ev sl by blast
      moreover have "\<forall>r \<in> set (c_slots c). active (rs_state (slot c r)) \<longrightarrow> r \<in> set (c_slots (evict c))"
        using IH i in_remove_at [of i "c_slots c"] unfolding ev sl st by blast
      ultimately show ?thesis using IH ev by simp
    qed
  next
    case False
    then have "evict c = c" by (subst evict.simps) simp
    then show ?thesis using False by simp
  qed
qed

text \<open>
  Opening a run keeps the retained records bounded: afterwards there are at most \<open>RetainedRuns\<close> of
  them, or all of them are still active; no active run is ever dropped, the new run is retained, and
  the survivors keep their order.
\<close>

lemma retention_bounded:
  assumes "reachable s" and "beginAlloc (ctl s) now runID nonce trigger = (r, ep, c')"
  shows "(length (c_slots c') \<le> RetainedRuns \<or> (\<forall>q \<in> set (c_slots c'). active (rs_state (slot c' q))))
    \<and> (\<forall>q \<in> set (c_slots (ctl s)). active (rs_state (slot (ctl s) q)) \<longrightarrow> q \<in> set (c_slots c'))
    \<and> r \<in> set (c_slots c') \<and> subseq (c_slots c') (c_slots (ctl s) @ [r])"
proof -
  let ?c = "withSlot (ctl s) (newSlot runID nonce (Suc (c_epoch (ctl s))) trigger now)"
  note st = reachable_store [OF assms(1)]
  have r: "r = length (c_heap (ctl s))" and c': "c' = evict ?c"
    using assms(2) by (auto simp: beginAlloc_def addSlotLocked_def withSlot_def Let_def)
  have refs: "\<And>q. q \<in> set (c_slots ?c) \<Longrightarrow> q < length (c_heap ?c)"
    using store_ref [OF st] by (auto simp: less_Suc_eq)
  have "active (rs_state (slot ?c r))" by (simp add: r slot_withSlot newSlot_def active_def)
  moreover have "slot ?c q = slot (ctl s) q" if "q \<in> set (c_slots (ctl s))" for q
    using store_ref [OF st that] by (rule slot_withSlot(2))
  ultimately show ?thesis
    using evict_retains [of ?c] refs unfolding c' by (simp add: r)
qed

end
