(* ===== verification/Finish_Theorems.thy ===== *)
theory Finish_Theorems
  imports Run_Demo
begin

text \<open>
  What finishing a run guarantees: the worker's accounting of sections and verdicts, the replay of an
  accepted finish, and that an undisturbed worker ends in a published snapshot.
\<close>

subsection \<open>The worker's accounting\<close>

text \<open>What every worker operation keeps: it appends boundaries, each with a code, and with each the
  verdict degrades; names once dropped stay dropped and get no section.\<close>

definition worker_grows :: "workerState \<Rightarrow> workerState \<Rightarrow> bool" where
  "worker_grows ws ws' \<longleftrightarrow>
     (\<exists>bs. ws_boundaries ws' = ws_boundaries ws @ bs
        \<and> (\<forall>b \<in> set bs. cb_Code b \<noteq> NoCode \<and> cb_Phase b = PhaseCollect)
        \<and> (bs = [] \<longrightarrow> ws_validity ws' = ws_validity ws)
        \<and> (bs \<noteq> [] \<longrightarrow> 1 \<le> validityRank (ws_validity ws')))
     \<and> validityRank (ws_validity ws) \<le> validityRank (ws_validity ws')
     \<and> set (ws_dropped ws) \<subseteq> set (ws_dropped ws')
     \<and> (\<forall>n \<in> set (ws_dropped ws). ws_sections ws' n = ws_sections ws n)"

lemma worker_grows_refl [simp]: "worker_grows ws ws"
  by (simp add: worker_grows_def)

lemma worker_grows_trans:
  assumes "worker_grows a b" "worker_grows b d"
  shows "worker_grows a d"
proof -
  from assms obtain xs ys where
    xs: "ws_boundaries b = ws_boundaries a @ xs" "\<forall>x \<in> set xs. cb_Code x \<noteq> NoCode \<and> cb_Phase x = PhaseCollect"
      "xs = [] \<longrightarrow> ws_validity b = ws_validity a" "xs \<noteq> [] \<longrightarrow> 1 \<le> validityRank (ws_validity b)" and
    ys: "ws_boundaries d = ws_boundaries b @ ys" "\<forall>x \<in> set ys. cb_Code x \<noteq> NoCode \<and> cb_Phase x = PhaseCollect"
      "ys = [] \<longrightarrow> ws_validity d = ws_validity b" "ys \<noteq> [] \<longrightarrow> 1 \<le> validityRank (ws_validity d)"
    unfolding worker_grows_def by blast
  have le: "validityRank (ws_validity a) \<le> validityRank (ws_validity b)"
    "validityRank (ws_validity b) \<le> validityRank (ws_validity d)"
    using assms unfolding worker_grows_def by blast+
  have "\<exists>bs. ws_boundaries d = ws_boundaries a @ bs
      \<and> (\<forall>b \<in> set bs. cb_Code b \<noteq> NoCode \<and> cb_Phase b = PhaseCollect)
      \<and> (bs = [] \<longrightarrow> ws_validity d = ws_validity a) \<and> (bs \<noteq> [] \<longrightarrow> 1 \<le> validityRank (ws_validity d))"
    by (rule exI [of _ "xs @ ys"]) (use xs ys le in auto)
  then show ?thesis using le assms unfolding worker_grows_def by (auto simp: subset_iff)
qed

lemma worker_grows_fold: "(\<And>x ws. worker_grows ws (f x ws)) \<Longrightarrow> worker_grows ws (fold f xs ws)"
  by (induction xs arbitrary: ws) (auto intro: worker_grows_trans)

lemma failSection_grows: "worker_grows ws (failSection runID reg kind name err ws)"
  by (auto simp: worker_grows_def failSection_def noteCollectFailure_def collectFailure_def)

lemma drainOne_grows: "worker_grows ws (drainOne c drain runID h ws)"
proof -
  have "worker_grows ws (ws\<lparr>ws_boundaries := ws_boundaries ws @ [b], ws_validity := worse (ws_validity ws) ValidityPartial\<rparr>)"
    if "cb_Code b \<noteq> NoCode" "cb_Phase b = PhaseCollect" for b
    using that by (auto simp: worker_grows_def)
  then show ?thesis by (auto simp: drainOne_def failSection_grows split: option.split)
qed

lemma section_grows:
  "n \<notin> set (ws_dropped ws) \<Longrightarrow> worker_grows ws (ws\<lparr>ws_sections := (ws_sections ws)(n \<mapsto> v)\<rparr>)"
  by (auto simp: worker_grows_def)

lemma collectGenOne_grows: "worker_grows ws (collectGenOne c env runID h ws)"
  by (auto simp: collectGenOne_def failSection_grows section_grows split: option.split prod.split)

lemma collectBaseOne_grows: "worker_grows ws (collectBaseOne c env runID finals h ws)"
  by (auto simp: collectBaseOne_def failSection_grows section_grows split: option.split prod.split)

lemma workerCollect_grows: "worker_grows (workerInit w) (workerCollect c env w)"
proof -
  let ?a = "fold (drainOne c (we_drain env) (w_runID w)) (w_genFinal w) (workerInit w)"
  let ?b = "fold (collectGenOne c env (w_runID w)) (w_genFinal w) ?a"
  have "worker_grows (workerInit w) ?a" by (rule worker_grows_fold) (rule drainOne_grows)
  moreover have "worker_grows ?a ?b" by (rule worker_grows_fold) (rule collectGenOne_grows)
  moreover have "worker_grows ?b (workerCollect c env w)"
    unfolding workerCollect_def by (rule worker_grows_fold) (rule collectBaseOne_grows)
  ultimately show ?thesis by (blast intro: worker_grows_trans)
qed

text \<open>A Drain that panics drops its section before anything is collected.\<close>

lemma drainOne_sections: "ws_sections (drainOne c drain runID h ws) = ws_sections ws"
  by (simp add: drainOne_def failSection_def split: option.split prod.split)

lemma drainFold_sections: "ws_sections (fold (drainOne c drain runID) hs ws) = ws_sections ws"
  by (induction hs arbitrary: ws) (simp_all add: drainOne_sections)

lemma drainOne_panic:
  assumes "generationByName c (gh_Collector h) \<noteq> None" and "drain h = Panics t"
  shows "gh_Collector h \<in> set (ws_dropped (drainOne c drain runID h ws))"
  using assms
  by (auto simp: drainOne_def safeErr_def isPanic_def newPanicError_def failSection_def split: prod.split)

lemma drainFold_panic:
  assumes "h \<in> set hs" and "generationByName c (gh_Collector h) \<noteq> None" and "drain h = Panics t"
  shows "gh_Collector h \<in> set (ws_dropped (fold (drainOne c drain runID) hs ws))"
  using assms(1)
proof (induction hs arbitrary: ws)
  case (Cons x hs)
  show ?case
  proof (cases "x = h")
    case True
    have "worker_grows (drainOne c drain runID h ws) (fold (drainOne c drain runID) hs (drainOne c drain runID h ws))"
      by (rule worker_grows_fold) (rule drainOne_grows)
    with drainOne_panic [where drain = drain, OF assms(2,3)] True show ?thesis by (auto simp: worker_grows_def)
  next
    case False
    with Cons show ?thesis by simp
  qed
qed simp

text \<open>Where a section's value comes from.\<close>

definition sections_from :: "workerEnv \<Rightarrow> finishWork \<Rightarrow> workerState \<Rightarrow> bool" where
  "sections_from env w ws \<longleftrightarrow> (\<forall>n v. ws_sections ws n = Some v \<longrightarrow>
     (\<exists>h \<in> set (w_genFinal w). gh_Collector h = n \<and> we_collectG env h = Ret v None) \<or>
     (\<exists>b \<in> set (w_baseStart w). \<exists>f. bh_Collector b = n \<and> finalByName (w_baseFinal w) n = Some f \<and>
        we_collectB env b f = Ret v None))"

lemma fold_keeps: "P s \<Longrightarrow> (\<And>x s. x \<in> set xs \<Longrightarrow> P s \<Longrightarrow> P (f x s)) \<Longrightarrow> P (fold f xs s)"
  by (induction xs arbitrary: s) auto

lemma sections_from_failSection: "sections_from env w ws \<Longrightarrow> sections_from env w (failSection runID reg kind n err ws)"
  by (simp add: sections_from_def failSection_def split: prod.split)

lemma collected_ok: "collectGeneration ctxErr reg fn = (v, None) \<Longrightarrow> fn = Ret v None"
  "collectBaseline ctxErr reg fn = (v, None) \<Longrightarrow> fn = Ret v None"
  by (auto simp: collectGeneration_def collectBaseline_def safeResult_def split: option.splits call.splits)

lemma sections_from_gen:
  assumes "h \<in> set (w_genFinal w)" and "sections_from env w ws"
  shows "sections_from env w (collectGenOne c env runID h ws)"
proof -
  have "sections_from env w (ws\<lparr>ws_sections := (ws_sections ws)(gh_Collector h \<mapsto> v)\<rparr>)" if "we_collectG env h = Ret v None" for v
    using assms that by (auto simp: sections_from_def)
  with assms(2) show ?thesis
    by (auto simp: collectGenOne_def sections_from_failSection dest: collected_ok split: option.split prod.split)
qed

lemma sections_from_base:
  assumes "b \<in> set (w_baseStart w)" and "sections_from env w ws"
  shows "sections_from env w (collectBaseOne c env runID (w_baseFinal w) b ws)"
proof -
  have "sections_from env w (ws\<lparr>ws_sections := (ws_sections ws)(bh_Collector b \<mapsto> v)\<rparr>)"
    if "finalByName (w_baseFinal w) (bh_Collector b) = Some f" "we_collectB env b f = Ret v None" for v f
    using assms that by (auto simp: sections_from_def)
  with assms(2) show ?thesis
    by (auto simp: collectBaseOne_def sections_from_failSection dest: collected_ok split: option.split prod.split)
qed

lemma sections_from_workerCollect: "sections_from env w (workerCollect c env w)"
proof -
  have "sections_from env w (fold (drainOne c (we_drain env) (w_runID w)) (w_genFinal w) (workerInit w))"
    by (simp add: sections_from_def drainFold_sections) (simp add: workerInit_def)
  then have "sections_from env w (fold (collectGenOne c env (w_runID w)) (w_genFinal w)
      (fold (drainOne c (we_drain env) (w_runID w)) (w_genFinal w) (workerInit w)))"
    by (rule fold_keeps) (rule sections_from_gen)
  then show ?thesis
    unfolding workerCollect_def by (rule fold_keeps) (rule sections_from_base)
qed

lemma panicked_drain_no_section:
  assumes "h \<in> set (w_genFinal w)" and "generationByName c (gh_Collector h) \<noteq> None" and "we_drain env h = Panics t"
  shows "ws_sections (workerCollect c env w) (gh_Collector h) = None"
proof -
  let ?a = "fold (drainOne c (we_drain env) (w_runID w)) (w_genFinal w) (workerInit w)"
  have "worker_grows ?a (fold (collectGenOne c env (w_runID w)) (w_genFinal w) ?a)"
    by (rule worker_grows_fold) (rule collectGenOne_grows)
  moreover have "worker_grows (fold (collectGenOne c env (w_runID w)) (w_genFinal w) ?a) (workerCollect c env w)"
    unfolding workerCollect_def by (rule worker_grows_fold) (rule collectBaseOne_grows)
  ultimately have "worker_grows ?a (workerCollect c env w)" by (rule worker_grows_trans)
  with drainFold_panic [where drain = "we_drain env", OF assms, of "w_runID w" "workerInit w"] show ?thesis
    by (simp add: worker_grows_def drainFold_sections) (simp add: workerInit_def)
qed


definition droppedWork :: finishWork where
  "droppedWork =
     \<lparr>w_runID = ''r1'', w_trigger = [], w_startedAt = 1, w_validity = ValidityPartial,
      w_boundaries = [(newBoundary demoReg KindGeneration PhaseFinishFreeze)\<lparr>cb_Code := CodeBoundaryFailed, cb_Dropped := True\<rparr>],
      w_genFinal = [demoHandle], w_baseStart = [], w_baseFinal = [], w_genStart = []\<rparr>"


subsection \<open>Replay\<close>

text \<open>
  An accepted finish is replayed, not repeated: once a run's closing boundary is recorded, every
  later \<open>FinishRun\<close> on the retained run returns that same acceptance and starts no worker, unless the
  run has been aborted or has expired.
\<close>

lemma repeated_finish_replays:
  assumes "reachable s" and "steps s s'" and "r < length (c_heap (ctl s))"
    and "rs_finishSet (slot (ctl s) r)" and "lookupLocked (ctl s') runID = Some r"
  shows "FinishRun env ctxErr runID (ctl s' # looks) \<in>
    {(Inr (rs_finish (slot (ctl s) r)), None, Some (ctl s')),
     (Inl ErrRunAborted, None, Some (ctl s')), (Inl ErrUnknownRun, None, Some (ctl s'))}"
proof -
  have d: "descends (slot (ctl s) r) (slot (ctl s') r)" "r < length (c_heap (ctl s'))"
    using steps_descend [OF assms(2,1)] assms(3) by auto
  have f: "rs_finishSet (slot (ctl s') r)" "rs_finish (slot (ctl s') r) = rs_finish (slot (ctl s) r)"
    using descends_keeps [OF d(1)] assms(4) by (simp_all add: keeps_def)
  have i: "slot_inv (c_epoch (ctl s')) (slot (ctl s') r)"
    by (rule store_slot [OF reachable_store [OF reachable_steps [OF assms(2,1)]] d(2)])
  then have "rs_state (slot (ctl s') r) \<notin> {StateStarting, StateStarted, StateZero, StateIdle}"
    using f(1) by (auto simp: slot_inv_def)
  then show ?thesis using f assms(5)
    by (cases "rs_state (slot (ctl s') r)") (simp_all add: finishEnter_def Let_def)
qed

subsection \<open>Completion\<close>

text \<open>
  C9: A finish worker that nobody disturbs completes its run: from any reachable state in which it
  still owns the current epoch, it ends with the run finished, the snapshot it built published and
  visible, the verdict merged, the lease cleared and no handle pinned.
\<close>

theorem finish_worker_completes:
  assumes "reachable s" and "TFinish r ep w \<in># pool s" and "ep = c_epoch (ctl s)"
    and "c' = finishWorker env rg rb (\<lambda>c. c) (\<lambda>c. c) now r ep w (ctl s)"
  defines "snap \<equiv> fst (buildSnapshot (ctl s) env ep w)" and "x \<equiv> slot (ctl s) r"
  shows "rs_state (slot c' r) = StateFinished \<and> SnapshotOf c' (rs_runID x) = Inr snap
    \<and> rs_validity (slot c' r) = worse (rs_validity x) (sn_Validity snap)
    \<and> noHandles (slot c' r) \<and> rs_lease (slot c' r) = 0 \<and> rs_sealed (slot c' r)"
proof -
  have inv: "Inv (ctl s) (pool s) (startMu s)" using reachable_SysInv [OF assms(1)] by (simp add: SysInv_def)
  have t: "r < length (c_heap (ctl s))" "rs_epoch x = ep" "rs_state x = StateFinishing"
    using inv assms(2,3) by (auto simp: Inv_def x_def)
  note st = Inv_store [OF inv]
  have mem: "r \<in> set (c_slots (ctl s))" using live_retained [OF st t(1)] t(3) by (simp add: x_def)
  define c1 where "c1 = releaseAll rg rb w (recordHealth (ctl s) (snd (buildSnapshot (ctl s) env ep w)))"
  have core: "same_core (ctl s) c1" unfolding c1_def by (intro core_intros same_core_refl)
  have st1: "store_inv c1" and x1: "slot c1 r = x" and len1: "r < length (c_heap c1)"
    and mem1: "r \<in> set (c_slots c1)" and ep1: "ep = c_epoch c1"
    using store_same_core [OF st core] same_core_slot [OF core, of r] core t(1) mem assms(3)
    by (auto simp: x_def same_core_def)
  have fence: "fencedSlotLocked c ep = Some r"
    if "store_inv c" "r < length (c_heap c)" "r \<in> set (c_slots c)" "rs_epoch (slot c r) = ep" "c_epoch c = ep" for c
    using that fenced_is [OF that(1,2,4)] by (cases "fencedSlotLocked c ep") (auto simp: fencedSlotLocked_None)
  define c2 where "c2 = (upd c1 r (\<lambda>s. s\<lparr>rs_snapshot := Some snap\<rparr>))\<lparr>c_published := Suc (c_published c1)\<rparr>"
  have at2: "slot c2 q = (if q = r then x\<lparr>rs_snapshot := Some snap\<rparr> else slot c1 q)" for q
    using len1 by (simp add: c2_def slot_simps x1)
  have f2: "length (c_heap c2) = length (c_heap c1)" "c_slots c2 = c_slots c1" "c_epoch c2 = c_epoch c1"
    by (simp_all add: c2_def)
  have p: "publish c1 ep snap = (None, c2)"
    using fence [OF st1 len1 mem1 _ ep1 [symmetric]] t(2) by (simp add: publish_def c2_def x1)
  have os: "one_slot c1 c2 r" by (simp add: one_slot_def at2 f2 x1)
  have "slot_inv (c_epoch c1) x" using store_slot [OF st1 len1] x1 by simp
  then have st2: "store_inv c2"
    by (intro store_one_slot [OF st1 os len1 f2(3)]) (use t(3) in \<open>auto simp: at2 x1 slot_inv_def\<close>)
  have "fencedSlotLocked c2 ep = Some r"
    using fence [OF st2] len1 mem1 t(2) ep1 by (simp add: f2 at2)
  then have k: "finishCommit c2 ep (sn_Validity snap) now =
      (None, notifyLocked (upd c2 r (finishSlot (sn_Validity snap) now)) r)"
    by (simp add: finishCommit_def commit_def)
  have c': "c' = endOwner (notifyLocked (upd c2 r (finishSlot (sn_Validity snap) now)) r) r"
    unfolding assms(4) finishWorker_def
    using p k by (simp add: case_prod_unfold Let_def snap_def c1_def)
  have at': "slot c' q = (if q = r then retireOwner ((finishSlot (sn_Validity snap) now (x\<lparr>rs_snapshot := Some snap\<rparr>))
      \<lparr>rs_changed := Suc (rs_changed (finishSlot (sn_Validity snap) now (x\<lparr>rs_snapshot := Some snap\<rparr>)))\<rparr>) else slot c1 q)" for q
    unfolding c' endOwner_def using len1 by (simp add: slot_simps f2 at2)
  have run: "rs_runID (slot c' q) = rs_runID (slot c1 q)" for q
    by (simp add: at' x1 finishSlot_def)
  have "c_slots c' = c_slots c1" by (simp add: c' endOwner_def f2)
  moreover have "lookupLocked c1 (rs_runID x) = Some r"
  proof -
    obtain q where q: "lookupLocked c1 (rs_runID x) = Some q"
      using mem1 x1 by (cases "lookupLocked c1 (rs_runID x)") (auto simp: lookupLocked_None)
    then have "q = r"
      using lookupLocked_Some [OF q] store_ref [OF st1] runID_inject [OF st1 _ len1, of q] x1 by auto
    then show ?thesis using q by simp
  qed
  ultimately have "lookupLocked c' (rs_runID x) = Some r" by (simp add: lookupLocked_def run)
  moreover have "rs_state (slot c' r) = StateFinished \<and> rs_snapshot (slot c' r) = Some snap
      \<and> rs_validity (slot c' r) = worse (rs_validity x) (sn_Validity snap)
      \<and> noHandles (slot c' r) \<and> rs_lease (slot c' r) = 0 \<and> rs_sealed (slot c' r)"
    by (simp add: at' finishSlot_def noHandles_def retireOwner_def sealLocked_def closeDoneLocked_def Let_def)
  ultimately show ?thesis by (simp add: SnapshotOf_def)
qed

theorem finish_worker_completes_witness:
  "rs_state (slot (finishWorker demoWorker (\<lambda>h. Ret () None) (\<lambda>h. Ret () None) (\<lambda>c. c) (\<lambda>c. c) 301 0 1 demoWork demo7) 0)
    = StateFinished"
proof -
  have "c_epoch demo7 = 1" using demo7_at by (simp add: demoAt_def)
  then show ?thesis using finish_worker_completes [OF reachable_demo7 _ _ refl, of 0 1 demoWork] by simp
qed

end
