(* ===== verification/Boundary_Theorems.thy ===== *)
theory Boundary_Theorems
  imports Phases
begin

text \<open>
  What a boundary of the run controller records, whatever its collectors do: completeness of the two
  phases, the measured window and the spread rule, the budget table, and the size of panic reports.
\<close>

subsection \<open>Phases\<close>

text \<open>
  The generation phase visits every registered collector once, in registration order, and
  accounts for each: a handle is kept exactly for the committed ones, the phase is valid exactly when
  no collector has an error code, a failure of a required collector makes it invalid, and a section
  is dropped on every failure except a freeze that had already committed.
\<close>

lemma generation_phase_complete:
  assumes "runGenerationPhase env phase runID regs = (out, hl)"
  shows "map cb_Name (go_boundaries out) = map (reg_Name \<circ> rg_reg) regs
    \<and> length (go_handles out) = length (filter cb_Committed (go_boundaries out))
    \<and> (go_validity out = ValidityValid \<longleftrightarrow> (\<forall>b \<in> set (go_boundaries out). cb_Code b = NoCode))
    \<and> (\<forall>b \<in> set (go_boundaries out). cb_Required b \<and> cb_Code b \<noteq> NoCode \<longrightarrow> go_validity out = ValidityInvalid)
    \<and> (\<forall>b \<in> set (go_boundaries out).
         cb_Dropped b \<longleftrightarrow> cb_Code b \<noteq> NoCode \<and> (phase = PhaseStartBoundary \<or> \<not> cb_Committed b))"
proof -
  let ?ops = "generationResults env phase runID 0 regs"
  have out: "go_boundaries out = map fst ?ops" "go_handles out = List.map_filter (\<lambda>(b, h, d, l). h) ?ops"
    and fst: "fst (runGenerationPhase env phase runID regs) = out"
    using assms by (auto simp: runGenerationPhase_eq Let_def)
  have "length (go_handles out) = length (filter cb_Committed (go_boundaries out))"
    unfolding out by (rule length_map_filter_handles) (use generationResults_props(1) in blast)
  moreover have "map cb_Name (go_boundaries out) = map (reg_Name \<circ> rg_reg) regs"
    using names_generationResults [of env phase runID 0 regs] by (simp add: out comp_assoc)
  moreover have "\<forall>b \<in> set (go_boundaries out).
      cb_Dropped b \<longleftrightarrow> cb_Code b \<noteq> NoCode \<and> (phase = PhaseStartBoundary \<or> \<not> cb_Committed b)"
    using generationResults_props(7) [of _ _ _ _ env phase runID 0 regs] by (force simp: out(1))
  ultimately show ?thesis
    using generationPhase_Valid_iff [of env phase runID regs]
      generationPhase_required_failure [of _ env phase runID regs] unfolding fst by blast
qed

definition exampleGens :: "registeredGeneration list" where
  "exampleGens =
     [\<lparr>rg_reg = \<lparr>reg_Name = ''http'', reg_Required = True, reg_SerialOnly = False\<rparr>,
       rg_coll = \<lparr>coll_Budget = None\<rparr>\<rparr>,
      \<lparr>rg_reg = \<lparr>reg_Name = ''sql'', reg_Required = False, reg_SerialOnly = False\<rparr>,
       rg_coll = \<lparr>coll_Budget = None\<rparr>\<rparr>]"

definition exampleGenEnv :: genEnv where
  "exampleGenEnv =
     \<lparr>ge_ctxErr = (\<lambda>i. None),
      ge_call = (\<lambda>i. if i = 0
        then Ret \<lparr>br_Handle = zeroGenerationHandle, br_At = 10, br_Committed = True\<rparr> None
        else Ret zeroBoundaryResult (Some (PlainErr ''down'')))\<rparr>"

text \<open>
  The baseline phase, although it samples in parallel, reports every registered collector once
  and in registration order; a collector without an error has its sample's handle and keeps its
  section, one with an error loses it; the phase is valid exactly when all succeeded, and a required
  failure makes it invalid.
\<close>

lemma baseline_phase_complete:
  assumes "runBaselinePhase env phase runID regs = (out, hl)"
  shows "map cb_Name (bo_boundaries out) = map (reg_Name \<circ> rb_reg) regs
    \<and> (bo_validity out = ValidityValid \<longleftrightarrow> (\<forall>b \<in> set (bo_boundaries out). cb_Code b = NoCode))
    \<and> (\<forall>b \<in> set (bo_boundaries out). cb_Required b \<and> cb_Code b \<noteq> NoCode \<longrightarrow> bo_validity out = ValidityInvalid)
    \<and> (\<forall>b \<in> set (bo_boundaries out). cb_Dropped b \<longleftrightarrow> cb_Code b \<noteq> NoCode)
    \<and> length (filter (\<lambda>b. cb_Code b = NoCode) (bo_boundaries out)) \<le> length (bo_handles out)"
proof -
  let ?rs = "baselineResults env phase runID 0 regs"
  have out: "bo_boundaries out = map fst ?rs" "bo_handles out = List.map_filter (\<lambda>(b, h, v, l). h) ?rs"
    and fst: "fst (runBaselinePhase env phase runID regs) = out"
    using assms by (auto simp: runBaselinePhase_eq Let_def)
  have "(\<forall>(b, h, v, l) \<in> set rs. cb_Code b = NoCode \<longrightarrow> h \<noteq> None) \<Longrightarrow>
      length (filter (\<lambda>b. cb_Code b = NoCode) (map fst rs)) \<le> length (List.map_filter (\<lambda>(b, h, v, l). h) rs)"
    for rs :: "(CollectorBoundary \<times> BaselineHandle option \<times> Validity \<times> health_log) list"
    by (induction rs) (auto simp: List.map_filter_simps le_SucI split: option.splits)
  then have "length (filter (\<lambda>b. cb_Code b = NoCode) (bo_boundaries out)) \<le> length (bo_handles out)"
    unfolding out using baselineResults_props(8) by blast
  moreover have "map cb_Name (bo_boundaries out) = map (reg_Name \<circ> rb_reg) regs"
    using names_baselineResults [of env phase runID 0 regs] by (simp add: out comp_assoc)
  moreover have "\<forall>b \<in> set (bo_boundaries out). cb_Dropped b \<longleftrightarrow> cb_Code b \<noteq> NoCode"
    using baselineResults_props(7) [of _ _ _ _ env phase runID 0 regs] by (force simp: out(1))
  ultimately show ?thesis
    using baselinePhase_Valid_iff [of env phase runID regs]
      baselinePhase_required_failure [of _ env phase runID regs] unfolding fst by blast
qed

definition exampleBases :: "registeredBaseline list" where
  "exampleBases =
     [\<lparr>rb_reg = \<lparr>reg_Name = ''host'', reg_Required = True, reg_SerialOnly = False\<rparr>,
       rb_coll = \<lparr>coll_Budget = None\<rparr>\<rparr>]"

definition exampleBaseEnv :: baseEnv where
  "exampleBaseEnv =
     \<lparr>be_sem = (\<lambda>i. None), be_ctxErr = (\<lambda>i. None),
      be_call = (\<lambda>i. Ret zeroSampleResult (Some (PlainErr ''unreadable'')))\<rparr>"

subsection \<open>Windows\<close>

text \<open>
  The window of a boundary is the span of the instants its collectors measured: the least and the
  greatest of them, over the collectors asked for, with the unmeasured (zero) ones left out, the
  spread their (saturating) difference; without measurements it is the zero window.
\<close>

lemma window_is_span:
  "computeWindow bs keep =
     (let ts = map cb_At (filter (\<lambda>b. \<not> IsZero (cb_At b) \<and> keep_ok keep b) bs) in
      if ts = [] then zeroWindow
      else \<lparr>bw_Min = Min (set ts), bw_Max = Max (set ts),
            bw_Spread = time_Sub (Max (set ts)) (Min (set ts))\<rparr>)"
  by (simp only: computeWindow_spec measured_def)

text \<open>
  The spread rule is two-tiered: a boundary within both limits is valid; optional collectors that
  stretch it make it partial; when the required ones alone exceed a limit it is invalid. Whenever it is
  not valid some collector is named and marked, and marking adds a code only to collectors that have
  none and changes nothing else about the boundary.
\<close>

lemma spread_rule:
  assumes "applySpread bud runID bs label = (v, bs', hl)"
    and "0 \<le> b_SpreadGeneration bud" and "0 \<le> b_SpreadBoundary bud"
  shows "(v = ValidityInvalid \<longleftrightarrow>
        bw_Spread (computeWindow bs (required_keep (Some keepGeneration))) > b_SpreadGeneration bud
        \<or> bw_Spread (computeWindow bs (required_keep None)) > b_SpreadBoundary bud)
    \<and> (v = ValidityValid \<longleftrightarrow>
        bw_Spread (computeWindow bs (Some keepGeneration)) \<le> b_SpreadGeneration bud
        \<and> bw_Spread (computeWindow bs None) \<le> b_SpreadBoundary bud)
    \<and> map cb_Name bs' = map cb_Name bs \<and> map cb_At bs' = map cb_At bs
    \<and> (\<forall>i < length bs. cb_Code (bs ! i) \<noteq> NoCode \<longrightarrow> bs' ! i = bs ! i)
    \<and> (v \<noteq> ValidityValid \<longrightarrow> spread_offenders bud bs \<noteq> [])"
proof -
  let ?g = "judgeSpread bs (Some keepGeneration) (b_SpreadGeneration bud)"
  let ?a = "judgeSpread bs None (b_SpreadBoundary bud)"
  have v: "v = worse (sv_validity ?g) (sv_validity ?a)"
    using applySpread_fst [of bud runID bs label] assms(1) by simp
  have b: "bs' = map (mark_spread (spread_offenders bud bs)) bs"
    using applySpread_boundaries [of bud runID bs label] assms(1) by simp
  note mono = computeWindow_Spread_mono [OF measured_required_subset]
  have "v = ValidityInvalid \<longleftrightarrow>
      bw_Spread (computeWindow bs (required_keep (Some keepGeneration))) > b_SpreadGeneration bud
      \<or> bw_Spread (computeWindow bs (required_keep None)) > b_SpreadBoundary bud"
    unfolding v by (simp add: judgeSpread_validity worse_def)
  moreover have "v = ValidityValid \<longleftrightarrow>
      bw_Spread (computeWindow bs (Some keepGeneration)) \<le> b_SpreadGeneration bud
      \<and> bw_Spread (computeWindow bs None) \<le> b_SpreadBoundary bud"
    unfolding v using mono [of bs "Some keepGeneration"] mono [of bs None]
    by (auto simp: judgeSpread_validity)
  moreover have "v \<noteq> ValidityValid \<longrightarrow> spread_offenders bud bs \<noteq> []"
    using judgeSpread_offenders_nonempty [of bs "Some keepGeneration" "b_SpreadGeneration bud"]
      judgeSpread_offenders_nonempty [of bs None "b_SpreadBoundary bud"] assms(2,3)
    by (auto simp: v spread_offenders_def judgeSpread_validity)
  moreover have "\<forall>i < length bs. cb_Code (bs ! i) \<noteq> NoCode \<longrightarrow> bs' ! i = bs ! i"
    by (simp add: b mark_spread_def)
  ultimately show ?thesis by (simp add: b)
qed

definition exampleBoundaries :: "CollectorBoundary list" where
  "exampleBoundaries =
     [(newBoundary \<lparr>reg_Name = ''http'', reg_Required = True, reg_SerialOnly = False\<rparr> KindGeneration PhaseStartBoundary)
        \<lparr>cb_At := 10, cb_Committed := True\<rparr>,
      (newBoundary \<lparr>reg_Name = ''sql'', reg_Required = False, reg_SerialOnly = False\<rparr> KindGeneration PhaseStartBoundary)
        \<lparr>cb_At := 10000000000, cb_Committed := True\<rparr>]"

subsection \<open>Verdicts\<close>

text \<open>
  Merging verdicts is a join: \<open>worse\<close> is the maximum for the order valid, partial, invalid, so it
  is associative, commutative and idempotent on proper verdicts, never loses a failure, and treats
  the zero verdict as valid.
\<close>

lemma worse_is_join:
  "validityRank (worse a b) = max (validityRank a) (validityRank b)
   \<and> worse (worse a b) d = worse a (worse b d)
   \<and> (a \<noteq> ValidityZero \<longrightarrow> worse a a = a)
   \<and> (a \<noteq> ValidityZero \<and> b \<noteq> ValidityZero \<longrightarrow> worse a b = worse b a)
   \<and> worse ValidityZero a \<noteq> ValidityZero
   \<and> (worse a b = ValidityInvalid \<longleftrightarrow> a = ValidityInvalid \<or> b = ValidityInvalid)"
  by (cases a; cases b; cases d) (simp_all add: worse_def)

subsection \<open>Budgets\<close>

text \<open>
  Defaulting a budget table is total and idempotent: every budget becomes positive, a table that
  is positive already is left alone, and the built-in table respects the hierarchy, so a controller
  with no options is always created.
\<close>

lemma budget_defaults:
  "all_positive (withDefaults b) \<and> withDefaults (withDefaults b) = withDefaults b
   \<and> Validate (withDefaults zeroBudgets) = None"
  using withDefaults_pos withDefaults_id default_table_valid by blast

definition budget_hierarchy :: "Budgets \<Rightarrow> bool" where
  "budget_hierarchy b \<longleftrightarrow>
     b_PhaseBaseline b < b_StartRun b \<and> b_PerCollectorBaseline b < b_PhaseBaseline b
     \<and> b_PhaseBoundary b < b_StartRun b \<and> b_PerCollectorGeneration b < b_PhaseBoundary b
     \<and> b_PhaseFinal b < b_FinishSync b \<and> b_PerCollectorBaseline b < b_PhaseFinal b
     \<and> b_PhaseFreeze b < b_FinishSync b \<and> b_PerCollectorGeneration b < b_PhaseFreeze b
     \<and> b_PhaseBoundary b + b_PhaseBaseline b \<le> b_StartRun b
     \<and> b_PhaseFreeze b + b_PhaseFinal b \<le> b_FinishSync b
     \<and> b_FinishSync b < b_FinishLease b
     \<and> b_Drain b + b_SnapshotBuild b + b_Enrich b < b_FinishLease b"

text \<open>
  As long as the sums it forms fit in 64 bits, \<open>Validate\<close> accepts exactly the tables in which every
  child budget fits its parent, phases that run one after the other fit together, and the finish lease
  outlives the work it covers; every refusal is a budget inversion.
\<close>

lemma validate_is_hierarchy:
  assumes "in_int64 (b_PhaseBoundary b + b_PhaseBaseline b)" and "in_int64 (b_PhaseFreeze b + b_PhaseFinal b)"
    and "in_int64 (b_Drain b + b_SnapshotBuild b)" and "in_int64 (b_Drain b + b_SnapshotBuild b + b_Enrich b)"
  shows "(Validate b = None \<longleftrightarrow> budget_hierarchy b)
    \<and> (\<forall>e. Validate b = Some e \<longrightarrow> errors_Is e ErrBudgetInversion)"
proof
  show "Validate b = None \<longleftrightarrow> budget_hierarchy b"
    using assms by (simp add: Validate_simps wrap64_id budget_hierarchy_def)
  show "\<forall>e. Validate b = Some e \<longrightarrow> errors_Is e ErrBudgetInversion"
    using check_rules_Some [of "rules b"] by (auto simp: Validate_def rule_error_def)
qed

definition hugeBudgets :: Budgets where
  "hugeBudgets =
     (withDefaults zeroBudgets)
       \<lparr>b_StartRun := 4611686018427387999, b_PhaseBoundary := 4611686018427387950,
        b_PhaseBaseline := 4611686018427387950\<rparr>"

text \<open>
  Without that bound the sums wrap around: here two phases of more than 146 years each are said to
  fit into a start budget of 146 years, so \<open>Validate\<close> accepts a table that breaks its own hierarchy.
\<close>

lemma validate_accepts_wrapped_sum:
  "all_positive hugeBudgets \<and> Validate hugeBudgets = None
   \<and> in_int64 (b_PhaseBoundary hugeBudgets) \<and> in_int64 (b_PhaseBaseline hugeBudgets)
   \<and> b_StartRun hugeBudgets < b_PhaseBoundary hugeBudgets + b_PhaseBaseline hugeBudgets"
  by code_simp

subsection \<open>Panic reports\<close>

lemma decodeRune_width_le: "snd (decodeRune s) \<le> 4"
  by (cases s rule: decodeRune.cases) (auto simp: Let_def split: list.splits)

lemma length_le_runes: "length s \<le> 4 * length (runes s)"
proof (induction s rule: decode.induct)
  case (1 s)
  show ?case
  proof (cases "s = []")
    case False
    obtain r n where d: "decodeRune s = (r, n)" by (cases "decodeRune s")
    have "n \<le> 4" using decodeRune_width_le [of s] d by simp
    moreover have "length (drop n s) \<le> 4 * length (runes (drop n s))"
      using "1" [OF False] d by (simp add: runes_def)
    moreover have "runes s = r # runes (drop n s)"
      using False d by (subst runes_def, subst decode.simps) (simp add: runes_def)
    ultimately show ?thesis by simp
  qed simp
qed

text \<open>
  Whatever a collector panics with, the text kept of it is bounded and never empty: at most 160
  runes of the value and an ellipsis, hence at most 643 bytes.
\<close>

lemma panic_text_bounded: "shortPanic v \<noteq> [] \<and> length (shortPanic v) \<le> 4 * panicTextMax + 3"
proof (cases v)
  case None
  then show ?thesis by (simp add: shortPanic_def panicTextMax_def)
next
  case (Some s)
  let ?t = "strings_Join (strings_Fields s) '' ''"
  have "length (encode (take panicTextMax (runes ?t))) \<le> 4 * panicTextMax"
    using length_encode [of "take panicTextMax (runes ?t)"] by simp
  moreover have "length (runes ?t) \<le> panicTextMax \<Longrightarrow> length ?t \<le> 4 * panicTextMax"
    using length_le_runes [of ?t] by linarith
  ultimately have "length (shortPanic v) \<le> 4 * panicTextMax + 3"
    using Some by (auto simp: shortPanic_def panicTextMax_def Let_def)
  then show ?thesis using shortPanic_nonempty by blast
qed

end
