(* ===== verification/Generation.thy ===== *)
theory Generation
  imports Budget
begin

text \<open>
  \<open>internal/generation/generation.go\<close>: collector generations that are swapped atomically while work
  stays attached to the generation in which it started.

  Generations live in a store and a pointer to one is its index. The value type and the two functions
  a manager is built from (\<open>factory\<close>, \<open>snapshot\<close>) are parameters. A channel that is only closed is a
  flag, a \<open>sync.Once\<close> the flag of the lease. Work mutates the value a lease points at, which is the
  operation \<open>Lease_Update\<close>.
\<close>

definition DefaultCompatWait :: duration where
  "DefaultCompatWait = DrainBudget"

record 's Frozen =
  fz_Generation :: int
  fz_Value :: 's
  fz_CutShort :: bool

record 't gslot =
  g_generation :: int
  g_value :: 't
  g_inflight :: int
  g_sealed :: bool
  g_done :: bool

record Lease =
  l_slot :: nat
  l_done :: bool

record 't Manager =
  m_slots :: "'t gslot list"
  m_current :: nat
  m_leases :: "Lease list"
  m_compatWait :: duration

definition settleLocked :: "'t gslot \<Rightarrow> 't gslot" where
  "settleLocked s = (if \<not> g_sealed s \<or> g_inflight s \<noteq> 0 then s else s\<lparr>g_done := True\<rparr>)"

definition sealLocked_gen :: "'t gslot \<Rightarrow> 't gslot" where
  "sealLocked_gen s = settleLocked (s\<lparr>g_sealed := True\<rparr>)"

definition newSlot_gen :: "'t \<Rightarrow> int \<Rightarrow> 't gslot" where
  "newSlot_gen factory n =
     \<lparr>g_generation = n, g_value = factory, g_inflight = 0, g_sealed = False, g_done = False\<rparr>"

definition New_gen :: "'t \<Rightarrow> 't Manager" where
  "New_gen factory =
     \<lparr>m_slots = [newSlot_gen factory 1], m_current = 0, m_leases = [], m_compatWait = 0\<rparr>"

definition upd_gen :: "'t Manager \<Rightarrow> nat \<Rightarrow> ('t gslot \<Rightarrow> 't gslot) \<Rightarrow> 't Manager" where
  "upd_gen m i f = m\<lparr>m_slots := (m_slots m)[i := f (m_slots m ! i)]\<rparr>"

definition Acquire :: "'t Manager \<Rightarrow> nat \<times> 't Manager" where
  "Acquire m =
     (length (m_leases m),
      (upd_gen m (m_current m) (\<lambda>s. s\<lparr>g_inflight := g_inflight s + 1\<rparr>))
        \<lparr>m_leases := m_leases m @ [\<lparr>l_slot = m_current m, l_done = False\<rparr>]\<rparr>)"

definition Lease_Value :: "'t Manager \<Rightarrow> nat \<Rightarrow> 't" where
  "Lease_Value m l = g_value (m_slots m ! l_slot (m_leases m ! l))"

definition Lease_Update :: "'t Manager \<Rightarrow> nat \<Rightarrow> ('t \<Rightarrow> 't) \<Rightarrow> 't Manager" where
  "Lease_Update m l f = upd_gen m (l_slot (m_leases m ! l)) (\<lambda>s. s\<lparr>g_value := f (g_value s)\<rparr>)"

definition Lease_Generation :: "'t Manager \<Rightarrow> nat \<Rightarrow> int" where
  "Lease_Generation m l = g_generation (m_slots m ! l_slot (m_leases m ! l))"

definition Lease_Done :: "'t Manager \<Rightarrow> nat \<Rightarrow> 't Manager" where
  "Lease_Done m l =
     (if l_done (m_leases m ! l) then m
      else
        (upd_gen m (l_slot (m_leases m ! l))
           (\<lambda>s. settleLocked (s\<lparr>g_inflight := g_inflight s - 1\<rparr>)))
          \<lparr>m_leases := (m_leases m)[l := (m_leases m ! l)\<lparr>l_done := True\<rparr>]\<rparr>)"

definition CurrentGeneration :: "'t Manager \<Rightarrow> int" where
  "CurrentGeneration m = g_generation (m_slots m ! m_current m)"

definition SetCompatWait :: "'t Manager \<Rightarrow> duration \<Rightarrow> 't Manager" where
  "SetCompatWait m wait = m\<lparr>m_compatWait := wait\<rparr>"

definition compatWaitOrDefault :: "'t Manager \<Rightarrow> duration" where
  "compatWaitOrDefault m = (if m_compatWait m \<le> 0 then DefaultCompatWait else m_compatWait m)"

definition Snapshot_gen :: "('t \<Rightarrow> 's) \<Rightarrow> 't Manager \<Rightarrow> 's Frozen" where
  "Snapshot_gen snapshot m =
     (let s = m_slots m ! m_current m in
      \<lparr>fz_Generation = g_generation s, fz_Value = snapshot (g_value s), fz_CutShort = False\<rparr>)"

text \<open>A sealed generation is named by its index.\<close>

definition Sealed_Generation :: "'t Manager \<Rightarrow> nat \<Rightarrow> int" where
  "Sealed_Generation m i = g_generation (m_slots m ! i)"

definition Settled :: "'t Manager \<Rightarrow> nat \<Rightarrow> bool" where
  "Settled m i = g_done (m_slots m ! i)"

text \<open>
  \<open>Wait\<close> looks once when it is entered (\<open>m\<close>) and, if the generation is not settled then, again when
  its \<open>select\<close> wakes (\<open>m'\<close>). A nil context (\<open>None\<close>) only wakes on completion; with both cases ready
  \<open>preferCtx\<close> says which one the runtime picked.
\<close>

definition Wait :: "nat \<Rightarrow> gerr option \<Rightarrow> bool \<Rightarrow> 't Manager \<Rightarrow> 't Manager \<Rightarrow> gerr option" where
  "Wait i ctxErr preferCtx m m' =
     (if Settled m i then None
      else
        (case ctxErr of
           None \<Rightarrow> None
         | Some e \<Rightarrow> if Settled m' i \<and> \<not> preferCtx then None else Some e))"

definition Freeze :: "('t \<Rightarrow> 's) \<Rightarrow> 't Manager \<Rightarrow> nat \<Rightarrow> 's Frozen" where
  "Freeze snapshot m i =
     (let settled = Settled m i in
      \<lparr>fz_Generation = g_generation (m_slots m ! i), fz_Value = snapshot (g_value (m_slots m ! i)),
       fz_CutShort = (\<not> settled)\<rparr>)"

definition Swap :: "'t \<Rightarrow> 't Manager \<Rightarrow> nat \<times> 't Manager" where
  "Swap factory m =
     (let i = m_current m; s = newSlot_gen factory (wrap64 (g_generation (m_slots m ! i) + 1));
          m1 = m\<lparr>m_slots := m_slots m @ [s], m_current := length (m_slots m)\<rparr>
      in (i, upd_gen m1 i sealLocked_gen))"

text \<open>
  \<open>SwapAndSnapshotContext\<close>; \<open>between\<close> is what other goroutines do while it waits. The wait's result is
  discarded, as in the source.
\<close>

definition SwapAndSnapshotContext ::
  "'t \<Rightarrow> ('t \<Rightarrow> 's) \<Rightarrow> ('t Manager \<Rightarrow> 't Manager) \<Rightarrow> 't Manager \<Rightarrow> 's Frozen \<times> 't Manager" where
  "SwapAndSnapshotContext factory snapshot between m =
     (let (i, m1) = Swap factory m; m2 = between m1 in (Freeze snapshot m2 i, m2))"

subsection \<open>Executions\<close>

text \<open>Work writes through a lease only while it holds it; everything else may happen at any time.\<close>

inductive gstep :: "'t \<Rightarrow> 't Manager \<Rightarrow> 't Manager \<Rightarrow> bool" for factory where
  acquire: "gstep factory m (snd (Acquire m))"
| update: "l < length (m_leases m) \<Longrightarrow> \<not> l_done (m_leases m ! l) \<Longrightarrow> gstep factory m (Lease_Update m l f)"
| done_lease: "l < length (m_leases m) \<Longrightarrow> gstep factory m (Lease_Done m l)"
| swap: "gstep factory m (snd (Swap factory m))"
| compat_wait: "gstep factory m (SetCompatWait m wait)"

inductive_cases gstep_cases: "gstep factory m m'"

definition pinned :: "'t Manager \<Rightarrow> nat \<Rightarrow> nat" where
  "pinned m i = length (filter (\<lambda>l. l_slot l = i \<and> \<not> l_done l) (m_leases m))"

definition gen_inv :: "'t Manager \<Rightarrow> bool" where
  "gen_inv m \<longleftrightarrow>
     0 < length (m_slots m) \<and> m_current m = length (m_slots m) - 1
     \<and> (\<forall>i < length (m_slots m).
          g_inflight (m_slots m ! i) = int (pinned m i)
          \<and> (g_sealed (m_slots m ! i) \<longleftrightarrow> i \<noteq> m_current m)
          \<and> (g_done (m_slots m ! i) \<longleftrightarrow> g_sealed (m_slots m ! i) \<and> pinned m i = 0)
          \<and> g_generation (m_slots m ! i) = wrap64 (int i + 1))
     \<and> (\<forall>l \<in> set (m_leases m). l_slot l < length (m_slots m))"

subsection \<open>The contract of a generation, as its clients see it\<close>

text \<open>
  The interface between whoever holds numbered generations and whoever reads them: once a generation
  is settled, no step of the holder changes what it holds.
\<close>

locale settling =
  fixes inv :: "'m \<Rightarrow> bool" and stp :: "'m \<Rightarrow> 'm \<Rightarrow> bool"
    and settled :: "'m \<Rightarrow> 'k \<Rightarrow> bool" and val :: "'m \<Rightarrow> 'k \<Rightarrow> 'v"
  assumes inv_step: "inv m \<Longrightarrow> stp m m' \<Longrightarrow> inv m'"
    and settled_step: "inv m \<Longrightarrow> stp m m' \<Longrightarrow> settled m i \<Longrightarrow> settled m' i"
    and val_step: "inv m \<Longrightarrow> stp m m' \<Longrightarrow> settled m i \<Longrightarrow> val m' i = val m i"
begin

lemma inv_steps: "stp\<^sup>*\<^sup>* m m' \<Longrightarrow> inv m \<Longrightarrow> inv m'"
  by (induction rule: rtranclp_induct) (auto intro: inv_step)

lemma settled_final:
  "stp\<^sup>*\<^sup>* m m' \<Longrightarrow> inv m \<Longrightarrow> settled m i \<Longrightarrow> settled m' i \<and> val m' i = val m i"
proof (induction rule: rtranclp_induct)
  case (step m1 m2)
  have "inv m1" using step.hyps(1) step.prems(1) by (rule inv_steps)
  then show ?case using step settled_step val_step by metis
qed simp

end

subsection \<open>The invariant\<close>

lemma gen_inv_slot:
  assumes "gen_inv m" "i < length (m_slots m)"
  shows "g_inflight (m_slots m ! i) = int (pinned m i)" "g_sealed (m_slots m ! i) \<longleftrightarrow> i \<noteq> m_current m"
    "g_done (m_slots m ! i) \<longleftrightarrow> g_sealed (m_slots m ! i) \<and> pinned m i = 0"
    "g_generation (m_slots m ! i) = wrap64 (int i + 1)"
  using assms unfolding gen_inv_def by blast+

lemma gen_inv_current: "gen_inv m \<Longrightarrow> m_current m < length (m_slots m)"
  by (simp add: gen_inv_def)

lemma gen_inv_lease: "gen_inv m \<Longrightarrow> l < length (m_leases m) \<Longrightarrow> l_slot (m_leases m ! l) < length (m_slots m)"
  by (simp add: gen_inv_def)

lemma gen_inv_New: "gen_inv (New_gen factory)"
  by (simp add: gen_inv_def New_gen_def newSlot_gen_def pinned_def wrap64_def)

lemma gen_inv_Acquire:
  assumes "gen_inv m"
  shows "gen_inv (snd (Acquire m))"
proof -
  note s = gen_inv_slot [OF assms] and cur = gen_inv_current [OF assms]
  let ?m = "snd (Acquire m)"
  have p: "pinned ?m i = pinned m i + (if i = m_current m then 1 else 0)" for i
    by (simp add: pinned_def Acquire_def)
  have at: "m_slots ?m ! i = (if i = m_current m then (m_slots m ! i)\<lparr>g_inflight := g_inflight (m_slots m ! i) + 1\<rparr>
      else m_slots m ! i)" if "i < length (m_slots m)" for i
    using that cur by (auto simp: Acquire_def upd_gen_def nth_list_update)
  have len: "length (m_slots ?m) = length (m_slots m)" "m_current ?m = m_current m"
    "m_leases ?m = m_leases m @ [\<lparr>l_slot = m_current m, l_done = False\<rparr>]"
    by (simp_all add: Acquire_def upd_gen_def)
  show ?thesis unfolding gen_inv_def len
    using s cur assms by (auto simp: p at len gen_inv_def)
qed

lemma gen_inv_Update:
  assumes "gen_inv m" "l < length (m_leases m)"
  shows "gen_inv (Lease_Update m l f)"
proof -
  note s = gen_inv_slot [OF assms(1)] and lt = gen_inv_lease [OF assms]
  let ?m = "Lease_Update m l f" and ?i = "l_slot (m_leases m ! l)"
  have at: "m_slots ?m ! i = (if i = ?i then (m_slots m ! i)\<lparr>g_value := f (g_value (m_slots m ! i))\<rparr>
      else m_slots m ! i)" if "i < length (m_slots m)" for i
    using that lt by (auto simp: Lease_Update_def upd_gen_def nth_list_update)
  have len: "length (m_slots ?m) = length (m_slots m)" "m_current ?m = m_current m" "m_leases ?m = m_leases m"
    by (simp_all add: Lease_Update_def upd_gen_def)
  have p: "pinned ?m i = pinned m i" for i by (simp add: pinned_def len)
  show ?thesis using s assms by (auto simp: gen_inv_def p at len)
qed

lemma pinned_Done:
  assumes "l < length (m_leases m)" "\<not> l_done (m_leases m ! l)"
  shows "pinned (Lease_Done m l) i + (if i = l_slot (m_leases m ! l) then 1 else 0) = pinned m i"
proof -
  let ?P = "\<lambda>x. l_slot x = i \<and> \<not> l_done x"
  have split: "m_leases m = take l (m_leases m) @ m_leases m ! l # drop (Suc l) (m_leases m)"
    by (rule id_take_nth_drop [OF assms(1)])
  have upd: "(m_leases m)[l := x] = take l (m_leases m) @ x # drop (Suc l) (m_leases m)" for x
    by (rule upd_conv_take_nth_drop [OF assms(1)])
  have "length (filter ?P (m_leases m)) =
      length (filter ?P (take l (m_leases m))) + (if l_slot (m_leases m ! l) = i then 1 else 0)
      + length (filter ?P (drop (Suc l) (m_leases m)))"
    by (subst split) (use assms(2) in simp)
  moreover have "m_leases (Lease_Done m l) = (m_leases m)[l := (m_leases m ! l)\<lparr>l_done := True\<rparr>]"
    using assms(2) by (simp add: Lease_Done_def upd_gen_def)
  ultimately show ?thesis by (auto simp: pinned_def upd)
qed

lemma gen_inv_Done:
  assumes "gen_inv m" "l < length (m_leases m)"
  shows "gen_inv (Lease_Done m l)"
proof (cases "l_done (m_leases m ! l)")
  case False
  note s = gen_inv_slot [OF assms(1)] and lt = gen_inv_lease [OF assms] and p = pinned_Done [OF assms(2) False]
  let ?m = "Lease_Done m l" and ?i = "l_slot (m_leases m ! l)"
  have at: "m_slots ?m ! i = (if i = ?i then settleLocked ((m_slots m ! i)\<lparr>g_inflight := g_inflight (m_slots m ! i) - 1\<rparr>)
      else m_slots m ! i)" if "i < length (m_slots m)" for i
    using that lt False by (auto simp: Lease_Done_def upd_gen_def nth_list_update)
  have len: "length (m_slots ?m) = length (m_slots m)" "m_current ?m = m_current m"
    "m_leases ?m = (m_leases m)[l := (m_leases m ! l)\<lparr>l_done := True\<rparr>]"
    using False by (simp_all add: Lease_Done_def upd_gen_def)
  have "g_inflight (m_slots ?m ! i) = int (pinned ?m i) \<and> (g_sealed (m_slots ?m ! i) \<longleftrightarrow> i \<noteq> m_current m)
      \<and> (g_done (m_slots ?m ! i) \<longleftrightarrow> g_sealed (m_slots ?m ! i) \<and> pinned ?m i = 0)
      \<and> g_generation (m_slots ?m ! i) = wrap64 (int i + 1)" if i: "i < length (m_slots m)" for i
  proof (cases "i = ?i")
    case True
    then have "pinned m i = Suc (pinned ?m i)" using p [of i] by simp
    moreover have "m_slots ?m ! i = settleLocked ((m_slots m ! i)\<lparr>g_inflight := g_inflight (m_slots m ! i) - 1\<rparr>)"
      using at [OF i] True by simp
    ultimately show ?thesis using s [OF i] by (auto simp: settleLocked_def)
  next
    case False
    then show ?thesis using s [OF i] p [of i] by (simp add: at [OF i])
  qed
  moreover have "\<forall>x \<in> set (m_leases ?m). l_slot x < length (m_slots m)"
    using assms lt set_update_subset_insert [of "m_leases m" l "(m_leases m ! l)\<lparr>l_done := True\<rparr>"]
    unfolding len(3) by (auto simp: gen_inv_def)
  ultimately show ?thesis using assms by (simp add: gen_inv_def len)
qed (simp add: Lease_Done_def assms)

lemma Swap_slots:
  assumes "gen_inv m"
  shows "length (m_slots (snd (Swap factory m))) = Suc (length (m_slots m))"
    "m_current (snd (Swap factory m)) = length (m_slots m)" "m_leases (snd (Swap factory m)) = m_leases m"
    "i < length (m_slots m) \<Longrightarrow> m_slots (snd (Swap factory m)) ! i =
       (if i = m_current m then sealLocked_gen (m_slots m ! i) else m_slots m ! i)"
    "m_slots (snd (Swap factory m)) ! length (m_slots m) =
       newSlot_gen factory (wrap64 (g_generation (m_slots m ! m_current m) + 1))"
  using gen_inv_current [OF assms]
  by (auto simp: Swap_def Let_def upd_gen_def nth_list_update nth_append)

lemma gen_inv_Swap:
  assumes "gen_inv m"
  shows "gen_inv (snd (Swap factory m))"
proof -
  note s = gen_inv_slot [OF assms] and w = Swap_slots [OF assms, where factory = factory]
  let ?m = "snd (Swap factory m)" and ?n = "length (m_slots m)"
  have p: "pinned ?m i = pinned m i" for i by (simp add: pinned_def w(3))
  have "pinned m ?n = 0"
    using assms by (auto simp: pinned_def gen_inv_def filter_empty_conv)
  moreover have "int (m_current m) + 1 = int ?n" using assms by (cases ?n) (auto simp: gen_inv_def)
  ultimately have new: "g_inflight (m_slots ?m ! ?n) = int (pinned ?m ?n) \<and> \<not> g_sealed (m_slots ?m ! ?n)
      \<and> \<not> g_done (m_slots ?m ! ?n) \<and> g_generation (m_slots ?m ! ?n) = wrap64 (int ?n + 1)"
    using s(4) [OF gen_inv_current [OF assms]] wrap64_add [of "int ?n" 1]
    by (simp add: w(5) p newSlot_gen_def)
  have old: "g_inflight (m_slots ?m ! i) = int (pinned ?m i) \<and> g_sealed (m_slots ?m ! i)
      \<and> (g_done (m_slots ?m ! i) \<longleftrightarrow> pinned ?m i = 0)
      \<and> g_generation (m_slots ?m ! i) = wrap64 (int i + 1)" if "i < ?n" for i
    using s [OF that] by (auto simp: w(4) [OF that] p sealLocked_gen_def settleLocked_def)
  have "\<forall>i < Suc ?n. g_inflight (m_slots ?m ! i) = int (pinned ?m i) \<and> (g_sealed (m_slots ?m ! i) \<longleftrightarrow> i \<noteq> ?n)
      \<and> (g_done (m_slots ?m ! i) \<longleftrightarrow> g_sealed (m_slots ?m ! i) \<and> pinned ?m i = 0)
      \<and> g_generation (m_slots ?m ! i) = wrap64 (int i + 1)"
    using old new by (auto simp: less_Suc_eq)
  then show ?thesis using assms by (auto simp: gen_inv_def w(1-3) less_Suc_eq)
qed

lemma gen_inv_step: "gen_inv m \<Longrightarrow> gstep factory m m' \<Longrightarrow> gen_inv m'"
proof (erule gstep_cases)
  show "gen_inv m \<Longrightarrow> m' = SetCompatWait m wait \<Longrightarrow> gen_inv m'" for wait
    by (simp add: gen_inv_def SetCompatWait_def pinned_def)
qed (simp_all add: gen_inv_Acquire gen_inv_Update gen_inv_Done gen_inv_Swap)

lemma pinned_pos:
  assumes "l < length (m_leases m)" "\<not> l_done (m_leases m ! l)"
  shows "0 < pinned m (l_slot (m_leases m ! l))"
  using pinned_Done [OF assms, of "l_slot (m_leases m ! l)"] by simp

text \<open>A settled generation is out of reach of every operation.\<close>

lemma settled_slot:
  assumes inv: "gen_inv m" and st: "gstep factory m m'" and i: "i < length (m_slots m)" "Settled m i"
  shows "i < length (m_slots m') \<and> m_slots m' ! i = m_slots m ! i"
proof -
  have sealed: "i \<noteq> m_current m" and free: "pinned m i = 0"
    using gen_inv_slot [OF inv i(1)] i(2) by (auto simp: Settled_def)
  have other: "l_slot (m_leases m ! l) \<noteq> i" if "l < length (m_leases m)" "\<not> l_done (m_leases m ! l)" for l
    using pinned_pos [OF that] free by auto
  from st show ?thesis
  proof cases
    case acquire
    then show ?thesis using sealed i by (simp add: Acquire_def upd_gen_def)
  next
    case (update l f)
    then show ?thesis using other [of l] i by (simp add: Lease_Update_def upd_gen_def)
  next
    case (done_lease l)
    then show ?thesis using other [of l] i by (simp add: Lease_Done_def upd_gen_def)
  next
    case swap
    then show ?thesis using Swap_slots [OF inv, where factory = factory] sealed i by simp
  next
    case (compat_wait wait)
    then show ?thesis using i by (simp add: SetCompatWait_def)
  qed
qed

interpretation gen: settling gen_inv "gstep factory" "\<lambda>m i. i < length (m_slots m) \<and> Settled m i"
  "\<lambda>m i. m_slots m ! i" for factory
proof unfold_locales
  fix m m' :: "'a Manager" and i :: nat
  assume inv: "gen_inv m" and st: "gstep factory m m'"
  show "gen_inv m'" by (rule gen_inv_step [OF inv st])
  assume i: "i < length (m_slots m) \<and> Settled m i"
  show "i < length (m_slots m') \<and> Settled m' i" "m_slots m' ! i = m_slots m ! i"
    using settled_slot [OF inv st, of i] i by (simp_all add: Settled_def)
qed

lemma reachable_gen_inv: "(gstep factory)\<^sup>*\<^sup>* (New_gen factory) m \<Longrightarrow> gen_inv m"
  by (rule gen.inv_steps [OF _ gen_inv_New])

text \<open>
  C33: Work stays attached to the generation in which it started, and a swapped-out generation that has
  settled is final: whatever happens afterwards (new work, other work finishing, further swaps), freezing
  it yields the same number and value, and reports a complete snapshot.
\<close>

theorem settled_generation_is_final:
  assumes "(gstep factory)\<^sup>*\<^sup>* (New_gen factory) m" and "i < length (m_slots m)" and "Settled m i"
    and "(gstep factory)\<^sup>*\<^sup>* m m'"
  shows "Freeze snapshot m' i = Freeze snapshot m i \<and> \<not> fz_CutShort (Freeze snapshot m' i)"
proof -
  have "m_slots m' ! i = m_slots m ! i" "Settled m' i"
    using gen.settled_final [OF assms(4) reachable_gen_inv [OF assms(1)], of i] assms(2,3) by auto
  then show ?thesis using assms(3) by (simp add: Freeze_def Settled_def)
qed

definition exampleManager :: "int list Manager" where
  "exampleManager = snd (Swap [] (Lease_Done (Lease_Update (snd (Acquire (New_gen []))) 0 (\<lambda>v. v @ [7])) 0))"

lemma exampleManager_reachable: "(gstep [])\<^sup>*\<^sup>* (New_gen []) exampleManager"
proof -
  let ?a = "snd (Acquire (New_gen [])) :: int list Manager"
  let ?b = "Lease_Update ?a 0 (\<lambda>v. v @ [7])"
  have "gstep [] (New_gen []) ?a" by (rule acquire)
  moreover have "gstep [] ?a ?b"
    by (rule update) (simp_all add: Acquire_def New_gen_def upd_gen_def)
  moreover have "gstep [] ?b (Lease_Done ?b 0)"
    by (rule done_lease) (simp add: Acquire_def New_gen_def upd_gen_def Lease_Update_def)
  moreover have "gstep [] (Lease_Done ?b 0) exampleManager"
    unfolding exampleManager_def by (rule swap)
  ultimately show ?thesis by (meson rtranclp.intros)
qed

theorem settled_generation_is_final_witness:
  "Freeze length (snd (Acquire exampleManager)) 0 = \<lparr>fz_Generation = 1, fz_Value = 1, fz_CutShort = False\<rparr>"
proof -
  have "0 < length (m_slots exampleManager)" "Settled exampleManager 0"
    "Freeze length exampleManager 0 = \<lparr>fz_Generation = 1, fz_Value = 1, fz_CutShort = False\<rparr>" by code_simp+
  then show ?thesis
    using settled_generation_is_final [OF exampleManager_reachable, of 0 "snd (Acquire exampleManager)" length]
      acquire [of "[]" exampleManager] by (simp add: r_into_rtranclp)
qed

text \<open>
  \<open>CutShort\<close> is exact: a snapshot of a swapped-out generation is marked incomplete precisely when
  some lease pinned to it is still held, so a truncated measurement is never reported as a whole one.
\<close>

lemma cut_short_iff_work_in_flight:
  assumes "(gstep factory)\<^sup>*\<^sup>* (New_gen factory) m" and "i < length (m_slots m)" and "i \<noteq> m_current m"
  shows "fz_CutShort (Freeze snapshot m i) \<longleftrightarrow> (\<exists>l \<in> set (m_leases m). l_slot l = i \<and> \<not> l_done l)"
  using gen_inv_slot [OF reachable_gen_inv [OF assms(1)] assms(2)] assms(3)
  by (auto simp: Freeze_def Settled_def pinned_def filter_empty_conv)

text \<open>
  A swap hands out the generation that was current, never blocks on work, and opens the next number;
  if no lease was held, the snapshot it returns is complete and is the value the generation had, whatever
  other goroutines do before it is taken.
\<close>

lemma swap_and_snapshot_complete:
  assumes "(gstep factory)\<^sup>*\<^sup>* (New_gen factory) m" and "\<forall>l \<in> set (m_leases m). l_done l"
    and "\<And>x. (gstep factory)\<^sup>*\<^sup>* x (between x)"
  shows "SwapAndSnapshotContext factory snapshot between m =
     (\<lparr>fz_Generation = CurrentGeneration m, fz_Value = snapshot (g_value (m_slots m ! m_current m)),
       fz_CutShort = False\<rparr>, between (snd (Swap factory m)))
    \<and> CurrentGeneration (snd (Swap factory m)) = wrap64 (CurrentGeneration m + 1)"
proof -
  note inv = reachable_gen_inv [OF assms(1)]
  note w = Swap_slots [OF inv, where factory = factory] and cur = gen_inv_current [OF inv]
  let ?m = "snd (Swap factory m)" and ?i = "m_current m"
  have "pinned m ?i = 0" using assms(2) by (simp add: pinned_def filter_empty_conv)
  then have s: "Settled ?m ?i" "g_value (m_slots ?m ! ?i) = g_value (m_slots m ! ?i)"
    "g_generation (m_slots ?m ! ?i) = g_generation (m_slots m ! ?i)"
    using gen_inv_slot(1) [OF inv cur] by (simp_all add: Settled_def w(4) [OF cur] sealLocked_gen_def settleLocked_def)
  have "m_slots (between ?m) ! ?i = m_slots ?m ! ?i \<and> Settled (between ?m) ?i"
    using gen.settled_final [OF assms(3) [of ?m] gen_inv_Swap [OF inv], of ?i] s(1) cur by (simp add: w(1))
  moreover have "fst (Swap factory m) = ?i" by (simp add: Swap_def Let_def)
  ultimately show ?thesis using s w(2,5)
    by (simp add: SwapAndSnapshotContext_def case_prod_unfold Let_def Freeze_def CurrentGeneration_def newSlot_gen_def)
qed

end
