(* ===== verification/Tables.thy ===== *)
theory Tables
  imports Prelude "HOL-Library.Multiset" "HOL-Library.Product_Lexorder"
begin

text \<open>
  Go maps as association lists with distinct keys, shared by the counter, health and aggregation
  tables. A map is only ever read by key or rendered in a sorted order, so the list's own order is
  never observed; \<open>sort_key_unique\<close> is what makes that precise.
\<close>

text \<open>\<open>m[k] = f(m[k])\<close>, where a missing key reads as the zero value \<open>z\<close>.\<close>

fun alter :: "'k \<Rightarrow> 'v \<Rightarrow> ('v \<Rightarrow> 'v) \<Rightarrow> ('k \<times> 'v) list \<Rightarrow> ('k \<times> 'v) list" where
  "alter k z f [] = [(k, f z)]"
| "alter k z f ((k', v) # xs) = (if k' = k then (k', f v) # xs else (k', v) # alter k z f xs)"

lemma map_of_alter:
  "map_of (alter k z f xs) k' =
     (if k' = k then Some (f (case map_of xs k of None \<Rightarrow> z | Some v \<Rightarrow> v)) else map_of xs k')"
  by (induction xs) auto

lemma map_fst_alter: "map fst (alter k z f xs) = (if k \<in> fst ` set xs then map fst xs else map fst xs @ [k])"
  by (induction xs) (force simp: image_iff)+

lemma keys_alter: "fst ` set (alter k z f xs) = insert k (fst ` set xs)"
  using arg_cong [OF map_fst_alter, of set k z f xs] by (auto split: if_splits)

lemma distinct_alter: "distinct (map fst xs) \<Longrightarrow> distinct (map fst (alter k z f xs))"
  by (simp add: map_fst_alter)

lemma length_alter: "length (alter k z f xs) = (if k \<in> fst ` set xs then length xs else Suc (length xs))"
  using arg_cong [OF map_fst_alter, of length k z f xs] by (auto split: if_splits)

lemma set_alter:
  "(k', v) \<in> set (alter k z f xs) \<Longrightarrow> (k', v) \<in> set xs \<or> k' = k \<and> (v = f z \<or> (\<exists>w. (k, w) \<in> set xs \<and> v = f w))"
  by (induction xs) (auto split: if_splits)

lemma sum_alter:
  fixes g :: "'v \<Rightarrow> int"
  assumes "distinct (map fst xs)"
  shows "sum_list (map (g \<circ> snd) (alter k z f xs)) =
     sum_list (map (g \<circ> snd) xs) +
     (case map_of xs k of None \<Rightarrow> g (f z) | Some v \<Rightarrow> g (f v) - g v)"
  using assms by (induction xs) (auto split: option.split)

text \<open>A rendering by an injective sort key does not depend on the order of the table.\<close>

lemma sort_key_unique:
  assumes "mset es = mset xs" and "inj_on f (set xs)" and "sorted (map f es)"
  shows "es = sort_key f xs"
proof -
  have "set es = set xs" using assms(1) by (metis set_mset_mset)
  then have "sort_key f es = sort_key f xs" using assms(1,2) by (intro sort_key_eq_sort_key) simp_all
  then show ?thesis using sort_key_id_if_sorted [OF assms(3)] by simp
qed

subsection \<open>Tables with an overflow row\<close>

text \<open>
  Several tables of the program bound their keys the same way: a key gets a row of its own while there
  is room, and everything else is merged into one overflow row. The contract is stated once: which
  key a state admits, that an observation updates the row of its key or the overflow row and no
  other, that a key with a row stays admitted, and that a refused key stays refused.
\<close>

definition obsOf :: "('k \<Rightarrow> bool) \<Rightarrow> ('k \<times> 'o) list \<Rightarrow> 'o list" where
  "obsOf P obs = map snd (filter (\<lambda>ob. P (fst ob)) obs)"

definition merged :: "('o \<Rightarrow> 'v \<Rightarrow> 'v) \<Rightarrow> 'v \<Rightarrow> 'o list \<Rightarrow> 'v option" where
  "merged f z xs = (if xs = [] then None else Some (fold f xs z))"

lemma obsOf_snoc: "obsOf P (obs @ [(k, x)]) = obsOf P obs @ (if P k then [x] else [])"
  by (simp add: obsOf_def)

lemma obsOf_cong: "(\<And>k. k \<in> fst ` set obs \<Longrightarrow> P k = Q k) \<Longrightarrow> obsOf P obs = obsOf Q obs"
  unfolding obsOf_def by (intro arg_cong [of _ _ "map snd"] filter_cong) auto

lemma obsOf_empty: "obsOf P obs = [] \<longleftrightarrow> (\<forall>k \<in> fst ` set obs. \<not> P k)"
  by (auto simp: obsOf_def filter_empty_conv)

lemma merged_snoc: "merged f z (xs @ [x]) = Some (f x (case merged f z xs of None \<Rightarrow> z | Some v \<Rightarrow> v))"
  by (simp add: merged_def)

locale overflow_table =
  fixes inv :: "'st \<Rightarrow> bool"
    and row :: "'st \<Rightarrow> 'k \<Rightarrow> 'v option"
    and observe :: "'k \<Rightarrow> 'o \<Rightarrow> 'st \<Rightarrow> 'st"
    and admits :: "'st \<Rightarrow> 'k \<Rightarrow> bool"
    and add_obs :: "'o \<Rightarrow> 'v \<Rightarrow> 'v"
    and zero :: 'v
    and other :: 'k
  assumes inv_observe: "inv st \<Longrightarrow> inv (observe k x st)"
    and row_observe: "inv st \<Longrightarrow> row (observe k x st) k' =
      (if k' = (if admits st k then k else other)
       then Some (add_obs x (case row st k' of None \<Rightarrow> zero | Some v \<Rightarrow> v)) else row st k')"
    and admits_row: "inv st \<Longrightarrow> row st k \<noteq> None \<Longrightarrow> admits st k"
    and refused_stays: "inv st \<Longrightarrow> \<not> admits st k \<Longrightarrow> k \<noteq> other \<Longrightarrow> \<not> admits (observe k' x st) k"
begin

definition accounted :: "('k \<times> 'o) list \<Rightarrow> 'st \<Rightarrow> bool" where
  "accounted obs st \<longleftrightarrow> inv st \<and>
     (\<forall>k. k \<noteq> other \<and> row st k \<noteq> None \<longrightarrow> row st k = merged add_obs zero (obsOf (\<lambda>k'. k' = k) obs)) \<and>
     row st other = merged add_obs zero (obsOf (\<lambda>k. k = other \<or> row st k = None) obs) \<and>
     (\<forall>k \<in> fst ` set obs. k \<noteq> other \<and> row st k = None \<longrightarrow> \<not> admits st k)"

lemma row_own:
  assumes "inv st" and "admits st k"
  shows "row (observe k x st) = (row st)(k \<mapsto> add_obs x (case row st k of None \<Rightarrow> zero | Some v \<Rightarrow> v))"
  using assms by (auto simp: row_observe fun_eq_iff)

lemma row_other:
  assumes "inv st" and "\<not> admits st k \<or> k = other"
  shows "row (observe k x st) = (row st)(other \<mapsto> add_obs x (case row st other of None \<Rightarrow> zero | Some v \<Rightarrow> v))"
  using assms by (auto simp: row_observe fun_eq_iff)

lemma accounted_own_row:
  assumes acc: "accounted obs st" and k: "k \<noteq> other" "row st k \<noteq> None"
  shows "accounted (obs @ [(k, x)]) (observe k x st)"
proof -
  have i: "inv st" and a: "admits st k" using acc k admits_row by (auto simp: accounted_def)
  have refused: "\<not> admits (observe k x st) k'" if "k' \<in> fst ` set obs" "k' \<noteq> other" "row st k' = None" for k'
    using acc that i refused_stays by (auto simp: accounted_def)
  have "obsOf (\<lambda>k'. k' = other \<or> row (observe k x st) k' = None) (obs @ [(k, x)]) =
        obsOf (\<lambda>k'. k' = other \<or> row st k' = None) obs"
    using k by (auto simp: row_own [OF i a] obsOf_snoc intro: obsOf_cong)
  with acc k refused inv_observe [OF i] show ?thesis
    by (auto simp: accounted_def row_own [OF i a] obsOf_snoc merged_snoc)
qed

lemma accounted_new_row:
  assumes acc: "accounted obs st" and k: "k \<noteq> other" "row st k = None" and a: "admits st k"
  shows "accounted (obs @ [(k, x)]) (observe k x st)"
proof -
  have i: "inv st" and fresh: "k \<notin> fst ` set obs" using acc k a by (auto simp: accounted_def)
  have refused: "\<not> admits (observe k x st) k'" if "k' \<in> fst ` set obs" "k' \<noteq> other" "row st k' = None" for k'
    using acc that i refused_stays by (auto simp: accounted_def)
  have own: "obsOf (\<lambda>k'. k' = k) obs = []" using fresh by (auto simp: obsOf_empty)
  have "obsOf (\<lambda>k'. k' = other \<or> row (observe k x st) k' = None) (obs @ [(k, x)]) =
        obsOf (\<lambda>k'. k' = other \<or> row st k' = None) obs"
    using k fresh by (auto simp: row_own [OF i a] obsOf_snoc intro!: obsOf_cong)
  with acc k refused own inv_observe [OF i] show ?thesis
    by (auto simp: accounted_def row_own [OF i a] obsOf_snoc merged_def)
qed

lemma accounted_overflow:
  assumes acc: "accounted obs st" and k: "\<not> admits st k \<or> k = other"
  shows "accounted (obs @ [(k, x)]) (observe k x st)"
proof -
  have i: "inv st" using acc by (simp add: accounted_def)
  have none: "k = other \<or> row st k = None" using admits_row [OF i, of k] k by blast
  have refused: "\<not> admits (observe k x st) k'" if "k' \<in> insert k (fst ` set obs)" "k' \<noteq> other" "row st k' = None" for k'
    using acc that i k refused_stays by (auto simp: accounted_def)
  have "obsOf (\<lambda>k'. k' = other \<or> row (observe k x st) k' = None) (obs @ [(k, x)]) =
        obsOf (\<lambda>k'. k' = other \<or> row st k' = None) obs @ [x]"
    using none by (auto simp: row_other [OF i k] obsOf_snoc intro!: obsOf_cong)
  moreover have "row (observe k x st) other = Some (add_obs x (case row st other of None \<Rightarrow> zero | Some v \<Rightarrow> v))"
    by (simp add: row_other [OF i k])
  moreover have "row st other = merged add_obs zero (obsOf (\<lambda>k'. k' = other \<or> row st k' = None) obs)"
    using acc by (simp add: accounted_def)
  ultimately have "row (observe k x st) other =
      merged add_obs zero (obsOf (\<lambda>k'. k' = other \<or> row (observe k x st) k' = None) (obs @ [(k, x)]))"
    by (simp only: merged_snoc)
  moreover have "row (observe k x st) k' = merged add_obs zero (obsOf (\<lambda>k''. k'' = k') (obs @ [(k, x)]))"
    if "k' \<noteq> other" "row (observe k x st) k' \<noteq> None" for k'
    using acc that none by (auto simp: accounted_def row_other [OF i k] obsOf_snoc)
  ultimately show ?thesis
    using refused inv_observe [OF i] unfolding accounted_def by (auto simp: row_other [OF i k])
qed

lemma accounted_observe: "accounted obs st \<Longrightarrow> accounted (obs @ [(k, x)]) (observe k x st)"
  using accounted_own_row accounted_new_row accounted_overflow by metis

lemma accounted_all:
  assumes "inv st0" and "\<And>k. row st0 k = None"
  shows "accounted obs (fold (\<lambda>(k, x). observe k x) obs st0)"
proof (induction obs rule: rev_induct)
  case Nil
  then show ?case using assms by (simp add: accounted_def merged_def obsOf_def)
next
  case (snoc ob obs)
  then show ?case by (auto simp: accounted_observe split: prod.split)
qed

end

end
