(* ===== verification/Agg.thy ===== *)
theory Agg
  imports Tables "HOL-Library.Word" "HOL-Library.Signed_Division"
begin

text \<open>
  \<open>internal/agg/agg.go\<close>: the bounded table from keys to latency statistics, with log2 histograms
  for the 95th percentile. The sixteen shards are association lists with distinct keys; counters
  are \<open>int64\<close> and wrap. An operation runs under the mutex of the one shard it touches and is one
  step of the model; \<open>Snapshot\<close> and \<open>Reset\<close>, which take the sixteen mutexes in turn, are modelled
  for callers that hold the table alone (a frozen generation).
\<close>

unbundle bit_operations_syntax

definition numShards :: nat where "numShards = 16"
definition numBuckets :: nat where "numBuckets = 40"
definition DefaultMaxKeys :: int where "DefaultMaxKeys = 10000"
definition OverflowKey :: string where "OverflowKey = ''(other)''"

record stat =
  s_count :: int
  s_errorCount :: int
  s_total :: int
  s_max :: int
  s_buckets :: "int list"

definition zeroStat :: stat where
  "zeroStat = \<lparr>s_count = 0, s_errorCount = 0, s_total = 0, s_max = 0, s_buckets = replicate numBuckets 0\<rparr>"

record Table =
  t_maxKeys :: int
  t_keys :: int
  t_shards :: "(string \<times> stat) list list"

record Entry =
  en_Key :: string
  en_Count :: int
  en_ErrorCount :: int
  en_Total :: duration
  en_Avg :: duration
  en_Max :: duration
  en_P95 :: duration

definition NewTable :: "int \<Rightarrow> Table" where
  "NewTable maxKeys = \<lparr>t_maxKeys = maxKeys, t_keys = 0, t_shards = replicate numShards []\<rparr>"

text \<open>\<open>bits.Len64\<close>: the number of bits of the unsigned reading.\<close>

fun bits_Len :: "nat \<Rightarrow> nat" where
  "bits_Len n = (if n = 0 then 0 else Suc (bits_Len (n div 2)))"

declare bits_Len.simps [simp del]

definition bucketFor :: "int \<Rightarrow> nat" where
  "bucketFor ns =
     (let b = bits_Len (unat (word_of_int ns :: 64 word))
      in if b \<ge> numBuckets then numBuckets - 1 else b)"

fun p95_loop :: "int \<Rightarrow> int \<Rightarrow> int \<Rightarrow> nat \<Rightarrow> int list \<Rightarrow> int" where
  "p95_loop target mx cum i [] = mx"
| "p95_loop target mx cum i (c # cs) =
     (let cum' = wrap64 (cum + c)
      in if c > 0 \<and> cum' \<ge> target
         then (if i = 0 then 0 else if i = numBuckets - 1 then mx else 2 ^ i)
         else p95_loop target mx cum' (Suc i) cs)"

definition p95 :: "stat \<Rightarrow> int" where
  "p95 s =
     (let target = wrap64 (wrap64 (s_count s * 95) + 99) sdiv 100
      in p95_loop target (s_max s) 0 0 (s_buckets s))"

definition fnv32a :: "string \<Rightarrow> 32 word" where
  "fnv32a s = fold (\<lambda>c h. (h XOR of_char c) * 16777619) s 2166136261"

definition shardOf :: "string \<Rightarrow> nat" where
  "shardOf key = unat (fnv32a key) mod numShards"

text \<open>The statements of \<open>ObserveResult\<close> that update one row.\<close>

definition observeStat :: "int \<Rightarrow> bool \<Rightarrow> stat \<Rightarrow> stat" where
  "observeStat ns failed s =
     s\<lparr>s_count := wrap64 (s_count s + 1),
       s_errorCount := (if failed then wrap64 (s_errorCount s + 1) else s_errorCount s),
       s_total := wrap64 (s_total s + ns),
       s_max := (if ns > s_max s then ns else s_max s),
       s_buckets := (s_buckets s)[bucketFor ns := wrap64 (s_buckets s ! bucketFor ns + 1)]\<rparr>"

definition reserveKey :: "Table \<Rightarrow> bool \<times> Table" where
  "reserveKey t =
     (if t_keys t \<ge> t_maxKeys t then (False, t) else (True, t\<lparr>t_keys := wrap64 (t_keys t + 1)\<rparr>))"

definition putStat :: "string \<Rightarrow> int \<Rightarrow> bool \<Rightarrow> Table \<Rightarrow> Table" where
  "putStat key ns failed t =
     t\<lparr>t_shards := (t_shards t)[shardOf key :=
         alter key zeroStat (observeStat ns failed) (t_shards t ! shardOf key)]\<rparr>"

definition clampNs :: "duration \<Rightarrow> int" where
  "clampNs d = (if d < 0 then 0 else d)"

function ObserveResult :: "string \<Rightarrow> duration \<Rightarrow> bool \<Rightarrow> Table \<Rightarrow> Table" where
  "ObserveResult key d failed t =
     (let ns = clampNs d
      in if map_of (t_shards t ! shardOf key) key = None \<and> key \<noteq> OverflowKey
         then (case reserveKey t of
                 (True, t') \<Rightarrow> putStat key ns failed t'
               | (False, t') \<Rightarrow> ObserveResult OverflowKey d failed t')
         else putStat key ns failed t)"
  by pat_completeness auto

termination
  by (relation "measure (\<lambda>(key, _). if key = OverflowKey then 0 else 1)") auto

declare ObserveResult.simps [simp del]

definition Observe :: "string \<Rightarrow> duration \<Rightarrow> Table \<Rightarrow> Table" where
  "Observe key d t = ObserveResult key d False t"

definition entryOf :: "string \<times> stat \<Rightarrow> Entry" where
  "entryOf row = (case row of (k, s) \<Rightarrow>
     \<lparr>en_Key = k, en_Count = s_count s, en_ErrorCount = s_errorCount s, en_Total = s_total s,
      en_Avg = s_total s sdiv s_count s, en_Max = s_max s, en_P95 = p95 s\<rparr>)"

text \<open>The order of \<open>Snapshot\<close>: total time descending, then key.\<close>

definition entryOrder :: "Entry \<Rightarrow> int \<times> string" where
  "entryOrder e = (- en_Total e, en_Key e)"

definition Table_Snapshot :: "Table \<Rightarrow> Entry list" where
  "Table_Snapshot t = sort_key entryOrder (map entryOf (concat (t_shards t)))"

definition Table_Reset :: "Table \<Rightarrow> Table" where
  "Table_Reset t = t\<lparr>t_shards := map (\<lambda>_. []) (t_shards t), t_keys := 0\<rparr>"

subsection \<open>Buckets\<close>

lemma bits_Len_le_iff: "bits_Len n \<le> i \<longleftrightarrow> n < 2 ^ i"
proof (induction n arbitrary: i rule: bits_Len.induct)
  case (1 n)
  show ?case
  proof (cases "n = 0")
    case False
    then have *: "bits_Len n = Suc (bits_Len (n div 2))" by (simp add: bits_Len.simps)
    show ?thesis
    proof (cases i)
      case 0
      with * False show ?thesis by simp
    next
      case (Suc j)
      with * 1 [OF False, of j] show ?thesis by (auto simp: less_mult_imp_div_less div_less_iff_less_mult mult.commute)
    qed
  qed (simp add: bits_Len.simps)
qed

lemma unat_of_nonneg:
  assumes "0 \<le> x" and "in_int64 x"
  shows "unat (word_of_int x :: 64 word) = nat x"
proof -
  from assms have "x < 2 ^ 64" by (simp add: go_defs)
  with assms show ?thesis by (simp add: unat_eq_nat_uint uint_word_of_int take_bit_int_eq_self)
qed

text \<open>For the durations that occur, bucket \<open>i\<close> is \<open>[2^(i-1), 2^i)\<close>, the last one is open above.\<close>

lemma bucketFor_le_iff:
  assumes "0 \<le> x" and "in_int64 x" and "i < numBuckets - 1"
  shows "bucketFor x \<le> i \<longleftrightarrow> x < 2 ^ i"
proof -
  have "nat x < 2 ^ i \<longleftrightarrow> x < 2 ^ i"
    using assms(1) by (metis nat_less_iff nat_power_eq of_nat_numeral of_nat_power zero_le_numeral)
  moreover have "bucketFor x \<le> i \<longleftrightarrow> bits_Len (nat x) \<le> i"
    using assms by (auto simp: bucketFor_def unat_of_nonneg Let_def numBuckets_def)
  ultimately show ?thesis by (simp add: bits_Len_le_iff)
qed

lemma bucketFor_lt [simp]: "bucketFor x < numBuckets"
  by (auto simp: bucketFor_def Let_def numBuckets_def)

lemma bucketFor_mono:
  assumes "0 \<le> x" and "x \<le> y" and "in_int64 y"
  shows "bucketFor x \<le> bucketFor y"
proof (cases "bucketFor y < numBuckets - 1")
  case True
  have "in_int64 x" using assms by (simp add: go_defs)
  have "y < 2 ^ bucketFor y" using bucketFor_le_iff [of y "bucketFor y"] assms True by simp
  then have "x < 2 ^ bucketFor y" using assms by simp
  then show ?thesis using bucketFor_le_iff [of x "bucketFor y"] assms True \<open>in_int64 x\<close> by simp
next
  case False
  then show ?thesis using bucketFor_lt [of x] bucketFor_lt [of y] by linarith
qed

subsection \<open>A row after its observations\<close>

definition statOf :: "(duration \<times> bool) list \<Rightarrow> stat" where
  "statOf obs = fold (\<lambda>(d, failed). observeStat (clampNs d) failed) obs zeroStat"

definition nsOf :: "(duration \<times> bool) list \<Rightarrow> int list" where
  "nsOf obs = map (\<lambda>(d, _). clampNs d) obs"

lemma statOf_snoc: "statOf (obs @ [(d, f)]) = observeStat (clampNs d) f (statOf obs)"
  by (simp add: statOf_def)

lemma nsOf_snoc: "nsOf (obs @ [(d, f)]) = nsOf obs @ [clampNs d]"
  by (simp add: nsOf_def)

lemma length_nsOf [simp]: "length (nsOf obs) = length obs"
  by (simp add: nsOf_def)

lemma nsOf_nonneg: "x \<in> set (nsOf obs) \<Longrightarrow> 0 \<le> x"
  by (auto simp: nsOf_def clampNs_def split: if_splits)

lemma fold_max_ge: "(a::int) \<le> fold max zs a \<and> (\<forall>z \<in> set zs. z \<le> fold max zs a)"
  by (induction zs rule: rev_induct) (auto simp: le_max_iff_disj)

lemma statOf_facts:
  assumes "int (length obs) \<le> int64_max"
  shows "s_count (statOf obs) = int (length obs) \<and>
         s_errorCount (statOf obs) = int (length (filter snd obs)) \<and>
         s_max (statOf obs) = fold max (nsOf obs) 0 \<and>
         length (s_buckets (statOf obs)) = numBuckets \<and>
         (\<forall>i < numBuckets. s_buckets (statOf obs) ! i = int (length (filter (\<lambda>x. bucketFor x = i) (nsOf obs))))"
  using assms
proof (induction obs rule: rev_induct)
  case Nil
  then show ?case by (simp add: statOf_def zeroStat_def nsOf_def)
next
  case (snoc ob obs)
  obtain d f where ob: "ob = (d, f)" by force
  have wrap: "wrap64 (int (length (filter P zs)) + 1) = int (length (filter P zs)) + 1"
    if "length zs = length obs" for P and zs :: "'z list"
    using snoc.prems length_filter_le [of P zs] that by (intro wrap64_id) (simp add: go_defs)
  show ?case
    using snoc.IH snoc.prems wrap [of obs "\<lambda>_. True"] wrap [of obs snd]
      wrap [of "nsOf obs" "\<lambda>x. bucketFor x = bucketFor (clampNs d)"]
    by (auto simp: ob statOf_snoc nsOf_snoc observeStat_def nth_list_update max_def)
qed

subsection \<open>The percentile\<close>

lemma p95_loop_stops:
  assumes "\<forall>c \<in> set cs. 0 \<le> c" and "0 \<le> cum" and "cum + sum_list cs \<le> int64_max"
    and "cum < target" and "target \<le> cum + sum_list cs"
  shows "\<exists>j < length cs. cum + sum_list (take j cs) < target \<and> target \<le> cum + sum_list (take (Suc j) cs) \<and>
           p95_loop target mx cum i cs = (if i + j = 0 then 0 else if i + j = numBuckets - 1 then mx else 2 ^ (i + j))"
  using assms
proof (induction cs arbitrary: cum i)
  case (Cons c cs)
  have "0 \<le> sum_list cs" using Cons.prems(1) by (intro sum_list_nonneg) auto
  with Cons.prems have w: "wrap64 (cum + c) = cum + c" by (intro wrap64_id) (simp add: go_defs)
  show ?case
  proof (cases "target \<le> cum + c")
    case True
    with Cons.prems w show ?thesis by (intro exI [of _ 0]) auto
  next
    case False
    with Cons.IH [of "cum + c" "Suc i"] Cons.prems obtain j where
      "j < length cs" "cum + c + sum_list (take j cs) < target" "target \<le> cum + c + sum_list (take (Suc j) cs)"
      "p95_loop target mx (cum + c) (Suc i) cs =
         (if Suc i + j = 0 then 0 else if Suc i + j = numBuckets - 1 then mx else 2 ^ (Suc i + j))"
      by auto
    with False w show ?thesis by (intro exI [of _ "Suc j"]) (auto simp: add.assoc)
  qed
qed simp

lemma sum_buckets:
  assumes "int (length obs) \<le> int64_max" and "j \<le> numBuckets"
  shows "sum_list (take j (s_buckets (statOf obs))) = int (length (filter (\<lambda>x. bucketFor x < j) (nsOf obs)))"
  using assms(2)
proof (induction j)
  case (Suc j)
  have split: "length (filter (\<lambda>x. bucketFor x < Suc j) zs) =
      length (filter (\<lambda>x. bucketFor x < j) zs) + length (filter (\<lambda>x. bucketFor x = j) zs)" for zs
    by (induction zs) auto
  from Suc statOf_facts [OF assms(1)] show ?case by (simp add: take_Suc_conv_app_nth split)
qed simp

text \<open>Where a downward closed property ends in a sorted list.\<close>

lemma sorted_nth_filter:
  assumes "sorted ys" and "\<And>x y. x \<in> set ys \<Longrightarrow> y \<in> set ys \<Longrightarrow> x \<le> y \<Longrightarrow> P y \<Longrightarrow> P x" and "k < length ys"
  shows "P (ys ! k) \<longleftrightarrow> k < length (filter P ys)"
  using assms
proof (induction ys arbitrary: k)
  case (Cons y ys)
  show ?case
  proof (cases "P y")
    case True
    show ?thesis
    proof (cases k)
      case (Suc k')
      have "P (ys ! k') \<longleftrightarrow> k' < length (filter P ys)"
      proof (rule Cons.IH)
        fix x z assume "x \<in> set ys" "z \<in> set ys" "x \<le> z" "P z"
        then show "P x" using Cons.prems(2) [of x z] by simp
      qed (use Cons.prems(1,3) Suc in simp_all)
      with Suc True show ?thesis by simp
    qed (simp add: True)
  next
    case False
    have "\<not> P z" if "z \<in> set (y # ys)" for z
      using that False Cons.prems(1) Cons.prems(2) [of y z] by auto
    moreover have "(y # ys) ! k \<in> set (y # ys)" using Cons.prems(3) by (rule nth_mem)
    ultimately show ?thesis by (metis filter_False list.size(3) not_less_zero)
  qed
qed simp

lemma length_filter_sort: "length (filter P (sort xs)) = length (filter P xs)"
  by (metis mset_filter mset_sort size_mset)

text \<open>The nearest-rank 95th percentile of a list of durations.\<close>

definition rank95 :: "nat \<Rightarrow> nat" where
  "rank95 n = (95 * n + 99) div 100"

definition percentile95 :: "int list \<Rightarrow> int" where
  "percentile95 xs = sort xs ! (rank95 (length xs) - 1)"

lemma target_is_rank:
  assumes "95 * int n + 99 \<le> int64_max"
  shows "wrap64 (wrap64 (int n * 95) + 99) sdiv 100 = int (rank95 n)"
proof -
  have "wrap64 (int n * 95) = int n * 95" "wrap64 (int n * 95 + 99) = int n * 95 + 99"
    using assms by (auto intro!: wrap64_id simp: go_defs)
  then show ?thesis by (simp add: rank95_def signed_divide_int_def zdiv_int)
qed

lemma percentile_bucket:
  assumes "obs \<noteq> []" and "\<forall>x \<in> set (nsOf obs). in_int64 x" and "int (length obs) \<le> int64_max"
    and "j < numBuckets"
    and "sum_list (take j (s_buckets (statOf obs))) < int (rank95 (length obs))"
    and "int (rank95 (length obs)) \<le> sum_list (take (Suc j) (s_buckets (statOf obs)))"
  shows "bucketFor (percentile95 (nsOf obs)) = j"
proof -
  let ?ys = "sort (nsOf obs)" and ?k = "rank95 (length obs) - 1"
  have k: "?k < length ?ys" and pos: "0 < rank95 (length obs)"
    using assms(1) by (cases "length obs"; auto simp: rank95_def)+
  have down: "(bucketFor (?ys ! ?k) < i) = (?k < length (filter (\<lambda>x. bucketFor x < i) (nsOf obs)))" for i
  proof (subst length_filter_sort [symmetric], rule sorted_nth_filter [OF sorted_sort _ k])
    fix x y assume "x \<in> set ?ys" "y \<in> set ?ys" "x \<le> y" "bucketFor y < i"
    with bucketFor_mono [of x y] nsOf_nonneg [of x obs] assms(2) show "bucketFor x < i" by simp
  qed
  have "\<not> bucketFor (?ys ! ?k) < j" "bucketFor (?ys ! ?k) < Suc j"
    using assms(4,5,6) pos unfolding down by (auto simp: sum_buckets [OF assms(3)])
  then show ?thesis by (simp add: percentile95_def)
qed

lemma bucket_bounds:
  assumes "0 \<le> q" and "in_int64 q" and "bucketFor q = j" and "j < numBuckets - 1"
  shows "q < 2 ^ j \<and> (0 < j \<longrightarrow> 2 ^ j \<le> 2 * q)"
proof -
  have "q < 2 ^ j" using bucketFor_le_iff [OF assms(1,2,4)] assms(3) by simp
  moreover have "2 ^ j \<le> 2 * q" if "0 < j"
  proof -
    from that obtain i where i: "j = Suc i" by (cases j) auto
    with assms bucketFor_le_iff [OF assms(1,2), of i] have "2 ^ i \<le> q" by simp
    then show ?thesis by (simp add: i)
  qed
  ultimately show ?thesis by blast
qed

text \<open>
  The reported 95th percentile brackets the exact one: for a row that holds any sequence of
  observations (few enough that the rank fits in 64 bits), the nearest-rank 95th percentile of the
  durations is at most the reported value, and the reported value is at most twice it as long as it
  lies below the last, open bucket (\<open>2^38\<close> nanoseconds); from there on the row's maximum is
  reported.
\<close>

lemma percentile_bracketed:
  assumes "obs \<noteq> []" and "\<forall>x \<in> set (nsOf obs). in_int64 x" and "95 * int (length obs) + 99 \<le> int64_max"
  shows "percentile95 (nsOf obs) \<le> p95 (statOf obs) \<and>
         (if percentile95 (nsOf obs) < 2 ^ 38 then p95 (statOf obs) \<le> 2 * percentile95 (nsOf obs)
          else p95 (statOf obs) = s_max (statOf obs))"
proof -
  let ?s = "statOf obs" and ?q = "percentile95 (nsOf obs)" and ?r = "int (rank95 (length obs))"
  have n: "int (length obs) \<le> int64_max" using assms(3) by linarith
  note facts = statOf_facts [OF n]
  have all: "sum_list (s_buckets ?s) = int (length obs)"
    using sum_buckets [OF n, of numBuckets] facts by simp
  have r: "0 < ?r" "?r \<le> int (length obs)" and k: "rank95 (length obs) - 1 < length obs"
    using assms(1) by (cases "length obs"; auto simp: rank95_def)+
  have "\<forall>c \<in> set (s_buckets ?s). 0 \<le> c" using facts by (auto simp: in_set_conv_nth)
  from p95_loop_stops [OF this, of 0 ?r "s_max ?s" 0] all r n facts obtain j where
    j: "j < numBuckets" "sum_list (take j (s_buckets ?s)) < ?r" "?r \<le> sum_list (take (Suc j) (s_buckets ?s))"
      "p95_loop ?r (s_max ?s) 0 0 (s_buckets ?s) = (if j = 0 then 0 else if j = numBuckets - 1 then s_max ?s else 2 ^ j)"
    by auto
  have p: "p95 ?s = (if j = 0 then 0 else if j = numBuckets - 1 then s_max ?s else 2 ^ j)"
    using j(4) facts target_is_rank [OF assms(3)] by (simp add: p95_def Let_def mult.commute)
  have b: "bucketFor ?q = j" using percentile_bucket assms(1,2) n j by blast
  have "sort (nsOf obs) ! (rank95 (length obs) - 1) \<in> set (sort (nsOf obs))" using k by (intro nth_mem) simp
  then have mem: "?q \<in> set (nsOf obs)" by (simp add: percentile95_def)
  then have q: "0 \<le> ?q" "in_int64 ?q" "?q \<le> s_max ?s"
    using nsOf_nonneg assms(2) facts fold_max_ge [where zs = "nsOf obs" and a = 0] by auto
  have "?q < 2 ^ 38 \<longleftrightarrow> j < numBuckets - 1"
    using bucketFor_le_iff [OF q(1,2), of 38] b j(1) by (auto simp: numBuckets_def)
  with bucket_bounds [OF q(1,2) b] q p j(1) show ?thesis by (auto simp: numBuckets_def)
qed

subsection \<open>The table\<close>

definition lookupKey :: "Table \<Rightarrow> string \<Rightarrow> stat option" where
  "lookupKey t k = map_of (t_shards t ! shardOf k) k"

text \<open>Shards hold only their own keys, each once.\<close>

definition shards_ok :: "Table \<Rightarrow> bool" where
  "shards_ok t \<longleftrightarrow> length (t_shards t) = numShards \<and>
     (\<forall>i < numShards. distinct (map fst (t_shards t ! i)) \<and> (\<forall>row \<in> set (t_shards t ! i). shardOf (fst row) = i))"

definition tracked :: "Table \<Rightarrow> string set" where
  "tracked t = {k. k \<noteq> OverflowKey \<and> lookupKey t k \<noteq> None}"

lemma shardOf_lt [simp]: "shardOf k < numShards"
  by (simp add: shardOf_def numShards_def)

lemma shards_ok_NewTable [simp]: "shards_ok (NewTable m)"
  by (simp add: shards_ok_def NewTable_def)

lemma lookupKey_NewTable [simp]: "lookupKey (NewTable m) k = None"
  by (simp add: lookupKey_def NewTable_def)

lemma lookupKey_putStat:
  assumes "shards_ok t"
  shows "lookupKey (putStat k ns f t) k' =
    (if k' = k then Some (observeStat ns f (case lookupKey t k of None \<Rightarrow> zeroStat | Some s \<Rightarrow> s)) else lookupKey t k')"
  using assms by (auto simp: lookupKey_def putStat_def shards_ok_def nth_list_update map_of_alter)

lemma shards_okD: "shards_ok t \<Longrightarrow> (a, b) \<in> set (t_shards t ! shardOf k) \<Longrightarrow> shardOf a = shardOf k"
  unfolding shards_ok_def by (metis fst_conv shardOf_lt)

lemma shards_ok_putStat: "shards_ok t \<Longrightarrow> shards_ok (putStat k ns f t)"
proof -
  assume ok: "shards_ok t"
  have "shardOf (fst row) = shardOf k" if "row \<in> set (alter k zeroStat (observeStat ns f) (t_shards t ! shardOf k))" for row
    using that set_alter [of "fst row" "snd row"] shards_okD [OF ok, of "fst row" "snd row" k] by auto
  with ok show ?thesis by (auto simp: shards_ok_def putStat_def nth_list_update distinct_alter)
qed

lemma shards_ok_keys [simp]: "shards_ok (t\<lparr>t_keys := n\<rparr>) = shards_ok t" "lookupKey (t\<lparr>t_keys := n\<rparr>) = lookupKey t"
  by (simp_all add: shards_ok_def lookupKey_def fun_eq_iff)

text \<open>The branches of \<open>ObserveResult\<close>, without its recursion.\<close>

lemma ObserveResult_eq:
  "ObserveResult k d f t =
     (if k \<in> tracked t \<or> k = OverflowKey then putStat k (clampNs d) f t
      else if t_keys t < t_maxKeys t then putStat k (clampNs d) f (t\<lparr>t_keys := wrap64 (t_keys t + 1)\<rparr>)
      else putStat OverflowKey (clampNs d) f t)"
proof -
  have ov: "ObserveResult OverflowKey d f t = putStat OverflowKey (clampNs d) f t"
    by (subst ObserveResult.simps) (simp add: Let_def)
  show ?thesis
    by (subst ObserveResult.simps)
      (auto simp: ov Let_def reserveKey_def tracked_def lookupKey_def split: if_splits)
qed

text \<open>Rows are budgeted: the counter of reserved keys is the number of rows other than \<open>(other)\<close>.\<close>

definition table_inv :: "Table \<Rightarrow> bool" where
  "table_inv t \<longleftrightarrow> shards_ok t \<and> finite (tracked t) \<and> t_keys t = int (card (tracked t)) \<and>
     t_keys t \<le> t_maxKeys t \<and> t_maxKeys t \<le> int64_max"

definition admitsKey :: "Table \<Rightarrow> string \<Rightarrow> bool" where
  "admitsKey t k \<longleftrightarrow> k \<in> tracked t \<or> k = OverflowKey \<or> t_keys t < t_maxKeys t"

definition observeOne :: "string \<Rightarrow> duration \<times> bool \<Rightarrow> Table \<Rightarrow> Table" where
  "observeOne k x t = ObserveResult k (fst x) (snd x) t"

definition addObs :: "duration \<times> bool \<Rightarrow> stat \<Rightarrow> stat" where
  "addObs x = observeStat (clampNs (fst x)) (snd x)"

lemma tracked_putStat:
  "shards_ok t \<Longrightarrow> tracked (putStat k ns f t) = (if k = OverflowKey then tracked t else insert k (tracked t))"
  by (auto simp: tracked_def lookupKey_putStat)

lemma tracked_keys [simp]: "tracked (t\<lparr>t_keys := n\<rparr>) = tracked t"
  by (simp add: tracked_def)

lemma table_inv_wrap: "table_inv t \<Longrightarrow> t_keys t < t_maxKeys t \<Longrightarrow> wrap64 (t_keys t + 1) = t_keys t + 1"
  by (intro wrap64_id) (auto simp: table_inv_def go_defs)

lemma observeOne_keys:
  assumes "table_inv t"
  shows "t_keys (observeOne k x t) = (if k \<in> tracked t \<or> \<not> admitsKey t k \<or> k = OverflowKey then t_keys t else t_keys t + 1) \<and>
         t_maxKeys (observeOne k x t) = t_maxKeys t \<and>
         tracked (observeOne k x t) = (if admitsKey t k \<and> k \<noteq> OverflowKey then insert k (tracked t) else tracked t) \<and>
         shards_ok (observeOne k x t)"
  using assms table_inv_wrap [OF assms]
  by (auto simp: observeOne_def ObserveResult_eq admitsKey_def tracked_putStat shards_ok_putStat table_inv_def)
    (auto simp: putStat_def)

lemma table_inv_observeOne: "table_inv t \<Longrightarrow> table_inv (observeOne k x t)"
  using observeOne_keys [of t k x]
  by (auto simp: table_inv_def admitsKey_def insert_absorb)

lemma lookupKey_observeOne:
  assumes "table_inv t"
  shows "lookupKey (observeOne k x t) k' =
    (if k' = (if admitsKey t k then k else OverflowKey)
     then Some (addObs x (case lookupKey t k' of None \<Rightarrow> zeroStat | Some s \<Rightarrow> s)) else lookupKey t k')"
  using assms
  by (auto simp: observeOne_def ObserveResult_eq admitsKey_def addObs_def lookupKey_putStat table_inv_def)

interpretation tab: overflow_table table_inv lookupKey observeOne admitsKey addObs zeroStat OverflowKey
proof unfold_locales
  fix t k assume "table_inv t" "lookupKey t k \<noteq> None"
  then show "admitsKey t k" by (auto simp: admitsKey_def tracked_def)
next
  fix t k k' x assume "table_inv t" "\<not> admitsKey t k" "k \<noteq> OverflowKey"
  then show "\<not> admitsKey (observeOne k' x t) k"
    using observeOne_keys [of t k' x] by (auto simp: admitsKey_def split: if_splits)
qed (simp_all add: table_inv_observeOne lookupKey_observeOne)

abbreviation ObserveAll :: "(string \<times> duration \<times> bool) list \<Rightarrow> Table \<Rightarrow> Table" where
  "ObserveAll obs \<equiv> fold (\<lambda>(k, x). observeOne k x) obs"

lemma table_inv_NewTable: "0 \<le> m \<Longrightarrow> m \<le> int64_max \<Longrightarrow> table_inv (NewTable m)"
proof -
  have "tracked (NewTable m) = {}" by (simp add: tracked_def)
  moreover assume "0 \<le> m" "m \<le> int64_max"
  ultimately show ?thesis by (simp add: table_inv_def) (simp add: NewTable_def)
qed

lemma ObserveAll_inv: "table_inv t \<Longrightarrow> table_inv (ObserveAll obs t) \<and> t_maxKeys (ObserveAll obs t) = t_maxKeys t"
  using table_inv_observeOne observeOne_keys by (induction obs arbitrary: t) auto

lemma statOf_merged: "merged addObs zeroStat ds = (if ds = [] then None else Some (statOf ds))"
  by (simp add: merged_def statOf_def addObs_def [abs_def] case_prod_unfold)

text \<open>
  C34: A table loses no observation and merges none it need not: after any sequence of observations,
  at most \<open>maxKeys\<close> keys have a row of their own, and such a row is the statistic of exactly that
  key's observations, from its first one on; the row \<open>(other)\<close> is the statistic of exactly the
  observations of all remaining keys, and exists only if there are any; a key is refused a row only
  when the budget is used up.
\<close>

theorem table_accounts_for_observations:
  assumes "0 \<le> m" and "m \<le> int64_max" and "t = ObserveAll obs (NewTable m)"
  shows "finite (tracked t) \<and> int (card (tracked t)) \<le> m \<and>
         (\<forall>k \<in> tracked t. lookupKey t k = Some (statOf (map snd (filter (\<lambda>ob. fst ob = k) obs)))) \<and>
         (let rest = map snd (filter (\<lambda>ob. fst ob \<notin> tracked t) obs)
          in lookupKey t OverflowKey = (if rest = [] then None else Some (statOf rest))) \<and>
         ((\<exists>ob \<in> set obs. fst ob \<noteq> OverflowKey \<and> fst ob \<notin> tracked t) \<longrightarrow> int (card (tracked t)) = m)"
proof -
  have i: "table_inv t" "t_maxKeys t = m"
    using ObserveAll_inv [OF table_inv_NewTable [OF assms(1,2)]] assms(3) by (auto simp: NewTable_def)
  have acc: "tab.accounted obs t"
    unfolding assms(3) by (rule tab.accounted_all) (simp_all add: table_inv_NewTable assms)
  have "lookupKey t k = Some (statOf (obsOf (\<lambda>k'. k' = k) obs))" if "k \<in> tracked t" for k
    using acc that by (auto simp: tab.accounted_def tracked_def statOf_merged split: if_splits)
  moreover have rest: "obsOf (\<lambda>k. k = OverflowKey \<or> lookupKey t k = None) obs = obsOf (\<lambda>k. k \<notin> tracked t) obs"
    by (rule obsOf_cong) (auto simp: tracked_def)
  moreover have "\<not> admitsKey t k" if "k \<in> fst ` set obs" "k \<noteq> OverflowKey" "k \<notin> tracked t" for k
    using acc that by (auto simp: tab.accounted_def tracked_def)
  then have "(\<exists>ob \<in> set obs. fst ob \<noteq> OverflowKey \<and> fst ob \<notin> tracked t) \<Longrightarrow> int (card (tracked t)) = m"
    using i by (force simp: admitsKey_def table_inv_def)
  ultimately show ?thesis
    using acc i unfolding tab.accounted_def statOf_merged rest
    by (auto simp: obsOf_def table_inv_def Let_def)
qed

text \<open>The shards of the keys the examples use.\<close>

lemma example_shards: "shardOf ''a'' = 12" "shardOf ''b'' = 5" "shardOf OverflowKey = 14"
  by (simp_all add: shardOf_def fnv32a_def numShards_def OverflowKey_def)

lemma example_keys: "OverflowKey \<noteq> ''a''" "OverflowKey \<noteq> ''b''" "''a'' \<noteq> OverflowKey" "''b'' \<noteq> OverflowKey"
  by (simp_all add: OverflowKey_def)

lemmas example_run = example_shards example_keys observeOne_def ObserveResult.simps Let_def reserveKey_def putStat_def
  NewTable_def numShards_def lookupKey_def wrap64_def

definition exampleObs :: "(string \<times> duration \<times> bool) list" where
  "exampleObs = [(''a'', 5, False), (''b'', 9, True), (''a'', 2, False)]"

theorem table_accounts_for_observations_witness:
  "lookupKey (ObserveAll exampleObs (NewTable 1)) OverflowKey = Some (statOf [(9, True)]) \<and>
   lookupKey (ObserveAll exampleObs (NewTable 1)) ''a'' = Some (statOf [(5, False), (2, False)])"
proof -
  let ?t = "ObserveAll exampleObs (NewTable 1)"
  have "''a'' \<in> tracked ?t" "''b'' \<notin> tracked ?t"
    by (simp_all add: tracked_def exampleObs_def example_run)
  moreover from this have "filter (\<lambda>ob. fst ob \<notin> tracked ?t) exampleObs = [(''b'', 9, True)]"
    unfolding exampleObs_def by simp
  moreover have "filter (\<lambda>ob. fst ob = ''a'') exampleObs = [(''a'', 5, False), (''a'', 2, False)]"
    by (simp add: exampleObs_def)
  moreover note table_accounts_for_observations [of 1 ?t exampleObs]
  ultimately show ?thesis by (simp add: go_defs)
qed

lemma rows_unique:
  assumes "shards_ok t" and "(k, s) \<in> set (concat (t_shards t))" and "(k, s') \<in> set (concat (t_shards t))"
  shows "s = s'"
proof -
  have at: "(k, s) \<in> set (t_shards t ! shardOf k)" if mem: "(k, s) \<in> set (concat (t_shards t))" for s
  proof -
    from mem obtain i where "i < length (t_shards t)" "(k, s) \<in> set (t_shards t ! i)"
      by (metis UN_E in_set_conv_nth set_concat)
    with assms(1) show ?thesis by (force simp: shards_ok_def)
  qed
  from assms(1) have "distinct (map fst (t_shards t ! shardOf k))" by (simp add: shards_ok_def)
  with at [OF assms(2)] at [OF assms(3)] show ?thesis by (meson eq_key_imp_eq_value)
qed

lemma Table_Reset_fresh: "shards_ok t \<Longrightarrow> Table_Reset t = NewTable (t_maxKeys t)"
  by (simp add: Table_Reset_def NewTable_def shards_ok_def map_replicate_const)

text \<open>
  A snapshot does not depend on Go's map iteration order nor on the sorting algorithm's treatment
  of ties: any list of the table's rows that is in the order of \<open>Snapshot\<close> (total descending, then
  key) is the snapshot.
\<close>

lemma table_snapshot_deterministic:
  assumes "shards_ok t" and "mset es = mset (map entryOf (concat (t_shards t)))"
    and "sorted_wrt (\<lambda>e e'. en_Total e > en_Total e' \<or> (en_Total e = en_Total e' \<and> en_Key e \<le> en_Key e')) es"
  shows "es = Table_Snapshot t"
proof -
  have "inj_on entryOrder (set (map entryOf (concat (t_shards t))))"
    using rows_unique [OF assms(1)]
    by (auto simp: inj_on_def entryOrder_def entryOf_def simp del: set_concat) metis+
  moreover have "sorted (map entryOrder es)"
    unfolding sorted_map by (rule sorted_wrt_mono_rel [OF _ assms(3)]) (auto simp: entryOrder_def)
  ultimately show ?thesis unfolding Table_Snapshot_def using assms(2) by (intro sort_key_unique)
qed

text \<open>Two rows; the map iteration meets the smaller total first.\<close>

definition exampleEntry :: "string \<Rightarrow> Entry" where
  "exampleEntry k = entryOf (k, the (lookupKey (ObserveAll exampleObs (NewTable 8)) k))"

end
