(* ===== verification/Collector_Contract.thy ===== *)
theory Collector_Contract
  imports Run_Types
begin

text \<open>
  The contract of \<open>runctl.GenerationCollector\<close> (\<open>internal/runctl/collector.go\<close>) as a locale. The
  run controller relies on it for one thing: the data of a run is fixed the instant its closing
  boundary is taken. The laws are what the interface documents of each operation; the client's
  lemma, proved once, is that a run's section holds exactly the observations made between its two
  boundaries, whatever else happens to the collector before and after.

  A collector has a running generation (\<open>current\<close>), into which observations go, and closed
  generations that handles name: \<open>holds st h\<close> is the data a live handle pins and \<open>gone st h\<close> says
  that the handle was released.
\<close>

datatype 'o collectorOp =
    OpObserve 'o
  | OpBoundary gotime string epoch Phase
  | OpDrain "gerr option" GenerationHandle
  | OpRelease GenerationHandle

fun observations :: "'o collectorOp list \<Rightarrow> 'o list" where
  "observations [] = []"
| "observations (OpObserve x # ops) = x # observations ops"
| "observations (_ # ops) = observations ops"

fun isBoundary :: "'o collectorOp \<Rightarrow> bool" where
  "isBoundary (OpBoundary now runID ep phase) = True"
| "isBoundary _ = False"

fun releases :: "GenerationHandle \<Rightarrow> 'o collectorOp \<Rightarrow> bool" where
  "releases h (OpRelease h') \<longleftrightarrow> gh_token h' = gh_token h"
| "releases h _ \<longleftrightarrow> False"

locale generation_collector =
  fixes inv :: "'st \<Rightarrow> bool"
    and fresh :: "'st \<Rightarrow> string \<Rightarrow> epoch \<Rightarrow> Phase \<Rightarrow> bool"
    and boundary :: "gotime \<Rightarrow> string \<Rightarrow> epoch \<Rightarrow> Phase \<Rightarrow> 'st \<Rightarrow> (BoundaryResult \<times> gerr option) \<times> 'st"
    and observe :: "'o \<Rightarrow> 'st \<Rightarrow> 'st"
    and drain :: "gerr option \<Rightarrow> GenerationHandle \<Rightarrow> 'st \<Rightarrow> gerr option \<times> 'st"
    and collect :: "GenerationHandle \<Rightarrow> 'st \<Rightarrow> gerr + 'd"
    and release :: "GenerationHandle \<Rightarrow> 'st \<Rightarrow> 'st"
    and current :: "'st \<Rightarrow> 'c"
    and holds :: "'st \<Rightarrow> GenerationHandle \<Rightarrow> 'd option"
    and gone :: "'st \<Rightarrow> GenerationHandle \<Rightarrow> bool"
    and empty :: 'c
    and add :: "'o \<Rightarrow> 'c \<Rightarrow> 'c"
    and render :: "'c \<Rightarrow> 'd"
    and epochOf :: "'st \<Rightarrow> epoch"
  assumes inv_boundary: "inv st \<Longrightarrow> inv (snd (boundary now runID ep phase st))"
    and inv_observe: "inv st \<Longrightarrow> inv (observe x st)"
    and inv_drain: "inv st \<Longrightarrow> inv (snd (drain ctxErr h st))"
    and inv_release: "inv st \<Longrightarrow> inv (release h st)"
    and boundary_swaps: "inv st \<Longrightarrow> fresh st runID ep phase \<Longrightarrow> boundary now runID ep phase st = ((res, err), st') \<Longrightarrow>
      err = None \<and> br_Committed res \<and> current st' = empty \<and> holds st' (br_Handle res) = Some (render (current st))"
    and boundary_replays: "inv st \<Longrightarrow> fresh st runID ep phase \<Longrightarrow> boundary now runID ep phase st = (out, st') \<Longrightarrow>
      boundary now' runID ep phase st' = (out, st')"
    and boundary_keeps: "inv st \<Longrightarrow> holds st h = Some d \<Longrightarrow> holds (snd (boundary now runID ep phase st)) h = Some d"
    and current_observe: "current (observe x st) = add x (current st)"
    and current_drain: "current (snd (drain ctxErr h st)) = current st"
    and current_release: "current (release h st) = current st"
    and holds_observe: "holds (observe x st) h = holds st h"
    and holds_drain: "inv st \<Longrightarrow> holds (snd (drain ctxErr h' st)) h = holds st h"
    and holds_release: "gh_token h' \<noteq> gh_token h \<Longrightarrow> holds (release h' st) h = holds st h"
    and drain_collect: "inv st \<Longrightarrow> holds st h = Some d \<Longrightarrow>
      fst (drain None h st) = None \<and> collect h (snd (drain None h st)) = Inr d"
    and release_gone: "inv st \<Longrightarrow> holds st h = Some d \<Longrightarrow> gone (release h st) h"
    and gone_boundary: "gone st h \<Longrightarrow> gone (snd (boundary now runID ep phase st)) h"
    and gone_observe: "gone st h \<Longrightarrow> gone (observe x st) h"
    and gone_drain: "gone st h \<Longrightarrow> gone (snd (drain ctxErr h' st)) h"
    and gone_release: "gone st h \<Longrightarrow> gone (release h' st) h"
    and fresh_epoch: "inv st \<Longrightarrow> epochOf st < ep \<Longrightarrow> fresh st runID ep phase"
    and fresh_boundary: "fresh st runID ep phase \<Longrightarrow> fresh st runID ep phase' \<Longrightarrow> phase \<noteq> phase' \<Longrightarrow>
      fresh (snd (boundary now runID ep phase st)) runID ep phase'"
    and fresh_observe: "fresh (observe x st) runID ep phase = fresh st runID ep phase"
    and fresh_drain: "fresh (snd (drain ctxErr h st)) runID ep phase = fresh st runID ep phase"
    and fresh_release: "fresh (release h st) runID ep phase = fresh st runID ep phase"
    and gone_refused: "gone st h \<Longrightarrow> (\<exists>e. collect h st = Inl e) \<and> release h st = st"
begin

fun exec :: "'o collectorOp \<Rightarrow> 'st \<Rightarrow> 'st" where
  "exec (OpObserve x) st = observe x st"
| "exec (OpBoundary now runID ep phase) st = snd (boundary now runID ep phase st)"
| "exec (OpDrain ctxErr h) st = snd (drain ctxErr h st)"
| "exec (OpRelease h) st = release h st"

lemma inv_exec: "inv st \<Longrightarrow> inv (exec op st)"
  by (cases op) (simp_all add: inv_boundary inv_observe inv_drain inv_release)

lemma inv_run: "inv st \<Longrightarrow> inv (fold exec ops st)"
  by (induction ops arbitrary: st) (simp_all add: inv_exec)

lemma current_run:
  "\<forall>op \<in> set ops. \<not> isBoundary op \<Longrightarrow> current (fold exec ops st) = fold add (observations ops) (current st)"
proof (induction ops arbitrary: st)
  case (Cons op ops)
  then show ?case
    by (cases op) (simp_all add: current_observe current_drain current_release)
qed simp

lemma holds_exec:
  assumes "inv st" and "holds st h = Some d" and "\<not> releases h op"
  shows "holds (exec op st) h = Some d"
  using assms by (cases op) (simp_all add: holds_observe holds_drain holds_release boundary_keeps)

lemma holds_run:
  "inv st \<Longrightarrow> holds st h = Some d \<Longrightarrow> \<forall>op \<in> set ops. \<not> releases h op \<Longrightarrow> holds (fold exec ops st) h = Some d"
  by (induction ops arbitrary: st) (simp_all add: inv_exec holds_exec)

lemma gone_run: "gone st h \<Longrightarrow> gone (fold exec ops st) h"
proof (induction ops arbitrary: st)
  case (Cons op ops)
  have "gone (exec op st) h"
    using Cons.prems by (cases op) (simp_all add: gone_boundary gone_observe gone_drain gone_release)
  then show ?case using Cons.IH by simp
qed simp

text \<open>What a run's section holds.\<close>

lemma interval:
  assumes "inv st"
    and "fresh st runID ep phase" and "boundary now runID ep phase st = ((res, err), st1)"
    and "\<forall>op \<in> set during. \<not> isBoundary op"
    and "fresh (fold exec during st1) runID' ep' phase'"
    and "boundary now' runID' ep' phase' (fold exec during st1) = ((res', err'), st2)"
    and "\<forall>op \<in> set after. \<not> releases (br_Handle res') op"
  shows "fst (drain None (br_Handle res') (fold exec after st2)) = None \<and>
         collect (br_Handle res') (snd (drain None (br_Handle res') (fold exec after st2))) =
           Inr (render (fold add (observations during) empty))"
proof -
  have i1: "inv st1" using inv_boundary [OF assms(1), of now runID ep phase] assms(3) by simp
  have c1: "current st1 = empty" using boundary_swaps [OF assms(1-3)] by simp
  have i2: "inv (fold exec during st1)" using i1 by (rule inv_run)
  have c2: "current (fold exec during st1) = fold add (observations during) empty"
    using current_run [OF assms(4), of st1] c1 by simp
  have i3: "inv st2" using inv_boundary [OF i2, of now' runID' ep' phase'] assms(6) by simp
  have "holds st2 (br_Handle res') = Some (render (fold add (observations during) empty))"
    using boundary_swaps [OF i2 assms(5,6)] c2 by simp
  from holds_run [OF i3 this assms(7)] show ?thesis
    using drain_collect [OF inv_run [OF i3]] by blast
qed

lemma fresh_run:
  "\<forall>op \<in> set ops. \<not> isBoundary op \<Longrightarrow> fresh (fold exec ops st) runID ep phase = fresh st runID ep phase"
proof (induction ops arbitrary: st)
  case (Cons op ops)
  then show ?case by (cases op) (simp_all add: fresh_observe fresh_drain fresh_release)
qed simp

text \<open>The same for a run of the controller, which gives every run a new epoch.\<close>

lemma run_section:
  assumes "inv st" and "epochOf st < ep" and "boundary now runID ep PhaseStartBoundary st = (out, st1)"
    and "\<forall>op \<in> set during. \<not> isBoundary op"
    and "boundary now' runID ep PhaseFinishFreeze (fold exec during st1) = ((res, err), st2)"
    and "\<forall>op \<in> set after. \<not> releases (br_Handle res) op"
  shows "err = None \<and> br_Committed res \<and> fst (drain None (br_Handle res) (fold exec after st2)) = None \<and>
         collect (br_Handle res) (snd (drain None (br_Handle res) (fold exec after st2))) =
           Inr (render (fold add (observations during) empty))"
proof -
  note f = fresh_epoch [OF assms(1,2)]
  have "fresh st1 runID ep PhaseFinishFreeze"
    using fresh_boundary [OF f f, of PhaseStartBoundary PhaseFinishFreeze] assms(3) by (metis Phase.distinct(3) snd_conv)
  then have fresh2: "fresh (fold exec during st1) runID ep PhaseFinishFreeze"
    using fresh_run [OF assms(4)] by blast
  have "inv st1" using inv_boundary [OF assms(1)] assms(3) by (metis snd_conv)
  then have "inv (fold exec during st1)" by (rule inv_run)
  with boundary_swaps [OF _ fresh2 assms(5)] have "err = None \<and> br_Committed res" by blast
  moreover obtain r e where "out = (r, e)" by (cases out)
  ultimately show ?thesis
    using interval [OF assms(1) f _ assms(4) fresh2 assms(5,6)] assms(3) by blast
qed

lemma released_for_good:
  assumes "inv st" and "holds st h = Some d"
  shows "(\<exists>e. collect h (fold exec ops (release h st)) = Inl e) \<and>
         release h (fold exec ops (release h st)) = fold exec ops (release h st)"
  using gone_refused [OF gone_run [OF release_gone [OF assms]]] .

end

end
