(* ===== verification/Handles.thy ===== *)
theory Handles
  imports Run_Types
begin

text \<open>
  Handles and the generations they name. A collector keeps the generations it has handed out in a
  list that only grows; the token of a handle is the collector's identity and a position in that
  list. A handle resolves only at the collector that minted it. What a generation's data is and
  whether it was released are parameters, so that every collector uses the same lemmas.
\<close>

definition resolveToken :: "string \<Rightarrow> 'g list \<Rightarrow> GenerationHandle \<Rightarrow> nat option" where
  "resolveToken self gens h =
     (case gh_token h of
        Token owner a \<Rightarrow> if owner = self \<and> a < length gens then Some a else None
      | NilToken \<Rightarrow> None)"

definition heldIn :: "('g \<Rightarrow> bool) \<Rightarrow> ('g \<Rightarrow> 'd) \<Rightarrow> string \<Rightarrow> 'g list \<Rightarrow> GenerationHandle \<Rightarrow> 'd option" where
  "heldIn released data self gens h =
     (case resolveToken self gens h of
        None \<Rightarrow> None
      | Some a \<Rightarrow> if released (gens ! a) then None else Some (data (gens ! a)))"

definition goneIn :: "('g \<Rightarrow> bool) \<Rightarrow> string \<Rightarrow> 'g list \<Rightarrow> GenerationHandle \<Rightarrow> bool" where
  "goneIn released self gens h =
     (case resolveToken self gens h of None \<Rightarrow> False | Some a \<Rightarrow> released (gens ! a))"

lemma nth_modify: "xs[a := f (xs ! a)] ! b = (if b = a \<and> a < length xs then f (xs ! a) else xs ! b)"
  by (cases "a < length xs") (simp_all add: nth_list_update list_update_beyond)

lemma resolveToken_Some:
  "resolveToken self gens h = Some a \<longleftrightarrow> gh_token h = Token self a \<and> a < length gens"
  by (auto simp: resolveToken_def split: token.split)

lemma resolveToken_length [simp]: "resolveToken self (gens[a := g]) h = resolveToken self gens h"
  by (simp add: resolveToken_def split: token.split)

lemma resolveToken_append: "resolveToken self gens h = Some a \<Longrightarrow> resolveToken self (gens @ gs) h = Some a"
  by (simp add: resolveToken_Some)

lemma heldIn_Some:
  "heldIn released data self gens h = Some d \<longleftrightarrow>
     (\<exists>a. resolveToken self gens h = Some a \<and> \<not> released (gens ! a) \<and> data (gens ! a) = d)"
  by (auto simp: heldIn_def split: option.split)

lemma goneIn_iff:
  "goneIn released self gens h \<longleftrightarrow> (\<exists>a. resolveToken self gens h = Some a \<and> released (gens ! a))"
  by (auto simp: goneIn_def split: option.split)

text \<open>An update that keeps what a generation holds, an appended generation, an update elsewhere.\<close>

lemma heldIn_modify:
  assumes "\<And>g. released (f g) = released g" and "\<And>g. \<not> released g \<Longrightarrow> data (f g) = data g"
  shows "heldIn released data self (gens[a := f (gens ! a)]) h = heldIn released data self gens h"
  using assms by (simp add: heldIn_def nth_modify split: option.split)

lemma heldIn_append:
  "heldIn released data self gens h = Some d \<Longrightarrow> heldIn released data self (gens @ gs) h = Some d"
  by (auto simp: heldIn_Some resolveToken_Some nth_append)

lemma heldIn_new:
  "gh_token h = Token self (length gens) \<Longrightarrow> \<not> released g \<Longrightarrow> heldIn released data self (gens @ [g]) h = Some (data g)"
  by (auto simp: heldIn_Some resolveToken_Some)

lemma heldIn_elsewhere:
  assumes "gh_token h' \<noteq> gh_token h" and "resolveToken self gens h' = Some a"
  shows "heldIn released data self (gens[a := g]) h = heldIn released data self gens h"
proof (cases "resolveToken self gens h")
  case (Some b)
  with assms have "b \<noteq> a" by (auto simp: resolveToken_Some)
  with Some show ?thesis by (simp add: heldIn_def)
qed (simp add: heldIn_def)

lemma goneIn_modify:
  assumes "goneIn released self gens h" and "\<And>g. released g \<Longrightarrow> released (f g)"
  shows "goneIn released self (gens[a := f (gens ! a)]) h"
  using assms by (auto simp: goneIn_iff nth_modify)

lemma goneIn_append: "goneIn released self gens h \<Longrightarrow> goneIn released self (gens @ gs) h"
  by (auto simp: goneIn_iff resolveToken_Some nth_append)

lemma goneIn_released:
  assumes "resolveToken self gens h = Some a" and "released g"
  shows "goneIn released self (gens[a := g]) h"
  using assms by (auto simp: goneIn_iff resolveToken_Some)

end
