(* ===== verification/Counters.thy ===== *)
theory Counters
  imports Tables Collector_Contract Handles "HOL-Library.Word"
begin

text \<open>
  \<open>counters/counters.go\<close> and \<open>counters/generation.go\<close>: the user-defined counters and the collector
  that hands them to the run controller. The registry and the collector are explicit states; the
  generations a collector has handed out live in its heap \<open>gc_gens\<close>, and the token of a handle is
  the collector's identity together with the position of its generation there. \<open>time.Now\<close> and
  \<open>ctx.Err\<close> are arguments.
\<close>

subsection \<open>The registry\<close>

definition DefaultMaxNames :: nat where "DefaultMaxNames = 1024"
definition MaxNameBytes :: nat where "MaxNameBytes = 128"
definition OverflowName :: string where "OverflowName = ''(other)''"

record counterEntry =
  ce_Name :: string
  ce_Count :: int

record Registry =
  r_counts :: "(string \<times> int) list"
  r_dropped :: "64 word"

definition NewRegistry :: Registry where
  "NewRegistry = \<lparr>r_counts = [], r_dropped = 0\<rparr>"

definition validName :: "string \<Rightarrow> bool" where
  "validName name \<longleftrightarrow> \<not> (name = [] \<or> length name > MaxNameBytes)"

definition bump :: "string \<Rightarrow> int \<Rightarrow> Registry \<Rightarrow> Registry" where
  "bump name delta r = r\<lparr>r_counts := alter name 0 (\<lambda>v. wrap64 (v + delta)) (r_counts r)\<rparr>"

text \<open>The body of \<open>Add\<close> after the name is trimmed.\<close>

definition addTrimmed :: "string \<Rightarrow> int \<Rightarrow> Registry \<Rightarrow> Registry" where
  "addTrimmed name delta r =
     (if \<not> validName name then bump OverflowName delta (r\<lparr>r_dropped := r_dropped r + 1\<rparr>)
      else if map_of (r_counts r) name = None \<and> length (r_counts r) \<ge> DefaultMaxNames
      then bump OverflowName delta (r\<lparr>r_dropped := r_dropped r + 1\<rparr>)
      else bump name delta r)"

definition Add :: "string \<Rightarrow> int \<Rightarrow> Registry \<Rightarrow> Registry" where
  "Add name delta r = addTrimmed (strings_TrimSpace name) delta r"

definition Dropped :: "Registry \<Rightarrow> 64 word" where
  "Dropped r = r_dropped r"

definition counterOrder :: "counterEntry \<Rightarrow> int \<times> string" where
  "counterOrder e = (- ce_Count e, ce_Name e)"

definition counterEntryOf :: "string \<times> int \<Rightarrow> counterEntry" where
  "counterEntryOf row = \<lparr>ce_Name = fst row, ce_Count = snd row\<rparr>"

definition sortedEntries :: "(string \<times> int) list \<Rightarrow> counterEntry list" where
  "sortedEntries counts = sort_key counterOrder (map counterEntryOf counts)"

definition Registry_Snapshot :: "Registry \<Rightarrow> counterEntry list" where
  "Registry_Snapshot r = sort_key counterOrder (map counterEntryOf (r_counts r))"

definition Registry_Reset :: "Registry \<Rightarrow> Registry" where
  "Registry_Reset r = r\<lparr>r_counts := [], r_dropped := 0\<rparr>"

definition rotate :: "Registry \<Rightarrow> ((string \<times> int) list \<times> 64 word) \<times> Registry" where
  "rotate r = ((r_counts r, r_dropped r), r\<lparr>r_counts := [], r_dropped := 0\<rparr>)"

subsection \<open>The generation collector\<close>

definition SectionName :: string where "SectionName = ''counters''"

definition ErrForeignHandle :: gerr where
  "ErrForeignHandle = PlainErr ''counters: generation handle belongs to another collector''"
definition ErrHandleReleased :: gerr where
  "ErrHandleReleased = PlainErr ''counters: generation handle was released''"
definition ErrNotDrained :: gerr where
  "ErrNotDrained = PlainErr ''counters: generation was not drained''"

record counterFrozen =
  cf_Entries :: "counterEntry list"
  cf_Dropped :: "64 word"

definition zeroFrozen :: counterFrozen where
  "zeroFrozen = \<lparr>cf_Entries = [], cf_Dropped = 0\<rparr>"

record boundaryKey =
  bk_runID :: string
  bk_epoch :: epoch
  bk_phase :: Phase

record boundaryRecord =
  bd_result :: BoundaryResult
  bd_err :: "gerr option"

record countersGeneration =
  g_gen :: nat
  g_done :: bool
  g_counts :: "(string \<times> int) list"
  g_dropped :: "64 word"
  g_frozen :: counterFrozen
  g_settled :: bool
  g_released :: bool

record GenerationCollector =
  gc_self :: string
  gc_registry :: Registry
  gc_epoch :: epoch
  gc_gen :: nat
  gc_results :: "(boundaryKey \<times> boundaryRecord) list"
  gc_gens :: "countersGeneration list"

definition NewGenerationCollector :: "string \<Rightarrow> Registry \<Rightarrow> GenerationCollector" where
  "NewGenerationCollector self registry =
     \<lparr>gc_self = self, gc_registry = registry, gc_epoch = 0, gc_gen = 0, gc_results = [], gc_gens = []\<rparr>"

definition newGeneration :: "GenerationCollector \<Rightarrow> countersGeneration" where
  "newGeneration c =
     \<lparr>g_gen = gc_gen c, g_done = False, g_counts = r_counts (gc_registry c), g_dropped = r_dropped (gc_registry c),
      g_frozen = zeroFrozen, g_settled = False, g_released = False\<rparr>"

definition staleEpochError :: "GenerationCollector \<Rightarrow> epoch \<Rightarrow> gerr" where
  "staleEpochError c ep = WrapErr [] ErrStaleEpoch
     ('': '' @ SectionName @ '' is at epoch '' @ show_nat (gc_epoch c) @ '', got '' @ show_nat ep)"

text \<open>\<open>c.epoch\<close> and \<open>c.results\<close> after the epoch check, the swap, and the recorded result.\<close>

definition boundaryFresh ::
  "gotime \<Rightarrow> string \<Rightarrow> epoch \<Rightarrow> Phase \<Rightarrow> GenerationCollector \<Rightarrow> BoundaryResult \<times> GenerationCollector" where
  "boundaryFresh now runID ep phase c =
     (let c1 = (if ep > gc_epoch c then c\<lparr>gc_epoch := ep, gc_results := []\<rparr> else c);
          g = newGeneration c1;
          res = \<lparr>br_Handle = NewGenerationHandle runID ep SectionName (g_gen g) (Token (gc_self c) (length (gc_gens c))),
                 br_At = now, br_Committed = True\<rparr>;
          key = \<lparr>bk_runID = runID, bk_epoch = ep, bk_phase = phase\<rparr>
      in (res, c1\<lparr>gc_registry := snd (rotate (gc_registry c1)),
                  gc_gen := (gc_gen c1 + 1) mod 2 ^ 64,
                  gc_gens := gc_gens c1 @ [g],
                  gc_results := (key, \<lparr>bd_result = res, bd_err = None\<rparr>) # gc_results c1\<rparr>))"

definition boundary ::
  "gotime \<Rightarrow> string \<Rightarrow> epoch \<Rightarrow> Phase \<Rightarrow> GenerationCollector \<Rightarrow> (BoundaryResult \<times> gerr option) \<times> GenerationCollector" where
  "boundary now runID ep phase c =
     (if ep < gc_epoch c
      then ((zeroBoundaryResult\<lparr>br_At := now\<rparr>, Some (staleEpochError c ep)), c)
      else (case map_of (gc_results c) \<lparr>bk_runID = runID, bk_epoch = ep, bk_phase = phase\<rparr> of
              Some prev \<Rightarrow> ((bd_result prev, bd_err prev), c)
            | None \<Rightarrow> (case boundaryFresh now runID ep phase c of (res, c') \<Rightarrow> ((res, None), c'))))"

definition BeginBoundary ::
  "gotime \<Rightarrow> string \<Rightarrow> epoch \<Rightarrow> GenerationCollector \<Rightarrow> (BoundaryResult \<times> gerr option) \<times> GenerationCollector" where
  "BeginBoundary now runID ep c = boundary now runID ep PhaseStartBoundary c"

definition FreezeCounters ::
  "gotime \<Rightarrow> string \<Rightarrow> epoch \<Rightarrow> GenerationCollector \<Rightarrow> (BoundaryResult \<times> gerr option) \<times> GenerationCollector" where
  "FreezeCounters now runID ep c = boundary now runID ep PhaseFinishFreeze c"

definition generationFor :: "GenerationCollector \<Rightarrow> GenerationHandle \<Rightarrow> gerr + nat" where
  "generationFor c h =
     (case resolveToken (gc_self c) (gc_gens c) h of
        Some a \<Rightarrow> Inr a
      | None \<Rightarrow> Inl (WrapErr [] ErrForeignHandle
             ('': collector '' @ strconv_Quote (gh_Collector h) @ '' generation '' @ show_nat (gh_Gen h))))"

definition settle :: "countersGeneration \<Rightarrow> countersGeneration" where
  "settle g =
     (if \<not> g_settled g \<and> \<not> g_released g
      then g\<lparr>g_frozen := \<lparr>cf_Entries = sortedEntries (g_counts g), cf_Dropped = g_dropped g\<rparr>,
             g_counts := [], g_settled := True, g_done := True\<rparr>
      else g\<lparr>g_done := True\<rparr>)"

definition Drain ::
  "gerr option \<Rightarrow> GenerationHandle \<Rightarrow> GenerationCollector \<Rightarrow> gerr option \<times> GenerationCollector" where
  "Drain ctxErr h c =
     (case generationFor c h of
        Inl e \<Rightarrow> (Some e, c)
      | Inr a \<Rightarrow>
          (if g_done (gc_gens c ! a) then (None, c)
           else (case ctxErr of
                   Some e \<Rightarrow> (Some (WrapErr (''counters: generation '' @ show_nat (g_gen (gc_gens c ! a)) @
                                            '' was not materialised: '') e []), c)
                 | None \<Rightarrow> (None, c\<lparr>gc_gens := (gc_gens c)[a := settle (gc_gens c ! a)]\<rparr>))))"

definition CollectCounters :: "GenerationHandle \<Rightarrow> GenerationCollector \<Rightarrow> gerr + counterFrozen" where
  "CollectCounters h c =
     (case generationFor c h of
        Inl e \<Rightarrow> Inl e
      | Inr a \<Rightarrow>
          (let g = gc_gens c ! a
           in if g_released g then Inl (WrapErr [] ErrHandleReleased ('': generation '' @ show_nat (g_gen g)))
              else if \<not> g_settled g then Inl (WrapErr [] ErrNotDrained ('': generation '' @ show_nat (g_gen g)))
              else Inr (g_frozen g)))"

definition releaseGen :: "countersGeneration \<Rightarrow> countersGeneration" where
  "releaseGen g =
     (if g_released g then g
      else g\<lparr>g_released := True, g_counts := [], g_frozen := zeroFrozen, g_done := True\<rparr>)"

definition Release :: "GenerationHandle \<Rightarrow> GenerationCollector \<Rightarrow> GenerationCollector" where
  "Release h c =
     (case generationFor c h of
        Inl e \<Rightarrow> c
      | Inr a \<Rightarrow> c\<lparr>gc_gens := (gc_gens c)[a := releaseGen (gc_gens c ! a)]\<rparr>)"

text \<open>Counting through the registry while a collector owns it.\<close>

definition Count :: "string \<Rightarrow> int \<Rightarrow> GenerationCollector \<Rightarrow> GenerationCollector" where
  "Count name delta c = c\<lparr>gc_registry := Add name delta (gc_registry c)\<rparr>"

subsection \<open>The registry keeps every count\<close>

definition registry_inv :: "Registry \<Rightarrow> bool" where
  "registry_inv r \<longleftrightarrow> distinct (map fst (r_counts r)) \<and>
     (\<forall>row \<in> set (r_counts r). validName (fst row)) \<and>
     length (r_counts r) \<le> (if OverflowName \<in> fst ` set (r_counts r) then Suc DefaultMaxNames else DefaultMaxNames)"

definition counterRow :: "Registry \<Rightarrow> string \<Rightarrow> int option" where
  "counterRow r = map_of (r_counts r)"

definition admitsName :: "Registry \<Rightarrow> string \<Rightarrow> bool" where
  "admitsName r name \<longleftrightarrow> validName name \<and> (counterRow r name \<noteq> None \<or> length (r_counts r) < DefaultMaxNames)"

definition addDelta :: "int \<Rightarrow> int \<Rightarrow> int" where
  "addDelta delta v = wrap64 (v + delta)"

lemma validName_Overflow [simp]: "validName OverflowName"
  by (simp add: validName_def OverflowName_def MaxNameBytes_def)

lemma addTrimmed_eq:
  "addTrimmed name delta r =
     (if admitsName r name then bump name delta r else bump OverflowName delta (r\<lparr>r_dropped := r_dropped r + 1\<rparr>))"
  by (auto simp: addTrimmed_def admitsName_def counterRow_def)

lemma counterRow_bump:
  "counterRow (bump name delta r) k = (if k = name then Some (addDelta delta (case counterRow r k of None \<Rightarrow> 0 | Some v \<Rightarrow> v)) else counterRow r k)"
  by (auto simp: bump_def counterRow_def map_of_alter addDelta_def)

lemma counterRow_dropped [simp]: "counterRow (r\<lparr>r_dropped := n\<rparr>) = counterRow r"
  by (simp add: counterRow_def)

lemma counterRow_None: "counterRow r k = None \<longleftrightarrow> k \<notin> fst ` set (r_counts r)"
  by (simp add: counterRow_def map_of_eq_None_iff)

lemma names_bump: "fst ` set (r_counts (bump name delta r)) = insert name (fst ` set (r_counts r))"
  by (simp add: bump_def keys_alter)

lemma length_bump:
  "length (r_counts (bump name delta r)) = (if name \<in> fst ` set (r_counts r) then length (r_counts r) else Suc (length (r_counts r)))"
  by (simp add: bump_def length_alter)

lemma registry_inv_bump:
  assumes "registry_inv r" and "validName name"
    and "name = OverflowName \<or> name \<in> fst ` set (r_counts r) \<or> length (r_counts r) < DefaultMaxNames"
  shows "registry_inv (bump name delta r)"
proof -
  have "distinct (map fst (r_counts (bump name delta r)))"
    using assms(1) by (simp add: bump_def distinct_alter registry_inv_def)
  moreover have "\<forall>n \<in> fst ` set (r_counts (bump name delta r)). validName n"
    unfolding names_bump using assms(1,2) by (auto simp: registry_inv_def)
  moreover have "length (r_counts (bump name delta r)) \<le>
      (if OverflowName \<in> fst ` set (r_counts (bump name delta r)) then Suc DefaultMaxNames else DefaultMaxNames)"
    unfolding names_bump length_bump using assms(1,3) by (auto simp: registry_inv_def split: if_splits)
  ultimately show ?thesis by (simp add: registry_inv_def)
qed

lemma registry_inv_addTrimmed: "registry_inv r \<Longrightarrow> registry_inv (addTrimmed name delta r)"
proof -
  assume i: "registry_inv r"
  then have i': "registry_inv (r\<lparr>r_dropped := n\<rparr>)" for n by (simp add: registry_inv_def)
  show ?thesis
  proof (cases "admitsName r name")
    case True
    then have "registry_inv (bump name delta r)"
      by (intro registry_inv_bump i) (auto simp: admitsName_def counterRow_None)
    with True show ?thesis by (simp add: addTrimmed_eq)
  next
    case False
    then show ?thesis by (simp add: addTrimmed_eq registry_inv_bump i')
  qed
qed

interpretation cnt: overflow_table registry_inv counterRow addTrimmed admitsName addDelta 0 OverflowName
proof unfold_locales
  fix r k assume i: "registry_inv r" and row: "counterRow r k \<noteq> None"
  then have "k \<in> fst ` set (r_counts r)" using counterRow_None [of r k] by (metis (no_types))
  moreover have "\<forall>row \<in> set (r_counts r). validName (fst row)" using i unfolding registry_inv_def by blast
  ultimately have "validName k" by blast
  with row show "admitsName r k" by (simp add: admitsName_def)
next
  fix r k k' x assume i: "registry_inv r" and no: "\<not> admitsName r k" "k \<noteq> OverflowName"
  have "k \<notin> fst ` set (r_counts (addTrimmed k' x r)) \<or> \<not> validName k"
    using no by (auto simp: addTrimmed_eq names_bump admitsName_def counterRow_None)
  moreover have "length (r_counts r) \<le> length (r_counts (addTrimmed k' x r))"
    by (simp add: addTrimmed_eq length_bump)
  ultimately show "\<not> admitsName (addTrimmed k' x r) k"
    using no by (auto simp: admitsName_def counterRow_None)
next
  fix r k k' x assume "registry_inv r"
  then show "counterRow (addTrimmed k x r) k' = (if k' = (if admitsName r k then k else OverflowName)
      then Some (addDelta x (case counterRow r k' of None \<Rightarrow> 0 | Some v \<Rightarrow> v)) else counterRow r k')"
    by (simp add: addTrimmed_eq counterRow_bump)
qed (rule registry_inv_addTrimmed)

lemma fold_addDelta: "ds \<noteq> [] \<Longrightarrow> fold addDelta ds v = wrap64 (v + sum_list ds)"
proof (induction ds arbitrary: v)
  case (Cons d ds)
  show ?case
  proof (cases "ds = []")
    case True
    then show ?thesis by (simp add: addDelta_def)
  next
    case False
    then show ?thesis using Cons.IH [of "addDelta d v"] by (simp add: addDelta_def wrap64_add add.assoc)
  qed
qed simp

abbreviation AddAll :: "(string \<times> int) list \<Rightarrow> Registry \<Rightarrow> Registry" where
  "AddAll adds \<equiv> fold (\<lambda>(name, delta). Add name delta) adds"

lemma AddAll_trimmed:
  "AddAll adds r = fold (\<lambda>(name, delta). addTrimmed name delta) (map (\<lambda>(name, delta). (strings_TrimSpace name, delta)) adds) r"
  by (induction adds arbitrary: r) (auto simp: Add_def)

lemma registry_inv_New [simp]: "registry_inv NewRegistry" "counterRow NewRegistry k = None"
  by (simp_all add: registry_inv_def NewRegistry_def counterRow_def)

lemma registry_inv_AddAll: "registry_inv r \<Longrightarrow> registry_inv (AddAll adds r)"
  by (induction adds arbitrary: r) (auto simp: Add_def registry_inv_addTrimmed)

text \<open>
  The registry keeps every count within its bounds: after any sequence of \<open>Add\<close> calls there are at
  most 1025 names, each non-empty and at most 128 bytes long; the value of a name other than
  \<open>(other)\<close> is the (64-bit) sum of all deltas added under it, after trimming, and the value of
  \<open>(other)\<close> is the sum of all remaining deltas; a valid name is merged into \<open>(other)\<close> only when the
  table is full.
\<close>

lemma counters_account_for_adds:
  assumes "r = AddAll adds NewRegistry"
  shows "length (r_counts r) \<le> Suc DefaultMaxNames \<and> distinct (map fst (r_counts r)) \<and>
    (\<forall>row \<in> set (r_counts r). fst row \<noteq> [] \<and> length (fst row) \<le> MaxNameBytes) \<and>
    (\<forall>name v. name \<noteq> OverflowName \<and> counterRow r name = Some v \<longrightarrow>
       v = wrap64 (sum_list (map snd (filter (\<lambda>a. strings_TrimSpace (fst a) = name) adds)))) \<and>
    (\<forall>v. counterRow r OverflowName = Some v \<longrightarrow>
       v = wrap64 (sum_list (map snd (filter (\<lambda>a. strings_TrimSpace (fst a) = OverflowName \<or>
             counterRow r (strings_TrimSpace (fst a)) = None) adds)))) \<and>
    (\<forall>a \<in> set adds. counterRow r (strings_TrimSpace (fst a)) = None \<and> validName (strings_TrimSpace (fst a)) \<and>
       strings_TrimSpace (fst a) \<noteq> OverflowName \<longrightarrow> DefaultMaxNames \<le> length (r_counts r))"
proof -
  let ?ts = "map (\<lambda>(name, delta). (strings_TrimSpace name, delta)) adds"
  have i: "registry_inv r" unfolding assms by (intro registry_inv_AddAll) simp
  have acc: "cnt.accounted ?ts r"
    unfolding assms AddAll_trimmed by (rule cnt.accounted_all) simp_all
  have obs: "obsOf P ?ts = map snd (filter (\<lambda>a. P (strings_TrimSpace (fst a))) adds)" for P
    by (simp add: obsOf_def filter_map comp_def case_prod_unfold)
  have val: "v = wrap64 (sum_list ds)" if "Some v = merged addDelta 0 ds" for v ds
    using that fold_addDelta [of ds 0] by (auto simp: merged_def split: if_splits)
  have "v = wrap64 (sum_list (obsOf (\<lambda>k. k = name) ?ts))"
    if "name \<noteq> OverflowName" "counterRow r name = Some v" for name v
  proof (rule val)
    from acc that show "Some v = merged addDelta 0 (obsOf (\<lambda>k. k = name) ?ts)"
      unfolding cnt.accounted_def by (metis option.distinct(1))
  qed
  moreover have "v = wrap64 (sum_list (obsOf (\<lambda>k. k = OverflowName \<or> counterRow r k = None) ?ts))"
    if "counterRow r OverflowName = Some v" for v
    using acc that by (intro val) (simp add: cnt.accounted_def)
  moreover have "DefaultMaxNames \<le> length (r_counts r)"
    if "a \<in> set adds" "counterRow r (strings_TrimSpace (fst a)) = None" "validName (strings_TrimSpace (fst a))"
      "strings_TrimSpace (fst a) \<noteq> OverflowName" for a
  proof -
    have "strings_TrimSpace (fst a) \<in> fst ` set ?ts" using that(1) by (force simp: case_prod_unfold)
    then have "\<not> admitsName r (strings_TrimSpace (fst a))"
      using acc that(2,4) unfolding cnt.accounted_def by blast
    with that(3) show ?thesis by (simp add: admitsName_def)
  qed
  moreover have "length (r_counts r) \<le> Suc DefaultMaxNames" "distinct (map fst (r_counts r))"
    "\<forall>row \<in> set (r_counts r). fst row \<noteq> [] \<and> length (fst row) \<le> MaxNameBytes"
    using i by (auto simp: registry_inv_def validName_def split: if_splits)
  ultimately show ?thesis unfolding obs by blast
qed

definition exampleAdds :: "(string \<times> int) list" where
  "exampleAdds = [('' hit'', 2), (''miss'', 1), (''hit '', 40), (''  '', 7)]"

subsection \<open>The collector honours the contract\<close>

text \<open>A generation is done exactly when it is settled or released; boundaries are recorded for the
  current epoch only.\<close>

definition gen_ok :: "countersGeneration \<Rightarrow> bool" where
  "gen_ok g \<longleftrightarrow> (g_done g \<longleftrightarrow> g_settled g \<or> g_released g)"

definition collector_inv :: "GenerationCollector \<Rightarrow> bool" where
  "collector_inv c \<longleftrightarrow> (\<forall>g \<in> set (gc_gens c). gen_ok g) \<and> (\<forall>k \<in> fst ` set (gc_results c). bk_epoch k = gc_epoch c)"

definition freshBoundary :: "GenerationCollector \<Rightarrow> string \<Rightarrow> epoch \<Rightarrow> Phase \<Rightarrow> bool" where
  "freshBoundary c runID ep phase \<longleftrightarrow> gc_epoch c \<le> ep \<and>
     map_of (gc_results c) \<lparr>bk_runID = runID, bk_epoch = ep, bk_phase = phase\<rparr> = None"

definition renderCounters :: "Registry \<Rightarrow> counterFrozen" where
  "renderCounters r = \<lparr>cf_Entries = sortedEntries (r_counts r), cf_Dropped = r_dropped r\<rparr>"

definition dataOf :: "countersGeneration \<Rightarrow> counterFrozen" where
  "dataOf g = (if g_settled g then g_frozen g else renderCounters \<lparr>r_counts = g_counts g, r_dropped = g_dropped g\<rparr>)"

definition heldData :: "GenerationCollector \<Rightarrow> GenerationHandle \<Rightarrow> counterFrozen option" where
  "heldData c h = heldIn g_released dataOf (gc_self c) (gc_gens c) h"

definition releasedHandle :: "GenerationCollector \<Rightarrow> GenerationHandle \<Rightarrow> bool" where
  "releasedHandle c h = goneIn g_released (gc_self c) (gc_gens c) h"

definition countOp :: "string \<times> int \<Rightarrow> GenerationCollector \<Rightarrow> GenerationCollector" where
  "countOp x c = Count (fst x) (snd x) c"

definition addCounts :: "string \<times> int \<Rightarrow> Registry \<Rightarrow> Registry" where
  "addCounts x r = Add (fst x) (snd x) r"

lemma generationFor_Inr: "generationFor c h = Inr a \<longleftrightarrow> resolveToken (gc_self c) (gc_gens c) h = Some a"
  by (auto simp: generationFor_def split: option.split)

lemmas generationFor_simps = generationFor_Inr generationFor_def

lemma boundary_fresh:
  "freshBoundary c runID ep phase \<Longrightarrow>
   boundary now runID ep phase c = (case boundaryFresh now runID ep phase c of (res, c') \<Rightarrow> ((res, None), c'))"
  by (simp add: boundary_def freshBoundary_def)

lemma boundary_stale_or_replayed:
  "\<not> freshBoundary c runID ep phase \<Longrightarrow> snd (boundary now runID ep phase c) = c"
  by (auto simp: boundary_def freshBoundary_def split: option.split)

lemma boundaryFresh_facts:
  assumes "boundaryFresh now runID ep phase c = (res, c')"
  shows "gc_self c' = gc_self c \<and> gc_gens c' = gc_gens c @ [newGeneration c] \<and>
    gc_registry c' = NewRegistry \<and> gh_token (br_Handle res) = Token (gc_self c) (length (gc_gens c)) \<and>
    br_Committed res \<and> (gc_epoch c \<le> ep \<longrightarrow> gc_epoch c' = ep) \<and>
    map_of (gc_results c') \<lparr>bk_runID = runID, bk_epoch = ep, bk_phase = phase\<rparr> = Some \<lparr>bd_result = res, bd_err = None\<rparr>"
  using assms
  by (auto simp: boundaryFresh_def Let_def rotate_def NewRegistry_def NewGenerationHandle_def newGeneration_def split: if_splits)

lemma Drain_state:
  "snd (Drain ctxErr h c) = c \<or>
   (\<exists>a. generationFor c h = Inr a \<and> snd (Drain ctxErr h c) = c\<lparr>gc_gens := (gc_gens c)[a := settle (gc_gens c ! a)]\<rparr>)"
  by (auto simp: Drain_def split: sum.split option.split)

lemma Release_state:
  "Release h c = c \<or> (\<exists>a. generationFor c h = Inr a \<and> Release h c = c\<lparr>gc_gens := (gc_gens c)[a := releaseGen (gc_gens c ! a)]\<rparr>)"
  by (auto simp: Release_def split: sum.split)

lemma settle_facts:
  "g_released (settle g) = g_released g" "\<not> g_released g \<Longrightarrow> dataOf (settle g) = dataOf g"
  by (auto simp: settle_def dataOf_def renderCounters_def)

lemma settle_ok: "gen_ok g \<Longrightarrow> gen_ok (settle g)"
  by (auto simp: settle_def gen_ok_def)

lemma release_marks: "g_released (releaseGen g)"
  by (simp add: releaseGen_def)

lemma release_ok: "gen_ok (releaseGen g) \<longleftrightarrow> (g_released g \<longrightarrow> gen_ok g)"
  by (auto simp: releaseGen_def gen_ok_def)

lemma collector_inv_update:
  "collector_inv c \<Longrightarrow> gen_ok g \<Longrightarrow> collector_inv (c\<lparr>gc_gens := (gc_gens c)[a := g]\<rparr>)"
  by (auto simp: collector_inv_def dest!: set_update_subset_insert [THEN subsetD])

lemma collector_inv_nth: "collector_inv c \<Longrightarrow> generationFor c h = Inr a \<Longrightarrow> gen_ok (gc_gens c ! a)"
  by (auto simp: collector_inv_def generationFor_Inr resolveToken_Some)

lemma collector_inv_boundary: "collector_inv c \<Longrightarrow> collector_inv (snd (boundary now runID ep phase c))"
proof (cases "freshBoundary c runID ep phase")
  case True
  assume "collector_inv c"
  with True show ?thesis
    by (auto simp: boundary_fresh boundaryFresh_def Let_def collector_inv_def newGeneration_def gen_ok_def freshBoundary_def)
qed (simp add: boundary_stale_or_replayed)

lemma fresh_new_epoch:
  assumes "collector_inv c" and "gc_epoch c < ep"
  shows "freshBoundary c runID ep phase"
proof -
  have "\<lparr>bk_runID = runID, bk_epoch = ep, bk_phase = phase\<rparr> \<notin> fst ` set (gc_results c)"
    using assms by (fastforce simp: collector_inv_def)
  with assms(2) show ?thesis by (simp add: freshBoundary_def map_of_eq_None_iff)
qed

lemma boundary_swaps_counters:
  assumes "freshBoundary c runID ep phase" and "boundary now runID ep phase c = ((res, err), c')"
  shows "err = None \<and> br_Committed res \<and> gc_registry c' = NewRegistry \<and>
         heldData c' (br_Handle res) = Some (renderCounters (gc_registry c))"
proof -
  have "boundaryFresh now runID ep phase c = (res, c')" and e: "err = None"
    using assms by (auto simp: boundary_fresh split: prod.splits)
  note f = boundaryFresh_facts [OF this(1)]
  have "\<not> g_released (newGeneration c)" "dataOf (newGeneration c) = renderCounters (gc_registry c)"
    by (simp_all add: newGeneration_def dataOf_def renderCounters_def)
  then show ?thesis using f e by (simp add: heldData_def heldIn_new)
qed

lemma boundary_replays_counters:
  assumes "freshBoundary c runID ep phase" and "boundary now runID ep phase c = (out, c')"
  shows "boundary now' runID ep phase c' = (out, c')"
proof -
  obtain res where r: "boundaryFresh now runID ep phase c = (res, c')" and "out = (res, None)"
    using assms by (auto simp: boundary_fresh split: prod.splits)
  then show ?thesis
    using boundaryFresh_facts [OF r] assms(1) by (simp add: boundary_def freshBoundary_def)
qed

lemma boundary_appends:
  "\<exists>gs. gc_gens (snd (boundary now runID ep phase c)) = gc_gens c @ gs \<and> gc_self (snd (boundary now runID ep phase c)) = gc_self c"
proof (cases "freshBoundary c runID ep phase")
  case True
  obtain res c' where f: "boundaryFresh now runID ep phase c = (res, c')" by force
  show ?thesis using boundaryFresh_facts [OF f] by (simp add: boundary_fresh [OF True] f)
qed (simp add: boundary_stale_or_replayed)

lemma Drain_collects:
  assumes "collector_inv c" and "heldData c h = Some d"
  shows "fst (Drain None h c) = None \<and> CollectCounters h (snd (Drain None h c)) = Inr d"
proof -
  obtain a where a: "resolveToken (gc_self c) (gc_gens c) h = Some a"
    and nr: "\<not> g_released (gc_gens c ! a)" and d: "dataOf (gc_gens c ! a) = d"
    using assms(2) by (auto simp: heldData_def heldIn_Some)
  then have "gen_ok (gc_gens c ! a)" "a < length (gc_gens c)"
    using collector_inv_nth [OF assms(1)] by (auto simp: generationFor_Inr resolveToken_Some)
  with a nr d show ?thesis
    by (cases "g_done (gc_gens c ! a)")
      (auto simp: Drain_def CollectCounters_def generationFor_def Let_def gen_ok_def dataOf_def settle_def renderCounters_def)
qed

lemma release_keeps_others: "gh_token h' \<noteq> gh_token h \<Longrightarrow> heldData (Release h' c) h = heldData c h"
  by (auto simp: Release_def heldData_def generationFor_def heldIn_elsewhere split: option.split)

lemma release_frees: "heldData c h = Some d \<Longrightarrow> releasedHandle (Release h c) h"
  by (auto simp: heldData_def heldIn_Some releasedHandle_def Release_def generationFor_def release_marks intro!: goneIn_released)

lemma released_refused: "releasedHandle c h \<Longrightarrow> (\<exists>e. CollectCounters h c = Inl e) \<and> Release h c = c"
  by (auto simp: releasedHandle_def goneIn_iff CollectCounters_def Release_def generationFor_def releaseGen_def Let_def)

lemma count_same: "gc_gens (countOp x c) = gc_gens c" "gc_results (countOp x c) = gc_results c"
  "gc_epoch (countOp x c) = gc_epoch c" "gc_self (countOp x c) = gc_self c"
  by (simp_all add: countOp_def Count_def)

interpretation gcol: generation_collector collector_inv freshBoundary boundary countOp Drain CollectCounters Release
  gc_registry heldData releasedHandle NewRegistry addCounts renderCounters gc_epoch
proof unfold_locales
  fix c ctxErr h assume i: "collector_inv c"
  show "collector_inv (snd (Drain ctxErr h c))"
    using Drain_state [of ctxErr h c] i by (auto intro!: collector_inv_update settle_ok collector_inv_nth)
  show "collector_inv (Release h c)"
    using Release_state [of h c] i collector_inv_nth [OF i] by (auto intro!: collector_inv_update simp: release_ok)
  show "heldData (snd (Drain ctxErr h' c)) h = heldData c h" for h'
    using Drain_state [of ctxErr h' c] heldIn_modify [of g_released settle dataOf] settle_facts by (auto simp: heldData_def)
next
  fix c x h
  show "collector_inv c \<Longrightarrow> collector_inv (countOp x c)" "heldData (countOp x c) h = heldData c h"
    "releasedHandle c h \<Longrightarrow> releasedHandle (countOp x c) h"
    by (simp_all add: count_same collector_inv_def heldData_def releasedHandle_def)
  show "freshBoundary (countOp x c) runID ep phase = freshBoundary c runID ep phase" for runID ep phase
    by (simp add: freshBoundary_def count_same)
  show "gc_registry (countOp x c) = addCounts x (gc_registry c)"
    by (simp add: countOp_def Count_def addCounts_def)
next
  fix c ctxErr h h'
  show "gc_registry (snd (Drain ctxErr h c)) = gc_registry c" "gc_registry (Release h c) = gc_registry c"
    using Drain_state [of ctxErr h c] Release_state [of h c] by auto
  show "freshBoundary (snd (Drain ctxErr h c)) runID ep phase = freshBoundary c runID ep phase"
    "freshBoundary (Release h c) runID ep phase = freshBoundary c runID ep phase" for runID ep phase
    using Drain_state [of ctxErr h c] Release_state [of h c] by (auto simp: freshBoundary_def)
  show "releasedHandle (snd (Drain ctxErr h' c)) h" if "releasedHandle c h"
    using Drain_state [of ctxErr h' c] that by (auto simp: releasedHandle_def intro!: goneIn_modify [of _ _ _ _ settle] settle_facts(1) [THEN iffD2])
  show "releasedHandle (Release h' c) h" if "releasedHandle c h"
    using Release_state [of h' c] that by (auto simp: releasedHandle_def release_marks intro!: goneIn_modify [of _ _ _ _ releaseGen])
next
  fix c h d now runID ep phase
  obtain gs where gs: "gc_gens (snd (boundary now runID ep phase c)) = gc_gens c @ gs"
    "gc_self (snd (boundary now runID ep phase c)) = gc_self c"
    using boundary_appends by blast
  show "heldData c h = Some d \<Longrightarrow> heldData (snd (boundary now runID ep phase c)) h = Some d"
    "releasedHandle c h \<Longrightarrow> releasedHandle (snd (boundary now runID ep phase c)) h"
    by (simp_all add: gs heldData_def releasedHandle_def heldIn_append goneIn_append)
next
  fix c runID ep phase phase' now
  assume f: "freshBoundary c runID ep phase" "freshBoundary c runID ep phase'" "phase \<noteq> phase'"
  then show "freshBoundary (snd (boundary now runID ep phase c)) runID ep phase'"
    unfolding boundary_fresh [OF f(1)] by (auto simp: boundaryFresh_def freshBoundary_def Let_def)
qed (erule collector_inv_boundary fresh_new_epoch boundary_swaps_counters boundary_replays_counters Drain_collects release_frees
    released_refused | rule release_keeps_others | assumption)+

subsection \<open>What the run controller can rely on\<close>

fun collectorExec :: "(string \<times> int) collectorOp \<Rightarrow> GenerationCollector \<Rightarrow> GenerationCollector" where
  "collectorExec (OpObserve x) c = Count (fst x) (snd x) c"
| "collectorExec (OpBoundary now runID ep phase) c = snd (boundary now runID ep phase c)"
| "collectorExec (OpDrain ctxErr h) c = snd (Drain ctxErr h c)"
| "collectorExec (OpRelease h) c = Release h c"

lemma collectorExec_eq: "collectorExec = gcol.exec"
proof (rule ext, rule ext)
  fix op c show "collectorExec op c = gcol.exec op c" by (cases op) (simp_all add: countOp_def)
qed

lemma addCounts_eq: "fold addCounts xs = AddAll xs"
  by (simp add: addCounts_def [abs_def] case_prod_unfold)

text \<open>
  C10: The counters section of a run is exactly what was counted between its two boundaries: when a
  run with a new epoch takes its opening boundary, then any counting, draining and releasing happens,
  then its closing boundary is taken, the closing boundary commits without error, and whatever happens
  afterwards (counting, further runs, draining or releasing other handles), draining and collecting
  its handle succeeds and returns the table of the counts made in between, rendered in order.
\<close>

theorem counters_section_is_run_interval:
  assumes "collector_inv c" and "gc_epoch c < ep" and "BeginBoundary now runID ep c = (out, c1)"
    and "\<forall>op \<in> set during. \<not> isBoundary op"
    and "FreezeCounters now' runID ep (fold collectorExec during c1) = ((res, err), c2)"
    and "\<forall>op \<in> set after. \<not> releases (br_Handle res) op"
  shows "err = None \<and> br_Committed res \<and>
    fst (Drain None (br_Handle res) (fold collectorExec after c2)) = None \<and>
    CollectCounters (br_Handle res) (snd (Drain None (br_Handle res) (fold collectorExec after c2))) =
      Inr (renderCounters (AddAll (observations during) NewRegistry))"
proof -
  have b: "boundary now runID ep PhaseStartBoundary c = (out, c1)"
    and f: "boundary now' runID ep PhaseFinishFreeze (fold gcol.exec during c1) = ((res, err), c2)"
    using assms(3,5) by (simp_all add: BeginBoundary_def FreezeCounters_def collectorExec_eq)
  show ?thesis
    using gcol.run_section [OF assms(1,2) b assms(4) f assms(6)] by (simp add: collectorExec_eq addCounts_eq)
qed

definition exampleCollector :: GenerationCollector where
  "exampleCollector = NewGenerationCollector ''counters#1'' NewRegistry"

lemma collector_inv_new [simp]: "collector_inv (NewGenerationCollector self r)"
  by (simp add: collector_inv_def NewGenerationCollector_def)

definition exampleOpened :: GenerationCollector where
  "exampleOpened = snd (BeginBoundary 1 ''r1'' 1 exampleCollector)"

definition exampleClosed :: "(BoundaryResult \<times> gerr option) \<times> GenerationCollector" where
  "exampleClosed = FreezeCounters 2 ''r1'' 1 (fold collectorExec (map OpObserve exampleAdds) exampleOpened)"

definition exampleLater :: GenerationCollector where
  "exampleLater = fold collectorExec [OpObserve (''hit'', 5), OpBoundary 9 ''r2'' 2 PhaseStartBoundary] (snd exampleClosed)"

lemma example_interval_ready: "gc_epoch exampleCollector < 1" "observations (map OpObserve exampleAdds) = exampleAdds"
  by (simp_all add: exampleCollector_def NewGenerationCollector_def exampleAdds_def)

theorem counters_section_is_run_interval_witness:
  "CollectCounters (br_Handle (fst (fst exampleClosed))) (snd (Drain None (br_Handle (fst (fst exampleClosed))) exampleLater)) =
     Inr (renderCounters (AddAll exampleAdds NewRegistry))"
  using counters_section_is_run_interval [of exampleCollector 1 1 "''r1''" "fst (BeginBoundary 1 ''r1'' 1 exampleCollector)"
      exampleOpened "map OpObserve exampleAdds" 2 "fst (fst exampleClosed)" "snd (fst exampleClosed)" "snd exampleClosed"
      "[OpObserve (''hit'', 5), OpBoundary 9 ''r2'' 2 PhaseStartBoundary]"] example_interval_ready
  by (simp add: exampleOpened_def exampleClosed_def exampleLater_def exampleCollector_def)

lemma boundary_not_stale:
  assumes "collector_inv c" and "gc_epoch c \<le> ep" and "boundary now runID ep phase c = (out, c')"
  shows "gc_epoch c' = ep \<and> map_of (gc_results c') \<lparr>bk_runID = runID, bk_epoch = ep, bk_phase = phase\<rparr> =
    Some \<lparr>bd_result = fst out, bd_err = snd out\<rparr>"
proof (cases "freshBoundary c runID ep phase")
  case True
  then obtain res where r: "boundaryFresh now runID ep phase c = (res, c')" and "out = (res, None)"
    using assms(3) by (auto simp: boundary_fresh split: prod.splits)
  then show ?thesis using boundaryFresh_facts [OF r] assms(2) by simp
next
  case False
  with assms(2) obtain prev where prev: "map_of (gc_results c) \<lparr>bk_runID = runID, bk_epoch = ep, bk_phase = phase\<rparr> = Some prev"
    by (auto simp: freshBoundary_def)
  then have "\<lparr>bk_runID = runID, bk_epoch = ep, bk_phase = phase\<rparr> \<in> fst ` set (gc_results c)"
    by (metis fst_conv image_eqI map_of_SomeD)
  with assms(1) have "ep = gc_epoch c" by (fastforce simp: collector_inv_def)
  with prev assms(3) show ?thesis by (auto simp: boundary_def)
qed

text \<open>
  Boundaries are idempotent and fenced: repeating the call of a boundary returns the first call's
  result and changes nothing, so a retry cannot split a run's data, and from then on a boundary of any
  older epoch is refused with \<open>ErrStaleEpoch\<close> and changes nothing either.
\<close>

lemma counters_boundary_replayed:
  assumes "collector_inv c" and "gc_epoch c \<le> ep" and "boundary now runID ep phase c = (out, c')"
  shows "boundary now' runID ep phase c' = (out, c') \<and>
    (\<forall>ep' < ep. snd (boundary now' runID' ep' phase' c') = c' \<and>
       (\<exists>e. snd (fst (boundary now' runID' ep' phase' c')) = Some e \<and> errors_Is e ErrStaleEpoch))"
  using boundary_not_stale [OF assms] by (auto simp: boundary_def staleEpochError_def)

text \<open>
  A release is final: once the handle of a closed generation is released, then after any further
  sequence of operations collecting it is refused as released, draining it is a successful no-op and
  releasing it again changes nothing.
\<close>

lemma counters_release_is_final:
  assumes "collector_inv c" and "heldData c h = Some d" and "c' = fold collectorExec ops (Release h c)"
  shows "(\<exists>e. CollectCounters h c' = Inl e \<and> errors_Is e ErrHandleReleased) \<and> Drain ctxErr h c' = (None, c') \<and>
    Release h c' = c'"
proof -
  have i: "collector_inv c'"
    unfolding assms(3) collectorExec_eq using assms(1) by (intro gcol.inv_run gcol.inv_release)
  have gone: "releasedHandle c' h"
    unfolding assms(3) collectorExec_eq using release_frees [OF assms(2)] by (rule gcol.gone_run)
  then obtain a where a: "generationFor c' h = Inr a" "g_released (gc_gens c' ! a)"
    by (auto simp: releasedHandle_def goneIn_iff generationFor_Inr)
  moreover have "g_done (gc_gens c' ! a)" using collector_inv_nth [OF i a(1)] a(2) by (simp add: gen_ok_def)
  ultimately show ?thesis
    using released_refused [OF gone] by (simp add: CollectCounters_def Drain_def Let_def)
qed

end
