(* ===== verification/Swap_Collector.thy ===== *)
theory Swap_Collector
  imports Collector_Contract Handles
begin

text \<open>
  The collectors that close a generation by swapping a registry: a boundary appends the old registry's
  data as a new generation, draining settles one generation, and releasing frees one. The locale
  states what their operations do to the list of generations; it yields the contract of
  \<open>generation_collector\<close>, so that such a collector proves only these shapes.
\<close>

locale swap_collector =
  fixes inv :: "'st \<Rightarrow> bool"
    and fresh :: "'st \<Rightarrow> string \<Rightarrow> epoch \<Rightarrow> Phase \<Rightarrow> bool"
    and boundary :: "gotime \<Rightarrow> string \<Rightarrow> epoch \<Rightarrow> Phase \<Rightarrow> 'st \<Rightarrow> (BoundaryResult \<times> gerr option) \<times> 'st"
    and observe :: "'o \<Rightarrow> 'st \<Rightarrow> 'st"
    and drain :: "gerr option \<Rightarrow> GenerationHandle \<Rightarrow> 'st \<Rightarrow> gerr option \<times> 'st"
    and collect :: "GenerationHandle \<Rightarrow> 'st \<Rightarrow> gerr + 'd"
    and release :: "GenerationHandle \<Rightarrow> 'st \<Rightarrow> 'st"
    and current :: "'st \<Rightarrow> 'c"
    and empty :: 'c
    and add :: "'o \<Rightarrow> 'c \<Rightarrow> 'c"
    and render :: "'c \<Rightarrow> 'd"
    and epochOf :: "'st \<Rightarrow> epoch"
    and self :: "'st \<Rightarrow> string"
    and gens :: "'st \<Rightarrow> 'g list"
    and released :: "'g \<Rightarrow> bool"
    and data :: "'g \<Rightarrow> 'd"
    and dropped :: "'g \<Rightarrow> bool"
    and settle :: "'g \<Rightarrow> 'g"
    and free :: "'g \<Rightarrow> 'g"
  assumes boundary_inv: "inv st \<Longrightarrow> inv (snd (boundary now runID ep phase st))"
    and observe_inv: "inv st \<Longrightarrow> inv (observe x st)"
    and drain_inv: "inv st \<Longrightarrow> inv (snd (drain ctxErr h st))"
    and release_inv: "inv st \<Longrightarrow> inv (release h st)"
    and boundary_opens: "fresh st runID ep phase \<Longrightarrow> boundary now runID ep phase st = ((res, err), st') \<Longrightarrow>
      err = None \<and> br_Committed res \<and> gh_token (br_Handle res) = Token (self st) (length (gens st)) \<and> self st' = self st \<and>
      (\<exists>g. gens st' = gens st @ [g] \<and> \<not> released g \<and> data g = render (current st))"
    and boundary_empties: "inv st \<Longrightarrow> fresh st runID ep phase \<Longrightarrow> current (snd (boundary now runID ep phase st)) = empty"
    and boundary_repeats: "inv st \<Longrightarrow> fresh st runID ep phase \<Longrightarrow> boundary now runID ep phase st = (out, st') \<Longrightarrow>
      boundary now' runID ep phase st' = (out, st')"
    and boundary_stale: "\<not> fresh st runID ep phase \<Longrightarrow> snd (boundary now runID ep phase st) = st"
    and later_epoch_fresh: "inv st \<Longrightarrow> epochOf st < ep \<Longrightarrow> fresh st runID ep phase"
    and other_phase_fresh: "fresh st runID ep phase \<Longrightarrow> fresh st runID ep phase' \<Longrightarrow> phase \<noteq> phase' \<Longrightarrow>
      fresh (snd (boundary now runID ep phase st)) runID ep phase'"
    and observe_parts: "current (observe x st) = add x (current st)" "gens (observe x st) = gens st" "self (observe x st) = self st"
      "fresh (observe x st) runID ep phase = fresh st runID ep phase"
    and drain_parts: "current (snd (drain ctxErr h st)) = current st" "self (snd (drain ctxErr h st)) = self st"
      "fresh (snd (drain ctxErr h st)) runID ep phase = fresh st runID ep phase"
    and drain_gens: "gens (snd (drain ctxErr h st)) = gens st \<or>
      (\<exists>a. gens (snd (drain ctxErr h st)) = (gens st)[a := settle (gens st ! a)])"
    and drain_reads: "resolveToken (self st) (gens st) h = Some a \<Longrightarrow> \<not> released (gens st ! a) \<Longrightarrow>
      fst (drain None h st) = None \<and> collect h (snd (drain None h st)) = Inr (data (gens st ! a))"
    and release_parts: "current (release h st) = current st" "self (release h st) = self st"
      "fresh (release h st) runID ep phase = fresh st runID ep phase"
    and release_gens: "gens (release h st) =
      (case resolveToken (self st) (gens st) h of None \<Rightarrow> gens st | Some a \<Rightarrow> (gens st)[a := free (gens st ! a)])"
    and settled: "released (settle g) = released g" "\<not> released g \<Longrightarrow> data (settle g) = data g" "dropped g \<Longrightarrow> dropped (settle g)"
    and freed: "dropped (free g)"
    and dropped_refused: "resolveToken (self st) (gens st) h = Some a \<Longrightarrow> dropped (gens st ! a) \<Longrightarrow>
      (\<exists>e. collect h st = Inl e) \<and> release h st = st"
begin

lemma boundary_gens:
  "\<exists>gs. gens (snd (boundary now runID ep phase st)) = gens st @ gs \<and> self (snd (boundary now runID ep phase st)) = self st"
proof (cases "fresh st runID ep phase")
  case True
  obtain res err st' where b: "boundary now runID ep phase st = ((res, err), st')" by (metis surj_pair)
  show ?thesis using boundary_opens [OF True b] b by auto
qed (simp add: boundary_stale)

lemma drain_held:
  "heldIn released data (self (snd (drain ctxErr h' st))) (gens (snd (drain ctxErr h' st))) h = heldIn released data (self st) (gens st) h"
  using drain_gens [of ctxErr h' st] heldIn_modify [of released settle data, OF settled(1,2)] by (auto simp: drain_parts)

lemma drain_gone:
  "goneIn dropped (self st) (gens st) h \<Longrightarrow>
   goneIn dropped (self (snd (drain ctxErr h' st))) (gens (snd (drain ctxErr h' st))) h"
  using drain_gens [of ctxErr h' st] goneIn_modify [of dropped _ _ h settle, OF _ settled(3)] by (auto simp: drain_parts)

lemma release_held:
  "gh_token h' \<noteq> gh_token h \<Longrightarrow>
   heldIn released data (self (release h' st)) (gens (release h' st)) h = heldIn released data (self st) (gens st) h"
  by (auto simp: release_parts release_gens heldIn_elsewhere split: option.split)

lemma release_makes_gone:
  "heldIn released data (self st) (gens st) h = Some d \<Longrightarrow> goneIn dropped (self (release h st)) (gens (release h st)) h"
  by (auto simp: heldIn_Some release_parts release_gens intro!: goneIn_released freed)

lemma release_keeps_gone:
  "goneIn dropped (self st) (gens st) h \<Longrightarrow> goneIn dropped (self (release h' st)) (gens (release h' st)) h"
  using goneIn_modify [of dropped "self st" "gens st" h free, OF _ freed] by (auto simp: release_parts release_gens split: option.split)

lemma drain_then_collect:
  "heldIn released data (self st) (gens st) h = Some d \<Longrightarrow>
   fst (drain None h st) = None \<and> collect h (snd (drain None h st)) = Inr d"
  using drain_reads by (auto simp: heldIn_Some)

lemma gone_is_refused:
  "goneIn dropped (self st) (gens st) h \<Longrightarrow> (\<exists>e. collect h st = Inl e) \<and> release h st = st"
  using dropped_refused by (auto simp: goneIn_iff)

end

sublocale swap_collector \<subseteq> generation_collector inv fresh boundary observe drain collect release current
  "\<lambda>st h. heldIn released data (self st) (gens st) h" "\<lambda>st h. goneIn dropped (self st) (gens st) h" empty add render epochOf
proof unfold_locales
  fix st runID ep phase now res err st'
  assume i: "inv st" and f: "fresh st runID ep phase" and b: "boundary now runID ep phase st = ((res, err), st')"
  have "current st' = empty" using boundary_empties [OF i f, of now] b by simp
  then show "err = None \<and> br_Committed res \<and> current st' = empty \<and>
      heldIn released data (self st') (gens st') (br_Handle res) = Some (render (current st))"
    using boundary_opens [OF f b] by (auto simp: heldIn_new)
next
  fix st h d now runID ep phase
  obtain gs where gs: "gens (snd (boundary now runID ep phase st)) = gens st @ gs" "self (snd (boundary now runID ep phase st)) = self st"
    using boundary_gens by blast
  show "heldIn released data (self st) (gens st) h = Some d \<Longrightarrow>
      heldIn released data (self (snd (boundary now runID ep phase st))) (gens (snd (boundary now runID ep phase st))) h = Some d"
    "goneIn dropped (self st) (gens st) h \<Longrightarrow>
      goneIn dropped (self (snd (boundary now runID ep phase st))) (gens (snd (boundary now runID ep phase st))) h"
    by (simp_all add: gs heldIn_append goneIn_append)
qed (erule (2) boundary_repeats | erule (1) later_epoch_fresh | erule (2) other_phase_fresh |
    erule boundary_inv observe_inv drain_inv release_inv drain_then_collect release_makes_gone drain_gone release_keeps_gone gone_is_refused |
    rule observe_parts drain_parts release_parts drain_held | erule release_held | simp add: observe_parts)+

end
