(* ===== verification/Redis.thy ===== *)
theory Redis
  imports Agg Swap_Collector
begin

text \<open>
  \<open>redisstats/redisstats.go\<close> and \<open>redisstats/generation.go\<close>: latency of Redis commands, by the
  sanitized command token only, and the generation collector over that registry. The clock and
  \<open>ctx.Err\<close> are arguments, as for the counters.
\<close>

subsection \<open>The registry\<close>

definition DefaultMaxCommands :: int where "DefaultMaxCommands = 256"
definition MaxCommandBytes :: nat where "MaxCommandBytes = 64"
definition OverflowCommand :: string where "OverflowCommand = ''(other)''"

record redisEntry =
  re_Command :: string
  re_Count :: int
  re_ErrorCount :: int
  re_Total :: duration
  re_Avg :: duration
  re_Max :: duration
  re_P95 :: duration

record redisRegistry =
  rr_table :: Table
  rr_names :: "string list"
  rr_max :: int
  rr_dropped :: "64 word"

definition NewRedisRegistry :: "int \<Rightarrow> redisRegistry" where
  "NewRedisRegistry maxCommands =
     (let mx = (if maxCommands < 0 then DefaultMaxCommands else maxCommands)
      in \<lparr>rr_table = NewTable (wrap64 (mx + 1)), rr_names = [], rr_max = mx, rr_dropped = 0\<rparr>)"

definition commandByte :: "char \<Rightarrow> bool" where
  "commandByte c \<longleftrightarrow> (CHR ''A'' \<le> c \<and> c \<le> CHR ''Z'') \<or> (CHR ''0'' \<le> c \<and> c \<le> CHR ''9'') \<or>
     c = CHR ''.'' \<or> c = CHR ''_'' \<or> c = CHR ''-''"

definition sanitizeCommand :: "string \<Rightarrow> string \<times> bool" where
  "sanitizeCommand command =
     (case strings_Fields command of
        [] \<Rightarrow> ([], False)
      | f # _ \<Rightarrow>
          (let c = strings_ToUpper f
           in if length c > MaxCommandBytes then ([], False)
              else if list_all commandByte c then (c, True) else ([], False)))"

text \<open>The key an observation goes to, and the registry with the name entered or the drop counted.\<close>

definition redisKey :: "string \<Rightarrow> redisRegistry \<Rightarrow> string \<times> redisRegistry" where
  "redisKey command r =
     (case sanitizeCommand command of
        (name, safe) \<Rightarrow>
          (if \<not> safe then (OverflowCommand, r\<lparr>rr_dropped := rr_dropped r + 1\<rparr>)
           else if name \<notin> set (rr_names r) then
             (if int (length (rr_names r)) \<ge> rr_max r then (OverflowCommand, r\<lparr>rr_dropped := rr_dropped r + 1\<rparr>)
              else (name, r\<lparr>rr_names := rr_names r @ [name]\<rparr>))
           else (name, r)))"

definition ObserveRedis :: "string \<Rightarrow> duration \<Rightarrow> bool \<Rightarrow> redisRegistry \<Rightarrow> redisRegistry" where
  "ObserveRedis command d failed r =
     (case redisKey command r of (key, r') \<Rightarrow> r'\<lparr>rr_table := ObserveResult key d failed (rr_table r')\<rparr>)"

definition redisEntryOf :: "Entry \<Rightarrow> redisEntry" where
  "redisEntryOf v =
     \<lparr>re_Command = en_Key v, re_Count = en_Count v, re_ErrorCount = en_ErrorCount v, re_Total = en_Total v,
      re_Avg = en_Avg v, re_Max = en_Max v, re_P95 = en_P95 v\<rparr>"

definition redisOrder :: "redisEntry \<Rightarrow> int \<times> string" where
  "redisOrder e = (- re_Total e, re_Command e)"

definition entriesFromAgg :: "Entry list \<Rightarrow> redisEntry list" where
  "entriesFromAgg values = sort_key redisOrder (map redisEntryOf values)"

definition RedisSnapshot :: "redisRegistry \<Rightarrow> redisEntry list" where
  "RedisSnapshot r = entriesFromAgg (Table_Snapshot (rr_table r))"

definition RedisDropped :: "redisRegistry \<Rightarrow> 64 word" where
  "RedisDropped r = rr_dropped r"

definition rotateRedis :: "redisRegistry \<Rightarrow> (Table \<times> 64 word) \<times> redisRegistry" where
  "rotateRedis r =
     ((rr_table r, rr_dropped r), r\<lparr>rr_table := NewTable (wrap64 (rr_max r + 1)), rr_names := [], rr_dropped := 0\<rparr>)"

definition ResetRedis :: "redisRegistry \<Rightarrow> redisRegistry" where
  "ResetRedis r = snd (rotateRedis r)"

subsection \<open>The generation collector\<close>

definition RedisSection :: string where "RedisSection = ''redis''"
definition RedisForeignHandle :: gerr where
  "RedisForeignHandle = PlainErr ''redisstats: foreign generation handle''"
definition RedisNotDrained :: gerr where
  "RedisNotDrained = PlainErr ''redisstats: generation was not drained''"
definition RedisHandleReleased :: gerr where
  "RedisHandleReleased = PlainErr ''redisstats: generation handle was released''"

record redisFrozen =
  rf_Entries :: "redisEntry list"
  rf_Dropped :: "64 word"

definition zeroRedisFrozen :: redisFrozen where
  "zeroRedisFrozen = \<lparr>rf_Entries = [], rf_Dropped = 0\<rparr>"

record redisGeneration =
  rg_table :: "Table option"
  rg_dropped :: "64 word"
  rg_frozen :: redisFrozen
  rg_settled :: bool
  rg_released :: bool

record redisBoundaryKey =
  rk_runID :: string
  rk_epoch :: epoch
  rk_phase :: Phase

record redisCollector =
  rc_self :: string
  rc_registry :: redisRegistry
  rc_epoch :: epoch
  rc_gen :: nat
  rc_results :: "(redisBoundaryKey \<times> (BoundaryResult \<times> gerr option)) list"
  rc_gens :: "redisGeneration list"

definition NewRedisCollector :: "string \<Rightarrow> redisRegistry \<Rightarrow> redisCollector" where
  "NewRedisCollector self registry =
     \<lparr>rc_self = self, rc_registry = registry, rc_epoch = 0, rc_gen = 0, rc_results = [], rc_gens = []\<rparr>"

definition redisBoundaryFresh ::
  "gotime \<Rightarrow> string \<Rightarrow> epoch \<Rightarrow> Phase \<Rightarrow> redisCollector \<Rightarrow> BoundaryResult \<times> redisCollector" where
  "redisBoundaryFresh now runID ep phase c =
     (let c1 = (if ep > rc_epoch c then c\<lparr>rc_epoch := ep, rc_results := []\<rparr> else c);
          ((table, dropped), registry) = rotateRedis (rc_registry c1);
          g = \<lparr>rg_table = Some table, rg_dropped = dropped, rg_frozen = zeroRedisFrozen, rg_settled = False, rg_released = False\<rparr>;
          res = \<lparr>br_Handle = NewGenerationHandle runID ep RedisSection (rc_gen c1) (Token (rc_self c) (length (rc_gens c))),
                 br_At = now, br_Committed = True\<rparr>
      in (res, c1\<lparr>rc_registry := registry, rc_gen := (rc_gen c1 + 1) mod 2 ^ 64, rc_gens := rc_gens c1 @ [g],
                  rc_results := (\<lparr>rk_runID = runID, rk_epoch = ep, rk_phase = phase\<rparr>, (res, None)) # rc_results c1\<rparr>))"

definition redisBoundary ::
  "gotime \<Rightarrow> string \<Rightarrow> epoch \<Rightarrow> Phase \<Rightarrow> redisCollector \<Rightarrow> (BoundaryResult \<times> gerr option) \<times> redisCollector" where
  "redisBoundary now runID ep phase c =
     (if ep < rc_epoch c then ((zeroBoundaryResult\<lparr>br_At := now\<rparr>, Some ErrStaleEpoch), c)
      else (case map_of (rc_results c) \<lparr>rk_runID = runID, rk_epoch = ep, rk_phase = phase\<rparr> of
              Some prior \<Rightarrow> (prior, c)
            | None \<Rightarrow> (case redisBoundaryFresh now runID ep phase c of (res, c') \<Rightarrow> ((res, None), c'))))"

definition BeginRedisBoundary ::
  "gotime \<Rightarrow> string \<Rightarrow> epoch \<Rightarrow> redisCollector \<Rightarrow> (BoundaryResult \<times> gerr option) \<times> redisCollector" where
  "BeginRedisBoundary now runID ep = redisBoundary now runID ep PhaseStartBoundary"

definition FreezeRedis ::
  "gotime \<Rightarrow> string \<Rightarrow> epoch \<Rightarrow> redisCollector \<Rightarrow> (BoundaryResult \<times> gerr option) \<times> redisCollector" where
  "FreezeRedis now runID ep = redisBoundary now runID ep PhaseFinishFreeze"

definition redisResolve :: "redisCollector \<Rightarrow> GenerationHandle \<Rightarrow> gerr + nat" where
  "redisResolve c h =
     (case resolveToken (rc_self c) (rc_gens c) h of
        Some a \<Rightarrow> Inr a
      | None \<Rightarrow> Inl (WrapErr [] RedisForeignHandle ('': '' @ gh_Collector h)))"

definition redisFreeze :: "redisGeneration \<Rightarrow> redisGeneration" where
  "redisFreeze g = g\<lparr>rg_frozen := \<lparr>rf_Entries = entriesFromAgg (Table_Snapshot (the (rg_table g))), rf_Dropped = rg_dropped g\<rparr>,
                     rg_table := None, rg_settled := True\<rparr>"

definition redisDrain ::
  "gerr option \<Rightarrow> GenerationHandle \<Rightarrow> redisCollector \<Rightarrow> gerr option \<times> redisCollector" where
  "redisDrain ctxErr h c =
     (case redisResolve c h of
        Inl e \<Rightarrow> (Some e, c)
      | Inr a \<Rightarrow>
          (let g = rc_gens c ! a
           in if rg_settled g \<or> rg_released g then (None, c)
              else (case ctxErr of
                      Some e \<Rightarrow> (Some e, c)
                    | None \<Rightarrow> (None, c\<lparr>rc_gens := (rc_gens c)[a := redisFreeze g]\<rparr>))))"

definition redisCollect :: "GenerationHandle \<Rightarrow> redisCollector \<Rightarrow> gerr + redisFrozen" where
  "redisCollect h c =
     (case redisResolve c h of
        Inl e \<Rightarrow> Inl e
      | Inr a \<Rightarrow>
          (let g = rc_gens c ! a
           in if rg_released g then Inl RedisHandleReleased
              else if \<not> rg_settled g then Inl RedisNotDrained else Inr (rg_frozen g)))"

definition redisReleaseGen :: "redisGeneration \<Rightarrow> redisGeneration" where
  "redisReleaseGen g = g\<lparr>rg_table := None, rg_frozen := zeroRedisFrozen, rg_released := True\<rparr>"

definition redisRelease :: "GenerationHandle \<Rightarrow> redisCollector \<Rightarrow> redisCollector" where
  "redisRelease h c =
     (case redisResolve c h of
        Inl e \<Rightarrow> c
      | Inr a \<Rightarrow> c\<lparr>rc_gens := (rc_gens c)[a := redisReleaseGen (rc_gens c ! a)]\<rparr>)"

subsection \<open>Only sanitized commands are kept\<close>

definition safeCommand :: "string \<Rightarrow> bool" where
  "safeCommand name \<longleftrightarrow> length name \<le> MaxCommandBytes \<and> list_all commandByte name"

lemma sanitizeCommand_safe: "sanitizeCommand command = (name, True) \<Longrightarrow> safeCommand name"
  by (auto simp: sanitizeCommand_def safeCommand_def Let_def split: list.splits if_splits)

lemma Overflow_same: "OverflowCommand = OverflowKey"
  by (simp add: OverflowCommand_def OverflowKey_def)

lemma safe_not_overflow: "safeCommand name \<Longrightarrow> name \<noteq> OverflowKey"
  by (auto simp: safeCommand_def OverflowKey_def commandByte_def less_eq_char_def)

text \<open>The names are the keys with a row of their own, and there is always room for them.\<close>

definition redis_reg_inv :: "int \<Rightarrow> redisRegistry \<Rightarrow> bool" where
  "redis_reg_inv mx r \<longleftrightarrow> rr_max r = mx \<and> 0 \<le> mx \<and> mx < int64_max \<and> table_inv (rr_table r) \<and> t_maxKeys (rr_table r) = mx + 1 \<and>
     distinct (rr_names r) \<and> int (length (rr_names r)) \<le> mx \<and> tracked (rr_table r) = set (rr_names r) \<and>
     (\<forall>name \<in> set (rr_names r). safeCommand name)"

lemma redis_room:
  assumes "redis_reg_inv mx r"
  shows "admitsKey (rr_table r) k"
proof -
  have "t_keys (rr_table r) = int (length (rr_names r))"
    using assms by (auto simp: redis_reg_inv_def table_inv_def distinct_card)
  then show ?thesis using assms by (auto simp: redis_reg_inv_def admitsKey_def)
qed

lemma redis_reg_inv_observe:
  assumes "redis_reg_inv mx r"
  shows "redis_reg_inv mx (ObserveRedis command d failed r)"
proof -
  obtain name safe where s: "sanitizeCommand command = (name, safe)" by force
  have t: "table_inv (observeOne k (d, failed) (rr_table r))" "t_maxKeys (observeOne k (d, failed) (rr_table r)) = mx + 1"
    "tracked (observeOne k (d, failed) (rr_table r)) = (if k = OverflowKey then set (rr_names r) else insert k (set (rr_names r)))" for k
    using assms table_inv_observeOne observeOne_keys [of "rr_table r" k "(d, failed)"] redis_room [OF assms, of k]
    by (auto simp: redis_reg_inv_def)
  have o: "ObserveResult k d failed t' = observeOne k (d, failed) t'" for k t' by (simp add: observeOne_def)
  show ?thesis
    using assms t [of name] t [of OverflowKey] sanitizeCommand_safe [of command name] s safe_not_overflow [of name]
    by (auto simp: ObserveRedis_def redisKey_def redis_reg_inv_def Overflow_same o insert_absorb split: if_splits)
qed

abbreviation RedisAll :: "(string \<times> duration \<times> bool) list \<Rightarrow> redisRegistry \<Rightarrow> redisRegistry" where
  "RedisAll obs \<equiv> fold (\<lambda>(command, d, failed). ObserveRedis command d failed) obs"

lemma redis_reg_inv_all: "redis_reg_inv mx r \<Longrightarrow> redis_reg_inv mx (RedisAll obs r)"
  by (induction obs arbitrary: r) (auto intro: redis_reg_inv_observe)

lemma redis_reg_inv_new: "0 \<le> mx \<Longrightarrow> mx < int64_max \<Longrightarrow> redis_reg_inv mx (NewRedisRegistry mx)"
proof -
  assume a: "0 \<le> mx" "mx < int64_max"
  then have "wrap64 (mx + 1) = mx + 1" by (intro wrap64_id) (simp add: go_defs)
  moreover have "table_inv (NewTable (mx + 1))" using a by (intro table_inv_NewTable) simp_all
  moreover have "tracked (NewTable (mx + 1)) = {}" by (simp add: tracked_def)
  ultimately show ?thesis using a by (simp add: redis_reg_inv_def NewRedisRegistry_def) (simp add: NewTable_def)
qed

text \<open>Names enter only through \<open>sanitizeCommand\<close> of an observed command.\<close>

lemma redis_names_observe:
  "set (rr_names (ObserveRedis command d failed r)) \<subseteq> insert (fst (sanitizeCommand command)) (set (rr_names r))"
  by (auto simp: ObserveRedis_def redisKey_def split: prod.split if_splits)

lemma redis_names_all:
  "set (rr_names (RedisAll obs r)) \<subseteq> (\<lambda>ob. fst (sanitizeCommand (fst ob))) ` set obs \<union> set (rr_names r)"
proof (induction obs arbitrary: r)
  case (Cons ob obs)
  show ?case
    using Cons [of "ObserveRedis (fst ob) (fst (snd ob)) (snd (snd ob)) r"]
      redis_names_observe [of "fst ob" "fst (snd ob)" "snd (snd ob)" r]
    by (auto simp: case_prod_unfold)
qed simp

text \<open>
  The registry never retains arguments: after any sequence of observations every row other than
  \<open>(other)\<close> is keyed by the sanitized first token of an observed command, at most 64 bytes of upper-case
  letters, digits, dots, underscores and hyphens, and there are at most \<open>maxCommands\<close> such rows.
\<close>

lemma redis_keeps_only_commands:
  assumes "0 \<le> mx" and "mx < int64_max" and "r = RedisAll obs (NewRedisRegistry mx)"
  shows "(\<forall>key. lookupKey (rr_table r) key \<noteq> None \<and> key \<noteq> OverflowCommand \<longrightarrow>
           length key \<le> MaxCommandBytes \<and> list_all commandByte key \<and>
           (\<exists>ob \<in> set obs. key = fst (sanitizeCommand (fst ob)))) \<and>
         int (card {key. key \<noteq> OverflowCommand \<and> lookupKey (rr_table r) key \<noteq> None}) \<le> mx"
proof -
  have i: "redis_reg_inv mx r" unfolding assms(3) using assms(1,2) by (intro redis_reg_inv_all redis_reg_inv_new)
  have "set (rr_names r) \<subseteq> (\<lambda>ob. fst (sanitizeCommand (fst ob))) ` set obs"
    using redis_names_all [of obs "NewRedisRegistry mx"] assms(3) by (simp add: NewRedisRegistry_def Let_def)
  moreover have "{key. key \<noteq> OverflowCommand \<and> lookupKey (rr_table r) key \<noteq> None} = set (rr_names r)"
    using i by (simp add: redis_reg_inv_def tracked_def Overflow_same)
  ultimately show ?thesis
    using i by (auto simp: redis_reg_inv_def safeCommand_def distinct_card)
qed

definition exampleCommands :: "(string \<times> duration \<times> bool) list" where
  "exampleCommands = [(''get private-key'', 5, False), (''GET other'', 7, True)]"

subsection \<open>The collector honours the contract\<close>

definition redis_inv :: "int \<Rightarrow> redisCollector \<Rightarrow> bool" where
  "redis_inv mx c \<longleftrightarrow> rr_max (rc_registry c) = mx \<and> (\<forall>k \<in> fst ` set (rc_results c). rk_epoch k = rc_epoch c)"

definition redisFresh :: "redisCollector \<Rightarrow> string \<Rightarrow> epoch \<Rightarrow> Phase \<Rightarrow> bool" where
  "redisFresh c runID ep phase \<longleftrightarrow> rc_epoch c \<le> ep \<and>
     map_of (rc_results c) \<lparr>rk_runID = runID, rk_epoch = ep, rk_phase = phase\<rparr> = None"

definition emptyRedis :: "int \<Rightarrow> redisRegistry" where
  "emptyRedis mx = \<lparr>rr_table = NewTable (wrap64 (mx + 1)), rr_names = [], rr_max = mx, rr_dropped = 0\<rparr>"

definition renderRedis :: "redisRegistry \<Rightarrow> redisFrozen" where
  "renderRedis r = \<lparr>rf_Entries = RedisSnapshot r, rf_Dropped = rr_dropped r\<rparr>"

definition redisData :: "redisGeneration \<Rightarrow> redisFrozen" where
  "redisData g = (if rg_settled g then rg_frozen g
     else \<lparr>rf_Entries = entriesFromAgg (Table_Snapshot (the (rg_table g))), rf_Dropped = rg_dropped g\<rparr>)"

text \<open>A released generation has dropped its data.\<close>

definition redisDropped :: "redisGeneration \<Rightarrow> bool" where
  "redisDropped g \<longleftrightarrow> rg_released g \<and> rg_table g = None \<and> rg_frozen g = zeroRedisFrozen"

definition redisCount :: "string \<times> duration \<times> bool \<Rightarrow> redisCollector \<Rightarrow> redisCollector" where
  "redisCount x c = c\<lparr>rc_registry := (case x of (command, d, failed) \<Rightarrow> ObserveRedis command d failed (rc_registry c))\<rparr>"

definition redisAdd :: "string \<times> duration \<times> bool \<Rightarrow> redisRegistry \<Rightarrow> redisRegistry" where
  "redisAdd x r = (case x of (command, d, failed) \<Rightarrow> ObserveRedis command d failed r)"

definition redisSettle :: "redisGeneration \<Rightarrow> redisGeneration" where
  "redisSettle g = (if rg_settled g \<or> rg_released g then g else redisFreeze g)"

lemma ObserveRedis_max: "rr_max (ObserveRedis command d failed r) = rr_max r"
  by (simp add: ObserveRedis_def redisKey_def split: prod.split)

lemma redisResolve_Inr: "redisResolve c h = Inr a \<longleftrightarrow> resolveToken (rc_self c) (rc_gens c) h = Some a"
  by (auto simp: redisResolve_def split: option.split)

lemma redisDrain_state:
  "snd (redisDrain ctxErr h c) = c \<or>
   (\<exists>a. snd (redisDrain ctxErr h c) = c\<lparr>rc_gens := (rc_gens c)[a := redisSettle (rc_gens c ! a)]\<rparr>)"
  by (auto simp: redisDrain_def redisSettle_def Let_def split: sum.split option.split)

lemma redisSettle_facts:
  "rg_released (redisSettle g) = rg_released g" "\<not> rg_released g \<Longrightarrow> redisData (redisSettle g) = redisData g"
  "redisDropped g \<Longrightarrow> redisDropped (redisSettle g)"
  by (auto simp: redisSettle_def redisData_def redisFreeze_def redisDropped_def)

lemma redisRelease_facts: "rg_released (redisReleaseGen g)" "redisDropped (redisReleaseGen g)"
  "redisDropped g \<Longrightarrow> redisReleaseGen g = g"
  by (auto simp: redisReleaseGen_def redisDropped_def)

lemma redisBoundary_fresh:
  "redisFresh c runID ep phase \<Longrightarrow>
   redisBoundary now runID ep phase c = (case redisBoundaryFresh now runID ep phase c of (res, c') \<Rightarrow> ((res, None), c'))"
  by (simp add: redisBoundary_def redisFresh_def)

lemma redisBoundary_same: "\<not> redisFresh c runID ep phase \<Longrightarrow> snd (redisBoundary now runID ep phase c) = c"
  by (auto simp: redisBoundary_def redisFresh_def split: option.split)

lemma redisBoundaryFresh_facts:
  assumes "redisBoundaryFresh now runID ep phase c = (res, c')"
  shows "rc_self c' = rc_self c \<and>
    (\<exists>g. rc_gens c' = rc_gens c @ [g] \<and> \<not> rg_released g \<and> redisData g = renderRedis (rc_registry c)) \<and>
    rc_registry c' = emptyRedis (rr_max (rc_registry c)) \<and>
    gh_token (br_Handle res) = Token (rc_self c) (length (rc_gens c)) \<and> br_Committed res \<and>
    rc_epoch c' = max (rc_epoch c) ep \<and>
    rc_results c' = (\<lparr>rk_runID = runID, rk_epoch = ep, rk_phase = phase\<rparr>, (res, None)) #
      (if ep > rc_epoch c then [] else rc_results c)"
  using assms
  by (auto simp: redisBoundaryFresh_def Let_def rotateRedis_def emptyRedis_def NewGenerationHandle_def redisData_def
      renderRedis_def RedisSnapshot_def split: if_splits)

lemma redis_inv_boundary: "redis_inv mx c \<Longrightarrow> redis_inv mx (snd (redisBoundary now runID ep phase c))"
proof (cases "redisFresh c runID ep phase")
  case True
  obtain res c' where f: "redisBoundaryFresh now runID ep phase c = (res, c')" by force
  assume "redis_inv mx c"
  with redisBoundaryFresh_facts [OF f] True show ?thesis
    by (auto simp: redisBoundary_fresh [OF True] f redis_inv_def emptyRedis_def redisFresh_def)
qed (simp add: redisBoundary_same)

lemma redisDrain_reads:
  assumes "resolveToken (rc_self c) (rc_gens c) h = Some a" and "\<not> rg_released (rc_gens c ! a)"
  shows "fst (redisDrain None h c) = None \<and> redisCollect h (snd (redisDrain None h c)) = Inr (redisData (rc_gens c ! a))"
proof -
  have "a < length (rc_gens c)" using assms(1) by (simp add: resolveToken_Some)
  with assms show ?thesis
    by (cases "rg_settled (rc_gens c ! a)")
      (auto simp: redisDrain_def redisCollect_def redisResolve_def Let_def redisData_def redisFreeze_def)
qed

interpretation rcol: swap_collector "redis_inv mx" redisFresh redisBoundary redisCount redisDrain redisCollect redisRelease
  rc_registry "emptyRedis mx" redisAdd renderRedis rc_epoch rc_self rc_gens rg_released redisData redisDropped redisSettle redisReleaseGen for mx
proof unfold_locales
  fix c runID ep phase now res err c'
  assume f: "redisFresh c runID ep phase" and b: "redisBoundary now runID ep phase c = ((res, err), c')"
  then have "redisBoundaryFresh now runID ep phase c = (res, c')" "err = None"
    by (auto simp: redisBoundary_fresh split: prod.splits)
  with redisBoundaryFresh_facts [OF this(1)]
  show "err = None \<and> br_Committed res \<and> gh_token (br_Handle res) = Token (rc_self c) (length (rc_gens c)) \<and> rc_self c' = rc_self c \<and>
      (\<exists>g. rc_gens c' = rc_gens c @ [g] \<and> \<not> rg_released g \<and> redisData g = renderRedis (rc_registry c))"
    by blast
next
  fix c runID ep phase now
  assume "redis_inv mx c" and f: "redisFresh c runID ep phase"
  obtain res c' where r: "redisBoundaryFresh now runID ep phase c = (res, c')" by force
  with \<open>redis_inv mx c\<close> redisBoundaryFresh_facts [OF r] f
  show "rc_registry (snd (redisBoundary now runID ep phase c)) = emptyRedis mx"
    by (simp add: redisBoundary_fresh redis_inv_def)
next
  fix c runID ep phase now now' out c'
  assume f: "redisFresh c runID ep phase" and b: "redisBoundary now runID ep phase c = (out, c')"
  then obtain res where r: "redisBoundaryFresh now runID ep phase c = (res, c')" "out = (res, None)"
    by (auto simp: redisBoundary_fresh split: prod.splits)
  with redisBoundaryFresh_facts [OF r(1)] f show "redisBoundary now' runID ep phase c' = (out, c')"
    by (simp add: redisBoundary_def redisFresh_def)
next
  fix c runID ep phase phase' now
  assume f: "redisFresh c runID ep phase" "redisFresh c runID ep phase'" "phase \<noteq> phase'"
  obtain res c' where r: "redisBoundaryFresh now runID ep phase c = (res, c')" by force
  show "redisFresh (snd (redisBoundary now runID ep phase c)) runID ep phase'"
    using redisBoundaryFresh_facts [OF r] f by (auto simp: redisBoundary_fresh [OF f(1)] r redisFresh_def)
next
  fix c runID ep phase assume "redis_inv mx c" "rc_epoch c < ep"
  then show "redisFresh c runID ep phase"
    by (fastforce simp: redis_inv_def redisFresh_def map_of_eq_None_iff)
next
  fix c x runID ep phase
  show "redis_inv mx c \<Longrightarrow> redis_inv mx (redisCount x c)" "rc_registry (redisCount x c) = redisAdd x (rc_registry c)"
    "rc_gens (redisCount x c) = rc_gens c" "rc_self (redisCount x c) = rc_self c"
    "redisFresh (redisCount x c) runID ep phase = redisFresh c runID ep phase"
    by (simp_all add: redisCount_def redisAdd_def redis_inv_def redisFresh_def ObserveRedis_max split: prod.split)
next
  fix c ctxErr h runID ep phase
  note d = redisDrain_state [of ctxErr h c]
  show "redis_inv mx c \<Longrightarrow> redis_inv mx (snd (redisDrain ctxErr h c))"
    using d by (elim disjE exE; simp add: redis_inv_def)+
  show "rc_registry (snd (redisDrain ctxErr h c)) = rc_registry c" "rc_self (snd (redisDrain ctxErr h c)) = rc_self c"
    "redisFresh (snd (redisDrain ctxErr h c)) runID ep phase = redisFresh c runID ep phase"
    "rc_gens (snd (redisDrain ctxErr h c)) = rc_gens c \<or> (\<exists>a. rc_gens (snd (redisDrain ctxErr h c)) = (rc_gens c)[a := redisSettle (rc_gens c ! a)])"
    using d by (auto simp: redisFresh_def)
next
  fix c h runID ep phase
  show "redis_inv mx c \<Longrightarrow> redis_inv mx (redisRelease h c)" "rc_registry (redisRelease h c) = rc_registry c"
    "rc_self (redisRelease h c) = rc_self c" "redisFresh (redisRelease h c) runID ep phase = redisFresh c runID ep phase"
    "rc_gens (redisRelease h c) = (case resolveToken (rc_self c) (rc_gens c) h of None \<Rightarrow> rc_gens c
      | Some a \<Rightarrow> (rc_gens c)[a := redisReleaseGen (rc_gens c ! a)])"
    by (auto simp: redisRelease_def redisResolve_def redis_inv_def redisFresh_def split: option.split)
next
  fix c :: redisCollector and h a assume "resolveToken (rc_self c) (rc_gens c) h = Some a" "redisDropped (rc_gens c ! a)"
  then show "(\<exists>e. redisCollect h c = Inl e) \<and> redisRelease h c = c"
    by (auto simp: redisCollect_def redisRelease_def redisResolve_def redisRelease_facts redisDropped_def)
qed (simp_all add: redis_inv_boundary redisBoundary_same redisDrain_reads redisSettle_facts redisRelease_facts)

subsection \<open>The section of a run\<close>

fun redisExec :: "(string \<times> duration \<times> bool) collectorOp \<Rightarrow> redisCollector \<Rightarrow> redisCollector" where
  "redisExec (OpObserve x) c = redisCount x c"
| "redisExec (OpBoundary now runID ep phase) c = snd (redisBoundary now runID ep phase c)"
| "redisExec (OpDrain ctxErr h) c = snd (redisDrain ctxErr h c)"
| "redisExec (OpRelease h) c = redisRelease h c"

lemma redisExec_eq: "redisExec = rcol.exec"
proof (intro ext)
  fix op c show "redisExec op c = rcol.exec op c" by (cases op) simp_all
qed

lemma redisAdd_eq: "fold redisAdd xs = RedisAll xs"
  by (simp add: redisAdd_def [abs_def] case_prod_unfold)

lemma redis_inv_new: "0 \<le> mx \<Longrightarrow> redis_inv mx (NewRedisCollector self (NewRedisRegistry mx))"
  by (simp add: redis_inv_def NewRedisCollector_def NewRedisRegistry_def)

lemma emptyRedis_new: "0 \<le> mx \<Longrightarrow> emptyRedis mx = NewRedisRegistry mx"
  by (simp add: emptyRedis_def NewRedisRegistry_def)

text \<open>
  The redis section of a run is the command table of the run and nothing else: start from a
  collector over a new registry, let anything happen to it, then take the opening boundary of a run
  with a new epoch, observe commands, and take its closing boundary. Both commit, and whatever happens
  afterwards short of releasing the handle, draining and collecting it returns the ordered entries
  and the drop count of exactly the observations made in between.
\<close>

lemma redis_section_is_run_interval:
  assumes "0 \<le> mx" and "c = fold redisExec before (NewRedisCollector self (NewRedisRegistry mx))"
    and "rc_epoch c < ep" and "BeginRedisBoundary now runID ep c = (out, c1)"
    and "\<forall>op \<in> set during. \<not> isBoundary op"
    and "FreezeRedis now' runID ep (fold redisExec during c1) = ((res, err), c2)"
    and "\<forall>op \<in> set after. \<not> releases (br_Handle res) op"
    and "r = RedisAll (observations during) (NewRedisRegistry mx)"
  shows "err = None \<and> br_Committed res \<and>
    fst (redisDrain None (br_Handle res) (fold redisExec after c2)) = None \<and>
    redisCollect (br_Handle res) (snd (redisDrain None (br_Handle res) (fold redisExec after c2))) =
      Inr \<lparr>rf_Entries = RedisSnapshot r, rf_Dropped = RedisDropped r\<rparr>"
proof -
  note ex = redisExec_eq
  have i: "redis_inv mx c" using rcol.inv_run redis_inv_new [OF assms(1)] assms(2) by (simp add: ex)
  have b: "redisBoundary now runID ep PhaseStartBoundary c = (out, c1)"
    and f: "redisBoundary now' runID ep PhaseFinishFreeze (fold (rcol.exec) during c1) = ((res, err), c2)"
    using assms(4,6) by (simp_all add: BeginRedisBoundary_def FreezeRedis_def ex)
  show ?thesis
    using rcol.run_section [OF i assms(3) b assms(5) f assms(7)] assms(1,8)
    by (simp add: ex redisAdd_eq emptyRedis_new renderRedis_def RedisDropped_def)
qed

definition exampleRedis :: redisCollector where
  "exampleRedis = NewRedisCollector ''redis#1'' (NewRedisRegistry 4)"

definition exampleRedisClosed :: "(BoundaryResult \<times> gerr option) \<times> redisCollector" where
  "exampleRedisClosed = FreezeRedis 2 ''r1'' 1
     (fold redisExec (map OpObserve exampleCommands) (snd (BeginRedisBoundary 1 ''r1'' 1 exampleRedis)))"

lemma exampleRedis_ready: "rc_epoch exampleRedis < 1" "observations (map OpObserve exampleCommands) = exampleCommands"
  by (simp_all add: exampleRedis_def NewRedisCollector_def exampleCommands_def)

end
