(* ===== verification/Sql_Store.thy ===== *)
theory Sql_Store
  imports Agg Generation Handles
begin

text \<open>
  \<open>sqlstats/store.go\<close> and \<open>sqlstats/generation.go\<close>: the generation-scoped table of SQL results and the
  collector over it. A query is attached to the generation in which it started, through a lease, and
  its result is written there however late it ends; a boundary only moves a pointer and the waiting is
  left to \<open>Drain\<close>.

  Measurements are kept in the order in which they began; a pointer to one is its index, and an index
  that names none is the nil pointer. Every \<open>begin\<close> takes one lease, so measurement \<open>k\<close> holds lease
  \<open>k\<close>. Observers are named by a number; what they are told is logged in \<open>ss_events\<close>, and the result of
  \<open>SQLStart\<close> (a token, or nothing when it panicked) and the clock are arguments. The body of a
  measurement's \<open>sync.Once\<close> runs as one step: until it has released the lease, its generation cannot
  settle.
\<close>

subsection \<open>The store\<close>

datatype sqlEvent =
    SQLStart nat gotime
  | SQLFinish nat gotime anyval string duration bool
  | SQLCancel nat gotime anyval

record measurement =
  ms_lease :: nat
  ms_observer :: "(nat \<times> anyval) option"
  ms_once :: bool

record Store =
  ss_manager :: "Table Manager"
  ss_observer :: "nat option"
  ss_maxKeys :: int
  ss_measurements :: "measurement list"
  ss_events :: "sqlEvent list"

record sqlFrozen =
  qf_Generation :: int
  qf_Entries :: "Entry list"
  qf_CutShort :: bool

definition RotateDrainBudget :: duration where
  "RotateDrainBudget = DefaultCompatWait"

definition NewStore :: "int \<Rightarrow> Store" where
  "NewStore maxKeys =
     \<lparr>ss_manager = New_gen (NewTable maxKeys), ss_observer = None, ss_maxKeys = maxKeys, ss_measurements = [], ss_events = []\<rparr>"

abbreviation sqlFactory :: "Store \<Rightarrow> Table" where
  "sqlFactory s \<equiv> NewTable (ss_maxKeys s)"

definition begin_sql :: "gotime \<Rightarrow> anyval option \<Rightarrow> Store \<Rightarrow> nat \<times> Store" where
  "begin_sql now started s =
     (let (lease, m) = Acquire (ss_manager s);
          s1 = s\<lparr>ss_manager := m\<rparr>;
          k = length (ss_measurements s)
      in case ss_observer s of
           None \<Rightarrow> (k, s1\<lparr>ss_measurements := ss_measurements s @ [\<lparr>ms_lease = lease, ms_observer = None, ms_once = False\<rparr>]\<rparr>)
         | Some obs \<Rightarrow>
             (k, s1\<lparr>ss_events := ss_events s @ [SQLStart obs now],
                    ss_measurements := ss_measurements s @
                      [\<lparr>ms_lease = lease, ms_observer = map_option (Pair obs) started, ms_once = False\<rparr>]\<rparr>))"

definition finishEvent :: "gotime \<Rightarrow> measurement \<Rightarrow> string \<Rightarrow> duration \<Rightarrow> bool \<Rightarrow> sqlEvent list" where
  "finishEvent at m query d failed =
     (case ms_observer m of None \<Rightarrow> [] | Some (obs, token) \<Rightarrow> [SQLFinish obs at token query d failed])"

definition onceDone :: "nat \<Rightarrow> Store \<Rightarrow> Store" where
  "onceDone k s = s\<lparr>ss_measurements := (ss_measurements s)[k := (ss_measurements s ! k)\<lparr>ms_once := True\<rparr>]\<rparr>"

definition finish_sql :: "gotime \<Rightarrow> nat \<Rightarrow> string \<Rightarrow> duration \<Rightarrow> bool \<Rightarrow> Store \<Rightarrow> Store" where
  "finish_sql now k query d failed s =
     (if k \<ge> length (ss_measurements s) then s
      else
        (let m = ss_measurements s ! k
         in if ms_once m then s
            else (onceDone k s)\<lparr>
              ss_manager := Lease_Done (Lease_Update (ss_manager s) (ms_lease m) (ObserveResult query d failed)) (ms_lease m),
              ss_events := ss_events s @ finishEvent now m query d failed\<rparr>))"

definition discard_sql :: "gotime \<Rightarrow> nat \<Rightarrow> Store \<Rightarrow> Store" where
  "discard_sql now k s =
     (if k \<ge> length (ss_measurements s) then s
      else
        (let m = ss_measurements s ! k
         in if ms_once m then s
            else (onceDone k s)\<lparr>
              ss_manager := Lease_Done (ss_manager s) (ms_lease m),
              ss_events := ss_events s @ (case ms_observer m of None \<Rightarrow> [] | Some (obs, token) \<Rightarrow> [SQLCancel obs now token])\<rparr>))"

definition SetEventObserver :: "nat option \<Rightarrow> Store \<Rightarrow> Store" where
  "SetEventObserver observer s = s\<lparr>ss_observer := observer\<rparr>"

definition ObserveResult_sql :: "gotime \<Rightarrow> anyval option \<Rightarrow> string \<Rightarrow> duration \<Rightarrow> bool \<Rightarrow> Store \<Rightarrow> Store" where
  "ObserveResult_sql now started query d failed s =
     (case begin_sql now started s of (k, s') \<Rightarrow> finish_sql now k query d failed s')"

definition Observe_sql :: "gotime \<Rightarrow> anyval option \<Rightarrow> string \<Rightarrow> duration \<Rightarrow> Store \<Rightarrow> Store" where
  "Observe_sql now started query d s = ObserveResult_sql now started query d False s"

definition Snapshot_sql :: "Store \<Rightarrow> Entry list" where
  "Snapshot_sql s = fz_Value (Snapshot_gen Table_Snapshot (ss_manager s))"

definition CurrentGeneration_sql :: "Store \<Rightarrow> int" where
  "CurrentGeneration_sql s = CurrentGeneration (ss_manager s)"

definition frozenOf :: "Entry list Frozen \<Rightarrow> sqlFrozen" where
  "frozenOf f = \<lparr>qf_Generation = fz_Generation f, qf_Entries = fz_Value f, qf_CutShort = fz_CutShort f\<rparr>"

text \<open>\<open>between\<close> is what other goroutines do to the generations while the rotation waits.\<close>

definition RotateContext :: "(Table Manager \<Rightarrow> Table Manager) \<Rightarrow> Store \<Rightarrow> sqlFrozen \<times> Store" where
  "RotateContext between s =
     (case SwapAndSnapshotContext (sqlFactory s) Table_Snapshot between (ss_manager s) of
        (frozen, m) \<Rightarrow> (frozenOf frozen, s\<lparr>ss_manager := m\<rparr>))"

definition Rotate_sql :: "(Table Manager \<Rightarrow> Table Manager) \<Rightarrow> Store \<Rightarrow> sqlFrozen \<times> Store" where
  "Rotate_sql between s = RotateContext between s"

definition SetRotateDrainBudget :: "duration \<Rightarrow> Store \<Rightarrow> Store" where
  "SetRotateDrainBudget budget s = s\<lparr>ss_manager := SetCompatWait (ss_manager s) budget\<rparr>"

definition Reset_sql :: "(Table Manager \<Rightarrow> Table Manager) \<Rightarrow> Store \<Rightarrow> Store" where
  "Reset_sql between s = snd (Rotate_sql between s)"

subsection \<open>The generation collector\<close>

definition SqlSection :: string where "SqlSection = ''sql''"
definition SqlForeignHandle :: gerr where
  "SqlForeignHandle = PlainErr ''sqlstats: generation handle belongs to another collector''"
definition SqlHandleReleased :: gerr where
  "SqlHandleReleased = PlainErr ''sqlstats: generation handle was released''"
definition SqlNotDrained :: gerr where
  "SqlNotDrained = PlainErr ''sqlstats: generation was not drained''"

definition zeroSqlFrozen :: sqlFrozen where
  "zeroSqlFrozen = \<lparr>qf_Generation = 0, qf_Entries = [], qf_CutShort = False\<rparr>"

record sqlBoundaryKey =
  sk_runID :: string
  sk_epoch :: epoch
  sk_phase :: Phase

record sqlGeneration =
  sg_gen :: nat
  sg_sealed :: nat
  sg_frozen :: sqlFrozen
  sg_settled :: bool
  sg_released :: bool

record sqlCollector =
  qc_self :: string
  qc_store :: Store
  qc_epoch :: epoch
  qc_results :: "(sqlBoundaryKey \<times> (BoundaryResult \<times> gerr option)) list"
  qc_gens :: "sqlGeneration list"

definition NewSqlCollector :: "string \<Rightarrow> Store \<Rightarrow> sqlCollector" where
  "NewSqlCollector self store = \<lparr>qc_self = self, qc_store = store, qc_epoch = 0, qc_results = [], qc_gens = []\<rparr>"

definition sqlBoundaryFresh ::
  "gotime \<Rightarrow> string \<Rightarrow> epoch \<Rightarrow> Phase \<Rightarrow> sqlCollector \<Rightarrow> BoundaryResult \<times> sqlCollector" where
  "sqlBoundaryFresh now runID ep phase c =
     (let c1 = (if ep > qc_epoch c then c\<lparr>qc_epoch := ep, qc_results := []\<rparr> else c);
          (i, m) = Swap (sqlFactory (qc_store c)) (ss_manager (qc_store c));
          gen = nat (Sealed_Generation m i mod 2 ^ 64);
          g = \<lparr>sg_gen = gen, sg_sealed = i, sg_frozen = zeroSqlFrozen, sg_settled = False, sg_released = False\<rparr>;
          res = \<lparr>br_Handle = NewGenerationHandle runID ep SqlSection gen (Token (qc_self c) (length (qc_gens c))),
                 br_At = now, br_Committed = True\<rparr>
      in (res, c1\<lparr>qc_store := (qc_store c)\<lparr>ss_manager := m\<rparr>, qc_gens := qc_gens c @ [g],
                  qc_results := (\<lparr>sk_runID = runID, sk_epoch = ep, sk_phase = phase\<rparr>, (res, None)) # qc_results c1\<rparr>))"

definition sqlBoundary ::
  "gotime \<Rightarrow> gerr option \<Rightarrow> string \<Rightarrow> epoch \<Rightarrow> Phase \<Rightarrow> sqlCollector \<Rightarrow> (BoundaryResult \<times> gerr option) \<times> sqlCollector" where
  "sqlBoundary now ctxErr runID ep phase c =
     (if ep < qc_epoch c then
        ((zeroBoundaryResult\<lparr>br_At := now\<rparr>, Some (WrapErr [] ErrStaleEpoch
           ('': '' @ SqlSection @ '' is at epoch '' @ show_nat (qc_epoch c) @ '', got '' @ show_nat ep))), c)
      else (case map_of (qc_results c) \<lparr>sk_runID = runID, sk_epoch = ep, sk_phase = phase\<rparr> of
              Some prev \<Rightarrow> (prev, c)
            | None \<Rightarrow>
                (case ctxErr of
                   Some e \<Rightarrow> ((zeroBoundaryResult\<lparr>br_At := now\<rparr>, Some (WrapErr (''sqlstats: boundary for run '' @ runID @ '': '') e [])), c)
                 | None \<Rightarrow> (case sqlBoundaryFresh now runID ep phase c of (res, c') \<Rightarrow> ((res, None), c')))))"

definition BeginSqlBoundary ::
  "gotime \<Rightarrow> gerr option \<Rightarrow> string \<Rightarrow> epoch \<Rightarrow> sqlCollector \<Rightarrow> (BoundaryResult \<times> gerr option) \<times> sqlCollector" where
  "BeginSqlBoundary now ctxErr runID ep = sqlBoundary now ctxErr runID ep PhaseStartBoundary"

definition FreezeSql ::
  "gotime \<Rightarrow> gerr option \<Rightarrow> string \<Rightarrow> epoch \<Rightarrow> sqlCollector \<Rightarrow> (BoundaryResult \<times> gerr option) \<times> sqlCollector" where
  "FreezeSql now ctxErr runID ep = sqlBoundary now ctxErr runID ep PhaseFinishFreeze"

definition sqlGenerationFor :: "sqlCollector \<Rightarrow> GenerationHandle \<Rightarrow> gerr + nat" where
  "sqlGenerationFor c h =
     (case resolveToken (qc_self c) (qc_gens c) h of
        Some a \<Rightarrow> Inr a
      | None \<Rightarrow> Inl (WrapErr [] SqlForeignHandle
             ('': collector '' @ strconv_Quote (gh_Collector h) @ '' generation '' @ show_nat (gh_Gen h))))"

definition sqlFreeze :: "Table Manager \<Rightarrow> sqlGeneration \<Rightarrow> sqlGeneration" where
  "sqlFreeze m g =
     (if sg_settled g \<or> sg_released g then g
      else g\<lparr>sg_frozen := frozenOf (Freeze Table_Snapshot m (sg_sealed g)), sg_settled := True\<rparr>)"

text \<open>
  \<open>Drain\<close> as seen when its wait wakes. The result is \<open>None\<close> while the call has not returned: the
  generation is not settled and the context, if any, is still live. \<open>lost\<close> says that the generation was
  not settled when the call was made and \<open>select\<close> picked the cancelled context although it is now.
\<close>

definition sqlDrain ::
  "gerr option \<Rightarrow> bool \<Rightarrow> GenerationHandle \<Rightarrow> sqlCollector \<Rightarrow> gerr option option \<times> sqlCollector" where
  "sqlDrain ctxErr lost h c =
     (case sqlGenerationFor c h of
        Inl e \<Rightarrow> (Some (Some e), c)
      | Inr a \<Rightarrow>
          (let g = qc_gens c ! a; m = ss_manager (qc_store c);
               drained = (Some None, c\<lparr>qc_gens := (qc_gens c)[a := sqlFreeze m g]\<rparr>)
           in case ctxErr of
                None \<Rightarrow> if Settled m (sg_sealed g) then drained else (None, c)
              | Some e \<Rightarrow>
                  if Settled m (sg_sealed g) \<and> \<not> lost then drained
                  else (Some (Some (WrapErr (''sqlstats: generation '' @ show_nat (sg_gen g) @ '' did not settle: '') e [])), c)))"

definition sqlCollect :: "GenerationHandle \<Rightarrow> sqlCollector \<Rightarrow> gerr + sqlFrozen" where
  "sqlCollect h c =
     (case sqlGenerationFor c h of
        Inl e \<Rightarrow> Inl e
      | Inr a \<Rightarrow>
          (let g = qc_gens c ! a
           in if sg_released g then Inl (WrapErr [] SqlHandleReleased ('': generation '' @ show_nat (sg_gen g)))
              else if \<not> sg_settled g then Inl (WrapErr [] SqlNotDrained ('': generation '' @ show_nat (sg_gen g)))
              else Inr (sg_frozen g)))"

definition sqlRelease :: "GenerationHandle \<Rightarrow> sqlCollector \<Rightarrow> sqlCollector" where
  "sqlRelease h c =
     (case sqlGenerationFor c h of
        Inl e \<Rightarrow> c
      | Inr a \<Rightarrow>
          (let g = qc_gens c ! a
           in if sg_released g then c
              else c\<lparr>qc_gens := (qc_gens c)[a := g\<lparr>sg_released := True, sg_frozen := zeroSqlFrozen\<rparr>]\<rparr>))"

subsection \<open>Executions\<close>

datatype sqlOp =
    SqlBegin gotime "anyval option"
  | SqlFinish gotime nat string duration bool
  | SqlDiscard gotime nat
  | SqlObserver "nat option"
  | SqlBudget duration
  | SqlRotate
  | SqlBoundary gotime "gerr option" string epoch Phase
  | SqlDrain "gerr option" bool GenerationHandle
  | SqlRelease GenerationHandle

abbreviation onStore :: "(Store \<Rightarrow> Store) \<Rightarrow> sqlCollector \<Rightarrow> sqlCollector" where
  "onStore f c \<equiv> c\<lparr>qc_store := f (qc_store c)\<rparr>"

fun sqlExec :: "sqlOp \<Rightarrow> sqlCollector \<Rightarrow> sqlCollector" where
  "sqlExec (SqlBegin now started) c = onStore (\<lambda>s. snd (begin_sql now started s)) c"
| "sqlExec (SqlFinish now k query d failed) c = onStore (finish_sql now k query d failed) c"
| "sqlExec (SqlDiscard now k) c = onStore (discard_sql now k) c"
| "sqlExec (SqlObserver observer) c = onStore (SetEventObserver observer) c"
| "sqlExec (SqlBudget budget) c = onStore (SetRotateDrainBudget budget) c"
| "sqlExec SqlRotate c = onStore (Reset_sql (\<lambda>m. m)) c"
| "sqlExec (SqlBoundary now ctxErr runID ep phase) c = snd (sqlBoundary now ctxErr runID ep phase c)"
| "sqlExec (SqlDrain ctxErr lost h) c = snd (sqlDrain ctxErr lost h c)"
| "sqlExec (SqlRelease h) c = sqlRelease h c"

abbreviation mgr :: "sqlCollector \<Rightarrow> Table Manager" where
  "mgr c \<equiv> ss_manager (qc_store c)"

definition store_inv :: "Store \<Rightarrow> bool" where
  "store_inv s \<longleftrightarrow> gen_inv (ss_manager s) \<and> length (ss_measurements s) = length (m_leases (ss_manager s)) \<and>
     (\<forall>k < length (ss_measurements s). ms_lease (ss_measurements s ! k) = k \<and>
        (ms_once (ss_measurements s ! k) \<longleftrightarrow> l_done (m_leases (ss_manager s) ! k)))"

definition sqlGen_ok :: "Table Manager \<Rightarrow> sqlGeneration \<Rightarrow> bool" where
  "sqlGen_ok m g \<longleftrightarrow> sg_sealed g < m_current m \<and>
     (sg_settled g \<longrightarrow> Settled m (sg_sealed g) \<and>
        (\<not> sg_released g \<longrightarrow> sg_frozen g = frozenOf (Freeze Table_Snapshot m (sg_sealed g))))"

definition sql_inv :: "sqlCollector \<Rightarrow> bool" where
  "sql_inv c \<longleftrightarrow> store_inv (qc_store c) \<and> (\<forall>g \<in> set (qc_gens c). sqlGen_ok (mgr c) g) \<and>
     (\<forall>k \<in> fst ` set (qc_results c). sk_epoch k = qc_epoch c)"

text \<open>What an operation does to the generations is a sequence of the generation manager's own steps.\<close>

lemma begin_sql_store:
  "ss_manager (snd (begin_sql now started s)) = snd (Acquire (ss_manager s))"
  "ss_maxKeys (snd (begin_sql now started s)) = ss_maxKeys s"
  "\<exists>obs. ss_measurements (snd (begin_sql now started s)) =
     ss_measurements s @ [\<lparr>ms_lease = length (m_leases (ss_manager s)), ms_observer = obs, ms_once = False\<rparr>]"
  by (auto simp: begin_sql_def Acquire_def Let_def split: option.split)

lemma Acquire_facts:
  "m_leases (snd (Acquire m)) = m_leases m @ [\<lparr>l_slot = m_current m, l_done = False\<rparr>]"
  "m_current (snd (Acquire m)) = m_current m" "length (m_slots (snd (Acquire m))) = length (m_slots m)"
  "g_value (m_slots (snd (Acquire m)) ! i) = g_value (m_slots m ! i)"
  by (simp_all add: Acquire_def upd_gen_def nth_modify)

lemma Lease_Update_facts:
  "m_leases (Lease_Update m l f) = m_leases m" "m_current (Lease_Update m l f) = m_current m"
  "length (m_slots (Lease_Update m l f)) = length (m_slots m)"
  by (simp_all add: Lease_Update_def upd_gen_def)

lemma upd_gen_value:
  "(\<And>s. g_value (f s) = g_value s) \<Longrightarrow> g_value (m_slots (upd_gen m j f) ! i) = g_value (m_slots m ! i)"
  by (simp add: upd_gen_def nth_modify)

lemma Lease_Done_facts:
  "m_leases (Lease_Done m l) = (m_leases m)[l := (m_leases m ! l)\<lparr>l_done := True\<rparr>]"
  "m_current (Lease_Done m l) = m_current m" "length (m_slots (Lease_Done m l)) = length (m_slots m)"
  "g_value (m_slots (Lease_Done m l) ! i) = g_value (m_slots m ! i)"
proof -
  have "(m_leases m)[l := (m_leases m ! l)\<lparr>l_done := True\<rparr>] = m_leases m" if "l_done (m_leases m ! l)"
    using that by (cases "m_leases m ! l") (metis list_update_id Lease.update_convs(2) Lease.select_convs(2))
  then show "m_leases (Lease_Done m l) = (m_leases m)[l := (m_leases m ! l)\<lparr>l_done := True\<rparr>]"
    by (simp add: Lease_Done_def upd_gen_def)
  have "g_value (settleLocked (s\<lparr>g_inflight := x\<rparr>)) = g_value s" for s :: "'a gslot" and x by (simp add: settleLocked_def)
  then show "g_value (m_slots (Lease_Done m l) ! i) = g_value (m_slots m ! i)"
    by (simp add: Lease_Done_def upd_gen_value)
qed (simp_all add: Lease_Done_def upd_gen_def)

lemma store_inv_begin:
  assumes "store_inv s"
  shows "store_inv (snd (begin_sql now started s))"
proof -
  obtain obs where "ss_measurements (snd (begin_sql now started s)) =
     ss_measurements s @ [\<lparr>ms_lease = length (m_leases (ss_manager s)), ms_observer = obs, ms_once = False\<rparr>]"
    using begin_sql_store(3) by blast
  then show ?thesis
    using assms by (auto simp: store_inv_def begin_sql_store(1) Acquire_facts gen_inv_Acquire nth_append less_Suc_eq)
qed

text \<open>A completion releases the lease of its measurement and marks it done.\<close>

lemma store_inv_complete:
  assumes "store_inv s" and "k < length (ss_measurements s)"
    and "ss_measurements s' = ss_measurements (onceDone k s)"
    and "ss_manager s' = Lease_Done m k" and "gen_inv m" and "m_leases m = m_leases (ss_manager s)"
  shows "store_inv s'"
  using assms by (auto simp: store_inv_def onceDone_def Lease_Done_facts gen_inv_Done nth_list_update)

lemma finish_sql_cases:
  assumes "store_inv s"
  obtains "finish_sql now k query d failed s = s" "k \<ge> length (ss_measurements s) \<or> l_done (m_leases (ss_manager s) ! k)"
    | "k < length (m_leases (ss_manager s))" "\<not> l_done (m_leases (ss_manager s) ! k)"
      "ss_manager (finish_sql now k query d failed s) = Lease_Done (Lease_Update (ss_manager s) k (ObserveResult query d failed)) k"
      "ss_measurements (finish_sql now k query d failed s) = ss_measurements (onceDone k s)"
      "ss_maxKeys (finish_sql now k query d failed s) = ss_maxKeys s"
proof (cases "k < length (ss_measurements s) \<and> \<not> l_done (m_leases (ss_manager s) ! k)")
  case True
  then have "\<not> ms_once (ss_measurements s ! k)" "ms_lease (ss_measurements s ! k) = k" "k < length (m_leases (ss_manager s))"
    using assms by (simp_all add: store_inv_def)
  with True show thesis by (intro that(2)) (simp_all add: finish_sql_def onceDone_def Let_def)
next
  case False
  then have "finish_sql now k query d failed s = s" using assms by (auto simp: finish_sql_def store_inv_def Let_def)
  with False show thesis by (intro that(1)) auto
qed

lemma discard_sql_cases:
  assumes "store_inv s"
  obtains "discard_sql now k s = s" "k \<ge> length (ss_measurements s) \<or> l_done (m_leases (ss_manager s) ! k)"
    | "k < length (m_leases (ss_manager s))" "\<not> l_done (m_leases (ss_manager s) ! k)"
      "ss_manager (discard_sql now k s) = Lease_Done (ss_manager s) k"
      "ss_measurements (discard_sql now k s) = ss_measurements (onceDone k s)" "ss_maxKeys (discard_sql now k s) = ss_maxKeys s"
proof (cases "k < length (ss_measurements s) \<and> \<not> l_done (m_leases (ss_manager s) ! k)")
  case True
  then have "\<not> ms_once (ss_measurements s ! k)" "ms_lease (ss_measurements s ! k) = k" "k < length (m_leases (ss_manager s))"
    using assms by (simp_all add: store_inv_def)
  with True show thesis by (intro that(2)) (simp_all add: discard_sql_def onceDone_def Let_def)
next
  case False
  then have "discard_sql now k s = s" using assms by (auto simp: discard_sql_def store_inv_def Let_def)
  with False show thesis by (intro that(1)) auto
qed

lemma store_inv_finish:
  assumes "store_inv s"
  shows "store_inv (finish_sql now k query d failed s)"
proof (cases rule: finish_sql_cases [OF assms, of now k query d failed])
  case 2
  then show ?thesis
    using assms by (intro store_inv_complete [OF assms _ 2(4,3)] gen_inv_Update) (simp_all add: store_inv_def Lease_Update_facts)
qed (simp add: assms)

lemma store_inv_discard:
  assumes "store_inv s"
  shows "store_inv (discard_sql now k s)"
proof (cases rule: discard_sql_cases [OF assms, of now k])
  case 2
  then show ?thesis using assms by (intro store_inv_complete [OF assms _ 2(4,3)]) (simp_all add: store_inv_def)
qed (simp add: assms)

lemma gstep_current: "gen_inv m \<Longrightarrow> gstep factory m m' \<Longrightarrow> m_current m \<le> m_current m'"
  by (erule gstep_cases)
    (simp_all add: Acquire_facts Lease_Update_facts Lease_Done_facts Swap_slots SetCompatWait_def gen_inv_current less_imp_le)

lemma gsteps_current: "(gstep factory)\<^sup>*\<^sup>* m m' \<Longrightarrow> gen_inv m \<Longrightarrow> m_current m \<le> m_current m'"
proof (induction rule: rtranclp_induct)
  case (step m1 m2)
  then show ?case using gstep_current [OF gen.inv_steps [OF step.hyps(1) step.prems] step.hyps(2)] by simp
qed simp

lemma sqlGen_ok_steps:
  assumes "gen_inv m" and "(gstep factory)\<^sup>*\<^sup>* m m'" and "sqlGen_ok m g"
  shows "sqlGen_ok m' g"
proof -
  have "sg_sealed g < length (m_slots m)" using gen_inv_current [OF assms(1)] assms(3) by (simp add: sqlGen_ok_def)
  then have "Settled m (sg_sealed g) \<Longrightarrow> Settled m' (sg_sealed g) \<and> m_slots m' ! sg_sealed g = m_slots m ! sg_sealed g"
    using gen.settled_final [OF assms(2,1), of "sg_sealed g"] by blast
  then show ?thesis
    using assms(3) gsteps_current [OF assms(2,1)] by (auto simp: sqlGen_ok_def Freeze_def Settled_def)
qed

lemma store_steps:
  assumes "store_inv s"
  shows "(gstep factory)\<^sup>*\<^sup>* (ss_manager s) (ss_manager (snd (begin_sql now started s)))"
    and "(gstep factory)\<^sup>*\<^sup>* (ss_manager s) (ss_manager (finish_sql now k query d failed s))"
    and "(gstep factory)\<^sup>*\<^sup>* (ss_manager s) (ss_manager (discard_sql now k s))"
proof -
  show "(gstep factory)\<^sup>*\<^sup>* (ss_manager s) (ss_manager (snd (begin_sql now started s)))"
    by (auto simp: begin_sql_store intro: acquire)
  show "(gstep factory)\<^sup>*\<^sup>* (ss_manager s) (ss_manager (finish_sql now k query d failed s))"
  proof (cases rule: finish_sql_cases [OF assms, of now k query d failed])
    case 2
    let ?m = "Lease_Update (ss_manager s) k (ObserveResult query d failed)"
    have "gstep factory (ss_manager s) ?m" using 2 by (intro update)
    moreover have "gstep factory ?m (Lease_Done ?m k)" using 2 by (intro done_lease) (simp add: Lease_Update_facts)
    ultimately show ?thesis unfolding 2(3) by (rule converse_rtranclp_into_rtranclp [OF _ r_into_rtranclp])
  qed simp
  show "(gstep factory)\<^sup>*\<^sup>* (ss_manager s) (ss_manager (discard_sql now k s))"
    by (cases rule: discard_sql_cases [OF assms, of now k]) (auto intro: done_lease)
qed

lemma store_inv_swap: "store_inv s \<Longrightarrow> store_inv (s\<lparr>ss_manager := snd (Swap factory (ss_manager s))\<rparr>)"
  by (simp add: store_inv_def gen_inv_Swap Swap_slots)

lemma Reset_sql_eq: "Reset_sql (\<lambda>m. m) s = s\<lparr>ss_manager := snd (Swap (sqlFactory s) (ss_manager s))\<rparr>"
  by (simp add: Reset_sql_def Rotate_sql_def RotateContext_def SwapAndSnapshotContext_def Let_def split: prod.split)

lemma sqlBoundaryFresh_facts:
  assumes "sqlBoundaryFresh now runID ep phase c = (res, c')"
  shows "qc_store c' = (qc_store c)\<lparr>ss_manager := snd (Swap (sqlFactory (qc_store c)) (mgr c))\<rparr>"
    and "\<exists>g. qc_gens c' = qc_gens c @ [g] \<and> sg_sealed g = m_current (mgr c) \<and> \<not> sg_settled g \<and> \<not> sg_released g"
    and "gh_token (br_Handle res) = Token (qc_self c) (length (qc_gens c))" and "br_Committed res"
    and "qc_self c' = qc_self c" and "qc_epoch c' = max (qc_epoch c) ep"
    and "qc_results c' = (\<lparr>sk_runID = runID, sk_epoch = ep, sk_phase = phase\<rparr>, (res, None)) # (if ep > qc_epoch c then [] else qc_results c)"
  using assms by (auto simp: sqlBoundaryFresh_def Let_def Swap_def NewGenerationHandle_def split: if_splits prod.splits)

definition sqlFresh :: "sqlCollector \<Rightarrow> string \<Rightarrow> epoch \<Rightarrow> Phase \<Rightarrow> bool" where
  "sqlFresh c runID ep phase \<longleftrightarrow> qc_epoch c \<le> ep \<and>
     map_of (qc_results c) \<lparr>sk_runID = runID, sk_epoch = ep, sk_phase = phase\<rparr> = None"

lemma sqlBoundary_fresh:
  "sqlFresh c runID ep phase \<Longrightarrow>
   sqlBoundary now None runID ep phase c = (case sqlBoundaryFresh now runID ep phase c of (res, c') \<Rightarrow> ((res, None), c'))"
  by (simp add: sqlBoundary_def sqlFresh_def)

lemma sqlBoundary_cases:
  obtains "snd (sqlBoundary now ctxErr runID ep phase c) = c"
    | res c' where "sqlFresh c runID ep phase" "ctxErr = None" "sqlBoundaryFresh now runID ep phase c = (res, c')"
      "snd (sqlBoundary now ctxErr runID ep phase c) = c'"
proof (cases "sqlFresh c runID ep phase \<and> ctxErr = None")
  case True
  obtain res c' where "sqlBoundaryFresh now runID ep phase c = (res, c')" by force
  with True show thesis by (intro that(2)) (auto simp: sqlBoundary_fresh)
next
  case False
  then show thesis by (intro that(1)) (auto simp: sqlBoundary_def sqlFresh_def not_less split: option.split)
qed

lemma sqlDrain_state:
  "snd (sqlDrain ctxErr lost h c) = c \<or>
   (\<exists>a < length (qc_gens c). Settled (mgr c) (sg_sealed (qc_gens c ! a)) \<and>
      snd (sqlDrain ctxErr lost h c) = c\<lparr>qc_gens := (qc_gens c)[a := sqlFreeze (mgr c) (qc_gens c ! a)]\<rparr>)"
  by (auto simp: sqlDrain_def sqlGenerationFor_def Let_def resolveToken_Some split: option.split)

lemma sqlRelease_state:
  "sqlRelease h c = c \<or>
   (\<exists>a < length (qc_gens c). gh_token h = Token (qc_self c) a \<and>
      sqlRelease h c = c\<lparr>qc_gens := (qc_gens c)[a := (qc_gens c ! a)\<lparr>sg_released := True, sg_frozen := zeroSqlFrozen\<rparr>]\<rparr>)"
  by (auto simp: sqlRelease_def sqlGenerationFor_def Let_def resolveToken_Some split: option.split)

lemma sqlExec_store:
  assumes "sql_inv c"
  shows "(gstep (sqlFactory (qc_store c)))\<^sup>*\<^sup>* (mgr c) (mgr (sqlExec op c)) \<and>
    store_inv (qc_store (sqlExec op c)) \<and> ss_maxKeys (qc_store (sqlExec op c)) = ss_maxKeys (qc_store c) \<and>
    qc_self (sqlExec op c) = qc_self c"
proof -
  let ?s = "qc_store c"
  have i: "store_inv ?s" using assms by (simp add: sql_inv_def)
  note steps = store_steps [OF i, where factory = "sqlFactory ?s"]
  have keys: "ss_maxKeys (finish_sql now k query d failed ?s) = ss_maxKeys ?s" "ss_maxKeys (discard_sql now k ?s) = ss_maxKeys ?s"
    for now k query d failed
    by (simp_all add: finish_sql_def discard_sql_def onceDone_def Let_def)
  show ?thesis
  proof (cases op)
    case (SqlBoundary now ctxErr runID ep phase)
    show ?thesis
    proof (cases rule: sqlBoundary_cases [of now ctxErr runID ep phase c])
      case (2 res c')
      then show ?thesis
        using SqlBoundary store_inv_swap [OF i] by (auto simp: sqlBoundaryFresh_facts [OF 2(3)] intro: swap)
    qed (simp add: SqlBoundary i)
  next
    case (SqlDrain ctxErr lost h)
    then show ?thesis using sqlDrain_state [of ctxErr lost h c] i by auto
  next
    case (SqlRelease h)
    then show ?thesis using sqlRelease_state [of h c] i by auto
  next
    case SqlRotate
    then show ?thesis using store_inv_swap [OF i] by (auto simp: Reset_sql_eq intro: swap)
  next
    case (SqlBudget budget)
    have "gen_inv (SetCompatWait (mgr c) budget)"
      using i by (intro gen_inv_step [OF _ compat_wait]) (simp add: store_inv_def)
    then show ?thesis using SqlBudget i
      by (auto simp: SetRotateDrainBudget_def store_inv_def intro: compat_wait) (simp_all add: SetCompatWait_def)
  next
    case (SqlObserver observer)
    then show ?thesis using i by (simp add: SetEventObserver_def store_inv_def)
  qed (use i steps keys in \<open>simp_all add: store_inv_begin store_inv_finish store_inv_discard begin_sql_store(2)\<close>)
qed

lemma sqlGen_ok_freeze: "sqlGen_ok m g \<Longrightarrow> Settled m (sg_sealed g) \<Longrightarrow> sqlGen_ok m (sqlFreeze m g)"
  by (auto simp: sqlGen_ok_def sqlFreeze_def)

lemma sqlGen_ok_release: "sqlGen_ok m g \<Longrightarrow> sqlGen_ok m (g\<lparr>sg_released := True, sg_frozen := zeroSqlFrozen\<rparr>)"
  by (auto simp: sqlGen_ok_def)

lemma all_set_update: "\<forall>x \<in> set xs. P x \<Longrightarrow> P y \<Longrightarrow> \<forall>x \<in> set (xs[a := y]). P x"
  using set_update_subset_insert [of xs a y] by blast

lemma sql_inv_setGen: "sql_inv c \<Longrightarrow> sqlGen_ok (mgr c) g \<Longrightarrow> sql_inv (c\<lparr>qc_gens := (qc_gens c)[a := g]\<rparr>)"
  using all_set_update [of "qc_gens c" "sqlGen_ok (mgr c)" g a] by (simp add: sql_inv_def)

lemma sql_inv_exec:
  assumes "sql_inv c"
  shows "sql_inv (sqlExec op c)"
proof -
  note st = sqlExec_store [OF assms, of op]
  have g: "gen_inv (mgr c)" and ok: "\<forall>g \<in> set (qc_gens c). sqlGen_ok (mgr c) g" and ep: "\<forall>k \<in> fst ` set (qc_results c). sk_epoch k = qc_epoch c"
    using assms by (simp_all add: sql_inv_def store_inv_def)
  have old: "\<forall>g \<in> set (qc_gens c). sqlGen_ok (mgr (sqlExec op c)) g"
    using ok st sqlGen_ok_steps [OF g] by blast
  have nth_ok: "a < length (qc_gens c) \<Longrightarrow> sqlGen_ok (mgr c) (qc_gens c ! a)" for a using ok by simp
  show ?thesis
  proof (cases op)
    case (SqlBoundary now ctxErr runID ep phase)
    show ?thesis
    proof (cases rule: sqlBoundary_cases [of now ctxErr runID ep phase c])
      case (2 res c')
      note f = sqlBoundaryFresh_facts [OF 2(3)]
      obtain g' where g': "qc_gens c' = qc_gens c @ [g']" "sg_sealed g' = m_current (mgr c)" "\<not> sg_settled g'" using f(2) by blast
      have "sqlGen_ok (mgr c') g'" using g' g by (simp add: f(1) sqlGen_ok_def Swap_slots gen_inv_current)
      then show ?thesis
        using old st 2(1,4) SqlBoundary ep f(6,7) by (auto simp: sql_inv_def g'(1) sqlFresh_def)
    qed (use assms SqlBoundary in simp)
  next
    case (SqlDrain ctxErr lost h)
    then show ?thesis
      using sqlDrain_state [of ctxErr lost h c] assms sql_inv_setGen [OF assms] nth_ok sqlGen_ok_freeze by auto
  next
    case (SqlRelease h)
    then show ?thesis
      using sqlRelease_state [of h c] assms sql_inv_setGen [OF assms] nth_ok sqlGen_ok_release by auto
  qed (use old st ep in \<open>simp_all add: sql_inv_def\<close>)
qed

lemma sql_inv_run: "sql_inv c \<Longrightarrow> sql_inv (fold sqlExec ops c)"
  by (induction ops arbitrary: c) (simp_all add: sql_inv_exec)

lemma sql_inv_new: "sql_inv (NewSqlCollector self (NewStore mx))"
  by (simp add: sql_inv_def NewSqlCollector_def NewStore_def store_inv_def gen_inv_New) (simp add: New_gen_def)

subsection \<open>Which results belong to a run\<close>

text \<open>
  The specification, on the sequence of operations alone: \<open>n\<close> counts the measurements begun so far,
  \<open>pending\<close> are the measurements of the run still running, and the run takes in measurements until the
  first rotation. The result is what the run's measurements reported, in the order in which they
  finished, and the measurements still running at the end.
\<close>

fun attribute :: "bool \<Rightarrow> nat \<Rightarrow> nat set \<Rightarrow> sqlOp list \<Rightarrow> (string \<times> duration \<times> bool) list \<times> nat set" where
  "attribute inRun n pending [] = ([], pending)"
| "attribute inRun n pending (SqlBegin now started # ops) =
     attribute inRun (Suc n) (if inRun then insert n pending else pending) ops"
| "attribute inRun n pending (SqlFinish now k query d failed # ops) =
     (if k \<in> pending then apfst (Cons (query, d, failed)) (attribute inRun n (pending - {k}) ops)
      else attribute inRun n pending ops)"
| "attribute inRun n pending (SqlDiscard now k # ops) = attribute inRun n (pending - {k}) ops"
| "attribute inRun n pending (SqlRotate # ops) = attribute False n pending ops"
| "attribute inRun n pending (SqlBoundary now ctxErr runID ep phase # ops) = attribute False n pending ops"
| "attribute inRun n pending (_ # ops) = attribute inRun n pending ops"

fun rotates :: "sqlOp \<Rightarrow> bool" where
  "rotates SqlRotate = True"
| "rotates (SqlBoundary now ctxErr runID ep phase) = True"
| "rotates _ = False"

fun sqlReleases :: "GenerationHandle \<Rightarrow> sqlOp \<Rightarrow> bool" where
  "sqlReleases h (SqlRelease h') \<longleftrightarrow> gh_token h' = gh_token h"
| "sqlReleases h _ \<longleftrightarrow> False"

abbreviation ResultsTable :: "(string \<times> duration \<times> bool) list \<Rightarrow> Table \<Rightarrow> Table" where
  "ResultsTable rs \<equiv> fold (\<lambda>(query, d, failed). ObserveResult query d failed) rs"

text \<open>How a state of the collector stands for a state of the specification, for the run on slot \<open>i\<close>.\<close>

definition openOn :: "Table Manager \<Rightarrow> nat \<Rightarrow> nat set" where
  "openOn m i = {k. k < length (m_leases m) \<and> l_slot (m_leases m ! k) = i \<and> \<not> l_done (m_leases m ! k)}"

definition stands :: "bool \<Rightarrow> nat \<Rightarrow> nat set \<Rightarrow> nat \<Rightarrow> Table \<Rightarrow> sqlCollector \<Rightarrow> bool" where
  "stands inRun n pending i t c \<longleftrightarrow> sql_inv c \<and> n = length (m_leases (mgr c)) \<and> i < length (m_slots (mgr c)) \<and>
     (m_current (mgr c) = i \<longleftrightarrow> inRun) \<and> pending = openOn (mgr c) i \<and> g_value (m_slots (mgr c) ! i) = t"

lemma openOn_Acquire:
  "openOn (snd (Acquire m)) i = (if m_current m = i then insert (length (m_leases m)) (openOn m i) else openOn m i)"
  by (auto simp: openOn_def Acquire_facts nth_append less_Suc_eq)

lemma openOn_Update: "openOn (Lease_Update m l f) i = openOn m i"
  by (simp add: openOn_def Lease_Update_facts)

lemma openOn_Done: "l < length (m_leases m) \<Longrightarrow> openOn (Lease_Done m l) i = openOn m i - {l}"
  by (auto simp: openOn_def Lease_Done_facts nth_list_update)

lemma value_Update:
  assumes "gen_inv m" and "k < length (m_leases m)" and "\<not> l_done (m_leases m ! k)" and "i < length (m_slots m)"
  shows "g_value (m_slots (Lease_Update m k f) ! i) =
     (if k \<in> openOn m i then f (g_value (m_slots m ! i)) else g_value (m_slots m ! i))"
  using assms gen_inv_lease [OF assms(1,2)] by (auto simp: Lease_Update_def upd_gen_def nth_modify openOn_def)

lemma stands_inv:
  assumes "stands inRun n pending i t c"
  shows "sql_inv c" "store_inv (qc_store c)" "gen_inv (mgr c)" "sql_inv (sqlExec op c)"
proof -
  show inv: "sql_inv c" using assms by (simp add: stands_def)
  then show "store_inv (qc_store c)" "gen_inv (mgr c)" by (simp_all add: sql_inv_def store_inv_def)
  show "sql_inv (sqlExec op c)" by (rule sql_inv_exec [OF inv])
qed

lemma stands_begin:
  assumes "stands inRun n pending i t c"
  shows "stands inRun (Suc n) (if inRun then insert n pending else pending) i t (sqlExec (SqlBegin now started) c)"
  using assms sql_inv_exec [of c "SqlBegin now started"]
  by (auto simp: stands_def begin_sql_store Acquire_facts openOn_Acquire)

lemma not_open: "k \<ge> length (m_leases m) \<or> l_done (m_leases m ! k) \<Longrightarrow> k \<notin> openOn m i"
  by (auto simp: openOn_def)

lemma stands_finish:
  assumes "stands inRun n pending i t c"
  shows "stands inRun n (pending - {k}) i (if k \<in> pending then ObserveResult query d failed t else t)
    (sqlExec (SqlFinish now k query d failed) c)"
proof -
  note s = stands_inv(2) [OF assms] and g = stands_inv(3) [OF assms] and inv = stands_inv(4) [OF assms, of "SqlFinish now k query d failed"]
  show ?thesis
  proof (cases rule: finish_sql_cases [OF s, of now k query d failed])
    case 1
    then have "k \<notin> pending" using assms s not_open [of "mgr c" k i] by (auto simp: stands_def store_inv_def)
    with 1 assms show ?thesis by simp
  next
    case 2
    then show ?thesis
      using assms inv value_Update [OF g 2(1,2)]
      by (simp add: stands_def Lease_Done_facts Lease_Update_facts openOn_Done openOn_Update)
  qed
qed

lemma stands_discard:
  assumes "stands inRun n pending i t c"
  shows "stands inRun n (pending - {k}) i t (sqlExec (SqlDiscard now k) c)"
proof -
  note s = stands_inv(2) [OF assms] and inv = stands_inv(4) [OF assms, of "SqlDiscard now k"]
  show ?thesis
  proof (cases rule: discard_sql_cases [OF s, of now k])
    case 1
    then have "k \<notin> pending" using assms s not_open [of "mgr c" k i] by (auto simp: stands_def store_inv_def)
    with 1 assms show ?thesis by simp
  next
    case 2
    then show ?thesis using assms inv by (simp add: stands_def Lease_Done_facts openOn_Done)
  qed
qed

text \<open>A swap ends the run on its slot and changes nothing else of it.\<close>

lemma stands_swap:
  assumes "stands inRun n pending i t c" and "sql_inv c'" and "mgr c' = snd (Swap factory (mgr c))"
  shows "stands False n pending i t c'"
  using assms stands_inv(3) [OF assms(1)]
  by (auto simp: stands_def Swap_slots sealLocked_gen_def settleLocked_def openOn_def)

lemma stands_same:
  assumes "stands inRun n pending i t c" and "sql_inv c'" and "mgr c' = mgr c"
  shows "stands inRun n pending i t c'"
  using assms by (simp add: stands_def)

lemma stands_boundary:
  assumes "stands False n pending i t c"
  shows "stands False n pending i t (sqlExec (SqlBoundary now ctxErr runID ep phase) c)"
proof (cases rule: sqlBoundary_cases [of now ctxErr runID ep phase c])
  case 1
  then show ?thesis using assms by simp
next
  case (2 res c')
  then have "mgr c' = snd (Swap (sqlFactory (qc_store c)) (mgr c))" by (simp add: sqlBoundaryFresh_facts(1) [OF 2(3)])
  then show ?thesis
    using stands_swap [OF assms, of c'] stands_inv(4) [OF assms, of "SqlBoundary now ctxErr runID ep phase"] 2(4) by simp
qed

lemma stands_other:
  assumes "stands inRun n pending i t c"
  shows "stands inRun n pending i t (sqlExec (SqlDrain ctxErr lost h) c)" "stands inRun n pending i t (sqlExec (SqlRelease h) c)"
    "stands inRun n pending i t (sqlExec (SqlObserver observer) c)" "stands inRun n pending i t (sqlExec (SqlBudget budget) c)"
proof -
  show "stands inRun n pending i t (sqlExec (SqlDrain ctxErr lost h) c)"
    using sqlDrain_state [of ctxErr lost h c] by (intro stands_same [OF assms stands_inv(4) [OF assms]]) auto
  show "stands inRun n pending i t (sqlExec (SqlRelease h) c)"
    using sqlRelease_state [of h c] by (intro stands_same [OF assms stands_inv(4) [OF assms]]) auto
  show "stands inRun n pending i t (sqlExec (SqlObserver observer) c)"
    by (intro stands_same [OF assms stands_inv(4) [OF assms]]) (simp add: SetEventObserver_def)
  show "stands inRun n pending i t (sqlExec (SqlBudget budget) c)"
    using assms stands_inv(4) [OF assms, of "SqlBudget budget"]
    by (simp add: stands_def SetRotateDrainBudget_def SetCompatWait_def openOn_def)
qed

text \<open>The simulation: the collector follows the specification, one operation at a time.\<close>

lemma stands_run:
  assumes "stands inRun n pending i t c" and "inRun \<Longrightarrow> \<forall>op \<in> set ops. \<not> rotates op"
    and "attribute inRun n pending ops = (rs, pending')"
  shows "\<exists>n'. stands inRun n' pending' i (ResultsTable rs t) (fold sqlExec ops c)"
  using assms
proof (induction inRun n pending ops arbitrary: c t rs rule: attribute.induct)
  case (2 inRun n pending now started ops)
  then show ?case using stands_begin [OF "2.prems"(1), of now started] by (auto simp del: sqlExec.simps)
next
  case (3 inRun n pending now k query d failed ops)
  note st = stands_finish [OF "3.prems"(1), of k query d failed now]
  show ?case
  proof (cases "k \<in> pending")
    case True
    then obtain rs' where rs': "attribute inRun n (pending - {k}) ops = (rs', pending')" "rs = (query, d, failed) # rs'"
      using "3.prems"(3) by (cases "attribute inRun n (pending - {k}) ops") auto
    then show ?thesis using "3.IH"(1) [OF True _ _ rs'(1)] st "3.prems"(2) True by (simp del: sqlExec.simps)
  next
    case False
    then show ?thesis using "3.IH"(2) [OF False] st "3.prems"(2,3) by (simp del: sqlExec.simps)
  qed
next
  case (4 inRun n pending now k ops)
  then show ?case using stands_discard [OF "4.prems"(1), of k now] by (auto simp del: sqlExec.simps)
next
  case (5 inRun n pending ops)
  then have out: "\<not> inRun" by auto
  have "stands False n pending i t (sqlExec SqlRotate c)"
    using stands_swap [OF "5.prems"(1) stands_inv(4) [OF "5.prems"(1), of SqlRotate], of "sqlFactory (qc_store c)"]
    by (simp add: Reset_sql_eq)
  then show ?case using "5.IH" "5.prems"(3) out by (simp del: sqlExec.simps)
next
  case (6 inRun n pending now ctxErr runID ep phase ops)
  then have out: "\<not> inRun" by auto
  then show ?case
    using stands_boundary [of n pending i t c now ctxErr runID ep phase] "6.IH" "6.prems" by (simp del: sqlExec.simps)
qed (use stands_other in \<open>fastforce simp del: sqlExec.simps\<close>)+

lemma attribute_outside: "attribute False n pending ops = attribute False 0 pending ops"
proof (induction ops arbitrary: n pending)
  case (Cons op ops)
  show ?case by (cases op) (simp_all add: Cons [of "Suc n"] Cons [of n] Cons [of "Suc 0"])
qed simp

lemma attribute_closed:
  assumes "\<forall>op \<in> set ops. \<not> rotates op" and "attribute inRun n pending ops = (rs, pending')"
  shows "attribute inRun n pending (ops @ SqlBoundary now ctxErr runID ep phase # after) =
    apfst ((@) rs) (attribute False 0 pending' after)"
  using assms
proof (induction inRun n pending ops arbitrary: rs rule: attribute.induct)
  case (1 inRun n pending)
  have "attribute False n pending after = attribute False 0 pending after" by (rule attribute_outside)
  with 1 show ?case by (cases "attribute False 0 pending after") simp
next
  case (3 inRun n pending now k query d failed ops)
  show ?case
  proof (cases "k \<in> pending")
    case True
    then obtain rs' where "attribute inRun n (pending - {k}) ops = (rs', pending')" "rs = (query, d, failed) # rs'"
      using "3.prems"(2) by (cases "attribute inRun n (pending - {k}) ops") auto
    then show ?thesis using "3.IH"(1) [OF True] "3.prems"(1) True by (cases "attribute False 0 pending' after") simp
  qed (use "3.IH"(2) "3.prems" in auto)
qed auto

lemma quiet_results:
  "\<not> rotates op \<Longrightarrow> qc_epoch (sqlExec op c) = qc_epoch c \<and> qc_results (sqlExec op c) = qc_results c"
proof (cases op)
  case (SqlDrain ctxErr lost h)
  then show ?thesis using sqlDrain_state [of ctxErr lost h c] by auto
next
  case (SqlRelease h)
  then show ?thesis using sqlRelease_state [of h c] by auto
qed simp_all

lemma quiet_fresh: "\<forall>op \<in> set ops. \<not> rotates op \<Longrightarrow> sqlFresh (fold sqlExec ops c) runID ep phase = sqlFresh c runID ep phase"
proof (induction ops arbitrary: c)
  case (Cons op ops)
  then show ?case using quiet_results [of op c] by (simp add: sqlFresh_def)
qed simp

text \<open>A closed generation keeps its place, its slot and, until it is released, its data.\<close>

lemma gen_kept_exec:
  assumes "a < length (qc_gens c)" and "\<not> sg_released (qc_gens c ! a)"
    and "gh_token h = Token (qc_self c) a" and "\<not> sqlReleases h op"
  shows "a < length (qc_gens (sqlExec op c)) \<and> \<not> sg_released (qc_gens (sqlExec op c) ! a) \<and>
    sg_sealed (qc_gens (sqlExec op c) ! a) = sg_sealed (qc_gens c ! a) \<and> qc_self (sqlExec op c) = qc_self c"
proof (cases op)
  case (SqlBoundary now ctxErr runID ep phase)
  show ?thesis
  proof (cases rule: sqlBoundary_cases [of now ctxErr runID ep phase c])
    case (2 res c')
    then show ?thesis using assms(1,2) sqlBoundaryFresh_facts(2,5) [OF 2(3)] SqlBoundary by (auto simp: nth_append)
  qed (use assms SqlBoundary in simp)
next
  case (SqlDrain ctxErr lost h')
  have "sg_released (sqlFreeze m g) = sg_released g" "sg_sealed (sqlFreeze m g) = sg_sealed g" for m g
    by (simp_all add: sqlFreeze_def)
  then show ?thesis using SqlDrain sqlDrain_state [of ctxErr lost h' c] assms(1,2) by (auto simp: nth_list_update split: if_splits)
next
  case (SqlRelease h')
  then show ?thesis using sqlRelease_state [of h' c] assms by auto
qed (use assms in simp_all)

lemma gen_kept:
  assumes "a < length (qc_gens c)" and "\<not> sg_released (qc_gens c ! a)"
    and "gh_token h = Token (qc_self c) a" and "\<forall>op \<in> set ops. \<not> sqlReleases h op"
  shows "a < length (qc_gens (fold sqlExec ops c)) \<and> \<not> sg_released (qc_gens (fold sqlExec ops c) ! a) \<and>
    sg_sealed (qc_gens (fold sqlExec ops c) ! a) = sg_sealed (qc_gens c ! a) \<and> qc_self (fold sqlExec ops c) = qc_self c"
  using assms
proof (induction ops arbitrary: c)
  case (Cons op ops)
  have k: "a < length (qc_gens (sqlExec op c)) \<and> \<not> sg_released (qc_gens (sqlExec op c) ! a) \<and>
    sg_sealed (qc_gens (sqlExec op c) ! a) = sg_sealed (qc_gens c ! a) \<and> qc_self (sqlExec op c) = qc_self c"
    using Cons.prems by (intro gen_kept_exec) auto
  then show ?case using Cons.IH [of "sqlExec op c"] Cons.prems by (simp del: sqlExec.simps)
qed simp

lemma settled_iff_none_open:
  assumes "stands False n pending i t c"
  shows "Settled (mgr c) i \<longleftrightarrow> pending = {}"
proof -
  have "Settled (mgr c) i \<longleftrightarrow> pinned (mgr c) i = 0"
    using gen_inv_slot [OF stands_inv(3) [OF assms], of i] assms by (simp add: stands_def Settled_def)
  also have "\<dots> \<longleftrightarrow> openOn (mgr c) i = {}"
    by (auto simp: pinned_def openOn_def filter_empty_conv all_set_conv_all_nth)
  finally show ?thesis using assms by (simp add: stands_def)
qed

text \<open>Draining and collecting a closed generation.\<close>

lemma drain_and_collect:
  assumes "stands False n pending i t c" and "gh_token h = Token (qc_self c) a" and "a < length (qc_gens c)"
    and "\<not> sg_released (qc_gens c ! a)" and "sg_sealed (qc_gens c ! a) = i"
    and "sqlDrain ctxErr lost h c = (ret, c')"
  shows "(pending \<noteq> {} \<longrightarrow> (case ctxErr of None \<Rightarrow> ret = None | Some e \<Rightarrow> \<exists>e'. ret = Some (Some e') \<and> errors_Is e' e)) \<and>
    (pending = {} \<and> (ctxErr = None \<or> \<not> lost) \<longrightarrow> ret = Some None) \<and>
    (ret = Some None \<longrightarrow> pending = {} \<and> sqlCollect h c' =
       Inr \<lparr>qf_Generation = wrap64 (int i + 1), qf_Entries = Table_Snapshot t, qf_CutShort = False\<rparr>)"
proof -
  let ?m = "mgr c" and ?g = "qc_gens c ! a"
  have res: "resolveToken (qc_self c) (qc_gens c) h = Some a" using assms(2,3) by (simp add: resolveToken_Some)
  have set: "Settled ?m i \<longleftrightarrow> pending = {}" by (rule settled_iff_none_open [OF assms(1)])
  have ok: "sqlGen_ok ?m ?g" using stands_inv(1) [OF assms(1)] assms(3) by (simp add: sql_inv_def)
  have frozen: "frozenOf (Freeze Table_Snapshot ?m i) =
      \<lparr>qf_Generation = wrap64 (int i + 1), qf_Entries = Table_Snapshot t, qf_CutShort = False\<rparr>" if "pending = {}"
    using that assms(1) set gen_inv_slot(4) [OF stands_inv(3) [OF assms(1)], of i]
    by (simp add: frozenOf_def Freeze_def stands_def)
  have kept: "sg_frozen (sqlFreeze ?m ?g) = frozenOf (Freeze Table_Snapshot ?m i)" "\<not> sg_released (sqlFreeze ?m ?g)"
    "sg_settled (sqlFreeze ?m ?g)"
    using ok assms(4,5) by (auto simp: sqlFreeze_def sqlGen_ok_def)
  show ?thesis
    using assms(3,5,6) res set frozen kept
    by (auto simp: sqlDrain_def sqlGenerationFor_def sqlCollect_def Let_def split: option.splits if_splits)
qed

lemma stands_opened:
  assumes "sql_inv c" and "sqlBoundaryFresh now runID ep phase c = (res, c1)" and "sql_inv c1"
  shows "stands True (length (ss_measurements (qc_store c1))) {} (length (m_slots (mgr c))) (sqlFactory (qc_store c)) c1"
proof -
  have g: "gen_inv (mgr c)" and len: "length (ss_measurements (qc_store c1)) = length (m_leases (mgr c1))"
    using assms(1,3) by (simp_all add: sql_inv_def store_inv_def)
  have m: "mgr c1 = snd (Swap (sqlFactory (qc_store c)) (mgr c))" by (simp add: sqlBoundaryFresh_facts(1) [OF assms(2)])
  have "l_slot (m_leases (mgr c) ! l) \<noteq> length (m_slots (mgr c))" if "l < length (m_leases (mgr c))" for l
    using gen_inv_lease [OF g that] by simp
  then have "openOn (mgr c1) (length (m_slots (mgr c))) = {}" by (auto simp: openOn_def m Swap_slots [OF g])
  then show ?thesis
    using assms(3) by (simp add: stands_def len) (simp add: m Swap_slots [OF g] newSlot_gen_def)
qed

lemma sqlFresh_new: "sql_inv c \<Longrightarrow> qc_epoch c < ep \<Longrightarrow> sqlFresh c runID ep phase"
  by (fastforce simp: sql_inv_def sqlFresh_def map_of_eq_None_iff)

lemma sql_maxKeys_run: "sql_inv c \<Longrightarrow> ss_maxKeys (qc_store (fold sqlExec ops c)) = ss_maxKeys (qc_store c)"
  by (induction ops arbitrary: c) (simp_all add: sqlExec_store sql_inv_exec)

text \<open>The two boundaries of a run, and what its slot stands for when the second is taken.\<close>

lemma run_closed:
  assumes "sql_inv c" and "qc_epoch c < ep"
    and "sqlBoundary now None runID ep PhaseStartBoundary c = (out, c1)" and "\<forall>op \<in> set during. \<not> rotates op"
    and "sqlBoundary now' None runID ep PhaseFinishFreeze (fold sqlExec during c1) = ((res, err), c2)"
    and "attribute True (length (ss_measurements (qc_store c1))) {} during = (rs, pending)"
  obtains n i a where "snd out = None" "err = None" "br_Committed res"
    "stands False n pending i (ResultsTable rs (sqlFactory (qc_store c))) c2"
    "gh_token (br_Handle res) = Token (qc_self c2) a" "a < length (qc_gens c2)"
    "\<not> sg_released (qc_gens c2 ! a)" "sg_sealed (qc_gens c2 ! a) = i" "CurrentGeneration_sql (qc_store c1) = wrap64 (int i + 1)"
proof -
  note fresh = sqlFresh_new [OF assms(1,2), of runID]
  obtain res0 where b: "sqlBoundaryFresh now runID ep PhaseStartBoundary c = (res0, c1)" "out = (res0, None)"
    using assms(3) by (auto simp: sqlBoundary_fresh [OF fresh] split: prod.splits)
  have i1: "sql_inv c1" using sql_inv_exec [OF assms(1), of "SqlBoundary now None runID ep PhaseStartBoundary"] assms(3) by simp
  let ?i = "length (m_slots (mgr c))" and ?d = "fold sqlExec during c1"
  have fresh': "sqlFresh ?d runID ep PhaseFinishFreeze"
    unfolding quiet_fresh [OF assms(4)] using fresh assms(2) by (simp add: sqlFresh_def sqlBoundaryFresh_facts(6,7) [OF b(1)])
  have f: "sqlBoundaryFresh now' runID ep PhaseFinishFreeze ?d = (res, c2)" "err = None"
    using assms(5) by (auto simp: sqlBoundary_fresh [OF fresh'] split: prod.splits)
  note s1 = stands_opened [OF assms(1) b(1) i1]
  obtain n1 where s2: "stands True n1 pending ?i (ResultsTable rs (sqlFactory (qc_store c))) ?d"
    using stands_run [OF s1 assms(4,6)] by blast
  have "sql_inv c2" using sql_inv_exec [OF stands_inv(1) [OF s2], of "SqlBoundary now' None runID ep PhaseFinishFreeze"] assms(5) by simp
  with s2 have s3: "stands False n1 pending ?i (ResultsTable rs (sqlFactory (qc_store c))) c2"
    by (rule stands_swap) (simp add: sqlBoundaryFresh_facts(1) [OF f(1)])
  obtain g where g: "qc_gens c2 = qc_gens ?d @ [g]" "sg_sealed g = m_current (mgr ?d)" "\<not> sg_released g"
    using sqlBoundaryFresh_facts(2) [OF f(1)] by blast
  have gen: "CurrentGeneration_sql (qc_store c1) = wrap64 (int ?i + 1)"
    using s1 gen_inv_slot(4) [OF stands_inv(3) [OF s1], of ?i]
    by (simp add: CurrentGeneration_sql_def CurrentGeneration_def stands_def)
  show thesis
    using s2 b(2) f(2) sqlBoundaryFresh_facts(3-5) [OF f(1)] gen
    by (intro that [OF _ _ _ s3, of "length (qc_gens ?d)"]) (simp_all add: g stands_def)
qed

text \<open>
  C11: The sql section of a run is made of the queries that started in the run and of no others, however
  late they end. After any history, let a run with a new epoch take its opening boundary, then let
  queries begin, end, be discarded and handles be drained or released, then let the closing boundary be
  taken; anything may follow except releasing the run's handle. Both boundaries commit. \<open>Drain\<close> returns
  without error only when none of the run's queries is still running; while one is, it does not return,
  or returns the context's error. Once it has, \<open>Collect\<close> returns the snapshot of a new table into which
  exactly the results of those queries were entered, in the order in which they ended, and the section
  is complete.
\<close>

theorem sql_section_is_run_interval:
  assumes "c = fold sqlExec before (NewSqlCollector self (NewStore mx))" and "qc_epoch c < ep"
    and "BeginSqlBoundary now None runID ep c = (out, c1)"
    and "\<forall>op \<in> set during. \<not> rotates op"
    and "FreezeSql now' None runID ep (fold sqlExec during c1) = ((res, err), c2)"
    and "\<forall>op \<in> set after. \<not> sqlReleases (br_Handle res) op"
    and "attribute True (length (ss_measurements (qc_store c1))) {}
           (during @ SqlBoundary now' None runID ep PhaseFinishFreeze # after) = (rs, pending)"
    and "sqlDrain ctxErr lost (br_Handle res) (fold sqlExec after c2) = (ret, c3)"
  shows "snd out = None \<and> err = None \<and> br_Committed res \<and>
    (pending \<noteq> {} \<longrightarrow> (case ctxErr of None \<Rightarrow> ret = None | Some e \<Rightarrow> \<exists>e'. ret = Some (Some e') \<and> errors_Is e' e)) \<and>
    (pending = {} \<and> (ctxErr = None \<or> \<not> lost) \<longrightarrow> ret = Some None) \<and>
    (ret = Some None \<longrightarrow> pending = {} \<and> sqlCollect (br_Handle res) c3 =
       Inr \<lparr>qf_Generation = CurrentGeneration_sql (qc_store c1),
            qf_Entries = Table_Snapshot (ResultsTable rs (NewTable mx)), qf_CutShort = False\<rparr>)"
proof -
  have i: "sql_inv c" unfolding assms(1) by (rule sql_inv_run [OF sql_inv_new])
  have mx: "sqlFactory (qc_store c) = NewTable mx"
    using sql_maxKeys_run [OF sql_inv_new] by (simp add: assms(1)) (simp add: NewSqlCollector_def NewStore_def)
  obtain rs1 p1 where a1: "attribute True (length (ss_measurements (qc_store c1))) {} during = (rs1, p1)" by force
  obtain rs2 where a2: "attribute False 0 p1 after = (rs2, pending)" "rs = rs1 @ rs2"
    using attribute_closed [OF assms(4) a1] assms(7) by (cases "attribute False 0 p1 after") auto
  from i assms(2-5) [unfolded BeginSqlBoundary_def FreezeSql_def] a1 obtain n i' a where r: "snd out = None" "err = None" "br_Committed res"
    "stands False n p1 i' (ResultsTable rs1 (sqlFactory (qc_store c))) c2"
    and h: "gh_token (br_Handle res) = Token (qc_self c2) a" "a < length (qc_gens c2)" "\<not> sg_released (qc_gens c2 ! a)"
    and g: "sg_sealed (qc_gens c2 ! a) = i'" "CurrentGeneration_sql (qc_store c1) = wrap64 (int i' + 1)"
    by (rule run_closed)
  have "attribute False n p1 after = (rs2, pending)" using a2(1) attribute_outside [of n p1 after] by simp
  from stands_run [OF r(4) _ this] obtain n2 where
    s: "stands False n2 pending i' (ResultsTable rs (NewTable mx)) (fold sqlExec after c2)"
    by (auto simp: a2(2) mx)
  note k = gen_kept [OF h(2,3,1) assms(6)]
  have h': "gh_token (br_Handle res) = Token (qc_self (fold sqlExec after c2)) a"
    and sealed: "sg_sealed (qc_gens (fold sqlExec after c2) ! a) = i'" using k h(1) g(1) by simp_all
  from drain_and_collect [OF s h' _ _ sealed assms(8)] k show ?thesis using r(1-3) by (simp add: g(2))
qed

definition exampleSql :: sqlCollector where
  "exampleSql = NewSqlCollector ''sql#1'' (NewStore 8)"

definition exampleQueries :: "sqlOp list" where
  "exampleQueries = [SqlBegin 2 None, SqlBegin 3 None, SqlFinish 4 1 ''SELECT ?'' 7 False]"

definition exampleLate :: "sqlOp list" where
  "exampleLate = [SqlBegin 6 None, SqlFinish 7 2 ''DELETE'' 9 False, SqlFinish 8 0 ''UPDATE ?'' 5 True]"

definition exampleSqlOpen :: "(BoundaryResult \<times> gerr option) \<times> sqlCollector" where
  "exampleSqlOpen = BeginSqlBoundary 1 None ''r1'' 1 exampleSql"

definition exampleSqlClosed :: "(BoundaryResult \<times> gerr option) \<times> sqlCollector" where
  "exampleSqlClosed = FreezeSql 5 None ''r1'' 1 (fold sqlExec exampleQueries (snd exampleSqlOpen))"

definition exampleSqlHandle :: GenerationHandle where
  "exampleSqlHandle = br_Handle (fst (fst exampleSqlClosed))"

definition exampleSqlDrained :: "gerr option option \<times> sqlCollector" where
  "exampleSqlDrained = sqlDrain None False exampleSqlHandle (fold sqlExec exampleLate (snd exampleSqlClosed))"

lemma exampleSql_ready:
  "qc_epoch exampleSql < 1" "\<forall>op \<in> set exampleQueries. \<not> rotates op" "\<forall>op \<in> set exampleLate. \<not> sqlReleases h op"
  "attribute True (length (ss_measurements (qc_store (snd exampleSqlOpen)))) {}
     (exampleQueries @ SqlBoundary 5 None ''r1'' 1 PhaseFinishFreeze # exampleLate) =
   ([(''SELECT ?'', 7, False), (''UPDATE ?'', 5, True)], {})"
  by (simp_all add: exampleSql_def NewSqlCollector_def exampleQueries_def exampleLate_def exampleSqlOpen_def BeginSqlBoundary_def sqlBoundary_def
      sqlBoundaryFresh_def Let_def NewStore_def Swap_def insert_Diff_if)

theorem sql_section_is_run_interval_witness:
  "fst exampleSqlDrained = Some None \<and> sqlCollect exampleSqlHandle (snd exampleSqlDrained) =
     Inr \<lparr>qf_Generation = CurrentGeneration_sql (qc_store (snd exampleSqlOpen)),
          qf_Entries = Table_Snapshot (ResultsTable [(''SELECT ?'', 7, False), (''UPDATE ?'', 5, True)] (NewTable 8)), qf_CutShort = False\<rparr>"
  using sql_section_is_run_interval [of exampleSql "[]" "''sql#1''" 8 1 1 "''r1''" "fst exampleSqlOpen" "snd exampleSqlOpen"
      exampleQueries 5 "fst (fst exampleSqlClosed)" "snd (fst exampleSqlClosed)" "snd exampleSqlClosed" exampleLate
      "[(''SELECT ?'', 7, False), (''UPDATE ?'', 5, True)]" "{}" None False "fst exampleSqlDrained" "snd exampleSqlDrained"]
    exampleSql_ready
  by (simp add: exampleSqlHandle_def exampleSqlDrained_def exampleSqlOpen_def exampleSqlClosed_def) (simp add: exampleSql_def)

end
