(* ===== verification/Sql_Classify.thy ===== *)
theory Sql_Classify
  imports Go_Strings
begin

text \<open>
  \<open>sqlrows/classify.go\<close>: the family of a statement, from its words at parenthesis depth zero. An index
  into the text is the suffix that starts there.
\<close>

datatype StatementKind = KindSelect | KindDML | KindOther

definition MissingQueryText :: string where
  "MissingQueryText = ''(digest text unavailable)''"

definition classifyTokenLimit :: nat where
  "classifyTokenLimit = 256"

definition keywordKind :: "string \<Rightarrow> StatementKind option" where
  "keywordKind w =
     (if w = ''SELECT'' then Some KindSelect
      else if w \<in> {''INSERT'', ''UPDATE'', ''DELETE'', ''REPLACE''} then Some KindDML else None)"

record sqlToken =
  tk_word :: string
  tk_depth :: nat

definition isWordByte :: "char \<Rightarrow> bool" where
  "isWordByte c \<longleftrightarrow> (CHR ''a'' \<le> c \<and> c \<le> CHR ''z'') \<or> (CHR ''A'' \<le> c \<and> c \<le> CHR ''Z'') \<or> (CHR ''0'' \<le> c \<and> c \<le> CHR ''9'') \<or>
     c \<in> {CHR ''_'', CHR ''$'', CHR ''@''} \<or> 128 \<le> byte c"

definition quoteByte :: "char \<Rightarrow> bool" where
  "quoteByte c \<longleftrightarrow> c \<in> {CHR 0x60, CHR 0x27, CHR 0x22}"

text \<open>\<open>skipQuoted\<close>, from just after the opening quote.\<close>

fun skipQuotedFrom :: "char \<Rightarrow> string \<Rightarrow> string" where
  "skipQuotedFrom quote [] = []"
| "skipQuotedFrom quote [c] = []"
| "skipQuotedFrom quote (c # c' # cs) =
     (if c = backslash then skipQuotedFrom quote cs
      else if c = quote then (if c' = quote then skipQuotedFrom quote cs else c' # cs)
      else skipQuotedFrom quote (c' # cs))"

definition lineEnd :: "string \<Rightarrow> string" where
  "lineEnd text = (case strings_IndexByte text (CHR 0x0A) of Some nl \<Rightarrow> drop (nl + 1) text | None \<Rightarrow> [])"

lemma length_skipQuotedFrom: "length (skipQuotedFrom quote cs) \<le> length cs"
  by (induction quote cs rule: skipQuotedFrom.induct) auto

lemma length_lineEnd: "length (lineEnd text) \<le> length text"
  by (simp add: lineEnd_def split: option.split)

lemma length_lineEnd_Cons: "c \<noteq> CHR 0x0A \<Longrightarrow> length (lineEnd (c # text)) \<le> length text"
  by (simp add: lineEnd_def strings_IndexByte_def split: option.split)

function tokenizeSQL_from :: "nat \<Rightarrow> nat \<Rightarrow> string \<Rightarrow> sqlToken list" where
  "tokenizeSQL_from room depth text =
     (if room = 0 then []
      else (case text of
        [] \<Rightarrow> []
      | c # cs \<Rightarrow>
          if c \<in> {CHR '' '', CHR 0x09, CHR 0x0A, CHR 0x0D, CHR '','', CHR '';''} then tokenizeSQL_from room depth cs
          else if c = CHR ''('' then tokenizeSQL_from room (depth + 1) cs
          else if c = CHR '')'' then tokenizeSQL_from room (depth - 1) cs
          else if c = CHR ''/'' \<and> cs \<noteq> [] \<and> hd cs = CHR ''*'' then
            (case strings_Index (tl cs) ''*/'' of None \<Rightarrow> [] | Some n \<Rightarrow> tokenizeSQL_from room depth (drop (n + 2) (tl cs)))
          else if c = CHR ''-'' \<and> cs \<noteq> [] \<and> hd cs = CHR ''-'' then tokenizeSQL_from room depth (lineEnd (c # cs))
          else if c = CHR ''#'' then tokenizeSQL_from room depth (lineEnd (c # cs))
          else if quoteByte c then
            \<lparr>tk_word = [], tk_depth = depth\<rparr> # tokenizeSQL_from (room - 1) depth (skipQuotedFrom c cs)
          else if isWordByte c then
            \<lparr>tk_word = strings_ToUpper (takeWhile isWordByte (c # cs)), tk_depth = depth\<rparr> #
              tokenizeSQL_from (room - 1) depth (dropWhile isWordByte cs)
          else tokenizeSQL_from room depth cs))"
  by pat_completeness auto
termination
  by (relation "measure (\<lambda>(room, depth, text). length text)")
    (auto simp: length_skipQuotedFrom length_dropWhile_le length_lineEnd_Cons le_imp_less_Suc)

declare tokenizeSQL_from.simps [simp del]

definition tokenizeSQL :: "string \<Rightarrow> nat \<Rightarrow> sqlToken list" where
  "tokenizeSQL text maxTokens = tokenizeSQL_from maxTokens 0 text"

fun firstBodyKind :: "sqlToken list \<Rightarrow> StatementKind" where
  "firstBodyKind [] = KindOther"
| "firstBodyKind (token # tokens) =
     (if tk_depth token \<noteq> 0 \<or> tk_word token = [] then firstBodyKind tokens
      else (case keywordKind (tk_word token) of Some kind \<Rightarrow> kind | None \<Rightarrow> firstBodyKind tokens))"

definition Classify :: "string \<Rightarrow> StatementKind" where
  "Classify text =
     (if text = MissingQueryText then KindOther
      else (case tokenizeSQL text classifyTokenLimit of
              [] \<Rightarrow> KindOther
            | token # tokens \<Rightarrow>
                if tk_word token = ''WITH'' then firstBodyKind tokens
                else (case keywordKind (tk_word token) of Some kind \<Rightarrow> kind | None \<Rightarrow> KindOther)))"

subsection \<open>Literals and comments are opaque\<close>

definition escapeQuoted :: "char \<Rightarrow> string \<Rightarrow> string" where
  "escapeQuoted q x = concat (map (\<lambda>c. if c = q \<or> c = backslash then [c, c] else [c]) x)"

lemma quoteByte_not_backslash: "quoteByte q \<Longrightarrow> q \<noteq> backslash"
  by (auto simp: quoteByte_def backslash_def)

lemma skipQuotedFrom_plain:
  "c \<noteq> backslash \<Longrightarrow> c \<noteq> q \<Longrightarrow> cs \<noteq> [] \<Longrightarrow> skipQuotedFrom q (c # cs) = skipQuotedFrom q cs"
  by (cases cs) simp_all

lemma skipQuotedFrom_escaped:
  assumes "q \<noteq> backslash" and "rest = [] \<or> hd rest \<noteq> q"
  shows "skipQuotedFrom q (escapeQuoted q x @ q # rest) = rest"
proof (induction x)
  case Nil
  then show ?case using assms by (cases rest) (simp_all add: escapeQuoted_def)
next
  case (Cons c x)
  have e: "escapeQuoted q (c # x) = (if c = q \<or> c = backslash then [c, c] else [c]) @ escapeQuoted q x"
    by (simp add: escapeQuoted_def)
  show ?case using Cons assms(1) by (cases "c = q \<or> c = backslash") (auto simp: e skipQuotedFrom_plain)
qed

lemma strings_Index_comment:
  assumes "strings_Index c ''*/'' = None"
  shows "strings_Index (c @ ''*/'' @ rest) ''*/'' = Some (length c)"
  using assms
proof (induction c)
  case Nil
  show ?case by (simp add: strings_Index.simps)
next
  case (Cons a c)
  have "strings_Index c ''*/'' = None" "take 2 (a # c) \<noteq> ''*/''"
    using Cons.prems by (simp_all add: strings_Index.simps [of "a # c"] split: if_splits)
  moreover from this have "take 2 (a # c @ ''*/'' @ rest) \<noteq> ''*/''" by (cases c) auto
  ultimately show ?case using Cons.IH by (simp add: strings_Index.simps [of "a # c @ CHR ''*'' # CHR ''/'' # rest"] eval_nat_numeral)
qed

lemma strings_IndexByte_append: "c \<notin> set xs \<Longrightarrow> strings_IndexByte (xs @ c # ys) c = Some (length xs)"
  by (induction xs) (auto simp: strings_IndexByte_def)

lemma tokenize_quoted:
  assumes "quoteByte q"
  shows "tokenizeSQL_from (Suc room) depth (q # cs) =
    \<lparr>tk_word = [], tk_depth = depth\<rparr> # tokenizeSQL_from room depth (skipQuotedFrom q cs)"
  using assms by (auto simp: tokenizeSQL_from.simps [of "Suc room" depth "q # cs"] quoteByte_def)

lemma tokenize_comment:
  assumes "strings_Index c ''*/'' = None"
  shows "tokenizeSQL_from room depth (''/*'' @ c @ ''*/'' @ rest) = tokenizeSQL_from room depth rest"
  using strings_Index_comment [OF assms, of rest]
  by (cases "room = 0") (simp_all add: tokenizeSQL_from.simps [of 0] tokenizeSQL_from.simps [of room depth "CHR ''/'' # _"])

lemma tokenize_line_comment:
  assumes "CHR 0x0A \<notin> set c"
  shows "tokenizeSQL_from room depth (''--'' @ c @ CHR 0x0A # rest) = tokenizeSQL_from room depth rest"
    and "tokenizeSQL_from room depth (''#'' @ c @ CHR 0x0A # rest) = tokenizeSQL_from room depth rest"
proof -
  have "lineEnd (''--'' @ c @ CHR 0x0A # rest) = rest"
    using strings_IndexByte_append [of "CHR 0x0A" "''--'' @ c" rest] assms by (simp add: lineEnd_def)
  then show "tokenizeSQL_from room depth (''--'' @ c @ CHR 0x0A # rest) = tokenizeSQL_from room depth rest"
    by (cases "room = 0") (simp_all add: tokenizeSQL_from.simps [of 0] tokenizeSQL_from.simps [of room depth "CHR ''-'' # _"])
  have "lineEnd (''#'' @ c @ CHR 0x0A # rest) = rest"
    using strings_IndexByte_append [of "CHR 0x0A" "''#'' @ c" rest] assms by (simp add: lineEnd_def)
  then show "tokenizeSQL_from room depth (''#'' @ c @ CHR 0x0A # rest) = tokenizeSQL_from room depth rest"
    by (cases "room = 0") (simp_all add: tokenizeSQL_from.simps [of 0] tokenizeSQL_from.simps [of room depth "CHR ''#'' # _"])
qed



end
