(* ===== verification/Sql_Rows.thy ===== *)
theory Sql_Rows
  imports Sql_Classify Tables Run_Types "HOL-Library.Word"
begin

text \<open>
  \<open>sqlrows/sample.go\<close>, \<open>sqlrows/section.go\<close> and \<open>sqlrows/delta.go\<close>: the interval between two readings
  of MySQL's statement digests. Maps are association lists with distinct keys, in any order; a nil
  sample, a nil map and an empty one read the same. A counter is a 64-bit word, so a subtraction that
  should not have happened would wrap. \<open>ExaminedPerSent\<close> and \<open>HasRatio\<close> are one field: the two operands
  of the float64 quotient, or nothing.
\<close>

subsection \<open>Samples\<close>

definition CodeProbeSkip :: string where "CodeProbeSkip = ''probe-skip''"
definition CodeNoSchema :: string where "CodeNoSchema = ''no-schema''"
definition CodeInspectorDefaultDB :: string where "CodeInspectorDefaultDB = ''inspector-default-db''"
definition CodeQueryError :: string where "CodeQueryError = ''query-error''"
definition CodeUnpairedBoundary :: string where "CodeUnpairedBoundary = ''unpaired-boundary''"
definition CodeDBRestart :: string where "CodeDBRestart = ''db-restart''"
definition CodeCounterReset :: string where "CodeCounterReset = ''counter-reset''"

definition AnomalyMissing :: string where "AnomalyMissing = ''clock-missing''"
definition AnomalyBackwardsBaseline :: string where "AnomalyBackwardsBaseline = ''clock-backwards-baseline''"
definition AnomalyBackwardsFinal :: string where "AnomalyBackwardsFinal = ''clock-backwards-final''"
definition AnomalyBackwardsInterval :: string where "AnomalyBackwardsInterval = ''clock-backwards-interval''"

definition DigestTextFetchLimit :: nat where "DigestTextFetchLimit = 200"

record DigestRow =
  dr_CountStar :: "64 word"
  dr_TimerWait :: "64 word"
  dr_RowsExamined :: "64 word"
  dr_RowsSent :: "64 word"
  dr_RowsAffected :: "64 word"
  dr_CreatedTmpDiskTables :: "64 word"
  dr_SortMergePasses :: "64 word"
  dr_NoIndexUsed :: "64 word"
  dr_NoGoodIndexUsed :: "64 word"

definition zeroDigestRow :: DigestRow where
  "zeroDigestRow = \<lparr>dr_CountStar = 0, dr_TimerWait = 0, dr_RowsExamined = 0, dr_RowsSent = 0, dr_RowsAffected = 0,
     dr_CreatedTmpDiskTables = 0, dr_SortMergePasses = 0, dr_NoIndexUsed = 0, dr_NoGoodIndexUsed = 0\<rparr>"

record TargetSample =
  ts_TargetID :: string
  ts_Schema :: string
  ts_ServerUUID :: string
  ts_UptimeSec :: int
  ts_UTCBefore :: gotime
  ts_UTCAfter :: gotime
  ts_Digests :: "(string \<times> DigestRow) list"
  ts_Overflow :: DigestRow
  ts_HasOverflow :: bool
  ts_Texts :: "(string \<times> string) list"
  ts_Captured :: bool
  ts_Code :: string
  ts_Err :: string

type_synonym Sample = "(string \<times> TargetSample option) list"

definition target :: "Sample \<Rightarrow> string \<Rightarrow> TargetSample option" where
  "target s tid = (case map_of s tid of Some (Some t) \<Rightarrow> Some t | _ \<Rightarrow> None)"

definition ids :: "Sample \<Rightarrow> string list" where
  "ids s = map fst s"

definition sub :: "DigestRow \<Rightarrow> DigestRow \<Rightarrow> DigestRow" where
  "sub r prev =
     \<lparr>dr_CountStar = dr_CountStar r - dr_CountStar prev, dr_TimerWait = dr_TimerWait r - dr_TimerWait prev,
      dr_RowsExamined = dr_RowsExamined r - dr_RowsExamined prev, dr_RowsSent = dr_RowsSent r - dr_RowsSent prev,
      dr_RowsAffected = dr_RowsAffected r - dr_RowsAffected prev,
      dr_CreatedTmpDiskTables = dr_CreatedTmpDiskTables r - dr_CreatedTmpDiskTables prev,
      dr_SortMergePasses = dr_SortMergePasses r - dr_SortMergePasses prev,
      dr_NoIndexUsed = dr_NoIndexUsed r - dr_NoIndexUsed prev, dr_NoGoodIndexUsed = dr_NoGoodIndexUsed r - dr_NoGoodIndexUsed prev\<rparr>"

definition advancedFrom :: "DigestRow \<Rightarrow> DigestRow \<Rightarrow> bool" where
  "advancedFrom r prev \<longleftrightarrow>
     dr_CountStar r \<ge> dr_CountStar prev \<and> dr_TimerWait r \<ge> dr_TimerWait prev \<and> dr_RowsExamined r \<ge> dr_RowsExamined prev \<and>
     dr_RowsSent r \<ge> dr_RowsSent prev \<and> dr_RowsAffected r \<ge> dr_RowsAffected prev \<and>
     dr_CreatedTmpDiskTables r \<ge> dr_CreatedTmpDiskTables prev \<and> dr_SortMergePasses r \<ge> dr_SortMergePasses prev \<and>
     dr_NoIndexUsed r \<ge> dr_NoIndexUsed prev \<and> dr_NoGoodIndexUsed r \<ge> dr_NoGoodIndexUsed prev"

record DBClock =
  dc_BaselineBefore :: gotime
  dc_BaselineAfter :: gotime
  dc_FinalBefore :: gotime
  dc_FinalAfter :: gotime
  dc_Monotonic :: bool
  dc_Anomaly :: string

definition newDBClock :: "TargetSample \<Rightarrow> TargetSample \<Rightarrow> DBClock" where
  "newDBClock base final =
     (let clock = \<lparr>dc_BaselineBefore = ts_UTCBefore base, dc_BaselineAfter = ts_UTCAfter base, dc_FinalBefore = ts_UTCBefore final,
                   dc_FinalAfter = ts_UTCAfter final, dc_Monotonic = False, dc_Anomaly = []\<rparr>
      in if IsZero (ts_UTCBefore base) \<or> IsZero (ts_UTCAfter base) \<or> IsZero (ts_UTCBefore final) \<or> IsZero (ts_UTCAfter final)
         then clock\<lparr>dc_Anomaly := AnomalyMissing\<rparr>
         else if ts_UTCAfter base < ts_UTCBefore base then clock\<lparr>dc_Anomaly := AnomalyBackwardsBaseline\<rparr>
         else if ts_UTCAfter final < ts_UTCBefore final then clock\<lparr>dc_Anomaly := AnomalyBackwardsFinal\<rparr>
         else if ts_UTCBefore final < ts_UTCAfter base then clock\<lparr>dc_Anomaly := AnomalyBackwardsInterval\<rparr>
         else clock\<lparr>dc_Monotonic := True\<rparr>)"

definition skew :: "DBClock \<Rightarrow> duration" where
  "skew c =
     (if dc_Anomaly c = AnomalyBackwardsBaseline then time_Sub (dc_BaselineAfter c) (dc_BaselineBefore c)
      else if dc_Anomaly c = AnomalyBackwardsFinal then time_Sub (dc_FinalAfter c) (dc_FinalBefore c)
      else if dc_Anomaly c = AnomalyBackwardsInterval then time_Sub (dc_FinalBefore c) (dc_BaselineAfter c) else 0)"

subsection \<open>The section\<close>

definition HealthSkip :: string where "HealthSkip = ''sqlrows-skip''"
definition HealthNoSchema :: string where "HealthNoSchema = ''sqlrows-no-schema''"
definition HealthOverflow :: string where "HealthOverflow = ''sqlrows-overflow''"
definition HealthDBRestart :: string where "HealthDBRestart = ''sqlrows-db-restart''"
definition HealthCounterReset :: string where "HealthCounterReset = ''sqlrows-counter-reset''"
definition HealthClockAnomaly :: string where "HealthClockAnomaly = ''sqlrows-clock-anomaly''"
definition HealthTargetDropped :: string where "HealthTargetDropped = ''sqlrows-target-dropped''"

record DigestStat =
  ds_Digest :: string
  ds_Query :: string
  ds_Kind :: StatementKind
  ds_Count :: "64 word"
  ds_TimerWaitPicos :: "64 word"
  ds_TotalTime :: duration
  ds_RowsExamined :: "64 word"
  ds_RowsSent :: "64 word"
  ds_RowsAffected :: "64 word"
  ds_Ratio :: "(64 word \<times> 64 word) option"
  ds_NoIndexUsed :: "64 word"
  ds_NoGoodIndexUsed :: "64 word"
  ds_CreatedTmpDiskTables :: "64 word"
  ds_SortMergePasses :: "64 word"

record OverflowStat =
  ov_Detected :: bool
  ov_CountStar :: "64 word"
  ov_ReportedBy :: string

definition zeroOverflowStat :: OverflowStat where
  "zeroOverflowStat = \<lparr>ov_Detected = False, ov_CountStar = 0, ov_ReportedBy = []\<rparr>"

definition zeroDBClock :: DBClock where
  "zeroDBClock = \<lparr>dc_BaselineBefore = 0, dc_BaselineAfter = 0, dc_FinalBefore = 0, dc_FinalAfter = 0, dc_Monotonic = False, dc_Anomaly = []\<rparr>"

record TargetSection =
  tg_TargetID :: string
  tg_Schema :: string
  tg_Usable :: bool
  tg_Code :: string
  tg_Reason :: string
  tg_Digests :: "DigestStat list"
  tg_Shown :: nat
  tg_Total :: nat
  tg_Dropped :: int
  tg_Overflow :: OverflowStat
  tg_DBClock :: DBClock

definition newTargetSection :: "string \<Rightarrow> TargetSection" where
  "newTargetSection tid =
     \<lparr>tg_TargetID = tid, tg_Schema = [], tg_Usable = False, tg_Code = [], tg_Reason = [], tg_Digests = [], tg_Shown = 0,
      tg_Total = 0, tg_Dropped = 0, tg_Overflow = zeroOverflowStat, tg_DBClock = zeroDBClock\<rparr>"

record HealthNote =
  hn_Key :: string
  hn_Message :: string

record Section =
  se_Targets :: "TargetSection list"
  se_Health :: "HealthNote list"
  se_Validity :: Validity
  se_Limit :: nat

text \<open>\<open>noteSet\<close>: a note key is the pair of its key and its reason.\<close>

record noteSet =
  ns_order :: "(string \<times> string) list"
  ns_targets :: "((string \<times> string) \<times> string list) list"

definition newNoteSet :: noteSet where
  "newNoteSet = \<lparr>ns_order = [], ns_targets = []\<rparr>"

definition add_note :: "string \<Rightarrow> string \<Rightarrow> string \<Rightarrow> noteSet \<Rightarrow> noteSet" where
  "add_note key reason tid n =
     \<lparr>ns_order = (if map_of (ns_targets n) (key, reason) = None then ns_order n @ [(key, reason)] else ns_order n),
      ns_targets = alter (key, reason) [] (\<lambda>ts. ts @ [tid]) (ns_targets n)\<rparr>"

definition renderNotes :: "noteSet \<Rightarrow> HealthNote list" where
  "renderNotes n =
     map (\<lambda>k. \<lparr>hn_Key = fst k,
               hn_Message = strings_Join (case map_of (ns_targets n) k of None \<Rightarrow> [] | Some ts \<Rightarrow> ts) '', '' @
                 (if snd k \<noteq> [] then '' ('' @ snd k @ '')'' else [])\<rparr>)
       (sort (ns_order n))"

subsection \<open>The interval of one target\<close>

definition intervalDigests :: "(string \<times> DigestRow) list \<Rightarrow> (string \<times> DigestRow) list \<Rightarrow> (string \<times> DigestRow) list" where
  "intervalDigests base final =
     map (\<lambda>(digest, current).
       (digest, case map_of base digest of
                  Some previous \<Rightarrow> if advancedFrom current previous then sub current previous else current
                | None \<Rightarrow> current)) final"

definition digestOrder :: "string \<times> DigestRow \<Rightarrow> int \<times> string" where
  "digestOrder p = (- int (unat (dr_TimerWait (snd p))), fst p)"

text \<open>\<open>activeDigests\<close> returns the digests; here they keep the row that was ordered.\<close>

definition activeDigests :: "(string \<times> DigestRow) list \<Rightarrow> (string \<times> DigestRow) list" where
  "activeDigests deltas = sort_key digestOrder (filter (\<lambda>p. dr_CountStar (snd p) \<noteq> 0) deltas)"

definition rankDigests :: "(string \<times> DigestRow) list \<Rightarrow> nat \<Rightarrow> string list" where
  "rankDigests deltas limit = take limit (map fst (activeDigests deltas))"

definition digestStat :: "(string \<times> string) list \<Rightarrow> string \<times> DigestRow \<Rightarrow> DigestStat" where
  "digestStat texts = (\<lambda>(digest, row).
     let (query, kind) = (case map_of texts digest of
                            Some text \<Rightarrow> if strings_TrimSpace text \<noteq> [] then (text, Classify text) else (MissingQueryText, KindOther)
                          | None \<Rightarrow> (MissingQueryText, KindOther))
     in \<lparr>ds_Digest = digest, ds_Query = query, ds_Kind = kind, ds_Count = dr_CountStar row, ds_TimerWaitPicos = dr_TimerWait row,
         ds_TotalTime = int (unat (dr_TimerWait row) div 1000), ds_RowsExamined = dr_RowsExamined row, ds_RowsSent = dr_RowsSent row,
         ds_RowsAffected = dr_RowsAffected row,
         ds_Ratio = (if kind = KindSelect \<and> dr_RowsSent row > 0 then Some (dr_RowsExamined row, dr_RowsSent row) else None),
         ds_NoIndexUsed = dr_NoIndexUsed row, ds_NoGoodIndexUsed = dr_NoGoodIndexUsed row,
         ds_CreatedTmpDiskTables = dr_CreatedTmpDiskTables row, ds_SortMergePasses = dr_SortMergePasses row\<rparr>)"

text \<open>The smallest key a loop over a map keeps; the empty string is its start value.\<close>

fun smallest :: "string \<Rightarrow> string list \<Rightarrow> string" where
  "smallest best [] = best"
| "smallest best (k # ks) = smallest (if best = [] \<or> k < best then k else best) ks"

definition lostDigest :: "(string \<times> DigestRow) list \<Rightarrow> (string \<times> DigestRow) list \<Rightarrow> string" where
  "lostDigest base final = smallest [] (filter (\<lambda>digest. map_of final digest = None) (map fst base))"

definition shortDigest :: "string \<Rightarrow> string" where
  "shortDigest digest =
     (if length digest \<le> 16 then digest else take 16 digest @ [char_of (226 :: nat), char_of (128 :: nat), char_of (166 :: nat)])"

definition rewoundRow :: "(string \<times> DigestRow) list \<Rightarrow> string \<times> DigestRow \<Rightarrow> bool" where
  "rewoundRow base = (\<lambda>(digest, current).
     case map_of base digest of None \<Rightarrow> False | Some previous \<Rightarrow> \<not> advancedFrom current previous)"

definition rewoundDigest :: "TargetSample \<Rightarrow> TargetSample \<Rightarrow> string" where
  "rewoundDigest b f =
     (let rewound = smallest [] (map fst (filter (rewoundRow (ts_Digests b)) (ts_Digests f)))
      in if rewound \<noteq> [] then shortDigest rewound
         else if ts_HasOverflow b \<and> ts_HasOverflow f \<and> \<not> advancedFrom (ts_Overflow f) (ts_Overflow b) then ''the overflow row''
         else [])"

definition overflowDelta :: "TargetSample \<Rightarrow> TargetSample \<Rightarrow> DigestRow" where
  "overflowDelta b f =
     (if \<not> ts_HasOverflow f then zeroDigestRow
      else if \<not> ts_HasOverflow b then ts_Overflow f
      else if \<not> advancedFrom (ts_Overflow f) (ts_Overflow b) then zeroDigestRow
      else sub (ts_Overflow f) (ts_Overflow b))"

record intervalEval =
  ie_clock :: DBClock
  ie_code :: string
  ie_reason :: string
  ie_stats :: "DigestStat list"
  ie_total :: nat
  ie_overflow :: DigestRow

definition evaluateInterval :: "TargetSample \<Rightarrow> TargetSample \<Rightarrow> intervalEval" where
  "evaluateInterval b f =
     (let eval = \<lparr>ie_clock = newDBClock b f, ie_code = [], ie_reason = [], ie_stats = [], ie_total = 0, ie_overflow = zeroDigestRow\<rparr>
      in if ts_ServerUUID b \<noteq> [] \<and> ts_ServerUUID f \<noteq> [] \<and> ts_ServerUUID b \<noteq> ts_ServerUUID f then
           eval\<lparr>ie_code := CodeDBRestart, ie_reason := ''server uuid changed between the boundaries''\<rparr>
         else if ts_UptimeSec f < ts_UptimeSec b \<and> dc_Monotonic (newDBClock b f) then
           eval\<lparr>ie_code := CodeDBRestart,
                ie_reason := ''uptime fell from '' @ show_int (ts_UptimeSec b) @ ''s to '' @ show_int (ts_UptimeSec f) @ ''s''\<rparr>
         else if lostDigest (ts_Digests b) (ts_Digests f) \<noteq> [] then
           eval\<lparr>ie_code := CodeCounterReset,
                ie_reason := ''baseline digest '' @ shortDigest (lostDigest (ts_Digests b) (ts_Digests f)) @ '' is gone from the final reading''\<rparr>
         else if rewoundDigest b f \<noteq> [] then
           eval\<lparr>ie_code := CodeCounterReset, ie_reason := ''counters went backwards for '' @ rewoundDigest b f\<rparr>
         else
           (let ordered = activeDigests (intervalDigests (ts_Digests b) (ts_Digests f))
            in eval\<lparr>ie_total := length ordered,
                    ie_stats := map (digestStat (ts_Texts f)) (take DigestTextFetchLimit ordered),
                    ie_overflow := overflowDelta b f\<rparr>))"

definition overflowStat ::
  "string \<Rightarrow> string \<Rightarrow> DigestRow \<Rightarrow> (string \<times> string) list \<Rightarrow> OverflowStat \<times> (string \<times> string) list" where
  "overflowStat serverUUID targetID delta reportedBy =
     (if dr_CountStar delta = 0 then (zeroOverflowStat, reportedBy)
      else if serverUUID = [] then (\<lparr>ov_Detected = True, ov_CountStar = dr_CountStar delta, ov_ReportedBy = []\<rparr>, reportedBy)
      else (case map_of reportedBy serverUUID of
              Some owner \<Rightarrow> (\<lparr>ov_Detected = False, ov_CountStar = dr_CountStar delta, ov_ReportedBy = owner\<rparr>, reportedBy)
            | None \<Rightarrow> (\<lparr>ov_Detected = True, ov_CountStar = dr_CountStar delta, ov_ReportedBy = []\<rparr>, (serverUUID, targetID) # reportedBy)))"

definition droppedTarget :: "string \<Rightarrow> TargetSample option \<Rightarrow> TargetSample option \<Rightarrow> TargetSection" where
  "droppedTarget tid b f =
     (let t0 = (newTargetSection tid)\<lparr>tg_Code := CodeUnpairedBoundary\<rparr>;
          t1 = (case (b, f) of
                  (Some b, Some f) \<Rightarrow>
                    (let source = (if \<not> ts_Captured b then b else f)
                     in t0\<lparr>tg_Schema := ts_Schema source, tg_Code := ts_Code source, tg_Reason := ts_Err source\<rparr>)
                | (Some b, None) \<Rightarrow> t0\<lparr>tg_Schema := ts_Schema b, tg_Reason := ''the target was only present at the opening boundary''\<rparr>
                | (None, Some f) \<Rightarrow> t0\<lparr>tg_Schema := ts_Schema f, tg_Reason := ''the target was only present at the closing boundary''\<rparr>
                | (None, None) \<Rightarrow> t0);
          t2 = (if tg_Code t1 = [] then t1\<lparr>tg_Code := CodeUnpairedBoundary\<rparr> else t1)
      in if tg_Reason t2 = [] then t2\<lparr>tg_Reason := tg_Code t2\<rparr> else t2)"

definition healthReason :: "string \<Rightarrow> string \<Rightarrow> string" where
  "healthReason code detail =
     (if code \<in> {CodeProbeSkip, CodeQueryError, CodeDBRestart, CodeCounterReset, CodeInspectorDefaultDB} \<and> detail \<noteq> []
      then detail else code)"

definition healthKeyFor :: "string \<Rightarrow> string" where
  "healthKeyFor code =
     (if code \<in> {CodeProbeSkip, CodeInspectorDefaultDB} then HealthSkip
      else if code = CodeNoSchema then HealthNoSchema
      else if code = CodeDBRestart then HealthDBRestart
      else if code = CodeCounterReset then HealthCounterReset
      else HealthTargetDropped)"

definition clockReason :: "DBClock \<Rightarrow> string" where
  "clockReason clock =
     (if skew clock \<noteq> 0 then dc_Anomaly clock @ '', '' @ Duration_String (skew clock) else dc_Anomaly clock)"

definition unionIDs :: "Sample \<Rightarrow> Sample \<Rightarrow> string list" where
  "unionIDs base final = sort (remdups (ids base @ ids final))"

subsection \<open>The whole section\<close>

record building =
  bu_targets :: "TargetSection list"
  bu_validity :: Validity
  bu_notes :: noteSet
  bu_overflowBy :: "(string \<times> string) list"

definition addTarget :: "Sample \<Rightarrow> Sample \<Rightarrow> string \<Rightarrow> building \<Rightarrow> building" where
  "addTarget base final tid st =
     (case (target base tid, target final tid) of
        (Some b, Some f) \<Rightarrow>
          if \<not> ts_Captured b \<or> \<not> ts_Captured f then
            (let t = droppedTarget tid (Some b) (Some f)
             in st\<lparr>bu_targets := bu_targets st @ [t], bu_validity := ValidityPartial,
                   bu_notes := add_note (healthKeyFor (tg_Code t)) (healthReason (tg_Code t) (tg_Reason t)) tid (bu_notes st)\<rparr>)
          else
            (let eval = evaluateInterval b f;
                 t = (newTargetSection tid)\<lparr>tg_Schema := ts_Schema f, tg_DBClock := ie_clock eval\<rparr>
             in if ie_code eval \<noteq> [] then
                  st\<lparr>bu_targets := bu_targets st @ [t\<lparr>tg_Code := ie_code eval, tg_Reason := ie_reason eval\<rparr>],
                     bu_validity := ValidityPartial,
                     bu_notes := add_note (healthKeyFor (ie_code eval)) (healthReason (ie_code eval) (ie_reason eval)) tid (bu_notes st)\<rparr>
                else
                  (let (overflow, by) = overflowStat (ts_ServerUUID f) tid (ie_overflow eval) (bu_overflowBy st);
                       t' = t\<lparr>tg_Usable := True, tg_Digests := ie_stats eval, tg_Shown := length (ie_stats eval),
                              tg_Total := ie_total eval, tg_Dropped := int (ie_total eval) - int (length (ie_stats eval)),
                              tg_Overflow := overflow\<rparr>;
                       n1 = (if ov_Detected overflow then add_note HealthOverflow
                               (show_nat (unat (dr_CountStar (ie_overflow eval))) @
                                '' statements fell into the overflow row; raise performance_schema_digests_size'') tid (bu_notes st)
                             else bu_notes st);
                       n2 = (if \<not> dc_Monotonic (ie_clock eval) then add_note HealthClockAnomaly (clockReason (ie_clock eval)) tid n1 else n1)
                   in st\<lparr>bu_targets := bu_targets st @ [t'],
                         bu_validity := (if \<not> dc_Monotonic (ie_clock eval) then ValidityPartial else bu_validity st),
                         bu_notes := n2, bu_overflowBy := by\<rparr>))
      | (b, f) \<Rightarrow>
          (let t = droppedTarget tid b f
           in st\<lparr>bu_targets := bu_targets st @ [t], bu_validity := ValidityPartial,
                 bu_notes := add_note (healthKeyFor (tg_Code t)) (healthReason (tg_Code t) (tg_Reason t)) tid (bu_notes st)\<rparr>))"

definition startBuilding :: building where
  "startBuilding = \<lparr>bu_targets = [], bu_validity = ValidityValid, bu_notes = newNoteSet, bu_overflowBy = []\<rparr>"

definition buildSection :: "Sample \<Rightarrow> Sample \<Rightarrow> Section" where
  "buildSection base final =
     (let st = fold (addTarget base final) (unionIDs base final) startBuilding
      in \<lparr>se_Targets = bu_targets st, se_Health = renderNotes (bu_notes st), se_Validity = bu_validity st, se_Limit = DigestTextFetchLimit\<rparr>)"

subsection \<open>When an interval is published\<close>

lemma smallest_Nil: "[] \<notin> set ks \<Longrightarrow> smallest best ks = [] \<longleftrightarrow> best = [] \<and> ks = []"
  by (induction best ks rule: smallest.induct) auto

lemma shortDigest_Nil [simp]: "shortDigest d = [] \<longleftrightarrow> d = []"
  by (auto simp: shortDigest_def)

lemma code_names [simp]: "CodeDBRestart \<noteq> []" "CodeCounterReset \<noteq> []" "CodeUnpairedBoundary \<noteq> []"
  by (simp_all add: CodeDBRestart_def CodeCounterReset_def CodeUnpairedBoundary_def)

text \<open>The digests of a reading: non-empty and different.\<close>

definition wellKeyed :: "(string \<times> 'a) list \<Rightarrow> bool" where
  "wellKeyed m \<longleftrightarrow> distinct (map fst m) \<and> [] \<notin> fst ` set m"

definition samePast :: "TargetSample \<Rightarrow> TargetSample \<Rightarrow> bool" where
  "samePast b f \<longleftrightarrow>
     (\<forall>digest. map_of (ts_Digests b) digest \<noteq> None \<longrightarrow> map_of (ts_Digests f) digest \<noteq> None) \<and>
     (\<forall>digest previous current. map_of (ts_Digests b) digest = Some previous \<and> map_of (ts_Digests f) digest = Some current \<longrightarrow>
        advancedFrom current previous) \<and>
     (ts_HasOverflow b \<and> ts_HasOverflow f \<longrightarrow> advancedFrom (ts_Overflow f) (ts_Overflow b))"

lemma lostDigest_Nil:
  assumes "wellKeyed base"
  shows "lostDigest base final = [] \<longleftrightarrow> (\<forall>digest. map_of base digest \<noteq> None \<longrightarrow> map_of final digest \<noteq> None)"
proof -
  have "lostDigest base final = [] \<longleftrightarrow> filter (\<lambda>digest. map_of final digest = None) (map fst base) = []"
    using assms unfolding lostDigest_def by (subst smallest_Nil) (auto simp: wellKeyed_def)
  then show ?thesis by (auto simp: filter_empty_conv map_of_eq_None_iff)
qed

lemma rewoundDigest_Nil:
  assumes "wellKeyed (ts_Digests f)"
  shows "rewoundDigest b f = [] \<longleftrightarrow>
    (\<forall>digest previous current. map_of (ts_Digests b) digest = Some previous \<and> map_of (ts_Digests f) digest = Some current \<longrightarrow>
        advancedFrom current previous) \<and>
    (ts_HasOverflow b \<and> ts_HasOverflow f \<longrightarrow> advancedFrom (ts_Overflow f) (ts_Overflow b))"
proof -
  have mem: "(digest, current) \<in> set (ts_Digests f) \<longleftrightarrow> map_of (ts_Digests f) digest = Some current" for digest current
    using assms by (simp add: wellKeyed_def)
  have "smallest [] (map fst (filter (rewoundRow (ts_Digests b)) (ts_Digests f))) = [] \<longleftrightarrow>
      (\<forall>digest current. (digest, current) \<in> set (ts_Digests f) \<longrightarrow> \<not> rewoundRow (ts_Digests b) (digest, current))"
    using assms by (subst smallest_Nil) (auto simp: wellKeyed_def filter_empty_conv)
  also have "\<dots> \<longleftrightarrow> (\<forall>digest previous current. map_of (ts_Digests b) digest = Some previous \<and>
      map_of (ts_Digests f) digest = Some current \<longrightarrow> advancedFrom current previous)"
    by (auto simp: rewoundRow_def mem split: option.split)
  finally show ?thesis by (auto simp: rewoundDigest_def Let_def)
qed

lemma samePast_iff:
  assumes "wellKeyed (ts_Digests b)" and "wellKeyed (ts_Digests f)"
  shows "samePast b f \<longleftrightarrow> lostDigest (ts_Digests b) (ts_Digests f) = [] \<and> rewoundDigest b f = []"
  unfolding lostDigest_Nil [OF assms(1)] rewoundDigest_Nil [OF assms(2)] samePast_def by blast


subsection \<open>The published numbers\<close>

definition rowCounters :: "DigestRow \<Rightarrow> nat list" where
  "rowCounters r = map unat [dr_CountStar r, dr_TimerWait r, dr_RowsExamined r, dr_RowsSent r, dr_RowsAffected r,
     dr_CreatedTmpDiskTables r, dr_SortMergePasses r, dr_NoIndexUsed r, dr_NoGoodIndexUsed r]"

definition statCounters :: "DigestStat \<Rightarrow> nat list" where
  "statCounters s = map unat [ds_Count s, ds_TimerWaitPicos s, ds_RowsExamined s, ds_RowsSent s, ds_RowsAffected s,
     ds_CreatedTmpDiskTables s, ds_SortMergePasses s, ds_NoIndexUsed s, ds_NoGoodIndexUsed s]"

definition rowAt :: "(string \<times> DigestRow) list \<Rightarrow> string \<Rightarrow> DigestRow" where
  "rowAt m digest = (case map_of m digest of None \<Rightarrow> zeroDigestRow | Some r \<Rightarrow> r)"

lemma unat_word_diff: "(a :: 64 word) \<le> b \<Longrightarrow> unat a + unat (b - a) = unat b"
  by (metis add.commute diff_add_cancel unat_plus_simple word_sub_le le_add_diff_inverse unat_mono word_le_nat_alt unat_sub)

lemma sub_exact: "advancedFrom r prev \<Longrightarrow> map2 (+) (rowCounters prev) (rowCounters (sub r prev)) = rowCounters r"
  by (simp add: rowCounters_def sub_def advancedFrom_def unat_word_diff)

lemma rowCounters_zero: "map2 (+) (rowCounters zeroDigestRow) (rowCounters r) = rowCounters r"
  by (simp add: rowCounters_def zeroDigestRow_def)

lemma statCounters_digestStat: "statCounters (digestStat texts p) = rowCounters (snd p)" "ds_Digest (digestStat texts p) = fst p"
  by (simp_all add: statCounters_def digestStat_def rowCounters_def Let_def split: prod.split)

lemma intervalDigests_exact:
  assumes "samePast b f" and "wellKeyed (ts_Digests f)" and "p \<in> set (intervalDigests (ts_Digests b) (ts_Digests f))"
  shows "\<exists>r. map_of (ts_Digests f) (fst p) = Some r \<and> map2 (+) (rowCounters (rowAt (ts_Digests b) (fst p))) (rowCounters (snd p)) = rowCounters r"
proof -
  obtain digest current where p: "(digest, current) \<in> set (ts_Digests f)" "fst p = digest"
    "snd p = (case map_of (ts_Digests b) digest of
        Some previous \<Rightarrow> if advancedFrom current previous then sub current previous else current | None \<Rightarrow> current)"
    using assms(3) by (auto simp: intervalDigests_def)
  have m: "map_of (ts_Digests f) digest = Some current" using assms(2) p(1) by (simp add: wellKeyed_def)
  show ?thesis
  proof (cases "map_of (ts_Digests b) digest")
    case None
    then show ?thesis using p m by (simp add: rowAt_def rowCounters_zero)
  next
    case (Some previous)
    then have "advancedFrom current previous" using assms(1) m by (auto simp: samePast_def)
    then show ?thesis using p m Some by (simp add: rowAt_def sub_exact)
  qed
qed

definition ranDuring :: "TargetSample \<Rightarrow> TargetSample \<Rightarrow> string set" where
  "ranDuring b f = {digest. \<exists>r. map_of (ts_Digests f) digest = Some r \<and> dr_CountStar r \<noteq> dr_CountStar (rowAt (ts_Digests b) digest)}"

lemma intervalDigests_keys: "map fst (intervalDigests base final) = map fst final"
  by (simp add: intervalDigests_def case_prod_unfold comp_def)

lemma active_facts:
  assumes "samePast b f" and "wellKeyed (ts_Digests f)" and "ordered = activeDigests (intervalDigests (ts_Digests b) (ts_Digests f))"
  shows "distinct (map fst ordered)" and "fst ` set ordered = ranDuring b f" and "sorted (map digestOrder ordered)"
    and "p \<in> set ordered \<Longrightarrow> map2 (+) (rowCounters (rowAt (ts_Digests b) (fst p))) (rowCounters (snd p)) = rowCounters (rowAt (ts_Digests f) (fst p))"
proof -
  let ?deltas = "intervalDigests (ts_Digests b) (ts_Digests f)"
  have keys: "distinct (map fst ?deltas)" using assms(2) by (simp add: intervalDigests_keys wellKeyed_def)
  have "mset (map fst ordered) = mset (map fst (filter (\<lambda>p. dr_CountStar (snd p) \<noteq> 0) ?deltas))"
    by (simp add: assms(3) activeDigests_def)
  then show "distinct (map fst ordered)" using distinct_map_filter [OF keys] by (metis mset_eq_imp_distinct_iff)
  show "sorted (map digestOrder ordered)" by (simp add: assms(3) activeDigests_def)
  have set: "set ordered = {p \<in> set ?deltas. dr_CountStar (snd p) \<noteq> 0}" by (simp add: assms(3) activeDigests_def)
  note exact = intervalDigests_exact [OF assms(1,2)]
  show "map2 (+) (rowCounters (rowAt (ts_Digests b) (fst p))) (rowCounters (snd p)) = rowCounters (rowAt (ts_Digests f) (fst p))"
    if "p \<in> set ordered"
    using exact [of p] that by (auto simp: set rowAt_def)
  have count: "dr_CountStar (snd p) \<noteq> 0 \<longleftrightarrow> fst p \<in> ranDuring b f" if p: "p \<in> set ?deltas" for p
  proof -
    obtain r where r: "map_of (ts_Digests f) (fst p) = Some r"
      "map2 (+) (rowCounters (rowAt (ts_Digests b) (fst p))) (rowCounters (snd p)) = rowCounters r" using exact [OF p] by blast
    then have "unat (dr_CountStar (rowAt (ts_Digests b) (fst p))) + unat (dr_CountStar (snd p)) = unat (dr_CountStar r)"
      by (simp add: rowCounters_def)
    then have "dr_CountStar (snd p) \<noteq> 0 \<longleftrightarrow> dr_CountStar r \<noteq> dr_CountStar (rowAt (ts_Digests b) (fst p))"
      by (metis add_cancel_right_right unat_eq_zero word_unat_eq_iff)
    with r(1) show ?thesis by (simp add: ranDuring_def)
  qed
  have "fst ` set ?deltas = fst ` set (ts_Digests f)" by (metis intervalDigests_keys set_map)
  then have "ranDuring b f \<subseteq> fst ` set ?deltas" by (auto simp: ranDuring_def dest!: map_of_SomeD intro: rev_image_eqI)
  then show "fst ` set ordered = ranDuring b f" using count by (force simp: set)
qed

lemma published_eval:
  assumes "wellKeyed (ts_Digests b)" and "wellKeyed (ts_Digests f)" and "ie_code (evaluateInterval b f) = []"
  shows "samePast b f" and "ie_total (evaluateInterval b f) = length (activeDigests (intervalDigests (ts_Digests b) (ts_Digests f)))"
    and "ie_stats (evaluateInterval b f) = map (digestStat (ts_Texts f))
      (take DigestTextFetchLimit (activeDigests (intervalDigests (ts_Digests b) (ts_Digests f))))"
proof -
  show "samePast b f"
    using assms(3) unfolding samePast_iff [OF assms(1,2)] by (auto simp: evaluateInterval_def Let_def split: if_splits)
qed (use assms(3) in \<open>auto simp: evaluateInterval_def Let_def split: if_splits\<close>)

lemma digestOrder_time: "digestOrder p \<le> digestOrder q \<Longrightarrow> unat (dr_TimerWait (snd q)) \<le> unat (dr_TimerWait (snd p))"
  unfolding digestOrder_def less_eq_prod_def fst_conv snd_conv neg_less_iff_less neg_le_iff_le of_nat_less_iff of_nat_le_iff by auto

text \<open>
  C36: The numbers of a published interval are exact. The rows shown are for different digests that ran
  during the interval, the total counts all of those, and at most 200 are shown. In each of the nine
  columns the opening reading (zero for a digest it does not have) plus the published value is the
  closing reading, as numbers, so no subtraction wrapped. The rows are in order of decreasing total time,
  and no digest left out took longer than one that is shown.
\<close>

theorem interval_numbers_exact:
  assumes "wellKeyed (ts_Digests b)" and "wellKeyed (ts_Digests f)" and "e = evaluateInterval b f" and "ie_code e = []"
  shows "ie_total e = card (ranDuring b f) \<and> length (ie_stats e) = min DigestTextFetchLimit (card (ranDuring b f)) \<and>
    distinct (map ds_Digest (ie_stats e)) \<and> set (map ds_Digest (ie_stats e)) \<subseteq> ranDuring b f \<and>
    (\<forall>s \<in> set (ie_stats e). map2 (+) (rowCounters (rowAt (ts_Digests b) (ds_Digest s))) (statCounters s) =
       rowCounters (rowAt (ts_Digests f) (ds_Digest s))) \<and>
    sorted_wrt (\<lambda>s s'. unat (ds_TimerWaitPicos s') \<le> unat (ds_TimerWaitPicos s)) (ie_stats e) \<and>
    (\<forall>s \<in> set (ie_stats e). \<forall>digest \<in> ranDuring b f - set (map ds_Digest (ie_stats e)).
       unat (dr_TimerWait (rowAt (ts_Digests f) digest)) \<le> unat (dr_TimerWait (rowAt (ts_Digests b) digest)) + unat (ds_TimerWaitPicos s))"
proof -
  let ?o = "activeDigests (intervalDigests (ts_Digests b) (ts_Digests f))" and ?n = DigestTextFetchLimit
  note e = published_eval [OF assms(1,2)] and a = active_facts [OF _ assms(2) refl, of b]
  have sp: "samePast b f" and tot: "ie_total e = length ?o" and st: "ie_stats e = map (digestStat (ts_Texts f)) (take ?n ?o)"
    using e assms(3,4) by simp_all
  have dig: "map ds_Digest (ie_stats e) = take ?n (map fst ?o)"
    by (simp add: st statCounters_digestStat comp_def take_map)
  have tw: "unat (ds_TimerWaitPicos (digestStat texts p)) = unat (dr_TimerWait (snd p))" for texts p
    using statCounters_digestStat(1) [of texts p] by (simp add: statCounters_def rowCounters_def)
  have card: "length ?o = card (ranDuring b f)" using a(1,2) [OF sp] by (metis distinct_card length_map set_map)
  have sorted: "sorted_wrt (\<lambda>p q. digestOrder p \<le> digestOrder q) (take ?n ?o @ drop ?n ?o)"
    using a(3) [OF sp] by (simp add: sorted_wrt_map)
  have "sorted_wrt (\<lambda>s s'. unat (ds_TimerWaitPicos s') \<le> unat (ds_TimerWaitPicos s)) (ie_stats e)"
    using sorted unfolding st sorted_wrt_map tw sorted_wrt_append by (auto elim!: sorted_wrt_mono_rel [rotated] dest: digestOrder_time)
  moreover have "unat (dr_TimerWait (rowAt (ts_Digests f) digest)) \<le> unat (dr_TimerWait (rowAt (ts_Digests b) digest)) + unat (ds_TimerWaitPicos s)"
    if s: "s \<in> set (ie_stats e)" and d: "digest \<in> ranDuring b f" and out: "digest \<notin> set (map ds_Digest (ie_stats e))" for s digest
  proof -
    obtain p where p: "p \<in> set (take ?n ?o)" "unat (ds_TimerWaitPicos s) = unat (dr_TimerWait (snd p))" using s tw unfolding st set_map by blast
    obtain q where q: "q \<in> set ?o" "fst q = digest" using d a(2) [OF sp] by (metis imageE)
    then have "q \<notin> set (take ?n ?o)" using out by (auto simp: dig take_map)
    moreover have "q \<in> set (take ?n ?o @ drop ?n ?o)" using q(1) by simp
    ultimately have "q \<in> set (drop ?n ?o)" unfolding set_append by blast
    then have "digestOrder p \<le> digestOrder q" using sorted p(1) unfolding sorted_wrt_append by blast
    then show ?thesis using a(4) [OF sp q(1)] p(2) q(2) digestOrder_time [of p q] by (simp add: rowCounters_def)
  qed
  moreover have "\<forall>s \<in> set (ie_stats e). map2 (+) (rowCounters (rowAt (ts_Digests b) (ds_Digest s))) (statCounters s) =
       rowCounters (rowAt (ts_Digests f) (ds_Digest s))"
    using a(4) [OF sp] by (auto simp: st statCounters_digestStat dest: in_set_takeD)
  moreover have "distinct (map ds_Digest (ie_stats e)) \<and> set (map ds_Digest (ie_stats e)) \<subseteq> ranDuring b f"
    unfolding dig using a(1,2) [OF sp] by (auto simp: distinct_take dest: in_set_takeD)
  ultimately show ?thesis using tot card st by (auto simp: min.commute)
qed

definition exampleRow :: "64 word \<Rightarrow> 64 word \<Rightarrow> DigestRow" where
  "exampleRow n wait = zeroDigestRow\<lparr>dr_CountStar := n, dr_TimerWait := wait, dr_RowsExamined := 10 * n, dr_RowsSent := n\<rparr>"

definition exampleSample :: "gotime \<Rightarrow> (string \<times> DigestRow) list \<Rightarrow> TargetSample" where
  "exampleSample at digests =
     \<lparr>ts_TargetID = ''db'', ts_Schema = ''app'', ts_ServerUUID = ''u1'', ts_UptimeSec = at, ts_UTCBefore = at, ts_UTCAfter = at + 1,
      ts_Digests = digests, ts_Overflow = zeroDigestRow, ts_HasOverflow = False, ts_Texts = [], ts_Captured = True, ts_Code = [], ts_Err = []\<rparr>"

definition exampleOpening :: TargetSample where
  "exampleOpening = exampleSample 100 [(''d1'', exampleRow 5 50), (''d2'', exampleRow 2 20)]"

definition exampleClosing :: TargetSample where
  "exampleClosing = exampleSample 200 [(''d2'', exampleRow 2 20), (''d1'', exampleRow 8 90), (''d3'', exampleRow 1 70)]"

lemmas example_rows = exampleOpening_def exampleClosing_def exampleSample_def exampleRow_def zeroDigestRow_def

lemma example_readings:
  "wellKeyed (ts_Digests exampleOpening)" "wellKeyed (ts_Digests exampleClosing)" "samePast exampleOpening exampleClosing"
  "ranDuring exampleOpening exampleClosing = {''d1'', ''d3''}" "dc_Monotonic (newDBClock exampleOpening exampleClosing)"
proof -
  show "wellKeyed (ts_Digests exampleOpening)" "wellKeyed (ts_Digests exampleClosing)"
    by (simp_all add: wellKeyed_def example_rows)
  show "samePast exampleOpening exampleClosing"
    by (auto simp: samePast_def example_rows advancedFrom_def split: if_splits)
  show "ranDuring exampleOpening exampleClosing = {''d1'', ''d3''}"
    by (auto simp: ranDuring_def example_rows rowAt_def split: if_splits)
  show "dc_Monotonic (newDBClock exampleOpening exampleClosing)" by (simp add: newDBClock_def example_rows IsZero_def)
qed


lemma example_published: "ie_code (evaluateInterval exampleOpening exampleClosing) = []"
  using example_readings(3) unfolding samePast_iff [OF example_readings(1,2)] by (simp add: evaluateInterval_def Let_def) (simp add: example_rows)

theorem interval_numbers_exact_witness:
  "ie_total (evaluateInterval exampleOpening exampleClosing) = 2 \<and> length (ie_stats (evaluateInterval exampleOpening exampleClosing)) = 2"
  using interval_numbers_exact [OF example_readings(1,2) refl example_published]
  by (simp add: example_readings(4) DigestTextFetchLimit_def)

subsection \<open>The section as a whole\<close>

definition serverOf :: "Sample \<Rightarrow> string \<Rightarrow> string" where
  "serverOf final tid = (case target final tid of None \<Rightarrow> [] | Some f \<Rightarrow> ts_ServerUUID f)"

definition sound :: "TargetSection \<Rightarrow> bool" where
  "sound t \<longleftrightarrow> tg_Usable t \<and> dc_Monotonic (tg_DBClock t)"

lemma droppedTarget_facts:
  "tg_TargetID (droppedTarget tid b f) = tid" "\<not> tg_Usable (droppedTarget tid b f)"
  "tg_Overflow (droppedTarget tid b f) = zeroOverflowStat" "tg_Digests (droppedTarget tid b f) = []"
  "tg_Code (droppedTarget tid b f) \<noteq> []" "tg_Reason (droppedTarget tid b f) \<noteq> []"
  by (auto simp: droppedTarget_def newTargetSection_def Let_def split: option.split)

lemma addTarget_cases:
  obtains t where "bu_targets (addTarget base final tid st) = bu_targets st @ [t]" "tg_TargetID t = tid" "\<not> tg_Usable t"
      "tg_Overflow t = zeroOverflowStat" "tg_Digests t = []" "tg_Code t \<noteq> []"
      "bu_validity (addTarget base final tid st) = ValidityPartial" "bu_overflowBy (addTarget base final tid st) = bu_overflowBy st"
    | t delta where "bu_targets (addTarget base final tid st) = bu_targets st @ [t]" "tg_TargetID t = tid" "tg_Usable t" "tg_Code t = []"
      "overflowStat (serverOf final tid) tid delta (bu_overflowBy st) = (tg_Overflow t, bu_overflowBy (addTarget base final tid st))"
      "bu_validity (addTarget base final tid st) = (if dc_Monotonic (tg_DBClock t) then bu_validity st else ValidityPartial)"
proof (cases "target base tid")
  case None
  then show thesis using droppedTarget_facts [of tid None "target final tid"] that(1)
    by (auto simp: addTarget_def Let_def)
next
  case b: (Some b)
  show thesis
  proof (cases "target final tid")
    case None
    then show thesis using b droppedTarget_facts [of tid "Some b" None] that(1) by (auto simp: addTarget_def Let_def)
  next
    case f: (Some f)
    let ?e = "evaluateInterval b f"
    consider (lost) "\<not> ts_Captured b \<or> \<not> ts_Captured f" | (bad) "ts_Captured b" "ts_Captured f" "ie_code ?e \<noteq> []"
      | (good) "ts_Captured b" "ts_Captured f" "ie_code ?e = []" by blast
    then show thesis
    proof cases
      case lost
      then show thesis using b f droppedTarget_facts [of tid "Some b" "Some f"] that(1) by (auto simp: addTarget_def Let_def)
    next
      case bad
      then show thesis using b f by (intro that(1)) (auto simp: addTarget_def Let_def newTargetSection_def)
    next
      case good
      obtain ov by' where o: "overflowStat (ts_ServerUUID f) tid (ie_overflow ?e) (bu_overflowBy st) = (ov, by')" by force
      show thesis using b f good o
        by (intro that(2) [of _ "ie_overflow ?e"]) (auto simp: addTarget_def Let_def newTargetSection_def serverOf_def)
    qed
  qed
qed

definition section_inv :: "Sample \<Rightarrow> string list \<Rightarrow> building \<Rightarrow> bool" where
  "section_inv final tids st \<longleftrightarrow> map tg_TargetID (bu_targets st) = tids \<and>
     bu_validity st = (if \<forall>t \<in> set (bu_targets st). sound t then ValidityValid else ValidityPartial) \<and>
     (\<forall>t \<in> set (bu_targets st). tg_Usable t = (tg_Code t = []) \<and> (\<not> tg_Usable t \<longrightarrow> tg_Digests t = [])) \<and>
     (\<forall>server tid. server \<noteq> [] \<longrightarrow> (map_of (bu_overflowBy st) server = Some tid \<longleftrightarrow>
        (\<exists>t \<in> set (bu_targets st). tg_TargetID t = tid \<and> ov_Detected (tg_Overflow t) \<and> serverOf final tid = server))) \<and>
     (\<forall>t \<in> set (bu_targets st). ov_CountStar (tg_Overflow t) \<noteq> 0 \<and> \<not> ov_Detected (tg_Overflow t) \<longrightarrow>
        serverOf final (tg_TargetID t) \<noteq> [] \<and> map_of (bu_overflowBy st) (serverOf final (tg_TargetID t)) = Some (ov_ReportedBy (tg_Overflow t)))"

lemma overflowStat_cases:
  assumes "overflowStat server tid delta by1 = (ov, by2)"
  obtains "ov = zeroOverflowStat" "by2 = by1"
    | "ov_Detected ov" "server = []" "by2 = by1"
    | owner where "\<not> ov_Detected ov" "server \<noteq> []" "map_of by1 server = Some owner" "ov_ReportedBy ov = owner" "by2 = by1"
    | "ov_Detected ov" "server \<noteq> []" "map_of by1 server = None" "by2 = (server, tid) # by1"
proof (cases "dr_CountStar delta = 0")
  case True
  then show thesis using assms that(1) by (simp add: overflowStat_def)
next
  case n: False
  show thesis
  proof (cases "server = []")
    case True
    then show thesis using n assms that(2) by (auto simp: overflowStat_def)
  next
    case False
    show thesis
    proof (cases "map_of by1 server")
      case None
      then have "ov_Detected ov" "by2 = (server, tid) # by1" using n False assms by (auto simp: overflowStat_def)
      with None False show thesis by (intro that(4))
    next
      case (Some owner)
      then have "\<not> ov_Detected ov" "ov_ReportedBy ov = owner" "by2 = by1" using n False assms by (auto simp: overflowStat_def)
      with Some False show thesis by (intro that(3))
    qed
  qed
qed

lemma section_inv_add:
  assumes "section_inv final tids st"
  shows "section_inv final (tids @ [tid]) (addTarget base final tid st)"
proof (cases rule: addTarget_cases [of base final tid st])
  case (1 t)
  then show ?thesis using assms by (auto simp: section_inv_def sound_def zeroOverflowStat_def)
next
  case (2 t delta)
  note inv = assms [unfolded section_inv_def]
  show ?thesis using 2(5)
  proof (cases rule: overflowStat_cases)
    case 1
    then show ?thesis using inv 2 by (auto simp: section_inv_def sound_def zeroOverflowStat_def)
  next
    case (2)
    then show ?thesis using inv \<open>bu_targets _ = _\<close> \<open>tg_TargetID t = tid\<close> \<open>tg_Usable t\<close> \<open>tg_Code t = []\<close> \<open>bu_validity _ = _\<close>
      by (auto simp: section_inv_def sound_def)
  next
    case (3 owner)
    then show ?thesis using inv 2 by (auto simp: section_inv_def sound_def)
  next
    case 4
    then show ?thesis using inv 2 by (auto simp: section_inv_def sound_def)
  qed
qed

lemma section_inv_run: "section_inv final tids st \<Longrightarrow> section_inv final (tids @ ids') (fold (addTarget base final) ids' st)"
proof (induction ids' arbitrary: tids st)
  case (Cons tid ids')
  then show ?case using Cons.IH [OF section_inv_add [OF Cons.prems, of tid base]] by simp
qed simp

lemma section_inv_start: "section_inv final [] startBuilding"
  by (simp add: section_inv_def startBuilding_def)

lemma unique_id: "distinct (map f xs) \<Longrightarrow> x \<in> set xs \<Longrightarrow> y \<in> set xs \<Longrightarrow> f x = f y \<Longrightarrow> x = y"
  by (auto simp: distinct_map inj_on_def)

text \<open>
  The section speaks for every target that either boundary saw, once, in the order of their
  identifiers. A target without an interval has a code and no rows. The verdict is valid exactly when
  every target is usable with a database clock that kept its order, and partial otherwise, never
  invalid. The overflow row, which belongs to the server, is reported once per known server: of the
  targets of one server at most one reports it, and every other target that saw it names that one.
\<close>

lemma section_accounts_for_targets:
  assumes "s = buildSection base final"
  shows "map tg_TargetID (se_Targets s) = unionIDs base final \<and> sorted (unionIDs base final) \<and> distinct (unionIDs base final) \<and>
    set (unionIDs base final) = fst ` set base \<union> fst ` set final \<and>
    se_Validity s = (if \<forall>t \<in> set (se_Targets s). tg_Usable t \<and> dc_Monotonic (tg_DBClock t) then ValidityValid else ValidityPartial) \<and>
    (\<forall>t \<in> set (se_Targets s). tg_Usable t \<noteq> (tg_Code t \<noteq> []) \<and> (\<not> tg_Usable t \<longrightarrow> tg_Digests t = [])) \<and>
    (\<forall>t \<in> set (se_Targets s). \<forall>t' \<in> set (se_Targets s).
       ov_Detected (tg_Overflow t) \<and> ov_Detected (tg_Overflow t') \<and> serverOf final (tg_TargetID t) \<noteq> [] \<and>
       serverOf final (tg_TargetID t) = serverOf final (tg_TargetID t') \<longrightarrow> t = t') \<and>
    (\<forall>t \<in> set (se_Targets s). ov_CountStar (tg_Overflow t) \<noteq> 0 \<and> \<not> ov_Detected (tg_Overflow t) \<longrightarrow>
       (\<exists>t' \<in> set (se_Targets s). ov_Detected (tg_Overflow t') \<and> tg_TargetID t' = ov_ReportedBy (tg_Overflow t) \<and>
          serverOf final (tg_TargetID t') = serverOf final (tg_TargetID t)))"
proof -
  let ?st = "fold (addTarget base final) (unionIDs base final) startBuilding"
  have i: "section_inv final (unionIDs base final) ?st" using section_inv_run [OF section_inv_start] by simp
  have s: "se_Targets s = bu_targets ?st" "se_Validity s = bu_validity ?st" by (simp_all add: assms buildSection_def Let_def)
  have u: "sorted (unionIDs base final)" "distinct (unionIDs base final)" "set (unionIDs base final) = fst ` set base \<union> fst ` set final"
    by (auto simp: unionIDs_def ids_def)
  have ids: "map tg_TargetID (se_Targets s) = unionIDs base final" using i s by (simp add: section_inv_def)
  have owner: "map_of (bu_overflowBy ?st) server = Some tid \<longleftrightarrow>
      (\<exists>t \<in> set (se_Targets s). tg_TargetID t = tid \<and> ov_Detected (tg_Overflow t) \<and> serverOf final tid = server)"
    if "server \<noteq> []" for server tid using i that unfolding section_inv_def s(1) by blast
  have once: "t = t'" if "t \<in> set (se_Targets s)" "t' \<in> set (se_Targets s)" "ov_Detected (tg_Overflow t)" "ov_Detected (tg_Overflow t')"
    "serverOf final (tg_TargetID t) \<noteq> []" "serverOf final (tg_TargetID t) = serverOf final (tg_TargetID t')" for t t'
  proof (rule unique_id [OF _ that(1,2)])
    show "distinct (map tg_TargetID (se_Targets s))" using ids u by simp
    have "map_of (bu_overflowBy ?st) (serverOf final (tg_TargetID t)) = Some (tg_TargetID t)"
      "map_of (bu_overflowBy ?st) (serverOf final (tg_TargetID t)) = Some (tg_TargetID t')"
      using that owner [OF that(5)] by auto
    then show "tg_TargetID t = tg_TargetID t'" by simp
  qed
  have "\<exists>t' \<in> set (se_Targets s). ov_Detected (tg_Overflow t') \<and> tg_TargetID t' = ov_ReportedBy (tg_Overflow t) \<and>
      serverOf final (tg_TargetID t') = serverOf final (tg_TargetID t)"
    if "t \<in> set (se_Targets s)" "ov_CountStar (tg_Overflow t) \<noteq> 0" "\<not> ov_Detected (tg_Overflow t)" for t
  proof -
    have n: "serverOf final (tg_TargetID t) \<noteq> []"
      and m: "map_of (bu_overflowBy ?st) (serverOf final (tg_TargetID t)) = Some (ov_ReportedBy (tg_Overflow t))"
      using i that unfolding section_inv_def s(1) by blast+
    then show ?thesis using owner [OF n] by auto
  qed
  moreover have "se_Validity s = (if \<forall>t \<in> set (se_Targets s). tg_Usable t \<and> dc_Monotonic (tg_DBClock t) then ValidityValid else ValidityPartial)"
    using i unfolding section_inv_def s sound_def by blast
  moreover have "\<forall>t \<in> set (se_Targets s). tg_Usable t \<noteq> (tg_Code t \<noteq> []) \<and> (\<not> tg_Usable t \<longrightarrow> tg_Digests t = [])"
    using i unfolding section_inv_def s by blast
  ultimately show ?thesis using ids u once by blast
qed

end
