(* ===== verification/Request_Work.thy ===== *)
theory Request_Work
  imports Tables
begin

text \<open>
  \<open>internal/requestwork/requestwork.go\<close>: the request-local counter that attributes completed SQL and
  outbound HTTP work to one request and splits the wall time of the request when it is closed. A
  \<open>nil\<close> counter (a context with none attached) keeps no state and every operation on it returns at
  once, so the model has the counter itself; its mutex makes each operation one step.
\<close>

subsection \<open>The counter\<close>

definition MaxIntervals :: nat where "MaxIntervals = 256"
definition MaxLabels :: nat where "MaxLabels = 32"
definition MaxLabelLength :: nat where "MaxLabelLength = 64"
definition OverflowLabel :: string where "OverflowLabel = ''(other external calls)''"

record interval =
  iv_start :: gotime
  iv_end :: gotime
  iv_external :: bool

record Call =
  cl_Label :: string
  cl_Count :: int
  cl_Errors :: int
  cl_Reused :: int
  cl_Total :: duration
  cl_Acquire :: duration
  cl_DNS :: duration
  cl_Connect :: duration
  cl_TLS :: duration
  cl_Wait :: duration
  cl_Headers :: duration
  cl_Body :: duration

record Summary =
  sm_SQLTotal :: duration
  sm_ExternalTotal :: duration
  sm_SQLOnly :: duration
  sm_ExternalOnly :: duration
  sm_Overlap :: duration
  sm_Other :: duration
  sm_ExternalCount :: int
  sm_ExternalErrors :: int
  sm_Truncated :: bool
  sm_Calls :: "Call list"

record External =
  ex_Label :: string
  ex_Start :: gotime
  ex_End :: gotime
  ex_Failed :: bool
  ex_Reused :: bool
  ex_Acquire :: duration
  ex_DNS :: duration
  ex_Connect :: duration
  ex_TLS :: duration
  ex_Wait :: duration
  ex_Headers :: duration
  ex_Body :: duration

record Counter =
  ct_closed :: bool
  ct_summary :: Summary
  ct_intervals :: "interval list"
  ct_labels :: "(string \<times> nat) list"

definition newCall :: "string \<Rightarrow> Call" where
  "newCall label = \<lparr>cl_Label = label, cl_Count = 0, cl_Errors = 0, cl_Reused = 0, cl_Total = 0, cl_Acquire = 0, cl_DNS = 0,
     cl_Connect = 0, cl_TLS = 0, cl_Wait = 0, cl_Headers = 0, cl_Body = 0\<rparr>"

definition zeroSummary :: Summary where
  "zeroSummary = \<lparr>sm_SQLTotal = 0, sm_ExternalTotal = 0, sm_SQLOnly = 0, sm_ExternalOnly = 0, sm_Overlap = 0, sm_Other = 0,
     sm_ExternalCount = 0, sm_ExternalErrors = 0, sm_Truncated = False, sm_Calls = []\<rparr>"

definition WithCounter :: Counter where
  "WithCounter = \<lparr>ct_closed = False, ct_summary = zeroSummary, ct_intervals = [], ct_labels = []\<rparr>"

definition addInterval :: "gotime \<Rightarrow> gotime \<Rightarrow> bool \<Rightarrow> Counter \<Rightarrow> Counter" where
  "addInterval start end external c =
     (if sm_Truncated (ct_summary c) then c
      else if length (ct_intervals c) \<ge> MaxIntervals then
        c\<lparr>ct_summary := (ct_summary c)\<lparr>sm_Truncated := True\<rparr>, ct_intervals := []\<rparr>
      else c\<lparr>ct_intervals := ct_intervals c @ [\<lparr>iv_start = start, iv_end = end, iv_external = external\<rparr>]\<rparr>)"

definition CompletedSQL :: "gotime \<Rightarrow> gotime \<Rightarrow> Counter \<Rightarrow> Counter" where
  "CompletedSQL start end c =
     (if \<not> end > start then c
      else if ct_closed c then c
      else addInterval start end False
             (c\<lparr>ct_summary := (ct_summary c)\<lparr>sm_SQLTotal := wrap64 (sm_SQLTotal (ct_summary c) + time_Sub end start)\<rparr>\<rparr>))"

text \<open>
  The labelled calls are the map \<open>c.labels\<close> and the slice \<open>c.summary.Calls\<close> it points into.
  \<open>callIndex\<close> finds the row a label goes to; a new label gets a row while there is room.
\<close>

definition callIndex :: "string \<Rightarrow> (string \<times> nat) list \<times> Call list \<Rightarrow> nat \<times> (string \<times> nat) list \<times> Call list" where
  "callIndex label = (\<lambda>(labels, calls).
     case map_of labels label of
       Some i \<Rightarrow> (i, labels, calls)
     | None \<Rightarrow>
         (let label' = (if length labels \<ge> MaxLabels then OverflowLabel else label)
          in case map_of labels label' of
               Some i \<Rightarrow> (i, labels, calls)
             | None \<Rightarrow> (length calls, labels @ [(label', length calls)], calls @ [newCall label'])))"

definition addCall :: "External \<Rightarrow> Call \<Rightarrow> Call" where
  "addCall e call =
     call\<lparr>cl_Count := wrap64 (cl_Count call + 1),
          cl_Errors := (if ex_Failed e then wrap64 (cl_Errors call + 1) else cl_Errors call),
          cl_Reused := (if ex_Reused e then wrap64 (cl_Reused call + 1) else cl_Reused call),
          cl_Total := wrap64 (cl_Total call + time_Sub (ex_End e) (ex_Start e)),
          cl_Acquire := wrap64 (cl_Acquire call + ex_Acquire e),
          cl_DNS := wrap64 (cl_DNS call + ex_DNS e),
          cl_Connect := wrap64 (cl_Connect call + ex_Connect e),
          cl_TLS := wrap64 (cl_TLS call + ex_TLS e),
          cl_Wait := wrap64 (cl_Wait call + ex_Wait e),
          cl_Headers := wrap64 (cl_Headers call + ex_Headers e),
          cl_Body := wrap64 (cl_Body call + ex_Body e)\<rparr>"

definition countExternal :: "External \<Rightarrow> Summary \<Rightarrow> Summary" where
  "countExternal e s =
     s\<lparr>sm_ExternalTotal := wrap64 (sm_ExternalTotal s + time_Sub (ex_End e) (ex_Start e)),
       sm_ExternalCount := wrap64 (sm_ExternalCount s + 1),
       sm_ExternalErrors := (if ex_Failed e then wrap64 (sm_ExternalErrors s + 1) else sm_ExternalErrors s)\<rparr>"

definition addToRow :: "string \<Rightarrow> External \<Rightarrow> (string \<times> nat) list \<times> Call list \<Rightarrow> (string \<times> nat) list \<times> Call list" where
  "addToRow label e rows =
     (case callIndex label rows of (i, labels, calls) \<Rightarrow> (labels, calls[i := addCall e (calls ! i)]))"

definition CompletedExternal :: "External \<Rightarrow> Counter \<Rightarrow> Counter" where
  "CompletedExternal e c =
     (if \<not> ex_End e > ex_Start e then c
      else if ct_closed c then c
      else
        (let c1 = addInterval (ex_Start e) (ex_End e) True (c\<lparr>ct_summary := countExternal e (ct_summary c)\<rparr>);
             label = take MaxLabelLength (ex_Label e);
             (labels, calls) = addToRow label e (ct_labels c1, sm_Calls (ct_summary c1))
         in c1\<lparr>ct_labels := labels, ct_summary := (ct_summary c1)\<lparr>sm_Calls := calls\<rparr>\<rparr>))"

subsection \<open>Closing: the sweep over interval edges\<close>

record edge =
  ed_t :: gotime
  ed_sql :: int
  ed_ext :: int

fun intervalEdges :: "gotime \<Rightarrow> gotime \<Rightarrow> interval list \<Rightarrow> edge list" where
  "intervalEdges start end [] = []"
| "intervalEdges start end (v # vs) =
     (let a = (if iv_start v < start then start else iv_start v);
          b = (if iv_end v > end then end else iv_end v)
      in if \<not> b > a then intervalEdges start end vs
         else if iv_external v then
           \<lparr>ed_t = a, ed_sql = 0, ed_ext = 1\<rparr> # \<lparr>ed_t = b, ed_sql = 0, ed_ext = - 1\<rparr> # intervalEdges start end vs
         else
           \<lparr>ed_t = a, ed_sql = 1, ed_ext = 0\<rparr> # \<lparr>ed_t = b, ed_sql = - 1, ed_ext = 0\<rparr> # intervalEdges start end vs)"

definition closeEdges :: "gotime \<Rightarrow> gotime \<Rightarrow> interval list \<Rightarrow> edge list" where
  "closeEdges start end vs =
     [\<lparr>ed_t = start, ed_sql = 0, ed_ext = 0\<rparr>, \<lparr>ed_t = end, ed_sql = 0, ed_ext = 0\<rparr>] @ intervalEdges start end vs"

definition addWall :: "int \<Rightarrow> int \<Rightarrow> duration \<Rightarrow> Summary \<Rightarrow> Summary" where
  "addWall sql ext d s =
     (if sql > 0 \<and> ext > 0 then s\<lparr>sm_Overlap := wrap64 (sm_Overlap s + d)\<rparr>
      else if sql > 0 then s\<lparr>sm_SQLOnly := wrap64 (sm_SQLOnly s + d)\<rparr>
      else if ext > 0 then s\<lparr>sm_ExternalOnly := wrap64 (sm_ExternalOnly s + d)\<rparr>
      else s\<lparr>sm_Other := wrap64 (sm_Other s + d)\<rparr>)"

fun sweep :: "int \<Rightarrow> int \<Rightarrow> edge list \<Rightarrow> Summary \<Rightarrow> Summary" where
  "sweep sql ext (e # e' # es) s =
     (let sql' = sql + ed_sql e; ext' = ext + ed_ext e; d = time_Sub (ed_t e') (ed_t e)
      in sweep sql' ext' (e' # es) (if d \<le> 0 then s else addWall sql' ext' d s))"
| "sweep sql ext _ s = s"

text \<open>
  \<open>sort.Slice\<close> promises a sorted permutation and no order among equal instants. \<open>closeSorted\<close> is the
  body of \<open>Close\<close> with the sorted edges as an argument; \<open>Close\<close> sorts stably.
\<close>

definition closeSorted :: "edge list \<Rightarrow> gotime \<Rightarrow> gotime \<Rightarrow> Counter \<Rightarrow> Summary \<times> Counter" where
  "closeSorted edges start end c =
     (if ct_closed c then (ct_summary c, c)
      else
        (let s = (if \<not> sm_Truncated (ct_summary c) \<and> end > start then sweep 0 0 edges (ct_summary c) else ct_summary c)
         in (s, c\<lparr>ct_closed := True, ct_summary := s\<rparr>)))"

definition Close :: "gotime \<Rightarrow> gotime \<Rightarrow> Counter \<Rightarrow> Summary \<times> Counter" where
  "Close start end c = closeSorted (sort_key ed_t (closeEdges start end (ct_intervals c))) start end c"

subsection \<open>The sweep measures its segments\<close>

datatype wall = WOverlap | WSQL | WExternal | WOther

definition wallClass :: "bool \<Rightarrow> bool \<Rightarrow> wall" where
  "wallClass sql ext = (if sql \<and> ext then WOverlap else if sql then WSQL else if ext then WExternal else WOther)"

fun wallOf :: "wall \<Rightarrow> Summary \<Rightarrow> duration" where
  "wallOf WOverlap s = sm_Overlap s"
| "wallOf WSQL s = sm_SQLOnly s"
| "wallOf WExternal s = sm_ExternalOnly s"
| "wallOf WOther s = sm_Other s"

definition active :: "(edge \<Rightarrow> int) \<Rightarrow> edge list \<Rightarrow> gotime \<Rightarrow> int" where
  "active f es t = sum_list (map f (filter (\<lambda>e. ed_t e \<le> t) es))"

lemma active_Cons: "active f (e # es) t = (if ed_t e \<le> t then f e else 0) + active f es t"
  by (simp add: active_def)

lemma active_mset: "active f es t = (\<Sum>e \<in># mset es. if ed_t e \<le> t then f e else 0)"
  by (induction es) (simp_all add: active_def)

lemma active_perm: "mset es = mset es' \<Longrightarrow> active f es t = active f es' t"
  by (simp add: active_mset)

lemma active_before: "\<forall>e \<in> set es. t < ed_t e \<Longrightarrow> active f es t = 0"
  by (induction es) (auto simp: active_def)

lemma wallOf_addWall:
  "wallOf w (addWall sql ext d s) = (if wallClass (sql > 0) (ext > 0) = w then wrap64 (wallOf w s + d) else wallOf w s)"
  by (cases w) (auto simp: addWall_def wallClass_def)

definition segments :: "int \<Rightarrow> int \<Rightarrow> edge list \<Rightarrow> gotime \<Rightarrow> wall \<Rightarrow> gotime set" where
  "segments sql ext es fin w =
     {t. ed_t (hd es) \<le> t \<and> t < fin \<and> wallClass (sql + active ed_sql es t > 0) (ext + active ed_ext es t > 0) = w}"

lemma segments_step:
  assumes "sorted (map ed_t (e # e' # es))" and "ed_t e' \<le> fin"
  shows "int (card (segments sql ext (e # e' # es) fin w)) =
     (if wallClass (sql + ed_sql e > 0) (ext + ed_ext e > 0) = w then ed_t e' - ed_t e else 0) +
     int (card (segments (sql + ed_sql e) (ext + ed_ext e) (e' # es) fin w))"
proof -
  let ?hit = "wallClass (sql + ed_sql e > 0) (ext + ed_ext e > 0) = w"
  let ?rest = "segments (sql + ed_sql e) (ext + ed_ext e) (e' # es) fin w"
  have le: "ed_t e \<le> ed_t e'" and later: "\<forall>x \<in> set (e' # es). ed_t e' \<le> ed_t x" using assms(1) by auto
  have first: "active f (e # e' # es) t = f e" if "ed_t e \<le> t" "t < ed_t e'" for t f
  proof -
    have "\<forall>x \<in> set (e' # es). t < ed_t x" using that later by auto
    from active_before [OF this] show ?thesis using that by (simp add: active_Cons [of f e])
  qed
  have second: "active f (e # e' # es) t = f e + active f (e' # es) t" if "ed_t e' \<le> t" for t f
    using that le by (auto simp: active_Cons [of f e])
  have "segments sql ext (e # e' # es) fin w = (if ?hit then {ed_t e ..< ed_t e'} else {}) \<union> ?rest"
  proof (intro set_eqI)
    fix t
    show "t \<in> segments sql ext (e # e' # es) fin w \<longleftrightarrow> t \<in> (if ?hit then {ed_t e ..< ed_t e'} else {}) \<union> ?rest"
      using first [of t] second [of t] le assms(2)
      by (cases "t < ed_t e'") (auto simp: segments_def add.assoc)
  qed
  moreover have "?rest \<subseteq> {ed_t e' ..< fin}" by (auto simp: segments_def)
  moreover have "{ed_t e ..< ed_t e'} \<inter> ?rest = {}" by (auto simp: segments_def)
  ultimately show ?thesis
    using le finite_subset [of ?rest "{ed_t e' ..< fin}"] by (auto simp: card_Un_disjoint [of _ ?rest])
qed

lemma time_Sub_exact: "u \<le> t \<Longrightarrow> t - u \<le> int64_max \<Longrightarrow> time_Sub t u = t - u"
  by (simp add: go_defs)

lemma sweep_measures:
  assumes "sorted (map ed_t (e # es))" and "ed_t (last (e # es)) - ed_t e \<le> int64_max" and "in_int64 (wallOf w s)"
  shows "wallOf w (sweep sql ext (e # es) s) =
     wrap64 (wallOf w s + int (card (segments sql ext (e # es) (ed_t (last (e # es))) w)))"
  using assms
proof (induction es arbitrary: e sql ext s)
  case Nil
  have "{t. ed_t e \<le> t \<and> t < ed_t e \<and> P t} = {}" for P by auto
  then have "segments sql ext [e] (ed_t e) w = {}" unfolding segments_def by simp
  with Nil show ?case by (simp add: wrap64_id)
next
  case (Cons e' es)
  let ?fin = "ed_t (last (e' # es))"
  have last: "last (e # e' # es) = last (e' # es)" by simp
  have in_list: "last (e' # es) \<in> set (e' # es)" by (rule last_in_set) simp
  have le: "ed_t e \<le> ed_t e'" "ed_t e' \<le> ?fin" using Cons.prems(1) in_list by auto
  have d: "time_Sub (ed_t e') (ed_t e) = ed_t e' - ed_t e" using le Cons.prems(2) by (simp add: time_Sub_exact)
  let ?sql = "sql + ed_sql e" and ?ext = "ext + ed_ext e"
  let ?s = "if ed_t e' - ed_t e \<le> 0 then s else addWall ?sql ?ext (ed_t e' - ed_t e) s"
  let ?first = "if wallClass (?sql > 0) (?ext > 0) = w then ed_t e' - ed_t e else 0"
  have s: "wallOf w ?s = wrap64 (wallOf w s + ?first)"
    using Cons.prems(3) le by (auto simp: wallOf_addWall wrap64_id)
  then have "wallOf w (sweep ?sql ?ext (e' # es) ?s) = wrap64 (wallOf w ?s + int (card (segments ?sql ?ext (e' # es) ?fin w)))"
    using Cons.prems le by (intro Cons.IH) auto
  also have "\<dots> = wrap64 (wallOf w s + (?first + int (card (segments ?sql ?ext (e' # es) ?fin w))))"
    by (simp only: s wrap64_add add.assoc)
  also have "\<dots> = wrap64 (wallOf w s + int (card (segments sql ext (e # e' # es) ?fin w)))"
    using segments_step [OF Cons.prems(1) le(2), of sql ext w] by simp
  finally show ?case by (simp only: sweep.simps(1) Let_def d last)
qed

subsection \<open>What the edges count\<close>

definition covers :: "bool \<Rightarrow> interval list \<Rightarrow> gotime \<Rightarrow> bool" where
  "covers external vs t \<longleftrightarrow> (\<exists>v \<in> set vs. iv_external v = external \<and> iv_start v \<le> t \<and> t < iv_end v)"

lemma intervalEdges_active:
  assumes "start \<le> t" and "t < end"
  shows "0 \<le> active ed_sql (intervalEdges start end vs) t" "0 \<le> active ed_ext (intervalEdges start end vs) t"
    "0 < active ed_sql (intervalEdges start end vs) t \<longleftrightarrow> covers False vs t"
    "0 < active ed_ext (intervalEdges start end vs) t \<longleftrightarrow> covers True vs t"
proof (induction vs)
  case (Cons v vs)
  { case 1 show ?case using Cons assms by (auto simp: Let_def active_Cons) }
  { case 2 show ?case using Cons assms by (auto simp: Let_def active_Cons) }
  { case 3 show ?case using Cons assms by (auto simp: Let_def active_Cons covers_def) }
  { case 4 show ?case using Cons assms by (auto simp: Let_def active_Cons covers_def) }
qed (simp_all add: active_def covers_def)

lemma intervalEdges_within:
  assumes "e \<in> set (intervalEdges start end vs)" and "start < end"
  shows "start \<le> ed_t e \<and> ed_t e \<le> end"
  using assms by (induction vs) (auto simp: Let_def split: if_splits)

lemma closeEdges_span:
  assumes "start < end" and "mset es = mset (closeEdges start end vs)" and "sorted (map ed_t es)"
  shows "es \<noteq> [] \<and> ed_t (hd es) = start \<and> ed_t (last es) = end"
proof -
  have set: "set es = set (closeEdges start end vs)" using assms(2) by (metis set_mset_mset)
  then have ne: "es \<noteq> []" by (auto simp: closeEdges_def)
  have within: "\<forall>e \<in> set es. start \<le> ed_t e \<and> ed_t e \<le> end"
    using set assms(1) intervalEdges_within [of _ start "end" vs] by (auto simp: closeEdges_def)
  have ends: "start \<in> ed_t ` set es" "end \<in> ed_t ` set es" by (simp_all add: set closeEdges_def)
  have "ed_t (hd es) \<le> x \<and> x \<le> ed_t (last es)" if "x \<in> ed_t ` set es" for x
    using that assms(3) by (induction es) (force split: if_splits)+
  with ends within ne show ?thesis by (metis hd_in_set last_in_set order_antisym)
qed

text \<open>The wall time of a class is the number of instants of the request that belong to the class.\<close>

definition wallInstants :: "gotime \<Rightarrow> gotime \<Rightarrow> interval list \<Rightarrow> wall \<Rightarrow> gotime set" where
  "wallInstants start end vs w = {t. start \<le> t \<and> t < end \<and> wallClass (covers False vs t) (covers True vs t) = w}"

lemma sweep_closeEdges:
  assumes "start < end" and "end - start \<le> int64_max"
    and "mset es = mset (closeEdges start end vs)" and "sorted (map ed_t es)" and "wallOf w s = 0"
  shows "wallOf w (sweep 0 0 es s) = int (card (wallInstants start end vs w))"
proof -
  note span = closeEdges_span [OF assms(1,3,4)]
  obtain e es' where es: "es = e # es'" using span by (cases es) auto
  have act: "active f es t = active f (intervalEdges start end vs) t" if "f \<in> {ed_sql, ed_ext}" for f t
    using active_perm [OF assms(3), of f t] that by (auto simp: closeEdges_def active_Cons)
  have seg: "segments 0 0 es end w = wallInstants start end vs w"
    using span intervalEdges_active [of start _ "end" vs] by (auto simp: segments_def wallInstants_def act)
  have "wallInstants start end vs w \<subseteq> {start ..< end}" by (auto simp: wallInstants_def)
  from card_mono [OF _ this] have "in_int64 (int (card (wallInstants start end vs w)))"
    using assms(1,2) by (auto simp: go_defs)
  then show ?thesis
    using sweep_measures [of e es' w s 0 0] assms span seg by (simp add: es wrap64_id go_defs)
qed

subsection \<open>Sequences of completions\<close>

datatype workOp = SQLDone gotime gotime | ExternalDone External

fun workExec :: "workOp \<Rightarrow> Counter \<Rightarrow> Counter" where
  "workExec (SQLDone start end) c = CompletedSQL start end c"
| "workExec (ExternalDone e) c = CompletedExternal e c"

text \<open>What the completions with a positive length are, in order.\<close>

fun workIntervals :: "workOp list \<Rightarrow> interval list" where
  "workIntervals [] = []"
| "workIntervals (SQLDone start end # ops) =
     (if end > start then [\<lparr>iv_start = start, iv_end = end, iv_external = False\<rparr>] else []) @ workIntervals ops"
| "workIntervals (ExternalDone e # ops) =
     (if ex_End e > ex_Start e then [\<lparr>iv_start = ex_Start e, iv_end = ex_End e, iv_external = True\<rparr>] else []) @ workIntervals ops"

fun workExternals :: "workOp list \<Rightarrow> External list" where
  "workExternals [] = []"
| "workExternals (SQLDone start end # ops) = workExternals ops"
| "workExternals (ExternalDone e # ops) = (if ex_End e > ex_Start e then [e] else []) @ workExternals ops"

lemma workIntervals_append: "workIntervals (xs @ ys) = workIntervals xs @ workIntervals ys"
  by (induction xs rule: workIntervals.induct) simp_all

lemma workExternals_append: "workExternals (xs @ ys) = workExternals xs @ workExternals ys"
  by (induction xs rule: workExternals.induct) simp_all

definition work_inv :: "workOp list \<Rightarrow> Counter \<Rightarrow> bool" where
  "work_inv ops c \<longleftrightarrow> \<not> ct_closed c \<and> (\<forall>w. wallOf w (ct_summary c) = 0) \<and>
     (sm_Truncated (ct_summary c) \<longleftrightarrow> length (workIntervals ops) > MaxIntervals) \<and>
     ct_intervals c = (if sm_Truncated (ct_summary c) then [] else workIntervals ops)"

lemma addInterval_inv:
  assumes "work_inv ops c" and "workIntervals [op] = [\<lparr>iv_start = start, iv_end = end, iv_external = external\<rparr>]"
    and "c' = addInterval start end external (c\<lparr>ct_summary := s\<rparr>)"
    and "sm_Truncated s = sm_Truncated (ct_summary c)" and "\<forall>w. wallOf w s = wallOf w (ct_summary c)"
  shows "work_inv (ops @ [op]) c'"
proof -
  have "wallOf w (s\<lparr>sm_Truncated := b\<rparr>) = wallOf w s" for w b by (cases w) simp_all
  with assms show ?thesis
    by (auto simp: work_inv_def addInterval_def workIntervals_append split: if_splits)
qed

lemma work_inv_exec: "work_inv ops c \<Longrightarrow> work_inv (ops @ [op]) (workExec op c)"
proof (cases op)
  case (SQLDone start "end")
  assume i: "work_inv ops c"
  let ?s = "(ct_summary c)\<lparr>sm_SQLTotal := wrap64 (sm_SQLTotal (ct_summary c) + time_Sub end start)\<rparr>"
  have "wallOf w ?s = wallOf w (ct_summary c)" for w by (cases w) simp_all
  then show ?thesis
    using i addInterval_inv [OF i, of op start "end" False _ ?s] SQLDone
    by (cases "end > start") (auto simp: CompletedSQL_def work_inv_def workIntervals_append)
next
  case (ExternalDone e)
  assume i: "work_inv ops c"
  have s: "wallOf w (countExternal e (ct_summary c)) = wallOf w (ct_summary c)" for w by (cases w) (simp_all add: countExternal_def)
  have calls: "wallOf w (s\<lparr>sm_Calls := xs\<rparr>) = wallOf w s" for w s xs by (cases w) simp_all
  show ?thesis
  proof (cases "ex_End e > ex_Start e")
    case True
    let ?c = "addInterval (ex_Start e) (ex_End e) True (c\<lparr>ct_summary := countExternal e (ct_summary c)\<rparr>)"
    have "work_inv (ops @ [op]) ?c"
      using ExternalDone True s by (intro addInterval_inv [OF i _ refl]) (simp_all add: countExternal_def)
    then show ?thesis
      using ExternalDone True i by (auto simp: CompletedExternal_def Let_def work_inv_def calls split: prod.split)
  qed (use ExternalDone i in \<open>simp add: CompletedExternal_def work_inv_def workIntervals_append\<close>)
qed

lemma work_inv_run: "work_inv ops (fold workExec ops WithCounter)"
proof (induction ops rule: rev_induct)
  case Nil
  have "wallOf w zeroSummary = 0" for w by (cases w) (simp_all add: zeroSummary_def)
  then show ?case by (simp add: work_inv_def WithCounter_def) (simp add: zeroSummary_def)
qed (simp add: work_inv_exec)

text \<open>The sweep writes the four wall-time fields only.\<close>

definition noWall :: "Summary \<Rightarrow> Summary" where
  "noWall s = s\<lparr>sm_Overlap := 0, sm_SQLOnly := 0, sm_ExternalOnly := 0, sm_Other := 0\<rparr>"

lemma noWall_sweep: "noWall (sweep sql ext es s) = noWall s"
proof (induction sql ext es s rule: sweep.induct)
  case (1 sql ext e e' es s)
  then show ?case by (simp add: Let_def) (simp add: noWall_def addWall_def)
qed simp_all

lemma Summary_eqI:
  assumes "noWall s = noWall s'" and "\<forall>w. wallOf w s = wallOf w s'"
  shows "(s :: Summary) = s'"
  using assms(1) assms(2) [rule_format, of WOverlap] assms(2) [rule_format, of WSQL]
    assms(2) [rule_format, of WExternal] assms(2) [rule_format, of WOther]
  by (cases s; cases s') (simp add: noWall_def)

lemma sm_Truncated_sweep: "sm_Truncated (sweep sql ext es s) = sm_Truncated s"
  using arg_cong [OF noWall_sweep, of sm_Truncated] by (simp add: noWall_def)

lemma sort_edges: "mset (sort_key ed_t es) = mset es" "sorted (map ed_t (sort_key ed_t es))"
  by (simp_all add: sorted_sort_key)

lemma sweep_order_irrelevant:
  assumes "start < end" and "end - start \<le> int64_max" and "\<forall>w. wallOf w s = 0"
    and "mset es = mset (closeEdges start end vs)" and "sorted (map ed_t es)"
  shows "sweep 0 0 es s = sweep 0 0 (sort_key ed_t (closeEdges start end vs)) s"
proof (rule Summary_eqI)
  show "noWall (sweep 0 0 es s) = noWall (sweep 0 0 (sort_key ed_t (closeEdges start end vs)) s)"
    by (simp only: noWall_sweep)
  show "\<forall>w. wallOf w (sweep 0 0 es s) = wallOf w (sweep 0 0 (sort_key ed_t (closeEdges start end vs)) s)"
    using sweep_closeEdges [OF assms(1,2,4,5)] sweep_closeEdges [OF assms(1,2) sort_edges] assms(3) by simp
qed

lemma wallInstants_partition:
  assumes "start \<le> end"
  shows "int (card (wallInstants start end vs WOverlap)) + int (card (wallInstants start end vs WSQL)) +
     int (card (wallInstants start end vs WExternal)) + int (card (wallInstants start end vs WOther)) = end - start"
proof -
  let ?W = "wallInstants start end vs"
  have sub: "?W w \<subseteq> {start ..< end}" for w by (auto simp: wallInstants_def)
  have fin: "finite (?W w)" for w by (rule finite_subset [OF sub]) simp
  have disj: "w \<noteq> w' \<Longrightarrow> ?W w \<inter> ?W w' = {}" for w w' by (auto simp: wallInstants_def)
  let ?U = "?W WOverlap \<union> ?W WSQL \<union> ?W WExternal \<union> ?W WOther"
  have "{start ..< end} \<subseteq> ?U" by (auto simp: wallInstants_def wallClass_def)
  moreover have "?U \<subseteq> {start ..< end}" using sub by simp
  ultimately have "{start ..< end} = ?U" by (rule equalityI)
  then have "card {start ..< end} = card (?W WOverlap) + card (?W WSQL) + card (?W WExternal) + card (?W WOther)"
    using disj fin by (simp add: card_Un_disjoint Int_Un_distrib2)
  then show ?thesis using assms by simp
qed

text \<open>
  C35: The wall-time fields of a closed request partition the request. Whatever completions were recorded
  and in whatever order \<open>sort.Slice\<close> left edges of the same instant, if at most 256 intervals were
  recorded then \<open>Overlap\<close>, \<open>SQLOnly\<close>, \<open>ExternalOnly\<close> and \<open>Other\<close> are the number of nanoseconds of
  \<open>[start, end)\<close> during which respectively both kinds of work, only SQL, only external calls and
  nothing was running, so they add up to the length of the request; if more were recorded, the summary
  is marked truncated and all four are zero. Closing again returns the same summary.
\<close>

theorem wall_time_partitions_request:
  assumes "start < end" and "end - start \<le> int64_max"
    and "c = fold workExec ops WithCounter"
    and "mset edges = mset (closeEdges start end (ct_intervals c))" and "sorted (map ed_t edges)"
    and "closeSorted edges start end c = (s, c')"
    and "sql = covers False (workIntervals ops)" and "ext = covers True (workIntervals ops)"
  shows "(s, c') = Close start end c \<and> Close start' end' c' = (s, c') \<and>
    (if length (workIntervals ops) > MaxIntervals
     then sm_Truncated s \<and> sm_Overlap s = 0 \<and> sm_SQLOnly s = 0 \<and> sm_ExternalOnly s = 0 \<and> sm_Other s = 0
     else \<not> sm_Truncated s \<and>
          sm_Overlap s = int (card {t. start \<le> t \<and> t < end \<and> sql t \<and> ext t}) \<and>
          sm_SQLOnly s = int (card {t. start \<le> t \<and> t < end \<and> sql t \<and> \<not> ext t}) \<and>
          sm_ExternalOnly s = int (card {t. start \<le> t \<and> t < end \<and> \<not> sql t \<and> ext t}) \<and>
          sm_Other s = int (card {t. start \<le> t \<and> t < end \<and> \<not> sql t \<and> \<not> ext t}) \<and>
          sm_Overlap s + sm_SQLOnly s + sm_ExternalOnly s + sm_Other s = end - start)"
proof -
  have i: "work_inv ops c" unfolding assms(3) by (rule work_inv_run)
  let ?vs = "workIntervals ops" and ?trunc = "sm_Truncated (ct_summary c)"
  have zero: "\<forall>w. wallOf w (ct_summary c) = 0" using i by (simp add: work_inv_def)
  have s: "s = (if ?trunc then ct_summary c else sweep 0 0 edges (ct_summary c))"
    "c' = c\<lparr>ct_closed := True, ct_summary := s\<rparr>"
    using assms(1,6) i by (auto simp: closeSorted_def work_inv_def Let_def split: if_splits)
  have same: "(s, c') = Close start end c"
    using s i assms(1) sweep_order_irrelevant [OF assms(1,2) zero assms(4,5)]
    by (auto simp: Close_def closeSorted_def work_inv_def Let_def)
  have again: "Close start' end' c' = (s, c')" by (simp add: s(2) Close_def closeSorted_def)
  have wall: "wallOf w s = (if ?trunc then 0 else int (card (wallInstants start end ?vs w)))" for w
    using s(1) zero sweep_closeEdges [OF assms(1,2) _ assms(5)] assms(4) i by (auto simp: work_inv_def)
  have trunc: "sm_Truncated s \<longleftrightarrow> length ?vs > MaxIntervals" "?trunc \<longleftrightarrow> length ?vs > MaxIntervals"
    using s(1) i by (simp_all add: sm_Truncated_sweep work_inv_def)
  have sets: "wallInstants start end ?vs WOverlap = {t. start \<le> t \<and> t < end \<and> sql t \<and> ext t}"
    "wallInstants start end ?vs WSQL = {t. start \<le> t \<and> t < end \<and> sql t \<and> \<not> ext t}"
    "wallInstants start end ?vs WExternal = {t. start \<le> t \<and> t < end \<and> \<not> sql t \<and> ext t}"
    "wallInstants start end ?vs WOther = {t. start \<le> t \<and> t < end \<and> \<not> sql t \<and> \<not> ext t}"
    by (auto simp: wallInstants_def wallClass_def assms(7,8) split: if_splits)
  show ?thesis
    using same again trunc wall [of WOverlap] wall [of WSQL] wall [of WExternal] wall [of WOther]
      wallInstants_partition [of start "end" ?vs] assms(1)
    by (simp add: sets)
qed

definition exampleWork :: "workOp list" where
  "exampleWork = [SQLDone 2 6, SQLDone 5 5,
     ExternalDone \<lparr>ex_Label = ''api'', ex_Start = 4, ex_End = 20, ex_Failed = True, ex_Reused = False, ex_Acquire = 1,
       ex_DNS = 0, ex_Connect = 0, ex_TLS = 0, ex_Wait = 3, ex_Headers = 0, ex_Body = 0\<rparr>]"

definition exampleClosedWork :: "Summary \<times> Counter" where
  "exampleClosedWork = Close 0 10 (fold workExec exampleWork WithCounter)"

theorem wall_time_partitions_request_witness:
  "\<not> sm_Truncated (fst exampleClosedWork) \<and>
   sm_Overlap (fst exampleClosedWork) + sm_SQLOnly (fst exampleClosedWork) + sm_ExternalOnly (fst exampleClosedWork) +
     sm_Other (fst exampleClosedWork) = 10"
proof -
  have "length (workIntervals exampleWork) \<le> MaxIntervals" by (simp add: exampleWork_def MaxIntervals_def)
  then show ?thesis
    using wall_time_partitions_request [OF _ _ refl sort_edges _ refl refl, of 0 10 exampleWork "fst exampleClosedWork" "snd exampleClosedWork" 0 0]
    by (simp add: exampleClosedWork_def Close_def go_defs)
qed

subsection \<open>Labelled calls\<close>

type_synonym callRows = "(string \<times> nat) list \<times> Call list"

definition rows_inv :: "callRows \<Rightarrow> bool" where
  "rows_inv rows \<longleftrightarrow> (case rows of (labels, calls) \<Rightarrow>
     labels = zip (map cl_Label calls) [0..<length calls] \<and> distinct (map cl_Label calls) \<and>
     length calls \<le> MaxLabels + 1 \<and> (length calls > MaxLabels \<longrightarrow> OverflowLabel \<in> set (map cl_Label calls)))"

definition callRow :: "callRows \<Rightarrow> string \<Rightarrow> Call option" where
  "callRow rows label = map_option (\<lambda>i. (snd rows ! i)\<lparr>cl_Label := []\<rparr>) (map_of (fst rows) label)"

definition admitsLabel :: "callRows \<Rightarrow> string \<Rightarrow> bool" where
  "admitsLabel rows label \<longleftrightarrow> map_of (fst rows) label \<noteq> None \<or> length (fst rows) < MaxLabels"

lemma map_of_positions:
  assumes "distinct ks"
  shows "map_of (zip ks [0..<length ks]) k = Some i \<longleftrightarrow> i < length ks \<and> ks ! i = k"
    and "map_of (zip ks [0..<length ks]) k = None \<longleftrightarrow> k \<notin> set ks"
  using assms by (auto simp: map_of_zip_nth map_of_zip_is_None in_set_zip dest!: map_of_SomeD)

lemma rows_inv_labels:
  assumes "rows_inv (labels, calls)"
  shows "map_of labels k = Some i \<longleftrightarrow> i < length calls \<and> cl_Label (calls ! i) = k"
    and "map_of labels k = None \<longleftrightarrow> k \<notin> set (map cl_Label calls)" and "length labels = length calls"
proof -
  have l: "labels = zip (map cl_Label calls) [0..<length (map cl_Label calls)]" and d: "distinct (map cl_Label calls)"
    using assms by (simp_all add: rows_inv_def)
  show "map_of labels k = Some i \<longleftrightarrow> i < length calls \<and> cl_Label (calls ! i) = k"
    unfolding l map_of_positions(1) [OF d] by auto
  show "map_of labels k = None \<longleftrightarrow> k \<notin> set (map cl_Label calls)" unfolding l by (rule map_of_positions(2) [OF d])
  show "length labels = length calls" unfolding l by simp
qed

text \<open>The row an admitted label, or any other label, goes to.\<close>

definition targetLabel :: "callRows \<Rightarrow> string \<Rightarrow> string" where
  "targetLabel rows label = (if admitsLabel rows label then label else OverflowLabel)"

lemma callIndex_cases:
  assumes "rows_inv (labels, calls)"
  obtains i where "callIndex label (labels, calls) = (i, labels, calls)" "i < length calls"
      "cl_Label (calls ! i) = targetLabel (labels, calls) label"
    | "targetLabel (labels, calls) label \<notin> set (map cl_Label calls)"
      "callIndex label (labels, calls) =
         (length calls, labels @ [(targetLabel (labels, calls) label, length calls)], calls @ [newCall (targetLabel (labels, calls) label)])"
proof -
  note r = rows_inv_labels [OF assms]
  show thesis
  proof (cases "map_of labels label")
    case (Some i)
    then show thesis using that(1) [of i] r(1) [of label i] by (auto simp: callIndex_def targetLabel_def admitsLabel_def)
  next
    case None
    let ?l = "targetLabel (labels, calls) label"
    have l: "(if length labels \<ge> MaxLabels then OverflowLabel else label) = ?l"
      using None by (simp add: targetLabel_def admitsLabel_def)
    show thesis
    proof (cases "map_of labels ?l")
      case (Some i)
      then show thesis using that(1) [of i] None r(1) [of ?l i] by (auto simp: callIndex_def Let_def l)
    next
      case none: None
      then show thesis using that(2) None r(2) [of ?l] by (auto simp: callIndex_def Let_def l)
    qed
  qed
qed

lemma addCall_label [simp]: "cl_Label (addCall e call) = cl_Label call"
  "addCall e (call\<lparr>cl_Label := l\<rparr>) = (addCall e call)\<lparr>cl_Label := l\<rparr>" "cl_Label (newCall l) = l"
  by (simp_all add: addCall_def newCall_def)

lemma rows_inv_append:
  assumes "rows_inv (labels, calls)" and "l \<notin> set (map cl_Label calls)" and "cl_Label call = l"
    and "length calls < MaxLabels \<or> l = OverflowLabel"
  shows "rows_inv (labels @ [(l, length calls)], calls @ [call])"
  using assms by (auto simp: rows_inv_def)

lemma rows_inv_update:
  assumes "rows_inv (labels, calls)" and "cl_Label call = cl_Label (calls ! i)"
  shows "rows_inv (labels, calls[i := call])"
proof -
  have "map cl_Label (calls[i := call]) = map cl_Label calls"
  proof (rule nth_equalityI)
    fix j assume "j < length (map cl_Label (calls[i := call]))"
    then show "map cl_Label (calls[i := call]) ! j = map cl_Label calls ! j" using assms(2) by (cases "j = i") simp_all
  qed simp
  then show ?thesis using assms(1) by (simp add: rows_inv_def del: set_map)
qed

lemma target_room:
  assumes "rows_inv (labels, calls)" and "targetLabel (labels, calls) label \<notin> set (map cl_Label calls)"
  shows "length calls < MaxLabels \<or> targetLabel (labels, calls) label = OverflowLabel"
  using assms rows_inv_labels [OF assms(1)] by (auto simp: targetLabel_def admitsLabel_def split: if_splits)

lemma rows_inv_add: "rows_inv rows \<Longrightarrow> rows_inv (addToRow label e rows)"
proof (cases rows)
  case (Pair labels calls)
  assume "rows_inv rows"
  then have i: "rows_inv (labels, calls)" by (simp add: Pair)
  show ?thesis
  proof (cases rule: callIndex_cases [OF i, of label])
    case 1
    then show ?thesis using i by (simp add: addToRow_def Pair rows_inv_update)
  next
    case 2
    then show ?thesis
      using rows_inv_append [OF i 2(1) _ target_room [OF i 2(1)]] by (simp add: addToRow_def Pair list_update_append)
  qed
qed

lemma callRow_None: "callRow rows k = None \<longleftrightarrow> map_of (fst rows) k = None"
  by (simp add: callRow_def)

lemma callRow_add:
  assumes "rows_inv rows"
  shows "callRow (addToRow label e rows) k =
     (if k = targetLabel rows label then Some (addCall e (case callRow rows k of None \<Rightarrow> newCall [] | Some v \<Rightarrow> v))
      else callRow rows k)"
proof (cases rows)
  case (Pair labels calls)
  then have i: "rows_inv (labels, calls)" using assms by simp
  note r = rows_inv_labels [OF i]
  show ?thesis
  proof (cases rule: callIndex_cases [OF i, of label])
    case (1 j)
    show ?thesis
    proof (cases "k = targetLabel rows label")
      case True
      then have "map_of labels k = Some j" using 1 r(1) by (simp add: Pair)
      then show ?thesis using 1 True by (simp add: addToRow_def callRow_def Pair)
    next
      case False
      then have "map_of labels k \<noteq> Some j" using 1 r(1) by (simp add: Pair)
      then show ?thesis using 1 False by (cases "map_of labels k") (auto simp: addToRow_def callRow_def Pair)
    qed
  next
    case 2
    have "j < length calls" if "map_of labels k = Some j" for j using that r(1) by simp
    moreover have "map_of labels (targetLabel rows label) = None" using 2(1) r(2) by (simp add: Pair)
    moreover have "(newCall l)\<lparr>cl_Label := []\<rparr> = newCall []" for l by (simp add: newCall_def)
    ultimately show ?thesis
      using 2 by (cases "map_of labels k")
        (auto simp: addToRow_def callRow_def Pair map_add_def list_update_append nth_append addCall_label(2) [symmetric] simp del: addCall_label(2))
  qed
qed

lemma addToRow_labels:
  assumes "rows_inv rows"
  shows "map_of (fst (addToRow label e rows)) k \<noteq> None \<longleftrightarrow> k = targetLabel rows label \<or> map_of (fst rows) k \<noteq> None"
  unfolding callRow_None [symmetric] callRow_add [OF assms] by simp

lemma length_addToRow:
  assumes "rows_inv rows"
  shows "length (fst rows) \<le> length (fst (addToRow label e rows))"
proof (cases rows)
  case (Pair labels calls)
  then have i: "rows_inv (labels, calls)" using assms by simp
  show ?thesis by (cases rule: callIndex_cases [OF i, of label]) (simp_all add: Pair addToRow_def)
qed

interpretation rw: overflow_table rows_inv callRow addToRow admitsLabel addCall "newCall []" OverflowLabel
proof unfold_locales
  fix rows k k' e
  assume i: "rows_inv rows"
  show "callRow rows k \<noteq> None \<Longrightarrow> admitsLabel rows k" by (simp add: callRow_def admitsLabel_def)
  show "\<not> admitsLabel (addToRow k' e rows) k" if "\<not> admitsLabel rows k" "k \<noteq> OverflowLabel"
    using that addToRow_labels [OF i, of k' e k] length_addToRow [OF i, of k' e]
    by (auto simp: admitsLabel_def targetLabel_def split: if_splits)
  show "callRow (addToRow k e rows) k' = (if k' = (if admitsLabel rows k then k else OverflowLabel)
      then Some (addCall e (case callRow rows k' of None \<Rightarrow> newCall [] | Some v \<Rightarrow> v)) else callRow rows k')"
    using callRow_add [OF i, of k e k'] by (simp add: targetLabel_def)
qed (rule rows_inv_add)

definition labelled :: "External list \<Rightarrow> (string \<times> External) list" where
  "labelled es = map (\<lambda>e. (take MaxLabelLength (ex_Label e), e)) es"

definition rowsOf :: "Counter \<Rightarrow> callRows" where
  "rowsOf c = (ct_labels c, sm_Calls (ct_summary c))"

lemma rowsOf_addInterval: "rowsOf (addInterval start end external c) = rowsOf c"
  by (simp add: addInterval_def rowsOf_def)

lemma rowsOf_exec:
  assumes "\<not> ct_closed c"
  shows "rowsOf (workExec op c) = fold (\<lambda>(k, e). addToRow k e) (labelled (workExternals [op])) (rowsOf c)"
proof (cases op)
  case (ExternalDone e)
  let ?c = "addInterval (ex_Start e) (ex_End e) True (c\<lparr>ct_summary := countExternal e (ct_summary c)\<rparr>)"
  have "rowsOf ?c = rowsOf c" unfolding rowsOf_addInterval by (simp add: rowsOf_def countExternal_def)
  then have "(ct_labels ?c, sm_Calls (ct_summary ?c)) = rowsOf c" by (simp add: rowsOf_def)
  then show ?thesis using assms ExternalDone
    by (simp add: CompletedExternal_def Let_def labelled_def rowsOf_def split: prod.split)
qed (simp add: CompletedSQL_def rowsOf_addInterval labelled_def, simp add: rowsOf_def)

lemma rowsOf_run: "rowsOf (fold workExec ops WithCounter) = fold (\<lambda>(k, e). addToRow k e) (labelled (workExternals ops)) ([], [])"
proof (induction ops rule: rev_induct)
  case (snoc op ops)
  have "\<not> ct_closed (fold workExec ops WithCounter)" using work_inv_run [of ops] by (simp add: work_inv_def)
  with snoc show ?case by (simp add: rowsOf_exec workExternals_append labelled_def)
qed (simp add: rowsOf_def WithCounter_def zeroSummary_def labelled_def)

lemma callRow_nth:
  assumes "rows_inv (labels, calls)" and "call \<in> set calls"
  shows "callRow (labels, calls) (cl_Label call) = Some (call\<lparr>cl_Label := []\<rparr>)"
proof -
  obtain i where "i < length calls" "calls ! i = call" using assms(2) by (auto simp: in_set_conv_nth)
  then have "map_of labels (cl_Label call) = Some i" using rows_inv_labels(1) [OF assms(1)] by blast
  with \<open>calls ! i = call\<close> show ?thesis by (simp add: callRow_def)
qed

lemma fold_addCall_label: "(fold addCall es call)\<lparr>cl_Label := l\<rparr> = fold addCall es (call\<lparr>cl_Label := l\<rparr>)"
  by (induction es arbitrary: call) simp_all

lemma obsOf_labelled: "obsOf P (labelled es) = filter (\<lambda>e. P (take MaxLabelLength (ex_Label e))) es"
  by (induction es) (simp_all add: obsOf_def labelled_def)

lemma merged_call:
  assumes "Some (call\<lparr>cl_Label := []\<rparr>) = merged addCall (newCall []) es"
  shows "call = fold addCall es (newCall (cl_Label call))"
proof -
  have "call\<lparr>cl_Label := []\<rparr> = fold addCall es (newCall [])" using assms by (simp add: merged_def split: if_splits)
  then have "(call\<lparr>cl_Label := []\<rparr>)\<lparr>cl_Label := cl_Label call\<rparr> = fold addCall es ((newCall [])\<lparr>cl_Label := cl_Label call\<rparr>)"
    by (simp only: fold_addCall_label)
  then show ?thesis by (simp add: newCall_def)
qed

lemma ExternalCount_run:
  "sm_ExternalCount (ct_summary (fold workExec ops WithCounter)) = wrap64 (int (length (workExternals ops)))"
proof (induction ops rule: rev_induct)
  case (snoc op ops)
  let ?c = "fold workExec ops WithCounter"
  have "\<not> ct_closed ?c" using work_inv_run [of ops] by (simp add: work_inv_def)
  moreover have "sm_ExternalCount (ct_summary (addInterval a b x c)) = sm_ExternalCount (ct_summary c)" for a b x c
    by (simp add: addInterval_def)
  ultimately have "sm_ExternalCount (ct_summary (workExec op ?c)) =
      wrap64 (sm_ExternalCount (ct_summary ?c) + int (length (workExternals [op])))"
    using snoc by (cases op) (auto simp: CompletedSQL_def CompletedExternal_def Let_def countExternal_def wrap64_id split: prod.split)
  with snoc show ?case by (simp add: workExternals_append wrap64_add add.commute)
qed (simp add: WithCounter_def zeroSummary_def wrap64_id go_defs)

text \<open>
  Every external call is in exactly one row of the summary. After any completions there are at most
  33 rows with different labels; a row other than the overflow row is the sum, field by field, of the
  calls whose label, cut to 64 bytes, is its own; the overflow row is the sum of the calls whose label
  has no row of its own, and it exists as soon as there is one; and \<open>ExternalCount\<close> counts them all.
\<close>

lemma external_calls_accounted:
  assumes "c = fold workExec ops WithCounter" and "es = workExternals ops"
    and "labels = map cl_Label (sm_Calls (ct_summary c))" and "labelOf = (\<lambda>e. take MaxLabelLength (ex_Label e))"
  shows "length labels \<le> MaxLabels + 1 \<and> distinct labels \<and>
    sm_ExternalCount (ct_summary c) = wrap64 (int (length es)) \<and>
    (\<forall>call \<in> set (sm_Calls (ct_summary c)). call = fold addCall
       (filter (\<lambda>e. if cl_Label call = OverflowLabel then labelOf e = OverflowLabel \<or> labelOf e \<notin> set labels
                    else labelOf e = cl_Label call) es) (newCall (cl_Label call))) \<and>
    (\<forall>e \<in> set es. labelOf e \<in> set labels \<or> OverflowLabel \<in> set labels)"
proof -
  let ?calls = "sm_Calls (ct_summary c)"
  have "rw.accounted (labelled es) (rowsOf c)"
    unfolding assms(1,2) rowsOf_run by (rule rw.accounted_all) (simp_all add: rows_inv_def callRow_def)
  then have acc: "rw.accounted (labelled es) (ct_labels c, ?calls)" by (simp add: rowsOf_def)
  then have i: "rows_inv (ct_labels c, ?calls)" by (simp add: rw.accounted_def)
  have none: "callRow (ct_labels c, ?calls) k = None \<longleftrightarrow> k \<notin> set labels" for k
    using rows_inv_labels(2) [OF i, of k] by (simp add: callRow_None assms(3))
  have own: "cl_Label call \<noteq> OverflowLabel \<Longrightarrow>
      call = fold addCall (filter (\<lambda>e. labelOf e = cl_Label call) es) (newCall (cl_Label call))" if "call \<in> set ?calls" for call
    using acc callRow_nth [OF i that] by (intro merged_call) (auto simp: rw.accounted_def obsOf_labelled assms(4))
  have other: "callRow (ct_labels c, ?calls) OverflowLabel =
      merged addCall (newCall []) (filter (\<lambda>e. labelOf e = OverflowLabel \<or> labelOf e \<notin> set labels) es)"
    using acc by (simp add: rw.accounted_def obsOf_labelled assms(4) none)
  have over: "call = fold addCall (filter (\<lambda>e. labelOf e = OverflowLabel \<or> labelOf e \<notin> set labels) es) (newCall (cl_Label call))"
    if "call \<in> set ?calls" "cl_Label call = OverflowLabel" for call
    using callRow_nth [OF i that(1)] other that(2) by (intro merged_call) simp
  have rows: "call = fold addCall
       (filter (\<lambda>e. if cl_Label call = OverflowLabel then labelOf e = OverflowLabel \<or> labelOf e \<notin> set labels
                    else labelOf e = cl_Label call) es) (newCall (cl_Label call))" if "call \<in> set ?calls" for call
    using over [OF that] own [OF that] by (cases "cl_Label call = OverflowLabel") simp_all
  have "OverflowLabel \<in> set labels" if "e \<in> set es" "labelOf e \<notin> set labels" for e
    using that other none [of OverflowLabel] by (auto simp: merged_def filter_empty_conv split: if_splits)
  moreover have "length labels \<le> MaxLabels + 1 \<and> distinct labels" using i by (simp add: rows_inv_def assms(3))
  ultimately show ?thesis using rows ExternalCount_run [of ops] unfolding assms(1,2) by blast
qed

end
