(* ===== verification/Checked.thy ===== *)
theory Checked
  imports Prelude "HOL-Library.Word" "HOL-Library.Sublist"
begin

text \<open>
  \<open>internal/profilemodel/checked.go\<close>: arithmetic that reports overflow. Signed values are integers
  within the range of \<open>int64\<close>, with the wrap-around of Go's operators written out; unsigned ones are
  64-bit words.
\<close>

type_synonym uint64 = "64 word"

subsection \<open>Signed\<close>

definition CheckedNegate :: "int \<Rightarrow> int \<times> bool" where
  "CheckedNegate v = (if v = int64_min then (0, False) else (wrap64 (- v), True))"

definition CheckedAbs :: "int \<Rightarrow> int \<times> bool" where
  "CheckedAbs v = (if v \<ge> 0 then (v, True) else CheckedNegate v)"

definition CheckedAdd :: "int \<Rightarrow> int \<Rightarrow> int \<times> bool" where
  "CheckedAdd a b =
     (if b > 0 \<and> a > wrap64 (int64_max - b) then (0, False)
      else if b < 0 \<and> a < wrap64 (int64_min - b) then (0, False)
      else (wrap64 (a + b), True))"

fun AbsoluteBudget_loop :: "int \<Rightarrow> int list \<Rightarrow> int \<times> bool" where
  "AbsoluteBudget_loop sum0 [] = (sum0, True)"
| "AbsoluteBudget_loop sum0 (value # values) =
     (let (magnitude, ok) = CheckedAbs value in
      if \<not> ok then (0, False)
      else
        (let (sum', ok') = CheckedAdd sum0 magnitude in
         if \<not> ok' then (0, False) else AbsoluteBudget_loop sum' values))"

definition AbsoluteBudget :: "int list \<Rightarrow> int \<times> bool" where
  "AbsoluteBudget values = AbsoluteBudget_loop 0 values"

subsection \<open>Unsigned\<close>

definition CheckedAddUint64 :: "uint64 \<Rightarrow> uint64 \<Rightarrow> uint64 \<times> bool" where
  "CheckedAddUint64 a b = (if a > (- 1) - b then (0, False) else (a + b, True))"

definition CheckedMulUint64 :: "uint64 \<Rightarrow> uint64 \<Rightarrow> uint64 \<times> bool" where
  "CheckedMulUint64 a b =
     (if a = 0 \<or> b = 0 then (0, True)
      else if a > (- 1) div b then (0, False)
      else (a * b, True))"

subsection \<open>Correctness\<close>

lemma CheckedAdd_iff:
  assumes "in_int64 a" "in_int64 b"
  shows "CheckedAdd a b = (if in_int64 (a + b) then (a + b, True) else (0, False))"
proof (cases "in_int64 (a + b)")
  case True
  have "b > 0 \<Longrightarrow> in_int64 (int64_max - b)" "b < 0 \<Longrightarrow> in_int64 (int64_min - b)"
    using assms by (auto simp: go_defs)
  then show ?thesis using True by (auto simp: CheckedAdd_def wrap64_id go_defs)
next
  case False
  have "b > 0 \<Longrightarrow> in_int64 (int64_max - b)" "b < 0 \<Longrightarrow> in_int64 (int64_min - b)"
    using assms by (auto simp: go_defs)
  then show ?thesis using False assms by (auto simp: CheckedAdd_def wrap64_id go_defs)
qed

lemma CheckedAbs_iff:
  assumes "in_int64 v"
  shows "CheckedAbs v = (if in_int64 \<bar>v\<bar> then (\<bar>v\<bar>, True) else (0, False))"
  using assms by (auto simp: CheckedAbs_def CheckedNegate_def wrap64_id go_defs)

lemma abs_sum_nonneg: "0 \<le> sum_list (map abs vs)" for vs :: "int list"
  by (induction vs) auto

lemma AbsoluteBudget_loop_iff:
  "list_all in_int64 vs \<Longrightarrow> 0 \<le> t \<Longrightarrow> in_int64 t \<Longrightarrow>
   AbsoluteBudget_loop t vs =
     (if in_int64 (t + sum_list (map abs vs)) then (t + sum_list (map abs vs), True) else (0, False))"
proof (induction vs arbitrary: t)
  case (Cons v vs)
  have pos: "0 \<le> sum_list (map abs vs)" by (rule abs_sum_nonneg)
  show ?case
  proof (cases "in_int64 (t + \<bar>v\<bar>)")
    case True
    then have "in_int64 \<bar>v\<bar>" using Cons.prems by (simp add: go_defs)
    then show ?thesis using True Cons by (simp add: CheckedAbs_iff CheckedAdd_iff add.assoc)
  next
    case False
    then have "\<not> in_int64 (t + (\<bar>v\<bar> + sum_list (map abs vs)))"
      using pos Cons.prems(2) unfolding in_int64_def int64_min_def int64_max_def by linarith
    then show ?thesis using False Cons.prems by (simp add: CheckedAbs_iff CheckedAdd_iff)
  qed
qed simp

text \<open>
  The absolute budget is the right precondition for merging: it succeeds exactly when the sum of
  the magnitudes fits in 64 bits, returns that sum, and then the sum of every sub-selection of the
  values, in any prefix of its evaluation, fits as well.
\<close>

lemma absolute_budget_covers_subsets:
  assumes "list_all in_int64 values"
  shows "(snd (AbsoluteBudget values) \<longleftrightarrow> in_int64 (sum_list (map abs values)))
    \<and> (snd (AbsoluteBudget values) \<longrightarrow> fst (AbsoluteBudget values) = sum_list (map abs values)
        \<and> (\<forall>us. subseq us values \<longrightarrow> in_int64 (sum_list us)))"
proof -
  have loop: "AbsoluteBudget values =
      (if in_int64 (sum_list (map abs values)) then (sum_list (map abs values), True) else (0, False))"
    using AbsoluteBudget_loop_iff [OF assms, of 0] by (simp add: AbsoluteBudget_def go_defs)
  have le1: "\<bar>sum_list us\<bar> \<le> sum_list (map abs us)" for us :: "int list"
    by (induction us) auto
  have le2: "sum_list (map abs us) \<le> sum_list (map abs values)" if "subseq us values" for us
    using that abs_sum_nonneg by (induction rule: list_emb.induct) auto
  have "in_int64 (sum_list us)" if "subseq us values" "in_int64 (sum_list (map abs values))" for us
    using le1 [of us] le2 [OF that(1)] that(2) unfolding in_int64_def int64_min_def int64_max_def by linarith
  then show ?thesis by (auto simp: loop)
qed

lemma unat_max: "unat (- 1 :: uint64) = 2 ^ 64 - 1"
  by (simp add: unsigned_minus_1_eq_mask mask_eq_exp_minus_1)

lemma CheckedAddUint64_iff:
  "CheckedAddUint64 a b = (if unat a + unat b < 2 ^ 64 then (a + b, True) else (0, False))"
proof -
  have b: "unat b < 2 ^ 64" using unsigned_less [of b, where 'a = nat] by simp
  have "unat ((- 1) - b) = 2 ^ 64 - 1 - unat b" by (simp add: unat_sub unat_max)
  then have "a > (- 1) - b \<longleftrightarrow> \<not> unat a + unat b < 2 ^ 64"
    using b by (simp add: word_less_nat_alt) linarith
  then show ?thesis by (simp add: CheckedAddUint64_def)
qed

lemma CheckedMulUint64_iff:
  "CheckedMulUint64 a b = (if unat a * unat b < 2 ^ 64 then (a * b, True) else (0, False))"
proof (cases "a = 0 \<or> b = 0")
  case False
  then have pos: "0 < unat b" by (simp add: unat_gt_0)
  have "unat ((- 1) div b) = (2 ^ 64 - 1) div unat b" by (simp add: unat_div_distrib unat_max)
  then have "a > (- 1) div b \<longleftrightarrow> (2 ^ 64 - 1) div unat b < unat a" by (simp add: word_less_nat_alt)
  also have "\<dots> \<longleftrightarrow> \<not> unat a * unat b \<le> 2 ^ 64 - 1"
    using less_eq_div_iff_mult_less_eq [OF pos, of "unat a" "2 ^ 64 - 1"] by linarith
  finally show ?thesis using False by (auto simp: CheckedMulUint64_def)
qed (auto simp: CheckedMulUint64_def)

text \<open>
  The unsigned helpers detect overflow exactly: they succeed if and only if the mathematical
  result is below \<open>2^64\<close>, and then return it.
\<close>

lemma unsigned_overflow_detected:
  "(snd (CheckedAddUint64 a b) \<longleftrightarrow> unat a + unat b < 2 ^ 64)
   \<and> (snd (CheckedAddUint64 a b) \<longrightarrow> unat (fst (CheckedAddUint64 a b)) = unat a + unat b)
   \<and> (snd (CheckedMulUint64 a b) \<longleftrightarrow> unat a * unat b < 2 ^ 64)
   \<and> (snd (CheckedMulUint64 a b) \<longrightarrow> unat (fst (CheckedMulUint64 a b)) = unat a * unat b)"
  by (simp add: CheckedAddUint64_iff CheckedMulUint64_iff unat_word_ariths)

end
