(* ===== verification/Profile_Model.thy ===== *)
theory Profile_Model
  imports Errors Checked "HOL-Library.Product_Lexorder"
begin

text \<open>
  \<open>internal/profilemodel/model.go\<close> and \<open>internal/profilemodel/validate.go\<close>: the wire model of a profile
  analysis and the validation every publisher and reader runs on it. A pointer that may be \<open>nil\<close> is an
  option. The JSON encoder and SHA-256 are arguments: \<open>enc\<close> is the encoder's output (with its final
  newline) or its error, \<open>sha\<close> the digest of a byte string.

  A validator is a sequence of guards, of which the first that fails gives the error; \<open>firstErr\<close> is
  that sequence, \<open>refuse\<close> one guard, and \<open>loopErr\<close> a loop of guards over a slice, which sees the index
  and the elements before it (the keys its \<open>seen\<close> map holds).
\<close>

definition refuse :: "bool \<Rightarrow> gerr \<Rightarrow> gerr option" where
  "refuse b e = (if b then Some e else None)"

fun firstErr :: "gerr option list \<Rightarrow> gerr option" where
  "firstErr [] = None"
| "firstErr (None # es) = firstErr es"
| "firstErr (Some e # es) = Some e"

fun loopErr :: "(nat \<Rightarrow> 'a list \<Rightarrow> 'a \<Rightarrow> gerr option) \<Rightarrow> 'a list \<Rightarrow> 'a list \<Rightarrow> gerr option" where
  "loopErr f seen [] = None"
| "loopErr f seen (x # xs) =
     (case f (length seen) seen x of Some e \<Rightarrow> Some e | None \<Rightarrow> loopErr f (seen @ [x]) xs)"

definition indexed :: "string \<Rightarrow> nat \<Rightarrow> string \<Rightarrow> gerr option \<Rightarrow> gerr option" where
  "indexed name i post = map_option (\<lambda>e. WrapErr (name @ ''['' @ show_nat i @ '']'' @ post) e [])"

definition verdict :: "gerr option \<Rightarrow> 'a \<Rightarrow> gerr + 'a" where
  "verdict r x = (case r of Some e \<Rightarrow> Inl e | None \<Rightarrow> Inr x)"

lemma verdict_Inr [simp]: "verdict r x = Inr y \<longleftrightarrow> r = None \<and> y = x"
  by (auto simp: verdict_def split: option.split)

lemma refuse_None [simp]: "refuse b e = None \<longleftrightarrow> \<not> b"
  by (simp add: refuse_def)

lemma refuse_simps [simp]: "refuse True e = Some e" "refuse False e = None"
  by (simp_all add: refuse_def)

lemma firstErr_None [simp]: "firstErr es = None \<longleftrightarrow> (\<forall>e \<in> set es. e = None)"
  by (induction es rule: firstErr.induct) auto

lemma indexed_None [simp]: "indexed name i post r = None \<longleftrightarrow> r = None"
  by (simp add: indexed_def)

lemma loopErr_Cons_None [simp]:
  "loopErr f seen (x # xs) = None \<longleftrightarrow> f (length seen) seen x = None \<and> loopErr f (seen @ [x]) xs = None"
  by (simp split: option.split)

declare loopErr.simps(2) [simp del]

lemma loopErr_all:
  assumes "\<And>i seen x. f i seen x = None \<longleftrightarrow> P x"
  shows "loopErr f seen xs = None \<longleftrightarrow> (\<forall>x \<in> set xs. P x)"
  by (induction xs arbitrary: seen) (simp_all add: assms)

text \<open>A loop that refuses a key it has seen accepts exactly the lists with distinct keys.\<close>

lemma loopErr_distinct_seen:
  assumes "\<And>i seen x. f i seen x = None \<longleftrightarrow> key x \<notin> key ` set seen \<and> P x"
  shows "loopErr f seen xs = None \<longleftrightarrow>
    distinct (map key xs) \<and> (\<forall>x \<in> set xs. P x) \<and> key ` set seen \<inter> key ` set xs = {}"
proof (induction xs arbitrary: seen)
  case (Cons x xs)
  show ?case
  proof (cases "key x \<notin> key ` set seen \<and> P x")
    case True
    then have "f (length seen) seen x = None" by (simp add: assms)
    then show ?thesis using True Cons [of "seen @ [x]"] by auto
  next
    case False
    then obtain e where "f (length seen) seen x = Some e" using assms by (cases "f (length seen) seen x") auto
    then show ?thesis using False by auto
  qed
qed simp_all

lemmas loopErr_distinct = loopErr_distinct_seen [where seen = "[]", simplified]

subsection \<open>The wire model\<close>

abbreviation (input) "MaxAnalysisBodyBytes \<equiv> (2097152 :: nat)"
abbreviation (input) "MaxAttempts \<equiv> (8 :: nat)"
abbreviation (input) "MaxSummaries \<equiv> (32 :: nat)"
abbreviation (input) "MaxTopNodes \<equiv> (50 :: nat)"
abbreviation (input) "MaxReportNodes \<equiv> (2000 :: nat)"
abbreviation (input) "MaxFlameNodes \<equiv> (2048 :: nat)"
abbreviation (input) "MaxFlameDepth \<equiv> (64 :: nat)"
abbreviation (input) "MaxWorkerMemoryBytes \<equiv> (536870912 :: uint64)"
abbreviation (input) "MaxWorkerAddressBytes \<equiv> (4294967296 :: uint64)"

abbreviation (input) "AnalysisStatusOK \<equiv> ''ok''"
abbreviation (input) "AnalysisStatusPartial \<equiv> ''partial''"
abbreviation (input) "AnalysisStatusFailed \<equiv> ''failed''"
abbreviation (input) "ProfileModeInterval \<equiv> ''interval''"
abbreviation (input) "ProfileModeCumulativeDelta \<equiv> ''cumulative-delta''"
abbreviation (input) "GranularityFunctions \<equiv> ''functions''"
abbreviation (input) "GranularityFileFunctions \<equiv> ''filefunctions''"
abbreviation (input) "GranularityFiles \<equiv> ''files''"
abbreviation (input) "GranularityLines \<equiv> ''lines''"
abbreviation (input) "DenominatorNet \<equiv> ''net''"
abbreviation (input) "DenominatorAbsoluteAddress \<equiv> ''absolute-address''"
abbreviation (input) "DenominatorBaseTotal \<equiv> ''base-total''"
abbreviation (input) "DenominatorNone \<equiv> ''none''"
abbreviation (input) "BinaryMatchVerified \<equiv> ''verified''"
abbreviation (input) "BinaryMatchMismatch \<equiv> ''mismatch''"
abbreviation (input) "BinaryMatchUnknown \<equiv> ''unknown''"
abbreviation (input) "ExecutableSourceProcSelfExe \<equiv> ''proc-self-exe''"
abbreviation (input) "ExecutableSourcePlatformBound \<equiv> ''platform-bound''"
abbreviation (input) "ExecutableSourceInputFile \<equiv> ''input-file''"
abbreviation (input) "ExecutableSourcePathUnbound \<equiv> ''path-unbound''"
abbreviation (input) "ExecutableSourceUnavailable \<equiv> ''unavailable''"
abbreviation (input) "ExecutableStatusCaptured \<equiv> ''captured''"
abbreviation (input) "ExecutableStatusUnavailable \<equiv> ''unavailable''"
abbreviation (input) "ExecutableStatusChangedDuringRead \<equiv> ''changed-during-read''"
abbreviation (input) "IsolationLinuxCgroupV2 \<equiv> ''linux-cgroup-v2''"
abbreviation (input) "IsolationDarwinRLIMIT \<equiv> ''darwin-rlimit''"
abbreviation (input) "IsolationNotRequired \<equiv> ''not-required''"
abbreviation (input) "IsolationUnavailable \<equiv> ''unavailable''"
abbreviation (input) "BootstrapCgroupFDSIGSTOP \<equiv> ''cgroupfd-sigstop''"
abbreviation (input) "BootstrapRLIMITSIGSTOP \<equiv> ''rlimit-sigstop''"
abbreviation (input) "BootstrapNotRequired \<equiv> ''not-required''"
abbreviation (input) "BootstrapUnavailable \<equiv> ''unavailable''"
abbreviation (input) "DiagnosticInfo \<equiv> ''info''"
abbreviation (input) "DiagnosticWarn \<equiv> ''warn''"
abbreviation (input) "DiagnosticError \<equiv> ''error''"
abbreviation (input) "DiagnosticWorkerHardLimitUnavailable \<equiv> ''worker-hard-limit-unavailable''"
abbreviation (input) "DiagnosticProfileMissing \<equiv> ''profile-missing''"
abbreviation (input) "DiagnosticProfilePending \<equiv> ''profile-pending''"
abbreviation (input) "DiagnosticArtifactExpired \<equiv> ''artifact-expired''"
abbreviation (input) "DiagnosticSampleValueOverflow \<equiv> ''sample-value-overflow''"
abbreviation (input) "DiagnosticNegativeIntervalSample \<equiv> ''negative-interval-sample''"
abbreviation (input) "DiagnosticSampleTypeIncompatible \<equiv> ''sample-type-incompatible''"

record Diagnostic =
  dg_Level :: string
  dg_Code :: string
  dg_Message :: string

record BuildSetting =
  bs_Key :: string
  bs_Value :: string

record ExecutableIdentity =
  ei_SHA256 :: string
  ei_BuildInfoSHA256 :: string
  ei_Source :: string
  ei_GoVersion :: string
  ei_MainModule :: string
  ei_MainVersion :: string
  ei_MainSum :: string
  ei_VCSRevision :: string
  ei_VCSModified :: bool
  ei_Settings :: "BuildSetting list"
  ei_Status :: string

record WorkerIsolation =
  wi_Mode :: string
  wi_Bootstrap :: string
  wi_MemoryMaxBytes :: uint64
  wi_AddressSpaceMaxBytes :: uint64
  wi_HardLimitVerified :: bool
  wi_StoppedVerified :: bool
  wi_MembershipVerified :: bool

record AnalyzerProvenance =
  ap_Version :: string
  ap_Revision :: string
  ap_Dirty :: bool
  ap_PprofVersion :: string
  ap_Executable :: ExecutableIdentity
  ap_Isolation :: WorkerIsolation

record BinaryProvenance =
  bp_Captured :: ExecutableIdentity
  bp_Analyzed :: "ExecutableIdentity option"
  bp_Match :: string

record ExpectedProfileInput =
  xi_Kind :: string
  xi_Point :: string
  xi_File :: string

record ObservedProfileInput =
  oi_ExpectedFile :: string
  oi_File :: string
  oi_SHA256 :: string
  oi_Sidecar :: string
  oi_SidecarSHA256 :: string
  oi_CoverageFile :: string
  oi_CoverageSHA256 :: string
  oi_Bytes :: int
  oi_Symbolized :: bool

record FlameNode =
  fn_Function :: string
  fn_Depth :: int
  fn_X :: int
  fn_Width :: int
  fn_Value :: int
  fn_Sign :: string

record FlameGraph =
  fg_Status :: string
  fg_Reason :: string
  fg_Mode :: string
  fg_SampleType :: string
  fg_Unit :: string
  fg_TotalWeight :: int
  fg_Nodes :: "FlameNode list"
  fg_Truncated :: bool
  fg_NodeLimit :: int
  fg_DepthLimit :: int
  fg_InputSHA256 :: "string list"
  fg_BinarySHA256 :: string
  fg_AnalyzerVersion :: string
  fg_GeneratedAt :: gotime

record ProfileNode =
  nd_Function :: string
  nd_File :: string
  nd_Line :: int
  nd_Value :: int

record ProfileReport =
  rp_Granularity :: string
  rp_TopFlat :: "ProfileNode list"
  rp_TopCumulative :: "ProfileNode list"
  rp_TopNegativeFlat :: "ProfileNode list"
  rp_TopNegativeCumulative :: "ProfileNode list"

record LabelValue =
  lv_Value :: string
  lv_Total :: int

record LabelBreakdown =
  lb_Key :: string
  lb_Values :: "LabelValue list"

record ProfileSummary =
  su_SampleType :: string
  su_Unit :: string
  su_NetTotal :: int
  su_PositiveTotal :: int
  su_NegativeMagnitude :: int
  su_PercentDenominator :: int
  su_DenominatorMode :: string
  su_Reports :: "ProfileReport list"
  su_Labels :: "LabelBreakdown list"

record ProfileCoverage =
  cv_RunSpanNs :: int
  cv_CaptureSpanNs :: int
  cv_HeadLossNs :: int
  cv_TailExcessNs :: int
  cv_TailLossNs :: int
  cv_StopReason :: string
  cv_Complete :: bool

record ProfileAttempt =
  at_Kind :: string
  at_Mode :: string
  at_Status :: string
  at_Coverage :: ProfileCoverage
  at_ExpectedInputs :: "ExpectedProfileInput list"
  at_ObservedInputs :: "ObservedProfileInput list"
  at_Diagnostics :: "Diagnostic list"
  at_Summaries :: "ProfileSummary list"
  at_Flame :: "FlameGraph option"

record ProfileAnalysisV1 =
  pa_SchemaVersion :: int
  pa_AnalysisID :: string
  pa_SnapshotBase :: string
  pa_SnapshotSHA256 :: string
  pa_SnapshotSchemaVersion :: int
  pa_RunID :: string
  pa_GeneratedAt :: gotime
  pa_Analyzer :: AnalyzerProvenance
  pa_Binary :: BinaryProvenance
  pa_Status :: string
  pa_Diagnostics :: "Diagnostic list"
  pa_Attempts :: "ProfileAttempt list"

end
