(* ===== verification/Profile_Validate.thy ===== *)
theory Profile_Validate
  imports Profile_Model
begin

text \<open>
  \<open>internal/profilemodel/validate.go\<close>: the validation of a profile analysis, one definition per
  function of the source. \<open>Decode\<close>, which reads JSON and calls \<open>Validate\<close>, is not modelled.
\<close>

subsection \<open>Strings, hashes and names\<close>

definition isLowerHex :: "string \<Rightarrow> bool" where
  "isLowerHex value = list_all lowerHexByte value"

definition validHash :: "string \<Rightarrow> bool" where
  "validHash value \<longleftrightarrow> length value = 64 \<and> isLowerHex value"

definition validStatus :: "string \<Rightarrow> bool" where
  "validStatus status \<longleftrightarrow> status = AnalysisStatusOK \<or> status = AnalysisStatusPartial \<or> status = AnalysisStatusFailed"

definition validateBoundedString :: "string \<Rightarrow> string \<Rightarrow> nat \<Rightarrow> gerr option" where
  "validateBoundedString field value mx = firstErr
     [refuse (value = []) (PlainErr (field @ '' is required'')),
      refuse (\<not> utf8_ValidString value \<or> length value > mx \<or> strings_HasRune controlRune value)
        (PlainErr (field @ '' is invalid or exceeds '' @ show_nat mx @ '' bytes''))]"

definition validateBasename :: "string \<Rightarrow> string \<Rightarrow> gerr option" where
  "validateBasename field value = firstErr
     [validateBoundedString field value 255,
      refuse (filepath_Base value \<noteq> value \<or> value = ''.'' \<or> value = ''..'') (PlainErr (field @ '' must be a basename''))]"

definition validDiagnosticCode :: "string \<Rightarrow> bool" where
  "validDiagnosticCode code \<longleftrightarrow> code \<in>
     {''profile-missing'', ''profile-too-large'', ''profile-invalid'', ''sample-type-incompatible'', ''unsymbolized'',
      ''binary-mismatch'', ''negative-delta'', ''coverage-truncated'', ''label-overflow'', ''source-path-redacted'',
      ''analysis-timeout'', ''profile-interference'', ''profile-pending'', ''artifact-expired'', ''artifact-mutated'',
      ''cpu-start-stalled'', ''cpu-stop-stalled'', ''provenance-unavailable'', ''worker-memory-limit'',
      ''worker-hard-limit-unavailable'', ''sample-value-overflow'', ''negative-interval-sample'',
      ''foreign-profile-label'', ''output-truncated'', ''durability-unknown''}"

definition validateDiagnostic :: "Diagnostic \<Rightarrow> gerr option" where
  "validateDiagnostic d = firstErr
     [refuse (dg_Level d \<noteq> DiagnosticInfo \<and> dg_Level d \<noteq> DiagnosticWarn \<and> dg_Level d \<noteq> DiagnosticError)
        (PlainErr (''unknown level '' @ strconv_Quote (dg_Level d))),
      validateBoundedString ''diagnostic code'' (dg_Code d) 64,
      refuse (\<not> validDiagnosticCode (dg_Code d)) (PlainErr (''unknown diagnostic code '' @ strconv_Quote (dg_Code d))),
      validateBoundedString ''diagnostic message'' (dg_Message d) 1024]"

definition validateOptionalArtifactPair :: "string \<Rightarrow> string \<Rightarrow> string \<Rightarrow> gerr option" where
  "validateOptionalArtifactPair field file hash = firstErr
     [refuse ((file = []) \<noteq> (hash = [])) (PlainErr (field @ '' file and hash must appear together'')),
      (if file = [] then None
       else firstErr [validateBasename (field @ '' file'') file,
                      refuse (\<not> validHash hash) (PlainErr (field @ '' hash is invalid''))])]"

subsection \<open>Executables\<close>

definition safeBuildSetting :: "string \<Rightarrow> bool" where
  "safeBuildSetting key \<longleftrightarrow> key \<in>
     {''GOOS'', ''GOARCH'', ''CGO_ENABLED'', ''-buildmode'', ''-compiler'', ''-tags'', ''-trimpath'', ''pgo'', ''ldflags'',
      ''GO386'', ''GOAMD64'', ''GOARM'', ''GOARM64'', ''GOMIPS'', ''GOMIPS64'', ''GOPPC64'', ''GORISCV64'', ''GOWASM''}"

definition settingsBytes :: "BuildSetting list \<Rightarrow> nat" where
  "settingsBytes ss = sum_list (map (\<lambda>s. length (bs_Key s) + length (bs_Value s)) ss)"

definition validateSetting :: "string \<Rightarrow> BuildSetting list \<Rightarrow> BuildSetting \<Rightarrow> gerr option" where
  "validateSetting field seen s = firstErr
     [refuse (\<not> safeBuildSetting (bs_Key s))
        (PlainErr (field @ '' build setting '' @ strconv_Quote (bs_Key s) @ '' is not in the safe allowlist'')),
      refuse (bs_Key s \<in> bs_Key ` set seen)
        (PlainErr (field @ '' duplicate build setting '' @ strconv_Quote (bs_Key s))),
      validateBoundedString (field @ '' build setting key'') (bs_Key s) 64,
      validateBoundedString (field @ '' build setting value'') (bs_Value s) 256,
      refuse (settingsBytes (seen @ [s]) > 8192) (PlainErr (field @ '' build settings exceed 8 KiB''))]"

definition validateExecutable :: "string \<Rightarrow> ExecutableIdentity \<Rightarrow> gerr option" where
  "validateExecutable field identity = firstErr
     [refuse (ei_Source identity \<notin> {ExecutableSourceProcSelfExe, ExecutableSourcePlatformBound,
          ExecutableSourceInputFile, ExecutableSourcePathUnbound, ExecutableSourceUnavailable})
        (PlainErr (field @ '' source '' @ strconv_Quote (ei_Source identity) @ '' is unknown'')),
      (if ei_Status identity = ExecutableStatusCaptured then
         refuse (\<not> validHash (ei_SHA256 identity)) (PlainErr (field @ '' captured status requires full SHA-256''))
       else if ei_Status identity = ExecutableStatusUnavailable \<or> ei_Status identity = ExecutableStatusChangedDuringRead
       then None
       else if ei_Status identity = [] then Some (PlainErr (field @ '' status is required''))
       else Some (PlainErr (field @ '' status '' @ strconv_Quote (ei_Status identity) @ '' is unknown''))),
      refuse (ei_SHA256 identity \<noteq> [] \<and> \<not> validHash (ei_SHA256 identity)) (PlainErr (field @ '' SHA-256 is invalid'')),
      refuse (ei_BuildInfoSHA256 identity \<noteq> [] \<and> \<not> validHash (ei_BuildInfoSHA256 identity))
        (PlainErr (field @ '' build info SHA-256 is invalid'')),
      loopErr (\<lambda>i seen nv. if snd nv \<noteq> [] then validateBoundedString (field @ '' '' @ fst nv) (snd nv) 256 else None) []
        [(''go_version'', ei_GoVersion identity), (''main_module'', ei_MainModule identity),
         (''main_version'', ei_MainVersion identity), (''main_sum'', ei_MainSum identity),
         (''vcs_revision'', ei_VCSRevision identity)],
      refuse (length (ei_Settings identity) > 32) (PlainErr (field @ '' build settings exceed 32 entries'')),
      loopErr (\<lambda>i. validateSetting field) [] (ei_Settings identity)]"

definition verifiedPair :: "BinaryProvenance \<Rightarrow> bool" where
  "verifiedPair binary =
     (case bp_Analyzed binary of
        None \<Rightarrow> False
      | Some analyzed \<Rightarrow>
          ei_Status (bp_Captured binary) = ExecutableStatusCaptured \<and> ei_Status analyzed = ExecutableStatusCaptured \<and>
          (ei_Source (bp_Captured binary) = ExecutableSourceProcSelfExe \<or>
           ei_Source (bp_Captured binary) = ExecutableSourcePlatformBound) \<and>
          validHash (ei_SHA256 (bp_Captured binary)) \<and> ei_SHA256 (bp_Captured binary) = ei_SHA256 analyzed)"

definition mismatchedPair :: "BinaryProvenance \<Rightarrow> bool" where
  "mismatchedPair binary =
     (case bp_Analyzed binary of
        None \<Rightarrow> False
      | Some analyzed \<Rightarrow>
          validHash (ei_SHA256 (bp_Captured binary)) \<and> validHash (ei_SHA256 analyzed) \<and>
          ei_SHA256 (bp_Captured binary) \<noteq> ei_SHA256 analyzed)"

definition validateBinary :: "BinaryProvenance \<Rightarrow> gerr option" where
  "validateBinary binary = firstErr
     [validateExecutable ''binary captured'' (bp_Captured binary),
      (case bp_Analyzed binary of None \<Rightarrow> None | Some analyzed \<Rightarrow> validateExecutable ''binary analyzed'' analyzed),
      (if bp_Match binary = BinaryMatchUnknown then None
       else if bp_Match binary = BinaryMatchVerified then
         refuse (\<not> verifiedPair binary)
           (PlainErr ''binary verified requires identical full SHA-256 from a bound running image and analyzed input'')
       else if bp_Match binary = BinaryMatchMismatch then
         refuse (\<not> mismatchedPair binary) (PlainErr ''binary mismatch requires two different full SHA-256 identities'')
       else Some (PlainErr (''unknown binary match '' @ strconv_Quote (bp_Match binary))))]"

subsection \<open>Summaries\<close>

definition validateNode :: "string \<Rightarrow> ProfileNode \<Rightarrow> gerr option" where
  "validateNode granularity node = firstErr
     [refuse (nd_Line node < 0) (PlainErr ''line must be non-negative''),
      (if nd_Function node \<noteq> [] then validateBoundedString ''function'' (nd_Function node) 512 else None),
      (if nd_File node \<noteq> [] then validateBoundedString ''file'' (nd_File node) 512 else None),
      (if granularity = GranularityFunctions then
         refuse (nd_Function node = [] \<or> nd_File node \<noteq> [] \<or> nd_Line node \<noteq> 0)
           (PlainErr ''functions node must contain function only'')
       else if granularity = GranularityFileFunctions then
         refuse (nd_Function node = [] \<or> nd_File node = [] \<or> nd_Line node \<noteq> 0)
           (PlainErr ''filefunctions node must contain function and file'')
       else if granularity = GranularityFiles then
         refuse (nd_Function node \<noteq> [] \<or> nd_File node = [] \<or> nd_Line node \<noteq> 0)
           (PlainErr ''files node must contain file only'')
       else if granularity = GranularityLines then
         refuse (nd_Function node = [] \<or> nd_File node = []) (PlainErr ''lines node must contain function and file'')
       else None)]"

definition validateList :: "string \<Rightarrow> bool \<Rightarrow> ProfileNode list \<Rightarrow> gerr option" where
  "validateList granularity negative nodes = firstErr
     [refuse (length nodes > MaxTopNodes) (PlainErr (''top list exceeds '' @ show_nat MaxTopNodes @ '' nodes'')),
      loopErr (\<lambda>i seen node. firstErr
        [refuse (negative \<and> nd_Value node \<ge> 0) (PlainErr ''negative list contains a non-negative node''),
         refuse (\<not> negative \<and> nd_Value node \<le> 0) (PlainErr ''positive list contains a non-positive node''),
         validateNode granularity node]) [] nodes]"

definition reportNodes :: "ProfileReport \<Rightarrow> nat" where
  "reportNodes r = length (rp_TopFlat r) + length (rp_TopCumulative r) + length (rp_TopNegativeFlat r) +
     length (rp_TopNegativeCumulative r)"

definition validateReport :: "ProfileReport \<Rightarrow> gerr + nat" where
  "validateReport report =
     verdict (firstErr
        [validateList (rp_Granularity report) False (rp_TopFlat report),
         validateList (rp_Granularity report) False (rp_TopCumulative report),
         validateList (rp_Granularity report) True (rp_TopNegativeFlat report),
         validateList (rp_Granularity report) True (rp_TopNegativeCumulative report),
         refuse (rp_Granularity report \<notin> {GranularityFunctions, GranularityFileFunctions, GranularityFiles, GranularityLines})
           (PlainErr (''unknown granularity '' @ strconv_Quote (rp_Granularity report)))]) (reportNodes report)"

definition errOf :: "gerr + 'a \<Rightarrow> gerr option" where
  "errOf r = (case r of Inl e \<Rightarrow> Some e | Inr _ \<Rightarrow> None)"

definition validateLabel :: "nat \<Rightarrow> LabelBreakdown list \<Rightarrow> LabelBreakdown \<Rightarrow> gerr option" where
  "validateLabel i seen label =
     (let at_i = ''labels['' @ show_nat i @ '']'' in
      firstErr
        [refuse (lb_Key label \<notin> {''http.method'', ''http.route'', ''isutools.scenario'', ''isutools.region''})
           (PlainErr (at_i @ '' has unknown logical key '' @ strconv_Quote (lb_Key label))),
         refuse (lb_Key label \<in> lb_Key ` set seen) (PlainErr (at_i @ '' duplicates key '' @ strconv_Quote (lb_Key label))),
         refuse (lb_Values label = [] \<or> length (lb_Values label) > 256)
           (PlainErr (at_i @ '' value count is outside 1..256'')),
         loopErr (\<lambda>j seenValues v. firstErr
           [indexed (at_i @ ''.values'') j '': '' (validateBoundedString ''label value'' (lv_Value v) 128),
            refuse (lv_Value v \<in> lv_Value ` set seenValues)
              (PlainErr (at_i @ '' duplicates value '' @ strconv_Quote (lv_Value v)))]) [] (lb_Values label)])"

definition validateLabels :: "LabelBreakdown list \<Rightarrow> gerr option" where
  "validateLabels labels = firstErr
     [refuse (length labels > 4) (PlainErr ''logical label breakdowns exceed 4 keys''),
      loopErr validateLabel [] labels]"

definition validateDenominator :: "ProfileSummary \<Rightarrow> gerr option" where
  "validateDenominator s =
     (if su_DenominatorMode s = DenominatorNet then
        refuse (su_NegativeMagnitude s \<noteq> 0 \<or> su_PercentDenominator s \<noteq> su_PositiveTotal s)
          (PlainErr ''net denominator requires a non-negative profile total'')
      else if su_DenominatorMode s = DenominatorAbsoluteAddress then
        (let (want, ok) = CheckedAdd (su_PositiveTotal s) (su_NegativeMagnitude s) in
         refuse (\<not> ok \<or> su_PercentDenominator s \<noteq> want)
           (PlainErr ''absolute-address denominator does not match total magnitude''))
      else if su_DenominatorMode s = DenominatorBaseTotal then
        refuse (su_PercentDenominator s = 0) (PlainErr ''base-total denominator must be positive'')
      else if su_DenominatorMode s = DenominatorNone then
        refuse (su_PercentDenominator s \<noteq> 0) (PlainErr ''none denominator must be zero'')
      else Some (PlainErr (''unknown denominator mode '' @ strconv_Quote (su_DenominatorMode s))))"

definition validateTotals :: "ProfileSummary \<Rightarrow> gerr option" where
  "validateTotals s =
     (case CheckedNegate (su_NegativeMagnitude s) of
        (negative, okn) \<Rightarrow>
          (case CheckedAdd (su_PositiveTotal s) negative of
             (net, ok) \<Rightarrow> firstErr
               [refuse (su_PositiveTotal s < 0 \<or> su_NegativeMagnitude s < 0 \<or> su_PercentDenominator s < 0)
                  (PlainErr ''totals and denominator magnitudes must be non-negative''),
                refuse (\<not> okn) (PlainErr ''negative_magnitude cannot be negated''),
                refuse (\<not> ok \<or> net \<noteq> su_NetTotal s)
                  (PlainErr ''net_total does not equal positive_total - negative_magnitude'')]))"

definition validateSummary :: "ProfileSummary \<Rightarrow> string \<Rightarrow> gerr + nat" where
  "validateSummary s mode =
     verdict (firstErr
        [validateBoundedString ''sample_type'' (su_SampleType s) 64,
         validateBoundedString ''unit'' (su_Unit s) 32,
         validateTotals s,
         validateDenominator s,
         refuse (mode = ProfileModeInterval \<and> su_NegativeMagnitude s \<noteq> 0)
           (PlainErr ''interval summary contains a negative sample''),
         validateLabels (su_Labels s),
         loopErr (\<lambda>i seen r. firstErr
           [refuse (rp_Granularity r \<in> rp_Granularity ` set seen) (PlainErr ''duplicate report granularity''),
            indexed ''reports'' i '': '' (errOf (validateReport r))]) [] (su_Reports s)]) (sum_list (map reportNodes (su_Reports s)))"

subsection \<open>Attempts\<close>

definition validateExpected :: "ProfileAttempt \<Rightarrow> nat \<Rightarrow> ExpectedProfileInput list \<Rightarrow> ExpectedProfileInput \<Rightarrow> gerr option" where
  "validateExpected attempt i seen input = firstErr
     [refuse (xi_Kind input \<noteq> at_Kind attempt)
        (PlainErr (''expected_inputs['' @ show_nat i @ ''] kind does not match attempt'')),
      validateBasename ''expected input file'' (xi_File input),
      refuse (at_Mode attempt = ProfileModeInterval \<and> xi_Point input \<noteq> ''interval'')
        (PlainErr ''interval attempt requires interval point''),
      refuse (at_Mode attempt = ProfileModeCumulativeDelta \<and> xi_Point input \<noteq> ''open'' \<and> xi_Point input \<noteq> ''close'')
        (PlainErr ''cumulative attempt requires open/close points''),
      refuse (xi_File input \<in> xi_File ` set seen) (PlainErr ''duplicate expected input file'')]"

definition validateObserved :: "ProfileAttempt \<Rightarrow> nat \<Rightarrow> ObservedProfileInput list \<Rightarrow> ObservedProfileInput \<Rightarrow> gerr option" where
  "validateObserved attempt i seen input =
     (let at_i = ''observed_inputs['' @ show_nat i @ '']'' in
      firstErr
        [refuse (oi_ExpectedFile input \<notin> xi_File ` set (at_ExpectedInputs attempt))
           (PlainErr (at_i @ '' expected_file is not declared'')),
         refuse (oi_File input \<noteq> oi_ExpectedFile input) (PlainErr (at_i @ '' file does not match expected_file'')),
         validateBasename ''observed input file'' (oi_File input),
         refuse (\<not> validHash (oi_SHA256 input) \<or> oi_Bytes input < 0)
           (PlainErr (at_i @ '' has invalid hash or byte count'')),
         refuse (oi_ExpectedFile input \<in> oi_ExpectedFile ` set seen) (PlainErr ''duplicate observed input''),
         indexed ''observed_inputs'' i '': ''
           (validateOptionalArtifactPair ''sidecar'' (oi_Sidecar input) (oi_SidecarSHA256 input)),
         indexed ''observed_inputs'' i '': ''
           (validateOptionalArtifactPair ''coverage'' (oi_CoverageFile input) (oi_CoverageSHA256 input))])"

definition wantInputs :: "string \<Rightarrow> nat option" where
  "wantInputs mode =
     (if mode = ProfileModeInterval then Some 1 else if mode = ProfileModeCumulativeDelta then Some 2 else None)"

text \<open>The key of a summary is its sample type and unit, joined by a NUL byte.\<close>

definition sampleTypeKey :: "ProfileSummary \<Rightarrow> string" where
  "sampleTypeKey s = su_SampleType s @ [CHR 0x00] @ su_Unit s"

definition summaryNodes :: "ProfileSummary \<Rightarrow> nat" where
  "summaryNodes s = sum_list (map reportNodes (su_Reports s))"

definition validateAttempt :: "ProfileAttempt \<Rightarrow> gerr + (nat \<times> nat)" where
  "validateAttempt attempt =
     verdict (firstErr
        [refuse (\<not> validStatus (at_Status attempt)) (PlainErr (''unknown status '' @ strconv_Quote (at_Status attempt))),
         refuse (at_Kind attempt = [] \<or> length (at_Kind attempt) > 64)
           (PlainErr ''kind is required and limited to 64 bytes''),
         (case wantInputs (at_Mode attempt) of
            None \<Rightarrow> Some (PlainErr (''unknown mode '' @ strconv_Quote (at_Mode attempt)))
          | Some n \<Rightarrow>
              refuse (length (at_ExpectedInputs attempt) \<noteq> n)
                (PlainErr (''expected_inputs has '' @ show_nat (length (at_ExpectedInputs attempt)) @
                   '' entries, want '' @ show_nat n))),
         loopErr (validateExpected attempt) [] (at_ExpectedInputs attempt),
         loopErr (validateObserved attempt) [] (at_ObservedInputs attempt),
         refuse (at_Status attempt = AnalysisStatusFailed \<and> at_Summaries attempt \<noteq> [])
           (PlainErr ''failed attempt must not contain summaries''),
         refuse (at_Status attempt = AnalysisStatusOK \<and> at_Summaries attempt = []) (PlainErr ''ok attempt requires a summary''),
         refuse (at_Status attempt = AnalysisStatusOK \<and>
             length (at_ObservedInputs attempt) \<noteq> length (at_ExpectedInputs attempt))
           (PlainErr ''ok attempt requires every expected input to be observed''),
         refuse (at_Status attempt = AnalysisStatusPartial \<and> at_Summaries attempt = [])
           (PlainErr ''partial attempt requires a usable summary''),
         loopErr (\<lambda>i seen d. indexed ''diagnostics'' i '': '' (validateDiagnostic d)) [] (at_Diagnostics attempt),
         loopErr (\<lambda>i seen s. firstErr
           [refuse (sampleTypeKey s \<in> sampleTypeKey ` set seen) (PlainErr ''duplicate sample type summary''),
            indexed ''summaries'' i '': '' (errOf (validateSummary s (at_Mode attempt)))]) [] (at_Summaries attempt)]) (length (at_Summaries attempt), sum_list (map summaryNodes (at_Summaries attempt)))"

definition validateFlameNode :: "FlameNode \<Rightarrow> gerr option" where
  "validateFlameNode node = firstErr
     [validateBoundedString ''flame function'' (fn_Function node) 256,
      refuse (fn_Depth node < 0 \<or> fn_Depth node \<ge> int MaxFlameDepth \<or> fn_X node < 0 \<or> fn_Width node \<le> 0 \<or>
          wrap64 (fn_X node + fn_Width node) > 10000 \<or> fn_Sign node \<noteq> ''positive'' \<and> fn_Sign node \<noteq> ''negative'')
        (PlainErr ''flame node geometry is out of bounds'')]"

definition validateInputHash :: "string \<times> ObservedProfileInput \<Rightarrow> gerr option" where
  "validateInputHash p = refuse (\<not> validHash (fst p) \<or> fst p \<noteq> oi_SHA256 (snd p))
     (PlainErr ''input hash does not match observed profile'')"

definition validateFlame :: "ProfileAttempt \<Rightarrow> BinaryProvenance \<Rightarrow> string \<Rightarrow> gotime \<Rightarrow> gerr option" where
  "validateFlame attempt binary analyzerVersion generatedAt =
     (case at_Flame attempt of
        None \<Rightarrow> None
      | Some flame \<Rightarrow> firstErr
          [refuse (fg_Mode flame \<noteq> at_Mode attempt \<or> fg_NodeLimit flame \<noteq> int MaxFlameNodes \<or>
               fg_DepthLimit flame \<noteq> int MaxFlameDepth \<or> fg_AnalyzerVersion flame \<noteq> analyzerVersion \<or>
               fg_GeneratedAt flame \<noteq> generatedAt)
             (PlainErr ''metadata does not match analysis''),
           (if fg_Status flame = ''unsupported'' then
              refuse (fg_Reason flame = [] \<or> length (fg_Reason flame) > 128 \<or> fg_Nodes flame \<noteq> [] \<or>
                  fg_InputSHA256 flame \<noteq> [] \<or> fg_BinarySHA256 flame \<noteq> [])
                (PlainErr ''unsupported flame must contain only a bounded reason'')
            else firstErr
              [refuse (fg_Status flame \<noteq> ''ready'' \<or> at_Kind attempt \<noteq> ''cpu'' \<or> bp_Match binary \<noteq> BinaryMatchVerified \<or>
                   (case bp_Analyzed binary of None \<Rightarrow> True | Some analyzed \<Rightarrow> fg_BinarySHA256 flame \<noteq> ei_SHA256 analyzed))
                 (PlainErr ''ready flame requires verified CPU binary provenance''),
               refuse (fg_Nodes flame = [] \<or> length (fg_Nodes flame) > MaxFlameNodes \<or>
                   length (fg_InputSHA256 flame) \<noteq> length (at_ObservedInputs attempt) \<or> fg_TotalWeight flame \<le> 0)
                 (PlainErr ''ready flame has invalid input or node count''),
               loopErr (\<lambda>i seen. validateInputHash) [] (zip (fg_InputSHA256 flame) (at_ObservedInputs attempt)),
               loopErr (\<lambda>i seen. validateFlameNode) [] (fg_Nodes flame)])])"

subsection \<open>The analysis\<close>

definition RecomputeStatus :: "ProfileAnalysisV1 \<Rightarrow> string" where
  "RecomputeStatus a =
     (let usable = sum_list (map (\<lambda>t. length (at_Summaries t)) (pa_Attempts a));
          partial = (bp_Match (pa_Binary a) \<noteq> BinaryMatchVerified \<or>
            ei_Status (ap_Executable (pa_Analyzer a)) \<noteq> ExecutableStatusCaptured \<or>
            list_ex (\<lambda>d. dg_Level d \<noteq> DiagnosticInfo) (pa_Diagnostics a) \<or>
            list_ex (\<lambda>t. at_Status t \<noteq> AnalysisStatusOK \<or>
                length (at_ObservedInputs t) \<noteq> length (at_ExpectedInputs t) \<or> \<not> cv_Complete (at_Coverage t) \<or>
                list_ex (\<lambda>d. dg_Level d \<noteq> DiagnosticInfo) (at_Diagnostics t)) (pa_Attempts a))
      in if usable = 0 then AnalysisStatusFailed
         else if partial then AnalysisStatusPartial else AnalysisStatusOK)"

definition hardIsolation :: "WorkerIsolation \<Rightarrow> gerr option" where
  "hardIsolation i = firstErr
     [refuse (\<not> wi_HardLimitVerified i \<or> \<not> wi_StoppedVerified i)
        (PlainErr ''profile-derived results require verified hard isolation and stopped bootstrap''),
      (if wi_Mode i = IsolationLinuxCgroupV2 then
         refuse (wi_Bootstrap i \<noteq> BootstrapCgroupFDSIGSTOP \<or> \<not> wi_MembershipVerified i \<or> wi_MemoryMaxBytes i = 0 \<or>
             wi_MemoryMaxBytes i > MaxWorkerMemoryBytes \<or> wi_AddressSpaceMaxBytes i < wi_MemoryMaxBytes i \<or>
             wi_AddressSpaceMaxBytes i > MaxWorkerAddressBytes)
           (PlainErr ''linux hard isolation requires cgroupfd-sigstop membership proof'')
       else if wi_Mode i = IsolationDarwinRLIMIT then
         refuse (wi_Bootstrap i \<noteq> BootstrapRLIMITSIGSTOP \<or> wi_MembershipVerified i \<or> wi_MemoryMaxBytes i \<noteq> 0 \<or>
             wi_AddressSpaceMaxBytes i = 0 \<or> wi_AddressSpaceMaxBytes i > MaxWorkerAddressBytes)
           (PlainErr ''darwin hard isolation requires rlimit-sigstop'')
       else Some (PlainErr (''unknown hard isolation mode '' @ strconv_Quote (wi_Mode i))))]"

definition claimsNothing :: "WorkerIsolation \<Rightarrow> bool" where
  "claimsNothing i \<longleftrightarrow> \<not> wi_HardLimitVerified i \<and> \<not> wi_StoppedVerified i \<and> \<not> wi_MembershipVerified i \<and>
     wi_MemoryMaxBytes i = 0 \<and> wi_AddressSpaceMaxBytes i = 0"

definition hasCode :: "string list \<Rightarrow> ProfileAttempt \<Rightarrow> bool" where
  "hasCode codes attempt = list_ex (\<lambda>d. dg_Code d \<in> set codes) (at_Diagnostics attempt)"

definition validateIsolation :: "ProfileAnalysisV1 \<Rightarrow> gerr option" where
  "validateIsolation a =
     (let i = ap_Isolation (pa_Analyzer a) in
      if list_ex (\<lambda>t. at_Summaries t \<noteq> []) (pa_Attempts a) \<or> list_ex (\<lambda>t. at_ObservedInputs t \<noteq> []) (pa_Attempts a)
      then hardIsolation i
      else if wi_Mode i = IsolationNotRequired then firstErr
        [refuse (wi_Bootstrap i \<noteq> BootstrapNotRequired \<or> \<not> claimsNothing i)
           (PlainErr ''not-required isolation must not claim a worker bootstrap''),
         loopErr (\<lambda>k seen t. firstErr
           [refuse (at_Status t \<noteq> AnalysisStatusFailed \<or> at_ObservedInputs t \<noteq> [] \<or> at_Summaries t \<noteq> [])
              (PlainErr ''not-required isolation may contain missing expected inputs only''),
            refuse (\<not> hasCode [DiagnosticProfileMissing, DiagnosticProfilePending, DiagnosticArtifactExpired] t)
              (PlainErr ''not-required isolation requires a missing, pending, or expired diagnostic'')]) [] (pa_Attempts a)]
      else firstErr
        [refuse (wi_Mode i \<noteq> IsolationUnavailable \<or> wi_Bootstrap i \<noteq> BootstrapUnavailable \<or> \<not> claimsNothing i)
           (PlainErr ''summary-free failure must record unavailable hard isolation''),
         refuse (pa_Status a \<noteq> AnalysisStatusFailed) (PlainErr ''unavailable hard isolation must produce failed analysis''),
         loopErr (\<lambda>k seen t. firstErr
           [refuse (at_Status t \<noteq> AnalysisStatusFailed \<or> at_ObservedInputs t \<noteq> [])
              (PlainErr ''unavailable hard isolation may contain expected metadata only''),
            refuse (\<not> hasCode [DiagnosticWorkerHardLimitUnavailable] t)
              (PlainErr ''unavailable hard isolation requires worker-hard-limit-unavailable diagnostic'')]) []
           (pa_Attempts a)])"

definition trimNewline :: "string \<Rightarrow> string" where
  "trimNewline s = (if s \<noteq> [] \<and> last s = CHR 0x0A then butlast s else s)"

text \<open>An instant carries no zone here, so normalising \<open>GeneratedAt\<close> to UTC is the identity.\<close>

definition CanonicalJSON :: "(ProfileAnalysisV1 \<Rightarrow> gerr + string) \<Rightarrow> ProfileAnalysisV1 \<Rightarrow> gerr + string" where
  "CanonicalJSON enc a =
     (case enc a of
        Inl e \<Rightarrow> Inl (WrapErr ''encode canonical profile analysis: '' e [])
      | Inr body \<Rightarrow> Inr (trimNewline body))"

definition SetAnalysisID ::
  "(ProfileAnalysisV1 \<Rightarrow> gerr + string) \<Rightarrow> (string \<Rightarrow> string) \<Rightarrow> ProfileAnalysisV1 \<Rightarrow> gerr + ProfileAnalysisV1" where
  "SetAnalysisID enc sha a =
     (case CanonicalJSON enc (a\<lparr>pa_AnalysisID := []\<rparr>) of
        Inl e \<Rightarrow> Inl e
      | Inr body \<Rightarrow> Inr (a\<lparr>pa_AnalysisID := hex_EncodeToString (sha body)\<rparr>))"

definition validateIdentity ::
  "(ProfileAnalysisV1 \<Rightarrow> gerr + string) \<Rightarrow> (string \<Rightarrow> string) \<Rightarrow> ProfileAnalysisV1 \<Rightarrow> gerr option" where
  "validateIdentity enc sha a =
     (case SetAnalysisID enc sha a of
        Inl e \<Rightarrow> Some e
      | Inr want \<Rightarrow>
          if pa_AnalysisID a \<noteq> pa_AnalysisID want then Some (PlainErr ''analysis_id does not match canonical body'')
          else
            (case CanonicalJSON enc a of
               Inl e \<Rightarrow> Some e
             | Inr body \<Rightarrow>
                 refuse (length body > MaxAnalysisBodyBytes)
                   (PlainErr (''canonical analysis body exceeds '' @ show_nat MaxAnalysisBodyBytes @ '' bytes''))))"

definition optionalBounded :: "string \<Rightarrow> string \<Rightarrow> gerr option" where
  "optionalBounded field value = (if value \<noteq> [] then validateBoundedString field value 256 else None)"

definition Validate_profile ::
  "(ProfileAnalysisV1 \<Rightarrow> gerr + string) \<Rightarrow> (string \<Rightarrow> string) \<Rightarrow> ProfileAnalysisV1 \<Rightarrow> gerr option" where
  "Validate_profile enc sha a =
     (let summaries = sum_list (map (\<lambda>t. length (at_Summaries t)) (pa_Attempts a));
          nodes = sum_list (map (\<lambda>t. sum_list (map summaryNodes (at_Summaries t))) (pa_Attempts a));
          observedFiles = sum_list (map (\<lambda>t. length (at_ObservedInputs t)) (pa_Attempts a))
      in firstErr
        [refuse (pa_SchemaVersion a \<noteq> 1) (PlainErr (''schema_version = '' @ show_int (pa_SchemaVersion a) @ '', want 1'')),
         refuse (\<not> validStatus (pa_Status a)) (PlainErr (''unknown analysis status '' @ strconv_Quote (pa_Status a))),
         refuse (\<not> validHash (pa_SnapshotSHA256 a)) (PlainErr ''snapshot_sha256 must be a full lowercase SHA-256''),
         validateBoundedString ''snapshot_base'' (pa_SnapshotBase a) 255,
         refuse (filepath_Base (pa_SnapshotBase a) \<noteq> pa_SnapshotBase a \<or> pa_SnapshotBase a = ''.'')
           (PlainErr ''snapshot_base must be a basename''),
         validateBoundedString ''run_id'' (pa_RunID a) 128,
         refuse (IsZero (pa_GeneratedAt a)) (PlainErr ''generated_at is required''),
         validateBoundedString ''analyzer version'' (ap_Version (pa_Analyzer a)) 256,
         optionalBounded ''analyzer revision'' (ap_Revision (pa_Analyzer a)),
         optionalBounded ''pprof version'' (ap_PprofVersion (pa_Analyzer a)),
         validateExecutable ''analyzer executable'' (ap_Executable (pa_Analyzer a)),
         validateBinary (pa_Binary a),
         refuse (length (pa_Diagnostics a) > 100) (PlainErr ''analysis diagnostics exceed 100 entries''),
         loopErr (\<lambda>i seen d. indexed ''analysis diagnostics'' i '': '' (validateDiagnostic d)) [] (pa_Diagnostics a),
         refuse (pa_Attempts a = [] \<or> length (pa_Attempts a) > MaxAttempts)
           (PlainErr (''attempt count '' @ show_nat (length (pa_Attempts a)) @ '' is outside 1..8'')),
         validateIsolation a,
         loopErr (\<lambda>i seen t. firstErr
           [indexed ''attempt'' i '': '' (errOf (validateAttempt t)),
            indexed ''attempt'' i '' flame: ''
              (validateFlame t (pa_Binary a) (ap_Version (pa_Analyzer a)) (pa_GeneratedAt a))]) [] (pa_Attempts a),
         refuse (summaries > MaxSummaries) (PlainErr (''summary count '' @ show_nat summaries @ '' exceeds 32'')),
         refuse (nodes > MaxReportNodes) (PlainErr (''report node count '' @ show_nat nodes @ '' exceeds 2000'')),
         refuse (observedFiles > 8) (PlainErr (''observed profile file count '' @ show_nat observedFiles @ '' exceeds 8'')),
         refuse (pa_Status a = AnalysisStatusFailed \<and> summaries \<noteq> 0)
           (PlainErr ''failed analysis must not contain usable summaries''),
         (if pa_Status a = AnalysisStatusOK then
            loopErr (\<lambda>i seen t. refuse (at_Status t \<noteq> AnalysisStatusOK) (PlainErr ''ok analysis contains a non-ok attempt''))
              [] (pa_Attempts a)
          else None),
         refuse (RecomputeStatus a \<noteq> pa_Status a)
           (PlainErr (''analysis status '' @ strconv_Quote (pa_Status a) @ '' does not match recomputed status '' @
              strconv_Quote (RecomputeStatus a))),
         validateIdentity enc sha a])"

subsection \<open>What acceptance means\<close>

text \<open>The \<open>int64\<close> fields of a summary, which Go's type keeps within range.\<close>

definition int64Fields :: "ProfileSummary \<Rightarrow> bool" where
  "int64Fields s \<longleftrightarrow> in_int64 (su_PositiveTotal s) \<and> in_int64 (su_NegativeMagnitude s)"

definition bounded :: "string \<Rightarrow> nat \<Rightarrow> bool" where
  "bounded value mx \<longleftrightarrow> value \<noteq> [] \<and> utf8_ValidString value \<and> length value \<le> mx \<and> \<not> strings_HasRune controlRune value"

definition totalsAgree :: "string \<Rightarrow> ProfileSummary \<Rightarrow> bool" where
  "totalsAgree mode s \<longleftrightarrow>
     0 \<le> su_PositiveTotal s \<and> 0 \<le> su_NegativeMagnitude s \<and>
     su_NetTotal s = su_PositiveTotal s - su_NegativeMagnitude s \<and>
     (mode = ProfileModeInterval \<longrightarrow> su_NegativeMagnitude s = 0) \<and>
     (su_DenominatorMode s = DenominatorNet \<longrightarrow> su_PercentDenominator s = su_NetTotal s) \<and>
     (su_DenominatorMode s = DenominatorAbsoluteAddress \<longrightarrow>
        su_PercentDenominator s = su_PositiveTotal s + su_NegativeMagnitude s)"

definition nodesSound :: "bool \<Rightarrow> ProfileNode list \<Rightarrow> bool" where
  "nodesSound negative nodes \<longleftrightarrow>
     length nodes \<le> MaxTopNodes \<and> (\<forall>n \<in> set nodes. (if negative then nd_Value n < 0 else 0 < nd_Value n) \<and> 0 \<le> nd_Line n)"

definition reportSound :: "ProfileReport \<Rightarrow> bool" where
  "reportSound r \<longleftrightarrow> nodesSound False (rp_TopFlat r) \<and> nodesSound False (rp_TopCumulative r) \<and>
     nodesSound True (rp_TopNegativeFlat r) \<and> nodesSound True (rp_TopNegativeCumulative r)"

lemma validateBoundedString_None [simp]: "validateBoundedString field value mx = None \<longleftrightarrow> bounded value mx"
  by (auto simp: validateBoundedString_def bounded_def)

lemma errOf_None: "errOf r = None \<longleftrightarrow> (\<exists>n. r = Inr n)"
  by (cases r) (auto simp: errOf_def)

lemma validateList_None:
  "validateList g negative nodes = None \<longleftrightarrow>
     length nodes \<le> MaxTopNodes \<and>
     (\<forall>n \<in> set nodes. (if negative then nd_Value n < 0 else 0 < nd_Value n) \<and> validateNode g n = None)"
proof -
  have "loopErr (\<lambda>i seen node. firstErr
        [refuse (negative \<and> nd_Value node \<ge> 0) (PlainErr ''negative list contains a non-negative node''),
         refuse (\<not> negative \<and> nd_Value node \<le> 0) (PlainErr ''positive list contains a non-positive node''),
         validateNode g node]) [] nodes = None \<longleftrightarrow>
      (\<forall>n \<in> set nodes. (if negative then nd_Value n < 0 else 0 < nd_Value n) \<and> validateNode g n = None)"
    by (rule loopErr_all) auto
  then show ?thesis by (simp add: validateList_def not_less)
qed

lemma validateReport_Inr:
  "validateReport r = Inr n \<longleftrightarrow> n = reportNodes r \<and>
     validateList (rp_Granularity r) False (rp_TopFlat r) = None \<and>
     validateList (rp_Granularity r) False (rp_TopCumulative r) = None \<and>
     validateList (rp_Granularity r) True (rp_TopNegativeFlat r) = None \<and>
     validateList (rp_Granularity r) True (rp_TopNegativeCumulative r) = None \<and>
     rp_Granularity r \<in> {GranularityFunctions, GranularityFileFunctions, GranularityFiles, GranularityLines}"
  by (auto simp: validateReport_def)

lemma validateReport_sound: "validateReport r = Inr n \<Longrightarrow> reportSound r"
  by (auto simp: validateReport_Inr reportSound_def nodesSound_def validateList_None validateNode_def)

lemma validateReports_None:
  "loopErr (\<lambda>i seen r. firstErr
      [refuse (rp_Granularity r \<in> rp_Granularity ` set seen) (PlainErr ''duplicate report granularity''),
       indexed ''reports'' i '': '' (errOf (validateReport r))]) [] rs = None \<longleftrightarrow>
   distinct (map rp_Granularity rs) \<and> (\<forall>r \<in> set rs. validateReport r = Inr (reportNodes r))"
  by (rule loopErr_distinct) (auto simp: errOf_None validateReport_Inr)

lemma validateTotals_None:
  assumes "int64Fields s"
  shows "validateTotals s = None \<longleftrightarrow> 0 \<le> su_PositiveTotal s \<and> 0 \<le> su_NegativeMagnitude s \<and>
    0 \<le> su_PercentDenominator s \<and> su_NetTotal s = su_PositiveTotal s - su_NegativeMagnitude s"
proof (cases "0 \<le> su_PositiveTotal s \<and> 0 \<le> su_NegativeMagnitude s")
  case True
  then have neg: "CheckedNegate (su_NegativeMagnitude s) = (- su_NegativeMagnitude s, True)"
    using assms by (auto simp: CheckedNegate_def int64Fields_def go_defs intro!: wrap64_id)
  have "in_int64 (- su_NegativeMagnitude s)" "in_int64 (su_PositiveTotal s + - su_NegativeMagnitude s)"
    using True assms by (auto simp: int64Fields_def go_defs)
  then have "CheckedAdd (su_PositiveTotal s) (- su_NegativeMagnitude s) =
      (su_PositiveTotal s - su_NegativeMagnitude s, True)"
    using assms by (simp add: CheckedAdd_iff int64Fields_def)
  then show ?thesis using True by (auto simp: validateTotals_def neg)
next
  case False
  then show ?thesis by (auto simp: validateTotals_def split: prod.split)
qed

lemma validateDenominator_None:
  assumes "int64Fields s" and "validateTotals s = None"
  shows "validateDenominator s = None \<longleftrightarrow>
    (su_DenominatorMode s = DenominatorNet \<and> su_NegativeMagnitude s = 0 \<and> su_PercentDenominator s = su_PositiveTotal s) \<or>
    (su_DenominatorMode s = DenominatorAbsoluteAddress \<and> in_int64 (su_PositiveTotal s + su_NegativeMagnitude s) \<and>
       su_PercentDenominator s = su_PositiveTotal s + su_NegativeMagnitude s) \<or>
    (su_DenominatorMode s = DenominatorBaseTotal \<and> su_PercentDenominator s \<noteq> 0) \<or>
    (su_DenominatorMode s = DenominatorNone \<and> su_PercentDenominator s = 0)"
  using assms(1) by (auto simp: validateDenominator_def CheckedAdd_iff int64Fields_def)

lemma validateSummary_Inr:
  "validateSummary s mode = Inr n \<longleftrightarrow> n = summaryNodes s \<and> bounded (su_SampleType s) 64 \<and> bounded (su_Unit s) 32 \<and>
     validateTotals s = None \<and> validateDenominator s = None \<and>
     (mode = ProfileModeInterval \<longrightarrow> su_NegativeMagnitude s = 0) \<and> validateLabels (su_Labels s) = None \<and>
     distinct (map rp_Granularity (su_Reports s)) \<and> (\<forall>r \<in> set (su_Reports s). validateReport r = Inr (reportNodes r))"
  by (auto simp: validateSummary_def summaryNodes_def validateReports_None)

lemma validateSummary_sound:
  assumes "int64Fields s" and "validateSummary s mode = Inr n"
  shows "totalsAgree mode s \<and> (\<forall>r \<in> set (su_Reports s). reportSound r)"
  using assms validateReport_sound
  by (auto simp: validateSummary_Inr totalsAgree_def validateTotals_None validateDenominator_None)

lemma validateAttempt_summaries:
  assumes "validateAttempt t = Inr n" and "s \<in> set (at_Summaries t)"
  shows "\<exists>m. validateSummary s (at_Mode t) = Inr m"
proof -
  have "loopErr (\<lambda>i seen s. firstErr
      [refuse (sampleTypeKey s \<in> sampleTypeKey ` set seen) (PlainErr ''duplicate sample type summary''),
       indexed ''summaries'' i '': '' (errOf (validateSummary s (at_Mode t)))]) [] (at_Summaries t) = None \<longleftrightarrow>
    distinct (map sampleTypeKey (at_Summaries t)) \<and> (\<forall>s \<in> set (at_Summaries t). errOf (validateSummary s (at_Mode t)) = None)"
    by (rule loopErr_distinct) auto
  then show ?thesis using assms by (auto simp: validateAttempt_def errOf_None)
qed

lemma validateAttempts_None:
  "loopErr (\<lambda>i seen t. firstErr
      [indexed ''attempt'' i '': '' (errOf (validateAttempt t)),
       indexed ''attempt'' i '' flame: '' (validateFlame t binary version generated)]) [] ts = None \<longleftrightarrow>
   (\<forall>t \<in> set ts. (\<exists>n. validateAttempt t = Inr n) \<and> validateFlame t binary version generated = None)"
  by (rule loopErr_all) (auto simp: errOf_None)

text \<open>What an accepted flame graph that is ready shows: which inputs and which binary it is of, and its boxes.\<close>

definition flameSound :: "ProfileAttempt \<Rightarrow> BinaryProvenance \<Rightarrow> bool" where
  "flameSound t binary \<longleftrightarrow>
     (\<forall>flame. at_Flame t = Some flame \<and> fg_Status flame = ''ready'' \<longrightarrow>
        verifiedPair binary \<and> fg_BinarySHA256 flame = ei_SHA256 (bp_Captured binary) \<and>
        fg_InputSHA256 flame = map oi_SHA256 (at_ObservedInputs t) \<and>
        length (fg_Nodes flame) \<le> MaxFlameNodes \<and>
        (\<forall>n \<in> set (fg_Nodes flame). 0 \<le> fn_Depth n \<and> fn_Depth n < 64 \<and> 0 \<le> fn_X n \<and> 0 < fn_Width n \<and>
           wrap64 (fn_X n + fn_Width n) \<le> 10000))"

lemma zip_map_eq: "length xs = length ys \<Longrightarrow> \<forall>p \<in> set (zip xs ys). fst p = g (snd p) \<Longrightarrow> xs = map g ys"
  by (induction xs ys rule: list_induct2) auto

lemma validateFlame_sound:
  assumes flame: "validateFlame t binary version generated = None" and binary: "validateBinary binary = None"
  shows "flameSound t binary"
proof (unfold flameSound_def, intro allI impI, elim conjE)
  fix f
  assume f: "at_Flame t = Some f" "fg_Status f = ''ready''"
  obtain analyzed where an: "bp_Analyzed binary = Some analyzed" "bp_Match binary = BinaryMatchVerified"
      "fg_BinarySHA256 f = ei_SHA256 analyzed"
    using flame f by (cases "bp_Analyzed binary") (auto simp: validateFlame_def)
  then have v: "verifiedPair binary" using binary by (simp add: validateBinary_def)
  have loop1: "loopErr (\<lambda>i seen. validateInputHash) [] ps = None \<longleftrightarrow> (\<forall>p \<in> set ps. validateInputHash p = None)" for ps
    by (rule loopErr_all) simp
  have loop2: "loopErr (\<lambda>i seen. validateFlameNode) [] ns = None \<longleftrightarrow> (\<forall>n \<in> set ns. validateFlameNode n = None)" for ns
    by (rule loopErr_all) simp
  have len: "length (fg_InputSHA256 f) = length (at_ObservedInputs t)" and "length (fg_Nodes f) \<le> MaxFlameNodes"
    and nodes: "\<forall>n \<in> set (fg_Nodes f). validateFlameNode n = None"
    and same: "\<forall>p \<in> set (zip (fg_InputSHA256 f) (at_ObservedInputs t)). fst p = oi_SHA256 (snd p)"
    using flame f by (auto simp: validateFlame_def loop1 loop2 validateInputHash_def)
  have "fg_InputSHA256 f = map oi_SHA256 (at_ObservedInputs t)"
    by (rule zip_map_eq [OF len same])
  with v an nodes \<open>length (fg_Nodes f) \<le> MaxFlameNodes\<close>
  show "verifiedPair binary \<and> fg_BinarySHA256 f = ei_SHA256 (bp_Captured binary) \<and>
      fg_InputSHA256 f = map oi_SHA256 (at_ObservedInputs t) \<and> length (fg_Nodes f) \<le> MaxFlameNodes \<and>
      (\<forall>n \<in> set (fg_Nodes f). 0 \<le> fn_Depth n \<and> fn_Depth n < 64 \<and> 0 \<le> fn_X n \<and> 0 < fn_Width n \<and>
         wrap64 (fn_X n + fn_Width n) \<le> 10000)"
    by (auto simp: verifiedPair_def validateFlameNode_def not_less not_le)
qed

lemma hardIsolation_sound:
  assumes "hardIsolation i = None"
  shows "wi_HardLimitVerified i \<and> wi_StoppedVerified i \<and> 0 < wi_AddressSpaceMaxBytes i \<and>
    wi_AddressSpaceMaxBytes i \<le> MaxWorkerAddressBytes"
proof (cases "wi_Mode i = IsolationLinuxCgroupV2")
  case True
  then have "wi_MemoryMaxBytes i \<noteq> 0" "wi_MemoryMaxBytes i \<le> wi_AddressSpaceMaxBytes i"
    using assms by (auto simp: hardIsolation_def not_less)
  then have "0 < wi_AddressSpaceMaxBytes i" by (metis order_less_le_trans word_neq_0_conv)
  then show ?thesis using assms True by (auto simp: hardIsolation_def not_less)
next
  case False
  then show ?thesis using assms by (auto simp: hardIsolation_def not_less word_neq_0_conv split: if_splits)
qed

lemma recomputed_ok:
  assumes "RecomputeStatus a = AnalysisStatusOK"
  shows "bp_Match (pa_Binary a) = BinaryMatchVerified \<and>
    (\<forall>t \<in> set (pa_Attempts a). at_Status t = AnalysisStatusOK \<and> cv_Complete (at_Coverage t) \<and>
       length (at_ObservedInputs t) = length (at_ExpectedInputs t))"
  using assms by (auto simp: RecomputeStatus_def Let_def list_ex_iff split: if_splits)

lemma accepted_parts:
  assumes "Validate_profile enc sha a = None"
  shows "validateBinary (pa_Binary a) = None" and "validateIsolation a = None" and "pa_Status a = RecomputeStatus a"
    and "\<forall>t \<in> set (pa_Attempts a). (\<exists>n. validateAttempt t = Inr n) \<and>
      validateFlame t (pa_Binary a) (ap_Version (pa_Analyzer a)) (pa_GeneratedAt a) = None"
    and "sum_list (map (\<lambda>t. length (at_Summaries t)) (pa_Attempts a)) \<le> MaxSummaries"
    and "sum_list (map (\<lambda>t. sum_list (map summaryNodes (at_Summaries t))) (pa_Attempts a)) \<le> MaxReportNodes"
    and "validateIdentity enc sha a = None"
  using assms by (simp_all add: Validate_profile_def Let_def validateAttempts_None not_less)


definition exampleHash :: string where
  "exampleHash = replicate 64 (CHR ''a'')"

definition exampleIdentity :: ExecutableIdentity where
  "exampleIdentity = \<lparr>ei_SHA256 = exampleHash, ei_BuildInfoSHA256 = [], ei_Source = ''proc-self-exe'', ei_GoVersion = [],
     ei_MainModule = [], ei_MainVersion = [], ei_MainSum = [], ei_VCSRevision = [], ei_VCSModified = False,
     ei_Settings = [\<lparr>bs_Key = ''GOOS'', bs_Value = ''linux''\<rparr>], ei_Status = ''captured''\<rparr>"

definition exampleSummary :: ProfileSummary where
  "exampleSummary = \<lparr>su_SampleType = ''cpu'', su_Unit = ''ns'', su_NetTotal = 7, su_PositiveTotal = 7,
     su_NegativeMagnitude = 0, su_PercentDenominator = 7, su_DenominatorMode = ''net'',
     su_Reports = [\<lparr>rp_Granularity = ''functions'',
       rp_TopFlat = [\<lparr>nd_Function = ''main'', nd_File = [], nd_Line = 0, nd_Value = 7\<rparr>], rp_TopCumulative = [],
       rp_TopNegativeFlat = [], rp_TopNegativeCumulative = []\<rparr>], su_Labels = []\<rparr>"

definition exampleFlame :: FlameGraph where
  "exampleFlame = \<lparr>fg_Status = ''ready'', fg_Reason = [], fg_Mode = ''interval'', fg_SampleType = ''cpu'', fg_Unit = ''ns'',
     fg_TotalWeight = 7,
     fg_Nodes = [\<lparr>fn_Function = ''main'', fn_Depth = 0, fn_X = 0, fn_Width = 10000, fn_Value = 7, fn_Sign = ''positive''\<rparr>],
     fg_Truncated = False, fg_NodeLimit = 2048, fg_DepthLimit = 64, fg_InputSHA256 = [exampleHash],
     fg_BinarySHA256 = exampleHash, fg_AnalyzerVersion = ''v1'', fg_GeneratedAt = 5\<rparr>"

definition exampleAttempt :: ProfileAttempt where
  "exampleAttempt = \<lparr>at_Kind = ''cpu'', at_Mode = ''interval'', at_Status = ''ok'',
     at_Coverage = \<lparr>cv_RunSpanNs = 0, cv_CaptureSpanNs = 0, cv_HeadLossNs = 0, cv_TailExcessNs = 0, cv_TailLossNs = 0,
       cv_StopReason = [], cv_Complete = True\<rparr>,
     at_ExpectedInputs = [\<lparr>xi_Kind = ''cpu'', xi_Point = ''interval'', xi_File = ''p''\<rparr>],
     at_ObservedInputs = [\<lparr>oi_ExpectedFile = ''p'', oi_File = ''p'', oi_SHA256 = exampleHash, oi_Sidecar = [],
       oi_SidecarSHA256 = [], oi_CoverageFile = [], oi_CoverageSHA256 = [], oi_Bytes = 9, oi_Symbolized = True\<rparr>],
     at_Diagnostics = [], at_Summaries = [exampleSummary], at_Flame = Some exampleFlame\<rparr>"

definition exampleAnalysis :: ProfileAnalysisV1 where
  "exampleAnalysis = \<lparr>pa_SchemaVersion = 1, pa_AnalysisID = ''2a'', pa_SnapshotBase = ''s'', pa_SnapshotSHA256 = exampleHash,
     pa_SnapshotSchemaVersion = 1, pa_RunID = ''r'', pa_GeneratedAt = 5,
     pa_Analyzer = \<lparr>ap_Version = ''v1'', ap_Revision = [], ap_Dirty = False, ap_PprofVersion = [],
       ap_Executable = exampleIdentity,
       ap_Isolation = \<lparr>wi_Mode = ''linux-cgroup-v2'', wi_Bootstrap = ''cgroupfd-sigstop'', wi_MemoryMaxBytes = 1024,
         wi_AddressSpaceMaxBytes = 2048, wi_HardLimitVerified = True, wi_StoppedVerified = True,
         wi_MembershipVerified = True\<rparr>\<rparr>,
     pa_Binary = \<lparr>bp_Captured = exampleIdentity, bp_Analyzed = Some exampleIdentity, bp_Match = ''verified''\<rparr>,
     pa_Status = ''ok'', pa_Diagnostics = [], pa_Attempts = [exampleAttempt]\<rparr>"

lemma bounded_small:
  assumes ascii: "list_all (\<lambda>c. 32 \<le> byte c \<and> byte c < 127) s" and size: "s \<noteq> []" "length s \<le> mx"
  shows "bounded s mx"
proof -
  have a: "list_all (\<lambda>c. byte c < 128) s" using ascii by (auto simp: list_all_iff)
  show ?thesis using ascii size utf8_ascii [OF a]
    by (auto simp: bounded_def strings_HasRune_def runes_def controlRune_def decode_ascii [OF a] list_all_iff list_ex_iff)
qed

lemma validHash_example [simp]: "validHash exampleHash"
  by (simp add: validHash_def exampleHash_def isLowerHex_def lowerHexByte_def list_all_iff)

lemma exampleHash_nonempty [simp]: "exampleHash \<noteq> []"
  by (simp add: exampleHash_def)

lemma example_bounded:
  "bounded ''cpu'' 64" "bounded ''ns'' 32" "bounded ''main'' 512" "bounded ''main'' 256" "bounded ''p'' 255"
  "bounded ''s'' 255" "bounded ''r'' 128" "bounded ''v1'' 256" "bounded ''GOOS'' 64" "bounded ''linux'' 256"
  by (rule bounded_small; simp add: byte_def)+

lemma example_summary: "validateSummary exampleSummary ''interval'' = Inr 1"
  by (simp add: exampleSummary_def validateSummary_Inr validateReport_Inr validateList_None validateNode_def
      validateTotals_def validateDenominator_def validateLabels_def summaryNodes_def reportNodes_def
      CheckedNegate_def CheckedAdd_def wrap64_def go_defs example_bounded)

lemma example_attempt: "validateAttempt exampleAttempt = Inr (1, 1)"
proof -
  have "sum_list (map summaryNodes [exampleSummary]) = 1"
    by (simp add: exampleSummary_def summaryNodes_def reportNodes_def)
  then show ?thesis
    by (simp add: exampleAttempt_def validateAttempt_def validStatus_def wantInputs_def validateExpected_def
        validateObserved_def validateBasename_def filepath_Base_def validateOptionalArtifactPair_def errOf_def
        example_summary example_bounded)
qed

lemma example_flame: "validateFlame exampleAttempt (pa_Binary exampleAnalysis) ''v1'' 5 = None"
  by (simp add: exampleAttempt_def exampleAnalysis_def exampleIdentity_def validateFlame_def exampleFlame_def
      validateInputHash_def validateFlameNode_def wrap64_def example_bounded)

lemma example_executable: "validateExecutable field exampleIdentity = None"
  by (simp add: validateExecutable_def exampleIdentity_def validateSetting_def safeBuildSetting_def settingsBytes_def
      example_bounded)

lemma example_fields:
  "cv_Complete (at_Coverage exampleAttempt)" "length (at_ObservedInputs exampleAttempt) = 1"
  "length (at_ExpectedInputs exampleAttempt) = 1" "at_Status exampleAttempt = ''ok''"
  "at_Diagnostics exampleAttempt = []" "at_Summaries exampleAttempt = [exampleSummary]"
  "ei_Status exampleIdentity = ''captured''" "summaryNodes exampleSummary = 1"
  by (simp_all add: exampleAttempt_def exampleIdentity_def exampleSummary_def summaryNodes_def reportNodes_def)

lemma example_accepted: "Validate_profile (\<lambda>_. Inr []) (\<lambda>_. [CHR ''*'']) exampleAnalysis = None"
proof -
  have "validateBinary (pa_Binary exampleAnalysis) = None"
    by (simp add: exampleAnalysis_def validateBinary_def example_executable verifiedPair_def)
       (simp add: exampleIdentity_def)
  moreover have "validateIdentity (\<lambda>_. Inr []) (\<lambda>_. [CHR ''*'']) exampleAnalysis = None"
    by (simp add: validateIdentity_def SetAnalysisID_def CanonicalJSON_def trimNewline_def exampleAnalysis_def) code_simp
  ultimately show ?thesis
    using example_attempt example_flame example_executable
    by (simp add: Validate_profile_def Let_def errOf_def exampleAnalysis_def validStatus_def filepath_Base_def
        IsZero_def optionalBounded_def example_bounded validateIsolation_def hardIsolation_def RecomputeStatus_def
        example_fields)
qed


text \<open>
  C15: Naming an analysis by its content is a round trip. The identifier it is given passes the identity
  check of validation whenever the body is within its limit, naming it again changes nothing, whatever
  identifier it carried before, and a body of another digest is refused under the old identifier.
\<close>

theorem analysis_identity_roundtrip:
  assumes "SetAnalysisID enc sha a = Inr b"
  shows "SetAnalysisID enc sha b = Inr b
    \<and> SetAnalysisID enc sha (a\<lparr>pa_AnalysisID := other\<rparr>) = Inr b
    \<and> (\<forall>body. CanonicalJSON enc b = Inr body \<longrightarrow>
         (validateIdentity enc sha b = None \<longleftrightarrow> length body \<le> MaxAnalysisBodyBytes))
    \<and> (\<forall>c body. CanonicalJSON enc (c\<lparr>pa_AnalysisID := []\<rparr>) = Inr body \<and>
         hex_EncodeToString (sha body) \<noteq> pa_AnalysisID b \<longrightarrow>
         Validate_profile enc sha (c\<lparr>pa_AnalysisID := pa_AnalysisID b\<rparr>) \<noteq> None)"
proof -
  obtain body where body: "CanonicalJSON enc (a\<lparr>pa_AnalysisID := []\<rparr>) = Inr body"
    and b: "b = a\<lparr>pa_AnalysisID := hex_EncodeToString (sha body)\<rparr>"
    using assms by (auto simp: SetAnalysisID_def split: sum.splits)
  have again: "SetAnalysisID enc sha b = Inr b" using body by (simp add: SetAnalysisID_def b)
  have "validateIdentity enc sha (c\<lparr>pa_AnalysisID := pa_AnalysisID b\<rparr>) \<noteq> None"
    if "CanonicalJSON enc (c\<lparr>pa_AnalysisID := []\<rparr>) = Inr body'" "hex_EncodeToString (sha body') \<noteq> pa_AnalysisID b"
    for c body' using that by (simp add: validateIdentity_def SetAnalysisID_def)
  then have "Validate_profile enc sha (c\<lparr>pa_AnalysisID := pa_AnalysisID b\<rparr>) \<noteq> None"
    if "CanonicalJSON enc (c\<lparr>pa_AnalysisID := []\<rparr>) = Inr body'" "hex_EncodeToString (sha body') \<noteq> pa_AnalysisID b"
    for c body' using that accepted_parts(7) by blast
  moreover have "SetAnalysisID enc sha (a\<lparr>pa_AnalysisID := other\<rparr>) = Inr b"
    using body by (simp add: SetAnalysisID_def b)
  moreover have "validateIdentity enc sha b = None \<longleftrightarrow> length body' \<le> MaxAnalysisBodyBytes"
    if "CanonicalJSON enc b = Inr body'" for body'
    using that again by (simp add: validateIdentity_def not_less)
  ultimately show ?thesis using again by blast
qed

definition runIDEncoder :: "ProfileAnalysisV1 \<Rightarrow> gerr + string" where
  "runIDEncoder a = Inr (pa_RunID a @ [CHR 0x0A])"

theorem analysis_identity_roundtrip_witness:
  "Validate_profile runIDEncoder (\<lambda>s. s) (exampleAnalysis\<lparr>pa_RunID := ''x'', pa_AnalysisID := ''72''\<rparr>) \<noteq> None"
proof -
  have "SetAnalysisID runIDEncoder (\<lambda>s. s) exampleAnalysis = Inr (exampleAnalysis\<lparr>pa_AnalysisID := ''72''\<rparr>)"
    by (simp add: SetAnalysisID_def CanonicalJSON_def runIDEncoder_def trimNewline_def exampleAnalysis_def) code_simp
  moreover have "CanonicalJSON runIDEncoder (exampleAnalysis\<lparr>pa_RunID := ''x'', pa_AnalysisID := []\<rparr>) = Inr ''x''"
    by (simp add: CanonicalJSON_def runIDEncoder_def trimNewline_def)
  moreover have "hex_EncodeToString ''x'' \<noteq> ''72''" by code_simp
  ultimately have "Validate_profile runIDEncoder (\<lambda>s. s) ((exampleAnalysis\<lparr>pa_RunID := ''x''\<rparr>)\<lparr>pa_AnalysisID :=
      pa_AnalysisID (exampleAnalysis\<lparr>pa_AnalysisID := ''72''\<rparr>)\<rparr>) \<noteq> None"
    using analysis_identity_roundtrip [of runIDEncoder "\<lambda>s. s" exampleAnalysis] by fastforce
  then show ?thesis by simp
qed

end
