(* ===== verification/Pprof.thy ===== *)
theory Pprof
  imports Profile_Validate Tables
begin

text \<open>
  \<open>internal/pprofanalyze/decode.go\<close> (the preflight after parsing) and \<open>internal/pprofanalyze/aggregate.go\<close>:
  from a decoded profile to its flat and cumulative reports.

  The profile is data of \<open>github.com/google/pprof/profile\<close>; the records below hold the fields the
  sources read. A profile has no \<open>nil\<close> sample, location, function or mapping: \<open>CheckValid\<close> of that
  package refuses them before any of this code runs. \<open>CheckValid\<close> and \<open>Merge\<close> are arguments; \<open>Copy\<close> is the
  identity on values. Indexing past the end of a slice is a run-time panic and appears as
  \<open>indexPanic\<close>.
\<close>

subsection \<open>Profiles\<close>

record pFunction =
  pf_Name :: string
  pf_SystemName :: string
  pf_Filename :: string

record pLine =
  pl_Function :: "pFunction option"
  pl_Line :: int

record pLocation =
  po_Line :: "pLine list"

record pValueType =
  vt_Type :: string
  vt_Unit :: string

record pSample =
  sm_Location :: "pLocation list"
  sm_Value :: "int list"
  sm_Label :: "(string \<times> string list) list"
  sm_NumLabel :: "(string \<times> int list) list"
  sm_NumUnit :: "(string \<times> string list) list"

record pMapping =
  mp_File :: string
  mp_BuildID :: string

record pProfile =
  pp_SampleType :: "pValueType list"
  pp_Sample :: "pSample list"
  pp_Mapping :: "pMapping list"
  pp_Location :: "pLocation list"
  pp_Function :: "pFunction list"
  pp_Comments :: "string list"
  pp_DropFrames :: string
  pp_KeepFrames :: string
  pp_DefaultSampleType :: string
  pp_PeriodType :: "pValueType option"

subsection \<open>Loops that stop at the first error\<close>

definition indexPanic :: gerr where
  "indexPanic = PanicError ''runtime error: index out of range''"

fun foldE :: "('a \<Rightarrow> 's \<Rightarrow> gerr + 's) \<Rightarrow> 'a list \<Rightarrow> 's \<Rightarrow> gerr + 's" where
  "foldE f [] s = Inr s"
| "foldE f (x # xs) s = (case f x s of Inl e \<Rightarrow> Inl e | Inr s' \<Rightarrow> foldE f xs s')"

text \<open>One pass over the values of a sample, each updating the accumulator at its own index.\<close>

fun rowE :: "(nat \<Rightarrow> int \<Rightarrow> 's \<Rightarrow> gerr + 's) \<Rightarrow> nat \<Rightarrow> int list \<Rightarrow> 's list \<Rightarrow> gerr + 's list" where
  "rowE f k [] xs = Inr xs"
| "rowE f k (v # vs) [] = Inl indexPanic"
| "rowE f k (v # vs) (x # xs) =
     (case f k v x of
        Inl e \<Rightarrow> Inl e
      | Inr y \<Rightarrow> (case rowE f (Suc k) vs xs of Inl e \<Rightarrow> Inl e | Inr ys \<Rightarrow> Inr (y # ys)))"

fun mapE :: "('a \<Rightarrow> gerr + 'b) \<Rightarrow> 'a list \<Rightarrow> gerr + 'b list" where
  "mapE f [] = Inr []"
| "mapE f (x # xs) =
     (case f x of Inl e \<Rightarrow> Inl e | Inr y \<Rightarrow> (case mapE f xs of Inl e \<Rightarrow> Inl e | Inr ys \<Rightarrow> Inr (y # ys)))"

lemma foldE_append: "foldE f (xs @ ys) s = (case foldE f xs s of Inl e \<Rightarrow> Inl e | Inr s' \<Rightarrow> foldE f ys s')"
  by (induction xs arbitrary: s) (auto split: sum.split)

lemma rowE_Inr:
  "length vs = length xs \<Longrightarrow> rowE f k vs xs = Inr ys \<longleftrightarrow>
     length ys = length xs \<and> (\<forall>i < length xs. f (k + i) (vs ! i) (xs ! i) = Inr (ys ! i))"
proof (induction vs xs arbitrary: k ys rule: list_induct2)
  case (Cons v vs x xs)
  show ?case
  proof (cases ys)
    case Nil
    then show ?thesis by (auto split: sum.split)
  next
    case (Cons y ys')
    then show ?thesis using Cons.IH [of "Suc k" ys'] by (auto simp: All_less_Suc2 split: sum.split)
  qed
qed auto

lemma rowE_exists:
  assumes "length vs = length xs" and "\<And>i. i < length xs \<Longrightarrow> \<exists>y. f (k + i) (vs ! i) (xs ! i) = Inr y \<and> P i y"
  shows "\<exists>ys. rowE f k vs xs = Inr ys \<and> length ys = length xs \<and> (\<forall>i < length xs. P i (ys ! i))"
proof -
  define g where "g i = (SOME y. f (k + i) (vs ! i) (xs ! i) = Inr y \<and> P i y)" for i
  have g: "f (k + i) (vs ! i) (xs ! i) = Inr (g i) \<and> P i (g i)" if "i < length xs" for i
    unfolding g_def by (rule someI_ex [OF assms(2) [OF that]])
  have "rowE f k vs xs = Inr (map g [0..<length xs])" using assms(1) g by (simp add: rowE_Inr)
  then show ?thesis using g by (intro exI [of _ "map g [0..<length xs]"]) simp
qed

lemma mapE_Inr: "mapE f xs = Inr ys \<longleftrightarrow> length ys = length xs \<and> (\<forall>i < length xs. f (xs ! i) = Inr (ys ! i))"
proof (induction xs arbitrary: ys)
  case (Cons x xs)
  then show ?case by (cases ys) (auto simp: All_less_Suc2 intro: nth_equalityI split: sum.split)
qed auto

subsection \<open>Preflight\<close>

record Limits =
  li_CompressedBytes :: int
  li_ExpandedBytes :: int
  li_Samples :: int
  li_Locations :: int
  li_Functions :: int
  li_Mappings :: int
  li_SampleTypes :: int
  li_Comments :: int
  li_LocationRefs :: uint64
  li_LabelValues :: uint64
  li_LabelKeysPerSample :: int
  li_LabelValuesPerKey :: int

definition DefaultLimits :: Limits where
  "DefaultLimits =
     \<lparr>li_CompressedBytes = 33554432, li_ExpandedBytes = 67108864, li_Samples = 500000, li_Locations = 250000,
      li_Functions = 250000, li_Mappings = 65536, li_SampleTypes = 16, li_Comments = 128,
      li_LocationRefs = 5000000, li_LabelValues = 1000000, li_LabelKeysPerSample = 16, li_LabelValuesPerKey = 32\<rparr>"

definition validateLimits :: "Limits \<Rightarrow> gerr option" where
  "validateLimits l =
     refuse (li_CompressedBytes l < 0 \<or> li_ExpandedBytes l < 0 \<or> li_CompressedBytes l > 1073741824 \<or>
         li_ExpandedBytes l > 1073741824 \<or> li_Samples l < 0 \<or> li_Locations l < 0 \<or> li_Functions l < 0 \<or>
         li_Mappings l < 0 \<or> li_SampleTypes l < 0 \<or> li_Comments l < 0 \<or> li_LabelKeysPerSample l < 0 \<or>
         li_LabelValuesPerKey l < 0)
       (PlainErr ''pprofanalyze: invalid decode limits'')"

definition boundedOptionalString :: "string \<Rightarrow> nat \<Rightarrow> bool" where
  "boundedOptionalString value mx \<longleftrightarrow> utf8_ValidString value \<and> length value \<le> mx"

definition boundedString :: "string \<Rightarrow> nat \<Rightarrow> bool" where
  "boundedString value mx \<longleftrightarrow> value \<noteq> [] \<and> boundedOptionalString value mx"

definition exceedErr :: "string \<Rightarrow> nat \<Rightarrow> int \<Rightarrow> gerr option" where
  "exceedErr name n limit =
     refuse (int n > limit) (PlainErr (''pprofanalyze: '' @ name @ '' '' @ show_nat n @ '' exceed '' @ show_int limit))"

definition objectErr :: "string \<Rightarrow> nat \<Rightarrow> string \<Rightarrow> gerr" where
  "objectErr name i text = PlainErr (''pprofanalyze: '' @ name @ ''['' @ show_nat i @ '']'' @ text)"

text \<open>The label loops of one sample; the sum carries the number of label values seen so far.\<close>

definition addValues :: "Limits \<Rightarrow> nat \<Rightarrow> uint64 \<Rightarrow> gerr + uint64" where
  "addValues l n sofar =
     (case CheckedAddUint64 sofar (word_of_nat n) of
        (t, ok) \<Rightarrow> if \<not> ok \<or> t > li_LabelValues l then Inl (PlainErr ''pprofanalyze: label values exceed limit'') else Inr t)"

definition stringLabel :: "Limits \<Rightarrow> nat \<Rightarrow> string \<times> string list \<Rightarrow> uint64 \<Rightarrow> gerr + uint64" where
  "stringLabel l i kv sofar =
     (if \<not> boundedString (fst kv) 64 \<or> int (length (snd kv)) > li_LabelValuesPerKey l
      then Inl (objectErr ''sample'' i '' string label exceeds bounds'')
      else if list_ex (\<lambda>v. \<not> boundedString v 128) (snd kv)
      then Inl (objectErr ''sample'' i '' label value exceeds bounds'')
      else addValues l (length (snd kv)) sofar)"

definition numericLabel :: "Limits \<Rightarrow> nat \<Rightarrow> pSample \<Rightarrow> string \<times> int list \<Rightarrow> uint64 \<Rightarrow> gerr + uint64" where
  "numericLabel l i s kv sofar =
     (let units = (case map_of (sm_NumUnit s) (fst kv) of None \<Rightarrow> [] | Some us \<Rightarrow> us) in
      if \<not> boundedString (fst kv) 64 \<or> int (length (snd kv)) > li_LabelValuesPerKey l
      then Inl (objectErr ''sample'' i '' numeric label exceeds bounds'')
      else if units \<noteq> [] \<and> length units \<noteq> length (snd kv)
      then Inl (objectErr ''sample'' i '' numeric label units mismatch'')
      else if list_ex (\<lambda>u. \<not> boundedString u 32) units
      then Inl (objectErr ''sample'' i '' numeric label unit exceeds bounds'')
      else addValues l (length (snd kv)) sofar)"

definition sampleObjects :: "Limits \<Rightarrow> nat \<times> pSample \<Rightarrow> uint64 \<times> uint64 \<Rightarrow> gerr + uint64 \<times> uint64" where
  "sampleObjects l is st =
     (case CheckedAddUint64 (fst st) (word_of_nat (length (sm_Location (snd is)))) of
        (refs, ok) \<Rightarrow>
          if \<not> ok \<or> refs > li_LocationRefs l then Inl (PlainErr ''pprofanalyze: location references exceed limit'')
          else
            (case foldE (stringLabel l (fst is)) (sm_Label (snd is)) (snd st) of
               Inl e \<Rightarrow> Inl e
             | Inr t1 \<Rightarrow>
                 (case foldE (numericLabel l (fst is) (snd is)) (sm_NumLabel (snd is)) t1 of
                    Inl e \<Rightarrow> Inl e
                  | Inr t2 \<Rightarrow>
                      if int (card (set (map fst (sm_Label (snd is))) \<union> set (map fst (sm_NumLabel (snd is))))) > li_LabelKeysPerSample l
                      then Inl (objectErr ''sample'' (fst is) '' label keys exceed limit'')
                      else Inr (refs, t2))))"

definition validateObjects :: "pProfile \<Rightarrow> Limits \<Rightarrow> gerr option" where
  "validateObjects p l = firstErr
     [exceedErr ''samples'' (length (pp_Sample p)) (li_Samples l),
      exceedErr ''locations'' (length (pp_Location p)) (li_Locations l),
      exceedErr ''functions'' (length (pp_Function p)) (li_Functions l),
      exceedErr ''mappings'' (length (pp_Mapping p)) (li_Mappings l),
      exceedErr ''sample types'' (length (pp_SampleType p)) (li_SampleTypes l),
      exceedErr ''comments'' (length (pp_Comments p)) (li_Comments l),
      loopErr (\<lambda>i seen t. refuse (\<not> boundedString (vt_Type t) 64 \<or> \<not> boundedString (vt_Unit t) 32)
        (objectErr ''sample type'' i '' type/unit exceeds bounds'')) [] (pp_SampleType p),
      (case pp_PeriodType p of
         None \<Rightarrow> None
       | Some t \<Rightarrow> refuse ((vt_Type t \<noteq> [] \<or> vt_Unit t \<noteq> []) \<and> (\<not> boundedString (vt_Type t) 64 \<or> \<not> boundedString (vt_Unit t) 32))
           (PlainErr ''pprofanalyze: period sample type exceeds bounds'')),
      loopErr (\<lambda>i seen f. refuse (\<not> boundedString (pf_Name f) 512 \<or> \<not> boundedOptionalString (pf_SystemName f) 512 \<or>
          \<not> boundedOptionalString (pf_Filename f) 512) (objectErr ''function'' i '' strings exceed bounds'')) [] (pp_Function p),
      loopErr (\<lambda>i seen m. refuse (\<not> boundedOptionalString (mp_File m) 512 \<or> \<not> boundedOptionalString (mp_BuildID m) 512)
        (objectErr ''mapping'' i '' strings exceed bounds'')) [] (pp_Mapping p),
      loopErr (\<lambda>i seen c. refuse (\<not> boundedString c 1024) (objectErr ''comment'' i '' exceeds bounds'')) [] (pp_Comments p),
      refuse (\<not> boundedOptionalString (pp_DropFrames p) 1024 \<or> \<not> boundedOptionalString (pp_KeepFrames p) 1024 \<or>
          \<not> boundedOptionalString (pp_DefaultSampleType p) 64)
        (PlainErr ''pprofanalyze: profile selector string exceeds bounds''),
      errOf (foldE (sampleObjects l) (enumerate 0 (pp_Sample p)) (0, 0))]"

definition overflowErr :: "nat \<Rightarrow> nat \<Rightarrow> gerr" where
  "overflowErr i j = PlainErr (''pprofanalyze: '' @ DiagnosticSampleValueOverflow @ '' at sample '' @ show_nat i @
     '' value '' @ show_nat j)"

definition addBudget :: "nat \<Rightarrow> nat \<Rightarrow> int \<Rightarrow> int \<Rightarrow> gerr + int" where
  "addBudget i j value budget =
     (case CheckedAbs value of
        (magnitude, ok) \<Rightarrow>
          if \<not> ok then Inl (overflowErr i j)
          else (case CheckedAdd budget magnitude of (b, ok') \<Rightarrow> if \<not> ok' then Inl (overflowErr i j) else Inr b))"

definition absoluteBudgets :: "pProfile \<Rightarrow> gerr + int list" where
  "absoluteBudgets p =
     foldE (\<lambda>is budgets. rowE (addBudget (fst is)) 0 (sm_Value (snd is)) budgets) (enumerate 0 (pp_Sample p))
       (replicate (length (pp_SampleType p)) 0)"

subsection \<open>Aggregation\<close>

definition reportGranularities :: "string list" where
  "reportGranularities = [GranularityFunctions, GranularityFileFunctions, GranularityFiles, GranularityLines]"

record nodeKey =
  nk_function :: string
  nk_file :: string
  nk_line :: int

type_synonym nodeTable = "(nodeKey \<times> int) list"

definition keyForLine :: "pLine \<Rightarrow> string \<Rightarrow> nodeKey option" where
  "keyForLine line granularity =
     (case pl_Function line of
        None \<Rightarrow> None
      | Some f \<Rightarrow>
          if pf_Name f = [] \<or> pf_Filename f = [] then None
          else if granularity = GranularityFunctions then Some \<lparr>nk_function = pf_Name f, nk_file = [], nk_line = 0\<rparr>
          else if granularity = GranularityFileFunctions
          then Some \<lparr>nk_function = pf_Name f, nk_file = pf_Filename f, nk_line = 0\<rparr>
          else if granularity = GranularityFiles then Some \<lparr>nk_function = [], nk_file = pf_Filename f, nk_line = 0\<rparr>
          else if granularity = GranularityLines
          then Some \<lparr>nk_function = pf_Name f, nk_file = pf_Filename f, nk_line = pl_Line line\<rparr>
          else None)"

definition flatKey :: "pSample \<Rightarrow> string \<Rightarrow> nodeKey option" where
  "flatKey sample granularity =
     (case sm_Location sample of
        [] \<Rightarrow> None
      | location # _ \<Rightarrow> (case po_Line location of [] \<Rightarrow> None | line # _ \<Rightarrow> keyForLine line granularity))"

text \<open>The set \<open>seen\<close> of one sample: every key on its stack, once.\<close>

definition stackKeys :: "pSample \<Rightarrow> string \<Rightarrow> nodeKey list" where
  "stackKeys sample granularity =
     remdups (List.map_filter (\<lambda>line. keyForLine line granularity) (concat (map po_Line (sm_Location sample))))"

definition valueAt :: "nodeTable \<Rightarrow> nodeKey \<Rightarrow> int" where
  "valueAt t key = (case map_of t key of None \<Rightarrow> 0 | Some v \<Rightarrow> v)"

definition addNode :: "int \<Rightarrow> nodeKey \<Rightarrow> nodeTable \<Rightarrow> gerr + nodeTable" where
  "addNode value key table =
     (case CheckedAdd (valueAt table key) value of
        (next, ok) \<Rightarrow>
          if \<not> ok then Inl (PlainErr (''pprofanalyze: '' @ DiagnosticSampleValueOverflow @ '' aggregating node''))
          else Inr (alter key 0 (\<lambda>_. next) table))"

record typeTables =
  tt_positive :: int
  tt_negative :: int
  tt_tables :: "(nodeTable \<times> nodeTable) list"

definition emptyTables :: typeTables where
  "emptyTables = \<lparr>tt_positive = 0, tt_negative = 0, tt_tables = map (\<lambda>_. ([], [])) reportGranularities\<rparr>"

definition addKeys :: "pSample \<Rightarrow> int \<Rightarrow> string \<times> nodeTable \<times> nodeTable \<Rightarrow> gerr + nodeTable \<times> nodeTable" where
  "addKeys sample value gt =
     (case gt of
        (granularity, flat, cum) \<Rightarrow>
          (case (case flatKey sample granularity of None \<Rightarrow> Inr flat | Some key \<Rightarrow> addNode value key flat) of
             Inl e \<Rightarrow> Inl e
           | Inr flat' \<Rightarrow>
               (case foldE (addNode value) (stackKeys sample granularity) cum of
                  Inl e \<Rightarrow> Inl e
                | Inr cum' \<Rightarrow> Inr (flat', cum'))))"

definition addTotals :: "nat \<Rightarrow> nat \<Rightarrow> int \<Rightarrow> typeTables \<Rightarrow> gerr + typeTables" where
  "addTotals i j value t =
     (if value \<ge> 0 then
        (case CheckedAdd (tt_positive t) value of
           (p, ok) \<Rightarrow> if \<not> ok then Inl (overflowErr i j) else Inr (t\<lparr>tt_positive := p\<rparr>))
      else
        (case CheckedAbs value of
           (magnitude, magnitudeOK) \<Rightarrow>
             if \<not> magnitudeOK then Inl (overflowErr i j)
             else
               (case CheckedAdd (tt_negative t) magnitude of
                  (n, ok) \<Rightarrow> if \<not> ok then Inl (overflowErr i j) else Inr (t\<lparr>tt_negative := n\<rparr>))))"

definition addValue :: "nat \<times> pSample \<Rightarrow> nat \<Rightarrow> int \<Rightarrow> typeTables \<Rightarrow> gerr + typeTables" where
  "addValue is j value t =
     (case addTotals (fst is) j value t of
        Inl e \<Rightarrow> Inl e
      | Inr t' \<Rightarrow>
          (case mapE (addKeys (snd is) value) (zip reportGranularities (tt_tables t')) of
             Inl e \<Rightarrow> Inl e
           | Inr tables \<Rightarrow> Inr (t'\<lparr>tt_tables := tables\<rparr>)))"

definition nodeOrder :: "bool \<Rightarrow> ProfileNode \<Rightarrow> int \<times> string \<times> string \<times> int" where
  "nodeOrder negative n = ((if negative then nd_Value n else - nd_Value n), nd_Function n, nd_File n, nd_Line n)"

definition nodeOf :: "nodeKey \<times> int \<Rightarrow> ProfileNode" where
  "nodeOf kv = \<lparr>nd_Function = nk_function (fst kv), nd_File = nk_file (fst kv), nd_Line = nk_line (fst kv), nd_Value = snd kv\<rparr>"

definition topNodes :: "nodeTable \<Rightarrow> nat \<Rightarrow> bool \<Rightarrow> ProfileNode list" where
  "topNodes table limit negative =
     take limit (sort_key (nodeOrder negative)
       (map nodeOf (filter (\<lambda>kv. \<not> (snd kv = 0 \<or> negative \<noteq> (snd kv < 0))) table)))"

definition reportOf :: "nat \<Rightarrow> string \<times> nodeTable \<times> nodeTable \<Rightarrow> ProfileReport" where
  "reportOf topN gt =
     (case gt of
        (granularity, flat, cum) \<Rightarrow>
          \<lparr>rp_Granularity = granularity, rp_TopFlat = topNodes flat topN False, rp_TopCumulative = topNodes cum topN False,
           rp_TopNegativeFlat = topNodes flat topN True, rp_TopNegativeCumulative = topNodes cum topN True\<rparr>)"

definition netErr :: gerr where
  "netErr = PlainErr (''pprofanalyze: '' @ DiagnosticSampleValueOverflow @ '' computing net total'')"

definition summaryOf :: "string \<Rightarrow> nat \<Rightarrow> pValueType \<times> typeTables \<Rightarrow> gerr + ProfileSummary" where
  "summaryOf mode topN st =
     (case st of
        (sampleType, t) \<Rightarrow>
          (case CheckedNegate (tt_negative t) of
             (negated, ok) \<Rightarrow>
               if \<not> ok then Inl netErr
               else
                 (case CheckedAdd (tt_positive t) negated of
                    (net, ok) \<Rightarrow>
                      if \<not> ok then Inl netErr
                      else
                        (case (if mode = ProfileModeCumulativeDelta then CheckedAdd (tt_positive t) (tt_negative t)
                               else (tt_positive t, True)) of
                           (denominator, ok) \<Rightarrow>
                             if \<not> ok
                             then Inl (PlainErr (''pprofanalyze: '' @ DiagnosticSampleValueOverflow @
                               '' computing percentage denominator''))
                             else Inr
                               \<lparr>su_SampleType = vt_Type sampleType, su_Unit = vt_Unit sampleType, su_NetTotal = net,
                                su_PositiveTotal = tt_positive t, su_NegativeMagnitude = tt_negative t,
                                su_PercentDenominator = denominator,
                                su_DenominatorMode =
                                  (if mode = ProfileModeCumulativeDelta then DenominatorAbsoluteAddress else DenominatorNet),
                                su_Reports = map (reportOf topN) (zip reportGranularities (tt_tables t)),
                                su_Labels = []\<rparr>))))"

definition aggregateTables :: "pProfile \<Rightarrow> gerr + typeTables list" where
  "aggregateTables p =
     foldE (\<lambda>is. rowE (addValue is) 0 (sm_Value (snd is))) (enumerate 0 (pp_Sample p))
       (map (\<lambda>_. emptyTables) (pp_SampleType p))"

definition aggregate :: "pProfile \<Rightarrow> string \<Rightarrow> nat \<Rightarrow> gerr + ProfileSummary list" where
  "aggregate p mode topN =
     (case aggregateTables p of
        Inl e \<Rightarrow> Inl e
      | Inr ts \<Rightarrow> mapE (summaryOf mode topN) (zip (pp_SampleType p) ts))"

subsection \<open>The two analyses\<close>

definition checkedProfile ::
  "(pProfile \<Rightarrow> gerr option) \<Rightarrow> pProfile option \<Rightarrow> int \<Rightarrow> gerr + pProfile \<times> int list" where
  "checkedProfile CheckValid decoded topN =
     (case decoded of
        None \<Rightarrow> Inl (PlainErr ''pprofanalyze: decoded profile is required'')
      | Some p \<Rightarrow>
          if topN \<le> 0 \<or> topN > int MaxTopNodes
          then Inl (PlainErr (''pprofanalyze: top limit '' @ show_int topN @ '' is outside 1..50''))
          else
            (case CheckValid p of
               Some e \<Rightarrow> Inl (WrapErr ''pprofanalyze: profile is not valid: '' e [])
             | None \<Rightarrow>
                 (case absoluteBudgets p of Inl e \<Rightarrow> Inl e | Inr budgets \<Rightarrow> Inr (p, budgets))))"

definition negativeSample :: "nat \<Rightarrow> nat \<Rightarrow> gerr" where
  "negativeSample i j = PlainErr (''pprofanalyze: '' @ DiagnosticNegativeIntervalSample @ '' at sample '' @ show_nat i @
     '' value '' @ show_nat j)"

definition AnalyzeInterval ::
  "(pProfile \<Rightarrow> gerr option) \<Rightarrow> pProfile option \<Rightarrow> int \<Rightarrow> gerr + ProfileSummary list" where
  "AnalyzeInterval CheckValid decoded topN =
     (case checkedProfile CheckValid decoded topN of
        Inl e \<Rightarrow> Inl e
      | Inr (p, _) \<Rightarrow>
          (case loopErr (\<lambda>i seen s. loopErr (\<lambda>j seen v. refuse (v < 0) (negativeSample i j)) [] (sm_Value s)) [] (pp_Sample p) of
             Some e \<Rightarrow> Inl e
           | None \<Rightarrow> aggregate p ProfileModeInterval (nat topN)))"

definition budgetsFit :: "int list \<Rightarrow> int list \<Rightarrow> gerr option" where
  "budgetsFit open close = firstErr
     [refuse (length open \<noteq> length close) (PlainErr ''pprofanalyze: sample-type-incompatible: budget count differs''),
      loopErr (\<lambda>i seen oc. refuse (\<not> snd (CheckedAdd (fst oc) (snd oc)))
        (PlainErr (''pprofanalyze: '' @ DiagnosticSampleValueOverflow @ '' at sample type '' @ show_nat i))) [] (zip open close)]"

definition negateValue :: "nat \<Rightarrow> nat \<times> int \<Rightarrow> gerr + int" where
  "negateValue i jv =
     (case CheckedNegate (snd jv) of
        (negated, ok) \<Rightarrow>
          if \<not> ok then Inl (PlainErr (''pprofanalyze: '' @ DiagnosticSampleValueOverflow @ '' at open sample '' @
            show_nat i @ '' value '' @ show_nat (fst jv))) else Inr negated)"

definition negateSample :: "nat \<times> pSample \<Rightarrow> gerr + pSample" where
  "negateSample is =
     (case mapE (negateValue (fst is)) (enumerate 0 (sm_Value (snd is))) of
        Inl e \<Rightarrow> Inl e
      | Inr vs \<Rightarrow> Inr ((snd is)\<lparr>sm_Value := vs\<rparr>))"

definition DeltaProfile ::
  "(pProfile \<Rightarrow> gerr option) \<Rightarrow> (pProfile list \<Rightarrow> gerr + pProfile) \<Rightarrow> pProfile option \<Rightarrow> pProfile option \<Rightarrow> int \<Rightarrow>
   gerr + pProfile" where
  "DeltaProfile CheckValid Merge open close topN =
     (case checkedProfile CheckValid open topN of
        Inl e \<Rightarrow> Inl (WrapErr ''open profile: '' e [])
      | Inr (openProfile, openBudgets) \<Rightarrow>
          (case checkedProfile CheckValid close topN of
             Inl e \<Rightarrow> Inl (WrapErr ''close profile: '' e [])
           | Inr (closeChecked, closeBudgets) \<Rightarrow>
               (case budgetsFit openBudgets closeBudgets of
                  Some e \<Rightarrow> Inl e
                | None \<Rightarrow>
                    (case mapE negateSample (enumerate 0 (pp_Sample openProfile)) of
                       Inl e \<Rightarrow> Inl e
                     | Inr samples \<Rightarrow>
                         (case Merge [closeChecked, openProfile\<lparr>pp_Sample := samples\<rparr>] of
                            Inl e \<Rightarrow> Inl (WrapErr (''pprofanalyze: '' @ DiagnosticSampleTypeIncompatible @ '': '') e [])
                          | Inr delta \<Rightarrow>
                              (case CheckValid delta of
                                 Some e \<Rightarrow> Inl (WrapErr ''pprofanalyze: merged profile is invalid: '' e [])
                               | None \<Rightarrow>
                                   (case absoluteBudgets delta of Inl e \<Rightarrow> Inl e | Inr _ \<Rightarrow> Inr delta)))))))"

definition AnalyzeDelta ::
  "(pProfile \<Rightarrow> gerr option) \<Rightarrow> (pProfile list \<Rightarrow> gerr + pProfile) \<Rightarrow> pProfile option \<Rightarrow> pProfile option \<Rightarrow> int \<Rightarrow>
   gerr + ProfileSummary list" where
  "AnalyzeDelta CheckValid Merge open close topN =
     (case DeltaProfile CheckValid Merge open close topN of
        Inl e \<Rightarrow> Inl e
      | Inr delta \<Rightarrow> aggregate delta ProfileModeCumulativeDelta (nat topN))"

end
