(* ===== verification/Pprof_Theorems.thy ===== *)
theory Pprof_Theorems
  imports Pprof
begin

text \<open>
  The reports of a profile are exact. The sums below are taken over the samples themselves, in
  unbounded integers; the absolute budget is what makes the checked arithmetic of the aggregation
  reach them without ever reporting an overflow.
\<close>

subsection \<open>Reference sums\<close>

definition valueOf :: "nat \<Rightarrow> pSample \<Rightarrow> int" where
  "valueOf i s = sm_Value s ! i"

definition sumOver :: "(pSample \<Rightarrow> bool) \<Rightarrow> nat \<Rightarrow> pSample list \<Rightarrow> int" where
  "sumOver P i ss = sum_list (map (valueOf i) (filter P ss))"

definition flatSum :: "string \<Rightarrow> nodeKey \<Rightarrow> nat \<Rightarrow> pSample list \<Rightarrow> int" where
  "flatSum g key = sumOver (\<lambda>s. flatKey s g = Some key)"

definition cumSum :: "string \<Rightarrow> nodeKey \<Rightarrow> nat \<Rightarrow> pSample list \<Rightarrow> int" where
  "cumSum g key = sumOver (\<lambda>s. key \<in> set (stackKeys s g))"

definition absSum :: "nat \<Rightarrow> pSample list \<Rightarrow> int" where
  "absSum i ss = sum_list (map (\<lambda>s. \<bar>valueOf i s\<bar>) ss)"

definition posSum :: "nat \<Rightarrow> pSample list \<Rightarrow> int" where
  "posSum i = sumOver (\<lambda>s. 0 \<le> valueOf i s) i"

definition negSum :: "nat \<Rightarrow> pSample list \<Rightarrow> int" where
  "negSum i ss = - sumOver (\<lambda>s. valueOf i s < 0) i ss"

text \<open>The shape \<open>CheckValid\<close> promises, and the range of Go's \<open>int64\<close>.\<close>

definition samplesOK :: "nat \<Rightarrow> pSample list \<Rightarrow> bool" where
  "samplesOK n ss \<longleftrightarrow> (\<forall>s \<in> set ss. length (sm_Value s) = n \<and> list_all in_int64 (sm_Value s))"

lemma sumOver_snoc: "sumOver P i (ss @ [s]) = sumOver P i ss + (if P s then valueOf i s else 0)"
  by (simp add: sumOver_def)

lemma absSum_snoc: "absSum i (ss @ [s]) = absSum i ss + \<bar>valueOf i s\<bar>"
  by (simp add: absSum_def)

lemma sumOver_le_abs: "\<bar>sumOver P i ss\<bar> \<le> absSum i ss"
proof (induction ss rule: rev_induct)
  case (snoc s ss)
  then show ?case by (auto simp: sumOver_snoc absSum_snoc)
qed (simp add: sumOver_def absSum_def)

lemma absSum_nonneg: "0 \<le> absSum i ss"
  using sumOver_le_abs [of "\<lambda>_. False" i ss] by (simp add: sumOver_def)

lemma split_sum: "posSum i ss - negSum i ss = sumOver (\<lambda>_. True) i ss" "posSum i ss + negSum i ss = absSum i ss"
  "0 \<le> posSum i ss" "0 \<le> negSum i ss"
proof (induction ss rule: rev_induct)
  case Nil
  show "posSum i [] - negSum i [] = sumOver (\<lambda>_. True) i []" "posSum i [] + negSum i [] = absSum i []"
    "0 \<le> posSum i []" "0 \<le> negSum i []"
    by (simp_all add: posSum_def negSum_def sumOver_def absSum_def)
next
  case (snoc s ss)
  show "posSum i (ss @ [s]) - negSum i (ss @ [s]) = sumOver (\<lambda>_. True) i (ss @ [s])"
    "posSum i (ss @ [s]) + negSum i (ss @ [s]) = absSum i (ss @ [s])"
    "0 \<le> posSum i (ss @ [s])" "0 \<le> negSum i (ss @ [s])"
    using snoc by (auto simp: posSum_def negSum_def sumOver_snoc absSum_snoc)
qed

lemma in_int64_abs: "\<bar>x\<bar> \<le> y \<Longrightarrow> in_int64 y \<Longrightarrow> in_int64 x"
  by (auto simp: go_defs)

lemma absSum_prefix: "in_int64 (absSum i (ss @ [s])) \<Longrightarrow> in_int64 (absSum i ss)"
  using absSum_nonneg [of i ss] by (auto simp: absSum_snoc go_defs)

subsection \<open>The budget\<close>

lemma addBudget_Inr:
  assumes "in_int64 v" "in_int64 b"
  shows "addBudget i j v b = Inr c \<longleftrightarrow> c = b + \<bar>v\<bar> \<and> in_int64 \<bar>v\<bar> \<and> in_int64 (b + \<bar>v\<bar>)"
  using assms by (auto simp: addBudget_def CheckedAbs_iff CheckedAdd_iff)

lemma budgets_loop:
  assumes "samplesOK n ss"
    and "foldE (\<lambda>is budgets. rowE (addBudget (fst is)) 0 (sm_Value (snd is)) budgets) (enumerate 0 ss) (replicate n 0) = Inr bs"
  shows "length bs = n \<and> (\<forall>i < n. bs ! i = absSum i ss \<and> in_int64 (absSum i ss))"
  using assms
proof (induction ss arbitrary: bs rule: rev_induct)
  case Nil
  then show ?case by (auto simp: absSum_def go_defs)
next
  case (snoc s ss)
  obtain bs0 where bs0: "foldE (\<lambda>is budgets. rowE (addBudget (fst is)) 0 (sm_Value (snd is)) budgets)
      (enumerate 0 ss) (replicate n 0) = Inr bs0"
    and row: "rowE (addBudget (length ss)) 0 (sm_Value s) bs0 = Inr bs"
    using snoc.prems by (auto simp: enumerate_append_eq foldE_append split: sum.splits)
  have ih: "length bs0 = n" "\<And>i. i < n \<Longrightarrow> bs0 ! i = absSum i ss \<and> in_int64 (absSum i ss)"
    using snoc.IH [OF _ bs0] snoc.prems by (auto simp: samplesOK_def)
  have s: "length (sm_Value s) = n" "\<And>i. i < n \<Longrightarrow> in_int64 (sm_Value s ! i)"
    using snoc.prems by (auto simp: samplesOK_def list_all_length)
  show ?case using row ih s by (auto simp: rowE_Inr addBudget_Inr absSum_snoc valueOf_def)
qed

subsection \<open>Tables\<close>

definition tableOK :: "nodeTable \<Rightarrow> (nodeKey \<Rightarrow> int) \<Rightarrow> bool" where
  "tableOK t f \<longleftrightarrow> distinct (map fst t) \<and> (\<forall>key. valueAt t key = f key)"

lemma tableOK_addNode:
  assumes "tableOK t f" "in_int64 (f key)" "in_int64 v" "in_int64 (f key + v)"
  shows "\<exists>t'. addNode v key t = Inr t' \<and> tableOK t' (f(key := f key + v))"
  using assms by (auto simp: addNode_def tableOK_def CheckedAdd_iff valueAt_def map_of_alter distinct_alter)

lemma tableOK_addNodes:
  assumes "tableOK t f" "distinct keys" "\<And>key. key \<in> set keys \<Longrightarrow> in_int64 (f key) \<and> in_int64 (f key + v)" "in_int64 v"
  shows "\<exists>t'. foldE (addNode v) keys t = Inr t' \<and> tableOK t' (\<lambda>key. f key + (if key \<in> set keys then v else 0))"
  using assms
proof (induction keys arbitrary: t f)
  case (Cons key keys)
  obtain t1 where t1: "addNode v key t = Inr t1" "tableOK t1 (f(key := f key + v))"
    using tableOK_addNode Cons.prems by (metis list.set_intros(1))
  obtain t2 where t2: "foldE (addNode v) keys t1 = Inr t2"
      "tableOK t2 (\<lambda>k. (f(key := f key + v)) k + (if k \<in> set keys then v else 0))"
  proof -
    have "in_int64 ((f(key := f key + v)) k) \<and> in_int64 ((f(key := f key + v)) k + v)" if "k \<in> set keys" for k
      using that Cons.prems by auto
    then show thesis using Cons.IH [OF t1(2)] Cons.prems that by auto
  qed
  have "(\<lambda>k. (f(key := f key + v)) k + (if k \<in> set keys then v else 0)) =
      (\<lambda>k. f k + (if k \<in> set (key # keys) then v else 0))"
    using Cons.prems(2) by (auto simp: fun_eq_iff)
  then show ?case using t1(1) t2 by simp
qed simp

definition tablesOK :: "string \<Rightarrow> nat \<Rightarrow> pSample list \<Rightarrow> nodeTable \<times> nodeTable \<Rightarrow> bool" where
  "tablesOK g i ss t \<longleftrightarrow> tableOK (fst t) (\<lambda>key. flatSum g key i ss) \<and> tableOK (snd t) (\<lambda>key. cumSum g key i ss)"

lemma tablesOK_addKeys:
  assumes ok: "tablesOK g i ss t" and fits: "in_int64 (absSum i (ss @ [s]))"
  shows "\<exists>t'. addKeys s (valueOf i s) (g, t) = Inr t' \<and> tablesOK g i (ss @ [s]) t'"
proof -
  obtain flat cum where t: "t = (flat, cum)" by (cases t)
  have old: "in_int64 (sumOver P i ss)" and new: "in_int64 (sumOver P i ss + valueOf i s)" and v: "in_int64 (valueOf i s)" for P
  proof -
    have "\<bar>sumOver P i ss\<bar> + \<bar>valueOf i s\<bar> \<le> absSum i (ss @ [s])"
      using sumOver_le_abs [of P i ss] by (simp add: absSum_snoc)
    then show "in_int64 (sumOver P i ss)" "in_int64 (sumOver P i ss + valueOf i s)" "in_int64 (valueOf i s)"
      by (auto intro!: in_int64_abs [OF _ fits])
  qed
  have cums: "\<exists>c. foldE (addNode (valueOf i s)) (stackKeys s g) cum = Inr c \<and> tableOK c (\<lambda>key. cumSum g key i (ss @ [s]))"
    using tableOK_addNodes [of cum "\<lambda>key. cumSum g key i ss" "stackKeys s g" "valueOf i s"] ok old new v
    by (simp add: tablesOK_def t cumSum_def sumOver_snoc stackKeys_def)
  show ?thesis
  proof (cases "flatKey s g")
    case None
    then show ?thesis using cums ok by (auto simp: addKeys_def t tablesOK_def flatSum_def sumOver_snoc)
  next
    case (Some key)
    have "(\<lambda>key. flatSum g key i ss)(key := flatSum g key i ss + valueOf i s) = (\<lambda>key. flatSum g key i (ss @ [s]))"
      using Some by (auto simp: fun_eq_iff flatSum_def sumOver_snoc)
    then have "\<exists>f. addNode (valueOf i s) key flat = Inr f \<and> tableOK f (\<lambda>key. flatSum g key i (ss @ [s]))"
      using tableOK_addNode [of flat "\<lambda>key. flatSum g key i ss" key "valueOf i s"] ok old new v
      by (simp add: tablesOK_def t flatSum_def)
    then show ?thesis using cums Some by (auto simp: addKeys_def t tablesOK_def)
  qed
qed

definition columnOK :: "nat \<Rightarrow> pSample list \<Rightarrow> typeTables \<Rightarrow> bool" where
  "columnOK i ss t \<longleftrightarrow> tt_positive t = posSum i ss \<and> tt_negative t = negSum i ss \<and>
     length (tt_tables t) = length reportGranularities \<and>
     (\<forall>j < length reportGranularities. tablesOK (reportGranularities ! j) i ss (tt_tables t ! j))"

lemma columnOK_empty: "columnOK i [] emptyTables"
  by (auto simp: columnOK_def emptyTables_def posSum_def negSum_def sumOver_def tablesOK_def tableOK_def flatSum_def
      cumSum_def valueAt_def)

lemma mapE_exists:
  assumes "\<And>j. j < length xs \<Longrightarrow> \<exists>y. f (xs ! j) = Inr y \<and> P j y"
  shows "\<exists>ys. mapE f xs = Inr ys \<and> length ys = length xs \<and> (\<forall>j < length xs. P j (ys ! j))"
proof -
  obtain g where g: "\<And>j. j < length xs \<Longrightarrow> f (xs ! j) = Inr (g j) \<and> P j (g j)" using assms by metis
  then have "mapE f xs = Inr (map g [0..<length xs])" by (simp add: mapE_Inr)
  then show ?thesis using g by (intro exI [of _ "map g [0..<length xs]"]) simp
qed

lemma addTotals_ok:
  assumes ok: "columnOK i ss t" and fits: "in_int64 (absSum i (ss @ [s]))"
  shows "addTotals k j (valueOf i s) t = Inr (t\<lparr>tt_positive := posSum i (ss @ [s]), tt_negative := negSum i (ss @ [s])\<rparr>)"
proof -
  have bounds: "posSum i ss + negSum i ss + \<bar>valueOf i s\<bar> \<le> int64_max" "0 \<le> posSum i ss" "0 \<le> negSum i ss"
    using fits split_sum [of i ss] by (simp_all add: absSum_snoc go_defs)
  show ?thesis
  proof (cases "0 \<le> valueOf i s")
    case True
    then have "in_int64 (posSum i ss)" "in_int64 (valueOf i s)" "in_int64 (posSum i ss + valueOf i s)"
      using bounds by (auto simp: go_defs)
    then show ?thesis using True ok
      by (simp add: addTotals_def columnOK_def CheckedAdd_iff posSum_def negSum_def sumOver_snoc)
  next
    case False
    then have "in_int64 (negSum i ss)" "in_int64 (valueOf i s)" "in_int64 \<bar>valueOf i s\<bar>" "in_int64 (negSum i ss + \<bar>valueOf i s\<bar>)"
      using bounds by (auto simp: go_defs)
    then show ?thesis using False ok
      by (simp add: addTotals_def columnOK_def CheckedAdd_iff CheckedAbs_iff posSum_def negSum_def sumOver_snoc)
  qed
qed

lemma columnOK_addValue:
  assumes ok: "columnOK i ss t" and fits: "in_int64 (absSum i (ss @ [s]))"
  shows "\<exists>t'. addValue (k, s) j (valueOf i s) t = Inr t' \<and> columnOK i (ss @ [s]) t'"
proof -
  have "\<exists>ts. mapE (addKeys s (valueOf i s)) (zip reportGranularities (tt_tables t)) = Inr ts \<and>
      length ts = length (zip reportGranularities (tt_tables t)) \<and>
      (\<forall>j < length (zip reportGranularities (tt_tables t)). tablesOK (reportGranularities ! j) i (ss @ [s]) (ts ! j))"
    using tablesOK_addKeys [OF _ fits] ok by (intro mapE_exists) (auto simp: columnOK_def)
  then show ?thesis using addTotals_ok [OF ok fits] ok by (auto simp: addValue_def columnOK_def)
qed

lemma aggregateTables_ok:
  assumes "samplesOK n ss" and "\<forall>i < n. in_int64 (absSum i ss)"
  shows "\<exists>ts. foldE (\<lambda>is. rowE (addValue is) 0 (sm_Value (snd is))) (enumerate 0 ss) (replicate n emptyTables) = Inr ts \<and>
    length ts = n \<and> (\<forall>i < n. columnOK i ss (ts ! i))"
  using assms
proof (induction ss rule: rev_induct)
  case Nil
  then show ?case by (auto simp: columnOK_empty)
next
  case (snoc s ss)
  have "\<forall>i < n. in_int64 (absSum i ss)" using snoc.prems(2) absSum_prefix by blast
  then obtain ts where ts: "foldE (\<lambda>is. rowE (addValue is) 0 (sm_Value (snd is))) (enumerate 0 ss) (replicate n emptyTables) = Inr ts"
      "length ts = n" "\<forall>i < n. columnOK i ss (ts ! i)"
    using snoc by (auto simp: samplesOK_def)
  have "\<exists>ys. rowE (addValue (length ss, s)) 0 (sm_Value s) ts = Inr ys \<and> length ys = length ts \<and>
      (\<forall>i < length ts. columnOK i (ss @ [s]) (ys ! i))"
  proof (rule rowE_exists)
    show "length (sm_Value s) = length ts" using snoc.prems(1) ts(2) by (simp add: samplesOK_def)
    show "\<exists>y. addValue (length ss, s) (0 + i) (sm_Value s ! i) (ts ! i) = Inr y \<and> columnOK i (ss @ [s]) y"
      if "i < length ts" for i
      using columnOK_addValue [of i ss "ts ! i" s] ts snoc.prems(2) that by (simp add: valueOf_def)
  qed
  then show ?case using ts by (auto simp: enumerate_append_eq foldE_append)
qed

subsection \<open>Rankings\<close>

definition keyOf :: "ProfileNode \<Rightarrow> nodeKey" where
  "keyOf n = \<lparr>nk_function = nd_Function n, nk_file = nd_File n, nk_line = nd_Line n\<rparr>"

definition hasSign :: "bool \<Rightarrow> int \<Rightarrow> bool" where
  "hasSign negative v = (if negative then v < 0 else 0 < v)"

text \<open>
  The list of the largest magnitudes of one sign, in order, no key twice, each with its exact value;
  a key of that sign that is not listed has a magnitude no larger than every listed one, and the list
  is full.
\<close>

definition ranked :: "(nodeKey \<Rightarrow> int) \<Rightarrow> nat \<Rightarrow> bool \<Rightarrow> ProfileNode list \<Rightarrow> bool" where
  "ranked f topN negative ns \<longleftrightarrow>
     length ns \<le> topN \<and> distinct (map keyOf ns) \<and> sorted (map (nodeOrder negative) ns) \<and>
     (\<forall>n \<in> set ns. nd_Value n = f (keyOf n) \<and> hasSign negative (nd_Value n)) \<and>
     (\<forall>key. hasSign negative (f key) \<and> key \<notin> keyOf ` set ns \<longrightarrow>
        length ns = topN \<and> (\<forall>n \<in> set ns. \<bar>f key\<bar> \<le> \<bar>nd_Value n\<bar>))"

lemma keyOf_nodeOf [simp]: "keyOf (nodeOf kv) = fst kv"
  by (simp add: keyOf_def nodeOf_def)

lemma nd_Value_nodeOf [simp]: "nd_Value (nodeOf kv) = snd kv"
  by (simp add: nodeOf_def)

lemma nodeOrder_fst: "nodeOrder negative m \<le> nodeOrder negative n \<Longrightarrow>
    (if negative then nd_Value m \<le> nd_Value n else nd_Value n \<le> nd_Value m)"
  by (auto simp: nodeOrder_def less_eq_prod_def split: if_splits)

lemma signed_kept: "\<not> (v = 0 \<or> negative \<noteq> (v < 0)) \<longleftrightarrow> hasSign negative v"
  by (auto simp: hasSign_def)

lemma signed_entry:
  assumes "tableOK t f" "hasSign negative (f key)"
  shows "(key, f key) \<in> set t"
proof -
  have "valueAt t key = f key" using assms(1) by (simp add: tableOK_def)
  then show ?thesis using assms(2) by (auto simp: valueAt_def hasSign_def split: option.splits if_splits dest: map_of_SomeD)
qed

lemma table_entry:
  assumes "tableOK t f" "kv \<in> set t"
  shows "snd kv = f (fst kv)"
proof -
  have "map_of t (fst kv) = Some (snd kv)" using assms by (intro map_of_is_SomeI) (simp_all add: tableOK_def)
  moreover have "valueAt t (fst kv) = f (fst kv)" using assms(1) by (simp add: tableOK_def)
  ultimately show ?thesis by (simp add: valueAt_def)
qed

lemma topNodes_ranked:
  assumes t: "tableOK t f"
  shows "ranked f topN negative (topNodes t topN negative)"
proof -
  define xs where "xs = map nodeOf (filter (\<lambda>kv. hasSign negative (snd kv)) t)"
  define ys where "ys = sort_key (nodeOrder negative) xs"
  have top: "topNodes t topN negative = take topN ys" by (simp only: topNodes_def ys_def xs_def signed_kept)
  have "distinct (map keyOf xs)"
    using t by (simp add: xs_def comp_def tableOK_def distinct_map_filter)
  moreover have perm: "mset ys = mset xs" by (simp add: ys_def)
  ultimately have d: "distinct (map keyOf ys)" by (metis mset_map distinct_count_atmost_1 set_mset_mset)
  have vals: "nd_Value n = f (keyOf n) \<and> hasSign negative (nd_Value n)" if "n \<in> set ys" for n
    using that table_entry [OF t] by (auto simp: ys_def xs_def)
  have sorted: "sorted (map (nodeOrder negative) ys)" by (simp add: ys_def)
  have split: "ys = take topN ys @ drop topN ys" by simp
  have "length (take topN ys) = topN \<and> (\<forall>n \<in> set (take topN ys). \<bar>f key\<bar> \<le> \<bar>nd_Value n\<bar>)"
    if key: "hasSign negative (f key)" "key \<notin> keyOf ` set (take topN ys)" for key
  proof -
    have "nodeOf (key, f key) \<in> set ys" using signed_entry [OF t key(1)] key(1) by (auto simp: ys_def xs_def)
    moreover have "nodeOf (key, f key) \<notin> set (take topN ys)" using key(2) by force
    ultimately have drop: "nodeOf (key, f key) \<in> set (drop topN ys)" by (metis split Un_iff set_append)
    then have "topN < length ys" by (metis drop_all empty_iff list.set(1) not_less)
    moreover have "\<bar>f key\<bar> \<le> \<bar>nd_Value n\<bar>" if n: "n \<in> set (take topN ys)" for n
    proof -
      have "sorted (map (nodeOrder negative) (take topN ys @ drop topN ys))" using sorted by simp
      then have "nodeOrder negative n \<le> nodeOrder negative (nodeOf (key, f key))"
        using drop n by (auto simp: sorted_append simp del: append_take_drop_id)
      then have "if negative then nd_Value n \<le> f key else f key \<le> nd_Value n"
        using nodeOrder_fst [of negative n "nodeOf (key, f key)"] by (simp split: if_splits)
      moreover have "hasSign negative (nd_Value n)" using vals n by (meson in_set_takeD)
      ultimately show ?thesis using key(1) by (auto simp: hasSign_def split: if_splits)
    qed
    ultimately show ?thesis by simp
  qed
  moreover have "distinct (map keyOf (take topN ys))" using d by (metis distinct_take take_map)
  moreover have "sorted (map (nodeOrder negative) (take topN ys))" using sorted by (metis sorted_wrt_take take_map)
  ultimately show ?thesis using vals by (auto simp: ranked_def top dest: in_set_takeD)
qed

subsection \<open>The reports\<close>

definition reportExact :: "string \<Rightarrow> nat \<Rightarrow> nat \<Rightarrow> pSample list \<Rightarrow> ProfileReport \<Rightarrow> bool" where
  "reportExact g topN i ss r \<longleftrightarrow> rp_Granularity r = g \<and>
     ranked (\<lambda>key. flatSum g key i ss) topN False (rp_TopFlat r) \<and>
     ranked (\<lambda>key. cumSum g key i ss) topN False (rp_TopCumulative r) \<and>
     ranked (\<lambda>key. flatSum g key i ss) topN True (rp_TopNegativeFlat r) \<and>
     ranked (\<lambda>key. cumSum g key i ss) topN True (rp_TopNegativeCumulative r)"

definition summaryExact :: "string \<Rightarrow> nat \<Rightarrow> nat \<Rightarrow> pProfile \<Rightarrow> ProfileSummary \<Rightarrow> bool" where
  "summaryExact mode topN i p s \<longleftrightarrow>
     su_SampleType s = vt_Type (pp_SampleType p ! i) \<and> su_Unit s = vt_Unit (pp_SampleType p ! i) \<and>
     su_PositiveTotal s = posSum i (pp_Sample p) \<and> su_NegativeMagnitude s = negSum i (pp_Sample p) \<and>
     su_NetTotal s = sumOver (\<lambda>_. True) i (pp_Sample p) \<and> su_Labels s = [] \<and>
     (if mode = ProfileModeCumulativeDelta
      then su_DenominatorMode s = DenominatorAbsoluteAddress \<and> su_PercentDenominator s = absSum i (pp_Sample p)
      else su_DenominatorMode s = DenominatorNet \<and> su_PercentDenominator s = posSum i (pp_Sample p)) \<and>
     list_all2 (\<lambda>g r. reportExact g topN i (pp_Sample p) r) reportGranularities (su_Reports s)"

lemma reportOf_exact: "tablesOK g i ss t \<Longrightarrow> reportExact g topN i ss (reportOf topN (g, t))"
  by (cases t) (simp add: tablesOK_def reportExact_def reportOf_def topNodes_ranked)

lemma summaryOf_exact:
  assumes t: "columnOK i (pp_Sample p) t" and fits: "in_int64 (absSum i (pp_Sample p))"
  shows "\<exists>s. summaryOf mode topN (pp_SampleType p ! i, t) = Inr s \<and> summaryExact mode topN i p s"
proof -
  note sums = split_sum [of i "pp_Sample p"]
  have ok: "in_int64 (posSum i (pp_Sample p))" "in_int64 (negSum i (pp_Sample p))" "in_int64 (- negSum i (pp_Sample p))"
    "in_int64 (posSum i (pp_Sample p) + - negSum i (pp_Sample p))" "in_int64 (posSum i (pp_Sample p) + negSum i (pp_Sample p))"
    using sums fits by (auto simp: go_defs)
  have neg: "CheckedNegate (negSum i (pp_Sample p)) = (- negSum i (pp_Sample p), True)"
    using sums(4) ok(3) by (auto simp: CheckedNegate_def wrap64_id int64_min_def)
  have reports: "list_all2 (\<lambda>g r. reportExact g topN i (pp_Sample p) r) reportGranularities
      (map (reportOf topN) (zip reportGranularities (tt_tables t)))"
    using t reportOf_exact by (auto simp: columnOK_def list_all2_conv_all_nth)
  have pn: "tt_positive t = posSum i (pp_Sample p)" "tt_negative t = negSum i (pp_Sample p)" using t by (simp_all add: columnOK_def)
  show ?thesis
    using ok reports sums by (simp add: summaryOf_def pn neg CheckedAdd_iff summaryExact_def)
qed

lemma aggregate_exact:
  assumes shape: "samplesOK (length (pp_SampleType p)) (pp_Sample p)" and budget: "absoluteBudgets p = Inr bs"
  shows "\<exists>sums. aggregate p mode topN = Inr sums \<and> length sums = length (pp_SampleType p) \<and>
    (\<forall>i < length sums. summaryExact mode topN i p (sums ! i))"
proof -
  let ?n = "length (pp_SampleType p)"
  have fits: "\<forall>i < ?n. in_int64 (absSum i (pp_Sample p))"
    using budgets_loop [OF shape] budget by (simp add: absoluteBudgets_def)
  obtain ts where ts: "aggregateTables p = Inr ts" "length ts = ?n" "\<forall>i < ?n. columnOK i (pp_Sample p) (ts ! i)"
    using aggregateTables_ok [OF shape fits] by (auto simp: aggregateTables_def map_replicate_const)
  have "\<exists>ys. mapE (summaryOf mode topN) (zip (pp_SampleType p) ts) = Inr ys \<and> length ys = length (zip (pp_SampleType p) ts) \<and>
      (\<forall>i < length (zip (pp_SampleType p) ts). summaryExact mode topN i p (ys ! i))"
    using ts fits summaryOf_exact by (intro mapE_exists) simp
  then show ?thesis using ts by (auto simp: aggregate_def)
qed

lemma no_negatives:
  "loopErr (\<lambda>i seen s. loopErr (\<lambda>j seen v. refuse (v < 0) (negativeSample i j)) [] (sm_Value s)) [] ss = None \<longleftrightarrow>
   (\<forall>s \<in> set ss. \<forall>v \<in> set (sm_Value s). 0 \<le> v)"
  by (rule loopErr_all, rule loopErr_all) auto

text \<open>
  C12: The analysis of an interval profile is total and exact. Once the profile passes the library's
  validity check, the top limit is in range, the absolute budget fits in 64 bits and no value is
  negative, the analysis returns one summary per sample type and never reports an overflow. The totals
  are the sums over the samples, and each of the four reports ranks, by exact value, the functions,
  files or lines by the samples they are the leaf of and by the samples they occur in; a sample in
  which a function recurs counts once.
\<close>

theorem interval_analysis_exact:
  assumes shape: "samplesOK (length (pp_SampleType p)) (pp_Sample p)" and valid: "CheckValid p = None"
    and topN: "1 \<le> topN" "topN \<le> 50" and budget: "absoluteBudgets p = Inr bs"
    and nonneg: "\<forall>s \<in> set (pp_Sample p). \<forall>v \<in> set (sm_Value s). 0 \<le> v"
  shows "\<exists>sums. AnalyzeInterval CheckValid (Some p) topN = Inr sums \<and> length sums = length (pp_SampleType p) \<and>
    (\<forall>i < length sums. summaryExact ProfileModeInterval (nat topN) i p (sums ! i))"
proof -
  have "AnalyzeInterval CheckValid (Some p) topN = aggregate p ProfileModeInterval (nat topN)"
    using topN valid budget no_negatives [THEN iffD2, OF nonneg] by (simp add: AnalyzeInterval_def checkedProfile_def)
  then show ?thesis using aggregate_exact [OF shape budget] by simp
qed

subsection \<open>The reports pass validation\<close>

definition frameOK :: "pLine \<Rightarrow> bool" where
  "frameOK line \<longleftrightarrow> 0 \<le> pl_Line line \<and>
     (case pl_Function line of
        None \<Rightarrow> True
      | Some f \<Rightarrow> pf_Name f = [] \<or> pf_Filename f = [] \<or> bounded (pf_Name f) 512 \<and> bounded (pf_Filename f) 512)"

definition namesOK :: "pProfile \<Rightarrow> bool" where
  "namesOK p \<longleftrightarrow> list_all (\<lambda>t. bounded (vt_Type t) 64 \<and> bounded (vt_Unit t) 32) (pp_SampleType p) \<and>
     list_all (\<lambda>s. list_all (\<lambda>l. list_all frameOK (po_Line l)) (sm_Location s)) (pp_Sample p)"

lemma sumOver_nonzero: "sumOver P i ss \<noteq> 0 \<Longrightarrow> \<exists>s \<in> set ss. P s"
proof (rule ccontr)
  assume "sumOver P i ss \<noteq> 0" "\<not> (\<exists>s \<in> set ss. P s)"
  then show False by (simp add: sumOver_def filter_False)
qed

lemma flatKey_line: "flatKey s g = Some key \<Longrightarrow> \<exists>l \<in> set (sm_Location s). \<exists>line \<in> set (po_Line l). keyForLine line g = Some key"
  by (auto simp: flatKey_def split: list.splits)

lemma stackKeys_line: "key \<in> set (stackKeys s g) \<Longrightarrow> \<exists>l \<in> set (sm_Location s). \<exists>line \<in> set (po_Line l). keyForLine line g = Some key"
  by (auto simp: stackKeys_def List.map_filter_def) blast

lemma keyForLine_valid:
  assumes "frameOK line" "keyForLine line g = Some (keyOf n)"
  shows "validateNode g n = None"
proof -
  obtain f where f: "pl_Function line = Some f" "pf_Name f \<noteq> []" "pf_Filename f \<noteq> []"
    using assms(2) by (auto simp: keyForLine_def split: option.splits if_splits)
  then have "bounded (pf_Name f) 512" "bounded (pf_Filename f) 512" "0 \<le> pl_Line line"
    using assms(1) by (auto simp: frameOK_def)
  then show ?thesis using assms(2) f
    by (auto simp: keyForLine_def validateNode_def keyOf_def split: if_splits)
qed

lemma ranked_valid:
  assumes "namesOK p" "topN \<le> MaxTopNodes"
    and ranked: "ranked (\<lambda>key. sumOver (Q key) i (pp_Sample p)) topN negative ns"
    and Q: "\<And>key s. Q key s \<Longrightarrow> \<exists>l \<in> set (sm_Location s). \<exists>line \<in> set (po_Line l). keyForLine line g = Some key"
  shows "validateList g negative ns = None"
proof -
  have "validateNode g n = None" if n: "n \<in> set ns" for n
  proof -
    have "sumOver (Q (keyOf n)) i (pp_Sample p) \<noteq> 0" using ranked n by (auto simp: ranked_def hasSign_def split: if_splits)
    then obtain s where "s \<in> set (pp_Sample p)" "Q (keyOf n) s" using sumOver_nonzero by blast
    then obtain line where "frameOK line" "keyForLine line g = Some (keyOf n)"
      using Q assms(1) by (fastforce simp: namesOK_def list_all_iff)
    then show ?thesis by (rule keyForLine_valid)
  qed
  then show ?thesis using ranked assms(2) by (auto simp: validateList_None ranked_def hasSign_def)
qed

lemma reportExact_valid:
  assumes "namesOK p" "topN \<le> MaxTopNodes" "reportExact g topN i (pp_Sample p) r" "g \<in> set reportGranularities"
  shows "validateReport r = Inr (reportNodes r) \<and> reportNodes r \<le> 4 * topN"
proof -
  note v = ranked_valid [OF assms(1,2)]
  have "rp_Granularity r = g" using assms(3) by (simp add: reportExact_def)
  moreover have "validateList g False (rp_TopFlat r) = None" "validateList g True (rp_TopNegativeFlat r) = None"
    using assms(3) flatKey_line by (auto simp: reportExact_def flatSum_def intro: v)
  moreover have "validateList g False (rp_TopCumulative r) = None" "validateList g True (rp_TopNegativeCumulative r) = None"
    using assms(3) stackKeys_line by (auto simp: reportExact_def cumSum_def intro: v)
  moreover have "reportNodes r \<le> 4 * topN" using assms(3) by (auto simp: reportExact_def ranked_def reportNodes_def)
  ultimately show ?thesis using assms(4) by (auto simp: validateReport_Inr reportGranularities_def)
qed

lemma reports_valid:
  assumes "namesOK p" "topN \<le> MaxTopNodes"
    and all: "list_all2 (\<lambda>g r. reportExact g topN i (pp_Sample p) r) reportGranularities rs"
  shows "distinct (map rp_Granularity rs) \<and> (\<forall>r \<in> set rs. validateReport r = Inr (reportNodes r)) \<and>
    sum_list (map reportNodes rs) \<le> 16 * topN"
proof -
  obtain a b c d where rs: "rs = [a, b, c, d]"
    using all by (auto simp: reportGranularities_def list_all2_Cons1)
  then have "map rp_Granularity rs = reportGranularities"
    using all by (simp add: reportGranularities_def reportExact_def)
  moreover have "\<forall>r \<in> set rs. validateReport r = Inr (reportNodes r) \<and> reportNodes r \<le> 4 * topN"
    using all reportExact_valid [OF assms(1,2)] by (fastforce simp: list_all2_conv_all_nth in_set_conv_nth)
  ultimately show ?thesis by (simp add: rs reportGranularities_def)
qed

lemma summaryExact_valid:
  assumes names: "namesOK p" "topN \<le> MaxTopNodes" and exact: "summaryExact mode topN i p s"
    and i: "i < length (pp_SampleType p)" and fits: "in_int64 (absSum i (pp_Sample p))"
    and mode: "mode \<noteq> ProfileModeCumulativeDelta \<Longrightarrow> negSum i (pp_Sample p) = 0"
  shows "validateSummary s mode = Inr (summaryNodes s) \<and> summaryNodes s \<le> 16 * topN"
proof -
  note sums = split_sum [of i "pp_Sample p"]
  have fields: "int64Fields s" using exact sums fits by (auto simp: summaryExact_def int64Fields_def go_defs)
  have totals: "validateTotals s = None"
    using exact sums by (auto simp: validateTotals_None [OF fields] summaryExact_def split: if_splits)
  have "validateDenominator s = None"
    using exact sums mode fits by (auto simp: validateDenominator_None [OF fields totals] summaryExact_def split: if_splits)
  moreover have "bounded (su_SampleType s) 64" "bounded (su_Unit s) 32"
    using names i exact by (auto simp: summaryExact_def namesOK_def list_all_length)
  moreover have "su_NegativeMagnitude s = 0" if "mode = ProfileModeInterval"
    using exact mode that by (simp add: summaryExact_def)
  moreover have "validateLabels (su_Labels s) = None" using exact by (simp add: summaryExact_def validateLabels_def)
  moreover note totals reports_valid [OF names, of i "su_Reports s"]
  ultimately show ?thesis using exact by (auto simp: validateSummary_Inr summaryNodes_def summaryExact_def)
qed

lemma interval_facts:
  assumes "AnalyzeInterval CheckValid (Some p) topN = Inr sums"
  shows "\<exists>bs. absoluteBudgets p = Inr bs" and "aggregate p ProfileModeInterval (nat topN) = Inr sums"
    and "nat topN \<le> MaxTopNodes" and "\<forall>s \<in> set (pp_Sample p). \<forall>v \<in> set (sm_Value s). 0 \<le> v"
  using assms no_negatives [of "pp_Sample p"]
  by (auto simp: AnalyzeInterval_def checkedProfile_def split: sum.splits option.splits if_splits)

lemma delta_facts:
  assumes "AnalyzeDelta CheckValid Merge open close topN = Inr sums" "DeltaProfile CheckValid Merge open close topN = Inr p"
  shows "\<exists>bs. absoluteBudgets p = Inr bs" and "aggregate p ProfileModeCumulativeDelta (nat topN) = Inr sums"
    and "nat topN \<le> MaxTopNodes"
  using assms
  by (auto simp: AnalyzeDelta_def DeltaProfile_def checkedProfile_def split: sum.splits option.splits if_splits)


subsection \<open>Examples\<close>

definition exampleFrame :: "string \<Rightarrow> pLocation" where
  "exampleFrame name = \<lparr>po_Line = [\<lparr>pl_Function = Some \<lparr>pf_Name = name, pf_SystemName = [], pf_Filename = ''f.go''\<rparr>, pl_Line = 3\<rparr>]\<rparr>"

definition exampleSample :: "string list \<Rightarrow> int \<Rightarrow> pSample" where
  "exampleSample names v =
     \<lparr>sm_Location = map exampleFrame names, sm_Value = [v], sm_Label = [], sm_NumLabel = [], sm_NumUnit = []\<rparr>"

definition exampleProfile :: "pSample list \<Rightarrow> pProfile" where
  "exampleProfile ss =
     \<lparr>pp_SampleType = [\<lparr>vt_Type = ''cpu'', vt_Unit = ''ns''\<rparr>], pp_Sample = ss, pp_Mapping = [], pp_Location = [],
      pp_Function = [], pp_Comments = [], pp_DropFrames = [], pp_KeepFrames = [], pp_DefaultSampleType = [],
      pp_PeriodType = None\<rparr>"

definition twoSamples :: pProfile where
  "twoSamples = exampleProfile [exampleSample [''a'', ''b'', ''a''] 5, exampleSample [''b''] 2]"

lemma twoSamples_ok:
  "samplesOK (length (pp_SampleType twoSamples)) (pp_Sample twoSamples)" "namesOK twoSamples"
  "absoluteBudgets twoSamples = Inr [7]" "length (pp_SampleType twoSamples) = 1"
proof -
  show "samplesOK (length (pp_SampleType twoSamples)) (pp_Sample twoSamples)" "length (pp_SampleType twoSamples) = 1"
    by (simp_all add: twoSamples_def exampleProfile_def exampleSample_def samplesOK_def go_defs)
  have "bounded ''a'' 512" "bounded ''b'' 512" "bounded ''f.go'' 512"
    by (rule bounded_small; simp add: byte_def)+
  then show "namesOK twoSamples"
    by (simp add: twoSamples_def exampleProfile_def exampleSample_def exampleFrame_def namesOK_def frameOK_def example_bounded)
  show "absoluteBudgets twoSamples = Inr [7]" by code_simp
qed

theorem interval_analysis_exact_witness:
  "\<exists>sums. AnalyzeInterval (\<lambda>_. None) (Some twoSamples) 10 = Inr sums \<and> length sums = 1 \<and>
    summaryExact ''interval'' 10 0 twoSamples (sums ! 0)
    \<and> cumSum ''functions'' \<lparr>nk_function = ''a'', nk_file = [], nk_line = 0\<rparr> 0 (pp_Sample twoSamples) = 5
    \<and> flatSum ''functions'' \<lparr>nk_function = ''b'', nk_file = [], nk_line = 0\<rparr> 0 (pp_Sample twoSamples) = 2"
proof -
  have "\<forall>s \<in> set (pp_Sample twoSamples). \<forall>v \<in> set (sm_Value s). 0 \<le> v"
    by (simp add: twoSamples_def exampleProfile_def exampleSample_def)
  then obtain sums where "AnalyzeInterval (\<lambda>_. None) (Some twoSamples) 10 = Inr sums" "length sums = 1"
      "summaryExact ''interval'' 10 0 twoSamples (sums ! 0)"
    using interval_analysis_exact [OF twoSamples_ok(1), of "\<lambda>_. None" 10 "[7]"] twoSamples_ok by auto
  moreover have "cumSum ''functions'' \<lparr>nk_function = ''a'', nk_file = [], nk_line = 0\<rparr> 0 (pp_Sample twoSamples) = 5"
    and "flatSum ''functions'' \<lparr>nk_function = ''b'', nk_file = [], nk_line = 0\<rparr> 0 (pp_Sample twoSamples) = 2"
    by code_simp+
  ultimately show ?thesis by blast
qed


definition newlineName :: string where
  "newlineName = [CHR ''a'', CHR 0x0A]"

definition newlineProfile :: pProfile where
  "newlineProfile = (exampleProfile [exampleSample [newlineName] 5])
     \<lparr>pp_Function := [\<lparr>pf_Name = newlineName, pf_SystemName = [], pf_Filename = ''f.go''\<rparr>]\<rparr>"

lemma unpublishable_name:
  assumes "newlineName \<in> set (map nd_Function (rp_TopFlat (hd (su_Reports s))))" "su_Reports s \<noteq> []"
  shows "validateSummary s mode \<noteq> Inr n"
proof
  assume "validateSummary s mode = Inr n"
  then have "validateReport (hd (su_Reports s)) = Inr (reportNodes (hd (su_Reports s)))"
    using assms(2) by (simp add: validateSummary_Inr)
  then have "bounded newlineName 512"
    using assms(1) by (force simp: validateReport_Inr validateList_None validateNode_def newlineName_def split: if_splits)
  moreover have "strings_HasRune controlRune newlineName"
    by (simp add: strings_HasRune_def runes_def newlineName_def decode_ascii byte_def controlRune_def)
  ultimately show False by (simp add: bounded_def)
qed

text \<open>
  C18: The two checks disagree about names. The preflight accepts a profile with a control character
  in a function name, the analysis succeeds, and validation then refuses the summary, and with it
  the whole analysis, because the name is not printable.
\<close>

theorem preflight_accepts_unpublishable_name:
  "validateObjects newlineProfile DefaultLimits = None
   \<and> (\<exists>s. AnalyzeInterval (\<lambda>_. None) (Some newlineProfile) 10 = Inr [s] \<and>
        (\<exists>e. validateSummary s ''interval'' = Inl e))"
proof -
  have "boundedString ''cpu'' 64" "boundedString ''ns'' 32" "boundedString newlineName 512"
      "boundedOptionalString ''f.go'' 512" "boundedOptionalString [] 512" "boundedOptionalString [] 64"
      "boundedOptionalString [] 1024"
    by (simp_all add: boundedString_def boundedOptionalString_def utf8_ascii newlineName_def byte_def)
  then have "validateObjects newlineProfile DefaultLimits = None"
    by (simp add: validateObjects_def newlineProfile_def exampleProfile_def exampleSample_def exceedErr_def
        DefaultLimits_def sampleObjects_def CheckedAddUint64_iff errOf_def)
  moreover define s where "s = hd (projr (AnalyzeInterval (\<lambda>_. None) (Some newlineProfile) 10))"
  have "AnalyzeInterval (\<lambda>_. None) (Some newlineProfile) 10 = Inr [s]" unfolding s_def by code_simp
  moreover have "map nd_Function (rp_TopFlat (hd (su_Reports s))) = [newlineName]" "su_Reports s \<noteq> []"
    unfolding s_def by code_simp+
  then have "\<nexists>n. validateSummary s ''interval'' = Inr n" using unpublishable_name by (metis list.set_intros(1))
  then have "\<exists>e. validateSummary s ''interval'' = Inl e" by (metis old.sum.exhaust)
  ultimately show ?thesis by blast
qed

end
