(* ===== verification/Flame.thy ===== *)
theory Flame
  imports Pprof
begin

text \<open>
  \<open>internal/pprofanalyze/flame.go\<close>: a bounded flame graph from the stacks of a profile. The tree of
  call paths is built sample by sample and then laid out on a canvas that is 10000 units wide. A
  node's \<open>children\<close> map is the list of its children, which have distinct names; the layout sorts them by
  weight and name, so the order of the list is never observed.
\<close>

subsection \<open>The tree\<close>

datatype flameTree = FlameTree (ft_name: string) (ft_value: int) (ft_weight: int) (ft_children: "flameTree list")

definition absSaturated :: "int \<Rightarrow> int" where
  "absSaturated value = (if value = int64_min then int64_max else if value < 0 then wrap64 (- value) else value)"

definition saturatedAdd :: "int \<Rightarrow> int \<Rightarrow> int" where
  "saturatedAdd a b =
     (if b > 0 \<and> a > wrap64 (int64_max - b) then int64_max
      else if b < 0 \<and> a < wrap64 (int64_min - b) then int64_min
      else wrap64 (a + b))"

definition saturatedAddPositive :: "int \<Rightarrow> int \<Rightarrow> int" where
  "saturatedAddPositive a b = (if b < 0 \<or> a > wrap64 (int64_max - b) then int64_max else wrap64 (a + b))"

fun firstName :: "pLine list \<Rightarrow> string" where
  "firstName [] = ''(unsymbolized)''"
| "firstName (line # ls) =
     (case pl_Function line of
        None \<Rightarrow> firstName ls
      | Some f \<Rightarrow> if pf_Name f \<noteq> [] then pf_Name f else firstName ls)"

definition flameLocationName :: "pLocation option \<Rightarrow> string" where
  "flameLocationName location =
     (let name = (case location of None \<Rightarrow> ''(unsymbolized)'' | Some l \<Rightarrow> firstName (po_Line l));
          printable = strings_Drop controlRune name
      in if length printable > 256 then take 256 printable else printable)"

definition childNamed :: "string \<Rightarrow> flameTree list \<Rightarrow> flameTree" where
  "childNamed name cs = (case List.find (\<lambda>c. ft_name c = name) cs of None \<Rightarrow> FlameTree name 0 0 [] | Some c \<Rightarrow> c)"

fun putChild :: "flameTree \<Rightarrow> flameTree list \<Rightarrow> flameTree list" where
  "putChild t [] = [t]"
| "putChild t (c # cs) = (if ft_name c = ft_name t then t # cs else c # putChild t cs)"

text \<open>
  The inner loop: one sample's names, outermost first, from the children of the current node
  downwards. The second result says that the stack was deeper than the limit.
\<close>

fun addStack :: "nat \<Rightarrow> int \<Rightarrow> int \<Rightarrow> string list \<Rightarrow> flameTree list \<Rightarrow> flameTree list \<times> bool" where
  "addStack depth value weight [] cs = (cs, False)"
| "addStack depth value weight (name # names) cs =
     (if depth \<ge> MaxFlameDepth then (cs, True)
      else
        (let child = childNamed name cs;
             below = addStack (Suc depth) value weight names (ft_children child)
         in (putChild (FlameTree name (saturatedAdd (ft_value child) value)
               (saturatedAddPositive (ft_weight child) weight) (fst below)) cs, snd below)))"

record flameState =
  fs_weight :: int
  fs_children :: "flameTree list"
  fs_truncated :: bool

definition stackNames :: "pSample \<Rightarrow> string list" where
  "stackNames s = map (\<lambda>l. flameLocationName (Some l)) (rev (sm_Location s))"

definition addSampleStack :: "nat \<Rightarrow> pSample \<Rightarrow> flameState \<Rightarrow> flameState" where
  "addSampleStack typeIndex s st =
     (if typeIndex \<ge> length (sm_Value s) \<or> sm_Value s ! typeIndex = 0 then st
      else
        (let value = sm_Value s ! typeIndex;
             weight = absSaturated value;
             full = wrap64 (int64_max - fs_weight st) < weight;
             below = addStack 0 value weight (stackNames s) (fs_children st)
         in \<lparr>fs_weight = (if full then int64_max else wrap64 (fs_weight st + weight)),
             fs_children = fst below,
             fs_truncated = (fs_truncated st \<or> full \<or> snd below)\<rparr>))"

definition flameRoot :: "nat \<Rightarrow> pSample list \<Rightarrow> flameState" where
  "flameRoot typeIndex ss =
     fold (addSampleStack typeIndex) ss \<lparr>fs_weight = 0, fs_children = [], fs_truncated = False\<rparr>"

subsection \<open>The layout\<close>

definition childOrder :: "flameTree \<Rightarrow> int \<times> string" where
  "childOrder c = (- ft_weight c, ft_name c)"

text \<open>Go's integer division truncates towards zero.\<close>

definition quot64 :: "int \<Rightarrow> int \<Rightarrow> int" where
  "quot64 a b = sgn a * sgn b * (\<bar>a\<bar> div \<bar>b\<bar>)"

record flameOut =
  fo_Nodes :: "FlameNode list"
  fo_Truncated :: bool

definition childWidth :: "int \<Rightarrow> int \<Rightarrow> int \<Rightarrow> int \<Rightarrow> flameTree \<Rightarrow> bool \<Rightarrow> int" where
  "childWidth x width parentWeight cursor child isLast =
     (if isLast \<and> cursor < x + width then x + width - cursor
      else if parentWeight > 0 then quot64 (wrap64 (width * ft_weight child)) parentWeight else 0)"

definition flameNodeOf :: "nat \<Rightarrow> int \<Rightarrow> int \<Rightarrow> flameTree \<Rightarrow> FlameNode" where
  "flameNodeOf depth x width child =
     \<lparr>fn_Function = ft_name child, fn_Depth = int depth, fn_X = x, fn_Width = width, fn_Value = ft_value child,
      fn_Sign = (if ft_value child < 0 then ''negative'' else ''positive'')\<rparr>"

fun treeSize :: "flameTree \<Rightarrow> nat" where
  "treeSize (FlameTree n v w cs) = Suc (sum_list (map treeSize cs))"

definition sortedChildren :: "flameTree \<Rightarrow> flameTree list" where
  "sortedChildren t = sort_key childOrder (ft_children t)"

lemma treeSize_children: "sum_list (map treeSize (sortedChildren t)) < treeSize t"
proof -
  have "mset (map treeSize (sort_key childOrder (ft_children t))) = mset (map treeSize (ft_children t))" by simp
  then have "sum_list (map treeSize (sort_key childOrder (ft_children t))) = sum_list (map treeSize (ft_children t))"
    by (metis sum_mset_sum_list)
  then show ?thesis by (cases t) (simp add: sortedChildren_def)
qed

text \<open>
  \<open>emitFlameChildren\<close> from one child on: the children of a node of the given weight that spans \<open>width\<close>
  units from \<open>x\<close>, the cursor at the first unit not yet taken.
\<close>

function emitChildren :: "nat \<Rightarrow> int \<Rightarrow> int \<Rightarrow> int \<Rightarrow> int \<Rightarrow> flameTree list \<Rightarrow> flameOut \<Rightarrow> flameOut" where
  "emitChildren depth x width pw cursor [] g = g"
| "emitChildren depth x width pw cursor (child # cs) g =
     (if length (fo_Nodes g) \<ge> MaxFlameNodes then g\<lparr>fo_Truncated := True\<rparr>
      else
        (let w = childWidth x width pw cursor child (cs = []) in
         if w \<le> 0 then emitChildren depth x width pw cursor cs (g\<lparr>fo_Truncated := True\<rparr>)
         else
           (let g1 = g\<lparr>fo_Nodes := fo_Nodes g @ [flameNodeOf depth cursor w child]\<rparr>;
                g2 = (if depth + 1 < MaxFlameDepth
                      then emitChildren (depth + 1) cursor w (ft_weight child) cursor (sortedChildren child) g1
                      else if ft_children child \<noteq> [] then g1\<lparr>fo_Truncated := True\<rparr> else g1)
            in emitChildren depth x width pw (cursor + w) cs g2)))"
  by pat_completeness auto
termination
proof (relation "measure (\<lambda>(depth, x, width, pw, cursor, cs, g). sum_list (map treeSize cs))", goal_cases)
  case (3 depth x width pw cursor child cs g w g1)
  then show ?case using treeSize_children [of child] by simp
next
  case (4 depth x width pw cursor child cs g w g1 g2)
  then show ?case by (cases child) simp
next
  case (2 depth x width pw cursor child cs g w)
  then show ?case by (cases child) simp
qed simp

definition emitFlameChildren :: "nat \<Rightarrow> int \<Rightarrow> int \<Rightarrow> flameTree \<Rightarrow> flameOut \<Rightarrow> flameOut" where
  "emitFlameChildren depth x width parent g = emitChildren depth x width (ft_weight parent) x (sortedChildren parent) g"

definition newFlameGraph :: FlameGraph where
  "newFlameGraph =
     \<lparr>fg_Status = ''ready'', fg_Reason = [], fg_Mode = [], fg_SampleType = [], fg_Unit = [], fg_TotalWeight = 0, fg_Nodes = [],
      fg_Truncated = False, fg_NodeLimit = int MaxFlameNodes, fg_DepthLimit = int MaxFlameDepth, fg_InputSHA256 = [],
      fg_BinarySHA256 = [], fg_AnalyzerVersion = [], fg_GeneratedAt = 0\<rparr>"

definition BuildFlame :: "pProfile option \<Rightarrow> FlameGraph" where
  "BuildFlame profile =
     (case profile of
        None \<Rightarrow> newFlameGraph\<lparr>fg_Status := ''unsupported'', fg_Reason := ''sample-type-unavailable''\<rparr>
      | Some p \<Rightarrow>
          if pp_SampleType p = [] then newFlameGraph\<lparr>fg_Status := ''unsupported'', fg_Reason := ''sample-type-unavailable''\<rparr>
          else
            (let typeIndex = length (pp_SampleType p) - 1;
                 root = flameRoot typeIndex (pp_Sample p);
                 graph = newFlameGraph\<lparr>fg_SampleType := vt_Type (pp_SampleType p ! typeIndex),
                   fg_Unit := vt_Unit (pp_SampleType p ! typeIndex), fg_TotalWeight := fs_weight root,
                   fg_Truncated := fs_truncated root\<rparr>
             in if fs_weight root = 0 then graph\<lparr>fg_Status := ''unsupported'', fg_Reason := ''no-positive-sample-weight''\<rparr>
                else
                  (let out = emitFlameChildren 0 0 10000 (FlameTree [] 0 (fs_weight root) (fs_children root))
                         \<lparr>fo_Nodes = [], fo_Truncated = fs_truncated root\<rparr>;
                       drawn = graph\<lparr>fg_Nodes := fo_Nodes out, fg_Truncated := fo_Truncated out\<rparr>
                   in if fo_Nodes out = []
                      then drawn\<lparr>fg_Status := ''unsupported'', fg_Reason := ''no-symbolized-stack''\<rparr> else drawn)))"

end
