(* ===== verification/Flame_Theorems.thy ===== *)
theory Flame_Theorems
  imports Flame Pprof_Theorems "HOL-Library.Sublist"
begin

text \<open>
  Two facts about flame graphs: the tree holds, for every call path, the exact sums of the samples
  whose stack begins with that path, and the layout draws it as nested boxes that do not overlap.
  Both hold as long as the weights stay clear of 64-bit overflow.
\<close>

subsection \<open>Arithmetic without saturation\<close>

lemma absSaturated_abs: "in_int64 v \<Longrightarrow> in_int64 \<bar>v\<bar> \<Longrightarrow> absSaturated v = \<bar>v\<bar>"
  by (auto simp: absSaturated_def go_defs intro!: wrap64_id)

lemma saturatedAdd_exact:
  assumes "\<bar>a\<bar> + \<bar>b\<bar> \<le> int64_max"
  shows "saturatedAdd a b = a + b"
proof -
  have "in_int64 (a + b)" "b > 0 \<Longrightarrow> in_int64 (int64_max - b)" "b < 0 \<Longrightarrow> in_int64 (int64_min - b)"
    using assms by (auto simp: go_defs)
  then show ?thesis using assms by (auto simp: saturatedAdd_def wrap64_id go_defs)
qed

lemma saturatedAddPositive_exact:
  assumes "0 \<le> a" "0 \<le> b" "a + b \<le> int64_max"
  shows "saturatedAddPositive a b = a + b"
proof -
  have "in_int64 (a + b)" "in_int64 (int64_max - b)" using assms by (auto simp: go_defs)
  then show ?thesis using assms by (auto simp: saturatedAddPositive_def wrap64_id)
qed

subsection \<open>Paths\<close>

fun pathSums :: "string list \<Rightarrow> flameTree list \<Rightarrow> int \<times> int" where
  "pathSums [] cs = (0, 0)"
| "pathSums (name # names) cs =
     (if names = [] then (ft_value (childNamed name cs), ft_weight (childNamed name cs))
      else pathSums names (ft_children (childNamed name cs)))"

lemma pathSums_one [simp]: "pathSums [name] cs = (ft_value (childNamed name cs), ft_weight (childNamed name cs))"
  by simp

lemma pathSums_down: "q \<noteq> [] \<Longrightarrow> pathSums (name # q) cs = pathSums q (ft_children (childNamed name cs))"
  by simp

declare pathSums.simps(2) [simp del]

lemma childNamed_putChild: "childNamed n (putChild t cs) = (if n = ft_name t then t else childNamed n cs)"
  by (induction cs) (auto simp: childNamed_def)

lemma childNamed_name [simp]: "ft_name (childNamed n cs) = n"
  by (auto simp: childNamed_def find_Some_iff split: option.split)

text \<open>Adding one sample adds its value and weight to the paths that its stack begins with, to depth 64.\<close>

lemma pathSums_addStack:
  assumes "\<And>q. \<bar>fst (pathSums q cs)\<bar> + \<bar>v\<bar> \<le> int64_max" "\<And>q. 0 \<le> snd (pathSums q cs) \<and> snd (pathSums q cs) + w \<le> int64_max"
    and "0 \<le> w" and "path \<noteq> []" and "length path + d \<le> MaxFlameDepth"
  shows "pathSums path (fst (addStack d v w names cs)) =
    (if prefix path names then (fst (pathSums path cs) + v, snd (pathSums path cs) + w) else pathSums path cs)"
  using assms
proof (induction names arbitrary: d cs path)
  case (Cons name names)
  define child where "child = childNamed name cs"
  obtain n rest where path: "path = n # rest" using Cons.prems(4) by (cases path) auto
  have room: "\<not> d \<ge> MaxFlameDepth" using Cons.prems(5) path by simp
  have one: "pathSums [name] cs = (ft_value child, ft_weight child)" by (simp add: child_def Let_def)
  have val: "saturatedAdd (ft_value child) v = ft_value child + v"
    using Cons.prems(1) [of "[name]"] by (intro saturatedAdd_exact) (simp add: child_def)
  have weight: "saturatedAddPositive (ft_weight child) w = ft_weight child + w"
    using Cons.prems(2) [of "[name]"] Cons.prems(3) by (intro saturatedAddPositive_exact) (simp_all add: child_def)
  have below: "\<exists>q'. pathSums q (ft_children child) = pathSums q' cs" for q
    by (cases "q = []") (auto simp: child_def pathSums_down [symmetric] intro: exI [of _ "[]"])
  show ?case
  proof (cases "n = name \<and> rest \<noteq> []")
    case True
    have "\<bar>fst (pathSums q (ft_children child))\<bar> + \<bar>v\<bar> \<le> int64_max"
      "0 \<le> snd (pathSums q (ft_children child)) \<and> snd (pathSums q (ft_children child)) + w \<le> int64_max" for q
      using below [of q] Cons.prems(1,2) by metis+
    note hyps = this
    have "pathSums rest (fst (addStack (Suc d) v w names (ft_children child))) =
        (if prefix rest names then (fst (pathSums rest (ft_children child)) + v, snd (pathSums rest (ft_children child)) + w)
         else pathSums rest (ft_children child))"
      using True Cons.prems path hyps by (intro Cons.IH) auto
    then show ?thesis using True room
      by (simp add: path Let_def childNamed_putChild child_def [symmetric] pathSums_down)
  next
    case False
    then show ?thesis using room
      by (cases "rest = []") (auto simp: pathSums_down path Let_def childNamed_putChild child_def [symmetric] val weight)
  qed
qed (auto simp: prefix_def)

lemma pathSums_deep:
  "length path + d > MaxFlameDepth \<Longrightarrow> pathSums path (fst (addStack d v w names cs)) = pathSums path cs"
proof (induction names arbitrary: d cs path)
  case (Cons name names)
  show ?case
  proof (cases "d \<ge> MaxFlameDepth")
    case False
    then obtain n m rest where "path = n # m # rest" using Cons.prems by (cases path rule: remdups_adj.cases) auto
    then show ?thesis using False Cons by (simp add: Let_def childNamed_putChild pathSums_down)
  qed simp
qed simp

text \<open>The samples whose stack begins with a path.\<close>

definition beginsWith :: "string list \<Rightarrow> pSample \<Rightarrow> bool" where
  "beginsWith path s = prefix path (stackNames s)"

lemma sumOver_zero: "valueOf i s = 0 \<Longrightarrow> sumOver P i (ss @ [s]) = sumOver P i ss"
  by (simp add: sumOver_snoc)

definition weightUnder :: "string list \<Rightarrow> nat \<Rightarrow> pSample list \<Rightarrow> int" where
  "weightUnder path i ss = absSum i (filter (beginsWith path) ss)"

lemma weightUnder_snoc: "weightUnder path i (ss @ [s]) = weightUnder path i ss + (if beginsWith path s then \<bar>valueOf i s\<bar> else 0)"
  by (simp add: weightUnder_def absSum_def)

lemma weightUnder_bounds: "0 \<le> weightUnder path i ss" "weightUnder path i ss \<le> absSum i ss"
proof (induction ss rule: rev_induct)
  case Nil
  show "0 \<le> weightUnder path i []" "weightUnder path i [] \<le> absSum i []" by (simp_all add: weightUnder_def absSum_def)
next
  case (snoc s ss)
  show "0 \<le> weightUnder path i (ss @ [s])" "weightUnder path i (ss @ [s]) \<le> absSum i (ss @ [s])"
    using snoc by (auto simp: weightUnder_snoc absSum_snoc)
qed

definition treeExact :: "nat \<Rightarrow> pSample list \<Rightarrow> flameState \<Rightarrow> bool" where
  "treeExact i ss st \<longleftrightarrow> fs_weight st = absSum i ss \<and>
     (\<forall>path. pathSums path (fs_children st) =
        (if path = [] \<or> length path > MaxFlameDepth then (0, 0) else (sumOver (beginsWith path) i ss, weightUnder path i ss)))"

lemma treeExact_step:
  assumes ok: "treeExact i ss st" and fits: "in_int64 (absSum i (ss @ [s]))" and i: "i < length (sm_Value s)"
  shows "treeExact i (ss @ [s]) (addSampleStack i s st)"
proof (cases "valueOf i s = 0")
  case True
  then show ?thesis using ok
    by (simp add: treeExact_def addSampleStack_def valueOf_def [symmetric] sumOver_zero weightUnder_snoc absSum_snoc)
next
  case False
  have bound: "absSum i ss + \<bar>valueOf i s\<bar> \<le> int64_max" using fits by (simp add: absSum_snoc go_defs)
  have v: "absSaturated (valueOf i s) = \<bar>valueOf i s\<bar>"
    using bound absSum_nonneg [of i ss] by (intro absSaturated_abs) (auto simp: go_defs)
  have "in_int64 (int64_max - absSum i ss)" "in_int64 (absSum i ss + \<bar>valueOf i s\<bar>)"
    using bound absSum_nonneg [of i ss] by (auto simp: go_defs)
  then have w: "fs_weight (addSampleStack i s st) = absSum i (ss @ [s])"
    using bound False i ok by (simp add: addSampleStack_def valueOf_def [symmetric] v Let_def treeExact_def absSum_snoc wrap64_id)
  have sums: "\<bar>fst (pathSums q (fs_children st))\<bar> + \<bar>valueOf i s\<bar> \<le> int64_max"
    "0 \<le> snd (pathSums q (fs_children st)) \<and> snd (pathSums q (fs_children st)) + \<bar>valueOf i s\<bar> \<le> int64_max" for q
    using ok bound sumOver_le_abs [of "beginsWith q" i ss] weightUnder_bounds [of q i ss] absSum_nonneg [of i ss]
    by (auto simp: treeExact_def)
  have children: "fs_children (addSampleStack i s st) =
      fst (addStack 0 (valueOf i s) \<bar>valueOf i s\<bar> (stackNames s) (fs_children st))"
    using False i by (simp add: addSampleStack_def valueOf_def [symmetric] v Let_def)
  have "pathSums path (fs_children (addSampleStack i s st)) =
      (if path = [] \<or> length path > MaxFlameDepth then (0, 0) else (sumOver (beginsWith path) i (ss @ [s]), weightUnder path i (ss @ [s])))"
    for path
  proof (cases "path = [] \<or> length path > MaxFlameDepth")
    case True
    then show ?thesis using ok by (auto simp: children pathSums_deep treeExact_def)
  next
    case False
    then show ?thesis
      using pathSums_addStack [OF sums, of "path" 0 "stackNames s"] ok
      by (auto simp: children treeExact_def beginsWith_def sumOver_snoc weightUnder_snoc)
  qed
  then show ?thesis using w by (simp add: treeExact_def)
qed

lemma flameRoot_exact:
  assumes "\<forall>s \<in> set ss. i < length (sm_Value s)" and "in_int64 (absSum i ss)"
  shows "treeExact i ss (flameRoot i ss)"
  using assms
proof (induction ss rule: rev_induct)
  case Nil
  have "pathSums path [] = (0, 0)" for path
    by (induction path) (auto simp: pathSums.simps childNamed_def)
  then show ?case by (simp add: treeExact_def flameRoot_def absSum_def sumOver_def weightUnder_def)
next
  case (snoc s ss)
  then show ?case using treeExact_step [of i ss "flameRoot i ss" s] absSum_prefix
    by (simp add: flameRoot_def)
qed

subsection \<open>Weights\<close>

fun wellWeighted :: "flameTree \<Rightarrow> bool" where
  "wellWeighted (FlameTree n v w cs) \<longleftrightarrow> 0 < w \<and> sum_list (map ft_weight cs) \<le> w \<and>
     distinct (map ft_name cs) \<and> (\<forall>c \<in> set cs. wellWeighted c)"

definition wellForest :: "flameTree list \<Rightarrow> bool" where
  "wellForest cs \<longleftrightarrow> distinct (map ft_name cs) \<and> (\<forall>c \<in> set cs. wellWeighted c)"

lemma wellWeighted_pos: "wellWeighted c \<Longrightarrow> 0 < ft_weight c"
  by (cases c) simp

lemma wellWeighted_children: "wellWeighted c \<Longrightarrow> wellForest (ft_children c) \<and> sum_list (map ft_weight (ft_children c)) \<le> ft_weight c"
  by (cases c) (simp add: wellForest_def)

lemma forest_nonneg: "wellForest cs \<Longrightarrow> 0 \<le> sum_list (map ft_weight cs)"
  unfolding wellForest_def by (induction cs) (auto dest: wellWeighted_pos)

lemma sum_putChild:
  "sum_list (map ft_weight (putChild t cs)) = sum_list (map ft_weight cs) - ft_weight (childNamed (ft_name t) cs) + ft_weight t"
  by (induction cs) (auto simp: childNamed_def)

lemma names_putChild: "map ft_name (putChild t cs) = (if ft_name t \<in> ft_name ` set cs then map ft_name cs else map ft_name cs @ [ft_name t])"
  by (induction cs) (auto simp: image_iff)

lemma set_putChild: "set (putChild t cs) \<subseteq> insert t (set cs)"
  by (induction cs) auto

lemma childNamed_cases: "childNamed n cs = FlameTree n 0 0 [] \<or> childNamed n cs \<in> set cs"
  by (auto simp: childNamed_def find_Some_iff split: option.split)

lemma childNamed_weight: "wellForest cs \<Longrightarrow> 0 \<le> ft_weight (childNamed n cs) \<and> ft_weight (childNamed n cs) \<le> sum_list (map ft_weight cs)"
proof (induction cs)
  case (Cons c cs)
  then have "wellForest cs" "0 < ft_weight c" by (auto simp: wellForest_def dest: wellWeighted_pos)
  then show ?case using Cons.IH forest_nonneg [of cs] by (auto simp: childNamed_def)
qed (simp add: childNamed_def)

lemma wellForest_childNamed:
  assumes "wellForest cs"
  shows "wellForest (ft_children (childNamed n cs)) \<and>
    sum_list (map ft_weight (ft_children (childNamed n cs))) \<le> ft_weight (childNamed n cs)"
  using childNamed_cases [of n cs] assms wellWeighted_children by (auto simp: wellForest_def)

lemma wellForest_addStack:
  assumes "wellForest cs" "0 < w" "sum_list (map ft_weight cs) + w \<le> int64_max"
  shows "wellForest (fst (addStack d v w names cs)) \<and>
    sum_list (map ft_weight (fst (addStack d v w names cs))) \<le> sum_list (map ft_weight cs) + w"
  using assms
proof (induction names arbitrary: d cs)
  case (Cons name names)
  define child where "child = childNamed name cs"
  define below where "below = fst (addStack (Suc d) v w names (ft_children child))"
  have child: "wellForest (ft_children child)" "sum_list (map ft_weight (ft_children child)) \<le> ft_weight child"
    "0 \<le> ft_weight child" "ft_weight child \<le> sum_list (map ft_weight cs)"
    using wellForest_childNamed [OF Cons.prems(1)] childNamed_weight [OF Cons.prems(1)] by (simp_all add: child_def)
  then have ih: "wellForest below \<and> sum_list (map ft_weight below) \<le> sum_list (map ft_weight (ft_children child)) + w"
    unfolding below_def using Cons.prems by (intro Cons.IH) auto
  have weight: "saturatedAddPositive (ft_weight child) w = ft_weight child + w"
    using child Cons.prems by (intro saturatedAddPositive_exact) auto
  let ?t = "FlameTree name (saturatedAdd (ft_value child) v) (ft_weight child + w) below"
  have "wellWeighted ?t" using ih child Cons.prems(2) by (simp add: wellForest_def)
  then have "wellForest (putChild ?t cs)" using Cons.prems(1) set_putChild [of ?t cs]
    by (auto simp: wellForest_def names_putChild simp del: wellWeighted.simps)
  moreover have "sum_list (map ft_weight (putChild ?t cs)) = sum_list (map ft_weight cs) + w"
    by (simp add: sum_putChild child_def)
  ultimately show ?case using Cons.prems by (simp add: Let_def child_def [symmetric] below_def [symmetric] weight)
qed simp

lemma flameRoot_forest:
  assumes "\<forall>s \<in> set ss. i < length (sm_Value s)" and "in_int64 (absSum i ss)"
  shows "wellForest (fs_children (flameRoot i ss)) \<and> sum_list (map ft_weight (fs_children (flameRoot i ss))) \<le> absSum i ss"
  using assms
proof (induction ss rule: rev_induct)
  case Nil
  then show ?case by (simp add: flameRoot_def wellForest_def absSum_def)
next
  case (snoc s ss)
  then have ih: "wellForest (fs_children (flameRoot i ss))" "sum_list (map ft_weight (fs_children (flameRoot i ss))) \<le> absSum i ss"
    using absSum_prefix by auto
  have bound: "absSum i ss + \<bar>valueOf i s\<bar> \<le> int64_max" using snoc.prems by (simp add: absSum_snoc go_defs)
  have step: "flameRoot i (ss @ [s]) = addSampleStack i s (flameRoot i ss)" by (simp add: flameRoot_def)
  show ?case
  proof (cases "valueOf i s = 0")
    case True
    then show ?thesis using ih by (simp add: step addSampleStack_def valueOf_def [symmetric] absSum_snoc)
  next
    case False
    have v: "absSaturated (valueOf i s) = \<bar>valueOf i s\<bar>"
      using bound absSum_nonneg [of i ss] by (intro absSaturated_abs) (auto simp: go_defs)
    have "fs_children (flameRoot i (ss @ [s])) =
        fst (addStack 0 (valueOf i s) \<bar>valueOf i s\<bar> (stackNames s) (fs_children (flameRoot i ss)))"
      using False snoc.prems by (simp add: step addSampleStack_def valueOf_def [symmetric] v Let_def)
    then show ?thesis using wellForest_addStack [OF ih(1), of "\<bar>valueOf i s\<bar>" 0 "valueOf i s" "stackNames s"] False ih(2) bound
      by (simp add: absSum_snoc)
  qed
qed

subsection \<open>The layout\<close>

text \<open>
  Boxes laid out below depth \<open>d\<close> in the span from \<open>a\<close> to \<open>b\<close>: inside the span, within the depth limit,
  left to right without overlap on each level, and each box below the first level inside one of the
  level above it.
\<close>

definition boxesIn :: "nat \<Rightarrow> int \<Rightarrow> int \<Rightarrow> FlameNode list \<Rightarrow> bool" where
  "boxesIn d a b ns \<longleftrightarrow> (\<forall>n \<in> set ns. int d \<le> fn_Depth n \<and> fn_Depth n < int MaxFlameDepth \<and> a \<le> fn_X n \<and> 0 < fn_Width n \<and>
     fn_X n + fn_Width n \<le> b)"

definition apart :: "FlameNode list \<Rightarrow> bool" where
  "apart ns = sorted_wrt (\<lambda>m n. fn_Depth m = fn_Depth n \<longrightarrow> fn_X m + fn_Width m \<le> fn_X n) ns"

definition inside :: "FlameNode \<Rightarrow> FlameNode \<Rightarrow> bool" where
  "inside n m \<longleftrightarrow> fn_Depth n = fn_Depth m + 1 \<and> fn_X m \<le> fn_X n \<and> fn_X n + fn_Width n \<le> fn_X m + fn_Width m"

definition nested :: "nat \<Rightarrow> FlameNode list \<Rightarrow> bool" where
  "nested d ns \<longleftrightarrow> (\<forall>n \<in> set ns. fn_Depth n = int d \<or> (\<exists>m \<in> set ns. inside n m))"

definition laidOut :: "nat \<Rightarrow> int \<Rightarrow> int \<Rightarrow> FlameNode list \<Rightarrow> bool" where
  "laidOut d a b ns \<longleftrightarrow> boxesIn d a b ns \<and> apart ns \<and> nested d ns"

lemma laidOut_Nil [simp]: "laidOut d a b []"
  by (simp add: laidOut_def boxesIn_def apart_def nested_def)

text \<open>A box with the layout of its children to its right and below, then the layout of its siblings.\<close>

lemma laidOut_join:
  assumes d: "d < MaxFlameDepth" and n: "fn_Depth n = int d" "fn_X n = a" "fn_Width n = w" "0 < w"
    and below: "laidOut (Suc d) a (a + w) ms" and right: "laidOut d (a + w) b ns" and ab: "a + w \<le> b"
  shows "laidOut d a b (n # ms @ ns)"
proof -
  have "boxesIn d a b (n # ms @ ns)" using d n below right ab by (fastforce simp: laidOut_def boxesIn_def)
  moreover have "apart (n # ms @ ns)"
    using n below right unfolding laidOut_def apart_def boxesIn_def sorted_wrt_append sorted_wrt.simps by fastforce
  moreover have "nested d (n # ms @ ns)"
  proof -
    have "\<exists>m \<in> set (n # ms). inside k m" if "k \<in> set ms" for k
      using that below n unfolding laidOut_def nested_def boxesIn_def by (cases "fn_Depth k = int (Suc d)") (auto simp: inside_def)
    then show ?thesis using n right unfolding laidOut_def nested_def by fastforce
  qed
  ultimately show ?thesis by (simp add: laidOut_def)
qed

subsection \<open>Nodes on paths\<close>

fun nodeAt :: "string list \<Rightarrow> flameTree list \<Rightarrow> flameTree" where
  "nodeAt [] cs = FlameTree [] 0 0 cs"
| "nodeAt (name # names) cs = (if names = [] then childNamed name cs else nodeAt names (ft_children (childNamed name cs)))"

lemma nodeAt_snoc: "nodeAt (path @ [name]) cs = childNamed name (ft_children (nodeAt path cs))"
  by (induction path arbitrary: cs) auto

lemma pathSums_nodeAt: "pathSums path cs = (ft_value (nodeAt path cs), ft_weight (nodeAt path cs))"
  by (induction path arbitrary: cs) (simp_all add: pathSums.simps(2))

lemma childNamed_self: "wellForest cs \<Longrightarrow> c \<in> set cs \<Longrightarrow> childNamed (ft_name c) cs = c"
  unfolding wellForest_def by (induction cs) (auto simp: childNamed_def)

definition onPath :: "flameTree list \<Rightarrow> nat \<Rightarrow> flameTree \<Rightarrow> bool" where
  "onPath root d c \<longleftrightarrow> (\<exists>path. length path = Suc d \<and> last path = ft_name c \<and> nodeAt path root = c)"

lemma onPath_root: "wellForest root \<Longrightarrow> c \<in> set root \<Longrightarrow> onPath root 0 c"
  unfolding onPath_def by (intro exI [of _ "[ft_name c]"]) (simp add: childNamed_self)

lemma onPath_child:
  assumes "onPath root d c" "wellWeighted c" "k \<in> set (ft_children c)"
  shows "onPath root (Suc d) k"
proof -
  obtain path where "length path = Suc d" "nodeAt path root = c" using assms(1) by (auto simp: onPath_def)
  then show ?thesis
    using assms(2,3) wellWeighted_children childNamed_self unfolding onPath_def
    by (intro exI [of _ "path @ [ft_name k]"]) (simp add: nodeAt_snoc)
qed

text \<open>A box of depth \<open>d\<close> shows the node of some path of \<open>d + 1\<close> names: its last name, value and sign.\<close>

definition displays :: "flameTree list \<Rightarrow> FlameNode \<Rightarrow> bool" where
  "displays root n \<longleftrightarrow> (\<exists>path. int (length path) = fn_Depth n + 1 \<and> last path = fn_Function n \<and>
     fn_Value n = ft_value (nodeAt path root) \<and> fn_Sign n = (if fn_Value n < 0 then ''negative'' else ''positive''))"

lemma displays_node: "onPath root d c \<Longrightarrow> displays root (flameNodeOf d x w c)"
proof -
  assume "onPath root d c"
  then obtain path where "length path = Suc d" "last path = ft_name c" "nodeAt path root = c" by (auto simp: onPath_def)
  then show ?thesis unfolding displays_def by (intro exI [of _ path]) (simp add: flameNodeOf_def)
qed

subsection \<open>Emission\<close>

definition room :: "nat \<Rightarrow> int \<Rightarrow> int \<Rightarrow> int \<Rightarrow> int \<Rightarrow> flameTree list \<Rightarrow> bool" where
  "room d x width pw cursor cs \<longleftrightarrow> d < MaxFlameDepth \<and> 0 \<le> width \<and> x \<le> cursor \<and> cursor \<le> x + width \<and> 0 < pw \<and>
     width * pw \<le> int64_max \<and> wellForest cs \<and> sum_list (map ft_weight cs) \<le> pw \<and>
     width * sum_list (map ft_weight cs) \<le> pw * (x + width - cursor)"

lemma quot64_pos: "0 \<le> a \<Longrightarrow> 0 < b \<Longrightarrow> quot64 a b = a div b"
  by (cases "a = 0") (simp_all add: quot64_def)

lemma childWidth_room:
  assumes r: "room d x width pw cursor (child # cs)"
  defines "w \<equiv> childWidth x width pw cursor child (cs = [])"
  shows "w \<le> x + width - cursor" and "width * sum_list (map ft_weight cs) \<le> pw * (x + width - cursor - w)"
    and "width * sum_list (map ft_weight cs) \<le> pw * (x + width - cursor)"
proof -
  let ?c = "ft_weight child"
  have pw: "0 < pw" "0 < ?c" "?c \<le> pw" "0 \<le> sum_list (map ft_weight cs)" "0 \<le> width"
    using r forest_nonneg [of cs] by (auto simp: room_def wellForest_def dest: wellWeighted_pos)
  have all: "width * ?c + width * sum_list (map ft_weight cs) \<le> pw * (x + width - cursor)"
    using r by (simp add: room_def distrib_left)
  have "0 \<le> width * ?c" using pw by simp
  then show "width * sum_list (map ft_weight cs) \<le> pw * (x + width - cursor)" using all by linarith
  show "w \<le> x + width - cursor" "width * sum_list (map ft_weight cs) \<le> pw * (x + width - cursor - w)"
  proof -
    consider "cs = []" "cursor < x + width" | "w = width * ?c div pw"
    proof (cases "cs = [] \<and> cursor < x + width")
      case False
      have "width * ?c \<le> width * pw" using pw by (intro mult_left_mono) auto
      then have "wrap64 (width * ?c) = width * ?c" using r \<open>0 \<le> width * ?c\<close> by (intro wrap64_id) (auto simp: room_def go_defs)
      then show ?thesis using False pw that(2) by (auto simp: w_def childWidth_def quot64_pos)
    qed (use that in auto)
    then have "w \<le> x + width - cursor \<and> width * sum_list (map ft_weight cs) \<le> pw * (x + width - cursor - w)"
    proof cases
      case 1
      then show ?thesis by (simp add: w_def childWidth_def)
    next
      case 2
      have "pw * w \<le> width * ?c" unfolding 2
        using pw(1) mult_div_mod_eq [of pw "width * ?c"] pos_mod_sign [of pw "width * ?c"] by linarith
      then have le: "pw * w + width * sum_list (map ft_weight cs) \<le> pw * (x + width - cursor)" using all by linarith
      moreover have "0 \<le> width * sum_list (map ft_weight cs)" using pw by simp
      ultimately have "pw * w \<le> pw * (x + width - cursor)" by linarith
      then have "w \<le> x + width - cursor" using pw(1) by simp
      then show ?thesis using le by (simp add: right_diff_distrib)
    qed
    then show "w \<le> x + width - cursor" "width * sum_list (map ft_weight cs) \<le> pw * (x + width - cursor - w)" by auto
  qed
qed

lemma wellForest_sorted:
  assumes c: "wellWeighted child"
  shows "wellForest (sortedChildren child) \<and> sum_list (map ft_weight (sortedChildren child)) \<le> ft_weight child"
proof -
  have m: "mset (sortedChildren child) = mset (ft_children child)" by (simp add: sortedChildren_def)
  have "distinct (map ft_name (sortedChildren child))"
    using wellWeighted_children [OF c] m by (metis distinct_count_atmost_1 mset_map set_mset_mset wellForest_def)
  moreover have "sum_list (map ft_weight (sortedChildren child)) \<le> ft_weight child"
    using wellWeighted_children [OF c] m by (metis mset_map sum_mset_sum_list)
  ultimately show ?thesis using wellWeighted_children [OF c] by (simp add: wellForest_def sortedChildren_def)
qed

lemma room_child:
  assumes r: "room d x width pw cursor (child # cs)" and d: "d + 1 < MaxFlameDepth"
    and w: "w = childWidth x width pw cursor child (cs = [])" "0 < w"
  shows "room (d + 1) cursor w (ft_weight child) cursor (sortedChildren child)"
proof -
  have c: "wellWeighted child" and le: "ft_weight child \<le> pw" and x: "x \<le> cursor" "0 \<le> width" "0 < pw"
    using r forest_nonneg [of cs] by (auto simp: room_def wellForest_def)
  have "w \<le> width" using childWidth_room(1) [OF r] w(1) x by simp
  then have "w * ft_weight child \<le> width * pw" using le w(2) x wellWeighted_pos [OF c] by (intro mult_mono) auto
  moreover note wellForest_sorted [OF c]
  ultimately show ?thesis
    using r d w(2) wellWeighted_pos [OF c] by (simp add: room_def mult.commute [of w] mult_left_mono)
qed

lemma room_rest:
  assumes r: "room d x width pw cursor (child # cs)" and w: "w = childWidth x width pw cursor child (cs = [])"
  shows "0 < w \<Longrightarrow> room d x width pw (cursor + w) cs" and "room d x width pw cursor cs"
proof -
  have "ft_weight child \<ge> 0" using r by (auto simp: room_def wellForest_def dest: wellWeighted_pos)
  then have keep: "wellForest cs" "sum_list (map ft_weight cs) \<le> pw" using r by (auto simp: room_def wellForest_def)
  have eq: "x + width - (cursor + w) = x + width - cursor - w" by simp
  show "room d x width pw cursor cs" using r childWidth_room(3) [OF r] keep by (simp add: room_def)
  show "room d x width pw (cursor + w) cs" if "0 < w"
    using r childWidth_room(1,2) [OF r, folded w] keep that unfolding room_def eq by auto
qed

definition appends :: "flameOut \<Rightarrow> flameOut \<Rightarrow> (FlameNode list \<Rightarrow> bool) \<Rightarrow> bool" where
  "appends g h P \<longleftrightarrow> (\<exists>ns. fo_Nodes h = fo_Nodes g @ ns \<and> P ns)"

lemma emit_layout:
  assumes "room d x width pw cursor cs" and "\<forall>c \<in> set cs. onPath root d c"
  shows "appends g (emitChildren d x width pw cursor cs g) (\<lambda>ns. laidOut d cursor (x + width) ns \<and> (\<forall>n \<in> set ns. displays root n))"
  using assms
proof (induction d x width pw cursor cs g rule: emitChildren.induct)
  case (1 d x width pw cursor g)
  then show ?case by (simp add: appends_def)
next
  case (2 d x width pw cursor child cs g)
  define w where "w = childWidth x width pw cursor child (cs = [])"
  define g1 where "g1 = g\<lparr>fo_Nodes := fo_Nodes g @ [flameNodeOf d cursor w child]\<rparr>"
  define g2 where "g2 = (if d + 1 < MaxFlameDepth
      then emitChildren (d + 1) cursor w (ft_weight child) cursor (sortedChildren child) g1
      else if ft_children child \<noteq> [] then g1\<lparr>fo_Truncated := True\<rparr> else g1)"
  note r = "2.prems"(1) and rest = room_rest [OF "2.prems"(1) w_def]
  have paths: "onPath root d child" "\<forall>c \<in> set cs. onPath root d c" using "2.prems"(2) by simp_all
  consider "length (fo_Nodes g) \<ge> MaxFlameNodes" | "\<not> length (fo_Nodes g) \<ge> MaxFlameNodes" "w \<le> 0"
    | "\<not> length (fo_Nodes g) \<ge> MaxFlameNodes" "\<not> w \<le> 0" by blast
  then show ?case
  proof cases
    case 1
    then show ?thesis by (simp add: appends_def)
  next
    case 2
    then show ?thesis using "2.IH"(1) [OF 2(1) w_def 2(2) rest(2) paths(2)]
      by (simp add: Let_def w_def appends_def)
  next
    case 3
    have all: "emitChildren d x width pw cursor (child # cs) g = emitChildren d x width pw (cursor + w) cs g2"
      using 3 by (simp add: Let_def w_def g1_def g2_def)
    have below: "appends g1 g2 (\<lambda>ns. laidOut (Suc d) cursor (cursor + w) ns \<and> (\<forall>n \<in> set ns. displays root n))"
    proof (cases "d + 1 < MaxFlameDepth")
      case True
      have "\<forall>k \<in> set (sortedChildren child). onPath root (d + 1) k"
        using r onPath_child [OF paths(1)] by (auto simp: room_def wellForest_def sortedChildren_def)
      then show ?thesis
        using "2.IH"(2) [OF 3(1) w_def 3(2) g1_def True] room_child [OF r True w_def] 3(2) True by (simp add: g2_def)
    next
      case False
      then show ?thesis by (simp add: g2_def appends_def)
    qed
    have right: "appends g2 (emitChildren d x width pw (cursor + w) cs g2)
        (\<lambda>ns. laidOut d (cursor + w) (x + width) ns \<and> (\<forall>n \<in> set ns. displays root n))"
      using "2.IH"(3) [OF 3(1) w_def 3(2) g1_def g2_def] rest(1) paths(2) 3(2) by simp
    obtain ms ns where ms: "fo_Nodes g2 = fo_Nodes g1 @ ms" "laidOut (Suc d) cursor (cursor + w) ms" "\<forall>n \<in> set ms. displays root n"
      and ns: "fo_Nodes (emitChildren d x width pw (cursor + w) cs g2) = fo_Nodes g2 @ ns"
        "laidOut d (cursor + w) (x + width) ns" "\<forall>n \<in> set ns. displays root n"
      using below right by (auto simp: appends_def)
    have "laidOut d cursor (x + width) (flameNodeOf d cursor w child # ms @ ns)"
      using r ms(2) ns(2) 3(2) childWidth_room(1) [OF r, folded w_def]
      by (intro laidOut_join [where w = w]) (auto simp: room_def flameNodeOf_def)
    then show ?thesis unfolding all appends_def
      using ms ns displays_node [OF paths(1)]
      by (intro exI [of _ "flameNodeOf d cursor w child # ms @ ns"]) (auto simp: g1_def)
  qed
qed

lemma emit_bounded:
  "length (fo_Nodes g) \<le> MaxFlameNodes \<Longrightarrow> length (fo_Nodes (emitChildren d x width pw cursor cs g)) \<le> MaxFlameNodes"
proof (induction d x width pw cursor cs g rule: emitChildren.induct)
  case (2 d x width pw cursor child cs g)
  then show ?case by (simp add: Let_def)
qed simp

subsection \<open>The graph\<close>

lemma BuildFlame_drawn:
  assumes "pp_SampleType p \<noteq> []"
  defines "root \<equiv> flameRoot (length (pp_SampleType p) - 1) (pp_Sample p)"
  shows "fg_TotalWeight (BuildFlame (Some p)) = fs_weight root"
    and "fs_weight root \<noteq> 0 \<Longrightarrow> fg_Nodes (BuildFlame (Some p)) =
      fo_Nodes (emitFlameChildren 0 0 10000 (FlameTree [] 0 (fs_weight root) (fs_children root))
        \<lparr>fo_Nodes = [], fo_Truncated = fs_truncated root\<rparr>)"
    and "fs_weight root = 0 \<Longrightarrow> fg_Nodes (BuildFlame (Some p)) = []"
  using assms by (simp_all add: BuildFlame_def Let_def newFlameGraph_def)


lemma name_printable:
  assumes "list_all (\<lambda>c. 32 \<le> byte c \<and> byte c < 127) name" "name \<noteq> []" "length name \<le> 256"
  shows "flameLocationName (Some (exampleFrame name)) = name"
proof -
  have a: "list_all (\<lambda>c. byte c < 128) name" using assms(1) by (auto simp: list_all_iff)
  have "map (\<lambda>p. if controlRune (fst p) then []
      else if fst p = RuneError \<and> length (snd p) = 1 then encodeRune RuneError else snd p) (decode name) = map (\<lambda>c. [c]) name"
    using assms(1) by (auto simp: decode_ascii [OF a] controlRune_def RuneError_def list_all_iff)
  then have "strings_Drop controlRune name = name" by (simp add: strings_Drop_def)
  then show ?thesis using assms(2,3) by (simp add: flameLocationName_def exampleFrame_def)
qed

lemma sm_Value_example: "sm_Value (exampleSample names v) = [v]"
  by (simp add: exampleSample_def)

lemma stackNames_example:
  "stackNames (exampleSample [''hot''] v) = [''hot'']" "stackNames (exampleSample [''cold''] v) = [''cold'']"
  "stackNames (exampleSample [''b''] v) = [''b'']" "stackNames (exampleSample [''a'', ''b'', ''a''] v) = [''a'', ''b'', ''a'']"
  by (simp_all add: stackNames_def exampleSample_def name_printable byte_def)


lemma addSampleStack_one:
  assumes "stackNames s = [name]" "sm_Value s = [v]" "0 < v" "fs_weight st + v \<le> int64_max" "0 \<le> fs_weight st"
    "childNamed name (fs_children st) = FlameTree name 0 0 []"
  shows "addSampleStack 0 s st = \<lparr>fs_weight = fs_weight st + v, fs_children = putChild (FlameTree name v v []) (fs_children st),
    fs_truncated = fs_truncated st\<rparr>"
proof -
  have "absSaturated v = v" "saturatedAdd 0 v = v" "saturatedAddPositive 0 v = v"
    using assms(3-5) by (auto simp: absSaturated_def int64_min_def saturatedAdd_exact saturatedAddPositive_exact)
  moreover have "in_int64 (int64_max - fs_weight st)" "in_int64 (fs_weight st + v)" using assms(3-5) by (auto simp: go_defs)
  ultimately show ?thesis using assms by (simp add: addSampleStack_def Let_def wrap64_id)
qed

definition hugeProfile :: pProfile where
  "hugeProfile = exampleProfile [exampleSample [''hot''] 1000000000000000, exampleSample [''cold''] 10000000000000]"

text \<open>
  C17: The width of a box is computed as width times weight in 64 bits without a guard. A profile whose
  budget passes the overflow checks can therefore be drawn wrongly: here a function with 99 percent
  of the weight is left out, because the product is negative, and one with 1 percent is drawn across the
  whole canvas.
\<close>

theorem flame_width_overflows:
  "absoluteBudgets hugeProfile = Inr [1010000000000000]
   \<and> sumOver (beginsWith [''hot'']) 0 (pp_Sample hugeProfile) = 1000000000000000
   \<and> map (\<lambda>n. (fn_Function n, fn_X n, fn_Width n)) (fg_Nodes (BuildFlame (Some hugeProfile))) = [(''cold'', 0, 10000)]"
proof -
  have root: "flameRoot 0 (pp_Sample hugeProfile) = \<lparr>fs_weight = 1010000000000000,
      fs_children = [FlameTree ''hot'' 1000000000000000 1000000000000000 [], FlameTree ''cold'' 10000000000000 10000000000000 []],
      fs_truncated = False\<rparr>"
    by (simp add: flameRoot_def hugeProfile_def exampleProfile_def childNamed_def int64_max_def
        addSampleStack_one [OF stackNames_example(1) sm_Value_example] addSampleStack_one [OF stackNames_example(2) sm_Value_example])
  have "sortedChildren (FlameTree [] 0 1010000000000000 (fs_children (flameRoot 0 (pp_Sample hugeProfile)))) =
      [FlameTree ''hot'' 1000000000000000 1000000000000000 [], FlameTree ''cold'' 10000000000000 10000000000000 []]"
    unfolding root by code_simp
  then have "fo_Nodes (emitFlameChildren 0 0 10000 (FlameTree [] 0 1010000000000000 (fs_children (flameRoot 0 (pp_Sample hugeProfile))))
      \<lparr>fo_Nodes = [], fo_Truncated = False\<rparr>) = [flameNodeOf 0 0 10000 (FlameTree ''cold'' 10000000000000 10000000000000 [])]"
    by (simp add: emitFlameChildren_def Let_def childWidth_def quot64_def wrap64_def sortedChildren_def)
  then have "fg_Nodes (BuildFlame (Some hugeProfile)) = [flameNodeOf 0 0 10000 (FlameTree ''cold'' 10000000000000 10000000000000 [])]"
    using BuildFlame_drawn(2) [of hugeProfile] root by (simp add: hugeProfile_def exampleProfile_def)
  moreover have "absoluteBudgets hugeProfile = Inr [1010000000000000]"
    by code_simp
  moreover have "sumOver (beginsWith [''hot'']) 0 (pp_Sample hugeProfile) = 1000000000000000"
    by (simp add: hugeProfile_def exampleProfile_def sumOver_def beginsWith_def stackNames_example)
       (simp add: exampleSample_def valueOf_def)
  ultimately show ?thesis by (simp add: flameNodeOf_def)
qed

text \<open>
  A function name of control characters only is accepted by the preflight, becomes the empty name in
  the graph, and makes validation refuse the box.
\<close>

lemma flame_empty_name_refused:
  "boundedString [CHR 0x0A] 512 \<and>
   flameLocationName (Some (exampleFrame [CHR 0x0A])) = [] \<and> (fn_Function n = [] \<longrightarrow> validateFlameNode n \<noteq> None)"
proof -
  have "boundedString [CHR 0x0A] 512" by (simp add: boundedString_def boundedOptionalString_def utf8_ascii byte_def)
  moreover have "flameLocationName (Some (exampleFrame [CHR 0x0A])) = []"
    by (simp add: flameLocationName_def exampleFrame_def strings_Drop_def decode_ascii byte_def controlRune_def)
  ultimately show ?thesis by (simp add: validateFlameNode_def bounded_def)
qed


end
