(* ===== verification/Histogram.thy ===== *)
theory Histogram
  imports Agg
begin

text \<open>
  Percentiles read from bucketed counts, as the access log and the funnels do it: the buckets are
  walked in order, and the answer is taken from the first one that is not empty and at which the
  running count reaches the target rank. The locale \<open>histogram\<close> is the contract of a bucket
  function; under it that bucket is the one of the exact nearest-rank percentile.
\<close>

text \<open>\<open>for i, count := range buckets\<close> with \<open>seen += count\<close>: the index at which the loop returns.\<close>

fun rankBucket :: "int \<Rightarrow> int \<Rightarrow> nat \<Rightarrow> int list \<Rightarrow> nat option" where
  "rankBucket target seen i [] = None"
| "rankBucket target seen i (c # counts) =
     (let seen' = wrap64 (seen + c)
      in if c > 0 \<and> seen' \<ge> target then Some i else rankBucket target seen' (Suc i) counts)"

text \<open>\<open>buckets[b]++\<close>\<close>

definition countIn :: "nat \<Rightarrow> int list \<Rightarrow> int list" where
  "countIn b counts = counts[b := wrap64 (counts ! b + 1)]"

lemma rankBucket_stops:
  assumes "\<forall>c \<in> set cs. 0 \<le> c" and "0 \<le> cum" and "cum + sum_list cs \<le> int64_max"
    and "cum < target" and "target \<le> cum + sum_list cs"
  shows "\<exists>j < length cs. cum + sum_list (take j cs) < target \<and> target \<le> cum + sum_list (take (Suc j) cs) \<and>
           rankBucket target cum i cs = Some (i + j)"
  using assms
proof (induction cs arbitrary: cum i)
  case (Cons c cs)
  have "0 \<le> sum_list cs" using Cons.prems(1) by (intro sum_list_nonneg) auto
  with Cons.prems have w: "wrap64 (cum + c) = cum + c" by (intro wrap64_id) (simp add: go_defs)
  show ?case
  proof (cases "target \<le> cum + c")
    case True
    with Cons.prems w show ?thesis by (intro exI [of _ 0]) auto
  next
    case False
    with Cons.IH [of "cum + c" "Suc i"] Cons.prems obtain j where
      "j < length cs" "cum + c + sum_list (take j cs) < target" "target \<le> cum + c + sum_list (take (Suc j) cs)"
      "rankBucket target (cum + c) (Suc i) cs = Some (Suc i + j)"
      by auto
    with False w show ?thesis by (intro exI [of _ "Suc j"]) (auto simp: add.assoc)
  qed
qed simp

text \<open>The counts a list of observations leaves in \<open>n\<close> buckets.\<close>

definition counts_of :: "nat \<Rightarrow> (int \<Rightarrow> nat) \<Rightarrow> int list \<Rightarrow> int list" where
  "counts_of n b xs = map (\<lambda>i. int (length (filter (\<lambda>x. b x = i) xs))) [0..<n]"

lemma counts_of_Nil: "counts_of n b [] = replicate n 0"
  by (simp add: counts_of_def map_replicate_const)

lemma countIn_counts:
  assumes "b x < n" and "int (length xs) < int64_max"
  shows "countIn (b x) (counts_of n b xs) = counts_of n b (xs @ [x])"
proof -
  have "wrap64 (int (length (filter P xs)) + 1) = int (length (filter P xs)) + 1" for P
  proof (rule wrap64_id)
    have "length (filter P xs) \<le> length xs" by (rule length_filter_le)
    with assms(2) show "in_int64 (int (length (filter P xs)) + 1)" unfolding go_defs by linarith
  qed
  then show ?thesis
    using assms(1) by (intro nth_equalityI) (auto simp: countIn_def counts_of_def nth_list_update)
qed

lemma sum_counts:
  assumes "j \<le> n"
  shows "sum_list (take j (counts_of n b xs)) = int (length (filter (\<lambda>x. b x < j) xs))"
  using assms
proof (induction j)
  case (Suc j)
  have split: "length (filter (\<lambda>x. b x < Suc j) zs) =
      length (filter (\<lambda>x. b x < j) zs) + length (filter (\<lambda>x. b x = j) zs)" for zs
    by (induction zs) auto
  from Suc show ?case by (simp add: counts_of_def take_Suc_conv_app_nth split)
qed simp

locale histogram =
  fixes n :: nat
    and bucket :: "int \<Rightarrow> nat"
  assumes bucket_lt: "bucket x < n"
    and bucket_mono: "0 \<le> x \<Longrightarrow> x \<le> y \<Longrightarrow> in_int64 y \<Longrightarrow> bucket x \<le> bucket y"
begin

lemma rank_bucket:
  assumes "xs \<noteq> []" and "\<forall>x \<in> set xs. 0 \<le> x \<and> in_int64 x" and "int (length xs) \<le> int64_max"
  shows "rankBucket (int (rank95 (length xs))) 0 0 (counts_of n bucket xs) = Some (bucket (percentile95 xs))"
proof -
  let ?ys = "sort xs" and ?k = "rank95 (length xs) - 1" and ?r = "int (rank95 (length xs))" and ?cs = "counts_of n bucket xs"
  have pos: "0 < rank95 (length xs)" "rank95 (length xs) \<le> length xs" and k: "?k < length ?ys"
    using assms(1) by (cases "length xs"; auto simp: rank95_def)+
  have all: "sum_list ?cs = int (length xs)"
    using sum_counts [of n n bucket xs] bucket_lt by (simp add: counts_of_def)
  from rankBucket_stops [of ?cs 0 ?r 0] all pos assms(3) obtain j where
    j: "j < n" "sum_list (take j ?cs) < ?r" "?r \<le> sum_list (take (Suc j) ?cs)" "rankBucket ?r 0 0 ?cs = Some j"
    by (auto simp: counts_of_def)
  have down: "(bucket (?ys ! ?k) < i) = (?k < length (filter (\<lambda>x. bucket x < i) xs))" for i
  proof (subst length_filter_sort [symmetric], rule sorted_nth_filter [OF sorted_sort _ k])
    fix x y assume "x \<in> set ?ys" "y \<in> set ?ys" "x \<le> y" "bucket y < i"
    with bucket_mono [of x y] assms(2) show "bucket x < i" by simp
  qed
  have "\<not> bucket (?ys ! ?k) < j" "bucket (?ys ! ?k) < Suc j"
    using j pos unfolding down by (auto simp: sum_counts)
  then show ?thesis using j(4) by (simp add: percentile95_def)
qed

lemma percentile_mem: "xs \<noteq> [] \<Longrightarrow> percentile95 xs \<in> set xs"
proof -
  assume "xs \<noteq> []"
  then have "rank95 (length xs) - 1 < length (sort xs)" by (cases "length xs") (auto simp: rank95_def)
  then have "sort xs ! (rank95 (length xs) - 1) \<in> set (sort xs)" by (rule nth_mem)
  then show ?thesis by (simp add: percentile95_def)
qed

end

interpretation agg: histogram numBuckets bucketFor
  by unfold_locales (simp_all add: bucketFor_mono)

end
