(* ===== verification/Flow_Viz.thy ===== *)
theory Flow_Viz
  imports Histogram Profile_Model
begin

text \<open>
  \<open>flowviz/config.go\<close> (definitions and their validation), \<open>flowviz/aggregate.go\<close> (funnels) and
  \<open>flowviz/graph.go\<close> (the transition graph). Maps are association lists with distinct keys. The
  mutex makes every operation one step; a \<open>nil\<close> aggregator behaves like a disabled one everywhere, so
  only the latter is modelled. The parser of duration texts is the argument \<open>dur\<close>, which stands for
  \<open>time.ParseDuration\<close> (\<open>None\<close> when it refuses). The two regular expressions of the package are
  written out as the languages they denote.
\<close>

abbreviation (input) "SchemaVersion \<equiv> (1 :: int)"
abbreviation (input) "MaxFunnels \<equiv> (16 :: nat)"
abbreviation (input) "MaxStepsPerFunnel \<equiv> (16 :: nat)"
abbreviation (input) "MaxNodeBytes \<equiv> (512 :: nat)"
abbreviation (input) "DefaultMaxNodes \<equiv> (16 :: int)"
abbreviation (input) "DefaultMaxEdges \<equiv> (48 :: int)"
abbreviation (input) "DefaultMaxSessions \<equiv> (10000 :: int)"
abbreviation (input) "HardMaxNodes \<equiv> (32 :: int)"
abbreviation (input) "HardMaxEdges \<equiv> (128 :: int)"
abbreviation (input) "HardMaxSessions \<equiv> (10000 :: int)"
abbreviation (input) "latencyBuckets \<equiv> (256 :: nat)"
abbreviation (input) "NUL \<equiv> CHR 0x00"

subsection \<open>Configuration\<close>

record StepDefinition =
  sd_ID :: string
  sd_Route :: string

record FunnelDefinition =
  fd_ID :: string
  fd_Scenario :: string
  fd_Mode :: string
  fd_Within :: string
  fd_Steps :: "StepDefinition list"

record Config =
  cg_Version :: int
  cg_Funnels :: "FunnelDefinition list"

record Options =
  op_Enabled :: bool
  op_MaxNodes :: int
  op_MaxEdges :: int
  op_MaxSessions :: int
  op_Config :: Config

definition zeroOptions :: Options where
  "zeroOptions = \<lparr>op_Enabled = False, op_MaxNodes = 0, op_MaxEdges = 0, op_MaxSessions = 0,
     op_Config = \<lparr>cg_Version = 0, cg_Funnels = []\<rparr>\<rparr>"

definition safeByte :: "char \<Rightarrow> bool" where
  "safeByte c \<longleftrightarrow> (CHR ''a'' \<le> c \<and> c \<le> CHR ''z'') \<or> (CHR ''A'' \<le> c \<and> c \<le> CHR ''Z'') \<or>
     (CHR ''0'' \<le> c \<and> c \<le> CHR ''9'') \<or> c \<in> {CHR ''.'', CHR ''_'', CHR ''~'', CHR ''-''}"

text \<open>\<open>^[A-Za-z0-9._~-]{1,64}$\<close>\<close>

definition safeIDPattern :: "string \<Rightarrow> bool" where
  "safeIDPattern s \<longleftrightarrow> s \<noteq> [] \<and> length s \<le> 64 \<and> list_all safeByte s"

definition upperByte :: "char \<Rightarrow> bool" where
  "upperByte c \<longleftrightarrow> CHR ''A'' \<le> c \<and> c \<le> CHR ''Z''"

definition routeRune :: "rune \<Rightarrow> bool" where
  "routeRune r \<longleftrightarrow> r \<notin> {9, 10, 12, 13, 32, 63, 35}"

text \<open>\<open>^[A-Z]{1,16} /[^\s?#]{0,495}$\<close>: the capital letters end at the space, so the match is unique.\<close>

definition routePattern :: "string \<Rightarrow> bool" where
  "routePattern s =
     (let w = takeWhile upperByte s in
      w \<noteq> [] \<and> length w \<le> 16 \<and>
      (case drop (length w) s of
         c # d # path \<Rightarrow> c = CHR '' '' \<and> d = CHR ''/'' \<and> length (runes path) \<le> 495 \<and> list_all routeRune (runes path)
       | _ \<Rightarrow> False))"

definition parseWindow :: "(string \<Rightarrow> duration option) \<Rightarrow> string \<Rightarrow> gerr + duration" where
  "parseWindow dur text =
     (if strings_TrimSpace text = [] \<or> strings_TrimSpace text = ''0'' then Inr 0
      else case dur text of
             None \<Rightarrow> Inl (PlainErr ''flowviz: invalid-window'')
           | Some d \<Rightarrow> if d \<le> 0 \<or> d > 24 * 60 * Minute then Inl (PlainErr ''flowviz: invalid-window'') else Inr d)"

definition validateStep :: "nat \<Rightarrow> StepDefinition list \<Rightarrow> StepDefinition \<Rightarrow> gerr option" where
  "validateStep i seen step = firstErr
     [refuse (\<not> safeIDPattern (sd_ID step)) (PlainErr ''flowviz: invalid-step-id''),
      refuse (\<not> utf8_ValidString (sd_Route step) \<or> length (sd_Route step) > MaxNodeBytes \<or> \<not> routePattern (sd_Route step))
        (PlainErr ''flowviz: invalid-route-template''),
      refuse (sd_ID step \<in> sd_ID ` set seen) (PlainErr ''flowviz: duplicate-step-id''),
      refuse (sd_Route step \<in> sd_Route ` set seen) (PlainErr ''flowviz: duplicate-step-route'')]"

definition validateFunnel ::
  "(string \<Rightarrow> duration option) \<Rightarrow> nat \<Rightarrow> FunnelDefinition list \<Rightarrow> FunnelDefinition \<Rightarrow> gerr option" where
  "validateFunnel dur i seen funnel = firstErr
     [refuse (\<not> safeIDPattern (fd_ID funnel) \<or> \<not> safeIDPattern (fd_Scenario funnel)) (PlainErr ''flowviz: invalid-identifier''),
      refuse (fd_ID funnel \<in> fd_ID ` set seen) (PlainErr ''flowviz: duplicate-funnel''),
      refuse (fd_Mode funnel \<noteq> ''ordered'') (PlainErr ''flowviz: unsupported-mode''),
      refuse (length (fd_Steps funnel) < 2 \<or> length (fd_Steps funnel) > MaxStepsPerFunnel) (PlainErr ''flowviz: invalid-step-count''),
      (case parseWindow dur (fd_Within funnel) of Inl e \<Rightarrow> Some e | Inr _ \<Rightarrow> None),
      loopErr validateStep [] (fd_Steps funnel)]"

definition Validate_flow :: "(string \<Rightarrow> duration option) \<Rightarrow> Config \<Rightarrow> gerr option" where
  "Validate_flow dur c = firstErr
     [refuse (cg_Version c \<noteq> SchemaVersion) (PlainErr ''flowviz: unsupported-version''),
      refuse (length (cg_Funnels c) > MaxFunnels) (PlainErr ''flowviz: too-many-funnels''),
      loopErr (validateFunnel dur) [] (cg_Funnels c)]"

definition normalized :: "(string \<Rightarrow> duration option) \<Rightarrow> Options \<Rightarrow> gerr + Options" where
  "normalized dur o0 =
     (if \<not> op_Enabled o0 then Inr zeroOptions
      else
        let o1 = o0\<lparr>op_MaxNodes := (if op_MaxNodes o0 = 0 then DefaultMaxNodes else op_MaxNodes o0),
                   op_MaxEdges := (if op_MaxEdges o0 = 0 then DefaultMaxEdges else op_MaxEdges o0),
                   op_MaxSessions := (if op_MaxSessions o0 = 0 then DefaultMaxSessions else op_MaxSessions o0)\<rparr>
        in if op_MaxNodes o1 < 2 \<or> op_MaxNodes o1 > HardMaxNodes \<or> op_MaxEdges o1 < 1 \<or> op_MaxEdges o1 > HardMaxEdges \<or>
              op_MaxSessions o1 < 1 \<or> op_MaxSessions o1 > HardMaxSessions
           then Inl (PlainErr ''flowviz: option-out-of-range'')
           else
             let o2 = (if cg_Version (op_Config o1) = 0 \<and> cg_Funnels (op_Config o1) = []
                       then o1\<lparr>op_Config := (op_Config o1)\<lparr>cg_Version := SchemaVersion\<rparr>\<rparr> else o1)
             in verdict (Validate_flow dur (op_Config o2)) o2)"

subsection \<open>Funnels\<close>

record Event =
  ev_Session :: string
  ev_Scenario :: string
  ev_Method :: string
  ev_Route :: string
  ev_Status :: int
  ev_Latency :: duration
  ev_At :: gotime

record stepStat =
  ps_sessions :: int
  ps_requests :: int
  ps_retries :: int
  ps_status4xx :: int
  ps_status5xx :: int
  ps_latencyN :: int
  ps_maxNS :: int
  ps_buckets :: "int list"

definition zeroStep :: stepStat where
  "zeroStep = \<lparr>ps_sessions = 0, ps_requests = 0, ps_retries = 0, ps_status4xx = 0, ps_status5xx = 0, ps_latencyN = 0,
     ps_maxNS = 0, ps_buckets = replicate latencyBuckets 0\<rparr>"

record compiledFunnel =
  cf_definition :: FunnelDefinition
  cf_within :: duration
  cf_routeIndex :: "(string \<times> nat) list"
  cf_steps :: "stepStat list"
  cf_entered :: int
  cf_completed :: int
  cf_expired :: int

record sessionState =
  ss_funnel :: nat
  ss_next :: nat
  ss_started :: gotime
  ss_completed :: bool
  ss_expired :: bool

record Flow_Aggregator =
  va_enabled :: bool
  va_maxNodes :: int
  va_maxEdges :: int
  va_maxSessions :: int
  va_funnels :: "compiledFunnel list"
  va_byScenario :: "(string \<times> nat list) list"
  va_sessions :: "(string \<times> sessionState) list"
  va_sessionDropped :: int
  va_timingMissing :: int
  va_latestObserved :: gotime

text \<open>\<open>m[k] = v\<close>\<close>

definition assign :: "'k \<Rightarrow> 'v \<Rightarrow> ('k \<times> 'v) list \<Rightarrow> ('k \<times> 'v) list" where
  "assign k v m = alter k v (\<lambda>_. v) m"

definition compileFunnel :: "(string \<Rightarrow> duration option) \<Rightarrow> FunnelDefinition \<Rightarrow> compiledFunnel" where
  "compileFunnel dur def =
     \<lparr>cf_definition = def,
      cf_within = (case parseWindow dur (fd_Within def) of Inl _ \<Rightarrow> 0 | Inr d \<Rightarrow> d),
      cf_routeIndex = fold (\<lambda>(i, step) m. assign (sd_Route step) i m) (enumerate 0 (fd_Steps def)) [],
      cf_steps = replicate (length (fd_Steps def)) zeroStep,
      cf_entered = 0, cf_completed = 0, cf_expired = 0\<rparr>"

definition addFunnel :: "(string \<Rightarrow> duration option) \<Rightarrow> FunnelDefinition \<Rightarrow> Flow_Aggregator \<Rightarrow> Flow_Aggregator" where
  "addFunnel dur def a =
     a\<lparr>va_funnels := va_funnels a @ [compileFunnel dur def],
       va_byScenario := alter (fd_Scenario def) [] (\<lambda>idx. idx @ [length (va_funnels a)]) (va_byScenario a)\<rparr>"

definition newFlow :: "Options \<Rightarrow> Flow_Aggregator" where
  "newFlow opts =
     \<lparr>va_enabled = op_Enabled opts, va_maxNodes = op_MaxNodes opts, va_maxEdges = op_MaxEdges opts,
      va_maxSessions = op_MaxSessions opts, va_funnels = [], va_byScenario = [], va_sessions = [],
      va_sessionDropped = 0, va_timingMissing = 0, va_latestObserved = 0\<rparr>"

definition New_flow :: "(string \<Rightarrow> duration option) \<Rightarrow> Options \<Rightarrow> gerr + Flow_Aggregator" where
  "New_flow dur options =
     (case normalized dur options of
        Inl e \<Rightarrow> Inl e
      | Inr opts \<Rightarrow>
          Inr (if op_Enabled opts then fold (addFunnel dur) (cg_Funnels (op_Config opts)) (newFlow opts)
               else newFlow zeroOptions))"
definition safeSession :: "string \<Rightarrow> bool" where
  "safeSession s \<longleftrightarrow> s \<noteq> [] \<and> length s \<le> 128 \<and> safeIDPattern s"

text \<open>The products are computed in \<open>uint64\<close>.\<close>

definition latencyBucket :: "int \<Rightarrow> nat" where
  "latencyBucket ns =
     (if ns \<le> 0 then 0
      else
        let n = nat ns;
            e = bits_Len n - 1;
            base = 2 ^ e;
            sub = (n - base) * 4 mod 2 ^ 64 div base;
            index = 1 + e * 4 + min sub 3
        in if index \<ge> latencyBuckets then latencyBuckets - 1 else index)"

definition latencyBucketUpper :: "nat \<Rightarrow> int" where
  "latencyBucketUpper index =
     (if index = 0 then 0
      else
        let e = (index - 1) div 4; sub = (index - 1) mod 4
        in if e \<ge> 62 then int64_max
           else let base = 2 ^ e in wrap64 (int ((base + base * (sub + 1) mod 2 ^ 64 div 4) mod 2 ^ 64)))"

definition stepPercentile :: "stepStat \<Rightarrow> int \<Rightarrow> int" where
  "stepPercentile step percentile =
     (if ps_latencyN step = 0 then 0
      else
        let target = wrap64 (wrap64 (ps_latencyN step * percentile) + 99) sdiv 100
        in case rankBucket target 0 0 (ps_buckets step) of
             None \<Rightarrow> ps_maxNS step
           | Some i \<Rightarrow> let upper = latencyBucketUpper i in if upper > ps_maxNS step then ps_maxNS step else upper)"

definition basisPoints :: "int \<Rightarrow> int \<Rightarrow> int" where
  "basisPoints numerator denominator =
     (if numerator \<le> 0 \<or> denominator \<le> 0 then 0
      else if numerator \<ge> denominator then 10000
      else wrap64 (wrap64 (numerator * 10000) + denominator sdiv 2) sdiv denominator)"

definition acceptStep :: "Event \<Rightarrow> bool \<Rightarrow> stepStat \<Rightarrow> stepStat" where
  "acceptStep event retry step =
     (let step1 = step\<lparr>ps_requests := wrap64 (ps_requests step + 1)\<rparr>;
          step2 = (if retry then step1\<lparr>ps_retries := wrap64 (ps_retries step1 + 1)\<rparr>
                   else step1\<lparr>ps_sessions := wrap64 (ps_sessions step1 + 1)\<rparr>);
          step3 = (if ev_Status event \<ge> 400 \<and> ev_Status event < 500
                   then step2\<lparr>ps_status4xx := wrap64 (ps_status4xx step2 + 1)\<rparr>
                   else if ev_Status event \<ge> 500 then step2\<lparr>ps_status5xx := wrap64 (ps_status5xx step2 + 1)\<rparr>
                   else step2)
      in if ev_Latency event \<ge> 0
         then step3\<lparr>ps_latencyN := wrap64 (ps_latencyN step3 + 1),
                    ps_maxNS := (if ev_Latency event > ps_maxNS step3 then ev_Latency event else ps_maxNS step3),
                    ps_buckets := countIn (latencyBucket (ev_Latency event)) (ps_buckets step3)\<rparr>
         else step3)"

definition funnelKey :: "FunnelDefinition \<Rightarrow> string \<Rightarrow> string" where
  "funnelKey def session = fd_ID def @ [NUL] @ session"

text \<open>The assignments through the pointer \<open>&a.funnels[i]\<close>.\<close>

definition updFunnel :: "nat \<Rightarrow> (compiledFunnel \<Rightarrow> compiledFunnel) \<Rightarrow> Flow_Aggregator \<Rightarrow> Flow_Aggregator" where
  "updFunnel i f a = a\<lparr>va_funnels := (va_funnels a)[i := f (va_funnels a ! i)]\<rparr>"

definition updStep :: "nat \<Rightarrow> (stepStat \<Rightarrow> stepStat) \<Rightarrow> compiledFunnel \<Rightarrow> compiledFunnel" where
  "updStep j f c = c\<lparr>cf_steps := (cf_steps c)[j := f (cf_steps c ! j)]\<rparr>"

definition setSession :: "string \<Rightarrow> sessionState \<Rightarrow> Flow_Aggregator \<Rightarrow> Flow_Aggregator" where
  "setSession key st a = a\<lparr>va_sessions := assign key st (va_sessions a)\<rparr>"

definition missTiming :: "bool \<Rightarrow> Flow_Aggregator \<Rightarrow> Flow_Aggregator" where
  "missTiming b a = (if b then a\<lparr>va_timingMissing := wrap64 (va_timingMissing a + 1)\<rparr> else a)"

text \<open>The first request of a session in a funnel.\<close>

definition enterFunnel :: "nat \<Rightarrow> string \<Rightarrow> Event \<Rightarrow> Flow_Aggregator \<Rightarrow> Flow_Aggregator" where
  "enterFunnel i key event a =
     (if int (length (va_sessions a)) \<ge> va_maxSessions a
      then a\<lparr>va_sessionDropped := wrap64 (va_sessionDropped a + 1)\<rparr>
      else
        missTiming (cf_within (va_funnels a ! i) > 0 \<and> IsZero (ev_At event))
          (updFunnel i (\<lambda>c. updStep 0 (acceptStep event False) (c\<lparr>cf_entered := wrap64 (cf_entered c + 1)\<rparr>))
            (setSession key \<lparr>ss_funnel = i, ss_next = 1, ss_started = ev_At event, ss_completed = False, ss_expired = False\<rparr> a)))"

text \<open>The window is checked against the session's first request; a missing or earlier time is only counted.\<close>

definition timingMissing :: "compiledFunnel \<Rightarrow> sessionState \<Rightarrow> Event \<Rightarrow> bool" where
  "timingMissing c st event \<longleftrightarrow> cf_within c > 0 \<and>
     (IsZero (ev_At event) \<or> IsZero (ss_started st) \<or> ev_At event < ss_started st)"

definition windowPassed :: "compiledFunnel \<Rightarrow> sessionState \<Rightarrow> Event \<Rightarrow> bool" where
  "windowPassed c st event \<longleftrightarrow> cf_within c > 0 \<and> \<not> timingMissing c st event \<and>
     time_Sub (ev_At event) (ss_started st) > cf_within c"

definition advance :: "nat \<Rightarrow> string \<Rightarrow> nat \<Rightarrow> Event \<Rightarrow> sessionState \<Rightarrow> Flow_Aggregator \<Rightarrow> Flow_Aggregator" where
  "advance i key j event st a =
     (if j < ss_next st then updFunnel i (updStep j (acceptStep event True)) a
      else if j = ss_next st then
        (let last = (Suc (ss_next st) = length (cf_steps (va_funnels a ! i))) in
         setSession key (st\<lparr>ss_next := Suc (ss_next st), ss_completed := ss_completed st \<or> last\<rparr>)
           (updFunnel i (\<lambda>c. (updStep j (acceptStep event False) c)
              \<lparr>cf_completed := (if last then wrap64 (cf_completed c + 1) else cf_completed c)\<rparr>) a))
      else a)"

definition observeFunnel :: "string \<Rightarrow> Event \<Rightarrow> nat \<Rightarrow> Flow_Aggregator \<Rightarrow> Flow_Aggregator" where
  "observeFunnel page event i a =
     (let funnel = va_funnels a ! i; key = funnelKey (cf_definition funnel) (ev_Session event) in
      case map_of (cf_routeIndex funnel) page of
        None \<Rightarrow> a
      | Some j \<Rightarrow>
          (case map_of (va_sessions a) key of
             None \<Rightarrow> if j \<noteq> 0 then a else enterFunnel i key event a
           | Some st \<Rightarrow>
               if ss_funnel st \<noteq> i \<or> ss_expired st then a
               else if windowPassed funnel st event then
                 updFunnel i (\<lambda>c. c\<lparr>cf_expired := (if ss_completed st then cf_expired c else wrap64 (cf_expired c + 1))\<rparr>)
                   (setSession key (st\<lparr>ss_expired := True\<rparr>) a)
               else advance i key j event st (missTiming (timingMissing funnel st event) a)))"

definition eventPage :: "Event \<Rightarrow> string" where
  "eventPage event = ev_Method event @ '' '' @ ev_Route event"

definition observable :: "Event \<Rightarrow> bool" where
  "observable event \<longleftrightarrow> safeSession (ev_Session event) \<and> safeIDPattern (ev_Scenario event) \<and>
     length (eventPage event) \<le> MaxNodeBytes \<and> routePattern (eventPage event)"

definition Observe_flow :: "Event \<Rightarrow> Flow_Aggregator \<Rightarrow> Flow_Aggregator" where
  "Observe_flow event a =
     (if \<not> va_enabled a \<or> \<not> observable event then a
      else
        let a1 = (if \<not> IsZero (ev_At event) \<and> ev_At event > va_latestObserved a
                  then a\<lparr>va_latestObserved := ev_At event\<rparr> else a)
        in fold (observeFunnel (eventPage event) event)
             (case map_of (va_byScenario a1) (ev_Scenario event) of None \<Rightarrow> [] | Some idx \<Rightarrow> idx) a1)"

definition silent :: "Flow_Aggregator \<Rightarrow> sessionState \<Rightarrow> bool" where
  "silent a st \<longleftrightarrow> \<not> (ss_completed st \<or> ss_expired st \<or> IsZero (ss_started st) \<or> ss_funnel st \<ge> length (va_funnels a)) \<and>
     (let within = cf_within (va_funnels a ! ss_funnel st) in
      within > 0 \<and> va_latestObserved a > ss_started st \<and> time_Sub (va_latestObserved a) (ss_started st) > within)"

definition expireOne :: "string \<times> sessionState \<Rightarrow> Flow_Aggregator \<Rightarrow> Flow_Aggregator" where
  "expireOne = (\<lambda>(key, st) a.
     if silent a st
     then updFunnel (ss_funnel st) (\<lambda>c. c\<lparr>cf_expired := wrap64 (cf_expired c + 1)\<rparr>) (setSession key (st\<lparr>ss_expired := True\<rparr>) a)
     else a)"

definition expireSilentSessions :: "Flow_Aggregator \<Rightarrow> Flow_Aggregator" where
  "expireSilentSessions a = (if IsZero (va_latestObserved a) then a else fold expireOne (va_sessions a) a)"

definition resetFunnel :: "compiledFunnel \<Rightarrow> compiledFunnel" where
  "resetFunnel c = c\<lparr>cf_steps := replicate (length (fd_Steps (cf_definition c))) zeroStep,
     cf_entered := 0, cf_completed := 0, cf_expired := 0\<rparr>"

definition Reset_flow :: "Flow_Aggregator \<Rightarrow> Flow_Aggregator" where
  "Reset_flow a =
     (if \<not> va_enabled a then a
      else a\<lparr>va_funnels := map resetFunnel (va_funnels a), va_sessions := [], va_sessionDropped := 0,
             va_timingMissing := 0, va_latestObserved := 0\<rparr>)"

subsection \<open>The transition graph\<close>

abbreviation (input) "OtherNode \<equiv> ''(other)''"

record Transition =
  tr_From :: string
  tr_To :: string
  tr_Count :: int

text \<open>\<open>GraphEdge\<close> has the same three fields.\<close>

type_synonym GraphEdge = Transition

record GraphNode =
  gn_ID :: string
  gn_Count :: int

record GraphSnapshot =
  gs_Nodes :: "GraphNode list"
  gs_Edges :: "GraphEdge list"
  gs_InputEdges :: nat
  gs_HiddenCount :: int
  gs_Dropped :: int
  gs_Truncated :: bool
  gs_Partial :: bool

definition saturatingAdd :: "int \<Rightarrow> int \<Rightarrow> int" where
  "saturatingAdd current v =
     (if v \<le> 0 then current else if current > wrap64 (int64_max - v) then int64_max else wrap64 (current + v))"

definition validNode :: "string \<Rightarrow> bool" where
  "validNode s \<longleftrightarrow> s \<noteq> [] \<and> length s \<le> MaxNodeBytes \<and> utf8_ValidString s \<and> routePattern s"

definition validTransition :: "Transition \<Rightarrow> bool" where
  "validTransition t \<longleftrightarrow> \<not> (tr_Count t \<le> 0 \<or> \<not> validNode (tr_From t) \<or> \<not> validNode (tr_To t))"

text \<open>\<open>totals[k] = saturatingAdd(totals[k], v)\<close>\<close>

definition addTo :: "string \<Rightarrow> int \<Rightarrow> (string \<times> int) list \<Rightarrow> (string \<times> int) list" where
  "addTo k v totals = alter k 0 (\<lambda>x. saturatingAdd x v) totals"

definition addEnds :: "Transition \<Rightarrow> (string \<times> int) list \<Rightarrow> (string \<times> int) list" where
  "addEnds t totals = addTo (tr_To t) (tr_Count t) (addTo (tr_From t) (tr_Count t) totals)"

definition rankOrder :: "string \<times> int \<Rightarrow> int \<times> string" where
  "rankOrder = (\<lambda>(name, n). (- n, name))"

definition edgeOrder :: "Transition \<Rightarrow> int \<times> string \<times> string" where
  "edgeOrder e = (- tr_Count e, tr_From e, tr_To e)"

text \<open>\<open>range\<close> over a string visits the first byte of each rune; a zero byte is a rune of its own.\<close>

definition splitTransitionKey :: "string \<Rightarrow> string \<times> string" where
  "splitTransitionKey key =
     (case strings_IndexByte key NUL of None \<Rightarrow> (key, []) | Some i \<Rightarrow> (take i key, drop (Suc i) key))"

definition foldNode :: "string set \<Rightarrow> string \<Rightarrow> string" where
  "foldNode kept name = (if name \<in> kept then name else OtherNode)"

definition edgeKey :: "string \<Rightarrow> string \<Rightarrow> string" where
  "edgeKey from to = from @ [NUL] @ to"

definition foldedKey :: "string set \<Rightarrow> Transition \<Rightarrow> string" where
  "foldedKey kept t = edgeKey (foldNode kept (tr_From t)) (foldNode kept (tr_To t))"

definition isHidden :: "string set \<Rightarrow> Transition \<Rightarrow> bool" where
  "isHidden kept t \<longleftrightarrow> tr_From t \<notin> kept \<or> tr_To t \<notin> kept"

definition countEdges :: "string set \<Rightarrow> Transition list \<Rightarrow> (string \<times> int) list" where
  "countEdges kept ts = fold (\<lambda>t. addTo (foldedKey kept t) (tr_Count t)) ts []"

definition edgeHidden :: "string set \<Rightarrow> Transition list \<Rightarrow> (string \<times> bool) list" where
  "edgeHidden kept ts = fold (\<lambda>t. alter (foldedKey kept t) False (\<lambda>b. b \<or> isHidden kept t)) ts []"

definition hiddenByFolding :: "string set \<Rightarrow> Transition list \<Rightarrow> int" where
  "hiddenByFolding kept ts = fold (\<lambda>t n. if isHidden kept t then saturatingAdd n (tr_Count t) else n) ts 0"

definition edgeOf :: "string \<times> int \<Rightarrow> Transition" where
  "edgeOf = (\<lambda>(key, n). let (from, to) = splitTransitionKey key in \<lparr>tr_From = from, tr_To = to, tr_Count = n\<rparr>)"

definition hiddenByCut :: "(string \<times> bool) list \<Rightarrow> Transition list \<Rightarrow> int \<Rightarrow> int" where
  "hiddenByCut hidden es n0 =
     fold (\<lambda>e n. if map_of hidden (edgeKey (tr_From e) (tr_To e)) = Some True then n else saturatingAdd n (tr_Count e)) es n0"

definition readTotal :: "(string \<times> int) list \<Rightarrow> string \<Rightarrow> int" where
  "readTotal totals k = (case map_of totals k of None \<Rightarrow> 0 | Some n \<Rightarrow> n)"

definition visibleNodes :: "(string \<times> int) list \<Rightarrow> string list \<Rightarrow> GraphNode list" where
  "visibleNodes totals names =
     map (\<lambda>name. \<lparr>gn_ID = name, gn_Count = readTotal totals name\<rparr>) (filter (\<lambda>name. readTotal totals name > 0) names)"

definition clampLimit :: "int \<Rightarrow> int \<Rightarrow> int \<Rightarrow> int \<Rightarrow> nat" where
  "clampLimit least usual hard n = nat (min hard (if n < least then usual else n))"

definition BuildGraph :: "Transition list \<Rightarrow> int \<Rightarrow> int \<Rightarrow> GraphSnapshot" where
  "BuildGraph transitions maxNodes0 maxEdges0 =
     (let maxNodes = clampLimit 2 DefaultMaxNodes HardMaxNodes maxNodes0;
          maxEdges = clampLimit 1 DefaultMaxEdges HardMaxEdges maxEdges0;
          valid = filter validTransition transitions;
          dropped = length (filter (\<lambda>t. \<not> validTransition t) transitions);
          ranked = map fst (sort_key rankOrder (fold addEnds valid []));
          needsOther = length ranked > maxNodes;
          keepCount = (if needsOther then maxNodes - 1 else length ranked);
          kept = set (take keepCount ranked);
          allEdges = sort_key edgeOrder (map edgeOf (countEdges kept valid));
          edges = take maxEdges allEdges;
          visible = fold addEnds edges []
      in \<lparr>gs_Nodes = visibleNodes visible (take keepCount ranked) @
             (if needsOther then visibleNodes visible [OtherNode] else []),
          gs_Edges = edges,
          gs_InputEdges = length transitions,
          gs_HiddenCount = hiddenByCut (edgeHidden kept valid) (drop maxEdges allEdges) (hiddenByFolding kept valid),
          gs_Dropped = wrap64 (int dropped),
          gs_Truncated = needsOther \<or> length allEdges > maxEdges,
          gs_Partial = (dropped > 0)\<rparr>)"

subsection \<open>Snapshots\<close>

record FunnelStepSnapshot =
  fs_ID :: string
  fs_Route :: string
  fs_Sessions :: int
  fs_Requests :: int
  fs_DropOff :: int
  fs_Retries :: int
  fs_Status4xx :: int
  fs_Status5xx :: int
  fs_RequestP95 :: duration
  fs_FromStartBP :: int
  fs_FromPreviousBP :: int

record FunnelSnapshot =
  fu_ID :: string
  fu_Scenario :: string
  fu_Mode :: string
  fu_Within :: string
  fu_Entered :: int
  fu_Completed :: int
  fu_Expired :: int
  fu_ConversionBP :: int
  fu_Steps :: "FunnelStepSnapshot list"

record FlowSnapshot =
  fl_Status :: string
  fl_Reason :: string
  fl_Partial :: bool
  fl_SessionDropped :: int
  fl_TimingMissing :: int
  fl_Funnels :: "FunnelSnapshot list"
  fl_Graph :: GraphSnapshot

definition dropOff :: "stepStat list \<Rightarrow> nat \<Rightarrow> int" where
  "dropOff steps i =
     (if Suc i < length steps
      then let d = wrap64 (ps_sessions (steps ! i) - ps_sessions (steps ! Suc i)) in if d < 0 then 0 else d
      else 0)"

definition stepSnapshot :: "compiledFunnel \<Rightarrow> nat \<Rightarrow> FunnelStepSnapshot" where
  "stepSnapshot c i =
     (let stat = cf_steps c ! i;
          def = fd_Steps (cf_definition c) ! i;
          previous = (if i > 0 then ps_sessions (cf_steps c ! (i - 1)) else cf_entered c)
      in \<lparr>fs_ID = sd_ID def, fs_Route = sd_Route def, fs_Sessions = ps_sessions stat, fs_Requests = ps_requests stat,
          fs_DropOff = dropOff (cf_steps c) i, fs_Retries = ps_retries stat,
          fs_Status4xx = ps_status4xx stat, fs_Status5xx = ps_status5xx stat,
          fs_RequestP95 = stepPercentile stat 95,
          fs_FromStartBP = basisPoints (ps_sessions stat) (cf_entered c),
          fs_FromPreviousBP = basisPoints (ps_sessions stat) previous\<rparr>)"

definition funnelSnapshot :: "compiledFunnel \<Rightarrow> FunnelSnapshot" where
  "funnelSnapshot c =
     \<lparr>fu_ID = fd_ID (cf_definition c), fu_Scenario = fd_Scenario (cf_definition c), fu_Mode = fd_Mode (cf_definition c),
      fu_Within = fd_Within (cf_definition c), fu_Entered = cf_entered c, fu_Completed = cf_completed c,
      fu_Expired = cf_expired c, fu_ConversionBP = basisPoints (cf_completed c) (cf_entered c),
      fu_Steps = map (stepSnapshot c) [0..<length (cf_steps c)]\<rparr>"

text \<open>The snapshot also expires sessions that fell silent, so it returns the changed aggregator.\<close>

definition emptyGraph :: GraphSnapshot where
  "emptyGraph = \<lparr>gs_Nodes = [], gs_Edges = [], gs_InputEdges = 0, gs_HiddenCount = 0, gs_Dropped = 0,
     gs_Truncated = False, gs_Partial = False\<rparr>"

definition Snapshot_flow :: "Transition list \<Rightarrow> Flow_Aggregator \<Rightarrow> FlowSnapshot \<times> Flow_Aggregator" where
  "Snapshot_flow transitions a =
     (if \<not> va_enabled a
      then (\<lparr>fl_Status = ''disabled'', fl_Reason = ''flow-viz-off'', fl_Partial = False, fl_SessionDropped = 0,
             fl_TimingMissing = 0, fl_Funnels = [], fl_Graph = emptyGraph\<rparr>, a)
      else
        let a1 = expireSilentSessions a;
            graph = BuildGraph transitions (va_maxNodes a1) (va_maxEdges a1);
            partial = (va_sessionDropped a1 > 0 \<or> va_timingMissing a1 > 0 \<or> gs_Partial graph)
        in (\<lparr>fl_Status = (if partial then ''partial'' else ''ready''),
             fl_Reason = (if partial then ''bounded-or-incomplete-flow-data'' else []), fl_Partial = partial,
             fl_SessionDropped = va_sessionDropped a1, fl_TimingMissing = va_timingMissing a1,
             fl_Funnels = map funnelSnapshot (va_funnels a1), fl_Graph = graph\<rparr>, a1))"

text \<open>Pages the examples use.\<close>

lemma runes_ascii: "list_all (\<lambda>c. byte c < 128) s \<Longrightarrow> runes s = map byte s"
  by (simp add: runes_def decode_ascii)

lemma example_routes:
  "routePattern ''GET /a''" "routePattern ''GET /b''" "routePattern ''GET /x''"
  by (simp_all add: routePattern_def upperByte_def Let_def runes_ascii byte_def routeRune_def less_eq_char_def)

subsection \<open>Assignments to a map\<close>

lemma map_of_assign: "map_of (assign k v xs) = (map_of xs)(k \<mapsto> v)"
  by (auto simp: assign_def map_of_alter fun_eq_iff)

lemma set_assign: "(k', w) \<in> set (assign k v xs) \<Longrightarrow> (k', w) \<in> set xs \<or> k' = k \<and> w = v"
  unfolding assign_def by (drule set_alter) auto

lemma distinct_assign: "distinct (map fst xs) \<Longrightarrow> distinct (map fst (assign k v xs))"
  by (simp add: assign_def distinct_alter)

lemma length_assign: "length (assign k v xs) = (if map_of xs k = None then Suc (length xs) else length xs)"
  by (simp add: assign_def length_alter map_of_eq_None_iff)

lemma assign_same: "map_of xs k = Some v \<Longrightarrow> assign k v xs = xs"
  unfolding assign_def by (induction xs) (auto split: if_splits)

end
