(* ===== verification/Flow_Latency.thy ===== *)
theory Flow_Latency
  imports Flow_Viz
begin

text \<open>
  The quarter-octave histogram behind the percentiles of funnel steps, and how close the reported
  percentile is to the exact one.
\<close>

subsection \<open>The latency histogram\<close>

lemma bits_Len_pos: "0 < n \<Longrightarrow> 0 < bits_Len n"
  unfolding not_le [symmetric] bits_Len_le_iff by simp

lemma bits_Len_bounds: "0 < n \<Longrightarrow> 2 ^ (bits_Len n - 1) \<le> n \<and> n < 2 ^ bits_Len n"
proof -
  assume "0 < n"
  then have "\<not> bits_Len n \<le> bits_Len n - 1" using bits_Len_pos [of n] by linarith
  then have "\<not> n < 2 ^ (bits_Len n - 1)" by (simp only: bits_Len_le_iff not_False_eq_True)
  then show ?thesis using bits_Len_le_iff [of n "bits_Len n"] by simp
qed

text \<open>The exponent and the quarter of a positive latency.\<close>

definition octave :: "nat \<Rightarrow> nat" where
  "octave n = bits_Len n - 1"

definition quarter :: "nat \<Rightarrow> nat" where
  "quarter n = (n - 2 ^ octave n) * 4 div 2 ^ octave n"

lemma octave_bounds: "0 < n \<Longrightarrow> 2 ^ octave n \<le> n \<and> n < 2 * 2 ^ octave n"
  using bits_Len_bounds [of n] bits_Len_pos [of n] by (cases "bits_Len n") (auto simp: octave_def)

lemma quarter_le: "0 < n \<Longrightarrow> quarter n \<le> 3"
proof -
  assume "0 < n"
  then have "n - 2 ^ octave n < 2 ^ octave n" using octave_bounds [of n] by linarith
  then have "quarter n < 4" by (simp add: quarter_def div_less_iff_less_mult)
  then show ?thesis by simp
qed

lemma octave_le: "0 < n \<Longrightarrow> n < 2 ^ 63 \<Longrightarrow> octave n \<le> 62"
  using bits_Len_le_iff [of n 63] by (simp add: octave_def)

lemma octave_small: "0 < n \<Longrightarrow> n < 2 ^ 62 \<Longrightarrow> octave n < 62"
  using bits_Len_le_iff [of n 62] bits_Len_pos [of n] by (simp add: octave_def)

lemma octave_mono: "0 < m \<Longrightarrow> m \<le> n \<Longrightarrow> octave m \<le> octave n"
  using bits_Len_le_iff [of m "bits_Len n"] bits_Len_le_iff [of n "bits_Len n"] by (simp add: octave_def diff_le_mono)

lemma latencyBucket_pos:
  assumes "0 < x" and "in_int64 x"
  shows "latencyBucket x = 1 + octave (nat x) * 4 + quarter (nat x)"
proof -
  let ?n = "nat x"
  have n: "0 < ?n" "?n < 2 ^ 63" using assms by (auto simp: go_defs)
  have "(2::nat) ^ octave ?n \<le> 2 ^ 62" using octave_le [OF n] by (rule power_increasing) simp
  then have "?n - 2 ^ octave ?n < 2 ^ 62" using octave_bounds [OF n(1)] by linarith
  then have "(?n - 2 ^ octave ?n) * 4 mod 2 ^ 64 = (?n - 2 ^ octave ?n) * 4" by (intro mod_less) simp
  then have "latencyBucket x = (let index = 1 + octave ?n * 4 + min (quarter ?n) 3 in if index \<ge> 256 then 256 - 1 else index)"
    using assms(1) unfolding latencyBucket_def Let_def octave_def [symmetric] by (simp only: quarter_def not_le [THEN iffD2] if_False)
  then show ?thesis using quarter_le [OF n(1)] octave_le [OF n] by (simp add: Let_def)
qed

lemma bucket_cap: "(if p then 0 else if i \<ge> 256 then 256 - 1 else i) < (256 :: nat)"
  by simp

lemma latencyBucket_lt: "latencyBucket x < latencyBuckets"
  unfolding latencyBucket_def Let_def by (rule bucket_cap)

lemma quarter_mono: "0 < m \<Longrightarrow> m \<le> n \<Longrightarrow> octave m = octave n \<Longrightarrow> quarter m \<le> quarter n"
  by (simp add: quarter_def div_le_mono)

lemma latencyBucket_mono:
  assumes "0 \<le> x" and "x \<le> y" and "in_int64 y"
  shows "latencyBucket x \<le> latencyBucket y"
proof (cases "x = 0")
  case False
  then have p: "0 < nat x" "nat x \<le> nat y" "0 < x" "0 < y" "in_int64 x" using assms by (auto simp: go_defs)
  have "octave (nat x) = octave (nat y) \<or> octave (nat x) < octave (nat y)"
    using octave_mono [OF p(1,2)] by linarith
  then show ?thesis
    using quarter_mono [OF p(1,2)] quarter_le [OF p(1)] p(3-5) assms(3)
    by (auto simp: latencyBucket_pos)
qed (simp add: latencyBucket_def)

interpretation steps: histogram latencyBuckets latencyBucket
  by unfold_locales (auto intro: latencyBucket_lt latencyBucket_mono)

lemma latencyBucketUpper_pos:
  assumes "0 < x" and "x < 2 ^ 62"
  shows "x \<le> latencyBucketUpper (latencyBucket x) \<and> 4 * latencyBucketUpper (latencyBucket x) \<le> 5 * x"
proof -
  let ?n = "nat x"
  have n: "0 < ?n" "?n < 2 ^ 62" and in64: "in_int64 x" using assms by (auto simp: go_defs)
  define b where "b = (2::nat) ^ octave ?n"
  define s where "s = quarter ?n"
  have s: "s \<le> 3" and o: "octave ?n < 62" and b: "b \<le> ?n" "0 < b"
    using quarter_le octave_small n octave_bounds [OF n(1)] by (simp_all add: s_def b_def)
  have u: "b * (s + 1) < 2 ^ 64" "b + b * (s + 1) div 4 < 2 ^ 63"
  proof -
    have le: "b * (s + 1) \<le> b * 4" using s by (intro mult_le_mono2) simp
    moreover have small: "b < 2 ^ 62" using b n by linarith
    ultimately have "b * (s + 1) < 2 ^ 62 * 4" by linarith
    then show "b * (s + 1) < 2 ^ 64" by simp
    have "b * (s + 1) div 4 \<le> b" using div_le_mono [OF le, of 4] by simp
    with small have "b + b * (s + 1) div 4 < 2 ^ 62 + 2 ^ 62" by linarith
    then show "b + b * (s + 1) div 4 < 2 ^ 63" by simp
  qed
  have upper: "latencyBucketUpper (latencyBucket x) = int (b + b * (s + 1) div 4)"
  proof -
    have i: "(octave ?n * 4 + s) div 4 = octave ?n" "(octave ?n * 4 + s) mod 4 = s" using s by simp_all
    have w: "wrap64 (int (b + b * (s + 1) div 4)) = int (b + b * (s + 1) div 4)"
      using u(2) by (intro wrap64_id) (simp add: go_defs)
    have m: "b * (s + 1) mod 2 ^ 64 = b * (s + 1)" "(b + b * (s + 1) div 4) mod 2 ^ 64 = b + b * (s + 1) div 4"
      using u by (auto intro!: mod_less)
    have "latencyBucket x = Suc (octave ?n * 4 + s)" by (simp add: latencyBucket_pos [OF assms(1) in64] s_def)
    then have "latencyBucketUpper (latencyBucket x) =
        wrap64 (int ((b + b * (s + 1) mod 2 ^ 64 div 4) mod 2 ^ 64))"
      using o unfolding latencyBucketUpper_def Let_def by (simp only: i diff_Suc_1 b_def not_le [THEN iffD2] if_False nat.simps)
    then show ?thesis by (simp only: m w)
  qed
  have q: "s = (?n - b) * 4 div b" by (simp add: s_def b_def quarter_def)
  have "s * b \<le> (?n - b) * 4" "(?n - b) * 4 < (s + 1) * b"
    unfolding q using b(2) by (simp_all add: div_times_less_eq_dividend dividend_less_div_times)
  then have lo: "?n \<le> b + b * (s + 1) div 4" and hi: "4 * (b + b * (s + 1) div 4) \<le> 5 * ?n"
    using b by (simp_all add: algebra_simps)
  then show ?thesis using assms(1) unfolding upper by linarith
qed

lemma latencyBucketUpper_top:
  assumes "2 ^ 62 \<le> x" and "in_int64 x"
  shows "latencyBucketUpper (latencyBucket x) = int64_max"
proof -
  have n: "0 < nat x" "0 < x" "2 ^ 62 \<le> nat x" using assms(1) by auto
  then have "62 \<le> octave (nat x)" using octave_bounds [OF n(1)]
    by (metis bits_Len_le_iff bits_Len_pos Suc_pred' not_less_eq_eq octave_def not_le)
  then have "(octave (nat x) * 4 + quarter (nat x)) div 4 \<ge> 62" using quarter_le [OF n(1)] by linarith
  then show ?thesis by (simp add: latencyBucket_pos [OF n(2) assms(2)] latencyBucketUpper_def Let_def)
qed

subsection \<open>Step percentiles\<close>

definition stepOf :: "(Event \<times> bool) list \<Rightarrow> stepStat" where
  "stepOf reqs = fold (\<lambda>(event, retry). acceptStep event retry) reqs zeroStep"

definition latencies :: "(Event \<times> bool) list \<Rightarrow> int list" where
  "latencies reqs = filter (\<lambda>ns. 0 \<le> ns) (map (\<lambda>(event, _). ev_Latency event) reqs)"

lemma acceptStep_latency:
  "ps_latencyN (acceptStep event retry step) =
     (if 0 \<le> ev_Latency event then wrap64 (ps_latencyN step + 1) else ps_latencyN step)"
  "ps_maxNS (acceptStep event retry step) =
     (if 0 \<le> ev_Latency event then max (ps_maxNS step) (ev_Latency event) else ps_maxNS step)"
  "ps_buckets (acceptStep event retry step) =
     (if 0 \<le> ev_Latency event then countIn (latencyBucket (ev_Latency event)) (ps_buckets step) else ps_buckets step)"
  by (simp_all add: acceptStep_def Let_def max_def)

lemma stepOf_latency:
  assumes "int (length reqs) \<le> int64_max"
  shows "ps_latencyN (stepOf reqs) = int (length (latencies reqs)) \<and> ps_maxNS (stepOf reqs) = fold max (latencies reqs) 0 \<and>
    ps_buckets (stepOf reqs) = counts_of latencyBuckets latencyBucket (latencies reqs)"
  using assms
proof (induction reqs rule: rev_induct)
  case Nil
  show ?case by (simp add: stepOf_def latencies_def zeroStep_def) (rule counts_of_Nil [symmetric])
next
  case (snoc r reqs)
  obtain event retry where r: "r = (event, retry)" by force
  have le: "length (latencies reqs) \<le> length reqs"
    unfolding latencies_def by (rule order_trans [OF length_filter_le]) simp
  have w: "wrap64 (int (length (latencies reqs)) + 1) = int (length (latencies reqs)) + 1"
    using snoc.prems le by (intro wrap64_id) (simp add: go_defs)
  have b: "countIn (latencyBucket x) (counts_of latencyBuckets latencyBucket (latencies reqs)) =
      counts_of latencyBuckets latencyBucket (latencies reqs @ [x])" for x
    using snoc.prems le by (intro countIn_counts latencyBucket_lt) simp
  have step: "stepOf (reqs @ [r]) = acceptStep event retry (stepOf reqs)" by (simp add: stepOf_def r)
  have lats: "latencies (reqs @ [r]) = latencies reqs @ (if 0 \<le> ev_Latency event then [ev_Latency event] else [])"
    by (simp add: latencies_def r)
  from snoc show ?case by (simp add: step lats acceptStep_latency w b max.commute)
qed

text \<open>
  The 95th percentile shown for a funnel step is at most a quarter above the exact one: for any
  requests accepted at the step, the nearest-rank 95th percentile of their non-negative latencies is
  at most the reported value, which never exceeds the largest latency and is at most five quarters of
  the exact percentile as long as that lies below \<open>2^62\<close> nanoseconds. Without a latency zero is shown.
\<close>

lemma step_percentile_tight:
  assumes "95 * int (length reqs) + 99 \<le> int64_max" and "\<forall>ns \<in> set (latencies reqs). in_int64 ns"
    and "q = percentile95 (latencies reqs)" and "p = stepPercentile (stepOf reqs) 95"
  shows "if latencies reqs = [] then p = 0
         else q \<le> p \<and> p \<le> ps_maxNS (stepOf reqs) \<and> (q < 2 ^ 62 \<longrightarrow> 4 * p \<le> 5 * q)"
proof (cases "latencies reqs = []")
  case True
  with assms stepOf_latency [of reqs] show ?thesis by (simp add: stepPercentile_def)
next
  case False
  let ?xs = "latencies reqs"
  have le: "length ?xs \<le> length reqs"
    unfolding latencies_def by (rule order_trans [OF length_filter_le]) simp
  have n: "int (length reqs) \<le> int64_max" "int (length ?xs) \<le> int64_max" "95 * int (length ?xs) + 99 \<le> int64_max"
    using assms(1) le by linarith+
  have pos: "\<forall>x \<in> set ?xs. 0 \<le> x \<and> in_int64 x" using assms(2) by (simp add: latencies_def)
  have mem: "q \<in> set ?xs" unfolding assms(3) by (rule steps.percentile_mem [OF False])
  then have q: "0 \<le> q" "in_int64 q" "q \<le> ps_maxNS (stepOf reqs)"
    using pos stepOf_latency [OF n(1)] fold_max_ge [where zs = ?xs and a = 0] by auto
  have "stepPercentile (stepOf reqs) 95 =
      (let upper = latencyBucketUpper (latencyBucket q) in if upper > ps_maxNS (stepOf reqs) then ps_maxNS (stepOf reqs) else upper)"
    using stepOf_latency [OF n(1)] False target_is_rank [OF n(3)] steps.rank_bucket [OF False pos n(2)] assms(3)
    by (simp add: stepPercentile_def)
  then have p: "p = min (latencyBucketUpper (latencyBucket q)) (ps_maxNS (stepOf reqs))"
    by (simp add: assms(4) Let_def min_def)
  have "q \<le> latencyBucketUpper (latencyBucket q) \<and> (q < 2 ^ 62 \<longrightarrow> 4 * latencyBucketUpper (latencyBucket q) \<le> 5 * q)"
  proof (cases "q < 2 ^ 62")
    case True
    then show ?thesis using latencyBucketUpper_pos [of q] q(1)
      by (cases "q = 0") (simp_all add: latencyBucket_def latencyBucketUpper_def)
  next
    case False
    then show ?thesis using latencyBucketUpper_top [of q] q by (simp add: go_defs)
  qed
  then show ?thesis using q p by (auto simp: min_def False)
qed

definition exampleRequests :: "(Event \<times> bool) list" where
  "exampleRequests = map (\<lambda>ns. (\<lparr>ev_Session = ''u1'', ev_Scenario = ''shop'', ev_Method = ''GET'', ev_Route = ''/a'', ev_Status = 200,
     ev_Latency = ns, ev_At = 0\<rparr>, False)) [700, - 5, 1300]"

end
