(* ===== verification/Funnel_Theorems.thy ===== *)
theory Funnel_Theorems
  imports Flow_Viz "HOL-Library.Sublist"
begin

text \<open>
  Funnels: the counters of a compiled funnel are at all times a summary of the session table, and
  the session table is what the order of a session's requests says.
\<close>

subsection \<open>Counting sessions\<close>

definition cnt :: "(sessionState \<Rightarrow> bool) \<Rightarrow> (string \<times> sessionState) list \<Rightarrow> int" where
  "cnt P ss = sum_list (map ((\<lambda>st. if P st then 1 else 0) \<circ> snd) ss)"

lemma cnt_assign:
  assumes "distinct (map fst ss)"
  shows "cnt P (assign k v ss) =
    cnt P ss + (if P v then 1 else 0) - (case map_of ss k of None \<Rightarrow> 0 | Some w \<Rightarrow> if P w then 1 else 0)"
proof -
  note s = sum_alter [OF assms, of "\<lambda>st. if P st then 1 else 0" k v "\<lambda>_. v"]
  show ?thesis unfolding cnt_def assign_def s by (simp split: option.split)
qed

lemma cnt_nonneg: "0 \<le> cnt P ss"
  unfolding cnt_def by (intro sum_list_nonneg) auto

lemma cnt_le: "cnt P ss \<le> int (length ss)"
  unfolding cnt_def by (induction ss) auto

lemma cnt_mono: "(\<And>k st. (k, st) \<in> set ss \<Longrightarrow> P st \<Longrightarrow> Q st) \<Longrightarrow> cnt P ss \<le> cnt Q ss"
  unfolding cnt_def by (intro sum_list_mono) auto

lemma cnt_cong: "(\<And>k st. (k, st) \<in> set ss \<Longrightarrow> P st = Q st) \<Longrightarrow> cnt P ss = cnt Q ss"
  unfolding cnt_def by (intro arg_cong [of _ _ sum_list] map_cong) auto

lemma cnt_disjoint: "(\<And>k st. (k, st) \<in> set ss \<Longrightarrow> \<not> (P st \<and> Q st)) \<Longrightarrow> cnt P ss + cnt Q ss = cnt (\<lambda>st. P st \<or> Q st) ss"
  unfolding cnt_def by (induction ss) fastforce+

lemma setSession_updFunnel: "setSession key st (updFunnel i f a) = updFunnel i f (setSession key st a)"
  by (simp add: updFunnel_def setSession_def)

subsection \<open>The invariant\<close>

definition stateOK :: "compiledFunnel \<Rightarrow> sessionState \<Rightarrow> bool" where
  "stateOK c st \<longleftrightarrow> 1 \<le> ss_next st \<and> ss_next st \<le> length (cf_steps c) \<and> (ss_completed st \<longleftrightarrow> ss_next st = length (cf_steps c))"

definition funnelOK :: "compiledFunnel \<Rightarrow> bool" where
  "funnelOK c \<longleftrightarrow> 2 \<le> length (cf_steps c) \<and> length (cf_steps c) = length (fd_Steps (cf_definition c)) \<and>
     NUL \<notin> set (fd_ID (cf_definition c)) \<and> distinct (map sd_Route (fd_Steps (cf_definition c))) \<and>
     (\<forall>page j. map_of (cf_routeIndex c) page = Some j \<longleftrightarrow>
        j < length (cf_steps c) \<and> sd_Route (fd_Steps (cf_definition c) ! j) = page)"

definition counted :: "(string \<times> sessionState) list \<Rightarrow> nat \<Rightarrow> compiledFunnel \<Rightarrow> bool" where
  "counted ss i c \<longleftrightarrow>
     cf_entered c = cnt (\<lambda>st. ss_funnel st = i) ss \<and>
     cf_completed c = cnt (\<lambda>st. ss_funnel st = i \<and> ss_completed st) ss \<and>
     cf_expired c = cnt (\<lambda>st. ss_funnel st = i \<and> ss_expired st \<and> \<not> ss_completed st) ss \<and>
     (\<forall>j < length (cf_steps c). ps_sessions (cf_steps c ! j) = cnt (\<lambda>st. ss_funnel st = i \<and> j < ss_next st) ss \<and>
        ps_requests (cf_steps c ! j) = wrap64 (ps_sessions (cf_steps c ! j) + ps_retries (cf_steps c ! j)))"

definition sessionOK :: "Flow_Aggregator \<Rightarrow> string \<Rightarrow> sessionState \<Rightarrow> bool" where
  "sessionOK a k st \<longleftrightarrow> ss_funnel st < length (va_funnels a) \<and> stateOK (va_funnels a ! ss_funnel st) st \<and>
     (\<exists>s. k = funnelKey (cf_definition (va_funnels a ! ss_funnel st)) s)"

definition flow_inv :: "Flow_Aggregator \<Rightarrow> bool" where
  "flow_inv a \<longleftrightarrow> va_maxSessions a \<le> HardMaxSessions \<and> int (length (va_sessions a)) \<le> max 0 (va_maxSessions a) \<and>
     distinct (map fst (va_sessions a)) \<and> distinct (map (\<lambda>c. fd_ID (cf_definition c)) (va_funnels a)) \<and>
     (\<forall>(k, st) \<in> set (va_sessions a). sessionOK a k st) \<and>
     (\<forall>i < length (va_funnels a). funnelOK (va_funnels a ! i) \<and> counted (va_sessions a) i (va_funnels a ! i))"

text \<open>What no operation changes of a funnel.\<close>

definition sameShape :: "compiledFunnel \<Rightarrow> compiledFunnel \<Rightarrow> bool" where
  "sameShape c c' \<longleftrightarrow> cf_definition c' = cf_definition c \<and> cf_within c' = cf_within c \<and>
     cf_routeIndex c' = cf_routeIndex c \<and> length (cf_steps c') = length (cf_steps c)"

lemma sameShape_OK: "sameShape c c' \<Longrightarrow> funnelOK c' = funnelOK c" "sameShape c c' \<Longrightarrow> stateOK c' st = stateOK c st"
  by (simp_all add: sameShape_def funnelOK_def stateOK_def)

lemma funnelKey_inj:
  assumes "funnelKey d s = funnelKey d' s'" and "NUL \<notin> set (fd_ID d)" and "NUL \<notin> set (fd_ID d')"
  shows "fd_ID d = fd_ID d' \<and> s = s'"
proof -
  have "takeWhile (\<lambda>c. c \<noteq> NUL) (x @ [NUL] @ y) = x" if "NUL \<notin> set x" for x y
    using that by (induction x) auto
  from this [of "fd_ID d" s] this [of "fd_ID d'" s'] assms have "fd_ID d = fd_ID d'"
    unfolding funnelKey_def by metis
  with assms(1) show ?thesis by (simp add: funnelKey_def)
qed

text \<open>A session's key determines its funnel.\<close>

lemma key_funnel:
  assumes inv: "flow_inv a" and i: "i < length (va_funnels a)"
    and st: "map_of (va_sessions a) (funnelKey (cf_definition (va_funnels a ! i)) s) = Some st"
  shows "ss_funnel st = i"
proof -
  let ?j = "ss_funnel st"
  from inv st obtain s' where j: "?j < length (va_funnels a)"
    and k: "funnelKey (cf_definition (va_funnels a ! i)) s = funnelKey (cf_definition (va_funnels a ! ?j)) s'"
    by (fastforce simp: flow_inv_def sessionOK_def dest: map_of_SomeD)
  have "fd_ID (cf_definition (va_funnels a ! i)) = fd_ID (cf_definition (va_funnels a ! ?j))"
    using funnelKey_inj [OF k] inv i j by (simp add: flow_inv_def funnelOK_def)
  then have "map (\<lambda>c. fd_ID (cf_definition c)) (va_funnels a) ! i = map (\<lambda>c. fd_ID (cf_definition c)) (va_funnels a) ! ?j"
    using i j by simp
  then show ?thesis using inv i j unfolding flow_inv_def by (simp only: nth_eq_iff_index_eq length_map)
qed

lemma flow_inv_update:
  assumes inv: "flow_inv a" and i: "i < length (va_funnels a)"
    and key: "key = funnelKey (cf_definition (va_funnels a ! i)) s"
    and room: "map_of (va_sessions a) key = None \<Longrightarrow> int (length (va_sessions a)) < va_maxSessions a"
    and st: "ss_funnel st = i" "stateOK (va_funnels a ! i) st"
    and shape: "sameShape (va_funnels a ! i) (f (va_funnels a ! i))"
    and counts: "counted (assign key st (va_sessions a)) i (f (va_funnels a ! i))"
  shows "flow_inv (updFunnel i f (setSession key st a))"
proof -
  let ?fs = "(va_funnels a)[i := f (va_funnels a ! i)]" and ?ss = "assign key st (va_sessions a)"
  have old: "ss_funnel w = i" if "map_of (va_sessions a) key = Some w" for w
    using key_funnel [OF inv i] that key by simp
  have d: "distinct (map fst (va_sessions a))" using inv by (simp add: flow_inv_def)
  have at_i: "cf_definition (?fs ! j) = cf_definition (va_funnels a ! j)" "stateOK (?fs ! j) w = stateOK (va_funnels a ! j) w"
    "funnelOK (?fs ! j) = funnelOK (va_funnels a ! j)" if "j < length (va_funnels a)" for j w
    using shape that i sameShape_OK [OF shape] by (auto simp: nth_list_update sameShape_def)
  have "counted ?ss j (?fs ! j)" if j: "j < length (va_funnels a)" for j
  proof (cases "j = i")
    case False
    have "cnt (\<lambda>w. ss_funnel w = j \<and> P w) ?ss = cnt (\<lambda>w. ss_funnel w = j \<and> P w) (va_sessions a)" for P
      using False old st by (auto simp: cnt_assign [OF d] split: option.split)
    note this [of "\<lambda>_. True"] this
    then show ?thesis using inv j False by (simp add: flow_inv_def counted_def nth_list_update)
  qed (use counts i in simp)
  moreover have "sessionOK (updFunnel i f (setSession key st a)) k w" if "(k, w) \<in> set ?ss" for k w
    using set_assign [OF that] inv i st key at_i
    by (fastforce simp: flow_inv_def sessionOK_def updFunnel_def setSession_def)
  moreover have "map (\<lambda>c. fd_ID (cf_definition c)) ?fs = map (\<lambda>c. fd_ID (cf_definition c)) (va_funnels a)"
    using at_i by (intro nth_equalityI) simp_all
  ultimately show ?thesis
    using inv room d at_i by (auto simp: flow_inv_def updFunnel_def setSession_def length_assign distinct_assign)
qed

subsection \<open>Preservation\<close>

lemma acceptStep_counts:
  "ps_sessions (acceptStep event retry step) = (if retry then ps_sessions step else wrap64 (ps_sessions step + 1))"
  "ps_requests (acceptStep event retry step) = wrap64 (ps_requests step + 1)"
  "ps_retries (acceptStep event retry step) = (if retry then wrap64 (ps_retries step + 1) else ps_retries step)"
  by (simp_all add: acceptStep_def Let_def)

lemma wrap64_add_right: "wrap64 (a + wrap64 b) = wrap64 (a + b)"
  using wrap64_add [of b a] by (simp add: add.commute)

lemma accept_balanced:
  assumes "ps_requests step = wrap64 (ps_sessions step + ps_retries step)"
  shows "ps_requests (acceptStep event retry step) =
    wrap64 (ps_sessions (acceptStep event retry step) + ps_retries (acceptStep event retry step))"
  using assms by (simp add: acceptStep_counts wrap64_add wrap64_add_right ac_simps)

lemma cnt_room:
  assumes "flow_inv a"
  shows "wrap64 (cnt P (va_sessions a) + 1) = cnt P (va_sessions a) + 1"
proof (rule wrap64_id)
  have "cnt P (va_sessions a) \<le> 10000" "0 \<le> cnt P (va_sessions a)"
    using assms cnt_le [of P "va_sessions a"] cnt_nonneg [of P "va_sessions a"] unfolding flow_inv_def by linarith+
  then show "in_int64 (cnt P (va_sessions a) + 1)" by (simp add: go_defs)
qed

lemma nth_updStep: "j < length (cf_steps c) \<Longrightarrow> cf_steps (updStep j0 f c) ! j = (if j = j0 then f (cf_steps c ! j) else cf_steps c ! j)"
  by (auto simp: updStep_def)

lemma updStep_fields [simp]:
  "cf_definition (updStep j f c) = cf_definition c" "cf_within (updStep j f c) = cf_within c"
  "cf_routeIndex (updStep j f c) = cf_routeIndex c" "length (cf_steps (updStep j f c)) = length (cf_steps c)"
  "cf_entered (updStep j f c) = cf_entered c" "cf_completed (updStep j f c) = cf_completed c"
  "cf_expired (updStep j f c) = cf_expired c"
  by (simp_all add: updStep_def)

lemma flow_inv_missTiming [simp]: "flow_inv (missTiming b a) = flow_inv a"
  by (simp add: missTiming_def flow_inv_def sessionOK_def)

lemma missTiming_fields [simp]:
  "va_funnels (missTiming b a) = va_funnels a" "va_sessions (missTiming b a) = va_sessions a"
  "va_maxSessions (missTiming b a) = va_maxSessions a" "va_byScenario (missTiming b a) = va_byScenario a"
  "va_enabled (missTiming b a) = va_enabled a" "va_sessionDropped (missTiming b a) = va_sessionDropped a"
  by (simp_all add: missTiming_def)

lemma flow_inv_enter:
  assumes inv: "flow_inv a" and i: "i < length (va_funnels a)"
    and key: "key = funnelKey (cf_definition (va_funnels a ! i)) s" and none: "map_of (va_sessions a) key = None"
  shows "flow_inv (enterFunnel i key event a)"
proof (cases "int (length (va_sessions a)) \<ge> va_maxSessions a")
  case True
  then show ?thesis using inv by (simp add: enterFunnel_def flow_inv_def sessionOK_def)
next
  case False
  let ?st = "\<lparr>ss_funnel = i, ss_next = 1, ss_started = ev_At event, ss_completed = False, ss_expired = False\<rparr>"
  let ?f = "\<lambda>c. updStep 0 (acceptStep event False) (c\<lparr>cf_entered := wrap64 (cf_entered c + 1)\<rparr>)"
  have d: "distinct (map fst (va_sessions a))" and c: "counted (va_sessions a) i (va_funnels a ! i)" and ok: "funnelOK (va_funnels a ! i)"
    using inv i by (simp_all add: flow_inv_def)
  have "flow_inv (updFunnel i ?f (setSession key ?st a))"
  proof (rule flow_inv_update [OF inv i key])
    show "stateOK (va_funnels a ! i) ?st" using ok by (auto simp: stateOK_def funnelOK_def)
    show "counted (assign key ?st (va_sessions a)) i (?f (va_funnels a ! i))"
      using c none cnt_room [OF inv] ok
      by (simp add: counted_def cnt_assign [OF d] nth_updStep acceptStep_counts accept_balanced)
         (simp add: wrap64_add wrap64_add_right ac_simps)
  qed (use False in \<open>simp_all add: sameShape_def\<close>)
  then show ?thesis using False by (simp add: enterFunnel_def)
qed

lemma flow_inv_retry:
  assumes inv: "flow_inv a" and i: "i < length (va_funnels a)"
    and key: "key = funnelKey (cf_definition (va_funnels a ! i)) s" and st: "map_of (va_sessions a) key = Some st"
  shows "flow_inv (updFunnel i (updStep j (acceptStep event True)) a)"
proof -
  let ?c = "va_funnels a ! i" and ?f = "updStep j (acceptStep event True)"
  have same: "assign key st (va_sessions a) = va_sessions a" using st by (rule assign_same)
  have "flow_inv (updFunnel i ?f (setSession key st a))"
  proof (rule flow_inv_update [OF inv i key])
    show fi: "ss_funnel st = i" using key_funnel [OF inv i] st key by simp
    show "stateOK ?c st" using inv st fi by (fastforce simp: flow_inv_def sessionOK_def dest: map_of_SomeD)
    show "counted (assign key st (va_sessions a)) i (?f ?c)"
      using inv i unfolding same by (auto simp: flow_inv_def counted_def nth_updStep acceptStep_counts(1) accept_balanced)
  qed (use st in \<open>simp_all add: sameShape_def\<close>)
  then show ?thesis using same by (simp add: setSession_def)
qed

lemma flow_inv_next:
  assumes inv: "flow_inv a" and i: "i < length (va_funnels a)"
    and key: "key = funnelKey (cf_definition (va_funnels a ! i)) s" and st: "map_of (va_sessions a) key = Some st"
    and j: "j = ss_next st" "j < length (cf_steps (va_funnels a ! i))" and alive: "\<not> ss_expired st"
    and final: "final = (Suc (ss_next st) = length (cf_steps (va_funnels a ! i)))"
  shows "flow_inv (setSession key (st\<lparr>ss_next := Suc (ss_next st), ss_completed := ss_completed st \<or> final\<rparr>)
           (updFunnel i (\<lambda>c. (updStep j (acceptStep event False) c)
              \<lparr>cf_completed := (if final then wrap64 (cf_completed c + 1) else cf_completed c)\<rparr>) a))"
proof -
  let ?c = "va_funnels a ! i" and ?st = "st\<lparr>ss_next := Suc (ss_next st), ss_completed := ss_completed st \<or> final\<rparr>"
  let ?f = "\<lambda>c. (updStep j (acceptStep event False) c)\<lparr>cf_completed := (if final then wrap64 (cf_completed c + 1) else cf_completed c)\<rparr>"
  have d: "distinct (map fst (va_sessions a))" and c: "counted (va_sessions a) i ?c" using inv i by (simp_all add: flow_inv_def)
  have fi: "ss_funnel st = i" using key_funnel [OF inv i] st key by simp
  have ok: "stateOK ?c st" using inv st fi by (fastforce simp: flow_inv_def sessionOK_def dest: map_of_SomeD)
  then have nc: "\<not> ss_completed st" using j by (simp add: stateOK_def)
  have "flow_inv (updFunnel i ?f (setSession key ?st a))"
  proof (rule flow_inv_update [OF inv i key])
    show "stateOK ?c ?st" using ok nc j final by (auto simp: stateOK_def)
    have "ps_sessions (cf_steps (?f ?c) ! m) = cnt (\<lambda>w. ss_funnel w = i \<and> m < ss_next w) (assign key ?st (va_sessions a)) \<and>
        ps_requests (cf_steps (?f ?c) ! m) = wrap64 (ps_sessions (cf_steps (?f ?c) ! m) + ps_retries (cf_steps (?f ?c) ! m))"
      if "m < length (cf_steps ?c)" for m
      using c that st fi j cnt_room [OF inv, of "\<lambda>w. ss_funnel w = i \<and> m < ss_next w"] nth_updStep [OF that]
      by (auto simp: counted_def cnt_assign [OF d] acceptStep_counts(1) accept_balanced)
    then show "counted (assign key ?st (va_sessions a)) i (?f ?c)"
      using c st fi nc alive final cnt_room [OF inv] by (simp add: counted_def cnt_assign [OF d])
  qed (use st fi in \<open>simp_all add: sameShape_def\<close>)
  then show ?thesis by (simp only: setSession_updFunnel)
qed

lemma flow_inv_expire:
  assumes inv: "flow_inv a" and i: "i < length (va_funnels a)"
    and key: "key = funnelKey (cf_definition (va_funnels a ! i)) s" and st: "map_of (va_sessions a) key = Some st"
    and alive: "\<not> ss_expired st"
  shows "flow_inv (updFunnel i (\<lambda>c. c\<lparr>cf_expired := (if ss_completed st then cf_expired c else wrap64 (cf_expired c + 1))\<rparr>)
           (setSession key (st\<lparr>ss_expired := True\<rparr>) a))"
proof (rule flow_inv_update [OF inv i key])
  let ?c = "va_funnels a ! i"
  have d: "distinct (map fst (va_sessions a))" and c: "counted (va_sessions a) i ?c" using inv i by (simp_all add: flow_inv_def)
  show fi: "ss_funnel (st\<lparr>ss_expired := True\<rparr>) = i" using key_funnel [OF inv i] st key by simp
  show "stateOK ?c (st\<lparr>ss_expired := True\<rparr>)"
    using inv st fi by (fastforce simp: flow_inv_def sessionOK_def stateOK_def dest: map_of_SomeD)
  show "counted (assign key (st\<lparr>ss_expired := True\<rparr>) (va_sessions a)) i
      (?c\<lparr>cf_expired := (if ss_completed st then cf_expired ?c else wrap64 (cf_expired ?c + 1))\<rparr>)"
    using c st fi alive cnt_room [OF inv] by (auto simp: counted_def cnt_assign [OF d])
qed (use st in \<open>simp_all add: sameShape_def\<close>)

text \<open>What one event leaves alone.\<close>

definition sameFrame :: "Flow_Aggregator \<Rightarrow> Flow_Aggregator \<Rightarrow> bool" where
  "sameFrame a a' \<longleftrightarrow> va_enabled a' = va_enabled a \<and> va_maxSessions a' = va_maxSessions a \<and> va_byScenario a' = va_byScenario a \<and>
     va_maxNodes a' = va_maxNodes a \<and> va_maxEdges a' = va_maxEdges a \<and>
     length (va_funnels a') = length (va_funnels a) \<and>
     (\<forall>i < length (va_funnels a). sameShape (va_funnels a ! i) (va_funnels a' ! i))"

lemma sameShape_refl [simp]: "sameShape c c"
  by (simp add: sameShape_def)

lemma sameFrame_refl [simp]: "sameFrame a a"
  by (simp add: sameFrame_def)

lemma sameFrame_trans: "sameFrame a b \<Longrightarrow> sameFrame b c \<Longrightarrow> sameFrame a c"
  by (simp add: sameFrame_def sameShape_def)

lemma sameFrame_upd:
  "sameFrame a b \<Longrightarrow> (\<And>c. sameShape c (f c)) \<Longrightarrow> sameFrame a (updFunnel i f b)"
  by (cases "i < length (va_funnels b)") (auto simp: sameFrame_def sameShape_def updFunnel_def nth_list_update list_update_beyond)

lemma sameFrame_set: "sameFrame a b \<Longrightarrow> sameFrame a (setSession key st b)"
  by (simp add: sameFrame_def setSession_def)

lemma sameFrame_miss: "sameFrame a b \<Longrightarrow> sameFrame a (missTiming m b)"
  by (simp add: sameFrame_def missTiming_def)

lemma sameFrame_observeFunnel: "sameFrame a (observeFunnel page event i a)"
proof -
  have "sameShape c (updStep j f c)" "sameShape c (updStep j f (c\<lparr>cf_entered := n\<rparr>))"
    "sameShape c ((updStep j f c)\<lparr>cf_completed := n\<rparr>)" "sameShape c (c\<lparr>cf_expired := n\<rparr>)" for c j f n
    by (simp_all add: sameShape_def)
  moreover have "sameFrame a (a\<lparr>va_sessionDropped := n\<rparr>)" for n by (simp add: sameFrame_def)
  ultimately show ?thesis
    unfolding observeFunnel_def enterFunnel_def advance_def Let_def
    by (auto split: option.split intro!: sameFrame_upd sameFrame_set sameFrame_miss)
qed

lemma flow_inv_observeFunnel:
  assumes inv: "flow_inv a" and i: "i < length (va_funnels a)"
  shows "flow_inv (observeFunnel page event i a)"
proof -
  define key where "key = funnelKey (cf_definition (va_funnels a ! i)) (ev_Session event)"
  have len: "j < length (cf_steps (va_funnels a ! i))" if "map_of (cf_routeIndex (va_funnels a ! i)) page = Some j" for j
    using inv i that by (simp add: flow_inv_def funnelOK_def)
  have adv: "flow_inv (advance i key j event st a')"
    if a': "flow_inv a'" "va_funnels a' = va_funnels a" "va_sessions a' = va_sessions a"
      and st: "map_of (va_sessions a) key = Some st" "\<not> ss_expired st" "j < length (cf_steps (va_funnels a ! i))" for j st a'
  proof -
    have k: "key = funnelKey (cf_definition (va_funnels a' ! i)) (ev_Session event)" by (simp add: key_def a')
    show ?thesis
      using flow_inv_retry [OF a'(1) _ k] flow_inv_next [OF a'(1) _ k _ _ _ st(2)] a' st i
      by (simp add: advance_def Let_def)
  qed
  show ?thesis
  proof (cases "map_of (cf_routeIndex (va_funnels a ! i)) page")
    case None
    then show ?thesis using inv by (simp add: observeFunnel_def)
  next
    case (Some j)
    then show ?thesis
    proof (cases "map_of (va_sessions a) key")
      case None
      then show ?thesis using Some inv flow_inv_enter [OF inv i key_def]
        by (simp add: observeFunnel_def Let_def key_def [symmetric])
    next
      case (Some st)
      then show ?thesis
        using \<open>map_of (cf_routeIndex (va_funnels a ! i)) page = Some j\<close> len inv flow_inv_expire [OF inv i key_def Some] adv
        by (simp add: observeFunnel_def Let_def key_def [symmetric])
    qed
  qed
qed

text \<open>The indices of a scenario are indices of funnels.\<close>

definition indicesFor :: "Flow_Aggregator \<Rightarrow> string \<Rightarrow> nat list" where
  "indicesFor a sc = (case map_of (va_byScenario a) sc of None \<Rightarrow> [] | Some idx \<Rightarrow> idx)"

definition scenarios_ok :: "Flow_Aggregator \<Rightarrow> bool" where
  "scenarios_ok a \<longleftrightarrow> (\<forall>sc. distinct (indicesFor a sc) \<and>
     set (indicesFor a sc) = {i. i < length (va_funnels a) \<and> fd_Scenario (cf_definition (va_funnels a ! i)) = sc})"

lemma indicesFor_ok:
  assumes "scenarios_ok a"
  shows "distinct (indicesFor a sc)"
    and "set (indicesFor a sc) = {i. i < length (va_funnels a) \<and> fd_Scenario (cf_definition (va_funnels a ! i)) = sc}"
  using assms by (simp_all add: scenarios_ok_def)

lemma scenarios_ok_frame:
  assumes "sameFrame a a'" and "scenarios_ok a"
  shows "scenarios_ok a'"
proof -
  have same: "{i. i < length (va_funnels a') \<and> fd_Scenario (cf_definition (va_funnels a' ! i)) = sc} =
      {i. i < length (va_funnels a) \<and> fd_Scenario (cf_definition (va_funnels a ! i)) = sc}" for sc
    using assms(1) by (auto simp: sameFrame_def sameShape_def)
  show ?thesis
    using assms unfolding scenarios_ok_def same by (simp add: sameFrame_def indicesFor_def)
qed

lemma flow_inv_fold:
  assumes "flow_inv a" and "\<forall>i \<in> set is. i < length (va_funnels a)"
  shows "flow_inv (fold (observeFunnel page event) is a) \<and> sameFrame a (fold (observeFunnel page event) is a)"
  using assms
proof (induction "is" arbitrary: a)
  case (Cons i "is")
  let ?a = "observeFunnel page event i a"
  have f: "sameFrame a ?a" by (rule sameFrame_observeFunnel)
  have "flow_inv ?a" using Cons.prems by (intro flow_inv_observeFunnel) auto
  moreover have "length (va_funnels ?a) = length (va_funnels a)" using f by (simp add: sameFrame_def)
  ultimately show ?case using Cons.IH [of ?a] Cons.prems sameFrame_trans [OF f] by auto
qed simp

text \<open>The latest instant is the only thing an event changes before the funnels see it.\<close>

definition stamp :: "Event \<Rightarrow> Flow_Aggregator \<Rightarrow> Flow_Aggregator" where
  "stamp event a = (if \<not> IsZero (ev_At event) \<and> ev_At event > va_latestObserved a
     then a\<lparr>va_latestObserved := ev_At event\<rparr> else a)"

lemma stamp_simps [simp]:
  "flow_inv (stamp event a) = flow_inv a" "scenarios_ok (stamp event a) = scenarios_ok a" "sameFrame a (stamp event a)"
  "va_funnels (stamp event a) = va_funnels a" "va_sessions (stamp event a) = va_sessions a"
  "indicesFor (stamp event a) sc = indicesFor a sc" "va_sessionDropped (stamp event a) = va_sessionDropped a"
  by (simp_all add: stamp_def flow_inv_def sessionOK_def scenarios_ok_def sameFrame_def indicesFor_def)

lemma Observe_flow_eq:
  "Observe_flow event a =
     (if \<not> va_enabled a \<or> \<not> observable event then a
      else fold (observeFunnel (eventPage event) event) (indicesFor a (ev_Scenario event)) (stamp event a))"
  by (simp add: Observe_flow_def Let_def indicesFor_def stamp_def)

lemma flow_inv_Observe:
  assumes "flow_inv a" and "scenarios_ok a"
  shows "flow_inv (Observe_flow event a)" and "sameFrame a (Observe_flow event a)" and "scenarios_ok (Observe_flow event a)"
proof -
  have r: "\<forall>i \<in> set (indicesFor a (ev_Scenario event)). i < length (va_funnels (stamp event a))"
    using indicesFor_ok [OF assms(2)] by simp
  have f: "flow_inv (Observe_flow event a) \<and> sameFrame a (Observe_flow event a)"
    using flow_inv_fold [OF _ r] assms(1) unfolding Observe_flow_eq
    by (auto intro: sameFrame_trans [OF stamp_simps(3)])
  then show "flow_inv (Observe_flow event a)" "sameFrame a (Observe_flow event a)" by auto
  then show "scenarios_ok (Observe_flow event a)" using scenarios_ok_frame assms(2) by blast
qed

subsection \<open>A new aggregator\<close>

lemma loopErr_keys:
  assumes "\<And>i seen x. f i seen x = None \<Longrightarrow> key x \<notin> key ` set seen \<and> P x" and "loopErr f seen xs = None"
  shows "distinct (map key xs) \<and> (\<forall>x \<in> set xs. P x) \<and> key ` set seen \<inter> key ` set xs = {}"
  using assms(2)
proof (induction xs arbitrary: seen)
  case (Cons x xs)
  then show ?case using assms(1) [of "length seen" seen x] Cons.IH [of "seen @ [x]"] by auto
qed simp

lemma validateFunnel_None:
  assumes "validateFunnel dur i seen d = None"
  shows "fd_ID d \<notin> fd_ID ` set seen \<and> safeIDPattern (fd_ID d) \<and> 2 \<le> length (fd_Steps d) \<and> distinct (map sd_Route (fd_Steps d))"
proof -
  have "loopErr validateStep [] (fd_Steps d) = None" using assms by (simp add: validateFunnel_def)
  then have "distinct (map sd_Route (fd_Steps d))"
    using loopErr_keys [of validateStep sd_Route "\<lambda>_. True" "[]"] by (simp add: validateStep_def)
  then show ?thesis using assms by (simp add: validateFunnel_def)
qed

lemma safe_no_NUL: "safeIDPattern s \<Longrightarrow> NUL \<notin> set s"
  by (auto simp: safeIDPattern_def safeByte_def list_all_iff less_eq_char_def)

lemma routeIndex_spec:
  assumes "distinct (map sd_Route steps)"
  shows "map_of (fold (\<lambda>(i, step) m. assign (sd_Route step) i m) (enumerate 0 steps) []) page = Some j \<longleftrightarrow>
    j < length steps \<and> sd_Route (steps ! j) = page"
  using assms
proof (induction steps rule: rev_induct)
  case (snoc x xs)
  have "sd_Route (xs ! j) \<noteq> sd_Route x" if "j < length xs" for j
    using snoc.prems nth_mem [OF that] by (auto simp: image_iff)
  with snoc show ?case by (auto simp: enumerate_append_eq map_of_assign nth_append less_Suc_eq)
qed simp

lemma addFunnel_fields:
  "va_funnels (addFunnel dur d a) = va_funnels a @ [compileFunnel dur d]" "va_sessions (addFunnel dur d a) = va_sessions a"
  "va_sessionDropped (addFunnel dur d a) = va_sessionDropped a" "va_enabled (addFunnel dur d a) = va_enabled a"
  "va_maxNodes (addFunnel dur d a) = va_maxNodes a" "va_maxEdges (addFunnel dur d a) = va_maxEdges a"
  "va_maxSessions (addFunnel dur d a) = va_maxSessions a"
  "indicesFor (addFunnel dur d a) sc = indicesFor a sc @ (if sc = fd_Scenario d then [length (va_funnels a)] else [])"
  by (simp_all add: addFunnel_def indicesFor_def map_of_alter split: option.split)

lemma addFunnels_eq:
  "va_funnels (fold (addFunnel dur) ds (newFlow opts)) = map (compileFunnel dur) ds \<and>
   scenarios_ok (fold (addFunnel dur) ds (newFlow opts)) \<and>
   va_sessions (fold (addFunnel dur) ds (newFlow opts)) = [] \<and>
   va_sessionDropped (fold (addFunnel dur) ds (newFlow opts)) = 0 \<and>
   va_enabled (fold (addFunnel dur) ds (newFlow opts)) = op_Enabled opts \<and>
   va_maxNodes (fold (addFunnel dur) ds (newFlow opts)) = op_MaxNodes opts \<and>
   va_maxEdges (fold (addFunnel dur) ds (newFlow opts)) = op_MaxEdges opts \<and>
   va_maxSessions (fold (addFunnel dur) ds (newFlow opts)) = op_MaxSessions opts"
proof (induction ds rule: rev_induct)
  case Nil
  show ?case by (simp add: newFlow_def scenarios_ok_def indicesFor_def)
next
  case (snoc d ds)
  let ?a = "fold (addFunnel dur) ds (newFlow opts)"
  have ok: "scenarios_ok ?a" and fs: "va_funnels ?a = map (compileFunnel dur) ds" using snoc by simp_all
  have idx: "indicesFor (addFunnel dur d ?a) sc = indicesFor ?a sc @ (if sc = fd_Scenario d then [length ds] else [])" for sc
    by (simp add: addFunnel_fields fs)
  have scen: "fd_Scenario (cf_definition (map (compileFunnel dur) xs ! i)) = fd_Scenario (xs ! i)" if "i < length xs" for i xs
    using that by (simp add: compileFunnel_def)
  have old: "distinct (indicesFor ?a sc)" "set (indicesFor ?a sc) = {i. i < length ds \<and> fd_Scenario (ds ! i) = sc}" for sc
    using indicesFor_ok [OF ok, of sc] scen [of _ ds] unfolding fs by auto
  have "set (indicesFor (addFunnel dur d ?a) sc) = {i. i < length (ds @ [d]) \<and> fd_Scenario ((ds @ [d]) ! i) = sc}" for sc
    unfolding idx by (auto simp: old nth_append less_Suc_eq)
  moreover have "{i. i < length (va_funnels (addFunnel dur d ?a)) \<and> fd_Scenario (cf_definition (va_funnels (addFunnel dur d ?a) ! i)) = sc} =
      {i. i < length (ds @ [d]) \<and> fd_Scenario ((ds @ [d]) ! i) = sc}" for sc
    using scen [of _ "ds @ [d]"] by (auto simp: addFunnel_fields fs)
  moreover have "distinct (indicesFor (addFunnel dur d ?a) sc)" for sc unfolding idx using old by simp
  ultimately have "scenarios_ok (addFunnel dur d ?a)" unfolding scenarios_ok_def by simp
  then show ?case using snoc by (simp add: addFunnel_fields)
qed

lemma New_flow_ok:
  assumes "New_flow dur options = Inr a"
  shows "flow_inv a \<and> scenarios_ok a \<and> va_sessions a = [] \<and> va_sessionDropped a = 0"
proof -
  from assms obtain opts where n: "normalized dur options = Inr opts"
    and a: "a = (if op_Enabled opts then fold (addFunnel dur) (cg_Funnels (op_Config opts)) (newFlow opts) else newFlow zeroOptions)"
    by (auto simp: New_flow_def split: sum.splits)
  show ?thesis
  proof (cases "op_Enabled opts")
    case False
    then show ?thesis by (simp add: a newFlow_def zeroOptions_def flow_inv_def scenarios_ok_def indicesFor_def)
  next
    case True
    let ?ds = "cg_Funnels (op_Config opts)"
    from n True have v: "Validate_flow dur (op_Config opts) = None" and m: "op_MaxSessions opts \<le> HardMaxSessions"
      by (auto simp: normalized_def zeroOptions_def Let_def split: if_splits)
    have "loopErr (validateFunnel dur) [] ?ds = None" using v by (simp add: Validate_flow_def)
    from loopErr_keys [OF _ this, of fd_ID "\<lambda>d. safeIDPattern (fd_ID d) \<and> 2 \<le> length (fd_Steps d) \<and> distinct (map sd_Route (fd_Steps d))"]
    have ds: "distinct (map fd_ID ?ds)" "\<forall>d \<in> set ?ds. safeIDPattern (fd_ID d) \<and> 2 \<le> length (fd_Steps d) \<and> distinct (map sd_Route (fd_Steps d))"
      using validateFunnel_None by blast+
    have c: "funnelOK (compileFunnel dur d) \<and> counted [] i (compileFunnel dur d)" if "d \<in> set ?ds" for i d
      using ds(2) that safe_no_NUL
      by (auto simp: funnelOK_def counted_def compileFunnel_def routeIndex_spec cnt_def zeroStep_def wrap64_def)
    note e = addFunnels_eq [of dur ?ds opts]
    have "(\<lambda>c. fd_ID (cf_definition c)) \<circ> compileFunnel dur = fd_ID" by (simp add: comp_def compileFunnel_def)
    then show ?thesis using e c m ds(1) True by (simp add: a flow_inv_def)
  qed
qed

lemma flow_inv_run:
  assumes "flow_inv a" and "scenarios_ok a"
  shows "flow_inv (fold Observe_flow evs a) \<and> scenarios_ok (fold Observe_flow evs a) \<and> sameFrame a (fold Observe_flow evs a)"
  using assms
proof (induction evs arbitrary: a)
  case (Cons e evs)
  then show ?case using flow_inv_Observe [OF Cons.prems, of e] sameFrame_trans by fastforce
qed simp

subsection \<open>Snapshots, resets and reachable states\<close>

lemma flow_inv_expireOne:
  assumes inv: "flow_inv a" and st: "map_of (va_sessions a) key = Some st"
  shows "flow_inv (expireOne (key, st) a)" and "sameFrame a (expireOne (key, st) a)"
    and "k \<noteq> key \<Longrightarrow> map_of (va_sessions (expireOne (key, st) a)) k = map_of (va_sessions a) k"
proof -
  from inv st obtain s where i: "ss_funnel st < length (va_funnels a)"
    and k: "key = funnelKey (cf_definition (va_funnels a ! ss_funnel st)) s"
    by (fastforce simp: flow_inv_def sessionOK_def dest: map_of_SomeD)
  have nc: "\<not> ss_completed st \<and> \<not> ss_expired st" if "silent a st" using that by (simp add: silent_def)
  show "flow_inv (expireOne (key, st) a)"
    using flow_inv_expire [OF inv i k st] inv nc by (auto simp: expireOne_def)
  show "sameFrame a (expireOne (key, st) a)"
    by (auto simp: expireOne_def sameShape_def intro!: sameFrame_upd sameFrame_set)
  show "k \<noteq> key \<Longrightarrow> map_of (va_sessions (expireOne (key, st) a)) k = map_of (va_sessions a) k"
    by (simp add: expireOne_def updFunnel_def setSession_def map_of_assign)
qed

lemma flow_inv_expireAll:
  assumes "flow_inv a" and "\<forall>(k, st) \<in> set ss. map_of (va_sessions a) k = Some st" and "distinct (map fst ss)"
  shows "flow_inv (fold expireOne ss a) \<and> sameFrame a (fold expireOne ss a)"
  using assms
proof (induction ss arbitrary: a)
  case (Cons kst ss)
  obtain k st where kst: "kst = (k, st)" by force
  let ?a = "expireOne (k, st) a"
  have at: "map_of (va_sessions a) k = Some st" using Cons.prems(2) kst by simp
  have "k' \<noteq> k" if "(k', st') \<in> set ss" for k' st'
    using Cons.prems(3) that kst by (auto simp: image_iff)
  then have "\<forall>(k', st') \<in> set ss. map_of (va_sessions ?a) k' = Some st'"
    using Cons.prems(2) kst flow_inv_expireOne(3) [OF Cons.prems(1) at] by fastforce
  then show ?case
    using Cons.IH [of ?a] Cons.prems flow_inv_expireOne [OF Cons.prems(1) at] kst sameFrame_trans by auto
qed simp

lemma flow_inv_silent:
  assumes "flow_inv a"
  shows "flow_inv (expireSilentSessions a) \<and> sameFrame a (expireSilentSessions a)"
proof -
  have "distinct (map fst (va_sessions a))" using assms by (simp add: flow_inv_def)
  then show ?thesis using flow_inv_expireAll [OF assms, of "va_sessions a"] assms by (auto simp: expireSilentSessions_def)
qed

lemma flow_inv_Reset:
  assumes "flow_inv a"
  shows "flow_inv (Reset_flow a) \<and> sameFrame a (Reset_flow a)"
proof -
  have shape: "sameShape c (resetFunnel c)" "counted [] i (resetFunnel c)" if "funnelOK c" for c i
    using that by (auto simp: resetFunnel_def sameShape_def funnelOK_def counted_def cnt_def zeroStep_def wrap64_def)
  have ids: "(\<lambda>c. fd_ID (cf_definition c)) \<circ> resetFunnel = (\<lambda>c. fd_ID (cf_definition c))"
    by (simp add: comp_def resetFunnel_def)
  have "funnelOK (resetFunnel c)" if "funnelOK c" for c using sameShape_OK(1) [OF shape(1)] that by simp
  then show ?thesis
    using assms shape ids by (auto simp: Reset_flow_def flow_inv_def sameFrame_def)
qed

text \<open>Everything that can be done with an aggregator.\<close>

inductive flow_reachable :: "(string \<Rightarrow> duration option) \<Rightarrow> Options \<Rightarrow> Flow_Aggregator \<Rightarrow> bool" for dur options where
  created: "New_flow dur options = Inr a \<Longrightarrow> flow_reachable dur options a"
| observed: "flow_reachable dur options a \<Longrightarrow> flow_reachable dur options (Observe_flow event a)"
| snapshotted: "flow_reachable dur options a \<Longrightarrow> flow_reachable dur options (snd (Snapshot_flow ts a))"
| reset: "flow_reachable dur options a \<Longrightarrow> flow_reachable dur options (Reset_flow a)"

lemma flow_reachable_inv: "flow_reachable dur options a \<Longrightarrow> flow_inv a \<and> scenarios_ok a"
proof (induction rule: flow_reachable.induct)
  case (created a)
  then show ?case using New_flow_ok by blast
next
  case (observed a event)
  then show ?case using flow_inv_Observe by blast
next
  case (snapshotted a ts)
  then show ?case using flow_inv_silent [of a] scenarios_ok_frame by (auto simp: Snapshot_flow_def Let_def)
next
  case (reset a)
  then show ?case using flow_inv_Reset [of a] scenarios_ok_frame by blast
qed

lemma basisPoints_rounds:
  assumes "0 \<le> n" and "n \<le> d" and "d \<le> 10000"
  shows "0 \<le> basisPoints n d \<and> basisPoints n d \<le> 10000 \<and> 2 * \<bar>basisPoints n d * d - n * 10000\<bar> \<le> d"
proof (cases "0 < n \<and> n < d")
  case True
  have "wrap64 (n * 10000) = n * 10000" "wrap64 (n * 10000 + d div 2) = n * 10000 + d div 2"
    using True assms by (auto intro!: wrap64_id simp: go_defs)
  moreover have "0 < n * 10000 + d div 2" using True by linarith
  ultimately have bp: "basisPoints n d = (n * 10000 + d div 2) div d"
    using True by (simp add: basisPoints_def signed_divide_int_def)
  define q where "q = (n * 10000 + d div 2) div d"
  define r where "r = (n * 10000 + d div 2) mod d"
  have qr: "q * d + r = n * 10000 + d div 2" "0 \<le> r" "r < d"
    using True by (simp_all add: q_def r_def)
  have "0 \<le> q" unfolding q_def using True by (simp add: pos_imp_zdiv_nonneg_iff)
  moreover have "q \<le> 10000"
  proof -
    have "q * d < 10001 * d" using qr True by linarith
    then have "q < 10001" using True by (simp add: mult_less_cancel_right)
    then show ?thesis by simp
  qed
  moreover have "2 * (d div 2) \<le> d" "d \<le> 2 * (d div 2) + 1" by presburger+
  then have "2 * \<bar>d div 2 - r\<bar> \<le> d" using qr(2,3) by (cases "r \<le> d div 2") simp_all
  moreover have "q * d - n * 10000 = d div 2 - r" using qr(1) by linarith
  ultimately show ?thesis using bp q_def by simp
next
  case False
  then show ?thesis using assms by (auto simp: basisPoints_def)
qed

subsection \<open>What a snapshot shows\<close>

lemma counted_facts:
  assumes inv: "flow_inv a" and i: "i < length (va_funnels a)" and c: "c = va_funnels a ! i" and n: "n = length (cf_steps c)"
  shows "ps_sessions (cf_steps c ! 0) = cf_entered c" and "ps_sessions (cf_steps c ! (n - 1)) = cf_completed c"
    and "Suc j < n \<Longrightarrow> ps_sessions (cf_steps c ! Suc j) \<le> ps_sessions (cf_steps c ! j)"
    and "j < n \<Longrightarrow> 0 \<le> ps_sessions (cf_steps c ! j) \<and> ps_sessions (cf_steps c ! j) \<le> cf_entered c"
    and "0 \<le> cf_completed c \<and> cf_completed c \<le> cf_entered c \<and> 0 \<le> cf_expired c \<and> cf_completed c + cf_expired c \<le> cf_entered c"
    and "cf_entered c \<le> 10000" and "2 \<le> n" and "n = length (fd_Steps (cf_definition c))"
    and "j < n \<Longrightarrow> ps_requests (cf_steps c ! j) = wrap64 (ps_sessions (cf_steps c ! j) + ps_retries (cf_steps c ! j))"
proof -
  let ?ss = "va_sessions a"
  have ct: "counted ?ss i c" and ok: "funnelOK c" using inv i c by (simp_all add: flow_inv_def)
  then show len: "2 \<le> n" "n = length (fd_Steps (cf_definition c))" by (simp_all add: funnelOK_def n)
  have st: "1 \<le> ss_next st \<and> ss_next st \<le> n \<and> (ss_completed st \<longleftrightarrow> ss_next st = n)" if "(k, st) \<in> set ?ss" "ss_funnel st = i" for k st
    using inv that c n by (fastforce simp: flow_inv_def sessionOK_def stateOK_def)
  have sess: "ps_sessions (cf_steps c ! j) = cnt (\<lambda>st. ss_funnel st = i \<and> j < ss_next st) ?ss" if "j < n" for j
    using ct that by (simp add: counted_def n)
  have entered: "cf_entered c = cnt (\<lambda>st. ss_funnel st = i) ?ss" using ct by (simp add: counted_def)
  show "ps_sessions (cf_steps c ! 0) = cf_entered c"
    using len(1) unfolding sess [of 0, OF order_less_le_trans [OF _ len(1)], simplified] entered
    by (intro cnt_cong) (use st in fastforce)
  show "ps_sessions (cf_steps c ! (n - 1)) = cf_completed c"
    using len(1) sess [of "n - 1"] ct st
    by (simp add: counted_def) (intro cnt_cong, fastforce)
  show "Suc j < n \<Longrightarrow> ps_sessions (cf_steps c ! Suc j) \<le> ps_sessions (cf_steps c ! j)"
    by (simp add: sess, intro cnt_mono) auto
  show "j < n \<Longrightarrow> 0 \<le> ps_sessions (cf_steps c ! j) \<and> ps_sessions (cf_steps c ! j) \<le> cf_entered c"
    by (simp add: sess entered cnt_nonneg, intro cnt_mono) auto
  have "cf_completed c + cf_expired c = cnt (\<lambda>st. (ss_funnel st = i \<and> ss_completed st) \<or> (ss_funnel st = i \<and> ss_expired st \<and> \<not> ss_completed st)) ?ss"
    using ct by (simp add: counted_def cnt_disjoint)
  also have "\<dots> \<le> cf_entered c" unfolding entered by (intro cnt_mono) auto
  finally show "0 \<le> cf_completed c \<and> cf_completed c \<le> cf_entered c \<and> 0 \<le> cf_expired c \<and> cf_completed c + cf_expired c \<le> cf_entered c"
    using ct cnt_nonneg by (auto simp: counted_def intro: cnt_mono)
  show "cf_entered c \<le> 10000"
    using inv cnt_le [of "\<lambda>st. ss_funnel st = i" ?ss] unfolding entered flow_inv_def by linarith
  show "j < n \<Longrightarrow> ps_requests (cf_steps c ! j) = wrap64 (ps_sessions (cf_steps c ! j) + ps_retries (cf_steps c ! j))"
    using ct by (simp add: counted_def n)
qed

text \<open>
  C20: A funnel never contradicts itself. Whatever was observed, expired, dropped, snapshotted or reset
  before, a snapshot shows for every funnel: the first step has as many sessions as entered, each
  further step at most as many as the one before, and the last exactly the completed ones; the
  drop-off is the exact difference of neighbouring steps (its guard against negative values never
  fires); completed and expired sessions are disjoint parts of the entered ones; requests are the
  first visits plus the retries (modulo \<open>2^64\<close>); and every conversion rate lies between 0 and 10000
  basis points and is the exact ratio rounded to the nearest one.
\<close>

theorem funnel_snapshot_consistent:
  assumes "flow_reachable dur options a" and "f \<in> set (fl_Funnels (fst (Snapshot_flow ts a)))"
    and "ss = fu_Steps f" and "n = length ss"
  shows "2 \<le> n \<and> fs_Sessions (ss ! 0) = fu_Entered f \<and> fs_Sessions (ss ! (n - 1)) = fu_Completed f \<and>
    0 \<le> fu_Expired f \<and> fu_Completed f + fu_Expired f \<le> fu_Entered f \<and>
    2 * \<bar>fu_ConversionBP f * fu_Entered f - fu_Completed f * 10000\<bar> \<le> fu_Entered f \<and>
    (\<forall>j < n. 0 \<le> fs_Sessions (ss ! j) \<and>
       fs_Requests (ss ! j) = wrap64 (fs_Sessions (ss ! j) + fs_Retries (ss ! j)) \<and>
       fs_DropOff (ss ! j) = (if Suc j < n then fs_Sessions (ss ! j) - fs_Sessions (ss ! Suc j) else 0) \<and>
       fs_DropOff (ss ! j) \<ge> 0 \<and>
       fs_FromStartBP (ss ! j) \<le> 10000 \<and>
       2 * \<bar>fs_FromStartBP (ss ! j) * fu_Entered f - fs_Sessions (ss ! j) * 10000\<bar> \<le> fu_Entered f \<and>
       (let prev = (if j = 0 then fu_Entered f else fs_Sessions (ss ! (j - 1))) in
        2 * \<bar>fs_FromPreviousBP (ss ! j) * prev - fs_Sessions (ss ! j) * 10000\<bar> \<le> prev))"
proof -
  let ?a = "expireSilentSessions a"
  have inv: "flow_inv ?a" using flow_reachable_inv [OF assms(1)] flow_inv_silent by blast
  from assms(2) obtain i where i: "i < length (va_funnels ?a)" and f: "f = funnelSnapshot (va_funnels ?a ! i)"
    by (auto simp: Snapshot_flow_def Let_def in_set_conv_nth split: if_splits)
  define c where "c = va_funnels ?a ! i"
  note facts = counted_facts [OF inv i c_def refl]
  have fc: "f = funnelSnapshot c" using f by (simp add: c_def)
  have n: "n = length (cf_steps c)" by (simp add: assms(3,4) fc funnelSnapshot_def)
  have at: "ss ! j = stepSnapshot c j" if "j < n" for j using that n by (simp add: assms(3) fc funnelSnapshot_def)
  have rows: "fu_Entered f = cf_entered c" "fu_Completed f = cf_completed c" "fu_Expired f = cf_expired c"
    "fu_ConversionBP f = basisPoints (cf_completed c) (cf_entered c)"
    by (simp_all add: fc funnelSnapshot_def)
  have step: "fs_Sessions (ss ! j) = ps_sessions (cf_steps c ! j)" "fs_Requests (ss ! j) = ps_requests (cf_steps c ! j)"
    "fs_Retries (ss ! j) = ps_retries (cf_steps c ! j)" "fs_DropOff (ss ! j) = dropOff (cf_steps c) j"
    "fs_FromStartBP (ss ! j) = basisPoints (ps_sessions (cf_steps c ! j)) (cf_entered c)"
    "fs_FromPreviousBP (ss ! j) = basisPoints (ps_sessions (cf_steps c ! j))
       (if 0 < j then ps_sessions (cf_steps c ! (j - 1)) else cf_entered c)" if "j < n" for j
    by (simp_all add: at [OF that] stepSnapshot_def Let_def)
  have drop: "dropOff (cf_steps c) j = (if Suc j < n then ps_sessions (cf_steps c ! j) - ps_sessions (cf_steps c ! Suc j) else 0)"
    if "j < n" for j
  proof (cases "Suc j < n")
    case True
    have "wrap64 (ps_sessions (cf_steps c ! j) - ps_sessions (cf_steps c ! Suc j)) =
        ps_sessions (cf_steps c ! j) - ps_sessions (cf_steps c ! Suc j)"
      using facts(4) [of j] facts(4) [of "Suc j"] facts(6) that True n by (intro wrap64_id) (auto simp: go_defs)
    then show ?thesis using True facts(3) [of j] n by (simp add: dropOff_def Let_def)
  qed (simp add: dropOff_def n)
  have prev: "ps_sessions (cf_steps c ! j) \<le> (if 0 < j then ps_sessions (cf_steps c ! (j - 1)) else cf_entered c)"
    "(if 0 < j then ps_sessions (cf_steps c ! (j - 1)) else cf_entered c) \<le> 10000" if "j < n" for j
    using facts(3) [of "j - 1"] facts(4) [of j] facts(4) [of "j - 1"] facts(6) that n by (cases j; force)+
  have perStep: "0 \<le> fs_Sessions (ss ! j) \<and>
       fs_Requests (ss ! j) = wrap64 (fs_Sessions (ss ! j) + fs_Retries (ss ! j)) \<and>
       fs_DropOff (ss ! j) = (if Suc j < n then fs_Sessions (ss ! j) - fs_Sessions (ss ! Suc j) else 0) \<and>
       fs_DropOff (ss ! j) \<ge> 0 \<and> fs_FromStartBP (ss ! j) \<le> 10000 \<and>
       2 * \<bar>fs_FromStartBP (ss ! j) * fu_Entered f - fs_Sessions (ss ! j) * 10000\<bar> \<le> fu_Entered f \<and>
       (let prev = (if j = 0 then fu_Entered f else fs_Sessions (ss ! (j - 1))) in
        2 * \<bar>fs_FromPreviousBP (ss ! j) * prev - fs_Sessions (ss ! j) * 10000\<bar> \<le> prev)" if j: "j < n" for j
  proof -
    have before: "(if j = 0 then fu_Entered f else fs_Sessions (ss ! (j - 1))) =
        (if 0 < j then ps_sessions (cf_steps c ! (j - 1)) else cf_entered c)"
      using step(1) [of "j - 1"] j rows by simp
    have after: "Suc j < n \<Longrightarrow> fs_Sessions (ss ! Suc j) = ps_sessions (cf_steps c ! Suc j)" by (rule step(1))
    have s: "0 \<le> ps_sessions (cf_steps c ! j)" "ps_sessions (cf_steps c ! j) \<le> cf_entered c" using facts(4) [of j] j n by simp_all
    show ?thesis
      using basisPoints_rounds [OF s facts(6)] basisPoints_rounds [OF s(1) prev [OF j]] s facts(9) [of j] facts(3) [of j] j n
      unfolding before by (simp add: step [OF j] rows drop after Let_def)
  qed
  have "fs_Sessions (ss ! 0) = fu_Entered f" "fs_Sessions (ss ! (n - 1)) = fu_Completed f" "2 \<le> n"
    using facts(1,2,7) step(1) [of 0] step(1) [of "n - 1"] rows n by fastforce+
  moreover have "2 * \<bar>fu_ConversionBP f * fu_Entered f - fu_Completed f * 10000\<bar> \<le> fu_Entered f"
    using basisPoints_rounds [of "cf_completed c" "cf_entered c"] facts(5,6) rows by simp
  moreover have "0 \<le> fu_Expired f" "fu_Completed f + fu_Expired f \<le> fu_Entered f" using facts(5) rows by simp_all
  ultimately show ?thesis using perStep by blast
qed

subsection \<open>Funnels as ordered visits\<close>

text \<open>How far a sequence of pages gets along the steps.\<close>

definition advanceBy :: "string list \<Rightarrow> string \<Rightarrow> nat \<Rightarrow> nat" where
  "advanceBy routes page n = (if n < length routes \<and> routes ! n = page then Suc n else n)"

definition progress :: "string list \<Rightarrow> string list \<Rightarrow> nat" where
  "progress routes pages = fold (advanceBy routes) pages 0"

lemma progress_snoc: "progress routes (pages @ [p]) = advanceBy routes p (progress routes pages)"
  by (simp add: progress_def)

lemma subseq_snoc: "subseq (xs @ [x]) (ys @ [y]) \<longleftrightarrow> subseq (xs @ [x]) ys \<or> x = y \<and> subseq xs ys"
proof
  assume "subseq (xs @ [x]) (ys @ [y])"
  then obtain us vs where split: "xs @ [x] = us @ vs" "subseq us ys" "subseq vs [y]" by (auto simp: subseq_append_iff)
  show "subseq (xs @ [x]) ys \<or> x = y \<and> subseq xs ys"
  proof (cases vs rule: rev_cases)
    case (snoc ws w)
    then have "ws = [] \<and> w = y" using split(3) by (cases ws) (auto split: if_splits)
    with snoc split show ?thesis by auto
  qed (use split in auto)
qed (auto intro: list_emb_append_mono subseq_rev_drop_many)

lemma progress_subseq: "n \<le> length routes \<Longrightarrow> n \<le> progress routes pages \<longleftrightarrow> subseq (take n routes) pages"
proof (induction pages arbitrary: n rule: rev_induct)
  case Nil
  then show ?case by (cases n) (auto simp: progress_def take_Suc_conv_app_nth)
next
  case (snoc p pages)
  show ?case
  proof (cases n)
    case (Suc m)
    have "subseq (take n routes) (pages @ [p]) \<longleftrightarrow> subseq (take n routes) pages \<or> routes ! m = p \<and> subseq (take m routes) pages"
      using Suc snoc.prems by (simp add: take_Suc_conv_app_nth subseq_snoc)
    also have "\<dots> \<longleftrightarrow> n \<le> progress routes pages \<or> routes ! m = p \<and> m \<le> progress routes pages"
      using snoc.IH [of n] snoc.IH [of m] Suc snoc.prems by simp
    also have "\<dots> \<longleftrightarrow> n \<le> progress routes (pages @ [p])"
      using Suc snoc.prems by (auto simp: progress_snoc advanceBy_def)
        (metis le_antisym less_Suc_eq_le not_less_eq_eq order.order_iff_strict)+
    finally show ?thesis by simp
  qed simp
qed

definition routesOf :: "compiledFunnel \<Rightarrow> string list" where
  "routesOf c = map sd_Route (fd_Steps (cf_definition c))"

text \<open>Where a session stands in a funnel.\<close>

definition stands :: "Flow_Aggregator \<Rightarrow> nat \<Rightarrow> string \<Rightarrow> nat \<Rightarrow> bool" where
  "stands a i s n \<longleftrightarrow>
     (case map_of (va_sessions a) (funnelKey (cf_definition (va_funnels a ! i)) s) of
        None \<Rightarrow> n = 0 | Some st \<Rightarrow> ss_next st = n \<and> \<not> ss_expired st)"

lemma routeIndex_routesOf:
  assumes "funnelOK c"
  shows "map_of (cf_routeIndex c) page = Some j \<longleftrightarrow> j < length (routesOf c) \<and> routesOf c ! j = page"
    and "length (routesOf c) = length (cf_steps c)" and "distinct (routesOf c)"
  using assms by (auto simp: funnelOK_def routesOf_def)

text \<open>Other sessions and other funnels are not touched.\<close>

lemma observeFunnel_others:
  assumes "k \<noteq> funnelKey (cf_definition (va_funnels a ! i)) (ev_Session event)"
  shows "map_of (va_sessions (observeFunnel page event i a)) k = map_of (va_sessions a) k"
  using assms
  by (simp add: observeFunnel_def enterFunnel_def advance_def Let_def updFunnel_def setSession_def map_of_assign split: option.split)

lemma observeFunnel_dropped:
  "va_sessionDropped (observeFunnel page event i a) = va_sessionDropped a \<or>
   va_sessionDropped (observeFunnel page event i a) = wrap64 (va_sessionDropped a + 1)"
  by (simp add: observeFunnel_def enterFunnel_def advance_def Let_def updFunnel_def setSession_def split: option.split)

lemma observeFunnel_stands:
  assumes inv: "flow_inv a" and i: "i < length (va_funnels a)" and w: "cf_within (va_funnels a ! i) = 0"
    and at_n: "stands a i (ev_Session event) n"
    and kept: "va_sessionDropped (observeFunnel page event i a) \<noteq> wrap64 (va_sessionDropped a + 1)"
  shows "stands (observeFunnel page event i a) i (ev_Session event) (advanceBy (routesOf (va_funnels a ! i)) page n)"
proof -
  let ?c = "va_funnels a ! i" and ?key = "funnelKey (cf_definition (va_funnels a ! i)) (ev_Session event)"
  let ?a = "observeFunnel page event i a"
  have ok: "funnelOK ?c" using inv i by (simp add: flow_inv_def)
  note ri = routeIndex_routesOf [OF ok]
  have def: "cf_definition (va_funnels ?a ! i) = cf_definition ?c"
    using sameFrame_observeFunnel [of a page event i] i by (simp add: sameFrame_def sameShape_def)
  have quiet: "\<not> windowPassed ?c st event" "\<not> timingMissing ?c st event" for st by (simp_all add: windowPassed_def timingMissing_def w)
  show ?thesis
  proof (cases "map_of (va_sessions a) ?key")
    case None
    then have n: "n = 0" using at_n by (simp add: stands_def)
    have "2 \<le> length (cf_steps ?c)" using ok by (simp add: funnelOK_def)
    then have long: "0 < length (routesOf ?c)" using ri(2) by linarith
    show ?thesis
    proof (cases "routesOf ?c ! 0 = page")
      case True
      then have "map_of (cf_routeIndex ?c) page = Some 0" using ri long by simp
      then have e: "?a = enterFunnel i ?key event a" using None by (simp add: observeFunnel_def Let_def)
      then have "\<not> int (length (va_sessions a)) \<ge> va_maxSessions a" using kept by (auto simp: enterFunnel_def)
      then have "map_of (va_sessions ?a) ?key = Some \<lparr>ss_funnel = i, ss_next = 1, ss_started = ev_At event, ss_completed = False, ss_expired = False\<rparr>"
        by (simp add: e enterFunnel_def updFunnel_def setSession_def map_of_assign)
      then show ?thesis using True n long by (simp add: stands_def def advanceBy_def)
    next
      case False
      then have "?a = a" using ri None by (auto simp: observeFunnel_def Let_def split: option.split)
      then show ?thesis using False at_n n by (simp add: advanceBy_def)
    qed
  next
    case (Some st)
    then have st: "ss_next st = n" "\<not> ss_expired st" "ss_funnel st = i"
      using at_n key_funnel [OF inv i] by (simp_all add: stands_def)
    show ?thesis
    proof (cases "map_of (cf_routeIndex ?c) page")
      case None
      then have "\<not> (n < length (routesOf ?c) \<and> routesOf ?c ! n = page)" using ri(1) [of page n] by auto
      moreover have "?a = a" using None by (simp add: observeFunnel_def)
      ultimately show ?thesis using at_n unfolding advanceBy_def by (simp only: if_False)
    next
      case (Some j)
      then have e: "?a = advance i ?key j event st a"
        using \<open>map_of (va_sessions a) ?key = Some st\<close> st quiet by (simp add: observeFunnel_def Let_def missTiming_def)
      have j: "j < length (routesOf ?c)" "routesOf ?c ! j = page" using Some ri by simp_all
      have match: "n < length (routesOf ?c) \<and> routesOf ?c ! n = page \<longleftrightarrow> n = j"
        using j ri(3) nth_eq_iff_index_eq by fastforce
      have "map_of (va_sessions ?a) ?key = Some (if n = j then st\<lparr>ss_next := Suc n,
          ss_completed := ss_completed st \<or> Suc n = length (cf_steps ?c)\<rparr> else st)"
        using \<open>map_of (va_sessions a) ?key = Some st\<close> st(1)
        by (auto simp: e advance_def Let_def updFunnel_def setSession_def map_of_assign)
      then show ?thesis using st match by (auto simp: stands_def def advanceBy_def)
    qed
  qed
qed

text \<open>The pages a session requests in a scenario, as far as they are observable.\<close>

definition visits :: "string \<Rightarrow> string \<Rightarrow> Event list \<Rightarrow> string list" where
  "visits scenario s evs =
     map eventPage (filter (\<lambda>e. observable e \<and> ev_Scenario e = scenario \<and> ev_Session e = s) evs)"

lemma stands_elsewhere:
  assumes inv: "flow_inv a" and i: "i < length (va_funnels a)" and m: "m < length (va_funnels a)"
    and at_n: "stands a i s n" and other: "m \<noteq> i \<or> s \<noteq> ev_Session event"
  shows "stands (observeFunnel page event m a) i s n"
proof -
  have "funnelKey (cf_definition (va_funnels a ! i)) s \<noteq> funnelKey (cf_definition (va_funnels a ! m)) (ev_Session event)"
  proof
    assume eq: "funnelKey (cf_definition (va_funnels a ! i)) s = funnelKey (cf_definition (va_funnels a ! m)) (ev_Session event)"
    have "NUL \<notin> set (fd_ID (cf_definition (va_funnels a ! i)))" "NUL \<notin> set (fd_ID (cf_definition (va_funnels a ! m)))"
      using inv i m by (simp_all add: flow_inv_def funnelOK_def)
    from funnelKey_inj [OF eq this] other have ids: "m \<noteq> i"
      "map (\<lambda>c. fd_ID (cf_definition c)) (va_funnels a) ! i = map (\<lambda>c. fd_ID (cf_definition c)) (va_funnels a) ! m"
      using i m by auto
    moreover have "distinct (map (\<lambda>c. fd_ID (cf_definition c)) (va_funnels a))" using inv by (simp add: flow_inv_def)
    ultimately show False using i m by (simp add: nth_eq_iff_index_eq del: nth_map)
  qed
  moreover have "cf_definition (va_funnels (observeFunnel page event m a) ! i) = cf_definition (va_funnels a ! i)"
    using sameFrame_observeFunnel [of a page event m] i by (simp add: sameFrame_def sameShape_def)
  ultimately show ?thesis using at_n by (simp add: stands_def observeFunnel_others)
qed

text \<open>Drops are counted without wrap-around as long as there are few enough events.\<close>

definition dropsWithin :: "int \<Rightarrow> Flow_Aggregator \<Rightarrow> bool" where
  "dropsWithin b a \<longleftrightarrow> 0 \<le> va_sessionDropped a \<and> va_sessionDropped a \<le> b"

lemma dropsWithin_step:
  assumes "dropsWithin b a" and "b + 1 \<le> int64_max"
  shows "dropsWithin (b + 1) (observeFunnel page event i a)"
    and "va_sessionDropped (observeFunnel page event i a) = 0 \<Longrightarrow>
      va_sessionDropped a = 0 \<and> va_sessionDropped (observeFunnel page event i a) \<noteq> wrap64 (va_sessionDropped a + 1)"
proof -
  have w: "wrap64 (va_sessionDropped a + 1) = va_sessionDropped a + 1"
    using assms by (intro wrap64_id) (simp add: dropsWithin_def go_defs)
  then show "dropsWithin (b + 1) (observeFunnel page event i a)"
    using observeFunnel_dropped [of page event i a] assms(1) by (auto simp: dropsWithin_def)
  show "va_sessionDropped (observeFunnel page event i a) = 0 \<Longrightarrow>
      va_sessionDropped a = 0 \<and> va_sessionDropped (observeFunnel page event i a) \<noteq> wrap64 (va_sessionDropped a + 1)"
    using observeFunnel_dropped [of page event i a] assms(1) w by (auto simp: dropsWithin_def)
qed

lemma dropsWithin_fold:
  assumes "dropsWithin b a" and "b + int (length is) \<le> int64_max"
  shows "dropsWithin (b + int (length is)) (fold (observeFunnel page event) is a) \<and>
    (va_sessionDropped (fold (observeFunnel page event) is a) = 0 \<longrightarrow> va_sessionDropped a = 0)"
  using assms
proof (induction "is" arbitrary: a b)
  case (Cons m "is")
  have b: "b + 1 \<le> int64_max" using Cons.prems(2) by simp
  show ?case
    using Cons.IH [OF dropsWithin_step(1) [OF Cons.prems(1) b, of page event m]] Cons.prems(2)
      dropsWithin_step(2) [OF Cons.prems(1) b, of page event m]
    by (auto simp: ac_simps)
qed simp

lemma fold_stands:
  assumes "flow_inv a" and "\<forall>m \<in> set is. m < length (va_funnels a)" and "distinct is"
    and "i < length (va_funnels a)" and "cf_within (va_funnels a ! i) = 0" and "stands a i s n"
    and "dropsWithin b a" and "b + int (length is) \<le> int64_max"
    and "va_sessionDropped (fold (observeFunnel page event) is a) = 0"
  shows "stands (fold (observeFunnel page event) is a) i s
      (if i \<in> set is \<and> s = ev_Session event then advanceBy (routesOf (va_funnels a ! i)) page n else n)"
  using assms
proof (induction "is" arbitrary: a n b)
  case (Cons m "is")
  let ?a = "observeFunnel page event m a"
  have m: "m < length (va_funnels a)" and m': "m \<notin> set is" using Cons.prems(2,3) by auto
  have shape: "sameShape (va_funnels a ! i) (va_funnels ?a ! i)" "length (va_funnels ?a) = length (va_funnels a)"
    using sameFrame_observeFunnel [of a page event m] Cons.prems(4) by (simp_all add: sameFrame_def)
  have routes: "routesOf (va_funnels ?a ! i) = routesOf (va_funnels a ! i)" using shape by (simp add: sameShape_def routesOf_def)
  define n' where "n' = (if m = i \<and> s = ev_Session event then advanceBy (routesOf (va_funnels a ! i)) page n else n)"
  have b: "b + 1 \<le> int64_max" "b + 1 + int (length is) \<le> int64_max" using Cons.prems(8) by simp_all
  have d: "dropsWithin (b + 1) ?a" by (rule dropsWithin_step(1) [OF Cons.prems(7) b(1)])
  have drop: "va_sessionDropped ?a = 0" using dropsWithin_fold [OF d b(2)] Cons.prems(9) by simp
  have kept: "va_sessionDropped ?a \<noteq> wrap64 (va_sessionDropped a + 1)"
    using dropsWithin_step(2) [OF Cons.prems(7) b(1) drop] by blast
  have "stands ?a i s n'"
  proof (cases "m = i \<and> s = ev_Session event")
    case True
    then show ?thesis using observeFunnel_stands [OF Cons.prems(1,4,5)] Cons.prems(6) kept by (simp add: n'_def)
  next
    case False
    then show ?thesis using stands_elsewhere [OF Cons.prems(1,4) m Cons.prems(6)] by (auto simp: n'_def)
  qed
  then have "stands (fold (observeFunnel page event) is ?a) i s
      (if i \<in> set is \<and> s = ev_Session event then advanceBy (routesOf (va_funnels ?a ! i)) page n' else n')"
    using Cons.IH [of ?a n' "b + 1"] flow_inv_observeFunnel [OF Cons.prems(1) m, of page event] Cons.prems shape d b
    by (simp add: sameShape_def)
  then have "stands (fold (observeFunnel page event) is ?a) i s
      (if i \<in> set is \<and> s = ev_Session event then advanceBy (routesOf (va_funnels a ! i)) page n' else n')"
    unfolding routes .
  then show ?case using m' by (cases "m = i") (auto simp: n'_def)
qed simp

lemma length_funnels_bounded:
  assumes "New_flow dur options = Inr a"
  shows "length (va_funnels a) \<le> MaxFunnels"
proof -
  from assms obtain opts where n: "normalized dur options = Inr opts"
    and a: "a = (if op_Enabled opts then fold (addFunnel dur) (cg_Funnels (op_Config opts)) (newFlow opts) else newFlow zeroOptions)"
    by (auto simp: New_flow_def split: sum.splits)
  show ?thesis
  proof (cases "op_Enabled opts")
    case True
    then have "Validate_flow dur (op_Config opts) = None"
      using n by (auto simp: normalized_def zeroOptions_def Let_def split: if_splits)
    then show ?thesis using True addFunnels_eq [of dur "cg_Funnels (op_Config opts)" opts] by (simp add: a Validate_flow_def)
  qed (simp add: a newFlow_def)
qed

lemma indices_bounded:
  assumes "scenarios_ok a" and "length (va_funnels a) \<le> MaxFunnels"
  shows "int (length (indicesFor a sc)) \<le> 16"
proof -
  have "length (indicesFor a sc) = card (set (indicesFor a sc))" using indicesFor_ok(1) [OF assms(1)] by (simp add: distinct_card)
  also have "\<dots> \<le> card {..<length (va_funnels a)}" unfolding indicesFor_ok(2) [OF assms(1)] by (intro card_mono) auto
  finally show ?thesis using assms(2) by simp
qed

lemma dropsWithin_Observe:
  assumes "scenarios_ok a" and "length (va_funnels a) \<le> MaxFunnels" and "dropsWithin b a" and "b + 16 \<le> int64_max"
  shows "dropsWithin (b + 16) (Observe_flow e a) \<and> (va_sessionDropped (Observe_flow e a) = 0 \<longrightarrow> va_sessionDropped a = 0)"
proof -
  let ?is = "indicesFor a (ev_Scenario e)"
  have "dropsWithin b (stamp e a)" "b + int (length ?is) \<le> int64_max"
    using assms indices_bounded [OF assms(1,2), of "ev_Scenario e"] by (simp_all add: dropsWithin_def)
  from dropsWithin_fold [OF this, of "eventPage e" e] show ?thesis
    using assms(3) indices_bounded [OF assms(1,2), of "ev_Scenario e"] by (auto simp: Observe_flow_eq dropsWithin_def)
qed

lemma run_frame:
  assumes new: "New_flow dur options = Inr a0"
  shows "flow_inv (fold Observe_flow evs a0)" "scenarios_ok (fold Observe_flow evs a0)" "sameFrame a0 (fold Observe_flow evs a0)"
    "length (va_funnels (fold Observe_flow evs a0)) \<le> MaxFunnels"
  using flow_inv_run New_flow_ok [OF new] length_funnels_bounded [OF new] by (auto simp: sameFrame_def)

lemma run_drops:
  assumes new: "New_flow dur options = Inr a0" and few: "16 * int (length evs) \<le> int64_max"
  shows "dropsWithin (16 * int (length evs)) (fold Observe_flow evs a0)"
  using few
proof (induction evs rule: rev_induct)
  case Nil
  then show ?case using New_flow_ok [OF new] by (simp add: dropsWithin_def)
next
  case (snoc e evs)
  have few: "16 * int (length evs) \<le> int64_max" "16 * int (length evs) + 16 \<le> int64_max" using snoc.prems by simp_all
  have "16 * int (length (evs @ [e])) = 16 * int (length evs) + 16" by simp
  then show ?case
    using dropsWithin_Observe [OF run_frame(2,4) [OF new, of evs] snoc.IH [OF few(1)] few(2), of e] by (simp add: add.commute)
qed

lemma run_stands:
  assumes new: "New_flow dur options = Inr a0" and enabled: "va_enabled a0"
    and i: "i < length (va_funnels a0)" and w: "cf_within (va_funnels a0 ! i) = 0"
    and few: "16 * int (length evs) \<le> int64_max" and none: "va_sessionDropped (fold Observe_flow evs a0) = 0"
  shows "stands (fold Observe_flow evs a0) i s
      (progress (routesOf (va_funnels a0 ! i)) (visits (fd_Scenario (cf_definition (va_funnels a0 ! i))) s evs))"
  using few none
proof (induction evs rule: rev_induct)
  case Nil
  then show ?case using New_flow_ok [OF new] by (simp add: stands_def visits_def progress_def)
next
  case (snoc e evs)
  let ?a = "fold Observe_flow evs a0" and ?routes = "routesOf (va_funnels a0 ! i)"
    and ?sc = "fd_Scenario (cf_definition (va_funnels a0 ! i))"
  note ok = run_frame [OF new, of evs]
  have few: "16 * int (length evs) \<le> int64_max" "16 * int (length evs) + 16 \<le> int64_max" using snoc.prems(1) by simp_all
  note drops = run_drops [OF new few(1)]
  have zero: "va_sessionDropped ?a = 0" using dropsWithin_Observe [OF ok(2,4) drops few(2), of e] snoc.prems(2) by simp
  note ih = snoc.IH [OF few(1) zero]
  show ?case
  proof (cases "observable e")
    case False
    then show ?thesis using ih by (simp add: Observe_flow_eq visits_def)
  next
    case True
    let ?is = "indicesFor ?a (ev_Scenario e)" and ?b = "stamp e ?a"
    have fr: "va_enabled ?a" "i < length (va_funnels ?a)" "sameShape (va_funnels a0 ! i) (va_funnels ?a ! i)"
      using ok(3) enabled i by (simp_all add: sameFrame_def)
    have eq: "Observe_flow e ?a = fold (observeFunnel (eventPage e) e) ?is ?b" using True fr(1) by (simp add: Observe_flow_eq)
    have mem: "i \<in> set ?is \<longleftrightarrow> ?sc = ev_Scenario e" using indicesFor_ok(2) [OF ok(2)] fr by (simp add: sameShape_def)
    have "stands (fold (observeFunnel (eventPage e) e) ?is ?b) i s
        (if i \<in> set ?is \<and> s = ev_Session e then advanceBy (routesOf (va_funnels ?b ! i)) (eventPage e) (progress ?routes (visits ?sc s evs))
         else progress ?routes (visits ?sc s evs))"
    proof (rule fold_stands [where b = "16 * int (length evs)"])
      show "flow_inv ?b" "i < length (va_funnels ?b)" "dropsWithin (16 * int (length evs)) ?b" "distinct ?is"
        using ok fr drops indicesFor_ok(1) [OF ok(2)] by (simp_all add: dropsWithin_def)
      show "cf_within (va_funnels ?b ! i) = 0" using w fr by (simp add: sameShape_def)
      show "stands ?b i s (progress ?routes (visits ?sc s evs))" using ih by (simp add: stands_def)
      show "\<forall>m \<in> set ?is. m < length (va_funnels ?b)" using indicesFor_ok(2) [OF ok(2)] by simp
      show "16 * int (length evs) + int (length ?is) \<le> int64_max" using indices_bounded [OF ok(2,4), of "ev_Scenario e"] few by linarith
      show "va_sessionDropped (fold (observeFunnel (eventPage e) e) ?is ?b) = 0" using snoc.prems(2) eq by simp
    qed
    moreover have "routesOf (va_funnels ?b ! i) = ?routes" using fr(3) by (simp add: sameShape_def routesOf_def)
    moreover have "visits ?sc s (evs @ [e]) =
        visits ?sc s evs @ (if ?sc = ev_Scenario e \<and> s = ev_Session e then [eventPage e] else [])"
      using True by (auto simp: visits_def)
    ultimately show ?thesis unfolding fold_append comp_def fold_simps eq mem
      by (cases "?sc = ev_Scenario e \<and> s = ev_Session e") (simp_all add: progress_snoc)
  qed
qed

lemma cnt_card:
  assumes "distinct (map fst ss)"
  shows "cnt P ss = int (card {k. \<exists>st. map_of ss k = Some st \<and> P st})"
  using assms
proof (induction ss)
  case (Cons kst ss)
  obtain k st where kst: "kst = (k, st)" by force
  have new: "map_of ss k = None" using Cons.prems kst by (simp add: map_of_eq_None_iff)
  define S where "S = {k'. \<exists>st'. map_of ss k' = Some st' \<and> P st'}"
  have fin: "finite S" unfolding S_def by (rule finite_subset [of _ "fst ` set ss"]) (force dest: map_of_SomeD)+
  have "k \<notin> S" using new by (simp add: S_def)
  moreover have "{k'. \<exists>st'. map_of (kst # ss) k' = Some st' \<and> P st'} = (if P st then insert k S else S)"
    using new by (auto simp: kst S_def)
  moreover have "cnt P (kst # ss) = (if P st then 1 else 0) + cnt P ss" by (simp add: cnt_def kst)
  moreover have "cnt P ss = int (card S)" using Cons by (simp add: S_def)
  ultimately show ?case using fin by (simp del: map_of.simps)
qed (simp add: cnt_def)

text \<open>The sessions that got past step \<open>j\<close>.\<close>

lemma sessions_past:
  assumes inv: "flow_inv a" and i: "i < length (va_funnels a)" and st: "\<And>s. stands a i s (f s)"
  shows "cnt (\<lambda>st. ss_funnel st = i \<and> j < ss_next st) (va_sessions a) = int (card {s. j < f s})"
proof -
  let ?key = "funnelKey (cf_definition (va_funnels a ! i))"
  have inj: "inj ?key" by (rule injI) (simp add: funnelKey_def)
  have "{k. \<exists>st. map_of (va_sessions a) k = Some st \<and> ss_funnel st = i \<and> j < ss_next st} = ?key ` {s. j < f s}"
  proof (intro set_eqI iffI)
    fix k assume "k \<in> {k. \<exists>st. map_of (va_sessions a) k = Some st \<and> ss_funnel st = i \<and> j < ss_next st}"
    then obtain w where w: "map_of (va_sessions a) k = Some w" "ss_funnel w = i" "j < ss_next w" by auto
    then obtain s where k: "k = ?key s"
      using inv by (fastforce simp: flow_inv_def sessionOK_def dest: map_of_SomeD)
    with w st [of s] have "j < f s" by (simp add: stands_def)
    with k show "k \<in> ?key ` {s. j < f s}" by simp
  next
    fix k assume "k \<in> ?key ` {s. j < f s}"
    then obtain s where k: "k = ?key s" "j < f s" by auto
    then obtain w where "map_of (va_sessions a) (?key s) = Some w" "ss_next w = f s"
      using st [of s] by (cases "map_of (va_sessions a) (?key s)") (auto simp: stands_def)
    then show "k \<in> {k. \<exists>st. map_of (va_sessions a) k = Some st \<and> ss_funnel st = i \<and> j < ss_next st}"
      using k key_funnel [OF inv i] by auto
  qed
  moreover have "distinct (map fst (va_sessions a))" using inv by (simp add: flow_inv_def)
  ultimately show ?thesis by (simp add: cnt_card card_image inj_on_subset [OF inj])
qed

text \<open>
  C19: A funnel counts what its definition says. For a funnel without a time window, as long as no
  session had to be dropped for lack of room, step \<open>j\<close> shows exactly the number of sessions whose
  observable requests in the funnel's scenario contain the first \<open>j + 1\<close> step routes in order, with
  anything in between; the entered count is the number of sessions that requested the first route,
  and the completed count the number of those that went through all routes in order.
\<close>

theorem funnel_counts_ordered_visits:
  assumes new: "New_flow dur options = Inr a0" and enabled: "va_enabled a0"
    and i: "i < length (va_funnels a0)" and w: "cf_within (va_funnels a0 ! i) = 0"
    and few: "16 * int (length evs) \<le> int64_max"
    and a: "a = fold Observe_flow evs a0" and none: "va_sessionDropped a = 0"
    and def: "def = cf_definition (va_funnels a0 ! i)" and routes: "routes = map sd_Route (fd_Steps def)"
  shows "(\<forall>j < length routes. ps_sessions (cf_steps (va_funnels a ! i) ! j) =
           int (card {s. subseq (take (Suc j) routes) (visits (fd_Scenario def) s evs)})) \<and>
         cf_entered (va_funnels a ! i) = int (card {s. hd routes \<in> set (visits (fd_Scenario def) s evs)}) \<and>
         cf_completed (va_funnels a ! i) = int (card {s. subseq routes (visits (fd_Scenario def) s evs)})"
proof -
  let ?c = "va_funnels a ! i"
  note ok = run_frame [OF new, of evs, folded a]
  have ia: "i < length (va_funnels a)" and shape: "sameShape (va_funnels a0 ! i) ?c" using ok(3) i by (simp_all add: sameFrame_def)
  have r: "routes = routesOf (va_funnels a0 ! i)" by (simp add: routes def routesOf_def)
  have st: "stands a i s (progress routes (visits (fd_Scenario def) s evs))" for s
    using run_stands [OF new enabled i w few] none unfolding a r def by blast
  note facts = counted_facts [OF ok(1) ia refl refl]
  have len: "length (cf_steps ?c) = length routes" using facts(8) shape by (simp add: routes def sameShape_def)
  have past: "ps_sessions (cf_steps ?c ! j) = int (card {s. subseq (take (Suc j) routes) (visits (fd_Scenario def) s evs)})"
    if "j < length routes" for j
  proof -
    have "ps_sessions (cf_steps ?c ! j) = cnt (\<lambda>st. ss_funnel st = i \<and> j < ss_next st) (va_sessions a)"
      using ok(1) ia that len by (simp add: flow_inv_def counted_def)
    also have "\<dots> = int (card {s. Suc j \<le> progress routes (visits (fd_Scenario def) s evs)})"
      using sessions_past [OF ok(1) ia st] by (simp add: Suc_le_eq)
    finally show ?thesis using that by (simp add: progress_subseq)
  qed
  obtain r0 rs where cons: "routes = r0 # rs" using facts(7) len by (cases routes) auto
  have "cf_entered ?c = int (card {s. hd routes \<in> set (visits (fd_Scenario def) s evs)})"
    using past [of 0] facts(1) cons by (simp add: subseq_singleton_left)
  moreover have "cf_completed ?c = int (card {s. subseq routes (visits (fd_Scenario def) s evs)})"
    using past [of "length routes - 1"] facts(2,7) len cons by simp
  ultimately show ?thesis using past by blast
qed

subsection \<open>A concrete funnel\<close>

definition exampleSteps :: "StepDefinition list" where
  "exampleSteps = [\<lparr>sd_ID = ''cart'', sd_Route = ''GET /a''\<rparr>, \<lparr>sd_ID = ''pay'', sd_Route = ''GET /b''\<rparr>]"

definition exampleOptions :: Options where
  "exampleOptions = \<lparr>op_Enabled = True, op_MaxNodes = 0, op_MaxEdges = 0, op_MaxSessions = 0,
     op_Config = \<lparr>cg_Version = 1, cg_Funnels = [\<lparr>fd_ID = ''buy'', fd_Scenario = ''shop'', fd_Mode = ''ordered'',
       fd_Within = [], fd_Steps = exampleSteps\<rparr>]\<rparr>\<rparr>"

definition visit :: "string \<Rightarrow> string \<Rightarrow> Event" where
  "visit s route = \<lparr>ev_Session = s, ev_Scenario = ''shop'', ev_Method = ''GET'', ev_Route = route, ev_Status = 200,
     ev_Latency = 5, ev_At = 0\<rparr>"

definition exampleVisits :: "Event list" where
  "exampleVisits = [visit ''u1'' ''/a'', visit ''u2'' ''/a'', visit ''u1'' ''/x'', visit ''u1'' ''/b'', visit ''u2'' ''/a'']"

definition exampleFlow :: Flow_Aggregator where
  "exampleFlow = (case New_flow (\<lambda>_. None) exampleOptions of Inr a \<Rightarrow> a | Inl _ \<Rightarrow> newFlow zeroOptions)"

lemma example_safe:
  "safeIDPattern ''buy''" "safeIDPattern ''shop''" "safeIDPattern ''cart''" "safeIDPattern ''pay''" "safeIDPattern ''u1''" "safeIDPattern ''u2''"
  by (simp_all add: safeIDPattern_def safeByte_def less_eq_char_def)

lemma example_window: "parseWindow dur [] = Inr 0"
  by (simp add: parseWindow_def strings_TrimSpace_def)

lemma example_new: "New_flow (\<lambda>_. None) exampleOptions = Inr exampleFlow"
proof -
  have "normalized (\<lambda>_. None) exampleOptions =
      Inr (exampleOptions\<lparr>op_MaxNodes := 16, op_MaxEdges := 48, op_MaxSessions := 10000\<rparr>)"
    by (simp add: normalized_def exampleOptions_def exampleSteps_def Validate_flow_def validateFunnel_def validateStep_def example_safe
        example_window example_routes utf8_ascii byte_def verdict_def loopErr.simps)
  then show ?thesis by (simp add: exampleFlow_def New_flow_def split: sum.split)
qed

definition exampleFunnel :: compiledFunnel where
  "exampleFunnel = \<lparr>cf_definition = \<lparr>fd_ID = ''buy'', fd_Scenario = ''shop'', fd_Mode = ''ordered'', fd_Within = [], fd_Steps = exampleSteps\<rparr>,
     cf_within = 0, cf_routeIndex = [(''GET /a'', 0), (''GET /b'', 1)], cf_steps = [zeroStep, zeroStep],
     cf_entered = 0, cf_completed = 0, cf_expired = 0\<rparr>"

lemma example_flow:
  "exampleFlow = \<lparr>va_enabled = True, va_maxNodes = 16, va_maxEdges = 48, va_maxSessions = 10000, va_funnels = [exampleFunnel],
     va_byScenario = [(''shop'', [0])], va_sessions = [], va_sessionDropped = 0, va_timingMissing = 0, va_latestObserved = 0\<rparr>"
proof -
  have "normalized (\<lambda>_. None) exampleOptions =
      Inr (exampleOptions\<lparr>op_MaxNodes := 16, op_MaxEdges := 48, op_MaxSessions := 10000\<rparr>)"
    by (simp add: normalized_def exampleOptions_def exampleSteps_def Validate_flow_def validateFunnel_def validateStep_def example_safe
        example_window example_routes utf8_ascii byte_def verdict_def loopErr.simps)
  then show ?thesis
    by (simp add: exampleFlow_def New_flow_def exampleOptions_def addFunnel_def newFlow_def compileFunnel_def example_window exampleSteps_def
        exampleFunnel_def assign_def)
qed

lemma example_observable:
  assumes "s \<in> {''u1'', ''u2''}" and "route \<in> {''/a'', ''/b'', ''/x''}"
  shows "observable (visit s route)"
  using assms example_safe example_routes by (auto simp: observable_def visit_def safeSession_def eventPage_def)

text \<open>While there is room no session is dropped.\<close>

lemma observeFunnel_room:
  "length (va_sessions (observeFunnel page event i a)) \<le> Suc (length (va_sessions a)) \<and>
   (int (length (va_sessions a)) < va_maxSessions a \<longrightarrow>
      va_sessionDropped (observeFunnel page event i a) = va_sessionDropped a)"
  by (simp add: observeFunnel_def enterFunnel_def advance_def Let_def updFunnel_def setSession_def length_assign split: option.split)

lemma fold_room:
  assumes "int (length (va_sessions a)) + int (length is) \<le> va_maxSessions a"
  shows "length (va_sessions (fold (observeFunnel page event) is a)) \<le> length (va_sessions a) + length is \<and>
    va_sessionDropped (fold (observeFunnel page event) is a) = va_sessionDropped a"
  using assms
proof (induction "is" arbitrary: a)
  case (Cons m "is")
  have "va_maxSessions (observeFunnel page event m a) = va_maxSessions a"
    using sameFrame_observeFunnel [of a page event m] by (simp add: sameFrame_def)
  then show ?case using Cons.IH [of "observeFunnel page event m a"] Cons.prems observeFunnel_room [of page event m a] by auto
qed simp

lemma run_room:
  assumes new: "New_flow dur options = Inr a0" and room: "16 * int (length evs) \<le> va_maxSessions a0"
  shows "length (va_sessions (fold Observe_flow evs a0)) \<le> 16 * length evs \<and> va_sessionDropped (fold Observe_flow evs a0) = 0"
  using room
proof (induction evs rule: rev_induct)
  case Nil
  then show ?case using New_flow_ok [OF new] by simp
next
  case (snoc e evs)
  let ?a = "fold Observe_flow evs a0" and ?is = "indicesFor (fold Observe_flow evs a0) (ev_Scenario e)"
  note ok = run_frame [OF new, of evs]
  have "va_maxSessions (stamp e ?a) = va_maxSessions a0" using ok(3) by (simp add: sameFrame_def stamp_def)
  moreover have "length ?is \<le> 16" using indices_bounded [OF ok(2,4), of "ev_Scenario e"] by simp
  ultimately show ?case
    using snoc fold_room [of "stamp e ?a" ?is "eventPage e" e] by (auto simp: Observe_flow_eq [of e ?a])
qed

theorem funnel_counts_ordered_visits_witness:
  "cf_completed (va_funnels (fold Observe_flow exampleVisits exampleFlow) ! 0) =
     int (card {s. subseq [''GET /a'', ''GET /b''] (visits ''shop'' s exampleVisits)}) \<and>
   visits ''shop'' ''u1'' exampleVisits = [''GET /a'', ''GET /x'', ''GET /b'']"
proof -
  have "va_sessionDropped (fold Observe_flow exampleVisits exampleFlow) = 0"
    using run_room [OF example_new, of exampleVisits] by (simp add: exampleVisits_def example_flow)
  moreover have "visits ''shop'' ''u1'' exampleVisits = [''GET /a'', ''GET /x'', ''GET /b'']"
    by (simp add: visits_def exampleVisits_def example_observable) (simp add: visit_def eventPage_def)
  ultimately show ?thesis
    using funnel_counts_ordered_visits [OF example_new, of 0 exampleVisits _ _ "[''GET /a'', ''GET /b'']", OF _ _ _ _ refl _ refl]
    by (simp add: example_flow exampleFunnel_def exampleSteps_def go_defs exampleVisits_def)
qed

theorem funnel_snapshot_consistent_witness:
  "fu_Completed (funnelSnapshot (va_funnels exampleFlow ! 0)) + fu_Expired (funnelSnapshot (va_funnels exampleFlow ! 0)) \<le>
     fu_Entered (funnelSnapshot (va_funnels exampleFlow ! 0)) \<and> 2 \<le> length (fu_Steps (funnelSnapshot (va_funnels exampleFlow ! 0)))"
proof -
  have "flow_reachable (\<lambda>_. None) exampleOptions exampleFlow" by (rule created [OF example_new])
  moreover have "funnelSnapshot (va_funnels exampleFlow ! 0) \<in> set (fl_Funnels (fst (Snapshot_flow [] exampleFlow)))"
    by (simp add: Snapshot_flow_def Let_def example_flow expireSilentSessions_def IsZero_def)
  ultimately show ?thesis using funnel_snapshot_consistent [OF _ _ refl refl] by blast
qed

text \<open>
  A session label of more than 64 bytes never enters a funnel, although \<open>safeSession\<close> means to allow
  128: the identifier pattern behind it stops at 64. Its requests change nothing, not even the count of
  dropped sessions.
\<close>

lemma long_session_ignored: "64 < length (ev_Session event) \<Longrightarrow> Observe_flow event a = a"
  by (simp add: safeSession_def safeIDPattern_def Observe_flow_def observable_def)

end
