(* ===== verification/Graph_Theorems.thy ===== *)
theory Graph_Theorems
  imports Flow_Viz
begin

text \<open>
  The bounded transition graph: whatever is folded into the node \<open>(other)\<close> or cut off is accounted
  for, and nodes and edges agree with each other.
\<close>

subsection \<open>Tallies\<close>

definition tally :: "(string \<times> int) list \<Rightarrow> (string \<times> int) list" where
  "tally kvs = fold (\<lambda>(k, v). addTo k v) kvs []"

definition psum :: "(string \<Rightarrow> bool) \<Rightarrow> (string \<times> int) list \<Rightarrow> int" where
  "psum P kvs = sum_list (map (\<lambda>(k, v). if P k then v else 0) kvs)"

abbreviation (input) "at_key k \<equiv> (\<lambda>k'. k' = k)"

definition gains :: "(string \<times> int) list \<Rightarrow> bool" where
  "gains kvs \<longleftrightarrow> (\<forall>kv \<in> set kvs. 0 < snd kv) \<and> psum (\<lambda>_. True) kvs \<le> int64_max"

lemma psum_append [simp]: "psum P (xs @ ys) = psum P xs + psum P ys"
  by (simp add: psum_def)

lemma psum_Cons [simp]: "psum P (kv # xs) = (if P (fst kv) then snd kv else 0) + psum P xs"
  by (simp add: psum_def case_prod_unfold)

lemma psum_Nil [simp]: "psum P [] = 0"
  by (simp add: psum_def)

lemma psum_mono: "(\<forall>kv \<in> set xs. 0 < snd kv) \<Longrightarrow> (\<And>k. P k \<Longrightarrow> Q k) \<Longrightarrow> 0 \<le> psum P xs \<and> psum P xs \<le> psum Q xs"
  by (induction xs) auto

lemma psum_split: "psum (\<lambda>k. P k \<and> Q k) xs + psum (\<lambda>k. P k \<and> \<not> Q k) xs = psum P xs"
  by (induction xs) auto

lemma gains_append: "gains (xs @ ys) \<Longrightarrow> gains xs"
  using psum_mono [of ys "\<lambda>_. True" "\<lambda>_. True"] by (auto simp: gains_def)

lemma saturatingAdd_exact: "0 \<le> x \<Longrightarrow> 0 < v \<Longrightarrow> x + v \<le> int64_max \<Longrightarrow> saturatingAdd x v = x + v"
  by (simp add: saturatingAdd_def wrap64_id go_defs)

lemma psum_alter:
  assumes "distinct (map fst xs)"
  shows "psum P (alter k 0 f xs) = psum P xs +
    (if P k then f (case map_of xs k of None \<Rightarrow> 0 | Some w \<Rightarrow> w) - (case map_of xs k of None \<Rightarrow> 0 | Some w \<Rightarrow> w) else 0)"
  using assms by (induction xs) (auto split: option.split)

lemma tally_exact:
  assumes "gains kvs"
  shows "distinct (map fst (tally kvs)) \<and> psum P (tally kvs) = psum P kvs \<and>
    map_of (tally kvs) k = (if k \<in> fst ` set kvs then Some (psum (at_key k) kvs) else None)"
  using assms
proof (induction kvs arbitrary: P k rule: rev_induct)
  case (snoc kv kvs)
  obtain k0 v where kv: "kv = (k0, v)" by force
  let ?old = "case map_of (tally kvs) k0 of None \<Rightarrow> 0 | Some w \<Rightarrow> w"
  have g: "gains kvs" using snoc.prems by (rule gains_append)
  have absent: "psum (at_key k) kvs = 0" if "k \<notin> fst ` set kvs" for k using that by (induction kvs) auto
  have old: "?old = psum (at_key k0) kvs" using snoc.IH [OF g, of _ k0] absent by simp
  have "psum (at_key k0) kvs + v \<le> psum (\<lambda>_. True) (kvs @ [kv])" "0 \<le> psum (at_key k0) kvs"
    using g psum_mono [of kvs "at_key k0" "\<lambda>_. True"] by (simp_all add: gains_def kv)
  then have sat: "saturatingAdd ?old v = ?old + v"
    using snoc.prems unfolding old by (intro saturatingAdd_exact) (auto simp: gains_def kv)
  have d: "distinct (map fst (tally kvs))" using snoc.IH [OF g] by blast
  have step: "tally (kvs @ [(k0, v)]) = alter k0 0 (\<lambda>x. saturatingAdd x v) (tally kvs)" by (simp add: tally_def addTo_def)
  have "psum P (tally (kvs @ [(k0, v)])) = psum P (tally kvs) + (if P k0 then saturatingAdd ?old v - ?old else 0)"
    unfolding step by (rule psum_alter [OF d])
  then have "psum P (tally (kvs @ [kv])) = psum P (kvs @ [kv])"
    using snoc.IH [OF g, of P k0] unfolding sat by (simp add: kv)
  moreover have "map_of (tally (kvs @ [kv])) k = (if k \<in> fst ` set (kvs @ [kv]) then Some (psum (at_key k) (kvs @ [kv])) else None)"
    using snoc.IH [OF g, of _ k] sat old absent by (simp add: step map_of_alter kv)
  ultimately show ?case using distinct_alter [OF d] by (simp add: step kv)
qed (simp add: tally_def)

lemma tally_keys: "gains kvs \<Longrightarrow> fst ` set (tally kvs) = fst ` set kvs"
proof -
  assume "gains kvs"
  then have "k \<in> fst ` set (tally kvs) \<longleftrightarrow> k \<in> fst ` set kvs" for k
    using tally_exact [of kvs _ k] map_of_eq_None_iff [of "tally kvs" k] by (auto split: if_splits)
  then show ?thesis by blast
qed

lemma psum_at_pos: "\<forall>kv \<in> set xs. 0 < snd kv \<Longrightarrow> k \<in> fst ` set xs \<Longrightarrow> 0 < psum (at_key k) xs"
proof (induction xs)
  case (Cons kv xs)
  have "0 \<le> psum (at_key k) xs" using Cons.prems psum_mono [of xs "at_key k" "at_key k"] by simp
  then show ?case using Cons by (cases "fst kv = k") (auto intro: add_pos_nonneg)
qed simp

lemma tally_pos:
  assumes "gains kvs" and "(k, n) \<in> set (tally kvs)"
  shows "0 < n \<and> n = psum (at_key k) kvs"
proof -
  have "map_of (tally kvs) k = Some n" using tally_exact [OF assms(1)] assms(2) by (blast intro: map_of_is_SomeI)
  moreover have "k \<in> fst ` set kvs" using tally_keys [OF assms(1)] assms(2) by force
  ultimately have n: "n = psum (at_key k) kvs" "k \<in> fst ` set kvs"
    using tally_exact [OF assms(1), of "\<lambda>_. True" k] by simp_all
  then show ?thesis using psum_at_pos [of kvs k] assms(1) by (simp add: gains_def)
qed

text \<open>The end points of transitions with their counts.\<close>

definition ends :: "Transition list \<Rightarrow> (string \<times> int) list" where
  "ends ts = concat (map (\<lambda>t. [(tr_From t, tr_Count t), (tr_To t, tr_Count t)]) ts)"

definition total :: "Transition list \<Rightarrow> int" where
  "total ts = sum_list (map tr_Count ts)"

lemma fold_addEnds: "fold addEnds ts [] = tally (ends ts)"
proof -
  have "fold addEnds ts m = fold (\<lambda>(k, v). addTo k v) (ends ts) m" for m
    by (induction ts arbitrary: m) (simp_all add: ends_def addEnds_def)
  then show ?thesis by (simp add: tally_def)
qed

lemma ends_sum: "psum (\<lambda>_. True) (ends ts) = 2 * total ts"
  by (induction ts) (simp_all add: ends_def total_def)

lemma gains_ends: "\<forall>t \<in> set ts. 0 < tr_Count t \<Longrightarrow> 2 * total ts \<le> int64_max \<Longrightarrow> gains (ends ts)"
  by (auto simp: gains_def ends_sum) (auto simp: ends_def)

lemma countEdges_tally: "countEdges kept ts = tally (map (\<lambda>t. (foldedKey kept t, tr_Count t)) ts)"
proof -
  have "fold (\<lambda>t. addTo (foldedKey kept t) (tr_Count t)) ts m = fold (\<lambda>(k, v). addTo k v) (map (\<lambda>t. (foldedKey kept t, tr_Count t)) ts) m" for m
    by (induction ts arbitrary: m) simp_all
  then show ?thesis by (simp add: tally_def countEdges_def)
qed

lemma total_pos: "\<forall>t \<in> set ts. 0 < tr_Count t \<Longrightarrow> 0 \<le> total ts"
  unfolding total_def by (intro sum_list_nonneg) auto

subsection \<open>Edges\<close>

definition plain :: "Transition list \<Rightarrow> bool" where
  "plain ts \<longleftrightarrow> (\<forall>t \<in> set ts. 0 < tr_Count t \<and> NUL \<notin> set (tr_From t) \<and> NUL \<notin> set (tr_To t))"

definition clean :: "Transition \<Rightarrow> bool" where
  "clean e \<longleftrightarrow> tr_From e \<noteq> OtherNode \<and> tr_To e \<noteq> OtherNode"

lemma split_edgeKey: "NUL \<notin> set src \<Longrightarrow> splitTransitionKey (edgeKey src dst) = (src, dst)"
proof -
  assume "NUL \<notin> set src"
  then have "find_index (\<lambda>x. x = NUL) (src @ NUL # dst) = Some (length src)" by (induction src) auto
  then show ?thesis by (simp add: splitTransitionKey_def edgeKey_def strings_IndexByte_def)
qed

lemma no_NUL_other: "NUL \<notin> set OtherNode"
  by simp

lemma foldNode_no_NUL: "NUL \<notin> set s \<Longrightarrow> NUL \<notin> set (foldNode kept s)"
  by (simp add: foldNode_def)

lemma foldedKey_inj:
  assumes "plain ts" and "t \<in> set ts" and "u \<in> set ts"
  shows "foldedKey kept t = foldedKey kept u \<longleftrightarrow>
    foldNode kept (tr_From t) = foldNode kept (tr_From u) \<and> foldNode kept (tr_To t) = foldNode kept (tr_To u)"
proof -
  have "NUL \<notin> set (foldNode kept (tr_From t))" "NUL \<notin> set (foldNode kept (tr_From u))"
    using assms by (auto simp: plain_def intro!: foldNode_no_NUL)
  from this [THEN split_edgeKey] show ?thesis unfolding foldedKey_def by (metis prod.inject)
qed

lemma total_filter: "total (filter (\<lambda>t. P (key t)) ts) = psum P (map (\<lambda>t. (key t, tr_Count t)) ts)"
  by (induction ts) (simp_all add: total_def)

lemma total_append: "total (xs @ ys) = total xs + total ys"
  by (simp add: total_def)

lemma total_mset: "mset xs = mset ys \<Longrightarrow> total xs = total ys"
  unfolding total_def by (metis mset_map sum_mset_sum_list)

lemma total_filter_le: "\<forall>t \<in> set ts. 0 < tr_Count t \<Longrightarrow> 0 \<le> total (filter P ts) \<and> total (filter P ts) \<le> total ts"
  by (induction ts) (auto simp: total_def)

lemma total_split: "total (filter P ts) + total (filter (\<lambda>t. \<not> P t) ts) = total ts"
  by (induction ts) (auto simp: total_def)

lemma isHidden_clean:
  assumes "OtherNode \<notin> kept"
  shows "isHidden kept t \<longleftrightarrow> foldNode kept (tr_From t) = OtherNode \<or> foldNode kept (tr_To t) = OtherNode"
  using assms by (auto simp: isHidden_def foldNode_def)

lemma gains_keys: "plain ts \<Longrightarrow> total ts \<le> int64_max \<Longrightarrow> gains (map (\<lambda>t. (key t, tr_Count t)) ts)"
  using total_filter [of "\<lambda>_. True" key ts] by (simp add: gains_def plain_def)

lemma edge_fields:
  assumes p: "plain ts" and b: "total ts \<le> int64_max" and kn: "kn \<in> set (countEdges kept ts)"
  obtains t where "t \<in> set ts" "fst kn = foldedKey kept t" "tr_From (edgeOf kn) = foldNode kept (tr_From t)"
    "tr_To (edgeOf kn) = foldNode kept (tr_To t)" "tr_Count (edgeOf kn) = snd kn" "0 < snd kn"
    "snd kn = total (filter (\<lambda>u. foldedKey kept u = fst kn) ts)"
proof -
  let ?kvs = "map (\<lambda>t. (foldedKey kept t, tr_Count t)) ts"
  have g: "gains ?kvs" by (rule gains_keys [OF p b])
  obtain k n where e: "kn = (k, n)" by force
  have mem: "(k, n) \<in> set (tally ?kvs)" using kn by (simp only: countEdges_tally e)
  from tally_pos [OF g mem] have n: "0 < n" "n = psum (at_key k) ?kvs" by blast+
  have "k \<in> fst ` set (tally ?kvs)" using imageI [OF mem, of fst] by simp
  then have "k \<in> foldedKey kept ` set ts" unfolding tally_keys [OF g] by (simp only: set_map image_image fst_conv)
  then obtain t where t: "t \<in> set ts" "k = foldedKey kept t" by blast
  have "NUL \<notin> set (foldNode kept (tr_From t))" using p t(1) by (auto simp: plain_def intro!: foldNode_no_NUL)
  then have "splitTransitionKey k = (foldNode kept (tr_From t), foldNode kept (tr_To t))"
    unfolding t(2) foldedKey_def by (rule split_edgeKey)
  moreover have "n = total (filter (\<lambda>u. foldedKey kept u = k) ts)"
    using n(2) total_filter [of "at_key k" "foldedKey kept" ts] by simp
  ultimately show ?thesis using that [of t] t n(1) by (simp add: e edgeOf_def)
qed

lemma edge_cases:
  assumes p: "plain ts" and b: "total ts \<le> int64_max" and e: "e \<in> set (map edgeOf (countEdges kept ts))"
  shows "\<exists>t \<in> set ts. tr_From e = foldNode kept (tr_From t) \<and> tr_To e = foldNode kept (tr_To t)" and "0 < tr_Count e"
    and "tr_Count e = total (filter (\<lambda>t. foldNode kept (tr_From t) = tr_From e \<and> foldNode kept (tr_To t) = tr_To e) ts)"
proof -
  from e obtain kn where kn: "kn \<in> set (countEdges kept ts)" "e = edgeOf kn" by (simp only: set_map) blast
  from edge_fields [OF p b kn(1)] obtain t where t: "t \<in> set ts" "fst kn = foldedKey kept t"
    "tr_From e = foldNode kept (tr_From t)" "tr_To e = foldNode kept (tr_To t)" "tr_Count e = snd kn" "0 < snd kn"
    "snd kn = total (filter (\<lambda>u. foldedKey kept u = fst kn) ts)"
    unfolding kn(2) by blast
  then show "\<exists>t \<in> set ts. tr_From e = foldNode kept (tr_From t) \<and> tr_To e = foldNode kept (tr_To t)" "0 < tr_Count e" by auto
  have "filter (\<lambda>u. foldNode kept (tr_From u) = tr_From e \<and> foldNode kept (tr_To u) = tr_To e) ts =
      filter (\<lambda>u. foldedKey kept u = fst kn) ts"
    using foldedKey_inj [OF p _ t(1)] unfolding t(2-4) by (intro filter_cong) auto
  then show "tr_Count e = total (filter (\<lambda>t. foldNode kept (tr_From t) = tr_From e \<and> foldNode kept (tr_To t) = tr_To e) ts)"
    using t(5,7) by simp
qed

lemma edges_key_total:
  assumes p: "plain ts" and b: "total ts \<le> int64_max"
  shows "total (filter (\<lambda>e. P (edgeKey (tr_From e) (tr_To e))) (map edgeOf (countEdges kept ts))) =
    total (filter (\<lambda>t. P (foldedKey kept t)) ts)"
    and "distinct (map (\<lambda>e. (tr_From e, tr_To e)) (map edgeOf (countEdges kept ts)))"
proof -
  let ?kvs = "map (\<lambda>t. (foldedKey kept t, tr_Count t)) ts"
  note exact = tally_exact [OF gains_keys [OF p b, of "foldedKey kept"]]
  have read: "edgeKey (tr_From (edgeOf kn)) (tr_To (edgeOf kn)) = fst kn \<and> tr_Count (edgeOf kn) = snd kn"
    if "kn \<in> set (countEdges kept ts)" for kn
    using edge_fields [OF p b that] by (metis foldedKey_def)
  have "\<forall>kn \<in> set xs. edgeKey (tr_From (edgeOf kn)) (tr_To (edgeOf kn)) = fst kn \<and> tr_Count (edgeOf kn) = snd kn \<Longrightarrow>
      total (filter (\<lambda>e. P (edgeKey (tr_From e) (tr_To e))) (map edgeOf xs)) = psum P xs" for xs
    by (induction xs) (simp_all add: total_def)
  then have "total (filter (\<lambda>e. P (edgeKey (tr_From e) (tr_To e))) (map edgeOf (countEdges kept ts))) = psum P (countEdges kept ts)"
    using read by blast
  also have "\<dots> = total (filter (\<lambda>t. P (foldedKey kept t)) ts)"
    unfolding countEdges_tally total_filter using exact by blast
  finally show "total (filter (\<lambda>e. P (edgeKey (tr_From e) (tr_To e))) (map edgeOf (countEdges kept ts))) =
      total (filter (\<lambda>t. P (foldedKey kept t)) ts)" .
  have d: "distinct (map fst (countEdges kept ts))" unfolding countEdges_tally using exact by blast
  have "map fst (countEdges kept ts) = map (\<lambda>(x, y). edgeKey x y) (map (\<lambda>e. (tr_From e, tr_To e)) (map edgeOf (countEdges kept ts)))"
    using read by simp
  with d show "distinct (map (\<lambda>e. (tr_From e, tr_To e)) (map edgeOf (countEdges kept ts)))"
    by (metis distinct_map)
qed

subsection \<open>What is hidden\<close>

lemma edgeHidden_spec:
  "map_of (edgeHidden kept ts) k =
     (if \<exists>t \<in> set ts. foldedKey kept t = k then Some (\<exists>t \<in> set ts. foldedKey kept t = k \<and> isHidden kept t) else None)"
proof (induction ts rule: rev_induct)
  case (snoc t ts)
  have "edgeHidden kept (ts @ [t]) = alter (foldedKey kept t) False (\<lambda>b. b \<or> isHidden kept t) (edgeHidden kept ts)"
    by (simp add: edgeHidden_def)
  then show ?case using snoc by (auto simp: map_of_alter split: if_splits)
qed (simp add: edgeHidden_def)

lemma flag_clean:
  assumes p: "plain ts" and b: "total ts \<le> int64_max" and other: "OtherNode \<notin> kept"
    and e: "e \<in> set (map edgeOf (countEdges kept ts))"
  shows "map_of (edgeHidden kept ts) (edgeKey (tr_From e) (tr_To e)) = Some True \<longleftrightarrow> \<not> clean e"
proof -
  from edge_cases(1) [OF p b e] obtain t where t: "t \<in> set ts" "tr_From e = foldNode kept (tr_From t)" "tr_To e = foldNode kept (tr_To t)"
    by blast
  have k: "edgeKey (tr_From e) (tr_To e) = foldedKey kept t" by (simp add: t foldedKey_def)
  have "isHidden kept u \<longleftrightarrow> \<not> clean e" if "u \<in> set ts" "foldedKey kept u = foldedKey kept t" for u
    using foldedKey_inj [OF p that(1) t(1)] that(2) isHidden_clean [OF other, of u] t(2,3) by (auto simp: clean_def)
  then show ?thesis unfolding edgeHidden_spec k using t(1) by auto
qed

lemma hiddenByFolding_exact:
  assumes "plain ts" and "total ts \<le> int64_max"
  shows "hiddenByFolding kept ts = total (filter (isHidden kept) ts)"
  using assms
proof (induction ts rule: rev_induct)
  case (snoc t ts)
  have pos: "\<forall>u \<in> set ts. 0 < tr_Count u" "0 < tr_Count t" and p: "plain ts" using snoc.prems(1) by (auto simp: plain_def)
  have le: "0 \<le> total (filter (isHidden kept) ts)" "total (filter (isHidden kept) ts) + tr_Count t \<le> int64_max"
    using total_filter_le [OF pos(1), of "isHidden kept"] snoc.prems(2) pos(2) by (simp_all add: total_append) (simp add: total_def)
  have "total ts \<le> int64_max" using snoc.prems(2) pos(2) by (simp add: total_append) (simp add: total_def)
  then have "hiddenByFolding kept ts = total (filter (isHidden kept) ts)" using snoc.IH p by blast
  moreover have "hiddenByFolding kept (ts @ [t]) =
      (if isHidden kept t then saturatingAdd (hiddenByFolding kept ts) (tr_Count t) else hiddenByFolding kept ts)"
    by (simp add: hiddenByFolding_def)
  ultimately show ?case using saturatingAdd_exact [OF le(1) pos(2) le(2)] by (simp add: total_append) (simp add: total_def)
qed (simp add: hiddenByFolding_def total_def)

lemma hiddenByCut_exact:
  assumes "\<forall>e \<in> set es. 0 < tr_Count e \<and> (map_of hidden (edgeKey (tr_From e) (tr_To e)) = Some True \<longleftrightarrow> \<not> clean e)"
    and "0 \<le> n0" and "n0 + total (filter clean es) \<le> int64_max"
  shows "hiddenByCut hidden es n0 = n0 + total (filter clean es)"
  using assms
proof (induction es arbitrary: n0)
  case (Cons e es)
  have "0 \<le> total (filter clean es)" using total_filter_le [of es clean] Cons.prems(1) by auto
  then have "clean e \<Longrightarrow> saturatingAdd n0 (tr_Count e) = n0 + tr_Count e"
    using Cons.prems by (intro saturatingAdd_exact) (auto simp: total_def)
  then show ?case
    using Cons.IH [of n0] Cons.IH [of "n0 + tr_Count e"] Cons.prems by (cases "clean e") (auto simp: hiddenByCut_def total_def)
qed (simp add: hiddenByCut_def total_def)

text \<open>The graph's parts under their own names.\<close>

definition keptNames :: "Transition list \<Rightarrow> nat \<Rightarrow> string list" where
  "keptNames valid maxNodes =
     (let ranked = map fst (sort_key rankOrder (fold addEnds valid []))
      in take (if length ranked > maxNodes then maxNodes - 1 else length ranked) ranked)"

definition allEdges :: "Transition list \<Rightarrow> nat \<Rightarrow> Transition list" where
  "allEdges valid maxNodes = sort_key edgeOrder (map edgeOf (countEdges (set (keptNames valid maxNodes)) valid))"

definition names :: "Transition list \<Rightarrow> string set" where
  "names ts = tr_From ` set ts \<union> tr_To ` set ts"

lemma fst_ends: "fst ` set (ends ts) = names ts"
  by (induction ts) (auto simp: ends_def names_def)

lemma BuildGraph_parts:
  fixes transitions maxNodes0 maxEdges0
  defines "valid \<equiv> filter validTransition transitions"
    and "mn \<equiv> clampLimit 2 DefaultMaxNodes HardMaxNodes maxNodes0" and "me \<equiv> clampLimit 1 DefaultMaxEdges HardMaxEdges maxEdges0"
  shows "gs_Edges (BuildGraph transitions maxNodes0 maxEdges0) = take me (allEdges valid mn)"
    and "gs_HiddenCount (BuildGraph transitions maxNodes0 maxEdges0) =
      hiddenByCut (edgeHidden (set (keptNames valid mn)) valid) (drop me (allEdges valid mn)) (hiddenByFolding (set (keptNames valid mn)) valid)"
    and "gs_Nodes (BuildGraph transitions maxNodes0 maxEdges0) =
      (let visible = fold addEnds (take me (allEdges valid mn)) [] in
       visibleNodes visible (keptNames valid mn) @
       (if length (fold addEnds valid []) > mn then visibleNodes visible [OtherNode] else []))"
  by (simp_all add: BuildGraph_def Let_def valid_def mn_def me_def allEdges_def keptNames_def)

lemma clamp_bounds: "2 \<le> clampLimit 2 DefaultMaxNodes HardMaxNodes n \<and> clampLimit 2 DefaultMaxNodes HardMaxNodes n \<le> 32"
  "1 \<le> clampLimit 1 DefaultMaxEdges HardMaxEdges m \<and> clampLimit 1 DefaultMaxEdges HardMaxEdges m \<le> 128"
  by (auto simp: clampLimit_def)

lemma keptNames_facts:
  assumes "plain valid" and "2 * total valid \<le> int64_max"
  shows "set (keptNames valid mn) \<subseteq> names valid" and "distinct (keptNames valid mn)"
    and "length (keptNames valid mn) \<le> (if length (fold addEnds valid []) > mn then mn - 1 else mn)"
    and "\<not> length (fold addEnds valid []) > mn \<Longrightarrow> set (keptNames valid mn) = names valid"
proof -
  have g: "gains (ends valid)" using assms by (intro gains_ends) (auto simp: plain_def)
  let ?ranked = "map fst (sort_key rankOrder (tally (ends valid)))"
  have s: "set ?ranked = names valid" using tally_keys [OF g] by (simp add: fst_ends)
  have "distinct (map fst (tally (ends valid)))" using tally_exact [OF g] by blast
  moreover have "mset ?ranked = mset (map fst (tally (ends valid)))" by simp
  ultimately have d: "distinct ?ranked" by (metis mset_eq_imp_distinct_iff)
  show "set (keptNames valid mn) \<subseteq> names valid" using s set_take_subset by (fastforce simp: keptNames_def Let_def fold_addEnds)
  show "distinct (keptNames valid mn)" using d by (simp add: keptNames_def Let_def fold_addEnds)
  show "length (keptNames valid mn) \<le> (if length (fold addEnds valid []) > mn then mn - 1 else mn)"
    by (auto simp: keptNames_def Let_def fold_addEnds)
  show "\<not> length (fold addEnds valid []) > mn \<Longrightarrow> set (keptNames valid mn) = names valid"
    using s by (simp add: keptNames_def Let_def fold_addEnds)
qed

lemma other_invalid: "\<not> validNode OtherNode"
  by (simp add: validNode_def routePattern_def Let_def upperByte_def less_eq_char_def)

definition endCount :: "string \<Rightarrow> Transition list \<Rightarrow> int" where
  "endCount name es = total (filter (\<lambda>e. tr_From e = name) es) + total (filter (\<lambda>e. tr_To e = name) es)"

lemma psum_ends: "psum (at_key name) (ends es) = endCount name es"
  by (induction es) (simp_all add: ends_def endCount_def total_def)

lemma visible_total:
  assumes "\<forall>e \<in> set es. 0 < tr_Count e" and "2 * total es \<le> int64_max"
  shows "readTotal (fold addEnds es []) name = endCount name es"
    and "0 < readTotal (fold addEnds es []) name \<longleftrightarrow> name \<in> names es"
proof -
  have g: "gains (ends es)" by (rule gains_ends [OF assms])
  have m: "map_of (tally (ends es)) name = (if name \<in> names es then Some (endCount name es) else None)"
    using tally_exact [OF g, of "\<lambda>_. True" name] by (simp add: fst_ends psum_ends)
  have "endCount name es = 0" if "name \<notin> names es"
    using that by (induction es) (auto simp: endCount_def names_def total_def)
  then show r: "readTotal (fold addEnds es []) name = endCount name es" by (simp add: readTotal_def fold_addEnds m)
  have "0 < endCount name es" if "name \<in> names es"
    using psum_at_pos [of "ends es" name] that g by (simp add: fst_ends psum_ends gains_def)
  then show "0 < readTotal (fold addEnds es []) name \<longleftrightarrow> name \<in> names es"
    using \<open>name \<notin> names es \<Longrightarrow> endCount name es = 0\<close> by (cases "name \<in> names es") (simp_all add: r)
qed

lemma allEdges_facts:
  assumes p: "plain valid" and b: "2 * total valid \<le> int64_max" and v: "\<forall>t \<in> set valid. validNode (tr_From t) \<and> validNode (tr_To t)"
    and k: "kept = set (keptNames valid mn)"
  shows "total (allEdges valid mn) = total valid" and "total (filter clean (allEdges valid mn)) = total (filter (\<lambda>t. \<not> isHidden kept t) valid)"
    and "OtherNode \<notin> kept" and "distinct (map (\<lambda>e. (tr_From e, tr_To e)) (allEdges valid mn))"
    and "e \<in> set (allEdges valid mn) \<Longrightarrow> e \<in> set (map edgeOf (countEdges kept valid))"
proof -
  have b1: "total valid \<le> int64_max" using b total_pos [of valid] p by (simp add: plain_def)
  let ?es = "map edgeOf (countEdges kept valid)"
  have m: "mset (allEdges valid mn) = mset ?es" by (simp add: allEdges_def k)
  show "OtherNode \<notin> kept"
    using keptNames_facts(1) [OF p b, of mn] v other_invalid by (auto simp: k names_def)
  note other = this
  note keys = edges_key_total [OF p b1, where kept = kept]
  have "total ?es = total valid" using keys(1) [of "\<lambda>_. True"] by simp
  then show "total (allEdges valid mn) = total valid" using total_mset [OF m] by simp
  have "filter clean ?es = filter (\<lambda>e. map_of (edgeHidden kept valid) (edgeKey (tr_From e) (tr_To e)) \<noteq> Some True) ?es"
  proof (rule filter_cong [OF refl])
    fix e assume "e \<in> set ?es"
    then show "clean e = (map_of (edgeHidden kept valid) (edgeKey (tr_From e) (tr_To e)) \<noteq> Some True)"
      using flag_clean [OF p b1 other] by blast
  qed
  moreover have "filter (\<lambda>t. map_of (edgeHidden kept valid) (foldedKey kept t) \<noteq> Some True) valid = filter (\<lambda>t. \<not> isHidden kept t) valid"
  proof (rule filter_cong)
    fix t assume t: "t \<in> set valid"
    have "isHidden kept u = isHidden kept t" if "u \<in> set valid" "foldedKey kept u = foldedKey kept t" for u
      using foldedKey_inj [OF p that(1) t] that(2) isHidden_clean [OF other] by simp
    then have "(\<exists>u \<in> set valid. foldedKey kept u = foldedKey kept t \<and> isHidden kept u) = isHidden kept t" using t by blast
    then show "(map_of (edgeHidden kept valid) (foldedKey kept t) \<noteq> Some True) = (\<not> isHidden kept t)"
      using t by (auto simp: edgeHidden_spec)
  qed simp
  ultimately have "total (filter clean ?es) = total (filter (\<lambda>t. \<not> isHidden kept t) valid)"
    using keys(1) [of "\<lambda>key. map_of (edgeHidden kept valid) key \<noteq> Some True"] by simp
  moreover have "mset (filter clean (allEdges valid mn)) = mset (filter clean ?es)" using m by (simp only: mset_filter)
  ultimately show "total (filter clean (allEdges valid mn)) = total (filter (\<lambda>t. \<not> isHidden kept t) valid)"
    using total_mset by metis
  have "mset (map (\<lambda>e. (tr_From e, tr_To e)) (allEdges valid mn)) = mset (map (\<lambda>e. (tr_From e, tr_To e)) ?es)" using m by (simp only: mset_map)
  then show "distinct (map (\<lambda>e. (tr_From e, tr_To e)) (allEdges valid mn))" using keys(2) mset_eq_imp_distinct_iff by metis
  show "e \<in> set (allEdges valid mn) \<Longrightarrow> e \<in> set ?es" using m by (metis set_mset_mset)
qed

lemma cut_total: "total (filter P (take m es)) + total (filter P (drop m es)) = total (filter P es)"
  by (metis append_take_drop_id filter_append total_append)

lemma edge_ends:
  assumes "plain valid" and "total valid \<le> int64_max" and "e \<in> set (map edgeOf (countEdges kept valid))" and "x \<in> {tr_From e, tr_To e}"
  shows "x = OtherNode \<or> x \<in> kept" and "names valid \<subseteq> kept \<Longrightarrow> x \<in> kept"
  using edge_cases(1) [OF assms(1-3)] assms(4) by (auto simp: foldNode_def names_def)

lemma visibleNodes_facts:
  "gn_ID ` set (visibleNodes tbl ns) = {x \<in> set ns. 0 < readTotal tbl x}" "distinct ns \<Longrightarrow> distinct (map gn_ID (visibleNodes tbl ns))"
  "length (visibleNodes tbl ns) \<le> length ns" "n \<in> set (visibleNodes tbl ns) \<Longrightarrow> gn_Count n = readTotal tbl (gn_ID n)"
  by (auto simp: visibleNodes_def comp_def image_image)

lemma graph_nodes:
  assumes p: "plain valid" and b: "2 * total valid \<le> int64_max" and v: "\<forall>t \<in> set valid. validNode (tr_From t) \<and> validNode (tr_To t)"
    and ve: "ve = take me (allEdges valid mn)" and mn: "2 \<le> mn"
    and nodes: "nodes = visibleNodes (fold addEnds ve []) (keptNames valid mn) @
      (if length (fold addEnds valid []) > mn then visibleNodes (fold addEnds ve []) [OtherNode] else [])"
  shows "length nodes \<le> mn" and "distinct (map gn_ID nodes)" and "gn_ID ` set nodes = names ve"
    and "n \<in> set nodes \<Longrightarrow> gn_Count n = endCount (gn_ID n) ve"
proof -
  define kept where "kept = set (keptNames valid mn)"
  note kn = keptNames_facts [OF p b, of mn, folded kept_def] and ae = allEdges_facts [OF p b v kept_def]
  have b1: "total valid \<le> int64_max" using b total_pos [of valid] p by (simp add: plain_def)
  have mem: "e \<in> set (map edgeOf (countEdges kept valid))" if "e \<in> set ve" for e
    using that ae(5) set_take_subset [of me "allEdges valid mn"] unfolding ve by blast
  have pos: "\<forall>e \<in> set ve. 0 < tr_Count e" using mem edge_cases(2) [OF p b1] by blast
  have "\<forall>e \<in> set (allEdges valid mn). 0 < tr_Count e" using ae(5) edge_cases(2) [OF p b1] by blast
  then have "0 \<le> total (drop me (allEdges valid mn))" by (intro total_pos) (auto dest: in_set_dropD)
  then have fit: "2 * total ve \<le> int64_max"
    using cut_total [of "\<lambda>_. True" me "allEdges valid mn"] ae(1) b by (simp add: ve)
  note vis = visible_total [OF pos fit]
  have sub: "names ve \<subseteq> insert OtherNode kept"
    using edge_ends(1) [OF p b1 mem] by (auto simp: names_def)
  have whole: "names ve \<subseteq> kept" if "\<not> length (fold addEnds valid []) > mn"
    using edge_ends(2) [OF p b1 mem] kn(4) [OF that] by (auto simp: names_def)
  show "gn_ID ` set nodes = names ve"
  proof (cases "length (fold addEnds valid []) > mn")
    case True
    then have "gn_ID ` set nodes = {x \<in> kept. x \<in> names ve} \<union> {x \<in> {OtherNode}. x \<in> names ve}"
      by (simp add: nodes image_Un visibleNodes_facts(1) vis(2) kept_def)
    then show ?thesis using sub by blast
  next
    case False
    then have "gn_ID ` set nodes = {x \<in> kept. x \<in> names ve}" by (simp add: nodes visibleNodes_facts(1) vis(2) kept_def)
    then show ?thesis using whole [OF False] by blast
  qed
  show "distinct (map gn_ID nodes)"
    using kn(2) ae(3) visibleNodes_facts(1) [of "fold addEnds ve []"] visibleNodes_facts(2) [of "keptNames valid mn" "fold addEnds ve []"]
      visibleNodes_facts(2) [of "[OtherNode]" "fold addEnds ve []"]
    by (auto simp: nodes kept_def)
  show "length nodes \<le> mn"
    using kn(3) mn visibleNodes_facts(3) [of "fold addEnds ve []" "keptNames valid mn"] visibleNodes_facts(3) [of "fold addEnds ve []" "[OtherNode]"]
    by (auto simp: nodes)
  show "n \<in> set nodes \<Longrightarrow> gn_Count n = endCount (gn_ID n) ve"
    using visibleNodes_facts(4) vis(1) by (fastforce simp: nodes split: if_splits)
qed


definition exampleTransitions :: "Transition list" where
  "exampleTransitions = [\<lparr>tr_From = ''GET /a'', tr_To = ''GET /b'', tr_Count = 3\<rparr>, \<lparr>tr_From = ''GET /b'', tr_To = ''GET /x'', tr_Count = 2\<rparr>,
     \<lparr>tr_From = ''(other)'', tr_To = ''GET /b'', tr_Count = 7\<rparr>]"


end
