(* ===== verification/Access_Log.thy ===== *)
theory Access_Log
  imports Flow_Viz
begin

text \<open>
  \<open>accesslog/aggregate.go\<close>: the bounded aggregation of access-log records (method/path rows, protocol
  rows, session transitions and scenario journeys), with the record type and the identifier rules of
  \<open>accesslog/parser.go\<close>. Maps are association lists with distinct keys; where the code ranges over
  one, the list's order stands for the iteration order. The mutex makes every operation one step.
\<close>

abbreviation (input) "OverflowURI \<equiv> ''(other)''"
abbreviation (input) "maxDimensions \<equiv> (64 :: nat)"
abbreviation (input) "logBuckets \<equiv> (64 :: nat)"
abbreviation (input) "maxFlowSessions \<equiv> (10000 :: nat)"
abbreviation (input) "maxFlowTransitions \<equiv> (10000 :: nat)"
abbreviation (input) "maxFlowPageBytes \<equiv> (512 :: nat)"
abbreviation (input) "maxStorySessions \<equiv> (10000 :: nat)"
abbreviation (input) "maxStoryPages \<equiv> (10000 :: nat)"
abbreviation (input) "maxStorySteps \<equiv> (32 :: nat)"
abbreviation (input) "maxStories \<equiv> (20 :: nat)"

definition flowOverflowKey :: string where
  "flowOverflowKey = OverflowURI @ [NUL] @ OverflowURI"

record Access_Record =
  re_Method :: string
  re_URI :: string
  re_Protocol :: string
  re_Status :: int
  re_RequestTime :: duration
  re_Bytes :: int
  re_CacheStatus :: string
  re_ContentType :: string
  re_UpstreamRaw :: string
  re_UpstreamTotal :: duration
  re_UpstreamAttempts :: int
  re_UpstreamValid :: bool
  re_UpstreamComplete :: bool
  re_NoUpstreamTiming :: bool
  re_Session :: string
  re_Scenario :: string
  re_ObservedAt :: gotime
  re_QueryStripped :: bool
  re_Partial :: bool
  re_Issue :: string

subsection \<open>Identifiers\<close>

definition isSafeSessionByte :: "char \<Rightarrow> bool" where
  "isSafeSessionByte c \<longleftrightarrow> (CHR ''a'' \<le> c \<and> c \<le> CHR ''z'') \<or> (CHR ''A'' \<le> c \<and> c \<le> CHR ''Z'') \<or>
     (CHR ''0'' \<le> c \<and> c \<le> CHR ''9'') \<or> c \<in> set ''._~-''"

definition validSafeIdentifier :: "string \<Rightarrow> nat \<Rightarrow> bool" where
  "validSafeIdentifier s maxBytes \<longleftrightarrow> \<not> (s = [] \<or> length s > maxBytes) \<and> list_all isSafeSessionByte s"

definition validSession :: "string \<Rightarrow> bool" where
  "validSession s = validSafeIdentifier s 128"

definition validScenario :: "string \<Rightarrow> bool" where
  "validScenario s = validSafeIdentifier s 64"

definition canonicalProtocol :: "string \<Rightarrow> string" where
  "canonicalProtocol s =
     (let p = strings_ToUpper (strings_TrimSpace s) in
      if p \<in> {''HTTP/1'', ''HTTP/1.0'', ''H1''} then ''HTTP/1.0''
      else if p \<in> {''HTTP/1.1'', ''H1.1''} then ''HTTP/1.1''
      else if p \<in> {''HTTP/2'', ''HTTP/2.0'', ''H2''} then ''HTTP/2.0''
      else if p \<in> {''HTTP/3'', ''HTTP/3.0'', ''H3''} then ''HTTP/3.0''
      else if p = [] then []
      else ''(other)'')"

subsection \<open>State\<close>

record aggregateStat =
  as_method :: string
  as_uri :: string
  as_count :: int
  as_latency :: int
  as_totalNS :: int
  as_maxNS :: int
  as_buckets :: "int list"
  as_bytes :: int
  as_upstreamNS :: int
  as_upAttempts :: int
  as_residualNS :: int
  as_residualN :: int
  as_noUpstream :: int
  as_status304 :: int
  as_status499 :: int
  as_status5xx :: int
  as_cache :: "(string \<times> int) list"
  as_ctype :: "(string \<times> int) list"

record protocolStat =
  pr_protocol :: string
  pr_count :: int
  pr_latency :: int
  pr_status5xx :: int
  pr_maxNS :: int
  pr_buckets :: "int list"

record storySession =
  st_scenario :: string
  st_journey :: "string list"
  st_requests :: int

record Log_Aggregator =
  la_maxKeys :: int
  la_stats :: "(string \<times> aggregateStat) list"
  la_protocols :: "(string \<times> protocolStat) list"
  la_lines :: int
  la_partialLines :: int
  la_lastBySess :: "(string \<times> string) list"
  la_flows :: "(string \<times> int) list"
  la_flowDropped :: int
  la_storySessions :: "(string \<times> storySession) list"
  la_storyPages :: "(string \<times> string) list"
  la_storyDropped :: int
  la_visualization :: Flow_Aggregator

definition newAggregator :: "(string \<Rightarrow> duration option) \<Rightarrow> int \<Rightarrow> Options \<Rightarrow> gerr + Log_Aggregator" where
  "newAggregator dur maxKeys options =
     (case New_flow dur options of
        Inl e \<Rightarrow> Inl e
      | Inr visualization \<Rightarrow>
          Inr \<lparr>la_maxKeys = (if maxKeys \<le> 0 then DefaultMaxKeys else maxKeys), la_stats = [], la_protocols = [], la_lines = 0,
               la_partialLines = 0, la_lastBySess = [], la_flows = [], la_flowDropped = 0, la_storySessions = [],
               la_storyPages = [], la_storyDropped = 0, la_visualization = visualization\<rparr>)"

definition incr :: "int \<Rightarrow> int" where
  "incr n = wrap64 (n + 1)"

subsection \<open>Protocols\<close>

definition durationBucket :: "int \<Rightarrow> nat" where
  "durationBucket ns = (let b = bits_Len (unat (word_of_int ns :: 64 word)) in if b \<ge> logBuckets then logBuckets - 1 else b)"

definition newProtocol :: "string \<Rightarrow> protocolStat" where
  "newProtocol p = \<lparr>pr_protocol = p, pr_count = 0, pr_latency = 0, pr_status5xx = 0, pr_maxNS = 0, pr_buckets = replicate logBuckets 0\<rparr>"

definition addProtocol :: "Access_Record \<Rightarrow> protocolStat \<Rightarrow> protocolStat" where
  "addProtocol rec st =
     (let st1 = st\<lparr>pr_count := incr (pr_count st)\<rparr>;
          st2 = (if re_Status rec \<ge> 500 then st1\<lparr>pr_status5xx := incr (pr_status5xx st1)\<rparr> else st1)
      in if re_Status rec = 101 then st2
         else st2\<lparr>pr_latency := incr (pr_latency st2),
                  pr_maxNS := (if re_RequestTime rec > pr_maxNS st2 then re_RequestTime rec else pr_maxNS st2),
                  pr_buckets := countIn (durationBucket (re_RequestTime rec)) (pr_buckets st2)\<rparr>)"

definition observeProtocol :: "Access_Record \<Rightarrow> Log_Aggregator \<Rightarrow> Log_Aggregator" where
  "observeProtocol rec a =
     (if re_Protocol rec = [] then a
      else
        let protocol = canonicalProtocol (re_Protocol rec);
            key = (if map_of (la_protocols a) protocol = None \<and> length (la_protocols a) \<ge> maxDimensions then OverflowURI else protocol)
        in a\<lparr>la_protocols := alter key (newProtocol key) (addProtocol rec) (la_protocols a)\<rparr>)"

subsection \<open>Journeys\<close>

definition dropStory :: "Log_Aggregator \<Rightarrow> Log_Aggregator" where
  "dropStory a = a\<lparr>la_storyDropped := incr (la_storyDropped a)\<rparr>"

definition fitsPage :: "Access_Record \<Rightarrow> bool" where
  "fitsPage rec \<longleftrightarrow> length (re_Method rec) + 1 + length (re_URI rec) \<le> maxFlowPageBytes"

definition pageOf :: "Access_Record \<Rightarrow> string" where
  "pageOf rec = (if fitsPage rec then re_Method rec @ '' '' @ re_URI rec else OverflowURI)"

definition internStoryPage :: "string \<Rightarrow> Log_Aggregator \<Rightarrow> string \<times> Log_Aggregator" where
  "internStoryPage page a =
     (if page = OverflowURI then (page, a)
      else case map_of (la_storyPages a) page of
             Some interned \<Rightarrow> (interned, a)
           | None \<Rightarrow>
               if length (la_storyPages a) \<ge> maxStoryPages then (OverflowURI, dropStory a)
               else (page, a\<lparr>la_storyPages := assign page page (la_storyPages a)\<rparr>))"

definition setStory :: "string \<Rightarrow> storySession \<Rightarrow> Log_Aggregator \<Rightarrow> Log_Aggregator" where
  "setStory key state a = a\<lparr>la_storySessions := assign key state (la_storySessions a)\<rparr>"

definition extendJourney :: "string \<Rightarrow> string \<Rightarrow> storySession \<Rightarrow> Log_Aggregator \<Rightarrow> Log_Aggregator" where
  "extendJourney key page state a =
     (if length (st_journey state) \<ge> maxStorySteps then
        (if st_journey state ! (maxStorySteps - 1) = page then a
         else if st_journey state ! (maxStorySteps - 1) \<noteq> OverflowURI
         then dropStory (setStory key (state\<lparr>st_journey := (st_journey state)[maxStorySteps - 1 := OverflowURI]\<rparr>) a)
         else a)
      else
        let (page', a') = internStoryPage page a in
        if st_journey state \<noteq> [] \<and> last (st_journey state) = page' then a'
        else setStory key (state\<lparr>st_journey := st_journey state @ [page']\<rparr>) a')"

definition storyKey :: "string \<Rightarrow> string \<Rightarrow> string" where
  "storyKey scenario session = scenario @ [NUL] @ session"

definition observeStory :: "Access_Record \<Rightarrow> Log_Aggregator \<Rightarrow> Log_Aggregator" where
  "observeStory rec a =
     (if \<not> validSession (re_Session rec) \<or> \<not> validScenario (re_Scenario rec) then a
      else
        let key = storyKey (re_Scenario rec) (re_Session rec) in
        if map_of (la_storySessions a) key = None \<and> length (la_storySessions a) \<ge> maxStorySessions then dropStory a
        else
          let state = (case map_of (la_storySessions a) key of
                         None \<Rightarrow> \<lparr>st_scenario = re_Scenario rec, st_journey = [], st_requests = 0\<rparr> | Some st \<Rightarrow> st);
              state1 = state\<lparr>st_requests := incr (st_requests state)\<rparr>;
              a1 = setStory key state1 a;
              a2 = (if fitsPage rec then a1 else dropStory a1)
          in extendJourney key (pageOf rec) state1 a2)"

subsection \<open>Transitions\<close>

definition dropFlow :: "Log_Aggregator \<Rightarrow> Log_Aggregator" where
  "dropFlow a = a\<lparr>la_flowDropped := incr (la_flowDropped a)\<rparr>"

definition flowKey :: "string \<Rightarrow> string \<Rightarrow> string" where
  "flowKey prev page = prev @ [NUL] @ page"

definition countTransition :: "string \<Rightarrow> string \<Rightarrow> Log_Aggregator \<Rightarrow> Log_Aggregator" where
  "countTransition prev page a =
     (let key = flowKey prev page in
      if map_of (la_flows a) key = None \<and> length (la_flows a) \<ge> maxFlowTransitions
      then dropFlow (a\<lparr>la_flows := alter flowOverflowKey 0 incr (la_flows a)\<rparr>)
      else a\<lparr>la_flows := alter key 0 incr (la_flows a)\<rparr>)"

definition rememberPage :: "string \<Rightarrow> string \<Rightarrow> Log_Aggregator \<Rightarrow> Log_Aggregator" where
  "rememberPage session page a =
     (if length (la_lastBySess a) < maxFlowSessions \<or> map_of (la_lastBySess a) session \<noteq> None
      then a\<lparr>la_lastBySess := assign session page (la_lastBySess a)\<rparr>
      else dropFlow a)"

definition observeFlow :: "Access_Record \<Rightarrow> Log_Aggregator \<Rightarrow> Log_Aggregator" where
  "observeFlow rec a =
     (if validSession (re_Session rec) then
        (let page = pageOf rec;
             a1 = (if fitsPage rec then a else dropFlow a);
             a2 = (case map_of (la_lastBySess a1) (re_Session rec) of None \<Rightarrow> a1 | Some prev \<Rightarrow> countTransition prev page a1)
         in rememberPage (re_Session rec) page a2)
      else if re_Session rec \<noteq> [] then dropFlow a
      else a)"

subsection \<open>Rows\<close>

definition addDimension :: "string \<Rightarrow> (string \<times> int) list \<Rightarrow> (string \<times> int) list" where
  "addDimension v m =
     (let key = (if map_of m v = None \<and> length m \<ge> maxDimensions then OverflowURI else v) in alter key 0 incr m)"

definition newStat :: "string \<Rightarrow> string \<Rightarrow> aggregateStat" where
  "newStat method uri =
     \<lparr>as_method = method, as_uri = uri, as_count = 0, as_latency = 0, as_totalNS = 0, as_maxNS = 0, as_buckets = replicate logBuckets 0,
      as_bytes = 0, as_upstreamNS = 0, as_upAttempts = 0, as_residualNS = 0, as_residualN = 0, as_noUpstream = 0,
      as_status304 = 0, as_status499 = 0, as_status5xx = 0, as_cache = [], as_ctype = []\<rparr>"

definition addTraffic :: "Access_Record \<Rightarrow> aggregateStat \<Rightarrow> aggregateStat" where
  "addTraffic rec st =
     st\<lparr>as_count := incr (as_count st), as_bytes := wrap64 (as_bytes st + re_Bytes rec),
        as_cache := addDimension (re_CacheStatus rec) (as_cache st), as_ctype := addDimension (re_ContentType rec) (as_ctype st),
        as_status304 := (if re_Status rec = 304 then incr (as_status304 st) else as_status304 st),
        as_status499 := (if re_Status rec = 499 then incr (as_status499 st) else as_status499 st),
        as_status5xx := (if re_Status rec \<ge> 500 then incr (as_status5xx st) else as_status5xx st)\<rparr>"

definition hasResidual :: "Access_Record \<Rightarrow> bool" where
  "hasResidual rec \<longleftrightarrow> re_UpstreamValid rec \<and> re_UpstreamComplete rec \<and> re_RequestTime rec \<ge> re_UpstreamTotal rec"

definition addLatency :: "Access_Record \<Rightarrow> aggregateStat \<Rightarrow> aggregateStat" where
  "addLatency rec st =
     (let ns = re_RequestTime rec in
      st\<lparr>as_noUpstream := (if re_NoUpstreamTiming rec then incr (as_noUpstream st) else as_noUpstream st),
         as_upstreamNS := (if re_UpstreamValid rec then wrap64 (as_upstreamNS st + re_UpstreamTotal rec) else as_upstreamNS st),
         as_upAttempts := (if re_UpstreamValid rec then wrap64 (as_upAttempts st + re_UpstreamAttempts rec) else as_upAttempts st),
         as_latency := incr (as_latency st), as_totalNS := wrap64 (as_totalNS st + ns),
         as_maxNS := (if ns > as_maxNS st then ns else as_maxNS st),
         as_buckets := countIn (durationBucket ns) (as_buckets st),
         as_residualNS := (if hasResidual rec then wrap64 (as_residualNS st + wrap64 (ns - re_UpstreamTotal rec)) else as_residualNS st),
         as_residualN := (if hasResidual rec then incr (as_residualN st) else as_residualN st)\<rparr>)"

definition addRecord :: "Access_Record \<Rightarrow> aggregateStat \<Rightarrow> aggregateStat" where
  "addRecord rec st = (let st1 = addTraffic rec st in if re_Status rec = 101 then st1 else addLatency rec st1)"

definition overflowRow :: string where
  "overflowRow = NUL # OverflowURI"

definition rowKey :: "Access_Record \<Rightarrow> string" where
  "rowKey rec = re_Method rec @ [NUL] @ re_URI rec"

definition observeRow :: "string \<Rightarrow> Access_Record \<Rightarrow> Log_Aggregator \<Rightarrow> Log_Aggregator" where
  "observeRow key0 rec a =
     (let key = (if map_of (la_stats a) key0 = None \<and> int (length (la_stats a)) \<ge> la_maxKeys a then overflowRow else key0);
          fresh = (if key = overflowRow then newStat [] OverflowURI else newStat (re_Method rec) (re_URI rec))
      in a\<lparr>la_stats := alter key fresh (addRecord rec) (la_stats a)\<rparr>)"

definition eventOf :: "Access_Record \<Rightarrow> Event" where
  "eventOf rec = \<lparr>ev_Session = re_Session rec, ev_Scenario = re_Scenario rec, ev_Method = re_Method rec, ev_Route = re_URI rec,
     ev_Status = re_Status rec, ev_Latency = re_RequestTime rec, ev_At = re_ObservedAt rec\<rparr>"

definition observeVisualization :: "Access_Record \<Rightarrow> Log_Aggregator \<Rightarrow> Log_Aggregator" where
  "observeVisualization rec a =
     (if va_enabled (la_visualization a) then a\<lparr>la_visualization := Observe_flow (eventOf rec) (la_visualization a)\<rparr> else a)"

definition countLine :: "Log_Aggregator \<Rightarrow> Log_Aggregator" where
  "countLine a = a\<lparr>la_lines := incr (la_lines a)\<rparr>"

definition countPartial :: "Access_Record \<Rightarrow> Log_Aggregator \<Rightarrow> Log_Aggregator" where
  "countPartial rec a = (if re_Partial rec then a\<lparr>la_partialLines := incr (la_partialLines a)\<rparr> else a)"

definition ObserveLog :: "Access_Record \<Rightarrow> Log_Aggregator \<Rightarrow> Log_Aggregator" where
  "ObserveLog rec a =
     observeRow (rowKey rec) rec (observeFlow rec (countPartial rec (observeVisualization rec
       (observeStory rec (observeProtocol rec (countLine a))))))"

definition ResetLog :: "Log_Aggregator \<Rightarrow> Log_Aggregator" where
  "ResetLog a =
     a\<lparr>la_stats := [], la_protocols := [], la_lines := 0, la_partialLines := 0, la_lastBySess := [], la_flows := [], la_flowDropped := 0,
       la_storySessions := [], la_storyPages := [], la_storyDropped := 0, la_visualization := Reset_flow (la_visualization a)\<rparr>"

subsection \<open>Snapshots\<close>

record DimensionCount =
  dc_Value :: string
  dc_Count :: int

record ProtocolEntry =
  pe_Protocol :: string
  pe_Count :: int
  pe_Status5xx :: int
  pe_RequestP95 :: duration

record Log_Entry =
  le_Method :: string
  le_URI :: string
  le_Count :: int
  le_LatencyCount :: int
  le_RequestTotal :: duration
  le_RequestAvg :: duration
  le_RequestP95 :: duration
  le_RequestMax :: duration
  le_BytesTotal :: int
  le_BytesAvg :: int
  le_UpstreamTotal :: duration
  le_UpstreamAttempts :: int
  le_ResidualTotal :: duration
  le_ResidualCount :: int
  le_NoUpstreamCount :: int
  le_Status304 :: int
  le_Status499 :: int
  le_Status5xx :: int
  le_CacheStatuses :: "DimensionCount list"
  le_ContentTypes :: "DimensionCount list"

text \<open>\<open>FlowEntry\<close> has the three fields of a transition.\<close>

type_synonym FlowEntry = Transition

record StoryEntry =
  so_Scenario :: string
  so_Journey :: "string list"
  so_Sessions :: int
  so_Requests :: int

record Log_Snapshot =
  ls_Entries :: "Log_Entry list"
  ls_Protocols :: "ProtocolEntry list"
  ls_Stories :: "StoryEntry list"
  ls_StoryDropped :: int
  ls_Flows :: "FlowEntry list"
  ls_FlowDropped :: int
  ls_Visualization :: "FlowSnapshot option"
  ls_Lines :: int
  ls_PartialLines :: int

definition bucketUpper :: "int \<Rightarrow> nat \<Rightarrow> int" where
  "bucketUpper mx i = (if i = 0 then 0 else if i = logBuckets - 1 then mx else 2 ^ i)"

definition bucketPercentile :: "int \<Rightarrow> int \<Rightarrow> int list \<Rightarrow> int" where
  "bucketPercentile latency mx buckets =
     (if latency = 0 then 0
      else
        let target = wrap64 (wrap64 (latency * 95) + 99) sdiv 100
        in case rankBucket target 0 0 buckets of None \<Rightarrow> mx | Some i \<Rightarrow> bucketUpper mx i)"

definition logPercentile95 :: "aggregateStat \<Rightarrow> int" where
  "logPercentile95 st = bucketPercentile (as_latency st) (as_maxNS st) (as_buckets st)"

definition protocolPercentile95 :: "protocolStat \<Rightarrow> int" where
  "protocolPercentile95 st = bucketPercentile (pr_latency st) (pr_maxNS st) (pr_buckets st)"

definition dimensions :: "(string \<times> int) list \<Rightarrow> DimensionCount list" where
  "dimensions m = sort_key (\<lambda>d. (- dc_Count d, dc_Value d)) (map (\<lambda>(v, n). \<lparr>dc_Value = v, dc_Count = n\<rparr>) m)"

definition logEntry :: "aggregateStat \<Rightarrow> Log_Entry" where
  "logEntry st =
     \<lparr>le_Method = as_method st, le_URI = as_uri st, le_Count = as_count st, le_LatencyCount = as_latency st,
      le_RequestTotal = as_totalNS st, le_RequestAvg = (if as_latency st > 0 then as_totalNS st sdiv as_latency st else 0),
      le_RequestP95 = logPercentile95 st, le_RequestMax = as_maxNS st, le_BytesTotal = as_bytes st,
      le_BytesAvg = (if as_count st > 0 then as_bytes st sdiv as_count st else 0),
      le_UpstreamTotal = as_upstreamNS st, le_UpstreamAttempts = as_upAttempts st,
      le_ResidualTotal = as_residualNS st, le_ResidualCount = as_residualN st, le_NoUpstreamCount = as_noUpstream st,
      le_Status304 = as_status304 st, le_Status499 = as_status499 st, le_Status5xx = as_status5xx st,
      le_CacheStatuses = dimensions (as_cache st), le_ContentTypes = dimensions (as_ctype st)\<rparr>"

abbreviation (input) "UnitSep \<equiv> [CHR 0x1F]"

definition storyGroup :: "storySession \<Rightarrow> string" where
  "storyGroup state = st_scenario state @ [NUL] @ strings_Join (st_journey state) UnitSep"

definition addStory :: "storySession \<Rightarrow> (string \<times> StoryEntry) list \<Rightarrow> (string \<times> StoryEntry) list" where
  "addStory state groups =
     alter (storyGroup state) \<lparr>so_Scenario = st_scenario state, so_Journey = st_journey state, so_Sessions = 0, so_Requests = 0\<rparr>
       (\<lambda>e. e\<lparr>so_Sessions := incr (so_Sessions e), so_Requests := wrap64 (so_Requests e + st_requests state)\<rparr>) groups"

definition storyOrder :: "StoryEntry \<Rightarrow> int \<times> string \<times> string" where
  "storyOrder e = (- so_Sessions e, so_Scenario e, strings_Join (so_Journey e) UnitSep)"

definition stories :: "Log_Aggregator \<Rightarrow> StoryEntry list" where
  "stories a = take maxStories (sort_key storyOrder (map snd (fold addStory (map snd (la_storySessions a)) [])))"

definition protocolEntry :: "protocolStat \<Rightarrow> ProtocolEntry" where
  "protocolEntry st = \<lparr>pe_Protocol = pr_protocol st, pe_Count = pr_count st, pe_Status5xx = pr_status5xx st,
     pe_RequestP95 = protocolPercentile95 st\<rparr>"

definition flowOf :: "string \<times> int \<Rightarrow> FlowEntry" where
  "flowOf = (\<lambda>(key, n). let (src, dst) = splitTransitionKey key in \<lparr>tr_From = src, tr_To = dst, tr_Count = n\<rparr>)"

text \<open>
  The order of flows compares the concatenated names, which can tie for different flows; the
  stable sort stands for one of the orders the library may then return.
\<close>

definition topFlows :: "Log_Aggregator \<Rightarrow> FlowEntry list" where
  "topFlows a = take 20 (sort_key (\<lambda>f. (- tr_Count f, tr_From f @ tr_To f)) (map flowOf (la_flows a)))"

definition SnapshotLog :: "Log_Aggregator \<Rightarrow> Log_Snapshot \<times> Log_Aggregator" where
  "SnapshotLog a =
     (let (visualization, v') = (if va_enabled (la_visualization a)
            then (let (s, v) = Snapshot_flow (map flowOf (la_flows a)) (la_visualization a) in (Some s, v))
            else (None, la_visualization a))
      in (\<lparr>ls_Entries = sort_key (\<lambda>e. (- le_RequestTotal e, le_URI e, le_Method e)) (map (logEntry \<circ> snd) (la_stats a)),
           ls_Protocols = sort_key (\<lambda>p. (- pe_Count p, pe_Protocol p)) (map (protocolEntry \<circ> snd) (la_protocols a)),
           ls_Stories = stories a, ls_StoryDropped = la_storyDropped a,
           ls_Flows = topFlows a, ls_FlowDropped = la_flowDropped a, ls_Visualization = visualization,
           ls_Lines = la_lines a, ls_PartialLines = la_partialLines a\<rparr>,
          a\<lparr>la_visualization := v'\<rparr>))"

subsection \<open>Examples\<close>

definition plainLog :: Log_Aggregator where
  "plainLog = \<lparr>la_maxKeys = 1, la_stats = [], la_protocols = [], la_lines = 0, la_partialLines = 0, la_lastBySess = [],
     la_flows = [], la_flowDropped = 0, la_storySessions = [], la_storyPages = [], la_storyDropped = 0, la_visualization = newFlow zeroOptions\<rparr>"

lemma plain_new: "newAggregator (\<lambda>_. None) 1 zeroOptions = Inr plainLog"
  by (simp add: newAggregator_def New_flow_def normalized_def zeroOptions_def plainLog_def)

definition visitAt :: "string \<Rightarrow> int \<Rightarrow> Access_Record" where
  "visitAt uri ns = \<lparr>re_Method = ''GET'', re_URI = uri, re_Protocol = ''HTTP/2'', re_Status = 200, re_RequestTime = ns, re_Bytes = 10,
     re_CacheStatus = [], re_ContentType = [], re_UpstreamRaw = [], re_UpstreamTotal = 0, re_UpstreamAttempts = 0, re_UpstreamValid = False,
     re_UpstreamComplete = False, re_NoUpstreamTiming = True, re_Session = ''u1'', re_Scenario = ''shop'', re_ObservedAt = 0,
     re_QueryStripped = False, re_Partial = False, re_Issue = []\<rparr>"

definition threeVisits :: "Access_Record list" where
  "threeVisits = [visitAt ''/a'' 3, visitAt ''/a'' 5, visitAt ''/b'' 9]"

end
