(* ===== verification/Access_Rows.thy ===== *)
theory Access_Rows
  imports Access_Log Flow_Latency
begin

text \<open>
  What the rows of an access-log snapshot hold: every record is in exactly one method/path row, and a
  row's numbers are the sums over its records.
\<close>

subsection \<open>Which part changes what\<close>

definition notStory where
  "notStory a = (la_maxKeys a, la_stats a, la_protocols a, la_lines a, la_lastBySess a, la_flows a, la_visualization a)"

definition notFlow where
  "notFlow a = (la_maxKeys a, la_stats a, la_protocols a, la_lines a, la_storySessions a, la_storyPages a, la_visualization a)"

lemma notStory_helpers [simp]:
  "notStory (dropStory a) = notStory a" "notStory (setStory key st a) = notStory a" "notStory (a\<lparr>la_storyPages := ps\<rparr>) = notStory a"
  by (simp_all add: notStory_def dropStory_def setStory_def)

lemma notStory_intern: "notStory (snd (internStoryPage page a)) = notStory a"
  by (simp add: internStoryPage_def split: option.split)

lemma notStory_extend: "notStory (extendJourney key page st a) = notStory a"
  using notStory_intern [of page a] by (simp add: extendJourney_def case_prod_unfold Let_def)

lemma notStory_observe: "notStory (observeStory rec a) = notStory a"
  by (simp add: observeStory_def notStory_extend Let_def)

lemma notFlow_helpers [simp]:
  "notFlow (dropFlow a) = notFlow a" "notFlow (a\<lparr>la_flows := fs\<rparr>) = notFlow a" "notFlow (a\<lparr>la_lastBySess := ls\<rparr>) = notFlow a"
  by (simp_all add: notFlow_def dropFlow_def)

lemma notFlow_observe: "notFlow (observeFlow rec a) = notFlow a"
proof -
  have "notFlow (countTransition p q b) = notFlow b" "notFlow (rememberPage s q b) = notFlow b" for p q s b
    by (simp_all add: countTransition_def rememberPage_def Let_def)
  then show ?thesis by (simp add: observeFlow_def Let_def split: option.split)
qed

lemma story_part [simp]:
  "la_maxKeys (observeStory rec a) = la_maxKeys a" "la_stats (observeStory rec a) = la_stats a"
  "la_protocols (observeStory rec a) = la_protocols a" "la_lines (observeStory rec a) = la_lines a"
  "la_lastBySess (observeStory rec a) = la_lastBySess a" "la_flows (observeStory rec a) = la_flows a"
  "la_visualization (observeStory rec a) = la_visualization a"
  using notStory_observe [of rec a] by (simp_all add: notStory_def)

lemma flow_part [simp]:
  "la_maxKeys (observeFlow rec a) = la_maxKeys a" "la_stats (observeFlow rec a) = la_stats a"
  "la_protocols (observeFlow rec a) = la_protocols a" "la_lines (observeFlow rec a) = la_lines a"
  "la_storySessions (observeFlow rec a) = la_storySessions a" "la_storyPages (observeFlow rec a) = la_storyPages a"
  "la_visualization (observeFlow rec a) = la_visualization a"
  using notFlow_observe [of rec a] by (simp_all add: notFlow_def)

lemma observeProtocol_state: "\<exists>ps. observeProtocol rec a = a\<lparr>la_protocols := ps\<rparr>"
proof (cases "re_Protocol rec = []")
  case True
  then show ?thesis by (intro exI [of _ "la_protocols a"]) (simp add: observeProtocol_def)
qed (auto simp only: observeProtocol_def Let_def if_False)

lemma protocol_part [simp]:
  "la_maxKeys (observeProtocol rec a) = la_maxKeys a" "la_stats (observeProtocol rec a) = la_stats a"
  "la_lines (observeProtocol rec a) = la_lines a" "la_lastBySess (observeProtocol rec a) = la_lastBySess a"
  "la_flows (observeProtocol rec a) = la_flows a" "la_storySessions (observeProtocol rec a) = la_storySessions a"
  "la_storyPages (observeProtocol rec a) = la_storyPages a" "la_visualization (observeProtocol rec a) = la_visualization a"
  using observeProtocol_state [of rec a] by auto

lemma small_parts [simp]:
  "la_maxKeys (observeVisualization rec a) = la_maxKeys a" "la_stats (observeVisualization rec a) = la_stats a"
  "la_protocols (observeVisualization rec a) = la_protocols a"
  "la_lines (observeVisualization rec a) = la_lines a" "la_lastBySess (observeVisualization rec a) = la_lastBySess a"
  "la_flows (observeVisualization rec a) = la_flows a" "la_storySessions (observeVisualization rec a) = la_storySessions a"
  "la_storyPages (observeVisualization rec a) = la_storyPages a"
  "la_maxKeys (countPartial rec a) = la_maxKeys a" "la_stats (countPartial rec a) = la_stats a"
  "la_protocols (countPartial rec a) = la_protocols a"
  "la_lines (countPartial rec a) = la_lines a" "la_lastBySess (countPartial rec a) = la_lastBySess a"
  "la_flows (countPartial rec a) = la_flows a" "la_storySessions (countPartial rec a) = la_storySessions a"
  "la_storyPages (countPartial rec a) = la_storyPages a" "la_visualization (countPartial rec a) = la_visualization a"
  by (simp_all add: observeVisualization_def countPartial_def)

lemma row_part [simp]:
  "la_maxKeys (observeRow k rec a) = la_maxKeys a" "la_protocols (observeRow k rec a) = la_protocols a"
  "la_lines (observeRow k rec a) = la_lines a" "la_lastBySess (observeRow k rec a) = la_lastBySess a"
  "la_flows (observeRow k rec a) = la_flows a" "la_storySessions (observeRow k rec a) = la_storySessions a"
  "la_storyPages (observeRow k rec a) = la_storyPages a" "la_visualization (observeRow k rec a) = la_visualization a"
  by (simp_all add: observeRow_def Let_def)

lemma line_part [simp]:
  "la_maxKeys (countLine a) = la_maxKeys a" "la_stats (countLine a) = la_stats a" "la_protocols (countLine a) = la_protocols a"
  "la_lines (countLine a) = incr (la_lines a)" "la_lastBySess (countLine a) = la_lastBySess a" "la_flows (countLine a) = la_flows a"
  "la_storySessions (countLine a) = la_storySessions a" "la_storyPages (countLine a) = la_storyPages a"
  "la_visualization (countLine a) = la_visualization a"
  by (simp_all add: countLine_def)

lemma observeRow_stats: "la_stats a = la_stats b \<Longrightarrow> la_maxKeys a = la_maxKeys b \<Longrightarrow> la_stats (observeRow k rec a) = la_stats (observeRow k rec b)"
  by (simp add: observeRow_def Let_def)

lemma ObserveLog_rows:
  "la_stats (ObserveLog rec a) = la_stats (observeRow (rowKey rec) rec a)" "la_maxKeys (ObserveLog rec a) = la_maxKeys a"
  "la_lines (ObserveLog rec a) = incr (la_lines a)"
  unfolding ObserveLog_def by (rule observeRow_stats) simp_all

subsection \<open>Rows as sums\<close>

text \<open>A row apart from its name.\<close>

definition measures :: "aggregateStat \<Rightarrow> aggregateStat" where
  "measures st = st\<lparr>as_method := [], as_uri := []\<rparr>"

lemma measures_addRecord: "measures (addRecord rec st) = addRecord rec (measures st)"
  by (simp add: measures_def addRecord_def addTraffic_def addLatency_def Let_def)

lemma measures_newStat: "measures (newStat m u) = newStat [] []"
  by (simp add: measures_def newStat_def)

definition rowOf :: "Log_Aggregator \<Rightarrow> string \<Rightarrow> aggregateStat option" where
  "rowOf a k = map_option measures (map_of (la_stats a) k)"

definition rows_inv :: "Log_Aggregator \<Rightarrow> bool" where
  "rows_inv a \<longleftrightarrow> distinct (map fst (la_stats a)) \<and>
     int (length (la_stats a)) \<le> max 0 (la_maxKeys a) + (if map_of (la_stats a) overflowRow = None then 0 else 1)"

definition admitsRow :: "Log_Aggregator \<Rightarrow> string \<Rightarrow> bool" where
  "admitsRow a k \<longleftrightarrow> map_of (la_stats a) k \<noteq> None \<or> int (length (la_stats a)) < la_maxKeys a"

lemma observeRow_eq:
  "la_stats (observeRow k rec a) =
     (let key = (if admitsRow a k then k else overflowRow) in
      alter key (if key = overflowRow then newStat [] OverflowURI else newStat (re_Method rec) (re_URI rec)) (addRecord rec) (la_stats a))"
  by (auto simp: observeRow_def admitsRow_def Let_def)

lemma rowOf_observe:
  "rowOf (observeRow k rec a) k' =
     (if k' = (if admitsRow a k then k else overflowRow)
      then Some (addRecord rec (case rowOf a k' of None \<Rightarrow> newStat [] [] | Some st \<Rightarrow> st)) else rowOf a k')"
  by (simp add: rowOf_def observeRow_eq Let_def map_of_alter measures_addRecord measures_newStat split: option.split)

lemma length_observeRow:
  "length (la_stats (observeRow k rec a)) =
     (if map_of (la_stats a) (if admitsRow a k then k else overflowRow) = None then Suc (length (la_stats a)) else length (la_stats a))"
  by (simp add: observeRow_eq Let_def length_alter map_of_eq_None_iff)

lemma rows_inv_observe: "rows_inv a \<Longrightarrow> rows_inv (observeRow k rec a)"
proof -
  assume inv: "rows_inv a"
  let ?k = "if admitsRow a k then k else overflowRow"
  have "distinct (map fst (la_stats (observeRow k rec a)))"
    using inv by (simp add: rows_inv_def observeRow_eq Let_def distinct_alter)
  moreover have over: "map_of (la_stats (observeRow k rec a)) overflowRow = None \<longleftrightarrow> map_of (la_stats a) overflowRow = None \<and> ?k \<noteq> overflowRow"
    by (auto simp: observeRow_eq Let_def map_of_alter)
  moreover have "int (length (la_stats (observeRow k rec a))) \<le>
      max 0 (la_maxKeys a) + (if map_of (la_stats (observeRow k rec a)) overflowRow = None then 0 else 1)"
    unfolding over length_observeRow using inv by (auto simp: rows_inv_def admitsRow_def split: if_splits)
  ultimately show ?thesis by (simp add: rows_inv_def)
qed

lemma refused_row:
  assumes "\<not> admitsRow a k" and "k \<noteq> overflowRow"
  shows "\<not> admitsRow (observeRow k' rec a) k"
proof -
  have "map_of (la_stats (observeRow k' rec a)) k = None"
    using assms by (auto simp: observeRow_eq Let_def map_of_alter admitsRow_def)
  moreover have "length (la_stats a) \<le> length (la_stats (observeRow k' rec a))" by (simp add: length_observeRow)
  ultimately show ?thesis using assms by (simp add: admitsRow_def)
qed

interpretation rows: overflow_table rows_inv rowOf observeRow admitsRow addRecord "newStat [] []" overflowRow
proof unfold_locales
  show "rowOf (observeRow k x st) k' = (if k' = (if admitsRow st k then k else overflowRow)
      then Some (addRecord x (case rowOf st k' of None \<Rightarrow> newStat [] [] | Some v \<Rightarrow> v)) else rowOf st k')" for st k x k'
    by (rule rowOf_observe)
  show "rowOf st k \<noteq> None \<Longrightarrow> admitsRow st k" for st k by (simp add: rowOf_def admitsRow_def)
qed (simp_all add: rows_inv_observe refused_row)

definition timed :: "Access_Record list \<Rightarrow> Access_Record list" where
  "timed rs = filter (\<lambda>r. re_Status r \<noteq> 101) rs"

definition tallyOf :: "(Access_Record \<Rightarrow> bool) \<Rightarrow> Access_Record list \<Rightarrow> int" where
  "tallyOf P rs = wrap64 (int (length (filter P rs)))"

definition sumOf :: "(Access_Record \<Rightarrow> int) \<Rightarrow> Access_Record list \<Rightarrow> int" where
  "sumOf f rs = wrap64 (sum_list (map f rs))"

lemma incr_tally: "incr (tallyOf P rs) = wrap64 (int (length (filter P rs)) + 1)"
  by (simp add: incr_def tallyOf_def wrap64_add)

lemma tallyOf_snoc: "tallyOf P (rs @ [r]) = (if P r then incr (tallyOf P rs) else tallyOf P rs)"
  by (simp add: incr_tally) (simp add: tallyOf_def add.commute)

lemma sumOf_snoc: "sumOf f (rs @ [r]) = wrap64 (sumOf f rs + f r)"
  by (simp add: sumOf_def wrap64_add)

text \<open>What the aggregate of a list of records is.\<close>

definition sumsUp :: "Access_Record list \<Rightarrow> aggregateStat \<Rightarrow> bool" where
  "sumsUp rs st \<longleftrightarrow>
     as_count st = tallyOf (\<lambda>_. True) rs \<and> as_bytes st = sumOf re_Bytes rs \<and>
     as_status304 st = tallyOf (\<lambda>r. re_Status r = 304) rs \<and> as_status499 st = tallyOf (\<lambda>r. re_Status r = 499) rs \<and>
     as_status5xx st = tallyOf (\<lambda>r. re_Status r \<ge> 500) rs \<and>
     as_latency st = tallyOf (\<lambda>_. True) (timed rs) \<and> as_totalNS st = sumOf re_RequestTime (timed rs) \<and>
     as_maxNS st = fold max (map re_RequestTime (timed rs)) 0 \<and>
     as_noUpstream st = tallyOf re_NoUpstreamTiming (timed rs) \<and>
     as_upstreamNS st = sumOf re_UpstreamTotal (filter re_UpstreamValid (timed rs)) \<and>
     as_upAttempts st = sumOf re_UpstreamAttempts (filter re_UpstreamValid (timed rs)) \<and>
     as_residualNS st = sumOf (\<lambda>r. re_RequestTime r - re_UpstreamTotal r) (filter hasResidual (timed rs)) \<and>
     as_residualN st = tallyOf hasResidual (timed rs)"

lemma sumsUp_Nil: "sumsUp [] (newStat m u)"
  by (simp add: sumsUp_def newStat_def timed_def tallyOf_def sumOf_def wrap64_def)

lemma sumsUp_traffic:
  "sumsUp rs st \<Longrightarrow> re_Status r = 101 \<Longrightarrow> sumsUp (rs @ [r]) (addTraffic r st)"
  by (simp add: sumsUp_def addTraffic_def timed_def tallyOf_snoc sumOf_snoc)

lemma sumsUp_latency:
  "sumsUp rs st \<Longrightarrow> re_Status r \<noteq> 101 \<Longrightarrow> sumsUp (rs @ [r]) (addLatency r (addTraffic r st))"
  by (simp add: sumsUp_def addTraffic_def addLatency_def timed_def tallyOf_snoc sumOf_snoc Let_def max_def wrap64_inner)

lemma sumsUp_fold: "sumsUp rs (fold addRecord rs (newStat m u))"
proof (induction rs rule: rev_induct)
  case (snoc r rs)
  then show ?case using sumsUp_traffic sumsUp_latency by (simp add: addRecord_def Let_def)
qed (simp add: sumsUp_Nil)

lemma sumsUp_measures: "sumsUp rs (measures st) = sumsUp rs st"
  by (simp add: sumsUp_def measures_def)

text \<open>Rows are named after their key.\<close>

definition named :: "string \<Rightarrow> aggregateStat \<Rightarrow> bool" where
  "named k st \<longleftrightarrow> as_method st @ [NUL] @ as_uri st = k"

lemma named_add: "named k (addRecord rec st) = named k st"
  by (simp add: named_def addRecord_def addTraffic_def addLatency_def Let_def)

lemma named_observe:
  assumes "\<forall>(k, st) \<in> set (la_stats a). named k st"
  shows "\<forall>(k, st) \<in> set (la_stats (observeRow (rowKey rec) rec a)). named k st"
proof (clarify)
  fix k st assume m: "(k, st) \<in> set (la_stats (observeRow (rowKey rec) rec a))"
  have "named overflowRow (newStat [] OverflowURI)" "named (rowKey rec) (newStat (re_Method rec) (re_URI rec))"
    by (simp_all add: named_def newStat_def overflowRow_def rowKey_def)
  then show "named k st"
    using m assms unfolding observeRow_eq Let_def
    by (auto dest!: set_alter simp: named_add split: if_splits)
qed

lemma run_rows:
  "la_stats (fold ObserveLog recs a) = la_stats (fold (\<lambda>(k, r). observeRow k r) (map (\<lambda>r. (rowKey r, r)) recs) a) \<and>
   la_maxKeys (fold ObserveLog recs a) = la_maxKeys a \<and>
   la_maxKeys (fold (\<lambda>(k, r). observeRow k r) (map (\<lambda>r. (rowKey r, r)) recs) a) = la_maxKeys a"
proof (induction recs rule: rev_induct)
  case (snoc r recs)
  then show ?case
    using observeRow_stats [of "fold ObserveLog recs a" "fold (\<lambda>(k, r). observeRow k r) (map (\<lambda>r. (rowKey r, r)) recs) a"]
    by (simp add: ObserveLog_rows)
qed simp

lemma run_lines: "la_lines a = 0 \<Longrightarrow> la_lines (fold ObserveLog recs a) = tallyOf (\<lambda>_. True) recs"
proof (induction recs rule: rev_induct)
  case (snoc r recs)
  then show ?case using tallyOf_snoc [of "\<lambda>_. True" recs r] by (simp add: ObserveLog_rows)
qed (simp add: tallyOf_def wrap64_def)

lemma run_named:
  "\<forall>(k, st) \<in> set (la_stats a). named k st \<Longrightarrow> \<forall>(k, st) \<in> set (la_stats (fold ObserveLog recs a)). named k st"
  by (induction recs rule: rev_induct) (simp_all add: ObserveLog_rows named_observe)

lemma newAggregator_empty:
  assumes "newAggregator dur m options = Inr a"
  shows "la_stats a = []" "la_protocols a = []" "la_lines a = 0" "la_lastBySess a = []" "la_flows a = []"
    "la_storySessions a = []" "la_storyPages a = []" "0 < la_maxKeys a"
    "la_maxKeys a = (if m \<le> 0 then DefaultMaxKeys else m)"
  using assms by (auto simp: newAggregator_def DefaultMaxKeys_def split: sum.splits if_splits)

text \<open>The records a row stands for: those of its key, and in the overflow row those whose key has no row.\<close>

definition rowRecords :: "string \<Rightarrow> Log_Aggregator \<Rightarrow> Access_Record list \<Rightarrow> Access_Record list" where
  "rowRecords k a recs = filter (\<lambda>r. rowKey r = k \<or> k = overflowRow \<and> rowKey r \<notin> fst ` set (la_stats a)) recs"

lemma obsOf_records: "obsOf P (map (\<lambda>r. (rowKey r, r)) recs) = filter (\<lambda>r. P (rowKey r)) recs"
  by (simp add: obsOf_def filter_map comp_def)

lemma rowOf_None: "rowOf a k = None \<longleftrightarrow> k \<notin> fst ` set (la_stats a)"
  by (simp add: rowOf_def map_of_eq_None_iff)

lemma row_is_merged:
  assumes "la_stats a = []" and "a' = fold (\<lambda>(k, r). observeRow k r) (map (\<lambda>r. (rowKey r, r)) recs) a" and "0 < la_maxKeys a"
  shows "rows_inv a'" "rowOf a' overflowRow = merged addRecord (newStat [] []) (rowRecords overflowRow a' recs)"
    "k \<noteq> overflowRow \<Longrightarrow> rowOf a' k \<noteq> None \<Longrightarrow> rowOf a' k = merged addRecord (newStat [] []) (rowRecords k a' recs)"
proof -
  have acc: "rows.accounted (map (\<lambda>r. (rowKey r, r)) recs) a'"
    unfolding assms(2) by (rule rows.accounted_all) (use assms in \<open>simp_all add: rows_inv_def rowOf_def\<close>)
  show "rows_inv a'" "rowOf a' overflowRow = merged addRecord (newStat [] []) (rowRecords overflowRow a' recs)"
    "k \<noteq> overflowRow \<Longrightarrow> rowOf a' k \<noteq> None \<Longrightarrow> rowOf a' k = merged addRecord (newStat [] []) (rowRecords k a' recs)"
    using acc by (simp_all add: rows.accounted_def obsOf_records rowRecords_def rowOf_None)
qed

lemma fresh_row:
  assumes "newAggregator dur m options = Inr a0" and "a = fold ObserveLog recs a0"
  shows "distinct (map fst (la_stats a))" "int (length (la_stats a)) \<le> la_maxKeys a0 + 1"
    "rowRecords overflowRow a recs \<noteq> [] \<Longrightarrow> overflowRow \<in> fst ` set (la_stats a)"
    "(k, st) \<in> set (la_stats a) \<Longrightarrow>
       rowRecords k a recs \<noteq> [] \<and> measures st = fold addRecord (rowRecords k a recs) (newStat [] [])"
proof -
  note fresh = newAggregator_empty [OF assms(1)]
  define b where "b = fold (\<lambda>(k, r). observeRow k r) (map (\<lambda>r. (rowKey r, r)) recs) a0"
  have same: "la_stats a = la_stats b" and keys: "la_maxKeys b = la_maxKeys a0"
    using run_rows [of recs a0] by (simp_all add: b_def assms(2))
  note rows = row_is_merged [OF fresh(1) b_def fresh(8)]
  have records: "rowRecords k b recs = rowRecords k a recs" for k by (simp add: rowRecords_def same)
  show d: "distinct (map fst (la_stats a))" and "int (length (la_stats a)) \<le> la_maxKeys a0 + 1"
    using rows(1) fresh(8) keys by (auto simp: same rows_inv_def split: if_splits)
  show "overflowRow \<in> fst ` set (la_stats a)" if "rowRecords overflowRow a recs \<noteq> []"
  proof -
    have "rowOf b overflowRow \<noteq> None" using rows(2) that by (simp add: merged_def records)
    then show ?thesis by (simp add: rowOf_None same)
  qed
  show "rowRecords k a recs \<noteq> [] \<and> measures st = fold addRecord (rowRecords k a recs) (newStat [] [])"
    if m: "(k, st) \<in> set (la_stats a)"
  proof -
    have row: "rowOf b k = Some (measures st)" using m d by (simp add: rowOf_def same)
    then have "rowOf b k = merged addRecord (newStat [] []) (rowRecords k a recs)"
      using rows(2,3) by (cases "k = overflowRow") (simp_all add: records)
    with row show ?thesis by (auto simp: merged_def split: if_splits)
  qed
qed

text \<open>
  C22: After any sequence of records, a fresh aggregator has at most \<open>maxKeys\<close> method/path rows and one
  overflow row, with distinct keys; every record is in exactly one of them (its own method and path
  while that has a row, the overflow row otherwise), no row is empty, and each number of a row (requests, bytes,
  statuses, latency total and maximum, upstream and residual time) is the sum over exactly its
  records, where upgraded connections (status 101) count as traffic but not as latency.
\<close>

theorem access_rows_exact:
  assumes "newAggregator dur m options = Inr a0" and "a = fold ObserveLog recs a0"
  shows "distinct (map fst (la_stats a)) \<and> int (length (la_stats a)) \<le> la_maxKeys a0 + 1 \<and>
    la_lines a = tallyOf (\<lambda>_. True) recs \<and>
    (\<forall>r \<in> set recs. \<exists>!k. k \<in> fst ` set (la_stats a) \<and> r \<in> set (rowRecords k a recs)) \<and>
    (\<forall>(k, st) \<in> set (la_stats a). rowRecords k a recs \<noteq> [] \<and> sumsUp (rowRecords k a recs) st \<and> named k st)"
proof -
  note fresh = newAggregator_empty [OF assms(1)] and row = fresh_row [OF assms]
  have "rowRecords k a recs \<noteq> [] \<and> sumsUp (rowRecords k a recs) st \<and> named k st" if m: "(k, st) \<in> set (la_stats a)" for k st
    using row(4) [OF m] sumsUp_fold [of "rowRecords k a recs" "[]" "[]"] sumsUp_measures [of "rowRecords k a recs" st]
      run_named [of a0 recs] m fresh(1) by (auto simp: assms(2))
  moreover have "\<exists>!k. k \<in> fst ` set (la_stats a) \<and> r \<in> set (rowRecords k a recs)" if r: "r \<in> set recs" for r
  proof (cases "rowKey r \<in> fst ` set (la_stats a)")
    case True
    then show ?thesis using r by (auto simp: rowRecords_def)
  next
    case False
    then have "r \<in> set (rowRecords overflowRow a recs)" using r by (simp add: rowRecords_def)
    then have "overflowRow \<in> fst ` set (la_stats a)" by (intro row(3)) auto
    then show ?thesis using r False by (intro ex1I [of _ overflowRow]) (auto simp: rowRecords_def)
  qed
  moreover have "la_lines a = tallyOf (\<lambda>_. True) recs" using run_lines fresh(3) assms(2) by simp
  ultimately show ?thesis using row(1,2) by auto
qed

lemma three_keys:
  "fst ` set (la_stats (fold ObserveLog threeVisits plainLog)) = {''GET'' @ [NUL] @ ''/a'', overflowRow}"
  using run_rows [of threeVisits plainLog]
  by (simp add: threeVisits_def observeRow_eq admitsRow_def Let_def plainLog_def rowKey_def visitAt_def overflowRow_def keys_alter)

theorem access_rows_exact_witness:
  "\<exists>st. (''GET'' @ [NUL] @ ''/a'', st) \<in> set (la_stats (fold ObserveLog threeVisits plainLog)) \<and>
     sumsUp [visitAt ''/a'' 3, visitAt ''/a'' 5] st"
proof -
  let ?a = "fold ObserveLog threeVisits plainLog" and ?k = "''GET'' @ [NUL] @ ''/a''"
  have "?k \<in> fst ` set (la_stats ?a)" unfolding three_keys by (rule insertI1)
  then obtain st where st: "(?k, st) \<in> set (la_stats ?a)" by (elim imageE) (metis prod.collapse)
  have "rowRecords ?k ?a threeVisits = [visitAt ''/a'' 3, visitAt ''/a'' 5]"
    by (simp add: rowRecords_def threeVisits_def overflowRow_def rowKey_def visitAt_def)
  moreover have "sumsUp (rowRecords ?k ?a threeVisits) st" using access_rows_exact [OF plain_new refl, of threeVisits] st by blast
  ultimately show ?thesis using st by (intro exI [of _ st]) simp
qed

subsection \<open>Percentiles\<close>

lemma durationBucket_nonneg:
  assumes "0 \<le> x" and "in_int64 x"
  shows "durationBucket x = bits_Len (nat x)"
proof -
  have "nat x < 2 ^ 63" using assms by (auto simp: go_defs)
  then have "bits_Len (nat x) \<le> 63" by (simp only: bits_Len_le_iff)
  then show ?thesis using assms by (simp add: durationBucket_def unat_of_nonneg)
qed

lemma durationBucket_mono: "0 \<le> x \<Longrightarrow> x \<le> y \<Longrightarrow> in_int64 y \<Longrightarrow> durationBucket x \<le> durationBucket y"
proof -
  assume a: "0 \<le> x" "x \<le> y" "in_int64 y"
  then have "in_int64 x" "nat x \<le> nat y" by (auto simp: go_defs)
  with a bits_Len_le_iff [of "nat y" "bits_Len (nat y)"] have "bits_Len (nat x) \<le> bits_Len (nat y)"
    by (simp add: bits_Len_le_iff)
  with a \<open>in_int64 x\<close> show ?thesis by (simp add: durationBucket_nonneg)
qed

interpretation access: histogram logBuckets durationBucket
  by unfold_locales (auto simp: durationBucket_mono, simp add: durationBucket_def Let_def)

text \<open>The upper end of a bucket is within a factor of two of what is in it.\<close>

lemma bucketUpper_close:
  assumes "0 \<le> x" and "in_int64 x" and "x \<le> mx" and "in_int64 mx"
  shows "x \<le> bucketUpper mx (durationBucket x) \<and> bucketUpper mx (durationBucket x) \<le> 2 * x"
proof (cases "x = 0")
  case True
  then show ?thesis by (simp add: durationBucket_nonneg bucketUpper_def go_defs bits_Len.simps)
next
  case False
  then have p: "0 < nat x" using assms(1) by simp
  define b where "b = bits_Len (nat x)"
  have b: "0 < b" "2 ^ (b - 1) \<le> nat x" "nat x < 2 ^ b" using bits_Len_pos [OF p] bits_Len_bounds [OF p] by (simp_all add: b_def)
  have lo: "2 ^ (b - 1) \<le> x" "x < 2 ^ b" using b(2,3) assms(1) by (simp_all add: le_nat_iff nat_less_iff)
  moreover have "(2::int) ^ b = 2 * 2 ^ (b - 1)" using b(1) by (cases b) simp_all
  moreover have "mx < 2 ^ 63" using assms(4) by (simp add: go_defs)
  ultimately show ?thesis
    using b(1) assms by (auto simp: bucketUpper_def durationBucket_nonneg b_def [symmetric])
qed

definition timesOf :: "Access_Record list \<Rightarrow> int list" where
  "timesOf rs = map re_RequestTime (timed rs)"

lemma buckets_fold:
  assumes "int (length rs) \<le> int64_max"
  shows "as_buckets (fold addRecord rs (newStat m u)) = counts_of logBuckets durationBucket (timesOf rs)"
  using assms
proof (induction rs rule: rev_induct)
  case Nil
  then show ?case by (simp add: newStat_def timesOf_def timed_def counts_of_Nil)
next
  case (snoc r rs)
  have "length (timesOf rs) \<le> length rs" by (simp add: timesOf_def timed_def)
  then have "countIn (durationBucket (re_RequestTime r)) (counts_of logBuckets durationBucket (timesOf rs)) =
      counts_of logBuckets durationBucket (timesOf rs @ [re_RequestTime r])"
    using snoc.prems by (intro countIn_counts access.bucket_lt) simp
  with snoc show ?case
    by (simp add: addRecord_def addTraffic_def addLatency_def Let_def timesOf_def timed_def)
qed

lemma percentile_le_max: "x \<in> set xs \<Longrightarrow> x \<le> fold max xs (0::int)"
  by (metis Max_ge List.finite_set list.set_intros(2) Max.set_eq_fold)

lemma bucketPercentile_close:
  assumes "xs \<noteq> []" and "\<forall>x \<in> set xs. 0 \<le> x \<and> in_int64 x" and "95 * int (length xs) + 99 \<le> int64_max"
  shows "percentile95 xs \<le> bucketPercentile (int (length xs)) (fold max xs 0) (counts_of logBuckets durationBucket xs) \<and>
    bucketPercentile (int (length xs)) (fold max xs 0) (counts_of logBuckets durationBucket xs) \<le> 2 * percentile95 xs"
proof -
  let ?p = "percentile95 xs" and ?mx = "fold max xs 0"
  have p: "?p \<in> set xs" by (rule access.percentile_mem [OF assms(1)])
  have "?mx = Max (set (0 # xs))" by (simp only: Max.set_eq_fold)
  then have "?mx \<in> set (0 # xs)" using Max_in [of "set (0 # xs)"] by simp
  then have mx: "in_int64 ?mx" using assms(2) by (auto simp: go_defs)
  have "rankBucket (int (rank95 (length xs))) 0 0 (counts_of logBuckets durationBucket xs) = Some (durationBucket ?p)"
    using assms by (intro access.rank_bucket) auto
  then have "bucketPercentile (int (length xs)) ?mx (counts_of logBuckets durationBucket xs) = bucketUpper ?mx (durationBucket ?p)"
    using assms(1) target_is_rank [OF assms(3)] by (simp add: bucketPercentile_def)
  then show ?thesis using bucketUpper_close [of ?p ?mx] p assms(2) percentile_le_max [OF p] mx by simp
qed

text \<open>
  The percentile a snapshot reports for a row is at least the exact nearest-rank 95th percentile of the
  latencies of the row's records and at most twice it, and zero when the row has only upgraded
  connections.
\<close>

lemma access_percentile_within_octave:
  assumes "newAggregator dur m options = Inr a0" and "a = fold ObserveLog recs a0"
    and "\<forall>r \<in> set recs. 0 \<le> re_RequestTime r \<and> in_int64 (re_RequestTime r)"
    and "95 * int (length recs) + 99 \<le> int64_max"
    and "(k, st) \<in> set (la_stats a)" and "xs = timesOf (rowRecords k a recs)"
  shows "(if xs = [] then le_RequestP95 (logEntry st) = 0
     else percentile95 xs \<le> le_RequestP95 (logEntry st) \<and> le_RequestP95 (logEntry st) \<le> 2 * percentile95 xs)"
proof -
  let ?rs = "rowRecords k a recs"
  have len: "length ?rs \<le> length recs" "length xs \<le> length ?rs" "set ?rs \<subseteq> set recs"
    unfolding assms(6) timesOf_def timed_def by (simp_all add: rowRecords_def del: filter_filter)
  note st = fresh_row(4) [OF assms(1,2,5)]
  have "as_buckets st = counts_of logBuckets durationBucket xs"
  proof -
    have "as_buckets st = as_buckets (measures st)" by (simp add: measures_def)
    then show ?thesis using buckets_fold [of ?rs "[]" "[]"] st len assms(4) by (simp add: assms(6))
  qed
  moreover have "as_latency st = int (length xs)" "as_maxNS st = fold max xs 0"
  proof -
    have "sumsUp ?rs st" using st sumsUp_fold [of ?rs "[]" "[]"] sumsUp_measures [of ?rs st] by simp
    moreover have "wrap64 (int (length xs)) = int (length xs)" using len assms(4) by (intro wrap64_id) (simp add: go_defs)
    ultimately show "as_latency st = int (length xs)" "as_maxNS st = fold max xs 0"
      by (simp_all add: sumsUp_def tallyOf_def assms(6) timesOf_def)
  qed
  moreover have "\<forall>x \<in> set xs. 0 \<le> x \<and> in_int64 x" using assms(3) len(3) by (auto simp: assms(6) timesOf_def timed_def)
  ultimately show ?thesis
    using bucketPercentile_close [of xs] len(1,2) assms(4) by (simp add: logEntry_def logPercentile95_def bucketPercentile_def)
qed

end
