(* ===== verification/Access_Journeys.thy ===== *)
theory Access_Journeys
  imports Access_Rows Graph_Theorems
begin

text \<open>
  Scenario journeys and session transitions of the access log: what the tables hold for a session in
  terms of the pages of its records, and the bounds that hold whatever the records are.
\<close>

subsection \<open>Journeys\<close>

text \<open>A journey has 32 steps at most; a longer one ends in \<open>(other)\<close>.\<close>

definition cutJourney :: "string list \<Rightarrow> string list" where
  "cutJourney ps = (if length ps \<le> maxStorySteps then ps else take (maxStorySteps - 1) ps @ [OverflowURI])"

definition nextJourney :: "string \<Rightarrow> string list \<Rightarrow> string list" where
  "nextJourney page js =
     (if length js \<ge> maxStorySteps then (if js ! (maxStorySteps - 1) = page then js else js[maxStorySteps - 1 := OverflowURI])
      else if js \<noteq> [] \<and> last js = page then js else js @ [page])"

lemma remdups_adj_snoc:
  "remdups_adj (ps @ [p]) = (if ps \<noteq> [] \<and> last ps = p then remdups_adj ps else remdups_adj ps @ [p])"
  by (induction ps rule: remdups_adj.induct) auto

lemma update_end: "length js = Suc n \<Longrightarrow> js[n := x] = take n js @ [x]"
  by (metis butlast_conv_take diff_Suc_1 length_0_conv nat.simps(3) list_update_length snoc_eq_iff_butlast length_butlast)

lemma cutJourney_snoc: "cutJourney (remdups_adj (ps @ [p])) = nextJourney p (cutJourney (remdups_adj ps))"
proof -
  define r where "r = remdups_adj ps"
  have snoc: "remdups_adj (ps @ [p]) = (if r \<noteq> [] \<and> last r = p then r else r @ [p])"
    by (simp add: r_def remdups_adj_snoc)
  consider "length r < 32" | "length r = 32" | "32 < length r" by linarith
  then show ?thesis
  proof cases
    case 1
    then show ?thesis by (simp add: snoc r_def [symmetric] cutJourney_def nextJourney_def)
  next
    case 2
    then have "r \<noteq> []" by auto
    with 2 have "r ! 31 = last r" by (simp add: last_conv_nth)
    with 2 show ?thesis by (auto simp: snoc r_def [symmetric] cutJourney_def nextJourney_def update_end)
  next
    case 3
    then have "nextJourney p (take 31 r @ [OverflowURI]) = take 31 r @ [OverflowURI]"
      by (simp add: nextJourney_def nth_append list_update_append)
    with 3 show ?thesis by (simp add: snoc r_def [symmetric] cutJourney_def)
  qed
qed

definition tellsStory :: "Access_Record \<Rightarrow> bool" where
  "tellsStory r \<longleftrightarrow> validSession (re_Session r) \<and> validScenario (re_Scenario r)"

definition storyOf :: "Access_Record \<Rightarrow> string" where
  "storyOf r = storyKey (re_Scenario r) (re_Session r)"

text \<open>Every page a record names has been interned as itself, or there is room for it.\<close>

definition internable :: "string \<Rightarrow> Log_Aggregator \<Rightarrow> bool" where
  "internable page a \<longleftrightarrow>
     (case map_of (la_storyPages a) page of None \<Rightarrow> page = OverflowURI \<or> length (la_storyPages a) < maxStoryPages | Some q \<Rightarrow> q = page)"

lemma intern_page: "internable page a \<Longrightarrow> fst (internStoryPage page a) = page"
  by (auto simp: internable_def internStoryPage_def split: option.splits)

lemma intern_sessions: "la_storySessions (snd (internStoryPage page a)) = la_storySessions a"
  by (auto simp: internStoryPage_def dropStory_def split: option.splits)

lemma intern_pages:
  "la_storyPages (snd (internStoryPage page a)) =
     (if page \<noteq> OverflowURI \<and> map_of (la_storyPages a) page = None \<and> length (la_storyPages a) < maxStoryPages
      then assign page page (la_storyPages a) else la_storyPages a)"
  by (auto simp: internStoryPage_def dropStory_def split: option.splits)

lemma extend_sessions:
  assumes "internable page a" and "map_of (la_storySessions a) key = Some state"
  shows "map_of (la_storySessions (extendJourney key page state a)) =
     (map_of (la_storySessions a))(key \<mapsto> state\<lparr>st_journey := nextJourney page (st_journey state)\<rparr>)"
proof -
  obtain p a' where i: "internStoryPage page a = (p, a')" by fastforce
  then have "p = page" "la_storySessions a' = la_storySessions a" using intern_page [OF assms(1)] intern_sessions [of page a] by simp_all
  moreover have "state\<lparr>st_journey := st_journey state\<rparr> = state" by simp
  moreover have "(st_journey state)[31 := OverflowURI] = st_journey state" if "st_journey state ! 31 = OverflowURI"
    using that by (metis list_update_id)
  ultimately show ?thesis
    using assms(2) by (auto simp: extendJourney_def nextJourney_def i setStory_def dropStory_def map_of_assign fun_upd_triv)
qed

lemma extend_length:
  "map_of (la_storySessions a) key \<noteq> None \<Longrightarrow>
   length (la_storySessions (extendJourney key page state a)) = length (la_storySessions a)"
  using intern_sessions [of page a]
  by (auto simp: extendJourney_def setStory_def dropStory_def length_assign split: prod.split)

lemma extend_pages:
  "la_storyPages (extendJourney key page state a) = la_storyPages a \<or>
   la_storyPages (extendJourney key page state a) = la_storyPages (snd (internStoryPage page a))"
  by (auto simp: extendJourney_def setStory_def dropStory_def split: prod.split)

definition freshStory :: "Access_Record \<Rightarrow> storySession" where
  "freshStory r = \<lparr>st_scenario = re_Scenario r, st_journey = [], st_requests = 0\<rparr>"

definition grownStory :: "Access_Record \<Rightarrow> storySession \<Rightarrow> storySession" where
  "grownStory r st = st\<lparr>st_requests := incr (st_requests st), st_journey := nextJourney (pageOf r) (st_journey st)\<rparr>"

definition refusesStory :: "Log_Aggregator \<Rightarrow> string \<Rightarrow> bool" where
  "refusesStory a key \<longleftrightarrow> map_of (la_storySessions a) key = None \<and> length (la_storySessions a) \<ge> maxStorySessions"

lemma observeStory_refused: "tellsStory r \<Longrightarrow> refusesStory a (storyOf r) \<Longrightarrow> observeStory r a = dropStory a"
  by (simp add: observeStory_def tellsStory_def refusesStory_def storyOf_def)

lemma observeStory_silent: "\<not> tellsStory r \<Longrightarrow> observeStory r a = a"
  by (auto simp: observeStory_def tellsStory_def)

definition openStory :: "Access_Record \<Rightarrow> Log_Aggregator \<Rightarrow> Log_Aggregator" where
  "openStory r a =
     (let st = (case map_of (la_storySessions a) (storyOf r) of None \<Rightarrow> freshStory r | Some st \<Rightarrow> st);
          a1 = setStory (storyOf r) (st\<lparr>st_requests := incr (st_requests st)\<rparr>) a
      in if fitsPage r then a1 else dropStory a1)"

lemma openStory_parts:
  "map_of (la_storySessions (openStory r a)) (storyOf r) =
     Some (case map_of (la_storySessions a) (storyOf r) of None \<Rightarrow> (freshStory r)\<lparr>st_requests := incr 0\<rparr>
           | Some st \<Rightarrow> st\<lparr>st_requests := incr (st_requests st)\<rparr>)"
  "k \<noteq> storyOf r \<Longrightarrow> map_of (la_storySessions (openStory r a)) k = map_of (la_storySessions a) k"
  "length (la_storySessions (openStory r a)) =
     (if map_of (la_storySessions a) (storyOf r) = None then Suc (length (la_storySessions a)) else length (la_storySessions a))"
  "la_storyPages (openStory r a) = la_storyPages a"
  by (auto simp: openStory_def setStory_def dropStory_def freshStory_def map_of_assign length_assign Let_def split: option.split)

lemma observeStory_eq:
  assumes "tellsStory r" and "\<not> refusesStory a (storyOf r)"
  shows "observeStory r a =
     extendJourney (storyOf r) (pageOf r) (the (map_of (la_storySessions (openStory r a)) (storyOf r))) (openStory r a)"
  using assms
  by (cases "map_of (la_storySessions a) (storyOf r)")
    (simp_all add: observeStory_def tellsStory_def refusesStory_def openStory_def storyOf_def freshStory_def setStory_def dropStory_def
      map_of_assign Let_def)

lemma observeStory_sessions:
  assumes "tellsStory r" and "\<not> refusesStory a (storyOf r)" and "internable (pageOf r) a"
  shows "map_of (la_storySessions (observeStory r a)) = (map_of (la_storySessions a))
      (storyOf r \<mapsto> grownStory r (case map_of (la_storySessions a) (storyOf r) of None \<Rightarrow> freshStory r | Some st \<Rightarrow> st))"
    and "length (la_storySessions a) \<le> length (la_storySessions (observeStory r a))"
proof -
  have "internable (pageOf r) (openStory r a)" using assms(3) by (auto simp: internable_def openStory_parts split: option.splits)
  note ext = extend_sessions [OF this]
  show "map_of (la_storySessions (observeStory r a)) = (map_of (la_storySessions a))
      (storyOf r \<mapsto> grownStory r (case map_of (la_storySessions a) (storyOf r) of None \<Rightarrow> freshStory r | Some st \<Rightarrow> st))"
  proof
    fix k
    show "map_of (la_storySessions (observeStory r a)) k = ((map_of (la_storySessions a))
      (storyOf r \<mapsto> grownStory r (case map_of (la_storySessions a) (storyOf r) of None \<Rightarrow> freshStory r | Some st \<Rightarrow> st))) k"
      using ext [of "storyOf r"]
      by (cases "k = storyOf r") (auto simp: observeStory_eq [OF assms(1,2)] openStory_parts grownStory_def freshStory_def split: option.split)
  qed
  show "length (la_storySessions a) \<le> length (la_storySessions (observeStory r a))"
    unfolding observeStory_eq [OF assms(1,2)] by (subst extend_length) (simp_all add: openStory_parts)
qed

lemma observeStory_pages:
  "la_storyPages (observeStory r a) = la_storyPages a \<or>
   tellsStory r \<and> la_storyPages (observeStory r a) = la_storyPages (snd (internStoryPage (pageOf r) a))"
proof (cases "tellsStory r \<and> \<not> refusesStory a (storyOf r)")
  case True
  let ?b = "openStory r a"
  have "la_storyPages (snd (internStoryPage (pageOf r) ?b)) = la_storyPages (snd (internStoryPage (pageOf r) a))"
    unfolding intern_pages openStory_parts by simp
  then show ?thesis
    using extend_pages [of "storyOf r" "pageOf r" "the (map_of (la_storySessions ?b) (storyOf r))" ?b] True
    by (simp add: observeStory_eq openStory_parts)
next
  case False
  then show ?thesis by (cases "tellsStory r") (auto simp: observeStory_refused observeStory_silent dropStory_def)
qed

lemma safe_not_NUL: "isSafeSessionByte c \<Longrightarrow> c \<noteq> NUL"
  by (auto simp: isSafeSessionByte_def less_eq_char_def)

lemma storyKey_inj:
  assumes "validScenario c" and "validScenario c'" and "storyKey c s = storyKey c' s'"
  shows "c = c' \<and> s = s'"
proof -
  have cut: "takeWhile (\<lambda>x. x \<noteq> NUL) (storyKey d t) = d" if "validScenario d" for d t
    using that safe_not_NUL by (auto simp: storyKey_def validScenario_def validSafeIdentifier_def list_all_iff takeWhile_append)
  have "c = c'" using assms(3) cut [OF assms(1), of s] cut [OF assms(2), of s'] by simp
  then show ?thesis using assms(3) by (simp add: storyKey_def)
qed

definition storyRecords :: "string \<Rightarrow> Access_Record list \<Rightarrow> Access_Record list" where
  "storyRecords k recs = filter (\<lambda>r. tellsStory r \<and> storyOf r = k) recs"

definition tellsJourney :: "Access_Record list \<Rightarrow> storySession \<Rightarrow> bool" where
  "tellsJourney rs st \<longleftrightarrow> rs \<noteq> [] \<and> (\<forall>r \<in> set rs. st_scenario st = re_Scenario r) \<and>
     st_journey st = cutJourney (remdups_adj (map pageOf rs)) \<and> st_requests st = tallyOf (\<lambda>_. True) rs"

definition toldBy :: "Access_Record list \<Rightarrow> Log_Aggregator \<Rightarrow> bool" where
  "toldBy recs a \<longleftrightarrow>
     (\<forall>k. map_of (la_storySessions a) k = None \<longrightarrow> storyRecords k recs = [] \<or> maxStorySessions \<le> length (la_storySessions a)) \<and>
     (\<forall>k st. map_of (la_storySessions a) k = Some st \<longrightarrow> tellsJourney (storyRecords k recs) st)"

definition pagesFrom :: "Access_Record list \<Rightarrow> Log_Aggregator \<Rightarrow> bool" where
  "pagesFrom recs a \<longleftrightarrow> distinct (map fst (la_storyPages a)) \<and>
     (\<forall>p q. (p, q) \<in> set (la_storyPages a) \<longrightarrow> p = q \<and> p \<in> pageOf ` set (filter tellsStory recs))"

lemma storyRecords_snoc:
  "storyRecords k (recs @ [r]) = storyRecords k recs @ (if tellsStory r \<and> storyOf r = k then [r] else [])"
  by (simp add: storyRecords_def)

lemma tellsJourney_first: "tellsJourney [r] (grownStory r (freshStory r))"
  by (simp add: tellsJourney_def grownStory_def freshStory_def nextJourney_def cutJourney_def tallyOf_def incr_def)

lemma tellsJourney_next:
  assumes "tellsJourney rs st" and "\<forall>r' \<in> set rs. re_Scenario r' = re_Scenario r"
  shows "tellsJourney (rs @ [r]) (grownStory r st)"
proof -
  obtain r' where "r' \<in> set rs" using assms(1) by (cases rs) (auto simp: tellsJourney_def)
  then have "st_scenario st = re_Scenario r" using assms by (auto simp: tellsJourney_def)
  moreover have "tallyOf (\<lambda>_. True) (rs @ [r]) = incr (tallyOf (\<lambda>_. True) rs)" by (simp add: tallyOf_snoc)
  ultimately show ?thesis
    using assms(1) by (simp add: tellsJourney_def grownStory_def flip: cutJourney_snoc)
qed

lemma toldBy_silent:
  assumes "\<not> tellsStory r"
  shows "toldBy (recs @ [r]) (observeStory r a) = toldBy recs a"
proof -
  have "storyRecords k (recs @ [r]) = storyRecords k recs" for k using assms by (simp add: storyRecords_snoc)
  then show ?thesis unfolding toldBy_def observeStory_silent [OF assms] by (simp only:)
qed

lemma toldBy_observe:
  assumes told: "toldBy recs a" and page: "internable (pageOf r) a"
  shows "toldBy (recs @ [r]) (observeStory r a)"
proof (cases "tellsStory r")
  case False
  then show ?thesis using told by (simp add: toldBy_silent)
next
  case tells: True
  show ?thesis
  proof (cases "refusesStory a (storyOf r)")
    case True
    then show ?thesis
      using told by (auto simp: toldBy_def storyRecords_snoc observeStory_refused [OF tells] dropStory_def refusesStory_def split: option.splits)
  next
    case False
    note s = observeStory_sessions [OF tells False page]
    have "tellsJourney (storyRecords (storyOf r) recs @ [r])
        (grownStory r (case map_of (la_storySessions a) (storyOf r) of None \<Rightarrow> freshStory r | Some st \<Rightarrow> st))"
    proof (cases "map_of (la_storySessions a) (storyOf r)")
      case None
      then have "storyRecords (storyOf r) recs = []"
        using told False by (auto simp: toldBy_def refusesStory_def)
      with None show ?thesis by (simp add: tellsJourney_first)
    next
      case (Some st)
      then have "tellsJourney (storyRecords (storyOf r) recs) st" using told by (auto simp: toldBy_def split: option.splits)
      moreover have "\<forall>r' \<in> set (storyRecords (storyOf r) recs). re_Scenario r' = re_Scenario r"
        using tells storyKey_inj by (auto simp: storyRecords_def tellsStory_def storyOf_def)
      ultimately show ?thesis using Some by (simp add: tellsJourney_next)
    qed
    then show ?thesis
      using told s(2) tells unfolding toldBy_def s(1) by (auto simp: storyRecords_snoc split: option.splits)
  qed
qed

lemma pagesFrom_observe: "pagesFrom recs a \<Longrightarrow> pagesFrom (recs @ [r]) (observeStory r a)"
  using observeStory_pages [of r a]
  by (auto simp: pagesFrom_def intern_pages distinct_assign dest!: set_assign split: if_splits)

lemma pagesFrom_internable:
  assumes "pagesFrom recs a" and "card (pageOf ` set (filter tellsStory (recs @ [r]))) \<le> maxStoryPages" and "tellsStory r"
  shows "internable (pageOf r) a"
proof (cases "map_of (la_storyPages a) (pageOf r)")
  case None
  let ?ps = "fst ` set (la_storyPages a)"
  have "insert (pageOf r) ?ps \<subseteq> pageOf ` set (filter tellsStory (recs @ [r]))"
    using assms by (auto simp: pagesFrom_def)
  then have "card (insert (pageOf r) ?ps) \<le> maxStoryPages" using assms(2) by (meson List.finite_set card_mono finite_imageI le_trans)
  moreover have "pageOf r \<notin> ?ps" using None by (simp add: map_of_eq_None_iff)
  moreover have "card ?ps = length (la_storyPages a)"
    using assms(1) distinct_card [of "map fst (la_storyPages a)"] by (simp add: pagesFrom_def)
  ultimately show ?thesis using None by (simp add: internable_def)
next
  case (Some q)
  then show ?thesis using assms(1) by (auto simp: pagesFrom_def internable_def dest: map_of_SomeD)
qed

lemma ObserveLog_stories:
  "la_storySessions (ObserveLog r a) = la_storySessions (observeStory r (observeProtocol r (countLine a)))"
  "la_storyPages (ObserveLog r a) = la_storyPages (observeStory r (observeProtocol r (countLine a)))"
  by (simp_all add: ObserveLog_def)

lemma story_cong:
  assumes "la_storySessions b = la_storySessions a" and "la_storyPages b = la_storyPages a"
  shows "toldBy recs b = toldBy recs a" "pagesFrom recs b = pagesFrom recs a" "internable p b = internable p a"
  unfolding toldBy_def pagesFrom_def internable_def assms by (rule refl)+

lemma run_stories:
  assumes "la_storySessions a0 = []" and "la_storyPages a0 = []"
    and "card (pageOf ` set (filter tellsStory recs)) \<le> maxStoryPages"
  shows "toldBy recs (fold ObserveLog recs a0) \<and> pagesFrom recs (fold ObserveLog recs a0)"
  using assms(3)
proof (induction recs rule: rev_induct)
  case Nil
  then show ?case using assms by (simp add: toldBy_def pagesFrom_def storyRecords_def)
next
  case (snoc r recs)
  let ?a = "fold ObserveLog recs a0"
  let ?b = "observeProtocol r (countLine ?a)"
  have "card (pageOf ` set (filter tellsStory recs)) \<le> card (pageOf ` set (filter tellsStory (recs @ [r])))"
    by (intro card_mono) auto
  with snoc have ih: "toldBy recs ?b" "pagesFrom recs ?b" using story_cong [of ?b ?a] by simp_all
  have "toldBy (recs @ [r]) (observeStory r ?b)"
  proof (cases "tellsStory r")
    case True
    then show ?thesis using toldBy_observe [OF ih(1)] pagesFrom_internable [OF ih(2) snoc.prems] by simp
  next
    case False
    then show ?thesis using ih(1) by (simp add: toldBy_silent)
  qed
  then show ?case
    using pagesFrom_observe [OF ih(2)] story_cong [of "ObserveLog r ?a" "observeStory r ?b"] ObserveLog_stories by simp
qed

text \<open>
  As long as at most 10000 different pages are seen, what the aggregator keeps of a scenario session
  is its whole history: the scenario's name, the number of its requests, and as journey the sequence
  of its pages with immediate repetitions removed, cut to 32 steps of which the last then reads
  \<open>(other)\<close>. A session is missing only when it had no request or the table of sessions is full.
\<close>

lemma journey_is_page_sequence:
  assumes "newAggregator dur m options = Inr a0" and "a = fold ObserveLog recs a0"
    and "card (pageOf ` set (filter tellsStory recs)) \<le> maxStoryPages"
    and "validScenario scenario"
    and "rs = filter (\<lambda>r. validSession (re_Session r) \<and> re_Scenario r = scenario \<and> re_Session r = session) recs"
  shows "(case map_of (la_storySessions a) (storyKey scenario session) of
      None \<Rightarrow> rs = [] \<or> maxStorySessions \<le> length (la_storySessions a)
    | Some st \<Rightarrow> rs \<noteq> [] \<and> st_scenario st = scenario \<and> st_requests st = wrap64 (int (length rs)) \<and>
        st_journey st = cutJourney (remdups_adj (map pageOf rs)))"
proof -
  have rs: "storyRecords (storyKey scenario session) recs = rs"
    unfolding storyRecords_def assms(5)
    by (intro filter_cong) (use assms(4) storyKey_inj in \<open>auto simp: tellsStory_def storyOf_def\<close>)
  note told = conjunct1 [OF run_stories [OF newAggregator_empty(6,7) [OF assms(1)] assms(3)], folded assms(2), unfolded toldBy_def]
  show ?thesis
  proof (cases "map_of (la_storySessions a) (storyKey scenario session)")
    case None
    with told rs show ?thesis by auto
  next
    case (Some st)
    with told have t: "tellsJourney rs st" by (simp add: rs [symmetric])
    then obtain r where "r \<in> set rs" by (cases rs) (auto simp: tellsJourney_def)
    then have "st_scenario st = scenario" using t assms(5) by (auto simp: tellsJourney_def)
    with t Some show ?thesis by (simp add: tellsJourney_def tallyOf_def)
  qed
qed

lemma observeStory_growth: "length (la_storySessions (observeStory r a)) \<le> Suc (length (la_storySessions a))"
proof (cases "tellsStory r \<and> \<not> refusesStory a (storyOf r)")
  case True
  then show ?thesis by (simp add: observeStory_eq extend_length openStory_parts)
next
  case False
  then show ?thesis by (cases "tellsStory r") (auto simp: observeStory_refused observeStory_silent dropStory_def)
qed

lemma stories_growth: "length (la_storySessions (fold ObserveLog recs a)) \<le> length (la_storySessions a) + length recs"
proof (induction recs rule: rev_induct)
  case (snoc r recs)
  then show ?case
    using observeStory_growth [of r "observeProtocol r (countLine (fold ObserveLog recs a))"] by (simp add: ObserveLog_stories)
qed simp

lemma example_identifiers: "validScenario ''shop''" "validSession ''u1''"
  by (simp_all add: validScenario_def validSession_def validSafeIdentifier_def isSafeSessionByte_def less_eq_char_def)

lemma example_pages:
  "pageOf (visitAt ''/a'' 3) = ''GET /a''" "pageOf (visitAt ''/a'' 5) = ''GET /a''" "pageOf (visitAt ''/b'' 9) = ''GET /b''"
  by (simp_all add: pageOf_def fitsPage_def visitAt_def)

subsection \<open>Transitions\<close>

definition sessionPages :: "string \<Rightarrow> Access_Record list \<Rightarrow> string list" where
  "sessionPages s recs = map pageOf (filter (\<lambda>r. validSession (re_Session r) \<and> re_Session r = s) recs)"

definition loggedSessions :: "Access_Record list \<Rightarrow> string set" where
  "loggedSessions recs = re_Session ` set (filter (\<lambda>r. validSession (re_Session r)) recs)"

definition stepKeys :: "string list \<Rightarrow> string list" where
  "stepKeys ps = map (\<lambda>(p, q). flowKey p q) (zip ps (tl ps))"

text \<open>How often some session of the log goes from one page to another, by the key of the two pages.\<close>

definition transitionCount :: "Access_Record list \<Rightarrow> string \<Rightarrow> nat" where
  "transitionCount recs k = (\<Sum>s \<in> loggedSessions recs. count_list (stepKeys (sessionPages s recs)) k)"

lemma stepKeys_snoc: "stepKeys (ps @ [p]) = stepKeys ps @ (if ps = [] then [] else [flowKey (last ps) p])"
proof (induction ps)
  case (Cons q ps)
  then show ?case by (cases ps) (auto simp: stepKeys_def)
qed (simp add: stepKeys_def)

lemma sessionPages_snoc:
  "sessionPages s (recs @ [r]) = sessionPages s recs @ (if validSession s \<and> re_Session r = s then [pageOf r] else [])"
  by (auto simp: sessionPages_def)

lemma sessionPages_Nil: "sessionPages s recs = [] \<longleftrightarrow> s \<notin> loggedSessions recs"
  by (auto simp: sessionPages_def loggedSessions_def filter_empty_conv)

lemma loggedSessions_snoc:
  "loggedSessions (recs @ [r]) = (if validSession (re_Session r) then insert (re_Session r) (loggedSessions recs) else loggedSessions recs)"
  by (auto simp: loggedSessions_def)

lemma finite_loggedSessions [simp]: "finite (loggedSessions recs)"
  by (simp add: loggedSessions_def)

lemma transitionCount_silent: "\<not> validSession (re_Session r) \<Longrightarrow> transitionCount (recs @ [r]) = transitionCount recs"
  by (intro ext) (auto simp: transitionCount_def loggedSessions_snoc sessionPages_snoc intro!: sum.cong)

lemma transitionCount_snoc:
  assumes "validSession (re_Session r)"
  shows "transitionCount (recs @ [r]) k = transitionCount recs k +
    (if sessionPages (re_Session r) recs \<noteq> [] \<and> flowKey (last (sessionPages (re_Session r) recs)) (pageOf r) = k then 1 else 0)"
proof -
  let ?s = "re_Session r" and ?S = "loggedSessions recs"
  let ?n = "\<lambda>s. count_list (stepKeys (sessionPages s recs)) k"
  let ?d = "if sessionPages ?s recs \<noteq> [] \<and> flowKey (last (sessionPages ?s recs)) (pageOf r) = k then 1 else 0 :: nat"
  have "count_list (stepKeys (sessionPages s (recs @ [r]))) k = ?n s + (if s = ?s then ?d else 0)" for s
    using assms by (auto simp: sessionPages_snoc stepKeys_snoc)
  then have "transitionCount (recs @ [r]) k = (\<Sum>s \<in> insert ?s ?S. ?n s + (if s = ?s then ?d else 0))"
    using assms by (simp add: transitionCount_def loggedSessions_snoc)
  also have "\<dots> = (\<Sum>s \<in> insert ?s ?S. ?n s) + ?d" by (simp add: sum.distrib)
  also have "(\<Sum>s \<in> insert ?s ?S. ?n s) = (\<Sum>s \<in> ?S. ?n s)"
    by (rule sum.mono_neutral_right) (auto simp: sessionPages_Nil [symmetric] stepKeys_def)
  finally show ?thesis by (simp add: transitionCount_def)
qed

definition countedTransitions :: "Access_Record list \<Rightarrow> Log_Aggregator \<Rightarrow> bool" where
  "countedTransitions recs a \<longleftrightarrow>
     distinct (map fst (la_lastBySess a)) \<and> distinct (map fst (la_flows a)) \<and>
     (\<forall>s. map_of (la_lastBySess a) s = (if sessionPages s recs = [] then None else Some (last (sessionPages s recs)))) \<and>
     (\<forall>k. map_of (la_flows a) k = (if transitionCount recs k = 0 then None else Some (wrap64 (int (transitionCount recs k)))))"

lemma table_size: "distinct (map fst m) \<Longrightarrow> length m = card (dom (map_of m))"
  by (metis distinct_card dom_map_of_conv_image_fst length_map list.set_map)

lemma observeFlow_valid:
  assumes "validSession (re_Session r)"
    and "length (la_lastBySess a) < maxFlowSessions \<or> map_of (la_lastBySess a) (re_Session r) \<noteq> None"
    and "\<And>prev. map_of (la_lastBySess a) (re_Session r) = Some prev \<Longrightarrow>
      map_of (la_flows a) (flowKey prev (pageOf r)) \<noteq> None \<or> length (la_flows a) < maxFlowTransitions"
  shows "la_lastBySess (observeFlow r a) = assign (re_Session r) (pageOf r) (la_lastBySess a)"
    and "la_flows (observeFlow r a) = (case map_of (la_lastBySess a) (re_Session r) of None \<Rightarrow> la_flows a
      | Some prev \<Rightarrow> alter (flowKey prev (pageOf r)) 0 incr (la_flows a))"
  using assms
  by (auto simp: observeFlow_def rememberPage_def countTransition_def dropFlow_def Let_def split: option.splits)

lemma observeFlow_silent:
  assumes "\<not> validSession (re_Session r)"
  shows "la_lastBySess (observeFlow r a) = la_lastBySess a" "la_flows (observeFlow r a) = la_flows a"
  using assms by (simp_all add: observeFlow_def dropFlow_def)

definition withinFlowLimits :: "Access_Record list \<Rightarrow> bool" where
  "withinFlowLimits recs \<longleftrightarrow>
     card (loggedSessions recs) \<le> maxFlowSessions \<and> card {k. transitionCount recs k \<noteq> 0} \<le> maxFlowTransitions"

lemma finite_transitions: "countedTransitions recs a \<Longrightarrow> {k. transitionCount recs k \<noteq> 0} = dom (map_of (la_flows a))"
  unfolding countedTransitions_def dom_def by (elim conjE) (simp only:, simp)

lemma session_room:
  assumes "countedTransitions recs a" and "card (loggedSessions (recs @ [r])) \<le> maxFlowSessions" and "validSession (re_Session r)"
  shows "length (la_lastBySess a) < maxFlowSessions \<or> map_of (la_lastBySess a) (re_Session r) \<noteq> None"
proof -
  have "dom (map_of (la_lastBySess a)) = loggedSessions recs"
    using assms(1) by (auto simp: countedTransitions_def sessionPages_Nil dom_def split: if_splits)
  then have "length (la_lastBySess a) = card (loggedSessions recs)"
    using assms(1) table_size [of "la_lastBySess a"] by (simp add: countedTransitions_def)
  then show ?thesis
    using assms by (auto simp: countedTransitions_def sessionPages_Nil loggedSessions_snoc)
qed

lemma transition_room:
  assumes "countedTransitions recs a" and "validSession (re_Session r)"
    and "card {k. transitionCount (recs @ [r]) k \<noteq> 0} \<le> maxFlowTransitions"
    and "map_of (la_lastBySess a) (re_Session r) = Some prev"
  shows "map_of (la_flows a) (flowKey prev (pageOf r)) \<noteq> None \<or> length (la_flows a) < maxFlowTransitions"
proof (rule disjCI)
  let ?k = "flowKey prev (pageOf r)" and ?K = "dom (map_of (la_flows a))"
  assume full: "\<not> length (la_flows a) < maxFlowTransitions"
  have "sessionPages (re_Session r) recs \<noteq> []" "prev = last (sessionPages (re_Session r) recs)"
    using assms(1,4) by (auto simp: countedTransitions_def split: if_splits)
  then have all: "{k. transitionCount (recs @ [r]) k \<noteq> 0} = insert ?k ?K"
    unfolding finite_transitions [OF assms(1), symmetric] by (auto simp: transitionCount_snoc [OF assms(2)])
  have "length (la_flows a) = card ?K"
    using assms(1) table_size [of "la_flows a"] by (simp add: countedTransitions_def)
  then have "card (insert ?k ?K) \<le> card ?K" using assms(3) full unfolding all by simp
  then have "?k \<in> ?K" using card_insert_disjoint [of ?K ?k] finite_dom_map_of by fastforce
  then show "map_of (la_flows a) ?k \<noteq> None" by auto
qed

lemma countedTransitions_observe:
  assumes c: "countedTransitions recs a" and "withinFlowLimits (recs @ [r])"
  shows "countedTransitions (recs @ [r]) (observeFlow r a)"
proof (cases "validSession (re_Session r)")
  case False
  then have "sessionPages s (recs @ [r]) = sessionPages s recs" for s by (auto simp: sessionPages_snoc)
  then show ?thesis using c transitionCount_silent [OF False] observeFlow_silent [OF False] by (simp add: countedTransitions_def)
next
  case valid: True
  let ?s = "re_Session r"
  have room: "card (loggedSessions (recs @ [r])) \<le> maxFlowSessions" "card {k. transitionCount (recs @ [r]) k \<noteq> 0} \<le> maxFlowTransitions"
    using assms(2) by (simp_all add: withinFlowLimits_def)
  have after: "la_lastBySess (observeFlow r a) = assign ?s (pageOf r) (la_lastBySess a)"
    "la_flows (observeFlow r a) = (case map_of (la_lastBySess a) ?s of None \<Rightarrow> la_flows a
      | Some prev \<Rightarrow> alter (flowKey prev (pageOf r)) 0 incr (la_flows a))"
    using observeFlow_valid [OF valid session_room [OF c room(1) valid]] transition_room [OF c valid room(2)] by blast+
  have prev: "map_of (la_lastBySess a) ?s = (if sessionPages ?s recs = [] then None else Some (last (sessionPages ?s recs)))"
    using c by (simp add: countedTransitions_def)
  have "map_of (la_flows (observeFlow r a)) k =
      (if transitionCount (recs @ [r]) k = 0 then None else Some (wrap64 (int (transitionCount (recs @ [r]) k))))" for k
  proof -
    have "incr 0 = wrap64 1" "incr (wrap64 n) = wrap64 (n + 1)" for n by (simp_all add: incr_def wrap64_add)
    moreover have "map_of (la_flows a) k = (if transitionCount recs k = 0 then None else Some (wrap64 (int (transitionCount recs k))))"
      using c by (simp only: countedTransitions_def)
    ultimately show ?thesis unfolding after(2) prev by (auto simp: transitionCount_snoc [OF valid] map_of_alter)
  qed
  moreover have "map_of (la_lastBySess (observeFlow r a)) s =
      (if sessionPages s (recs @ [r]) = [] then None else Some (last (sessionPages s (recs @ [r]))))" for s
    using c valid by (auto simp: after(1) map_of_assign sessionPages_snoc countedTransitions_def)
  moreover have "distinct (map fst (la_lastBySess (observeFlow r a)))" "distinct (map fst (la_flows (observeFlow r a)))"
    using c by (auto simp: after countedTransitions_def distinct_assign distinct_alter split: option.split)
  ultimately show ?thesis by (simp add: countedTransitions_def)
qed

lemma transitionCount_finite: "finite {k. transitionCount recs k \<noteq> 0}"
proof -
  have "{k. transitionCount recs k \<noteq> 0} \<subseteq> (\<Union>s \<in> loggedSessions recs. set (stepKeys (sessionPages s recs)))"
    by (auto simp: transitionCount_def count_list_0_iff)
  then show ?thesis by (rule finite_subset) simp
qed

lemma transitionCount_grows: "transitionCount (recs @ [r]) k = 0 \<Longrightarrow> transitionCount recs k = 0"
  using transitionCount_snoc [of r recs k] transitionCount_silent [of r recs] by (cases "validSession (re_Session r)") auto

lemma withinFlowLimits_prefix:
  assumes "withinFlowLimits (recs @ [r])"
  shows "withinFlowLimits recs"
proof -
  have "{k. transitionCount recs k \<noteq> 0} \<subseteq> {k. transitionCount (recs @ [r]) k \<noteq> 0}" by (intro Collect_mono impI notI) (simp only: transitionCount_grows not_True_eq_False)
  then have "card {k. transitionCount recs k \<noteq> 0} \<le> card {k. transitionCount (recs @ [r]) k \<noteq> 0}"
    using transitionCount_finite by (intro card_mono)
  moreover have "card (loggedSessions recs) \<le> card (loggedSessions (recs @ [r]))"
    by (intro card_mono) (auto simp: loggedSessions_snoc)
  ultimately show ?thesis using assms unfolding withinFlowLimits_def by linarith
qed

lemma ObserveLog_flows:
  "\<exists>b. la_lastBySess b = la_lastBySess a \<and> la_flows b = la_flows a \<and>
     la_lastBySess (ObserveLog r a) = la_lastBySess (observeFlow r b) \<and> la_flows (ObserveLog r a) = la_flows (observeFlow r b)"
  unfolding ObserveLog_def
  by (rule exI [of _ "countPartial r (observeVisualization r (observeStory r (observeProtocol r (countLine a))))"]) simp

lemma run_transitions:
  assumes "la_lastBySess a0 = []" and "la_flows a0 = []" and "withinFlowLimits recs"
  shows "countedTransitions recs (fold ObserveLog recs a0)"
  using assms(3)
proof (induction recs rule: rev_induct)
  case Nil
  then show ?case using assms by (simp add: countedTransitions_def sessionPages_def transitionCount_def loggedSessions_def)
next
  case (snoc r recs)
  let ?a = "fold ObserveLog recs a0"
  obtain b where b: "la_lastBySess b = la_lastBySess ?a" "la_flows b = la_flows ?a"
    "la_lastBySess (ObserveLog r ?a) = la_lastBySess (observeFlow r b)" "la_flows (ObserveLog r ?a) = la_flows (observeFlow r b)"
    using ObserveLog_flows by blast
  have "countedTransitions recs ?a" using snoc withinFlowLimits_prefix by blast
  then have "countedTransitions recs b" by (simp add: countedTransitions_def b)
  then have "countedTransitions (recs @ [r]) (observeFlow r b)" using snoc.prems by (rule countedTransitions_observe)
  then show ?case by (simp add: countedTransitions_def b)
qed

text \<open>Pages without a NUL byte can be read back from a transition's key.\<close>

lemma split_flowKey: "NUL \<notin> set p \<Longrightarrow> splitTransitionKey (flowKey p q) = (p, q)"
  using split_edgeKey [of p q] by (simp add: flowKey_def edgeKey_def)

definition stepsBetween :: "string \<Rightarrow> string \<Rightarrow> Access_Record list \<Rightarrow> nat" where
  "stepsBetween p q recs =
     (\<Sum>s \<in> loggedSessions recs. count_list (zip (sessionPages s recs) (tl (sessionPages s recs))) (p, q))"

lemma count_keys:
  assumes "\<forall>p \<in> set ps. NUL \<notin> set p" and "NUL \<notin> set p"
  shows "count_list (stepKeys ps) (flowKey p q) = count_list (zip ps (tl ps)) (p, q)"
proof -
  have "count_list (map (\<lambda>(p, q). flowKey p q) xs) (flowKey p q) = count_list xs (p, q)"
    if "\<forall>(p, q) \<in> set xs. NUL \<notin> set p" for xs
    using that
  proof (induction xs)
    case (Cons x xs)
    obtain p' q' where x: "x = (p', q')" by fastforce
    with Cons.prems have "NUL \<notin> set p'" by simp
    then have "(p', q') = (p, q)" if "flowKey p' q' = flowKey p q"
      using arg_cong [OF that, of splitTransitionKey] split_flowKey [of p' q'] split_flowKey [OF assms(2), of q] by argo
    then have "flowKey p' q' = flowKey p q \<longleftrightarrow> x = (p, q)" unfolding x by blast
    moreover have "count_list (map (\<lambda>(p, q). flowKey p q) xs) (flowKey p q) = count_list xs (p, q)" using Cons by simp
    ultimately show ?case by (simp add: x)
  qed simp
  moreover have "\<forall>(p, q) \<in> set (zip ps (tl ps)). NUL \<notin> set p" using assms(1) by (auto dest: set_zip_leftD)
  ultimately show ?thesis by (simp add: stepKeys_def)
qed

lemma pages_no_NUL:
  assumes "\<forall>r \<in> set recs. NUL \<notin> set (pageOf r)"
  shows "\<forall>p \<in> set (sessionPages s recs). NUL \<notin> set p"
  using assms by (auto simp: sessionPages_def)

lemma transitionCount_key:
  assumes "\<forall>r \<in> set recs. NUL \<notin> set (pageOf r)" and "NUL \<notin> set p"
  shows "transitionCount recs (flowKey p q) = stepsBetween p q recs"
  unfolding transitionCount_def stepsBetween_def by (simp only: count_keys [OF pages_no_NUL [OF assms(1)] assms(2)])

lemma count_list_pos: "0 < count_list xs x \<longleftrightarrow> x \<in> set xs"
  using count_list_0_iff [of xs x] by auto

lemma transitionCount_pages:
  assumes "\<forall>r \<in> set recs. NUL \<notin> set (pageOf r)" and "transitionCount recs k \<noteq> 0"
  obtains p q where "k = flowKey p q" and "NUL \<notin> set p"
proof -
  obtain s where "count_list (stepKeys (sessionPages s recs)) k \<noteq> 0" using assms(2) by (auto simp: transitionCount_def)
  then have "k \<in> set (stepKeys (sessionPages s recs))" by (simp add: count_list_pos)
  then obtain p q where "k = flowKey p q" "p \<in> set (sessionPages s recs)" by (auto simp: stepKeys_def dest: set_zip_leftD)
  then show thesis using that pages_no_NUL [OF assms(1)] by blast
qed

lemma stepsBetween_no_NUL:
  assumes "\<forall>r \<in> set recs. NUL \<notin> set (pageOf r)" and "stepsBetween p q recs \<noteq> 0"
  shows "NUL \<notin> set p"
proof -
  obtain s where "count_list (zip (sessionPages s recs) (tl (sessionPages s recs))) (p, q) \<noteq> 0"
    using assms(2) by (auto simp: stepsBetween_def)
  then have "p \<in> set (sessionPages s recs)" by (auto simp: count_list_pos dest: set_zip_leftD)
  then show ?thesis using pages_no_NUL [OF assms(1)] by blast
qed


lemma example_sessions: "loggedSessions threeVisits = {''u1''}" "sessionPages ''u1'' threeVisits = [''GET /a'', ''GET /a'', ''GET /b'']"
  using example_identifiers example_pages by (simp_all add: loggedSessions_def sessionPages_def threeVisits_def) (simp_all add: visitAt_def)


end
