(* ===== verification/Access_Bounds.thy ===== *)
theory Access_Bounds
  imports Access_Journeys
begin

text \<open>
  The memory an access-log aggregator can take, whatever it is fed: every table has a bound, and every
  journey and every dimension of a row has one. The states are those reachable through its operations.
\<close>

inductive log_reachable :: "(string \<Rightarrow> duration option) \<Rightarrow> int \<Rightarrow> Options \<Rightarrow> Log_Aggregator \<Rightarrow> bool" for dur m options where
  log_created: "newAggregator dur m options = Inr a \<Longrightarrow> log_reachable dur m options a"
| log_observed: "log_reachable dur m options a \<Longrightarrow> log_reachable dur m options (ObserveLog r a)"
| log_snapped: "log_reachable dur m options a \<Longrightarrow> log_reachable dur m options (snd (SnapshotLog a))"
| log_reset: "log_reachable dur m options a \<Longrightarrow> log_reachable dur m options (ResetLog a)"

text \<open>A table with \<open>n\<close> rows and one more for what no longer fits.\<close>

definition capped :: "nat \<Rightarrow> string \<Rightarrow> (string \<times> 'v) list \<Rightarrow> bool" where
  "capped n other m \<longleftrightarrow> distinct (map fst m) \<and> length m \<le> n + (if map_of m other = None then 0 else 1)"

lemma capped_length: "capped n other m \<Longrightarrow> length m \<le> n + 1"
  by (simp add: capped_def split: if_splits)

lemma capped_alter:
  assumes "capped n other m"
  shows "capped n other (alter (if map_of m k = None \<and> length m \<ge> n then other else k) z f m)"
proof (cases "map_of m k = None \<and> length m \<ge> n")
  case True
  then show ?thesis
    using assms by (auto simp: capped_def distinct_alter length_alter map_of_alter map_of_eq_None_iff split: if_splits)
next
  case False
  then show ?thesis
    using assms by (auto simp: capped_def distinct_alter length_alter map_of_alter map_of_eq_None_iff split: if_splits)
qed

definition protocolNames :: "string list" where
  "protocolNames = [''HTTP/1.0'', ''HTTP/1.1'', ''HTTP/2.0'', ''HTTP/3.0'', [], OverflowURI]"

lemma canonicalProtocol_names: "canonicalProtocol s \<in> set protocolNames"
  by (simp add: canonicalProtocol_def protocolNames_def Let_def)

definition rowBounded :: "aggregateStat \<Rightarrow> bool" where
  "rowBounded st \<longleftrightarrow> capped maxDimensions OverflowURI (as_cache st) \<and> capped maxDimensions OverflowURI (as_ctype st)"

definition journeyBounded :: "storySession \<Rightarrow> bool" where
  "journeyBounded st \<longleftrightarrow> length (st_journey st) \<le> maxStorySteps"

definition logBounded :: "Log_Aggregator \<Rightarrow> bool" where
  "logBounded a \<longleftrightarrow>
     rows_inv a \<and> (\<forall>(k, st) \<in> set (la_stats a). rowBounded st) \<and>
     distinct (map fst (la_protocols a)) \<and> fst ` set (la_protocols a) \<subseteq> set protocolNames \<and>
     capped maxFlowTransitions flowOverflowKey (la_flows a) \<and> length (la_lastBySess a) \<le> maxFlowSessions \<and>
     length (la_storySessions a) \<le> maxStorySessions \<and> length (la_storyPages a) \<le> maxStoryPages \<and>
     (\<forall>(k, st) \<in> set (la_storySessions a). journeyBounded st)"

subsection \<open>Rows and protocols\<close>

lemma rowBounded_new: "rowBounded (newStat m u)"
  by (simp add: rowBounded_def newStat_def capped_def)

lemma rowBounded_add: "rowBounded st \<Longrightarrow> rowBounded (addRecord r st)"
  by (simp add: rowBounded_def addRecord_def addTraffic_def addLatency_def addDimension_def capped_alter Let_def del: if_split)

lemma rows_observe:
  assumes "\<forall>(k, st) \<in> set (la_stats a). rowBounded st"
  shows "\<forall>(k, st) \<in> set (la_stats (observeRow key r a)). rowBounded st"
  using assms by (auto simp: observeRow_eq Let_def rowBounded_new intro!: rowBounded_add dest!: set_alter split: if_splits)

lemma protocols_observe:
  assumes "distinct (map fst (la_protocols a))" and "fst ` set (la_protocols a) \<subseteq> set protocolNames"
  shows "distinct (map fst (la_protocols (observeProtocol r a))) \<and> fst ` set (la_protocols (observeProtocol r a)) \<subseteq> set protocolNames"
proof -
  have "OverflowURI \<in> set protocolNames" by (simp add: protocolNames_def)
  then show ?thesis
    using assms canonicalProtocol_names [of "re_Protocol r"] by (simp add: observeProtocol_def Let_def keys_alter distinct_alter)
qed

lemma protocols_small:
  assumes "distinct (map fst m)" and "fst ` set m \<subseteq> set protocolNames"
  shows "length m \<le> 6"
proof -
  have "length m = card (fst ` set m)" using distinct_card [OF assms(1)] by simp
  also have "\<dots> \<le> card (set protocolNames)" using assms(2) by (intro card_mono) simp_all
  also have "\<dots> \<le> 6" using card_length [of protocolNames] by (simp add: protocolNames_def)
  finally show ?thesis .
qed

subsection \<open>Transitions and journeys\<close>

lemma flows_observe:
  assumes "capped maxFlowTransitions flowOverflowKey (la_flows a)" and "length (la_lastBySess a) \<le> maxFlowSessions"
  shows "capped maxFlowTransitions flowOverflowKey (la_flows (observeFlow r a)) \<and> length (la_lastBySess (observeFlow r a)) \<le> maxFlowSessions"
proof -
  have "capped maxFlowTransitions flowOverflowKey (la_flows (countTransition p q b)) \<and> la_lastBySess (countTransition p q b) = la_lastBySess b"
    if "capped maxFlowTransitions flowOverflowKey (la_flows b)" for p q b
    using capped_alter [OF that, of "flowKey p q" 0 incr] by (auto simp: countTransition_def dropFlow_def Let_def split: if_splits)
  moreover have "la_flows (rememberPage s q b) = la_flows b \<and> length (la_lastBySess (rememberPage s q b)) \<le> maxFlowSessions"
    if "length (la_lastBySess b) \<le> maxFlowSessions" for s q b
    using that by (auto simp: rememberPage_def dropFlow_def length_assign)
  moreover have "la_flows (dropFlow b) = la_flows b \<and> la_lastBySess (dropFlow b) = la_lastBySess b" for b by (simp add: dropFlow_def)
  ultimately show ?thesis using assms by (simp add: observeFlow_def Let_def split: option.split)
qed

lemma extend_bounded:
  assumes "\<forall>(k, st) \<in> set (la_storySessions a). journeyBounded st" and "journeyBounded state"
  shows "\<forall>(k, st) \<in> set (la_storySessions (extendJourney key page state a)). journeyBounded st"
proof -
  obtain p b where i: "internStoryPage page a = (p, b)" and b: "la_storySessions b = la_storySessions a"
    using intern_sessions [of page a] by (cases "internStoryPage page a") simp
  show ?thesis
    using assms unfolding extendJourney_def i
    by (auto simp: b setStory_def dropStory_def journeyBounded_def dest!: set_assign split: if_splits)
qed

lemma openStory_bounded:
  assumes "\<forall>(k, st) \<in> set (la_storySessions a). journeyBounded st"
  shows "\<forall>(k, st) \<in> set (la_storySessions (openStory r a)). journeyBounded st"
proof -
  have "journeyBounded st" if "map_of (la_storySessions a) (storyOf r) = Some st" for st
    using map_of_SomeD [OF that] assms by blast
  then show ?thesis
    using assms by (auto simp: openStory_def setStory_def dropStory_def freshStory_def journeyBounded_def Let_def
        dest!: set_assign split: option.splits if_splits)
qed

lemma stories_observe:
  assumes "\<forall>(k, st) \<in> set (la_storySessions a). journeyBounded st" and "length (la_storySessions a) \<le> maxStorySessions"
  shows "\<forall>(k, st) \<in> set (la_storySessions (observeStory r a)). journeyBounded st"
    "length (la_storySessions (observeStory r a)) \<le> maxStorySessions"
proof -
  consider "\<not> tellsStory r" | "tellsStory r" "refusesStory a (storyOf r)" | "tellsStory r" "\<not> refusesStory a (storyOf r)" by blast
  then have "(\<forall>(k, st) \<in> set (la_storySessions (observeStory r a)). journeyBounded st) \<and>
    length (la_storySessions (observeStory r a)) \<le> maxStorySessions"
  proof cases
    case 3
    let ?b = "openStory r a"
    obtain st where st: "map_of (la_storySessions ?b) (storyOf r) = Some st" using openStory_parts(1) by blast
    note b = openStory_bounded [OF assms(1), of r]
    have "journeyBounded st" using b map_of_SomeD [OF st] by blast
    moreover have "length (la_storySessions ?b) \<le> maxStorySessions"
      using 3(2) assms(2) by (auto simp: openStory_parts refusesStory_def)
    ultimately show ?thesis
      using extend_bounded [OF b, of st "storyOf r" "pageOf r"] st by (simp add: observeStory_eq [OF 3] extend_length)
  qed (use assms in \<open>simp_all add: observeStory_silent observeStory_refused dropStory_def\<close>)
  then show "\<forall>(k, st) \<in> set (la_storySessions (observeStory r a)). journeyBounded st"
    "length (la_storySessions (observeStory r a)) \<le> maxStorySessions" by blast+
qed

lemma storyPages_observe: "length (la_storyPages a) \<le> maxStoryPages \<Longrightarrow> length (la_storyPages (observeStory r a)) \<le> maxStoryPages"
  using observeStory_pages [of r a] by (auto simp: intern_pages length_assign split: if_splits)

subsection \<open>The invariant\<close>

lemma rows_inv_cong: "la_stats a = la_stats b \<Longrightarrow> la_maxKeys a = la_maxKeys b \<Longrightarrow> rows_inv a = rows_inv b"
  by (simp add: rows_inv_def)

lemma logBounded_observe:
  assumes "logBounded a"
  shows "logBounded (ObserveLog r a)"
proof -
  let ?p = "observeProtocol r (countLine a)"
  let ?s = "observeStory r ?p"
  let ?b = "countPartial r (observeVisualization r ?s)"
  have "rows_inv (ObserveLog r a)"
    using rows_inv_cong [of "ObserveLog r a" "observeRow (rowKey r) r a"] rows_inv_observe [of a] assms
    by (simp add: ObserveLog_rows logBounded_def)
  moreover have "\<forall>(k, st) \<in> set (la_stats (ObserveLog r a)). rowBounded st"
    using rows_observe [of a "rowKey r" r] assms by (simp add: ObserveLog_rows logBounded_def)
  moreover have "la_protocols (ObserveLog r a) = la_protocols ?p" by (simp add: ObserveLog_def)
  moreover have "la_flows (ObserveLog r a) = la_flows (observeFlow r ?b)" "la_lastBySess (ObserveLog r a) = la_lastBySess (observeFlow r ?b)"
    by (simp_all add: ObserveLog_def)
  ultimately show ?thesis
    using assms protocols_observe [of "countLine a" r] flows_observe [of ?b r] stories_observe [of ?p r] storyPages_observe [of ?p r]
    by (simp add: logBounded_def ObserveLog_stories)
qed

lemma logBounded_reachable:
  assumes "log_reachable dur m options a"
  shows "logBounded a \<and> la_maxKeys a = (if m \<le> 0 then DefaultMaxKeys else m)"
  using assms
proof induction
  case (log_created a)
  then show ?case using newAggregator_empty [OF log_created] by (simp add: logBounded_def rows_inv_def capped_def)
next
  case (log_observed a r)
  then show ?case using logBounded_observe by (simp add: ObserveLog_rows)
next
  case (log_snapped a)
  obtain v where "snd (SnapshotLog a) = a\<lparr>la_visualization := v\<rparr>" unfolding SnapshotLog_def Let_def case_prod_unfold by simp
  moreover have "logBounded (a\<lparr>la_visualization := v\<rparr>) = logBounded a" by (simp add: logBounded_def rows_inv_def)
  ultimately show ?case using log_snapped.IH by simp
next
  case (log_reset a)
  then show ?case by (simp add: ResetLog_def logBounded_def rows_inv_def capped_def)
qed

text \<open>
  C24: Whatever an aggregator is fed, and however often it is read and reset, its tables stay bounded:
  \<open>maxKeys\<close> rows and an overflow row, each with at most 65 cache statuses and 65 content types, six protocols,
  10001 transitions, 10000 sessions, 10000 scenario sessions with journeys of at most 32 steps, and
  10000 page names; a snapshot lists at most 20 flows and 20 stories.
\<close>

theorem access_memory_bounded:
  assumes "log_reachable dur m options a"
  shows "int (length (la_stats a)) \<le> (if m \<le> 0 then DefaultMaxKeys else m) + 1 \<and>
    (\<forall>(k, st) \<in> set (la_stats a). length (as_cache st) \<le> 65 \<and> length (as_ctype st) \<le> 65) \<and>
    length (la_protocols a) \<le> 6 \<and> length (la_flows a) \<le> 10001 \<and> length (la_lastBySess a) \<le> 10000 \<and>
    length (la_storySessions a) \<le> 10000 \<and> length (la_storyPages a) \<le> 10000 \<and>
    (\<forall>(k, st) \<in> set (la_storySessions a). length (st_journey st) \<le> 32) \<and>
    length (ls_Flows (fst (SnapshotLog a))) \<le> 20 \<and> length (ls_Stories (fst (SnapshotLog a))) \<le> 20"
proof -
  have b: "logBounded a" and k: "la_maxKeys a = (if m \<le> 0 then DefaultMaxKeys else m)"
    using logBounded_reachable [OF assms] by simp_all
  have "0 < la_maxKeys a" by (simp add: k DefaultMaxKeys_def)
  then have "int (length (la_stats a)) \<le> la_maxKeys a + 1"
    using b by (auto simp: logBounded_def rows_inv_def split: if_splits)
  moreover have "length (la_flows a) \<le> 10001" using capped_length [of 10000 flowOverflowKey "la_flows a"] b by (simp add: logBounded_def)
  moreover have "length (as_cache st) \<le> 65 \<and> length (as_ctype st) \<le> 65" if "(r, st) \<in> set (la_stats a)" for r st
  proof -
    have "rowBounded st" using b that by (auto simp: logBounded_def)
    then show ?thesis using capped_length [of 64 OverflowURI "as_cache st"] capped_length [of 64 OverflowURI "as_ctype st"] by (simp add: rowBounded_def)
  qed
  moreover have "length (ls_Flows (fst (SnapshotLog a))) \<le> 20" "length (ls_Stories (fst (SnapshotLog a))) \<le> 20"
    by (simp_all add: SnapshotLog_def topFlows_def stories_def case_prod_unfold Let_def)
  ultimately show ?thesis
    using b protocols_small [of "la_protocols a"] unfolding k by (auto simp: logBounded_def journeyBounded_def)
qed

theorem access_memory_bounded_witness:
  "log_reachable (\<lambda>_. None) 1 zeroOptions (fold ObserveLog threeVisits plainLog) \<and>
   int (length (la_stats (fold ObserveLog threeVisits plainLog))) \<le> 2"
proof -
  have "log_reachable (\<lambda>_. None) 1 zeroOptions (fold ObserveLog threeVisits plainLog)"
    by (simp add: threeVisits_def log_observed log_created [OF plain_new])
  then show ?thesis using access_memory_bounded [of "\<lambda>_. None" 1 zeroOptions "fold ObserveLog threeVisits plainLog"] by simp
qed

end
