(* ===== verification/Flow_Stats.thy ===== *)
theory Flow_Stats
  imports Access_Bounds Swap_Collector
begin

text \<open>
  \<open>flowstats/flowstats.go\<close> and \<open>flowstats/generation.go\<close>: flows recorded by the application's own
  middleware. The registry is an access-log aggregator with a single method/path row, of which only the
  transitions, the journeys and the visualization are read; the generation collector swaps it at a
  run's boundaries. \<open>time.ParseDuration\<close> is the argument \<open>dur\<close>, the clock and \<open>ctx.Err\<close> are arguments; the nil
  registry, on which every operation returns at once, is left out.
\<close>

subsection \<open>The registry\<close>

record Flow_Section =
  fs_Stories :: "StoryEntry list"
  fs_StoryDropped :: int
  fs_Flows :: "FlowEntry list"
  fs_FlowDropped :: int
  fs_Visualization :: "FlowSnapshot option"

record Flow_Registry =
  fr_agg :: Log_Aggregator
  fr_options :: Options

record Observation =
  ob_Session :: string
  ob_Scenario :: string
  ob_Method :: string
  ob_Route :: string
  ob_Status :: int
  ob_Duration :: duration
  ob_At :: gotime

definition NewRegistryWithOptions :: "(string \<Rightarrow> duration option) \<Rightarrow> Options \<Rightarrow> gerr + Flow_Registry" where
  "NewRegistryWithOptions dur options =
     (case newAggregator dur 1 options of Inl e \<Rightarrow> Inl e | Inr agg \<Rightarrow> Inr \<lparr>fr_agg = agg, fr_options = options\<rparr>)"

definition Configure :: "(string \<Rightarrow> duration option) \<Rightarrow> Options \<Rightarrow> Flow_Registry \<Rightarrow> gerr option \<times> Flow_Registry" where
  "Configure dur options r =
     (case newAggregator dur 1 options of
        Inl e \<Rightarrow> (Some e, r)
      | Inr agg \<Rightarrow> (None, r\<lparr>fr_agg := agg, fr_options := options\<rparr>))"

definition flowRecord :: "Observation \<Rightarrow> Access_Record" where
  "flowRecord v =
     \<lparr>re_Method = ob_Method v, re_URI = ob_Route v, re_Protocol = [], re_Status = ob_Status v, re_RequestTime = ob_Duration v, re_Bytes = 0,
      re_CacheStatus = [], re_ContentType = [], re_UpstreamRaw = [], re_UpstreamTotal = 0, re_UpstreamAttempts = 0, re_UpstreamValid = True,
      re_UpstreamComplete = False, re_NoUpstreamTiming = True, re_Session = ob_Session v, re_Scenario = ob_Scenario v,
      re_ObservedAt = ob_At v, re_QueryStripped = False, re_Partial = False, re_Issue = []\<rparr>"

definition ObserveFlow :: "string \<Rightarrow> string \<Rightarrow> string \<Rightarrow> string \<Rightarrow> Flow_Registry \<Rightarrow> Flow_Registry" where
  "ObserveFlow session scenario method route r =
     (if session = [] \<or> method = [] \<or> route = [] then r
      else r\<lparr>fr_agg := ObserveLog (flowRecord \<lparr>ob_Session = session, ob_Scenario = scenario, ob_Method = method, ob_Route = route,
               ob_Status = 200, ob_Duration = 0, ob_At = 0\<rparr>) (fr_agg r)\<rparr>)"

definition ObserveRequest :: "Observation \<Rightarrow> Flow_Registry \<Rightarrow> Flow_Registry" where
  "ObserveRequest v r = r\<lparr>fr_agg := ObserveLog (flowRecord v) (fr_agg r)\<rparr>"

definition snapshotFromAccessLog :: "Log_Snapshot \<Rightarrow> Flow_Section" where
  "snapshotFromAccessLog v =
     \<lparr>fs_Stories = ls_Stories v, fs_StoryDropped = ls_StoryDropped v, fs_Flows = ls_Flows v, fs_FlowDropped = ls_FlowDropped v,
      fs_Visualization = ls_Visualization v\<rparr>"

definition SnapshotFlows :: "Flow_Registry \<Rightarrow> Flow_Section \<times> Flow_Registry" where
  "SnapshotFlows r = (case SnapshotLog (fr_agg r) of (v, agg) \<Rightarrow> (snapshotFromAccessLog v, r\<lparr>fr_agg := agg\<rparr>))"

definition rotateFlows :: "(string \<Rightarrow> duration option) \<Rightarrow> Flow_Registry \<Rightarrow> Log_Aggregator \<times> Flow_Registry" where
  "rotateFlows dur r =
     (let configured = (case newAggregator dur 1 (fr_options r) of
            Inr agg \<Rightarrow> agg
          | Inl _ \<Rightarrow> (case newAggregator dur 1 zeroOptions of Inr agg \<Rightarrow> agg | Inl _ \<Rightarrow> fr_agg r))
      in (fr_agg r, r\<lparr>fr_agg := configured\<rparr>))"

definition ResetFlows :: "(string \<Rightarrow> duration option) \<Rightarrow> Flow_Registry \<Rightarrow> Flow_Registry" where
  "ResetFlows dur r = snd (rotateFlows dur r)"

text \<open>The zero options always give an aggregator, so the last branch of \<open>rotateFlows\<close> is never taken.\<close>

lemma zeroOptions_accepted: "\<exists>agg. newAggregator dur 1 zeroOptions = Inr agg"
  by (simp add: newAggregator_def New_flow_def normalized_def zeroOptions_def)

subsection \<open>The generation collector\<close>

definition FlowSection :: string where "FlowSection = ''flow''"
definition FlowForeignHandle :: gerr where
  "FlowForeignHandle = PlainErr ''flowstats: foreign generation handle''"
definition FlowNotDrained :: gerr where
  "FlowNotDrained = PlainErr ''flowstats: generation was not drained''"
definition FlowHandleReleased :: gerr where
  "FlowHandleReleased = PlainErr ''flowstats: generation handle was released''"

definition zeroSection :: Flow_Section where
  "zeroSection = \<lparr>fs_Stories = [], fs_StoryDropped = 0, fs_Flows = [], fs_FlowDropped = 0, fs_Visualization = None\<rparr>"

record flowGeneration =
  fg_agg :: "Log_Aggregator option"
  fg_frozen :: Flow_Section
  fg_settled :: bool
  fg_released :: bool

record flowBoundaryKey =
  fk_runID :: string
  fk_epoch :: epoch
  fk_phase :: Phase

record flowCollector =
  fc_self :: string
  fc_registry :: Flow_Registry
  fc_epoch :: epoch
  fc_gen :: nat
  fc_results :: "(flowBoundaryKey \<times> (BoundaryResult \<times> gerr option)) list"
  fc_gens :: "flowGeneration list"

definition NewFlowCollector :: "string \<Rightarrow> Flow_Registry \<Rightarrow> flowCollector" where
  "NewFlowCollector self registry =
     \<lparr>fc_self = self, fc_registry = registry, fc_epoch = 0, fc_gen = 0, fc_results = [], fc_gens = []\<rparr>"

definition flowBoundaryFresh ::
  "(string \<Rightarrow> duration option) \<Rightarrow> gotime \<Rightarrow> string \<Rightarrow> epoch \<Rightarrow> Phase \<Rightarrow> flowCollector \<Rightarrow> BoundaryResult \<times> flowCollector" where
  "flowBoundaryFresh dur now runID ep phase c =
     (let c1 = (if ep > fc_epoch c then c\<lparr>fc_epoch := ep, fc_results := []\<rparr> else c);
          (agg, registry) = rotateFlows dur (fc_registry c1);
          g = \<lparr>fg_agg = Some agg, fg_frozen = zeroSection, fg_settled = False, fg_released = False\<rparr>;
          res = \<lparr>br_Handle = NewGenerationHandle runID ep FlowSection (fc_gen c1) (Token (fc_self c) (length (fc_gens c))),
                 br_At = now, br_Committed = True\<rparr>
      in (res, c1\<lparr>fc_registry := registry, fc_gen := (fc_gen c1 + 1) mod 2 ^ 64, fc_gens := fc_gens c1 @ [g],
                  fc_results := (\<lparr>fk_runID = runID, fk_epoch = ep, fk_phase = phase\<rparr>, (res, None)) # fc_results c1\<rparr>))"

definition flowBoundary ::
  "(string \<Rightarrow> duration option) \<Rightarrow> gotime \<Rightarrow> string \<Rightarrow> epoch \<Rightarrow> Phase \<Rightarrow> flowCollector \<Rightarrow> (BoundaryResult \<times> gerr option) \<times> flowCollector" where
  "flowBoundary dur now runID ep phase c =
     (if ep < fc_epoch c then ((zeroBoundaryResult\<lparr>br_At := now\<rparr>, Some ErrStaleEpoch), c)
      else (case map_of (fc_results c) \<lparr>fk_runID = runID, fk_epoch = ep, fk_phase = phase\<rparr> of
              Some prior \<Rightarrow> (prior, c)
            | None \<Rightarrow> (case flowBoundaryFresh dur now runID ep phase c of (res, c') \<Rightarrow> ((res, None), c'))))"

definition BeginFlowBoundary where
  "BeginFlowBoundary dur now runID ep = flowBoundary dur now runID ep PhaseStartBoundary"

definition FreezeFlows where
  "FreezeFlows dur now runID ep = flowBoundary dur now runID ep PhaseFinishFreeze"

definition flowResolve :: "flowCollector \<Rightarrow> GenerationHandle \<Rightarrow> gerr + nat" where
  "flowResolve c h =
     (case resolveToken (fc_self c) (fc_gens c) h of
        Some a \<Rightarrow> Inr a
      | None \<Rightarrow> Inl (WrapErr [] FlowForeignHandle ('': '' @ gh_Collector h)))"

definition flowFreeze :: "flowGeneration \<Rightarrow> flowGeneration" where
  "flowFreeze g = g\<lparr>fg_frozen := snapshotFromAccessLog (fst (SnapshotLog (the (fg_agg g)))), fg_agg := None, fg_settled := True\<rparr>"

definition flowDrain :: "gerr option \<Rightarrow> GenerationHandle \<Rightarrow> flowCollector \<Rightarrow> gerr option \<times> flowCollector" where
  "flowDrain ctxErr h c =
     (case flowResolve c h of
        Inl e \<Rightarrow> (Some e, c)
      | Inr a \<Rightarrow>
          (let g = fc_gens c ! a
           in if fg_settled g \<or> fg_released g then (None, c)
              else (case ctxErr of
                      Some e \<Rightarrow> (Some e, c)
                    | None \<Rightarrow> (None, c\<lparr>fc_gens := (fc_gens c)[a := flowFreeze g]\<rparr>))))"

definition flowCollect :: "GenerationHandle \<Rightarrow> flowCollector \<Rightarrow> gerr + Flow_Section" where
  "flowCollect h c =
     (case flowResolve c h of
        Inl e \<Rightarrow> Inl e
      | Inr a \<Rightarrow>
          (let g = fc_gens c ! a
           in if fg_released g then Inl FlowHandleReleased
              else if \<not> fg_settled g then Inl FlowNotDrained else Inr (fg_frozen g)))"

definition flowReleaseGen :: "flowGeneration \<Rightarrow> flowGeneration" where
  "flowReleaseGen g = g\<lparr>fg_agg := None, fg_frozen := zeroSection, fg_released := True\<rparr>"

definition flowRelease :: "GenerationHandle \<Rightarrow> flowCollector \<Rightarrow> flowCollector" where
  "flowRelease h c =
     (case flowResolve c h of
        Inl e \<Rightarrow> c
      | Inr a \<Rightarrow> c\<lparr>fc_gens := (fc_gens c)[a := flowReleaseGen (fc_gens c ! a)]\<rparr>)"

subsection \<open>The collector honours the contract\<close>

text \<open>The two ways the middleware reports a request.\<close>

datatype flowInput = Simple string string string string | Detailed Observation

fun flowAdd :: "flowInput \<Rightarrow> Flow_Registry \<Rightarrow> Flow_Registry" where
  "flowAdd (Simple session scenario method route) r = ObserveFlow session scenario method route r"
| "flowAdd (Detailed v) r = ObserveRequest v r"

definition flowCount :: "flowInput \<Rightarrow> flowCollector \<Rightarrow> flowCollector" where
  "flowCount x c = c\<lparr>fc_registry := flowAdd x (fc_registry c)\<rparr>"

definition flow_inv :: "Options \<Rightarrow> flowCollector \<Rightarrow> bool" where
  "flow_inv options c \<longleftrightarrow> fr_options (fc_registry c) = options \<and> (\<forall>k \<in> fst ` set (fc_results c). fk_epoch k = fc_epoch c)"

definition flowFresh :: "flowCollector \<Rightarrow> string \<Rightarrow> epoch \<Rightarrow> Phase \<Rightarrow> bool" where
  "flowFresh c runID ep phase \<longleftrightarrow> fc_epoch c \<le> ep \<and>
     map_of (fc_results c) \<lparr>fk_runID = runID, fk_epoch = ep, fk_phase = phase\<rparr> = None"

definition renderFlows :: "Flow_Registry \<Rightarrow> Flow_Section" where
  "renderFlows r = fst (SnapshotFlows r)"

definition flowData :: "flowGeneration \<Rightarrow> Flow_Section" where
  "flowData g = (if fg_settled g then fg_frozen g else snapshotFromAccessLog (fst (SnapshotLog (the (fg_agg g)))))"

definition flowDropped :: "flowGeneration \<Rightarrow> bool" where
  "flowDropped g \<longleftrightarrow> fg_released g \<and> fg_agg g = None \<and> fg_frozen g = zeroSection"

definition flowSettle :: "flowGeneration \<Rightarrow> flowGeneration" where
  "flowSettle g = (if fg_settled g \<or> fg_released g then g else flowFreeze g)"

lemma flowAdd_options: "fr_options (flowAdd x r) = fr_options r"
  by (cases x) (simp_all add: ObserveFlow_def ObserveRequest_def)

lemma flowDrain_state:
  "snd (flowDrain ctxErr h c) = c \<or> (\<exists>a. snd (flowDrain ctxErr h c) = c\<lparr>fc_gens := (fc_gens c)[a := flowSettle (fc_gens c ! a)]\<rparr>)"
  by (auto simp: flowDrain_def flowSettle_def Let_def split: sum.split option.split)

lemma flowSettle_facts:
  "fg_released (flowSettle g) = fg_released g" "\<not> fg_released g \<Longrightarrow> flowData (flowSettle g) = flowData g"
  "flowDropped g \<Longrightarrow> flowDropped (flowSettle g)" "flowDropped (flowReleaseGen g)" "flowDropped g \<Longrightarrow> flowReleaseGen g = g"
  by (auto simp: flowSettle_def flowData_def flowFreeze_def flowDropped_def flowReleaseGen_def)

lemma flowDrain_reads:
  assumes "resolveToken (fc_self c) (fc_gens c) h = Some a" and "\<not> fg_released (fc_gens c ! a)"
  shows "fst (flowDrain None h c) = None \<and> flowCollect h (snd (flowDrain None h c)) = Inr (flowData (fc_gens c ! a))"
proof -
  have "a < length (fc_gens c)" using assms(1) by (simp add: resolveToken_Some)
  with assms show ?thesis
    by (cases "fg_settled (fc_gens c ! a)") (auto simp: flowDrain_def flowCollect_def flowResolve_def Let_def flowData_def flowFreeze_def)
qed

lemma flowBoundary_fresh:
  "flowFresh c runID ep phase \<Longrightarrow>
   flowBoundary dur now runID ep phase c = (case flowBoundaryFresh dur now runID ep phase c of (res, c') \<Rightarrow> ((res, None), c'))"
  by (simp add: flowBoundary_def flowFresh_def)

lemma flowBoundary_same: "\<not> flowFresh c runID ep phase \<Longrightarrow> snd (flowBoundary dur now runID ep phase c) = c"
  by (auto simp: flowBoundary_def flowFresh_def split: option.split)

lemma rotateFlows_swaps: "\<exists>r'. rotateFlows dur r = (fr_agg r, r') \<and> fr_options r' = fr_options r"
  by (simp add: rotateFlows_def)

lemma flowBoundaryFresh_facts:
  assumes "flowBoundaryFresh dur now runID ep phase c = (res, c')"
  shows "fc_self c' = fc_self c \<and>
    (\<exists>g. fc_gens c' = fc_gens c @ [g] \<and> \<not> fg_released g \<and> flowData g = renderFlows (fc_registry c)) \<and>
    fc_registry c' = snd (rotateFlows dur (fc_registry c)) \<and>
    gh_token (br_Handle res) = Token (fc_self c) (length (fc_gens c)) \<and> br_Committed res \<and>
    fc_epoch c' = max (fc_epoch c) ep \<and>
    fc_results c' = (\<lparr>fk_runID = runID, fk_epoch = ep, fk_phase = phase\<rparr>, (res, None)) # (if ep > fc_epoch c then [] else fc_results c)"
proof -
  obtain r' where r: "rotateFlows dur (fc_registry c) = (fr_agg (fc_registry c), r')" using rotateFlows_swaps by blast
  have "flowData \<lparr>fg_agg = Some (fr_agg (fc_registry c)), fg_frozen = zeroSection, fg_settled = False, fg_released = False\<rparr> =
      renderFlows (fc_registry c)"
    by (simp add: flowData_def renderFlows_def SnapshotFlows_def case_prod_unfold)
  then show ?thesis
    using assms by (auto simp: flowBoundaryFresh_def Let_def r NewGenerationHandle_def split: if_splits)
qed

lemma flow_inv_boundary: "flow_inv options c \<Longrightarrow> flow_inv options (snd (flowBoundary dur now runID ep phase c))"
proof (cases "flowFresh c runID ep phase")
  case True
  obtain res c' where f: "flowBoundaryFresh dur now runID ep phase c = (res, c')" by force
  obtain r' where r: "rotateFlows dur (fc_registry c) = (fr_agg (fc_registry c), r')" "fr_options r' = fr_options (fc_registry c)"
    using rotateFlows_swaps by blast
  assume "flow_inv options c"
  with flowBoundaryFresh_facts [OF f] True r show ?thesis
    by (auto simp: flowBoundary_fresh [OF True] f flow_inv_def flowFresh_def)
qed (simp add: flowBoundary_same)

definition emptyFlows :: "(string \<Rightarrow> duration option) \<Rightarrow> Options \<Rightarrow> Flow_Registry" where
  "emptyFlows dur options =
     \<lparr>fr_agg = (case newAggregator dur 1 options of Inr agg \<Rightarrow> agg | Inl _ \<Rightarrow> projr (newAggregator dur 1 zeroOptions)), fr_options = options\<rparr>"

lemma rotateFlows_empty: "snd (rotateFlows dur r) = emptyFlows dur (fr_options r)"
  using zeroOptions_accepted [of dur] by (auto simp: rotateFlows_def emptyFlows_def split: sum.split)

interpretation fcol: swap_collector "flow_inv options" flowFresh "flowBoundary dur" flowCount flowDrain flowCollect flowRelease
  fc_registry "emptyFlows dur options" flowAdd renderFlows fc_epoch fc_self fc_gens fg_released flowData flowDropped flowSettle flowReleaseGen
  for dur options
proof unfold_locales
  fix c runID ep phase now res err c'
  assume f: "flowFresh c runID ep phase" and b: "flowBoundary dur now runID ep phase c = ((res, err), c')"
  then have "flowBoundaryFresh dur now runID ep phase c = (res, c')" "err = None"
    by (auto simp: flowBoundary_fresh split: prod.splits)
  with flowBoundaryFresh_facts [OF this(1)]
  show "err = None \<and> br_Committed res \<and> gh_token (br_Handle res) = Token (fc_self c) (length (fc_gens c)) \<and> fc_self c' = fc_self c \<and>
      (\<exists>g. fc_gens c' = fc_gens c @ [g] \<and> \<not> fg_released g \<and> flowData g = renderFlows (fc_registry c))"
    by blast
next
  fix c runID ep phase now
  assume "flow_inv options c" and f: "flowFresh c runID ep phase"
  obtain res c' where r: "flowBoundaryFresh dur now runID ep phase c = (res, c')" by force
  with \<open>flow_inv options c\<close> flowBoundaryFresh_facts [OF r] f
  show "fc_registry (snd (flowBoundary dur now runID ep phase c)) = emptyFlows dur options"
    by (simp add: flowBoundary_fresh flow_inv_def rotateFlows_empty)
next
  fix c runID ep phase now now' out c'
  assume f: "flowFresh c runID ep phase" and b: "flowBoundary dur now runID ep phase c = (out, c')"
  then obtain res where r: "flowBoundaryFresh dur now runID ep phase c = (res, c')" "out = (res, None)"
    by (auto simp: flowBoundary_fresh split: prod.splits)
  with flowBoundaryFresh_facts [OF r(1)] f show "flowBoundary dur now' runID ep phase c' = (out, c')"
    by (simp add: flowBoundary_def flowFresh_def)
next
  fix c runID ep phase phase' now
  assume f: "flowFresh c runID ep phase" "flowFresh c runID ep phase'" "phase \<noteq> phase'"
  obtain res c' where r: "flowBoundaryFresh dur now runID ep phase c = (res, c')" by force
  show "flowFresh (snd (flowBoundary dur now runID ep phase c)) runID ep phase'"
    using flowBoundaryFresh_facts [OF r] f by (auto simp: flowBoundary_fresh [OF f(1)] r flowFresh_def)
next
  fix c runID ep phase assume "flow_inv options c" "fc_epoch c < ep"
  then show "flowFresh c runID ep phase"
    by (fastforce simp: flow_inv_def flowFresh_def map_of_eq_None_iff)
next
  fix c x runID ep phase
  show "flow_inv options c \<Longrightarrow> flow_inv options (flowCount x c)" "fc_registry (flowCount x c) = flowAdd x (fc_registry c)"
    "fc_gens (flowCount x c) = fc_gens c" "fc_self (flowCount x c) = fc_self c"
    "flowFresh (flowCount x c) runID ep phase = flowFresh c runID ep phase"
    by (simp_all add: flowCount_def flow_inv_def flowFresh_def flowAdd_options)
next
  fix c ctxErr h runID ep phase
  note d = flowDrain_state [of ctxErr h c]
  show "flow_inv options c \<Longrightarrow> flow_inv options (snd (flowDrain ctxErr h c))"
    using d by (elim disjE exE; simp add: flow_inv_def)+
  show "fc_registry (snd (flowDrain ctxErr h c)) = fc_registry c" "fc_self (snd (flowDrain ctxErr h c)) = fc_self c"
    "flowFresh (snd (flowDrain ctxErr h c)) runID ep phase = flowFresh c runID ep phase"
    "fc_gens (snd (flowDrain ctxErr h c)) = fc_gens c \<or> (\<exists>a. fc_gens (snd (flowDrain ctxErr h c)) = (fc_gens c)[a := flowSettle (fc_gens c ! a)])"
    using d by (auto simp: flowFresh_def)
next
  fix c h runID ep phase
  show "flow_inv options c \<Longrightarrow> flow_inv options (flowRelease h c)" "fc_registry (flowRelease h c) = fc_registry c"
    "fc_self (flowRelease h c) = fc_self c" "flowFresh (flowRelease h c) runID ep phase = flowFresh c runID ep phase"
    "fc_gens (flowRelease h c) = (case resolveToken (fc_self c) (fc_gens c) h of None \<Rightarrow> fc_gens c
      | Some a \<Rightarrow> (fc_gens c)[a := flowReleaseGen (fc_gens c ! a)])"
    by (auto simp: flowRelease_def flowResolve_def flow_inv_def flowFresh_def split: option.split)
next
  fix c :: flowCollector and h a assume "resolveToken (fc_self c) (fc_gens c) h = Some a" "flowDropped (fc_gens c ! a)"
  then show "(\<exists>e. flowCollect h c = Inl e) \<and> flowRelease h c = c"
    by (auto simp: flowCollect_def flowRelease_def flowResolve_def flowSettle_facts flowDropped_def)
qed (simp_all add: flow_inv_boundary flowBoundary_same flowDrain_reads flowSettle_facts)

subsection \<open>The section of a run\<close>

fun flowExec :: "(string \<Rightarrow> duration option) \<Rightarrow> flowInput collectorOp \<Rightarrow> flowCollector \<Rightarrow> flowCollector" where
  "flowExec dur (OpObserve x) c = flowCount x c"
| "flowExec dur (OpBoundary now runID ep phase) c = snd (flowBoundary dur now runID ep phase c)"
| "flowExec dur (OpDrain ctxErr h) c = snd (flowDrain ctxErr h c)"
| "flowExec dur (OpRelease h) c = flowRelease h c"

lemma flowExec_eq: "flowExec dur = fcol.exec dur"
proof (intro ext)
  fix op c show "flowExec dur op c = fcol.exec dur op c" by (cases op) simp_all
qed

lemma flow_new:
  assumes "NewRegistryWithOptions dur options = Inr r0"
  shows "flow_inv options (NewFlowCollector self r0)" "emptyFlows dur options = r0"
  using assms by (auto simp: flow_inv_def NewFlowCollector_def NewRegistryWithOptions_def emptyFlows_def split: sum.splits)

text \<open>The records of the requests of a run.\<close>

definition inputRecords :: "flowInput list \<Rightarrow> Access_Record list" where
  "inputRecords xs = concat (map (\<lambda>x. case x of
      Detailed v \<Rightarrow> [flowRecord v]
    | Simple session scenario method route \<Rightarrow>
        if session = [] \<or> method = [] \<or> route = [] then []
        else [flowRecord \<lparr>ob_Session = session, ob_Scenario = scenario, ob_Method = method, ob_Route = route,
                ob_Status = 200, ob_Duration = 0, ob_At = 0\<rparr>]) xs)"

lemma flowAdd_records: "fr_agg (fold flowAdd xs r) = fold ObserveLog (inputRecords xs) (fr_agg r)"
proof (induction xs rule: rev_induct)
  case (snoc x xs)
  then show ?case by (cases x) (simp_all add: inputRecords_def ObserveFlow_def ObserveRequest_def)
qed (simp add: inputRecords_def)


definition exampleFlows :: flowCollector where
  "exampleFlows = NewFlowCollector ''flow#1'' \<lparr>fr_agg = plainLog, fr_options = zeroOptions\<rparr>"

definition exampleVisitOps :: "flowInput collectorOp list" where
  "exampleVisitOps = [OpObserve (Simple ''u1'' ''shop'' ''GET'' ''/a''), OpObserve (Simple ''u1'' ''shop'' ''GET'' ''/b'')]"

definition exampleFlowsClosed :: "(BoundaryResult \<times> gerr option) \<times> flowCollector" where
  "exampleFlowsClosed = FreezeFlows (\<lambda>_. None) 2 ''r1'' 1
     (fold (flowExec (\<lambda>_. None)) exampleVisitOps (snd (BeginFlowBoundary (\<lambda>_. None) 1 ''r1'' 1 exampleFlows)))"

lemma exampleFlows_new: "NewRegistryWithOptions (\<lambda>_. None) zeroOptions = Inr \<lparr>fr_agg = plainLog, fr_options = zeroOptions\<rparr>"
  by (simp add: NewRegistryWithOptions_def plain_new)


end
