(* ===== verification/Request_Sql.thy ===== *)
theory Request_Sql
  imports Tables
begin

text \<open>
  \<open>internal/requestsql/requestsql.go\<close>: the SQL calls completed in one HTTP request, counted with an
  atomic word or, when shapes are captured, in a bounded map from normalized statements to their
  totals. Closing freezes either; the compare-and-swap loops are one step each. The counter a context
  carries is the argument; a context without one changes nothing.
\<close>

abbreviation (input) "maxRequestShapes \<equiv> (32 :: nat)"

definition OverflowShape :: string where "OverflowShape = ''(other SQL shapes)''"
definition UnknownShape :: string where "UnknownShape = ''(SQL shape unavailable)''"

record Shape =
  sh_Count :: int
  sh_Total :: duration
  sh_Errors :: int

definition zeroShape :: Shape where
  "zeroShape = \<lparr>sh_Count = 0, sh_Total = 0, sh_Errors = 0\<rparr>"

text \<open>The scalar state is a \<open>uint64\<close> whose top bit says closed: the count below it, and the bit.\<close>

record scalarCounter =
  sc_count :: int
  sc_closed :: bool

record shapeCounter =
  hc_closed :: bool
  hc_count :: int
  hc_shapes :: "(string \<times> Shape) list"

datatype SqlCounter = Scalar scalarCounter | Shapes shapeCounter

definition withCounter :: "bool \<Rightarrow> SqlCounter" where
  "withCounter capture =
     (if capture then Shapes \<lparr>hc_closed = False, hc_count = 0, hc_shapes = []\<rparr> else Scalar \<lparr>sc_count = 0, sc_closed = False\<rparr>)"

definition addSqlCall :: "duration \<Rightarrow> bool \<Rightarrow> Shape \<Rightarrow> Shape" where
  "addSqlCall d failed v =
     v\<lparr>sh_Count := wrap64 (sh_Count v + 1), sh_Total := (if d > 0 then wrap64 (sh_Total v + d) else sh_Total v),
       sh_Errors := (if failed then wrap64 (sh_Errors v + 1) else sh_Errors v)\<rparr>"

definition completeScalar :: "scalarCounter \<Rightarrow> scalarCounter" where
  "completeScalar s = (if sc_closed s \<or> sc_count s = int64_max then s else s\<lparr>sc_count := sc_count s + 1\<rparr>)"

definition completeShape :: "string \<Rightarrow> duration \<Rightarrow> bool \<Rightarrow> shapeCounter \<Rightarrow> shapeCounter" where
  "completeShape shape d failed s =
     (if hc_closed s then s
      else
        let s1 = s\<lparr>hc_count := wrap64 (hc_count s + 1)\<rparr> in
        if shape = [] then s1
        else
          let key = (if map_of (hc_shapes s) shape = None \<and> length (hc_shapes s) \<ge> maxRequestShapes then OverflowShape else shape)
          in s1\<lparr>hc_shapes := alter key zeroShape (addSqlCall d failed) (hc_shapes s)\<rparr>)"

fun CompletedShape :: "string \<Rightarrow> duration \<Rightarrow> bool \<Rightarrow> SqlCounter \<Rightarrow> SqlCounter" where
  "CompletedShape shape d failed (Scalar s) = Scalar (completeScalar s)"
| "CompletedShape shape d failed (Shapes s) = Shapes (completeShape shape d failed s)"

definition Completed :: "SqlCounter \<Rightarrow> SqlCounter" where
  "Completed = CompletedShape UnknownShape 0 False"

fun CloseShapes :: "SqlCounter \<Rightarrow> (int \<times> (string \<times> Shape) list option) \<times> SqlCounter" where
  "CloseShapes (Scalar s) = ((sc_count s, None), Scalar (s\<lparr>sc_closed := True\<rparr>))"
| "CloseShapes (Shapes s) = ((hc_count s, Some (hc_shapes s)), Shapes (s\<lparr>hc_closed := True\<rparr>))"

definition Close_sql :: "SqlCounter \<Rightarrow> int \<times> SqlCounter" where
  "Close_sql c = (case CloseShapes c of ((n, _), c') \<Rightarrow> (n, c'))"

subsection \<open>Closing freezes\<close>

definition isClosed :: "SqlCounter \<Rightarrow> bool" where
  "isClosed c = (case c of Scalar s \<Rightarrow> sc_closed s | Shapes s \<Rightarrow> hc_closed s)"

lemma CloseShapes_closed: "isClosed (snd (CloseShapes c))" "fst (CloseShapes (snd (CloseShapes c))) = fst (CloseShapes c)"
  by (cases c; simp add: isClosed_def)+

lemma closed_frozen: "isClosed c \<Longrightarrow> CompletedShape shape d failed c = c"
  by (cases c) (simp_all add: isClosed_def completeScalar_def completeShape_def)

abbreviation completeAll :: "(string \<times> duration \<times> bool) list \<Rightarrow> SqlCounter \<Rightarrow> SqlCounter" where
  "completeAll calls \<equiv> fold (\<lambda>(shape, d, failed). CompletedShape shape d failed) calls"

lemma closed_frozen_all: "isClosed c \<Longrightarrow> completeAll calls c = c"
  by (induction calls) (auto simp: closed_frozen)

subsection \<open>What a request reports\<close>

definition shape_inv :: "(string \<times> duration \<times> bool) list \<Rightarrow> shapeCounter \<Rightarrow> bool" where
  "shape_inv calls s \<longleftrightarrow> \<not> hc_closed s \<and> hc_count s = int (length calls) \<and> distinct (map fst (hc_shapes s)) \<and>
     length (hc_shapes s) \<le> maxRequestShapes + (if map_of (hc_shapes s) OverflowShape = None then 0 else 1) \<and>
     (\<forall>(k, v) \<in> set (hc_shapes s). 0 \<le> sh_Count v \<and> sh_Count v \<le> int (length calls)) \<and>
     sum_list (map (sh_Count \<circ> snd) (hc_shapes s)) = int (length (filter (\<lambda>c. fst c \<noteq> []) calls))"

lemma addSqlCall_count: "0 \<le> n \<Longrightarrow> n < int64_max \<Longrightarrow> sh_Count v = n \<Longrightarrow> sh_Count (addSqlCall d failed v) = n + 1"
  by (simp add: addSqlCall_def) (rule wrap64_id, simp add: go_defs)

lemma shape_inv_complete:
  assumes "shape_inv calls s" and "int (length calls) < int64_max"
  shows "shape_inv (calls @ [(shape, d, failed)]) (completeShape shape d failed s)"
proof (cases "shape = []")
  case True
  have "wrap64 (int (length calls) + 1) = int (length calls) + 1" using assms(2) by (intro wrap64_id) (simp add: go_defs)
  then show ?thesis using assms(1) True by (auto simp: shape_inv_def completeShape_def)
next
  case False
  define key where "key = (if map_of (hc_shapes s) shape = None \<and> length (hc_shapes s) \<ge> maxRequestShapes then OverflowShape else shape)"
  define m where "m = alter key zeroShape (addSqlCall d failed) (hc_shapes s)"
  have w: "wrap64 (int (length calls) + 1) = int (length calls) + 1" using assms(2) by (intro wrap64_id) (simp add: go_defs)
  have s': "completeShape shape d failed s = s\<lparr>hc_count := int (length calls) + 1, hc_shapes := m\<rparr>"
    using assms(1) False w by (simp add: completeShape_def shape_inv_def Let_def key_def m_def)
  have count: "sh_Count (addSqlCall d failed v) = sh_Count v + 1" if "v = zeroShape \<or> (key, v) \<in> set (hc_shapes s)" for v
    using that assms by (intro addSqlCall_count refl) (auto simp: shape_inv_def zeroShape_def go_defs)
  have bounds: "0 \<le> sh_Count v \<and> sh_Count v \<le> int (length calls) + 1" if "(k, v) \<in> set m" for k v
    using set_alter [OF that [unfolded m_def]] count assms(1) by (fastforce simp: shape_inv_def zeroShape_def)
  have d: "distinct (map fst (hc_shapes s))" using assms(1) by (simp add: shape_inv_def)
  have old: "sh_Count (addSqlCall d failed v) - sh_Count v = 1" if "map_of (hc_shapes s) key = Some v" for v
    using count [of v] map_of_SomeD [OF that] by simp
  have "sum_list (map (sh_Count \<circ> snd) m) = sum_list (map (sh_Count \<circ> snd) (hc_shapes s)) + 1"
    unfolding m_def sum_alter [OF d] using count [of zeroShape] old by (auto simp: zeroShape_def split: option.split)
  moreover have "length m \<le> maxRequestShapes + (if map_of m OverflowShape = None then 0 else 1)"
    using assms(1) by (auto simp: shape_inv_def m_def key_def length_alter map_of_alter map_of_eq_None_iff split: if_splits)
  moreover have "distinct (map fst m)" using d by (simp add: m_def distinct_alter)
  moreover have "\<forall>(k, v) \<in> set m. 0 \<le> sh_Count v \<and> sh_Count v \<le> int (length (calls @ [(shape, d, failed)]))"
    using bounds by (fastforce simp: add.commute)
  ultimately show ?thesis using assms(1) False by (simp add: s' shape_inv_def)
qed

lemma shape_inv_all:
  assumes "int (length calls) \<le> int64_max"
  shows "\<exists>s. completeAll calls (withCounter True) = Shapes s \<and> shape_inv calls s"
  using assms
proof (induction calls rule: rev_induct)
  case Nil
  then show ?case by (simp add: withCounter_def shape_inv_def)
next
  case (snoc c calls)
  then obtain s where s: "completeAll calls (withCounter True) = Shapes s" "shape_inv calls s" by auto
  obtain shape d failed where "c = (shape, d, failed)" by (cases c)
  then show ?case using s shape_inv_complete [OF s(2), of shape d failed] snoc.prems by simp
qed

lemma scalar_all:
  "\<exists>s. completeAll calls (withCounter False) = Scalar s \<and> \<not> sc_closed s \<and> sc_count s = min (int (length calls)) int64_max"
proof (induction calls rule: rev_induct)
  case Nil
  then show ?case by (simp add: withCounter_def go_defs)
next
  case (snoc c calls)
  then obtain s where "completeAll calls (withCounter False) = Scalar s" "\<not> sc_closed s" "sc_count s = min (int (length calls)) int64_max"
    by auto
  then show ?case by (auto simp: completeScalar_def case_prod_unfold)
qed



end
