(* ===== verification/Http_Paths.thy ===== *)
theory Http_Paths
  imports Go_Strings "HOL-Library.Sublist"
begin

text \<open>
  The path an HTTP request is filed under (\<open>httpstats/httpstats.go\<close>): the registered route pattern, the
  configured rules, or the built-in normalization that replaces numeric, UUID and ULID segments. Regular
  expressions are written out over the runes they match; \<open>(?i)\<close> folds the Kelvin sign to k and the
  long s to s, as the library's case folding does.
\<close>

fun splitByte :: "char \<Rightarrow> string \<Rightarrow> string list" where
  "splitByte c [] = [[]]"
| "splitByte c (x # xs) =
     (if x = c then [] # splitByte c xs else (x # hd (splitByte c xs)) # tl (splitByte c xs))"

definition lastIndexByte :: "string \<Rightarrow> char \<Rightarrow> nat option" where
  "lastIndexByte s c = (if c \<in> set s then Some (length s - 1 - length (takeWhile (\<lambda>x. x \<noteq> c) (rev s))) else None)"

definition isDecimal :: "string \<Rightarrow> bool" where
  "isDecimal s \<longleftrightarrow> s \<noteq> [] \<and> list_all (\<lambda>c. CHR ''0'' \<le> c \<and> c \<le> CHR ''9'') s"

definition runeIn :: "nat \<Rightarrow> nat \<Rightarrow> nat \<Rightarrow> bool" where
  "runeIn lo hi r \<longleftrightarrow> lo \<le> r \<and> r \<le> hi"

definition hexRune :: "nat \<Rightarrow> bool" where
  "hexRune r \<longleftrightarrow> runeIn 48 57 r \<or> runeIn 97 102 r \<or> runeIn 65 70 r"

definition dashRune :: "nat \<Rightarrow> bool" where
  "dashRune r \<longleftrightarrow> r = 45"

definition variantRune :: "nat \<Rightarrow> bool" where
  "variantRune r \<longleftrightarrow> r \<in> {56, 57, 97, 98, 65, 66}"

definition ulidRune :: "nat \<Rightarrow> bool" where
  "ulidRune r \<longleftrightarrow> runeIn 48 57 r \<or> runeIn 97 104 r \<or> r \<in> {106, 107, 109, 110} \<or> runeIn 112 116 r \<or> runeIn 118 122 r \<or>
     runeIn 65 72 r \<or> r \<in> {74, 75, 77, 78} \<or> runeIn 80 84 r \<or> runeIn 86 90 r \<or> r = 0x212A \<or> r = 0x17F"

definition matchRunes :: "(nat \<Rightarrow> bool) list \<Rightarrow> string \<Rightarrow> bool" where
  "matchRunes classes s = list_all2 (\<lambda>p r. p r) classes (runes s)"

definition uuidSegment :: "string \<Rightarrow> bool" where
  "uuidSegment = matchRunes (replicate 8 hexRune @ [dashRune] @ replicate 4 hexRune @ [dashRune] @ [runeIn 49 53] @ replicate 3 hexRune @
     [dashRune] @ [variantRune] @ replicate 3 hexRune @ [dashRune] @ replicate 12 hexRune)"

definition ulidSegment :: "string \<Rightarrow> bool" where
  "ulidSegment = matchRunes (runeIn 48 55 # replicate 25 ulidRune)"

definition splitExtension :: "string \<Rightarrow> string \<times> string" where
  "splitExtension segment =
     (case lastIndexByte segment CHR ''.'' of
        Some dot \<Rightarrow> if dot > 0 then (take dot segment, drop dot segment) else (segment, [])
      | None \<Rightarrow> (segment, []))"

definition normalizeSegment :: "string \<Rightarrow> string" where
  "normalizeSegment segment =
     (if segment = [] then segment
      else case splitExtension segment of (base, extension) \<Rightarrow>
        if isDecimal base \<or> uuidSegment base \<or> ulidSegment base then ''*'' @ extension else segment)"

definition normalizePath :: "string \<Rightarrow> string" where
  "normalizePath path = strings_Join (map normalizeSegment (splitByte CHR ''/'' path)) ''/''"

definition requestPatternPath :: "string \<Rightarrow> string" where
  "requestPatternPath pattern =
     (case strings_Fields pattern of
        [] \<Rightarrow> []
      | f # fs \<Rightarrow>
          (let path = last (f # fs) in
           if take 1 path = ''/'' then path
           else case strings_IndexByte path CHR ''/'' of Some slash \<Rightarrow> drop slash path | None \<Rightarrow> []))"

text \<open>\<open>pathFor\<close>: the registered pattern, else the rules in order (each a replacement function), else the built-in normalization.\<close>

definition pathFor :: "(string \<Rightarrow> string) option list option \<Rightarrow> string \<Rightarrow> string \<Rightarrow> string" where
  "pathFor rules pattern path =
     (let p = requestPatternPath pattern in
      if p \<noteq> [] then p
      else case rules of
             Some rs \<Rightarrow> fold (\<lambda>rule path. case rule of Some replace \<Rightarrow> replace path | None \<Rightarrow> path) rs path
           | None \<Rightarrow> normalizePath path)"

subsection \<open>Segments\<close>

lemma splitByte_nonempty [simp]: "splitByte c s \<noteq> []"
  by (cases s) auto

lemma splitByte_free: "seg \<in> set (splitByte c s) \<Longrightarrow> c \<notin> set seg"
proof (induction s arbitrary: seg)
  case (Cons x xs)
  have "splitByte c xs = hd (splitByte c xs) # tl (splitByte c xs)" by simp
  with Cons show ?case by (metis (no_types, lifting) list.set_intros set_ConsD empty_iff empty_set splitByte.simps(2))
qed simp

lemma split_append: "c \<notin> set seg \<Longrightarrow> splitByte c (seg @ s) = (seg @ hd (splitByte c s)) # tl (splitByte c s)"
  by (induction seg) auto

lemma split_plain: "c \<notin> set seg \<Longrightarrow> splitByte c seg = [seg]"
  using split_append [of c seg "[]"] by simp

lemma split_join:
  assumes "segs \<noteq> []" and "\<forall>seg \<in> set segs. c \<notin> set seg"
  shows "splitByte c (strings_Join segs [c]) = segs"
  using assms
proof (induction segs "[c]" rule: strings_Join.induct)
  case (3 s t ss)
  then show ?case by (simp add: split_append)
qed (simp_all add: split_plain)

lemma join_split: "strings_Join (splitByte c s) [c] = s"
proof (induction s)
  case (Cons x xs)
  obtain seg segs where "splitByte c xs = seg # segs" by (cases "splitByte c xs") auto
  with Cons show ?case by (cases segs) auto
qed simp

definition looksLikeID :: "string \<Rightarrow> bool" where
  "looksLikeID base \<longleftrightarrow> isDecimal base \<or> uuidSegment base \<or> ulidSegment base"

text \<open>A segment that gives nothing away.\<close>

definition safeSegment :: "string \<Rightarrow> bool" where
  "safeSegment seg \<longleftrightarrow> seg = [] \<or> \<not> looksLikeID (fst (splitExtension seg))"

lemma matchRunes_length: "matchRunes classes s \<Longrightarrow> length (runes s) = length classes"
  by (simp add: matchRunes_def list_all2_lengthD)

lemma star_no_ID: "\<not> looksLikeID ''*''"
proof -
  have "length (runes ''*'') = 1" by (simp add: runes_def decode_ascii byte_def)
  then have "\<not> uuidSegment ''*''" "\<not> ulidSegment ''*''"
    by (auto simp: uuidSegment_def ulidSegment_def dest!: matchRunes_length)
  then show ?thesis by (simp add: looksLikeID_def isDecimal_def less_eq_char_def)
qed

lemma lastIndexByte_split:
  assumes "c \<notin> set zs"
  shows "lastIndexByte (ys @ c # zs) c = Some (length ys)"
proof -
  have "takeWhile (\<lambda>x. x \<noteq> c) (rev zs @ c # rev ys) = rev zs" using assms by (subst takeWhile_append2) auto
  then show ?thesis by (simp add: lastIndexByte_def)
qed

lemma splitExtension_cases:
  obtains (plain) "splitExtension seg = (seg, [])" "CHR ''.'' \<notin> set (tl seg)"
  | (dotted) ys zs where "seg = ys @ CHR ''.'' # zs" "ys \<noteq> []" "CHR ''.'' \<notin> set zs" "splitExtension seg = (ys, CHR ''.'' # zs)"
proof (cases "CHR ''.'' \<in> set seg")
  case True
  then obtain ys zs where s: "seg = ys @ CHR ''.'' # zs" "CHR ''.'' \<notin> set zs" by (auto dest: split_list_last)
  show ?thesis
  proof (cases "ys = []")
    case True
    with s show ?thesis by (intro plain) (simp_all add: splitExtension_def lastIndexByte_split [of _ _ "[]", simplified])
  next
    case False
    with s show ?thesis by (intro dotted [of ys zs]) (simp_all add: splitExtension_def lastIndexByte_split)
  qed
next
  case False
  then show ?thesis by (intro plain) (auto simp: splitExtension_def lastIndexByte_def, metis list.set_sel(2) tl_Nil)
qed

lemma normalizeSegment_cases:
  obtains (kept) "normalizeSegment seg = seg" "seg = [] \<or> \<not> looksLikeID (fst (splitExtension seg))"
  | (hidden) ext where "normalizeSegment seg = ''*'' @ ext" "splitExtension (''*'' @ ext) = (''*'', ext)" "set ext \<subseteq> set seg"
proof (cases "seg = [] \<or> \<not> looksLikeID (fst (splitExtension seg))")
  case True
  then show ?thesis by (intro kept) (auto simp: normalizeSegment_def looksLikeID_def split: prod.split)
next
  case False
  then have n: "normalizeSegment seg = ''*'' @ snd (splitExtension seg)"
    by (auto simp: normalizeSegment_def looksLikeID_def split: prod.split)
  show ?thesis
  proof (cases seg rule: splitExtension_cases)
    case plain
    then show ?thesis using n by (intro hidden [of "[]"]) (simp_all add: splitExtension_def lastIndexByte_def)
  next
    case (dotted ys zs)
    then show ?thesis using n lastIndexByte_split [of "CHR ''.''" zs "''*''"]
      by (intro hidden [of "CHR ''.'' # zs"]) (auto simp: splitExtension_def)
  qed
qed

lemma normalizeSegment_idem: "normalizeSegment (normalizeSegment seg) = normalizeSegment seg"
proof (cases seg rule: normalizeSegment_cases)
  case (hidden ext)
  then show ?thesis using star_no_ID by (simp add: normalizeSegment_def looksLikeID_def)
qed simp

lemma normalizeSegment_hides: "normalizeSegment seg = [] \<or> \<not> looksLikeID (fst (splitExtension (normalizeSegment seg)))"
proof (cases seg rule: normalizeSegment_cases)
  case (hidden ext)
  then show ?thesis using star_no_ID by simp
qed auto

lemma normalizeSegment_slash: "CHR ''/'' \<notin> set seg \<Longrightarrow> CHR ''/'' \<notin> set (normalizeSegment seg)"
  by (cases seg rule: normalizeSegment_cases) auto

lemma normalizePath_segments: "splitByte CHR ''/'' (normalizePath path) = map normalizeSegment (splitByte CHR ''/'' path)"
  unfolding normalizePath_def
  by (rule split_join) (auto dest!: splitByte_free normalizeSegment_slash)


end
