(* ===== verification/Http_Table.thy ===== *)
theory Http_Table
  imports Request_Sql Request_Work Histogram Http_Paths
begin

text \<open>
  \<open>httpstats/httpstats.go\<close> and \<open>httpstats/request_work.go\<close>: the bounded table from HTTP identities to latency,
  size, SQL and dependency totals. The sixteen shards are association lists with distinct keys, as in
  \<open>Agg\<close>; the compare-and-swap loops that reserve keys are one step each.
\<close>

unbundle bit_operations_syntax

subsection \<open>Rows\<close>

abbreviation (input) "OverflowPath \<equiv> ''(other)''"
abbreviation (input) "DefaultMaxShapeKeys \<equiv> (2048 :: int)"
abbreviation (input) "maxWorkKeys \<equiv> (2048 :: int)"

definition OverflowDependency :: string where "OverflowDependency = ''(other dependencies)''"

record identity =
  id_method :: string
  id_path :: string
  id_protocol :: string
  id_status :: int

record RequestWork =
  rw_TrackedRequests :: int
  rw_CompleteRequests :: int
  rw_TruncatedRequests :: int
  rw_Total :: duration
  rw_CompleteTotal :: duration
  rw_SQLTotal :: duration
  rw_ExternalTotal :: duration
  rw_SQLOnly :: duration
  rw_ExternalOnly :: duration
  rw_Overlap :: duration
  rw_Other :: duration
  rw_ExternalCount :: int
  rw_ExternalErrors :: int
  rw_Calls :: "Call list"

definition zeroWork :: RequestWork where
  "zeroWork = \<lparr>rw_TrackedRequests = 0, rw_CompleteRequests = 0, rw_TruncatedRequests = 0, rw_Total = 0, rw_CompleteTotal = 0,
     rw_SQLTotal = 0, rw_ExternalTotal = 0, rw_SQLOnly = 0, rw_ExternalOnly = 0, rw_Overlap = 0, rw_Other = 0, rw_ExternalCount = 0,
     rw_ExternalErrors = 0, rw_Calls = []\<rparr>"

record SQLShape =
  qs_Key :: string
  qs_Count :: int
  qs_Total :: duration
  qs_Errors :: int
  qs_MaxPerRequest :: int

definition zeroSQLShape :: SQLShape where
  "zeroSQLShape = \<lparr>qs_Key = [], qs_Count = 0, qs_Total = 0, qs_Errors = 0, qs_MaxPerRequest = 0\<rparr>"

record httpStat =
  hs_work :: "RequestWork option"
  hs_count :: int
  hs_total :: int
  hs_max :: int
  hs_bytes :: int
  hs_sqlCount :: int
  hs_sqlMaxPerRequest :: int
  hs_sqlTrackedRequests :: int
  hs_sqlShapeTrackedRequests :: int
  hs_shapes :: "(string \<times> SQLShape) list"
  hs_buckets :: "int list"

definition zeroHttpStat :: httpStat where
  "zeroHttpStat = \<lparr>hs_work = None, hs_count = 0, hs_total = 0, hs_max = 0, hs_bytes = 0, hs_sqlCount = 0, hs_sqlMaxPerRequest = 0,
     hs_sqlTrackedRequests = 0, hs_sqlShapeTrackedRequests = 0, hs_shapes = [], hs_buckets = replicate numBuckets 0\<rparr>"

record httpTable =
  ht_maxKeys :: int
  ht_keys :: int
  ht_shapeKeys :: int
  ht_workKeys :: int
  ht_shards :: "(identity \<times> httpStat) list list"

definition newTable_http :: "int \<Rightarrow> httpTable" where
  "newTable_http maxKeys = \<lparr>ht_maxKeys = maxKeys, ht_keys = 0, ht_shapeKeys = 0, ht_workKeys = 0, ht_shards = replicate numShards []\<rparr>"

definition hashWrite :: "string \<Rightarrow> 32 word \<Rightarrow> 32 word" where
  "hashWrite v h = (fold (\<lambda>c h. (h XOR of_char c) * 16777619) v h XOR 0xff) * 16777619"

definition hashIdentity :: "identity \<Rightarrow> 32 word" where
  "hashIdentity ident = hashWrite (show_int (id_status ident)) (hashWrite (id_protocol ident) (hashWrite (id_path ident) (hashWrite (id_method ident) 2166136261)))"

definition shardOfId :: "identity \<Rightarrow> nat" where
  "shardOfId ident = unat (hashIdentity ident) mod numShards"

subsection \<open>Dependencies\<close>

definition addRequestCall :: "Call \<Rightarrow> Call \<Rightarrow> Call" where
  "addRequestCall dst src =
     dst\<lparr>cl_Count := wrap64 (cl_Count dst + cl_Count src), cl_Errors := wrap64 (cl_Errors dst + cl_Errors src),
         cl_Reused := wrap64 (cl_Reused dst + cl_Reused src), cl_Total := wrap64 (cl_Total dst + cl_Total src),
         cl_Acquire := wrap64 (cl_Acquire dst + cl_Acquire src), cl_DNS := wrap64 (cl_DNS dst + cl_DNS src),
         cl_Connect := wrap64 (cl_Connect dst + cl_Connect src), cl_TLS := wrap64 (cl_TLS dst + cl_TLS src),
         cl_Wait := wrap64 (cl_Wait dst + cl_Wait src), cl_Headers := wrap64 (cl_Headers dst + cl_Headers src),
         cl_Body := wrap64 (cl_Body dst + cl_Body src)\<rparr>"

text \<open>The first row with the label, or a new one at the end.\<close>

fun addCallTo :: "string \<Rightarrow> Call \<Rightarrow> Call list \<Rightarrow> Call list" where
  "addCallTo label call [] = [addRequestCall (newCall label) call]"
| "addCallTo label call (c # cs) = (if cl_Label c = label then addRequestCall c call # cs else c # addCallTo label call cs)"

definition reserveWorkKey :: "int \<Rightarrow> bool \<times> int" where
  "reserveWorkKey n = (if n \<ge> maxWorkKeys then (False, n) else (True, n + 1))"

definition mergeCall :: "Call \<Rightarrow> Call list \<times> int \<Rightarrow> Call list \<times> int" where
  "mergeCall call = (\<lambda>(calls, n).
     if cl_Label call \<notin> cl_Label ` set calls \<and> cl_Label call \<noteq> OverflowDependency
     then (case reserveWorkKey n of (ok, n') \<Rightarrow> (addCallTo (if ok then cl_Label call else OverflowDependency) call calls, n'))
     else (addCallTo (cl_Label call) call calls, n))"

definition mergeTotals :: "Summary \<Rightarrow> duration \<Rightarrow> RequestWork \<Rightarrow> RequestWork" where
  "mergeTotals src d dst =
     (let dst1 = dst\<lparr>rw_TrackedRequests := wrap64 (rw_TrackedRequests dst + 1), rw_Total := wrap64 (rw_Total dst + d),
                     rw_SQLTotal := wrap64 (rw_SQLTotal dst + sm_SQLTotal src), rw_ExternalTotal := wrap64 (rw_ExternalTotal dst + sm_ExternalTotal src),
                     rw_ExternalCount := wrap64 (rw_ExternalCount dst + sm_ExternalCount src),
                     rw_ExternalErrors := wrap64 (rw_ExternalErrors dst + sm_ExternalErrors src)\<rparr>
      in if sm_Truncated src then dst1\<lparr>rw_TruncatedRequests := wrap64 (rw_TruncatedRequests dst1 + 1)\<rparr>
         else dst1\<lparr>rw_CompleteRequests := wrap64 (rw_CompleteRequests dst1 + 1), rw_CompleteTotal := wrap64 (rw_CompleteTotal dst1 + d),
                   rw_SQLOnly := wrap64 (rw_SQLOnly dst1 + sm_SQLOnly src), rw_ExternalOnly := wrap64 (rw_ExternalOnly dst1 + sm_ExternalOnly src),
                   rw_Overlap := wrap64 (rw_Overlap dst1 + sm_Overlap src), rw_Other := wrap64 (rw_Other dst1 + sm_Other src)\<rparr>)"

definition mergeWork :: "Summary \<Rightarrow> duration \<Rightarrow> RequestWork \<times> int \<Rightarrow> RequestWork \<times> int" where
  "mergeWork src d = (\<lambda>(dst, n).
     let dst1 = mergeTotals src d dst;
         (calls, n') = fold mergeCall (sm_Calls src) (rw_Calls dst1, n)
     in (dst1\<lparr>rw_Calls := calls\<rparr>, n'))"

definition cloneWork :: "RequestWork \<Rightarrow> RequestWork" where
  "cloneWork src = src\<lparr>rw_Calls := sort_key cl_Label (rw_Calls src)\<rparr>"

subsection \<open>Shapes\<close>

definition addShape :: "Shape \<Rightarrow> Shape \<Rightarrow> Shape" where
  "addShape v acc =
     acc\<lparr>sh_Count := wrap64 (sh_Count acc + sh_Count v), sh_Total := wrap64 (sh_Total acc + sh_Total v),
            sh_Errors := wrap64 (sh_Errors acc + sh_Errors v)\<rparr>"

definition reserveShapeKey :: "int \<Rightarrow> bool \<times> int" where
  "reserveShapeKey n = (if n \<ge> DefaultMaxShapeKeys then (False, n) else (True, n + 1))"

definition resolveShape :: "(string \<times> SQLShape) list \<Rightarrow> string \<times> Shape \<Rightarrow> (string \<times> Shape) list \<times> int \<Rightarrow> (string \<times> Shape) list \<times> int" where
  "resolveShape row = (\<lambda>(shape, v) (resolved, n).
     if map_of row shape = None \<and> shape \<noteq> OverflowShape
     then (case reserveShapeKey n of (ok, n') \<Rightarrow> (alter (if ok then shape else OverflowShape) zeroShape (addShape v) resolved, n'))
     else (alter shape zeroShape (addShape v) resolved, n))"

definition putShape :: "string \<times> Shape \<Rightarrow> (string \<times> SQLShape) list \<Rightarrow> (string \<times> SQLShape) list" where
  "putShape = (\<lambda>(shape, v).
     alter shape zeroSQLShape (\<lambda>row.
       row\<lparr>qs_Key := shape, qs_Count := wrap64 (qs_Count row + sh_Count v), qs_Total := wrap64 (qs_Total row + sh_Total v),
           qs_Errors := wrap64 (qs_Errors row + sh_Errors v),
           qs_MaxPerRequest := (if sh_Count v > qs_MaxPerRequest row then sh_Count v else qs_MaxPerRequest row)\<rparr>))"

definition mergeShapes :: "(string \<times> Shape) list \<Rightarrow> (string \<times> SQLShape) list \<times> int \<Rightarrow> (string \<times> SQLShape) list \<times> int" where
  "mergeShapes shapes = (\<lambda>(row, n).
     case fold (resolveShape row) (sort_key fst shapes) ([], n) of (resolved, n') \<Rightarrow> (fold putShape resolved row, n'))"

subsection \<open>Observations\<close>

text \<open>The arguments of \<open>observeRequestWork\<close> apart from the identity.\<close>

record httpObs =
  ho_duration :: duration
  ho_bytes :: int
  ho_sqlCount :: int
  ho_tracked :: bool
  ho_shapes :: "(string \<times> Shape) list option"
  ho_work :: "Summary option"

definition clampObs :: "httpObs \<Rightarrow> httpObs" where
  "clampObs x = x\<lparr>ho_duration := (if ho_duration x < 0 then 0 else ho_duration x), ho_bytes := (if ho_bytes x < 0 then 0 else ho_bytes x),
     ho_sqlCount := (if ho_sqlCount x < 0 then 0 else ho_sqlCount x)\<rparr>"

definition addHttpTotals :: "httpObs \<Rightarrow> httpStat \<Rightarrow> httpStat" where
  "addHttpTotals x s =
     s\<lparr>hs_count := wrap64 (hs_count s + 1), hs_total := wrap64 (hs_total s + ho_duration x), hs_bytes := wrap64 (hs_bytes s + ho_bytes x),
       hs_sqlCount := (if ho_tracked x then wrap64 (hs_sqlCount s + ho_sqlCount x) else hs_sqlCount s),
       hs_sqlTrackedRequests := (if ho_tracked x then wrap64 (hs_sqlTrackedRequests s + 1) else hs_sqlTrackedRequests s),
       hs_sqlShapeTrackedRequests := (if ho_tracked x \<and> ho_shapes x \<noteq> None then wrap64 (hs_sqlShapeTrackedRequests s + 1)
                                      else hs_sqlShapeTrackedRequests s),
       hs_sqlMaxPerRequest := (if ho_tracked x \<and> ho_sqlCount x > hs_sqlMaxPerRequest s then ho_sqlCount x else hs_sqlMaxPerRequest s)\<rparr>"

definition addTiming :: "httpObs \<Rightarrow> httpStat \<Rightarrow> httpStat" where
  "addTiming x s =
     s\<lparr>hs_max := (if ho_duration x > hs_max s then ho_duration x else hs_max s),
       hs_buckets := countIn (bucketFor (ho_duration x)) (hs_buckets s)\<rparr>"

definition observeRowHttp :: "httpObs \<Rightarrow> httpStat \<times> int \<times> int \<Rightarrow> httpStat \<times> int \<times> int" where
  "observeRowHttp x = (\<lambda>(s, shapeKeys, workKeys).
     let (work, workKeys') = (case ho_work x of
           None \<Rightarrow> (hs_work s, workKeys)
         | Some w \<Rightarrow> (case mergeWork w (ho_duration x) (case hs_work s of None \<Rightarrow> zeroWork | Some dst \<Rightarrow> dst, workKeys) of
             (dst, n) \<Rightarrow> (Some dst, n)));
         s1 = addHttpTotals x (s\<lparr>hs_work := work\<rparr>);
         (shapes, shapeKeys') = mergeShapes (case ho_shapes x of None \<Rightarrow> [] | Some m \<Rightarrow> m) (hs_shapes s1, shapeKeys)
     in (addTiming x (s1\<lparr>hs_shapes := shapes\<rparr>), shapeKeys', workKeys'))"

definition reserveKey_http :: "httpTable \<Rightarrow> bool \<times> httpTable" where
  "reserveKey_http t = (if ht_keys t \<ge> ht_maxKeys t then (False, t) else (True, t\<lparr>ht_keys := wrap64 (ht_keys t + 1)\<rparr>))"

definition putHttp :: "identity \<Rightarrow> httpObs \<Rightarrow> httpTable \<Rightarrow> httpTable" where
  "putHttp ident x t =
     (let shard = ht_shards t ! shardOfId ident;
          s = (case map_of shard ident of None \<Rightarrow> zeroHttpStat | Some s \<Rightarrow> s);
          (s', shapeKeys, workKeys) = observeRowHttp x (s, ht_shapeKeys t, ht_workKeys t)
      in t\<lparr>ht_shards := (ht_shards t)[shardOfId ident := alter ident s' (\<lambda>_. s') shard], ht_shapeKeys := shapeKeys, ht_workKeys := workKeys\<rparr>)"

definition overflowIdentity :: identity where
  "overflowIdentity = \<lparr>id_method = ''*'', id_path = OverflowPath, id_protocol = ''*'', id_status = 0\<rparr>"

function observeRequestWork :: "identity \<Rightarrow> httpObs \<Rightarrow> httpTable \<Rightarrow> httpTable" where
  "observeRequestWork ident x t =
     (if map_of (ht_shards t ! shardOfId ident) ident = None \<and> id_path ident \<noteq> OverflowPath
      then (case reserveKey_http t of
              (True, t') \<Rightarrow> putHttp ident (clampObs x) t'
            | (False, t') \<Rightarrow> observeRequestWork overflowIdentity (clampObs x) t')
      else putHttp ident (clampObs x) t)"
  by pat_completeness auto

termination
  by (relation "measure (\<lambda>(ident, _). if id_path ident = OverflowPath then 0 else 1)") (auto simp: overflowIdentity_def)

declare observeRequestWork.simps [simp del]

text \<open>\<open>clear\<close> restores the key and the shape budget; the dependency budget it leaves as it is.\<close>

definition clearTable :: "httpTable \<Rightarrow> httpTable" where
  "clearTable t = t\<lparr>ht_shards := replicate numShards [], ht_keys := 0, ht_shapeKeys := 0\<rparr>"

subsection \<open>Snapshots\<close>

record httpEntry =
  he_Work :: "RequestWork option"
  he_Key :: string
  he_Method :: string
  he_Path :: string
  he_Protocol :: string
  he_Status :: int
  he_Count :: int
  he_Total :: duration
  he_Avg :: duration
  he_Max :: duration
  he_P95 :: duration
  he_TotalBytes :: int
  he_AvgBytes :: int
  he_SQLCount :: int
  he_SQLMaxPerRequest :: int
  he_SQLTrackedRequests :: int
  he_SQLShapeTrackedRequests :: int
  he_SQLShapes :: "SQLShape list"

definition displayKey :: "identity \<Rightarrow> string" where
  "displayKey ident = id_method ident @ '' '' @ id_path ident @ '' '' @ id_protocol ident @ '' '' @ show_int (id_status ident)"

definition p95_http :: "httpStat \<Rightarrow> int" where
  "p95_http s =
     (let target = wrap64 (hs_count s - hs_count s sdiv 20)
      in case rankBucket target 0 0 (hs_buckets s) of
           None \<Rightarrow> hs_max s
         | Some i \<Rightarrow> if i = 0 then 0 else if i = numBuckets - 1 then hs_max s else 2 ^ i)"

definition httpEntryOf :: "identity \<times> httpStat \<Rightarrow> httpEntry" where
  "httpEntryOf = (\<lambda>(ident, s).
     \<lparr>he_Work = map_option cloneWork (hs_work s), he_Key = displayKey ident, he_Method = id_method ident, he_Path = id_path ident,
      he_Protocol = id_protocol ident, he_Status = id_status ident, he_Count = hs_count s, he_Total = hs_total s,
      he_Avg = hs_total s sdiv hs_count s, he_Max = hs_max s, he_P95 = p95_http s, he_TotalBytes = hs_bytes s,
      he_AvgBytes = hs_bytes s sdiv hs_count s, he_SQLCount = hs_sqlCount s, he_SQLMaxPerRequest = hs_sqlMaxPerRequest s,
      he_SQLTrackedRequests = hs_sqlTrackedRequests s, he_SQLShapeTrackedRequests = hs_sqlShapeTrackedRequests s,
      he_SQLShapes = sort_key qs_Key (map snd (hs_shapes s))\<rparr>)"

definition snapshot_http :: "httpTable \<Rightarrow> httpEntry list" where
  "snapshot_http t = sort_key (\<lambda>e. (- he_Total e, he_Key e)) (map httpEntryOf (concat (ht_shards t)))"

end
