(* ===== verification/Http_Stats.thy ===== *)
theory Http_Stats
  imports Http_Table Handles Budget
begin

text \<open>
  \<open>httpstats/httpstats.go\<close> and \<open>httpstats/generation.go\<close>: measurement windows of HTTP requests. A request
  is pinned to the generation that was current when it began and is recorded there when it ends, a
  boundary swaps the current generation, and a long-lived connection leaves its generation as soon as
  it is confirmed. Generations live in a store and a pointer to one is its index; a channel that is
  only closed is a flag. Every operation runs under the collector's mutex and is one step; \<open>finish\<close> writes
  the row before it gives up the pin, so it is one step as well. The clock, \<open>ctx.Err\<close> and an expired timer are arguments.
  The averages and percentiles of connections are kept as durations; the code shows them as
  floating-point seconds.
\<close>

subsection \<open>State\<close>

definition HttpCollectorName :: string where "HttpCollectorName = ''httpstats''"
definition HttpForeignHandle :: gerr where
  "HttpForeignHandle = PlainErr ''httpstats: handle does not belong to this collector''"
definition HttpReleasedHandle :: gerr where
  "HttpReleasedHandle = PlainErr ''httpstats: handle was already released''"
definition ResetDrainBudget :: duration where "ResetDrainBudget = DrainBudget"

record ConnSnapshot =
  co_Total :: int
  co_Active :: int
  co_DurSum :: duration
  co_P95 :: duration
  co_Max :: duration
  co_BytesRead :: int
  co_BytesWritten :: int

record connTotals =
  cn_total :: int
  cn_active :: int
  cn_durSum :: duration
  cn_durMax :: duration
  cn_read :: int
  cn_wrote :: int
  cn_buckets :: "int list"

record httpResult =
  hr_HTTP :: "httpEntry list"
  hr_Connections :: ConnSnapshot

record httpGeneration =
  gn_gen :: nat
  gn_table :: httpTable
  gn_inFlight :: int
  gn_sealed :: bool
  gn_released :: bool
  gn_conn :: ConnSnapshot
  gn_done :: bool

record boundaryMemo =
  bm_runID :: string
  bm_epoch :: epoch
  bm_result :: BoundaryResult

record httpCollector =
  kc_self :: string
  kc_maxKeys :: int
  kc_gens :: "httpGeneration list"
  kc_current :: nat
  kc_next :: nat
  kc_epoch :: epoch
  kc_begun :: "boundaryMemo option"
  kc_frozen :: "boundaryMemo option"
  kc_resetBudget :: duration
  kc_resetsCutShort :: int
  kc_conn :: connTotals

subsection \<open>Connections\<close>

definition zeroTotals :: "int \<Rightarrow> connTotals" where
  "zeroTotals n = \<lparr>cn_total = 0, cn_active = n, cn_durSum = 0, cn_durMax = 0, cn_read = 0, cn_wrote = 0, cn_buckets = replicate 64 0\<rparr>"

definition zeroConn :: ConnSnapshot where
  "zeroConn = \<lparr>co_Total = 0, co_Active = 0, co_DurSum = 0, co_P95 = 0, co_Max = 0, co_BytesRead = 0, co_BytesWritten = 0\<rparr>"

definition connP95 :: "connTotals \<Rightarrow> duration" where
  "connP95 c =
     (if cn_total c > 0 then
        (case rankBucket (wrap64 (wrap64 (cn_total c * 95) + 99) sdiv 100) 0 0 (cn_buckets c) of
           None \<Rightarrow> 0
         | Some b \<Rightarrow> if b = 0 then 0 else if b = 63 then cn_durMax c else if 2 ^ b > cn_durMax c then cn_durMax c else 2 ^ b)
      else 0)"

definition connectionsLocked :: "connTotals \<Rightarrow> ConnSnapshot" where
  "connectionsLocked c =
     \<lparr>co_Total = cn_total c, co_Active = cn_active c, co_DurSum = cn_durSum c, co_P95 = connP95 c, co_Max = cn_durMax c,
      co_BytesRead = cn_read c, co_BytesWritten = cn_wrote c\<rparr>"

definition connStart :: "connTotals \<Rightarrow> connTotals" where
  "connStart c = c\<lparr>cn_active := wrap64 (cn_active c + 1)\<rparr>"

definition connBucket :: "duration \<Rightarrow> nat" where
  "connBucket d = (let b = bits_Len (unat (word_of_int (max d 0) :: 64 word)) in if b \<ge> 64 then 63 else b)"

definition connFinish :: "duration \<Rightarrow> int \<Rightarrow> int \<Rightarrow> connTotals \<Rightarrow> connTotals" where
  "connFinish d bytesRead bytesWritten c =
     c\<lparr>cn_active := wrap64 (cn_active c - 1), cn_total := wrap64 (cn_total c + 1), cn_durSum := wrap64 (cn_durSum c + d),
       cn_buckets := countIn (connBucket d) (cn_buckets c), cn_read := wrap64 (cn_read c + bytesRead),
       cn_wrote := wrap64 (cn_wrote c + bytesWritten), cn_durMax := (if d > cn_durMax c then d else cn_durMax c)\<rparr>"

definition takeConn :: "connTotals \<Rightarrow> ConnSnapshot \<times> connTotals" where
  "takeConn c = (connectionsLocked c, zeroTotals (cn_active c))"

subsection \<open>Generations\<close>

definition settleHttp :: "httpGeneration \<Rightarrow> httpGeneration" where
  "settleHttp g = (if \<not> gn_sealed g \<or> gn_inFlight g \<noteq> 0 then g else g\<lparr>gn_done := True\<rparr>)"

definition sealHttp :: "httpGeneration \<Rightarrow> httpGeneration" where
  "sealHttp g = settleHttp (g\<lparr>gn_sealed := True\<rparr>)"

definition newHttpGeneration :: "httpCollector \<Rightarrow> httpGeneration" where
  "newHttpGeneration c = \<lparr>gn_gen = kc_next c, gn_table = newTable_http (kc_maxKeys c), gn_inFlight = 0, gn_sealed = False,
     gn_released = False, gn_conn = zeroConn, gn_done = False\<rparr>"

definition updGen :: "nat \<Rightarrow> (httpGeneration \<Rightarrow> httpGeneration) \<Rightarrow> httpCollector \<Rightarrow> httpCollector" where
  "updGen g f c = c\<lparr>kc_gens := (kc_gens c)[g := f (kc_gens c ! g)]\<rparr>"

definition NewHttp :: "string \<Rightarrow> int \<Rightarrow> httpCollector" where
  "NewHttp self maxKeys =
     (let c = \<lparr>kc_self = self, kc_maxKeys = maxKeys, kc_gens = [], kc_current = 0, kc_next = 0, kc_epoch = 0, kc_begun = None,
               kc_frozen = None, kc_resetBudget = 0, kc_resetsCutShort = 0, kc_conn = zeroTotals 0\<rparr>
      in c\<lparr>kc_gens := [newHttpGeneration c], kc_next := 1\<rparr>)"

definition swapLocked :: "httpCollector \<Rightarrow> nat \<times> httpCollector" where
  "swapLocked c =
     (let old = kc_current c;
          (conn, totals) = takeConn (kc_conn c);
          c1 = c\<lparr>kc_gens := kc_gens c @ [newHttpGeneration c], kc_current := length (kc_gens c),
                 kc_next := (kc_next c + 1) mod 2 ^ 64, kc_conn := totals\<rparr>
      in (old, updGen old (\<lambda>g. sealHttp (g\<lparr>gn_conn := conn\<rparr>)) c1))"

definition beginHttp :: "httpCollector \<Rightarrow> nat \<times> httpCollector" where
  "beginHttp c = (kc_current c, updGen (kc_current c) (\<lambda>g. g\<lparr>gn_inFlight := gn_inFlight g + 1\<rparr>) c)"

definition releasePin :: "nat \<Rightarrow> httpCollector \<Rightarrow> httpCollector" where
  "releasePin g c = updGen g (\<lambda>s. settleHttp (s\<lparr>gn_inFlight := gn_inFlight s - 1\<rparr>)) c"

definition finishHttp :: "nat \<Rightarrow> identity \<Rightarrow> httpObs \<Rightarrow> httpCollector \<Rightarrow> httpCollector" where
  "finishHttp g ident x c = releasePin g (updGen g (\<lambda>s. s\<lparr>gn_table := observeRequestWork ident x (gn_table s)\<rparr>) c)"

subsection \<open>Boundaries and handles\<close>

definition memoOf :: "Phase \<Rightarrow> httpCollector \<Rightarrow> boundaryMemo option" where
  "memoOf phase c = (if phase = PhaseStartBoundary then kc_begun c else kc_frozen c)"

definition setMemo :: "Phase \<Rightarrow> boundaryMemo \<Rightarrow> httpCollector \<Rightarrow> httpCollector" where
  "setMemo phase m c = (if phase = PhaseStartBoundary then c\<lparr>kc_begun := Some m\<rparr> else c\<lparr>kc_frozen := Some m\<rparr>)"

definition httpBoundaryFresh :: "gotime \<Rightarrow> string \<Rightarrow> epoch \<Rightarrow> Phase \<Rightarrow> httpCollector \<Rightarrow> BoundaryResult \<times> httpCollector" where
  "httpBoundaryFresh now runID ep phase c =
     (let (old, c1) = swapLocked c;
          res = \<lparr>br_Handle = NewGenerationHandle runID ep HttpCollectorName (gn_gen (kc_gens c1 ! old)) (Token (kc_self c) old),
                 br_At = now, br_Committed = True\<rparr>
      in (res, setMemo phase \<lparr>bm_runID = runID, bm_epoch = ep, bm_result = res\<rparr> (c1\<lparr>kc_epoch := ep\<rparr>)))"

definition replays :: "string \<Rightarrow> epoch \<Rightarrow> boundaryMemo option \<Rightarrow> BoundaryResult option" where
  "replays runID ep memo =
     (case memo of Some m \<Rightarrow> if bm_runID m = runID \<and> bm_epoch m = ep then Some (bm_result m) else None | None \<Rightarrow> None)"

definition httpBoundary ::
  "gerr option \<Rightarrow> gotime \<Rightarrow> string \<Rightarrow> epoch \<Rightarrow> Phase \<Rightarrow> httpCollector \<Rightarrow> (BoundaryResult \<times> gerr option) \<times> httpCollector" where
  "httpBoundary ctxErr now runID ep phase c =
     (case replays runID ep (memoOf phase c) of
        Some res \<Rightarrow> ((res, None), c)
      | None \<Rightarrow>
          if ep < kc_epoch c then
            ((zeroBoundaryResult\<lparr>br_At := now\<rparr>,
              Some (WrapErr (''httpstats: epoch '' @ show_nat ep @ '' is behind '' @ show_nat (kc_epoch c) @ '': '') ErrStaleEpoch [])), c)
          else (case ctxErr of
                  Some e \<Rightarrow> ((zeroBoundaryResult\<lparr>br_At := now\<rparr>, Some (WrapErr (''httpstats: boundary for run '' @ runID @ '': '') e [])), c)
                | None \<Rightarrow> (case httpBoundaryFresh now runID ep phase c of (res, c') \<Rightarrow> ((res, None), c'))))"

definition BeginHttpBoundary where
  "BeginHttpBoundary ctxErr now runID ep = httpBoundary ctxErr now runID ep PhaseStartBoundary"

definition FreezeHttp where
  "FreezeHttp ctxErr now runID ep = httpBoundary ctxErr now runID ep PhaseFinishFreeze"

definition generationOf :: "httpCollector \<Rightarrow> GenerationHandle \<Rightarrow> gerr + nat" where
  "generationOf c h =
     (case resolveToken (kc_self c) (kc_gens c) h of
        Some g \<Rightarrow> Inr g
      | None \<Rightarrow> Inl (WrapErr [] HttpForeignHandle ('': collector '' @ strconv_Quote (gh_Collector h) @ '' gen '' @ show_nat (gh_Gen h))))"

text \<open>\<open>None\<close> is a drain that is still waiting.\<close>

definition httpDrain :: "gerr option \<Rightarrow> GenerationHandle \<Rightarrow> httpCollector \<Rightarrow> gerr option option" where
  "httpDrain ctxErr h c =
     (case generationOf c h of
        Inl e \<Rightarrow> Some (Some e)
      | Inr g \<Rightarrow> if gn_done (kc_gens c ! g) then Some None else (case ctxErr of Some e \<Rightarrow> Some (Some e) | None \<Rightarrow> None))"

definition httpCollect :: "GenerationHandle \<Rightarrow> httpCollector \<Rightarrow> gerr + httpResult" where
  "httpCollect h c =
     (case generationOf c h of
        Inl e \<Rightarrow> Inl e
      | Inr g \<Rightarrow>
          (let s = kc_gens c ! g in
           if gn_released s then Inl (WrapErr [] HttpReleasedHandle ('': gen '' @ show_nat (gn_gen s)))
           else Inr \<lparr>hr_HTTP = snapshot_http (gn_table s), hr_Connections = gn_conn s\<rparr>))"

definition httpRelease :: "GenerationHandle \<Rightarrow> httpCollector \<Rightarrow> httpCollector" where
  "httpRelease h c =
     (case generationOf c h of
        Inl e \<Rightarrow> c
      | Inr g \<Rightarrow> if gn_released (kc_gens c ! g) then c
                 else updGen g (\<lambda>s. s\<lparr>gn_released := True, gn_table := clearTable (gn_table s)\<rparr>) c)"

text \<open>\<open>Reset\<close> swaps, then waits; \<open>resetFinish\<close> is where the wait ends, on the settled generation or on the timer.\<close>

definition resetSwap :: "httpCollector \<Rightarrow> nat \<times> httpCollector" where
  "resetSwap c = swapLocked c"

definition resetWait :: "httpCollector \<Rightarrow> duration" where
  "resetWait c = (if kc_resetBudget c \<le> 0 then ResetDrainBudget else kc_resetBudget c)"

definition resetFinish :: "nat \<Rightarrow> bool \<Rightarrow> httpCollector \<Rightarrow> (httpEntry list \<times> httpCollector) option" where
  "resetFinish old expired c =
     (let s = kc_gens c ! old in
      if gn_done s then Some (snapshot_http (gn_table s), c)
      else if expired then Some (snapshot_http (gn_table s), c\<lparr>kc_resetsCutShort := wrap64 (kc_resetsCutShort c + 1)\<rparr>)
      else None)"

definition SetResetDrainBudget :: "duration \<Rightarrow> httpCollector \<Rightarrow> httpCollector" where
  "SetResetDrainBudget budget c = c\<lparr>kc_resetBudget := budget\<rparr>"

definition SnapshotHttp :: "httpCollector \<Rightarrow> httpEntry list" where
  "SnapshotHttp c = snapshot_http (gn_table (kc_gens c ! kc_current c))"

definition Connections :: "httpCollector \<Rightarrow> ConnSnapshot" where
  "Connections c = connectionsLocked (kc_conn c)"

subsection \<open>Long-lived connections\<close>

text \<open>
  The one-way change of a request into a long-lived connection. \<open>start\<close> counts the connection and gives up the pin;
  whoever ends it first, the handler or the hijacked connection, records it.
\<close>

record connectionTracker =
  ct_generation :: nat
  ct_started :: gotime
  ct_long :: bool
  ct_hijacked :: bool
  ct_finished :: bool

definition trackerStart :: "bool \<Rightarrow> connectionTracker \<times> httpCollector \<Rightarrow> connectionTracker \<times> httpCollector" where
  "trackerStart hijacked = (\<lambda>(t, c).
     if ct_long t then (if hijacked then t\<lparr>ct_hijacked := True\<rparr> else t, c)
     else (t\<lparr>ct_long := True, ct_hijacked := hijacked\<rparr>, releasePin (ct_generation t) (c\<lparr>kc_conn := connStart (kc_conn c)\<rparr>)))"

definition finishTracker :: "gotime \<Rightarrow> int \<Rightarrow> int \<Rightarrow> connectionTracker \<times> httpCollector \<Rightarrow> connectionTracker \<times> httpCollector" where
  "finishTracker now bytesRead bytesWritten = (\<lambda>(t, c).
     (t\<lparr>ct_finished := True\<rparr>, c\<lparr>kc_conn := connFinish (time_Sub now (ct_started t)) bytesRead bytesWritten (kc_conn c)\<rparr>))"

definition finishHandler :: "gotime \<Rightarrow> int \<Rightarrow> connectionTracker \<times> httpCollector \<Rightarrow> bool \<times> connectionTracker \<times> httpCollector" where
  "finishHandler now bytesWritten = (\<lambda>(t, c).
     if \<not> ct_long t then (False, t, c)
     else if ct_hijacked t \<or> ct_finished t then (True, t, c)
     else (True, finishTracker now 0 bytesWritten (t, c)))"

definition finishHijacked :: "gotime \<Rightarrow> int \<Rightarrow> int \<Rightarrow> connectionTracker \<times> httpCollector \<Rightarrow> connectionTracker \<times> httpCollector" where
  "finishHijacked now bytesRead bytesWritten = (\<lambda>(t, c).
     if ct_finished t then (t, c) else finishTracker now bytesRead bytesWritten (t, c))"

record trackedConn =
  tk_read :: int
  tk_wrote :: int
  tk_closed :: bool

definition connRead :: "int \<Rightarrow> trackedConn \<Rightarrow> trackedConn" where
  "connRead n k = k\<lparr>tk_read := wrap64 (tk_read k + n)\<rparr>"

definition connWrite :: "int \<Rightarrow> trackedConn \<Rightarrow> trackedConn" where
  "connWrite n k = k\<lparr>tk_wrote := wrap64 (tk_wrote k + n)\<rparr>"

definition connClose ::
  "gotime \<Rightarrow> trackedConn \<times> connectionTracker \<times> httpCollector \<Rightarrow> trackedConn \<times> connectionTracker \<times> httpCollector" where
  "connClose now = (\<lambda>(k, s).
     if tk_closed k then (k, s) else (k\<lparr>tk_closed := True\<rparr>, finishHijacked now (tk_read k) (tk_wrote k) s))"

subsection \<open>The middleware\<close>

text \<open>
  The measured handler: \<open>onCommit\<close> runs when the response header is written, \<open>onHijack\<close> when the connection is
  taken over, and the deferred function when the handler returns or panics. What the response writer captured and what the
  request-local counters closed with are arguments.
\<close>

record handlerEnd =
  en_panicked :: bool
  en_status :: int
  en_eventStream :: bool
  en_bytes :: int
  en_method :: string
  en_path :: string
  en_proto :: string
  en_sqlCount :: int
  en_sqlShapes :: "(string \<times> Shape) list option"
  en_work :: "Summary option"

definition onCommit :: "int \<Rightarrow> bool \<Rightarrow> connectionTracker \<times> httpCollector \<Rightarrow> connectionTracker \<times> httpCollector" where
  "onCommit status eventStream s = (if status = 101 \<or> eventStream then trackerStart False s else s)"

definition onHijack :: "connectionTracker \<times> httpCollector \<Rightarrow> trackedConn \<times> connectionTracker \<times> httpCollector" where
  "onHijack s = (\<lparr>tk_read = 0, tk_wrote = 0, tk_closed = False\<rparr>, trackerStart True s)"

definition finalStatus :: "handlerEnd \<Rightarrow> int" where
  "finalStatus e = (if en_status e = 0 then if en_panicked e then 500 else 200 else en_status e)"

definition requestRow :: "gotime \<Rightarrow> gotime \<Rightarrow> handlerEnd \<Rightarrow> identity \<times> httpObs" where
  "requestRow start finishedAt e =
     (\<lparr>id_method = en_method e, id_path = en_path e, id_protocol = en_proto e, id_status = finalStatus e\<rparr>,
      \<lparr>ho_duration = time_Sub finishedAt start, ho_bytes = en_bytes e, ho_sqlCount = en_sqlCount e, ho_tracked = True,
       ho_shapes = en_sqlShapes e, ho_work = en_work e\<rparr>)"

definition handlerDeferred ::
  "gotime \<Rightarrow> handlerEnd \<Rightarrow> connectionTracker \<times> httpCollector \<Rightarrow> (identity \<times> httpObs) option \<times> connectionTracker \<times> httpCollector" where
  "handlerDeferred finishedAt e s =
     (case finishHandler finishedAt (en_bytes e) (if en_eventStream e then trackerStart False s else s) of
        (True, s') \<Rightarrow> (None, s')
      | (False, t, c) \<Rightarrow> (case requestRow (ct_started t) finishedAt e of
          (ident, x) \<Rightarrow> (Some (ident, x), t, finishHttp (ct_generation t) ident x c)))"

end
