(* ===== verification/Http_Windows.thy ===== *)
theory Http_Windows
  imports Http_Stats
begin

text \<open>
  The HTTP collector with the requests it measures: requests begin, commit, are hijacked and end while boundaries, resets and releases
  happen, in any order. The section of a run holds exactly the requests that began between its two
  boundaries, and draining it waits for exactly the ones that still run.
\<close>

subsection \<open>The collector and its requests\<close>

record httpRequest =
  rq_tracker :: connectionTracker
  rq_conn :: "trackedConn option"
  rq_ended :: bool

text \<open>The log holds, per finished request, its number, identity and observation, in the order in which they were recorded.\<close>

record httpWorld =
  hw_col :: httpCollector
  hw_reqs :: "httpRequest list"
  hw_log :: "(nat \<times> identity \<times> httpObs) list"

datatype httpOp =
    HBegin gotime
  | HCommit nat int bool
  | HHijack nat
  | HRead nat int
  | HWrite nat int
  | HClose nat gotime
  | HEnd nat gotime handlerEnd
  | HBoundary "gerr option" gotime string epoch Phase
  | HRelease GenerationHandle
  | HReset
  | HCutShort nat bool

definition running :: "nat \<Rightarrow> httpWorld \<Rightarrow> bool" where
  "running i w \<longleftrightarrow> i < length (hw_reqs w) \<and> \<not> rq_ended (hw_reqs w ! i)"

text \<open>A step of request \<open>i\<close> on its tracker and the collector.\<close>

definition onTracker :: "nat \<Rightarrow> (connectionTracker \<times> httpCollector \<Rightarrow> connectionTracker \<times> httpCollector) \<Rightarrow> httpWorld \<Rightarrow> httpWorld" where
  "onTracker i f w =
     (case f (rq_tracker (hw_reqs w ! i), hw_col w) of
        (t, c) \<Rightarrow> w\<lparr>hw_col := c, hw_reqs := (hw_reqs w)[i := (hw_reqs w ! i)\<lparr>rq_tracker := t\<rparr>]\<rparr>)"

definition onConn :: "nat \<Rightarrow> (trackedConn \<Rightarrow> trackedConn) \<Rightarrow> httpWorld \<Rightarrow> httpWorld" where
  "onConn i f w = w\<lparr>hw_reqs := (hw_reqs w)[i := (hw_reqs w ! i)\<lparr>rq_conn := map_option f (rq_conn (hw_reqs w ! i))\<rparr>]\<rparr>"

fun httpExec :: "httpOp \<Rightarrow> httpWorld \<Rightarrow> httpWorld" where
  "httpExec (HBegin now) w =
     (case beginHttp (hw_col w) of
        (g, c) \<Rightarrow> w\<lparr>hw_col := c, hw_reqs := hw_reqs w @
          [\<lparr>rq_tracker = \<lparr>ct_generation = g, ct_started = now, ct_long = False, ct_hijacked = False, ct_finished = False\<rparr>,
            rq_conn = None, rq_ended = False\<rparr>]\<rparr>)"
| "httpExec (HCommit i status eventStream) w = (if running i w then onTracker i (onCommit status eventStream) w else w)"
| "httpExec (HHijack i) w =
     (if running i w \<and> rq_conn (hw_reqs w ! i) = None
      then (let w' = onTracker i (\<lambda>s. snd (onHijack s)) w; k = fst (onHijack (rq_tracker (hw_reqs w ! i), hw_col w))
            in w'\<lparr>hw_reqs := (hw_reqs w')[i := (hw_reqs w' ! i)\<lparr>rq_conn := Some k\<rparr>]\<rparr>)
      else w)"
| "httpExec (HRead i n) w = (if i < length (hw_reqs w) then onConn i (connRead n) w else w)"
| "httpExec (HWrite i n) w = (if i < length (hw_reqs w) then onConn i (connWrite n) w else w)"
| "httpExec (HClose i now) w =
     (if i < length (hw_reqs w)
      then (case rq_conn (hw_reqs w ! i) of
              None \<Rightarrow> w
            | Some k \<Rightarrow> onConn i (\<lambda>k. fst (connClose now (k, rq_tracker (hw_reqs w ! i), hw_col w)))
                          (onTracker i (\<lambda>s. snd (connClose now (k, s))) w))
      else w)"
| "httpExec (HEnd i now e) w =
     (if running i w
      then (let w' = onTracker i (\<lambda>s. snd (handlerDeferred now e s)) w;
                row = fst (handlerDeferred now e (rq_tracker (hw_reqs w ! i), hw_col w))
            in w'\<lparr>hw_reqs := (hw_reqs w')[i := (hw_reqs w' ! i)\<lparr>rq_ended := True\<rparr>],
                  hw_log := hw_log w' @ (case row of None \<Rightarrow> [] | Some r \<Rightarrow> [(i, r)])\<rparr>)
      else w)"
| "httpExec (HBoundary ctxErr now runID ep phase) w = w\<lparr>hw_col := snd (httpBoundary ctxErr now runID ep phase (hw_col w))\<rparr>"
| "httpExec (HRelease h) w = w\<lparr>hw_col := httpRelease h (hw_col w)\<rparr>"
| "httpExec HReset w = w\<lparr>hw_col := snd (resetSwap (hw_col w))\<rparr>"
| "httpExec (HCutShort old expired) w =
     w\<lparr>hw_col := (case resetFinish old expired (hw_col w) of None \<Rightarrow> hw_col w | Some (rows, c) \<Rightarrow> c)\<rparr>"

definition newWorld :: "string \<Rightarrow> int \<Rightarrow> httpWorld" where
  "newWorld self maxKeys = \<lparr>hw_col = NewHttp self maxKeys, hw_reqs = [], hw_log = []\<rparr>"

subsection \<open>The invariant\<close>

abbreviation pinOf :: "httpRequest \<Rightarrow> nat" where
  "pinOf r \<equiv> ct_generation (rq_tracker r)"

definition pinned :: "httpRequest \<Rightarrow> bool" where
  "pinned r \<longleftrightarrow> \<not> rq_ended r \<and> \<not> ct_long (rq_tracker r)"

definition pinsTo :: "nat \<Rightarrow> httpRequest list \<Rightarrow> nat" where
  "pinsTo g reqs = length (filter (\<lambda>r. pinOf r = g \<and> pinned r) reqs)"

definition rowsIn :: "nat \<Rightarrow> httpRequest list \<Rightarrow> (nat \<times> identity \<times> httpObs) list \<Rightarrow> (identity \<times> httpObs) list" where
  "rowsIn g reqs rows = map snd (filter (\<lambda>(j, row). pinOf (reqs ! j) = g) rows)"

abbreviation observeAll :: "(identity \<times> httpObs) list \<Rightarrow> httpTable \<Rightarrow> httpTable" where
  "observeAll rows \<equiv> fold (\<lambda>(ident, x). observeRequestWork ident x) rows"

definition genOk :: "httpCollector \<Rightarrow> httpRequest list \<Rightarrow> (nat \<times> identity \<times> httpObs) list \<Rightarrow> nat \<Rightarrow> bool" where
  "genOk c reqs rows i \<longleftrightarrow>
     (let g = kc_gens c ! i in
      gn_sealed g = (i \<noteq> kc_current c) \<and> gn_inFlight g = int (pinsTo i reqs) \<and> gn_done g = (gn_sealed g \<and> gn_inFlight g = 0) \<and>
      (gn_released g \<or> gn_table g = observeAll (rowsIn i reqs rows) (newTable_http (kc_maxKeys c))))"

definition core_inv :: "httpCollector \<Rightarrow> httpRequest list \<Rightarrow> (nat \<times> identity \<times> httpObs) list \<Rightarrow> bool" where
  "core_inv c reqs rows \<longleftrightarrow> length (kc_gens c) = Suc (kc_current c) \<and> (\<forall>i \<le> kc_current c. genOk c reqs rows i) \<and>
     (\<forall>r \<in> set reqs. pinOf r \<le> kc_current c) \<and> (\<forall>(j, row) \<in> set rows. j < length reqs)"

lemma length_filter_update:
  "i < length xs \<Longrightarrow> int (length (filter P (xs[i := r]))) = int (length (filter P xs)) - of_bool (P (xs ! i)) + of_bool (P r)"
proof (induction xs arbitrary: i)
  case (Cons q xs)
  then show ?case by (cases i) (simp_all del: of_bool_eq_0_iff)
qed simp

lemma pinsTo_update:
  assumes "i < length reqs"
  shows "int (pinsTo g (reqs[i := r])) =
    int (pinsTo g reqs) - of_bool (pinOf (reqs ! i) = g \<and> pinned (reqs ! i)) + of_bool (pinOf r = g \<and> pinned r)"
  unfolding pinsTo_def by (rule length_filter_update [OF assms])

lemma rowsIn_update: "pinOf r = pinOf (reqs ! i) \<Longrightarrow> rowsIn g (reqs[i := r]) rows = rowsIn g reqs rows"
proof -
  assume "pinOf r = pinOf (reqs ! i)"
  then have "pinOf (reqs[i := r] ! j) = pinOf (reqs ! j)" for j
    by (cases "i < length reqs") (auto simp: nth_list_update list_update_beyond)
  then show ?thesis by (simp add: rowsIn_def)
qed

lemma core_inv_conn [simp]: "core_inv (c\<lparr>kc_conn := x\<rparr>) reqs rows = core_inv c reqs rows"
  by (simp add: core_inv_def genOk_def)

lemma core_inv_same_pins:
  assumes "core_inv c reqs rows" and "i < length reqs" and "pinOf r = pinOf (reqs ! i)" and "pinned r = pinned (reqs ! i)"
  shows "core_inv c (reqs[i := r]) rows"
proof -
  have "pinsTo g (reqs[i := r]) = pinsTo g reqs" for g using pinsTo_update [OF assms(2), of g r] assms(3,4) by auto
  moreover have "\<forall>q \<in> set (reqs[i := r]). pinOf q \<le> kc_current c"
    using assms by (auto simp: core_inv_def dest!: set_update_subset_insert [THEN subsetD])
  ultimately show ?thesis using assms(1) by (simp add: core_inv_def genOk_def rowsIn_update [OF assms(3)])
qed

text \<open>A request gives up its pin, recording a row or not.\<close>

definition unpin :: "nat \<Rightarrow> (identity \<times> httpObs) list \<Rightarrow> httpCollector \<Rightarrow> httpCollector" where
  "unpin g rows c = releasePin g (updGen g (\<lambda>s. s\<lparr>gn_table := observeAll rows (gn_table s)\<rparr>) c)"

lemma unpin_gens:
  "kc_gens (unpin g rows c) = (kc_gens c)[g := settleHttp ((kc_gens c ! g)\<lparr>gn_table := observeAll rows (gn_table (kc_gens c ! g)),
     gn_inFlight := gn_inFlight (kc_gens c ! g) - 1\<rparr>)]"
  "kc_current (unpin g rows c) = kc_current c" "kc_maxKeys (unpin g rows c) = kc_maxKeys c"
  "kc_conn (unpin g rows c) = kc_conn c" "kc_self (unpin g rows c) = kc_self c" "kc_epoch (unpin g rows c) = kc_epoch c"
  "kc_begun (unpin g rows c) = kc_begun c" "kc_frozen (unpin g rows c) = kc_frozen c"
  by (cases "g < length (kc_gens c)"; simp add: unpin_def releasePin_def updGen_def list_update_beyond)+

lemma genOk_unpinned:
  assumes "genOk c reqs rows j" and "i < length reqs" and "pinned (reqs ! i)" and "pinOf r = pinOf (reqs ! i)" and "\<not> pinned r"
    and "j < length (kc_gens c)" and "\<forall>(k, row) \<in> set rs. k = i"
  shows "genOk (unpin (pinOf (reqs ! i)) (map snd rs) c) (reqs[i := r]) (rows @ rs) j"
proof -
  have gen: "pinOf (reqs[i := r] ! k) = pinOf (reqs ! i)" if "(k, row) \<in> set rs" for k row
    using that assms(2,4,7) by auto
  have "filter (\<lambda>(k, row). pinOf (reqs[i := r] ! k) = j) rs = (if pinOf (reqs ! i) = j then rs else [])"
    using gen by (auto simp: filter_empty_conv filter_id_conv)
  then have rows: "rowsIn j (reqs[i := r]) (rows @ rs) = rowsIn j reqs rows @ (if pinOf (reqs ! i) = j then map snd rs else [])"
    using rowsIn_update [OF assms(4), of j rows] by (simp add: rowsIn_def)
  have pins: "int (pinsTo j (reqs[i := r])) = int (pinsTo j reqs) - of_bool (pinOf (reqs ! i) = j)"
    using pinsTo_update [OF assms(2), of j r] assms(3,5) by simp
  show ?thesis
    using assms(1,6) rows pins
    by (cases "pinOf (reqs ! i) = j") (auto simp: genOk_def unpin_gens settleHttp_def Let_def)
qed

lemma core_inv_unpinned:
  assumes "core_inv c reqs rows" and "i < length reqs" and "pinned (reqs ! i)" and "pinOf r = pinOf (reqs ! i)" and "\<not> pinned r"
    and "\<forall>(k, row) \<in> set rs. k = i"
  shows "core_inv (unpin (pinOf (reqs ! i)) (map snd rs) c) (reqs[i := r]) (rows @ rs)"
proof -
  have "genOk (unpin (pinOf (reqs ! i)) (map snd rs) c) (reqs[i := r]) (rows @ rs) j" if "j \<le> kc_current c" for j
    using assms that by (intro genOk_unpinned) (auto simp: core_inv_def)
  moreover have "\<forall>q \<in> set (reqs[i := r]). pinOf q \<le> kc_current c"
    using assms by (auto simp: core_inv_def dest!: set_update_subset_insert [THEN subsetD])
  moreover have "\<forall>(k, row) \<in> set rs. k < length reqs" using assms(2,6) by auto
  ultimately show ?thesis using assms(1) by (auto simp: core_inv_def unpin_gens)
qed

text \<open>Connections: the active ones are the open ones, and \<open>n\<close> of the finished ones were taken by earlier windows.\<close>

definition openConn :: "connectionTracker \<Rightarrow> bool" where
  "openConn t \<longleftrightarrow> ct_long t \<and> \<not> ct_finished t"

definition openCount :: "httpRequest list \<Rightarrow> int" where
  "openCount reqs = int (length (filter (\<lambda>r. openConn (rq_tracker r)) reqs))"

definition finishedCount :: "httpRequest list \<Rightarrow> int" where
  "finishedCount reqs = int (length (filter (\<lambda>r. ct_finished (rq_tracker r)) reqs))"

definition conn_inv :: "int \<Rightarrow> httpCollector \<Rightarrow> httpRequest list \<Rightarrow> bool" where
  "conn_inv n c reqs \<longleftrightarrow> cn_active (kc_conn c) = wrap64 (openCount reqs) \<and> cn_total (kc_conn c) = wrap64 (finishedCount reqs - n) \<and>
     (\<forall>r \<in> set reqs. rq_conn r \<noteq> None \<or> ct_finished (rq_tracker r) \<longrightarrow> ct_long (rq_tracker r))"

definition memo_inv :: "httpCollector \<Rightarrow> bool" where
  "memo_inv c \<longleftrightarrow> (\<forall>m. kc_begun c = Some m \<or> kc_frozen c = Some m \<longrightarrow> bm_epoch m \<le> kc_epoch c)"

definition http_world :: "int \<Rightarrow> httpWorld \<Rightarrow> bool" where
  "http_world n w \<longleftrightarrow> core_inv (hw_col w) (hw_reqs w) (hw_log w) \<and> conn_inv n (hw_col w) (hw_reqs w) \<and> memo_inv (hw_col w)"

text \<open>What a tracker step does to the collector's connection totals.\<close>

definition connStep :: "connectionTracker \<times> httpCollector \<Rightarrow> connectionTracker \<times> httpCollector \<Rightarrow> bool" where
  "connStep = (\<lambda>(t, c) (t', c').
     ct_generation t' = ct_generation t \<and> (ct_long t \<or> ct_finished t' \<longrightarrow> ct_long t') \<and>
     cn_active (kc_conn c') = wrap64 (cn_active (kc_conn c) - of_bool (openConn t) + of_bool (openConn t')) \<and>
     cn_total (kc_conn c') = wrap64 (cn_total (kc_conn c) - of_bool (ct_finished t) + of_bool (ct_finished t')) \<and>
     kc_epoch c' = kc_epoch c \<and> kc_begun c' = kc_begun c \<and> kc_frozen c' = kc_frozen c)"

lemma conn_inv_step:
  assumes "conn_inv n c reqs" and "i < length reqs" and "connStep (rq_tracker (reqs ! i), c) (rq_tracker r, c')"
    and "rq_conn r \<noteq> None \<Longrightarrow> ct_long (rq_tracker r)"
  shows "conn_inv n c' (reqs[i := r])"
proof -
  let ?o = "\<lambda>r. openConn (rq_tracker r)" and ?f = "\<lambda>r. ct_finished (rq_tracker r)"
  have counts: "openCount (reqs[i := r]) = openCount reqs - of_bool (?o (reqs ! i)) + of_bool (?o r)"
    "finishedCount (reqs[i := r]) = finishedCount reqs - of_bool (?f (reqs ! i)) + of_bool (?f r)"
    unfolding openCount_def finishedCount_def by (rule length_filter_update [OF assms(2)])+
  have w: "wrap64 (wrap64 a - b + d) = wrap64 (a - b + d)" for a b d
    using wrap64_add [of a "- b + d"] by (simp add: algebra_simps)
  have "cn_active (kc_conn c') = wrap64 (wrap64 (openCount reqs) - of_bool (?o (reqs ! i)) + of_bool (?o r))"
    "cn_total (kc_conn c') = wrap64 (wrap64 (finishedCount reqs - n) - of_bool (?f (reqs ! i)) + of_bool (?f r))"
    using assms(1,3) by (simp_all add: conn_inv_def connStep_def)
  then have "cn_active (kc_conn c') = wrap64 (openCount (reqs[i := r]))" "cn_total (kc_conn c') = wrap64 (finishedCount (reqs[i := r]) - n)"
    unfolding w counts by (simp_all add: algebra_simps)
  moreover have "\<forall>q \<in> set (reqs[i := r]). rq_conn q \<noteq> None \<or> ct_finished (rq_tracker q) \<longrightarrow> ct_long (rq_tracker q)"
    using assms by (auto simp: conn_inv_def connStep_def dest!: set_update_subset_insert [THEN subsetD])
  ultimately show ?thesis by (simp add: conn_inv_def)
qed

lemma memo_inv_step: "memo_inv c \<Longrightarrow> connStep (t, c) (t', c') \<Longrightarrow> memo_inv c'"
  by (simp add: memo_inv_def connStep_def)

lemma releasePin_unpin: "releasePin g c = unpin g [] c" "finishHttp g ident x c = unpin g [(ident, x)] c"
  by (simp_all add: unpin_def finishHttp_def updGen_def)

lemma active_wraps: "conn_inv n c reqs \<Longrightarrow> wrap64 (cn_active (kc_conn c)) = cn_active (kc_conn c) \<and> wrap64 (cn_total (kc_conn c)) = cn_total (kc_conn c)"
  using wrap64_add [of _ 0] by (simp add: conn_inv_def)

lemma connStep_refl:
  assumes "conn_inv n c reqs" and "ct_generation t' = ct_generation t" and "ct_long t' = ct_long t" and "ct_finished t' = ct_finished t"
    and "ct_finished t \<Longrightarrow> ct_long t"
  shows "connStep (t, c) (t', c)"
  using assms active_wraps [OF assms(1)] by (simp add: connStep_def openConn_def)

lemma connStep_start:
  assumes "conn_inv n c reqs" and "ct_finished t \<Longrightarrow> ct_long t"
  shows "connStep (t, c) (trackerStart h (t, c))" and "ct_long (fst (trackerStart h (t, c)))"
    and "ct_finished (fst (trackerStart h (t, c))) = ct_finished t"
proof -
  show "connStep (t, c) (trackerStart h (t, c))"
  proof (cases "ct_long t")
    case True
    then show ?thesis using assms by (auto simp: trackerStart_def intro!: connStep_refl)
  next
    case False
    then have "\<not> ct_finished t" using assms(2) by blast
    then show ?thesis using False active_wraps [OF assms(1)]
      by (simp add: trackerStart_def connStep_def openConn_def releasePin_unpin unpin_gens connStart_def)
  qed
qed (simp_all add: trackerStart_def)

lemma connStep_finish:
  assumes "ct_long t" and "\<not> ct_finished t"
  shows "connStep (t, c) (finishTracker now r b (t, c))"
  using assms by (simp add: finishTracker_def connStep_def openConn_def connFinish_def)


text \<open>The operations on one request.\<close>

lemma core_start:
  assumes "core_inv c reqs rows" and "i < length reqs" and "\<not> rq_ended (reqs ! i)"
    and "rq_tracker r = fst (trackerStart h (rq_tracker (reqs ! i), c))" and "\<not> rq_ended r"
  shows "core_inv (snd (trackerStart h (rq_tracker (reqs ! i), c))) (reqs[i := r]) rows"
proof (cases "ct_long (rq_tracker (reqs ! i))")
  case True
  then show ?thesis
    using assms by (auto simp: trackerStart_def pinned_def split: if_splits intro!: core_inv_same_pins)
next
  case False
  let ?c = "c\<lparr>kc_conn := connStart (kc_conn c)\<rparr>"
  have "core_inv (unpin (pinOf (reqs ! i)) (map snd ([] :: (nat \<times> identity \<times> httpObs) list)) ?c) (reqs[i := r]) (rows @ [])"
    using assms False by (intro core_inv_unpinned) (auto simp: trackerStart_def pinned_def)
  then show ?thesis using False by (simp add: trackerStart_def releasePin_unpin)
qed

lemma core_finished:
  assumes "core_inv c reqs rows" and "i < length reqs" and "ct_long (rq_tracker (reqs ! i))" and "rq_tracker r = t'" and "ct_long t'"
    and "ct_generation t' = pinOf (reqs ! i)"
  shows "core_inv c (reqs[i := r]) rows"
  using assms by (intro core_inv_same_pins) (auto simp: pinned_def)

lemma finishTracker_parts:
  "finishTracker now b d (t, c) = (t\<lparr>ct_finished := True\<rparr>, c\<lparr>kc_conn := connFinish (time_Sub now (ct_started t)) b d (kc_conn c)\<rparr>)"
  by (simp add: finishTracker_def)

text \<open>The deferred function, once the tracker has seen whether the response is an event stream.\<close>

definition deferredTail ::
  "gotime \<Rightarrow> handlerEnd \<Rightarrow> connectionTracker \<times> httpCollector \<Rightarrow> (identity \<times> httpObs) option \<times> connectionTracker \<times> httpCollector" where
  "deferredTail now e = (\<lambda>(t, c).
     if \<not> ct_long t then (Some (requestRow (ct_started t) now e), t, unpin (ct_generation t) [requestRow (ct_started t) now e] c)
     else if ct_hijacked t \<or> ct_finished t then (None, t, c)
     else (None, finishTracker now 0 (en_bytes e) (t, c)))"

lemma handlerDeferred_eq:
  "handlerDeferred now e s = deferredTail now e (if en_eventStream e then trackerStart False s else s)"
  by (simp add: handlerDeferred_def deferredTail_def finishHandler_def releasePin_unpin case_prod_unfold split: if_splits)

lemma core_deferredTail:
  assumes "core_inv c reqs rows" and "i < length reqs" and "\<not> rq_ended (reqs ! i)"
    and "rq_tracker r = fst (snd (deferredTail now e (rq_tracker (reqs ! i), c)))" and "rq_ended r"
  shows "core_inv (snd (snd (deferredTail now e (rq_tracker (reqs ! i), c)))) (reqs[i := r])
    (rows @ (case fst (deferredTail now e (rq_tracker (reqs ! i), c)) of None \<Rightarrow> [] | Some x \<Rightarrow> [(i, x)]))"
proof (cases "ct_long (rq_tracker (reqs ! i))")
  case True
  then show ?thesis
    using assms by (auto simp: deferredTail_def finishTracker_parts split: if_splits intro!: core_finished)
next
  case False
  let ?x = "requestRow (ct_started (rq_tracker (reqs ! i))) now e"
  have "core_inv (unpin (pinOf (reqs ! i)) (map snd [(i, ?x)]) c) (reqs[i := r]) (rows @ [(i, ?x)])"
    using assms False by (intro core_inv_unpinned) (auto simp: deferredTail_def pinned_def)
  then show ?thesis using False by (simp add: deferredTail_def)
qed

lemma conn_deferredTail:
  assumes "conn_inv n c reqs" and "ct_finished t \<Longrightarrow> ct_long t" and "deferredTail now e (t, c) = (row, t', c')"
  shows "connStep (t, c) (t', c')" and "ct_long t' = ct_long t"
proof -
  show "ct_long t' = ct_long t" using assms(3) by (auto simp: deferredTail_def finishTracker_parts split: if_splits)
  show "connStep (t, c) (t', c')"
  proof (cases "ct_long t \<and> \<not> ct_hijacked t \<and> \<not> ct_finished t")
    case True
    then show ?thesis using assms(3) connStep_finish [of t c now 0 "en_bytes e"] by (auto simp: deferredTail_def)
  next
    case False
    then show ?thesis
      using assms active_wraps [OF assms(1)] by (auto simp: deferredTail_def connStep_def unpin_gens openConn_def split: if_splits)
  qed
qed

lemma world_same_tracker:
  assumes "http_world n w" and "i < length (hw_reqs w)" and "rq_tracker r = rq_tracker (hw_reqs w ! i)"
    and "rq_ended r = rq_ended (hw_reqs w ! i)" and "rq_conn r \<noteq> None \<Longrightarrow> ct_long (rq_tracker r)"
  shows "http_world n (w\<lparr>hw_reqs := (hw_reqs w)[i := r]\<rparr>)"
proof -
  have "core_inv (hw_col w) ((hw_reqs w)[i := r]) (hw_log w)"
    using assms by (intro core_inv_same_pins) (auto simp: http_world_def pinned_def)
  moreover have "ct_finished (rq_tracker (hw_reqs w ! i)) \<Longrightarrow> ct_long (rq_tracker (hw_reqs w ! i))"
    using assms(1,2) nth_mem [OF assms(2)] by (auto simp: http_world_def conn_inv_def)
  then have "conn_inv n (hw_col w) ((hw_reqs w)[i := r])"
    using assms by (intro conn_inv_step [of n "hw_col w"] connStep_refl) (auto simp: http_world_def)
  ultimately show ?thesis using assms(1) by (simp add: http_world_def)
qed

lemma world_start:
  assumes "http_world n w" and "i < length (hw_reqs w)" and "\<not> rq_ended (hw_reqs w ! i)"
  shows "http_world n (onTracker i (trackerStart h) w)" and "ct_long (rq_tracker (hw_reqs (onTracker i (trackerStart h) w) ! i))"
proof -
  let ?t = "rq_tracker (hw_reqs w ! i)" and ?s = "trackerStart h (rq_tracker (hw_reqs w ! i), hw_col w)"
  have ok: "ct_finished ?t \<Longrightarrow> ct_long ?t" and c: "conn_inv n (hw_col w) (hw_reqs w)"
    using assms(1) nth_mem [OF assms(2)] by (auto simp: http_world_def conn_inv_def)
  have step: "connStep (?t, hw_col w) (fst ?s, snd ?s)" "ct_long (fst ?s)" using connStep_start [OF c ok] by simp_all
  have "core_inv (snd ?s) ((hw_reqs w)[i := (hw_reqs w ! i)\<lparr>rq_tracker := fst ?s\<rparr>]) (hw_log w)"
    using assms by (intro core_start) (auto simp: http_world_def)
  moreover have "conn_inv n (snd ?s) ((hw_reqs w)[i := (hw_reqs w ! i)\<lparr>rq_tracker := fst ?s\<rparr>])"
    using c assms(2) step by (intro conn_inv_step) auto
  moreover have "memo_inv (snd ?s)" using memo_inv_step [OF _ step(1)] assms(1) by (simp add: http_world_def)
  ultimately show "http_world n (onTracker i (trackerStart h) w)"
    by (simp add: http_world_def onTracker_def case_prod_unfold)
  show "ct_long (rq_tracker (hw_reqs (onTracker i (trackerStart h) w) ! i))"
    using step(2) assms(2) by (simp add: onTracker_def case_prod_unfold)
qed

definition endTail :: "nat \<Rightarrow> gotime \<Rightarrow> handlerEnd \<Rightarrow> httpWorld \<Rightarrow> httpWorld" where
  "endTail i now e w =
     (case deferredTail now e (rq_tracker (hw_reqs w ! i), hw_col w) of
        (row, t, c) \<Rightarrow> w\<lparr>hw_col := c, hw_reqs := (hw_reqs w)[i := (hw_reqs w ! i)\<lparr>rq_tracker := t, rq_ended := True\<rparr>],
                        hw_log := hw_log w @ (case row of None \<Rightarrow> [] | Some r \<Rightarrow> [(i, r)])\<rparr>)"

lemma HEnd_eq:
  "httpExec (HEnd i now e) w =
    (if running i w then endTail i now e (if en_eventStream e then onTracker i (trackerStart False) w else w) else w)"
  by (auto simp: handlerDeferred_eq endTail_def onTracker_def case_prod_unfold Let_def running_def)

lemma world_endTail:
  assumes "http_world n w" and "i < length (hw_reqs w)" and "\<not> rq_ended (hw_reqs w ! i)"
  shows "http_world n (endTail i now e w)"
proof -
  let ?t = "rq_tracker (hw_reqs w ! i)" and ?d = "deferredTail now e (rq_tracker (hw_reqs w ! i), hw_col w)"
  let ?r = "(hw_reqs w ! i)\<lparr>rq_tracker := fst (snd ?d), rq_ended := True\<rparr>"
  have ok: "rq_conn (hw_reqs w ! i) \<noteq> None \<or> ct_finished ?t \<Longrightarrow> ct_long ?t" and c: "conn_inv n (hw_col w) (hw_reqs w)"
    using assms(1) nth_mem [OF assms(2)] by (auto simp: http_world_def conn_inv_def)
  have step: "connStep (?t, hw_col w) (fst (snd ?d), snd (snd ?d))" "ct_long (fst (snd ?d)) = ct_long ?t"
    using conn_deferredTail [OF c, of ?t now e "fst ?d" "fst (snd ?d)" "snd (snd ?d)"] ok by auto
  have "core_inv (snd (snd ?d)) ((hw_reqs w)[i := ?r]) (hw_log w @ (case fst ?d of None \<Rightarrow> [] | Some x \<Rightarrow> [(i, x)]))"
    using assms by (intro core_deferredTail) (auto simp: http_world_def)
  moreover have "conn_inv n (snd (snd ?d)) ((hw_reqs w)[i := ?r])"
    using c assms(2) step ok by (intro conn_inv_step) auto
  moreover have "memo_inv (snd (snd ?d))" using memo_inv_step [OF _ step(1)] assms(1) by (simp add: http_world_def)
  ultimately show ?thesis by (simp add: http_world_def endTail_def case_prod_unfold)
qed

lemma onTracker_parts:
  assumes "i < length (hw_reqs w)"
  shows "length (hw_reqs (onTracker i f w)) = length (hw_reqs w)" "rq_ended (hw_reqs (onTracker i f w) ! j) = rq_ended (hw_reqs w ! j)"
    "rq_conn (hw_reqs (onTracker i f w) ! j) = rq_conn (hw_reqs w ! j)" "hw_log (onTracker i f w) = hw_log w"
  using assms by (auto simp: onTracker_def case_prod_unfold nth_list_update)

lemma world_HEnd: "http_world n w \<Longrightarrow> http_world n (httpExec (HEnd i now e) w)"
  by (auto simp: HEnd_eq running_def onTracker_parts simp del: httpExec.simps intro!: world_endTail world_start)

lemma world_HCommit: "http_world n w \<Longrightarrow> http_world n (httpExec (HCommit i status stream) w)"
proof -
  assume w: "http_world n w"
  have "onTracker i (\<lambda>s. s) w = w" if "i < length (hw_reqs w)" by (simp add: onTracker_def)
  with w show ?thesis by (cases "status = 101 \<or> stream") (auto simp: running_def onCommit_def [abs_def] intro!: world_start)
qed

lemma world_HHijack: "http_world n w \<Longrightarrow> http_world n (httpExec (HHijack i) w)"
  by (auto simp: running_def onHijack_def [abs_def] Let_def onTracker_parts intro!: world_same_tracker world_start)


lemma world_onConn:
  assumes "http_world n w" and "i < length (hw_reqs w)"
  shows "http_world n (onConn i f w)"
proof -
  have "rq_conn (hw_reqs w ! i) \<noteq> None \<Longrightarrow> ct_long (rq_tracker (hw_reqs w ! i))"
    using assms(1) nth_mem [OF assms(2)] by (auto simp: http_world_def conn_inv_def)
  then show ?thesis using assms unfolding onConn_def by (intro world_same_tracker) auto
qed

lemma world_finish:
  assumes "http_world n w" and "i < length (hw_reqs w)" and "rq_conn (hw_reqs w ! i) \<noteq> None"
  shows "http_world n (onTracker i (finishHijacked now b d) w)"
proof -
  let ?t = "rq_tracker (hw_reqs w ! i)" and ?s = "finishHijacked now b d (rq_tracker (hw_reqs w ! i), hw_col w)"
  let ?r = "(hw_reqs w ! i)\<lparr>rq_tracker := fst ?s\<rparr>"
  have long: "ct_long ?t" and c: "conn_inv n (hw_col w) (hw_reqs w)"
    using assms nth_mem [OF assms(2)] by (auto simp: http_world_def conn_inv_def)
  have step: "connStep (?t, hw_col w) (fst ?s, snd ?s)"
    using long connStep_finish [of ?t "hw_col w" now b d] connStep_refl [OF c, of ?t ?t] by (simp add: finishHijacked_def)
  have l: "ct_long (fst ?s)" using long by (simp add: finishHijacked_def finishTracker_parts)
  have "core_inv (hw_col w) ((hw_reqs w)[i := ?r]) (hw_log w)"
    using assms long l step by (intro core_finished [where t' = "fst ?s"]) (auto simp: http_world_def connStep_def)
  then have "core_inv (snd ?s) ((hw_reqs w)[i := ?r]) (hw_log w)"
    by (cases "ct_finished ?t") (simp_all add: finishHijacked_def finishTracker_parts)
  moreover have "conn_inv n (snd ?s) ((hw_reqs w)[i := ?r])" using c assms(2) step l by (intro conn_inv_step) auto
  moreover have "memo_inv (snd ?s)" using memo_inv_step [OF _ step] assms(1) by (simp add: http_world_def)
  ultimately show ?thesis by (simp add: http_world_def onTracker_def case_prod_unfold)
qed

lemma world_HClose: "http_world n w \<Longrightarrow> http_world n (httpExec (HClose i now) w)"
proof (cases "i < length (hw_reqs w)")
  case True
  assume w: "http_world n w"
  show ?thesis
  proof (cases "rq_conn (hw_reqs w ! i)")
    case (Some k)
    have "onTracker i (\<lambda>s. snd (connClose now (k, s))) w =
        (if tk_closed k then w else onTracker i (finishHijacked now (tk_read k) (tk_wrote k)) w)"
      using True by (simp add: connClose_def onTracker_def)
    then show ?thesis using w True Some by (auto simp: onTracker_parts intro!: world_onConn world_finish)
  qed (use w True in simp)
qed simp

lemma world_HBegin: "http_world n w \<Longrightarrow> http_world n (httpExec (HBegin now) w)"
proof -
  assume w: "http_world n w"
  let ?c = "hw_col w" and ?reqs = "hw_reqs w" and ?w = "httpExec (HBegin now) w"
  have len: "length (kc_gens ?c) = Suc (kc_current ?c)" and ok: "j \<le> kc_current ?c \<Longrightarrow> genOk ?c ?reqs (hw_log w) j"
    and rows: "\<forall>(j, row) \<in> set (hw_log w). j < length ?reqs" for j
    using w by (auto simp: http_world_def core_inv_def)
  have "rowsIn j (?reqs @ [r]) (hw_log w) = rowsIn j ?reqs (hw_log w)" for j r
    unfolding rowsIn_def using rows by (intro arg_cong [of _ _ "map snd"] filter_cong) (auto simp: nth_append)
  then have "genOk (hw_col ?w) (hw_reqs ?w) (hw_log w) j" if "j \<le> kc_current ?c" for j
    using ok [OF that] that len
    by (cases "j = kc_current ?c") (auto simp: genOk_def beginHttp_def updGen_def Let_def pinsTo_def pinned_def)
  then have "core_inv (hw_col ?w) (hw_reqs ?w) (hw_log w)"
    using w by (auto simp: http_world_def core_inv_def beginHttp_def updGen_def)
  then show ?thesis
    using w by (auto simp: http_world_def beginHttp_def updGen_def conn_inv_def memo_inv_def openCount_def finishedCount_def openConn_def)
qed

lemma world_HRelease: "http_world n w \<Longrightarrow> http_world n (httpExec (HRelease h) w)"
proof -
  assume w: "http_world n w"
  have "core_inv (updGen g (\<lambda>s. s\<lparr>gn_released := True, gn_table := clearTable (gn_table s)\<rparr>) (hw_col w)) (hw_reqs w) (hw_log w)"
    if g: "g < length (kc_gens (hw_col w))" for g
  proof -
    have "genOk (updGen g (\<lambda>s. s\<lparr>gn_released := True, gn_table := clearTable (gn_table s)\<rparr>) (hw_col w)) (hw_reqs w) (hw_log w) j"
      if "j \<le> kc_current (hw_col w)" for j
      using w that g by (cases "j = g") (auto simp: http_world_def core_inv_def genOk_def updGen_def Let_def)
    then show ?thesis using w by (simp add: http_world_def core_inv_def updGen_def)
  qed
  with w show ?thesis
    by (auto simp: http_world_def httpRelease_def generationOf_def resolveToken_Some conn_inv_def memo_inv_def split: option.split sum.split)
      (simp_all add: updGen_def)
qed

lemma world_HCutShort: "http_world n w \<Longrightarrow> http_world n (httpExec (HCutShort old expired) w)"
  by (auto simp: resetFinish_def Let_def http_world_def core_inv_def genOk_def conn_inv_def memo_inv_def)

lemma swap_parts:
  "fst (swapLocked c) = kc_current c" "kc_current (snd (swapLocked c)) = length (kc_gens c)"
  "kc_gens (snd (swapLocked c)) =
     (kc_gens c @ [newHttpGeneration c])[kc_current c := sealHttp (((kc_gens c @ [newHttpGeneration c]) ! kc_current c)\<lparr>gn_conn := connectionsLocked (kc_conn c)\<rparr>)]"
  "kc_maxKeys (snd (swapLocked c)) = kc_maxKeys c" "kc_self (snd (swapLocked c)) = kc_self c"
  "kc_epoch (snd (swapLocked c)) = kc_epoch c" "kc_begun (snd (swapLocked c)) = kc_begun c" "kc_frozen (snd (swapLocked c)) = kc_frozen c"
  "kc_conn (snd (swapLocked c)) = zeroTotals (cn_active (kc_conn c))"
  by (simp_all add: swapLocked_def takeConn_def updGen_def Let_def)

lemma core_swap:
  assumes "core_inv c reqs rows"
  shows "core_inv (snd (swapLocked c)) reqs rows"
proof -
  have len: "length (kc_gens c) = Suc (kc_current c)" and ok: "j \<le> kc_current c \<Longrightarrow> genOk c reqs rows j"
    and pins: "\<forall>r \<in> set reqs. pinOf r \<le> kc_current c" and idx: "\<forall>(j, row) \<in> set rows. j < length reqs" for j
    using assms by (auto simp: core_inv_def)
  have "genOk (snd (swapLocked c)) reqs rows j" if "j \<le> kc_current c" for j
    using ok [OF that] that len by (cases "j = kc_current c") (auto simp: genOk_def swap_parts sealHttp_def settleHttp_def Let_def nth_append)
  moreover have "pinsTo (length (kc_gens c)) reqs = 0"
    using pins len by (auto simp: pinsTo_def filter_empty_conv)
  moreover have "rowsIn (length (kc_gens c)) reqs rows = []"
  proof -
    have "pinOf (reqs ! k) \<le> kc_current c" if "(k, row) \<in> set rows" for k row using that pins idx by (auto dest!: bspec)
    then show ?thesis unfolding rowsIn_def using len by (force simp: filter_empty_conv)
  qed
  then have "genOk (snd (swapLocked c)) reqs rows (length (kc_gens c))"
    using len calculation(2) by (simp add: genOk_def swap_parts newHttpGeneration_def Let_def nth_append)
  moreover have "j \<le> length (kc_gens c) \<Longrightarrow> j \<le> kc_current c \<or> j = length (kc_gens c)" for j using len by auto
  ultimately show ?thesis using len pins idx by (auto simp: core_inv_def swap_parts)
qed

lemma world_swap:
  assumes "http_world n w"
  shows "http_world (finishedCount (hw_reqs w)) (w\<lparr>hw_col := snd (swapLocked (hw_col w))\<rparr>)"
  using assms core_swap
  by (auto simp: http_world_def conn_inv_def memo_inv_def swap_parts zeroTotals_def) (simp add: wrap64_def)

subsection \<open>Boundaries\<close>

definition freshHttp :: "httpCollector \<Rightarrow> string \<Rightarrow> epoch \<Rightarrow> Phase \<Rightarrow> bool" where
  "freshHttp c runID ep phase \<longleftrightarrow> replays runID ep (memoOf phase c) = None \<and> kc_epoch c \<le> ep"

lemma boundary_unchanged: "\<not> freshHttp c runID ep phase \<or> ctxErr \<noteq> None \<Longrightarrow> snd (httpBoundary ctxErr now runID ep phase c) = c"
  by (auto simp: httpBoundary_def freshHttp_def split: option.split)

lemma boundary_fresh_parts:
  assumes "freshHttp c runID ep phase" and "httpBoundary None now runID ep phase c = ((res, err), c')"
  shows "err = None" and "br_Committed res" and "gh_token (br_Handle res) = Token (kc_self c) (kc_current c)"
    and "kc_gens c' = kc_gens (snd (swapLocked c))" and "kc_current c' = length (kc_gens c)" and "kc_self c' = kc_self c"
    and "kc_maxKeys c' = kc_maxKeys c" and "kc_conn c' = zeroTotals (cn_active (kc_conn c))" and "kc_epoch c' = ep"
    and "memoOf phase c' = Some \<lparr>bm_runID = runID, bm_epoch = ep, bm_result = res\<rparr>"
    and "phase' \<noteq> phase \<and> {phase, phase'} = {PhaseStartBoundary, PhaseFinishFreeze} \<Longrightarrow> memoOf phase' c' = memoOf phase' c"
    and "kc_begun c' \<in> {memoOf phase c', kc_begun c}" and "kc_frozen c' \<in> {memoOf phase c', kc_frozen c}"
  using assms
  by (auto simp: httpBoundary_def freshHttp_def httpBoundaryFresh_def Let_def case_prod_unfold setMemo_def memoOf_def swap_parts
      NewGenerationHandle_def doubleton_eq_iff split: if_splits option.splits)

lemma world_boundary:
  assumes "http_world n w" and "freshHttp (hw_col w) runID ep phase"
  shows "http_world (finishedCount (hw_reqs w)) (httpExec (HBoundary None now runID ep phase) w)"
proof -
  obtain res err c' where b: "httpBoundary None now runID ep phase (hw_col w) = ((res, err), c')" by (metis surj_pair)
  note parts = boundary_fresh_parts [OF assms(2) b]
  have swapped: "http_world (finishedCount (hw_reqs w)) (w\<lparr>hw_col := snd (swapLocked (hw_col w))\<rparr>)" by (rule world_swap [OF assms(1)])
  then have "core_inv c' (hw_reqs w) (hw_log w)" "conn_inv (finishedCount (hw_reqs w)) c' (hw_reqs w)"
    by (simp_all add: http_world_def core_inv_def genOk_def conn_inv_def parts(4-8) swap_parts(2,4,9))
  moreover have "bm_epoch m \<le> ep" if "kc_begun c' = Some m \<or> kc_frozen c' = Some m" for m
  proof -
    have "kc_begun (hw_col w) = Some m \<or> kc_frozen (hw_col w) = Some m \<or> memoOf phase c' = Some m"
      using that parts(12,13) by auto
    then show ?thesis using assms parts(10) by (auto simp: http_world_def memo_inv_def freshHttp_def)
  qed
  ultimately show ?thesis using b by (auto simp: http_world_def memo_inv_def parts(9))
qed

fun swaps :: "httpOp \<Rightarrow> bool" where
  "swaps (HBoundary ctxErr now runID ep phase) = True"
| "swaps HReset = True"
| "swaps _ = False"

lemma world_exec: "http_world n w \<Longrightarrow> \<not> swaps op \<Longrightarrow> http_world n (httpExec op w)"
proof (cases op)
  case (HRead i b)
  then show "http_world n w \<Longrightarrow> ?thesis" using world_onConn by simp
next
  case (HWrite i b)
  then show "http_world n w \<Longrightarrow> ?thesis" using world_onConn by simp
qed (auto simp: world_HBegin world_HCommit world_HHijack world_HClose world_HEnd world_HRelease world_HCutShort simp del: httpExec.simps)

lemma world_any: "http_world n w \<Longrightarrow> \<exists>m. http_world m (httpExec op w)"
proof (cases "swaps op")
  case True
  assume w: "http_world n w"
  from True show ?thesis
  proof (cases op)
    case (HBoundary ctxErr now runID ep phase)
    then show ?thesis
      using w world_boundary [OF w, of runID ep phase now] boundary_unchanged [of "hw_col w" runID ep phase ctxErr now]
      by (cases "freshHttp (hw_col w) runID ep phase \<and> ctxErr = None") auto
  next
    case HReset
    then show ?thesis using world_swap [OF w] by (auto simp: resetSwap_def)
  qed auto
qed (use world_exec in blast)

lemma world_run: "http_world n w \<Longrightarrow> \<exists>m. http_world m (fold httpExec ops w)"
  by (induction ops arbitrary: n w) (auto, metis world_any)

lemma world_run_quiet: "http_world n w \<Longrightarrow> \<forall>op \<in> set ops. \<not> swaps op \<Longrightarrow> http_world n (fold httpExec ops w)"
  by (induction ops arbitrary: w) (auto intro: world_exec)

lemma world_new: "http_world 0 (newWorld self maxKeys)"
  by (simp add: http_world_def newWorld_def NewHttp_def newHttpGeneration_def core_inv_def genOk_def conn_inv_def memo_inv_def
      pinsTo_def rowsIn_def openCount_def finishedCount_def zeroTotals_def) (simp add: wrap64_def)


subsection \<open>Frames\<close>

text \<open>What an operation of one request leaves alone in the collector.\<close>

definition sameWindow :: "httpCollector \<Rightarrow> httpCollector \<Rightarrow> bool" where
  "sameWindow c c' \<longleftrightarrow> kc_self c' = kc_self c \<and> kc_maxKeys c' = kc_maxKeys c \<and> kc_current c' = kc_current c \<and>
     kc_epoch c' = kc_epoch c \<and> kc_frozen c' = kc_frozen c \<and> length (kc_gens c') = length (kc_gens c) \<and>
     (\<forall>a. gn_conn (kc_gens c' ! a) = gn_conn (kc_gens c ! a) \<and> gn_released (kc_gens c' ! a) = gn_released (kc_gens c ! a))"

lemma sameWindow_trans: "sameWindow a b \<Longrightarrow> sameWindow b c \<Longrightarrow> sameWindow a c"
  by (simp add: sameWindow_def)

lemma sameWindow_refl [simp]: "sameWindow c c" "sameWindow c (c\<lparr>kc_conn := x\<rparr>)"
  by (simp_all add: sameWindow_def)

lemma sameWindow_unpin: "sameWindow c (unpin g rows c)"
  by (cases "g < length (kc_gens c)") (auto simp: sameWindow_def unpin_gens settleHttp_def nth_list_update list_update_beyond)

lemma sameWindow_start: "sameWindow c (snd (trackerStart h (t, c)))"
  using sameWindow_trans [OF sameWindow_refl(2) sameWindow_unpin] by (simp add: trackerStart_def releasePin_unpin)

lemma sameWindow_tail: "sameWindow c (snd (snd (deferredTail now e (t, c))))"
  by (simp add: deferredTail_def sameWindow_unpin finishTracker_parts)

lemma sameWindow_hijacked: "sameWindow c (snd (finishHijacked now b d (t, c)))"
  by (simp add: finishHijacked_def finishTracker_parts)

lemma generation_kept:
  "ct_generation (fst (trackerStart h (t, c))) = ct_generation t"
  "ct_generation (fst (snd (deferredTail now e (t, c)))) = ct_generation t"
  "ct_generation (fst (finishHijacked now b d (t, c))) = ct_generation t"
  by (simp_all add: trackerStart_def deferredTail_def finishHijacked_def finishTracker_parts)

text \<open>
  How a step moves the world on: requests keep their pins, a new one is pinned to the current generation,
  the current generation only moves forward, and a closed generation keeps its connection totals.
\<close>

definition movesOn :: "nat set \<Rightarrow> httpWorld \<Rightarrow> httpWorld \<Rightarrow> bool" where
  "movesOn R w w' \<longleftrightarrow>
     kc_self (hw_col w') = kc_self (hw_col w) \<and> kc_maxKeys (hw_col w') = kc_maxKeys (hw_col w) \<and>
     kc_current (hw_col w) \<le> kc_current (hw_col w') \<and> length (hw_reqs w) \<le> length (hw_reqs w') \<and>
     (\<forall>i < length (hw_reqs w). pinOf (hw_reqs w' ! i) = pinOf (hw_reqs w ! i)) \<and>
     (\<forall>i. length (hw_reqs w) \<le> i \<and> i < length (hw_reqs w') \<longrightarrow>
        kc_current (hw_col w) \<le> pinOf (hw_reqs w' ! i) \<and> pinOf (hw_reqs w' ! i) \<le> kc_current (hw_col w')) \<and>
     (\<forall>a < kc_current (hw_col w). gn_conn (kc_gens (hw_col w') ! a) = gn_conn (kc_gens (hw_col w) ! a)) \<and>
     (\<forall>a \<le> kc_current (hw_col w). a \<notin> R \<longrightarrow> gn_released (kc_gens (hw_col w') ! a) = gn_released (kc_gens (hw_col w) ! a))"

lemma movesOn_refl: "movesOn R w w"
  by (simp add: movesOn_def)

lemma movesOn_trans:
  assumes "movesOn R u v" and "movesOn R v w"
  shows "movesOn R u w"
proof -
  have up: "kc_current (hw_col u) \<le> kc_current (hw_col v)" "kc_current (hw_col v) \<le> kc_current (hw_col w)"
    using assms by (simp_all add: movesOn_def)
  have "kc_current (hw_col u) \<le> pinOf (hw_reqs w ! i) \<and> pinOf (hw_reqs w ! i) \<le> kc_current (hw_col w)"
    if i: "length (hw_reqs u) \<le> i" "i < length (hw_reqs w)" for i
  proof (cases "i < length (hw_reqs v)")
    case True
    then have "pinOf (hw_reqs w ! i) = pinOf (hw_reqs v ! i)" using assms(2) by (simp add: movesOn_def)
    moreover have "kc_current (hw_col u) \<le> pinOf (hw_reqs v ! i) \<and> pinOf (hw_reqs v ! i) \<le> kc_current (hw_col v)"
      using assms(1) True i by (simp add: movesOn_def)
    ultimately show ?thesis using up by linarith
  next
    case False
    then have "kc_current (hw_col v) \<le> pinOf (hw_reqs w ! i) \<and> pinOf (hw_reqs w ! i) \<le> kc_current (hw_col w)"
      using assms(2) i by (simp add: movesOn_def)
    then show ?thesis using up by linarith
  qed
  then show ?thesis using assms up by (simp add: movesOn_def)
qed

lemma movesOn_request:
  assumes "sameWindow (hw_col w) c" and "i < length (hw_reqs w)" and "pinOf r = pinOf (hw_reqs w ! i)"
  shows "movesOn R w (w\<lparr>hw_col := c, hw_reqs := (hw_reqs w)[i := r], hw_log := l\<rparr>)"
  using assms by (auto simp: movesOn_def sameWindow_def nth_list_update)

lemma movesOn_tracker:
  assumes "sameWindow (hw_col w) (snd (f (rq_tracker (hw_reqs w ! i), hw_col w)))" and "i < length (hw_reqs w)"
    and "ct_generation (fst (f (rq_tracker (hw_reqs w ! i), hw_col w))) = pinOf (hw_reqs w ! i)"
  shows "movesOn R w (onTracker i f w)"
  using movesOn_request [OF assms(1,2), of "(hw_reqs w ! i)\<lparr>rq_tracker := fst (f (rq_tracker (hw_reqs w ! i), hw_col w))\<rparr>" _ "hw_log w"] assms(3)
  by (simp add: onTracker_def case_prod_unfold)

lemma movesOn_start: "i < length (hw_reqs w) \<Longrightarrow> movesOn R w (onTracker i (trackerStart h) w)"
  by (intro movesOn_tracker) (simp_all add: sameWindow_start generation_kept)

lemma movesOn_conn: "i < length (hw_reqs w) \<Longrightarrow> movesOn R w (w\<lparr>hw_reqs := (hw_reqs w)[i := (hw_reqs w ! i)\<lparr>rq_conn := k\<rparr>]\<rparr>)"
  using movesOn_request [of w "hw_col w" i "(hw_reqs w ! i)\<lparr>rq_conn := k\<rparr>" _ "hw_log w"] by simp

lemma movesOn_tail: "i < length (hw_reqs w) \<Longrightarrow> movesOn R w (endTail i now e w)"
  unfolding endTail_def case_prod_unfold by (intro movesOn_request) (simp_all add: sameWindow_tail generation_kept)

lemma movesOn_swap:
  assumes "http_world n w" and "kc_gens c = kc_gens (snd (swapLocked (hw_col w)))" and "kc_current c = length (kc_gens (hw_col w))"
    and "kc_self c = kc_self (hw_col w)" and "kc_maxKeys c = kc_maxKeys (hw_col w)"
  shows "movesOn R w (w\<lparr>hw_col := c\<rparr>)"
  using assms by (auto simp: movesOn_def http_world_def core_inv_def swap_parts nth_append nth_list_update sealHttp_def settleHttp_def)

lemma movesOn_hijack: "i < length (hw_reqs w) \<Longrightarrow> movesOn R w (onTracker i (finishHijacked now b d) w)"
  by (intro movesOn_tracker) (simp_all add: sameWindow_hijacked generation_kept)

lemma onTracker_id: "i < length (hw_reqs w) \<Longrightarrow> onTracker i (\<lambda>s. s) w = w"
  by (simp add: onTracker_def)

lemma commit_eq: "i < length (hw_reqs w) \<Longrightarrow>
    onTracker i (onCommit status stream) w = (if status = 101 \<or> stream then onTracker i (trackerStart False) w else w)"
  by (simp add: onCommit_def [abs_def] onTracker_id)

lemma close_eq: "i < length (hw_reqs w) \<Longrightarrow>
    onTracker i (\<lambda>s. snd (connClose now (k, s))) w = (if tk_closed k then w else onTracker i (finishHijacked now (tk_read k) (tk_wrote k)) w)"
  by (simp add: connClose_def onTracker_def)

lemma movesOn_exec: "http_world n w \<Longrightarrow> (\<And>h a. op = HRelease h \<Longrightarrow> gh_token h = Token (kc_self (hw_col w)) a \<Longrightarrow> a \<in> R) \<Longrightarrow> movesOn R w (httpExec op w)"
proof (cases op)
  case (HBegin now)
  assume "http_world n w"
  with HBegin show ?thesis
    by (auto simp: movesOn_def beginHttp_def updGen_def nth_append nth_list_update http_world_def core_inv_def)
next
  case (HHijack i)
  then show ?thesis
    by (auto simp: running_def onHijack_def [abs_def] Let_def onTracker_parts movesOn_refl intro!: movesOn_trans [OF movesOn_start movesOn_conn])
next
  case (HClose i now)
  then show ?thesis
    by (auto simp: close_eq movesOn_refl onTracker_parts onConn_def split: option.split
        intro!: movesOn_conn movesOn_trans [OF movesOn_hijack movesOn_conn])
next
  case (HEnd i now e)
  then show ?thesis
    unfolding HEnd HEnd_eq by (auto simp: running_def onTracker_parts movesOn_refl intro!: movesOn_tail movesOn_trans [OF movesOn_start movesOn_tail])
next
  case (HBoundary ctxErr now runID ep phase)
  assume w: "http_world n w"
  obtain res err c' where b: "httpBoundary None now runID ep phase (hw_col w) = ((res, err), c')" by (metis surj_pair)
  show ?thesis
  proof (cases "freshHttp (hw_col w) runID ep phase \<and> ctxErr = None")
    case True
    with boundary_fresh_parts [OF _ b] show ?thesis using HBoundary b by (auto intro!: movesOn_swap [OF w])
  next
    case False
    then show ?thesis using HBoundary boundary_unchanged [of "hw_col w" runID ep phase ctxErr now] by (auto simp: movesOn_refl)
  qed
next
  case HReset
  assume "http_world n w"
  with HReset show ?thesis by (auto simp: resetSwap_def swap_parts intro!: movesOn_swap)
next
  case (HRelease h)
  assume "\<And>h a. op = HRelease h \<Longrightarrow> gh_token h = Token (kc_self (hw_col w)) a \<Longrightarrow> a \<in> R"
  with HRelease show ?thesis
    by (auto simp: movesOn_def httpRelease_def updGen_def nth_modify generationOf_def resolveToken_Some nth_list_update split: option.split)
qed (auto simp: running_def commit_eq movesOn_refl onConn_def intro!: movesOn_start movesOn_conn, auto simp: movesOn_def resetFinish_def Let_def)

lemma movesOn_run:
  "http_world n w \<Longrightarrow> (\<And>h a. HRelease h \<in> set ops \<Longrightarrow> gh_token h = Token (kc_self (hw_col w)) a \<Longrightarrow> a \<in> R) \<Longrightarrow> movesOn R w (fold httpExec ops w)"
proof (induction ops arbitrary: n w)
  case (Cons op ops)
  obtain m where m: "http_world m (httpExec op w)" using world_any [OF Cons.prems(1)] by blast
  have step: "movesOn R w (httpExec op w)" using Cons.prems by (intro movesOn_exec) auto
  then have "kc_self (hw_col (httpExec op w)) = kc_self (hw_col w)" by (simp add: movesOn_def)
  with Cons.prems(2) have "movesOn R (httpExec op w) (fold httpExec ops (httpExec op w))" by (intro Cons.IH [OF m]) auto
  with step show ?case by (auto intro: movesOn_trans)
qed (simp add: movesOn_refl)


lemma onTracker_col: "hw_col (onTracker i f w) = snd (f (rq_tracker (hw_reqs w ! i), hw_col w))"
  by (simp add: onTracker_def case_prod_unfold)

lemma endTail_col: "hw_col (endTail i now e w) = snd (snd (deferredTail now e (rq_tracker (hw_reqs w ! i), hw_col w)))"
  by (simp add: endTail_def case_prod_unfold)

lemma quiet_exec:
  assumes "\<not> swaps op"
  shows "kc_current (hw_col (httpExec op w)) = kc_current (hw_col w) \<and> kc_epoch (hw_col (httpExec op w)) = kc_epoch (hw_col w) \<and>
    kc_frozen (hw_col (httpExec op w)) = kc_frozen (hw_col w)"
proof -
  note facts = sameWindow_start [unfolded sameWindow_def] sameWindow_tail [unfolded sameWindow_def] sameWindow_hijacked [unfolded sameWindow_def]
  show ?thesis
  proof (cases op)
    case (HEnd i now e)
    then show ?thesis unfolding HEnd HEnd_eq by (simp add: endTail_col onTracker_col facts)
  next
    case (HHijack i)
    then show ?thesis by (simp add: Let_def onTracker_col onHijack_def facts)
  next
    case (HCommit i status stream)
    then show ?thesis by (simp add: running_def commit_eq onTracker_col facts)
  next
    case (HClose i now)
    then show ?thesis by (simp add: close_eq onTracker_col onConn_def facts split: option.split)
  qed (use assms in \<open>auto simp: beginHttp_def updGen_def onConn_def httpRelease_def resetFinish_def Let_def split: sum.split\<close>)
qed

lemma quiet_run:
  assumes "\<forall>op \<in> set ops. \<not> swaps op"
  shows "kc_current (hw_col (fold httpExec ops w)) = kc_current (hw_col w) \<and> kc_epoch (hw_col (fold httpExec ops w)) = kc_epoch (hw_col w) \<and>
    kc_frozen (hw_col (fold httpExec ops w)) = kc_frozen (hw_col w)"
  using assms by (induction ops arbitrary: w) (simp_all add: quiet_exec del: httpExec.simps)

subsection \<open>The log\<close>

text \<open>The log has exactly one row for every request that ended as an ordinary one.\<close>

definition ordinary :: "httpRequest \<Rightarrow> bool" where
  "ordinary r \<longleftrightarrow> rq_ended r \<and> \<not> ct_long (rq_tracker r)"

definition log_inv :: "httpWorld \<Rightarrow> bool" where
  "log_inv w \<longleftrightarrow> distinct (map fst (hw_log w)) \<and> fst ` set (hw_log w) = {i. i < length (hw_reqs w) \<and> ordinary (hw_reqs w ! i)}"

lemma log_request:
  assumes "log_inv w" and "i < length (hw_reqs w)" and "ordinary r = ordinary (hw_reqs w ! i)"
  shows "log_inv (w\<lparr>hw_col := c, hw_reqs := (hw_reqs w)[i := r]\<rparr>)"
  using assms by (auto simp: log_inv_def nth_list_update)

lemma log_col: "log_inv (w\<lparr>hw_col := c\<rparr>) = log_inv w"
  by (simp add: log_inv_def)

lemma log_start: "log_inv w \<Longrightarrow> i < length (hw_reqs w) \<Longrightarrow> \<not> rq_ended (hw_reqs w ! i) \<Longrightarrow> log_inv (onTracker i (trackerStart h) w)"
  unfolding onTracker_def case_prod_unfold by (rule log_request) (auto simp: ordinary_def)

lemma log_hijacked: "log_inv w \<Longrightarrow> i < length (hw_reqs w) \<Longrightarrow> log_inv (onTracker i (finishHijacked now b d) w)"
  unfolding onTracker_def case_prod_unfold by (rule log_request) (auto simp: ordinary_def finishHijacked_def finishTracker_parts)

lemma log_conn: "log_inv w \<Longrightarrow> i < length (hw_reqs w) \<Longrightarrow> log_inv (w\<lparr>hw_reqs := (hw_reqs w)[i := (hw_reqs w ! i)\<lparr>rq_conn := k\<rparr>]\<rparr>)"
  using log_request [of w i "(hw_reqs w ! i)\<lparr>rq_conn := k\<rparr>" "hw_col w"] by (simp add: ordinary_def)

lemma log_tail:
  assumes "log_inv w" and "i < length (hw_reqs w)" and "\<not> rq_ended (hw_reqs w ! i)"
  shows "log_inv (endTail i now e w)"
proof -
  let ?d = "deferredTail now e (rq_tracker (hw_reqs w ! i), hw_col w)"
  have long: "ct_long (fst (snd ?d)) = ct_long (rq_tracker (hw_reqs w ! i))" "fst ?d = None \<longleftrightarrow> ct_long (rq_tracker (hw_reqs w ! i))"
    by (simp_all add: deferredTail_def finishTracker_parts)
  have "i \<notin> fst ` set (hw_log w)" using assms by (auto simp: log_inv_def ordinary_def)
  with assms long show ?thesis
    by (cases "fst ?d") (auto simp: log_inv_def endTail_def case_prod_unfold ordinary_def nth_list_update)
qed

lemma log_exec: "log_inv w \<Longrightarrow> log_inv (httpExec op w)"
proof (cases op)
  case (HEnd i now e)
  then show "log_inv w \<Longrightarrow> ?thesis"
    unfolding HEnd HEnd_eq by (auto simp: running_def onTracker_parts intro!: log_tail log_start)
next
  case (HBegin now)
  then show "log_inv w \<Longrightarrow> ?thesis" by (auto simp: log_inv_def beginHttp_def ordinary_def nth_append)
next
  case (HHijack i)
  then show "log_inv w \<Longrightarrow> ?thesis" by (auto simp: running_def onHijack_def [abs_def] Let_def onTracker_parts intro!: log_conn log_start)
next
  case (HClose i now)
  then show "log_inv w \<Longrightarrow> ?thesis"
    by (auto simp: close_eq onConn_def onTracker_parts split: option.split intro!: log_conn log_hijacked)
qed (auto simp: running_def commit_eq onConn_def log_col intro!: log_start log_conn)

lemma log_run: "log_inv w \<Longrightarrow> log_inv (fold httpExec ops w)"
  by (induction ops arbitrary: w) (simp_all add: log_exec del: httpExec.simps)

lemma log_new: "log_inv (newWorld self maxKeys)"
  by (simp add: log_inv_def newWorld_def)

end
