(* ===== verification/Http_Sections.thy ===== *)
theory Http_Sections
  imports Http_Windows
begin

text \<open>
  A run's HTTP section: the collector is asked for a boundary when the run starts and for one when it
  finishes, and the handle of the second is drained and collected at any later time.
\<close>

definition rowsBetween :: "nat \<Rightarrow> nat \<Rightarrow> (nat \<times> identity \<times> httpObs) list \<Rightarrow> (identity \<times> httpObs) list" where
  "rowsBetween m n rows = map snd (filter (\<lambda>(j, row). m \<le> j \<and> j < n) rows)"

lemma start_is_fresh:
  assumes "http_world n w" and "kc_epoch (hw_col w) < ep"
  shows "freshHttp (hw_col w) runID ep phase"
proof -
  have "replays runID ep memo = None" if "kc_begun (hw_col w) = memo \<or> kc_frozen (hw_col w) = memo" for memo
    using that assms by (cases memo) (auto simp: http_world_def memo_inv_def replays_def)
  then show ?thesis using assms(2) by (simp add: freshHttp_def memoOf_def)
qed

lemma freeze_is_fresh:
  assumes "http_world n w" and "kc_epoch (hw_col w) < ep" and "w1 = httpExec (HBoundary None now runID ep PhaseStartBoundary) w"
    and "\<forall>op \<in> set ops. \<not> swaps op"
  shows "freshHttp (hw_col (fold httpExec ops w1)) runID ep PhaseFinishFreeze"
proof -
  obtain res err c where b: "httpBoundary None now runID ep PhaseStartBoundary (hw_col w) = ((res, err), c)" by (metis surj_pair)
  note parts = boundary_fresh_parts [OF start_is_fresh [OF assms(1,2)] b]
  have "kc_frozen c = kc_frozen (hw_col w)" using parts(11) [of PhaseFinishFreeze] by (auto simp: memoOf_def)
  then have "kc_epoch (hw_col (fold httpExec ops w1)) = ep" "kc_frozen (hw_col (fold httpExec ops w1)) = kc_frozen (hw_col w)"
    using quiet_run [OF assms(4), of w1] parts(9) b by (simp_all add: assms(3))
  then show ?thesis
    using assms(1,2) by (auto simp: freshHttp_def memoOf_def replays_def http_world_def memo_inv_def split: option.split)
qed

text \<open>The two boundaries of a run, with what happened before, between and after them.\<close>

definition runWindow ::
  "httpWorld \<Rightarrow> gotime \<Rightarrow> gotime \<Rightarrow> string \<Rightarrow> epoch \<Rightarrow> httpOp list \<Rightarrow> httpOp list \<Rightarrow> BoundaryResult \<times> gerr option \<Rightarrow>
   httpWorld \<Rightarrow> httpWorld \<Rightarrow> httpWorld \<Rightarrow> httpWorld \<Rightarrow> bool" where
  "runWindow w0 t0 t1 runID ep between after out w1 w2 w3 w4 \<longleftrightarrow>
     kc_epoch (hw_col w0) < ep \<and> w1 = httpExec (HBoundary None t0 runID ep PhaseStartBoundary) w0 \<and>
     w2 = fold httpExec between w1 \<and> (\<forall>op \<in> set between. \<not> swaps op) \<and>
     out = fst (httpBoundary None t1 runID ep PhaseFinishFreeze (hw_col w2)) \<and>
     w3 = httpExec (HBoundary None t1 runID ep PhaseFinishFreeze) w2 \<and> w4 = fold httpExec after w3 \<and>
     (\<forall>h. HRelease h \<in> set between \<union> set after \<longrightarrow> gh_token h \<noteq> gh_token (br_Handle (fst out)))"

lemma window_facts:
  assumes "http_world n w0" and "runWindow w0 t0 t1 runID ep between after out w1 w2 w3 w4"
  shows "http_world (finishedCount (hw_reqs w0)) w1" and "http_world (finishedCount (hw_reqs w0)) w2"
    and "http_world (finishedCount (hw_reqs w2)) w3" and "freshHttp (hw_col w2) runID ep PhaseFinishFreeze"
    and "kc_current (hw_col w1) = Suc (kc_current (hw_col w0))" and "hw_reqs w1 = hw_reqs w0"
    and "kc_current (hw_col w2) = kc_current (hw_col w1)"
    and "kc_current (hw_col w3) = Suc (kc_current (hw_col w2))" and "hw_reqs w3 = hw_reqs w2"
    and "httpBoundary None t1 runID ep PhaseFinishFreeze (hw_col w2) = (out, hw_col w3)"
    and "\<exists>c. kc_gens (hw_col w1) = kc_gens (snd (swapLocked c)) \<and> length (kc_gens c) = kc_current (hw_col w1) \<and> kc_current c = kc_current (hw_col w0)"
proof -
  have ep: "kc_epoch (hw_col w0) < ep" and w1: "w1 = httpExec (HBoundary None t0 runID ep PhaseStartBoundary) w0"
    and w2: "w2 = fold httpExec between w1" and q: "\<forall>op \<in> set between. \<not> swaps op"
    and out: "out = fst (httpBoundary None t1 runID ep PhaseFinishFreeze (hw_col w2))"
    and w3: "w3 = httpExec (HBoundary None t1 runID ep PhaseFinishFreeze) w2"
    using assms(2) unfolding runWindow_def by blast+
  have f0: "freshHttp (hw_col w0) runID ep PhaseStartBoundary" by (rule start_is_fresh [OF assms(1) ep])
  show i1: "http_world (finishedCount (hw_reqs w0)) w1" unfolding w1 by (rule world_boundary [OF assms(1) f0])
  show i2: "http_world (finishedCount (hw_reqs w0)) w2" unfolding w2 by (rule world_run_quiet [OF i1 q])
  show f: "freshHttp (hw_col w2) runID ep PhaseFinishFreeze" unfolding w2 by (rule freeze_is_fresh [OF assms(1) ep w1 q])
  show "http_world (finishedCount (hw_reqs w2)) w3" unfolding w3 by (rule world_boundary [OF i2 f])
  show "kc_current (hw_col w2) = kc_current (hw_col w1)" unfolding w2 using quiet_run [OF q] by blast
  show reqs: "hw_reqs w1 = hw_reqs w0" "hw_reqs w3 = hw_reqs w2" by (simp_all add: w1 w3)
  show b: "httpBoundary None t1 runID ep PhaseFinishFreeze (hw_col w2) = (out, hw_col w3)" by (simp add: out w3)
  obtain r0 e0 c0 where b0: "httpBoundary None t0 runID ep PhaseStartBoundary (hw_col w0) = ((r0, e0), c0)" by (metis surj_pair)
  have len: "length (kc_gens (hw_col w0)) = Suc (kc_current (hw_col w0))" "length (kc_gens (hw_col w2)) = Suc (kc_current (hw_col w2))"
    using assms(1) i2 by (simp_all add: http_world_def core_inv_def)
  show "kc_current (hw_col w3) = Suc (kc_current (hw_col w2))"
    using boundary_fresh_parts(5) [OF f, of t1 "fst out" "snd out"] b len by simp
  show c1: "kc_current (hw_col w1) = Suc (kc_current (hw_col w0))" using boundary_fresh_parts(5) [OF f0 b0] b0 len by (simp add: w1)
  show "\<exists>c. kc_gens (hw_col w1) = kc_gens (snd (swapLocked c)) \<and> length (kc_gens c) = kc_current (hw_col w1) \<and> kc_current c = kc_current (hw_col w0)"
    using boundary_fresh_parts(4) [OF f0 b0] b0 len c1 by (intro exI [of _ "hw_col w0"]) (simp add: w1)
qed

lemma window_moves:
  assumes "http_world n w0" and "runWindow w0 t0 t1 runID ep between after out w1 w2 w3 w4"
    and "\<And>h a. HRelease h \<in> set between \<union> set after \<Longrightarrow> gh_token h = Token (kc_self (hw_col w0)) a \<Longrightarrow> a \<in> R"
  shows "movesOn R w1 w2" and "movesOn R w3 w4"
proof -
  note facts = window_facts [OF assms(1,2)]
  have w: "w1 = httpExec (HBoundary None t0 runID ep PhaseStartBoundary) w0" "w2 = fold httpExec between w1"
    "w3 = httpExec (HBoundary None t1 runID ep PhaseFinishFreeze) w2" "w4 = fold httpExec after w3"
    using assms(2) unfolding runWindow_def by blast+
  have "movesOn UNIV w0 w1" "movesOn UNIV w2 w3" unfolding w(1,3) by (rule movesOn_exec [OF assms(1)] movesOn_exec [OF facts(2)], simp)+
  moreover have "movesOn UNIV w1 w2" unfolding w(2) by (rule movesOn_run [OF facts(1)]) simp
  ultimately have self: "kc_self (hw_col w1) = kc_self (hw_col w0)" "kc_self (hw_col w3) = kc_self (hw_col w0)" by (simp_all add: movesOn_def)
  show "movesOn R w1 w2" unfolding w(2) using assms(3) self(1) by (intro movesOn_run [OF facts(1)]) auto
  show "movesOn R w3 w4" unfolding w(4) using assms(3) self(2) by (intro movesOn_run [OF facts(3)]) auto
qed

lemma window_pins:
  assumes "http_world n w0" and "runWindow w0 t0 t1 runID ep between after out w1 w2 w3 w4"
  shows "length (hw_reqs w1) \<le> length (hw_reqs w2)" and "length (hw_reqs w2) \<le> length (hw_reqs w4)"
    and "i < length (hw_reqs w4) \<Longrightarrow> pinOf (hw_reqs w4 ! i) = kc_current (hw_col w2) \<longleftrightarrow> length (hw_reqs w1) \<le> i \<and> i < length (hw_reqs w2)"
proof -
  note facts = window_facts [OF assms]
  have m: "movesOn UNIV w1 w2" "movesOn UNIV w3 w4" by (rule window_moves [OF assms], simp)+
  show le: "length (hw_reqs w1) \<le> length (hw_reqs w2)" "length (hw_reqs w2) \<le> length (hw_reqs w4)"
    using m facts(9) by (simp_all add: movesOn_def)
  have old: "pinOf (hw_reqs w4 ! i) < kc_current (hw_col w1)" if "i < length (hw_reqs w1)"
  proof -
    have "pinOf (hw_reqs w4 ! i) = pinOf (hw_reqs w0 ! i)" using m that le facts(6,9) by (simp add: movesOn_def)
    moreover have "hw_reqs w0 ! i \<in> set (hw_reqs w0)" using that facts(6) by simp
    ultimately show ?thesis using assms(1) facts(5) by (auto simp: http_world_def core_inv_def less_Suc_eq_le)
  qed
  have mid: "pinOf (hw_reqs w4 ! i) = kc_current (hw_col w2)" if "length (hw_reqs w1) \<le> i" "i < length (hw_reqs w2)"
  proof -
    have "pinOf (hw_reqs w4 ! i) = pinOf (hw_reqs w2 ! i)" using m(2) that facts(9) by (simp add: movesOn_def)
    moreover have "kc_current (hw_col w1) \<le> pinOf (hw_reqs w2 ! i) \<and> pinOf (hw_reqs w2 ! i) \<le> kc_current (hw_col w2)"
      using m(1) that unfolding movesOn_def by blast
    ultimately show ?thesis using facts(7) by simp
  qed
  have new: "kc_current (hw_col w2) < pinOf (hw_reqs w4 ! i)" if "length (hw_reqs w2) \<le> i" "i < length (hw_reqs w4)"
    using m(2) that facts(8,9) unfolding movesOn_def by (metis Suc_le_lessD)
  show "i < length (hw_reqs w4) \<Longrightarrow> pinOf (hw_reqs w4 ! i) = kc_current (hw_col w2) \<longleftrightarrow> length (hw_reqs w1) \<le> i \<and> i < length (hw_reqs w2)"
    using old mid new facts(7) by (metis less_irrefl not_less)
qed


lemma window_handle:
  assumes "http_world n w0" and "runWindow w0 t0 t1 runID ep between after out w1 w2 w3 w4"
  shows "snd out = None" and "br_Committed (fst out)"
    and "gh_token (br_Handle (fst out)) = Token (kc_self (hw_col w0)) (kc_current (hw_col w2))"
    and "kc_self (hw_col w4) = kc_self (hw_col w0)" and "kc_maxKeys (hw_col w4) = kc_maxKeys (hw_col w0)"
    and "kc_current (hw_col w2) < kc_current (hw_col w4)"
    and "kc_gens (hw_col w3) = kc_gens (snd (swapLocked (hw_col w2)))"
proof -
  note facts = window_facts [OF assms]
  have "httpBoundary None t1 runID ep PhaseFinishFreeze (hw_col w2) = ((fst out, snd out), hw_col w3)" using facts(10) by simp
  note parts = boundary_fresh_parts [OF facts(4) this]
  have w: "w1 = httpExec (HBoundary None t0 runID ep PhaseStartBoundary) w0" using assms(2) unfolding runWindow_def by blast
  have m: "movesOn UNIV w0 w1" unfolding w by (rule movesOn_exec [OF assms(1)]) simp
  have m12: "movesOn UNIV w1 w2" "movesOn UNIV w3 w4" by (rule window_moves [OF assms], simp)+
  show "snd out = None" "br_Committed (fst out)" "kc_gens (hw_col w3) = kc_gens (snd (swapLocked (hw_col w2)))"
    using parts(1,2,4) by simp_all
  have self: "kc_self (hw_col w2) = kc_self (hw_col w0)" using m m12 by (simp add: movesOn_def)
  show "gh_token (br_Handle (fst out)) = Token (kc_self (hw_col w0)) (kc_current (hw_col w2))" using parts(3) self by simp
  show "kc_self (hw_col w4) = kc_self (hw_col w0)" "kc_maxKeys (hw_col w4) = kc_maxKeys (hw_col w0)"
    using parts(6,7) self m m12 by (simp_all add: movesOn_def)
  show "kc_current (hw_col w2) < kc_current (hw_col w4)" using m12(2) facts(8) by (simp add: movesOn_def)
qed

lemma window_held:
  assumes "http_world n w0" and "runWindow w0 t0 t1 runID ep between after out w1 w2 w3 w4" and "a = kc_current (hw_col w2)"
  shows "\<not> gn_released (kc_gens (hw_col w4) ! a)" and "gn_conn (kc_gens (hw_col w4) ! a) = connectionsLocked (kc_conn (hw_col w2))"
proof -
  note facts = window_facts [OF assms(1,2)] and handle = window_handle [OF assms(1,2)]
  have rel: "\<And>h b. HRelease h \<in> set between \<union> set after \<Longrightarrow> gh_token h = Token (kc_self (hw_col w0)) b \<Longrightarrow> b \<in> {b. b \<noteq> a}"
    using assms(2,3) handle(3) unfolding runWindow_def by auto
  note m = window_moves [OF assms(1,2) rel]
  have len: "length (kc_gens (hw_col w2)) = Suc a" using facts(2) assms(3) by (simp add: http_world_def core_inv_def)
  obtain c where "kc_gens (hw_col w1) = kc_gens (snd (swapLocked c))" "length (kc_gens c) = a" "kc_current c < a"
    using facts(5,7,11) assms(3) by auto
  then have "\<not> gn_released (kc_gens (hw_col w1) ! a)" by (simp add: swap_parts newHttpGeneration_def nth_append)
  then have "\<not> gn_released (kc_gens (hw_col w2) ! a)" using m(1) facts(7) assms(3) by (auto simp: movesOn_def)
  then have "\<not> gn_released (kc_gens (hw_col w3) ! a)" "gn_conn (kc_gens (hw_col w3) ! a) = connectionsLocked (kc_conn (hw_col w2))"
    using len assms(3) by (simp_all add: handle(7) swap_parts nth_append sealHttp_def settleHttp_def)
  then show "\<not> gn_released (kc_gens (hw_col w4) ! a)" "gn_conn (kc_gens (hw_col w4) ! a) = connectionsLocked (kc_conn (hw_col w2))"
    using m(2) facts(8) assms(3) by (auto simp: movesOn_def)
qed

lemma window_rows:
  assumes "http_world n w0" and "runWindow w0 t0 t1 runID ep between after out w1 w2 w3 w4"
  shows "rowsIn (kc_current (hw_col w2)) (hw_reqs w4) (hw_log w4) = rowsBetween (length (hw_reqs w1)) (length (hw_reqs w2)) (hw_log w4)"
    and "pinsTo (kc_current (hw_col w2)) (hw_reqs w4) = 0 \<longleftrightarrow> (\<forall>i \<in> {length (hw_reqs w1)..<length (hw_reqs w2)}. \<not> pinned (hw_reqs w4 ! i))"
    and "genOk (hw_col w4) (hw_reqs w4) (hw_log w4) (kc_current (hw_col w2))" and "kc_current (hw_col w2) < length (kc_gens (hw_col w4))"
proof -
  note pins = window_pins [OF assms]
  have "w4 = fold httpExec after w3" using assms(2) unfolding runWindow_def by blast
  then obtain m where "http_world m w4" using world_run [OF window_facts(3) [OF assms]] by blast
  then have inv: "core_inv (hw_col w4) (hw_reqs w4) (hw_log w4)" by (simp add: http_world_def)
  then show "genOk (hw_col w4) (hw_reqs w4) (hw_log w4) (kc_current (hw_col w2))" "kc_current (hw_col w2) < length (kc_gens (hw_col w4))"
    using window_handle(6) [OF assms] by (simp_all add: core_inv_def)
  have "j < length (hw_reqs w4)" if "(j, row) \<in> set (hw_log w4)" for j row using inv that by (auto simp: core_inv_def)
  then show "rowsIn (kc_current (hw_col w2)) (hw_reqs w4) (hw_log w4) = rowsBetween (length (hw_reqs w1)) (length (hw_reqs w2)) (hw_log w4)"
    unfolding rowsIn_def rowsBetween_def using pins(3) by (intro arg_cong [of _ _ "map snd"] filter_cong) auto
  show "pinsTo (kc_current (hw_col w2)) (hw_reqs w4) = 0 \<longleftrightarrow> (\<forall>i \<in> {length (hw_reqs w1)..<length (hw_reqs w2)}. \<not> pinned (hw_reqs w4 ! i))"
  proof -
    have "pinsTo (kc_current (hw_col w2)) (hw_reqs w4) = 0 \<longleftrightarrow>
        (\<forall>i < length (hw_reqs w4). pinOf (hw_reqs w4 ! i) = kc_current (hw_col w2) \<longrightarrow> \<not> pinned (hw_reqs w4 ! i))"
      by (simp add: pinsTo_def filter_empty_conv all_set_conv_all_nth)
    then show ?thesis using pins by auto
  qed
qed

text \<open>
  C26: The HTTP section of a run holds exactly the requests that began between its two boundaries. For any
  history of requests, long-lived connections, hijacks, resets, other runs and releases before the run, between its
  boundaries (no further boundary) and after it (the handle not released): the closing boundary commits; draining its handle succeeds
  exactly when every request begun between the boundaries has ended or become long-lived (it blocks
  otherwise); collecting the handle gives the table of the logged rows of exactly those requests, whenever they ended,
  one row per request that ended as an ordinary one; and the connection totals are those of the window, with the
  connections still open counted as active.
\<close>

theorem http_section_is_run_interval:
  assumes "w0 = fold httpExec before (newWorld self maxKeys)"
    and "runWindow w0 t0 t1 runID ep between after out w1 w2 w3 w4"
    and "h = br_Handle (fst out)" and "reqs = {length (hw_reqs w1)..<length (hw_reqs w2)}"
  shows "snd out = None \<and> br_Committed (fst out) \<and>
    httpDrain None h (hw_col w4) = (if \<forall>i \<in> reqs. \<not> pinned (hw_reqs w4 ! i) then Some None else None) \<and>
    (\<exists>conn. httpCollect h (hw_col w4) =
       Inr \<lparr>hr_HTTP = snapshot_http (observeAll (rowsBetween (length (hw_reqs w1)) (length (hw_reqs w2)) (hw_log w4)) (newTable_http maxKeys)),
            hr_Connections = conn\<rparr> \<and>
       co_Total conn = wrap64 (finishedCount (hw_reqs w2) - finishedCount (hw_reqs w1)) \<and> co_Active conn = wrap64 (openCount (hw_reqs w2))) \<and>
    distinct (map fst (hw_log w4)) \<and>
    {i \<in> reqs. i \<in> fst ` set (hw_log w4)} = {i \<in> reqs. ordinary (hw_reqs w4 ! i)}"
proof -
  obtain n where n: "http_world n w0" using world_run [OF world_new] assms(1) by blast
  have "movesOn UNIV (newWorld self maxKeys) w0" unfolding assms(1) by (rule movesOn_run [OF world_new]) simp
  then have mk: "kc_maxKeys (hw_col w0) = maxKeys" by (simp add: movesOn_def newWorld_def NewHttp_def Let_def)
  note handle = window_handle [OF n assms(2)] and held = window_held [OF n assms(2) refl] and rows = window_rows [OF n assms(2)]
    and facts = window_facts [OF n assms(2)]
  let ?a = "kc_current (hw_col w2)"
  have res: "generationOf (hw_col w4) h = Inr ?a"
    using handle(3,4) rows(4) by (simp add: generationOf_def resolveToken_def assms(3))
  have drained: "gn_done (kc_gens (hw_col w4) ! ?a) = (\<forall>i \<in> reqs. \<not> pinned (hw_reqs w4 ! i))"
    using rows(2,3) handle(6) by (simp add: genOk_def Let_def assms(4))
  have table: "gn_table (kc_gens (hw_col w4) ! ?a) =
      observeAll (rowsBetween (length (hw_reqs w1)) (length (hw_reqs w2)) (hw_log w4)) (newTable_http maxKeys)"
    using rows(1,3) held(1) handle(5) mk by (simp add: genOk_def Let_def)
  have conn: "co_Total (connectionsLocked (kc_conn (hw_col w2))) = wrap64 (finishedCount (hw_reqs w2) - finishedCount (hw_reqs w1))"
    "co_Active (connectionsLocked (kc_conn (hw_col w2))) = wrap64 (openCount (hw_reqs w2))"
    using facts(2,6) by (simp_all add: connectionsLocked_def http_world_def conn_inv_def)
  have ops: "w4 = fold httpExec after w3" "w3 = httpExec (HBoundary None t1 runID ep PhaseFinishFreeze) w2" "w2 = fold httpExec between w1"
    "w1 = httpExec (HBoundary None t0 runID ep PhaseStartBoundary) w0" using assms(2) unfolding runWindow_def by blast+
  have "log_inv w4" unfolding ops assms(1) by (intro log_run log_exec log_new)
  then show ?thesis
    using handle(1,2) res drained table conn held window_pins(2) [OF n assms(2)]
    by (auto simp: httpDrain_def httpCollect_def Let_def log_inv_def assms(4))
qed


definition plainEnd :: handlerEnd where
  "plainEnd = \<lparr>en_panicked = False, en_status = 0, en_eventStream = False, en_bytes = 12, en_method = ''GET'', en_path = ''/a'', en_proto = ''HTTP/1.1'',
     en_sqlCount = 0, en_sqlShapes = None, en_work = None\<rparr>"

definition earlier :: httpWorld where
  "earlier = fold httpExec [HBegin 5] (newWorld ''c'' 8)"

definition opened :: httpWorld where
  "opened = httpExec (HBoundary None 7 ''run'' 1 PhaseStartBoundary) earlier"

definition frozen :: httpWorld where
  "frozen = fold httpExec [HBegin 10, HBegin 11, HCommit 2 200 True] opened"

definition closing :: "(BoundaryResult \<times> gerr option) \<times> httpWorld" where
  "closing = (fst (httpBoundary None 20 ''run'' 1 PhaseFinishFreeze (hw_col frozen)),
     httpExec (HBoundary None 20 ''run'' 1 PhaseFinishFreeze) frozen)"

definition later :: httpWorld where
  "later = fold httpExec [HBegin 21, HEnd 1 25 plainEnd, HEnd 0 30 plainEnd] (snd closing)"

lemma demo_window: "runWindow earlier 7 20 ''run'' 1 [HBegin 10, HBegin 11, HCommit 2 200 True] [HBegin 21, HEnd 1 25 plainEnd, HEnd 0 30 plainEnd]
    (fst closing) opened frozen (snd closing) later"
proof -
  have "kc_epoch (hw_col earlier) < 1" by code_simp
  then show ?thesis by (simp add: runWindow_def opened_def frozen_def closing_def later_def del: httpExec.simps)
qed

definition demoRequest :: "nat \<Rightarrow> gotime \<Rightarrow> bool \<Rightarrow> bool \<Rightarrow> httpRequest" where
  "demoRequest g start long ended = \<lparr>rq_tracker = \<lparr>ct_generation = g, ct_started = start, ct_long = long, ct_hijacked = False, ct_finished = False\<rparr>,
     rq_conn = None, rq_ended = ended\<rparr>"

lemma demo_requests:
  "\<exists>g. hw_reqs opened = [demoRequest g 5 False False] \<and> hw_log opened = []"
  "\<exists>a b c. hw_reqs frozen = [demoRequest a 5 False False, demoRequest b 10 False False, demoRequest c 11 True False] \<and> hw_log frozen = []"
proof -
  show o: "\<exists>g. hw_reqs opened = [demoRequest g 5 False False] \<and> hw_log opened = []"
    by (simp add: opened_def earlier_def newWorld_def beginHttp_def demoRequest_def)
  then show "\<exists>a b c. hw_reqs frozen = [demoRequest a 5 False False, demoRequest b 10 False False, demoRequest c 11 True False] \<and> hw_log frozen = []"
    by (auto simp: frozen_def beginHttp_def demoRequest_def running_def onTracker_def onCommit_def trackerStart_def)
qed

lemma demo_later:
  "\<exists>a b c d. hw_reqs later = [demoRequest a 5 False True, demoRequest b 10 False True, demoRequest c 11 True False, demoRequest d 21 False False]"
  "rowsBetween 1 3 (hw_log later) = [requestRow 10 25 plainEnd]"
proof -
  obtain a b c where f: "hw_reqs frozen = [demoRequest a 5 False False, demoRequest b 10 False False, demoRequest c 11 True False]" "hw_log frozen = []"
    using demo_requests(2) by blast
  have "hw_reqs (snd closing) = hw_reqs frozen" "hw_log (snd closing) = []" by (simp_all add: closing_def f)
  then show "\<exists>a b c d. hw_reqs later = [demoRequest a 5 False True, demoRequest b 10 False True, demoRequest c 11 True False, demoRequest d 21 False False]"
    "rowsBetween 1 3 (hw_log later) = [requestRow 10 25 plainEnd]"
    by (simp_all add: later_def HEnd_eq endTail_def deferredTail_def plainEnd_def beginHttp_def f demoRequest_def running_def rowsBetween_def
        del: httpExec.simps(7))
qed

theorem http_section_is_run_interval_witness:
  "httpDrain None (br_Handle (fst (fst closing))) (hw_col later) = Some None \<and>
   (\<exists>conn. httpCollect (br_Handle (fst (fst closing))) (hw_col later) =
      Inr \<lparr>hr_HTTP = snapshot_http (observeAll [requestRow 10 25 plainEnd] (newTable_http 8)), hr_Connections = conn\<rparr> \<and> co_Active conn = 1)"
proof -
  have n: "length (hw_reqs opened) = 1" "length (hw_reqs frozen) = 3" "openCount (hw_reqs frozen) = 1"
    using demo_requests by (auto simp: openCount_def openConn_def demoRequest_def)
  have "\<not> pinned (hw_reqs later ! i)" if "i \<in> {1..<3}" for i
  proof -
    have "i = 1 \<or> i = 2" using that by auto
    then show ?thesis using demo_later(1) by (auto simp: pinned_def demoRequest_def)
  qed
  then show ?thesis
    using http_section_is_run_interval [OF earlier_def demo_window refl refl] n demo_later(2)
    by (auto simp: wrap64_def)
qed

end
