(* ===== verification/Http_Rows.thy ===== *)
theory Http_Rows
  imports Http_Table
begin

text \<open>
  What the HTTP table holds: every request is in exactly one row, a row's numbers are the sums over its
  requests, SQL shapes and dependency calls are conserved when they overflow, and the reported percentile is
  within a factor of two of the exact one.
\<close>

declare wrap64_idem [simp]

subsection \<open>Rows apart from shapes and dependencies\<close>

definition coreOf :: "httpStat \<Rightarrow> httpStat" where
  "coreOf s = s\<lparr>hs_work := None, hs_shapes := []\<rparr>"

definition addCore :: "httpObs \<Rightarrow> httpStat \<Rightarrow> httpStat" where
  "addCore x s = addTiming (clampObs x) (addHttpTotals (clampObs x) s)"

lemma clampObs_idem [simp]: "clampObs (clampObs x) = clampObs x"
  by (simp add: clampObs_def)

lemma core_row: "coreOf (fst (observeRowHttp x (s, a, b))) = addTiming x (addHttpTotals x (coreOf s))"
  by (simp add: observeRowHttp_def coreOf_def addTiming_def addHttpTotals_def Let_def case_prod_unfold split: option.split)

subsection \<open>Shapes and calls are conserved\<close>

definition wrapSum :: "('a \<Rightarrow> int) \<Rightarrow> 'a list \<Rightarrow> int" where
  "wrapSum f xs = wrap64 (sum_list (map f xs))"

lemma wrapSum_snoc: "wrapSum f (xs @ [x]) = wrap64 (wrapSum f xs + f x)"
  by (simp add: wrapSum_def wrap64_add)

lemma wrapSum_Nil [simp]: "wrapSum f [] = 0"
  by (simp add: wrapSum_def wrap64_def)

lemma wrapSum_Cons: "wrapSum f (x # xs) = wrap64 (f x + wrapSum f xs)"
  by (simp add: wrapSum_def wrap64_inner)

lemma wrapSum_alter:
  assumes "\<And>v. wrap64 (g (f v)) = wrap64 (g v + d)" and "g z = 0"
  shows "wrapSum (\<lambda>e. g (snd e)) (alter k z f m) = wrap64 (wrapSum (\<lambda>e. g (snd e)) m + d)"
proof (induction m)
  case Nil
  then show ?case using assms(1) [of z] assms(2) by (simp add: wrapSum_def wrap64_add)
next
  case (Cons e m)
  obtain k' v where e: "e = (k', v)" by (cases e)
  show ?case
  proof (cases "k' = k")
    case True
    have "wrap64 (g (f v) + s) = wrap64 (g v + (s + d))" for s
      using wrap64_add [of "g (f v)" s] wrap64_add [of "g v + d" s] assms(1) [of v] by (simp add: algebra_simps)
    then show ?thesis using True by (simp add: e wrapSum_Cons wrap64_add add.assoc)
  next
    case False
    then show ?thesis using Cons by (simp add: e wrapSum_Cons wrap64_inner wrap64_add add.assoc)
  qed
qed

lemma resolveShape_sum:
  "wrapSum (\<lambda>e. sh_Count (snd e)) (fst (resolveShape row e st)) = wrap64 (wrapSum (\<lambda>e. sh_Count (snd e)) (fst st) + sh_Count (snd e))"
proof -
  have "wrapSum (\<lambda>e. sh_Count (snd e)) (alter k zeroShape (addShape (snd e)) m) = wrap64 (wrapSum (\<lambda>e. sh_Count (snd e)) m + sh_Count (snd e))" for k :: string and m
    by (rule wrapSum_alter) (simp_all add: addShape_def zeroShape_def)
  then show ?thesis by (simp add: resolveShape_def reserveShapeKey_def case_prod_unfold)
qed

lemma fold_sum:
  assumes "\<And>x st. h (f x st) = wrap64 (h st + w x)" and "\<And>st. h st = wrap64 (h st)"
  shows "h (fold f xs st) = wrap64 (h st + sum_list (map w xs))"
proof (induction xs arbitrary: st)
  case Nil
  then show ?case using assms(2) by simp
next
  case (Cons x xs)
  then show ?case by (simp add: assms(1) wrap64_add add.assoc)
qed

lemma wrapSum_wraps: "wrapSum f xs = wrap64 (wrapSum f xs)"
  by (simp add: wrapSum_def)

lemma putShape_sum: "wrapSum (\<lambda>e. qs_Count (snd e)) (putShape e row) = wrap64 (wrapSum (\<lambda>e. qs_Count (snd e)) row + sh_Count (snd e))"
  unfolding putShape_def case_prod_unfold by (rule wrapSum_alter) (simp_all add: zeroSQLShape_def)

lemma mergeShapes_sum:
  "wrapSum (\<lambda>e. qs_Count (snd e)) (fst (mergeShapes shapes st)) = wrap64 (wrapSum (\<lambda>e. qs_Count (snd e)) (fst st) + sum_list (map (\<lambda>e. sh_Count (snd e)) shapes))"
proof -
  obtain row n where st: "st = (row, n)" by (cases st)
  obtain resolved n' where r: "fold (resolveShape row) (sort_key fst shapes) ([], n) = (resolved, n')" by force
  have "mset (map (\<lambda>e. sh_Count (snd e)) (sort_key fst shapes)) = mset (map (\<lambda>e. sh_Count (snd e)) shapes)" by simp
  then have perm: "sum_list (map (\<lambda>e. sh_Count (snd e)) (sort_key fst shapes)) = sum_list (map (\<lambda>e. sh_Count (snd e)) shapes)"
    by (metis sum_mset_sum_list)
  have "wrapSum (\<lambda>e. sh_Count (snd e)) resolved = wrap64 (sum_list (map (\<lambda>e. sh_Count (snd e)) (sort_key fst shapes)))"
    using fold_sum [of "\<lambda>st. wrapSum (\<lambda>e. sh_Count (snd e)) (fst st)" "resolveShape row" "\<lambda>e. sh_Count (snd e)" "sort_key fst shapes" "([], n)",
        OF resolveShape_sum wrapSum_wraps] unfolding r by simp
  then have resolved: "wrap64 (sum_list (map (\<lambda>e. sh_Count (snd e)) resolved)) = wrap64 (sum_list (map (\<lambda>e. sh_Count (snd e)) shapes))"
    unfolding perm by (simp add: wrapSum_def)
  have "wrapSum (\<lambda>e. qs_Count (snd e)) (fold putShape resolved row) = wrap64 (wrapSum (\<lambda>e. qs_Count (snd e)) row + sum_list (map (\<lambda>e. sh_Count (snd e)) resolved))"
    by (rule fold_sum [of "wrapSum (\<lambda>e. qs_Count (snd e))" putShape "\<lambda>e. sh_Count (snd e)", OF putShape_sum wrapSum_wraps])
  also have "\<dots> = wrap64 (wrapSum (\<lambda>e. qs_Count (snd e)) row + sum_list (map (\<lambda>e. sh_Count (snd e)) shapes))"
    by (rule wrap64_cong_right [OF resolved])
  finally show ?thesis by (simp add: mergeShapes_def st r)
qed

lemma addCallTo_sum: "wrapSum cl_Count (addCallTo label call cs) = wrap64 (wrapSum cl_Count cs + cl_Count call)"
proof (induction cs)
  case Nil
  then show ?case by (simp add: wrapSum_Cons addRequestCall_def newCall_def)
next
  case (Cons c cs)
  then show ?case by (auto simp: wrapSum_Cons addRequestCall_def wrap64_add wrap64_inner algebra_simps)
qed

lemma mergeCall_sum: "wrapSum cl_Count (fst (mergeCall call st)) = wrap64 (wrapSum cl_Count (fst st) + cl_Count call)"
  by (simp add: mergeCall_def reserveWorkKey_def addCallTo_sum case_prod_unfold)

lemma mergeWork_sum:
  "wrapSum cl_Count (rw_Calls (fst (mergeWork src d st))) = wrap64 (wrapSum cl_Count (rw_Calls (fst st)) + sum_list (map cl_Count (sm_Calls src)))"
  using fold_sum [of "\<lambda>st. wrapSum cl_Count (fst st)" mergeCall cl_Count "sm_Calls src" "(rw_Calls (fst st), snd st)", OF mergeCall_sum wrapSum_wraps]
  by (simp add: mergeWork_def mergeTotals_def Let_def case_prod_unfold)

subsection \<open>Digests of rows\<close>

definition shapesOf :: "httpStat \<Rightarrow> int" where
  "shapesOf s = wrapSum (\<lambda>e. qs_Count (snd e)) (hs_shapes s)"

definition callsOf :: "httpStat \<Rightarrow> int" where
  "callsOf s = (case hs_work s of None \<Rightarrow> 0 | Some w \<Rightarrow> wrapSum cl_Count (rw_Calls w))"

definition shapesIn :: "httpObs \<Rightarrow> int" where
  "shapesIn x = (case ho_shapes x of None \<Rightarrow> 0 | Some m \<Rightarrow> sum_list (map (\<lambda>e. sh_Count (snd e)) m))"

definition callsIn :: "httpObs \<Rightarrow> int" where
  "callsIn x = (case ho_work x of None \<Rightarrow> 0 | Some w \<Rightarrow> sum_list (map cl_Count (sm_Calls w)))"

definition digest :: "httpStat \<Rightarrow> httpStat \<times> int \<times> int" where
  "digest s = (coreOf s, shapesOf s, callsOf s)"

definition addDigest :: "httpObs \<Rightarrow> httpStat \<times> int \<times> int \<Rightarrow> httpStat \<times> int \<times> int" where
  "addDigest x = (\<lambda>(s, a, b). (addCore x s, wrap64 (a + shapesIn x), wrap64 (b + callsIn x)))"

lemma shapes_row: "shapesOf (fst (observeRowHttp x (s, a, b))) = wrap64 (shapesOf s + shapesIn x)"
  using mergeShapes_sum [of "case ho_shapes x of None \<Rightarrow> [] | Some m \<Rightarrow> m" "(hs_shapes s, a)"]
  by (simp add: observeRowHttp_def shapesOf_def shapesIn_def addTiming_def addHttpTotals_def Let_def case_prod_unfold split: option.split)

lemma callsOf_wraps: "wrap64 (callsOf s) = callsOf s"
  by (simp add: callsOf_def wrapSum_wraps [symmetric] split: option.split) (simp add: wrap64_def)

lemma calls_row: "callsOf (fst (observeRowHttp x (s, a, b))) = wrap64 (callsOf s + callsIn x)"
proof (cases "ho_work x")
  case None
  then have "callsOf (fst (observeRowHttp x (s, a, b))) = callsOf s"
    by (simp add: observeRowHttp_def callsOf_def addTiming_def addHttpTotals_def Let_def case_prod_unfold)
  with None show ?thesis by (simp add: callsIn_def callsOf_wraps)
next
  case (Some w)
  let ?dst = "case hs_work s of None \<Rightarrow> zeroWork | Some dst \<Rightarrow> dst"
  have "callsOf s = wrapSum cl_Count (rw_Calls ?dst)" by (simp add: callsOf_def zeroWork_def split: option.split)
  moreover have "callsOf (fst (observeRowHttp x (s, a, b))) = wrapSum cl_Count (rw_Calls (fst (mergeWork w (ho_duration x) (?dst, b))))"
    by (simp add: observeRowHttp_def Some callsOf_def addTiming_def addHttpTotals_def Let_def case_prod_unfold)
  ultimately show ?thesis by (simp add: mergeWork_sum callsIn_def Some)
qed

lemma digest_row: "digest (fst (observeRowHttp (clampObs x) (s, a, b))) = addDigest x (digest s)"
proof -
  have "shapesIn (clampObs x) = shapesIn x" "callsIn (clampObs x) = callsIn x" by (simp_all add: shapesIn_def callsIn_def clampObs_def)
  then show ?thesis by (simp add: digest_def addDigest_def core_row shapes_row calls_row addCore_def)
qed

subsection \<open>The table\<close>

definition rowOfId :: "httpTable \<Rightarrow> identity \<Rightarrow> httpStat option" where
  "rowOfId t ident = map_of (ht_shards t ! shardOfId ident) ident"

definition digestRow :: "httpTable \<Rightarrow> identity \<Rightarrow> (httpStat \<times> int \<times> int) option" where
  "digestRow t ident = map_option digest (rowOfId t ident)"

definition counted :: "httpTable \<Rightarrow> identity set" where
  "counted t = {ident. rowOfId t ident \<noteq> None \<and> id_path ident \<noteq> OverflowPath}"

definition http_inv :: "httpTable \<Rightarrow> bool" where
  "http_inv t \<longleftrightarrow> length (ht_shards t) = numShards \<and> finite (counted t) \<and> int (card (counted t)) = ht_keys t \<and>
     ht_keys t \<le> max 0 (ht_maxKeys t) \<and> ht_maxKeys t \<le> int64_max \<and>
     (\<forall>i < numShards. distinct (map fst (ht_shards t ! i)) \<and> (\<forall>(ident, s) \<in> set (ht_shards t ! i). shardOfId ident = i))"

definition admitsId :: "httpTable \<Rightarrow> identity \<Rightarrow> bool" where
  "admitsId t ident \<longleftrightarrow> rowOfId t ident \<noteq> None \<or> id_path ident = OverflowPath \<or> ht_keys t < ht_maxKeys t"

lemma shardOfId_lt [simp]: "shardOfId ident < numShards"
  by (simp add: shardOfId_def numShards_def)

definition rowAfter :: "identity \<Rightarrow> httpObs \<Rightarrow> httpTable \<Rightarrow> httpStat" where
  "rowAfter ident x t =
     fst (observeRowHttp x (case rowOfId t ident of None \<Rightarrow> zeroHttpStat | Some s \<Rightarrow> s, ht_shapeKeys t, ht_workKeys t))"

lemma putHttp_shards:
  "ht_shards (putHttp ident x t) = (ht_shards t)[shardOfId ident :=
     alter ident (rowAfter ident x t) (\<lambda>_. rowAfter ident x t) (ht_shards t ! shardOfId ident)]"
  "ht_keys (putHttp ident x t) = ht_keys t" "ht_maxKeys (putHttp ident x t) = ht_maxKeys t"
  by (simp_all add: putHttp_def rowAfter_def rowOfId_def Let_def case_prod_unfold)

lemma rowOfId_put:
  assumes "length (ht_shards t) = numShards"
  shows "rowOfId (putHttp ident x t) i = (if i = ident then Some (rowAfter ident x t) else rowOfId t i)"
proof (cases "shardOfId i = shardOfId ident")
  case True
  then show ?thesis using assms by (auto simp: rowOfId_def putHttp_shards map_of_alter)
next
  case False
  then show ?thesis using assms by (auto simp: rowOfId_def putHttp_shards)
qed

lemma digestRow_put:
  assumes "length (ht_shards t) = numShards"
  shows "digestRow (putHttp ident (clampObs x) t) i =
     (if i = ident then Some (addDigest x (case digestRow t ident of None \<Rightarrow> digest zeroHttpStat | Some s \<Rightarrow> s)) else digestRow t i)"
  using assms by (auto simp: digestRow_def rowOfId_put rowAfter_def digest_row split: option.split)

lemma keys_row: "rowOfId (t\<lparr>ht_keys := n\<rparr>) = rowOfId t"
  by (simp add: rowOfId_def fun_eq_iff)

lemma observe_eq:
  assumes "http_inv t"
  shows "observeRequestWork ident x t =
    (if admitsId t ident
     then putHttp ident (clampObs x) (if rowOfId t ident = None \<and> id_path ident \<noteq> OverflowPath then t\<lparr>ht_keys := ht_keys t + 1\<rparr> else t)
     else putHttp overflowIdentity (clampObs x) t)"
proof -
  have "0 \<le> ht_keys t" using assms by (auto simp: http_inv_def)
  then have "ht_keys t < ht_maxKeys t \<Longrightarrow> wrap64 (ht_keys t + 1) = ht_keys t + 1"
    using assms by (intro wrap64_id) (auto simp: http_inv_def go_defs)
  moreover have "id_path overflowIdentity = OverflowPath" by (simp add: overflowIdentity_def)
  ultimately show ?thesis
    by (auto simp: observeRequestWork.simps [of ident] observeRequestWork.simps [of overflowIdentity] reserveKey_http_def admitsId_def rowOfId_def)
qed

lemma counted_put:
  assumes "length (ht_shards t) = numShards"
  shows "counted (putHttp ident x t) = (if id_path ident = OverflowPath then counted t else insert ident (counted t))"
  using assms by (auto simp: counted_def rowOfId_put)

lemma shards_put:
  assumes "\<forall>i < numShards. distinct (map fst (ht_shards t ! i)) \<and> (\<forall>(ident, s) \<in> set (ht_shards t ! i). shardOfId ident = i)"
    and "length (ht_shards t) = numShards" and "i < numShards"
  shows "distinct (map fst (ht_shards (putHttp ident x t) ! i)) \<and> (\<forall>(j, s) \<in> set (ht_shards (putHttp ident x t) ! i). shardOfId j = i)"
proof (cases "i = shardOfId ident")
  case True
  have "distinct (map fst (ht_shards t ! i))" "\<forall>(j, s) \<in> set (ht_shards t ! i). shardOfId j = i" using assms(1,3) by blast+
  with True assms(2) show ?thesis by (auto simp: putHttp_shards distinct_alter dest!: set_alter)
qed (use assms in \<open>simp add: putHttp_shards\<close>)

lemma http_inv_put:
  assumes "http_inv t" and "ident \<in> counted t \<or> id_path ident = OverflowPath"
  shows "http_inv (putHttp ident x t)"
proof -
  have "counted (putHttp ident x t) = counted t"
    using assms counted_put [of t ident x] by (auto simp: http_inv_def)
  then show ?thesis using assms(1) shards_put [of t _ ident x] by (simp add: http_inv_def putHttp_shards(2,3)) (simp add: putHttp_shards)
qed

lemma http_inv_new_row:
  assumes "http_inv t" and "rowOfId t ident = None" and "id_path ident \<noteq> OverflowPath" and "ht_keys t < ht_maxKeys t"
  shows "http_inv (putHttp ident x (t\<lparr>ht_keys := ht_keys t + 1\<rparr>))"
proof -
  let ?t = "t\<lparr>ht_keys := ht_keys t + 1\<rparr>"
  have "counted ?t = counted t" by (simp add: counted_def keys_row)
  then have c: "counted (putHttp ident x ?t) = insert ident (counted t)"
    using assms counted_put [of ?t ident x] by (simp add: http_inv_def)
  have "ident \<notin> counted t" using assms(2) by (simp add: counted_def)
  then have "int (card (insert ident (counted t))) = ht_keys t + 1" "finite (insert ident (counted t))"
    using assms(1) by (simp_all add: http_inv_def)
  then show ?thesis using assms shards_put [of ?t _ ident x] by (simp add: http_inv_def c putHttp_shards(2,3)) (simp add: putHttp_shards)
qed

lemma http_inv_observe: "http_inv t \<Longrightarrow> http_inv (observeRequestWork ident x t)"
  using http_inv_new_row [of t ident] http_inv_put [of t]
  by (auto simp: observe_eq admitsId_def counted_def overflowIdentity_def)

lemma digestRow_observe:
  assumes "http_inv t"
  shows "digestRow (observeRequestWork ident x t) i =
    (if i = (if admitsId t ident then ident else overflowIdentity)
     then Some (addDigest x (case digestRow t i of None \<Rightarrow> digest zeroHttpStat | Some s \<Rightarrow> s)) else digestRow t i)"
proof -
  have len: "length (ht_shards t) = numShards" using assms by (simp add: http_inv_def)
  have "digestRow (t\<lparr>ht_keys := n\<rparr>) = digestRow t" for n by (simp add: digestRow_def keys_row fun_eq_iff)
  then show ?thesis using len by (auto simp: observe_eq [OF assms] digestRow_put)
qed

lemma refused_identity:
  assumes "http_inv t" and "\<not> admitsId t ident" and "ident \<noteq> overflowIdentity"
  shows "\<not> admitsId (observeRequestWork j x t) ident"
proof -
  have r: "rowOfId t ident = None" "id_path ident \<noteq> OverflowPath" "ht_maxKeys t \<le> ht_keys t" using assms(2) by (auto simp: admitsId_def)
  have "digestRow (observeRequestWork j x t) ident = digestRow t ident"
    using digestRow_observe [OF assms(1), of j x ident] assms(2,3) by (auto split: if_splits)
  then have "rowOfId (observeRequestWork j x t) ident = None" using r(1) by (simp add: digestRow_def)
  moreover have "ht_maxKeys (observeRequestWork j x t) \<le> ht_keys (observeRequestWork j x t)"
    using r(3) by (auto simp: observe_eq [OF assms(1)] putHttp_shards)
  ultimately show ?thesis using r(2) by (simp add: admitsId_def)
qed

interpretation http: overflow_table http_inv digestRow observeRequestWork admitsId addDigest "digest zeroHttpStat" overflowIdentity
proof unfold_locales
  fix t ident assume "digestRow t ident \<noteq> None"
  then show "admitsId t ident" by (simp add: admitsId_def digestRow_def)
qed (simp_all add: http_inv_observe digestRow_observe refused_identity)

subsection \<open>Rows as sums\<close>

type_synonym request = "identity \<times> httpObs"

abbreviation ObserveHttp :: "request list \<Rightarrow> httpTable \<Rightarrow> httpTable" where
  "ObserveHttp reqs \<equiv> fold (\<lambda>(ident, x). observeRequestWork ident x) reqs"

definition timesHttp :: "httpObs list \<Rightarrow> int list" where
  "timesHttp xs = map (\<lambda>x. ho_duration (clampObs x)) xs"

definition httpSums :: "httpObs list \<Rightarrow> httpStat \<Rightarrow> bool" where
  "httpSums xs s \<longleftrightarrow>
     hs_count s = wrapSum (\<lambda>_. 1) xs \<and> hs_total s = wrapSum (\<lambda>x. max 0 (ho_duration x)) xs \<and>
     hs_bytes s = wrapSum (\<lambda>x. max 0 (ho_bytes x)) xs \<and> hs_max s = fold max (timesHttp xs) 0 \<and>
     hs_sqlCount s = wrapSum (\<lambda>x. max 0 (ho_sqlCount x)) (filter ho_tracked xs) \<and>
     hs_sqlTrackedRequests s = wrapSum (\<lambda>_. 1) (filter ho_tracked xs) \<and>
     hs_sqlShapeTrackedRequests s = wrapSum (\<lambda>_. 1) (filter (\<lambda>x. ho_tracked x \<and> ho_shapes x \<noteq> None) xs) \<and>
     hs_sqlMaxPerRequest s = fold max (map (\<lambda>x. max 0 (ho_sqlCount x)) (filter ho_tracked xs)) 0"

lemma clampObs_parts:
  "ho_duration (clampObs x) = max 0 (ho_duration x)" "ho_bytes (clampObs x) = max 0 (ho_bytes x)"
  "ho_sqlCount (clampObs x) = max 0 (ho_sqlCount x)" "ho_tracked (clampObs x) = ho_tracked x" "ho_shapes (clampObs x) = ho_shapes x"
  by (simp_all add: clampObs_def max_def)

lemma httpSums_add:
  assumes "httpSums xs s"
  shows "httpSums (xs @ [x]) (addCore x s)"
  using assms
  by (simp add: httpSums_def addCore_def addTiming_def addHttpTotals_def clampObs_parts wrapSum_snoc timesHttp_def max.commute)
    (simp add: max_def)

lemma httpSums_fold: "httpSums xs (fold addCore xs zeroHttpStat)"
proof (induction xs rule: rev_induct)
  case Nil
  then show ?case by (simp add: httpSums_def zeroHttpStat_def timesHttp_def)
next
  case (snoc x xs)
  then show ?case using httpSums_add by simp
qed

lemma httpSums_core: "httpSums xs (coreOf s) = httpSums xs s"
  by (simp add: httpSums_def coreOf_def)

lemma buckets_http:
  assumes "int (length xs) \<le> int64_max"
  shows "hs_buckets (fold addCore xs zeroHttpStat) = counts_of numBuckets bucketFor (timesHttp xs)"
  using assms
proof (induction xs rule: rev_induct)
  case Nil
  then show ?case by (simp add: zeroHttpStat_def timesHttp_def counts_of_Nil)
next
  case (snoc x xs)
  have "countIn (bucketFor (ho_duration (clampObs x))) (counts_of numBuckets bucketFor (timesHttp xs)) =
      counts_of numBuckets bucketFor (timesHttp xs @ [ho_duration (clampObs x)])"
    using snoc.prems by (intro countIn_counts agg.bucket_lt) (simp add: timesHttp_def)
  with snoc show ?case by (simp add: addCore_def addTiming_def addHttpTotals_def timesHttp_def)
qed

lemma fold_addDigest: "fold addDigest xs (digest zeroHttpStat) = (fold addCore xs zeroHttpStat, wrapSum shapesIn xs, wrapSum callsIn xs)"
proof (induction xs rule: rev_induct)
  case Nil
  then show ?case by (simp add: digest_def coreOf_def shapesOf_def callsOf_def zeroHttpStat_def)
next
  case (snoc x xs)
  then show ?case by (simp add: addDigest_def wrapSum_snoc)
qed

lemma rank_by_twentieths: "int n - int n sdiv 20 = int (rank95 n)"
proof -
  have "n = 20 * (n div 20) + n mod 20" "n mod 20 < 20" by simp_all
  then have "(n - n div 20) * 100 \<le> 95 * n + 99" "95 * n + 99 < 100 + (n - n div 20) * 100" by linarith+
  then have "n - n div 20 = (95 * n + 99) div 100" by (intro div_nat_eqI [symmetric]) (simp_all add: mult.commute)
  then have "int n - int (n div 20) = int (rank95 n)" by (simp add: rank95_def flip: of_nat_diff)
  then show ?thesis by (simp add: signed_divide_int_def zdiv_int rank95_def)
qed

lemma p95_of_counts:
  assumes "xs \<noteq> []" and "\<forall>x \<in> set xs. 0 \<le> x \<and> in_int64 x" and "int (length xs) \<le> int64_max"
    and "hs_count s = int (length xs)" and "hs_buckets s = counts_of numBuckets bucketFor xs" and "hs_max s = fold max xs 0"
  shows "percentile95 xs \<le> p95_http s \<and> (if percentile95 xs < 2 ^ 38 then p95_http s \<le> 2 * percentile95 xs else p95_http s = hs_max s)"
proof -
  let ?q = "percentile95 xs"
  have m: "?q \<in> set xs" by (rule agg.percentile_mem [OF assms(1)])
  then have q: "0 \<le> ?q" "in_int64 ?q" "?q \<le> hs_max s" using assms(2,6) fold_max_ge [where zs = xs and a = 0] by auto
  have "rank95 (length xs) \<le> length xs" by (simp add: rank95_def)
  then have "wrap64 (int (rank95 (length xs))) = int (rank95 (length xs))" using assms(3) by (intro wrap64_id) (auto simp: go_defs)
  then have "p95_http s = (if bucketFor ?q = 0 then 0 else if bucketFor ?q = numBuckets - 1 then hs_max s else 2 ^ bucketFor ?q)"
    using agg.rank_bucket [OF assms(1-3)] assms(4,5) by (simp add: p95_http_def rank_by_twentieths)
  moreover have "?q < 2 ^ 38 \<longleftrightarrow> bucketFor ?q < numBuckets - 1" "bucketFor ?q < numBuckets"
    using bucketFor_le_iff [OF q(1,2), of 38] agg.bucket_lt [of ?q] by (auto simp: numBuckets_def)
  ultimately show ?thesis using bucket_bounds [OF q(1,2) refl] q by (auto simp: numBuckets_def)
qed


subsection \<open>What a table holds\<close>

definition rowIdOf :: "httpTable \<Rightarrow> identity \<Rightarrow> identity" where
  "rowIdOf t j = (if rowOfId t j = None then overflowIdentity else j)"

definition rowRequests :: "identity \<Rightarrow> httpTable \<Rightarrow> request list \<Rightarrow> httpObs list" where
  "rowRequests k t reqs = obsOf (\<lambda>j. rowIdOf t j = k) reqs"

lemma rowIdOf_eq:
  "(rowIdOf t j = overflowIdentity) = (j = overflowIdentity \<or> rowOfId t j = None)"
  "k \<noteq> overflowIdentity \<Longrightarrow> rowOfId t k \<noteq> None \<Longrightarrow> (rowIdOf t j = k) = (j = k)"
  by (auto simp: rowIdOf_def)

lemma digestRow_None: "digestRow t k = None \<longleftrightarrow> rowOfId t k = None"
  by (simp add: digestRow_def)

lemma new_http_inv:
  assumes "maxKeys \<le> int64_max"
  shows "http_inv (newTable_http maxKeys)" and "digestRow (newTable_http maxKeys) k = None"
proof -
  have "rowOfId (newTable_http maxKeys) i = None" for i by (simp add: rowOfId_def newTable_http_def)
  then show "http_inv (newTable_http maxKeys)" "digestRow (newTable_http maxKeys) k = None"
    using assms by (simp_all add: http_inv_def counted_def digestRow_def) (simp_all add: newTable_http_def)
qed

lemma maxKeys_observe: "ht_maxKeys (observeRequestWork ident x t) = ht_maxKeys t" if "http_inv t"
  using that by (simp add: observe_eq putHttp_shards)

lemma http_run:
  assumes "maxKeys \<le> int64_max" and "t = ObserveHttp reqs (newTable_http maxKeys)"
  shows "http_inv t" and "ht_maxKeys t = maxKeys"
    and "digestRow t k = (if rowOfId t k = None then None else merged addDigest (digest zeroHttpStat) (rowRequests k t reqs))"
    and "rowRequests overflowIdentity t reqs \<noteq> [] \<Longrightarrow> rowOfId t overflowIdentity \<noteq> None"
proof -
  have acc: "http.accounted reqs t" unfolding assms(2) using new_http_inv [OF assms(1)] by (rule http.accounted_all)
  then show "http_inv t" by (simp add: http.accounted_def)
  have "http_inv (ObserveHttp rs (newTable_http maxKeys)) \<and> ht_maxKeys (ObserveHttp rs (newTable_http maxKeys)) = maxKeys" for rs
  proof (induction rs rule: rev_induct)
    case Nil
    then show ?case using new_http_inv [OF assms(1)] by (simp add: newTable_http_def)
  qed (auto simp: http_inv_observe maxKeys_observe)
  then show "ht_maxKeys t = maxKeys" by (simp add: assms(2))
  have other: "digestRow t overflowIdentity = merged addDigest (digest zeroHttpStat) (rowRequests overflowIdentity t reqs)"
    using acc by (simp add: http.accounted_def rowRequests_def digestRow_None rowIdOf_eq(1))
  then show "rowRequests overflowIdentity t reqs \<noteq> [] \<Longrightarrow> rowOfId t overflowIdentity \<noteq> None"
    by (auto simp: merged_def digestRow_None [symmetric])
  show "digestRow t k = (if rowOfId t k = None then None else merged addDigest (digest zeroHttpStat) (rowRequests k t reqs))"
    using acc other digestRow_None [of t overflowIdentity]
    by (cases "k = overflowIdentity") (auto simp: http.accounted_def rowRequests_def digestRow_None rowIdOf_eq(2))
qed

lemma http_row:
  assumes "maxKeys \<le> int64_max" and "t = ObserveHttp reqs (newTable_http maxKeys)" and "rowOfId t k = Some s"
  shows "rowRequests k t reqs \<noteq> []" and "coreOf s = fold addCore (rowRequests k t reqs) zeroHttpStat"
    and "shapesOf s = wrapSum shapesIn (rowRequests k t reqs)" and "callsOf s = wrapSum callsIn (rowRequests k t reqs)"
proof -
  have "merged addDigest (digest zeroHttpStat) (rowRequests k t reqs) = Some (digest s)"
    using http_run(3) [OF assms(1,2), of k] assms(3) by (simp add: digestRow_def)
  then show "rowRequests k t reqs \<noteq> []" "coreOf s = fold addCore (rowRequests k t reqs) zeroHttpStat"
    "shapesOf s = wrapSum shapesIn (rowRequests k t reqs)" "callsOf s = wrapSum callsIn (rowRequests k t reqs)"
    unfolding merged_def fold_addDigest by (auto simp: digest_def split: if_splits)
qed

lemma rowRequests_length: "length (rowRequests k t reqs) \<le> length reqs"
  by (simp add: rowRequests_def obsOf_def)

lemma rowRequests_mem: "x \<in> set (rowRequests k t reqs) \<Longrightarrow> \<exists>j. (j, x) \<in> set reqs"
  by (auto simp: rowRequests_def obsOf_def)

lemma http_row_percentile:
  assumes "maxKeys \<le> int64_max" and "t = ObserveHttp reqs (newTable_http maxKeys)" and "rowOfId t k = Some s"
    and "int (length reqs) \<le> int64_max" and "\<forall>(j, x) \<in> set reqs. in_int64 (ho_duration x)" and "xs = timesHttp (rowRequests k t reqs)"
  shows "percentile95 xs \<le> p95_http s \<and> (if percentile95 xs < 2 ^ 38 then p95_http s \<le> 2 * percentile95 xs else p95_http s = hs_max s)"
proof (rule p95_of_counts)
  note row = http_row [OF assms(1-3)]
  have len: "int (length (rowRequests k t reqs)) \<le> int64_max" using rowRequests_length [of k t reqs] assms(4) by linarith
  have sums: "httpSums (rowRequests k t reqs) s" using httpSums_fold row(2) httpSums_core by metis
  show "xs \<noteq> []" using row(1) by (simp add: assms(6) timesHttp_def)
  show "\<forall>x \<in> set xs. 0 \<le> x \<and> in_int64 x"
    using assms(5) by (auto simp: assms(6) timesHttp_def clampObs_parts go_defs dest!: rowRequests_mem)
  show "int (length xs) \<le> int64_max" using len by (simp add: assms(6) timesHttp_def)
  show "hs_count s = int (length xs)"
    using sums len wrap64_id [of "int (length (rowRequests k t reqs))"]
    by (simp add: httpSums_def wrapSum_def assms(6) timesHttp_def sum_list_triv) (simp add: go_defs)
  show "hs_max s = fold max xs 0" using sums by (simp add: httpSums_def assms(6))
  have "hs_buckets s = hs_buckets (coreOf s)" by (simp add: coreOf_def)
  then show "hs_buckets s = counts_of numBuckets bucketFor xs" using buckets_http [OF len] by (simp add: row(2) assms(6))
qed


definition twoRequests :: "request list" where
  "twoRequests = map (\<lambda>(p, d). (\<lparr>id_method = ''GET'', id_path = p, id_protocol = ''HTTP/1.1'', id_status = 200\<rparr>,
      \<lparr>ho_duration = d, ho_bytes = 10, ho_sqlCount = 1, ho_tracked = True, ho_shapes = Some [(''S'', zeroShape\<lparr>sh_Count := 1\<rparr>)], ho_work = None\<rparr>))
     [(''/a'', 700), (''/b'', 1300)]"


end
