(* ===== verification/Go_Regexp.thy ===== *)
theory Go_Regexp
  imports Go_Strings
begin

text \<open>
  The part of Go's \<open>regexp\<close> the query normalizer uses: bytes, sequence, choice, greedy repetition and
  word boundaries, with leftmost-first matching. \<open>rxEnds\<close> lists the ends of all matches from a position in the
  order in which the engine prefers them. Every class in use holds ASCII bytes only, so matching bytes is matching runes.
\<close>

datatype rx =
    RByte "char \<Rightarrow> bool"
  | RSeq rx rx
  | RAlt rx rx
  | ROpt rx
  | RStar rx
  | RBoundary

definition rxWord :: "char \<Rightarrow> bool" where
  "rxWord c \<longleftrightarrow> (CHR ''0'' \<le> c \<and> c \<le> CHR ''9'') \<or> (CHR ''A'' \<le> c \<and> c \<le> CHR ''Z'') \<or> (CHR ''a'' \<le> c \<and> c \<le> CHR ''z'') \<or> c = CHR ''_''"

definition atBoundary :: "string \<Rightarrow> nat \<Rightarrow> bool" where
  "atBoundary s i \<longleftrightarrow> (0 < i \<and> rxWord (s ! (i - 1))) \<noteq> (i < length s \<and> rxWord (s ! i))"

function rxEnds :: "string \<Rightarrow> rx \<Rightarrow> nat \<Rightarrow> nat list" where
  "rxEnds s (RByte p) i = (if i < length s \<and> p (s ! i) then [i + 1] else [])"
| "rxEnds s (RSeq a b) i = concat (map (rxEnds s b) (rxEnds s a i))"
| "rxEnds s (RAlt a b) i = rxEnds s a i @ rxEnds s b i"
| "rxEnds s (ROpt a) i = rxEnds s a i @ [i]"
| "rxEnds s (RStar a) i = concat (map (rxEnds s (RStar a)) (filter (\<lambda>j. i < j \<and> j \<le> length s) (rxEnds s a i))) @ [i]"
| "rxEnds s RBoundary i = (if atBoundary s i then [i] else [])"
  by pat_completeness auto
termination
  by (relation "measures [\<lambda>(s, r, i). size r, \<lambda>(s, r, i). length s - i]") auto

definition rxPlus :: "rx \<Rightarrow> rx" where
  "rxPlus a = RSeq a (RStar a)"

definition rxChar :: "char \<Rightarrow> rx" where
  "rxChar c = RByte (\<lambda>x. x = c)"

definition rxOneOf :: "string \<Rightarrow> rx" where
  "rxOneOf cs = RByte (\<lambda>x. x \<in> set cs)"

primrec rxSeq :: "rx list \<Rightarrow> rx \<Rightarrow> rx" where
  "rxSeq [] z = z"
| "rxSeq (a # as) z = RSeq a (rxSeq as z)"

text \<open>\<open>ReplaceAllString\<close> with a replacement that has no \<open>$\<close>, for expressions that match no empty string.\<close>

function rxReplaceFrom :: "rx \<Rightarrow> string \<Rightarrow> string \<Rightarrow> nat \<Rightarrow> string" where
  "rxReplaceFrom r repl s i =
     (if i \<ge> length s then []
      else case rxEnds s r i of
             e # es \<Rightarrow> if i < e then repl @ rxReplaceFrom r repl s e else s ! i # rxReplaceFrom r repl s (i + 1)
           | [] \<Rightarrow> s ! i # rxReplaceFrom r repl s (i + 1))"
  by pat_completeness auto
termination
  by (relation "measure (\<lambda>(r, repl, s, i). length s - i)") auto

declare rxReplaceFrom.simps [simp del]

definition ReplaceAllString :: "rx \<Rightarrow> string \<Rightarrow> string \<Rightarrow> string" where
  "ReplaceAllString r s repl = rxReplaceFrom r repl s 0"

end
