(* ===== verification/Query_Shapes.thy ===== *)
theory Query_Shapes
  imports Go_Regexp Sql_Classify Tables
begin

text \<open>
  \<open>sqlstats/normalize.go\<close>: the shape of a SQL statement, under which it is reported. Literals and comments are
  scrubbed in one pass over the bytes, white space is collapsed, numbers and placeholder lists are masked, and a
  bounded cache keeps results. The position in the statement is the text that remains; the cache is a list of
  keys and shapes, and a load and a store of it are one step.
\<close>

abbreviation (input) "maxQueryLen \<equiv> (1000 :: nat)"
abbreviation (input) "maxCacheEntries \<equiv> (50000 :: int)"
abbreviation (input) "maxCacheableLen \<equiv> (4096 :: nat)"
abbreviation (input) "maxTagLen \<equiv> (64 :: nat)"

datatype CommentTagPolicy = CommentTagsOn | CommentTagsOff

text \<open>
  \<open>strings.ToLower\<close>, as far as a comparison with ASCII words can tell: the ASCII letters, and the two runes outside ASCII
  whose lower case is an ASCII letter (dotted capital i and the Kelvin sign).
\<close>

definition lowerRune :: "rune \<Rightarrow> rune" where
  "lowerRune r = (if 65 \<le> r \<and> r \<le> 90 then r + 32 else if r = 0x130 then 105 else if r = 0x212A then 107 else r)"

definition strings_ToLower :: "string \<Rightarrow> string" where
  "strings_ToLower s = encode (map lowerRune (runes s))"

text \<open>The value of the environment variable; \<open>None\<close> is a missing lookup function.\<close>

definition ResolveCommentTagPolicy :: "string option \<Rightarrow> CommentTagPolicy \<times> string" where
  "ResolveCommentTagPolicy env =
     (case env of
        None \<Rightarrow> (CommentTagsOn, ''default-on'')
      | Some v \<Rightarrow>
          (let w = strings_ToLower (strings_TrimSpace v) in
           if w \<in> {''off'', ''0'', ''false'', ''no'', ''disabled''} then (CommentTagsOff, ''configured-off'')
           else if w \<in> {[], ''on'', ''1'', ''true'', ''yes'', ''enabled''} then (CommentTagsOn, ''default-on'')
           else (CommentTagsOn, ''invalid-value'')))"

subsection \<open>Regular expressions\<close>

definition rxDigit :: rx where "rxDigit = RByte (\<lambda>c. CHR ''0'' \<le> c \<and> c \<le> CHR ''9'')"

definition numberLiteral :: rx where
  "numberLiteral =
     rxSeq [RAlt (rxSeq [RBoundary, rxPlus rxDigit] (ROpt (RSeq (rxChar CHR ''.'') (RStar rxDigit)))) (RSeq (rxChar CHR ''.'') (rxPlus rxDigit)),
            ROpt (rxSeq [rxOneOf ''eE'', ROpt (rxOneOf ''+-'')] (rxPlus rxDigit))] RBoundary"

definition hexLiteral :: rx where
  "hexLiteral =
     RAlt (rxSeq [RBoundary, rxChar CHR ''0'', rxOneOf ''xX'', rxPlus (rxOneOf ''0123456789abcdefABCDEF'')] RBoundary)
     (RAlt (rxSeq [RBoundary, rxChar CHR ''0'', rxOneOf ''bB'', rxPlus (rxOneOf ''01'')] RBoundary)
           (rxSeq [RBoundary, rxOneOf ''XxBb''] (rxChar CHR ''?'')))"

definition rxSpace :: rx where "rxSpace = rxOneOf [CHR 0x09, CHR 0x0A, CHR 0x0C, CHR 0x0D, CHR '' '']"

definition placeholder :: rx where
  "placeholder = RAlt (rxChar CHR ''?'') (RSeq (rxChar CHR ''$'') (rxChar CHR ''?''))"

definition placeholderIN :: rx where
  "placeholderIN =
     rxSeq [RBoundary, rxOneOf ''Ii'', rxOneOf ''Nn'', RStar rxSpace, rxChar CHR ''('', RStar rxSpace, placeholder,
            RStar (rxSeq [RStar rxSpace, rxChar CHR '','', RStar rxSpace] placeholder), RStar rxSpace] (rxChar CHR '')'')"

definition safeTag :: "string \<Rightarrow> bool" where
  "safeTag s \<longleftrightarrow>
     (case s of [] \<Rightarrow> False
      | c # cs \<Rightarrow> (rxWord c \<and> \<not> (CHR ''0'' \<le> c \<and> c \<le> CHR ''9'')) \<and> length cs \<le> 63 \<and> list_all (\<lambda>c. rxWord c \<or> c \<in> set ''.:-'') cs)"

subsection \<open>Scrubbing\<close>

text \<open>\<open>skipQuoted\<close>, from just after the opening quote, is the loop that the statement classifier has too.\<close>

definition skipQuoted :: "char \<Rightarrow> string \<Rightarrow> string" where
  "skipQuoted quote cs = skipQuotedFrom quote cs"

definition isDollarTagByte :: "char \<Rightarrow> nat \<Rightarrow> bool" where
  "isDollarTagByte c index \<longleftrightarrow>
     (CHR ''a'' \<le> c \<and> c \<le> CHR ''z'') \<or> (CHR ''A'' \<le> c \<and> c \<le> CHR ''Z'') \<or> c = CHR ''_'' \<or> (index > 0 \<and> CHR ''0'' \<le> c \<and> c \<le> CHR ''9'')"

definition dollarName :: "string \<Rightarrow> bool" where
  "dollarName name \<longleftrightarrow> list_all (\<lambda>(i, c). isDollarTagByte c i) (enumerate 0 name)"

text \<open>\<open>skipDollarQuoted\<close>, from just after the first dollar sign; \<open>None\<close> when no dollar-quoted literal starts there.\<close>

definition skipDollarQuoted :: "string \<Rightarrow> string option" where
  "skipDollarQuoted cs =
     (case strings_IndexByte cs CHR ''$'' of
        None \<Rightarrow> None
      | Some endTag \<Rightarrow>
          if endTag > 64 then None
          else
            let name = take endTag cs; body = drop (endTag + 1) cs; delim = ''$'' @ name @ ''$''
            in if \<not> dollarName name then None
               else (case strings_Index body delim of None \<Rightarrow> Some [] | Some closeAt \<Rightarrow> Some (drop (closeAt + length delim) body)))"

lemma skipDollar_shorter: "skipDollarQuoted cs = Some rest \<Longrightarrow> length rest \<le> length cs"
  by (auto simp: skipDollarQuoted_def Let_def split: option.splits if_splits)

definition usableTag :: "string \<Rightarrow> bool" where
  "usableTag comment \<longleftrightarrow> length (strings_TrimSpace comment) \<le> maxTagLen \<and> safeTag (strings_TrimSpace comment)"

definition takeTag :: "bool \<Rightarrow> string \<Rightarrow> string \<Rightarrow> string" where
  "takeTag extractTag comment tag = (if extractTag \<and> tag = [] \<and> usableTag comment then strings_TrimSpace comment else tag)"

function scrubSQL :: "bool \<Rightarrow> string \<Rightarrow> string \<Rightarrow> string \<times> string" where
  "scrubSQL extractTag tag [] = ([], tag)"
| "scrubSQL extractTag tag (c # cs) =
     (if c = CHR ''/'' \<and> take 1 cs = ''*'' then
        (case strings_Index (tl cs) ''*/'' of
           None \<Rightarrow> ('' '', tag)
         | Some n \<Rightarrow> apfst (\<lambda>b. CHR '' '' # b) (scrubSQL extractTag (takeTag extractTag (take n (tl cs)) tag) (drop (n + 2) (tl cs))))
      else if c = CHR ''-'' \<and> take 1 cs = ''-'' then
        (case strings_IndexByte (tl cs) (CHR 0x0A) of
           Some n \<Rightarrow> apfst (\<lambda>b. CHR '' '' # b) (scrubSQL extractTag tag (drop (n + 1) (tl cs)))
         | None \<Rightarrow> ([], tag))
      else if c = CHR ''#'' then
        (case strings_IndexByte cs (CHR 0x0A) of
           Some n \<Rightarrow> apfst (\<lambda>b. CHR '' '' # b) (scrubSQL extractTag tag (drop (n + 1) cs))
         | None \<Rightarrow> ([], tag))
      else if c = CHR 0x27 then apfst (\<lambda>b. CHR ''?'' # b) (scrubSQL extractTag tag (skipQuoted c cs))
      else if c = CHR ''$'' then
        (case skipDollarQuoted cs of
           Some rest \<Rightarrow> apfst (\<lambda>b. CHR ''?'' # b) (scrubSQL extractTag tag rest)
         | None \<Rightarrow> apfst (\<lambda>b. c # b) (scrubSQL extractTag tag cs))
      else apfst (\<lambda>b. c # b) (scrubSQL extractTag tag cs))"
  by pat_completeness auto
termination
  by (relation "measure (\<lambda>(extractTag, tag, q). length q)")
    (auto simp: skipQuoted_def length_skipQuotedFrom le_imp_less_Suc dest!: skipDollar_shorter)

declare scrubSQL.simps(2) [simp del]

subsection \<open>Shapes\<close>

definition computeNormalizeWithPolicy :: "string \<Rightarrow> CommentTagPolicy \<Rightarrow> string" where
  "computeNormalizeWithPolicy q policy =
     (let (s, tag) = scrubSQL (policy = CommentTagsOn) [] q;
          s1 = strings_Join (strings_Fields s) '' '';
          s2 = ReplaceAllString hexLiteral s1 ''?'';
          s3 = ReplaceAllString numberLiteral s2 ''?'';
          s4 = ReplaceAllString placeholderIN s3 ''IN (?)'';
          s5 = (if tag \<noteq> [] then ''['' @ tag @ ''] '' @ s4 else s4)
      in take maxQueryLen s5)"

record normCache =
  nc_entries :: "((string \<times> CommentTagPolicy) \<times> string) list"
  nc_size :: int

definition normalizeQuery :: "CommentTagPolicy \<Rightarrow> string \<Rightarrow> normCache \<Rightarrow> string \<times> normCache" where
  "normalizeQuery policy q c =
     (case map_of (nc_entries c) (q, policy) of
        Some v \<Rightarrow> (v, c)
      | None \<Rightarrow>
          (let n = computeNormalizeWithPolicy q policy
           in (n, if length q \<le> maxCacheableLen \<and> nc_size c < maxCacheEntries
                  then c\<lparr>nc_entries := ((q, policy), n) # nc_entries c, nc_size := nc_size c + 1\<rparr> else c)))"


subsection \<open>Literals and comments do not reach the shape\<close>

text \<open>A byte that starts neither a comment nor a literal.\<close>

definition plainAt :: "char \<Rightarrow> string \<Rightarrow> bool" where
  "plainAt c cs \<longleftrightarrow> \<not> (c = CHR ''/'' \<and> take 1 cs = ''*'') \<and> \<not> (c = CHR ''-'' \<and> take 1 cs = ''-'') \<and> c \<noteq> CHR ''#'' \<and> c \<noteq> CHR 0x27 \<and>
     (c = CHR ''$'' \<longrightarrow> skipDollarQuoted cs = None)"

text \<open>
  Statements that differ only inside quotes, dollar quotes and comments. Quotes and backslashes inside quotes are
  doubled; a comment may differ unless it is a tag that is extracted.
\<close>

inductive sameText :: "bool \<Rightarrow> string \<Rightarrow> string \<Rightarrow> bool" for tags :: bool where
  same_nil: "sameText tags [] []"
| same_plain: "sameText tags q q' \<Longrightarrow> plainAt c q \<Longrightarrow> plainAt c q' \<Longrightarrow> sameText tags (c # q) (c # q')"
| same_quoted: "sameText tags q q' \<Longrightarrow> take 1 q \<noteq> [CHR 0x27] \<Longrightarrow> take 1 q' \<noteq> [CHR 0x27] \<Longrightarrow>
    sameText tags (CHR 0x27 # escapeQuoted (CHR 0x27) x @ CHR 0x27 # q) (CHR 0x27 # escapeQuoted (CHR 0x27) x' @ CHR 0x27 # q')"
| same_dollar: "sameText tags q q' \<Longrightarrow> dollarName name \<Longrightarrow> length name \<le> 64 \<Longrightarrow> CHR ''$'' \<notin> set name \<Longrightarrow>
    strings_Index (x @ ''$'' @ name @ ''$'' @ q) (''$'' @ name @ ''$'') = Some (length x) \<Longrightarrow>
    strings_Index (x' @ ''$'' @ name @ ''$'' @ q') (''$'' @ name @ ''$'') = Some (length x') \<Longrightarrow>
    sameText tags (''$'' @ name @ ''$'' @ x @ ''$'' @ name @ ''$'' @ q) (''$'' @ name @ ''$'' @ x' @ ''$'' @ name @ ''$'' @ q')"
| same_block: "sameText tags q q' \<Longrightarrow> strings_Index x ''*/'' = None \<Longrightarrow> strings_Index x' ''*/'' = None \<Longrightarrow>
    x = x' \<or> \<not> tags \<or> \<not> usableTag x \<and> \<not> usableTag x' \<Longrightarrow> sameText tags (''/*'' @ x @ ''*/'' @ q) (''/*'' @ x' @ ''*/'' @ q')"
| same_line: "sameText tags q q' \<Longrightarrow> CHR 0x0A \<notin> set x \<Longrightarrow> CHR 0x0A \<notin> set x' \<Longrightarrow> start = ''--'' \<or> start = ''#'' \<Longrightarrow>
    sameText tags (start @ x @ CHR 0x0A # q) (start @ x' @ CHR 0x0A # q')"

lemma scrub_plain: "plainAt c cs \<Longrightarrow> scrubSQL e tag (c # cs) = apfst (\<lambda>b. c # b) (scrubSQL e tag cs)"
  by (auto simp: scrubSQL.simps plainAt_def split: option.split)

lemma scrub_quoted:
  assumes "take 1 q \<noteq> [CHR 0x27]"
  shows "scrubSQL e tag (CHR 0x27 # escapeQuoted (CHR 0x27) x @ CHR 0x27 # q) = apfst (\<lambda>b. CHR ''?'' # b) (scrubSQL e tag q)"
proof -
  have "skipQuotedFrom (CHR 0x27) (escapeQuoted (CHR 0x27) x @ CHR 0x27 # q) = q"
    using assms by (intro skipQuotedFrom_escaped) (simp add: backslash_def, cases q, simp_all)
  then show ?thesis by (simp add: skipQuoted_def scrubSQL.simps(2) [of _ _ "CHR 0x27"])
qed

lemma scrub_dollar:
  assumes "dollarName name" and "length name \<le> 64" and "CHR ''$'' \<notin> set name"
    and "strings_Index (x @ ''$'' @ name @ ''$'' @ q) (''$'' @ name @ ''$'') = Some (length x)"
  shows "scrubSQL e tag (''$'' @ name @ ''$'' @ x @ ''$'' @ name @ ''$'' @ q) = apfst (\<lambda>b. CHR ''?'' # b) (scrubSQL e tag q)"
proof -
  have "skipDollarQuoted (name @ ''$'' @ x @ ''$'' @ name @ ''$'' @ q) = Some q"
    using assms strings_IndexByte_append [OF assms(3)] by (simp add: skipDollarQuoted_def)
  then show ?thesis by (simp add: scrubSQL.simps(2) [of _ _ "CHR ''$''"])
qed

lemma scrub_block:
  assumes "strings_Index x ''*/'' = None"
  shows "scrubSQL e tag (''/*'' @ x @ ''*/'' @ q) = apfst (\<lambda>b. CHR '' '' # b) (scrubSQL e (takeTag e x tag) q)"
  using strings_Index_comment [OF assms, of q] by (simp add: scrubSQL.simps(2) [of _ _ "CHR ''/''"])

lemma scrub_line:
  assumes "CHR 0x0A \<notin> set x" and "start = ''--'' \<or> start = ''#''"
  shows "scrubSQL e tag (start @ x @ CHR 0x0A # q) = apfst (\<lambda>b. CHR '' '' # b) (scrubSQL e tag q)"
  using assms strings_IndexByte_append [OF assms(1), of q]
  by (auto simp: scrubSQL.simps(2) [of _ _ "CHR ''-''"] scrubSQL.simps(2) [of _ _ "CHR ''#''"])

lemma sameText_scrub: "sameText e q q' \<Longrightarrow> scrubSQL e tag q = scrubSQL e tag q'"
proof (induction arbitrary: tag rule: sameText.induct)
  case (same_block q q' x x')
  then have "takeTag e x tag = takeTag e x' tag" by (auto simp: takeTag_def)
  with same_block show ?case by (simp only: scrub_block)
next
  case (same_line q q' x x' start)
  then show ?case using scrub_line [of x start] scrub_line [of x' start] by simp
next
  case (same_dollar q q' name x x')
  then show ?case using scrub_dollar [of name x q] scrub_dollar [of name x' q'] by presburger
next
  case (same_quoted q q' x x')
  then show ?case using scrub_quoted [of q] scrub_quoted [of q'] by presburger
next
  case (same_plain q q' c)
  then show ?case using scrub_plain [of c q] scrub_plain [of c q'] by presburger
qed simp


subsection \<open>The cache\<close>

definition cache_inv :: "normCache \<Rightarrow> bool" where
  "cache_inv c \<longleftrightarrow> int (length (nc_entries c)) = nc_size c \<and> nc_size c \<le> maxCacheEntries \<and> distinct (map fst (nc_entries c)) \<and>
     (\<forall>((q, policy), n) \<in> set (nc_entries c). n = computeNormalizeWithPolicy q policy \<and> length q \<le> maxCacheableLen)"

fun normalizeAll :: "(CommentTagPolicy \<times> string) list \<Rightarrow> normCache \<Rightarrow> string list \<times> normCache" where
  "normalizeAll [] c = ([], c)"
| "normalizeAll ((policy, q) # qs) c =
     (case normalizeQuery policy q c of (n, c1) \<Rightarrow> case normalizeAll qs c1 of (ns, c2) \<Rightarrow> (n # ns, c2))"

lemma normalizeQuery_inv:
  assumes "cache_inv c"
  shows "fst (normalizeQuery policy q c) = computeNormalizeWithPolicy q policy" and "cache_inv (snd (normalizeQuery policy q c))"
proof -
  have "v = computeNormalizeWithPolicy q policy" if "map_of (nc_entries c) (q, policy) = Some v" for v
    using assms map_of_SomeD [OF that] by (auto simp: cache_inv_def)
  then show "fst (normalizeQuery policy q c) = computeNormalizeWithPolicy q policy"
    by (auto simp: normalizeQuery_def Let_def split: option.split)
  have "(q, policy) \<notin> fst ` set (nc_entries c)" if "map_of (nc_entries c) (q, policy) = None"
    using that by (simp add: map_of_eq_None_iff)
  then show "cache_inv (snd (normalizeQuery policy q c))"
    using assms by (auto simp: normalizeQuery_def cache_inv_def Let_def split: option.split)
qed

lemma normalizeAll_inv:
  "cache_inv c \<Longrightarrow> normalizeAll qs c = (ns, c') \<Longrightarrow> ns = map (\<lambda>(policy, q). computeNormalizeWithPolicy q policy) qs \<and> cache_inv c'"
proof (induction qs arbitrary: c ns)
  case (Cons pq qs)
  obtain policy q where pq: "pq = (policy, q)" by (cases pq)
  obtain n c1 where n: "normalizeQuery policy q c = (n, c1)" by fastforce
  have "n = computeNormalizeWithPolicy q policy" "cache_inv c1" using normalizeQuery_inv [OF Cons.prems(1), of policy q] n by simp_all
  with Cons.IH [of c1] Cons.prems(2) n show ?case by (auto simp: pq split: prod.splits)
qed simp



text \<open>Double quotes are not literals to the scrubber: what is inside them is kept.\<close>

lemma double_quotes_survive:
  assumes "list_all (\<lambda>c. c \<notin> set ''/-#$'' \<and> c \<noteq> CHR 0x27) q"
  shows "scrubSQL e tag (CHR 0x22 # q @ [CHR 0x22]) = (CHR 0x22 # q @ [CHR 0x22], tag)"
proof -
  have "scrubSQL e tag (q @ [CHR 0x22]) = (q @ [CHR 0x22], tag)" using assms
    by (induction q) (simp_all add: scrub_plain plainAt_def)
  then show ?thesis by (simp add: scrub_plain plainAt_def)
qed

end
