(* ===== verification/Registries.thy ===== *)
theory Registries
  imports Tables Errors Budget Go_Strings "HOL-Library.List_Lexorder" "HOL-Library.Char_ord"
begin

text \<open>
  Three small process-wide parts: the health registry (\<open>internal/health/health.go\<close>), the owner of the
  runtime's diagnostic facilities (\<open>internal/profileowner/owner.go\<close>), and the guard that serializes
  initialize handlers with the identifiers of runs (\<open>internal/runctl/initialize.go\<close>, \<open>id.go\<close>).
\<close>

subsection \<open>Health\<close>

definition StatusDegraded :: string where "StatusDegraded = ''degraded''"
definition StatusFailed :: string where "StatusFailed = ''failed''"

record HealthEntry =
  hl_Collector :: string
  hl_Status :: string
  hl_Message :: string
  hl_Dropped :: nat

definition zeroHealth :: HealthEntry where
  "zeroHealth = \<lparr>hl_Collector = [], hl_Status = [], hl_Message = [], hl_Dropped = 0\<rparr>"

type_synonym healthRegistry = "(string \<times> HealthEntry) list"

definition SetHealth :: "string \<Rightarrow> string \<Rightarrow> string \<Rightarrow> healthRegistry \<Rightarrow> healthRegistry" where
  "SetHealth collector status message =
     alter collector zeroHealth (\<lambda>e. e\<lparr>hl_Collector := collector, hl_Status := status, hl_Message := message\<rparr>)"

definition AddDropped :: "string \<Rightarrow> nat \<Rightarrow> healthRegistry \<Rightarrow> healthRegistry" where
  "AddDropped collector n r =
     (if n = 0 then r
      else alter collector zeroHealth
        (\<lambda>e. e\<lparr>hl_Collector := collector, hl_Status := (if hl_Status e = [] then StatusDegraded else hl_Status e),
              hl_Dropped := (hl_Dropped e + n) mod 2 ^ 64\<rparr>) r)"

definition ResetDropped :: "healthRegistry \<Rightarrow> healthRegistry" where
  "ResetDropped = map (\<lambda>(name, e). (name, e\<lparr>hl_Dropped := 0\<rparr>))"

definition incomplete :: "HealthEntry \<Rightarrow> bool" where
  "incomplete e \<longleftrightarrow> hl_Dropped e > 0 \<or> hl_Status e = StatusDegraded \<or> hl_Status e = StatusFailed"

definition SnapshotHealth :: "healthRegistry \<Rightarrow> HealthEntry list \<times> bool" where
  "SnapshotHealth r = (sort_key hl_Collector (map snd r), list_ex incomplete (map snd r))"

datatype healthOp = HSet string string string | HDrop string nat | HClear

primrec healthExec :: "healthOp \<Rightarrow> healthRegistry \<Rightarrow> healthRegistry" where
  "healthExec (HSet collector status message) = SetHealth collector status message"
| "healthExec (HDrop collector n) = AddDropped collector n"
| "healthExec HClear = ResetDropped"

text \<open>The history of a collector: what was dropped since the counters were last cleared, and its last status.\<close>

fun dropsOf :: "string \<Rightarrow> healthOp list \<Rightarrow> nat" where
  "dropsOf c [] = 0"
| "dropsOf c (HClear # ops) = 0"
| "dropsOf c (HDrop k n # ops) = (if k = c then n else 0) + dropsOf c ops"
| "dropsOf c (_ # ops) = dropsOf c ops"

fun statusFrom :: "string \<Rightarrow> healthOp list \<Rightarrow> string" where
  "statusFrom c [] = StatusDegraded"
| "statusFrom c (HSet k status message # ops) = (if k = c then status else statusFrom c ops)"
| "statusFrom c (_ # ops) = statusFrom c ops"

fun mentions :: "string \<Rightarrow> healthOp \<Rightarrow> bool" where
  "mentions c (HSet k status message) = (k = c)"
| "mentions c (HDrop k n) = (k = c \<and> n \<noteq> 0)"
| "mentions c HClear = False"

definition health_inv :: "healthOp list \<Rightarrow> healthRegistry \<Rightarrow> bool" where
  "health_inv ops r \<longleftrightarrow> distinct (map fst r) \<and> (\<forall>c. (c \<in> fst ` set r) = (\<exists>op \<in> set ops. mentions c op)) \<and>
     (\<forall>(c, e) \<in> set r. hl_Collector e = c \<and> hl_Status e = statusFrom c (rev ops) \<and> hl_Dropped e = dropsOf c (rev ops) mod 2 ^ 64)"

lemma unmentioned:
  "\<not> (\<exists>op \<in> set ops. mentions c op) \<Longrightarrow> statusFrom c ops = StatusDegraded \<and> dropsOf c ops = 0"
proof (induction ops)
  case (Cons op ops)
  then show ?case by (cases op) auto
qed simp

lemma alter_entry:
  assumes "health_inv ops r" and "(c, e) \<in> set (alter k zeroHealth f r)"
  shows "(c, e) \<in> set r \<and> c \<noteq> k \<or> c = k \<and> (\<exists>e0. e = f e0 \<and> hl_Dropped e0 = dropsOf k (rev ops) mod 2 ^ 64 \<and>
     (hl_Status e0 = statusFrom k (rev ops) \<or> e0 = zeroHealth \<and> statusFrom k (rev ops) = StatusDegraded))"
proof -
  have d: "distinct (map fst r)" "distinct (map fst (alter k zeroHealth f r))" using assms(1) distinct_alter by (auto simp: health_inv_def)
  have m: "map_of (alter k zeroHealth f r) c = Some e" using assms(2) d by simp
  show ?thesis
  proof (cases "c = k")
    case True
    show ?thesis
    proof (cases "map_of r k")
      case None
      then have "k \<notin> fst ` set r" by (simp add: map_of_eq_None_iff)
      then have "\<not> (\<exists>op \<in> set (rev ops). mentions k op)" using assms(1) by (simp add: health_inv_def)
      from unmentioned [OF this] None m True show ?thesis by (auto simp: map_of_alter zeroHealth_def)
    next
      case (Some e0)
      then show ?thesis using m True assms(1) map_of_SomeD [OF Some] by (auto simp: map_of_alter health_inv_def)
    qed
  next
    case False
    then show ?thesis using m map_of_SomeD by (fastforce simp: map_of_alter)
  qed
qed


definition statusNamed :: "healthOp list \<Rightarrow> bool" where
  "statusNamed ops \<longleftrightarrow> (\<forall>c message. HSet c [] message \<notin> set ops)"

lemma statusNamed_status: "statusNamed ops \<Longrightarrow> statusFrom c (rev ops) \<noteq> []"
proof -
  have "\<forall>c message. HSet c [] message \<notin> set xs \<Longrightarrow> statusFrom c xs \<noteq> []" for xs
    by (induction c xs rule: statusFrom.induct) (auto simp: StatusDegraded_def)
  then show "statusNamed ops \<Longrightarrow> ?thesis" by (simp add: statusNamed_def)
qed

definition entryOk :: "string \<Rightarrow> healthOp list \<Rightarrow> HealthEntry \<Rightarrow> bool" where
  "entryOk c ops e \<longleftrightarrow> hl_Collector e = c \<and> hl_Status e = statusFrom c (rev ops) \<and> hl_Dropped e = dropsOf c (rev ops) mod 2 ^ 64"

lemma health_inv_alt:
  "health_inv ops r \<longleftrightarrow> distinct (map fst r) \<and> (\<forall>c. (c \<in> fst ` set r) = (\<exists>op \<in> set ops. mentions c op)) \<and> (\<forall>(c, e) \<in> set r. entryOk c ops e)"
  by (simp add: health_inv_def entryOk_def)

lemma health_alter:
  assumes "health_inv ops r" and "\<And>c. mentions c op = (c = k)" and "\<And>c e. c \<noteq> k \<Longrightarrow> entryOk c (ops @ [op]) e = entryOk c ops e"
    and "\<And>e. hl_Dropped e = dropsOf k (rev ops) mod 2 ^ 64 \<Longrightarrow>
      hl_Status e = statusFrom k (rev ops) \<or> e = zeroHealth \<and> statusFrom k (rev ops) = StatusDegraded \<Longrightarrow> entryOk k (ops @ [op]) (f e)"
  shows "health_inv (ops @ [op]) (alter k zeroHealth f r)"
proof -
  have "entryOk c (ops @ [op]) e" if "(c, e) \<in> set (alter k zeroHealth f r)" for c e
  proof (cases "c = k")
    case True
    then show ?thesis using alter_entry [OF assms(1) that] assms(4) by blast
  next
    case False
    then have "(c, e) \<in> set r" using alter_entry [OF assms(1) that] by blast
    then show ?thesis using assms(1,3) False by (auto simp: health_inv_alt)
  qed
  then show ?thesis using assms(1,2) by (auto simp: health_inv_alt distinct_alter keys_alter)
qed

lemma health_step:
  assumes "health_inv ops r" and "statusNamed (ops @ [op])"
  shows "health_inv (ops @ [op]) (healthExec op r)"
proof (cases op)
  case HClear
  then show ?thesis using assms(1) by (auto simp: health_inv_def ResetDropped_def comp_def case_prod_unfold image_image)
next
  case (HSet k status message)
  show ?thesis unfolding HSet healthExec.simps SetHealth_def
    by (rule health_alter [OF assms(1)]) (auto simp: entryOk_def)
next
  case (HDrop k n)
  have "statusFrom k (rev ops) \<noteq> []" using assms(2) statusNamed_status [of ops] by (simp add: statusNamed_def)
  then have "health_inv (ops @ [op]) (alter k zeroHealth
        (\<lambda>e. e\<lparr>hl_Collector := k, hl_Status := (if hl_Status e = [] then StatusDegraded else hl_Status e), hl_Dropped := (hl_Dropped e + n) mod 2 ^ 64\<rparr>) r)"
    if "n \<noteq> 0" using that unfolding HDrop
    by (intro health_alter [OF assms(1)]) (auto simp: entryOk_def zeroHealth_def mod_add_right_eq mod_add_self2 add.commute [of _ n] dvd_def)
  moreover have "health_inv (ops @ [op]) r" if "n = 0" using assms(1) that HDrop by (auto simp: health_inv_def)
  ultimately show ?thesis by (auto simp: HDrop AddDropped_def)
qed

lemma health_run: "statusNamed ops \<Longrightarrow> health_inv ops (fold healthExec ops [])"
proof (induction ops rule: rev_induct)
  case (snoc op ops)
  then show ?case using health_step [of ops] by (simp add: statusNamed_def)
qed (simp add: health_inv_def)

text \<open>
  What the health section reports is the history: exactly the collectors that set a status or dropped
  something, once each and in order, each with its last status (degraded when it only ever dropped) and what it dropped since the
  counters were last reset; the section is partial exactly when one of them is incomplete.
\<close>

lemma health_reports_history:
  assumes "statusNamed ops" and "SnapshotHealth (fold healthExec ops []) = (entries, partial)"
  shows "sorted (map hl_Collector entries)" and "distinct (map hl_Collector entries)"
    and "hl_Collector ` set entries = {c. \<exists>op \<in> set ops. mentions c op}"
    and "e \<in> set entries \<Longrightarrow> hl_Status e = statusFrom (hl_Collector e) (rev ops) \<and> hl_Dropped e = dropsOf (hl_Collector e) (rev ops) mod 2 ^ 64"
    and "partial \<longleftrightarrow> (\<exists>e \<in> set entries. incomplete e)"
proof -
  let ?r = "fold healthExec ops []"
  have inv: "health_inv ops ?r" by (rule health_run [OF assms(1)])
  have e: "entries = sort_key hl_Collector (map snd ?r)" "partial = list_ex incomplete (map snd ?r)"
    using assms(2) by (simp_all add: SnapshotHealth_def)
  have keys: "map hl_Collector (map snd ?r) = map fst ?r" using inv by (auto simp: health_inv_def)
  show "sorted (map hl_Collector entries)" unfolding e(1) by simp
  have "mset (map hl_Collector entries) = mset (map fst ?r)" unfolding keys [symmetric] e(1) by (simp add: multiset.map_comp)
  then show "distinct (map hl_Collector entries)" using inv by (metis health_inv_def mset_eq_imp_distinct_iff)
  show "hl_Collector ` set entries = {c. \<exists>op \<in> set ops. mentions c op}"
    using inv arg_cong [OF keys, of set] unfolding e(1) by (simp add: health_inv_def set_eq_iff image_image)
  show "e \<in> set entries \<Longrightarrow> hl_Status e = statusFrom (hl_Collector e) (rev ops) \<and> hl_Dropped e = dropsOf (hl_Collector e) (rev ops) mod 2 ^ 64"
    using inv unfolding e(1) by (auto simp: health_inv_def)
  show "partial \<longleftrightarrow> (\<exists>e \<in> set entries. incomplete e)" unfolding e by (simp add: list_ex_iff)
qed

subsection \<open>The owner of diagnostics\<close>

text \<open>\<open>None\<close> is a nil registry.\<close>

definition AcquireOwner :: "string \<Rightarrow> string option \<Rightarrow> bool \<times> string option" where
  "AcquireOwner owner r =
     (case r of
        None \<Rightarrow> (False, r)
      | Some cur \<Rightarrow> if owner = [] \<or> cur \<noteq> [] then (False, r) else (True, Some owner))"

definition ReleaseOwner :: "string \<Rightarrow> string option \<Rightarrow> bool \<times> string option" where
  "ReleaseOwner owner r =
     (case r of
        None \<Rightarrow> (False, r)
      | Some cur \<Rightarrow> if owner = [] \<or> cur \<noteq> owner then (False, r) else (True, Some []))"

definition ActiveOwner :: "string option \<Rightarrow> string" where
  "ActiveOwner r = (case r of None \<Rightarrow> [] | Some cur \<Rightarrow> cur)"

datatype ownerOp = OAcquire string | ORelease string

fun ownerRun :: "ownerOp list \<Rightarrow> string option \<Rightarrow> ownerOp list \<times> string option" where
  "ownerRun [] r = ([], r)"
| "ownerRun (op # ops) r =
     (case (case op of OAcquire owner \<Rightarrow> AcquireOwner owner r | ORelease owner \<Rightarrow> ReleaseOwner owner r) of
        (ok, r1) \<Rightarrow> case ownerRun ops r1 of (granted, r2) \<Rightarrow> (if ok then op # granted else granted, r2))"

text \<open>Granted calls alternate: an owner acquires, the same owner releases, and only then another may acquire.\<close>

fun alternates :: "string \<Rightarrow> ownerOp list \<Rightarrow> bool" where
  "alternates cur [] = True"
| "alternates cur (OAcquire owner # ops) = (cur = [] \<and> owner \<noteq> [] \<and> alternates owner ops)"
| "alternates cur (ORelease owner # ops) = (owner \<noteq> [] \<and> cur = owner \<and> alternates [] ops)"

lemma owner_alternates: "ownerRun ops (Some cur) = (granted, r) \<Longrightarrow> alternates cur granted"
proof (induction ops arbitrary: cur granted)
  case (Cons op ops)
  then show ?case
    by (cases op) (fastforce simp: AcquireOwner_def ReleaseOwner_def split: if_splits prod.splits)+
qed simp

lemma nil_owner: "ownerRun ops None = ([], None)"
proof (induction ops)
  case (Cons op ops)
  then show ?case by (cases op) (simp_all add: AcquireOwner_def ReleaseOwner_def)
qed simp


subsection \<open>The initialize guard\<close>

text \<open>
  A context is the list of keys it carries; \<open>None\<close> is a nil context. The one-slot channel is a flag. A call is waiting, inside
  the function it serializes, or has returned; the timer, cancellation and what the function returns are
  the environment's, and a panic of the function is a return that carries it on.
\<close>

datatype ctxKey = InitializeGuardKey | OtherKey string

type_synonym gocontext = "ctxKey list"

definition HasInitializeGuard :: "gocontext option \<Rightarrow> bool" where
  "HasInitializeGuard ctx = (case ctx of None \<Rightarrow> False | Some keys \<Rightarrow> InitializeGuardKey \<in> set keys)"

definition guardBudget :: "duration \<Rightarrow> duration" where
  "guardBudget budget = (if budget \<le> 0 then InitializeGuardBudget else budget)"

datatype guardCall =
    GWaiting gocontext
  | GInside gocontext
  | GReturned "gerr option"
  | GPanicked

record guardState =
  gd_taken :: bool
  gd_calls :: "guardCall list"

definition guardEntry :: "bool \<Rightarrow> gocontext \<Rightarrow> guardCall" where
  "guardEntry fnNil ctx = (if fnNil then GReturned (Some (WrapErr [] ErrInvalidRegistration '': nil initialize function'')) else GWaiting ctx)"

definition putCall :: "nat \<Rightarrow> guardCall \<Rightarrow> guardState \<Rightarrow> guardState" where
  "putCall i call st = st\<lparr>gd_calls := (gd_calls st)[i := call]\<rparr>"

inductive guard_step :: "guardState \<Rightarrow> guardState \<Rightarrow> bool" where
  guard_call: "guard_step st (st\<lparr>gd_calls := gd_calls st @ [guardEntry fnNil ctx]\<rparr>)"
| guard_acquire: "i < length (gd_calls st) \<Longrightarrow> gd_calls st ! i = GWaiting ctx \<Longrightarrow> \<not> gd_taken st \<Longrightarrow>
    guard_step st (putCall i (GInside (InitializeGuardKey # ctx)) (st\<lparr>gd_taken := True\<rparr>))"
| guard_timeout: "i < length (gd_calls st) \<Longrightarrow> gd_calls st ! i = GWaiting ctx \<Longrightarrow>
    guard_step st (putCall i (GReturned (Some ErrInitializeBusy)) st)"
| guard_cancelled: "i < length (gd_calls st) \<Longrightarrow> gd_calls st ! i = GWaiting ctx \<Longrightarrow>
    guard_step st (putCall i (GReturned (Some (WrapErr ''runctl: waiting for initialize guard: '' e []))) st)"
| guard_return: "i < length (gd_calls st) \<Longrightarrow> gd_calls st ! i = GInside ctx \<Longrightarrow>
    guard_step st (putCall i (GReturned result) (st\<lparr>gd_taken := False\<rparr>))"
| guard_panic: "i < length (gd_calls st) \<Longrightarrow> gd_calls st ! i = GInside ctx \<Longrightarrow>
    guard_step st (putCall i GPanicked (st\<lparr>gd_taken := False\<rparr>))"

inductive_cases guard_step_cases: "guard_step st st'"

inductive guard_reaches :: "guardState \<Rightarrow> bool" where
  reach_start: "guard_reaches \<lparr>gd_taken = False, gd_calls = []\<rparr>"
| reach_step: "guard_reaches st \<Longrightarrow> guard_step st st' \<Longrightarrow> guard_reaches st'"

definition insideAt :: "guardState \<Rightarrow> nat \<Rightarrow> bool" where
  "insideAt st i \<longleftrightarrow> i < length (gd_calls st) \<and> (\<exists>ctx. gd_calls st ! i = GInside ctx)"

definition guard_inv :: "guardState \<Rightarrow> bool" where
  "guard_inv st \<longleftrightarrow> (\<forall>i j. insideAt st i \<and> insideAt st j \<longrightarrow> i = j) \<and> (gd_taken st \<longleftrightarrow> (\<exists>i. insideAt st i)) \<and>
     (\<forall>i ctx. i < length (gd_calls st) \<and> gd_calls st ! i = GInside ctx \<longrightarrow> HasInitializeGuard (Some ctx))"

lemma insideAt_put: "i < length (gd_calls st) \<Longrightarrow> insideAt (putCall i call st) j = (if j = i then \<exists>ctx. call = GInside ctx else insideAt st j)"
  by (auto simp: insideAt_def putCall_def nth_list_update)

lemma insideAt_taken: "insideAt (st\<lparr>gd_taken := b\<rparr>) = insideAt st"
  by (simp add: insideAt_def fun_eq_iff)

lemma guard_marker_put:
  assumes "guard_inv st" and "i < length (gd_calls st)" and "\<And>ctx. call = GInside ctx \<Longrightarrow> HasInitializeGuard (Some ctx)"
  shows "j < length (gd_calls (putCall i call (st\<lparr>gd_taken := b\<rparr>))) \<and> gd_calls (putCall i call (st\<lparr>gd_taken := b\<rparr>)) ! j = GInside ctx \<longrightarrow>
    HasInitializeGuard (Some ctx)"
  using assms by (auto simp: guard_inv_def putCall_def nth_list_update)

lemma guard_inv_step:
  assumes "guard_inv st" and "guard_step st st'"
  shows "guard_inv st'"
  using assms(2)
proof cases
  case (guard_call fnNil ctx)
  have "insideAt st' i = insideAt st i" for i
    using guard_call by (auto simp: insideAt_def guardEntry_def nth_append less_Suc_eq)
  then show ?thesis using assms(1) guard_call by (auto simp: guard_inv_def guardEntry_def nth_append less_Suc_eq split: if_splits)
next
  case (guard_acquire i ctx)
  have "insideAt st' j = (j = i)" for j
    using guard_acquire assms(1) by (auto simp: insideAt_put insideAt_taken guard_inv_def)
  then show ?thesis
    using guard_acquire guard_marker_put [OF assms(1) guard_acquire(2), of "GInside (InitializeGuardKey # ctx)" _ True]
    by (auto simp: guard_inv_def HasInitializeGuard_def) (simp_all add: putCall_def)
next
  case (guard_timeout i ctx)
  have "\<not> insideAt st i" using guard_timeout by (simp add: insideAt_def)
  then have "insideAt st' j = insideAt st j" for j using guard_timeout by (auto simp: insideAt_put)
  then show ?thesis using assms(1) guard_timeout guard_marker_put [OF assms(1) guard_timeout(2), of _ _ "gd_taken st"]
    by (auto simp: guard_inv_def putCall_def)
next
  case (guard_cancelled i ctx e)
  have "\<not> insideAt st i" using guard_cancelled by (simp add: insideAt_def)
  then have "insideAt st' j = insideAt st j" for j using guard_cancelled by (auto simp: insideAt_put)
  then show ?thesis using assms(1) guard_cancelled guard_marker_put [OF assms(1) guard_cancelled(2), of _ _ "gd_taken st"]
    by (auto simp: guard_inv_def putCall_def)
next
  case (guard_return i ctx result)
  have "insideAt st i" using guard_return by (simp add: insideAt_def)
  then have "\<not> insideAt st' j" for j using guard_return assms(1) by (auto simp: insideAt_put insideAt_taken guard_inv_def)
  then show ?thesis using guard_return by (auto simp: guard_inv_def insideAt_def putCall_def)
next
  case (guard_panic i ctx)
  have "insideAt st i" using guard_panic by (simp add: insideAt_def)
  then have "\<not> insideAt st' j" for j using guard_panic assms(1) by (auto simp: insideAt_put insideAt_taken guard_inv_def)
  then show ?thesis using guard_panic by (auto simp: guard_inv_def insideAt_def putCall_def)
qed

lemma guard_inv_reaches: "guard_reaches st \<Longrightarrow> guard_inv st"
  by (induction rule: guard_reaches.induct) (simp add: guard_inv_def insideAt_def, rule guard_inv_step)


text \<open>
  C39: Initialize handlers are serialized. In every reachable state at most one call is inside its function, the
  slot is taken exactly while one is, whatever the others do and however a function ends (a panic included),
  the context inside carries the guard's marker, and a waiting call can enter as soon as nobody is inside.
\<close>

theorem initialize_guard_exclusive:
  assumes "guard_reaches st"
  shows "(\<forall>i j. insideAt st i \<and> insideAt st j \<longrightarrow> i = j) \<and> (gd_taken st \<longleftrightarrow> (\<exists>i. insideAt st i)) \<and>
    (\<forall>i ctx. i < length (gd_calls st) \<and> gd_calls st ! i = GInside ctx \<longrightarrow> HasInitializeGuard (Some ctx)) \<and>
    (\<forall>i ctx. i < length (gd_calls st) \<and> gd_calls st ! i = GWaiting ctx \<and> (\<nexists>j. insideAt st j) \<longrightarrow>
       (\<exists>st'. guard_step st st' \<and> insideAt st' i))"
proof -
  have inv: "guard_inv st" by (rule guard_inv_reaches [OF assms])
  have "\<exists>st'. guard_step st st' \<and> insideAt st' i" if "i < length (gd_calls st)" "gd_calls st ! i = GWaiting ctx" "\<nexists>j. insideAt st j" for i ctx
  proof -
    have "guard_step st (putCall i (GInside (InitializeGuardKey # ctx)) (st\<lparr>gd_taken := True\<rparr>))"
      using that inv by (intro guard_acquire) (auto simp: guard_inv_def)
    moreover have "insideAt (putCall i (GInside (InitializeGuardKey # ctx)) (st\<lparr>gd_taken := True\<rparr>)) i" using that(1) by (simp add: insideAt_put)
    ultimately show ?thesis by blast
  qed
  then show ?thesis using inv unfolding guard_inv_def by blast
qed

theorem initialize_guard_exclusive_witness:
  "\<exists>st'. guard_step \<lparr>gd_taken = False, gd_calls = [GWaiting [OtherKey ''request'']]\<rparr> st' \<and> insideAt st' 0"
proof -
  let ?st = "\<lparr>gd_taken = False, gd_calls = [GWaiting [OtherKey ''request'']]\<rparr>"
  have "guard_reaches ?st"
    using reach_step [OF reach_start guard_call [of _ False "[OtherKey ''request'']"]] by (simp add: guardEntry_def)
  moreover have "\<nexists>j. insideAt ?st j" by (simp add: insideAt_def less_Suc_eq)
  ultimately show ?thesis using initialize_guard_exclusive [of ?st] by auto
qed

subsection \<open>Identifiers\<close>

text \<open>\<open>rnd\<close> is what the entropy source gave, \<open>None\<close> when it failed.\<close>

fun base36 :: "nat \<Rightarrow> string" where
  "base36 n =
     (let d = n mod 36; c = char_of (if d < 10 then 48 + d else 87 + d)
      in (if n < 36 then [] else base36 (n div 36)) @ [c])"

declare base36.simps [simp del]

definition newID :: "string \<Rightarrow> string option \<Rightarrow> gotime \<Rightarrow> string" where
  "newID prefix rnd now =
     (case rnd of
        Some b \<Rightarrow> prefix @ ''-'' @ hex_EncodeToString b
      | None \<Rightarrow> prefix @ ''-'' @ (if now < 0 then ''-'' @ base36 (nat (- now)) else base36 (nat now)))"

lemma lowerhex_inject:
  assumes "lowerhex m = lowerhex n" and "m < 16" and "n < 16"
  shows "m = n"
proof -
  have code: "of_char (lowerhex k) = (if k < 10 then 48 + k else 87 + k)" if "k < 16" for k :: nat
    using that by (simp add: lowerhex_def take_bit_eq_mod)
  show ?thesis using arg_cong [OF assms(1), of "of_char :: char \<Rightarrow> nat"] assms(2,3) by (simp add: code split: if_splits)
qed

lemma hexDigits_byte_inject:
  assumes "hexDigits 2 (byte a) = hexDigits 2 (byte b)"
  shows "a = b"
proof -
  have lt: "byte a < 256" "byte b < 256" by (simp_all add: byte_def)
  have "lowerhex (byte a div 16 mod 16) = lowerhex (byte b div 16 mod 16)" "lowerhex (byte a mod 16) = lowerhex (byte b mod 16)"
    using assms by (simp_all add: numeral_2_eq_2)
  then have "byte a div 16 mod 16 = byte b div 16 mod 16" "byte a mod 16 = byte b mod 16" by (auto intro: lowerhex_inject)
  with lt have "byte a div 16 = byte b div 16" by simp
  with \<open>byte a mod 16 = byte b mod 16\<close> have "byte a = byte b" by (metis div_mult_mod_eq)
  then show ?thesis by (simp add: byte_def)
qed

text \<open>Two identifiers minted from different entropy are different.\<close>

lemma newID_distinct:
  assumes "length a = length b" and "newID prefix (Some a) t = newID prefix (Some b) u"
  shows "a = b"
proof -
  have "hex_EncodeToString a = hex_EncodeToString b" using assms(2) by (simp add: newID_def)
  then show ?thesis using assms(1)
  proof (induction a b rule: list_induct2')
    case (4 x xs y ys)
    have "length (hexDigits 2 (byte x)) = length (hexDigits 2 (byte y))" by (simp add: numeral_2_eq_2)
    with 4 show ?case by (auto simp: hex_EncodeToString_def dest!: hexDigits_byte_inject simp del: hexDigits.simps)
  qed simp_all
qed

end
