(* ===== verification/Timeline.thy ===== *)
theory Timeline
  imports Tables Histogram Go_Strings "HOL-Library.List_Lexorder" "HOL-Library.Char_ord"
begin

text \<open>
  \<open>internal/timeline/collector.go\<close> and \<open>model.go\<close>: the bounded, run-aligned timeline. Every method of a nil
  collector does nothing; the others run under one mutex and are one step. Percentages, which the code
  computes in floating point, are kept as numerators and their common denominator. Whether the
  encoded section exceeds the size limit is an argument, as is which pending termination the map iteration yields
  when one has to go. The derived analysis, the outcome and the schema constant are left out of the section, the copies made through JSON when a section is
  read are identities, and pools whose identifiers clash after sanitising keep their order.
\<close>

subsection \<open>Data\<close>

definition maxRetainedRuns :: nat where "maxRetainedRuns = 8"
definition overflowOperationKey :: string where "overflowOperationKey = ''(other)''"
definition maxOperationKeyBytes :: nat where "maxOperationKeyBytes = 256"

record tlConfig =
  tf_Interval :: duration
  tf_MaxBuckets :: int
  tf_MaxOperations :: int

type_synonym runKey = "string \<times> nat"

record RunStart =
  rs_RunID :: string
  rs_Epoch :: nat
  rs_At :: gotime

record RunTermination =
  rt_RunID :: string
  rt_Epoch :: nat
  rt_At :: gotime
  rt_Reason :: string
  rt_Validity :: string

record tlOperation =
  to_Key :: string
  to_Count :: int
  to_Successes :: int
  to_Errors :: int
  to_TotalNs :: int
  to_MaxNs :: int
  to_P95Ns :: int

record PoolPoint =
  pp_TargetID :: string
  pp_MaxOpen :: int
  pp_Open :: int
  pp_InUse :: int
  pp_Idle :: int
  pp_WaitCount :: int
  pp_WaitDuration :: duration

record ProcessPoint =
  pt_TotalJiffies :: nat
  pt_BusyJiffies :: nat
  pt_IOWaitJiffies :: nat
  pt_ProcessJiffies :: nat
  pt_CPUs :: int
  pt_RSSBytes :: nat

record HostPoint =
  hp_ReadBytes :: nat
  hp_WriteBytes :: nat
  hp_IOTicks :: duration
  hp_WeightedIO :: duration

record ResourceSample =
  sa_At :: gotime
  sa_Pools :: "PoolPoint list"
  sa_Process :: "ProcessPoint option"
  sa_Host :: "HostPoint option"

record PoolBucket =
  pk_TargetID :: string
  pk_MaxOpen :: int
  pk_Open :: int
  pk_InUse :: int
  pk_Idle :: int
  pk_WaitCount :: int
  pk_WaitDurationNs :: int

record ProcessBucket =
  pb_Busy :: nat
  pb_IOWait :: nat
  pb_ProcessCPU :: int
  pb_Total :: nat
  pb_RSSBytes :: nat

record HostBucket =
  hb_ReadBytes :: nat
  hb_WriteBytes :: nat
  hb_DiskBusy :: duration
  hb_WeightedIO :: duration
  hb_Interval :: duration

record tlBucket =
  bk_Index :: nat
  bk_Start :: gotime
  bk_End :: gotime
  bk_HTTPInFlightMax :: int
  bk_HTTP :: "tlOperation list"
  bk_SQL :: "tlOperation list"
  bk_DBPools :: "PoolBucket list"
  bk_Process :: "ProcessBucket option"
  bk_Host :: "HostBucket option"

record operationStat =
  os_count :: int
  os_successes :: int
  os_failures :: int
  os_total :: int
  os_maximum :: int
  os_hist :: "int list"

definition zeroOperation :: operationStat where
  "zeroOperation = \<lparr>os_count = 0, os_successes = 0, os_failures = 0, os_total = 0, os_maximum = 0, os_hist = replicate 64 0\<rparr>"

type_synonym opRows = "(string \<times> operationStat) list"

record mutableBucket =
  mb_bucket :: tlBucket
  mb_http :: opRows
  mb_sql :: opRows

record mutableRun =
  mr_start :: RunStart
  mr_buckets :: "mutableBucket list"
  mr_httpKeys :: "string list"
  mr_sqlKeys :: "string list"
  mr_inFlight :: int
  mr_truncated :: bool
  mr_dropped :: nat
  mr_prevPools :: "(string \<times> PoolPoint) list"
  mr_prevProc :: "ProcessPoint option"
  mr_prevHost :: "HostPoint option"
  mr_prevAt :: gotime

record tlSection =
  ts_RunID :: string
  ts_Epoch :: nat
  ts_StartedAt :: gotime
  ts_FinishedAt :: gotime
  ts_IntervalNs :: int
  ts_MaxBuckets :: int
  ts_MaxOperations :: int
  ts_Truncated :: bool
  ts_OverflowedEvents :: nat
  ts_Validity :: string
  ts_StopReason :: string
  ts_Buckets :: "tlBucket list"

record tlCollector =
  tc_cfg :: tlConfig
  tc_active :: "mutableRun option"
  tc_completed :: "(runKey \<times> tlSection) list"
  tc_order :: "runKey list"
  tc_pending :: "(runKey \<times> RunTermination) list"

definition NewTimeline :: "tlConfig \<Rightarrow> tlCollector option" where
  "NewTimeline cfg0 =
     (let cfg = \<lparr>tf_Interval = (if tf_Interval cfg0 = 0 then Second else tf_Interval cfg0),
                 tf_MaxBuckets = (if tf_MaxBuckets cfg0 = 0 then 180 else tf_MaxBuckets cfg0),
                 tf_MaxOperations = (if tf_MaxOperations cfg0 = 0 then 32 else tf_MaxOperations cfg0)\<rparr>
      in if tf_Interval cfg < 100 * Millisecond \<or> tf_Interval cfg > Minute \<or> tf_MaxBuckets cfg < 2 \<or> tf_MaxBuckets cfg > 600 \<or>
            tf_MaxOperations cfg < 1 \<or> tf_MaxOperations cfg > 128 then None
         else Some \<lparr>tc_cfg = cfg, tc_active = None, tc_completed = [], tc_order = [], tc_pending = []\<rparr>)"

definition keyOfRun :: "mutableRun \<Rightarrow> runKey" where
  "keyOfRun run = (rs_RunID (mr_start run), rs_Epoch (mr_start run))"

subsection \<open>Operations\<close>

definition incrementDropped :: "nat \<Rightarrow> nat" where
  "incrementDropped n = (if n < 2 ^ 64 - 1 then n + 1 else n)"

definition safeOperationKey :: "string \<Rightarrow> string" where
  "safeOperationKey key0 =
     (let key = strings_TrimSpace key0
      in if key = [] \<or> length key > maxOperationKeyBytes \<or> \<not> utf8_ValidString key \<or> strings_HasRune controlRune key
         then overflowOperationKey else key)"

definition limitKey :: "int \<Rightarrow> string \<Rightarrow> string list \<Rightarrow> string \<times> string list \<times> bool" where
  "limitKey maxOps key keys =
     (if key \<in> set keys \<or> key = overflowOperationKey then (key, keys, False)
      else if int (length keys) \<ge> maxOps then (overflowOperationKey, keys, True)
      else (key, keys @ [key], False))"

definition operationKeyLocked :: "int \<Rightarrow> string \<Rightarrow> string list \<Rightarrow> string \<times> string list \<times> bool" where
  "operationKeyLocked maxOps key keys = limitKey maxOps (safeOperationKey key) keys"

definition histBucket :: "int \<Rightarrow> nat" where
  "histBucket ns = (let b = bits_Len (unat (word_of_int ns :: 64 word)) in if b \<ge> 64 then 63 else b)"

definition refusesOp :: "int \<Rightarrow> operationStat \<Rightarrow> bool" where
  "refusesOp ns st \<longleftrightarrow> os_count st = int64_max \<or> ns > 0 \<and> os_total st > int64_max - ns"

definition clampOp :: "duration \<Rightarrow> int" where
  "clampOp d = (if d < 0 then 0 else d)"

definition addOperation :: "duration \<times> bool \<Rightarrow> operationStat \<Rightarrow> operationStat" where
  "addOperation = (\<lambda>(d, failed) st.
     let ns = clampOp d in
     if refusesOp ns st then st
     else st\<lparr>os_count := os_count st + 1,
             os_failures := (if failed \<and> os_failures st < int64_max then os_failures st + 1 else os_failures st),
             os_successes := (if \<not> failed \<and> os_successes st < int64_max then os_successes st + 1 else os_successes st),
             os_total := os_total st + ns, os_maximum := (if ns > os_maximum st then ns else os_maximum st),
             os_hist := countIn (histBucket ns) (os_hist st)\<rparr>)"

definition observeOperation :: "string \<Rightarrow> duration \<Rightarrow> bool \<Rightarrow> opRows \<times> nat \<Rightarrow> opRows \<times> nat" where
  "observeOperation key d failed = (\<lambda>(rows, dropped).
     (alter key zeroOperation (addOperation (d, failed)) rows,
      if refusesOp (clampOp d) (case map_of rows key of None \<Rightarrow> zeroOperation | Some st \<Rightarrow> st) then incrementDropped dropped else dropped))"

fun rankSeen :: "int \<Rightarrow> int \<Rightarrow> nat \<Rightarrow> int list \<Rightarrow> nat option" where
  "rankSeen target seen i [] = None"
| "rankSeen target seen i (c # cs) =
     (let seen' = wrap64 (seen + c) in if seen' \<ge> target then Some i else rankSeen target seen' (Suc i) cs)"

definition histogramP95 :: "operationStat \<Rightarrow> int" where
  "histogramP95 st =
     (if os_count st \<le> 0 then 0
      else case rankSeen (os_count st - os_count st sdiv 20) 0 0 (os_hist st) of
             None \<Rightarrow> os_maximum st
           | Some i \<Rightarrow> if i = 0 then 0 else if i \<ge> 63 then os_maximum st else if 2 ^ i > os_maximum st then os_maximum st else 2 ^ i)"

definition operationRow :: "string \<times> operationStat \<Rightarrow> tlOperation" where
  "operationRow = (\<lambda>(key, st). \<lparr>to_Key = key, to_Count = os_count st, to_Successes = os_successes st, to_Errors = os_failures st,
     to_TotalNs = os_total st, to_MaxNs = os_maximum st, to_P95Ns = histogramP95 st\<rparr>)"

definition operationRows :: "opRows \<Rightarrow> tlOperation list" where
  "operationRows rows = sort_key (\<lambda>r. (- to_TotalNs r, to_Key r)) (map operationRow rows)"

subsection \<open>Buckets\<close>

definition newBucket :: "tlConfig \<Rightarrow> RunStart \<Rightarrow> nat \<Rightarrow> mutableBucket" where
  "newBucket cfg start i =
     (let from0 = time_Add (rs_At start) (wrap64 (int i * tf_Interval cfg))
      in \<lparr>mb_bucket = \<lparr>bk_Index = i, bk_Start = from0, bk_End = time_Add from0 (tf_Interval cfg), bk_HTTPInFlightMax = 0, bk_HTTP = [], bk_SQL = [],
                       bk_DBPools = [], bk_Process = None, bk_Host = None\<rparr>, mb_http = [], mb_sql = []\<rparr>)"

definition bucketIndex :: "tlConfig \<Rightarrow> RunStart \<Rightarrow> gotime \<Rightarrow> bool \<Rightarrow> int" where
  "bucketIndex cfg start at endInclusive =
     (let delta0 = time_Sub at (rs_At start);
          delta = (if endInclusive \<and> delta0 > 0 \<and> delta0 mod tf_Interval cfg = 0 then delta0 - 1 else delta0)
      in delta div tf_Interval cfg)"

definition bucketLocked :: "tlConfig \<Rightarrow> gotime \<Rightarrow> bool \<Rightarrow> mutableRun \<Rightarrow> nat option \<times> mutableRun" where
  "bucketLocked cfg at endInclusive run =
     (if at < rs_At (mr_start run) then (None, run)
      else
        let index0 = bucketIndex cfg (mr_start run) at endInclusive;
            over = index0 \<ge> tf_MaxBuckets cfg;
            index = nat (if over then tf_MaxBuckets cfg - 1 else index0);
            run1 = (if over then run\<lparr>mr_truncated := True\<rparr> else run)
        in (Some index, run1\<lparr>mr_buckets := mr_buckets run1 @ map (newBucket cfg (mr_start run)) [length (mr_buckets run1)..<Suc index]\<rparr>))"

definition onBucket :: "nat \<Rightarrow> (mutableBucket \<Rightarrow> mutableBucket) \<Rightarrow> mutableRun \<Rightarrow> mutableRun" where
  "onBucket i f run = run\<lparr>mr_buckets := (mr_buckets run)[i := f (mr_buckets run ! i)]\<rparr>"

definition raiseInFlight :: "int \<Rightarrow> mutableBucket \<Rightarrow> mutableBucket" where
  "raiseInFlight n b =
     (if n > bk_HTTPInFlightMax (mb_bucket b) then b\<lparr>mb_bucket := (mb_bucket b)\<lparr>bk_HTTPInFlightMax := n\<rparr>\<rparr> else b)"

subsection \<open>Resources\<close>

definition copyPools :: "PoolPoint list \<Rightarrow> (string \<times> PoolPoint) list" where
  "copyPools points = rev (map (\<lambda>p. (pp_TargetID p, p)) (filter (\<lambda>p. pp_TargetID p \<noteq> []) points))"

definition usablePool :: "PoolPoint \<Rightarrow> PoolPoint \<Rightarrow> bool" where
  "usablePool base point \<longleftrightarrow> pp_TargetID point \<noteq> [] \<and> pp_MaxOpen point \<ge> 0 \<and> pp_Open point \<ge> 0 \<and> pp_InUse point \<ge> 0 \<and> pp_Idle point \<ge> 0 \<and>
     pp_WaitCount point \<ge> 0 \<and> pp_WaitCount base \<ge> 0 \<and> pp_WaitDuration point \<ge> 0 \<and> pp_WaitDuration base \<ge> 0 \<and>
     pp_WaitCount point \<ge> pp_WaitCount base \<and> pp_WaitDuration point \<ge> pp_WaitDuration base"

definition poolDeltas :: "(string \<times> PoolPoint) list \<Rightarrow> PoolPoint list \<Rightarrow> PoolBucket list" where
  "poolDeltas previous points =
     sort_key pk_TargetID (concat (map (\<lambda>point.
       case map_of previous (pp_TargetID point) of
         None \<Rightarrow> []
       | Some base \<Rightarrow>
           if usablePool base point
           then [\<lparr>pk_TargetID = safeOperationKey (pp_TargetID point), pk_MaxOpen = pp_MaxOpen point, pk_Open = pp_Open point, pk_InUse = pp_InUse point,
                  pk_Idle = pp_Idle point, pk_WaitCount = pp_WaitCount point - pp_WaitCount base,
                  pk_WaitDurationNs = pp_WaitDuration point - pp_WaitDuration base\<rparr>]
           else []) points))"

definition processDelta :: "ProcessPoint option \<Rightarrow> ProcessPoint option \<Rightarrow> ProcessBucket option" where
  "processDelta previous point =
     (case (previous, point) of
        (Some p, Some c) \<Rightarrow>
          if pt_TotalJiffies c \<le> pt_TotalJiffies p \<or> pt_BusyJiffies c < pt_BusyJiffies p \<or> pt_IOWaitJiffies c < pt_IOWaitJiffies p \<or>
             pt_ProcessJiffies c < pt_ProcessJiffies p then None
          else
            let total = pt_TotalJiffies c - pt_TotalJiffies p; busy = pt_BusyJiffies c - pt_BusyJiffies p;
                iowait = pt_IOWaitJiffies c - pt_IOWaitJiffies p; process = pt_ProcessJiffies c - pt_ProcessJiffies p;
                cpus = (if pt_CPUs c \<le> 0 then pt_CPUs p else pt_CPUs c)
            in if busy > total \<or> iowait > total \<or> process > total then None
               else if cpus \<le> 0 \<or> cpus > 65536 then None
               else Some \<lparr>pb_Busy = busy, pb_IOWait = iowait, pb_ProcessCPU = int process * cpus, pb_Total = total, pb_RSSBytes = pt_RSSBytes c\<rparr>
      | _ \<Rightarrow> None)"

definition hostDelta :: "HostPoint option \<Rightarrow> HostPoint option \<Rightarrow> duration \<Rightarrow> HostBucket option" where
  "hostDelta previous point interval =
     (case (previous, point) of
        (Some p, Some c) \<Rightarrow>
          if interval \<le> 0 \<or> hp_IOTicks p < 0 \<or> hp_IOTicks c < 0 \<or> hp_WeightedIO p < 0 \<or> hp_WeightedIO c < 0 \<or>
             hp_ReadBytes c < hp_ReadBytes p \<or> hp_WriteBytes c < hp_WriteBytes p \<or> hp_IOTicks c < hp_IOTicks p \<or> hp_WeightedIO c < hp_WeightedIO p
          then None
          else Some \<lparr>hb_ReadBytes = hp_ReadBytes c - hp_ReadBytes p, hb_WriteBytes = hp_WriteBytes c - hp_WriteBytes p,
                     hb_DiskBusy = hp_IOTicks c - hp_IOTicks p, hb_WeightedIO = hp_WeightedIO c - hp_WeightedIO p, hb_Interval = interval\<rparr>
      | _ \<Rightarrow> None)"

subsection \<open>Events of the active run\<close>

definition onActive :: "(mutableRun \<Rightarrow> mutableRun) \<Rightarrow> tlCollector \<Rightarrow> tlCollector" where
  "onActive f c = c\<lparr>tc_active := map_option f (tc_active c)\<rparr>"

definition eventMatches :: "mutableRun \<Rightarrow> runKey option \<Rightarrow> bool" where
  "eventMatches run token \<longleftrightarrow> token = Some (keyOfRun run)"

definition startRequest :: "tlConfig \<Rightarrow> gotime \<Rightarrow> mutableRun \<Rightarrow> bool \<times> mutableRun" where
  "startRequest cfg at run =
     (case bucketLocked cfg at False run of
        (None, run1) \<Rightarrow> (False, run1)
      | (Some i, run1) \<Rightarrow>
          let run2 = (if mr_inFlight run1 < int64_max then run1\<lparr>mr_inFlight := mr_inFlight run1 + 1\<rparr>
                      else run1\<lparr>mr_dropped := incrementDropped (mr_dropped run1)\<rparr>)
          in (True, onBucket i (raiseInFlight (mr_inFlight run2)) run2))"

definition HTTPStart :: "gotime \<Rightarrow> tlCollector \<Rightarrow> runKey option \<times> tlCollector" where
  "HTTPStart at c =
     (case tc_active c of
        None \<Rightarrow> (None, c)
      | Some run \<Rightarrow> (case startRequest (tc_cfg c) at run of
          (ok, run1) \<Rightarrow> (if ok then Some (keyOfRun run) else None, c\<lparr>tc_active := Some run1\<rparr>)))"

definition leaveRequest :: "mutableRun \<Rightarrow> mutableRun" where
  "leaveRequest run = (if mr_inFlight run > 0 then run\<lparr>mr_inFlight := mr_inFlight run - 1\<rparr> else run)"

definition HTTPCancel :: "gotime \<Rightarrow> runKey option \<Rightarrow> tlCollector \<Rightarrow> tlCollector" where
  "HTTPCancel at token c =
     onActive (\<lambda>run. if eventMatches run token then snd (bucketLocked (tc_cfg c) at False (leaveRequest run)) else run) c"

definition recordOperation :: "int \<Rightarrow> string \<Rightarrow> duration \<Rightarrow> bool \<Rightarrow> string list \<Rightarrow> opRows \<Rightarrow> nat \<Rightarrow> string list \<times> opRows \<times> nat" where
  "recordOperation maxOps key d failed keys rows dropped =
     (let (key', keys', refused) = operationKeyLocked maxOps key keys
      in (keys', observeOperation key' d failed (rows, if refused then incrementDropped dropped else dropped)))"

definition recordHttp :: "tlConfig \<Rightarrow> gotime \<Rightarrow> string \<Rightarrow> duration \<Rightarrow> bool \<Rightarrow> mutableRun \<Rightarrow> mutableRun" where
  "recordHttp cfg at key d failed run =
     (case bucketLocked cfg at False run of
        (None, run1) \<Rightarrow> run1
      | (Some i, run1) \<Rightarrow>
          let (keys, rows, dropped) = recordOperation (tf_MaxOperations cfg) key d failed (mr_httpKeys run1) (mb_http (mr_buckets run1 ! i)) (mr_dropped run1)
          in onBucket i (\<lambda>b. b\<lparr>mb_http := rows\<rparr>) (run1\<lparr>mr_httpKeys := keys, mr_dropped := dropped\<rparr>))"

definition recordSql :: "tlConfig \<Rightarrow> gotime \<Rightarrow> string \<Rightarrow> duration \<Rightarrow> bool \<Rightarrow> mutableRun \<Rightarrow> mutableRun" where
  "recordSql cfg at key d failed run =
     (case bucketLocked cfg at False run of
        (None, run1) \<Rightarrow> run1
      | (Some i, run1) \<Rightarrow>
          let (keys, rows, dropped) = recordOperation (tf_MaxOperations cfg) key d failed (mr_sqlKeys run1) (mb_sql (mr_buckets run1 ! i)) (mr_dropped run1)
          in onBucket i (\<lambda>b. b\<lparr>mb_sql := rows\<rparr>) (run1\<lparr>mr_sqlKeys := keys, mr_dropped := dropped\<rparr>))"

definition HTTPFinish :: "gotime \<Rightarrow> runKey option \<Rightarrow> string \<Rightarrow> duration \<Rightarrow> bool \<Rightarrow> tlCollector \<Rightarrow> tlCollector" where
  "HTTPFinish at token key d failed c =
     onActive (\<lambda>run. if eventMatches run token then recordHttp (tc_cfg c) at key d failed (leaveRequest run) else run) c"

definition SQLStart :: "gotime \<Rightarrow> tlCollector \<Rightarrow> runKey option" where
  "SQLStart at c = (case tc_active c of None \<Rightarrow> None | Some run \<Rightarrow> if at < rs_At (mr_start run) then None else Some (keyOfRun run))"

definition SQLFinish :: "gotime \<Rightarrow> runKey option \<Rightarrow> string \<Rightarrow> duration \<Rightarrow> bool \<Rightarrow> tlCollector \<Rightarrow> tlCollector" where
  "SQLFinish at token key d failed c =
     onActive (\<lambda>run. if eventMatches run token then recordSql (tc_cfg c) at key d failed run else run) c"

definition ObserveSQL :: "gotime \<Rightarrow> string \<Rightarrow> duration \<Rightarrow> bool \<Rightarrow> tlCollector \<Rightarrow> tlCollector" where
  "ObserveSQL at key d failed c = SQLFinish at (SQLStart at c) key d failed c"

definition tickRun :: "tlConfig \<Rightarrow> gotime \<Rightarrow> mutableRun \<Rightarrow> mutableRun" where
  "tickRun cfg at run =
     (case bucketLocked cfg at True run of
        (None, run1) \<Rightarrow> run1
      | (Some i, run1) \<Rightarrow> onBucket i (raiseInFlight (mr_inFlight run1)) run1)"

definition Tick :: "gotime \<Rightarrow> tlCollector \<Rightarrow> tlCollector" where
  "Tick at c = onActive (tickRun (tc_cfg c) at) c"

definition sampleRun :: "tlConfig \<Rightarrow> ResourceSample \<Rightarrow> mutableRun \<Rightarrow> mutableRun" where
  "sampleRun cfg s run =
     (case bucketLocked cfg (sa_At s) True run of
        (None, run1) \<Rightarrow> run1
      | (Some i, run1) \<Rightarrow>
          let interval = time_Sub (sa_At s) (mr_prevAt run1);
              run2 = (if \<not> IsZero (mr_prevAt run1) \<and> interval > 0
                      then onBucket i (\<lambda>b. b\<lparr>mb_bucket := (mb_bucket b)\<lparr>bk_DBPools := poolDeltas (mr_prevPools run1) (sa_Pools s),
                             bk_Process := processDelta (mr_prevProc run1) (sa_Process s),
                             bk_Host := hostDelta (mr_prevHost run1) (sa_Host s) interval\<rparr>\<rparr>) run1
                      else run1)
          in run2\<lparr>mr_prevPools := copyPools (sa_Pools s), mr_prevProc := sa_Process s, mr_prevHost := sa_Host s, mr_prevAt := sa_At s\<rparr>)"

definition SampleResources :: "ResourceSample \<Rightarrow> tlCollector \<Rightarrow> tlCollector" where
  "SampleResources s c = (if IsZero (sa_At s) then c else onActive (sampleRun (tc_cfg c) s) c)"

subsection \<open>Runs\<close>

definition sectionLocked :: "tlConfig \<Rightarrow> mutableRun \<Rightarrow> RunTermination option \<Rightarrow> tlSection" where
  "sectionLocked cfg run terminal =
     \<lparr>ts_RunID = rs_RunID (mr_start run), ts_Epoch = rs_Epoch (mr_start run), ts_StartedAt = rs_At (mr_start run),
      ts_FinishedAt = (case terminal of None \<Rightarrow> 0 | Some t \<Rightarrow> rt_At t), ts_IntervalNs = tf_Interval cfg, ts_MaxBuckets = tf_MaxBuckets cfg,
      ts_MaxOperations = tf_MaxOperations cfg, ts_Truncated = mr_truncated run, ts_OverflowedEvents = mr_dropped run,
      ts_Validity = (case terminal of None \<Rightarrow> [] | Some t \<Rightarrow> rt_Validity t), ts_StopReason = (case terminal of None \<Rightarrow> [] | Some t \<Rightarrow> rt_Reason t),
      ts_Buckets = map (\<lambda>m. (mb_bucket m)\<lparr>bk_HTTP := operationRows (mb_http m), bk_SQL := operationRows (mb_sql m)\<rparr>) (mr_buckets run)\<rparr>"

definition evictOldest :: "tlCollector \<Rightarrow> tlCollector" where
  "evictOldest c =
     (let k = length (tc_order c) - maxRetainedRuns
      in c\<lparr>tc_order := drop k (tc_order c), tc_completed := filter (\<lambda>(key, s). key \<notin> set (take k (tc_order c))) (tc_completed c)\<rparr>)"

definition finalSection :: "(tlSection \<Rightarrow> bool) \<Rightarrow> tlConfig \<Rightarrow> RunTermination \<Rightarrow> mutableRun \<Rightarrow> tlSection" where
  "finalSection tooLarge cfg terminal run =
     (let s = sectionLocked cfg (snd (bucketLocked cfg (rt_At terminal) True run)) (Some terminal)
      in if tooLarge s then s\<lparr>ts_Buckets := [], ts_Truncated := True\<rparr> else s)"

definition finishLocked :: "(tlSection \<Rightarrow> bool) \<Rightarrow> RunTermination \<Rightarrow> tlCollector \<Rightarrow> tlCollector" where
  "finishLocked tooLarge terminal c =
     (case tc_active c of
        None \<Rightarrow> c
      | Some run \<Rightarrow>
          (evictOldest (c\<lparr>tc_completed := (keyOfRun run, finalSection tooLarge (tc_cfg c) terminal run) # filter (\<lambda>(k, _). k \<noteq> keyOfRun run) (tc_completed c),
             tc_order := tc_order c @ [keyOfRun run]\<rparr>))\<lparr>tc_active := None\<rparr>)"

definition newRun :: "RunStart \<Rightarrow> mutableRun" where
  "newRun start = \<lparr>mr_start = start, mr_buckets = [], mr_httpKeys = [], mr_sqlKeys = [], mr_inFlight = 0, mr_truncated = False, mr_dropped = 0,
     mr_prevPools = [], mr_prevProc = None, mr_prevHost = None, mr_prevAt = 0\<rparr>"

definition preemptLocked :: "(tlSection \<Rightarrow> bool) \<Rightarrow> gotime \<Rightarrow> tlCollector \<Rightarrow> tlCollector" where
  "preemptLocked tooLarge at c =
     (case tc_active c of
        None \<Rightarrow> c
      | Some run \<Rightarrow> finishLocked tooLarge \<lparr>rt_RunID = rs_RunID (mr_start run), rt_Epoch = rs_Epoch (mr_start run), rt_At = at, rt_Reason = ''preempted'',
          rt_Validity = ''invalid''\<rparr> c)"

definition StartTimeline :: "(tlSection \<Rightarrow> bool) \<Rightarrow> RunStart \<Rightarrow> tlCollector \<Rightarrow> bool \<times> tlCollector" where
  "StartTimeline tooLarge start c =
     (let key = (rs_RunID start, rs_Epoch start) in
      if rs_RunID start = [] \<or> rs_Epoch start = 0 \<or> IsZero (rs_At start) then (False, c)
      else if map_of (tc_completed c) key \<noteq> None then (False, c)
      else if map_option keyOfRun (tc_active c) = Some key then (False, c)
      else
        let c1 = (preemptLocked tooLarge (rs_At start) c)\<lparr>tc_active := Some (newRun start)\<rparr>
        in case map_of (tc_pending c1) key of
             Some terminal \<Rightarrow> (False, finishLocked tooLarge terminal (c1\<lparr>tc_pending := filter (\<lambda>(k, _). k \<noteq> key) (tc_pending c1)\<rparr>))
           | None \<Rightarrow> (True, c1))"

definition Terminate :: "(tlSection \<Rightarrow> bool) \<Rightarrow> nat \<Rightarrow> RunTermination \<Rightarrow> tlCollector \<Rightarrow> tlCollector" where
  "Terminate tooLarge victim terminal c =
     (let key = (rt_RunID terminal, rt_Epoch terminal) in
      if rt_RunID terminal = [] \<or> rt_Epoch terminal = 0 \<or> IsZero (rt_At terminal) \<or> rt_Reason terminal = [] then c
      else if map_option keyOfRun (tc_active c) = Some key then finishLocked tooLarge terminal c
      else if map_of (tc_completed c) key \<noteq> None then c
      else if map_of (tc_pending c) key \<noteq> None then c
      else
        let pending = (if length (tc_pending c) \<ge> maxRetainedRuns
                       then take (victim mod length (tc_pending c)) (tc_pending c) @ drop (Suc (victim mod length (tc_pending c))) (tc_pending c)
                       else tc_pending c)
        in c\<lparr>tc_pending := (key, terminal) # pending\<rparr>)"

definition SectionOf :: "string \<Rightarrow> nat \<Rightarrow> tlCollector \<Rightarrow> tlSection option" where
  "SectionOf runID epoch c =
     (case map_of (tc_completed c) (runID, epoch) of
        Some s \<Rightarrow> Some s
      | None \<Rightarrow> (case tc_active c of
                   Some run \<Rightarrow> if keyOfRun run = (runID, epoch) then Some (sectionLocked (tc_cfg c) run None) else None
                 | None \<Rightarrow> None))"

end
