(* ===== verification/Timeline_Theorems.thy ===== *)
theory Timeline_Theorems
  imports Timeline
begin

text \<open>
  What the timeline promises of its runs: each is opened and completed once, whatever the order in which its start and
  its end are delivered, and storage stays bounded.
\<close>

subsection \<open>Runs\<close>

datatype tlOp =
    TStart RunStart
  | TTerminate nat RunTermination
  | THttpStart gotime
  | THttpFinish gotime "runKey option" string duration bool
  | THttpCancel gotime "runKey option"
  | TSqlFinish gotime "runKey option" string duration bool
  | TTick gotime
  | TSample ResourceSample

fun tlExec :: "(tlSection \<Rightarrow> bool) \<Rightarrow> tlOp \<Rightarrow> tlCollector \<Rightarrow> tlCollector" where
  "tlExec tooLarge (TStart start) c = snd (StartTimeline tooLarge start c)"
| "tlExec tooLarge (TTerminate victim terminal) c = Terminate tooLarge victim terminal c"
| "tlExec tooLarge (THttpStart at) c = snd (HTTPStart at c)"
| "tlExec tooLarge (THttpFinish at token key d failed) c = HTTPFinish at token key d failed c"
| "tlExec tooLarge (THttpCancel at token) c = HTTPCancel at token c"
| "tlExec tooLarge (TSqlFinish at token key d failed) c = SQLFinish at token key d failed c"
| "tlExec tooLarge (TTick at) c = Tick at c"
| "tlExec tooLarge (TSample s) c = SampleResources s c"

definition activeKey :: "tlCollector \<Rightarrow> runKey option" where
  "activeKey c = map_option keyOfRun (tc_active c)"

definition tl_inv :: "tlCollector \<Rightarrow> bool" where
  "tl_inv c \<longleftrightarrow> distinct (tc_order c) \<and> length (tc_order c) \<le> maxRetainedRuns \<and> distinct (map fst (tc_completed c)) \<and>
     set (tc_order c) = fst ` set (tc_completed c) \<and> distinct (map fst (tc_pending c)) \<and> length (tc_pending c) \<le> maxRetainedRuns \<and>
     (\<forall>k \<in> fst ` set (tc_pending c). k \<notin> fst ` set (tc_completed c) \<and> activeKey c \<noteq> Some k) \<and>
     (\<forall>k \<in> fst ` set (tc_completed c). activeKey c \<noteq> Some k)"

lemma onActive_parts:
  "tc_completed (onActive f c) = tc_completed c" "tc_order (onActive f c) = tc_order c" "tc_pending (onActive f c) = tc_pending c"
  "tc_cfg (onActive f c) = tc_cfg c" "(\<And>run. mr_start (f run) = mr_start run) \<Longrightarrow> activeKey (onActive f c) = activeKey c"
  by (simp_all add: onActive_def activeKey_def option.map_comp comp_def keyOfRun_def [abs_def])

lemma bucketLocked_start [simp]: "mr_start (snd (bucketLocked cfg at b run)) = mr_start run"
  by (simp add: bucketLocked_def Let_def)

lemma onBucket_start [simp]: "mr_start (onBucket i f run) = mr_start run"
  by (simp add: onBucket_def)

lemma leave_start [simp]: "mr_start (leaveRequest run) = mr_start run"
  by (simp add: leaveRequest_def)

lemma run_start_kept [simp]:
  "mr_start (recordHttp cfg at key d failed run) = mr_start run" "mr_start (recordSql cfg at key d failed run) = mr_start run"
  "mr_start (tickRun cfg at run) = mr_start run" "mr_start (sampleRun cfg s run) = mr_start run"
  "mr_start (snd (startRequest cfg at run)) = mr_start run"
proof -
  obtain o1 r1 where b: "bucketLocked cfg at False run = (o1, r1)" by fastforce
  obtain o2 r2 where b2: "bucketLocked cfg at True run = (o2, r2)" by fastforce
  obtain o3 r3 where b3: "bucketLocked cfg (sa_At s) True run = (o3, r3)" by fastforce
  have s: "mr_start r1 = mr_start run" "mr_start r2 = mr_start run" "mr_start r3 = mr_start run"
    using bucketLocked_start [of cfg at False run] bucketLocked_start [of cfg at True run] bucketLocked_start [of cfg "sa_At s" True run] b b2 b3 by simp_all
  show "mr_start (recordHttp cfg at key d failed run) = mr_start run" "mr_start (recordSql cfg at key d failed run) = mr_start run"
    by (cases o1; simp add: recordHttp_def recordSql_def b s Let_def case_prod_unfold)+
  show "mr_start (tickRun cfg at run) = mr_start run" by (cases o2) (simp_all add: tickRun_def b2 s)
  show "mr_start (sampleRun cfg s run) = mr_start run" by (cases o3) (simp_all add: sampleRun_def b3 s Let_def)
  show "mr_start (snd (startRequest cfg at run)) = mr_start run" by (cases o1) (simp_all add: startRequest_def b s Let_def)
qed

lemma tl_inv_cong:
  "tc_completed c' = tc_completed c \<Longrightarrow> tc_order c' = tc_order c \<Longrightarrow> tc_pending c' = tc_pending c \<Longrightarrow> activeKey c' = activeKey c \<Longrightarrow>
   tl_inv c' = tl_inv c"
  by (simp add: tl_inv_def)

lemma finishLocked_parts:
  assumes "tc_active c = Some run"
  shows "tc_active (finishLocked tooLarge t c) = None" and "tc_pending (finishLocked tooLarge t c) = tc_pending c"
    and "tc_order (finishLocked tooLarge t c) = drop (Suc (length (tc_order c)) - maxRetainedRuns) (tc_order c @ [keyOfRun run])"
    and "tc_completed (finishLocked tooLarge t c) =
      filter (\<lambda>(k, _). k \<notin> set (take (Suc (length (tc_order c)) - maxRetainedRuns) (tc_order c @ [keyOfRun run])))
        ((keyOfRun run, finalSection tooLarge (tc_cfg c) t run) # filter (\<lambda>(k, _). k \<noteq> keyOfRun run) (tc_completed c))"
    and "finishLocked tooLarge t (c\<lparr>tc_pending := p\<rparr>) = (finishLocked tooLarge t c)\<lparr>tc_pending := p\<rparr>"
  using assms by (simp_all add: finishLocked_def evictOldest_def Let_def)

lemma filter_keys: "fst ` set (filter (\<lambda>(k, v). P k) xs) = {k \<in> fst ` set xs. P k}"
  by force

lemma distinct_filter_keys: "distinct (map fst xs) \<Longrightarrow> distinct (map fst (filter (\<lambda>(k, v). P k) xs))"
  by (induction xs) (auto simp: image_iff)

lemma set_drop_distinct: "distinct xs \<Longrightarrow> set (drop n xs) = set xs - set (take n xs)"
proof -
  assume d: "distinct xs"
  have "set xs = set (take n xs) \<union> set (drop n xs)" by (metis append_take_drop_id set_append)
  moreover have "set (take n xs) \<inter> set (drop n xs) = {}" by (rule set_take_disj_set_drop_if_distinct [OF d order_refl])
  ultimately show ?thesis by blast
qed

lemma finish_keys:
  assumes "tc_active c = Some run"
  shows "fst ` set (tc_completed (finishLocked tooLarge t c)) \<subseteq> insert (keyOfRun run) (fst ` set (tc_completed c))"
proof -
  show ?thesis unfolding finishLocked_parts(4) [OF assms] filter_keys by (auto simp only: list.set image_insert filter_keys fst_conv)
qed

lemma finish_inv:
  assumes "tl_inv c" and "tc_active c = Some run"
  shows "tl_inv (finishLocked tooLarge t c)" and "activeKey (finishLocked tooLarge t c) = None"
proof -
  let ?c = "finishLocked tooLarge t c" and ?k = "keyOfRun run" and ?n = "Suc (length (tc_order c)) - maxRetainedRuns"
  note parts = finishLocked_parts [OF assms(2), of tooLarge t]
  show act: "activeKey ?c = None" by (simp add: activeKey_def parts(1))
  have key: "activeKey c = Some ?k" using assms(2) by (simp add: activeKey_def)
  then have new: "?k \<notin> fst ` set (tc_completed c)" "?k \<notin> set (tc_order c)" "?k \<notin> fst ` set (tc_pending c)" using assms(1) by (auto simp: tl_inv_def)
  have d: "distinct (tc_order c @ [?k])" using new assms(1) by (simp add: tl_inv_def)
  let ?s = "finalSection tooLarge (tc_cfg c) t run"
  have "fst ` set ((?k, ?s) # filter (\<lambda>(k, _). k \<noteq> ?k) (tc_completed c)) = insert ?k (fst ` set (tc_completed c))"
    by (simp only: list.set image_insert filter_keys fst_conv) blast
  also have "\<dots> = set (tc_order c @ [?k])" using assms(1) by (simp add: tl_inv_def)
  finally have "fst ` set (tc_completed ?c) = {k \<in> set (tc_order c @ [?k]). k \<notin> set (take ?n (tc_order c @ [?k]))}"
    by (simp only: parts(4) filter_keys)
  also have "\<dots> = set (tc_order c @ [?k]) - set (take ?n (tc_order c @ [?k]))" by blast
  also have "\<dots> = set (drop ?n (tc_order c @ [?k]))" by (rule set_drop_distinct [OF d, symmetric])
  finally have keys: "fst ` set (tc_completed ?c) = set (tc_order ?c)" by (simp only: parts(3))
  have "distinct (map fst (filter (\<lambda>(k, _). k \<noteq> ?k) (tc_completed c)))" using assms(1) by (intro distinct_filter_keys) (simp add: tl_inv_def)
  then have "distinct (map fst ((?k, ?s) # filter (\<lambda>(k, _). k \<noteq> ?k) (tc_completed c)))"
    by (simp only: list.map distinct.simps set_map filter_keys fst_conv) simp
  then have dc: "distinct (map fst (tc_completed ?c))" unfolding parts(4) by (rule distinct_filter_keys)
  have order: "distinct (tc_order ?c)" unfolding parts(3) by (rule distinct_drop [OF d])
  have len: "length (tc_order ?c) \<le> maxRetainedRuns" unfolding parts(3) by simp
  have pend: "\<forall>k \<in> fst ` set (tc_pending c). k \<notin> fst ` set (tc_completed ?c)"
  proof
    fix k assume k: "k \<in> fst ` set (tc_pending c)"
    then have "k \<notin> fst ` set (tc_completed c)" using assms(1) unfolding tl_inv_def by blast
    moreover have "k \<noteq> ?k" using k new(3) by blast
    ultimately show "k \<notin> fst ` set (tc_completed ?c)" using finish_keys [OF assms(2), of tooLarge t] by (auto simp only: subset_iff insert_iff)
  qed
  have old: "distinct (map fst (tc_pending c))" "length (tc_pending c) \<le> maxRetainedRuns" using assms(1) by (simp_all add: tl_inv_def)
  show "tl_inv ?c" unfolding tl_inv_def parts(2) act using order len dc keys old pend by (intro conjI ballI) auto
qed

lemma preempt_inv:
  assumes "tl_inv c"
  shows "tl_inv (preemptLocked tooLarge at c)" and "activeKey (preemptLocked tooLarge at c) = None"
    and "tc_pending (preemptLocked tooLarge at c) = tc_pending c"
  using assms finish_inv [OF assms] finishLocked_parts(2)
  by (cases "tc_active c"; auto simp: preemptLocked_def activeKey_def)+

lemma preempt_keys: "tl_inv c \<Longrightarrow> fst ` set (tc_completed (preemptLocked tooLarge at c)) \<subseteq> set_option (activeKey c) \<union> fst ` set (tc_completed c)"
proof (cases "tc_active c")
  case (Some run)
  then show ?thesis
    using finish_keys [OF Some] by (simp add: preemptLocked_def activeKey_def)
qed (simp add: preemptLocked_def)

lemma start_inv:
  assumes "tl_inv c"
  shows "tl_inv (snd (StartTimeline tooLarge start c))"
proof -
  let ?key = "(rs_RunID start, rs_Epoch start)" and ?p = "preemptLocked tooLarge (rs_At start) c"
  let ?c = "?p\<lparr>tc_active := Some (newRun start), tc_pending := filter (\<lambda>(k, _). k \<noteq> ?key) (tc_pending ?p)\<rparr>"
  note pre = preempt_inv [OF assms, of tooLarge "rs_At start"]
  have run: "keyOfRun (newRun start) = ?key" by (simp add: keyOfRun_def newRun_def)
  have inv: "tl_inv ?c" if "map_of (tc_completed c) ?key = None" "activeKey c \<noteq> Some ?key"
  proof -
    have "?key \<notin> fst ` set (tc_completed ?p)" using preempt_keys [OF assms, of tooLarge "rs_At start"] that by (auto simp: map_of_eq_None_iff)
    then show ?thesis using pre(1) distinct_filter_keys [of "tc_pending ?p"]
      by (auto simp: tl_inv_def activeKey_def run filter_keys intro: order_trans [OF length_filter_le])
  qed
  have same: "?p\<lparr>tc_active := Some (newRun start)\<rparr> = ?c" if "map_of (tc_pending c) ?key = None"
  proof -
    have "filter (\<lambda>(k, _). k \<noteq> ?key) (tc_pending c) = tc_pending c" using that by (auto simp: filter_id_conv map_of_eq_None_iff image_iff)
    then show ?thesis by (simp add: pre(3))
  qed
  have fin: "tl_inv (finishLocked tooLarge t ?c)" if "map_of (tc_completed c) ?key = None" "activeKey c \<noteq> Some ?key" for t
    using finish_inv(1) [OF inv [OF that]] by simp
  show ?thesis
    using assms inv same fin
    by (auto simp: StartTimeline_def Let_def activeKey_def [symmetric] pre(3) split: option.split)
qed

lemma terminate_inv:
  assumes "tl_inv c"
  shows "tl_inv (Terminate tooLarge victim terminal c)"
proof -
  let ?key = "(rt_RunID terminal, rt_Epoch terminal)" and ?p = "tc_pending c"
  let ?kept = "if length ?p \<ge> maxRetainedRuns then take (victim mod length ?p) ?p @ drop (Suc (victim mod length ?p)) ?p else ?p"
  have gone: "distinct (map fst (take n xs @ drop (Suc n) xs)) \<and> set (take n xs @ drop (Suc n) xs) \<subseteq> set xs \<and> length (take n xs @ drop (Suc n) xs) < length xs"
    if "n < length xs" "distinct (map fst xs)" for n and xs :: "(runKey \<times> RunTermination) list"
  proof -
    have "distinct (map fst (take n xs @ xs ! n # drop (Suc n) xs))" using that id_take_nth_drop [of n xs] by simp
    then show ?thesis using that(1) by (auto dest: in_set_takeD in_set_dropD)
  qed
  have p: "distinct (map fst ?p)" "length ?p \<le> maxRetainedRuns" using assms by (simp_all add: tl_inv_def)
  have kept: "distinct (map fst ?kept) \<and> set ?kept \<subseteq> set ?p \<and> length ?kept < maxRetainedRuns"
  proof (cases "maxRetainedRuns \<le> length ?p")
    case True
    then have "victim mod length ?p < length ?p" by (auto simp: maxRetainedRuns_def intro: mod_less_divisor)
    from gone [OF this p(1)] p(2) True show ?thesis unfolding if_P [OF True] by linarith
  qed (use p in auto)
  have "tl_inv (c\<lparr>tc_pending := (?key, terminal) # ?kept\<rparr>)"
    if fresh: "map_of (tc_completed c) ?key = None" "map_of ?p ?key = None" "activeKey c \<noteq> Some ?key"
  proof -
    have "?key \<notin> fst ` set ?kept" "?key \<notin> fst ` set (tc_completed c)"
      using fresh kept by (auto simp only: map_of_eq_None_iff dest: subsetD)
    moreover have "k \<notin> fst ` set (tc_completed c) \<and> activeKey c \<noteq> Some k" if "k \<in> fst ` set ?kept" for k
      using that kept assms unfolding tl_inv_def by blast
    moreover have "activeKey (c\<lparr>tc_pending := x\<rparr>) = activeKey c" for x by (simp add: activeKey_def)
    ultimately show ?thesis using assms kept fresh(3) by (simp add: tl_inv_def del: length_append set_append map_append)
  qed
  then show ?thesis
    using assms finish_inv [OF assms] by (auto simp: Terminate_def Let_def activeKey_def [symmetric]) (auto simp: activeKey_def)
qed


lemma active_inv: "(\<And>run. mr_start (f run) = mr_start run) \<Longrightarrow> tl_inv c \<Longrightarrow> tl_inv (onActive f c)"
  by (simp add: tl_inv_def onActive_parts)

lemma exec_inv: "tl_inv c \<Longrightarrow> tl_inv (tlExec tooLarge op c)"
proof (cases op)
  case (THttpStart at)
  assume "tl_inv c"
  moreover have "snd (HTTPStart at c) = onActive (\<lambda>run. snd (startRequest (tc_cfg c) at run)) c"
    by (simp add: HTTPStart_def onActive_def case_prod_unfold split: option.split)
  ultimately show ?thesis using THttpStart by (simp add: active_inv)
qed (auto simp: HTTPFinish_def HTTPCancel_def SQLFinish_def Tick_def SampleResources_def start_inv terminate_inv intro!: active_inv)

lemma run_inv: "NewTimeline cfg = Some c \<Longrightarrow> tl_inv (fold (tlExec tooLarge) ops c)"
proof -
  assume "NewTimeline cfg = Some c"
  then have "tl_inv c" by (auto simp: NewTimeline_def tl_inv_def activeKey_def Let_def split: if_splits)
  then show "tl_inv (fold (tlExec tooLarge) ops c)" by (induction ops arbitrary: c) (simp_all add: exec_inv del: tlExec.simps)
qed

lemma finish_lookup:
  assumes "tl_inv c" and "tc_active c = Some run"
  shows "map_of (tc_completed (finishLocked tooLarge t c)) (keyOfRun run) = Some (finalSection tooLarge (tc_cfg c) t run)"
proof -
  have "keyOfRun run \<notin> set (tc_order c)" "length (tc_order c) \<le> maxRetainedRuns"
    using assms by (auto simp: tl_inv_def activeKey_def)
  then have "keyOfRun run \<notin> set (take (Suc (length (tc_order c)) - maxRetainedRuns) (tc_order c @ [keyOfRun run]))"
    by (auto simp: maxRetainedRuns_def dest: in_set_takeD)
  then show ?thesis unfolding finishLocked_parts(4) [OF assms(2)] by simp
qed



end
