(* ===== verification/Timeline_Rows.thy ===== *)
theory Timeline_Rows
  imports Timeline_Theorems
begin

text \<open>
  The rows of a timeline. Seen as one table per kind of operation, indexed by bucket and key, a run is a
  table with an overflow row (the locale \<open>overflow_table\<close>), in which an observation lands in the bucket of its
  time. Hence every row of a published section is the sum of exactly the completions of its window.
\<close>

subsection \<open>The table of a run\<close>

type_synonym opTable = "int \<times> string list \<times> (nat \<Rightarrow> string \<Rightarrow> operationStat option)"

definition addAt :: "nat \<times> duration \<times> bool \<Rightarrow> (nat \<Rightarrow> operationStat option) \<Rightarrow> nat \<Rightarrow> operationStat option" where
  "addAt = (\<lambda>(i, e) f. f(i \<mapsto> addOperation e (case f i of None \<Rightarrow> zeroOperation | Some st \<Rightarrow> st)))"

definition observeTab :: "string \<Rightarrow> nat \<times> duration \<times> bool \<Rightarrow> opTable \<Rightarrow> opTable" where
  "observeTab k = (\<lambda>(i, e) (m, keys, T).
     let (k', keys', refused) = limitKey m k keys
     in (m, keys', T(i := (T i)(k' \<mapsto> addOperation e (case T i k' of None \<Rightarrow> zeroOperation | Some st \<Rightarrow> st)))))"

definition tabRow :: "opTable \<Rightarrow> string \<Rightarrow> (nat \<Rightarrow> operationStat option) option" where
  "tabRow = (\<lambda>(m, keys, T) k. if \<forall>i. T i k = None then None else Some (\<lambda>i. T i k))"

definition tab_inv :: "opTable \<Rightarrow> bool" where
  "tab_inv = (\<lambda>(m, keys, T). overflowOperationKey \<notin> set keys \<and> distinct keys \<and> int (length keys) \<le> m \<and>
     (\<forall>k. k \<noteq> overflowOperationKey \<longrightarrow> (k \<in> set keys \<longleftrightarrow> (\<exists>i. T i k \<noteq> None))))"

definition admitsOp :: "opTable \<Rightarrow> string \<Rightarrow> bool" where
  "admitsOp = (\<lambda>(m, keys, T) k. k \<in> set keys \<or> k = overflowOperationKey \<or> int (length keys) < m)"

lemma limitKey_admits:
  "limitKey m k keys = (if admitsOp (m, keys, T) k
     then (k, if k \<in> set keys \<or> k = overflowOperationKey then keys else keys @ [k], False) else (overflowOperationKey, keys, True))"
  by (auto simp: limitKey_def admitsOp_def)

lemma observeTab_inv:
  assumes "tab_inv st"
  shows "tab_inv (observeTab k x st)"
proof -
  obtain m keys T where st: "st = (m, keys, T)" by (cases st)
  obtain i e where x: "x = (i, e)" by (cases x)
  show ?thesis
    using assms by (cases "admitsOp st k") (auto simp: st x observeTab_def limitKey_admits [of m k keys T] tab_inv_def admitsOp_def)
qed

lemma tabRow_observe:
  "tabRow (observeTab k x st) k' = (if k' = (if admitsOp st k then k else overflowOperationKey)
     then Some (addAt x (case tabRow st k' of None \<Rightarrow> (\<lambda>_. None) | Some f \<Rightarrow> f)) else tabRow st k')"
proof -
  obtain m keys T where st: "st = (m, keys, T)" by (cases st)
  obtain i e where x: "x = (i, e)" by (cases x)
  let ?l = "if admitsOp st k then k else overflowOperationKey"
  have T: "snd (snd (observeTab k x st)) = T(i := (T i)(?l \<mapsto> addOperation e (case T i ?l of None \<Rightarrow> zeroOperation | Some st \<Rightarrow> st)))"
    by (simp add: st x observeTab_def limitKey_admits [of m k keys T])
  have row: "tabRow s k' = (if \<forall>i. snd (snd s) i k' = None then None else Some (\<lambda>i. snd (snd s) i k'))" for s
    by (simp add: tabRow_def case_prod_unfold)
  show ?thesis
  proof (cases "k' = ?l")
    case True
    have "(case tabRow st k' of None \<Rightarrow> (\<lambda>_. None) | Some f \<Rightarrow> f) = (\<lambda>i. T i k')" by (auto simp: row st)
    then show ?thesis unfolding row [of "observeTab k x st"] T using True by (auto simp: addAt_def x fun_eq_iff)
  next
    case False
    then have "snd (snd (observeTab k x st)) j k' = T j k'" for j unfolding T by simp
    then show ?thesis using False by (simp add: row st)
  qed
qed

interpretation ops: overflow_table tab_inv tabRow observeTab admitsOp addAt "\<lambda>_. None" overflowOperationKey
proof unfold_locales
  show "tabRow (observeTab k x st) k' = (if k' = (if admitsOp st k then k else overflowOperationKey)
      then Some (addAt x (case tabRow st k' of None \<Rightarrow> (\<lambda>_. None) | Some f \<Rightarrow> f)) else tabRow st k')" for st k x k'
    by (rule tabRow_observe)
  show "admitsOp st k" if "tab_inv st" "tabRow st k \<noteq> None" for st k
    using that by (cases st) (auto simp: tab_inv_def tabRow_def admitsOp_def split: if_splits)
  show "\<not> admitsOp (observeTab k' x st) k" if "tab_inv st" "\<not> admitsOp st k" "k \<noteq> overflowOperationKey" for st k k' x
    using that by (cases st; cases x) (auto simp: observeTab_def limitKey_def admitsOp_def)
qed (rule observeTab_inv)

text \<open>What a table holds of a list of completions, each with its key and its bucket.\<close>

type_synonym opEvents = "(string \<times> nat \<times> duration \<times> bool) list"

definition laneEvents :: "string set \<Rightarrow> string \<Rightarrow> nat \<Rightarrow> opEvents \<Rightarrow> (duration \<times> bool) list" where
  "laneEvents named lane i evs =
     map (snd \<circ> snd) (filter (\<lambda>(k, j, e). j = i \<and> (if k \<in> named then k else overflowOperationKey) = lane) evs)"

lemma fold_addAt:
  "fold addAt xs f i = (let ys = map snd (filter (\<lambda>x. fst x = i) xs)
     in if ys = [] then f i else Some (fold addOperation ys (case f i of None \<Rightarrow> zeroOperation | Some st \<Rightarrow> st)))"
proof (induction xs arbitrary: f)
  case (Cons x xs)
  then show ?case by (cases x) (auto simp: addAt_def Let_def)
qed (simp add: Let_def)

lemma table_of_events:
  assumes "st = fold (\<lambda>(k, x). observeTab k x) evs (m, [], \<lambda>_ _. None)" and "0 \<le> m"
  shows "tab_inv st" and "fst st = m"
    and "snd (snd st) i lane = merged addOperation zeroOperation (laneEvents (set (fst (snd st))) lane i evs)"
    and "int (length (fst (snd st))) < m \<Longrightarrow> fst ` set evs \<subseteq> insert overflowOperationKey (set (fst (snd st)))"
proof -
  obtain m' keys T where st: "st = (m', keys, T)" by (cases st)
  have acc: "ops.accounted evs st"
    unfolding assms(1) by (rule ops.accounted_all) (use assms(2) in \<open>simp_all add: tab_inv_def tabRow_def\<close>)
  then show inv: "tab_inv st" by (simp add: ops.accounted_def)
  show m: "fst st = m" unfolding assms(1)
    by (rule fold_invariant [where Q = "\<lambda>_. True"]) (auto simp: observeTab_def Let_def case_prod_unfold)
  have named: "k \<in> set keys \<longleftrightarrow> tabRow st k \<noteq> None" if "k \<noteq> overflowOperationKey" for k
    using inv that by (auto simp: tab_inv_def tabRow_def st)
  have free: "overflowOperationKey \<notin> set keys" using inv by (simp add: tab_inv_def st)
  have lane: "tabRow st lane = merged addAt (\<lambda>_. None) (obsOf (\<lambda>k. (if k \<in> set keys then k else overflowOperationKey) = lane) evs)"
    if "lane = overflowOperationKey \<or> lane \<in> set keys"
  proof (cases "lane = overflowOperationKey")
    case True
    have "(\<lambda>k. (if k \<in> set keys then k else overflowOperationKey) = lane) = (\<lambda>k. k = overflowOperationKey \<or> tabRow st k = None)"
    proof
      show "((if k \<in> set keys then k else overflowOperationKey) = lane) = (k = overflowOperationKey \<or> tabRow st k = None)" for k
        using named [of k] free by (cases "k = overflowOperationKey") (auto simp: True)
    qed
    then show ?thesis using acc True by (simp add: ops.accounted_def)
  next
    case False
    then have "(\<lambda>k. (if k \<in> set keys then k else overflowOperationKey) = lane) = (\<lambda>k. k = lane)" using that by (auto simp: fun_eq_iff)
    moreover have "tabRow st lane \<noteq> None" using that False named by blast
    ultimately show ?thesis using acc False by (simp add: ops.accounted_def)
  qed
  have split: "laneEvents (set keys) lane i evs = map snd (filter (\<lambda>x. fst x = i) (obsOf (\<lambda>k. (if k \<in> set keys then k else overflowOperationKey) = lane) evs))"
    by (simp add: laneEvents_def obsOf_def filter_map comp_def case_prod_unfold conj_commute)
  have "T i lane = merged addOperation zeroOperation (laneEvents (set keys) lane i evs)"
  proof (cases "lane = overflowOperationKey \<or> lane \<in> set keys")
    case True
    have "T i lane = (case tabRow st lane of None \<Rightarrow> None | Some f \<Rightarrow> f i)" by (auto simp: tabRow_def st)
    then show ?thesis unfolding lane [OF True] split by (simp add: merged_def fold_addAt Let_def del: split_paired_All)
  next
    case False
    then have "laneEvents (set keys) lane i evs = []" by (auto simp: laneEvents_def filter_empty_conv split: if_splits)
    moreover have "T i lane = None" using inv False unfolding tab_inv_def st by auto
    ultimately show ?thesis by (simp add: merged_def)
  qed
  then show "snd (snd st) i lane = merged addOperation zeroOperation (laneEvents (set (fst (snd st))) lane i evs)" by (simp add: st)
  show "fst ` set evs \<subseteq> insert overflowOperationKey (set (fst (snd st)))" if "int (length (fst (snd st))) < m"
  proof
    fix k assume k: "k \<in> fst ` set evs"
    have "admitsOp st k" using that m by (simp add: admitsOp_def st)
    then show "k \<in> insert overflowOperationKey (set (fst (snd st)))" using acc k named [of k] by (auto simp: ops.accounted_def st)
  qed
qed

subsection \<open>The tables of a run\<close>

definition tabOf :: "(mutableBucket \<Rightarrow> opRows) \<Rightarrow> mutableRun \<Rightarrow> nat \<Rightarrow> string \<Rightarrow> operationStat option" where
  "tabOf sel run i k = (if i < length (mr_buckets run) then map_of (sel (mr_buckets run ! i)) k else None)"

definition httpOps :: "int \<Rightarrow> mutableRun \<Rightarrow> opTable" where
  "httpOps m run = (m, mr_httpKeys run, tabOf mb_http run)"

definition sqlOps :: "int \<Rightarrow> mutableRun \<Rightarrow> opTable" where
  "sqlOps m run = (m, mr_sqlKeys run, tabOf mb_sql run)"

definition slotOf :: "tlConfig \<Rightarrow> RunStart \<Rightarrow> gotime \<Rightarrow> bool \<Rightarrow> nat" where
  "slotOf cfg start at endInclusive = nat (min (tf_MaxBuckets cfg - 1) (bucketIndex cfg start at endInclusive))"

definition bucket_ok :: "tlConfig \<Rightarrow> RunStart \<Rightarrow> nat \<Rightarrow> mutableBucket \<Rightarrow> bool" where
  "bucket_ok cfg start i b \<longleftrightarrow> bk_Index (mb_bucket b) = i \<and> bk_Start (mb_bucket b) = bk_Start (mb_bucket (newBucket cfg start i)) \<and>
     bk_End (mb_bucket b) = bk_End (mb_bucket (newBucket cfg start i)) \<and> distinct (map fst (mb_http b)) \<and> distinct (map fst (mb_sql b))"

definition run_ok :: "tlConfig \<Rightarrow> mutableRun \<Rightarrow> bool" where
  "run_ok cfg run \<longleftrightarrow> int (length (mr_buckets run)) \<le> tf_MaxBuckets cfg \<and>
     (\<forall>i < length (mr_buckets run). bucket_ok cfg (mr_start run) i (mr_buckets run ! i))"

lemma bucketLocked_shape:
  assumes "bucketLocked cfg at e run = (slot, run')" and "run_ok cfg run" and "2 \<le> tf_MaxBuckets cfg" and "0 < tf_Interval cfg"
  shows "slot = (if at < rs_At (mr_start run) then None else Some (slotOf cfg (mr_start run) at e))"
    and "\<And>i. slot = Some i \<Longrightarrow> i < length (mr_buckets run')"
    and "run_ok cfg run'" and "mr_start run' = mr_start run" and "httpOps m run' = httpOps m run" and "sqlOps m run' = sqlOps m run"
proof -
  let ?j = "slotOf cfg (mr_start run) at e"
  let ?bs = "mr_buckets run @ map (newBucket cfg (mr_start run)) [length (mr_buckets run)..<Suc ?j]"
  have idx: "nat (if tf_MaxBuckets cfg \<le> x then tf_MaxBuckets cfg - 1 else x) = nat (min (tf_MaxBuckets cfg - 1) x)" for x
    by (auto simp: min_def)
  have b: "slot = (if at < rs_At (mr_start run) then None else Some ?j)" "mr_buckets run' = (if at < rs_At (mr_start run) then mr_buckets run else ?bs)"
    "mr_start run' = mr_start run" "mr_httpKeys run' = mr_httpKeys run" "mr_sqlKeys run' = mr_sqlKeys run"
    using assms(1) by (auto simp: bucketLocked_def Let_def slotOf_def idx split: if_splits)
  show "slot = (if at < rs_At (mr_start run) then None else Some ?j)" "mr_start run' = mr_start run" by (rule b)+
  show "\<And>i. slot = Some i \<Longrightarrow> i < length (mr_buckets run')" using b(1,2) by (auto split: if_splits)
  have at_new: "?bs ! i = newBucket cfg (mr_start run) i" if "i < length ?bs" "\<not> i < length (mr_buckets run)" for i
    using that by (auto simp: nth_append nth_map_upt simp del: upt_Suc)
  have "int ?j < tf_MaxBuckets cfg" using assms(3) by (auto simp: slotOf_def)
  then have len: "int (length ?bs) \<le> tf_MaxBuckets cfg" using assms(2) unfolding run_ok_def length_append length_map length_upt by linarith
  have ok: "bucket_ok cfg (mr_start run) i (?bs ! i)" if "i < length ?bs" for i
  proof (cases "i < length (mr_buckets run)")
    case True
    then show ?thesis using assms(2) by (simp add: nth_append run_ok_def del: upt_Suc)
  next
    case False
    show ?thesis unfolding at_new [OF that False] by (simp add: bucket_ok_def newBucket_def Let_def)
  qed
  show "run_ok cfg run'" using assms(2) len ok by (auto simp: run_ok_def b(2,3) simp del: upt_Suc)
  have "tabOf sel run' i k = tabOf sel run i k" if "\<And>n. sel (newBucket cfg (mr_start run) n) = []" for sel i k
    using that at_new [of i] by (auto simp: tabOf_def b(2) nth_append simp del: upt_Suc split: if_splits)
  then show "httpOps m run' = httpOps m run" "sqlOps m run' = sqlOps m run"
    by (simp_all add: httpOps_def sqlOps_def b(4,5) fun_eq_iff newBucket_def Let_def)
qed

lemma onBucket_table:
  assumes "i < length (mr_buckets run)"
  shows "tabOf sel (onBucket i f run) = (tabOf sel run)(i := map_of (sel (f (mr_buckets run ! i))))"
  using assms by (auto simp: tabOf_def onBucket_def fun_eq_iff nth_list_update)

lemma onBucket_ok:
  assumes "run_ok cfg run" and "i < length (mr_buckets run)" and "bucket_ok cfg (mr_start run) i (f (mr_buckets run ! i))"
  shows "run_ok cfg (onBucket i f run)"
  using assms by (auto simp: run_ok_def onBucket_def nth_list_update)

definition withinBounds :: "tlConfig \<Rightarrow> bool" where
  "withinBounds cfg \<longleftrightarrow> 2 \<le> tf_MaxBuckets cfg \<and> 0 < tf_Interval cfg \<and> 1 \<le> tf_MaxOperations cfg"

lemmas shape = bucketLocked_shape [OF _ _ conjunct1 conjunct1 [OF conjunct2], OF _ _ iffD1 [OF withinBounds_def] iffD1 [OF withinBounds_def]]

lemma record_table:
  assumes "recordOperation m key d failed keys rows dropped = (keys', rows', dropped')"
  shows "distinct (map fst rows) \<Longrightarrow> distinct (map fst rows')"
    and "T i = map_of rows \<Longrightarrow> observeTab (safeOperationKey key) (i, d, failed) (m, keys, T) = (m, keys', T(i := map_of rows'))"
proof -
  obtain k ks r where k: "limitKey m (safeOperationKey key) keys = (k, ks, r)" by (cases "limitKey m (safeOperationKey key) keys") auto
  have rows: "rows' = alter k zeroOperation (addOperation (d, failed)) rows" "ks = keys'"
    using assms by (auto simp: recordOperation_def operationKeyLocked_def k observeOperation_def)
  show "distinct (map fst rows) \<Longrightarrow> distinct (map fst rows')" by (simp add: rows distinct_alter)
  show "T i = map_of rows \<Longrightarrow> observeTab (safeOperationKey key) (i, d, failed) (m, keys, T) = (m, keys', T(i := map_of rows'))"
    by (auto simp: observeTab_def k rows map_of_alter fun_eq_iff)
qed

lemma recordHttp_tables:
  assumes "run_ok cfg run" and "withinBounds cfg" and "run' = recordHttp cfg at key d failed run"
  shows "run_ok cfg run' \<and> sqlOps m run' = sqlOps m run \<and>
    httpOps (tf_MaxOperations cfg) run' = (if at < rs_At (mr_start run) then httpOps (tf_MaxOperations cfg) run
      else observeTab (safeOperationKey key) (slotOf cfg (mr_start run) at False, d, failed) (httpOps (tf_MaxOperations cfg) run))"
proof -
  obtain slot run1 where b: "bucketLocked cfg at False run = (slot, run1)" by fastforce
  note shape1 = shape [OF b assms(1,2,2)]
  show ?thesis
  proof (cases slot)
    case None
    then show ?thesis using shape1 assms(3) by (simp add: recordHttp_def b split: if_splits)
  next
    case (Some i)
    then have i: "i = slotOf cfg (mr_start run) at False" "\<not> at < rs_At (mr_start run)" using shape1(1) by (auto split: if_splits)
    note lt = shape1(2) [OF Some]
    obtain keys rows dropped where r:
      "recordOperation (tf_MaxOperations cfg) key d failed (mr_httpKeys run1) (mb_http (mr_buckets run1 ! i)) (mr_dropped run1) = (keys, rows, dropped)"
      by (rule prod_cases3)
    let ?f = "\<lambda>b. b\<lparr>mb_http := rows\<rparr>" and ?run2 = "run1\<lparr>mr_httpKeys := keys, mr_dropped := dropped\<rparr>"
    have new: "run' = onBucket i ?f ?run2" by (simp add: assms(3) recordHttp_def b Some r)
    have "run_ok cfg run'" unfolding new
      using shape1(3) lt record_table(1) [OF r] by (intro onBucket_ok) (simp_all add: run_ok_def bucket_ok_def)
    moreover have "tabOf mb_sql run' = tabOf mb_sql run1" using lt by (auto simp: new onBucket_table fun_eq_iff tabOf_def)
    moreover have "tabOf mb_http run' = (tabOf mb_http run1)(i := map_of rows)" using lt by (auto simp: new onBucket_table tabOf_def fun_eq_iff)
    moreover have "observeTab (safeOperationKey key) (i, d, failed) (httpOps (tf_MaxOperations cfg) run1) =
        (tf_MaxOperations cfg, keys, (tabOf mb_http run1)(i := map_of rows))"
      unfolding httpOps_def using lt by (intro record_table(2) [OF r]) (simp add: tabOf_def fun_eq_iff)
    moreover have "mr_httpKeys run' = keys" "mr_sqlKeys run' = mr_sqlKeys run1" by (simp_all add: new onBucket_def)
    ultimately show ?thesis
      using i shape1(5) [of "tf_MaxOperations cfg"] shape1(6) [of m] by (simp add: httpOps_def sqlOps_def)
  qed
qed

lemma recordSql_tables:
  assumes "run_ok cfg run" and "withinBounds cfg" and "run' = recordSql cfg at key d failed run"
  shows "run_ok cfg run' \<and> httpOps m run' = httpOps m run \<and>
    sqlOps (tf_MaxOperations cfg) run' = (if at < rs_At (mr_start run) then sqlOps (tf_MaxOperations cfg) run
      else observeTab (safeOperationKey key) (slotOf cfg (mr_start run) at False, d, failed) (sqlOps (tf_MaxOperations cfg) run))"
proof -
  obtain slot run1 where b: "bucketLocked cfg at False run = (slot, run1)" by fastforce
  note shape1 = shape [OF b assms(1,2,2)]
  show ?thesis
  proof (cases slot)
    case None
    then show ?thesis using shape1 assms(3) by (simp add: recordSql_def b split: if_splits)
  next
    case (Some i)
    then have i: "i = slotOf cfg (mr_start run) at False" "\<not> at < rs_At (mr_start run)" using shape1(1) by (auto split: if_splits)
    note lt = shape1(2) [OF Some]
    obtain keys rows dropped where r:
      "recordOperation (tf_MaxOperations cfg) key d failed (mr_sqlKeys run1) (mb_sql (mr_buckets run1 ! i)) (mr_dropped run1) = (keys, rows, dropped)"
      by (rule prod_cases3)
    let ?f = "\<lambda>b. b\<lparr>mb_sql := rows\<rparr>" and ?run2 = "run1\<lparr>mr_sqlKeys := keys, mr_dropped := dropped\<rparr>"
    have new: "run' = onBucket i ?f ?run2" by (simp add: assms(3) recordSql_def b Some r)
    have "run_ok cfg run'" unfolding new
      using shape1(3) lt record_table(1) [OF r] by (intro onBucket_ok) (simp_all add: run_ok_def bucket_ok_def)
    moreover have "tabOf mb_http run' = tabOf mb_http run1" using lt by (auto simp: new onBucket_table fun_eq_iff tabOf_def)
    moreover have "tabOf mb_sql run' = (tabOf mb_sql run1)(i := map_of rows)" using lt by (auto simp: new onBucket_table tabOf_def fun_eq_iff)
    moreover have "observeTab (safeOperationKey key) (i, d, failed) (sqlOps (tf_MaxOperations cfg) run1) =
        (tf_MaxOperations cfg, keys, (tabOf mb_sql run1)(i := map_of rows))"
      unfolding sqlOps_def using lt by (intro record_table(2) [OF r]) (simp add: tabOf_def fun_eq_iff)
    moreover have "mr_sqlKeys run' = keys" "mr_httpKeys run' = mr_httpKeys run1" by (simp_all add: new onBucket_def)
    ultimately show ?thesis
      using i shape1(6) [of "tf_MaxOperations cfg"] shape1(5) [of m] by (simp add: httpOps_def sqlOps_def)
  qed
qed

text \<open>Every other event leaves both tables as they are.\<close>

definition quietRun :: "tlConfig \<Rightarrow> mutableRun \<Rightarrow> mutableRun \<Rightarrow> bool" where
  "quietRun cfg run run' \<longleftrightarrow> run_ok cfg run' \<and> mr_start run' = mr_start run \<and> (\<forall>m. httpOps m run' = httpOps m run \<and> sqlOps m run' = sqlOps m run)"

lemma quiet_refl: "run_ok cfg run \<Longrightarrow> quietRun cfg run run"
  by (simp add: quietRun_def)

lemma quiet_trans: "quietRun cfg r1 r2 \<Longrightarrow> quietRun cfg r2 r3 \<Longrightarrow> quietRun cfg r1 r3"
  by (simp add: quietRun_def)

lemma quiet_fields:
  "run_ok cfg run \<Longrightarrow> mr_buckets run' = mr_buckets run \<Longrightarrow> mr_start run' = mr_start run \<Longrightarrow> mr_httpKeys run' = mr_httpKeys run \<Longrightarrow>
   mr_sqlKeys run' = mr_sqlKeys run \<Longrightarrow> quietRun cfg run run'"
  by (simp add: quietRun_def run_ok_def httpOps_def sqlOps_def tabOf_def fun_eq_iff)

lemma quiet_bucket: "run_ok cfg run \<Longrightarrow> withinBounds cfg \<Longrightarrow> bucketLocked cfg at e run = (slot, run1) \<Longrightarrow> quietRun cfg run run1"
  using shape [of cfg at e run slot run1] by (simp add: quietRun_def)

lemma quiet_onBucket:
  assumes "run_ok cfg run" and "i < length (mr_buckets run)"
    and "\<And>b. bucket_ok cfg (mr_start run) i b \<Longrightarrow> bucket_ok cfg (mr_start run) i (f b)" and "\<And>b. mb_http (f b) = mb_http b" and "\<And>b. mb_sql (f b) = mb_sql b"
  shows "quietRun cfg run (onBucket i f run)"
proof -
  have "tabOf mb_http (onBucket i f run) = tabOf mb_http run" "tabOf mb_sql (onBucket i f run) = tabOf mb_sql run"
    using assms(2,4,5) by (auto simp: onBucket_table fun_eq_iff tabOf_def)
  moreover have "run_ok cfg (onBucket i f run)" using assms(1-3) by (intro onBucket_ok) (simp_all add: run_ok_def)
  ultimately show ?thesis by (simp add: quietRun_def httpOps_def sqlOps_def) (simp add: onBucket_def)
qed

lemma quiet_raise: "run_ok cfg run \<Longrightarrow> i < length (mr_buckets run) \<Longrightarrow> quietRun cfg run (onBucket i (raiseInFlight n) run)"
  by (rule quiet_onBucket) (simp_all add: raiseInFlight_def bucket_ok_def)

lemma quiet_leave: "run_ok cfg run \<Longrightarrow> quietRun cfg run (leaveRequest run)"
  by (rule quiet_fields) (simp_all add: leaveRequest_def)

lemma quiet_events:
  assumes "run_ok cfg run" and "withinBounds cfg"
  shows "quietRun cfg run (snd (startRequest cfg at run))" and "quietRun cfg run (snd (bucketLocked cfg at False (leaveRequest run)))"
    and "quietRun cfg run (tickRun cfg at run)" and "quietRun cfg run (sampleRun cfg s run)"
proof -
  note bounds = assms(2)
  obtain s1 r1 where b1: "bucketLocked cfg at False run = (s1, r1)" by fastforce
  obtain s2 r2 where b2: "bucketLocked cfg at True run = (s2, r2)" by fastforce
  obtain s3 r3 where b3: "bucketLocked cfg (sa_At s) True run = (s3, r3)" by fastforce
  note q = quiet_bucket [OF assms b1] quiet_bucket [OF assms b2] quiet_bucket [OF assms b3]
  note lt = shape(2) [OF b1 assms assms(2)] shape(2) [OF b2 assms assms(2)] shape(2) [OF b3 assms assms(2)]
  have ok: "run_ok cfg r1" "run_ok cfg r2" "run_ok cfg r3" using q by (simp_all add: quietRun_def)
  have "run_ok cfg (leaveRequest run)" using quiet_leave [OF assms(1)] by (simp add: quietRun_def)
  then show "quietRun cfg run (snd (bucketLocked cfg at False (leaveRequest run)))"
    using quiet_trans [OF quiet_leave [OF assms(1)] quiet_bucket [OF _ bounds]] by (metis prod.collapse)
  show "quietRun cfg run (tickRun cfg at run)"
    using q(2) lt(2) ok(2) by (cases s2) (auto simp: tickRun_def b2 intro: quiet_trans [OF _ quiet_raise])
  let ?r = "if mr_inFlight r1 < int64_max then r1\<lparr>mr_inFlight := mr_inFlight r1 + 1\<rparr> else r1\<lparr>mr_dropped := incrementDropped (mr_dropped r1)\<rparr>"
  have r: "quietRun cfg r1 ?r" by (rule quiet_fields [OF ok(1)]) simp_all
  then have "run_ok cfg ?r" by (simp only: quietRun_def)
  then show "quietRun cfg run (snd (startRequest cfg at run))"
    using q(1) lt(1) quiet_trans [OF q(1) quiet_trans [OF r quiet_raise]]
    by (cases s1) (simp_all add: startRequest_def b1 Let_def split: if_splits)
  have set_ok: "quietRun cfg r3 (onBucket i (\<lambda>b. b\<lparr>mb_bucket := (mb_bucket b)\<lparr>bk_DBPools := p, bk_Process := pr, bk_Host := h\<rparr>\<rparr>) r3)" if "s3 = Some i" for i p pr h
    by (rule quiet_onBucket [OF ok(3) lt(3) [OF that]]) (simp_all add: bucket_ok_def)
  have keep: "quietRun cfg r (r\<lparr>mr_prevPools := a, mr_prevProc := b, mr_prevHost := c, mr_prevAt := d\<rparr>)" if "run_ok cfg r" for r a b c d
    by (rule quiet_fields [OF that]) simp_all
  have both: "quietRun cfg run (r\<lparr>mr_prevPools := a, mr_prevProc := b, mr_prevHost := c, mr_prevAt := d\<rparr>)" if "quietRun cfg r3 r" for r a b c d
    using quiet_trans [OF quiet_trans [OF q(3) that] keep] that by (simp add: quietRun_def)
  show "quietRun cfg run (sampleRun cfg s run)"
  proof (cases s3)
    case (Some i)
    show ?thesis by (simp add: sampleRun_def b3 Some Let_def both [OF set_ok [OF Some]] both [OF quiet_refl [OF ok(3)]])
  qed (use q(3) in \<open>simp add: sampleRun_def b3\<close>)
qed

subsection \<open>Events of a run\<close>

fun isEvent :: "tlOp \<Rightarrow> bool" where
  "isEvent (TStart _) = False"
| "isEvent (TTerminate _ _) = False"
| "isEvent _ = True"

fun runExec :: "tlConfig \<Rightarrow> tlOp \<Rightarrow> mutableRun \<Rightarrow> mutableRun" where
  "runExec cfg (THttpStart at) run = snd (startRequest cfg at run)"
| "runExec cfg (THttpFinish at token key d failed) run = (if eventMatches run token then recordHttp cfg at key d failed (leaveRequest run) else run)"
| "runExec cfg (THttpCancel at token) run = (if eventMatches run token then snd (bucketLocked cfg at False (leaveRequest run)) else run)"
| "runExec cfg (TSqlFinish at token key d failed) run = (if eventMatches run token then recordSql cfg at key d failed run else run)"
| "runExec cfg (TTick at) run = tickRun cfg at run"
| "runExec cfg (TSample s) run = (if IsZero (sa_At s) then run else sampleRun cfg s run)"
| "runExec cfg _ run = run"

lemma exec_active:
  assumes "tc_active c = Some run" and "isEvent op"
  shows "tlExec tooLarge op c = c\<lparr>tc_active := Some (runExec (tc_cfg c) op run)\<rparr>"
  using assms by (cases op) (simp_all add: HTTPStart_def HTTPFinish_def HTTPCancel_def SQLFinish_def Tick_def SampleResources_def onActive_def case_prod_unfold)

lemma exec_all_active:
  assumes "tc_active c = Some run" and "list_all isEvent evs"
  shows "fold (tlExec tooLarge) evs c = c\<lparr>tc_active := Some (fold (runExec (tc_cfg c)) evs run)\<rparr>"
  using assms
proof (induction evs arbitrary: c run)
  case (Cons op evs)
  let ?c = "c\<lparr>tc_active := Some (runExec (tc_cfg c) op run)\<rparr>"
  have "tlExec tooLarge op c = ?c" by (rule exec_active) (use Cons.prems in simp_all)
  then show ?case using Cons.IH [of ?c "runExec (tc_cfg c) op run"] Cons.prems by simp
qed simp

fun httpCompletion :: "tlConfig \<Rightarrow> RunStart \<Rightarrow> tlOp \<Rightarrow> opEvents" where
  "httpCompletion cfg start (THttpFinish at token key d failed) =
     (if token = Some (rs_RunID start, rs_Epoch start) \<and> rs_At start \<le> at then [(safeOperationKey key, slotOf cfg start at False, d, failed)] else [])"
| "httpCompletion cfg start _ = []"

fun sqlCompletion :: "tlConfig \<Rightarrow> RunStart \<Rightarrow> tlOp \<Rightarrow> opEvents" where
  "sqlCompletion cfg start (TSqlFinish at token key d failed) =
     (if token = Some (rs_RunID start, rs_Epoch start) \<and> rs_At start \<le> at then [(safeOperationKey key, slotOf cfg start at False, d, failed)] else [])"
| "sqlCompletion cfg start _ = []"

lemma runExec_tables:
  assumes "run_ok cfg run" and "withinBounds cfg" and "m = tf_MaxOperations cfg"
  shows "run_ok cfg (runExec cfg op run) \<and> mr_start (runExec cfg op run) = mr_start run \<and>
    httpOps m (runExec cfg op run) = fold (\<lambda>(k, x). observeTab k x) (httpCompletion cfg (mr_start run) op) (httpOps m run) \<and>
    sqlOps m (runExec cfg op run) = fold (\<lambda>(k, x). observeTab k x) (sqlCompletion cfg (mr_start run) op) (sqlOps m run)"
proof (cases op)
  case (THttpFinish at token key d failed)
  have q: "quietRun cfg run (leaveRequest run)" by (rule quiet_leave [OF assms(1)])
  then have "run_ok cfg (leaveRequest run)" by (simp add: quietRun_def)
  from recordHttp_tables [OF this assms(2) refl, of at key d failed m] q assms show ?thesis
    by (auto simp: THttpFinish eventMatches_def keyOfRun_def quietRun_def not_less)
next
  case (TSqlFinish at token key d failed)
  from recordSql_tables [OF assms(1,2) refl, of at key d failed m] assms show ?thesis
    by (auto simp: TSqlFinish eventMatches_def keyOfRun_def not_less)
qed (use assms quiet_events [OF assms(1,2)] quiet_refl [OF assms(1)] in \<open>auto simp: quietRun_def\<close>)

lemma run_tables:
  assumes "run_ok cfg run" and "withinBounds cfg" and "m = tf_MaxOperations cfg"
  shows "run_ok cfg (fold (runExec cfg) evs run) \<and> mr_start (fold (runExec cfg) evs run) = mr_start run \<and>
    httpOps m (fold (runExec cfg) evs run) = fold (\<lambda>(k, x). observeTab k x) (concat (map (httpCompletion cfg (mr_start run)) evs)) (httpOps m run) \<and>
    sqlOps m (fold (runExec cfg) evs run) = fold (\<lambda>(k, x). observeTab k x) (concat (map (sqlCompletion cfg (mr_start run)) evs)) (sqlOps m run)"
  using assms(1)
proof (induction evs arbitrary: run)
  case (Cons op evs)
  from runExec_tables [OF Cons.prems assms(2,3), of op] Cons.IH [of "runExec cfg op run"] show ?case by simp
qed simp

subsection \<open>The published rows\<close>

definition exactRows :: "int \<Rightarrow> opEvents \<Rightarrow> (nat \<times> tlOperation list) list \<Rightarrow> bool" where
  "exactRows m evs tables \<longleftrightarrow> (\<exists>named. overflowOperationKey \<notin> named \<and> finite named \<and> int (card named) \<le> m \<and>
     (int (card named) < m \<longrightarrow> fst ` set evs \<subseteq> insert overflowOperationKey named) \<and>
     (tables = [] \<or> (\<forall>(k, i, e) \<in> set evs. i \<in> fst ` set tables)) \<and>
     (\<forall>(i, rows) \<in> set tables. distinct (map to_Key rows) \<and> sorted (map (\<lambda>r. (- to_TotalNs r, to_Key r)) rows) \<and>
        (\<forall>r. r \<in> set rows \<longleftrightarrow> laneEvents named (to_Key r) i evs \<noteq> [] \<and>
               r = operationRow (to_Key r, fold addOperation (laneEvents named (to_Key r) i evs) zeroOperation))))"

lemma operationRows_set:
  assumes "distinct (map fst rows)"
  shows "r \<in> set (operationRows rows) \<longleftrightarrow> (\<exists>st. map_of rows (to_Key r) = Some st \<and> r = operationRow (to_Key r, st))"
    and "distinct (map to_Key (operationRows rows))" and "sorted (map (\<lambda>r. (- to_TotalNs r, to_Key r)) (operationRows rows))"
proof -
  have key: "to_Key (operationRow x) = fst x" for x by (simp add: operationRow_def case_prod_unfold)
  have "r \<in> set (operationRows rows) \<longleftrightarrow> (\<exists>k st. (k, st) \<in> set rows \<and> r = operationRow (k, st))" by (auto simp: operationRows_def)
  also have "\<dots> \<longleftrightarrow> (\<exists>st. (to_Key r, st) \<in> set rows \<and> r = operationRow (to_Key r, st))" by (auto simp: key)
  finally show "r \<in> set (operationRows rows) \<longleftrightarrow> (\<exists>st. map_of rows (to_Key r) = Some st \<and> r = operationRow (to_Key r, st))"
    using assms by simp
  have "distinct (map to_Key (map operationRow rows))" using assms by (simp add: comp_def key)
  then show "distinct (map to_Key (operationRows rows))" unfolding operationRows_def by (simp only: distinct_map distinct_sort set_sort)
  show "sorted (map (\<lambda>r. (- to_TotalNs r, to_Key r)) (operationRows rows))" unfolding operationRows_def by (rule sorted_sort_key)
qed

lemma exact_tables:
  assumes st: "(m, keys, T) = fold (\<lambda>(k, x). observeTab k x) evs (m, [], \<lambda>_ _. None)" and m: "0 \<le> m"
    and T: "\<And>i k. T i k = (if i < length bs then map_of (bs ! i) k else None)" and d: "\<And>i. i < length bs \<Longrightarrow> distinct (map fst (bs ! i))"
    and tables: "tables = [] \<or> tables = map (\<lambda>i. (i, operationRows (bs ! i))) [0..<length bs]"
  shows "exactRows m evs tables"
proof -
  note tab = table_of_events [OF st m, simplified]
  have keys: "overflowOperationKey \<notin> set keys" "int (card (set keys)) \<le> m" "card (set keys) = length keys"
    using tab(1) by (auto simp: tab_inv_def distinct_card)
  have slot: "i < length bs" if ev: "(k, i, e) \<in> set evs" for k i e
  proof -
    have "laneEvents (set keys) (if k \<in> set keys then k else overflowOperationKey) i evs \<noteq> []" using ev by (force simp: laneEvents_def filter_empty_conv)
    then have "T i (if k \<in> set keys then k else overflowOperationKey) \<noteq> None" by (simp add: tab(3) merged_def)
    then show ?thesis by (simp add: T split: if_splits)
  qed
  have rows: "r \<in> set (operationRows (bs ! i)) \<longleftrightarrow> laneEvents (set keys) (to_Key r) i evs \<noteq> [] \<and>
      r = operationRow (to_Key r, fold addOperation (laneEvents (set keys) (to_Key r) i evs) zeroOperation)" if "i < length bs" for i r
  proof -
    have "map_of (bs ! i) (to_Key r) = merged addOperation zeroOperation (laneEvents (set keys) (to_Key r) i evs)"
      using T [of i "to_Key r"] that unfolding tab(3) by simp
    then show ?thesis unfolding operationRows_set(1) [OF d [OF that]] by (cases "laneEvents (set keys) (to_Key r) i evs") (simp_all add: merged_def)
  qed
  have all: "tables = [] \<or> (\<forall>(k, i, e) \<in> set evs. i \<in> fst ` set tables)" using tables slot by (auto simp: image_iff)
  have each: "\<forall>(i, rows) \<in> set tables. distinct (map to_Key rows) \<and> sorted (map (\<lambda>r. (- to_TotalNs r, to_Key r)) rows) \<and>
      (\<forall>r. r \<in> set rows \<longleftrightarrow> laneEvents (set keys) (to_Key r) i evs \<noteq> [] \<and>
         r = operationRow (to_Key r, fold addOperation (laneEvents (set keys) (to_Key r) i evs) zeroOperation))"
    using tables operationRows_set(2,3) [OF d] rows by auto
  have "int (card (set keys)) < m \<longrightarrow> fst ` set evs \<subseteq> insert overflowOperationKey (set keys)" using tab(4) keys(3) by simp
  with keys all each show ?thesis unfolding exactRows_def by (intro exI [of _ "set keys"] conjI) simp_all
qed

lemma exec_cfg: "tc_cfg (tlExec tooLarge op c) = tc_cfg c"
proof -
  have fin: "tc_cfg (finishLocked tooLarge t c') = tc_cfg c'" for t c' by (simp add: finishLocked_def evictOldest_def Let_def split: option.split)
  have pre: "tc_cfg (preemptLocked tooLarge at c') = tc_cfg c'" for at c' by (simp add: preemptLocked_def fin split: option.split)
  show ?thesis
    by (cases op) (auto simp: StartTimeline_def Terminate_def Let_def fin pre HTTPStart_def HTTPFinish_def HTTPCancel_def SQLFinish_def Tick_def
      SampleResources_def onActive_parts split: option.split prod.split)
qed

lemma exec_all_cfg: "tc_cfg (fold (tlExec tooLarge) evs c) = tc_cfg c"
  by (induction evs arbitrary: c) (simp_all add: exec_cfg del: tlExec.simps)

lemma new_bounds: "NewTimeline cfg = Some c \<Longrightarrow> withinBounds (tc_cfg c)"
  by (auto simp: NewTimeline_def withinBounds_def Let_def go_defs split: if_splits)

lemma start_active: "StartTimeline tooLarge start c = (True, c1) \<Longrightarrow> tc_active c1 = Some (newRun start)"
  by (auto simp: StartTimeline_def Let_def split: if_splits option.splits)

lemma start_valid: "StartTimeline tooLarge start c = (True, c1) \<Longrightarrow> rs_RunID start \<noteq> [] \<and> rs_Epoch start \<noteq> 0"
  by (auto simp: StartTimeline_def Let_def split: if_splits)

lemma final_rows:
  assumes "run_ok cfg run" and "withinBounds cfg"
    and "httpOps (tf_MaxOperations cfg) run = fold (\<lambda>(k, x). observeTab k x) hs (tf_MaxOperations cfg, [], \<lambda>_ _. None)"
    and "sqlOps (tf_MaxOperations cfg) run = fold (\<lambda>(k, x). observeTab k x) qs (tf_MaxOperations cfg, [], \<lambda>_ _. None)"
    and "s = finalSection tooLarge cfg terminal run"
  shows "int (length (ts_Buckets s)) \<le> tf_MaxBuckets cfg \<and>
    exactRows (tf_MaxOperations cfg) hs (map (\<lambda>b. (bk_Index b, bk_HTTP b)) (ts_Buckets s)) \<and>
    exactRows (tf_MaxOperations cfg) qs (map (\<lambda>b. (bk_Index b, bk_SQL b)) (ts_Buckets s))"
proof -
  obtain slot r where b: "bucketLocked cfg (rt_At terminal) True run = (slot, r)" by fastforce
  note q = quiet_bucket [OF assms(1,2) b]
  let ?m = "tf_MaxOperations cfg" and ?bs = "mr_buckets r"
  have ok: "int (length ?bs) \<le> tf_MaxBuckets cfg" "\<And>i. i < length ?bs \<Longrightarrow> bucket_ok cfg (mr_start r) i (?bs ! i)"
    using q unfolding quietRun_def run_ok_def by blast+
  have tabs: "(?m, mr_httpKeys r, tabOf mb_http r) = fold (\<lambda>(k, x). observeTab k x) hs (?m, [], \<lambda>_ _. None)"
    "(?m, mr_sqlKeys r, tabOf mb_sql r) = fold (\<lambda>(k, x). observeTab k x) qs (?m, [], \<lambda>_ _. None)"
    using q assms(3,4) by (simp_all add: quietRun_def httpOps_def sqlOps_def)
  have m: "0 \<le> ?m" using assms(2) by (simp add: withinBounds_def)
  have s: "ts_Buckets s = [] \<or> ts_Buckets s = map (\<lambda>m. (mb_bucket m)\<lparr>bk_HTTP := operationRows (mb_http m), bk_SQL := operationRows (mb_sql m)\<rparr>) ?bs"
    by (simp add: assms(5) finalSection_def b sectionLocked_def Let_def)
  have index: "map (\<lambda>m. (bk_Index (mb_bucket m), g m)) ?bs = map (\<lambda>i. (i, g (?bs ! i))) [0..<length ?bs]" for g :: "mutableBucket \<Rightarrow> tlOperation list"
    using ok(2) by (intro nth_equalityI) (simp_all add: bucket_ok_def)
  have "exactRows ?m hs (map (\<lambda>b. (bk_Index b, bk_HTTP b)) (ts_Buckets s))"
    by (rule exact_tables [OF tabs(1) m, where bs = "map mb_http ?bs"])
      (use s ok(2) index [of "\<lambda>m. operationRows (mb_http m)"] in \<open>auto simp: tabOf_def bucket_ok_def comp_def cong: map_cong\<close>)
  moreover have "exactRows ?m qs (map (\<lambda>b. (bk_Index b, bk_SQL b)) (ts_Buckets s))"
    by (rule exact_tables [OF tabs(2) m, where bs = "map mb_sql ?bs"])
      (use s ok(2) index [of "\<lambda>m. operationRows (mb_sql m)"] in \<open>auto simp: tabOf_def bucket_ok_def comp_def cong: map_cong\<close>)
  moreover have "int (length (ts_Buckets s)) \<le> tf_MaxBuckets cfg" using s ok(1) assms(2) by (auto simp: withinBounds_def)
  ultimately show ?thesis by blast
qed


definition sampleStart :: RunStart where
  "sampleStart = \<lparr>rs_RunID = ''r'', rs_Epoch = 1, rs_At = 10\<rparr>"

definition sampleEvents :: "tlOp list" where
  "sampleEvents = [THttpStart 20, THttpFinish 30 (Some (''r'', 1)) ''GET /'' 10 False, THttpFinish 40 (Some (''r'', 2)) ''GET /'' 10 False,
     THttpFinish 1000000010 (Some (''r'', 1)) ''GET /b'' 7 True, TTick 1000000020]"


end
