(* ===== verification/Spec2Isabelle.thy ===== *)
theory Spec2Isabelle
  imports Run_Theorems Finish_Theorems Boundary_Theorems Generation Agg Counters Redis Sql_Store Sql_Rows Request_Work Checked Pprof_Theorems Flame_Theorems Flow_Latency Funnel_Theorems Graph_Theorems Access_Bounds Flow_Stats Http_Sections Http_Rows Query_Shapes Registries Timeline_Rows
begin

text \<open>
  \<^bold>\<open>isutools: a verification library for the run controller and its collectors.\<close>

  \<^bold>\<open>The program.\<close> isutools is a Go toolkit that measures a web application during benchmark runs. A run
  is opened and closed by the run controller (\<open>internal/runctl\<close>). At each of the two boundaries of a run
  the controller visits the registered collectors: generation collectors exchange their live table for a
  fresh one and hand out a handle, baseline collectors are sampled in parallel. A finish worker then
  drains and freezes the handles, collects one section per collector and publishes a snapshot; an abort
  fences the run, joins its goroutines and releases its handles. The collectors are \<open>counters\<close>,
  \<open>redisstats\<close>, \<open>sqlstats\<close>, \<open>sqlrows\<close>, \<open>httpstats\<close>, \<open>flowstats\<close> and others; they share the latency table of
  \<open>internal/agg\<close> and the generation manager of \<open>internal/generation\<close>. \<open>internal/requestwork\<close> and
  \<open>internal/requestsql\<close> attribute the database and external work of one request to it. Beside the runs,
  \<open>accesslog\<close> aggregates proxy logs into rows and visitor journeys, \<open>flowviz\<close> turns requests into funnels and a
  transition graph, and \<open>internal/pprofanalyze\<close> turns two profiles into an interval analysis that
  \<open>internal/profilemodel\<close> validates before it is published.

  \<^bold>\<open>Conventions.\<close> A Go struct is a record whose fields carry a short prefix, an enumeration a datatype, an
  error a value of the datatype \<open>gerr\<close> of theory \<open>Errors\<close>, a result with an error a sum. A pointer into a
  shared structure is an index. A call that may panic is a value of the datatype \<open>call\<close>, so that the
  recover barriers are case distinctions. Signed 64-bit numbers are integers; every addition that may
  leave the range is written with \<open>wrap64\<close>. Unsigned 64-bit counters that must not wrap silently are
  \<open>64 word\<close>. A map whose iteration order the code never observes, or sorts away, is an association list
  with distinct keys. Instants are integers of nanoseconds, \<open>time_Sub\<close> saturates as Go's does. Code
  outside the repository (collectors written by users, clocks, random identifiers, databases, the pprof
  parser with its \<open>CheckValid\<close> and \<open>Merge\<close>) is an argument of the definitions that call it, as are the JSON encoder,
  SHA-256, \<open>time.ParseDuration\<close>, \<open>ctx.Err\<close> and an expired timer. Regular expressions are written out over the bytes or
  runes they match; configured path rules are replacement functions.

  \<^bold>\<open>Theories.\<close>
  \<^item> \<open>Prelude\<close>, \<open>Go_Strings\<close>: 64-bit wrapping, instants, list removal; byte strings, UTF-8 decoding,
    trimming, fields, quoting. \<open>IsPrint\<close> is exact up to U+00FF and treats every later rune that is not
    white space as printable; \<open>strings_ToUpper\<close> covers every rune whose upper case is an ASCII letter and
    leaves the others, which its callers refuse or compare with ASCII words only.
  \<^item> \<open>Errors\<close> (\<open>errors.go\<close>, \<open>safecall.go\<close>), \<open>Run_Types\<close> (\<open>types.go\<close>), \<open>Budget\<close> (\<open>budget.go\<close>), \<open>Window\<close>
    (\<open>window.go\<close>), \<open>Phases\<close> (\<open>phase.go\<close>): the sequential parts of the controller. Lemmas: verdicts form a
    chain under \<open>worse\<close>, defaults fill every budget, the window is the span of its marks, and a phase
    visits each collector once whatever the collectors answer.
  \<^item> \<open>Controller\<close>, \<open>Start_Run\<close>, \<open>Finish_Run\<close>, \<open>Abort_Run\<close> (files of the same names): the controller's record and
    one definition per critical section, with the fence that compares the epoch a goroutine started
    under with the epoch of the slot.
  \<^item> \<open>Run_Machine\<close>: the interleavings. A state is the controller and the multiset of goroutines in flight;
    \<open>step\<close> has one rule per critical section, and calls to collectors are arbitrary outcomes. \<open>Run_Invariants\<close>
    states the invariant, \<open>Run_Preservation\<close> proves it step by step, \<open>Run_History\<close> relates two states of one
    execution, \<open>Run_Demo\<close> executes a run to its published snapshot and another to its abort, and
    supplies the reachable states of the witnesses.
  \<^item> \<open>Run_Theorems\<close>, \<open>Finish_Theorems\<close>, \<open>Boundary_Theorems\<close>: the properties of the controller.
  \<^item> \<open>Generation\<close> (\<open>internal/generation/generation.go\<close>): leases, sealing, swapping and freezing as a
    transition system (locale \<open>settling\<close>); a settled generation is final and is marked cut short only with work in flight.
  \<^item> \<open>Tables\<close>: the locale \<open>overflow_table\<close>, a bounded table with an overflow row in which every observation is
    accounted for. It is interpreted by \<open>Agg\<close> (\<open>internal/agg/agg.go\<close>: shards, log2 histogram, percentile),
    \<open>Counters\<close>, \<open>Request_Work\<close>, \<open>Access_Rows\<close> and \<open>Http_Rows\<close>.
  \<^item> \<open>Histogram\<close>: the locale \<open>histogram\<close>, monotone buckets in which a cumulative count finds the bucket of the
    exact percentile; interpreted for the latency table, the funnel steps and the access log.
  \<^item> \<open>Handles\<close>, \<open>Collector_Contract\<close>: tokens of handles, and the locale \<open>generation_collector\<close>, the contract the
    controller relies on: a boundary exchanges the table, is replayed for the same run and epoch and
    refused for an older one, and the section of a handle is what was observed between the two
    boundaries. It is interpreted by \<open>Counters\<close> (\<open>counters/counters.go\<close>, \<open>generation.go\<close>); \<open>Swap_Collector\<close>
    is the locale of collectors that close a generation by swapping a registry, a sublocale of the contract, interpreted by
    \<open>Redis\<close> (\<open>redisstats/redisstats.go\<close>, \<open>generation.go\<close>) and \<open>Flow_Stats\<close> (\<open>flowstats/flowstats.go\<close>, \<open>generation.go\<close>).
  \<^item> \<open>Sql_Store\<close> (\<open>sqlstats/store.go\<close>, \<open>generation.go\<close>): the same contract where work outlives the boundary. A
    query belongs to the run in which it started; a specification that attributes each result to its
    start is shown to be simulated by the store.
  \<^item> \<open>Sql_Classify\<close>, \<open>Sql_Rows\<close> (\<open>sqlrows/classify.go\<close>, \<open>sample.go\<close>, \<open>section.go\<close>, \<open>delta.go\<close>): statement families
    and the interval between two readings of cumulative server counters.
  \<^item> \<open>Request_Work\<close> (\<open>internal/requestwork/requestwork.go\<close>): the sweep over interval edges, shown equal to the
    measure of the instants of each class.
  \<^item> \<open>Request_Sql\<close> (\<open>internal/requestsql/requestsql.go\<close>): the SQL calls of a request, frozen on close.
  \<^item> \<open>Http_Paths\<close>, \<open>Http_Table\<close>, \<open>Http_Stats\<close> (\<open>httpstats/httpstats.go\<close>, \<open>request_work.go\<close>, \<open>generation.go\<close>): path
    normalization, the bounded table with SQL shapes and dependency calls, and the generations that requests pin, with long-lived
    and hijacked connections and the middleware's hooks. \<open>Http_Rows\<close> shows what a table holds; \<open>Http_Windows\<close>
    puts the collector and its requests into one state on which operations interleave freely, with an invariant
    kept by every one; \<open>Http_Sections\<close> derives what the section of a run holds and when draining ends.
  \<^item> \<open>Go_Regexp\<close>, \<open>Query_Shapes\<close> (\<open>sqlstats/normalize.go\<close>): a leftmost-first matcher, the scrubber, and the shape a
    statement is reported under, with its cache.
  \<^item> \<open>Registries\<close> (\<open>internal/health\<close>, \<open>internal/profileowner\<close>, \<open>runctl/initialize.go\<close>, \<open>id.go\<close>): health entries as a
    function of their history, one owner of diagnostics, and the guard of initialize handlers as a step relation.
  \<^item> \<open>Timeline\<close> (\<open>internal/timeline/collector.go\<close>, \<open>model.go\<close>): the run-aligned timeline with its buckets, operation rows and
    resource samples. \<open>Timeline_Theorems\<close> shows its invariant and that a run's start and end commute; \<open>Timeline_Rows\<close> interprets
    \<open>overflow_table\<close> on its buckets and shows every published row exact.
  \<^item> \<open>Access_Log\<close> (\<open>accesslog/aggregate.go\<close>): the aggregator over parsed records; \<open>Access_Rows\<close>, \<open>Access_Journeys\<close> and
    \<open>Access_Bounds\<close> show that rows add up, that journeys and flows are those of the visitors' page
    sequences, and that memory is bounded.
  \<^item> \<open>Flow_Viz\<close> (\<open>flowviz/config.go\<close>, \<open>aggregate.go\<close>, \<open>graph.go\<close>): funnels and the transition graph, a nil receiver
    being a disabled one; \<open>Flow_Latency\<close>, \<open>Funnel_Theorems\<close> and \<open>Graph_Theorems\<close> relate them to the visits observed.
  \<^item> \<open>Checked\<close>, \<open>Profile_Model\<close>, \<open>Profile_Validate\<close> (\<open>internal/profilemodel\<close>): overflow-checked arithmetic, the published
    model and every validator. \<open>Pprof\<close>, \<open>Flame\<close> (\<open>internal/pprofanalyze\<close>): budgets, aggregation and deltas, and the flame
    graph; \<open>Pprof_Theorems\<close> and \<open>Flame_Theorems\<close> show the numbers exact, the result acceptable to the validators,
    and where the layout overflows.

  \<^bold>\<open>Bounds and termination.\<close> Every definition is total. Loops over slices are structural recursions or
  folds; the eviction loop, the statement tokenizer and the scrubber terminate by a measure on the remaining list, the
  flame layout by a measure on the sizes of the trees, the matcher by the expression and the remaining text, and
  an observation that overflows calls itself once. No fuel is used. Waiting is modelled by the two states a waiter sees, on entry and on wake-up, so no
  definition diverges. Durations of a request are assumed to fit in 64 bits (about 292 years).

  \<^bold>\<open>Not modelled.\<close> The web interface, the commands and the facade (handlers and wiring), the framework
  adapters, capture of profiles, host, network and database readings (I/O), multi-host transport, the SQL
  driver wrapper and target registry, the advisor's texts, log parsing and tailing. In \<open>httpstats\<close>: the response
  writer, the route pattern a context carries, profile labels, the calls into the timeline and the parsing of rules; averages of
  connections, which the code keeps in floating point, appear as their sums, and the timeline's
  percentages as numerators and denominators, without the analysis derived from them. In the modelled packages: package-level default instances, context plumbing, the
  watchdog ticker, and copies that only protect against aliasing, which are the identity on values.
\<close>

end
